(* ===== verification/Prelude.thy ===== *)
theory Prelude
  imports Main "HOL-Library.Word"
begin

text \<open>
  Shared vocabulary of the development: results of fallible code as sums, the
  state-and-error computations used where the driver threads a counter or a socket
  through calls that may raise, and the automation both come with.

  A raise of the source is \<open>Inl e\<close>.  A computation of type \<open>('s, 'e, 'a) comp\<close>
  returns its final state also when it raises: an exception of the source does not undo the
  side effects that came before it.
\<close>

named_theorems res_simps \<open>rewriting of sum-typed results\<close>
named_theorems comp_simps \<open>running state-and-error computations\<close>

subsection \<open>Results\<close>

definition rbind :: "'e + 'a \<Rightarrow> ('a \<Rightarrow> 'e + 'b) \<Rightarrow> 'e + 'b" where
  "rbind m f = (case m of Inl e \<Rightarrow> Inl e | Inr a \<Rightarrow> f a)"

lemma rbind_Inl [simp]: "rbind (Inl e) f = Inl e"
  by (simp add: rbind_def)

lemma rbind_Inr [simp]: "rbind (Inr a) f = f a"
  by (simp add: rbind_def)

lemma rbind_eq_Inr [res_simps]: "rbind m f = Inr b \<longleftrightarrow> (\<exists>a. m = Inr a \<and> f a = Inr b)"
  by (cases m) auto

lemma rbind_eq_Inl [res_simps]:
  "rbind m f = Inl e \<longleftrightarrow> m = Inl e \<or> (\<exists>a. m = Inr a \<and> f a = Inl e)"
  by (cases m) auto

lemma rbind_cong [fundef_cong]:
  "m = m' \<Longrightarrow> (\<And>a. m' = Inr a \<Longrightarrow> f a = f' a) \<Longrightarrow> rbind m f = rbind m' f'"
  by (cases m') auto

lemma rbind_assoc: "rbind (rbind m f) g = rbind m (\<lambda>a. rbind (f a) g)"
  by (cases m) auto

definition rmap :: "('a \<Rightarrow> 'b) \<Rightarrow> 'e + 'a \<Rightarrow> 'e + 'b" where
  "rmap f m = rbind m (\<lambda>a. Inr (f a))"

lemma rmap_simps [simp]: "rmap f (Inl e) = Inl e" "rmap f (Inr a) = Inr (f a)"
  by (simp_all add: rmap_def)

lemma rmap_eq_Inr [res_simps]: "rmap f m = Inr b \<longleftrightarrow> (\<exists>a. m = Inr a \<and> b = f a)"
  by (cases m) auto

definition is_ok :: "'e + 'a \<Rightarrow> bool" where
  "is_ok m = (case m of Inl _ \<Rightarrow> False | Inr _ \<Rightarrow> True)"

lemma is_ok_simps [simp]: "is_ok (Inr a)" "\<not> is_ok (Inl e)"
  by (simp_all add: is_ok_def)

lemma is_ok_iff: "is_ok m \<longleftrightarrow> (\<exists>a. m = Inr a)"
  by (cases m) auto

lemma is_ok_rbind [res_simps]: "is_ok (rbind m f) \<longleftrightarrow> (\<exists>a. m = Inr a \<and> is_ok (f a))"
  by (cases m) auto

lemma is_ok_rmap [simp]: "is_ok (rmap f m) = is_ok m"
  by (cases m) auto

text \<open>Evaluating a list comprehension whose elements may raise: left to right, first
  exception wins.\<close>

fun seqr :: "('e + 'a) list \<Rightarrow> 'e + 'a list" where
  "seqr [] = Inr []"
| "seqr (m # ms) = rbind m (\<lambda>a. rmap (Cons a) (seqr ms))"

lemma seqr_eq_Inr: "seqr ms = Inr as \<longleftrightarrow> ms = map Inr as"
  by (induction ms arbitrary: as) (auto simp: res_simps)

lemma seqr_map_Inr [simp]: "seqr (map (\<lambda>x. Inr (f x)) xs) = Inr (map f xs)"
  by (induction xs) auto

lemma is_ok_seqr [simp]: "is_ok (seqr ms) \<longleftrightarrow> (\<forall>m \<in> set ms. is_ok m)"
  by (induction ms) (auto simp: res_simps is_ok_iff)

lemma seqr_length: "seqr ms = Inr as \<Longrightarrow> length as = length ms"
  by (auto simp: seqr_eq_Inr)

lemma seqr_nth: "seqr ms = Inr as \<Longrightarrow> i < length ms \<Longrightarrow> ms ! i = Inr (as ! i)"
  by (auto simp: seqr_eq_Inr)

subsection \<open>State-and-error computations\<close>

type_synonym ('s, 'e, 'a) comp = "'s \<Rightarrow> ('e + 'a) \<times> 's"

definition ret :: "'a \<Rightarrow> ('s, 'e, 'a) comp" where
  "ret a = (\<lambda>s. (Inr a, s))"

definition raise :: "'e \<Rightarrow> ('s, 'e, 'a) comp" where
  "raise e = (\<lambda>s. (Inl e, s))"

definition bind :: "('s, 'e, 'a) comp \<Rightarrow> ('a \<Rightarrow> ('s, 'e, 'b) comp) \<Rightarrow> ('s, 'e, 'b) comp" where
  "bind m f = (\<lambda>s. case m s of (Inl e, s') \<Rightarrow> (Inl e, s') | (Inr a, s') \<Rightarrow> f a s')"

definition lift_res :: "'e + 'a \<Rightarrow> ('s, 'e, 'a) comp" where
  "lift_res r = (\<lambda>s. (r, s))"

lemma ret_eq [comp_simps]: "ret a s = (r, t) \<longleftrightarrow> r = Inr a \<and> t = s"
  by (auto simp: ret_def)

lemma raise_eq [comp_simps]: "raise e s = (r, t) \<longleftrightarrow> r = Inl e \<and> t = s"
  by (auto simp: raise_def)

lemma lift_res_eq [comp_simps]: "lift_res r s = (r', t) \<longleftrightarrow> r' = r \<and> t = s"
  by (auto simp: lift_res_def)

lemma snd_ret [simp]: "snd (ret a s) = s"
  by (simp add: ret_def)

lemma snd_raise [simp]: "snd (raise e s) = s"
  by (simp add: raise_def)

lemma snd_lift_res [simp]: "snd (lift_res r s) = s"
  by (simp add: lift_res_def)

lemma bind_ret [simp]: "bind (ret a) f = f a"
  by (auto simp: bind_def ret_def)

lemma bind_raise [simp]: "bind (raise e) f = raise e"
  by (auto simp: bind_def raise_def)

lemma bind_Inr [comp_simps]:
  "bind m f s = (Inr b, t) \<longleftrightarrow> (\<exists>a s'. m s = (Inr a, s') \<and> f a s' = (Inr b, t))"
  by (auto simp: bind_def split: prod.splits sum.splits)

lemma bind_Inl [comp_simps]:
  "bind m f s = (Inl e, t) \<longleftrightarrow>
     m s = (Inl e, t) \<or> (\<exists>a s'. m s = (Inr a, s') \<and> f a s' = (Inl e, t))"
  by (auto simp: bind_def split: prod.splits sum.splits)

text \<open>The two rules by which the components run a \<open>bind\<close> whose first half is known.\<close>

lemma bind_run_Inr: "m s = (Inr a, s') \<Longrightarrow> bind m f s = f a s'"
  by (simp add: bind_def)

lemma bind_run_Inl: "m s = (Inl e, s') \<Longrightarrow> bind m f s = (Inl e, s')"
  by (simp add: bind_def)

fun seqs :: "('s, 'e, 'a) comp list \<Rightarrow> ('s, 'e, 'a list) comp" where
  "seqs [] = ret []"
| "seqs (m # ms) = bind m (\<lambda>a. bind (seqs ms) (\<lambda>as. ret (a # as)))"

lemma seqs_ret [simp]: "seqs (map (\<lambda>x. ret (f x)) xs) = ret (map f xs)"
  by (induction xs) auto

lemma seqs_Inr_length: "seqs ms s = (Inr as, t) \<Longrightarrow> length as = length ms"
  by (induction ms arbitrary: s as t) (auto simp: comp_simps)

text \<open>What every action of a list establishes for its result, the whole run establishes
  for the list of results.\<close>

lemma seqs_all:
  assumes "seqs ms s = (Inr as, t)"
    and "\<And>m u a u'. m \<in> set ms \<Longrightarrow> m u = (Inr a, u') \<Longrightarrow> P a"
  shows "\<forall>a \<in> set as. P a"
  using assms
proof (induction ms arbitrary: s as t)
  case Nil
  then show ?case by (simp add: comp_simps)
next
  case (Cons m ms)
  from Cons.prems(1) obtain a s' as' where
    m: "m s = (Inr a, s')" and ms: "seqs ms s' = (Inr as', t)" and as: "as = a # as'"
    by (auto simp: comp_simps)
  have "\<forall>a \<in> set as'. P a"
    by (rule Cons.IH [OF ms]) (auto intro: Cons.prems(2))
  moreover have "P a" using Cons.prems(2) m by auto
  ultimately show ?case by (simp add: as)
qed

text \<open>A reflexive and transitive relation that every action keeps between its start and its
  final state is kept by the whole run, exceptions included.\<close>

definition steps_within :: "('s \<Rightarrow> 's \<Rightarrow> bool) \<Rightarrow> ('s, 'e, 'a) comp \<Rightarrow> bool" where
  "steps_within R m \<longleftrightarrow> (\<forall>s. R s (snd (m s)))"

lemma steps_withinI [intro]: "(\<And>s. R s (snd (m s))) \<Longrightarrow> steps_within R m"
  by (simp add: steps_within_def)

lemma steps_withinD: "steps_within R m \<Longrightarrow> m s = (r, t) \<Longrightarrow> R s t"
  by (metis steps_within_def snd_conv)

lemma steps_within_ret [simp]: "reflp R \<Longrightarrow> steps_within R (ret a)"
  by (auto simp: steps_within_def reflp_def comp_simps)

lemma steps_within_raise [simp]: "reflp R \<Longrightarrow> steps_within R (raise e)"
  by (auto simp: steps_within_def reflp_def comp_simps)

lemma steps_within_lift_res [simp]: "reflp R \<Longrightarrow> steps_within R (lift_res r)"
  by (auto simp: steps_within_def reflp_def comp_simps)

lemma steps_within_bind:
  assumes "transp R" and "steps_within R m" and "\<And>a. steps_within R (f a)"
  shows "steps_within R (bind m f)"
proof
  fix s
  show "R s (snd (bind m f s))"
  proof (cases "m s")
    case (Pair r s')
    then have 1: "R s s'" using assms(2) by (auto dest: steps_withinD)
    show ?thesis
    proof (cases r)
      case (Inl e)
      then show ?thesis using 1 Pair by (simp add: bind_def)
    next
      case (Inr a)
      have "R s' (snd (f a s'))" using assms(3) by (simp add: steps_within_def)
      then show ?thesis using 1 Pair Inr assms(1) by (auto simp: bind_def dest: transpD)
    qed
  qed
qed

lemma steps_within_seqs:
  assumes "reflp R" and "transp R" and "\<forall>m \<in> set ms. steps_within R m"
  shows "steps_within R (seqs ms)"
  using assms(3) by (induction ms) (auto intro!: steps_within_bind simp: assms)

end
