(* ===== verification/PyData.thy ===== *)
theory PyData
  imports Prelude
begin

text \<open>
  What the driver uses of Python's data: dictionaries in insertion order, text, byte strings,
  decimal rendering of integers, \<open>split\<close>, \<open>replace\<close> and \<open>rstrip\<close>, little-endian
  packing.

  A Python \<open>str\<close> is a \<open>string\<close> whose characters are code points below 256 (Isabelle's
  \<open>char\<close> has exactly these); a Python \<open>bytes\<close> is a list of \<open>8 word\<close>.  \<open>latin1\<close>
  is what \<open>six.b\<close> does to a text, \<open>utf8_encode\<close> what \<open>.encode("utf-8")\<close> does,
  with two bytes for a code point from 128.
\<close>

named_theorems dict_simps \<open>looking up after insertion and deletion\<close>

subsection \<open>Dictionaries\<close>

text \<open>The interface the components use: a lookup and the laws of insertion and deletion.\<close>

locale dictionary =
  fixes get :: "'d \<Rightarrow> 'k \<Rightarrow> 'v option"
    and put :: "'d \<Rightarrow> 'k \<Rightarrow> 'v \<Rightarrow> 'd"
    and del :: "'d \<Rightarrow> 'k \<Rightarrow> 'd"
    and new :: 'd
  assumes get_new: "get new k = None"
    and get_put: "get (put d k v) = (get d)(k \<mapsto> v)"
    and get_del: "get (del d k) = (get d)(k := None)"
begin

lemma get_put_same: "get (put d k v) k = Some v"
  by (simp add: get_put)

lemma get_put_other: "k' \<noteq> k \<Longrightarrow> get (put d k v) k' = get d k'"
  by (simp add: get_put)

lemma get_del_same: "get (del d k) k = None"
  by (simp add: get_del)

lemma get_del_other: "k' \<noteq> k \<Longrightarrow> get (del d k) k' = get d k'"
  by (simp add: get_del)

lemma get_foldl_put:
  "get (foldl (\<lambda>d (k, v). put d k v) d kvs) = get d ++ map_of (rev kvs)"
  by (induction kvs arbitrary: d) (auto simp: get_put map_add_def fun_eq_iff split: option.splits)

lemma get_foldl_del:
  "get (foldl del d ks) = (\<lambda>k. if k \<in> set ks then None else get d k)"
  by (induction ks arbitrary: d) (auto simp: get_del fun_eq_iff)

end

type_synonym ('k, 'v) dict = "('k \<times> 'v) list"

text \<open>Insertion keeps the position of a key that is present and appends a new one.\<close>

fun dict_put :: "('k, 'v) dict \<Rightarrow> 'k \<Rightarrow> 'v \<Rightarrow> ('k, 'v) dict" where
  "dict_put [] k v = [(k, v)]"
| "dict_put ((k', v') # d) k v = (if k' = k then (k, v) # d else (k', v') # dict_put d k v)"

definition dict_del :: "('k, 'v) dict \<Rightarrow> 'k \<Rightarrow> ('k, 'v) dict" where
  "dict_del d k = filter (\<lambda>kv. fst kv \<noteq> k) d"

definition dict_of :: "('k \<times> 'v) list \<Rightarrow> ('k, 'v) dict" where
  "dict_of kvs = foldl (\<lambda>d (k, v). dict_put d k v) [] kvs"

lemma map_of_dict_put: "map_of (dict_put d k v) = (map_of d)(k \<mapsto> v)"
  by (induction d k v rule: dict_put.induct) (auto simp: fun_eq_iff)

lemma map_of_dict_del: "map_of (dict_del d k) = (map_of d)(k := None)"
  by (induction d) (auto simp: dict_del_def fun_eq_iff)

interpretation pydict: dictionary map_of dict_put dict_del "[]"
  by unfold_locales (simp_all add: map_of_dict_put map_of_dict_del)

lemmas [dict_simps] = map_of_dict_put map_of_dict_del pydict.get_foldl_put

lemma dict_put_keys: "fst ` set (dict_put d k v) = insert k (fst ` set d)"
  by (induction d k v rule: dict_put.induct) auto

lemma dict_put_values: "snd ` set (dict_put d k v) \<subseteq> insert v (snd ` set d)"
  by (induction d k v rule: dict_put.induct) auto

lemma dict_put_distinct: "distinct (map fst d) \<Longrightarrow> distinct (map fst (dict_put d k v))"
proof (induction d k v rule: dict_put.induct)
  case (2 k' v' d k v)
  have "fst ` set (dict_put d k v) = insert k (fst ` set d)" by (rule dict_put_keys)
  with 2 show ?case by auto
qed simp

lemma dict_put_fresh: "k \<notin> fst ` set d \<Longrightarrow> dict_put d k v = d @ [(k, v)]"
  by (induction d k v rule: dict_put.induct) auto

lemma dict_of_distinct_keys: "distinct (map fst (dict_of kvs))"
proof -
  have "distinct (map fst d) \<Longrightarrow>
    distinct (map fst (foldl (\<lambda>d (k, v). dict_put d k v) d kvs))" for d :: "('a \<times> 'b) list"
    by (induction kvs arbitrary: d) (auto simp: dict_put_distinct)
  then show ?thesis by (simp add: dict_of_def)
qed

lemma dict_put_subset: "set (dict_put d k v) \<subseteq> insert (k, v) (set d)"
  by (induction d k v rule: dict_put.induct) auto

lemma dict_of_subset: "set (dict_of kvs) \<subseteq> set kvs"
proof -
  have "set (foldl (\<lambda>d (k, v). dict_put d k v) d kvs) \<subseteq> set d \<union> set kvs" for d :: "('a \<times> 'b) list"
  proof (induction kvs arbitrary: d)
    case (Cons kv kvs)
    obtain k v where "kv = (k, v)" by (cases kv)
    then show ?case using Cons [of "dict_put d k v"] dict_put_subset [of d k v] by auto
  qed simp
  then show ?thesis by (force simp: dict_of_def)
qed

lemma dict_of_lookup: "map_of (dict_of kvs) = map_of (rev kvs)"
  by (simp add: dict_of_def pydict.get_foldl_put)

lemma dict_of_distinct: "distinct (map fst kvs) \<Longrightarrow> dict_of kvs = kvs"
proof -
  have "distinct (map fst (d @ kvs)) \<Longrightarrow>
    foldl (\<lambda>d (k, v). dict_put d k v) d kvs = d @ kvs" for d :: "('a \<times> 'b) list"
  proof (induction kvs arbitrary: d)
    case (Cons kv kvs)
    obtain k v where kv: "kv = (k, v)" by (cases kv)
    from Cons.prems have "dict_put d k v = d @ [(k, v)]"
      by (intro dict_put_fresh) (auto simp: kv)
    then show ?case using Cons.IH [of "d @ [(k, v)]"] Cons.prems by (simp add: kv)
  qed simp
  from this [of "[]"] show "distinct (map fst kvs) \<Longrightarrow> dict_of kvs = kvs"
    by (simp add: dict_of_def)
qed

lemma dict_del_keys: "fst ` set (dict_del d k) = fst ` set d - {k}"
  by (auto simp: dict_del_def)

lemma dict_del_distinct: "distinct (map fst d) \<Longrightarrow> distinct (map fst (dict_del d k))"
  by (induction d) (auto simp: dict_del_def)

lemma dict_del_absent: "map_of d k = None \<Longrightarrow> dict_del d k = d"
  by (induction d) (auto simp: dict_del_def split: if_splits)

subsection \<open>Text\<close>

definition chr :: "nat \<Rightarrow> char" where
  "chr n = char_of n"

definition code_point :: "char \<Rightarrow> nat" where
  "code_point c = of_char c"

lemma code_point_chr [simp]: "n < 256 \<Longrightarrow> code_point (chr n) = n"
  by (simp add: code_point_def chr_def)

lemma chr_code_point [simp]: "chr (code_point c) = c"
  by (simp add: code_point_def chr_def)

lemma code_point_less [simp]: "code_point c < 256"
  by (simp add: code_point_def)

lemma code_point_eq_iff: "code_point c = code_point d \<longleftrightarrow> c = d"
  by (metis chr_code_point)

fun join :: "'a list \<Rightarrow> 'a list list \<Rightarrow> 'a list" where
  "join sep [] = []"
| "join sep [x] = x"
| "join sep (x # y # ys) = x @ sep @ join sep (y # ys)"

lemma join_Cons: "ys \<noteq> [] \<Longrightarrow> join sep (x # ys) = x @ sep @ join sep ys"
  by (cases ys) auto

definition rstrip :: "'a \<Rightarrow> 'a list \<Rightarrow> 'a list" where
  "rstrip c s = rev (dropWhile (\<lambda>x. x = c) (rev s))"

text \<open>\<open>s.replace(x, rep)\<close> for a single character or byte \<open>x\<close>.\<close>

definition replace1 :: "'a \<Rightarrow> 'a list \<Rightarrow> 'a list \<Rightarrow> 'a list" where
  "replace1 x rep s = concat (map (\<lambda>c. if c = x then rep else [c]) s)"

lemma replace1_Nil [simp]: "replace1 x rep [] = []"
  by (simp add: replace1_def)

lemma replace1_Cons [simp]:
  "replace1 x rep (c # s) = (if c = x then rep else [c]) @ replace1 x rep s"
  by (simp add: replace1_def)

lemma replace1_append: "replace1 x rep (s @ t) = replace1 x rep s @ replace1 x rep t"
  by (simp add: replace1_def)

lemma set_replace1: "set (replace1 x rep s) \<subseteq> (set s - {x}) \<union> set rep"
  by (auto simp: replace1_def)

lemma replace1_absent: "x \<notin> set s \<Longrightarrow> replace1 x rep s = s"
  by (induction s) auto

text \<open>\<open>s.replace(old, new)\<close> for a non-empty \<open>old\<close>: leftmost occurrences, not overlapping.\<close>

function replace_str :: "string \<Rightarrow> string \<Rightarrow> string \<Rightarrow> string" where
  "replace_str old rep s =
     (if s = [] \<or> old = [] then s
      else if take (length old) s = old then rep @ replace_str old rep (drop (length old) s)
      else hd s # replace_str old rep (tl s))"
  by pat_completeness auto
termination
  by (relation "measure (\<lambda>(old, rep, s). length s)") auto

declare replace_str.simps [simp del]

text \<open>\<open>s.split(sep)\<close> on a single separator, and \<open>s.split(sep, 1)\<close>.\<close>

fun split_on :: "'a \<Rightarrow> 'a list \<Rightarrow> 'a list list" where
  "split_on sep [] = [[]]"
| "split_on sep (c # s) =
     (if c = sep then [] # split_on sep s
      else (case split_on sep s of [] \<Rightarrow> [[c]] | w # ws \<Rightarrow> (c # w) # ws))"

definition split_once :: "'a \<Rightarrow> 'a list \<Rightarrow> 'a list list" where
  "split_once sep s =
     (if sep \<in> set s
      then [takeWhile (\<lambda>c. c \<noteq> sep) s, tl (dropWhile (\<lambda>c. c \<noteq> sep) s)] else [s])"

lemma split_on_nonempty [simp]: "split_on sep s \<noteq> []"
  by (induction s) (auto split: list.splits)

lemma split_on_no_sep: "sep \<notin> set s \<Longrightarrow> split_on sep s = [s]"
  by (induction s) auto

lemma split_on_append_sep: "sep \<notin> set s \<Longrightarrow> split_on sep (s @ sep # t) = s # split_on sep t"
  by (induction s) auto

lemma split_on_join:
  "ws \<noteq> [] \<Longrightarrow> \<forall>w \<in> set ws. sep \<notin> set w \<Longrightarrow> split_on sep (join [sep] ws) = ws"
  by (induction "[sep]" ws rule: join.induct) (auto simp: split_on_no_sep split_on_append_sep)

lemma join_split_on: "join [sep] (split_on sep s) = s"
proof (induction s)
  case (Cons c s)
  obtain w ws where sp: "split_on sep s = w # ws"
    by (cases "split_on sep s") auto
  with Cons show ?case by (cases ws) auto
qed simp

lemma split_on_no_sep_parts: "w \<in> set (split_on sep s) \<Longrightarrow> sep \<notin> set w"
  by (induction s arbitrary: w) (auto split: list.splits if_splits)

lemma split_once_append: "sep \<notin> set s \<Longrightarrow> split_once sep (s @ sep # t) = [s, t]"
proof -
  assume "sep \<notin> set s"
  then have "\<forall>x \<in> set s. x \<noteq> sep" by auto
  then show ?thesis
    by (simp add: split_once_def takeWhile_append2 dropWhile_append2)
qed

subsection \<open>Integers in decimal\<close>

definition digit_char :: "nat \<Rightarrow> char" where
  "digit_char n = chr (48 + n)"

definition is_digit :: "char \<Rightarrow> bool" where
  "is_digit c \<longleftrightarrow> 48 \<le> code_point c \<and> code_point c \<le> 57"

definition digit_val :: "char \<Rightarrow> nat" where
  "digit_val c = code_point c - 48"

fun show_nat :: "nat \<Rightarrow> string" where
  "show_nat n = (if n < 10 then [digit_char n] else show_nat (n div 10) @ [digit_char (n mod 10)])"

declare show_nat.simps [simp del]

definition show_int :: "int \<Rightarrow> string" where
  "show_int i = (if i < 0 then CHR ''-'' # show_nat (nat (- i)) else show_nat (nat i))"

fun read_digits :: "nat \<Rightarrow> string \<Rightarrow> nat" where
  "read_digits acc [] = acc"
| "read_digits acc (c # s) = read_digits (10 * acc + digit_val c) s"

lemma digit_char_simps [simp]:
  "n < 10 \<Longrightarrow> is_digit (digit_char n)" "n < 10 \<Longrightarrow> digit_val (digit_char n) = n"
  by (simp_all add: digit_char_def is_digit_def digit_val_def)

lemma digit_char_0: "digit_char 0 = CHR ''0''"
  by code_simp

lemma read_digits_append: "read_digits a (s @ t) = read_digits (read_digits a s) t"
  by (induction s arbitrary: a) auto

lemma read_show_nat [simp]: "read_digits 0 (show_nat n) = n"
proof (induction n rule: show_nat.induct)
  case (1 n)
  then show ?case
    by (subst show_nat.simps) (auto simp: read_digits_append mult.commute)
qed

lemma show_nat_digits: "c \<in> set (show_nat n) \<Longrightarrow> is_digit c"
proof (induction n rule: show_nat.induct)
  case (1 n)
  then show ?case by (subst (asm) (2) show_nat.simps) (auto split: if_splits)
qed

lemma show_nat_nonempty [simp]: "show_nat n \<noteq> []"
  by (subst show_nat.simps) simp

lemma show_nat_inj: "show_nat m = show_nat n \<Longrightarrow> m = n"
  by (metis read_show_nat)

text \<open>No leading zero but in the numeral of 0 itself.\<close>

lemma hd_show_nat: "hd (show_nat n) = digit_char 0 \<Longrightarrow> n = 0"
proof (induction n rule: show_nat.induct)
  case (1 n)
  show ?case
  proof (cases "n < 10")
    case True
    with "1.prems" have "digit_char n = digit_char 0" by (subst (asm) show_nat.simps) simp
    with True show ?thesis by (metis digit_char_simps(2) zero_less_numeral)
  next
    case False
    with "1.prems" have "hd (show_nat (n div 10)) = digit_char 0"
      by (subst (asm) show_nat.simps) simp
    with False "1.IH" have "n div 10 = 0" by simp
    with False show ?thesis by simp
  qed
qed

lemma show_nat_singleton: "show_nat n = digit_char 0 # s \<Longrightarrow> n = 0 \<and> s = []"
  using hd_show_nat [of n] by (auto simp: show_nat.simps [of 0])

subsection \<open>Byte strings\<close>

type_synonym byte = "8 word"

text \<open>The byte of a number; a definition of its own, so that \<open>simp\<close> does not take a
  literal sum apart.\<close>

definition byte_nat :: "nat \<Rightarrow> byte" where
  "byte_nat n = word_of_nat n"

definition byte_of :: "char \<Rightarrow> byte" where
  "byte_of c = byte_nat (code_point c)"

definition char_of_byte :: "byte \<Rightarrow> char" where
  "char_of_byte b = chr (unat b)"

lemma unat_byte_less [simp]: "unat (b :: byte) < 256"
proof -
  have "unat b < 2 ^ LENGTH(8)" by (rule unsigned_less)
  then show ?thesis by simp
qed

lemma unat_byte_nat [simp]: "unat (byte_nat n) = n mod 256"
  by (simp add: byte_nat_def unat_of_nat)

lemma byte_nat_unat [simp]: "byte_nat (unat b) = b"
  by (simp add: byte_nat_def)

lemma byte_eq_iff: "b = c \<longleftrightarrow> unat b = unat (c :: byte)"
  by (metis byte_nat_unat)

lemma unat_byte_of [simp]: "unat (byte_of c) = code_point c"
  by (simp add: byte_of_def)

lemma char_of_byte_of [simp]: "char_of_byte (byte_of c) = c"
  by (simp add: char_of_byte_def)

lemma byte_of_char_of [simp]: "byte_of (char_of_byte b) = b"
  by (simp add: byte_of_def char_of_byte_def)

lemma byte_of_eq_iff [simp]: "byte_of c = byte_of d \<longleftrightarrow> c = d"
  by (metis char_of_byte_of)

definition latin1 :: "string \<Rightarrow> byte list" where
  "latin1 s = map byte_of s"

definition unlatin1 :: "byte list \<Rightarrow> string" where
  "unlatin1 bs = map char_of_byte bs"

lemma unlatin1_latin1 [simp]: "unlatin1 (latin1 s) = s"
  by (simp add: latin1_def unlatin1_def o_def)

lemma latin1_unlatin1 [simp]: "latin1 (unlatin1 bs) = bs"
  by (simp add: latin1_def unlatin1_def o_def)

lemma latin1_append [simp]: "latin1 (s @ t) = latin1 s @ latin1 t"
  by (simp add: latin1_def)

lemma latin1_Nil [simp]: "latin1 [] = []"
  by (simp add: latin1_def)

lemma latin1_Cons: "latin1 (c # s) = byte_of c # latin1 s"
  by (simp add: latin1_def)

lemma length_latin1 [simp]: "length (latin1 s) = length s"
  by (simp add: latin1_def)

lemma latin1_inj: "latin1 s = latin1 t \<Longrightarrow> s = t"
  by (metis unlatin1_latin1)

text \<open>Little-endian integers of a fixed number of bytes, as \<open>struct.pack\<close> writes them.\<close>

fun le_bytes :: "nat \<Rightarrow> nat \<Rightarrow> byte list" where
  "le_bytes 0 n = []"
| "le_bytes (Suc w) n = byte_nat n # le_bytes w (n div 256)"

fun le_val :: "byte list \<Rightarrow> nat" where
  "le_val [] = 0"
| "le_val (b # bs) = unat b + 256 * le_val bs"

lemma length_le_bytes [simp]: "length (le_bytes w n) = w"
  by (induction w arbitrary: n) auto

lemma le_val_le_bytes: "le_val (le_bytes w n) = n mod 256 ^ w"
proof (induction w arbitrary: n)
  case (Suc w)
  have "n mod 256 ^ Suc w = n mod 256 + 256 * (n div 256 mod 256 ^ w)"
    by (metis power_Suc mod_mult2_eq add.commute)
  then show ?case by (simp add: Suc)
qed simp

lemma le_val_less: "le_val bs < 256 ^ length bs"
proof (induction bs)
  case (Cons b bs)
  have "unat b < 256" by simp
  moreover have "Suc (le_val bs) \<le> 256 ^ length bs" using Cons by simp
  then have "256 * Suc (le_val bs) \<le> 256 * 256 ^ length bs" by (rule mult_le_mono2)
  ultimately have "unat b + 256 * le_val bs < 256 * 256 ^ length bs"
    unfolding mult_Suc_right by (rule less_le_trans [OF add_strict_right_mono])
  then show ?case by simp
qed simp

lemma le_bytes_le_val: "le_bytes (length bs) (le_val bs) = bs"
proof (induction bs)
  case (Cons b bs)
  have "unat b < 256" by simp
  then have "(unat b + 256 * le_val bs) div 256 = le_val bs" by simp
  moreover have "byte_nat (unat b + 256 * le_val bs) = b"
    by (simp add: byte_eq_iff)
  ultimately show ?case using Cons by simp
qed simp

subsection \<open>UTF-8, for code points below 256\<close>

datatype unicode_error = UnicodeDecodeError

definition utf8_char :: "char \<Rightarrow> byte list" where
  "utf8_char c =
     (if code_point c < 128 then [byte_of c]
      else [byte_nat (192 + code_point c div 64), byte_nat (128 + code_point c mod 64)])"

definition utf8_encode :: "string \<Rightarrow> byte list" where
  "utf8_encode s = concat (map utf8_char s)"

text \<open>Lead bytes 0xC2 and 0xC3 start the two-byte code points below 256; every other byte
  above 127 is an error here (it is one in Python too, or starts a code point outside the
  model).\<close>

fun utf8_decode :: "byte list \<Rightarrow> unicode_error + string" where
  "utf8_decode [] = Inr []"
| "utf8_decode [b] = (if unat b < 128 then Inr [char_of_byte b] else Inl UnicodeDecodeError)"
| "utf8_decode (b # b' # bs) =
     (if unat b < 128 then rmap (Cons (char_of_byte b)) (utf8_decode (b' # bs))
      else if (unat b = 194 \<or> unat b = 195) \<and> 128 \<le> unat b' \<and> unat b' < 192
      then rmap (Cons (chr (64 * (unat b - 192) + (unat b' - 128)))) (utf8_decode bs)
      else Inl UnicodeDecodeError)"

lemma utf8_encode_Nil [simp]: "utf8_encode [] = []"
  by (simp add: utf8_encode_def)

lemma utf8_encode_Cons: "utf8_encode (c # s) = utf8_char c @ utf8_encode s"
  by (simp add: utf8_encode_def)

lemma utf8_encode_append [simp]: "utf8_encode (s @ t) = utf8_encode s @ utf8_encode t"
  by (simp add: utf8_encode_def)

lemma utf8_decode_char: "utf8_decode (utf8_char c @ bs) = rmap (Cons c) (utf8_decode bs)"
proof (cases "code_point c < 128")
  case True
  then show ?thesis by (cases bs) (auto simp: utf8_char_def)
next
  case False
  let ?p = "code_point c"
  have d: "?p div 64 = 2 \<or> ?p div 64 = 3" using False code_point_less [of c] by arith
  have l: "?p mod 64 < 64" by simp
  have r: "q * 64 + ?p mod 64 = ?p" if "?p div 64 = q" for q
    using div_mult_mod_eq [of ?p 64] that by simp
  have "?p div 64 = 2 \<Longrightarrow> chr (128 + ?p mod 64) = c" "?p div 64 = 3 \<Longrightarrow> chr (192 + ?p mod 64) = c"
    using r [of 2] r [of 3] by (auto simp del: mod_less)
  then show ?thesis using False d l
    by (auto simp: utf8_char_def)
qed

lemma utf8_decode_encode [simp]: "utf8_decode (utf8_encode s) = Inr s"
  by (induction s) (simp_all add: utf8_encode_Cons utf8_decode_char)

text \<open>On ASCII text UTF-8 and Latin-1 agree, and only there.\<close>

definition is_ascii :: "string \<Rightarrow> bool" where
  "is_ascii s \<longleftrightarrow> (\<forall>c \<in> set s. code_point c < 128)"

lemma utf8_ascii: "is_ascii s \<Longrightarrow> utf8_encode s = latin1 s"
  by (induction s) (auto simp: is_ascii_def utf8_encode_Cons latin1_Cons utf8_char_def)

lemma length_utf8_encode: "length (utf8_encode s) = length s + length (filter (\<lambda>c. 128 \<le> code_point c) s)"
  by (induction s) (auto simp: utf8_encode_Cons utf8_char_def)

lemma utf8_eq_latin1_iff: "utf8_encode s = latin1 s \<longleftrightarrow> is_ascii s"
proof
  assume "utf8_encode s = latin1 s"
  then have "length (filter (\<lambda>c. 128 \<le> code_point c) s) = 0"
    using length_utf8_encode [of s] by simp
  then show "is_ascii s" by (auto simp: is_ascii_def filter_empty_conv not_le)
qed (rule utf8_ascii)

subsection \<open>Codecs\<close>

text \<open>The contract every encoder of the driver is used under: what was encoded is decoded
  again.\<close>

locale codec =
  fixes enc :: "'a \<Rightarrow> 'b" and dec :: "'b \<Rightarrow> 'e + 'a" and valid :: "'a \<Rightarrow> bool"
  assumes dec_enc: "valid x \<Longrightarrow> dec (enc x) = Inr x"
begin

lemma enc_inj: "valid x \<Longrightarrow> valid y \<Longrightarrow> enc x = enc y \<Longrightarrow> x = y"
  by (metis dec_enc sum.inject(2))

lemma dec_enc_ok: "valid x \<Longrightarrow> is_ok (dec (enc x))"
  by (simp add: dec_enc)

end

interpretation utf8: codec utf8_encode utf8_decode "\<lambda>_. True"
  by unfold_locales simp

end
