(* ===== verification/Errors.thy ===== *)
theory Errors
  imports PyData
begin

text \<open>
  The exception classes of \<open>rethinkdb/errors.py\<close>: the hierarchy an \<open>except\<close> clause
  consults, and the exception objects the driver raises, with the message, the query and the
  backtrace frames they carry.  The query is a type parameter here; the query terms are
  modelled in \<open>Ast\<close>, on top of this theory.
\<close>

subsection \<open>Classes\<close>

text \<open>The driver's own classes, then the built-in ones its handlers name.\<close>

datatype exc_class =
    ReqlCursorEmpty | DefaultCursorEmpty
  | ReqlError | ReqlCompileError | ReqlDriverCompileError | ReqlServerCompileError
  | ReqlRuntimeError | ReqlQueryLogicError | ReqlNonExistenceError | ReqlResourceLimitError
  | ReqlUserError | ReqlInternalError | ReqlAvailabilityError | ReqlOpFailedError
  | ReqlOpIndeterminateError | ReqlPermissionError
  | ReqlDriverError | ReqlAuthError | ReqlTimeoutErrorBase | ReqlTimeoutError
  | PyBaseException | PyKeyboardInterrupt | PyException | PyStopIteration | PyOSError
  | PyTimeoutError | PyValueError | PyTypeError | PyAttributeError | PyLookupError | PyKeyError
  | PyIndexError | PyRuntimeError | PyNotImplementedError | PyAssertionError | PyStructError
  | PyArithmeticError | PyOverflowError

fun bases :: "exc_class \<Rightarrow> exc_class list" where
  "bases ReqlCursorEmpty = [PyException]"
| "bases DefaultCursorEmpty = [ReqlCursorEmpty, PyStopIteration]"
| "bases ReqlError = [PyException]"
| "bases ReqlCompileError = [ReqlError]"
| "bases ReqlDriverCompileError = [ReqlCompileError]"
| "bases ReqlServerCompileError = [ReqlCompileError]"
| "bases ReqlRuntimeError = [ReqlError]"
| "bases ReqlQueryLogicError = [ReqlRuntimeError]"
| "bases ReqlNonExistenceError = [ReqlQueryLogicError]"
| "bases ReqlResourceLimitError = [ReqlRuntimeError]"
| "bases ReqlUserError = [ReqlRuntimeError]"
| "bases ReqlInternalError = [ReqlRuntimeError]"
| "bases ReqlAvailabilityError = [ReqlRuntimeError]"
| "bases ReqlOpFailedError = [ReqlAvailabilityError]"
| "bases ReqlOpIndeterminateError = [ReqlAvailabilityError]"
| "bases ReqlPermissionError = [ReqlRuntimeError]"
| "bases ReqlDriverError = [ReqlError]"
| "bases ReqlAuthError = [ReqlDriverError]"
| "bases ReqlTimeoutErrorBase = [ReqlDriverError]"
| "bases ReqlTimeoutError = [ReqlTimeoutErrorBase, PyTimeoutError]"
| "bases PyBaseException = []"
| "bases PyKeyboardInterrupt = [PyBaseException]"
| "bases PyException = [PyBaseException]"
| "bases PyStopIteration = [PyException]"
| "bases PyOSError = [PyException]"
| "bases PyTimeoutError = [PyOSError]"
| "bases PyValueError = [PyException]"
| "bases PyTypeError = [PyException]"
| "bases PyAttributeError = [PyException]"
| "bases PyLookupError = [PyException]"
| "bases PyKeyError = [PyLookupError]"
| "bases PyIndexError = [PyLookupError]"
| "bases PyRuntimeError = [PyException]"
| "bases PyNotImplementedError = [PyRuntimeError]"
| "bases PyAssertionError = [PyException]"
| "bases PyStructError = [PyException]"
| "bases PyArithmeticError = [PyException]"
| "bases PyOverflowError = [PyArithmeticError]"

text \<open>
  The classes above a class, to a depth; six levels reach \<open>BaseException\<close> from everywhere
  (\<open>issubclass_iff\<close> below).
\<close>

fun ancestors :: "nat \<Rightarrow> exc_class \<Rightarrow> exc_class list" where
  "ancestors 0 c = [c]"
| "ancestors (Suc n) c = c # concat (map (ancestors n) (bases c))"

definition issubclass :: "exc_class \<Rightarrow> exc_class \<Rightarrow> bool" where
  "issubclass c d \<longleftrightarrow> d \<in> set (ancestors 6 c)"

inductive derives :: "exc_class \<Rightarrow> exc_class \<Rightarrow> bool" where
  derives_refl: "derives c c"
| derives_step: "b \<in> set (bases c) \<Longrightarrow> derives b d \<Longrightarrow> derives c d"

inductive_simps derives_from: "derives c d"

fun class_depth :: "exc_class \<Rightarrow> nat" where
  "class_depth PyBaseException = 0"
| "class_depth PyException = 1"
| "class_depth c = (if c \<in> {ReqlCursorEmpty, ReqlError, PyStopIteration, PyOSError, PyValueError,
        PyTypeError, PyAttributeError, PyLookupError, PyRuntimeError, PyAssertionError,
        PyStructError, PyArithmeticError} then 2
      else if c = PyKeyboardInterrupt then 1
      else if c \<in> {ReqlCompileError, ReqlRuntimeError, ReqlDriverError, DefaultCursorEmpty,
        PyTimeoutError, PyKeyError, PyIndexError, PyNotImplementedError, PyOverflowError} then 3
      else if c = ReqlTimeoutError \<or> c = ReqlNonExistenceError \<or> c = ReqlOpFailedError
        \<or> c = ReqlOpIndeterminateError then 5
      else 4)"

lemma class_depth_base: "b \<in> set (bases c) \<Longrightarrow> class_depth b < class_depth c"
  by (cases c) auto

lemma class_depth_le: "class_depth c \<le> 6"
  by (cases c) auto

lemma ancestors_derives: "d \<in> set (ancestors n c) \<Longrightarrow> derives c d"
  by (induction n arbitrary: c) (auto intro: derives.intros)

lemma derives_ancestors: "derives c d \<Longrightarrow> class_depth c \<le> n \<Longrightarrow> d \<in> set (ancestors n c)"
proof (induction arbitrary: n rule: derives.induct)
  case (derives_refl c)
  show ?case by (cases n) auto
next
  case (derives_step b c d)
  have "class_depth b < class_depth c" using derives_step.hyps(1) by (rule class_depth_base)
  with derives_step.prems obtain m where n: "n = Suc m" and "class_depth b \<le> m"
    by (cases n) auto
  with derives_step.IH derives_step.hyps(1) show ?case by (auto simp: n)
qed

lemma issubclass_iff: "issubclass c d \<longleftrightarrow> derives c d"
  using ancestors_derives derives_ancestors class_depth_le by (auto simp: issubclass_def)

lemma derives_trans: "derives c d \<Longrightarrow> derives d e \<Longrightarrow> derives c e"
  by (induction rule: derives.induct) (auto intro: derives_step)

lemma derives_class_depth: "derives c d \<Longrightarrow> c = d \<or> class_depth d < class_depth c"
  by (induction rule: derives.induct) (auto dest: class_depth_base)

text \<open>Being a subclass is a partial order: the order of the type.\<close>

instantiation exc_class :: order
begin

definition less_eq_exc_class :: "exc_class \<Rightarrow> exc_class \<Rightarrow> bool" where
  "less_eq_exc_class c d = issubclass c d"

definition less_exc_class :: "exc_class \<Rightarrow> exc_class \<Rightarrow> bool" where
  "less_exc_class c d = (issubclass c d \<and> c \<noteq> d)"

instance
proof
  fix c d e :: exc_class
  show "c \<le> c" by (simp add: less_eq_exc_class_def issubclass_iff derives_refl)
  show "c \<le> d \<Longrightarrow> d \<le> e \<Longrightarrow> c \<le> e"
    by (auto simp: less_eq_exc_class_def issubclass_iff intro: derives_trans)
  show anti: "c \<le> d \<Longrightarrow> d \<le> c \<Longrightarrow> c = d"
    using derives_class_depth [of c d] derives_class_depth [of d c]
    by (auto simp: less_eq_exc_class_def issubclass_iff)
  show "c < d \<longleftrightarrow> c \<le> d \<and> \<not> d \<le> c"
    using derives_class_depth [of c d] derives_class_depth [of d c]
    by (auto simp: less_eq_exc_class_def less_exc_class_def issubclass_iff intro: derives_refl)
qed

end

lemma issubclass_le: "issubclass c d \<longleftrightarrow> c \<le> d"
  by (simp add: less_eq_exc_class_def)

subsection \<open>Exception objects\<close>

text \<open>A backtrace frame of the server is the position of an argument or the name of an
  optional one; any other value matches nothing.\<close>

datatype frame = Pos nat | Opt string | Unmatched

datatype 'q exc =
  Exc (ecls: exc_class) (emsg: string) (eterm: "'q option") (eframes: "frame list option")

definition py_exc :: "exc_class \<Rightarrow> string \<Rightarrow> 'q exc" where
  "py_exc c m = Exc c m None None"

text \<open>\<open>ReqlError.__init__(message, term=None, frames=None)\<close>; a printer for the query exists
  only when both are there.\<close>

definition reql_error :: "exc_class \<Rightarrow> string \<Rightarrow> 'q option \<Rightarrow> frame list option \<Rightarrow> 'q exc" where
  "reql_error c m term frames = Exc c m term frames"

definition query_printer :: "'q exc \<Rightarrow> ('q \<times> frame list) option" where
  "query_printer e =
     (case (eterm e, eframes e) of (Some q, Some fs) \<Rightarrow> Some (q, fs) | _ \<Rightarrow> None)"

definition driver_error :: "string \<Rightarrow> 'q exc" where
  "driver_error m = reql_error ReqlDriverError m None None"

definition driver_compile_error :: "string \<Rightarrow> 'q exc" where
  "driver_compile_error m = reql_error ReqlDriverCompileError m None None"

definition cursor_empty :: "exc_class \<Rightarrow> 'q exc" where
  "cursor_empty c = py_exc c ''Cursor is empty.''"

definition with_address :: "string option \<Rightarrow> int option \<Rightarrow> string \<Rightarrow> string" where
  "with_address host port msg =
     (case (host, port) of
        (Some h, Some p) \<Rightarrow> ''Could not connect to '' @ h @ '':'' @ show_int p @ '', '' @ msg
      | _ \<Rightarrow> msg)"

definition auth_error :: "string \<Rightarrow> string option \<Rightarrow> int option \<Rightarrow> 'q exc" where
  "auth_error msg host port = reql_error ReqlAuthError (with_address host port msg) None None"

definition timeout_error :: "string option \<Rightarrow> int option \<Rightarrow> 'q exc" where
  "timeout_error host port =
     reql_error ReqlTimeoutError (with_address host port ''Operation timed out.'') None None"

text \<open>\<open>except (c1, ..., cn)\<close> catches an exception of any subclass.\<close>

definition caught_by :: "exc_class list \<Rightarrow> 'q exc \<Rightarrow> bool" where
  "caught_by cs e \<longleftrightarrow> list_ex (issubclass (ecls e)) cs"

lemma ecls_simps [simp]:
  "ecls (py_exc c m) = c" "ecls (reql_error c m q f) = c" "ecls (driver_error m) = ReqlDriverError"
  "ecls (driver_compile_error m) = ReqlDriverCompileError" "ecls (cursor_empty c) = c"
  "ecls (auth_error m h p) = ReqlAuthError" "ecls (timeout_error h p) = ReqlTimeoutError"
  by (simp_all add: py_exc_def reql_error_def driver_error_def driver_compile_error_def
      cursor_empty_def auth_error_def timeout_error_def)

lemma caught_by_single [simp]: "caught_by [c] e \<longleftrightarrow> ecls e \<le> c"
  by (simp add: caught_by_def issubclass_le)

lemma caught_by_mono: "caught_by [c] e \<Longrightarrow> c \<le> d \<Longrightarrow> caught_by [d] e"
  by auto

text \<open>Which of the driver's classes a clause \<open>except ReqlError\<close> catches: all of them but
  the end of a cursor.\<close>

definition reql_classes :: "exc_class list" where
  "reql_classes = [ReqlError, ReqlCompileError, ReqlDriverCompileError, ReqlServerCompileError,
     ReqlRuntimeError, ReqlQueryLogicError, ReqlNonExistenceError, ReqlResourceLimitError,
     ReqlUserError, ReqlInternalError, ReqlAvailabilityError, ReqlOpFailedError,
     ReqlOpIndeterminateError, ReqlPermissionError, ReqlDriverError, ReqlAuthError,
     ReqlTimeoutErrorBase, ReqlTimeoutError]"

lemma issubclass_code: "issubclass c d \<longleftrightarrow> d \<in> set (ancestors (Suc (Suc (Suc (Suc (Suc (Suc 0)))))) c)"
  by (simp add: issubclass_def numeral_eq_Suc)

text \<open>Catching by class: \<open>issubclass\<close> is the reflexive and transitive closure of the
  base-class lists; \<open>except ReqlError\<close> catches exactly the listed classes (so never the end
  of a cursor), \<open>except ReqlDriverError\<close> exactly the driver, authentication and timeout
  errors, and a timeout is also a built-in \<open>OSError\<close>.\<close>

theorem exception_hierarchy:
  "(issubclass c d \<longleftrightarrow> derives c d)
   \<and> (issubclass c ReqlError \<longleftrightarrow> c \<in> set reql_classes)
   \<and> (issubclass c ReqlDriverError \<longleftrightarrow>
        c \<in> {ReqlDriverError, ReqlAuthError, ReqlTimeoutErrorBase, ReqlTimeoutError})
   \<and> issubclass ReqlTimeoutError PyOSError
   \<and> \<not> issubclass DefaultCursorEmpty ReqlError"
  by (cases c) (simp_all add: issubclass_iff [symmetric] issubclass_code reql_classes_def)

end
