(* ===== verification/Json.thy ===== *)
theory Json
  imports PyData
begin

text \<open>
  JSON as the driver uses it: the text \<open>ReQLEncoder\<close> produces (the encoder of Python's
  \<open>json\<close> with \<open>ensure_ascii=False\<close> and the separators \<open>","\<close> and \<open>":"\<close>) and the
  decoder under \<open>ReQLDecoder\<close>.  The decoder runs on two units of fuel per character, which is
  always enough (\<open>parse_value_fuel\<close>); the round trip of encoder and decoder is
  \<open>loads_dumps\<close>.  A float is its decimal literal: neither side of the driver computes with it.
\<close>

datatype json =
    JNull | JBool bool | JInt int | JFloat string | JStr string
  | JArr "json list" | JObj "(string \<times> json) list"

datatype json_error = Malformed | OutOfText | NoFuel

subsection \<open>The encoder\<close>

definition hex_digit :: "nat \<Rightarrow> char" where
  "hex_digit n = (if n < 10 then chr (48 + n) else chr (87 + n))"

definition escape_char :: "char \<Rightarrow> string" where
  "escape_char c =
     (if c = CHR 0x22 then [CHR 0x5C, CHR 0x22]
      else if c = CHR 0x5C then [CHR 0x5C, CHR 0x5C]
      else if c = CHR 0x0A then [CHR 0x5C, CHR ''n'']
      else if c = CHR 0x0D then [CHR 0x5C, CHR ''r'']
      else if c = CHR 0x09 then [CHR 0x5C, CHR ''t'']
      else if c = CHR 0x0C then [CHR 0x5C, CHR ''f'']
      else if c = CHR 0x08 then [CHR 0x5C, CHR ''b'']
      else if code_point c < 32
      then [CHR 0x5C, CHR ''u'', CHR ''0'', CHR ''0'',
            hex_digit (code_point c div 16), hex_digit (code_point c mod 16)]
      else [c])"

definition quote_json :: "string \<Rightarrow> string" where
  "quote_json s = CHR 0x22 # concat (map escape_char s) @ [CHR 0x22]"

fun json_text :: "json \<Rightarrow> string" where
  "json_text JNull = ''null''"
| "json_text (JBool b) = (if b then ''true'' else ''false'')"
| "json_text (JInt i) = show_int i"
| "json_text (JFloat f) = f"
| "json_text (JStr s) = quote_json s"
| "json_text (JArr xs) = CHR ''['' # join '','' (map json_text xs) @ '']''"
| "json_text (JObj kvs) =
     CHR ''{'' # join '','' (map (\<lambda>kv. quote_json (fst kv) @ '':'' @ json_text (snd kv)) kvs) @ ''}''"

subsection \<open>The decoder\<close>

definition is_ws :: "char \<Rightarrow> bool" where
  "is_ws c \<longleftrightarrow> c \<in> {CHR '' '', CHR 0x09, CHR 0x0A, CHR 0x0D}"

definition skip_ws :: "string \<Rightarrow> string" where
  "skip_ws s = dropWhile is_ws s"

definition hex_val :: "char \<Rightarrow> nat option" where
  "hex_val c =
     (if is_digit c then Some (digit_val c)
      else if 97 \<le> code_point c \<and> code_point c \<le> 102 then Some (code_point c - 87)
      else if 65 \<le> code_point c \<and> code_point c \<le> 70 then Some (code_point c - 55)
      else None)"

definition hex4 :: "string \<Rightarrow> nat option" where
  "hex4 s =
     (case map hex_val s of
        [Some a, Some b, Some c, Some d] \<Rightarrow> Some (4096 * a + 256 * b + 16 * c + d)
      | _ \<Rightarrow> None)"

definition unescape :: "char \<Rightarrow> char option" where
  "unescape c =
     (if c = CHR 0x22 \<or> c = CHR 0x5C \<or> c = CHR ''/'' then Some c
      else if c = CHR ''n'' then Some (CHR 0x0A)
      else if c = CHR ''r'' then Some (CHR 0x0D)
      else if c = CHR ''t'' then Some (CHR 0x09)
      else if c = CHR ''f'' then Some (CHR 0x0C)
      else if c = CHR ''b'' then Some (CHR 0x08)
      else None)"

text \<open>A string from after its opening quote to after its closing one.\<close>

function parse_string :: "string \<Rightarrow> json_error + (string \<times> string)" where
  "parse_string s =
     (case s of
        [] \<Rightarrow> Inl Malformed
      | c # s' \<Rightarrow>
          if c = CHR 0x22 then Inr ([], s')
          else if code_point c < 32 then Inl Malformed
          else if c \<noteq> CHR 0x5C then rmap (\<lambda>(t, r). (c # t, r)) (parse_string s')
          else (case s' of
              [] \<Rightarrow> Inl Malformed
            | e # s'' \<Rightarrow>
                if e = CHR ''u'' then
                  (case hex4 (take 4 s'') of
                     None \<Rightarrow> Inl Malformed
                   | Some n \<Rightarrow>
                       if n < 256 then rmap (\<lambda>(t, r). (chr n # t, r)) (parse_string (drop 4 s''))
                       else Inl OutOfText)
                else (case unescape e of
                     None \<Rightarrow> Inl Malformed
                   | Some d \<Rightarrow> rmap (\<lambda>(t, r). (d # t, r)) (parse_string s''))))"
  by pat_completeness auto
termination
  by (relation "measure length") auto

declare parse_string.simps [simp del]

definition starts_digit :: "string \<Rightarrow> bool" where
  "starts_digit s \<longleftrightarrow> s \<noteq> [] \<and> is_digit (hd s)"

definition int_part :: "string \<Rightarrow> (string \<times> string) option" where
  "int_part s =
     (if \<not> starts_digit s then None
      else if hd s = CHR ''0'' then Some ([hd s], tl s)
      else Some (takeWhile is_digit s, dropWhile is_digit s))"

definition frac_part :: "string \<Rightarrow> string \<times> string" where
  "frac_part s =
     (if s \<noteq> [] \<and> hd s = CHR ''.'' \<and> starts_digit (tl s)
      then (CHR ''.'' # takeWhile is_digit (tl s), dropWhile is_digit (tl s)) else ([], s))"

definition exp_part :: "string \<Rightarrow> string \<times> string" where
  "exp_part s =
     (if s \<noteq> [] \<and> (hd s = CHR ''e'' \<or> hd s = CHR ''E'') then
        (let sign = (if tl s \<noteq> [] \<and> (hd (tl s) = CHR ''+'' \<or> hd (tl s) = CHR ''-'')
                     then [hd (tl s)] else []);
             ds = drop (length sign) (tl s)
         in if starts_digit ds
            then (hd s # sign @ takeWhile is_digit ds, dropWhile is_digit ds) else ([], s))
      else ([], s))"

definition parse_number :: "string \<Rightarrow> (json \<times> string) option" where
  "parse_number s =
     (let neg = (s \<noteq> [] \<and> hd s = CHR ''-'') in
      case int_part (if neg then tl s else s) of
        None \<Rightarrow> None
      | Some (i, r) \<Rightarrow>
          (case frac_part r of (f, r') \<Rightarrow>
           case exp_part r' of (e, r'') \<Rightarrow>
             Some (if f = [] \<and> e = []
                   then JInt (if neg then - int (read_digits 0 i) else int (read_digits 0 i))
                   else JFloat ((if neg then ''-'' else []) @ i @ f @ e), r'')))"

definition parse_literal :: "string \<Rightarrow> (json \<times> string) option" where
  "parse_literal s =
     (if take 4 s = ''null'' then Some (JNull, drop 4 s)
      else if take 4 s = ''true'' then Some (JBool True, drop 4 s)
      else if take 5 s = ''false'' then Some (JBool False, drop 5 s)
      else case parse_number s of
        Some r \<Rightarrow> Some r
      | None \<Rightarrow>
          if take 3 s = ''NaN'' then Some (JFloat ''NaN'', drop 3 s)
          else if take 8 s = ''Infinity'' then Some (JFloat ''Infinity'', drop 8 s)
          else if take 9 s = ''-Infinity'' then Some (JFloat ''-Infinity'', drop 9 s)
          else None)"

definition starts_with :: "char \<Rightarrow> string \<Rightarrow> bool" where
  "starts_with c s \<longleftrightarrow> s \<noteq> [] \<and> hd s = c"

fun parse_value :: "nat \<Rightarrow> string \<Rightarrow> json_error + (json \<times> string)"
  and parse_elems :: "nat \<Rightarrow> string \<Rightarrow> json_error + (json list \<times> string)"
  and parse_members :: "nat \<Rightarrow> string \<Rightarrow> json_error + ((string \<times> json) list \<times> string)" where
  "parse_value 0 s = Inl NoFuel"
| "parse_value (Suc n) s =
     (if s = [] then Inl Malformed
      else if hd s = CHR 0x22 then rmap (\<lambda>(t, r). (JStr t, r)) (parse_string (tl s))
      else if hd s = CHR ''{'' then
        (let s' = skip_ws (tl s) in
         if starts_with (CHR ''}'') s' then Inr (JObj [], tl s')
         else rmap (\<lambda>(kvs, r). (JObj (dict_of kvs), r)) (parse_members n s'))
      else if hd s = CHR ''['' then
        (let s' = skip_ws (tl s) in
         if starts_with (CHR '']'') s' then Inr (JArr [], tl s')
         else rmap (\<lambda>(xs, r). (JArr xs, r)) (parse_elems n s'))
      else (case parse_literal s of None \<Rightarrow> Inl Malformed | Some r \<Rightarrow> Inr r))"
| "parse_elems 0 s = Inl NoFuel"
| "parse_elems (Suc n) s =
     rbind (parse_value n s) (\<lambda>(x, r).
       let r' = skip_ws r in
       if starts_with (CHR '']'') r' then Inr ([x], tl r')
       else if starts_with (CHR '','') r'
       then rmap (\<lambda>(xs, q). (x # xs, q)) (parse_elems n (skip_ws (tl r')))
       else Inl Malformed)"
| "parse_members 0 s = Inl NoFuel"
| "parse_members (Suc n) s =
     (if \<not> starts_with (CHR 0x22) s then Inl Malformed
      else rbind (parse_string (tl s)) (\<lambda>(k, r).
        if \<not> starts_with (CHR '':'') (skip_ws r) then Inl Malformed
        else rbind (parse_value n (skip_ws (tl (skip_ws r)))) (\<lambda>(x, r').
          let q = skip_ws r' in
          if starts_with (CHR ''}'') q then Inr ([(k, x)], tl q)
          else if starts_with (CHR '','') q
          then rmap (\<lambda>(kvs, q'). ((k, x) # kvs, q')) (parse_members n (skip_ws (tl q)))
          else Inl Malformed)))"

text \<open>\<open>JSONDecoder.decode\<close>: leading and trailing blanks are skipped, anything else after the
  value is an error.\<close>

definition loads :: "string \<Rightarrow> json_error + json" where
  "loads s =
     rbind (parse_value (Suc (2 * length s)) (skip_ws s)) (\<lambda>(j, r).
       if skip_ws r = [] then Inr j else Inl Malformed)"

subsection \<open>The fuel is enough\<close>

lemma length_skip_ws [simp]: "length (skip_ws s) \<le> length s"
  by (simp add: skip_ws_def length_dropWhile_le)

lemma length_skip_ws_tl: "length (skip_ws (tl (skip_ws s))) \<le> length s"
  using length_skip_ws [of "tl (skip_ws s)"] length_skip_ws [of s]
  unfolding length_tl by linarith

lemma parse_string_eqs:
  "parse_string [] = Inl Malformed"
  "parse_string [CHR 0x5C] = Inl Malformed"
  "parse_string (CHR 0x22 # s) = Inr ([], s)"
  "c \<noteq> CHR 0x22 \<Longrightarrow> c \<noteq> CHR 0x5C \<Longrightarrow> \<not> code_point c < 32 \<Longrightarrow>
     parse_string (c # s) = rmap (\<lambda>(t, r). (c # t, r)) (parse_string s)"
  "parse_string (CHR 0x5C # CHR ''u'' # s) =
     (case hex4 (take 4 s) of
        None \<Rightarrow> Inl Malformed
      | Some n \<Rightarrow>
          if n < 256 then rmap (\<lambda>(t, r). (chr n # t, r)) (parse_string (drop 4 s))
          else Inl OutOfText)"
  "e \<noteq> CHR ''u'' \<Longrightarrow> parse_string (CHR 0x5C # e # s) =
     (case unescape e of
        None \<Rightarrow> Inl Malformed
      | Some d \<Rightarrow> rmap (\<lambda>(t, r). (d # t, r)) (parse_string s))"
proof -
  have "\<not> code_point (CHR 0x5C) < 32" by (simp add: code_point_def)
  then show
    "parse_string [] = Inl Malformed"
    "parse_string [CHR 0x5C] = Inl Malformed"
    "parse_string (CHR 0x22 # s) = Inr ([], s)"
    "c \<noteq> CHR 0x22 \<Longrightarrow> c \<noteq> CHR 0x5C \<Longrightarrow> \<not> code_point c < 32 \<Longrightarrow>
       parse_string (c # s) = rmap (\<lambda>(t, r). (c # t, r)) (parse_string s)"
    "parse_string (CHR 0x5C # CHR ''u'' # s) =
       (case hex4 (take 4 s) of
          None \<Rightarrow> Inl Malformed
        | Some n \<Rightarrow>
            if n < 256 then rmap (\<lambda>(t, r). (chr n # t, r)) (parse_string (drop 4 s))
            else Inl OutOfText)"
    "e \<noteq> CHR ''u'' \<Longrightarrow> parse_string (CHR 0x5C # e # s) =
       (case unescape e of
          None \<Rightarrow> Inl Malformed
        | Some d \<Rightarrow> rmap (\<lambda>(t, r). (d # t, r)) (parse_string s))"
    by (subst parse_string.simps; simp)+
qed

lemma parse_string_shorter: "parse_string s = Inr (t, r) \<Longrightarrow> length r < length s"
proof (induction s arbitrary: t r rule: parse_string.induct)
  case (1 s)
  show ?case
  proof (cases s)
    case Nil
    with "1.prems" show ?thesis by (simp add: parse_string.simps)
  next
    case (Cons c s')
    note s = Cons
    show ?thesis
    proof (cases "c = CHR 0x22 \<or> code_point c < 32")
      case True
      with "1.prems" s show ?thesis
        by (auto simp: parse_string.simps [of "c # s'"] split: if_splits)
    next
      case False
      then have c: "c \<noteq> CHR 0x22" "\<not> code_point c < 32" by auto
      show ?thesis
      proof (cases "c = CHR 0x5C")
        case False
        with "1.prems" s c obtain t' where "parse_string s' = Inr (t', r)"
          by (auto simp: parse_string.simps [of "c # s'"] res_simps)
        from "1.IH"(1) [OF s c False this] show ?thesis using s by simp
      next
        case True
        then obtain e s'' where s': "s' = e # s''"
          using "1.prems" s c
          by (cases s') (auto simp: parse_string_eqs)
        show ?thesis
        proof (cases "e = CHR ''u''")
          case u: True
          with "1.prems" s s' c True obtain n t' where
            h: "hex4 (take 4 s'') = Some n" "n < 256" and p: "parse_string (drop 4 s'') = Inr (t', r)"
            by (auto simp: parse_string_eqs res_simps split: option.splits if_splits)
          from "1.IH"(2) [OF s c _ s' u h p] True show ?thesis using s s' by simp
        next
          case u: False
          with "1.prems" s s' c True obtain d t' where
            h: "unescape e = Some d" and p: "parse_string s'' = Inr (t', r)"
            by (auto simp: parse_string_eqs res_simps split: option.splits)
          from "1.IH"(3) [OF s c _ s' u h p] True show ?thesis using s s' by simp
        qed
      qed
    qed
  qed
qed

lemma parse_string_fuel: "parse_string s \<noteq> Inl NoFuel"
proof (induction s rule: parse_string.induct)
  case (1 s)
  show ?case
  proof (cases s)
    case (Cons c s')
    then show ?thesis
      using 1 by (auto simp: parse_string.simps [of "c # s'"] rmap_def res_simps
          split: list.splits option.splits if_splits)
  qed (simp add: parse_string.simps)
qed

lemma dropWhile_digits_shorter: "starts_digit s \<Longrightarrow> length (dropWhile is_digit s) < length s"
  by (cases s) (auto simp: starts_digit_def length_dropWhile_le le_imp_less_Suc)

lemma int_part_shorter: "int_part s = Some (i, r) \<Longrightarrow> length r < length s"
  using dropWhile_digits_shorter [of s]
  by (cases s) (auto simp: int_part_def starts_digit_def split: if_splits)

lemma frac_part_shorter: "frac_part s = (f, r) \<Longrightarrow> length r \<le> length s"
  using length_dropWhile_le [of is_digit "tl s"]
  by (cases s) (auto simp: frac_part_def split: if_splits)

lemma exp_part_shorter: "exp_part s = (e, r) \<Longrightarrow> length r \<le> length s"
  using length_dropWhile_le [of is_digit "tl s"] length_dropWhile_le [of is_digit "tl (tl s)"]
  by (cases s; cases "tl s") (auto simp: exp_part_def Let_def split: if_splits)

lemma parse_number_shorter: "parse_number s = Some (j, r) \<Longrightarrow> length r < length s"
proof -
  assume "parse_number s = Some (j, r)"
  moreover define u where "u = (if s \<noteq> [] \<and> hd s = CHR ''-'' then tl s else s)"
  ultimately obtain i r0 f r1 e where
    i: "int_part u = Some (i, r0)" and f: "frac_part r0 = (f, r1)" and e: "exp_part r1 = (e, r)"
    by (auto simp: parse_number_def Let_def split: option.splits prod.splits if_splits)
  have u: "length u \<le> length s" by (simp add: u_def)
  from int_part_shorter [OF i] frac_part_shorter [OF f] exp_part_shorter [OF e] u
  show ?thesis by simp
qed

lemma take_eq_shorter: "take n s = t \<Longrightarrow> length t = n \<Longrightarrow> 0 < n \<Longrightarrow> length (drop n s) < length s"
  by (auto simp: min_def split: if_splits)

lemma parse_literal_shorter: "parse_literal s = Some (j, r) \<Longrightarrow> length r < length s"
  by (auto simp: parse_literal_def parse_number_shorter dest: take_eq_shorter
      split: if_splits option.splits)

lemma parse_shorter:
  "parse_value n s = Inr (j, r) \<Longrightarrow> length r < length s"
  "parse_elems n s = Inr (js, r) \<Longrightarrow> length r < length s"
  "parse_members n s = Inr (kvs, r) \<Longrightarrow> length r < length s"
proof (induction n s and n s and n s arbitrary: j r and js r and kvs r
    rule: parse_value_parse_elems_parse_members.induct)
  case (2 n s)
  let ?q = "skip_ws (tl s)"
  have q: "length ?q \<le> length (tl s)" "length (tl ?q) \<le> length (tl s)"
    using length_skip_ws [of "tl s"] by simp_all
  consider (str) t where "s \<noteq> []" "parse_string (tl s) = Inr (t, r)"
    | (brace) "s \<noteq> []" "length r \<le> length (tl ?q)"
    | (mem) kvs where "s \<noteq> []" "parse_members n ?q = Inr (kvs, r)" "hd s = CHR ''{''"
        "\<not> starts_with (CHR ''}'') ?q"
    | (elem) js where "s \<noteq> []" "parse_elems n ?q = Inr (js, r)" "hd s = CHR ''[''"
        "\<not> starts_with (CHR '']'') ?q"
    | (lit) j where "parse_literal s = Some (j, r)"
    using "2.prems" by (auto simp: Let_def res_simps split: if_splits option.splits)
  then show ?case
  proof cases
    case str
    then show ?thesis using parse_string_shorter [OF str(2)] by (cases s) auto
  next
    case brace
    then show ?thesis using q by (cases s) auto
  next
    case mem
    then have "length r < length ?q" using "2.IH"(1) by auto
    then show ?thesis using q mem(1) by (cases s) auto
  next
    case elem
    then have "length r < length ?q" using "2.IH"(2) by auto
    then show ?thesis using q elem(1) by (cases s) auto
  next
    case lit
    then show ?thesis by (rule parse_literal_shorter)
  qed
next
  case (4 n s)
  from "4.prems" obtain x r1 where x: "parse_value n s = Inr (x, r1)"
    and rest: "r = tl (skip_ws r1) \<or> (\<exists>xs. starts_with (CHR '','') (skip_ws r1)
      \<and> \<not> starts_with (CHR '']'') (skip_ws r1)
      \<and> parse_elems n (skip_ws (tl (skip_ws r1))) = Inr (xs, r))"
    by (auto simp: Let_def res_simps split: if_splits)
  have r1: "length r1 < length s" by (rule "4.IH"(1) [OF x])
  note q = length_skip_ws [of r1] length_skip_ws_tl [of r1]
  from rest show ?case
  proof (elim disjE exE conjE)
    assume "r = tl (skip_ws r1)"
    then show ?thesis using r1 q by (simp del: length_skip_ws)
  next
    fix xs assume "parse_elems n (skip_ws (tl (skip_ws r1))) = Inr (xs, r)"
      and "starts_with (CHR '','') (skip_ws r1)" and "\<not> starts_with (CHR '']'') (skip_ws r1)"
    then have "length r < length (skip_ws (tl (skip_ws r1)))" using "4.IH"(2) x by blast
    then show ?thesis using r1 q by (simp del: length_skip_ws)
  qed
next
  case (6 n s)
  from "6.prems" obtain k r0 x r1 where k: "parse_string (tl s) = Inr (k, r0)" and "s \<noteq> []"
    and c: "starts_with (CHR 0x22) s" "starts_with (CHR '':'') (skip_ws r0)"
    and x: "parse_value n (skip_ws (tl (skip_ws r0))) = Inr (x, r1)"
    and rest: "r = tl (skip_ws r1) \<or> (\<exists>xs. starts_with (CHR '','') (skip_ws r1)
      \<and> \<not> starts_with (CHR ''}'') (skip_ws r1)
      \<and> parse_members n (skip_ws (tl (skip_ws r1))) = Inr (xs, r))"
    by (auto simp: Let_def res_simps starts_with_def split: if_splits)
  have "length r0 < length (tl s)" by (rule parse_string_shorter [OF k])
  moreover have "length r1 < length (skip_ws (tl (skip_ws r0)))"
    using "6.IH"(1) [OF _ k] c x by blast
  moreover have "length (skip_ws (tl (skip_ws r0))) \<le> length r0"
    by (rule length_skip_ws_tl)
  ultimately have r1: "length r1 < length s" by simp
  note q = length_skip_ws [of r1] length_skip_ws_tl [of r1]
  from rest show ?case
  proof (elim disjE exE conjE)
    assume "r = tl (skip_ws r1)"
    then show ?thesis using r1 q by (simp del: length_skip_ws)
  next
    fix xs assume "parse_members n (skip_ws (tl (skip_ws r1))) = Inr (xs, r)"
      and "starts_with (CHR '','') (skip_ws r1)" and "\<not> starts_with (CHR ''}'') (skip_ws r1)"
    then have "length r < length (skip_ws (tl (skip_ws r1)))" using "6.IH"(2) k c x by blast
    then show ?thesis using r1 q by (simp del: length_skip_ws)
  qed
qed simp_all

lemma parse_fuel:
  "2 * length s < n \<Longrightarrow> parse_value n s \<noteq> Inl NoFuel"
  "2 * length s + 1 < n \<Longrightarrow> parse_elems n s \<noteq> Inl NoFuel"
  "2 * length s + 1 < n \<Longrightarrow> parse_members n s \<noteq> Inl NoFuel"
proof (induction n s and n s and n s rule: parse_value_parse_elems_parse_members.induct)
  case (2 n s)
  show ?case
  proof (cases s)
    case (Cons c s')
    let ?q = "skip_ws s'"
    have "2 * length ?q + 1 < n" using "2.prems" Cons length_skip_ws [of s']
      by (simp del: length_skip_ws)
    with "2.IH" Cons have
      "hd s = CHR ''{'' \<Longrightarrow> \<not> starts_with (CHR ''}'') ?q \<Longrightarrow> parse_members n ?q \<noteq> Inl NoFuel"
      "hd s = CHR ''['' \<Longrightarrow> \<not> starts_with (CHR '']'') ?q \<Longrightarrow> parse_elems n ?q \<noteq> Inl NoFuel"
      by simp_all
    then show ?thesis
      by (auto simp: Cons Let_def rmap_def res_simps parse_string_fuel split: option.splits if_splits)
  qed simp
next
  case (4 n s)
  have v: "parse_value n s \<noteq> Inl NoFuel" using 4 by simp
  have "parse_elems n (skip_ws (tl (skip_ws r))) \<noteq> Inl NoFuel"
    if "parse_value n s = Inr (x, r)" "starts_with (CHR '','') (skip_ws r)" for x r
  proof -
    have "length r < length s" by (rule parse_shorter(1) [OF that(1)])
    moreover have "length (skip_ws (tl (skip_ws r))) \<le> length r" by (rule length_skip_ws_tl)
    ultimately have "2 * length (skip_ws (tl (skip_ws r))) + 1 < n" using "4.prems" by linarith
    moreover have "\<not> starts_with (CHR '']'') (skip_ws r)" using that(2) by (auto simp: starts_with_def)
    ultimately show ?thesis using "4.IH"(2) that by blast
  qed
  with v show ?case
    by (auto simp: Let_def rmap_def res_simps split: if_splits)
next
  case (6 n s)
  have v: "parse_value n (skip_ws (tl (skip_ws r))) \<noteq> Inl NoFuel"
    if "parse_string (tl s) = Inr (k, r)" "starts_with (CHR 0x22) s"
      "starts_with (CHR '':'') (skip_ws r)" for k r
  proof -
    have "length r < length (tl s)" by (rule parse_string_shorter [OF that(1)])
    moreover have "length (skip_ws (tl (skip_ws r))) \<le> length r" by (rule length_skip_ws_tl)
    ultimately have "2 * length (skip_ws (tl (skip_ws r))) < n"
      using "6.prems" unfolding length_tl by linarith
    then show ?thesis using "6.IH"(1) that by blast
  qed
  have m: "parse_members n (skip_ws (tl (skip_ws r'))) \<noteq> Inl NoFuel"
    if "parse_string (tl s) = Inr (k, r)" "starts_with (CHR 0x22) s"
      "starts_with (CHR '':'') (skip_ws r)"
      "parse_value n (skip_ws (tl (skip_ws r))) = Inr (x, r')"
      "starts_with (CHR '','') (skip_ws r')" for k r x r'
  proof -
    have "length r < length (tl s)" by (rule parse_string_shorter [OF that(1)])
    moreover have "length (skip_ws (tl (skip_ws r))) \<le> length r" by (rule length_skip_ws_tl)
    moreover have "length r' < length (skip_ws (tl (skip_ws r)))"
      by (rule parse_shorter(1) [OF that(4)])
    moreover have "length (skip_ws (tl (skip_ws r'))) \<le> length r'" by (rule length_skip_ws_tl)
    ultimately have "2 * length (skip_ws (tl (skip_ws r'))) + 1 < n"
      using "6.prems" unfolding length_tl by linarith
    moreover have "\<not> starts_with (CHR ''}'') (skip_ws r')" using that(5) by (auto simp: starts_with_def)
    ultimately show ?thesis using "6.IH"(2) that by blast
  qed
  show ?case using v m
    by (auto simp: Let_def rmap_def res_simps parse_string_fuel split: if_splits)
qed simp_all

subsection \<open>Decoding what was encoded\<close>

text \<open>A float literal is valid when it is one JSON number with a fraction or an exponent; an
  object has distinct keys, as a dictionary does.\<close>

definition valid_float :: "string \<Rightarrow> bool" where
  "valid_float f \<longleftrightarrow> parse_number f = Some (JFloat f, [])"

fun wf_json :: "json \<Rightarrow> bool" where
  "wf_json (JFloat f) = valid_float f"
| "wf_json (JArr xs) = (\<forall>x \<in> set xs. wf_json x)"
| "wf_json (JObj kvs) = (distinct (map fst kvs) \<and> (\<forall>kv \<in> set kvs. wf_json (snd kv)))"
| "wf_json _ = True"

lemma hex_val_digit: "n < 16 \<Longrightarrow> hex_val (hex_digit n) = Some n"
  by (auto simp: hex_val_def hex_digit_def is_digit_def digit_val_def)

lemma parse_string_escape:
  "parse_string (escape_char c @ s) = rmap (\<lambda>(t, r). (c # t, r)) (parse_string s)"
proof -
  have u: "code_point c < 32 \<Longrightarrow>
    hex4 [CHR ''0'', CHR ''0'', hex_digit (code_point c div 16), hex_digit (code_point c mod 16)]
      = Some (code_point c)"
    by (simp add: hex4_def hex_val_digit)
       (simp add: hex_val_def is_digit_def digit_val_def code_point_def)
  let ?special = "{CHR 0x22, CHR 0x5C, CHR 0x0A, CHR 0x0D, CHR 0x09, CHR 0x0C, CHR 0x08}"
  show ?thesis
  proof (cases "c \<in> ?special")
    case True
    then show ?thesis
      by (elim insertE emptyE) (simp_all add: escape_char_def parse_string_eqs unescape_def)
  next
    case False
    then have e: "escape_char c = (if code_point c < 32
      then [CHR 0x5C, CHR ''u'', CHR ''0'', CHR ''0'',
            hex_digit (code_point c div 16), hex_digit (code_point c mod 16)] else [c])"
      by (simp add: escape_char_def)
    show ?thesis
    proof (cases "code_point c < 32")
      case True
      then show ?thesis unfolding e by (simp add: parse_string_eqs u)
    next
      case ge: False
      with False show ?thesis unfolding e by (simp add: parse_string_eqs)
    qed
  qed
qed

lemma parse_string_quoted:
  "parse_string (concat (map escape_char s) @ CHR 0x22 # r) = Inr (s, r)"
  by (induction s) (simp_all add: parse_string_eqs parse_string_escape)

text \<open>What may follow a value in encoded text.\<close>

definition ends_value :: "string \<Rightarrow> bool" where
  "ends_value r \<longleftrightarrow> r = [] \<or> hd r = CHR '','' \<or> hd r = CHR '']'' \<or> hd r = CHR ''}''"

lemma ends_value_not_digit: "ends_value r \<Longrightarrow> \<not> starts_digit r"
  by (auto simp: ends_value_def starts_digit_def is_digit_def code_point_def)

lemma span_digits:
  "\<not> starts_digit r \<Longrightarrow> \<forall>c \<in> set ds. is_digit c \<Longrightarrow>
     takeWhile is_digit (ds @ r) = ds \<and> dropWhile is_digit (ds @ r) = r"
  by (cases r) (auto simp: starts_digit_def takeWhile_append dropWhile_append)

lemma takeWhile_ends: "\<not> starts_digit r \<Longrightarrow> takeWhile is_digit (s @ r) = takeWhile is_digit s"
  by (cases r) (auto simp: starts_digit_def takeWhile_append
      intro!: takeWhile_eq_all_conv [THEN iffD2, symmetric])

lemma dropWhile_ends: "\<not> starts_digit r \<Longrightarrow> dropWhile is_digit (s @ r) = dropWhile is_digit s @ r"
  by (cases r) (auto simp: starts_digit_def dropWhile_append)

lemma starts_digit_append:
  "\<not> starts_digit r \<Longrightarrow> starts_digit (s @ r) \<longleftrightarrow> starts_digit s"
  by (cases s) (auto simp: starts_digit_def)

lemma int_part_append:
  assumes "int_part s = Some (i, r)" and "ends_value t"
  shows "int_part (s @ t) = Some (i, r @ t)"
proof -
  have "\<not> starts_digit t" using assms(2) by (rule ends_value_not_digit)
  with assms(1) show ?thesis
    by (cases s) (auto simp: int_part_def starts_digit_append takeWhile_ends dropWhile_ends
        starts_digit_def split: if_splits)
qed

lemma frac_part_append:
  assumes "frac_part s = (f, r)" and "ends_value t"
  shows "frac_part (s @ t) = (f, r @ t)"
proof (cases s)
  case Nil
  with assms show ?thesis by (auto simp: frac_part_def ends_value_def)
next
  case (Cons c s')
  have "\<not> starts_digit t" using assms(2) by (rule ends_value_not_digit)
  with assms(1) show ?thesis
    by (auto simp: Cons frac_part_def starts_digit_append takeWhile_ends dropWhile_ends
        split: if_splits)
qed

lemma exp_part_append:
  assumes "exp_part s = (e, r)" and "ends_value t"
  shows "exp_part (s @ t) = (e, r @ t)"
proof (cases s)
  case Nil
  with assms show ?thesis by (auto simp: exp_part_def ends_value_def)
next
  case (Cons c s')
  have d: "\<not> starts_digit t" using assms(2) by (rule ends_value_not_digit)
  show ?thesis
  proof (cases s')
    case Nil
    with assms d show ?thesis
      by (auto simp: Cons exp_part_def Let_def ends_value_def starts_digit_def split: if_splits)
  next
    case (Cons c' s'')
    with assms(1) d \<open>s = c # s'\<close> show ?thesis
      by (auto simp: exp_part_def Let_def starts_digit_append takeWhile_ends dropWhile_ends
          starts_digit_append [OF d, of "c' # s''"] takeWhile_ends [OF d, of "c' # s''"]
          dropWhile_ends [OF d, of "c' # s''"] simp del: append_Cons takeWhile.simps dropWhile.simps
          simp: append_Cons [symmetric] split: if_splits)
  qed
qed

lemma parse_number_append:
  assumes "parse_number s = Some (j, [])" and "s \<noteq> []" and "ends_value t"
  shows "parse_number (s @ t) = Some (j, t)"
proof -
  define neg where "neg = (hd s = CHR ''-'')"
  define u where "u = (if neg then tl s else s)"
  from assms(1,2) obtain i r0 f r1 e where
    i: "int_part u = Some (i, r0)" and f: "frac_part r0 = (f, r1)" and e: "exp_part r1 = (e, [])"
    and j: "j = (if f = [] \<and> e = []
      then JInt (if neg then - int (read_digits 0 i) else int (read_digits 0 i))
      else JFloat ((if neg then ''-'' else []) @ i @ f @ e))"
    by (auto simp: parse_number_def Let_def neg_def u_def
        split: option.splits prod.splits if_splits)
  have "(if neg then tl (s @ t) else s @ t) = u @ t"
    using assms(2) by (simp add: u_def)
  moreover have "(s @ t \<noteq> [] \<and> hd (s @ t) = CHR ''-'') = neg"
    using assms(2) by (simp add: neg_def)
  ultimately show ?thesis
    using int_part_append [OF i assms(3)] frac_part_append [OF f assms(3)]
      exp_part_append [OF e assms(3)]
    by (simp add: parse_number_def Let_def j)
qed

lemma parse_number_show_nat: "parse_number (show_nat n) = Some (JInt (int n), [])"
  and parse_number_show_neg: "parse_number (CHR ''-'' # show_nat n) = Some (JInt (- int n), [])"
proof -
  have d: "\<forall>c \<in> set (show_nat n). is_digit c" by (auto intro: show_nat_digits)
  then have h: "is_digit (hd (show_nat n))" by (cases "show_nat n") auto
  then have nm: "hd (show_nat n) \<noteq> CHR ''-''" by (auto simp: is_digit_def code_point_def)
  have i: "int_part (show_nat n) = Some (show_nat n, [])"
  proof (cases "hd (show_nat n) = CHR ''0''")
    case True
    then have "n = 0" using hd_show_nat [of n] by (simp add: digit_char_0)
    then show ?thesis using h
      by (simp add: int_part_def starts_digit_def show_nat.simps [of 0] digit_char_0)
  next
    case False
    then show ?thesis using h span_digits [of "[]" "show_nat n"] d
      by (simp add: int_part_def starts_digit_def)
  qed
  then show "parse_number (show_nat n) = Some (JInt (int n), [])"
    "parse_number (CHR ''-'' # show_nat n) = Some (JInt (- int n), [])"
    using nm by (simp_all add: parse_number_def frac_part_def exp_part_def)
qed

lemma parse_number_show_int: "parse_number (show_int i) = Some (JInt i, [])"
  by (simp add: show_int_def parse_number_show_nat parse_number_show_neg)

text \<open>The first character of a number, and so of an encoded value.\<close>

lemma parse_number_hd:
  "parse_number s = Some r \<Longrightarrow> s \<noteq> [] \<and> (is_digit (hd s) \<or> hd s = CHR ''-'')"
  by (cases s) (auto simp: parse_number_def int_part_def starts_digit_def Let_def
      split: option.splits if_splits)

lemma parse_literal_number:
  assumes "parse_number s = Some r" shows "parse_literal s = Some r"
proof -
  from parse_number_hd [OF assms] obtain c s' where s: "s = c # s'" and "is_digit c \<or> c = CHR ''-''"
    by (cases s) auto
  then have "c \<noteq> CHR ''n''" "c \<noteq> CHR ''t''" "c \<noteq> CHR ''f''"
    by (auto simp: is_digit_def code_point_def)
  with assms show ?thesis by (simp add: parse_literal_def s)
qed

definition value_head :: "char \<Rightarrow> bool" where
  "value_head c \<longleftrightarrow> is_digit c \<or> c \<in> {CHR ''-'', CHR 0x22, CHR ''['', CHR ''{'', CHR ''n'', CHR ''t'', CHR ''f''}"

lemma value_head_not:
  "value_head c \<Longrightarrow> \<not> is_ws c \<and> c \<noteq> CHR '']'' \<and> c \<noteq> CHR ''}'' \<and> c \<noteq> CHR '','' \<and> c \<noteq> CHR '':''"
  by (auto simp: value_head_def is_ws_def is_digit_def code_point_def)

lemma json_text_head: "wf_json j \<Longrightarrow> json_text j \<noteq> [] \<and> value_head (hd (json_text j))"
proof (cases j)
  case (JInt i)
  then show ?thesis using parse_number_hd [OF parse_number_show_int [of i]]
    by (auto simp: value_head_def)
next
  case (JFloat f)
  assume "wf_json j"
  with JFloat show ?thesis using parse_number_hd [of f]
    by (auto simp: value_head_def valid_float_def)
qed (auto simp: value_head_def quote_json_def)

lemma skip_ws_head: "s \<noteq> [] \<Longrightarrow> value_head (hd s) \<Longrightarrow> skip_ws s = s"
  using value_head_not [of "hd s"] by (cases s) (auto simp: skip_ws_def)

lemma skip_ws_ends: "ends_value r \<Longrightarrow> skip_ws r = r"
  by (cases r) (auto simp: skip_ws_def ends_value_def is_ws_def)

lemma parse_elems_join:
  assumes "xs \<noteq> []"
    and "\<And>x n r. x \<in> set xs \<Longrightarrow> ends_value r \<Longrightarrow> 2 * length (json_text x) < n \<Longrightarrow>
       parse_value n (json_text x @ r) = Inr (x, r)"
    and "\<forall>x \<in> set xs. wf_json x"
    and "2 * length (join '','' (map json_text xs)) + 1 < n"
  shows "parse_elems n (join '','' (map json_text xs) @ '']'' @ r) = Inr (xs, r)"
  using assms
proof (induction xs arbitrary: n)
  case Nil
  then show ?case by simp
next
  case (Cons x xs)
  then obtain m where n: "n = Suc m" by (cases n) auto
  show ?case
  proof (cases "xs = []")
    case True
    have "parse_value m (json_text x @ '']'' @ r) = Inr (x, '']'' @ r)"
      by (rule Cons.prems(2)) (use Cons.prems(4) True n in \<open>auto simp: ends_value_def\<close>)
    then show ?thesis
      by (simp add: True n skip_ws_ends ends_value_def starts_with_def)
  next
    case False
    let ?rest = "join '','' (map json_text xs)"
    have j: "join '','' (map json_text (x # xs)) = json_text x @ '','' @ ?rest"
      using False by (simp add: join_Cons)
    have len: "2 * length (json_text x) < m" "2 * length ?rest + 1 < m"
      using Cons.prems(4) unfolding j n by simp_all
    have "parse_value m (json_text x @ '','' @ ?rest @ '']'' @ r)
      = Inr (x, '','' @ ?rest @ '']'' @ r)"
      by (rule Cons.prems(2)) (use len in \<open>auto simp: ends_value_def\<close>)
    moreover have "parse_elems m (?rest @ '']'' @ r) = Inr (xs, r)"
      by (rule Cons.IH) (use False Cons.prems len in auto)
    moreover have "skip_ws (?rest @ '']'' @ r) = ?rest @ '']'' @ r"
    proof (rule skip_ws_head)
      obtain y ys where "xs = y # ys" using False by (cases xs) auto
      then show "?rest @ '']'' @ r \<noteq> []" "value_head (hd (?rest @ '']'' @ r))"
        using json_text_head [of y] Cons.prems(3) by (cases ys; auto)+
    qed
    moreover have "skip_ws ('','' @ ?rest @ '']'' @ r) = '','' @ ?rest @ '']'' @ r"
      by (rule skip_ws_ends) (simp add: ends_value_def)
    ultimately show ?thesis
      unfolding j n by (simp add: starts_with_def)
  qed
qed

definition member_text :: "string \<times> json \<Rightarrow> string" where
  "member_text kv = quote_json (fst kv) @ '':'' @ json_text (snd kv)"

lemma parse_members_join:
  assumes "kvs \<noteq> []"
    and "\<And>kv n r. kv \<in> set kvs \<Longrightarrow> ends_value r \<Longrightarrow> 2 * length (json_text (snd kv)) < n \<Longrightarrow>
       parse_value n (json_text (snd kv) @ r) = Inr (snd kv, r)"
    and "\<forall>kv \<in> set kvs. wf_json (snd kv)"
    and "2 * length (join '','' (map member_text kvs)) + 1 < n"
  shows "parse_members n (join '','' (map member_text kvs) @ ''}'' @ r) = Inr (kvs, r)"
  using assms
proof (induction kvs arbitrary: n)
  case Nil
  then show ?case by simp
next
  case (Cons kv kvs)
  obtain k x where kv: "kv = (k, x)" by (cases kv)
  from Cons.prems(4) obtain m where n: "n = Suc m" by (cases n) auto
  have key: "parse_string (tl (quote_json k @ t)) = Inr (k, t)" for t
    by (simp add: quote_json_def parse_string_quoted)
  have q0: "starts_with (CHR 0x22) (quote_json k @ t)" for t
    by (simp add: quote_json_def starts_with_def)
  have colon: "skip_ws ('':'' @ t) = '':'' @ t" for t
    by (simp add: skip_ws_def is_ws_def)
  have sv: "skip_ws (json_text x @ t) = json_text x @ t" for t
    using json_text_head [of x] Cons.prems(3) by (intro skip_ws_head) (auto simp: kv)
  show ?case
  proof (cases "kvs = []")
    case True
    have "parse_value m (json_text x @ ''}'' @ r) = Inr (x, ''}'' @ r)"
      using Cons.prems(2) [of kv "''}'' @ r" m] Cons.prems(4) True n
      by (auto simp: kv ends_value_def member_text_def)
    then show ?thesis using key [of "'':'' @ json_text x @ ''}'' @ r"]
        q0 [of "'':'' @ json_text x @ ''}'' @ r"] colon [of "json_text x @ ''}'' @ r"]
        sv [of "''}'' @ r"]
      by (simp add: True n kv member_text_def skip_ws_ends ends_value_def starts_with_def)
  next
    case False
    let ?rest = "join '','' (map member_text kvs)"
    have j: "join '','' (map member_text (kv # kvs)) = quote_json k @ '':'' @ json_text x @ '','' @ ?rest"
      using False by (simp add: join_Cons member_text_def kv)
    have len: "2 * length (json_text x) < m" "2 * length ?rest + 1 < m"
      using Cons.prems(4) unfolding j n by simp_all
    let ?tail = "'','' @ ?rest @ ''}'' @ r"
    have "parse_value m (json_text x @ ?tail) = Inr (x, ?tail)"
      using Cons.prems(2) [of kv ?tail m] len by (simp add: kv ends_value_def)
    moreover have "parse_members m (?rest @ ''}'' @ r) = Inr (kvs, r)"
      by (rule Cons.IH) (use False Cons.prems len in auto)
    moreover have "skip_ws (?rest @ ''}'' @ r) = ?rest @ ''}'' @ r"
    proof (rule skip_ws_head)
      obtain y ys where "kvs = y # ys" using False by (cases kvs) auto
      then show "?rest @ ''}'' @ r \<noteq> []" "value_head (hd (?rest @ ''}'' @ r))"
        by (cases ys; auto simp: member_text_def quote_json_def value_head_def)+
    qed
    moreover have "skip_ws ?tail = ?tail"
      by (rule skip_ws_ends) (simp add: ends_value_def)
    ultimately show ?thesis
      using key [of "'':'' @ json_text x @ ?tail"] q0 [of "'':'' @ json_text x @ ?tail"]
        colon [of "json_text x @ ?tail"] sv [of ?tail]
      unfolding j n by (simp add: starts_with_def kv)
  qed
qed

lemma parse_value_text:
  "wf_json j \<Longrightarrow> ends_value r \<Longrightarrow> 2 * length (json_text j) < n \<Longrightarrow>
     parse_value n (json_text j @ r) = Inr (j, r)"
proof (induction j arbitrary: n r)
  case JNull
  then show ?case by (cases n) (auto simp: parse_literal_def)
next
  case (JBool b)
  then show ?case by (cases n; cases b) (auto simp: parse_literal_def)
next
  case (JInt i)
  note h = json_text_head [OF JInt.prems(1), unfolded json_text.simps]
  have p: "parse_literal (show_int i @ r) = Some (JInt i, r)"
    using h JInt.prems by (intro parse_literal_number parse_number_append) (auto simp: parse_number_show_int)
  have "hd (show_int i) \<notin> {CHR 0x22, CHR ''['', CHR ''{''}"
    using parse_number_hd [OF parse_number_show_int [of i]] by (auto simp: is_digit_def code_point_def)
  then show ?case using JInt.prems p h by (cases n) auto
next
  case (JFloat f)
  then have v: "parse_number f = Some (JFloat f, [])" by (simp add: valid_float_def)
  have p: "parse_literal (f @ r) = Some (JFloat f, r)"
    using JFloat.prems parse_number_hd [OF v] v by (intro parse_literal_number parse_number_append) auto
  have "hd f \<notin> {CHR 0x22, CHR ''['', CHR ''{''}"
    using parse_number_hd [OF v] by (auto simp: is_digit_def code_point_def)
  then show ?case using JFloat.prems p parse_number_hd [OF v] by (cases n) auto
next
  case (JStr s)
  then show ?case by (cases n) (auto simp: quote_json_def parse_string_quoted)
next
  case (JArr xs)
  from JArr.prems obtain m where n: "n = Suc m" by (cases n) auto
  show ?case
  proof (cases xs)
    case Nil
    then show ?thesis by (simp add: n skip_ws_def is_ws_def starts_with_def)
  next
    case (Cons y ys)
    have hd: "join '','' (map json_text xs) \<noteq> []" "value_head (hd (join '','' (map json_text xs)))"
      using json_text_head [of y] JArr.prems(1) by (cases ys; auto simp: Cons)+
    have "parse_elems m (join '','' (map json_text xs) @ '']'' @ r) = Inr (xs, r)"
      by (rule parse_elems_join) (use JArr Cons n in auto)
    moreover have "skip_ws (join '','' (map json_text xs) @ '']'' @ r) = join '','' (map json_text xs) @ '']'' @ r"
      using hd by (intro skip_ws_head) auto
    ultimately show ?thesis using hd value_head_not [OF hd(2)]
      by (simp add: n starts_with_def)
  qed
next
  case (JObj kvs)
  from JObj.prems obtain m where n: "n = Suc m" by (cases n) auto
  have t: "json_text (JObj kvs) = ''{'' @ join '','' (map member_text kvs) @ ''}''"
    by (simp add: member_text_def [abs_def])
  show ?case
  proof (cases kvs)
    case Nil
    then show ?thesis by (simp add: n skip_ws_def is_ws_def starts_with_def)
  next
    case (Cons y ys)
    have hd: "join '','' (map member_text kvs) \<noteq> []"
        "value_head (hd (join '','' (map member_text kvs)))"
      by (cases ys; auto simp: Cons member_text_def quote_json_def value_head_def)+
    have "parse_members m (join '','' (map member_text kvs) @ ''}'' @ r) = Inr (kvs, r)"
    proof (rule parse_members_join)
      show "2 * length (join '','' (map member_text kvs)) + 1 < m"
        using JObj.prems(3) unfolding t n by simp
    next
      fix kv n' r' assume "kv \<in> set kvs" "ends_value r'" "2 * length (json_text (snd kv)) < n'"
      then show "parse_value n' (json_text (snd kv) @ r') = Inr (snd kv, r')"
        using JObj.IH [of kv "snd kv"] JObj.prems(1) by (cases kv) (auto simp: snds.simps)
    qed (use JObj.prems Cons in auto)
    moreover have "skip_ws (join '','' (map member_text kvs) @ ''}'' @ r) = join '','' (map member_text kvs) @ ''}'' @ r"
      using hd by (intro skip_ws_head) auto
    ultimately show ?thesis using hd value_head_not [OF hd(2)] JObj.prems(1)
      unfolding t n by (simp add: starts_with_def dict_of_distinct)
  qed
qed

lemma loads_dumps: "wf_json j \<Longrightarrow> loads (json_text j) = Inr j"
  using parse_value_text [of j "[]" "Suc (2 * length (json_text j))"]
    skip_ws_head [of "json_text j"] json_text_head [of j]
  by (simp add: loads_def ends_value_def skip_ws_def)

text \<open>Decoding never runs out of fuel.\<close>

lemma loads_fuel: "loads s \<noteq> Inl NoFuel"
  using parse_fuel(1) [of "skip_ws s" "Suc (2 * length s)"] length_skip_ws [of s]
  by (auto simp: loads_def res_simps simp del: length_skip_ws split: if_splits)

interpretation json_codec: codec json_text loads wf_json
  by unfold_locales (rule loads_dumps)

end
