(* ===== verification/Base64.thy ===== *)
theory Base64
  imports PyData
begin

text \<open>
  Base 64 as \<open>base64.standard_b64encode\<close> writes it and \<open>base64.standard_b64decode\<close> reads
  it.  The reader is the state machine of \<open>binascii.a2b_base64\<close> in its lenient mode: bytes
  outside the alphabet are skipped, a complete padding ends the input, and an incomplete
  quantum at the end is an error.  The handshake and the \<open>BINARY\<close> pseudo-type use it.
\<close>

datatype b64_error = InvalidLength | IncorrectPadding

definition b64_char :: "nat \<Rightarrow> char" where
  "b64_char n =
     (if n < 26 then chr (65 + n) else if n < 52 then chr (71 + n)
      else if n < 62 then chr (n - 4) else if n = 62 then CHR ''+'' else CHR ''/'')"

definition b64_val :: "byte \<Rightarrow> nat option" where
  "b64_val b =
     (let c = unat b in
      if 65 \<le> c \<and> c \<le> 90 then Some (c - 65)
      else if 97 \<le> c \<and> c \<le> 122 then Some (c - 71)
      else if 48 \<le> c \<and> c \<le> 57 then Some (c + 4)
      else if c = 43 then Some 62
      else if c = 47 then Some 63
      else None)"

definition pad :: byte where
  "pad = 61"

fun b64_text :: "byte list \<Rightarrow> string" where
  "b64_text [] = []"
| "b64_text [a] = [b64_char (unat a div 4), b64_char (unat a mod 4 * 16), CHR ''='', CHR ''='']"
| "b64_text [a, b] =
     [b64_char (unat a div 4), b64_char (unat a mod 4 * 16 + unat b div 16),
      b64_char (unat b mod 16 * 4), CHR ''='']"
| "b64_text (a # b # c # bs) =
     b64_char (unat a div 4) # b64_char (unat a mod 4 * 16 + unat b div 16)
     # b64_char (unat b mod 16 * 4 + unat c div 64) # b64_char (unat c mod 64) # b64_text bs"

definition b64encode :: "byte list \<Rightarrow> byte list" where
  "b64encode bs = latin1 (b64_text bs)"

text \<open>Position in the quantum of four, the bits left over from it, the padding seen.\<close>

fun a2b :: "nat \<Rightarrow> nat \<Rightarrow> nat \<Rightarrow> byte list \<Rightarrow> b64_error + byte list" where
  "a2b q l p [] =
     (if q = 0 then Inr [] else Inl (if q = 1 then InvalidLength else IncorrectPadding))"
| "a2b q l p (b # bs) =
     (if b = pad then
        (if 2 \<le> q \<and> 4 \<le> q + Suc p then Inr []
         else a2b q l (if 2 \<le> q then Suc p else p) bs)
      else (case b64_val b of
          None \<Rightarrow> a2b q l p bs
        | Some v \<Rightarrow>
            if q = 0 then a2b 1 v 0 bs
            else if q = 1 then rmap (Cons (byte_nat (l * 4 + v div 16))) (a2b 2 (v mod 16) 0 bs)
            else if q = 2 then rmap (Cons (byte_nat (l * 16 + v div 4))) (a2b 3 (v mod 4) 0 bs)
            else rmap (Cons (byte_nat (l * 64 + v))) (a2b 0 0 0 bs)))"

definition b64decode :: "byte list \<Rightarrow> b64_error + byte list" where
  "b64decode bs = a2b 0 0 0 bs"

lemma code_point_b64_char: "n < 64 \<Longrightarrow> code_point (b64_char n) =
    (if n < 26 then 65 + n else if n < 52 then 71 + n else if n < 62 then n - 4
     else if n = 62 then 43 else 47)"
  by (simp add: b64_char_def) (simp add: code_point_def)

lemma b64_val_char [simp]: "n < 64 \<Longrightarrow> b64_val (byte_of (b64_char n)) = Some n"
  by (simp add: b64_val_def code_point_b64_char Let_def) arith

lemma b64_char_not_pad [simp]: "n < 64 \<Longrightarrow> byte_of (b64_char n) \<noteq> pad"
  by (simp add: byte_eq_iff pad_def code_point_b64_char) arith

lemma byte_of_equals [simp]: "byte_of (CHR ''='') = pad"
  by (simp add: byte_eq_iff pad_def code_point_def)

lemma split_byte:
  "byte_nat (unat a div 4 * 4 + unat a mod 4) = a"
  "byte_nat (unat a div 16 * 16 + unat a mod 16) = a"
  "byte_nat (unat a div 64 * 64 + unat a mod 64) = a"
  by (simp_all add: div_mult_mod_eq)

lemma pack_bits:
  fixes x y k m :: nat
  assumes "y < k"
  shows "(x * k + y) div k = x" "(x * k + y) mod k = y" "x < m \<Longrightarrow> x * k + y < m * k"
proof -
  show "(x * k + y) div k = x" "(x * k + y) mod k = y" using assms by simp_all
  assume "x < m"
  then have "Suc x * k \<le> m * k" by (intro mult_le_mono1) simp
  then show "x * k + y < m * k" using assms by simp
qed

lemma byte_quarters:
  "unat (a :: byte) div 4 < 64" "unat a div 16 < 16" "unat a div 64 < 4"
  "unat a mod 4 < 4" "unat a mod 16 < 16" "unat a mod 64 < 64" "unat a mod 4 * 16 < 64"
  "unat a mod 16 * 4 < 64"
  using unat_byte_less [of a] by (simp_all add: less_mult_imp_div_less)

lemma middle_bits:
  fixes a b c :: byte
  shows "unat a mod 4 * 16 + unat b div 16 < 64" "unat b mod 16 * 4 + unat c div 64 < 64"
    "(unat a mod 4 * 16 + unat b div 16) div 16 = unat a mod 4"
    "(unat a mod 4 * 16 + unat b div 16) mod 16 = unat b div 16"
    "(unat b mod 16 * 4 + unat c div 64) div 4 = unat b mod 16"
    "(unat b mod 16 * 4 + unat c div 64) mod 4 = unat c div 64"
  using pack_bits [OF byte_quarters(2) [of b], of "unat a mod 4"]
    pack_bits [OF byte_quarters(3) [of c], of "unat b mod 16"]
    pack_bits(3) [OF byte_quarters(2) [of b] byte_quarters(4) [of a]]
    pack_bits(3) [OF byte_quarters(3) [of c] byte_quarters(5) [of b]]
  by simp_all

lemma a2b_text: "a2b 0 0 0 (latin1 (b64_text bs)) = Inr bs"
  by (induction bs rule: b64_text.induct)
     (simp_all add: latin1_Cons split_byte byte_quarters middle_bits)

lemma b64decode_encode [simp]: "b64decode (b64encode bs) = Inr bs"
  by (simp add: b64decode_def b64encode_def a2b_text)

interpretation b64: codec b64encode b64decode "\<lambda>_. True"
  by unfold_locales simp

text \<open>The encoder's alphabet: what it writes can stand between commas and after an equals
  sign, which the handshake relies on.\<close>

lemma b64_text_chars:
  "c \<in> set (b64_text bs) \<Longrightarrow> c \<in> b64_char ` {..<64} \<or> c = CHR ''=''"
  by (induction bs rule: b64_text.induct) (auto simp: byte_quarters middle_bits)

lemma b64_text_ascii: "is_ascii (b64_text bs)"
  by (auto simp: is_ascii_def code_point_b64_char dest!: b64_text_chars)
     (simp_all add: code_point_def)

lemma b64_text_no_comma: "CHR '','' \<notin> set (b64_text bs)"
proof
  assume "CHR '','' \<in> set (b64_text bs)"
  then obtain n where "n < 64" "code_point (CHR '','') = code_point (b64_char n)"
    by (auto dest: b64_text_chars)
  moreover have "code_point (CHR '','') = 44" by (simp add: code_point_def)
  ultimately show False by (simp add: code_point_b64_char split: if_splits)
qed

lemma b64encode_no_comma: "byte_of (CHR '','') \<notin> set (b64encode bs)"
  using b64_text_no_comma by (auto simp: b64encode_def latin1_def)

end
