(* ===== verification/AstClasses.thy ===== *)
theory AstClasses
  imports Errors Json Base64
begin

text \<open>
  The term classes of \<open>rethinkdb/ast.py\<close>.  A Python class of the AST is a record \<open>cls\<close>:
  which class gives it its \<open>__init__\<close>, \<open>compose\<close> and \<open>build\<close> (its kind), its name,
  its \<open>term_type\<close> (the name of the member of the generated enumeration \<open>P_TERM\<close>), its
  \<open>statement\<close> and its \<open>st_infix\<close>.  The lists \<open>classes_1\<close> to \<open>classes_8\<close> are the
  classes of the file in their order.
\<close>

subsection \<open>Classes\<close>

datatype kind =
    K_Datum | K_MakeArray | K_MakeObj | K_Var | K_ImplicitVar | K_Not | K_Slice | K_FunCall
  | K_Table | K_Binary | K_Func | K_Constant
  | K_BoolOper | K_BiOper | K_BiCompareOper | K_TopLevel | K_Method | K_BracketQuery

record cls =
  ckind :: kind
  cname :: string
  cterm :: "string option"
  cstmt :: "string option"
  cinfix :: "string option"

definition own_class :: "kind \<Rightarrow> string \<Rightarrow> string option \<Rightarrow> string option \<Rightarrow> cls" where
  "own_class k n t s = \<lparr>ckind = k, cname = n, cterm = t, cstmt = s, cinfix = None\<rparr>"

definition top_class :: "string \<Rightarrow> string \<Rightarrow> string \<Rightarrow> cls" where
  "top_class n t s =
     \<lparr>ckind = K_TopLevel, cname = n, cterm = Some t, cstmt = Some s, cinfix = None\<rparr>"

definition method_class :: "string \<Rightarrow> string \<Rightarrow> string \<Rightarrow> cls" where
  "method_class n t s =
     \<lparr>ckind = K_Method, cname = n, cterm = Some t, cstmt = Some s, cinfix = None\<rparr>"

definition bracket_class :: "string \<Rightarrow> string \<Rightarrow> string \<Rightarrow> cls" where
  "bracket_class n t s =
     \<lparr>ckind = K_BracketQuery, cname = n, cterm = Some t, cstmt = Some s, cinfix = None\<rparr>"

definition oper_class :: "kind \<Rightarrow> string \<Rightarrow> string \<Rightarrow> string \<Rightarrow> cls" where
  "oper_class k n t s =
     \<lparr>ckind = k, cname = n, cterm = Some t, cstmt = Some s, cinfix = None\<rparr>"

definition bool_class :: "string \<Rightarrow> string \<Rightarrow> string \<Rightarrow> string option \<Rightarrow> cls" where
  "bool_class n t s x =
     \<lparr>ckind = K_BoolOper, cname = n, cterm = Some t, cstmt = Some s, cinfix = x\<rparr>"

lemmas class_defs = own_class_def top_class_def method_class_def bracket_class_def
  oper_class_def bool_class_def

definition classes_1 :: "cls list" where
  "classes_1 = [
     own_class K_Datum ''Datum'' None None,
     own_class K_MakeArray ''MakeArray'' (Some ''MAKE_ARRAY'') None,
     own_class K_MakeObj ''MakeObj'' (Some ''MAKE_OBJ'') None,
     own_class K_Var ''Var'' (Some ''VAR'') None,
     top_class ''JavaScript'' ''JAVASCRIPT'' ''js'',
     top_class ''Http'' ''HTTP'' ''http'',
     top_class ''UserError'' ''ERROR'' ''error'',
     top_class ''Random'' ''RANDOM'' ''random'',
     method_class ''Changes'' ''CHANGES'' ''changes'',
     method_class ''Default'' ''DEFAULT'' ''default'',
     own_class K_ImplicitVar ''ImplicitVar'' (Some ''IMPLICIT_VAR'') None,
     oper_class K_BiCompareOper ''Eq'' ''EQ'' ''=='',
     oper_class K_BiCompareOper ''Ne'' ''NE'' ''!='',
     oper_class K_BiCompareOper ''Lt'' ''LT'' ''<'',
     oper_class K_BiCompareOper ''Le'' ''LE'' ''<='',
     oper_class K_BiCompareOper ''Gt'' ''GT'' ''>'',
     oper_class K_BiCompareOper ''Ge'' ''GE'' ''>='',
     own_class K_Not ''Not'' (Some ''NOT'') None,
     oper_class K_BiOper ''Add'' ''ADD'' ''+'',
     oper_class K_BiOper ''Sub'' ''SUB'' ''-'',
     oper_class K_BiOper ''Mul'' ''MUL'' ''*'']"

definition classes_2 :: "cls list" where
  "classes_2 = [
     oper_class K_BiOper ''Div'' ''DIV'' ''/'',
     oper_class K_BiOper ''Mod'' ''MOD'' ''%'',
     bool_class ''BitAnd'' ''BIT_AND'' ''bit_and'' None,
     bool_class ''BitOr'' ''BIT_OR'' ''bit_or'' None,
     bool_class ''BitXor'' ''BIT_XOR'' ''bit_xor'' None,
     method_class ''BitNot'' ''BIT_NOT'' ''bit_not'',
     bool_class ''BitSal'' ''BIT_SAL'' ''bit_sal'' None,
     bool_class ''BitSar'' ''BIT_SAR'' ''bit_sar'' None,
     method_class ''Floor'' ''FLOOR'' ''floor'',
     method_class ''Ceil'' ''CEIL'' ''ceil'',
     method_class ''Round'' ''ROUND'' ''round'',
     method_class ''Append'' ''APPEND'' ''append'',
     method_class ''Prepend'' ''PREPEND'' ''prepend'',
     method_class ''Difference'' ''DIFFERENCE'' ''difference'',
     method_class ''SetInsert'' ''SET_INSERT'' ''set_insert'',
     method_class ''SetUnion'' ''SET_UNION'' ''set_union'',
     method_class ''SetIntersection'' ''SET_INTERSECTION'' ''set_intersection'',
     method_class ''SetDifference'' ''SET_DIFFERENCE'' ''set_difference'',
     own_class K_Slice ''Slice'' (Some ''SLICE'') (Some ''slice''),
     method_class ''Skip'' ''SKIP'' ''skip'',
     method_class ''Limit'' ''LIMIT'' ''limit'',
     bracket_class ''GetField'' ''GET_FIELD'' ''get_field'',
     bracket_class ''Bracket'' ''BRACKET'' ''bracket'',
     method_class ''Contains'' ''CONTAINS'' ''contains'',
     method_class ''HasFields'' ''HAS_FIELDS'' ''has_fields'',
     method_class ''WithFields'' ''WITH_FIELDS'' ''with_fields'',
     method_class ''Keys'' ''KEYS'' ''keys'',
     method_class ''Values'' ''VALUES'' ''values'']"

definition classes_3 :: "cls list" where
  "classes_3 = [
     method_class ''Object'' ''OBJECT'' ''object'',
     method_class ''Pluck'' ''PLUCK'' ''pluck'',
     method_class ''Without'' ''WITHOUT'' ''without'',
     method_class ''Merge'' ''MERGE'' ''merge'',
     method_class ''Between'' ''BETWEEN'' ''between'',
     top_class ''DB'' ''DB'' ''db'',
     own_class K_FunCall ''FunCall'' (Some ''FUNCALL'') None]"

definition classes_4 :: "cls list" where
  "classes_4 = [
     own_class K_Table ''Table'' (Some ''TABLE'') (Some ''table''),
     method_class ''Get'' ''GET'' ''get'',
     method_class ''GetAll'' ''GET_ALL'' ''get_all'',
     method_class ''GetIntersecting'' ''GET_INTERSECTING'' ''get_intersecting'',
     method_class ''GetNearest'' ''GET_NEAREST'' ''get_nearest'',
     method_class ''UUID'' ''UUID'' ''uuid'',
     method_class ''Reduce'' ''REDUCE'' ''reduce'',
     method_class ''Sum'' ''SUM'' ''sum'',
     method_class ''Avg'' ''AVG'' ''avg'',
     method_class ''Min'' ''MIN'' ''min'',
     method_class ''Max'' ''MAX'' ''max'',
     method_class ''Map'' ''MAP'' ''map'',
     method_class ''Fold'' ''FOLD'' ''fold'',
     method_class ''Filter'' ''FILTER'' ''filter'',
     method_class ''ConcatMap'' ''CONCAT_MAP'' ''concat_map'',
     method_class ''OrderBy'' ''ORDER_BY'' ''order_by'']"

definition classes_5 :: "cls list" where
  "classes_5 = [
     method_class ''Distinct'' ''DISTINCT'' ''distinct'',
     method_class ''Count'' ''COUNT'' ''count'',
     method_class ''Union'' ''UNION'' ''union'',
     bracket_class ''Nth'' ''NTH'' ''nth'',
     method_class ''Match'' ''MATCH'' ''match'',
     method_class ''ToJsonString'' ''TO_JSON_STRING'' ''to_json_string'',
     method_class ''Split'' ''SPLIT'' ''split'',
     method_class ''Upcase'' ''UPCASE'' ''upcase'',
     method_class ''Downcase'' ''DOWNCASE'' ''downcase'',
     method_class ''OffsetsOf'' ''OFFSETS_OF'' ''offsets_of'',
     method_class ''IsEmpty'' ''IS_EMPTY'' ''is_empty'',
     method_class ''Group'' ''GROUP'' ''group'',
     method_class ''InnerJoin'' ''INNER_JOIN'' ''inner_join'',
     method_class ''OuterJoin'' ''OUTER_JOIN'' ''outer_join'',
     method_class ''EqJoin'' ''EQ_JOIN'' ''eq_join'',
     method_class ''Zip'' ''ZIP'' ''zip'',
     method_class ''CoerceTo'' ''COERCE_TO'' ''coerce_to'',
     method_class ''Ungroup'' ''UNGROUP'' ''ungroup'',
     method_class ''TypeOf'' ''TYPE_OF'' ''type_of'',
     method_class ''Update'' ''UPDATE'' ''update'',
     method_class ''Delete'' ''DELETE'' ''delete'',
     method_class ''Replace'' ''REPLACE'' ''replace'',
     method_class ''Insert'' ''INSERT'' ''insert'',
     top_class ''DbCreate'' ''DB_CREATE'' ''db_create'',
     top_class ''DbDrop'' ''DB_DROP'' ''db_drop'',
     top_class ''DbList'' ''DB_LIST'' ''db_list'',
     method_class ''TableCreate'' ''TABLE_CREATE'' ''table_create'',
     top_class ''TableCreateTL'' ''TABLE_CREATE'' ''table_create'',
     method_class ''TableDrop'' ''TABLE_DROP'' ''table_drop'',
     top_class ''TableDropTL'' ''TABLE_DROP'' ''table_drop'']"

definition classes_6 :: "cls list" where
  "classes_6 = [
     method_class ''TableList'' ''TABLE_LIST'' ''table_list'',
     top_class ''TableListTL'' ''TABLE_LIST'' ''table_list'',
     method_class ''SetWriteHook'' ''SET_WRITE_HOOK'' ''set_write_hook'',
     method_class ''GetWriteHook'' ''GET_WRITE_HOOK'' ''get_write_hook'',
     method_class ''IndexCreate'' ''INDEX_CREATE'' ''index_create'',
     method_class ''IndexDrop'' ''INDEX_DROP'' ''index_drop'',
     method_class ''IndexRename'' ''INDEX_RENAME'' ''index_rename'',
     method_class ''IndexList'' ''INDEX_LIST'' ''index_list'',
     method_class ''IndexStatus'' ''INDEX_STATUS'' ''index_status'',
     method_class ''IndexWait'' ''INDEX_WAIT'' ''index_wait'',
     method_class ''Config'' ''CONFIG'' ''config'',
     method_class ''Status'' ''STATUS'' ''status'',
     method_class ''Wait'' ''WAIT'' ''wait'',
     method_class ''Reconfigure'' ''RECONFIGURE'' ''reconfigure'',
     method_class ''Rebalance'' ''REBALANCE'' ''rebalance'',
     method_class ''Sync'' ''SYNC'' ''sync'',
     method_class ''Grant'' ''GRANT'' ''grant'',
     top_class ''GrantTL'' ''GRANT'' ''grant'',
     top_class ''Branch'' ''BRANCH'' ''branch'',
     bool_class ''Or'' ''OR'' ''or_'' (Some ''|''),
     bool_class ''And'' ''AND'' ''and_'' (Some ''&''),
     method_class ''ForEach'' ''FOR_EACH'' ''for_each'',
     method_class ''Info'' ''INFO'' ''info'',
     method_class ''InsertAt'' ''INSERT_AT'' ''insert_at'',
     method_class ''SpliceAt'' ''SPLICE_AT'' ''splice_at'',
     method_class ''DeleteAt'' ''DELETE_AT'' ''delete_at'',
     method_class ''ChangeAt'' ''CHANGE_AT'' ''change_at'',
     method_class ''Sample'' ''SAMPLE'' ''sample'',
     top_class ''Json'' ''JSON'' ''json'']"

definition classes_7 :: "cls list" where
  "classes_7 = [
     top_class ''Args'' ''ARGS'' ''args'',
     own_class K_Binary ''Binary'' (Some ''BINARY'') (Some ''binary''),
     top_class ''Range'' ''RANGE'' ''range'',
     method_class ''ToISO8601'' ''TO_ISO8601'' ''to_iso8601'',
     method_class ''During'' ''DURING'' ''during'',
     method_class ''Date'' ''DATE'' ''date'',
     method_class ''TimeOfDay'' ''TIME_OF_DAY'' ''time_of_day'',
     method_class ''Timezone'' ''TIMEZONE'' ''timezone'',
     method_class ''Year'' ''YEAR'' ''year'',
     method_class ''Month'' ''MONTH'' ''month'',
     method_class ''Day'' ''DAY'' ''day'',
     method_class ''DayOfWeek'' ''DAY_OF_WEEK'' ''day_of_week'',
     method_class ''DayOfYear'' ''DAY_OF_YEAR'' ''day_of_year'',
     method_class ''Hours'' ''HOURS'' ''hours'',
     method_class ''Minutes'' ''MINUTES'' ''minutes'',
     method_class ''Seconds'' ''SECONDS'' ''seconds'',
     top_class ''Time'' ''TIME'' ''time'',
     top_class ''ISO8601'' ''ISO8601'' ''iso8601'']"

definition classes_8 :: "cls list" where
  "classes_8 = [
     top_class ''EpochTime'' ''EPOCH_TIME'' ''epoch_time'',
     top_class ''Now'' ''NOW'' ''now'',
     method_class ''InTimezone'' ''IN_TIMEZONE'' ''in_timezone'',
     method_class ''ToEpochTime'' ''TO_EPOCH_TIME'' ''to_epoch_time'',
     top_class ''GeoJson'' ''GEOJSON'' ''geojson'',
     method_class ''ToGeoJson'' ''TO_GEOJSON'' ''to_geojson'',
     top_class ''Point'' ''POINT'' ''point'',
     top_class ''Line'' ''LINE'' ''line'',
     top_class ''Polygon'' ''POLYGON'' ''polygon'',
     method_class ''Distance'' ''DISTANCE'' ''distance'',
     method_class ''Intersects'' ''INTERSECTS'' ''intersects'',
     method_class ''Includes'' ''INCLUDES'' ''includes'',
     top_class ''Circle'' ''CIRCLE'' ''circle'',
     method_class ''Fill'' ''FILL'' ''fill'',
     method_class ''PolygonSub'' ''POLYGON_SUB'' ''polygon_sub'',
     own_class K_Func ''Func'' (Some ''FUNC'') None,
     top_class ''Asc'' ''ASC'' ''asc'',
     top_class ''Desc'' ''DESC'' ''desc'',
     top_class ''Literal'' ''LITERAL'' ''literal'']"

definition classes :: "cls list" where
  "classes = classes_1 @ classes_2 @ classes_3 @ classes_4 @ classes_5 @ classes_6 @ classes_7 @ classes_8"

text \<open>Looking a class up by its name, \<open>ast.<name>\<close>; a missing one is an \<open>AttributeError\<close>
  of the module.\<close>

definition class_named :: "string \<Rightarrow> cls option" where
  "class_named n = find (\<lambda>c. cname c = n) classes"

lemmas classes_all = classes_def classes_1_def classes_2_def classes_3_def classes_4_def
  classes_5_def classes_6_def classes_7_def classes_8_def

text \<open>Which kinds of class print through their \<open>statement\<close>; every class of that kind has one,
  and the only classes with a \<open>term_type\<close> missing are those that build to something else.\<close>

definition needs_statement :: "kind \<Rightarrow> bool" where
  "needs_statement k \<longleftrightarrow> k \<in> {K_BoolOper, K_BiOper, K_BiCompareOper, K_TopLevel, K_Method,
     K_BracketQuery, K_Slice, K_Binary, K_Constant}"

definition wf_cls :: "cls \<Rightarrow> bool" where
  "wf_cls c \<longleftrightarrow> (needs_statement (ckind c) \<longrightarrow> cstmt c \<noteq> None)
     \<and> (ckind c \<noteq> K_Datum \<longrightarrow> cterm c \<noteq> None)"

lemma wf_cls_tables:
  "list_all wf_cls classes_1" "list_all wf_cls classes_2" "list_all wf_cls classes_3"
  "list_all wf_cls classes_4" "list_all wf_cls classes_5" "list_all wf_cls classes_6"
  "list_all wf_cls classes_7" "list_all wf_cls classes_8"
  by (simp_all add: classes_all class_defs wf_cls_def needs_statement_def)

lemma wf_cls_classes: "c \<in> set classes \<Longrightarrow> wf_cls c"
  using wf_cls_tables by (auto simp: classes_def list_all_iff)

lemma class_named_SomeD: "class_named n = Some c \<Longrightarrow> c \<in> set classes \<and> cname c = n"
  by (auto simp: class_named_def find_Some_iff)

lemma class_named_wf: "class_named n = Some c \<Longrightarrow> wf_cls c"
  by (auto dest: class_named_SomeD intro: wf_cls_classes)

end
