(* ===== verification/Terms.thy ===== *)
theory Terms
  imports AstClasses
begin

text \<open>
  The query objects of \<open>rethinkdb/ast.py\<close> and the Python values a caller may hand to them.

  A query object is its class, the fields only some classes have (\<open>attr\<close>), \<open>_args\<close> and
  \<open>optargs\<close>.  \<open>pyval\<close> is what \<open>r.expr\<close> distinguishes among the caller's values; a Python
  function in it is the number of its parameters and what calling it does: it may raise and,
  by building further functions, draw from the counter of variable numbers.  \<open>wf_query\<close> is
  what every constructor of the file establishes of an object, and \<open>printable\<close> the arities
  that the pretty printer relies on beyond that.
\<close>

subsection \<open>Values and objects\<close>

text \<open>A value the driver puts into a \<open>Datum\<close> unseen: floats by their \<open>repr\<close>, and any other
  object by its type's name and its \<open>repr\<close>.\<close>

datatype atom = ANone | ABool bool | AInt int | AFloat string | AStr string | AObj string string

datatype pykey = KStr string | KObj string

datatype attr = NoAttr | Infix bool | BracketOp bool | Data atom | Base64 string | Vrs "int list"

datatype query = Query (qcls: cls) (qattr: attr) (qargs: "query list") (qopts: "(string \<times> query) list")

type_synonym error = "query exc"

datatype pyval =
    PAtom atom
  | PBytes "byte list"
  | PBinary "byte list"
  | PDate bool string string
  | PList "pyval list"
  | PDict "(pykey \<times> pyval) list"
  | PQuery query
  | PFun nat "query list \<Rightarrow> int \<Rightarrow> (error + pyval) \<times> int"
  | PCallable string

abbreviation qkind :: "query \<Rightarrow> kind" where
  "qkind q \<equiv> ckind (qcls q)"

definition needs_wrap :: "query \<Rightarrow> bool" where
  "needs_wrap q \<longleftrightarrow> qkind q = K_Datum \<or> qkind q = K_MakeArray \<or> qkind q = K_MakeObj"

definition is_db :: "query \<Rightarrow> bool" where
  "is_db q \<longleftrightarrow> cname (qcls q) = ''DB''"

text \<open>Structural recursion over the arguments and the optional arguments.\<close>

lemma size_snd_opt [termination_simp]: "kv \<in> set opts \<Longrightarrow> size (snd kv) < Suc (size_list (size_prod (\<lambda>_. 0) size) opts)"
  by (induction opts) auto

lemma size_opt [termination_simp]: "(k, v) \<in> set opts \<Longrightarrow> size v < Suc (size_list (size_prod (\<lambda>_. 0) size) opts)"
  by (induction opts) auto

lemma query_induct [case_names Query]:
  assumes "\<And>c a args opts. (\<And>q. q \<in> set args \<Longrightarrow> P q) \<Longrightarrow> (\<And>k q. (k, q) \<in> set opts \<Longrightarrow> P q)
     \<Longrightarrow> P (Query c a args opts)"
  shows "P q"
proof (induction q)
  case (Query c a args opts)
  then show ?case
    by (intro assms) (auto simp: snds.simps)
qed

subsection \<open>Subterms and the scan for \<open>r.row\<close>\<close>

fun ivar_scan :: "query \<Rightarrow> bool" where
  "ivar_scan (Query c a args opts) =
     (if ckind c = K_ImplicitVar then True
      else if list_ex (\<lambda>b. b) (map ivar_scan args) then True
      else list_ex (\<lambda>b. b) (map (\<lambda>kv. ivar_scan (snd kv)) opts))"

inductive subterm :: "query \<Rightarrow> query \<Rightarrow> bool" where
  sub_refl: "subterm q q"
| sub_arg: "r \<in> set args \<Longrightarrow> subterm q r \<Longrightarrow> subterm q (Query c a args opts)"
| sub_opt: "(k, r) \<in> set opts \<Longrightarrow> subterm q r \<Longrightarrow> subterm q (Query c a args opts)"

inductive_cases subtermE: "subterm q (Query c a args opts)"

lemma subterm_trans: "subterm q r \<Longrightarrow> subterm p q \<Longrightarrow> subterm p r"
  by (induction rule: subterm.induct) (auto intro: subterm.intros)

inductive_simps subterm_Query: "subterm q (Query c a args opts)"

lemma ivar_scan_Query:
  "ivar_scan (Query c a args opts) \<longleftrightarrow> ckind c = K_ImplicitVar
     \<or> (\<exists>r \<in> set args. ivar_scan r) \<or> (\<exists>k r. (k, r) \<in> set opts \<and> ivar_scan r)"
  by (auto simp: list_ex_iff) force+

lemma subterm_kind_Query:
  "(\<exists>v. subterm v (Query c a args opts) \<and> P v) \<longleftrightarrow> P (Query c a args opts)
     \<or> (\<exists>r \<in> set args. \<exists>v. subterm v r \<and> P v)
     \<or> (\<exists>k r. (k, r) \<in> set opts \<and> (\<exists>v. subterm v r \<and> P v))"
  by (simp only: subterm_Query) blast

lemma ivar_scan_iff: "ivar_scan q \<longleftrightarrow> (\<exists>v. subterm v q \<and> qkind v = K_ImplicitVar)"
proof (induction q rule: query_induct)
  case (Query c a args opts)
  show ?case
    unfolding ivar_scan_Query subterm_kind_Query by (simp add: Query cong: conj_cong)
qed

subsection \<open>Well-formedness\<close>

text \<open>The fields of an object are those its class's \<open>__init__\<close> sets.\<close>

fun wf_attr :: "cls \<Rightarrow> attr \<Rightarrow> query list \<Rightarrow> bool" where
  "wf_attr c a args =
     (case ckind c of
        K_BoolOper \<Rightarrow> (\<exists>b. a = Infix b \<and> (b \<longrightarrow> cinfix c \<noteq> None))
      | K_BracketQuery \<Rightarrow> (\<exists>b. a = BracketOp b)
      | K_Slice \<Rightarrow> (\<exists>b. a = BracketOp b)
      | K_Datum \<Rightarrow> (\<exists>d. a = Data d) \<and> args = []
      | K_Binary \<Rightarrow> (if args = [] then (\<exists>s. a = Base64 s) else a = NoAttr)
      | K_Func \<Rightarrow> (\<exists>vs. a = Vrs vs) \<and> length args = 2
      | _ \<Rightarrow> a = NoAttr)"

fun wf_query :: "query \<Rightarrow> bool" where
  "wf_query (Query c a args opts) =
     (wf_cls c \<and> wf_attr c a args \<and> list_all (\<lambda>b. b) (map wf_query args)
      \<and> list_all (\<lambda>b. b) (map (\<lambda>kv. wf_query (snd kv)) opts) \<and> distinct (map fst opts))"

lemma wf_query_simps [simp]:
  "wf_query (Query c a args opts) \<longleftrightarrow>
     wf_cls c \<and> wf_attr c a args \<and> (\<forall>q \<in> set args. wf_query q)
      \<and> (\<forall>q \<in> snd ` set opts. wf_query q) \<and> distinct (map fst opts)"
  by (simp add: list_all_iff)

declare wf_query.simps [simp del]

lemma wf_subterm: "subterm q r \<Longrightarrow> wf_query r \<Longrightarrow> wf_query q"
  by (induction rule: subterm.induct) force+

fun arity_ok :: "kind \<Rightarrow> attr \<Rightarrow> query list \<Rightarrow> bool" where
  "arity_ok k a args =
     (case k of
        K_Not \<Rightarrow> args \<noteq> []
      | K_Table \<Rightarrow> args \<noteq> []
      | K_BracketQuery \<Rightarrow> a = BracketOp True \<longrightarrow> args \<noteq> []
      | K_Slice \<Rightarrow> a = BracketOp True \<longrightarrow> 3 \<le> length args
      | K_FunCall \<Rightarrow> args \<noteq> []
      | K_Var \<Rightarrow> args \<noteq> [] \<and> qkind (hd args) = K_Datum
      | _ \<Rightarrow> True)"

fun printable :: "query \<Rightarrow> bool" where
  "printable (Query c a args opts) =
     (arity_ok (ckind c) a args \<and> list_all (\<lambda>b. b) (map printable args)
      \<and> list_all (\<lambda>b. b) (map (\<lambda>kv. printable (snd kv)) opts))"

lemma printable_simps [simp]:
  "printable (Query c a args opts) \<longleftrightarrow>
     arity_ok (ckind c) a args \<and> (\<forall>q \<in> set args. printable q)
      \<and> (\<forall>q \<in> snd ` set opts. printable q)"
  by (simp add: list_all_iff)

declare printable.simps [simp del]

end
