(* ===== verification/Printer.thy ===== *)
theory Printer
  imports Terms
begin

text \<open>
  Printing a query and marking the part of it an error is about: the \<open>compose\<close> methods of
  \<open>rethinkdb/ast.py\<close> and \<open>T\<close>, \<open>QueryPrinter\<close> and \<open>ReqlError.__str__\<close> of
  \<open>rethinkdb/errors.py\<close>.

  Iterating a \<open>T\<close> yields tokens: the characters of the strings in it, and the elements of a
  separator given as a list, which may be longer (the operators).  A composed term is a
  string or such a token sequence (\<open>out\<close>); only \<open>Var.compose\<close> tells them apart.
\<close>

subsection \<open>Token sequences\<close>

datatype out = OStr string | OToks "string list"

definition chars :: "string \<Rightarrow> string list" where
  "chars s = map (\<lambda>c. [c]) s"

fun tokens :: "out \<Rightarrow> string list" where
  "tokens (OStr s) = chars s"
| "tokens (OToks ts) = ts"

text \<open>\<open>T(*seq, intsp=...)\<close>, by what its \<open>__iter__\<close> yields.\<close>

definition T_seq :: "out list \<Rightarrow> string list \<Rightarrow> out" where
  "T_seq seq intsp = OToks (join intsp (map tokens seq))"

lemma tokens_T_seq [simp]: "tokens (T_seq seq intsp) = join intsp (map tokens seq)"
  by (simp add: T_seq_def)

lemma chars_append [simp]: "chars (s @ t) = chars s @ chars t"
  by (simp add: chars_def)

lemma concat_chars [simp]: "concat (chars s) = s"
  by (simp add: chars_def)

lemma length_chars [simp]: "length (chars s) = length s"
  by (simp add: chars_def)

lemma join_Nil_sep: "join [] xs = concat xs"
  by (induction "[] :: 'a list" xs rule: join.induct) auto

text \<open>A context that inserts its argument once.\<close>

definition hole :: "('a list \<Rightarrow> 'a list) \<Rightarrow> bool" where
  "hole g \<longleftrightarrow> (\<exists>pre post. \<forall>x. g x = pre @ x @ post)"

lemma hole_id [intro]: "hole (\<lambda>x. x)"
  unfolding hole_def by (rule exI [of _ "[]"], rule exI [of _ "[]"]) simp

lemma hole_append_left [intro]:
  assumes "hole g"
  shows "hole (\<lambda>x. p @ g x)"
proof -
  obtain pre post where "\<And>x. g x = pre @ x @ post"
    using assms unfolding hole_def by blast
  then have "\<forall>x. p @ g x = (p @ pre) @ x @ post"
    by simp
  then show ?thesis
    unfolding hole_def by blast
qed

lemma hole_append_right [intro]:
  assumes "hole g"
  shows "hole (\<lambda>x. g x @ p)"
proof -
  obtain pre post where "\<And>x. g x = pre @ x @ post"
    using assms unfolding hole_def by blast
  then have "\<forall>x. g x @ p = pre @ x @ (post @ p)"
    by simp
  then show ?thesis
    unfolding hole_def by blast
qed

lemma hole_Cons [intro]: "hole g \<Longrightarrow> hole (\<lambda>x. c # g x)"
  using hole_append_left [of g "[c]"] by simp

lemma hole_join_update:
  assumes "hole g" and "i < length xs"
  shows "hole (\<lambda>x. join sep (xs[i := g x]))"
  using assms(2)
proof (induction sep xs arbitrary: i rule: join.induct)
  case (1 sep)
  then show ?case by simp
next
  case (2 sep y)
  then show ?case using assms(1) by simp
next
  case (3 sep y z zs)
  show ?case
  proof (cases i)
    case 0
    then show ?thesis using assms(1) by auto
  next
    case (Suc j)
    have "hole (\<lambda>x. join sep ((z # zs)[j := g x]))"
      using 3 Suc by simp
    then have "hole (\<lambda>x. y @ sep @ join sep ((z # zs)[j := g x]))"
      by (intro hole_append_left)
    moreover have "(\<lambda>x. join sep ((y # z # zs)[i := g x]))
        = (\<lambda>x. y @ sep @ join sep ((z # zs)[j := g x]))"
      by (rule ext) (simp add: Suc join_Cons split: nat.split)
    ultimately show ?thesis by simp
  qed
qed

subsection \<open>Printing atoms\<close>

definition repr_char :: "char \<Rightarrow> char \<Rightarrow> string" where
  "repr_char q c =
     (if c = q \<or> c = CHR 0x5C then [CHR 0x5C, c]
      else if c = CHR 0x0A then [CHR 0x5C, CHR ''n'']
      else if c = CHR 0x0D then [CHR 0x5C, CHR ''r'']
      else if c = CHR 0x09 then [CHR 0x5C, CHR ''t'']
      else if code_point c < 32 \<or> 127 \<le> code_point c \<and> code_point c \<le> 160 \<or> code_point c = 173
      then [CHR 0x5C, CHR ''x'', hex_digit (code_point c div 16), hex_digit (code_point c mod 16)]
      else [c])"

definition repr_str :: "string \<Rightarrow> string" where
  "repr_str s =
     (let q = (if CHR 0x27 \<in> set s \<and> CHR 0x22 \<notin> set s then CHR 0x22 else CHR 0x27)
      in q # concat (map (repr_char q) s) @ [q])"

fun py_repr :: "atom \<Rightarrow> string" where
  "py_repr ANone = ''None''"
| "py_repr (ABool b) = (if b then ''True'' else ''False'')"
| "py_repr (AInt i) = show_int i"
| "py_repr (AFloat f) = f"
| "py_repr (AStr s) = repr_str s"
| "py_repr (AObj ty r) = r"

subsection \<open>The \<open>compose\<close> methods\<close>

definition attribute_error :: error where
  "attribute_error = py_exc PyAttributeError ''object has no such attribute''"

definition index_error :: error where
  "index_error = py_exc PyIndexError ''list index out of range''"

definition concat_error :: error where
  "concat_error = py_exc PyTypeError ''can only concatenate str to str''"

definition get_statement :: "cls \<Rightarrow> error + string" where
  "get_statement c = (case cstmt c of None \<Rightarrow> Inl attribute_error | Some s \<Rightarrow> Inr s)"

definition get_infix :: "attr \<Rightarrow> error + bool" where
  "get_infix a = (case a of Infix b \<Rightarrow> Inr b | _ \<Rightarrow> Inl attribute_error)"

definition get_st_infix :: "cls \<Rightarrow> error + string" where
  "get_st_infix c = (case cinfix c of None \<Rightarrow> Inl attribute_error | Some s \<Rightarrow> Inr s)"

definition get_bracket_operator :: "attr \<Rightarrow> error + bool" where
  "get_bracket_operator a = (case a of BracketOp b \<Rightarrow> Inr b | _ \<Rightarrow> Inl attribute_error)"

definition get_data :: "attr \<Rightarrow> error + atom" where
  "get_data a = (case a of Data d \<Rightarrow> Inr d | _ \<Rightarrow> Inl attribute_error)"

definition get_vrs :: "attr \<Rightarrow> error + int list" where
  "get_vrs a = (case a of Vrs vs \<Rightarrow> Inr vs | _ \<Rightarrow> Inl attribute_error)"

definition item :: "'a list \<Rightarrow> nat \<Rightarrow> error + 'a" where
  "item xs i = (if i < length xs then Inr (xs ! i) else Inl index_error)"

definition r_expr :: "out \<Rightarrow> out" where
  "r_expr a = T_seq [OStr ''r.expr('', a, OStr '')''] []"

definition wrap_if :: "bool \<Rightarrow> out \<Rightarrow> out" where
  "wrap_if b a = (if b then r_expr a else a)"

definition wrapped_args :: "query list \<Rightarrow> out list \<Rightarrow> out list" where
  "wrapped_args qs args = map2 (\<lambda>q a. wrap_if (needs_wrap q) a) qs args"

definition optarg :: "string \<Rightarrow> string \<times> out \<Rightarrow> out" where
  "optarg sep kv = T_seq [OStr (fst kv), OStr sep, snd kv] []"

definition compose_bool_oper :: "cls \<Rightarrow> attr \<Rightarrow> query list \<Rightarrow> out list \<Rightarrow> error + out" where
  "compose_bool_oper c a qs args =
     rbind (get_infix a) (\<lambda>infix.
       if infix then rmap (\<lambda>st. T_seq [OStr ''('', T_seq (wrapped_args qs args) ['' '', st, '' ''],
           OStr '')''] []) (get_st_infix c)
       else rmap (\<lambda>st. T_seq [OStr ''r.'', OStr st, OStr ''('',
           T_seq (wrapped_args qs args) (chars '', ''), OStr '')''] []) (get_statement c))"

definition compose_bi_oper :: "cls \<Rightarrow> query list \<Rightarrow> out list \<Rightarrow> error + out" where
  "compose_bi_oper c qs args =
     rmap (\<lambda>st. T_seq [OStr ''('', T_seq (wrapped_args qs args) ['' '', st, '' ''], OStr '')''] [])
       (get_statement c)"

definition compose_top_level :: "cls \<Rightarrow> out list \<Rightarrow> (string \<times> out) list \<Rightarrow> error + out" where
  "compose_top_level c args opts =
     rmap (\<lambda>st. T_seq [OStr ''r.'', OStr st, OStr ''('',
         T_seq (args @ map (optarg ''='') opts) (chars '', ''), OStr '')''] [])
       (get_statement c)"

definition compose_method ::
    "cls \<Rightarrow> query list \<Rightarrow> out list \<Rightarrow> (string \<times> out) list \<Rightarrow> error + out" where
  "compose_method c qs args opts =
     (case args of
        [] \<Rightarrow> rmap (\<lambda>st. T_seq [OStr ''r.'', OStr st, OStr ''()''] []) (get_statement c)
      | arg # rest \<Rightarrow>
          rbind (item qs 0) (\<lambda>q.
            rmap (\<lambda>st. T_seq [wrap_if (needs_wrap q) arg, OStr ''.'', OStr st, OStr ''('',
                T_seq (rest @ map (optarg ''='') opts) (chars '', ''), OStr '')''] [])
              (get_statement c)))"

definition compose_bracket ::
    "cls \<Rightarrow> attr \<Rightarrow> query list \<Rightarrow> out list \<Rightarrow> (string \<times> out) list \<Rightarrow> error + out" where
  "compose_bracket c a qs args opts =
     rbind (get_bracket_operator a) (\<lambda>br.
       if br then
         rbind (item qs 0) (\<lambda>q. rbind (item args 0) (\<lambda>arg.
           Inr (T_seq [wrap_if (needs_wrap q) arg, OStr ''['', T_seq (tl args) ['',''], OStr '']''] [])))
       else compose_method c qs args opts)"

definition compose_slice ::
    "cls \<Rightarrow> attr \<Rightarrow> query list \<Rightarrow> out list \<Rightarrow> (string \<times> out) list \<Rightarrow> error + out" where
  "compose_slice c a qs args opts =
     rbind (get_bracket_operator a) (\<lambda>br.
       if br then
         rbind (item qs 0) (\<lambda>q. rbind (item args 0) (\<lambda>arg0.
         rbind (item args 1) (\<lambda>arg1. rbind (item args 2) (\<lambda>arg2.
           Inr (T_seq [wrap_if (needs_wrap q) arg0, OStr ''['', arg1, OStr '':'', arg2, OStr '']''] [])))))
       else compose_bracket c a qs args opts)"

definition compose_make_array :: "out list \<Rightarrow> out" where
  "compose_make_array args = T_seq [OStr ''['', T_seq args (chars '', ''), OStr '']''] []"

definition compose_make_obj :: "(string \<times> out) list \<Rightarrow> out" where
  "compose_make_obj opts =
     T_seq [OStr ''r.expr({'',
            T_seq (map (\<lambda>kv. optarg '': '' (repr_str (fst kv), snd kv)) opts) (chars '', ''),
            OStr ''})''] []"

definition compose_var :: "out list \<Rightarrow> error + out" where
  "compose_var args =
     rbind (item args 0) (\<lambda>arg.
       case arg of OStr s \<Rightarrow> Inr (OStr (''var_'' @ s)) | OToks _ \<Rightarrow> Inl concat_error)"

definition compose_not :: "query list \<Rightarrow> out list \<Rightarrow> error + out" where
  "compose_not qs args =
     rbind (item qs 0) (\<lambda>q. rbind (item args 0) (\<lambda>arg.
       Inr (T_seq [OStr ''(~'', wrap_if (qkind q = K_Datum) arg, OStr '')''] [])))"

definition compose_funcall :: "query list \<Rightarrow> out list \<Rightarrow> error + out" where
  "compose_funcall qs args =
     (if length args \<noteq> 2 then
        rbind (item args 0) (\<lambda>arg0.
          Inr (T_seq [OStr ''r.do('', T_seq [T_seq (tl args) (chars '', ''), arg0] (chars '', ''),
                      OStr '')''] []))
      else rbind (item qs 1) (\<lambda>q.
        Inr (T_seq [wrap_if (qkind q = K_Datum) (args ! 1), OStr ''.do('', args ! 0, OStr '')''] [])))"

definition compose_table ::
    "query list \<Rightarrow> out list \<Rightarrow> (string \<times> out) list \<Rightarrow> error + out" where
  "compose_table qs args opts =
     rbind (item qs 0) (\<lambda>q.
       let args' = args @ map (optarg ''='') opts in
       if is_db q then
         Inr (T_seq [hd args', OStr ''.table('', T_seq (tl args') (chars '', ''), OStr '')''] [])
       else Inr (T_seq [OStr ''r.table('', T_seq args' (chars '', ''), OStr '')''] []))"

definition compose_binary ::
    "cls \<Rightarrow> query list \<Rightarrow> out list \<Rightarrow> (string \<times> out) list \<Rightarrow> error + out" where
  "compose_binary c qs args opts =
     (if qs = [] then
        rmap (\<lambda>st. T_seq [OStr ''r.'', OStr st, OStr ''(bytes(<data>))''] []) (get_statement c)
      else compose_top_level c args opts)"

definition compose_func :: "attr \<Rightarrow> out list \<Rightarrow> error + out" where
  "compose_func a args =
     rbind (get_vrs a) (\<lambda>vrs. rbind (item args 1) (\<lambda>body.
       Inr (T_seq [OStr ''lambda '',
                   T_seq (map (\<lambda>v. OStr (''var_'' @ py_repr (AInt v))) vrs) (chars '', ''),
                   OStr '': '', body] [])))"

definition compose_constant :: "cls \<Rightarrow> error + out" where
  "compose_constant c = rmap (\<lambda>st. OStr (''r.'' @ st)) (get_statement c)"

definition compose ::
    "cls \<Rightarrow> attr \<Rightarrow> query list \<Rightarrow> out list \<Rightarrow> (string \<times> out) list \<Rightarrow> error + out" where
  "compose c a qs args opts =
     (case ckind c of
        K_Datum \<Rightarrow> rmap (\<lambda>d. OStr (py_repr d)) (get_data a)
      | K_MakeArray \<Rightarrow> Inr (compose_make_array args)
      | K_MakeObj \<Rightarrow> Inr (compose_make_obj opts)
      | K_Var \<Rightarrow> compose_var args
      | K_ImplicitVar \<Rightarrow> Inr (OStr ''r.row'')
      | K_Not \<Rightarrow> compose_not qs args
      | K_Slice \<Rightarrow> compose_slice c a qs args opts
      | K_FunCall \<Rightarrow> compose_funcall qs args
      | K_Table \<Rightarrow> compose_table qs args opts
      | K_Binary \<Rightarrow> compose_binary c qs args opts
      | K_Func \<Rightarrow> compose_func a args
      | K_Constant \<Rightarrow> compose_constant c
      | K_BoolOper \<Rightarrow> compose_bool_oper c a qs args
      | K_BiOper \<Rightarrow> compose_bi_oper c qs args
      | K_BiCompareOper \<Rightarrow> compose_bi_oper c qs args
      | K_TopLevel \<Rightarrow> compose_top_level c args opts
      | K_Method \<Rightarrow> compose_method c qs args opts
      | K_BracketQuery \<Rightarrow> compose_bracket c a qs args opts)"

subsection \<open>\<open>QueryPrinter\<close>\<close>

fun compose_term :: "query \<Rightarrow> error + out" where
  "compose_term (Query c a qs opts) =
     rbind (seqr (map compose_term qs)) (\<lambda>args.
     rbind (seqr (map (\<lambda>kv. rmap (Pair (fst kv)) (compose_term (snd kv))) opts)) (\<lambda>optargs.
       compose c a qs args optargs))"

definition blank :: "string \<Rightarrow> string" where
  "blank i = (if i \<noteq> ''^'' then '' '' else ''^'')"

fun compose_carrots :: "query \<Rightarrow> frame list \<Rightarrow> error + out" where
  "compose_carrots q [] = rmap (\<lambda>o1. OToks (map (\<lambda>i. ''^'') (tokens o1))) (compose_term q)"
| "compose_carrots (Query c a qs opts) (cur # frames) =
     rbind (seqr (map (\<lambda>(i, q). if cur = Pos i then compose_carrots q frames else compose_term q)
                   (enumerate 0 qs))) (\<lambda>args.
     rbind (seqr (map (\<lambda>kv. rmap (Pair (fst kv))
                   (if cur = Opt (fst kv) then compose_carrots (snd kv) frames
                    else compose_term (snd kv))) opts)) (\<lambda>optargs.
       rmap (\<lambda>o1. OToks (map blank (tokens o1))) (compose c a qs args optargs)))"

definition print_query :: "query \<Rightarrow> error + string" where
  "print_query q = rmap (\<lambda>o1. concat (tokens o1)) (compose_term q)"

definition print_carrots :: "query \<Rightarrow> frame list \<Rightarrow> error + string" where
  "print_carrots q frames = rmap (\<lambda>o1. concat (tokens o1)) (compose_carrots q frames)"

text \<open>\<open>ReqlError.__str__\<close>; \<open>convertForPrint\<close> is the identity on a Python 3 string.\<close>

definition exc_str :: "error \<Rightarrow> error + string" where
  "exc_str e =
     (case eframes e of
        None \<Rightarrow> Inr (emsg e)
      | Some _ \<Rightarrow>
          (case query_printer e of
             None \<Rightarrow> Inl attribute_error
           | Some (q, fs) \<Rightarrow>
               rbind (print_query q) (\<lambda>text. rbind (print_carrots q fs) (\<lambda>carrots.
                 Inr (rstrip (CHR ''.'') (emsg e) @ '' in:'' @ [CHR 0x0A] @ text
                      @ [CHR 0x0A] @ carrots)))))"

subsection \<open>Printing well-formed queries\<close>

lemmas compose_defs = compose_def compose_bool_oper_def compose_bi_oper_def compose_top_level_def
  compose_method_def compose_bracket_def compose_slice_def compose_make_array_def
  compose_make_obj_def compose_var_def compose_not_def compose_funcall_def compose_table_def
  compose_binary_def compose_func_def compose_constant_def

lemmas field_defs = get_statement_def get_infix_def get_st_infix_def get_bracket_operator_def
  get_data_def get_vrs_def item_def

lemma get_statement_ok: "wf_cls c \<Longrightarrow> needs_statement (ckind c) \<Longrightarrow> \<exists>st. get_statement c = Inr st"
  by (auto simp: wf_cls_def get_statement_def)

lemma item_ok [simp]: "i < length xs \<Longrightarrow> item xs i = Inr (xs ! i)"
  by (simp add: item_def)

lemma item_ok_0 [simp]: "xs \<noteq> [] \<Longrightarrow> item xs 0 = Inr (xs ! 0)"
  by (simp add: item_def)

lemma item_fail [simp]: "length xs \<le> i \<Longrightarrow> item xs i = Inl index_error"
  by (simp add: item_def)

lemma compose_method_ok:
  "get_statement c = Inr st \<Longrightarrow> length args = length qs \<Longrightarrow>
     \<exists>out. compose_method c qs args opts = Inr out"
  by (cases args; cases qs) (auto simp: compose_method_def)

lemma compose_bracket_ok:
  "get_statement c = Inr st \<Longrightarrow> length args = length qs \<Longrightarrow> a = BracketOp br
     \<Longrightarrow> (br \<Longrightarrow> qs \<noteq> []) \<Longrightarrow> \<exists>out. compose_bracket c a qs args opts = Inr out"
  using compose_method_ok [of c st args qs opts]
  by (cases br) (simp_all add: compose_bracket_def get_bracket_operator_def)

lemma compose_slice_ok:
  "get_statement c = Inr st \<Longrightarrow> length args = length qs \<Longrightarrow> a = BracketOp br
     \<Longrightarrow> (br \<Longrightarrow> 3 \<le> length qs) \<Longrightarrow> \<exists>out. compose_slice c a qs args opts = Inr out"
  using compose_bracket_ok [of c st args qs a False opts]
  by (cases br) (auto simp: compose_slice_def get_bracket_operator_def item_def)

lemma compose_ok:
  assumes wf: "wf_cls c" "wf_attr c a qs" "arity_ok (ckind c) a qs"
    and len: "length args = length qs"
    and var: "ckind c = K_Var \<Longrightarrow> \<exists>s. args ! 0 = OStr s"
  shows "\<exists>out. compose c a qs args opts = Inr out"
proof -
  have st: "\<exists>st. get_statement c = Inr st" if "needs_statement (ckind c)"
    using wf(1) that by (rule get_statement_ok)
  show ?thesis
  proof (cases "ckind c")
    case K_Var
    then have "args \<noteq> []" using wf len by auto
    with K_Var var show ?thesis by (auto simp: compose_def compose_var_def)
  next
    case K_Slice
    obtain st' where "get_statement c = Inr st'" using st K_Slice by (auto simp: needs_statement_def)
    moreover obtain br where "a = BracketOp br" "br \<longrightarrow> 3 \<le> length qs" using wf K_Slice by auto
    ultimately show ?thesis using compose_slice_ok len K_Slice by (simp add: compose_def)
  next
    case K_BracketQuery
    obtain st' where "get_statement c = Inr st'"
      using st K_BracketQuery by (auto simp: needs_statement_def)
    moreover obtain br where "a = BracketOp br" "br \<longrightarrow> qs \<noteq> []" using wf K_BracketQuery by auto
    ultimately show ?thesis using compose_bracket_ok len K_BracketQuery by (simp add: compose_def)
  next
    case K_Method
    obtain st' where "get_statement c = Inr st'" using st K_Method by (auto simp: needs_statement_def)
    then show ?thesis using compose_method_ok len K_Method by (simp add: compose_def)
  next
    case K_BoolOper
    obtain st' where "get_statement c = Inr st'" using st K_BoolOper by (auto simp: needs_statement_def)
    moreover obtain b where "a = Infix b" "b \<longrightarrow> cinfix c \<noteq> None" using wf K_BoolOper by auto
    ultimately show ?thesis using K_BoolOper
      by (cases b) (auto simp: compose_def compose_bool_oper_def get_infix_def get_st_infix_def)
  next
    case K_Not
    then have "0 < length qs" using wf by simp
    then show ?thesis using K_Not len by (simp add: compose_def compose_not_def)
  next
    case K_FunCall
    then have "0 < length qs" using wf by simp
    then show ?thesis using K_FunCall len by (simp add: compose_def compose_funcall_def)
  next
    case K_Table
    then have "0 < length qs" using wf by simp
    then show ?thesis using K_Table len by (simp add: compose_def compose_table_def Let_def)
  next
    case K_Func
    then show ?thesis using wf len by (auto simp: compose_def compose_func_def get_vrs_def)
  next
    case K_Datum
    then show ?thesis using wf by (auto simp: compose_def get_data_def)
  qed (use st in \<open>auto simp: compose_def compose_bi_oper_def compose_top_level_def
      compose_binary_def compose_constant_def needs_statement_def\<close>)
qed

lemma compose_term_Datum:
  "qkind q = K_Datum \<Longrightarrow> compose_term q = Inr out \<Longrightarrow> \<exists>s. out = OStr s"
  by (cases q) (auto simp: compose_def get_data_def res_simps split: attr.splits)

text \<open>What a term prints as, once it prints.\<close>

definition shown :: "query \<Rightarrow> out" where
  "shown q = projr (compose_term q)"

lemma shown_eq: "compose_term q = Inr out \<Longrightarrow> shown q = out"
  by (simp add: shown_def)

lemma compose_term_total: "wf_query q \<Longrightarrow> printable q \<Longrightarrow> compose_term q = Inr (shown q)"
proof (induction q rule: query_induct)
  case (Query c a qs opts)
  have args: "map compose_term qs = map (\<lambda>q. Inr (shown q)) qs"
    using Query by simp
  have opt: "map (\<lambda>kv. rmap (Pair (fst kv)) (compose_term (snd kv))) opts
      = map (\<lambda>kv. Inr (fst kv, shown (snd kv))) opts"
  proof (rule map_cong [OF refl])
    fix kv assume "kv \<in> set opts"
    then have mem: "(fst kv, snd kv) \<in> set opts" by simp
    have "wf_query (snd kv)" "printable (snd kv)"
      using \<open>kv \<in> set opts\<close> Query.prems by auto
    then have "compose_term (snd kv) = Inr (shown (snd kv))"
      by (rule Query.IH(2) [OF mem])
    then show "rmap (Pair (fst kv)) (compose_term (snd kv)) = Inr (fst kv, shown (snd kv))"
      by simp
  qed
  have "\<exists>out. compose c a qs (map shown qs) (map (\<lambda>kv. (fst kv, shown (snd kv))) opts) = Inr out"
  proof (rule compose_ok)
    show "\<exists>s. map shown qs ! 0 = OStr s" if "ckind c = K_Var"
    proof -
      have "qs \<noteq> []" and hd: "qkind (hd qs) = K_Datum" using Query.prems that by auto
      then have "compose_term (hd qs) = Inr (shown (hd qs))"
        using Query by simp
      with hd have "\<exists>s. shown (hd qs) = OStr s"
        by (intro compose_term_Datum)
      with \<open>qs \<noteq> []\<close> show ?thesis by (simp add: hd_conv_nth)
    qed
  qed (use Query.prems in auto)
  moreover have "compose_term (Query c a qs opts)
      = compose c a qs (map shown qs) (map (\<lambda>kv. (fst kv, shown (snd kv))) opts)"
    by (simp only: compose_term.simps args opt seqr_map_Inr rbind_Inr)
  ultimately show ?case by (auto simp: shown_def)
qed

lemma compose_term_args:
  "wf_query (Query c a qs opts) \<Longrightarrow> printable (Query c a qs opts) \<Longrightarrow>
     compose c a qs (map shown qs) (map (\<lambda>kv. (fst kv, shown (snd kv))) opts)
       = Inr (shown (Query c a qs opts))"
proof -
  assume wf: "wf_query (Query c a qs opts)" "printable (Query c a qs opts)"
  have args: "map compose_term qs = map (\<lambda>q. Inr (shown q)) qs"
    using wf by (auto intro!: compose_term_total)
  have opt: "map (\<lambda>kv. rmap (Pair (fst kv)) (compose_term (snd kv))) opts
      = map (\<lambda>kv. Inr (fst kv, shown (snd kv))) opts"
    using wf by (auto simp: compose_term_total)
  have "compose_term (Query c a qs opts) = Inr (shown (Query c a qs opts))"
    using wf by (rule compose_term_total)
  then show ?thesis
    by (simp only: compose_term.simps args opt seqr_map_Inr rbind_Inr)
qed

subsection \<open>Where an argument stands in its term\<close>

fun visible_arg :: "cls \<Rightarrow> attr \<Rightarrow> query list \<Rightarrow> nat \<Rightarrow> bool" where
  "visible_arg c a qs i \<longleftrightarrow> i < length qs \<and>
     (case ckind c of
        K_Datum \<Rightarrow> False | K_Var \<Rightarrow> False | K_ImplicitVar \<Rightarrow> False | K_Constant \<Rightarrow> False
      | K_MakeObj \<Rightarrow> False
      | K_Not \<Rightarrow> i = 0
      | K_Slice \<Rightarrow> a = BracketOp True \<longrightarrow> i < 3
      | K_Func \<Rightarrow> i = 1
      | _ \<Rightarrow> True)"

fun visible_opt :: "cls \<Rightarrow> attr \<Rightarrow> query list \<Rightarrow> bool" where
  "visible_opt c a qs \<longleftrightarrow>
     (case ckind c of
        K_MakeObj \<Rightarrow> True
      | K_TopLevel \<Rightarrow> True
      | K_Table \<Rightarrow> True
      | K_Binary \<Rightarrow> qs \<noteq> []
      | K_Method \<Rightarrow> qs \<noteq> []
      | K_BracketQuery \<Rightarrow> qs \<noteq> [] \<and> a = BracketOp False
      | K_Slice \<Rightarrow> qs \<noteq> [] \<and> a = BracketOp False
      | _ \<Rightarrow> False)"

text \<open>The token sequence built around an argument contains the argument's tokens once.\<close>

definition embeds :: "(out \<Rightarrow> out) \<Rightarrow> bool" where
  "embeds y \<longleftrightarrow> (\<exists>pre post. \<forall>x. tokens (y x) = pre @ tokens x @ post)"

lemma embedsI: "hole g \<Longrightarrow> (\<And>x. tokens (y x) = g (tokens x)) \<Longrightarrow> embeds y"
  unfolding embeds_def hole_def by metis

lemma embeds_hole:
  assumes "embeds y"
  shows "\<exists>g. hole g \<and> (\<forall>x. tokens (y x) = g (tokens x))"
proof -
  obtain pre post where y: "\<And>x. tokens (y x) = pre @ tokens x @ post"
    using assms unfolding embeds_def by blast
  show ?thesis
    by (rule exI [of _ "\<lambda>t. pre @ t @ post"]) (auto simp: hole_def y)
qed

lemma embeds_id: "embeds (\<lambda>x. x)"
  by (rule embedsI [OF hole_id]) simp

lemma embeds_here:
  assumes "embeds y"
  shows "embeds (\<lambda>x. T_seq (y x # as) sep)"
proof -
  obtain g where g: "hole g" "\<And>x. tokens (y x) = g (tokens x)"
    using embeds_hole [OF assms] by blast
  have "hole (\<lambda>t. join sep ((undefined # map tokens as)[0 := g t]))"
    by (rule hole_join_update [OF g(1)]) simp
  then show ?thesis
    by (rule embedsI) (simp add: g(2))
qed

lemma embeds_there:
  assumes "embeds (\<lambda>x. T_seq (ys x) sep)" "\<And>x. ys x \<noteq> []"
  shows "embeds (\<lambda>x. T_seq (a # ys x) sep)"
proof -
  obtain g where g: "hole g" "\<And>x. tokens (T_seq (ys x) sep) = g (tokens x)"
    using embeds_hole [OF assms(1)] by blast
  show ?thesis
    by (rule embedsI [where g = "\<lambda>t. (tokens a @ sep) @ g t"])
      (auto intro!: hole_append_left simp: g(1) g(2) [symmetric] join_Cons assms(2))
qed

lemma embeds_update:
  assumes "embeds y" "i < length xs"
  shows "embeds (\<lambda>x. T_seq (xs[i := y x]) sep)"
proof -
  obtain g where g: "hole g" "\<And>x. tokens (y x) = g (tokens x)"
    using embeds_hole [OF assms(1)] by blast
  have "hole (\<lambda>t. join sep ((map tokens xs)[i := g t]))"
    by (rule hole_join_update [OF g(1)]) (simp add: assms(2))
  then show ?thesis
    by (rule embedsI) (simp add: g(2) map_update)
qed

lemma embeds_update_append:
  "embeds y \<Longrightarrow> i < length xs \<Longrightarrow> embeds (\<lambda>x. T_seq (xs[i := y x] @ zs) sep)"
  using embeds_update [of y i "xs @ zs" sep] by (simp add: list_update_append)

lemma embeds_wrap_if:
  assumes "embeds y"
  shows "embeds (\<lambda>x. wrap_if b (y x))"
proof -
  obtain g where "hole g" "\<And>x. tokens (y x) = g (tokens x)"
    using embeds_hole [OF assms] by blast
  then show ?thesis
    by (cases b; intro embedsI [where g = "\<lambda>t. if b then chars ''r.expr('' @ g t @ chars '')'' else g t"])
      (auto simp: wrap_if_def r_expr_def join_Nil_sep hole_append_left hole_append_right)
qed

lemma embeds_optarg: "embeds y \<Longrightarrow> embeds (\<lambda>x. optarg sep (k, y x))"
  unfolding optarg_def fst_conv snd_conv by (intro embeds_there embeds_here) simp_all

lemma embeds_optargs:
  assumes "embeds y" "j < length kvs"
  shows "embeds (\<lambda>x. T_seq (zs @ map (optarg s) (kvs[j := (k, y x)])) sep)"
proof -
  have "embeds (\<lambda>x. T_seq ((zs @ map (optarg s) kvs)[length zs + j := optarg s (k, y x)]) sep)"
    using assms by (intro embeds_update embeds_optarg) simp_all
  then show ?thesis
    by (simp add: list_update_append map_update)
qed

lemma wrapped_args_update:
  "length args = length qs \<Longrightarrow> i < length qs \<Longrightarrow>
     wrapped_args qs (args[i := x]) = (wrapped_args qs args)[i := wrap_if (needs_wrap (qs ! i)) x]"
  by (auto simp: wrapped_args_def intro!: nth_equalityI simp: nth_list_update)

lemma embeds_wrapped_args:
  assumes "length args = length qs" "i < length qs"
  shows "embeds (\<lambda>x. T_seq (wrapped_args qs (args[i := x])) sep)"
proof -
  have "embeds (\<lambda>x. T_seq ((wrapped_args qs args)[i := wrap_if (needs_wrap (qs ! i)) x]) sep)"
    using assms by (intro embeds_update embeds_wrap_if embeds_id) (simp add: wrapped_args_def)
  then show ?thesis
    using assms by (simp add: wrapped_args_update)
qed

lemmas embeds_rules = embeds_here embeds_there embeds_id embeds_wrap_if embeds_optargs
  embeds_update_append embeds_update embeds_wrapped_args

definition embeds_ok :: "(out \<Rightarrow> error + out) \<Rightarrow> bool" where
  "embeds_ok f \<longleftrightarrow> (\<exists>y. embeds y \<and> (\<forall>x. f x = Inr (y x)))"

lemma embeds_okI: "embeds y \<Longrightarrow> embeds_ok (\<lambda>x. Inr (y x))"
  unfolding embeds_ok_def by auto

lemma embeds_bool_oper:
  assumes "get_statement c = Inr st" "b \<longrightarrow> get_st_infix c = Inr si"
    and "length args = length qs" "i < length qs"
  shows "embeds_ok (\<lambda>x. compose_bool_oper c (Infix b) qs (args[i := x]))"
proof (cases b)
  case True
  then show ?thesis using assms unfolding compose_bool_oper_def
    by (simp add: get_infix_def) (intro embeds_okI embeds_rules; simp)
next
  case False
  then show ?thesis using assms unfolding compose_bool_oper_def
    by (simp add: get_infix_def) (intro embeds_okI embeds_rules; simp)
qed

lemma embeds_bi_oper:
  "get_statement c = Inr st \<Longrightarrow> length args = length qs \<Longrightarrow> i < length qs
     \<Longrightarrow> embeds_ok (\<lambda>x. compose_bi_oper c qs (args[i := x]))"
  by (simp add: compose_bi_oper_def) (intro embeds_okI embeds_rules; simp)

lemma embeds_top_level:
  "get_statement c = Inr st \<Longrightarrow> i < length args
     \<Longrightarrow> embeds_ok (\<lambda>x. compose_top_level c (args[i := x]) opts)"
  by (simp add: compose_top_level_def) (intro embeds_okI embeds_rules; simp)

lemma embeds_make_array:
  "i < length args \<Longrightarrow> embeds_ok (\<lambda>x. Inr (compose_make_array (args[i := x])))"
  unfolding compose_make_array_def by (intro embeds_okI embeds_rules; simp)

lemma embeds_method:
  assumes "get_statement c = Inr st" "length args = length qs" "i < length qs"
  shows "embeds_ok (\<lambda>x. compose_method c qs (args[i := x]) opts)"
proof -
  obtain q qs' arg rest where qs: "qs = q # qs'" and args: "args = arg # rest"
    using assms by (cases qs; cases args) auto
  show ?thesis
  proof (cases i)
    case 0
    then show ?thesis using assms(1)
      by (simp add: compose_method_def qs args) (intro embeds_okI embeds_rules; simp)
  next
    case (Suc j)
    then have "j < length rest" using assms(2,3) by (simp add: args)
    then show ?thesis using assms(1) Suc
      by (simp add: compose_method_def qs args) (intro embeds_okI embeds_rules; simp)
  qed
qed

lemma embeds_bracket:
  assumes "get_statement c = Inr st" "length args = length qs" "i < length qs"
  shows "embeds_ok (\<lambda>x. compose_bracket c (BracketOp br) qs (args[i := x]) opts)"
proof (cases br)
  case False
  then show ?thesis using embeds_method [OF assms]
    by (simp add: compose_bracket_def get_bracket_operator_def)
next
  case True
  obtain q qs' arg rest where qs: "qs = q # qs'" and args: "args = arg # rest"
    using assms by (cases qs; cases args) auto
  show ?thesis
  proof (cases i)
    case 0
    then show ?thesis using True
      by (simp add: compose_bracket_def get_bracket_operator_def qs args) (intro embeds_okI embeds_rules; simp)
  next
    case (Suc j)
    then have "j < length rest" using assms(2,3) by (simp add: args)
    then show ?thesis using True Suc
      by (simp add: compose_bracket_def get_bracket_operator_def qs args) (intro embeds_okI embeds_rules; simp)
  qed
qed

lemma two_items: "length xs = 2 \<Longrightarrow> \<exists>x0 x1. xs = [x0, x1]"
  by (auto simp: numeral_2_eq_2 length_Suc_conv)

lemma three_items:
  assumes "3 \<le> length xs"
  obtains x0 x1 x2 rest where "xs = x0 # x1 # x2 # rest"
proof (cases xs)
  case (Cons a xs')
  then obtain b xs'' where xs': "xs' = b # xs''" using assms by (cases xs') auto
  then obtain c rest where "xs'' = c # rest" using assms Cons by (cases xs'') auto
  then show thesis using Cons xs' that by simp
qed (use assms in simp)

lemma embeds_slice_bracket:
  assumes "length args = length qs" "3 \<le> length qs" "i < 3"
  shows "embeds_ok (\<lambda>x. compose_slice c (BracketOp True) qs (args[i := x]) opts)"
proof -
  obtain q0 q1 q2 qs' where qs: "qs = q0 # q1 # q2 # qs'"
    using assms(2) by (rule three_items)
  obtain a0 a1 a2 as' where args: "args = a0 # a1 # a2 # as'"
    by (rule three_items [of args]) (use assms in auto)
  consider "i = 0" | "i = Suc 0" | "i = Suc (Suc 0)" using assms(3) by linarith
  then show ?thesis
    by cases (simp_all add: compose_slice_def get_bracket_operator_def qs args item_def, (intro embeds_okI embeds_rules; simp)+)
qed

lemma embeds_slice:
  assumes "get_statement c = Inr st" "length args = length qs" "i < length qs"
    and "br \<longrightarrow> 3 \<le> length qs \<and> i < 3"
  shows "embeds_ok (\<lambda>x. compose_slice c (BracketOp br) qs (args[i := x]) opts)"
proof (cases br)
  case False
  then show ?thesis using embeds_bracket [OF assms(1-3), of False]
    by (simp add: compose_slice_def get_bracket_operator_def)
next
  case True
  then show ?thesis using embeds_slice_bracket assms by simp
qed

lemma embeds_not:
  assumes "length args = length qs" "qs \<noteq> []"
  shows "embeds_ok (\<lambda>x. compose_not qs (args[0 := x]))"
proof -
  obtain q qs' arg rest where qs: "qs = q # qs'" and args: "args = arg # rest"
    using assms by (cases qs; cases args) auto
  show ?thesis
    by (simp add: compose_not_def qs args) (intro embeds_okI embeds_rules; simp)
qed

lemma embeds_func:
  assumes "length args = 2"
  shows "embeds_ok (\<lambda>x. compose_func (Vrs vs) (args[1 := x]))"
proof -
  obtain a0 a1 where args: "args = [a0, a1]"
    using two_items [of args] assms by auto
  show ?thesis
    by (simp add: compose_func_def get_vrs_def args item_def) (intro embeds_okI embeds_rules; simp)
qed

lemma embeds_table:
  assumes "length args = length qs" "i < length qs"
  shows "embeds_ok (\<lambda>x. compose_table qs (args[i := x]) opts)"
proof -
  obtain q qs' arg rest where qs: "qs = q # qs'" and args: "args = arg # rest"
    using assms by (cases qs; cases args) auto
  show ?thesis
  proof (cases "is_db q")
    case False
    have "embeds_ok (\<lambda>x. Inr (T_seq [OStr ''r.table('',
        T_seq (args[i := x] @ map (optarg ''='') opts) (chars '', ''), OStr '')''] []))"
      using assms by (intro embeds_okI embeds_rules; simp)
    then show ?thesis using False by (simp add: compose_table_def qs Let_def)
  next
    case True
    show ?thesis
    proof (cases i)
      case 0
      then show ?thesis using True
        by (simp add: compose_table_def qs args Let_def) (intro embeds_okI embeds_rules; simp)
    next
      case (Suc j)
      then have "j < length rest" using assms by (simp add: args)
      then show ?thesis using True Suc
        by (simp add: compose_table_def qs args Let_def) (intro embeds_okI embeds_rules; simp)
    qed
  qed
qed

lemma embeds_funcall:
  assumes "length args = length qs" "i < length qs"
  shows "embeds_ok (\<lambda>x. compose_funcall qs (args[i := x]))"
proof (cases "length args = 2")
  case True
  then obtain a0 a1 q0 q1 where args: "args = [a0, a1]" and qs: "qs = [q0, q1]"
    using two_items [of args] two_items [of qs] assms(1) by auto
  consider "i = 0" | "i = Suc 0" using assms True by fastforce
  then show ?thesis
    by cases (simp_all add: compose_funcall_def qs args item_def, (intro embeds_okI embeds_rules; simp)+)
next
  case False
  obtain arg rest where args: "args = arg # rest" using assms by (cases args) auto
  show ?thesis
  proof (cases i)
    case 0
    then show ?thesis using False
      by (simp add: compose_funcall_def args) (intro embeds_okI embeds_rules; simp)
  next
    case (Suc j)
    then have "j < length rest" using assms by (simp add: args)
    then show ?thesis using False Suc
      by (simp add: compose_funcall_def args) (intro embeds_okI embeds_rules; simp)
  qed
qed

lemma compose_embeds_arg:
  assumes "wf_cls c" "wf_attr c a qs" "arity_ok (ckind c) a qs"
    and len: "length args = length qs" and vis: "visible_arg c a qs i"
  shows "embeds_ok (\<lambda>x. compose c a qs (args[i := x]) opts)"
proof -
  have i: "i < length qs" "i < length args" using vis len by auto
  note rules = embeds_bool_oper embeds_bi_oper embeds_top_level embeds_make_array embeds_method
    embeds_bracket embeds_slice embeds_not embeds_func embeds_table embeds_funcall
  have st: "\<exists>st. get_statement c = Inr st" if "needs_statement (ckind c)"
    using assms(1) that by (rule get_statement_ok)
  show ?thesis
  proof (cases "ckind c")
    case K_BoolOper
    then obtain b where "a = Infix b" "b \<longrightarrow> cinfix c \<noteq> None" using assms(2) by auto
    then have "b \<longrightarrow> get_st_infix c = Inr (the (cinfix c))" by (auto simp: get_st_infix_def)
    with K_BoolOper \<open>a = Infix b\<close> st len i show ?thesis
      by (auto simp: compose_def needs_statement_def intro: embeds_bool_oper)
  next
    case K_Slice
    then obtain br where "a = BracketOp br" "br \<longrightarrow> 3 \<le> length qs \<and> i < 3"
      using assms(2,3) vis by auto
    with K_Slice st len i show ?thesis
      by (auto simp: compose_def needs_statement_def intro: embeds_slice)
  next
    case K_BracketQuery
    then obtain br where "a = BracketOp br" using assms(2) by auto
    with K_BracketQuery st len i show ?thesis
      by (auto simp: compose_def needs_statement_def intro: embeds_bracket)
  next
    case K_Func
    then obtain vs where "a = Vrs vs" "length args = 2" "i = 1" using assms(2) vis len by auto
    with K_Func show ?thesis using embeds_func by (simp add: compose_def)
  next
    case K_Not
    then have "i = 0" "qs \<noteq> []" using vis by auto
    with K_Not len show ?thesis using embeds_not by (simp add: compose_def)
  next
    case K_Method
    with st len i show ?thesis by (auto simp: compose_def needs_statement_def intro: embeds_method)
  next
    case K_BiOper
    with st len i show ?thesis by (auto simp: compose_def needs_statement_def intro: embeds_bi_oper)
  next
    case K_BiCompareOper
    with st len i show ?thesis by (auto simp: compose_def needs_statement_def intro: embeds_bi_oper)
  next
    case K_TopLevel
    with st len i show ?thesis
      by (auto simp: compose_def needs_statement_def intro: embeds_top_level)
  next
    case K_Binary
    with i have "compose_binary c qs args' opts = compose_top_level c args' opts" for args'
      by (auto simp: compose_binary_def)
    with K_Binary st i show ?thesis
      by (auto simp: compose_def needs_statement_def intro: embeds_top_level)
  next
    case K_Table
    then show ?thesis using embeds_table len i by (simp add: compose_def)
  next
    case K_FunCall
    then show ?thesis using embeds_funcall len i by (simp add: compose_def)
  next
    case K_MakeArray
    then show ?thesis using embeds_make_array i by (simp add: compose_def)
  qed (use vis in simp_all)
qed

lemma embeds_method_opt:
  assumes "get_statement c = Inr st" "length args = length qs" "qs \<noteq> []" "j < length opts"
  shows "embeds_ok (\<lambda>x. compose_method c qs args (opts[j := (k, x)]))"
proof -
  obtain q qs' arg rest where qs: "qs = q # qs'" and args: "args = arg # rest"
    using assms by (cases qs; cases args) auto
  show ?thesis using assms(1,4)
    by (simp add: compose_method_def qs args) (intro embeds_okI embeds_rules; simp)
qed

lemma embeds_top_level_opt:
  "get_statement c = Inr st \<Longrightarrow> j < length opts
     \<Longrightarrow> embeds_ok (\<lambda>x. compose_top_level c args (opts[j := (k, x)]))"
  by (simp add: compose_top_level_def) (intro embeds_okI embeds_rules; simp)

lemma embeds_table_opt:
  assumes "length args = length qs" "qs \<noteq> []" "j < length opts"
  shows "embeds_ok (\<lambda>x. compose_table qs args (opts[j := (k, x)]))"
proof -
  obtain q qs' arg rest where qs: "qs = q # qs'" and args: "args = arg # rest"
    using assms by (cases qs; cases args) auto
  have "embeds_ok (\<lambda>x. Inr (T_seq [OStr ''r.table('', T_seq (args @ map (optarg ''='')
      (opts[j := (k, x)])) (chars '', ''), OStr '')''] []))"
    using assms(3) by (intro embeds_okI embeds_rules; simp)
  moreover have "embeds_ok (\<lambda>x. Inr (T_seq [arg, OStr ''.table('', T_seq (rest @ map (optarg ''='')
      (opts[j := (k, x)])) (chars '', ''), OStr '')''] []))"
    using assms(3) by (intro embeds_okI embeds_rules; simp)
  ultimately show ?thesis
    by (cases "is_db q") (simp_all add: compose_table_def qs args Let_def)
qed

lemma embeds_make_obj_opt:
  assumes "j < length opts"
  shows "embeds_ok (\<lambda>x. Inr (compose_make_obj (opts[j := (k, x)])))"
proof -
  have "map (\<lambda>kv. optarg '': '' (repr_str (fst kv), snd kv)) (opts[j := (k, x)])
      = (map (\<lambda>kv. optarg '': '' (repr_str (fst kv), snd kv)) opts)[j := optarg '': '' (repr_str k, x)]"
    for x by (simp add: map_update)
  then show ?thesis
    unfolding compose_make_obj_def using assms
    by simp (intro embeds_okI embeds_rules embeds_optarg; simp)
qed

lemma compose_embeds_opt:
  assumes "wf_cls c" "length args = length qs" "arity_ok (ckind c) a qs"
    and vis: "visible_opt c a qs" and j: "j < length opts"
  shows "embeds_ok (\<lambda>x. compose c a qs args (opts[j := (k, x)]))"
proof -
  have st: "\<exists>st. get_statement c = Inr st" if "needs_statement (ckind c)"
    using assms(1) that by (rule get_statement_ok)
  show ?thesis
  proof (cases "ckind c")
    case K_Method
    with st assms show ?thesis
      by (auto simp: compose_def needs_statement_def intro: embeds_method_opt)
  next
    case K_BracketQuery
    with st assms show ?thesis
      by (auto simp: compose_def needs_statement_def compose_bracket_def get_bracket_operator_def
          intro: embeds_method_opt)
  next
    case K_Slice
    with st assms show ?thesis
      by (auto simp: compose_def needs_statement_def compose_slice_def compose_bracket_def
          get_bracket_operator_def intro: embeds_method_opt)
  next
    case K_TopLevel
    with st j show ?thesis
      by (auto simp: compose_def needs_statement_def intro: embeds_top_level_opt)
  next
    case K_Binary
    with vis have "qs \<noteq> []" by simp
    with K_Binary st j show ?thesis
      by (auto simp: compose_def needs_statement_def compose_binary_def intro: embeds_top_level_opt)
  next
    case K_Table
    with assms show ?thesis by (simp add: compose_def embeds_table_opt)
  next
    case K_MakeObj
    with j show ?thesis by (simp add: compose_def embeds_make_obj_opt)
  qed (use vis in simp_all)
qed

subsection \<open>Carets\<close>

text \<open>The subterm a backtrace leads to, and whether every step of the way is printed.\<close>

fun addressed :: "query \<Rightarrow> frame list \<Rightarrow> query option" where
  "addressed q [] = Some q"
| "addressed (Query c a qs opts) (Pos i # fs) =
     (if i < length qs then addressed (qs ! i) fs else None)"
| "addressed (Query c a qs opts) (Opt k # fs) =
     (case map_of opts k of None \<Rightarrow> None | Some v \<Rightarrow> addressed v fs)"
| "addressed (Query c a qs opts) (Unmatched # fs) = None"

fun visible :: "query \<Rightarrow> frame list \<Rightarrow> bool" where
  "visible q [] = True"
| "visible (Query c a qs opts) (Pos i # fs) = (visible_arg c a qs i \<and> visible (qs ! i) fs)"
| "visible (Query c a qs opts) (Opt k # fs) =
     (visible_opt c a qs \<and> (case map_of opts k of None \<Rightarrow> False | Some v \<Rightarrow> visible v fs))"
| "visible (Query c a qs opts) (Unmatched # fs) = False"

lemma visible_addressed: "visible q fs \<Longrightarrow> \<exists>sub. addressed q fs = Some sub"
  by (induction q fs rule: visible.induct) (auto split: option.splits)

lemma enumerate_update:
  assumes "i < length qs" "\<And>q. q \<in> set qs \<Longrightarrow> g q = h q"
  shows "map (\<lambda>(j, q). if j = i then f q else g q) (enumerate 0 qs) = (map h qs)[i := f (qs ! i)]"
  using assms by (auto intro!: nth_equalityI simp: nth_enumerate_eq nth_list_update)

lemma keyed_update:
  assumes "distinct (map fst opts)" "j < length opts" "opts ! j = (k, v)"
    and "\<And>kv. kv \<in> set opts \<Longrightarrow> g kv = h kv"
  shows "map (\<lambda>kv. if k = fst kv then f kv else g kv) opts = (map h opts)[j := f (k, v)]"
proof (rule nth_equalityI)
  fix m assume "m < length (map (\<lambda>kv. if k = fst kv then f kv else g kv) opts)"
  then have m: "m < length opts" by simp
  have "fst (opts ! m) = k \<longleftrightarrow> m = j"
    using nth_eq_iff_index_eq [OF assms(1), of m j] m assms(2,3) by simp
  then show "map (\<lambda>kv. if k = fst kv then f kv else g kv) opts ! m = (map h opts)[j := f (k, v)] ! m"
    using m assms by (auto simp: nth_list_update)
qed simp

lemma seqr_update: "i < length xs \<Longrightarrow> seqr ((map (\<lambda>x. Inr (f x)) xs)[i := Inr y]) = Inr ((map f xs)[i := y])"
  by (simp add: seqr_eq_Inr map_update comp_def)

definition shown_opts :: "(string \<times> query) list \<Rightarrow> (string \<times> out) list" where
  "shown_opts opts = map (\<lambda>kv. (fst kv, shown (snd kv))) opts"

lemma carrots_Pos:
  assumes wf: "wf_query (Query c a qs opts)" "printable (Query c a qs opts)"
    and i: "i < length qs" and co: "compose_carrots (qs ! i) fs = Inr co"
  shows "compose_carrots (Query c a qs opts) (Pos i # fs)
    = rmap (\<lambda>out. OToks (map blank (tokens out)))
        (compose c a qs ((map shown qs)[i := co]) (shown_opts opts))"
proof -
  have "map (\<lambda>(j, q). if Pos i = Pos j then compose_carrots q fs else compose_term q) (enumerate 0 qs)
      = map (\<lambda>(j, q). if j = i then compose_carrots q fs else compose_term q) (enumerate 0 qs)"
    by (rule map_cong) auto
  also have "\<dots> = (map (\<lambda>q. Inr (shown q)) qs)[i := Inr co]"
    by (subst enumerate_update [where h = "\<lambda>q. Inr (shown q)"])
      (use wf i co in \<open>auto intro: compose_term_total\<close>)
  finally have args: "seqr (map (\<lambda>(j, q). if Pos i = Pos j then compose_carrots q fs
      else compose_term q) (enumerate 0 qs)) = Inr ((map shown qs)[i := co])"
    using i by (simp add: seqr_update)
  have opt: "map (\<lambda>kv. rmap (Pair (fst kv)) (compose_term (snd kv))) opts
      = map (\<lambda>kv. Inr (fst kv, shown (snd kv))) opts"
    using wf by (auto simp: compose_term_total)
  have "(\<lambda>kv. rmap (Pair (fst kv)) (if Pos i = Opt (fst kv) then compose_carrots (snd kv) fs
      else compose_term (snd kv))) = (\<lambda>kv. rmap (Pair (fst kv)) (compose_term (snd kv)))"
    by simp
  then show ?thesis
    by (simp only: compose_carrots.simps args opt shown_opts_def seqr_map_Inr rbind_Inr)
qed

lemma carrots_Opt:
  assumes wf: "wf_query (Query c a qs opts)" "printable (Query c a qs opts)"
    and j: "j < length opts" "opts ! j = (k, v)" and co: "compose_carrots v fs = Inr co"
  shows "compose_carrots (Query c a qs opts) (Opt k # fs)
    = rmap (\<lambda>out. OToks (map blank (tokens out)))
        (compose c a qs (map shown qs) ((shown_opts opts)[j := (k, co)]))"
proof -
  have "map (\<lambda>kv. rmap (Pair (fst kv)) (if Opt k = Opt (fst kv) then compose_carrots (snd kv) fs
          else compose_term (snd kv))) opts
      = map (\<lambda>kv. if k = fst kv then rmap (Pair (fst kv)) (compose_carrots (snd kv) fs)
          else rmap (Pair (fst kv)) (compose_term (snd kv))) opts"
    by (rule map_cong) auto
  also have "\<dots> = (map (\<lambda>kv. Inr (fst kv, shown (snd kv))) opts)[j := Inr (k, co)]"
    by (subst keyed_update [OF _ j, where h = "\<lambda>kv. Inr (fst kv, shown (snd kv))"])
      (use wf co in \<open>auto simp: compose_term_total\<close>)
  finally have opt: "seqr (map (\<lambda>kv. rmap (Pair (fst kv)) (if Opt k = Opt (fst kv)
      then compose_carrots (snd kv) fs else compose_term (snd kv))) opts)
      = Inr ((shown_opts opts)[j := (k, co)])"
    using j(1) by (simp add: seqr_update shown_opts_def)
  have "map (\<lambda>(j, q). if Opt k = Pos j then compose_carrots q fs else compose_term q) (enumerate 0 qs)
      = map (\<lambda>(j, q). compose_term q) (enumerate 0 qs)"
    by (rule map_cong) auto
  also have "\<dots> = map (\<lambda>q. Inr (shown q)) (map snd (enumerate 0 qs))"
    unfolding map_map by (rule map_cong [OF refl])
      (use wf in \<open>auto simp: compose_term_total in_set_enumerate_eq\<close>)
  finally have "map (\<lambda>(j, q). if Opt k = Pos j then compose_carrots q fs else compose_term q)
      (enumerate 0 qs) = map (\<lambda>q. Inr (shown q)) qs"
    by simp
  then show ?thesis
    by (simp only: compose_carrots.simps opt seqr_map_Inr rbind_Inr)
qed

lemma blank_caret [simp]: "blank ''^'' = ''^''"
  by (simp add: blank_def)

lemma blank_blank [simp]: "blank (blank i) = blank i"
  by (simp add: blank_def)

text \<open>The marked copy of a token sequence: carets under the middle part, blanks elsewhere.\<close>

definition marked :: "query \<Rightarrow> query \<Rightarrow> out \<Rightarrow> bool" where
  "marked q sub co \<longleftrightarrow> (\<exists>pre post. tokens (shown q) = pre @ tokens (shown sub) @ post
     \<and> tokens co = map blank pre @ map (\<lambda>_. ''^'') (tokens (shown sub)) @ map blank post)"

lemma marked_step:
  assumes ok: "embeds_ok f" and q: "f (shown r) = Inr (shown q)" and r: "marked r sub co"
  shows "\<exists>co'. rmap (\<lambda>out. OToks (map blank (tokens out))) (f co) = Inr co' \<and> marked q sub co'"
proof -
  obtain y where y: "embeds y" "\<And>x. f x = Inr (y x)"
    using ok unfolding embeds_ok_def by blast
  obtain pre post where e: "\<And>x. tokens (y x) = pre @ tokens x @ post"
    using y(1) unfolding embeds_def by blast
  obtain pre' post' where m: "tokens (shown r) = pre' @ tokens (shown sub) @ post'"
    "tokens co = map blank pre' @ map (\<lambda>_. ''^'') (tokens (shown sub)) @ map blank post'"
    using r unfolding marked_def by blast
  have "shown q = y (shown r)" using q y(2) by simp
  then have "tokens (shown q) = (pre @ pre') @ tokens (shown sub) @ (post' @ post)"
    using e m(1) by simp
  moreover have "map blank (tokens (y co)) = map blank (pre @ pre')
      @ map (\<lambda>_. ''^'') (tokens (shown sub)) @ map blank (post' @ post)"
    by (simp add: e m(2))
  ultimately have "marked q sub (OToks (map blank (tokens (y co))))"
    unfolding marked_def by (metis tokens.simps(2))
  then show ?thesis using y(2) by simp
qed

lemma carrots_marked:
  "wf_query q \<Longrightarrow> printable q \<Longrightarrow> visible q fs \<Longrightarrow> addressed q fs = Some sub
     \<Longrightarrow> \<exists>co. compose_carrots q fs = Inr co \<and> marked q sub co"
proof (induction q fs rule: visible.induct)
  case (1 q)
  then show ?case by (auto simp: compose_term_total marked_def intro: exI [of _ "[]"])
next
  case (2 c a qs opts i fs)
  have i: "i < length qs" using 2 by simp
  then have "wf_query (qs ! i)" "printable (qs ! i)" using 2 by auto
  then obtain co where co: "compose_carrots (qs ! i) fs = Inr co" "marked (qs ! i) sub co"
    using 2 i by auto
  have ok: "embeds_ok (\<lambda>x. compose c a qs ((map shown qs)[i := x]) (shown_opts opts))"
    by (rule compose_embeds_arg) (use 2 in auto)
  have "(map shown qs)[i := shown (qs ! i)] = map shown qs"
    using i by (simp add: list_update_same_conv)
  then have "compose c a qs ((map shown qs)[i := shown (qs ! i)]) (shown_opts opts)
      = Inr (shown (Query c a qs opts))"
    using compose_term_args [OF 2(2,3)] by (simp add: shown_opts_def)
  from marked_step [OF ok this co(2)] show ?case
    by (simp only: carrots_Pos [OF 2(2,3) i co(1)])
next
  case (3 c a qs opts k fs)
  then obtain v where v: "map_of opts k = Some v" "visible v fs" "addressed v fs = Some sub"
    and vis: "visible_opt c a qs"
    by (auto split: option.splits)
  then have kv: "(k, v) \<in> set opts" by (auto dest: map_of_SomeD)
  then obtain j where j: "j < length opts" "opts ! j = (k, v)" by (auto simp: in_set_conv_nth)
  have "v \<in> snd ` set opts" using kv by (auto intro: rev_image_eqI)
  then have "wf_query v" "printable v" using 3(2,3) by auto
  then obtain co where co: "compose_carrots v fs = Inr co" "marked v sub co"
    using 3(1) [OF v(1)] v by auto
  have ok: "embeds_ok (\<lambda>x. compose c a qs (map shown qs) ((shown_opts opts)[j := (k, x)]))"
    by (rule compose_embeds_opt) (use 3(2,3) vis j in \<open>auto simp: shown_opts_def\<close>)
  have "(shown_opts opts)[j := (k, shown v)] = shown_opts opts"
    using j by (simp add: shown_opts_def list_update_same_conv)
  then have "compose c a qs (map shown qs) ((shown_opts opts)[j := (k, shown v)])
      = Inr (shown (Query c a qs opts))"
    using compose_term_args [OF 3(2,3)] by (simp add: shown_opts_def)
  from marked_step [OF ok this co(2)] show ?case
    by (simp only: carrots_Opt [OF 3(2,3) j co(1)])
qed simp

subsection \<open>Alignment of the two lines\<close>

text \<open>The caret line has one character per token of the query line, so the two align when
  every token is one character: the only longer tokens are the operators, which are handed
  to \<open>T\<close> as one element of a separator list.\<close>

definition one_char :: "out \<Rightarrow> bool" where
  "one_char out \<longleftrightarrow> (\<forall>t \<in> set (tokens out). length t = Suc 0)"

lemma set_join: "set (join sep xs) \<subseteq> set sep \<union> (\<Union>x \<in> set xs. set x)"
  by (induction sep xs rule: join.induct) auto

lemma one_char_OStr [simp]: "one_char (OStr s)"
  by (simp add: one_char_def chars_def)

lemma one_char_T_seq [simp]:
  "\<forall>x \<in> set seq. one_char x \<Longrightarrow> \<forall>t \<in> set sep. length t = Suc 0 \<Longrightarrow> one_char (T_seq seq sep)"
  using set_join [of sep "map tokens seq"] by (fastforce simp: one_char_def)

lemma set_chars [simp]: "\<forall>t \<in> set (chars s). length t = Suc 0"
  by (auto simp: chars_def)

lemma one_char_wrap_if [simp]: "one_char x \<Longrightarrow> one_char (wrap_if b x)"
  by (simp add: wrap_if_def r_expr_def)

lemma one_char_optarg [simp]: "one_char (snd kv) \<Longrightarrow> one_char (optarg sep kv)"
  by (simp add: optarg_def)

lemma one_char_optargs [simp]:
  "\<forall>kv \<in> set opts. one_char (snd kv) \<Longrightarrow> \<forall>kv \<in> set opts. one_char (optarg sep kv)"
  "\<forall>kv \<in> set opts. one_char (snd kv)
     \<Longrightarrow> \<forall>kv \<in> set opts. one_char (optarg sep (repr_str (fst kv), snd kv))"
  by simp_all

lemma one_char_wrapped [simp]:
  "\<forall>x \<in> set args. one_char x \<Longrightarrow> \<forall>x \<in> set (wrapped_args qs args). one_char x"
  by (auto simp: wrapped_args_def dest: set_zip_rightD)

definition short_op :: "cls \<Rightarrow> bool" where
  "short_op c \<longleftrightarrow>
     (ckind c \<in> {K_BiOper, K_BiCompareOper} \<longrightarrow> (\<forall>s. cstmt c = Some s \<longrightarrow> length s = Suc 0))
     \<and> (ckind c = K_BoolOper \<longrightarrow> (\<forall>s. cinfix c = Some s \<longrightarrow> length s = Suc 0))"

definition one_char_parts :: "out list \<Rightarrow> (string \<times> out) list \<Rightarrow> bool" where
  "one_char_parts args opts \<longleftrightarrow>
     (\<forall>x \<in> set args. one_char x) \<and> (\<forall>kv \<in> set opts. one_char (snd kv))"

lemmas one_char_simps = one_char_parts_def res_simps item_def ball_Un

lemma one_char_method:
  "one_char_parts args opts \<Longrightarrow> compose_method c qs args opts = Inr out \<Longrightarrow> one_char out"
  by (cases args) (auto simp: compose_method_def one_char_simps)

lemma one_char_nth: "one_char_parts args opts \<Longrightarrow> item args i = Inr x \<Longrightarrow> one_char x"
  by (auto simp: one_char_parts_def item_def split: if_splits)

lemma one_char_tl: "one_char_parts args opts \<Longrightarrow> \<forall>x \<in> set (tl args). one_char x"
  by (cases args) (simp_all add: one_char_parts_def)

lemma one_char_bracket:
  assumes "one_char_parts args opts" "compose_bracket c a qs args opts = Inr out"
  shows "one_char out"
proof (cases "get_bracket_operator a = Inr True")
  case True
  then obtain q arg where "item args 0 = Inr arg" and
    out: "out = T_seq [wrap_if (needs_wrap q) arg, OStr ''['', T_seq (tl args) ['',''], OStr '']''] []"
    using assms(2) by (auto simp: compose_bracket_def rbind_eq_Inr)
  then have "one_char arg" "\<forall>x \<in> set (tl args). one_char x"
    using one_char_nth one_char_tl assms(1) by blast+
  then show ?thesis by (simp add: out)
next
  case False
  then have "compose_method c qs args opts = Inr out"
    using assms(2) by (auto simp: compose_bracket_def rbind_eq_Inr split: if_splits)
  then show ?thesis by (rule one_char_method [OF assms(1)])
qed

lemma one_char_slice:
  assumes "one_char_parts args opts" "compose_slice c a qs args opts = Inr out"
  shows "one_char out"
proof (cases "get_bracket_operator a = Inr True")
  case True
  then obtain q x0 x1 x2 where
    "item args 0 = Inr x0" "item args 1 = Inr x1" "item args 2 = Inr x2" and
    out: "out = T_seq [wrap_if (needs_wrap q) x0, OStr ''['', x1, OStr '':'', x2, OStr '']''] []"
    using assms(2) by (auto simp: compose_slice_def rbind_eq_Inr)
  then have "one_char x0" "one_char x1" "one_char x2"
    using one_char_nth assms(1) by blast+
  then show ?thesis by (simp add: out)
next
  case False
  then have "compose_bracket c a qs args opts = Inr out"
    using assms(2) by (auto simp: compose_slice_def rbind_eq_Inr split: if_splits)
  then show ?thesis by (rule one_char_bracket [OF assms(1)])
qed

lemma one_char_top_level:
  "one_char_parts args opts \<Longrightarrow> compose_top_level c args opts = Inr out \<Longrightarrow> one_char out"
  by (auto simp: compose_top_level_def one_char_simps)

lemma one_char_make_obj: "one_char_parts args opts \<Longrightarrow> one_char (compose_make_obj opts)"
  by (auto simp: compose_make_obj_def one_char_simps)

lemma one_char_funcall:
  "one_char_parts args opts \<Longrightarrow> length args = length qs \<Longrightarrow> compose_funcall qs args = Inr out
     \<Longrightarrow> one_char out"
  by (cases args) (auto simp: compose_funcall_def one_char_simps split: if_splits)

lemma one_char_table:
  "one_char_parts args opts \<Longrightarrow> length args = length qs \<Longrightarrow> compose_table qs args opts = Inr out
     \<Longrightarrow> one_char out"
  by (cases args) (auto simp: compose_table_def one_char_simps Let_def split: if_splits)

lemma one_char_bi_oper:
  "one_char_parts args opts \<Longrightarrow> (\<forall>s. cstmt c = Some s \<longrightarrow> length s = Suc 0)
     \<Longrightarrow> compose_bi_oper c qs args = Inr out \<Longrightarrow> one_char out"
  by (auto simp: compose_bi_oper_def one_char_simps get_statement_def split: option.splits)

lemma one_char_bool_oper:
  "one_char_parts args opts \<Longrightarrow> (\<forall>s. cinfix c = Some s \<longrightarrow> length s = Suc 0)
     \<Longrightarrow> compose_bool_oper c a qs args = Inr out \<Longrightarrow> one_char out"
  by (auto simp: compose_bool_oper_def one_char_simps get_st_infix_def
      split: option.splits if_splits)

lemma one_char_compose:
  assumes "one_char_parts args opts" "length args = length qs" "short_op c"
    and "compose c a qs args opts = Inr out"
  shows "one_char out"
proof (cases "ckind c")
  case K_BoolOper
  with assms show ?thesis by (auto simp: compose_def short_op_def intro: one_char_bool_oper)
next
  case K_Not
  with assms show ?thesis
    by (auto simp: compose_def compose_not_def one_char_simps split: if_splits)
next
  case K_Var
  with assms obtain arg where "(case arg of OStr s \<Rightarrow> Inr (OStr (''var_'' @ s))
      | OToks _ \<Rightarrow> Inl concat_error) = Inr out"
    by (auto simp: compose_def compose_var_def res_simps)
  then show ?thesis by (cases arg) auto
next
  case K_Func
  with assms show ?thesis
    by (auto simp: compose_def compose_func_def one_char_simps split: if_splits)
next
  case K_MakeArray
  with assms show ?thesis by (auto simp: compose_def compose_make_array_def one_char_simps)
next
  case K_Binary
  with assms show ?thesis
    by (auto simp: compose_def compose_binary_def res_simps intro: one_char_top_level split: if_splits)
qed (use assms in \<open>auto simp: compose_def short_op_def compose_constant_def res_simps
    intro: one_char_bi_oper one_char_method one_char_bracket one_char_slice one_char_top_level
      one_char_make_obj one_char_funcall one_char_table\<close>)

fun short_ops :: "query \<Rightarrow> bool" where
  "short_ops (Query c a qs opts) \<longleftrightarrow> short_op c \<and> list_all (\<lambda>b. b) (map short_ops qs)
     \<and> list_all (\<lambda>b. b) (map (\<lambda>kv. short_ops (snd kv)) opts)"

declare short_ops.simps [simp del]

lemma short_ops_Query:
  "short_ops (Query c a qs opts) \<longleftrightarrow>
     short_op c \<and> (\<forall>q \<in> set qs. short_ops q) \<and> (\<forall>kv \<in> set opts. short_ops (snd kv))"
  by (simp add: short_ops.simps list_all_iff)

lemma shown_one_char: "wf_query q \<Longrightarrow> printable q \<Longrightarrow> short_ops q \<Longrightarrow> one_char (shown q)"
proof (induction q rule: query_induct)
  case (Query c a qs opts)
  have "one_char (shown q)" if "q \<in> set qs" for q
    using Query.IH(1) [OF that] Query.prems that by (auto simp: short_ops_Query)
  moreover have "one_char (shown (snd kv))" if "kv \<in> set opts" for kv
  proof -
    have "(fst kv, snd kv) \<in> set opts" using that by simp
    moreover have "wf_query (snd kv)" "printable (snd kv)" "short_ops (snd kv)"
      using Query.prems that by (auto simp: short_ops_Query)
    ultimately show ?thesis by (rule Query.IH(2))
  qed
  ultimately have "one_char_parts (map shown qs) (map (\<lambda>kv. (fst kv, shown (snd kv))) opts)"
    by (auto simp: one_char_parts_def)
  then show ?case
    using compose_term_args [OF Query.prems(1,2)] Query.prems(3)
    by (intro one_char_compose [of _ _ qs c a]) (auto simp: short_ops_Query)
qed

lemma length_concat_one: "\<forall>t \<in> set ts. length t = Suc 0 \<Longrightarrow> length (concat ts) = length ts"
  by (induction ts) auto

lemma length_blank [simp]: "length (blank i) = Suc 0"
  by (simp add: blank_def)

lemma length_concat_blank [simp]: "length (concat (map blank ts)) = length ts"
  by (simp add: length_concat_one)

lemma concat_carets [simp]: "concat (map (\<lambda>_. ''^'') ts) = replicate (length ts) (CHR ''^'')"
  by (induction ts) auto

lemma print_query_shown: "wf_query q \<Longrightarrow> printable q \<Longrightarrow> print_query q = Inr (concat (tokens (shown q)))"
  by (simp add: print_query_def compose_term_total)

lemma wf_addressed:
  "addressed q fs = Some sub \<Longrightarrow> wf_query q \<Longrightarrow> printable q \<Longrightarrow> wf_query sub \<and> printable sub"
proof (induction q fs rule: visible.induct)
  case (3 c a qs opts k fs)
  then obtain v where v: "map_of opts k = Some v" "addressed v fs = Some sub"
    by (auto split: option.splits)
  then have "v \<in> snd ` set opts" by (auto dest!: map_of_SomeD intro: rev_image_eqI)
  with 3 v show ?case by auto
qed (auto split: if_splits)

text \<open>The two-character operators are one token, so the caret line of a query with such an
  operator is too short, and what follows the operator is marked one column early; and a
  caret in the query's own text is copied into the caret line.\<close>

lemma wide_operator_shifts_carets:
  assumes "q = Query (oper_class K_BiCompareOper ''Eq'' ''EQ'' ''=='') NoAttr
     [Query (own_class K_Datum ''Datum'' None None) (Data (AStr ''^'')) [] [],
      Query (own_class K_Datum ''Datum'' None None) (Data (AInt 2)) [] []] []"
  shows "print_query q          = Inr ''(r.expr('^') == r.expr(2))''
       \<and> print_carrots q [Pos 1] = Inr ''         ^            ^  ''"
  unfolding assms print_query_def print_carrots_def
  by (simp add: compose_def compose_bi_oper_def get_data_def get_statement_def class_defs
      wrapped_args_def needs_wrap_def wrap_if_def r_expr_def T_seq_def chars_def blank_def
      repr_str_def repr_char_def show_int_def digit_char_def chr_def code_point_def
      enumerate_eq_zip Let_def show_nat.simps char_of_def bit_0)

subsection \<open>The properties of the printer\<close>

lemmas example_simps = compose_def compose_method_def compose_top_level_def get_data_def
  get_statement_def class_defs needs_wrap_def wrap_if_def r_expr_def T_seq_def chars_def
  blank_def repr_str_def repr_char_def digit_char_def chr_def code_point_def enumerate_eq_zip
  Let_def optarg_def wf_cls_def short_op_def needs_statement_def item_def compose_table_def
  is_db_def

text \<open>The query \<open>r.table("t").get("x")\<close> of the witnesses.\<close>

definition str_datum :: "string \<Rightarrow> query" where
  "str_datum s = Query (own_class K_Datum ''Datum'' None None) (Data (AStr s)) [] []"

definition get_query :: query where
  "get_query = Query (method_class ''Get'' ''GET'' ''get'') NoAttr
     [Query (own_class K_Table ''Table'' (Some ''TABLE'') (Some ''table'')) NoAttr [str_datum ''t''] [],
      str_datum ''x''] []"

text \<open>Every well-formed query whose terms have the arities the printer relies on prints:
  no \<open>compose\<close> method raises on it.\<close>

theorem print_query_total: "wf_query q \<Longrightarrow> printable q \<Longrightarrow> \<exists>text. print_query q = Inr text"
  by (simp add: print_query_shown)

theorem print_query_total_witness:
  "\<exists>text. print_query get_query = Inr text"
  by (rule print_query_total) (simp_all add: get_query_def str_datum_def example_simps)

text \<open>C14. The caret line marks what the backtrace is about: the printed query is some text, the
  printed subterm and more text, and the caret line is, token for token, blanks, carets under
  exactly the subterm, and blanks (a caret of the query's own text aside).\<close>

theorem carets_mark_subterm:
  assumes "wf_query q" "printable q" "visible q fs" "addressed q fs = Some sub"
  shows "\<exists>pre mid post. print_query q = Inr (concat pre @ concat mid @ concat post)
     \<and> print_query sub = Inr (concat mid)
     \<and> print_carrots q fs = Inr (concat (map blank pre) @ replicate (length mid) (CHR ''^'')
          @ concat (map blank post))"
proof -
  obtain co where co: "compose_carrots q fs = Inr co" "marked q sub co"
    using carrots_marked [OF assms] by blast
  then obtain pre post where m: "tokens (shown q) = pre @ tokens (shown sub) @ post"
    "tokens co = map blank pre @ map (\<lambda>_. ''^'') (tokens (shown sub)) @ map blank post"
    unfolding marked_def by blast
  have "print_query sub = Inr (concat (tokens (shown sub)))"
    using wf_addressed [OF assms(4,1,2)] by (simp add: print_query_shown)
  moreover have "print_query q = Inr (concat pre @ concat (tokens (shown sub)) @ concat post)"
    using assms m(1) by (simp add: print_query_shown)
  moreover have "print_carrots q fs = Inr (concat (map blank pre)
      @ replicate (length (tokens (shown sub))) (CHR ''^'') @ concat (map blank post))"
    using co(1) m(2) by (simp add: print_carrots_def map_replicate_const)
  ultimately show ?thesis
    by blast
qed

theorem carets_mark_subterm_witness:
  "\<exists>pre mid post. print_query get_query = Inr (concat pre @ concat mid @ concat post)
     \<and> print_query (str_datum ''x'') = Inr (concat mid)
     \<and> print_carrots get_query [Pos 1] = Inr (concat (map blank pre)
          @ replicate (length mid) (CHR ''^'') @ concat (map blank post))"
  by (rule carets_mark_subterm) (simp_all add: get_query_def str_datum_def example_simps)

text \<open>The caret line is as long as the line of the query above it, when no operator of the
  query is written with more than one character.\<close>

theorem carets_aligned:
  assumes "wf_query q" "printable q" "short_ops q" "visible q fs"
  shows "\<exists>text carets. print_query q = Inr text \<and> print_carrots q fs = Inr carets
     \<and> length carets = length text"
proof -
  obtain sub where "addressed q fs = Some sub"
    using visible_addressed [OF assms(4)] by blast
  then obtain co where co: "compose_carrots q fs = Inr co" "marked q sub co"
    using carrots_marked assms by blast
  then obtain pre post where m: "tokens (shown q) = pre @ tokens (shown sub) @ post"
    "tokens co = map blank pre @ map (\<lambda>_. ''^'') (tokens (shown sub)) @ map blank post"
    unfolding marked_def by blast
  have "length (concat (tokens (shown q))) = length (tokens (shown q))"
    using shown_one_char [OF assms(1-3)] by (intro length_concat_one) (simp add: one_char_def)
  moreover have "length (concat (tokens co)) = length (tokens (shown q))"
    by (simp add: m)
  ultimately show ?thesis
    using co(1) assms by (simp add: print_query_shown print_carrots_def)
qed

theorem carets_aligned_witness:
  "\<exists>text carets. print_query get_query = Inr text
     \<and> print_carrots get_query [Pos 0, Pos 0] = Inr carets \<and> length carets = length text"
  by (rule carets_aligned)
    (simp_all add: get_query_def str_datum_def example_simps short_ops_Query)

text \<open>\<open>str\<close> of a server error: the message less its final full stops, the query and the
  caret line, on three lines; without a backtrace, the message alone.\<close>

theorem error_text:
  assumes "wf_query q" "printable q" "visible q fs"
  shows "\<exists>text carets. print_query q = Inr text \<and> print_carrots q fs = Inr carets
     \<and> exc_str (reql_error c msg (Some q) (Some fs)) =
         Inr (rstrip (CHR ''.'') msg @ '' in:'' @ [CHR 0x0A] @ text @ [CHR 0x0A] @ carets)
     \<and> exc_str (reql_error c msg term None) = Inr msg"
proof -
  obtain sub where "addressed q fs = Some sub"
    using visible_addressed [OF assms(3)] by blast
  then obtain co where co: "compose_carrots q fs = Inr co"
    using carrots_marked assms by blast
  then show ?thesis
    using assms
    by (simp add: exc_str_def reql_error_def query_printer_def print_query_shown print_carrots_def)
qed

theorem error_text_witness:
  "\<exists>text carets. print_query get_query = Inr text \<and> print_carrots get_query [Pos 1] = Inr carets
     \<and> exc_str (reql_error ReqlNonExistenceError ''No row.'' (Some get_query) (Some [Pos 1])) =
         Inr (rstrip (CHR ''.'') ''No row.'' @ '' in:'' @ [CHR 0x0A] @ text @ [CHR 0x0A] @ carets)
     \<and> exc_str (reql_error ReqlNonExistenceError ''No row.'' None None) = Inr ''No row.''"
  by (rule error_text) (simp_all add: get_query_def str_datum_def example_simps)

end
