(* ===== verification/Build.thy ===== *)
theory Build
  imports Printer
begin

text \<open>
  How query objects are made: \<open>expr\<close>, \<open>func_wrap\<close> and the \<open>__init__\<close> methods of
  \<open>rethinkdb/ast.py\<close>.  The state is \<open>Func.nextVarId\<close>, the number of the next lambda
  variable; \<open>Func.lock\<close> makes each draw from it one step, and the model runs one thread.
\<close>

type_synonym 'a build = "(int, error, 'a) comp"

subsection \<open>Objects without effects\<close>

definition c_Datum :: cls where "c_Datum = own_class K_Datum ''Datum'' None None"
definition c_MakeArray :: cls where "c_MakeArray = own_class K_MakeArray ''MakeArray'' (Some ''MAKE_ARRAY'') None"
definition c_MakeObj :: cls where "c_MakeObj = own_class K_MakeObj ''MakeObj'' (Some ''MAKE_OBJ'') None"
definition c_Var :: cls where "c_Var = own_class K_Var ''Var'' (Some ''VAR'') None"
definition c_Func :: cls where "c_Func = own_class K_Func ''Func'' (Some ''FUNC'') None"
definition c_ISO8601 :: cls where "c_ISO8601 = top_class ''ISO8601'' ''ISO8601'' ''iso8601''"
definition c_Binary :: cls where "c_Binary = own_class K_Binary ''Binary'' (Some ''BINARY'') (Some ''binary'')"

lemmas class_consts = c_Datum_def c_MakeArray_def c_MakeObj_def c_Var_def c_Func_def
  c_ISO8601_def c_Binary_def

definition datum :: "atom \<Rightarrow> query" where
  "datum a = Query c_Datum (Data a) [] []"

definition make_array :: "query list \<Rightarrow> query" where
  "make_array qs = Query c_MakeArray NoAttr qs []"

definition var :: "int \<Rightarrow> query" where
  "var i = Query c_Var NoAttr [datum (AInt i)] []"

definition func_node :: "int list \<Rightarrow> query \<Rightarrow> query" where
  "func_node ids body =
     Query c_Func (Vrs ids) [make_array (map (\<lambda>i. datum (AInt i)) ids), body] []"

definition binary_node :: "byte list \<Rightarrow> query" where
  "binary_node bs = Query c_Binary (Base64 (b64_text bs)) [] []"

text \<open>\<open>MakeObj.__init__\<close>, on values that are queries already.\<close>

definition key_error :: error where
  "key_error = driver_compile_error ''Object keys must be strings.''"

fun make_obj_from :: "(string \<times> query) list \<Rightarrow> (pykey \<times> query) list \<Rightarrow> error + query" where
  "make_obj_from acc [] = Inr (Query c_MakeObj NoAttr [] acc)"
| "make_obj_from acc ((KStr k, q) # kvs) = make_obj_from (dict_put acc k q) kvs"
| "make_obj_from acc ((KObj r, q) # kvs) = Inl key_error"

definition make_obj :: "(pykey \<times> query) list \<Rightarrow> error + query" where
  "make_obj kvs = make_obj_from [] kvs"

subsection \<open>\<open>expr\<close>\<close>

definition fresh_var :: "int build" where
  "fresh_var = (\<lambda>n. (Inr n, n + 1))"

fun fresh_vars :: "nat \<Rightarrow> int list build" where
  "fresh_vars 0 = ret []"
| "fresh_vars (Suc n) = bind fresh_var (\<lambda>i. bind (fresh_vars n) (\<lambda>is. ret (i # is)))"

definition nl :: string where "nl = [CHR 0x0A]"

definition timezone_error :: "string \<Rightarrow> error" where
  "timezone_error ty = driver_compile_error
     (''Cannot convert '' @ ty @ '' to ReQL time object'' @ nl
      @ ''            without timezone information. You can add timezone information with'' @ nl
      @ ''            the third party module '' @ [CHR 0x22] @ ''pytz'' @ [CHR 0x22]
      @ '' or by constructing ReQL compatible'' @ nl
      @ ''            timezone values with r.make_timezone('' @ [CHR 0x22] @ ''[+-]HH:MM''
      @ [CHR 0x22] @ ''). Alternatively,'' @ nl
      @ ''            use one of ReQL's bultin time constructors, r.now, r.time,'' @ nl
      @ ''            or r.iso8601.'' @ nl @ ''            '')"

definition depth_error :: error where
  "depth_error = driver_compile_error ''Nesting depth limit exceeded.''"

definition code_error :: "string \<Rightarrow> error" where
  "code_error ty = py_exc PyAttributeError ([CHR 0x27] @ ty @ [CHR 0x27]
     @ '' object has no attribute '' @ [CHR 0x27] @ ''__code__'' @ [CHR 0x27])"

definition checked :: "int \<Rightarrow> 'a build \<Rightarrow> 'a build" where
  "checked depth m = (if depth \<le> 0 then raise depth_error else m)"

definition default_depth :: int where
  "default_depth = 20"

text \<open>\<open>Func.__init__\<close>; \<open>body\<close> is what \<open>lmbd(*vrs)\<close> and the \<open>expr\<close> around it do.\<close>

definition func_init :: "nat \<Rightarrow> (query list \<Rightarrow> query build) \<Rightarrow> query build" where
  "func_init argcount body =
     bind (fresh_vars argcount) (\<lambda>vrids.
     bind (body (map var vrids)) (\<lambda>q. ret (func_node vrids q)))"

primrec expr_at :: "pyval \<Rightarrow> int \<Rightarrow> query build" where
  "expr_at (PAtom a) = (\<lambda>depth. checked depth (ret (datum a)))"
| "expr_at (PBytes bs) = (\<lambda>depth. checked depth (ret (binary_node bs)))"
| "expr_at (PBinary bs) = (\<lambda>depth. checked depth (ret (binary_node bs)))"
| "expr_at (PDate tz txt ty) = (\<lambda>depth. checked depth
     (if tz then ret (Query c_ISO8601 NoAttr [datum (AStr txt)] [])
      else raise (timezone_error ty)))"
| "expr_at (PList vs) = (\<lambda>depth. checked depth
     (bind (seqs (map (\<lambda>e. e (depth - 1)) (map expr_at vs))) (\<lambda>qs. ret (make_array qs))))"
| "expr_at (PDict kvs) = (\<lambda>depth. checked depth
     (bind (seqs (map (\<lambda>kv. bind (snd kv (depth - 1)) (\<lambda>q. ret (fst kv, q)))
                    (map (map_prod id expr_at) kvs)))
           (\<lambda>obj. lift_res (make_obj obj))))"
| "expr_at (PQuery q) = (\<lambda>depth. checked depth (ret q))"
| "expr_at (PFun n f) = (\<lambda>depth. checked depth
     (func_init n (\<lambda>vrs. bind ((\<lambda>qs i. map_prod (map_sum id expr_at) id (f qs i)) vrs)
        (\<lambda>e. e default_depth))))"
| "expr_at (PCallable ty) = (\<lambda>depth. checked depth (raise (code_error ty)))"

text \<open>\<open>r.expr(val, nesting_depth)\<close>; a depth that is not an int is \<open>None\<close>.\<close>

definition expr :: "pyval \<Rightarrow> int option \<Rightarrow> query build" where
  "expr v depth =
     (case depth of
        None \<Rightarrow> raise (driver_compile_error ''Second argument to `r.expr` must be a number.'')
      | Some d \<Rightarrow> expr_at v d)"

abbreviation to_query :: "pyval \<Rightarrow> query build" where
  "to_query v \<equiv> expr_at v default_depth"

definition func_wrap :: "pyval \<Rightarrow> query build" where
  "func_wrap v =
     bind (to_query v) (\<lambda>q.
       if ivar_scan q then func_init 1 (\<lambda>vrs. ret q) else ret q)"

subsection \<open>\<open>__init__\<close>\<close>

text \<open>\<open>RqlQuery.__init__\<close>.\<close>

definition build_opts :: "(string \<times> pyval) list \<Rightarrow> (string \<times> query) list build" where
  "build_opts kwargs =
     seqs (map (\<lambda>kv. bind (to_query (snd kv)) (\<lambda>q. ret (fst kv, q))) kwargs)"

definition base_init :: "cls \<Rightarrow> attr \<Rightarrow> pyval list \<Rightarrow> (string \<times> pyval) list \<Rightarrow> query build" where
  "base_init c a args kwargs =
     bind (seqs (map to_query args)) (\<lambda>qs.
     bind (build_opts kwargs) (\<lambda>opts. ret (Query c a qs (dict_of opts))))"

text \<open>\<open>RqlBiCompareOperQuery.__init__\<close>: after the object is made, every argument as it was
  passed is looked at; an \<open>AttributeError\<close> on the way counts as no infix operator.\<close>

definition precedence_error :: "string \<Rightarrow> string \<Rightarrow> error" where
  "precedence_error st text = driver_compile_error
     (''Calling '' @ [CHR 0x27] @ st @ [CHR 0x27] @ '' on result of infix bitwise operator:'' @ nl
      @ text @ ''.'' @ nl
      @ ''This is almost always a precedence error.'' @ nl
      @ ''Note that `a < b | b < c` <==> `a < (b | b) < c`.'' @ nl
      @ ''If you really want this behavior, use `.or_` or `.and_` instead.'')"

fun has_infix :: "pyval \<Rightarrow> bool" where
  "has_infix (PQuery q) = (qattr q = Infix True)"
| "has_infix _ = False"

definition infix_report :: "query \<Rightarrow> error" where
  "infix_report q =
     (case rbind (get_statement (qcls q)) (\<lambda>st. rmap (precedence_error st) (print_query q)) of
        Inl e \<Rightarrow> e | Inr e \<Rightarrow> e)"

fun infix_check :: "query \<Rightarrow> pyval list \<Rightarrow> error + unit" where
  "infix_check q [] = Inr ()"
| "infix_check q (arg # args) =
     (if has_infix arg \<and> \<not> caught_by [PyAttributeError] (infix_report q)
      then Inl (infix_report q) else infix_check q args)"

definition compare_init :: "cls \<Rightarrow> pyval list \<Rightarrow> (string \<times> pyval) list \<Rightarrow> query build" where
  "compare_init c args kwargs =
     bind (base_init c NoAttr args kwargs) (\<lambda>q.
     bind (lift_res (infix_check q args)) (\<lambda>_. ret q))"

text \<open>\<open>RqlBracketQuery.__init__\<close> takes \<open>bracket_operator\<close> out of the optional arguments.\<close>

fun truthy :: "pyval \<Rightarrow> bool" where
  "truthy (PAtom ANone) = False"
| "truthy (PAtom (ABool b)) = b"
| "truthy (PAtom (AInt i)) = (i \<noteq> 0)"
| "truthy (PAtom (AFloat f)) = (f \<noteq> ''0.0'' \<and> f \<noteq> ''-0.0'')"
| "truthy (PAtom (AStr s)) = (s \<noteq> [])"
| "truthy (PAtom (AObj ty r)) = True"
| "truthy (PBytes bs) = (bs \<noteq> [])"
| "truthy (PBinary bs) = (bs \<noteq> [])"
| "truthy (PList vs) = (vs \<noteq> [])"
| "truthy (PDict kvs) = (kvs \<noteq> [])"
| "truthy _ = True"

definition bracket_init :: "cls \<Rightarrow> pyval list \<Rightarrow> (string \<times> pyval) list \<Rightarrow> query build" where
  "bracket_init c args kwargs =
     (case map_of kwargs ''bracket_operator'' of
        Some v \<Rightarrow> base_init c (BracketOp (truthy v)) args (dict_del kwargs ''bracket_operator'')
      | None \<Rightarrow> base_init c (BracketOp False) args kwargs)"

text \<open>\<open>FunCall.__init__\<close>: the function comes last and goes first.\<close>

definition funcall_init :: "cls \<Rightarrow> pyval list \<Rightarrow> query build" where
  "funcall_init c args =
     (if args = [] then
        raise (driver_compile_error ''Expected 1 or more arguments but found 0.'')
      else bind (func_wrap (last args)) (\<lambda>q. base_init c NoAttr (PQuery q # butlast args) []))"

text \<open>\<open>Binary.__init__\<close>.\<close>

fun type_name :: "pyval \<Rightarrow> string" where
  "type_name (PAtom ANone) = ''NoneType''"
| "type_name (PAtom (ABool b)) = ''bool''"
| "type_name (PAtom (AInt i)) = ''int''"
| "type_name (PAtom (AFloat f)) = ''float''"
| "type_name (PAtom (AStr s)) = ''str''"
| "type_name (PAtom (AObj ty r)) = ty"
| "type_name (PBytes bs) = ''bytes''"
| "type_name (PBinary bs) = ''RqlBinary''"
| "type_name (PDate tz txt ty) = ty"
| "type_name (PList vs) = ''list''"
| "type_name (PDict kvs) = ''dict''"
| "type_name (PQuery q) = cname (qcls q)"
| "type_name (PFun n f) = ''function''"
| "type_name (PCallable ty) = ty"

definition binary_init :: "cls \<Rightarrow> pyval \<Rightarrow> query build" where
  "binary_init c data =
     (case data of
        PQuery q \<Rightarrow> base_init c NoAttr [data] []
      | PAtom (AStr s) \<Rightarrow> raise (driver_compile_error
          ''Cannot convert a unicode string to binary, use `unicode.encode()` to specify the encoding.'')
      | PBytes bs \<Rightarrow> ret (Query c (Base64 (b64_text bs)) [] [])
      | PBinary bs \<Rightarrow> ret (Query c (Base64 (b64_text bs)) [] [])
      | _ \<Rightarrow> raise (driver_compile_error (''Cannot convert '' @ type_name data
          @ '' to binary, convert the object to a `bytes` object first.'')))"

definition arguments_error :: error where
  "arguments_error = py_exc PyTypeError ''__init__() got unexpected arguments''"

text \<open>Calling a class by one of the method tables.  \<open>Datum\<close>, \<open>MakeObj\<close> and \<open>Func\<close> have
  constructors of their own above, and no table names them.\<close>

definition construct :: "cls \<Rightarrow> pyval list \<Rightarrow> (string \<times> pyval) list \<Rightarrow> query build" where
  "construct c args kwargs =
     (case ckind c of
        K_BoolOper \<Rightarrow> base_init c (Infix False) args kwargs
      | K_BiCompareOper \<Rightarrow> compare_init c args kwargs
      | K_BracketQuery \<Rightarrow> bracket_init c args kwargs
      | K_Slice \<Rightarrow> bracket_init c args kwargs
      | K_FunCall \<Rightarrow> (if kwargs = [] then funcall_init c args else raise arguments_error)
      | K_Binary \<Rightarrow> (case (args, kwargs) of ([d], []) \<Rightarrow> binary_init c d
                   | _ \<Rightarrow> raise arguments_error)
      | _ \<Rightarrow> base_init c NoAttr args kwargs)"

subsection \<open>What the constructors establish\<close>

lemma cls_simps [simp]:
  "ckind c_Datum = K_Datum" "ckind c_MakeArray = K_MakeArray" "ckind c_MakeObj = K_MakeObj"
  "ckind c_Var = K_Var" "ckind c_Func = K_Func" "ckind c_ISO8601 = K_TopLevel"
  "ckind c_Binary = K_Binary"
  by (simp_all add: class_consts class_defs)

lemma wf_consts [simp]:
  "wf_cls c_Datum" "wf_cls c_MakeArray" "wf_cls c_MakeObj" "wf_cls c_Var" "wf_cls c_Func"
  "wf_cls c_ISO8601" "wf_cls c_Binary"
  by (simp_all add: class_consts class_defs wf_cls_def needs_statement_def)

lemma wf_datum [simp]: "wf_query (datum a)"
  by (simp add: datum_def)

lemma wf_make_array [simp]: "wf_query (make_array qs) \<longleftrightarrow> (\<forall>q \<in> set qs. wf_query q)"
  by (simp add: make_array_def)

lemma wf_var [simp]: "wf_query (var i)"
  by (simp add: var_def)

lemma wf_func_node [simp]: "wf_query (func_node ids q) \<longleftrightarrow> wf_query q"
  by (simp add: func_node_def)

lemma wf_binary_node [simp]: "wf_query (binary_node bs)"
  by (simp add: binary_node_def)

lemma make_obj_from_wf:
  assumes "make_obj_from acc kvs = Inr q" "\<forall>kv \<in> set kvs. wf_query (snd kv)"
    and "wf_query (Query c_MakeObj NoAttr [] acc)"
  shows "wf_query q"
  using assms
proof (induction acc kvs rule: make_obj_from.induct)
  case (2 acc k v kvs)
  have "snd ` set (dict_put acc k v) \<subseteq> insert v (snd ` set acc)"
    by (rule dict_put_values)
  moreover have "\<forall>x \<in> insert v (snd ` set acc). wf_query x"
    using 2(3,4) by simp
  ultimately have "\<forall>x \<in> snd ` set (dict_put acc k v). wf_query x"
    by blast
  then have "wf_query (Query c_MakeObj NoAttr [] (dict_put acc k v))"
    using 2(4) by (simp add: dict_put_distinct)
  then show ?case using 2 by simp
qed auto

lemma make_obj_wf: "make_obj kvs = Inr q \<Longrightarrow> \<forall>kv \<in> set kvs. wf_query (snd kv) \<Longrightarrow> wf_query q"
  unfolding make_obj_def by (rule make_obj_from_wf) auto

text \<open>The values a caller may pass: the queries in them are well formed, and their functions
  return such values when applied to well-formed queries.\<close>

inductive wf_val :: "pyval \<Rightarrow> bool" where
  wf_atom: "wf_val (PAtom a)"
| wf_bytes: "wf_val (PBytes bs)"
| wf_binary: "wf_val (PBinary bs)"
| wf_date: "wf_val (PDate tz txt ty)"
| wf_list: "(\<forall>v \<in> set vs. wf_val v) \<Longrightarrow> wf_val (PList vs)"
| wf_dict: "(\<forall>kv \<in> set kvs. wf_val (snd kv)) \<Longrightarrow> wf_val (PDict kvs)"
| wf_pquery: "wf_query q \<Longrightarrow> wf_val (PQuery q)"
| wf_fun: "(\<forall>qs i v j. (\<forall>q \<in> set qs. wf_query q) \<longrightarrow> f qs i = (Inr v, j) \<longrightarrow> wf_val v)
     \<Longrightarrow> wf_val (PFun n f)"
| wf_callable: "wf_val (PCallable ty)"

declare wf_atom [simp] wf_bytes [simp] wf_binary [simp] wf_date [simp] wf_callable [simp]

inductive_simps wf_pquery_iff [simp]: "wf_val (PQuery q)"

lemma checked_Inr: "checked d m s = (Inr a, t) \<longleftrightarrow> 0 < d \<and> m s = (Inr a, t)"
  by (auto simp: checked_def comp_simps)

lemma func_init_Inr:
  "func_init n body s = (Inr q, t) \<longleftrightarrow>
     (\<exists>ids u r. fresh_vars n s = (Inr ids, u) \<and> body (map var ids) u = (Inr r, t)
        \<and> q = func_node ids r)"
  by (auto simp: func_init_def comp_simps)

lemma map_result_Inr [simp]:
  "map_prod (map_sum id g) id p = (Inr h, j) \<longleftrightarrow> (\<exists>v. p = (Inr v, j) \<and> h = g v)"
  by (cases p; cases "fst p") auto

lemma map_result_Inl [simp]:
  "map_prod (map_sum id g) id p = (Inl e, j) \<longleftrightarrow> p = (Inl e, j)"
  by (cases p; cases "fst p") auto

lemma expr_at_wf: "wf_val v \<Longrightarrow> expr_at v d s = (Inr q, t) \<Longrightarrow> wf_query q"
proof (induction v arbitrary: d s q t rule: wf_val.induct)
  case (wf_list vs)
  then obtain qs where run: "seqs (map (\<lambda>v. expr_at v (d - 1)) vs) s = (Inr qs, t)"
    and q: "q = make_array qs"
    by (auto simp: checked_Inr comp_simps comp_def)
  have "\<forall>q \<in> set qs. wf_query q"
    by (rule seqs_all [OF run]) (use wf_list.IH in fastforce)
  then show ?case by (simp add: q)
next
  case (wf_dict kvs)
  then obtain obj where
    run: "seqs (map (\<lambda>kv. bind (expr_at (snd kv) (d - 1)) (\<lambda>q. ret (fst kv, q))) kvs) s = (Inr obj, t)"
    and q: "make_obj obj = Inr q"
    by (auto simp: checked_Inr comp_simps comp_def)
  have "\<forall>kv \<in> set obj. wf_query (snd kv)"
  proof (rule seqs_all [OF run])
    fix m u a u'
    assume "m \<in> set (map (\<lambda>kv. bind (expr_at (snd kv) (d - 1)) (\<lambda>q. ret (fst kv, q))) kvs)"
      and "m u = (Inr a, u')"
    then obtain kv where "kv \<in> set kvs" "expr_at (snd kv) (d - 1) u = (Inr (snd a), u')"
      by (auto simp: comp_simps)
    then show "wf_query (snd a)" using wf_dict.IH by blast
  qed
  then show ?case by (rule make_obj_wf [OF q])
next
  case (wf_fun f n)
  then obtain ids u r v i where "q = func_node ids r" "f (map var ids) u = (Inr v, i)"
    "expr_at v default_depth i = (Inr r, t)"
    by (auto simp: checked_Inr func_init_Inr comp_simps)
  moreover have "\<forall>q \<in> set (map var ids). wf_query q" by auto
  ultimately have "wf_query r" using wf_fun.IH by blast
  then show ?case by (simp add: \<open>q = func_node ids r\<close>)
qed (auto simp: checked_Inr comp_simps split: if_splits)

lemma dict_of_values: "snd ` set (dict_of kvs) \<subseteq> snd ` set kvs"
proof -
  have "snd ` set (foldl (\<lambda>d (k, v). dict_put d k v) d kvs) \<subseteq> snd ` set d \<union> snd ` set kvs" for d
  proof (induction kvs arbitrary: d)
    case (Cons kv kvs)
    obtain k v where kv: "kv = (k, v)" by (cases kv)
    have "snd ` set (dict_put d k v) \<subseteq> insert v (snd ` set d)" by (rule dict_put_values)
    moreover have "snd ` set (foldl (\<lambda>d (k, v). dict_put d k v) (dict_put d k v) kvs)
        \<subseteq> snd ` set (dict_put d k v) \<union> snd ` set kvs"
      by (rule Cons)
    ultimately show ?case unfolding kv by simp blast
  qed simp
  from this [of "[]"] show ?thesis by (simp add: dict_of_def)
qed

lemma seqs_expr_wf:
  assumes "seqs (map to_query args) s = (Inr qs, t)" "\<forall>v \<in> set args. wf_val v"
  shows "\<forall>q \<in> set qs. wf_query q"
  by (rule seqs_all [OF assms(1)]) (use assms(2) in \<open>auto intro: expr_at_wf\<close>)

lemma build_opts_wf:
  assumes "build_opts kwargs s = (Inr opts, t)" "\<forall>kv \<in> set kwargs. wf_val (snd kv)"
  shows "\<forall>kv \<in> set opts. wf_query (snd kv)"
proof (rule seqs_all [OF assms(1) [unfolded build_opts_def]])
  fix m u a u'
  assume "m \<in> set (map (\<lambda>kv. bind (to_query (snd kv)) (\<lambda>q. ret (fst kv, q))) kwargs)"
    and "m u = (Inr a, u')"
  then obtain kv where "kv \<in> set kwargs" "to_query (snd kv) u = (Inr (snd a), u')"
    by (auto simp: comp_simps)
  then show "wf_query (snd a)" using assms(2) expr_at_wf by blast
qed

lemma base_init_Inr:
  assumes "base_init c a args kwargs s = (Inr q, t)"
    and "\<forall>v \<in> set args. wf_val v" "\<forall>kv \<in> set kwargs. wf_val (snd kv)"
  shows "\<exists>qs opts. q = Query c a qs opts \<and> length qs = length args \<and> (\<forall>q \<in> set qs. wf_query q)
    \<and> (\<forall>q \<in> snd ` set opts. wf_query q) \<and> distinct (map fst opts)"
proof -
  obtain qs u opts where run: "seqs (map to_query args) s = (Inr qs, u)"
    "build_opts kwargs u = (Inr opts, t)" and q: "q = Query c a qs (dict_of opts)"
    using assms(1) by (auto simp: base_init_def comp_simps)
  have "\<forall>q \<in> snd ` set opts. wf_query q"
    using build_opts_wf [OF run(2) assms(3)] by simp
  then have "\<forall>q \<in> snd ` set (dict_of opts). wf_query q"
    using dict_of_values [of opts] by blast
  moreover have "length qs = length args"
    using seqs_Inr_length [OF run(1)] by simp
  ultimately show ?thesis
    using seqs_expr_wf [OF run(1) assms(2)] q dict_of_distinct_keys by blast
qed

lemma base_init_wf:
  assumes "base_init c a args kwargs s = (Inr q, t)" "wf_cls c"
    and "\<forall>v \<in> set args. wf_val v" "\<forall>kv \<in> set kwargs. wf_val (snd kv)"
    and "\<And>qs :: query list. length qs = length args \<Longrightarrow> wf_attr c a qs"
  shows "wf_query q"
  using base_init_Inr [OF assms(1,3,4)] assms(2,5) by (auto simp del: wf_attr.simps)

lemma func_wrap_Inr:
  assumes "func_wrap v s = (Inr q', t)"
  shows "\<exists>q u. to_query v s = (Inr q, u) \<and>
     (if ivar_scan q then q' = func_node [u] q \<and> t = u + 1 else q' = q \<and> t = u)"
proof -
  obtain q u where q: "to_query v s = (Inr q, u)"
    and rest: "(if ivar_scan q then func_init 1 (\<lambda>vrs. ret q) else ret q) u = (Inr q', t)"
    using assms by (auto simp: func_wrap_def comp_simps)
  have "fresh_vars 1 u = (Inr [u], u + 1)"
    by (simp add: One_nat_def fresh_var_def bind_def ret_def)
  with rest have "if ivar_scan q then q' = func_node [u] q \<and> t = u + 1 else q' = q \<and> t = u"
    by (auto simp: func_init_Inr comp_simps)
  with q show ?thesis by blast
qed

lemma func_wrap_wf:
  assumes "func_wrap v s = (Inr q, t)" "wf_val v"
  shows "wf_query q"
  using func_wrap_Inr [OF assms(1)] expr_at_wf [OF assms(2)] by (auto split: if_splits)

lemma bracket_init_wf:
  assumes "bracket_init c args kwargs s = (Inr q, t)" "wf_cls c"
    and "\<forall>v \<in> set args. wf_val v" "\<forall>kv \<in> set kwargs. wf_val (snd kv)"
    and "ckind c = K_Slice \<or> ckind c = K_BracketQuery"
  shows "wf_query q"
proof -
  obtain br kw where "base_init c (BracketOp br) args kw s = (Inr q, t)"
    "\<forall>kv \<in> set kw. wf_val (snd kv)"
    using assms(1,4) by (auto simp: bracket_init_def dict_del_def split: option.splits)
  then show ?thesis
    using assms(5) by (intro base_init_wf [OF _ assms(2,3)]) auto
qed

text \<open>Every class but \<open>Datum\<close> and \<open>Func\<close>, called with well-formed values, makes a well-formed
  object or raises.\<close>

lemma construct_wf:
  assumes run: "construct c args kwargs s = (Inr q, t)"
    and cls: "wf_cls c" "ckind c \<noteq> K_Datum" "ckind c \<noteq> K_Func"
    and args: "\<forall>v \<in> set args. wf_val v" "\<forall>kv \<in> set kwargs. wf_val (snd kv)"
  shows "wf_query q"
proof (cases "ckind c")
  case K_BiCompareOper
  with run obtain q' where "base_init c NoAttr args kwargs s = (Inr q', t)" "q = q'"
    by (auto simp: construct_def compare_init_def comp_simps)
  then show ?thesis using base_init_wf [OF _ cls(1) args] K_BiCompareOper by simp
next
  case K_FunCall
  then have kw: "kwargs = []" "args \<noteq> []"
    using run by (auto simp: construct_def funcall_init_def comp_simps split: if_splits)
  with run K_FunCall obtain q' u where w: "func_wrap (last args) s = (Inr q', u)"
    and b: "base_init c NoAttr (PQuery q' # butlast args) [] u = (Inr q, t)"
    by (auto simp: construct_def funcall_init_def comp_simps)
  have "wf_query q'" using func_wrap_wf [OF w] args kw by simp
  then show ?thesis
    using base_init_wf [OF b cls(1)] args K_FunCall by (auto dest: in_set_butlastD)
next
  case K_Binary
  then obtain d where a: "args = [d]" "kwargs = []" and d: "binary_init c d s = (Inr q, t)"
    using run by (auto simp: construct_def comp_simps split: list.splits)
  show ?thesis
  proof (cases d)
    case (PQuery p)
    with d have "base_init c NoAttr [d] [] s = (Inr q, t)" by (simp add: binary_init_def)
    then show ?thesis
      by (rule base_init_wf [OF _ cls(1)]) (use K_Binary args a in \<open>auto simp: length_Suc_conv\<close>)
  next
    case (PAtom x)
    with d show ?thesis by (cases x) (auto simp: binary_init_def comp_simps)
  qed (use d cls K_Binary in \<open>auto simp: binary_init_def comp_simps\<close>)
next
  case K_BoolOper
  then have "base_init c (Infix False) args kwargs s = (Inr q, t)"
    using run by (simp add: construct_def)
  then show ?thesis by (rule base_init_wf [OF _ cls(1) args]) (auto simp: K_BoolOper)
next
  case K_Slice
  with run bracket_init_wf [OF _ cls(1) args] show ?thesis by (simp add: construct_def)
next
  case K_BracketQuery
  with run bracket_init_wf [OF _ cls(1) args] show ?thesis by (simp add: construct_def)
qed (use base_init_wf [OF _ cls(1) args] run cls in \<open>simp_all add: construct_def\<close>)

subsection \<open>Depth and data\<close>

text \<open>Plain data: what \<open>json\<close> could hold, with distinct string keys; its nesting; and the
  term it denotes.\<close>

fun plain :: "pyval \<Rightarrow> bool" where
  "plain (PAtom a) = True"
| "plain (PList vs) = list_all (\<lambda>b. b) (map plain vs)"
| "plain (PDict kvs) = (list_all (\<lambda>b. b) (map (\<lambda>kv. plain (snd kv)) kvs)
     \<and> (\<forall>kv \<in> set kvs. \<exists>k. fst kv = KStr k) \<and> distinct (map fst kvs))"
| "plain _ = False"

fun nesting :: "pyval \<Rightarrow> nat" where
  "nesting (PList vs) = Suc (foldr max (map nesting vs) 0)"
| "nesting (PDict kvs) = Suc (foldr max (map (\<lambda>kv. nesting (snd kv)) kvs) 0)"
| "nesting _ = 1"

fun key_text :: "pykey \<Rightarrow> string" where
  "key_text (KStr k) = k"
| "key_text (KObj r) = r"

fun literal :: "pyval \<Rightarrow> query" where
  "literal (PAtom a) = datum a"
| "literal (PList vs) = make_array (map literal vs)"
| "literal (PDict kvs) = Query c_MakeObj NoAttr [] (map (\<lambda>kv. (key_text (fst kv), literal (snd kv))) kvs)"
| "literal v = datum ANone"

lemma foldr_max_le: "foldr max xs (0 :: nat) \<le> n \<longleftrightarrow> (\<forall>x \<in> set xs. x \<le> n)"
  by (induction xs) auto

lemma seqs_uniform:
  assumes "\<And>x. x \<in> set xs \<Longrightarrow> g x s = (if P x then (Inr (h x), s) else (Inl e, s))"
  shows "seqs (map g xs) s = (if \<forall>x \<in> set xs. P x then (Inr (map h xs), s) else (Inl e, s))"
  using assms
proof (induction xs)
  case (Cons x xs)
  have x: "g x s = (if P x then (Inr (h x), s) else (Inl e, s))" by (rule Cons.prems) simp
  have "seqs (map g xs) s = (if \<forall>x \<in> set xs. P x then (Inr (map h xs), s) else (Inl e, s))"
    by (rule Cons.IH) (simp add: Cons.prems)
  with x show ?case by (simp add: bind_def ret_def)
qed (simp add: ret_def)

lemma make_obj_from_plain:
  "\<forall>kv \<in> set kvs. \<exists>k. fst kv = KStr k \<Longrightarrow> distinct (map fst acc @ map (\<lambda>kv. key_text (fst kv)) kvs)
     \<Longrightarrow> make_obj_from acc kvs
        = Inr (Query c_MakeObj NoAttr [] (acc @ map (\<lambda>kv. (key_text (fst kv), snd kv)) kvs))"
proof (induction acc kvs rule: make_obj_from.induct)
  case (2 acc k q kvs)
  have "k \<notin> fst ` set acc" using 2(3) by auto
  then have "dict_put acc k q = acc @ [(k, q)]" by (rule dict_put_fresh)
  then show ?case using 2 by simp
qed simp_all

lemma key_text_distinct:
  "\<forall>kv \<in> set kvs. \<exists>k. fst kv = KStr k \<Longrightarrow> distinct (map fst kvs) \<Longrightarrow> distinct (map (\<lambda>kv. key_text (fst kv)) kvs)"
proof (induction kvs)
  case (Cons kv kvs)
  have "key_text (fst kv) \<noteq> key_text (fst kv')" if "kv' \<in> set kvs" for kv'
  proof -
    obtain k where "fst kv = KStr k" using Cons.prems(1) by auto
    moreover obtain k' where "fst kv' = KStr k'" using Cons.prems(1) \<open>kv' \<in> set kvs\<close> by auto
    moreover have "fst kv \<noteq> fst kv'" using Cons.prems(2) that by auto
    ultimately show ?thesis by simp
  qed
  then show ?case using Cons by auto
qed simp

lemma expr_at_dict:
  "expr_at (PDict kvs) d = checked d
     (bind (seqs (map (\<lambda>kv. bind (expr_at (snd kv) (d - 1)) (\<lambda>q. ret (fst kv, q))) kvs))
           (\<lambda>obj. lift_res (make_obj obj)))"
  by (simp add: comp_def)

lemma expr_at_plain:
  "plain v \<Longrightarrow> expr_at v d s =
     (if int (nesting v) \<le> d then (Inr (literal v), s) else (Inl depth_error, s))"
proof (induction v arbitrary: d)
  case (PList vs)
  have "seqs (map (\<lambda>v. expr_at v (d - 1)) vs) s
      = (if \<forall>v \<in> set vs. int (nesting v) \<le> d - 1 then (Inr (map literal vs), s) else (Inl depth_error, s))"
    by (rule seqs_uniform) (use PList in \<open>simp add: list_all_iff\<close>)
  moreover have "int (nesting (PList vs)) \<le> d \<longleftrightarrow> 0 < d \<and> (\<forall>v \<in> set vs. int (nesting v) \<le> d - 1)"
    using foldr_max_le [of "map nesting vs" "nat (d - 1)"] by (auto simp: le_nat_iff)
  ultimately show ?case
    by (auto simp: checked_def bind_def ret_def raise_def comp_def)
next
  case (PDict kvs)
  have "seqs (map (\<lambda>kv. bind (expr_at (snd kv) (d - 1)) (\<lambda>q. ret (fst kv, q))) kvs) s
      = (if \<forall>kv \<in> set kvs. int (nesting (snd kv)) \<le> d - 1
         then (Inr (map (\<lambda>kv. (fst kv, literal (snd kv))) kvs), s) else (Inl depth_error, s))"
  proof (rule seqs_uniform)
    fix kv assume kv: "kv \<in> set kvs"
    have "expr_at (snd kv) (d - 1) s = (if int (nesting (snd kv)) \<le> d - 1
        then (Inr (literal (snd kv)), s) else (Inl depth_error, s))"
      by (rule PDict.IH [OF kv]) (use PDict.prems kv in \<open>auto simp: list_all_iff snds.simps\<close>)
    then show "bind (expr_at (snd kv) (d - 1)) (\<lambda>q. ret (fst kv, q)) s =
        (if int (nesting (snd kv)) \<le> d - 1 then (Inr (fst kv, literal (snd kv)), s) else (Inl depth_error, s))"
      by (simp add: bind_def ret_def)
  qed
  moreover have "int (nesting (PDict kvs)) \<le> d
      \<longleftrightarrow> 0 < d \<and> (\<forall>kv \<in> set kvs. int (nesting (snd kv)) \<le> d - 1)"
    using foldr_max_le [of "map (\<lambda>kv. nesting (snd kv)) kvs" "nat (d - 1)"]
    by (auto simp: le_nat_iff)
  moreover have "make_obj (map (\<lambda>kv. (fst kv, literal (snd kv))) kvs)
      = Inr (Query c_MakeObj NoAttr [] (map (\<lambda>kv. (key_text (fst kv), literal (snd kv))) kvs))"
    unfolding make_obj_def
    by (subst make_obj_from_plain) (use PDict.prems key_text_distinct in \<open>auto simp: comp_def\<close>)
  moreover have "int (nesting (PDict kvs)) \<le> d \<Longrightarrow> \<not> d \<le> 0" by simp
  ultimately show ?case
    unfolding expr_at_dict literal.simps
    by (cases "int (nesting (PDict kvs)) \<le> d")
      (simp_all del: nesting.simps add: checked_def bind_run_Inr lift_res_def raise_def bind_run_Inl)
qed (auto simp: checked_def ret_def raise_def)

subsection \<open>Lambda variables\<close>

fun vrs_of :: "attr \<Rightarrow> int set" where
  "vrs_of (Vrs ids) = set ids"
| "vrs_of _ = {}"

text \<open>The variables bound by the lambdas of a query.\<close>

fun binders :: "query \<Rightarrow> int set" where
  "binders (Query c a qs opts) =
     vrs_of a \<union> \<Union> (set (map binders qs)) \<union> \<Union> (set (map (\<lambda>kv. binders (snd kv)) opts))"

text \<open>The variables of a value's queries are in \<open>S\<close>, apart from those its functions draw
  from the counter while they run, which they only move forward.\<close>

inductive binds_in :: "int set \<Rightarrow> pyval \<Rightarrow> bool" where
  bi_atom: "binds_in S (PAtom a)"
| bi_bytes: "binds_in S (PBytes bs)"
| bi_binary: "binds_in S (PBinary bs)"
| bi_date: "binds_in S (PDate tz txt ty)"
| bi_list: "(\<forall>v \<in> set vs. binds_in S v) \<Longrightarrow> binds_in S (PList vs)"
| bi_dict: "(\<forall>kv \<in> set kvs. binds_in S (snd kv)) \<Longrightarrow> binds_in S (PDict kvs)"
| bi_pquery: "binders q \<subseteq> S \<Longrightarrow> binds_in S (PQuery q)"
| bi_fun: "(\<forall>ids i v j. f (map var ids) i = (Inr v, j) \<longrightarrow> i \<le> j \<and> binds_in (S \<union> {i..<j}) v)
     \<Longrightarrow> binds_in S (PFun n f)"
| bi_callable: "binds_in S (PCallable ty)"

inductive_cases binds_in_PFunE: "binds_in S (PFun n f)"

lemma binders_datum [simp]: "binders (datum a) = {}"
  by (simp add: datum_def)

lemma binders_make_array [simp]: "binders (make_array qs) = \<Union> (set (map binders qs))"
  by (simp add: make_array_def)

lemma binders_func_node [simp]: "binders (func_node ids q) = set ids \<union> binders q"
  by (simp add: func_node_def)

lemma fresh_vars_run: "fresh_vars n s = (Inr (map (\<lambda>k. s + int k) [0..<n]), s + int n)"
proof (induction n arbitrary: s)
  case (Suc n)
  have "map (\<lambda>k. s + int k) [0..<Suc n] = s # map (\<lambda>k. (s + 1) + int k) [0..<n]"
    by (subst upt_conv_Cons) (simp_all add: map_Suc_upt [symmetric] comp_def algebra_simps del: upt_Suc)
  then show ?case
    using Suc.IH [of "s + 1"] by (simp add: fresh_var_def bind_def ret_def del: upt_Suc)
qed (simp add: ret_def)

lemma fresh_vars_set: "set (map (\<lambda>k. s + int k) [0..<n]) = {s..<s + int n}"
proof -
  have "\<exists>k. s + int k = x \<and> k < n" if "s \<le> x" "x < s + int n" for x
    using that by (intro exI [of _ "nat (x - s)"]) simp
  then show ?thesis by (fastforce simp: image_iff)
qed

definition opts_binders :: "('k \<times> query) list \<Rightarrow> int set" where
  "opts_binders kvs = \<Union> (binders ` snd ` set kvs)"

lemma opts_binders_simps [simp]:
  "opts_binders [] = {}" "opts_binders ((k, q) # kvs) = binders q \<union> opts_binders kvs"
  by (simp_all add: opts_binders_def)

lemma binders_Query:
  "binders (Query c a qs opts) = vrs_of a \<union> \<Union> (binders ` set qs) \<union> opts_binders opts"
  by (simp add: opts_binders_def image_comp comp_def)

lemma dict_put_binders: "opts_binders (dict_put d k q) \<subseteq> opts_binders d \<union> binders q"
proof -
  have "snd ` set (dict_put d k q) \<subseteq> insert q (snd ` set d)"
    by (rule dict_put_values)
  then have "\<Union> (binders ` snd ` set (dict_put d k q)) \<subseteq> \<Union> (binders ` insert q (snd ` set d))"
    by blast
  then show ?thesis by (simp add: opts_binders_def Un_commute)
qed

lemma make_obj_from_binders:
  "make_obj_from acc kvs = Inr q \<Longrightarrow> binders q \<subseteq> opts_binders acc \<union> opts_binders kvs"
proof (induction acc kvs rule: make_obj_from.induct)
  case (1 acc)
  then show ?case by (auto simp only: make_obj_from.simps sum.inject binders_Query vrs_of.simps) simp_all
next
  case (2 acc k v kvs)
  have "opts_binders (dict_put acc k v) \<subseteq> opts_binders acc \<union> binders v"
    by (rule dict_put_binders)
  moreover have "binders q \<subseteq> opts_binders (dict_put acc k v) \<union> opts_binders kvs"
    using 2 by simp
  ultimately show ?case by (simp, blast)
qed simp

lemma seqs_range:
  assumes "seqs (map g xs) s = (Inr ys, t)"
    and "\<And>x u y u'. x \<in> set xs \<Longrightarrow> g x u = (Inr y, u') \<Longrightarrow> u \<le> u' \<and> B y \<subseteq> S \<union> {u..<u'}"
  shows "s \<le> (t :: int) \<and> \<Union> (B ` set ys) \<subseteq> S \<union> {s..<t}"
  using assms
proof (induction xs arbitrary: s ys)
  case Nil
  then show ?case by (simp add: comp_simps)
next
  case (Cons x xs)
  from Cons.prems(1) obtain y u zs where x: "g x s = (Inr y, u)"
    and xs: "seqs (map g xs) u = (Inr zs, t)" and ys: "ys = y # zs"
    by (auto simp: comp_simps)
  have "u \<le> t \<and> \<Union> (B ` set zs) \<subseteq> S \<union> {u..<t}"
    by (rule Cons.IH [OF xs]) (rule Cons.prems(2), simp_all)
  moreover have "s \<le> u \<and> B y \<subseteq> S \<union> {s..<u}"
    by (rule Cons.prems(2) [OF _ x]) simp
  ultimately show ?case by (fastforce simp: ys)
qed

lemma expr_at_range:
  "binds_in S v \<Longrightarrow> expr_at v d s = (Inr q, t) \<Longrightarrow> s \<le> t \<and> binders q \<subseteq> S \<union> {s..<t}"
proof (induction S v arbitrary: d s q t rule: binds_in.induct)
  case (bi_list vs S)
  then obtain qs where run: "seqs (map (\<lambda>v. expr_at v (d - 1)) vs) s = (Inr qs, t)"
    and q: "q = make_array qs"
    by (auto simp: checked_Inr comp_simps comp_def)
  have "s \<le> t \<and> \<Union> (binders ` set qs) \<subseteq> S \<union> {s..<t}"
    by (rule seqs_range [OF run]) (use bi_list.IH in blast)
  then show ?case by (simp add: q)
next
  case (bi_dict kvs S)
  then obtain obj where
    run: "seqs (map (\<lambda>kv. bind (expr_at (snd kv) (d - 1)) (\<lambda>q. ret (fst kv, q))) kvs) s = (Inr obj, t)"
    and q: "make_obj obj = Inr q"
    unfolding expr_at_dict by (auto simp: checked_Inr comp_simps)
  have r: "s \<le> t \<and> \<Union> ((\<lambda>kv. binders (snd kv)) ` set obj) \<subseteq> S \<union> {s..<t}"
  proof (rule seqs_range [OF run])
    fix kv u y u' assume "kv \<in> set kvs" "bind (expr_at (snd kv) (d - 1)) (\<lambda>q. ret (fst kv, q)) u = (Inr y, u')"
    then have "expr_at (snd kv) (d - 1) u = (Inr (snd y), u')" by (auto simp: comp_simps)
    then show "u \<le> u' \<and> binders (snd y) \<subseteq> S \<union> {u..<u'}" using bi_dict.IH \<open>kv \<in> set kvs\<close> by blast
  qed
  have "opts_binders obj = \<Union> ((\<lambda>kv. binders (snd kv)) ` set obj)"
    by (simp add: opts_binders_def image_comp comp_def)
  with r have "opts_binders obj \<subseteq> S \<union> {s..<t}" by simp
  moreover have "binders q \<subseteq> opts_binders obj"
    using make_obj_from_binders [OF q [unfolded make_obj_def]] by simp
  ultimately have "binders q \<subseteq> S \<union> {s..<t}" by (rule subset_trans [rotated])
  with r show ?case by simp
next
  case (bi_fun f S n)
  then obtain ids u r v i where ids: "fresh_vars n s = (Inr ids, u)"
    and q: "q = func_node ids r" and f: "f (map var ids) u = (Inr v, i)"
    and v: "expr_at v default_depth i = (Inr r, t)"
    by (auto simp: checked_Inr func_init_Inr comp_simps)
  have "u \<le> i" and IH: "i \<le> t \<and> binders r \<subseteq> (S \<union> {u..<i}) \<union> {i..<t}"
    using bi_fun.IH f v by blast+
  moreover have "u = s + int n" "set ids = {s..<s + int n}"
    using ids fresh_vars_set [of s n] by (auto simp: fresh_vars_run)
  ultimately show ?case by (auto simp: q)
qed (auto simp: checked_Inr comp_simps c_ISO8601_def binary_node_def split: if_splits)

subsection \<open>The properties of the constructors\<close>

text \<open>\<open>expr\<close> on plain data: the term that denotes the value, the counter of variables
  untouched, when the value nests no deeper than the limit (20 by default), and the nesting
  error otherwise; a value that is a query already is returned as it is.\<close>

theorem expr_depth_limit:
  "(plain v \<longrightarrow> expr v (Some d) s =
     (if int (nesting v) \<le> d then (Inr (literal v), s) else (Inl depth_error, s)))
   \<and> (0 < d \<longrightarrow> expr (PQuery q) (Some d) s = (Inr q, s))"
  by (auto simp: expr_def expr_at_plain checked_def ret_def)

theorem expr_depth_limit_witness:
  "expr (PList [PDict [(KStr ''a'', PAtom (AInt 1))]]) (Some 3) 7
     = (Inr (make_array [Query c_MakeObj NoAttr [] [(''a'', datum (AInt 1))]]), 7)
   \<and> expr (PList [PDict [(KStr ''a'', PAtom (AInt 1))]]) (Some 2) 7 = (Inl depth_error, 7)
   \<and> expr (PQuery (datum ANone)) (Some 1) 7 = (Inr (datum ANone), 7)"
  using expr_depth_limit [of "PList [PDict [(KStr ''a'', PAtom (AInt 1))]]" 3 7 "datum ANone"]
    expr_depth_limit [of "PList [PDict [(KStr ''a'', PAtom (AInt 1))]]" 2 7 "datum ANone"]
    expr_depth_limit [of "PAtom ANone" 1 7 "datum ANone"]
  by (simp add: c_MakeObj_def)

text \<open>Whatever is passed to it, a term constructor makes a well-formed object or raises:
  the fields are those of the class, the arguments are queries, and the optional arguments
  have distinct names.\<close>

theorem constructors_well_formed:
  assumes "wf_cls c" "ckind c \<noteq> K_Datum" "ckind c \<noteq> K_Func"
    and "\<forall>v \<in> set args. wf_val v" "\<forall>kv \<in> set kwargs. wf_val (snd kv)"
    and "construct c args kwargs s = (Inr q, t)"
  shows "wf_query q"
  using construct_wf [OF assms(6,1,2,3,4,5)] .

theorem constructors_well_formed_witness:
  "wf_query (Query (method_class ''Limit'' ''LIMIT'' ''limit'') NoAttr
     [make_array [datum (AInt 1)], datum (AInt 2)] [])"
  by (rule constructors_well_formed [where c = "method_class ''Limit'' ''LIMIT'' ''limit''"
        and args = "[PList [PAtom (AInt 1)], PAtom (AInt 2)]" and kwargs = "[]" and s = 1 and t = 1])
    (simp_all add: class_defs wf_cls_def needs_statement_def construct_def base_init_def
      build_opts_def bind_def ret_def checked_def default_depth_def dict_of_def wf_list)

text \<open>C15. No capture: the variables of a new lambda are consecutive fresh numbers, as many as
  the function has parameters, and no lambda in its body binds one of them, whatever further
  lambdas the Python function builds while it runs.\<close>

theorem lambda_variables_fresh:
  assumes "binds_in S (PFun n f)" "\<forall>i \<in> S. i < s" "expr_at (PFun n f) d s = (Inr q, t)"
  shows "\<exists>ids body. q = func_node ids body \<and> length ids = n \<and> distinct ids
     \<and> set ids = {s..<s + int n} \<and> set ids \<inter> binders body = {} \<and> binders q \<subseteq> S \<union> {s..<t}"
proof -
  obtain ids u r v i where ids: "fresh_vars n s = (Inr ids, u)"
    and q: "q = func_node ids r" and f: "f (map var ids) u = (Inr v, i)"
    and v: "expr_at v default_depth i = (Inr r, t)"
    using assms(3) by (auto simp: checked_Inr func_init_Inr comp_simps)
  have u: "u = s + int n" and eq: "ids = map (\<lambda>k. s + int k) [0..<n]"
    using ids by (auto simp: fresh_vars_run)
  then have set: "set ids = {s..<s + int n}" using fresh_vars_set by simp
  have b: "u \<le> i" "binds_in (S \<union> {u..<i}) v"
    using assms(1) f by (blast elim: binds_in_PFunE)+
  then have "binders r \<subseteq> (S \<union> {u..<i}) \<union> {i..<t}" "i \<le> t"
    using expr_at_range v by blast+
  with b(1) assms(2) have "set ids \<inter> binders r = {}"
    unfolding set u by fastforce
  moreover have "distinct ids" "length ids = n" by (auto simp: eq distinct_map inj_on_def)
  moreover have "binders q \<subseteq> S \<union> {s..<t}"
    using expr_at_range [OF assms(1,3)] by blast
  ultimately show ?thesis using q set by blast
qed

theorem lambda_variables_fresh_witness:
  "\<exists>ids body. func_node [4] (var 4) = func_node ids body \<and> length ids = 1 \<and> distinct ids
     \<and> set ids = {4..<4 + int 1} \<and> set ids \<inter> binders body = {}
     \<and> binders (func_node [4] (var 4)) \<subseteq> {} \<union> {4..<5}"
proof (rule lambda_variables_fresh [where s = 4 and t = 5 and d = 20])
  show "binds_in {} (PFun 1 (\<lambda>qs i. (Inr (case qs of [] \<Rightarrow> PAtom ANone | q # _ \<Rightarrow> PQuery q), i)))"
    by (rule bi_fun) (auto intro!: bi_pquery bi_atom simp: var_def split: list.splits)
qed (simp_all add: checked_def default_depth_def func_init_def fresh_var_def bind_def ret_def)

text \<open>\<open>func_wrap\<close>: a value with \<open>r.row\<close> somewhere in it becomes a lambda over one fresh
  variable whose body is the value; any other value is only converted.\<close>

theorem func_wrap_spec:
  assumes "func_wrap v s = (Inr q', t)"
  shows "\<exists>q u. to_query v s = (Inr q, u)
     \<and> (if \<exists>r. subterm r q \<and> qkind r = K_ImplicitVar
        then q' = func_node [u] q \<and> t = u + 1 else q' = q \<and> t = u)"
  using func_wrap_Inr [OF assms] by (simp add: ivar_scan_iff)

definition row :: query where
  "row = Query (own_class K_ImplicitVar ''ImplicitVar'' (Some ''IMPLICIT_VAR'') None) NoAttr [] []"

theorem func_wrap_spec_witness:
  "\<exists>q u. to_query (PQuery row) 9 = (Inr q, u)
     \<and> (if \<exists>r. subterm r q \<and> qkind r = K_ImplicitVar
        then func_node [9] row = func_node [u] q \<and> 10 = u + 1 else func_node [9] row = q \<and> 10 = u)"
  by (rule func_wrap_spec) (simp add: func_wrap_def row_def class_defs checked_def default_depth_def
      bind_def ret_def func_init_def fresh_var_def)

end
