(* ===== verification/Methods.thy ===== *)
theory Methods
  imports Build
begin

text \<open>
  The user's side of the AST: the operators and methods of \<open>RqlQuery\<close>, \<open>DB\<close> and \<open>Table\<close> in
  \<open>rethinkdb/ast.py\<close> and the functions of \<open>rethinkdb/query.py\<close>.  Almost all of them
  make a term of one class out of their arguments, some after wrapping the arguments that may
  be functions: they are the entries of the tables below, in the order of the files, with the
  name, the class, how the arguments are wrapped and whether keywords are taken.
\<close>

datatype wrapping = W_None | W_All | W_Expr | W_Last | W_Fold | W_Kw | W_Order | W_Tail

type_synonym method_entry = "string \<times> string \<times> wrapping \<times> bool"

subsection \<open>Wrapping\<close>

definition wrap_pyval :: "pyval \<Rightarrow> pyval build" where
  "wrap_pyval v = bind (func_wrap v) (\<lambda>q. ret (PQuery q))"

definition expr_pyval :: "pyval \<Rightarrow> pyval build" where
  "expr_pyval v = bind (to_query v) (\<lambda>q. ret (PQuery q))"

definition wrap_kwargs :: "(string \<times> pyval) list \<Rightarrow> (string \<times> pyval) list build" where
  "wrap_kwargs kwargs = seqs (map (\<lambda>kv. bind (wrap_pyval (snd kv)) (\<lambda>v. ret (fst kv, v))) kwargs)"

definition wrap_last :: "pyval list \<Rightarrow> pyval list build" where
  "wrap_last args = bind (wrap_pyval (last args)) (\<lambda>v. ret (butlast args @ [v]))"

fun is_ordering :: "pyval \<Rightarrow> bool" where
  "is_ordering (PQuery q) = (cname (qcls q) = ''Asc'' \<or> cname (qcls q) = ''Desc'')"
| "is_ordering _ = False"

definition wrap_args ::
    "wrapping \<Rightarrow> pyval list \<Rightarrow> (string \<times> pyval) list \<Rightarrow> (pyval list \<times> (string \<times> pyval) list) build" where
  "wrap_args w args kwargs =
     (case w of
        W_None \<Rightarrow> ret (args, kwargs)
      | W_All \<Rightarrow> bind (seqs (map wrap_pyval args)) (\<lambda>vs. ret (vs, kwargs))
      | W_Expr \<Rightarrow> bind (seqs (map expr_pyval args)) (\<lambda>vs. ret (vs, kwargs))
      | W_Last \<Rightarrow> if args = [] then ret ([], [])
                  else bind (wrap_last args) (\<lambda>vs. ret (vs, []))
      | W_Fold \<Rightarrow> if args = [] then ret ([], [])
                  else bind (wrap_kwargs kwargs) (\<lambda>kws. bind (wrap_last args) (\<lambda>vs. ret (vs, kws)))
      | W_Kw \<Rightarrow> bind (wrap_kwargs kwargs) (\<lambda>kws. ret (args, kws))
      | W_Order \<Rightarrow> bind (seqs (map (\<lambda>v. if is_ordering v then ret v else wrap_pyval v) args))
                     (\<lambda>vs. ret (vs, kwargs))
      | W_Tail \<Rightarrow> if 1 < length args
                  then bind (seqs (map wrap_pyval (tl args))) (\<lambda>vs. ret (hd args # vs, kwargs))
                  else ret (args, kwargs))"

definition keyword_error :: error where
  "keyword_error = py_exc PyTypeError ''got an unexpected keyword argument''"

definition no_such_class :: error where
  "no_such_class = py_exc PyAttributeError ''module has no such attribute''"

definition invoke ::
    "method_entry \<Rightarrow> pyval list \<Rightarrow> pyval list \<Rightarrow> (string \<times> pyval) list \<Rightarrow> query build" where
  "invoke m self args kwargs =
     (case m of (name, cl, w, kw) \<Rightarrow>
        if kwargs \<noteq> [] \<and> \<not> kw then raise keyword_error
        else (case class_named cl of
                None \<Rightarrow> raise no_such_class
              | Some c \<Rightarrow> bind (wrap_args w args kwargs) (\<lambda>(vs, kws). construct c (self @ vs) kws)))"

subsection \<open>The tables\<close>

text \<open>The operators: the class, whether the operands are swapped, and whether the result is
  marked as written infix (\<open>set_infix\<close>).\<close>

definition rql_operators :: "(string \<times> string \<times> bool \<times> bool) list" where
  "rql_operators = [
     (''__eq__'', ''Eq'', False, False),
     (''__ne__'', ''Ne'', False, False),
     (''__lt__'', ''Lt'', False, False),
     (''__le__'', ''Le'', False, False),
     (''__gt__'', ''Gt'', False, False),
     (''__ge__'', ''Ge'', False, False),
     (''__add__'', ''Add'', False, False),
     (''__radd__'', ''Add'', True, False),
     (''__sub__'', ''Sub'', False, False),
     (''__rsub__'', ''Sub'', True, False),
     (''__mul__'', ''Mul'', False, False),
     (''__rmul__'', ''Mul'', True, False),
     (''__div__'', ''Div'', False, False),
     (''__rdiv__'', ''Div'', True, False),
     (''__truediv__'', ''Div'', False, False),
     (''__rtruediv__'', ''Div'', True, False),
     (''__mod__'', ''Mod'', False, False),
     (''__rmod__'', ''Mod'', True, False),
     (''__and__'', ''And'', False, True),
     (''__rand__'', ''And'', True, True),
     (''__or__'', ''Or'', False, True),
     (''__ror__'', ''Or'', True, True)]"

definition rql_methods_1 :: "method_entry list" where
  "rql_methods_1 = [
     (''eq'', ''Eq'', W_None, False),
     (''ne'', ''Ne'', W_None, False),
     (''lt'', ''Lt'', W_None, False),
     (''le'', ''Le'', W_None, False),
     (''gt'', ''Gt'', W_None, False),
     (''ge'', ''Ge'', W_None, False),
     (''add'', ''Add'', W_None, False),
     (''sub'', ''Sub'', W_None, False),
     (''mul'', ''Mul'', W_None, False),
     (''div'', ''Div'', W_None, False),
     (''mod'', ''Mod'', W_None, False),
     (''bit_and'', ''BitAnd'', W_None, False),
     (''bit_or'', ''BitOr'', W_None, False),
     (''bit_xor'', ''BitXor'', W_None, False),
     (''bit_not'', ''BitNot'', W_None, False),
     (''bit_sal'', ''BitSal'', W_None, False),
     (''bit_sar'', ''BitSar'', W_None, False),
     (''floor'', ''Floor'', W_None, False),
     (''ceil'', ''Ceil'', W_None, False),
     (''round'', ''Round'', W_None, False),
     (''and_'', ''And'', W_None, False),
     (''or_'', ''Or'', W_None, False),
     (''not_'', ''Not'', W_None, False),
     (''contains'', ''Contains'', W_All, False),
     (''has_fields'', ''HasFields'', W_None, False),
     (''with_fields'', ''WithFields'', W_None, False),
     (''keys'', ''Keys'', W_None, False),
     (''values'', ''Values'', W_None, False),
     (''changes'', ''Changes'', W_None, True)]"

definition rql_methods_2 :: "method_entry list" where
  "rql_methods_2 = [
     (''pluck'', ''Pluck'', W_None, False),
     (''without'', ''Without'', W_None, False),
     (''do'', ''FunCall'', W_None, False),
     (''default'', ''Default'', W_None, False),
     (''update'', ''Update'', W_All, True),
     (''replace'', ''Replace'', W_All, True),
     (''delete'', ''Delete'', W_None, True),
     (''coerce_to'', ''CoerceTo'', W_None, False),
     (''ungroup'', ''Ungroup'', W_None, False),
     (''type_of'', ''TypeOf'', W_None, False),
     (''merge'', ''Merge'', W_All, False),
     (''append'', ''Append'', W_None, False),
     (''prepend'', ''Prepend'', W_None, False),
     (''difference'', ''Difference'', W_None, False),
     (''set_insert'', ''SetInsert'', W_None, False),
     (''set_union'', ''SetUnion'', W_None, False),
     (''set_intersection'', ''SetIntersection'', W_None, False),
     (''set_difference'', ''SetDifference'', W_None, False)]"

definition rql_methods_3 :: "method_entry list" where
  "rql_methods_3 = [
     (''get_field'', ''GetField'', W_None, False),
     (''nth'', ''Nth'', W_None, False),
     (''to_json'', ''ToJsonString'', W_None, False),
     (''to_json_string'', ''ToJsonString'', W_None, False),
     (''match'', ''Match'', W_None, False),
     (''split'', ''Split'', W_None, False),
     (''upcase'', ''Upcase'', W_None, False),
     (''downcase'', ''Downcase'', W_None, False),
     (''is_empty'', ''IsEmpty'', W_None, False),
     (''offsets_of'', ''OffsetsOf'', W_All, False),
     (''slice'', ''Slice'', W_None, True),
     (''skip'', ''Skip'', W_None, False),
     (''limit'', ''Limit'', W_None, False),
     (''reduce'', ''Reduce'', W_All, False),
     (''sum'', ''Sum'', W_All, False),
     (''avg'', ''Avg'', W_All, False),
     (''min'', ''Min'', W_All, True),
     (''max'', ''Max'', W_All, True),
     (''map'', ''Map'', W_Last, False),
     (''fold'', ''Fold'', W_Fold, True),
     (''filter'', ''Filter'', W_All, True),
     (''concat_map'', ''ConcatMap'', W_All, False),
     (''order_by'', ''OrderBy'', W_Order, True),
     (''between'', ''Between'', W_None, True),
     (''distinct'', ''Distinct'', W_None, True),
     (''count'', ''Count'', W_All, False),
     (''union'', ''Union'', W_Kw, True),
     (''inner_join'', ''InnerJoin'', W_None, False),
     (''outer_join'', ''OuterJoin'', W_None, False),
     (''eq_join'', ''EqJoin'', W_All, True),
     (''zip'', ''Zip'', W_None, False),
     (''group'', ''Group'', W_All, True),
     (''branch'', ''Branch'', W_None, False),
     (''for_each'', ''ForEach'', W_All, False),
     (''info'', ''Info'', W_None, False),
     (''insert_at'', ''InsertAt'', W_None, False),
     (''splice_at'', ''SpliceAt'', W_None, False),
     (''delete_at'', ''DeleteAt'', W_None, False),
     (''change_at'', ''ChangeAt'', W_None, False),
     (''sample'', ''Sample'', W_None, False)]"

definition rql_methods_4 :: "method_entry list" where
  "rql_methods_4 = [
     (''to_iso8601'', ''ToISO8601'', W_None, False),
     (''to_epoch_time'', ''ToEpochTime'', W_None, False),
     (''during'', ''During'', W_None, True),
     (''date'', ''Date'', W_None, False),
     (''time_of_day'', ''TimeOfDay'', W_None, False),
     (''timezone'', ''Timezone'', W_None, False),
     (''year'', ''Year'', W_None, False),
     (''month'', ''Month'', W_None, False),
     (''day'', ''Day'', W_None, False),
     (''day_of_week'', ''DayOfWeek'', W_None, False),
     (''day_of_year'', ''DayOfYear'', W_None, False),
     (''hours'', ''Hours'', W_None, False),
     (''minutes'', ''Minutes'', W_None, False),
     (''seconds'', ''Seconds'', W_None, False),
     (''in_timezone'', ''InTimezone'', W_None, False),
     (''to_geojson'', ''ToGeoJson'', W_None, False),
     (''distance'', ''Distance'', W_None, True),
     (''intersects'', ''Intersects'', W_None, False),
     (''includes'', ''Includes'', W_None, False),
     (''fill'', ''Fill'', W_None, False),
     (''polygon_sub'', ''PolygonSub'', W_None, False)]"

definition db_methods :: "method_entry list" where
  "db_methods = [
     (''table_list'', ''TableList'', W_None, False),
     (''config'', ''Config'', W_None, False),
     (''wait'', ''Wait'', W_None, True),
     (''reconfigure'', ''Reconfigure'', W_None, True),
     (''rebalance'', ''Rebalance'', W_None, True),
     (''grant'', ''Grant'', W_None, True),
     (''table_create'', ''TableCreate'', W_None, True),
     (''table_drop'', ''TableDrop'', W_None, False),
     (''table'', ''Table'', W_None, True)]"

definition table_methods :: "method_entry list" where
  "table_methods = [
     (''insert'', ''Insert'', W_Expr, True),
     (''get'', ''Get'', W_None, False),
     (''get_all'', ''GetAll'', W_None, True),
     (''set_write_hook'', ''SetWriteHook'', W_None, True),
     (''get_write_hook'', ''GetWriteHook'', W_None, True),
     (''index_create'', ''IndexCreate'', W_Tail, True),
     (''index_drop'', ''IndexDrop'', W_None, False),
     (''index_rename'', ''IndexRename'', W_None, True),
     (''index_list'', ''IndexList'', W_None, False),
     (''index_status'', ''IndexStatus'', W_None, False),
     (''index_wait'', ''IndexWait'', W_None, False),
     (''status'', ''Status'', W_None, False),
     (''config'', ''Config'', W_None, False),
     (''wait'', ''Wait'', W_None, True),
     (''reconfigure'', ''Reconfigure'', W_None, True),
     (''rebalance'', ''Rebalance'', W_None, True),
     (''sync'', ''Sync'', W_None, False),
     (''grant'', ''Grant'', W_None, True),
     (''get_intersecting'', ''GetIntersecting'', W_None, True),
     (''get_nearest'', ''GetNearest'', W_None, True),
     (''uuid'', ''UUID'', W_None, True)]"

definition top_functions_1 :: "method_entry list" where
  "top_functions_1 = [
     (''json'', ''Json'', W_None, False),
     (''js'', ''JavaScript'', W_None, True),
     (''args'', ''Args'', W_None, False),
     (''error'', ''UserError'', W_None, False),
     (''random'', ''Random'', W_None, True),
     (''do'', ''FunCall'', W_None, False),
     (''table'', ''Table'', W_None, True),
     (''db'', ''DB'', W_None, False),
     (''db_create'', ''DbCreate'', W_None, False),
     (''db_drop'', ''DbDrop'', W_None, False),
     (''db_list'', ''DbList'', W_None, False),
     (''db_config'', ''DbConfig'', W_None, False),
     (''table_create'', ''TableCreateTL'', W_None, True),
     (''table_drop'', ''TableDropTL'', W_None, False),
     (''table_list'', ''TableListTL'', W_None, False),
     (''grant'', ''GrantTL'', W_None, True),
     (''branch'', ''Branch'', W_None, False),
     (''union'', ''Union'', W_None, False),
     (''map'', ''Map'', W_Last, False),
     (''group'', ''Group'', W_All, False),
     (''reduce'', ''Reduce'', W_All, False),
     (''count'', ''Count'', W_All, False),
     (''sum'', ''Sum'', W_All, False),
     (''avg'', ''Avg'', W_All, False),
     (''min'', ''Min'', W_All, False),
     (''max'', ''Max'', W_All, False),
     (''distinct'', ''Distinct'', W_All, False),
     (''contains'', ''Contains'', W_All, False),
     (''asc'', ''Asc'', W_All, False),
     (''desc'', ''Desc'', W_All, False)]"

definition top_functions_2 :: "method_entry list" where
  "top_functions_2 = [
     (''eq'', ''Eq'', W_None, False),
     (''ne'', ''Ne'', W_None, False),
     (''lt'', ''Lt'', W_None, False),
     (''le'', ''Le'', W_None, False),
     (''gt'', ''Gt'', W_None, False),
     (''ge'', ''Ge'', W_None, False),
     (''add'', ''Add'', W_None, False),
     (''sub'', ''Sub'', W_None, False),
     (''mul'', ''Mul'', W_None, False),
     (''div'', ''Div'', W_None, False),
     (''mod'', ''Mod'', W_None, False),
     (''bit_and'', ''BitAnd'', W_None, False),
     (''bit_or'', ''BitOr'', W_None, False),
     (''bit_xor'', ''BitXor'', W_None, False),
     (''bit_not'', ''BitNot'', W_None, False),
     (''bit_sal'', ''BitSal'', W_None, False),
     (''bit_sar'', ''BitSar'', W_None, False),
     (''floor'', ''Floor'', W_None, False),
     (''ceil'', ''Ceil'', W_None, False),
     (''round'', ''Round'', W_None, False),
     (''not_'', ''Not'', W_None, False),
     (''and_'', ''And'', W_None, False),
     (''or_'', ''Or'', W_None, False),
     (''type_of'', ''TypeOf'', W_None, False),
     (''info'', ''Info'', W_None, False)]"

definition top_functions_3 :: "method_entry list" where
  "top_functions_3 = [
     (''range'', ''Range'', W_None, False),
     (''time'', ''Time'', W_None, False),
     (''iso8601'', ''ISO8601'', W_None, True),
     (''epoch_time'', ''EpochTime'', W_None, False),
     (''now'', ''Now'', W_None, False),
     (''literal'', ''Literal'', W_None, False),
     (''object'', ''Object'', W_None, False),
     (''uuid'', ''UUID'', W_None, False),
     (''geojson'', ''GeoJson'', W_None, False),
     (''point'', ''Point'', W_None, False),
     (''line'', ''Line'', W_None, False),
     (''polygon'', ''Polygon'', W_None, False),
     (''distance'', ''Distance'', W_None, True),
     (''intersects'', ''Intersects'', W_None, False),
     (''circle'', ''Circle'', W_None, True)]"

definition top_functions :: "method_entry list" where
  "top_functions = top_functions_1 @ top_functions_2 @ top_functions_3"

definition rql_methods :: "method_entry list" where
  "rql_methods = rql_methods_1 @ rql_methods_2 @ rql_methods_3 @ rql_methods_4"

text \<open>The constants, each an object with a \<open>statement\<close> and a \<open>term_type\<close> of its own.\<close>

definition rql_constants :: "(string \<times> string) list" where
  "rql_constants = [
     (''monday'', ''MONDAY''), (''tuesday'', ''TUESDAY''), (''wednesday'', ''WEDNESDAY''),
     (''thursday'', ''THURSDAY''), (''friday'', ''FRIDAY''), (''saturday'', ''SATURDAY''),
     (''sunday'', ''SUNDAY''), (''january'', ''JANUARY''), (''february'', ''FEBRUARY''),
     (''march'', ''MARCH''), (''april'', ''APRIL''), (''may'', ''MAY''), (''june'', ''JUNE''),
     (''july'', ''JULY''), (''august'', ''AUGUST''), (''september'', ''SEPTEMBER''),
     (''october'', ''OCTOBER''), (''november'', ''NOVEMBER''), (''december'', ''DECEMBER''),
     (''minval'', ''MINVAL''), (''maxval'', ''MAXVAL'')]"

definition rql_constant :: "string \<Rightarrow> string \<Rightarrow> query" where
  "rql_constant st term_type =
     Query (own_class K_Constant ''RqlConstant'' (Some term_type) (Some st)) NoAttr [] []"

subsection \<open>Calls\<close>

definition lookup_method :: "method_entry list \<Rightarrow> string \<Rightarrow> method_entry option" where
  "lookup_method ms name = find (\<lambda>m. fst m = name) ms"

definition methods_of :: "query \<Rightarrow> method_entry list" where
  "methods_of q =
     (if is_db q then db_methods else if qkind q = K_Table then table_methods else []) @ rql_methods"

definition no_such_method :: error where
  "no_such_method = py_exc PyAttributeError ''object has no such attribute''"

text \<open>\<open>q.name(*args, **kwargs)\<close> and \<open>r.name(*args, **kwargs)\<close>; \<open>r.http\<close> and \<open>r.binary\<close>
  take one argument.\<close>

definition call_method :: "query \<Rightarrow> string \<Rightarrow> pyval list \<Rightarrow> (string \<times> pyval) list \<Rightarrow> query build" where
  "call_method q name args kwargs =
     (case lookup_method (methods_of q) name of
        None \<Rightarrow> raise no_such_method
      | Some m \<Rightarrow> invoke m [PQuery q] args kwargs)"

definition call_function :: "string \<Rightarrow> pyval list \<Rightarrow> (string \<times> pyval) list \<Rightarrow> query build" where
  "call_function name args kwargs =
     (if name = ''http'' then
        (if length args = 1 then invoke (''http'', ''Http'', W_All, True) [] args kwargs
         else raise arguments_error)
      else if name = ''binary'' then
        (if length args = 1 then invoke (''binary'', ''Binary'', W_None, False) [] args kwargs
         else raise arguments_error)
      else (case lookup_method top_functions name of
              None \<Rightarrow> raise no_such_method
            | Some m \<Rightarrow> invoke m [] args kwargs))"

fun set_infix :: "query \<Rightarrow> query" where
  "set_infix (Query c a qs opts) = Query c (Infix True) qs opts"

definition call_operator :: "query \<Rightarrow> string \<Rightarrow> pyval \<Rightarrow> query build" where
  "call_operator q name other =
     (case find (\<lambda>m. fst m = name) rql_operators of
        None \<Rightarrow> raise no_such_method
      | Some (_, cl, swap, infx) \<Rightarrow>
          bind (invoke (name, cl, W_None, False) []
                  (if swap then [other, PQuery q] else [PQuery q, other]) [])
            (\<lambda>r. ret (if infx then set_infix r else r)))"

definition invert :: "query \<Rightarrow> query build" where
  "invert q = invoke (''__invert__'', ''Not'', W_None, False) [PQuery q] [] []"

text \<open>\<open>q[index]\<close>; an absent bound of a slice is \<open>None\<close>.\<close>

datatype index = IdxSlice pyval pyval | IdxAt pyval

definition or_zero :: "pyval \<Rightarrow> pyval" where
  "or_zero v = (if truthy v then v else PAtom (AInt 0))"

definition getitem :: "query \<Rightarrow> index \<Rightarrow> query build" where
  "getitem q ix =
     (case ix of
        IdxSlice start stop \<Rightarrow>
          if truthy stop then
            invoke (''[:]'', ''Slice'', W_None, True) [PQuery q] [or_zero start, stop]
              [(''bracket_operator'', PAtom (ABool True))]
          else
            invoke (''[:]'', ''Slice'', W_None, True) [PQuery q] [or_zero start, PAtom (AInt (-1))]
              [(''right_bound'', PAtom (AStr ''closed'')), (''bracket_operator'', PAtom (ABool True))]
      | IdxAt i \<Rightarrow> invoke (''[]'', ''Bracket'', W_None, True) [PQuery q] [i]
                     [(''bracket_operator'', PAtom (ABool True))])"

definition iter_error :: error where
  "iter_error = driver_error (''__iter__ called on an RqlQuery object.'' @ nl
     @ ''To iterate over the results of a query, call run first.'' @ nl
     @ ''To iterate inside a query, use map or for_each.'')"

definition iter_query :: "query \<Rightarrow> query build" where
  "iter_query q = raise iter_error"

subsection \<open>Every call makes a well-formed query or raises\<close>

definition entry_ok :: "method_entry \<Rightarrow> bool" where
  "entry_ok m \<longleftrightarrow> fst (snd m) \<noteq> ''Datum'' \<and> fst (snd m) \<noteq> ''Func''"

definition special_named :: "cls \<Rightarrow> bool" where
  "special_named c \<longleftrightarrow> (ckind c = K_Datum \<longrightarrow> cname c = ''Datum'') \<and> (ckind c = K_Func \<longrightarrow> cname c = ''Func'')
     \<and> (cname c \<in> {''And'', ''Or''} \<longrightarrow> ckind c = K_BoolOper \<and> cinfix c \<noteq> None)"

lemma special_named_classes: "\<forall>c \<in> set classes. special_named c"
proof -
  have "list_all special_named classes_1" "list_all special_named classes_2"
    "list_all special_named classes_3" "list_all special_named classes_4"
    "list_all special_named classes_5" "list_all special_named classes_6"
    "list_all special_named classes_7" "list_all special_named classes_8"
    by (simp_all add: classes_all class_defs special_named_def)
  then show ?thesis by (auto simp: classes_def list_all_iff)
qed

lemma class_named_kind:
  "class_named cl = Some c \<Longrightarrow> cl \<noteq> ''Datum'' \<Longrightarrow> cl \<noteq> ''Func''
     \<Longrightarrow> wf_cls c \<and> ckind c \<noteq> K_Datum \<and> ckind c \<noteq> K_Func"
proof -
  assume c: "class_named cl = Some c" and cl: "cl \<noteq> ''Datum''" "cl \<noteq> ''Func''"
  have "special_named c" "cname c = cl"
    using class_named_SomeD [OF c] special_named_classes by auto
  then show ?thesis
    using class_named_wf [OF c] cl unfolding special_named_def by blast
qed

lemma rql_methods_ok: "list_all entry_ok rql_methods"
  by (simp add: rql_methods_def rql_methods_1_def rql_methods_2_def rql_methods_3_def
      rql_methods_4_def entry_ok_def)

lemma other_methods_ok: "list_all entry_ok db_methods" "list_all entry_ok table_methods"
  by (simp_all add: db_methods_def table_methods_def entry_ok_def)

lemma top_functions_ok: "list_all entry_ok top_functions"
  by (simp add: top_functions_def top_functions_1_def top_functions_2_def top_functions_3_def
      entry_ok_def)

definition wf_args :: "pyval list \<Rightarrow> bool" where
  "wf_args args \<longleftrightarrow> (\<forall>v \<in> set args. wf_val v)"

definition wf_kwargs :: "(string \<times> pyval) list \<Rightarrow> bool" where
  "wf_kwargs kwargs \<longleftrightarrow> (\<forall>kv \<in> set kwargs. wf_val (snd kv))"

lemma wrap_pyval_wf: "wrap_pyval v s = (Inr w, t) \<Longrightarrow> wf_val v \<Longrightarrow> wf_val w"
  by (auto simp: wrap_pyval_def comp_simps dest: func_wrap_wf)

lemma expr_pyval_wf: "expr_pyval v s = (Inr w, t) \<Longrightarrow> wf_val v \<Longrightarrow> wf_val w"
  by (auto simp: expr_pyval_def comp_simps dest: expr_at_wf)

lemma seqs_wf_args:
  assumes "seqs (map g args) s = (Inr vs, t)" "wf_args args"
    and "\<And>v u w u'. g v u = (Inr w, u') \<Longrightarrow> wf_val v \<Longrightarrow> wf_val w"
  shows "wf_args vs"
  unfolding wf_args_def
  by (rule seqs_all [OF assms(1)]) (use assms(2,3) in \<open>auto simp: wf_args_def\<close>)

lemma wrap_kwargs_wf:
  assumes "wrap_kwargs kwargs s = (Inr kws, t)" "wf_kwargs kwargs"
  shows "wf_kwargs kws"
  unfolding wf_kwargs_def
proof (rule seqs_all [OF assms(1) [unfolded wrap_kwargs_def]])
  fix m u a u'
  assume "m \<in> set (map (\<lambda>kv. bind (wrap_pyval (snd kv)) (\<lambda>v. ret (fst kv, v))) kwargs)"
    and "m u = (Inr a, u')"
  then obtain kv where "kv \<in> set kwargs" "wrap_pyval (snd kv) u = (Inr (snd a), u')"
    by (auto simp: comp_simps)
  then show "wf_val (snd a)" using assms(2) wrap_pyval_wf by (auto simp: wf_kwargs_def)
qed

lemma wrap_last_wf:
  assumes "wrap_last args s = (Inr vs, t)" "wf_args args" "args \<noteq> []"
  shows "wf_args vs"
proof -
  obtain w where w: "wrap_pyval (last args) s = (Inr w, t)" "vs = butlast args @ [w]"
    using assms(1) by (auto simp: wrap_last_def comp_simps)
  have "wf_val (last args)" using assms(2,3) by (simp add: wf_args_def)
  then have "wf_val w" by (rule wrap_pyval_wf [OF w(1)])
  then show ?thesis using assms(2) w(2) by (auto simp: wf_args_def dest: in_set_butlastD)
qed

lemma wf_args_simps [simp]:
  "wf_args []" "wf_args (v # vs) \<longleftrightarrow> wf_val v \<and> wf_args vs"
  "wf_args (vs @ ws) \<longleftrightarrow> wf_args vs \<and> wf_args ws"
  by (auto simp: wf_args_def)

lemma wf_kwargs_simps [simp]:
  "wf_kwargs []" "wf_kwargs (kv # kws) \<longleftrightarrow> wf_val (snd kv) \<and> wf_kwargs kws"
  by (auto simp: wf_kwargs_def)

lemma wrap_args_wf:
  assumes "wrap_args w args kwargs s = (Inr (vs, kws), t)" "wf_args args" "wf_kwargs kwargs"
  shows "wf_args vs \<and> wf_kwargs kws"
proof (cases w)
  case W_All
  with assms show ?thesis
    by (auto simp: wrap_args_def comp_simps dest: seqs_wf_args wrap_pyval_wf)
next
  case W_Expr
  with assms show ?thesis
    by (auto simp: wrap_args_def comp_simps dest: seqs_wf_args expr_pyval_wf)
next
  case W_Order
  with assms obtain vs' where
    "seqs (map (\<lambda>v. if is_ordering v then ret v else wrap_pyval v) args) s = (Inr vs', t)"
    "vs = vs'" "kws = kwargs"
    by (auto simp: wrap_args_def comp_simps)
  moreover have "wf_args vs'"
    by (rule seqs_wf_args [OF calculation(1) assms(2)])
      (auto simp: comp_simps split: if_splits intro: wrap_pyval_wf)
  ultimately show ?thesis using assms by simp
next
  case W_Tail
  show ?thesis
  proof (cases "1 < length args")
    case True
    then obtain a as where args: "args = a # as" by (cases args) auto
    with W_Tail assms(1) True obtain vs' where
      "seqs (map wrap_pyval as) s = (Inr vs', t)" "vs = a # vs'" "kws = kwargs"
      by (auto simp: wrap_args_def comp_simps)
    moreover have "wf_args vs'"
      by (rule seqs_wf_args [OF calculation(1)]) (use assms(2) args wrap_pyval_wf in auto)
    ultimately show ?thesis using assms args by simp
  qed (use W_Tail assms in \<open>auto simp: wrap_args_def comp_simps\<close>)
next
  case W_Last
  with assms show ?thesis
    by (auto simp: wrap_args_def comp_simps split: if_splits dest: wrap_last_wf)
next
  case W_Fold
  with assms show ?thesis
    by (auto simp: wrap_args_def comp_simps split: if_splits dest: wrap_last_wf wrap_kwargs_wf)
next
  case W_Kw
  with assms show ?thesis by (auto simp: wrap_args_def comp_simps dest: wrap_kwargs_wf)
qed (use assms in \<open>auto simp: wrap_args_def comp_simps\<close>)

lemma invoke_wf:
  assumes run: "invoke m self args kwargs s = (Inr q, t)" and m: "entry_ok m"
    and wf: "wf_args self" "wf_args args" "wf_kwargs kwargs"
  shows "wf_query q"
proof -
  obtain name cl w kw where m': "m = (name, cl, w, kw)" by (cases m)
  with run obtain c vs kws u where c: "class_named cl = Some c"
    and a: "wrap_args w args kwargs s = (Inr (vs, kws), u)"
    and q: "construct c (self @ vs) kws u = (Inr q, t)"
    by (auto simp: invoke_def comp_simps split: if_splits option.splits)
  have "wf_args vs" "wf_kwargs kws" using wrap_args_wf [OF a wf(2,3)] by auto
  moreover have "wf_cls c" "ckind c \<noteq> K_Datum" "ckind c \<noteq> K_Func"
    using class_named_kind [OF c] m by (auto simp: entry_ok_def m')
  ultimately show ?thesis
    using wf(1) by (intro construct_wf [OF q]) (auto simp: wf_args_def wf_kwargs_def)
qed

lemma find_entry_ok:
  assumes "list_all entry_ok ms" "lookup_method ms name = Some m"
  shows "entry_ok m"
  using assms by (auto simp: lookup_method_def find_Some_iff list_all_iff)

lemma methods_of_ok: "list_all entry_ok (methods_of q)"
  using rql_methods_ok other_methods_ok by (simp add: methods_of_def)

lemma call_method_wf:
  assumes "call_method q name args kwargs s = (Inr r, t)"
    and "wf_query q" "wf_args args" "wf_kwargs kwargs"
  shows "wf_query r"
proof -
  obtain m where m: "lookup_method (methods_of q) name = Some m"
    and run: "invoke m [PQuery q] args kwargs s = (Inr r, t)"
    using assms(1) by (auto simp: call_method_def comp_simps split: option.splits)
  show ?thesis
    by (rule invoke_wf [OF run find_entry_ok [OF methods_of_ok m]]) (use assms in auto)
qed

lemma call_function_wf:
  assumes "call_function name args kwargs s = (Inr r, t)" "wf_args args" "wf_kwargs kwargs"
  shows "wf_query r"
proof -
  obtain m where m: "entry_ok m" and run: "invoke m [] args kwargs s = (Inr r, t)"
  proof (cases "name = ''http'' \<or> name = ''binary''")
    case True
    then show thesis
      using assms(1) by (auto simp: call_function_def comp_simps entry_ok_def split: if_splits intro!: that)
  next
    case False
    then obtain m where "lookup_method top_functions name = Some m" "invoke m [] args kwargs s = (Inr r, t)"
      using assms(1) by (auto simp: call_function_def comp_simps split: option.splits)
    then show thesis using find_entry_ok [OF top_functions_ok] that by blast
  qed
  show ?thesis by (rule invoke_wf [OF run m]) (use assms in auto)
qed

lemma operators_ok:
  "list_all (\<lambda>(name, cl, swap, infx). cl \<noteq> ''Datum'' \<and> cl \<noteq> ''Func'' \<and> (infx \<longrightarrow> cl = ''And'' \<or> cl = ''Or''))
     rql_operators"
  by (simp add: rql_operators_def)

lemma set_infix_wf:
  assumes "invoke (name, cl, W_None, False) [] args [] s = (Inr r, t)" "cl = ''And'' \<or> cl = ''Or''"
    and "wf_query r"
  shows "wf_query (set_infix r)"
proof -
  obtain c where c: "class_named cl = Some c" and run: "construct c args [] s = (Inr r, t)"
    using assms(1) by (auto simp: invoke_def wrap_args_def comp_simps split: option.splits)
  have "special_named c" "cname c = cl"
    using class_named_SomeD [OF c] special_named_classes by auto
  then have k: "ckind c = K_BoolOper" "cinfix c \<noteq> None"
    using assms(2) by (auto simp: special_named_def)
  with run obtain a qs opts where "r = Query c a qs opts"
    by (auto simp: construct_def base_init_def comp_simps)
  then show ?thesis using assms(3) k by (auto intro: exI [of _ True])
qed

lemma call_operator_wf:
  assumes "call_operator q name v s = (Inr r, t)" "wf_query q" "wf_val v"
  shows "wf_query r"
proof -
  obtain n cl swap infx where f: "find (\<lambda>m. fst m = name) rql_operators = Some (n, cl, swap, infx)"
    using assms(1) by (cases "find (\<lambda>m. fst m = name) rql_operators") (auto simp: call_operator_def comp_simps)
  then have "(n, cl, swap, infx) \<in> set rql_operators" by (auto simp: find_Some_iff)
  then have cl: "cl \<noteq> ''Datum''" "cl \<noteq> ''Func''" "infx \<Longrightarrow> cl = ''And'' \<or> cl = ''Or''"
    using operators_ok by (auto simp: list_all_iff)
  define args where "args = (if swap then [v, PQuery q] else [PQuery q, v])"
  obtain r' where run: "invoke (name, cl, W_None, False) [] args [] s = (Inr r', t)"
    and r: "r = (if infx then set_infix r' else r')"
    using assms(1) f by (auto simp: call_operator_def comp_simps args_def)
  have "wf_query r'"
    by (rule invoke_wf [OF run]) (use assms cl in \<open>auto simp: entry_ok_def args_def\<close>)
  then show ?thesis using set_infix_wf [OF run cl(3)] r by simp
qed

fun wf_index :: "index \<Rightarrow> bool" where
  "wf_index (IdxSlice start stop) \<longleftrightarrow> wf_val start \<and> wf_val stop"
| "wf_index (IdxAt i) \<longleftrightarrow> wf_val i"

lemma getitem_wf:
  assumes "getitem q ix s = (Inr r, t)" "wf_query q" "wf_index ix"
  shows "wf_query r"
proof -
  obtain name cl args kwargs where run: "invoke (name, cl, W_None, True) [PQuery q] args kwargs s = (Inr r, t)"
    and "entry_ok (name, cl, W_None, True)" "wf_args args" "wf_kwargs kwargs"
    using assms(1,3) by (cases ix) (auto simp: getitem_def entry_ok_def or_zero_def split: if_splits)
  then show ?thesis using assms(2) by (intro invoke_wf [OF run]) auto
qed

subsection \<open>The properties of the calls\<close>

text \<open>C20. Whatever method, operator, index or top-level function is applied to well-formed
  queries and values, the result is a well-formed query or an exception.\<close>

theorem calls_well_formed:
  assumes "wf_query q" "wf_args args" "wf_kwargs kwargs" "wf_val v" "wf_index ix"
  shows "(call_method q name args kwargs s = (Inr r, t) \<longrightarrow> wf_query r)
     \<and> (call_function name args kwargs s = (Inr r, t) \<longrightarrow> wf_query r)
     \<and> (call_operator q name v s = (Inr r, t) \<longrightarrow> wf_query r)
     \<and> (getitem q ix s = (Inr r, t) \<longrightarrow> wf_query r)"
proof (intro conjI impI)
  show "wf_query r" if "call_method q name args kwargs s = (Inr r, t)"
    using call_method_wf [OF that] assms by simp
  show "wf_query r" if "call_function name args kwargs s = (Inr r, t)"
    using call_function_wf [OF that] assms by simp
  show "wf_query r" if "call_operator q name v s = (Inr r, t)"
    using call_operator_wf [OF that] assms by simp
  show "wf_query r" if "getitem q ix s = (Inr r, t)"
    using getitem_wf [OF that] assms by simp
qed

theorem calls_well_formed_witness:
  "wf_query (Query (method_class ''Limit'' ''LIMIT'' ''limit'') NoAttr [str_datum ''t'', datum (AInt 2)] [])"
proof -
  have "call_method (str_datum ''t'') ''limit'' [PAtom (AInt 2)] [] 1 =
      (Inr (Query (method_class ''Limit'' ''LIMIT'' ''limit'') NoAttr [str_datum ''t'', datum (AInt 2)] []), 1)"
    by (simp add: call_method_def methods_of_def is_db_def str_datum_def class_defs lookup_method_def
        rql_methods_def rql_methods_1_def rql_methods_2_def rql_methods_3_def invoke_def
        class_named_def classes_all wrap_args_def construct_def base_init_def build_opts_def
        bind_def ret_def checked_def default_depth_def dict_of_def)
  then show ?thesis
    using calls_well_formed [of "str_datum ''t''" "[PAtom (AInt 2)]" "[]" "PAtom ANone"
        "IdxAt (PAtom ANone)" "''limit''" 1 _ 1]
    by (simp add: str_datum_def class_defs wf_cls_def needs_statement_def)
qed

text \<open>A comparison one of whose arguments was written with an infix \<open>&\<close> or \<open>|\<close> is refused
  with the text of the comparison; without such an argument the comparison is what the base
  constructor makes.\<close>

theorem infix_comparison_refused:
  assumes "ckind c = K_BiCompareOper" "base_init c NoAttr args kwargs s = (Inr q, t)"
    and "print_query q = Inr text" "cstmt c = Some st"
  shows "construct c args kwargs s =
     (if \<exists>v \<in> set args. has_infix v then (Inl (precedence_error st text), t) else (Inr q, t))"
proof -
  have "qcls q = c" using assms(2) by (auto simp: base_init_def comp_simps)
  then have rep: "infix_report q = precedence_error st text"
    using assms(3,4) by (simp add: infix_report_def get_statement_def)
  have "\<not> caught_by [PyAttributeError] (infix_report q)"
    unfolding rep by (simp add: precedence_error_def less_eq_exc_class_def issubclass_code)
  then have "infix_check q args = (if \<exists>v \<in> set args. has_infix v then Inl (precedence_error st text) else Inr ())"
    by (induction args) (auto simp: rep)
  then show ?thesis
    using assms(1) by (simp add: construct_def compare_init_def lift_res_def
        bind_def ret_def assms(2))
qed

definition or_row :: query where
  "or_row = Query (bool_class ''Or'' ''OR'' ''or_'' (Some ''|'')) (Infix True) [row, row] []"

theorem infix_comparison_refused_witness:
  "construct (oper_class K_BiCompareOper ''Lt'' ''LT'' ''<'') [PQuery or_row] [] 1 =
     (if \<exists>v \<in> set [PQuery or_row]. has_infix v
      then (Inl (precedence_error ''<'' ''((r.row | r.row))''), 1)
      else (Inr (Query (oper_class K_BiCompareOper ''Lt'' ''LT'' ''<'') NoAttr [or_row] []), 1))"
  by (rule infix_comparison_refused)
    (simp_all add: class_defs base_init_def build_opts_def bind_def ret_def checked_def
      default_depth_def dict_of_def or_row_def row_def print_query_def compose_def
      compose_bi_oper_def compose_bool_oper_def get_statement_def get_infix_def get_st_infix_def
      T_seq_def wrapped_args_def needs_wrap_def wrap_if_def chars_def)

definition c_Slice :: cls where
  "c_Slice = own_class K_Slice ''Slice'' (Some ''SLICE'') (Some ''slice'')"

lemma class_named_Slice: "class_named ''Slice'' = Some c_Slice"
  by (simp add: class_named_def classes_all class_defs c_Slice_def)

text \<open>Slicing by brackets: \<open>q[a:b]\<close> is a slice from \<open>a\<close> (or 0) to \<open>b\<close>; a bound \<open>b\<close> that
  Python takes as false, 0 as well as none at all, makes it the slice to the end, closed at
  -1.\<close>

theorem getitem_slice:
  assumes "to_query (or_zero start) s = (Inr a, u)" "to_query stop u = (Inr b, t)"
  shows "getitem q (IdxSlice start stop) s =
     (if truthy stop then (Inr (Query c_Slice (BracketOp True) [q, a, b] []), t)
      else (Inr (Query c_Slice (BracketOp True) [q, a, datum (AInt (-1))]
                   [(''right_bound'', datum (AStr ''closed''))]), u))"
proof -
  have self: "to_query (PQuery q) s = (Inr q, s)" for s
    by (simp add: checked_def default_depth_def ret_def)
  have atom: "to_query (PAtom d) s = (Inr (datum d), s)" for d s
    by (simp add: checked_def default_depth_def ret_def)
  show ?thesis
    by (auto simp: getitem_def invoke_def class_named_Slice wrap_args_def construct_def c_Slice_def
        class_defs bracket_init_def dict_del_def base_init_def build_opts_def dict_of_def
        bind_def ret_def self atom assms simp del: expr_at.simps)
qed

theorem getitem_slice_witness:
  "getitem row (IdxSlice (PAtom (AInt 2)) (PAtom (AInt 0))) 1 =
     (if truthy (PAtom (AInt 0))
      then (Inr (Query c_Slice (BracketOp True) [row, datum (AInt 2), datum (AInt 0)] []), 1)
      else (Inr (Query c_Slice (BracketOp True) [row, datum (AInt 2), datum (AInt (-1))]
                   [(''right_bound'', datum (AStr ''closed''))]), 1))"
  by (rule getitem_slice) (simp_all add: or_zero_def checked_def default_depth_def ret_def)

text \<open>So an empty slice \<open>q[0:0]\<close> is the whole sequence.\<close>

lemma empty_slice_is_everything:
  "getitem q (IdxSlice (PAtom (AInt 0)) (PAtom (AInt 0))) = getitem q (IdxSlice (PAtom ANone) (PAtom ANone))"
  by (simp add: getitem_def or_zero_def)

text \<open>\<open>r.db_config\<close> names a class that does not exist.\<close>

lemma db_config_missing: "call_function ''db_config'' args [] s = (Inl no_such_class, s)"
  by (simp add: call_function_def lookup_method_def top_functions_def top_functions_1_def
      invoke_def class_named_def classes_all class_defs raise_def)

end
