(* ===== verification/Wire.thy ===== *)
theory Wire
  imports Methods
begin

text \<open>
  Requests on the wire: the \<open>build\<close> methods of \<open>rethinkdb/ast.py\<close>, \<open>ReQLEncoder\<close>, and
  \<open>Query\<close> of \<open>rethinkdb/net.py\<close>.

  The numbers of the protocol come from a module that is generated when the driver is built
  (\<open>ql2_pb2\<close>); they are the record \<open>proto\<close> the definitions here take as an argument, one
  function from the name of an enumeration's member to its number per enumeration.
\<close>

record proto =
  pterm :: "string \<Rightarrow> int"
  pquery :: "string \<Rightarrow> int"
  presponse :: "string \<Rightarrow> int"
  perror :: "string \<Rightarrow> int"

subsection \<open>Terms as JSON\<close>

definition out_of_range_float :: error where
  "out_of_range_float = py_exc PyValueError ''Out of range float values are not JSON compliant''"

definition not_serializable :: "string \<Rightarrow> error" where
  "not_serializable ty =
     py_exc PyTypeError (''Object of type '' @ ty @ '' is not JSON serializable'')"

text \<open>What \<open>json\<close> makes of a value in a \<open>Datum\<close>; \<open>allow_nan\<close> is off.\<close>

fun atom_json :: "atom \<Rightarrow> error + json" where
  "atom_json ANone = Inr JNull"
| "atom_json (ABool b) = Inr (JBool b)"
| "atom_json (AInt i) = Inr (JInt i)"
| "atom_json (AFloat f) =
     (if f \<in> {''nan'', ''inf'', ''-inf''} then Inl out_of_range_float else Inr (JFloat f))"
| "atom_json (AStr s) = Inr (JStr s)"
| "atom_json (AObj ty r) = Inl (not_serializable ty)"

text \<open>\<open>build\<close> and the encoder's recursion into what it returns.\<close>

fun to_json :: "proto \<Rightarrow> query \<Rightarrow> error + json" where
  "to_json p (Query c a qs opts) =
     (let args = seqr (map (to_json p) qs);
          optargs = seqr (map (\<lambda>kv. rmap (Pair (fst kv)) (to_json p (snd kv))) opts);
          base = (case cterm c of
                    None \<Rightarrow> Inl attribute_error
                  | Some t \<Rightarrow>
                      rbind args (\<lambda>js.
                        if opts = [] then Inr (JArr [JInt (pterm p t), JArr js])
                        else rmap (\<lambda>kvs. JArr [JInt (pterm p t), JArr js, JObj kvs]) optargs))
      in case ckind c of
           K_Datum \<Rightarrow> rbind (get_data a) atom_json
         | K_MakeObj \<Rightarrow> rmap JObj optargs
         | K_Binary \<Rightarrow>
             if qs = [] then
               (case a of
                  Base64 b \<Rightarrow> Inr (JObj [(''$reql_type$'', JStr ''BINARY''), (''data'', JStr b)])
                | _ \<Rightarrow> Inl attribute_error)
             else base
         | _ \<Rightarrow> base)"

subsection \<open>Queries\<close>

text \<open>\<open>Query\<close>: the type's number, the token, the term and the global optional arguments, which
  \<open>__init__\<close> has taken \<open>json_encoder\<close> and \<open>json_decoder\<close> out of.\<close>

record wire_query =
  wtype :: int
  wtoken :: int
  wterm :: "query option"
  wopts :: "(string \<times> pyval) list option"
  wencoder :: "pyval option"
  wdecoder :: "pyval option"

definition make_query ::
    "int \<Rightarrow> int \<Rightarrow> query option \<Rightarrow> (string \<times> pyval) list option \<Rightarrow> wire_query" where
  "make_query ty token term opts =
     (let d = (case opts of None \<Rightarrow> [] | Some kvs \<Rightarrow> kvs)
      in \<lparr>wtype = ty, wtoken = token, wterm = term,
          wopts = map_option (\<lambda>kvs. dict_del (dict_del kvs ''json_encoder'') ''json_decoder'') opts,
          wencoder = map_of d ''json_encoder'', wdecoder = map_of d ''json_decoder''\<rparr>)"

definition struct_error :: error where
  "struct_error = py_exc PyStructError ''argument out of range''"

text \<open>\<open>struct.pack("<QL", token, n)\<close>.\<close>

definition pack_header :: "int \<Rightarrow> nat \<Rightarrow> error + byte list" where
  "pack_header token n =
     (if 0 \<le> token \<and> token < 2 ^ 64 \<and> n < 2 ^ 32
      then Inr (le_bytes 8 (nat token) @ le_bytes 4 n) else Inl struct_error)"

definition message_json :: "proto \<Rightarrow> wire_query \<Rightarrow> query option \<Rightarrow> error + json" where
  "message_json p q opts =
     rmap (\<lambda>js. JArr (JInt (wtype q) # js))
       (seqr ((case wterm q of None \<Rightarrow> [] | Some t \<Rightarrow> [to_json p t])
              @ (case opts of None \<Rightarrow> [] | Some t \<Rightarrow> [to_json p t])))"

definition frame_bytes :: "proto \<Rightarrow> wire_query \<Rightarrow> query option \<Rightarrow> error + byte list" where
  "frame_bytes p q opts =
     rbind (message_json p q opts) (\<lambda>j.
       let query_str = utf8_encode (json_text j)
       in rmap (\<lambda>header. header @ query_str) (pack_header (wtoken q) (length query_str)))"

text \<open>\<open>serialize\<close>, with the encoder the connection uses unless it is given one; the global
  optional arguments become a term here.\<close>

definition serialize :: "proto \<Rightarrow> wire_query \<Rightarrow> byte list build" where
  "serialize p q =
     (case wopts q of
        None \<Rightarrow> lift_res (frame_bytes p q None)
      | Some kvs \<Rightarrow>
          bind (to_query (PDict (map (\<lambda>kv. (KStr (fst kv), snd kv)) kvs)))
            (\<lambda>t. lift_res (frame_bytes p q (Some t))))"

subsection \<open>What a server reads\<close>

definition wf_atom_value :: "atom \<Rightarrow> bool" where
  "wf_atom_value a \<longleftrightarrow> (\<forall>f. a = AFloat f \<longrightarrow> f \<in> {''nan'', ''inf'', ''-inf''} \<or> valid_float f)"

text \<open>The floats of a query are literals as Python's \<open>repr\<close> writes them.\<close>

fun float_ok :: "query \<Rightarrow> bool" where
  "float_ok (Query c a qs opts) \<longleftrightarrow> (\<forall>d. a = Data d \<longrightarrow> wf_atom_value d)
     \<and> list_all (\<lambda>b. b) (map float_ok qs) \<and> list_all (\<lambda>b. b) (map (\<lambda>kv. float_ok (snd kv)) opts)"

lemma float_ok_Query:
  "float_ok (Query c a qs opts) \<longleftrightarrow> (\<forall>d. a = Data d \<longrightarrow> wf_atom_value d)
     \<and> (\<forall>q \<in> set qs. float_ok q) \<and> (\<forall>kv \<in> set opts. float_ok (snd kv))"
  by (simp add: list_all_iff)

declare float_ok.simps [simp del]

lemma atom_json_wf: "atom_json d = Inr j \<Longrightarrow> wf_atom_value d \<Longrightarrow> wf_json j"
  by (cases d) (auto simp: wf_atom_value_def split: if_splits)

lemma seqr_pairs_keys:
  "seqr (map (\<lambda>kv. rmap (Pair (fst kv)) (g (snd kv))) opts) = Inr kvs \<Longrightarrow> map fst kvs = map fst opts"
  by (induction opts arbitrary: kvs) (auto simp: res_simps)

lemma seqr_pairs_member:
  "seqr (map (\<lambda>kv. rmap (Pair (fst kv)) (g (snd kv))) opts) = Inr kvs \<Longrightarrow> x \<in> set kvs
     \<Longrightarrow> \<exists>kv \<in> set opts. g (snd kv) = Inr (snd x)"
  by (induction opts arbitrary: kvs) (auto simp: res_simps)

lemma seqr_member:
  "seqr (map g qs) = Inr js \<Longrightarrow> j \<in> set js \<Longrightarrow> \<exists>q \<in> set qs. g q = Inr j"
  by (induction qs arbitrary: js) (auto simp: res_simps)

lemma to_json_wf:
  "wf_query q \<Longrightarrow> float_ok q \<Longrightarrow> to_json p q = Inr j \<Longrightarrow> wf_json j"
proof (induction q arbitrary: j rule: query_induct)
  case (Query c a qs opts)
  have args: "wf_json j" if "seqr (map (to_json p) qs) = Inr js" "j \<in> set js" for js j
    using seqr_member [OF that] Query.IH(1) Query.prems(1,2) by (auto simp: float_ok_Query)
  have opt: "wf_json (JObj kvs)"
    if r: "seqr (map (\<lambda>kv. rmap (Pair (fst kv)) (to_json p (snd kv))) opts) = Inr kvs" for kvs
  proof -
    have "wf_json (snd x)" if x: "x \<in> set kvs" for x
    proof -
      obtain kv where kv: "kv \<in> set opts" "to_json p (snd kv) = Inr (snd x)"
        using seqr_pairs_member [OF r x] by blast
      then have "(fst kv, snd kv) \<in> set opts" "wf_query (snd kv)" "float_ok (snd kv)"
        using Query.prems(1,2) by (auto simp: float_ok_Query)
      then show ?thesis using Query.IH(2) kv(2) by blast
    qed
    then show ?thesis using seqr_pairs_keys [OF r] Query.prems(1) by simp
  qed
  define base where "base = (case cterm c of None \<Rightarrow> Inl attribute_error
      | Some t \<Rightarrow> rbind (seqr (map (to_json p) qs)) (\<lambda>js.
          if opts = [] then Inr (JArr [JInt (pterm p t), JArr js])
          else rmap (\<lambda>kvs. JArr [JInt (pterm p t), JArr js, JObj kvs])
            (seqr (map (\<lambda>kv. rmap (Pair (fst kv)) (to_json p (snd kv))) opts))))"
  have base: "wf_json j" if "base = Inr j"
    using that args opt unfolding base_def
    by (auto simp: res_simps split: option.splits if_splits)
  show ?case
  proof (cases "ckind c")
    case K_Datum
    then show ?thesis using Query.prems
      by (auto simp: Let_def get_data_def res_simps float_ok_Query intro: atom_json_wf)
  next
    case K_MakeObj
    then show ?thesis using Query.prems(3) opt by (auto simp: Let_def res_simps)
  next
    case K_Binary
    then show ?thesis using Query.prems(1,3) base
      by (auto simp: Let_def base_def split: if_splits attr.splits)
  qed (use Query.prems(3) base in \<open>simp_all add: Let_def base_def\<close>)
qed

lemma message_json_wf:
  assumes "message_json p q opts = Inr j"
    and "\<And>t. wterm q = Some t \<Longrightarrow> wf_query t \<and> float_ok t"
    and "\<And>t. opts = Some t \<Longrightarrow> wf_query t \<and> float_ok t"
  shows "wf_json j"
proof -
  obtain js where js: "seqr ((case wterm q of None \<Rightarrow> [] | Some t \<Rightarrow> [to_json p t])
        @ (case opts of None \<Rightarrow> [] | Some t \<Rightarrow> [to_json p t])) = Inr js"
    and j: "j = JArr (JInt (wtype q) # js)"
    using assms(1) by (auto simp: message_json_def res_simps)
  have "wf_json j" if "j \<in> set js" for j
    using js that assms(2,3) to_json_wf
    by (auto simp: res_simps split: option.splits)
  then show ?thesis by (simp add: j)
qed

text \<open>Splitting a frame as a server does: eight bytes of token, four of length, the text.\<close>

definition read_frame :: "byte list \<Rightarrow> (nat \<times> byte list) option" where
  "read_frame bs =
     (if length bs < 12 \<or> length (drop 12 bs) \<noteq> le_val (take 4 (drop 8 bs)) then None
      else Some (le_val (take 8 bs), drop 12 bs))"

lemma pack_header_read:
  assumes "pack_header token (length body) = Inr header"
  shows "read_frame (header @ body) = Some (nat token, body)"
proof -
  have h: "header = le_bytes 8 (nat token) @ le_bytes 4 (length body)"
    and b: "0 \<le> token" "token < 2 ^ 64" "length body < 2 ^ 32"
    using assms by (auto simp: pack_header_def split: if_splits)
  have "nat token < 256 ^ 8" using b(1,2) by (simp add: nat_less_iff)
  then have "le_val (le_bytes 8 (nat token)) = nat token"
    by (simp add: le_val_le_bytes)
  moreover have "le_val (le_bytes 4 (length body)) = length body"
    using b(3) by (simp add: le_val_le_bytes)
  ultimately show ?thesis
    by (simp add: read_frame_def h)
qed

lemma frame_bytes_read:
  assumes "frame_bytes p q opts = Inr bs"
    and "\<And>t. wterm q = Some t \<Longrightarrow> wf_query t \<and> float_ok t"
    and "\<And>t. opts = Some t \<Longrightarrow> wf_query t \<and> float_ok t"
  shows "\<exists>body text j. read_frame bs = Some (nat (wtoken q), body) \<and> utf8_decode body = Inr text
     \<and> loads text = Inr j \<and> message_json p q opts = Inr j"
proof -
  obtain j header where j: "message_json p q opts = Inr j"
    and h: "pack_header (wtoken q) (length (utf8_encode (json_text j))) = Inr header"
    and bs: "bs = header @ utf8_encode (json_text j)"
    using assms(1) by (auto simp: frame_bytes_def res_simps Let_def)
  have "loads (json_text j) = Inr j"
    by (rule loads_dumps [OF message_json_wf [OF j assms(2,3)]])
  then show ?thesis
    using pack_header_read [OF h] j bs utf8.dec_enc by blast
qed

fun encodable :: "query \<Rightarrow> bool" where
  "encodable (Query c a qs opts) \<longleftrightarrow> (\<forall>d. a = Data d \<longrightarrow> is_ok (atom_json d))
     \<and> list_all (\<lambda>b. b) (map encodable qs) \<and> list_all (\<lambda>b. b) (map (\<lambda>kv. encodable (snd kv)) opts)"

lemma encodable_Query:
  "encodable (Query c a qs opts) \<longleftrightarrow> (\<forall>d. a = Data d \<longrightarrow> is_ok (atom_json d))
     \<and> (\<forall>q \<in> set qs. encodable q) \<and> (\<forall>kv \<in> set opts. encodable (snd kv))"
  by (simp add: list_all_iff)

declare encodable.simps [simp del]

lemma to_json_ok: "wf_query q \<Longrightarrow> encodable q \<Longrightarrow> is_ok (to_json p q)"
proof (induction q rule: query_induct)
  case (Query c a qs opts)
  have args: "is_ok (seqr (map (to_json p) qs))"
    using Query by (auto simp: encodable_Query)
  have "is_ok (to_json p (snd kv))" if "kv \<in> set opts" for kv
  proof -
    have "(fst kv, snd kv) \<in> set opts" "wf_query (snd kv)" "encodable (snd kv)"
      using Query.prems that by (auto simp: encodable_Query)
    then show ?thesis by (rule Query.IH(2))
  qed
  then have opt: "is_ok (seqr (map (\<lambda>kv. rmap (Pair (fst kv)) (to_json p (snd kv))) opts))"
    by auto
  have tm: "ckind c \<noteq> K_Datum \<Longrightarrow> cterm c \<noteq> None"
    using Query.prems(1) by (auto simp: wf_cls_def)
  show ?case
  proof (cases "ckind c")
    case K_Datum
    then show ?thesis using Query.prems by (auto simp: get_data_def encodable_Query)
  next
    case K_MakeObj
    then show ?thesis using opt by (simp add: Let_def)
  next
    case K_Binary
    then show ?thesis using Query.prems(1) args opt tm
      by (auto simp: Let_def res_simps is_ok_iff split: if_splits)
  qed (use args opt tm in \<open>auto simp: Let_def res_simps is_ok_iff\<close>)
qed

subsection \<open>The properties of requests\<close>

text \<open>C1. What is sent is what is meant: when \<open>serialize\<close> returns, the bytes are one frame
  with the query's token and exact length, whose text a JSON reader turns into the message
  the query denotes: its type, its term, and the term of its global optional arguments when it
  has any.\<close>

theorem request_roundtrip:
  assumes "serialize p q s = (Inr bs, t)"
    and "\<And>term. wterm q = Some term \<Longrightarrow> wf_query term \<and> float_ok term"
    and "\<And>kvs. wopts q = Some kvs \<Longrightarrow> \<forall>kv \<in> set kvs. wf_val (snd kv)"
    and "\<And>kvs o1 u. wopts q = Some kvs
       \<Longrightarrow> to_query (PDict (map (\<lambda>kv. (KStr (fst kv), snd kv)) kvs)) s = (Inr o1, u) \<Longrightarrow> float_ok o1"
  shows "\<exists>body text j opts. read_frame bs = Some (nat (wtoken q), body)
     \<and> utf8_decode body = Inr text \<and> loads text = Inr j \<and> message_json p q opts = Inr j
     \<and> (case wopts q of
          None \<Rightarrow> opts = None \<and> t = s
        | Some kvs \<Rightarrow> \<exists>o1. to_query (PDict (map (\<lambda>kv. (KStr (fst kv), snd kv)) kvs)) s = (Inr o1, t)
            \<and> opts = Some o1)"
proof (cases "wopts q")
  case None
  then have "frame_bytes p q None = Inr bs" "t = s"
    using assms(1) by (simp_all add: serialize_def lift_res_eq)
  then show ?thesis using frame_bytes_read [of p q None bs] assms(2) None by fastforce
next
  case (Some kvs)
  then obtain o1 where o1: "to_query (PDict (map (\<lambda>kv. (KStr (fst kv), snd kv)) kvs)) s = (Inr o1, t)"
    and f: "frame_bytes p q (Some o1) = Inr bs"
    using assms(1) by (auto simp: serialize_def comp_simps simp del: expr_at.simps)
  have "wf_val (PDict (map (\<lambda>kv. (KStr (fst kv), snd kv)) kvs))"
    using assms(3) [OF Some] by (intro wf_dict) auto
  then have "wf_query o1" using o1 by (rule expr_at_wf)
  moreover have "float_ok o1" using assms(4) [OF Some o1] .
  ultimately have "\<exists>body text j. read_frame bs = Some (nat (wtoken q), body)
     \<and> utf8_decode body = Inr text \<and> loads text = Inr j \<and> message_json p q (Some o1) = Inr j"
    using frame_bytes_read [OF f] assms(2) by blast
  then show ?thesis using Some o1 by (auto simp del: expr_at.simps)
qed

definition proto_example :: proto where
  "proto_example = \<lparr>pterm = (\<lambda>s. if s = ''TABLE'' then 15 else 16), pquery = (\<lambda>_. 1),
     presponse = (\<lambda>_. 1), perror = (\<lambda>_. 1)\<rparr>"

theorem request_roundtrip_witness:
  "\<exists>body text j opts.
     read_frame (le_bytes 8 7 @ le_bytes 4 (length ''[1,2]'') @ latin1 ''[1,2]'') = Some (nat 7, body)
     \<and> utf8_decode body = Inr text \<and> loads text = Inr j
     \<and> message_json proto_example (make_query 1 7 (Some (datum (AInt 2))) None) opts = Inr j
     \<and> opts = None"
proof -
  have "utf8_encode ''[1,2]'' = latin1 ''[1,2]''"
    by (rule utf8_ascii) (simp add: is_ascii_def code_point_def)
  moreover have "json_text (JArr [JInt 1, JInt 2]) = ''[1,2]''"
    by (simp add: show_int_def show_nat.simps digit_char_def chr_def char_of_def bit_0 bit_Suc)
  ultimately have "serialize proto_example (make_query 1 7 (Some (datum (AInt 2))) None) 1
      = (Inr (le_bytes 8 7 @ le_bytes 4 (length ''[1,2]'') @ latin1 ''[1,2]''), 1)"
    by (simp del: json_text.simps add: serialize_def make_query_def lift_res_def frame_bytes_def
        message_json_def datum_def get_data_def Let_def pack_header_def)
  from request_roundtrip [OF this] show ?thesis
    by (simp add: make_query_def datum_def float_ok_Query wf_atom_value_def)
qed

text \<open>Encoding a well-formed query fails for no other reason than a value in it that JSON
  cannot hold: a float that is not finite, or an object of a foreign type.\<close>

theorem encoding_total: "wf_query q \<Longrightarrow> encodable q \<Longrightarrow> \<exists>j. to_json p q = Inr j"
  using to_json_ok [of q p] by (simp add: is_ok_iff)

theorem encoding_total_witness: "\<exists>j. to_json proto_example get_query = Inr j"
  by (rule encoding_total)
    (simp_all add: get_query_def str_datum_def encodable_Query class_defs wf_cls_def needs_statement_def)

end
