(* ===== verification/Response.thy ===== *)
theory Response
  imports Wire
begin

text \<open>
  What the server sends back: \<open>ReQLDecoder\<close>, \<open>RqlTzinfo\<close>, \<open>RqlBinary\<close> and
  \<open>recursively_make_hashable\<close> of \<open>rethinkdb/ast.py\<close>, and \<open>Response\<close> of \<open>rethinkdb/net.py\<close>.

  A decoded value is an \<open>rval\<close>.  \<open>RTime e tz\<close> is the time \<open>datetime\<close> makes of the epoch \<open>e\<close>,
  with an offset in minutes or none; \<open>RGroups kvs\<close> is the dictionary \<open>dict(kvs)\<close>, and a
  frozenset is the list it was made of.  The format options are plain values.
\<close>

subsection \<open>Values\<close>

datatype rval =
    RNull | RBool bool | RInt int | RFloat string | RStr string
  | RList "rval list" | RDict "(string \<times> rval) list"
  | RTime rval "int option" | RBinary "byte list" | RGroups "(rval \<times> rval) list"
  | RTuple "rval list" | RFrozen "(rval \<times> rval) list"

text \<open>\<open>RqlBinary.__repr__\<close>.\<close>

definition hex_byte :: "byte \<Rightarrow> string" where
  "hex_byte b = [hex_digit (unat b div 16), hex_digit (unat b mod 16)]"

definition repr_binary :: "byte list \<Rightarrow> string" where
  "repr_binary bs =
     (let text = join '' '' (map hex_byte (take 6 bs));
          excerpt = (if 0 < length bs
                     then '', '' @ [CHR 0x27] @ text @ (if 6 < length bs then ''...'' else []) @ [CHR 0x27]
                     else [])
      in ''<binary, '' @ show_nat (length bs) @ '' byte'' @ (if length bs \<noteq> 1 then ''s'' else [])
         @ excerpt @ ''>'')"

text \<open>\<open>repr\<close> of a decoded value; of a time only that it is one.\<close>

fun repr_rval :: "rval \<Rightarrow> string" where
  "repr_rval RNull = ''None''"
| "repr_rval (RBool b) = (if b then ''True'' else ''False'')"
| "repr_rval (RInt i) = show_int i"
| "repr_rval (RFloat f) = f"
| "repr_rval (RStr s) = repr_str s"
| "repr_rval (RList vs) = ''['' @ join '', '' (map repr_rval vs) @ '']''"
| "repr_rval (RDict kvs) =
     ''{'' @ join '', '' (map (\<lambda>kv. repr_str (fst kv) @ '': '' @ repr_rval (snd kv)) kvs) @ ''}''"
| "repr_rval (RTime e tz) = ''datetime.datetime(...)''"
| "repr_rval (RBinary bs) = repr_binary bs"
| "repr_rval (RGroups kvs) =
     ''{'' @ join '', '' (map (\<lambda>kv. repr_rval (fst kv) @ '': '' @ repr_rval (snd kv)) kvs) @ ''}''"
| "repr_rval (RTuple vs) =
     ''('' @ join '', '' (map repr_rval vs) @ (if length vs = 1 then '','' else []) @ '')''"
| "repr_rval (RFrozen kvs) =
     ''frozenset({'' @ join '', '' (map (\<lambda>kv. ''('' @ repr_rval (fst kv) @ '', '' @ repr_rval (snd kv) @ '')'') kvs)
      @ ''})''"

definition str_rval :: "rval \<Rightarrow> string" where
  "str_rval v = (case v of RStr s \<Rightarrow> s | _ \<Rightarrow> repr_rval v)"

definition str_atom :: "atom \<Rightarrow> string" where
  "str_atom a = (case a of AStr s \<Rightarrow> s | _ \<Rightarrow> py_repr a)"

text \<open>\<open>json.dumps\<close> with its defaults, for the messages of the decoder: blanks after the
  separators and only ASCII.\<close>

definition ascii_escape :: "char \<Rightarrow> string" where
  "ascii_escape c =
     (if 127 \<le> code_point c then
        (if code_point c = 127 then [c]
         else [CHR 0x5C, CHR ''u'', CHR ''0'', CHR ''0'',
               hex_digit (code_point c div 16), hex_digit (code_point c mod 16)])
      else escape_char c)"

definition quote_ascii :: "string \<Rightarrow> string" where
  "quote_ascii s = CHR 0x22 # concat (map ascii_escape s) @ [CHR 0x22]"

fun dumps :: "rval \<Rightarrow> error + string" where
  "dumps RNull = Inr ''null''"
| "dumps (RBool b) = Inr (if b then ''true'' else ''false'')"
| "dumps (RInt i) = Inr (show_int i)"
| "dumps (RFloat f) = Inr f"
| "dumps (RStr s) = Inr (quote_ascii s)"
| "dumps (RList vs) = rmap (\<lambda>ts. ''['' @ join '', '' ts @ '']'') (seqr (map dumps vs))"
| "dumps (RTuple vs) = rmap (\<lambda>ts. ''['' @ join '', '' ts @ '']'') (seqr (map dumps vs))"
| "dumps (RDict kvs) =
     rmap (\<lambda>ts. ''{'' @ join '', '' ts @ ''}'')
       (seqr (map (\<lambda>kv. rmap (\<lambda>t. quote_ascii (fst kv) @ '': '' @ t) (dumps (snd kv))) kvs))"
| "dumps (RTime e tz) = Inl (not_serializable ''datetime'')"
| "dumps (RBinary bs) = Inl (not_serializable ''RqlBinary'')"
| "dumps (RGroups kvs) =
     (if kvs = [] then Inr ''{}'' else Inl (not_serializable ''dict''))"
| "dumps (RFrozen kvs) = Inl (not_serializable ''frozenset'')"

subsection \<open>Hashable keys\<close>

fun make_hashable :: "rval \<Rightarrow> rval" where
  "make_hashable (RList vs) = RTuple (map make_hashable vs)"
| "make_hashable (RDict kvs) = RFrozen (map (\<lambda>kv. (RStr (fst kv), make_hashable (snd kv))) kvs)"
| "make_hashable (RGroups kvs) = RFrozen (map (\<lambda>kv. (fst kv, make_hashable (snd kv))) kvs)"
| "make_hashable v = v"

text \<open>What Python's \<open>hash\<close> accepts.\<close>

fun hashable :: "rval \<Rightarrow> bool" where
  "hashable (RList vs) = False"
| "hashable (RDict kvs) = False"
| "hashable (RGroups kvs) = False"
| "hashable (RTuple vs) = list_all (\<lambda>b. b) (map hashable vs)"
| "hashable (RFrozen kvs) = list_all (\<lambda>b. b) (map (\<lambda>kv. hashable (fst kv) \<and> hashable (snd kv)) kvs)"
| "hashable _ = True"

subsection \<open>Time zones\<close>

definition value_error :: "string \<Rightarrow> error" where
  "value_error m = py_exc PyValueError m"

definition type_error :: "string \<Rightarrow> error" where
  "type_error m = py_exc PyTypeError m"

definition is_space :: "char \<Rightarrow> bool" where
  "is_space c \<longleftrightarrow> c = CHR '' '' \<or> 9 \<le> code_point c \<and> code_point c \<le> 13
     \<or> 28 \<le> code_point c \<and> code_point c \<le> 31 \<or> code_point c = 133 \<or> code_point c = 160"

definition strip :: "string \<Rightarrow> string" where
  "strip s = rev (dropWhile is_space (rev (dropWhile is_space s)))"

definition digit_groups :: "string \<Rightarrow> error + nat" where
  "digit_groups s =
     (let gs = split_on (CHR ''_'') s
      in if \<forall>g \<in> set gs. g \<noteq> [] \<and> (\<forall>c \<in> set g. is_digit c) then Inr (read_digits 0 (concat gs))
         else Inl (value_error ''invalid literal for int() with base 10''))"

text \<open>\<open>int(s)\<close>.\<close>

definition py_int :: "string \<Rightarrow> error + int" where
  "py_int s =
     (case strip s of
        c # t \<Rightarrow> if c = CHR ''-'' then rmap (\<lambda>n. - int n) (digit_groups t)
                 else if c = CHR ''+'' then rmap int (digit_groups t)
                 else rmap int (digit_groups (c # t))
      | [] \<Rightarrow> Inl (value_error ''invalid literal for int() with base 10''))"

text \<open>\<open>RqlTzinfo(offsetstr)\<close>, as its \<open>utcoffset\<close> in minutes.\<close>

definition tzinfo :: "string \<Rightarrow> error + int" where
  "tzinfo offsetstr =
     (case split_on (CHR '':'') offsetstr of
        [h, m] \<Rightarrow>
          rbind (py_int h) (\<lambda>hours. rbind (py_int m) (\<lambda>minutes.
            let offset = 60 * hours + minutes
            in if abs (offset div 1440) > 999999999
               then Inl (py_exc PyOverflowError ''days; must have magnitude <= 999999999'')
               else Inr offset))
      | _ \<Rightarrow> Inl (value_error ''wrong number of values to unpack''))"

subsection \<open>\<open>ReQLDecoder\<close>\<close>

definition missing_field :: "string \<Rightarrow> rval \<Rightarrow> string \<Rightarrow> error + 'a" where
  "missing_field before obj after =
     rbind (dumps obj) (\<lambda>t. Inl (driver_error (before @ t @ after)))"

definition is_number :: "rval \<Rightarrow> bool" where
  "is_number v = (case v of RInt _ \<Rightarrow> True | RFloat _ \<Rightarrow> True | RBool _ \<Rightarrow> True | _ \<Rightarrow> False)"

definition convert_time :: "(string \<times> rval) list \<Rightarrow> error + rval" where
  "convert_time obj =
     (case map_of obj ''epoch_time'' of
        None \<Rightarrow> missing_field ''pseudo-type TIME object '' (RDict obj)
                 ('' does not have expected field '' @ [CHR 0x22] @ ''epoch_time'' @ [CHR 0x22] @ ''.'')
      | Some e \<Rightarrow>
          (case map_of obj ''timezone'' of
             Some (RStr tz) \<Rightarrow>
               rbind (tzinfo tz) (\<lambda>offset.
                 if \<not> is_number e then Inl (type_error ''an integer is required'')
                 else if abs offset < 1440 then Inr (RTime e (Some offset))
                 else Inl (value_error ''offset must be a timedelta strictly between -24 and 24 hours''))
           | Some _ \<Rightarrow> Inl (py_exc PyAttributeError ''object has no attribute split'')
           | None \<Rightarrow> if is_number e then Inr (RTime e None)
                     else Inl (type_error ''an integer is required'')))"

text \<open>What iterating over a value yields.\<close>

definition items_of :: "rval \<Rightarrow> error + rval list" where
  "items_of v =
     (case v of
        RList vs \<Rightarrow> Inr vs
      | RTuple vs \<Rightarrow> Inr vs
      | RStr s \<Rightarrow> Inr (map (\<lambda>c. RStr [c]) s)
      | RDict kvs \<Rightarrow> Inr (map (\<lambda>kv. RStr (fst kv)) kvs)
      | RGroups kvs \<Rightarrow> Inr (map fst kvs)
      | RFrozen kvs \<Rightarrow> Inr (map (\<lambda>kv. RTuple [fst kv, snd kv]) kvs)
      | RBinary bs \<Rightarrow> Inr (map (\<lambda>b. RInt (int (unat b))) bs)
      | _ \<Rightarrow> Inl (type_error ''object is not iterable''))"

definition grouped_pair :: "rval \<Rightarrow> error + (rval \<times> rval)" where
  "grouped_pair kv =
     rbind (items_of kv) (\<lambda>xs.
       case xs of
         [k, v] \<Rightarrow> Inr (make_hashable k, v)
       | _ \<Rightarrow> Inl (value_error ''wrong number of values to unpack''))"

definition convert_grouped_data :: "(string \<times> rval) list \<Rightarrow> error + rval" where
  "convert_grouped_data obj =
     (case map_of obj ''data'' of
        None \<Rightarrow> missing_field ''pseudo-type GROUPED_DATA object '' (RDict obj)
                 ('' does not have the expected field '' @ [CHR 0x22] @ ''data'' @ [CHR 0x22] @ ''.'')
      | Some v \<Rightarrow> rbind (items_of v) (\<lambda>vs. rmap (\<lambda>kvs. RGroups (dict_of kvs)) (seqr (map grouped_pair vs))))"

definition convert_binary :: "(string \<times> rval) list \<Rightarrow> error + rval" where
  "convert_binary obj =
     (case map_of obj ''data'' of
        None \<Rightarrow> missing_field ''pseudo-type BINARY object '' (RDict obj)
                 ('' does not have the expected field '' @ [CHR 0x22] @ ''data'' @ [CHR 0x22] @ ''.'')
      | Some (RStr s) \<Rightarrow>
          (case b64decode (utf8_encode s) of
             Inl _ \<Rightarrow> Inl (value_error ''Incorrect padding'')
           | Inr bs \<Rightarrow> Inr (RBinary bs))
      | Some _ \<Rightarrow> Inl (py_exc PyAttributeError ''object has no attribute encode''))"

type_synonym formats = "(string \<times> atom) list"

datatype format = Native | Raw | Unknown atom

definition format_of :: "formats \<Rightarrow> string \<Rightarrow> format" where
  "format_of opts k =
     (case map_of opts k of
        None \<Rightarrow> Native
      | Some a \<Rightarrow> if a = ANone \<or> a = AStr ''native'' then Native
                  else if a = AStr ''raw'' then Raw else Unknown a)"

definition unknown_format :: "string \<Rightarrow> atom \<Rightarrow> error" where
  "unknown_format k a =
     driver_error (''Unknown '' @ k @ '' run option '' @ [CHR 0x22] @ str_atom a @ [CHR 0x22] @ ''.'')"

definition by_format ::
    "formats \<Rightarrow> string \<Rightarrow> (error + rval) \<Rightarrow> (string \<times> rval) list \<Rightarrow> error + rval" where
  "by_format opts k converted obj =
     (case format_of opts k of
        Native \<Rightarrow> converted
      | Raw \<Rightarrow> Inr (RDict obj)
      | Unknown a \<Rightarrow> Inl (unknown_format k a))"

definition convert_pseudotype :: "formats \<Rightarrow> (string \<times> rval) list \<Rightarrow> error + rval" where
  "convert_pseudotype opts obj =
     (case map_of obj ''$reql_type$'' of
        None \<Rightarrow> Inr (RDict obj)
      | Some RNull \<Rightarrow> Inr (RDict obj)
      | Some v \<Rightarrow>
          if v = RStr ''TIME'' then by_format opts ''time_format'' (convert_time obj) obj
          else if v = RStr ''GROUPED_DATA'' then
            by_format opts ''group_format'' (convert_grouped_data obj) obj
          else if v = RStr ''GEOMETRY'' then Inr (RDict obj)
          else if v = RStr ''BINARY'' then by_format opts ''binary_format'' (convert_binary obj) obj
          else Inl (driver_error (''Unknown pseudo-type '' @ str_rval v)))"

text \<open>The decoder with this object hook: inner objects first, left to right.\<close>

fun decode_value :: "formats \<Rightarrow> json \<Rightarrow> error + rval" where
  "decode_value opts JNull = Inr RNull"
| "decode_value opts (JBool b) = Inr (RBool b)"
| "decode_value opts (JInt i) = Inr (RInt i)"
| "decode_value opts (JFloat f) = Inr (RFloat f)"
| "decode_value opts (JStr s) = Inr (RStr s)"
| "decode_value opts (JArr js) = rmap RList (seqr (map (decode_value opts) js))"
| "decode_value opts (JObj kvs) =
     rbind (seqr (map (\<lambda>kv. rmap (Pair (fst kv)) (decode_value opts (snd kv))) kvs))
       (\<lambda>obj. convert_pseudotype opts (dict_of obj))"

definition decode :: "formats \<Rightarrow> string \<Rightarrow> error + rval" where
  "decode opts s =
     (case loads s of
        Inl _ \<Rightarrow> Inl (value_error ''JSONDecodeError'')
      | Inr j \<Rightarrow> decode_value opts j)"

subsection \<open>\<open>Response\<close>\<close>

record response =
  rtoken :: int
  rtype :: rval
  rdata :: rval
  rbacktrace :: rval
  rprofile :: rval
  rerror_type :: rval

text \<open>\<open>v.get(k)\<close> and \<open>v[k]\<close> for a text \<open>k\<close>; only dictionaries have them.\<close>

definition get_or_none :: "rval \<Rightarrow> string \<Rightarrow> error + rval" where
  "get_or_none v k =
     (case v of
        RDict obj \<Rightarrow> Inr (case map_of obj k of None \<Rightarrow> RNull | Some x \<Rightarrow> x)
      | RGroups kvs \<Rightarrow> Inr (case map_of kvs (RStr k) of None \<Rightarrow> RNull | Some x \<Rightarrow> x)
      | _ \<Rightarrow> Inl (py_exc PyAttributeError ''object has no attribute get''))"

definition key_or_raise :: "rval \<Rightarrow> string \<Rightarrow> error + rval" where
  "key_or_raise v k =
     (case v of
        RDict obj \<Rightarrow> (case map_of obj k of None \<Rightarrow> Inl (py_exc PyKeyError k) | Some x \<Rightarrow> Inr x)
      | RGroups kvs \<Rightarrow>
          (case map_of kvs (RStr k) of None \<Rightarrow> Inl (py_exc PyKeyError k) | Some x \<Rightarrow> Inr x)
      | _ \<Rightarrow> Inl (type_error ''indices must be integers''))"

definition response_of :: "int \<Rightarrow> rval \<Rightarrow> error + response" where
  "response_of token full =
     rbind (key_or_raise full ''t'') (\<lambda>t. rbind (key_or_raise full ''r'') (\<lambda>r.
     rbind (get_or_none full ''b'') (\<lambda>b. rbind (get_or_none full ''p'') (\<lambda>p.
     rbind (get_or_none full ''e'') (\<lambda>e.
       Inr \<lparr>rtoken = token, rtype = t, rdata = r, rbacktrace = b, rprofile = p, rerror_type = e\<rparr>)))))"

text \<open>\<open>Response(token, json_str, reql_decoder)\<close> on the bytes read from the socket.\<close>

definition parse_response :: "formats \<Rightarrow> int \<Rightarrow> byte list \<Rightarrow> error + response" where
  "parse_response opts token bs =
     (case utf8_decode bs of
        Inl _ \<Rightarrow> Inl (value_error ''UnicodeDecodeError'')
      | Inr s \<Rightarrow> rbind (decode opts s) (response_of token))"

definition is_int :: "rval \<Rightarrow> int \<Rightarrow> bool" where
  "is_int v n = (case v of RInt i \<Rightarrow> i = n | RBool b \<Rightarrow> (if b then 1 else 0) = n | _ \<Rightarrow> False)"

definition first_item :: "rval \<Rightarrow> error + rval" where
  "first_item v =
     (case v of
        RList (x # xs) \<Rightarrow> Inr x
      | RList [] \<Rightarrow> Inl index_error
      | RStr (c # s) \<Rightarrow> Inr (RStr [c])
      | RStr [] \<Rightarrow> Inl (py_exc PyIndexError ''string index out of range'')
      | RBinary (b # bs) \<Rightarrow> Inr (RInt (int (unat b)))
      | RBinary [] \<Rightarrow> Inl (py_exc PyIndexError ''index out of range'')
      | RDict kvs \<Rightarrow> Inl (py_exc PyKeyError ''0'')
      | RGroups kvs \<Rightarrow> Inl (py_exc PyKeyError ''0'')
      | _ \<Rightarrow> Inl (type_error ''object is not subscriptable''))"

definition frame_of :: "rval \<Rightarrow> frame" where
  "frame_of v =
     (case v of RInt i \<Rightarrow> if 0 \<le> i then Pos (nat i) else Unmatched | RStr s \<Rightarrow> Opt s | _ \<Rightarrow> Unmatched)"

text \<open>\<open>list(frames or ())\<close>, on the backtrace field.\<close>

definition frames_of :: "rval \<Rightarrow> error + frame list option" where
  "frames_of v =
     (case v of
        RNull \<Rightarrow> Inr None
      | RInt i \<Rightarrow> if i = 0 then Inr (Some []) else Inl (type_error ''object is not iterable'')
      | RBool b \<Rightarrow> if b then Inl (type_error ''object is not iterable'') else Inr (Some [])
      | _ \<Rightarrow> rmap (\<lambda>vs. Some (map frame_of vs)) (items_of v))"

text \<open>The exception a server's error message becomes; a message that is no string is shown as
  \<open>str\<close> shows it.\<close>

definition server_error :: "exc_class \<Rightarrow> response \<Rightarrow> query option \<Rightarrow> error + error" where
  "server_error c res term =
     rbind (first_item (rdata res)) (\<lambda>m.
     rbind (frames_of (rbacktrace res)) (\<lambda>fs.
       Inr (reql_error c (str_rval m) term fs)))"

definition error_classes :: "proto \<Rightarrow> (int \<times> exc_class) list" where
  "error_classes p = dict_of
     [(perror p ''INTERNAL'', ReqlInternalError),
      (perror p ''RESOURCE_LIMIT'', ReqlResourceLimitError),
      (perror p ''QUERY_LOGIC'', ReqlQueryLogicError),
      (perror p ''NON_EXISTENCE'', ReqlNonExistenceError),
      (perror p ''OP_FAILED'', ReqlOpFailedError),
      (perror p ''OP_INDETERMINATE'', ReqlOpIndeterminateError),
      (perror p ''USER'', ReqlUserError),
      (perror p ''PERMISSION_ERROR'', ReqlPermissionError)]"

definition runtime_class :: "proto \<Rightarrow> rval \<Rightarrow> error + exc_class" where
  "runtime_class p e =
     (if \<not> hashable e then Inl (type_error ''unhashable type'')
      else case find (\<lambda>kc. is_int e (fst kc)) (error_classes p) of
             Some (_, c) \<Rightarrow> Inr c | None \<Rightarrow> Inr ReqlRuntimeError)"

definition make_error :: "proto \<Rightarrow> response \<Rightarrow> query option \<Rightarrow> error + error" where
  "make_error p res term =
     (if is_int (rtype res) (presponse p ''CLIENT_ERROR'') then
        server_error ReqlDriverError res term
      else if is_int (rtype res) (presponse p ''COMPILE_ERROR'') then
        server_error ReqlServerCompileError res term
      else if is_int (rtype res) (presponse p ''RUNTIME_ERROR'') then
        rbind (runtime_class p (rerror_type res)) (\<lambda>c. server_error c res term)
      else case rtype res of
             RInt i \<Rightarrow> Inr (driver_error (''Unknown Response type '' @ show_int i @ '' encountered in a response.''))
           | RBool b \<Rightarrow> Inr (driver_error (''Unknown Response type '' @ show_int (if b then 1 else 0)
                          @ '' encountered in a response.''))
           | RFloat f \<Rightarrow> Inr (driver_error (''Unknown Response type '' @ takeWhile (\<lambda>c. c \<noteq> CHR ''.'') f
                          @ '' encountered in a response.''))
           | _ \<Rightarrow> Inl (type_error ''%d format: a number is required''))"

subsection \<open>Values the decoder leaves alone\<close>

fun embed :: "json \<Rightarrow> rval" where
  "embed JNull = RNull"
| "embed (JBool b) = RBool b"
| "embed (JInt i) = RInt i"
| "embed (JFloat f) = RFloat f"
| "embed (JStr s) = RStr s"
| "embed (JArr js) = RList (map embed js)"
| "embed (JObj kvs) = RDict (map (\<lambda>kv. (fst kv, embed (snd kv))) kvs)"

definition kept :: "formats \<Rightarrow> json option \<Rightarrow> bool" where
  "kept opts t \<longleftrightarrow> t = None \<or> t = Some JNull \<or> t = Some (JStr ''GEOMETRY'')
     \<or> t = Some (JStr ''TIME'') \<and> format_of opts ''time_format'' = Raw
     \<or> t = Some (JStr ''GROUPED_DATA'') \<and> format_of opts ''group_format'' = Raw
     \<or> t = Some (JStr ''BINARY'') \<and> format_of opts ''binary_format'' = Raw"

text \<open>Every object is no pseudo-type, or one that is kept as it is.\<close>

fun untouched :: "formats \<Rightarrow> json \<Rightarrow> bool" where
  "untouched opts (JArr js) = list_all (\<lambda>b. b) (map (untouched opts) js)"
| "untouched opts (JObj kvs) =
     (kept opts (map_of kvs ''$reql_type$'') \<and> list_all (\<lambda>b. b) (map (\<lambda>kv. untouched opts (snd kv)) kvs))"
| "untouched opts _ = True"

lemma map_of_embed: "map_of (map (\<lambda>kv. (fst kv, embed (snd kv))) kvs) k = map_option embed (map_of kvs k)"
  by (induction kvs) auto

lemma kept_convert:
  assumes "kept opts (map_of kvs ''$reql_type$'')"
  shows "convert_pseudotype opts (map (\<lambda>kv. (fst kv, embed (snd kv))) kvs)
    = Inr (RDict (map (\<lambda>kv. (fst kv, embed (snd kv))) kvs))"
  using assms unfolding convert_pseudotype_def map_of_embed
  by (auto simp: kept_def by_format_def)

lemma decode_untouched: "wf_json j \<Longrightarrow> untouched opts j \<Longrightarrow> decode_value opts j = Inr (embed j)"
proof (induction j)
  case (JArr js)
  then have m: "map (decode_value opts) js = map (\<lambda>j. Inr (embed j)) js"
    by (simp add: list_all_iff)
  show ?case by (simp only: decode_value.simps m seqr_map_Inr rmap_simps embed.simps)
next
  case (JObj kvs)
  have "rmap (Pair (fst kv)) (decode_value opts (snd kv)) = Inr (fst kv, embed (snd kv))"
    if "kv \<in> set kvs" for kv
    using JObj.IH [OF that, of "snd kv"] JObj.prems that
    by (auto simp: list_all_iff snds.simps)
  then have m: "map (\<lambda>kv. rmap (Pair (fst kv)) (decode_value opts (snd kv))) kvs
      = map (\<lambda>kv. Inr (fst kv, embed (snd kv))) kvs"
    by simp
  have "dict_of (map (\<lambda>kv. (fst kv, embed (snd kv))) kvs) = map (\<lambda>kv. (fst kv, embed (snd kv))) kvs"
    by (rule dict_of_distinct) (use JObj.prems in \<open>simp add: comp_def\<close>)
  then show ?case using kept_convert [of opts kvs] JObj.prems(2)
    by (simp add: m)
qed simp_all

subsection \<open>Hashable group keys\<close>

fun keys_hashable :: "rval \<Rightarrow> bool" where
  "keys_hashable (RList vs) = list_all (\<lambda>b. b) (map keys_hashable vs)"
| "keys_hashable (RDict kvs) = list_all (\<lambda>b. b) (map (\<lambda>kv. keys_hashable (snd kv)) kvs)"
| "keys_hashable (RGroups kvs) =
     list_all (\<lambda>b. b) (map (\<lambda>kv. hashable (fst kv) \<and> keys_hashable (fst kv) \<and> keys_hashable (snd kv)) kvs)"
| "keys_hashable (RTuple vs) = list_all (\<lambda>b. b) (map (\<lambda>v. hashable v \<and> keys_hashable v) vs)"
| "keys_hashable (RFrozen kvs) =
     list_all (\<lambda>b. b) (map (\<lambda>kv. hashable (fst kv) \<and> hashable (snd kv)
        \<and> keys_hashable (fst kv) \<and> keys_hashable (snd kv)) kvs)"
| "keys_hashable _ = True"

lemma make_hashable_ok: "keys_hashable v \<Longrightarrow> hashable (make_hashable v) \<and> keys_hashable (make_hashable v)"
proof (induction v rule: make_hashable.induct)
  case (2 kvs)
  have "hashable (make_hashable (snd kv)) \<and> keys_hashable (make_hashable (snd kv))" if "kv \<in> set kvs" for kv
    using 2(1) [OF that] 2(2) that by (auto simp: list_all_iff)
  then show ?case by (auto simp: list_all_iff)
next
  case (3 kvs)
  have "hashable (make_hashable (snd kv)) \<and> keys_hashable (make_hashable (snd kv))" if "kv \<in> set kvs" for kv
    using 3(1) [OF that] 3(2) that by (auto simp: list_all_iff)
  then show ?case using 3(2) by (auto simp: list_all_iff)
qed (auto simp: list_all_iff)

lemma items_of_keys: "items_of v = Inr xs \<Longrightarrow> keys_hashable v \<Longrightarrow> x \<in> set xs \<Longrightarrow> keys_hashable x"
proof (cases v)
  case (RFrozen kvs)
  assume "items_of v = Inr xs" "keys_hashable v" "x \<in> set xs"
  then obtain kv where "kv \<in> set kvs" "x = RTuple [fst kv, snd kv]"
    using RFrozen by (auto simp: items_of_def)
  then show ?thesis
    using \<open>keys_hashable v\<close> RFrozen by (simp add: list_all_iff)
qed (auto simp: items_of_def list_all_iff)

lemma grouped_pair_keys:
  "grouped_pair v = Inr (k, w) \<Longrightarrow> keys_hashable v
     \<Longrightarrow> hashable k \<and> keys_hashable k \<and> keys_hashable w"
proof -
  assume g: "grouped_pair v = Inr (k, w)" and v: "keys_hashable v"
  obtain xs where xs: "items_of v = Inr xs" "(case xs of [k, v] \<Rightarrow> Inr (make_hashable k, v)
      | _ \<Rightarrow> Inl (value_error ''wrong number of values to unpack'')) = Inr (k, w)"
    using g by (auto simp: grouped_pair_def rbind_eq_Inr)
  then obtain k' where "xs = [k', w]" "k = make_hashable k'"
    by (auto split: list.splits)
  then show ?thesis
    using items_of_keys [OF xs(1) v] make_hashable_ok by simp
qed

lemma keys_hashable_dict: "keys_hashable (RDict kvs) \<longleftrightarrow> (\<forall>v \<in> snd ` set kvs. keys_hashable v)"
  by (simp add: list_all_iff)

lemma convert_keys:
  assumes "convert_pseudotype opts obj = Inr v" "keys_hashable (RDict obj)"
  shows "keys_hashable v"
proof -
  have raw: "keys_hashable v" if "by_format opts k r obj = Inr v" "r = Inr v \<Longrightarrow> keys_hashable v" for k r
    using that assms(2) by (auto simp: by_format_def split: format.splits)
  have time: "keys_hashable v" if "convert_time obj = Inr v"
    using that by (auto simp: convert_time_def missing_field_def res_simps split: option.splits rval.splits if_splits)
  have bin: "keys_hashable v" if "convert_binary obj = Inr v"
    using that by (auto simp: convert_binary_def missing_field_def res_simps split: option.splits rval.splits sum.splits)
  have grp: "keys_hashable v" if g: "convert_grouped_data obj = Inr v"
  proof -
    obtain d vs kvs where d: "map_of obj ''data'' = Some d" "items_of d = Inr vs"
      and kvs: "seqr (map grouped_pair vs) = Inr kvs" and v: "v = RGroups (dict_of kvs)"
      using g by (auto simp: convert_grouped_data_def missing_field_def res_simps split: option.splits)
    have "d \<in> snd ` set obj" using d(1) by (auto dest!: map_of_SomeD intro: rev_image_eqI)
    then have "keys_hashable d" using assms(2) keys_hashable_dict by blast
    then have *: "keys_hashable x" if "x \<in> set vs" for x using items_of_keys d(2) that by blast
    have "hashable (fst kw) \<and> keys_hashable (fst kw) \<and> keys_hashable (snd kw)" if "kw \<in> set kvs" for kw
    proof -
      obtain x where "x \<in> set vs" "grouped_pair x = Inr (fst kw, snd kw)"
        using seqr_member [OF kvs \<open>kw \<in> set kvs\<close>] by auto
      then show ?thesis using grouped_pair_keys * by blast
    qed
    then show ?thesis using dict_of_subset [of kvs] by (auto simp: v list_all_iff)
  qed
  show ?thesis
    using assms raw [OF _ time] raw [OF _ bin] raw [OF _ grp]
    unfolding convert_pseudotype_def
    by (auto split: option.splits if_splits rval.splits)
qed

lemma decode_value_keys: "decode_value opts j = Inr v \<Longrightarrow> keys_hashable v"
proof (induction j arbitrary: v)
  case (JArr js)
  then obtain vs where vs: "seqr (map (decode_value opts) js) = Inr vs" "v = RList vs"
    by (auto simp: rmap_eq_Inr)
  have "keys_hashable x" if "x \<in> set vs" for x
    using seqr_member [OF vs(1) that] JArr.IH by blast
  then show ?case by (simp add: vs(2) list_all_iff)
next
  case (JObj kvs)
  then obtain obj where obj: "seqr (map (\<lambda>kv. rmap (Pair (fst kv)) (decode_value opts (snd kv))) kvs) = Inr obj"
    "convert_pseudotype opts (dict_of obj) = Inr v"
    by (auto simp: rbind_eq_Inr)
  have "keys_hashable (snd x)" if x: "x \<in> set obj" for x
  proof -
    obtain kv where "kv \<in> set kvs" "decode_value opts (snd kv) = Inr (snd x)"
      using seqr_pairs_member [OF obj(1) x] by blast
    then show ?thesis using JObj.IH by (metis prod.collapse snds.intros)
  qed
  then have "\<forall>v \<in> snd ` set obj. keys_hashable v" by simp
  then have "keys_hashable (RDict (dict_of obj))"
    unfolding keys_hashable_dict using dict_of_values [of obj] by blast
  then show ?case by (rule convert_keys [OF obj(2)])
qed auto

subsection \<open>Offsets\<close>

definition two_digits :: "nat \<Rightarrow> string" where
  "two_digits n = [digit_char (n div 10), digit_char (n mod 10)]"

lemma digit_code: "n < 10 \<Longrightarrow> code_point (digit_char n) = 48 + n"
  by (simp add: digit_char_def)

lemma digit_not_special:
  assumes "n < 10"
  shows "\<not> is_space (digit_char n)" "digit_char n \<noteq> CHR '':''" "digit_char n \<noteq> CHR ''_''"
    "digit_char n \<noteq> CHR ''-''" "digit_char n \<noteq> CHR ''+''"
proof -
  note c = digit_code [OF assms]
  have sp: "code_point (CHR '' '') = 32" "code_point (CHR '':'') = 58" "code_point (CHR ''_'') = 95"
    "code_point (CHR ''-'') = 45" "code_point (CHR ''+'') = 43"
    by (simp_all add: code_point_def)
  show "\<not> is_space (digit_char n)"
    using c sp assms by (auto simp: is_space_def)
  show "digit_char n \<noteq> CHR '':''" "digit_char n \<noteq> CHR ''_''" "digit_char n \<noteq> CHR ''-''"
    "digit_char n \<noteq> CHR ''+''"
    using c sp assms by auto
qed

lemma strip_id:
  assumes "s \<noteq> []" "\<not> is_space (hd s)" "\<not> is_space (last s)"
  shows "strip s = s"
proof -
  have "dropWhile is_space s = s" using assms(1,2) by (cases s) auto
  moreover have "dropWhile is_space (rev s) = rev s"
    using assms(1,3) by (cases s rule: rev_cases) auto
  ultimately show ?thesis by (simp add: strip_def)
qed

lemma digit_groups_two: "n < 100 \<Longrightarrow> digit_groups (two_digits n) = Inr n"
proof -
  assume "n < 100"
  then have d: "n div 10 < 10" "n mod 10 < 10" by auto
  have "CHR ''_'' \<notin> set (two_digits n)"
    using digit_not_special(3) [OF d(1)] digit_not_special(3) [OF d(2)] by (auto simp: two_digits_def)
  then have "split_on (CHR ''_'') (two_digits n) = [two_digits n]" by (rule split_on_no_sep)
  moreover have "read_digits 0 (two_digits n) = n"
    using d by (simp add: two_digits_def)
  moreover have "\<forall>c \<in> set (two_digits n). is_digit c"
    using d by (simp add: two_digits_def)
  ultimately show ?thesis by (simp add: digit_groups_def Let_def two_digits_def)
qed

lemma py_int_two: "n < 100 \<Longrightarrow> py_int (two_digits n) = Inr (int n)"
proof -
  assume n: "n < 100"
  then have d: "n div 10 < 10" "n mod 10 < 10" by auto
  have "strip (two_digits n) = two_digits n"
    using digit_not_special(1) d by (intro strip_id) (auto simp: two_digits_def)
  moreover have "rmap int (digit_groups (two_digits n)) = Inr (int n)"
    using digit_groups_two [OF n] by simp
  ultimately show ?thesis
    using digit_not_special(4,5) [OF d(1)] by (simp add: py_int_def two_digits_def)
qed

lemma py_int_signed:
  assumes "n < 100"
  shows "py_int (CHR ''+'' # two_digits n) = Inr (int n)"
    and "py_int (CHR ''-'' # two_digits n) = Inr (- int n)"
proof -
  have d: "n mod 10 < 10" by simp
  have sign: "\<not> is_space (CHR ''+'')" "\<not> is_space (CHR ''-'')"
    by (simp_all add: is_space_def code_point_def)
  have "strip (c # two_digits n) = c # two_digits n" if "\<not> is_space c" for c
    using digit_not_special(1) [OF d] that by (intro strip_id) (auto simp: two_digits_def)
  then show "py_int (CHR ''+'' # two_digits n) = Inr (int n)"
    "py_int (CHR ''-'' # two_digits n) = Inr (- int n)"
    using sign digit_groups_two [OF assms] by (simp_all add: py_int_def)
qed

lemma tzinfo_signed:
  assumes "h < 100" "m < 60"
  shows "tzinfo ((CHR ''+'' # two_digits h) @ CHR '':'' # two_digits m) = Inr (60 * int h + int m)"
    and "tzinfo ((CHR ''-'' # two_digits h) @ CHR '':'' # two_digits m) = Inr (- (60 * int h) + int m)"
proof -
  have colon: "CHR '':'' \<notin> set (two_digits n)" if "n < 100" for n
  proof -
    have "n div 10 < 10" "n mod 10 < 10" using that by auto
    then show ?thesis
      using digit_not_special(2) [of "n div 10"] digit_not_special(2) [of "n mod 10"]
      by (simp add: two_digits_def)
  qed
  have split: "split_on (CHR '':'') ((c # two_digits h) @ CHR '':'' # two_digits m)
      = [c # two_digits h, two_digits m]" if "c \<noteq> CHR '':''" for c
    using that colon assms by (subst split_on_append_sep) (auto simp: split_on_no_sep)
  have m: "py_int (two_digits m) = Inr (int m)" using assms(2) by (simp add: py_int_two)
  have "abs ((60 * int h + int m) div 1440) \<le> 999999999"
    "abs ((- (60 * int h) + int m) div 1440) \<le> 999999999"
    using assms by auto
  moreover have "CHR ''+'' \<noteq> CHR '':''" "CHR ''-'' \<noteq> CHR '':''" by simp_all
  ultimately show "tzinfo ((CHR ''+'' # two_digits h) @ CHR '':'' # two_digits m) = Inr (60 * int h + int m)"
    "tzinfo ((CHR ''-'' # two_digits h) @ CHR '':'' # two_digits m) = Inr (- (60 * int h) + int m)"
    unfolding tzinfo_def split [OF \<open>CHR ''+'' \<noteq> CHR '':''\<close>] split [OF \<open>CHR ''-'' \<noteq> CHR '':''\<close>]
    by (simp_all add: py_int_signed [OF assms(1)] m Let_def)
qed

subsection \<open>The properties of responses\<close>

text \<open>Binary data survives the round trip: the JSON a \<open>Binary\<close> term is sent as decodes to
  the same bytes under the native format.\<close>

theorem binary_roundtrip:
  assumes "format_of opts ''binary_format'' = Native"
  shows "rbind (to_json p (binary_node bs)) (decode_value opts) = Inr (RBinary bs)"
proof -
  have "b64decode (utf8_encode (b64_text bs)) = Inr bs"
    using b64.dec_enc [of bs] b64_text_ascii [of bs] by (simp add: utf8_ascii b64encode_def)
  then have "convert_binary [(''$reql_type$'', RStr ''BINARY''), (''data'', RStr (b64_text bs))] = Inr (RBinary bs)"
    by (simp add: convert_binary_def)
  then show ?thesis
    using assms by (simp add: binary_node_def Let_def dict_of_def convert_pseudotype_def by_format_def)
qed

theorem binary_roundtrip_witness:
  "rbind (to_json proto_example (binary_node [1, 2, 255])) (decode_value [(''binary_format'', ANone)])
     = Inr (RBinary [1, 2, 255])"
  by (rule binary_roundtrip) (simp add: format_of_def)

text \<open>C37. Decoding the text of a JSON value all of whose objects are no pseudo-types, or are
  asked for raw, gives back that value.\<close>

theorem decode_keeps_data:
  assumes "wf_json j" "untouched opts j"
  shows "decode opts (json_text j) = Inr (embed j)"
  using assms by (simp add: decode_def loads_dumps decode_untouched)

theorem decode_keeps_data_witness:
  "decode [(''time_format'', AStr ''raw'')]
     (json_text (JArr [JNull, JObj [(''$reql_type$'', JStr ''TIME''), (''epoch_time'', JInt 5)]]))
   = Inr (embed (JArr [JNull, JObj [(''$reql_type$'', JStr ''TIME''), (''epoch_time'', JInt 5)]]))"
  by (rule decode_keeps_data) (simp_all add: kept_def format_of_def)

text \<open>Group keys are hashable: every value the decoder returns can be made a dictionary
  key by \<open>recursively_make_hashable\<close>, and the keys of every grouped result in it are such.\<close>

theorem decoded_keys_hashable:
  assumes "decode_value opts j = Inr v"
  shows "keys_hashable v \<and> hashable (make_hashable v)"
  using decode_value_keys [OF assms] make_hashable_ok by blast

theorem decoded_keys_hashable_witness:
  "keys_hashable (RGroups [(RTuple [RInt 1], RList [])])
     \<and> hashable (make_hashable (RGroups [(RTuple [RInt 1], RList [])]))"
  by (rule decoded_keys_hashable [where opts = "[]" and j = "JObj [(''$reql_type$'', JStr ''GROUPED_DATA''),
      (''data'', JArr [JArr [JArr [JInt 1], JArr []]])]"])
    (simp add: dict_of_def convert_pseudotype_def by_format_def format_of_def
      convert_grouped_data_def items_of_def grouped_pair_def)

text \<open>\<open>RqlTzinfo\<close> of an offset \<open>+HH:MM\<close> is as far east as it says, but of \<open>-HH:MM\<close> it is the
  hours west and the minutes back east: right only when the minutes are zero.\<close>

theorem tzinfo_offset:
  assumes "h < 100" "m < 60"
  shows "tzinfo (CHR ''+'' # two_digits h @ CHR '':'' # two_digits m) = Inr (60 * int h + int m)
     \<and> tzinfo (CHR ''-'' # two_digits h @ CHR '':'' # two_digits m) = Inr (- (60 * int h) + int m)"
  using tzinfo_signed [OF assms] by simp

theorem tzinfo_offset_witness:
  "tzinfo (CHR ''+'' # two_digits 7 @ CHR '':'' # two_digits 30) = Inr (60 * int 7 + int 30)
     \<and> tzinfo (CHR ''-'' # two_digits 7 @ CHR '':'' # two_digits 30) = Inr (- (60 * int 7) + int 30)"
  by (rule tzinfo_offset) simp_all

definition error_names :: "(string \<times> exc_class) list" where
  "error_names = [(''INTERNAL'', ReqlInternalError), (''RESOURCE_LIMIT'', ReqlResourceLimitError),
     (''QUERY_LOGIC'', ReqlQueryLogicError), (''NON_EXISTENCE'', ReqlNonExistenceError),
     (''OP_FAILED'', ReqlOpFailedError), (''OP_INDETERMINATE'', ReqlOpIndeterminateError),
     (''USER'', ReqlUserError), (''PERMISSION_ERROR'', ReqlPermissionError)]"

definition distinct_proto :: "proto \<Rightarrow> bool" where
  "distinct_proto p \<longleftrightarrow> distinct (map (\<lambda>nc. perror p (fst nc)) error_names)
     \<and> distinct (map (presponse p) [''SUCCESS_ATOM'', ''SUCCESS_SEQUENCE'', ''SUCCESS_PARTIAL'',
          ''WAIT_COMPLETE'', ''SERVER_INFO'', ''CLIENT_ERROR'', ''COMPILE_ERROR'', ''RUNTIME_ERROR''])"

lemma error_classes_find:
  assumes "distinct_proto p" "(n, c) \<in> set error_names"
  shows "runtime_class p (RInt (perror p n)) = Inr c"
proof -
  let ?kvs = "map (\<lambda>nc. (perror p (fst nc), snd nc)) error_names"
  have d: "distinct (map fst ?kvs)"
    using assms(1) by (simp add: distinct_proto_def comp_def)
  have e: "error_classes p = ?kvs"
    unfolding error_classes_def by (subst dict_of_distinct [symmetric]) (use d in \<open>auto simp: error_names_def\<close>)
  have "find (\<lambda>kc. is_int (RInt k) (fst kc)) kvs = map_option (Pair k) (map_of kvs k)"
    for k and kvs :: "(int \<times> exc_class) list"
    by (induction kvs) (auto simp: is_int_def)
  moreover have "map_of ?kvs (perror p n) = Some c"
    by (rule map_of_is_SomeI [OF d]) (use assms(2) in force)
  ultimately show ?thesis by (simp add: runtime_class_def e)
qed

text \<open>C17. The exception of an error response: its class follows the response type and, for a
  runtime error, the error type; it carries the server's message, the query and the
  backtrace.  The protocol's numbers are distinct within an enumeration.\<close>

theorem error_of_response:
  assumes "distinct_proto p" "rdata res = RList (RStr msg # rest)" "rbacktrace res = RList fs"
  shows "(rtype res = RInt (presponse p ''CLIENT_ERROR'') \<longrightarrow>
       make_error p res term = Inr (reql_error ReqlDriverError msg term (Some (map frame_of fs))))
   \<and> (rtype res = RInt (presponse p ''COMPILE_ERROR'') \<longrightarrow>
       make_error p res term = Inr (reql_error ReqlServerCompileError msg term (Some (map frame_of fs))))
   \<and> (rtype res = RInt (presponse p ''RUNTIME_ERROR'') \<and> (n, c) \<in> set error_names
         \<and> rerror_type res = RInt (perror p n) \<longrightarrow>
       make_error p res term = Inr (reql_error c msg term (Some (map frame_of fs))))"
proof -
  have s: "server_error c res term = Inr (reql_error c msg term (Some (map frame_of fs)))" for c
    using assms(2,3) by (simp add: server_error_def first_item_def frames_of_def items_of_def str_rval_def)
  show ?thesis
    using assms(1) s error_classes_find [OF assms(1), of n c]
    by (auto simp: make_error_def is_int_def distinct_proto_def)
qed

definition proto_numbers :: proto where
  "proto_numbers = \<lparr>pterm = (\<lambda>s. if s = ''TABLE'' then 15 else 16), pquery = (\<lambda>_. 1),
     presponse = (\<lambda>s. if s = ''SUCCESS_ATOM'' then 1 else if s = ''SUCCESS_SEQUENCE'' then 2
       else if s = ''SUCCESS_PARTIAL'' then 3 else if s = ''WAIT_COMPLETE'' then 4
       else if s = ''SERVER_INFO'' then 5 else if s = ''CLIENT_ERROR'' then 16
       else if s = ''COMPILE_ERROR'' then 17 else 18),
     perror = (\<lambda>s. if s = ''INTERNAL'' then 1000000 else if s = ''RESOURCE_LIMIT'' then 2000000
       else if s = ''QUERY_LOGIC'' then 3000000 else if s = ''NON_EXISTENCE'' then 3100000
       else if s = ''OP_FAILED'' then 4100000 else if s = ''OP_INDETERMINATE'' then 4200000
       else if s = ''USER'' then 5000000 else 6000000)\<rparr>"

lemma proto_numbers_distinct: "distinct_proto proto_numbers"
  by (simp add: distinct_proto_def error_names_def proto_numbers_def)

theorem error_of_response_witness:
  "make_error proto_numbers \<lparr>rtoken = 1, rtype = RInt 18, rdata = RList [RStr ''gone''],
       rbacktrace = RList [RInt 0], rprofile = RNull, rerror_type = RInt 3100000\<rparr> None
     = Inr (reql_error ReqlNonExistenceError ''gone'' None (Some [Pos 0]))"
  using error_of_response [OF proto_numbers_distinct, of "\<lparr>rtoken = 1, rtype = RInt 18,
      rdata = RList [RStr ''gone''], rbacktrace = RList [RInt 0], rprofile = RNull,
      rerror_type = RInt 3100000\<rparr>" "''gone''" "[]" "[RInt 0]" None "''NON_EXISTENCE''" ReqlNonExistenceError]
  by (simp add: proto_numbers_def error_names_def frame_of_def)

end
