(* ===== verification/Socket.thy ===== *)
theory Socket
  imports Response
begin

text \<open>
  \<open>SocketWrapper\<close> of \<open>rethinkdb/net.py\<close>: \<open>recvall\<close>, \<open>sendall\<close> and \<open>close\<close> over an explicit
  script of what the operating system does.

  The script of a socket lists what successive \<open>recv\<close> calls meet: bytes that have arrived (the
  empty list is the end of the stream), a timeout, an \<open>IOError\<close> with its number, another
  exception, or an interrupt of the user; a call for fewer bytes than have arrived leaves the
  rest in front.  A script that runs out is a call that blocks.  \<open>recv_loop\<close> and \<open>send_loop\<close>
  recur on the script, so they need no fuel; \<open>read_string\<close> takes fuel, one unit per byte.
\<close>

subsection \<open>Sockets\<close>

datatype errno = ECONNRESET | EWOULDBLOCK | EINTR | EOther int

datatype recv_event =
    Arrived "byte list" | RecvTimeout | RecvError errno string | RecvException string | RecvInterrupt

datatype send_event =
    Accepts nat | SendError errno string | SendException string | SendInterrupt

datatype io_stop = Raised error | Blocked

record sock =
  shost :: string
  sport :: int
  sopen :: bool
  read_buffer :: "byte list option"
  incoming :: "recv_event list"
  sending :: "send_event list"
  sent :: "byte list"
  shutdown_error :: "string option"
  logged :: "string list"

type_synonym 'a sock_io = "(sock, io_stop, 'a) comp"

text \<open>\<open>close()\<close>: errors of \<open>shutdown\<close> go to the log, and the socket is gone in any case.\<close>

definition sock_close :: "sock \<Rightarrow> sock" where
  "sock_close s =
     (if sopen s then
        s\<lparr>sopen := False,
          logged := logged s @ (case shutdown_error s of None \<Rightarrow> [] | Some m \<Rightarrow> [m])\<rparr>
      else s)"

definition address_text :: "sock \<Rightarrow> string" where
  "address_text s = shost s @ '':'' @ show_int (sport s)"

definition connection_closed :: error where
  "connection_closed = driver_error ''Connection is closed.''"

definition sock_timeout :: "sock \<Rightarrow> error" where
  "sock_timeout s = timeout_error (Some (shost s)) (Some (sport s))"

definition io_interrupted :: "sock \<Rightarrow> string \<Rightarrow> string \<Rightarrow> error" where
  "io_interrupted s doing m =
     driver_error (''Connection interrupted '' @ doing @ address_text s @ '' - '' @ m)"

definition io_failed :: "sock \<Rightarrow> string \<Rightarrow> string \<Rightarrow> error" where
  "io_failed s doing m = driver_error (''Error '' @ doing @ address_text s @ '' - '' @ m)"

definition keyboard_interrupt :: error where
  "keyboard_interrupt = py_exc PyKeyboardInterrupt []"

definition no_socket :: "string \<Rightarrow> string" where
  "no_socket attr = [CHR 0x27] @ ''NoneType'' @ [CHR 0x27] @ '' object has no attribute ''
     @ [CHR 0x27] @ attr @ [CHR 0x27]"

subsection \<open>\<open>recvall\<close>\<close>

fun recv_loop :: "sock \<Rightarrow> nat \<Rightarrow> byte list \<Rightarrow> recv_event list \<Rightarrow> (io_stop + byte list) \<times> sock" where
  "recv_loop s n res [] =
     (if length res < n then (Inl Blocked, s\<lparr>incoming := []\<rparr>) else (Inr res, s\<lparr>incoming := []\<rparr>))"
| "recv_loop s n res (e # es) =
     (if length res < n then
        (case e of
           Arrived bs \<Rightarrow>
             if bs = [] then (Inl (Raised connection_closed), sock_close (s\<lparr>incoming := e # es\<rparr>))
             else if length bs \<le> n - length res then recv_loop s n (res @ bs) es
             else (Inr (res @ take (n - length res) bs),
                   s\<lparr>incoming := Arrived (drop (n - length res) bs) # es\<rparr>)
         | RecvTimeout \<Rightarrow>
             (Inl (Raised (sock_timeout s)), s\<lparr>read_buffer := Some res, incoming := es\<rparr>)
         | RecvError ECONNRESET m \<Rightarrow>
             (Inl (Raised connection_closed), sock_close (s\<lparr>incoming := es\<rparr>))
         | RecvError EWOULDBLOCK m \<Rightarrow> (Inl (Raised (sock_timeout s)), s\<lparr>incoming := es\<rparr>)
         | RecvError EINTR m \<Rightarrow> recv_loop s n res es
         | RecvError (EOther i) m \<Rightarrow>
             (Inl (Raised (io_interrupted s ''receiving from '' m)), s\<lparr>incoming := es\<rparr>)
         | RecvException m \<Rightarrow>
             (Inl (Raised (io_failed s ''receiving from '' m)), sock_close (s\<lparr>incoming := es\<rparr>))
         | RecvInterrupt \<Rightarrow> (Inl (Raised keyboard_interrupt), s\<lparr>incoming := es\<rparr>))
      else (Inr res, s\<lparr>incoming := e # es\<rparr>))"

definition recvall :: "nat \<Rightarrow> byte list sock_io" where
  "recvall n = (\<lambda>s.
     if \<not> sopen s then
       (Inl (Raised (py_exc PyAttributeError (no_socket ''settimeout''))), s)
     else recv_loop s n (case read_buffer s of None \<Rightarrow> [] | Some bs \<Rightarrow> bs) (incoming s))"

subsection \<open>\<open>sendall\<close>\<close>

fun send_loop :: "sock \<Rightarrow> byte list \<Rightarrow> send_event list \<Rightarrow> (io_stop + unit) \<times> sock" where
  "send_loop s rest [] =
     (if rest \<noteq> [] then (Inl Blocked, s\<lparr>sending := []\<rparr>) else (Inr (), s\<lparr>sending := []\<rparr>))"
| "send_loop s rest (e # es) =
     (if rest \<noteq> [] then
        (case e of
           Accepts k \<Rightarrow> send_loop (s\<lparr>sent := sent s @ take k rest\<rparr>) (drop k rest) es
         | SendError ECONNRESET m \<Rightarrow>
             (Inl (Raised connection_closed), sock_close (s\<lparr>sending := es\<rparr>))
         | SendError EINTR m \<Rightarrow> send_loop s rest es
         | SendError _ m \<Rightarrow>
             (Inl (Raised (io_interrupted s ''sending to '' m)), sock_close (s\<lparr>sending := es\<rparr>))
         | SendException m \<Rightarrow>
             (Inl (Raised (io_failed s ''sending to '' m)), sock_close (s\<lparr>sending := es\<rparr>))
         | SendInterrupt \<Rightarrow> (Inl (Raised keyboard_interrupt), sock_close (s\<lparr>sending := es\<rparr>)))
      else (Inr (), s\<lparr>sending := e # es\<rparr>))"

definition sendall :: "byte list \<Rightarrow> unit sock_io" where
  "sendall data = (\<lambda>s.
     if \<not> sopen s \<and> data \<noteq> [] then
       (Inl (Raised (io_failed s ''sending to '' (no_socket ''send''))), s)
     else send_loop s data (sending s))"

text \<open>The handshake reads strings that end in a zero byte, one byte at a time.\<close>

fun read_string :: "(nat \<Rightarrow> ('s, io_stop, byte list) comp) \<Rightarrow> nat \<Rightarrow> byte list \<Rightarrow> ('s, io_stop, byte list) comp" where
  "read_string read 0 response = raise Blocked"
| "read_string read (Suc fuel) response =
     bind (read 1) (\<lambda>c. if c = [0] then ret response else read_string read fuel (response @ c))"

text \<open>\<open>struct.unpack("<qL", header)\<close>: a signed token and a length.\<close>

definition signed64 :: "nat \<Rightarrow> int" where
  "signed64 n = (if n < 2 ^ 63 then int n else int n - 2 ^ 64)"

definition unpack_header :: "byte list \<Rightarrow> error + int \<times> nat" where
  "unpack_header bs =
     (if length bs = 12 then Inr (signed64 (le_val (take 8 bs)), le_val (drop 8 bs))
      else Inl (py_exc PyStructError ''unpack requires a buffer of 12 bytes''))"

definition read_message :: "(nat \<Rightarrow> ('s, io_stop, byte list) comp) \<Rightarrow> ('s, io_stop, int \<times> byte list) comp" where
  "read_message read =
     bind (read 12) (\<lambda>header.
     bind (lift_res (case unpack_header header of Inl e \<Rightarrow> Inl (Raised e) | Inr x \<Rightarrow> Inr x))
       (\<lambda>(token, n). bind (read n) (\<lambda>buf. ret (token, buf))))"

subsection \<open>What a reader promises\<close>

text \<open>The contract the protocol code needs of \<open>recvall\<close>: from a ready source, a call for \<open>n\<close>
  bytes returns exactly the next \<open>n\<close> of those that will arrive and leaves the source ready.\<close>

locale byte_reader =
  fixes read :: "nat \<Rightarrow> ('s, io_stop, byte list) comp"
    and arriving :: "'s \<Rightarrow> byte list"
    and ready :: "'s \<Rightarrow> bool"
  assumes read_exact: "ready s \<Longrightarrow> n \<le> length (arriving s) \<Longrightarrow>
     \<exists>s'. read n s = (Inr (take n (arriving s)), s') \<and> ready s' \<and> arriving s' = drop n (arriving s)"
begin

lemma read_append:
  assumes "ready s" "arriving s = xs @ ys"
  shows "\<exists>s'. read (length xs) s = (Inr xs, s') \<and> ready s' \<and> arriving s' = ys"
  using read_exact [OF assms(1), of "length xs"] assms(2) by simp

lemma read_string_exact:
  assumes "ready s" "arriving s = xs @ 0 # ys" "0 \<notin> set xs" "length xs < fuel"
  shows "\<exists>s'. read_string read fuel acc s = (Inr (acc @ xs), s') \<and> ready s' \<and> arriving s' = ys"
  using assms
proof (induction xs arbitrary: s fuel acc)
  case Nil
  then obtain f where f: "fuel = Suc f" by (cases fuel) auto
  have "arriving s = [0] @ ys" using Nil.prems(2) by simp
  from read_append [OF Nil.prems(1) this] obtain s' where
    "read 1 s = (Inr [0], s')" "ready s'" "arriving s' = ys" by auto
  then show ?case by (simp add: f bind_def ret_def)
next
  case (Cons x xs)
  then obtain f where f: "fuel = Suc f" by (cases fuel) auto
  have "arriving s = [x] @ (xs @ 0 # ys)" using Cons.prems(2) by simp
  from read_append [OF Cons.prems(1) this] obtain s1 where
    s1: "read 1 s = (Inr [x], s1)" "ready s1" "arriving s1 = xs @ 0 # ys" by auto
  have "\<exists>s'. read_string read f (acc @ [x]) s1 = (Inr ((acc @ [x]) @ xs), s') \<and> ready s' \<and> arriving s' = ys"
    by (rule Cons.IH [OF s1(2,3)]) (use Cons.prems(3,4) f in auto)
  moreover have "x \<noteq> 0" using Cons.prems(3) by auto
  ultimately show ?case using s1(1) by (simp add: f bind_def)
qed

lemma read_message_exact:
  assumes "ready s" "arriving s = le_bytes 8 token @ le_bytes 4 (length body) @ body @ ys"
    and "token < 2 ^ 64" "length body < 2 ^ 32"
  shows "\<exists>s'. read_message read s = (Inr (signed64 token, body), s') \<and> ready s' \<and> arriving s' = ys"
proof -
  have "arriving s = (le_bytes 8 token @ le_bytes 4 (length body)) @ (body @ ys)"
    using assms(2) by simp
  from read_append [OF assms(1) this] obtain s1 where
    s1: "read 12 s = (Inr (le_bytes 8 token @ le_bytes 4 (length body)), s1)" "ready s1"
    "arriving s1 = body @ ys" by auto
  from read_append [OF s1(2,3)] obtain s2 where
    s2: "read (length body) s1 = (Inr body, s2)" "ready s2" "arriving s2 = ys" by auto
  have "le_val (le_bytes 8 token) = token" "le_val (le_bytes 4 (length body)) = length body"
    using assms(3,4) by (simp_all add: le_val_le_bytes)
  then have "unpack_header (le_bytes 8 token @ le_bytes 4 (length body)) = Inr (signed64 token, length body)"
    by (simp add: unpack_header_def)
  then show ?thesis
    using s2 by (simp add: read_message_def bind_def s1(1) lift_res_def ret_def)
qed

end

subsection \<open>The socket is such a reader\<close>

fun bytes_before_stop :: "recv_event list \<Rightarrow> byte list" where
  "bytes_before_stop [] = []"
| "bytes_before_stop (Arrived bs # es) = (if bs = [] then [] else bs @ bytes_before_stop es)"
| "bytes_before_stop (RecvError EINTR m # es) = bytes_before_stop es"
| "bytes_before_stop (_ # es) = []"

definition sock_arriving :: "sock \<Rightarrow> byte list" where
  "sock_arriving s = bytes_before_stop (incoming s)"

definition sock_ready :: "sock \<Rightarrow> bool" where
  "sock_ready s \<longleftrightarrow> sopen s \<and> read_buffer s = None"

lemma recv_loop_exact:
  "length res \<le> n \<Longrightarrow> n \<le> length res + length (bytes_before_stop es) \<Longrightarrow>
     \<exists>es'. recv_loop s n res es = (Inr (res @ take (n - length res) (bytes_before_stop es)), s\<lparr>incoming := es'\<rparr>)
       \<and> bytes_before_stop es' = drop (n - length res) (bytes_before_stop es)"
proof (induction s n res es rule: recv_loop.induct)
  case (1 s n res)
  then show ?case by auto
next
  case (2 s n res e es)
  show ?case
  proof (cases "length res < n")
    case False
    then have "n = length res" using "2.prems"(1) by simp
    then show ?thesis by auto
  next
    case True
    show ?thesis
    proof (cases e)
      case (Arrived bs)
      then have bs: "bs \<noteq> []" using "2.prems"(2) True by auto
      show ?thesis
      proof (cases "length bs \<le> n - length res")
        case fits: True
        have "length (res @ bs) \<le> n" using fits True by simp
        moreover have "n \<le> length (res @ bs) + length (bytes_before_stop es)"
          using fits True "2.prems"(2) Arrived bs by simp
        ultimately have "\<exists>es'. recv_loop s n (res @ bs) es =
            (Inr ((res @ bs) @ take (n - length (res @ bs)) (bytes_before_stop es)), s\<lparr>incoming := es'\<rparr>)
            \<and> bytes_before_stop es' = drop (n - length (res @ bs)) (bytes_before_stop es)"
          using "2.IH"(1) [OF True Arrived bs fits] by blast
        then show ?thesis using True Arrived bs fits by simp
      next
        case False
        then show ?thesis using True Arrived bs
          by (auto intro: exI [of _ "Arrived (drop (n - length res) bs) # es"])
      qed
    next
      case (RecvError i m)
      then have i: "i = EINTR" using "2.prems"(2) True by (cases i) auto
      then show ?thesis using "2.IH"(2) [OF True RecvError i] "2.prems" True RecvError by simp
    qed (use "2.prems"(2) True in auto)
  qed
qed

interpretation sr: byte_reader recvall sock_arriving sock_ready
proof
  fix s n assume r: "sock_ready s" and n: "n \<le> length (sock_arriving s)"
  obtain es' where "recv_loop s n [] (incoming s) = (Inr (take n (sock_arriving s)), s\<lparr>incoming := es'\<rparr>)"
    "bytes_before_stop es' = drop n (sock_arriving s)"
    using recv_loop_exact [of "[]" n "incoming s" s] n by (auto simp: sock_arriving_def)
  then show "\<exists>s'. recvall n s = (Inr (take n (sock_arriving s)), s') \<and> sock_ready s'
      \<and> sock_arriving s' = drop n (sock_arriving s)"
    using r by (auto simp: recvall_def sock_ready_def sock_arriving_def)
qed

subsection \<open>The properties of the socket\<close>

text \<open>C36. However the network splits a stream and whatever calls are interrupted, \<open>recvall\<close>
  returns exactly the next bytes of it and leaves exactly the others.\<close>

theorem recvall_exact:
  assumes "sopen s" "read_buffer s = None" "n \<le> length (bytes_before_stop (incoming s))"
  shows "\<exists>es. recvall n s = (Inr (take n (bytes_before_stop (incoming s))), s\<lparr>incoming := es\<rparr>)
     \<and> bytes_before_stop es = drop n (bytes_before_stop (incoming s))"
  using recv_loop_exact [of "[]" n "incoming s" s] assms by (simp add: recvall_def)

definition sock_example :: sock where
  "sock_example = \<lparr>shost = ''localhost'', sport = 28015, sopen = True, read_buffer = None,
     incoming = [Arrived [1, 2], RecvError EINTR ''again'', Arrived [3], RecvTimeout, Arrived [4, 5, 6]],
     sending = [Accepts 2, SendError EINTR ''again'', Accepts 2], sent = [],
     shutdown_error = None, logged = []\<rparr>"

theorem recvall_exact_witness:
  "\<exists>es. recvall 3 sock_example = (Inr (take 3 (bytes_before_stop (incoming sock_example))), sock_example\<lparr>incoming := es\<rparr>)
     \<and> bytes_before_stop es = drop 3 (bytes_before_stop (incoming sock_example))"
  by (rule recvall_exact) (simp_all add: sock_example_def)

text \<open>Reading a response: from a ready socket on which a frame of the server is next, the
  token and the body of that frame, and nothing of what follows it.\<close>

theorem read_message_frame:
  assumes "sock_ready s" "token < 2 ^ 64" "length body < 2 ^ 32"
    and "sock_arriving s = le_bytes 8 token @ le_bytes 4 (length body) @ body @ later"
  shows "\<exists>s'. read_message recvall s = (Inr (signed64 token, body), s') \<and> sock_ready s'
     \<and> sock_arriving s' = later"
  by (rule sr.read_message_exact [OF assms(1,4,2,3)])

theorem read_message_frame_witness:
  "\<exists>s'. read_message recvall (sock_example\<lparr>incoming :=
       [Arrived (le_bytes 8 7 @ le_bytes 4 (length [9 :: byte])), Arrived [9, 8]]\<rparr>) = (Inr (signed64 7, [9]), s')
     \<and> sock_ready s' \<and> sock_arriving s' = [8]"
proof -
  have "le_bytes 8 7 \<noteq> []" by (metis length_le_bytes list.size(3) zero_neq_numeral)
  then show ?thesis
    by (intro read_message_frame) (simp_all add: sock_ready_def sock_arriving_def sock_example_def)
qed

lemma recv_loop_chunks:
  assumes "\<forall>bs \<in> set bss. bs \<noteq> []" "length res + length (concat bss) < n"
  shows "recv_loop s n res (map Arrived bss @ RecvTimeout # es)
    = (Inl (Raised (sock_timeout s)), s\<lparr>read_buffer := Some (res @ concat bss), incoming := es\<rparr>)"
  using assms by (induction bss arbitrary: res) auto

text \<open>A read that times out half way keeps what it has, and the same call made again
  completes it.  But the kept bytes stay in the buffer: the call after that returns them a
  second time, in front of fewer new bytes than were asked for.\<close>

theorem recvall_after_timeout:
  assumes "sopen s" "read_buffer s = None" "incoming s = map Arrived bss @ RecvTimeout # es"
    and "\<forall>bs \<in> set bss. bs \<noteq> []" "length (concat bss) < n" "length (concat bss) \<le> m"
    and "(n - length (concat bss)) + (m - length (concat bss)) \<le> length (bytes_before_stop es)"
  shows "\<exists>s1 s2 s3. recvall n s = (Inl (Raised (sock_timeout s)), s1)
     \<and> recvall n s1 = (Inr (concat bss @ take (n - length (concat bss)) (bytes_before_stop es)), s2)
     \<and> recvall m s2 = (Inr (concat bss
          @ take (m - length (concat bss)) (drop (n - length (concat bss)) (bytes_before_stop es))), s3)"
proof -
  let ?k = "length (concat bss)"
  define s1 where "s1 = s\<lparr>read_buffer := Some (concat bss), incoming := es\<rparr>"
  have 1: "recvall n s = (Inl (Raised (sock_timeout s)), s1)"
    using recv_loop_chunks [OF assms(4), of "[]" n s es] assms(1-3,5) by (simp add: recvall_def s1_def)
  have "?k \<le> n" "n \<le> ?k + length (bytes_before_stop es)" using assms(5,7) by auto
  from recv_loop_exact [OF this, of s1] obtain es' where
    2: "recv_loop s1 n (concat bss) es
        = (Inr (concat bss @ take (n - ?k) (bytes_before_stop es)), s1\<lparr>incoming := es'\<rparr>)"
    "bytes_before_stop es' = drop (n - ?k) (bytes_before_stop es)" by blast
  have "m \<le> ?k + length (bytes_before_stop es')" using assms(5,6,7) 2(2) by auto
  from recv_loop_exact [OF assms(6) this, of "s1\<lparr>incoming := es'\<rparr>"] obtain es'' where
    3: "recv_loop (s1\<lparr>incoming := es'\<rparr>) m (concat bss) es'
        = (Inr (concat bss @ take (m - ?k) (bytes_before_stop es')), s1\<lparr>incoming := es''\<rparr>)"
    by auto
  show ?thesis
    using 1 2 3 assms(1) by (simp add: recvall_def s1_def)
qed

theorem recvall_after_timeout_witness:
  "\<exists>s1 s2 s3. recvall 4 (sock_example\<lparr>incoming := [Arrived [1, 2], RecvTimeout, Arrived [3, 4, 5, 6]]\<rparr>)
       = (Inl (Raised (sock_timeout (sock_example\<lparr>incoming := [Arrived [1, 2], RecvTimeout, Arrived [3, 4, 5, 6]]\<rparr>))), s1)
     \<and> recvall 4 s1 = (Inr (concat [[1, 2]]
          @ take (4 - length (concat [[1, 2 :: byte]])) (bytes_before_stop [Arrived [3, 4, 5, 6]])), s2)
     \<and> recvall 4 s2 = (Inr (concat [[1, 2]] @ take (4 - length (concat [[1, 2 :: byte]]))
          (drop (4 - length (concat [[1, 2 :: byte]])) (bytes_before_stop [Arrived [3, 4, 5, 6]]))), s3)"
  by (rule recvall_after_timeout) (simp_all add: sock_example_def)

lemma sopen_sock_close [simp]: "\<not> sopen (sock_close s)"
  by (simp add: sock_close_def)

lemma sent_sock_close [simp]: "sent (sock_close s) = sent s"
  by (simp add: sock_close_def)

lemma send_loop_prefix:
  "send_loop s rest es = (r, s') \<Longrightarrow> \<exists>k. sent s' = sent s @ take k rest
     \<and> (r = Inr () \<longrightarrow> take k rest = rest) \<and> ((\<exists>e. r = Inl (Raised e)) \<longrightarrow> \<not> sopen s')"
proof (induction s rest es rule: send_loop.induct)
  case (1 s rest)
  then show ?case by (auto split: if_splits intro: exI [of _ 0])
next
  case (2 s rest e es)
  show ?case
  proof (cases "rest = []")
    case True
    then show ?thesis using "2.prems" by auto
  next
    case False
    show ?thesis
    proof (cases e)
      case (Accepts k)
      then have "send_loop (s\<lparr>sent := sent s @ take k rest\<rparr>) (drop k rest) es = (r, s')"
        using "2.prems" False by simp
      from "2.IH"(1) [OF False Accepts this] obtain j where
        j: "sent s' = (sent s @ take k rest) @ take j (drop k rest)"
        "r = Inr () \<longrightarrow> take j (drop k rest) = drop k rest" "(\<exists>e. r = Inl (Raised e)) \<longrightarrow> \<not> sopen s'"
        by auto
      have "take (k + j) rest = take k rest @ take j (drop k rest)" by (rule take_add)
      then show ?thesis using j by (intro exI [of _ "k + j"]) auto
    next
      case (SendError i m)
      show ?thesis
      proof (cases i)
        case EINTR
        then have "send_loop s rest es = (r, s')" using "2.prems" False SendError by simp
        then show ?thesis using "2.IH"(2) [OF False SendError EINTR] by simp
      qed (use "2.prems" False SendError in \<open>auto intro: exI [of _ 0]\<close>)
    qed (use "2.prems" False in \<open>auto intro: exI [of _ 0]\<close>)
  qed
qed

text \<open>\<open>sendall\<close> hands the data over in order: what was accepted is a prefix of it, all of it
  when the call returns; and when it raises, the socket is closed.\<close>

theorem sendall_prefix:
  assumes "sendall data s = (r, s')" "sopen s"
  shows "\<exists>k. sent s' = sent s @ take k data \<and> (r = Inr () \<longrightarrow> sent s' = sent s @ data)
     \<and> ((\<exists>e. r = Inl (Raised e)) \<longrightarrow> \<not> sopen s')"
proof -
  have "send_loop s data (sending s) = (r, s')" using assms by (simp add: sendall_def)
  then show ?thesis using send_loop_prefix by fastforce
qed

theorem sendall_prefix_witness:
  "\<exists>k. sent (sock_example\<lparr>sending := [], sent := [7, 8, 9]\<rparr>) = sent sock_example @ take k [7, 8, 9]
     \<and> ((Inr () :: io_stop + unit) = Inr () \<longrightarrow> sent (sock_example\<lparr>sending := [], sent := [7, 8, 9]\<rparr>) = sent sock_example @ [7, 8, 9])
     \<and> ((\<exists>e. (Inr () :: io_stop + unit) = Inl (Raised e)) \<longrightarrow> \<not> sopen (sock_example\<lparr>sending := [], sent := [7, 8, 9]\<rparr>))"
  by (rule sendall_prefix) (simp_all add: sendall_def sock_example_def)

end
