(* ===== verification/Digest.thy ===== *)
theory Digest
  imports PyData
begin

text \<open>
  What the handshake uses of \<open>hashlib\<close> and \<open>hmac\<close>: SHA-256 (FIPS 180-4), HMAC (RFC 2104) and
  PBKDF2 (RFC 8018) for a derived key of one block, all as functions on byte strings.  The
  code under \<open>src/\<close> calls them; \<open>Handshake\<close> compares its own PBKDF2 with the one here.
\<close>

unbundle bit_operations_syntax

subsection \<open>Big-endian integers\<close>

definition be_bytes :: "nat \<Rightarrow> nat \<Rightarrow> byte list" where
  "be_bytes w n = rev (le_bytes w n)"

definition be_val :: "byte list \<Rightarrow> nat" where
  "be_val bs = le_val (rev bs)"

lemma length_be_bytes [simp]: "length (be_bytes w n) = w"
  by (simp add: be_bytes_def)

lemma be_bytes_be_val: "length bs = w \<Longrightarrow> be_bytes w (be_val bs) = bs"
  using le_bytes_le_val [of "rev bs"] by (simp add: be_bytes_def be_val_def)

subsection \<open>SHA-256\<close>

type_synonym w32 = "32 word"

definition sha_k :: "w32 list" where
  "sha_k =
    [0x428a2f98, 0x71374491, 0xb5c0fbcf, 0xe9b5dba5, 0x3956c25b, 0x59f111f1, 0x923f82a4, 0xab1c5ed5,
     0xd807aa98, 0x12835b01, 0x243185be, 0x550c7dc3, 0x72be5d74, 0x80deb1fe, 0x9bdc06a7, 0xc19bf174,
     0xe49b69c1, 0xefbe4786, 0x0fc19dc6, 0x240ca1cc, 0x2de92c6f, 0x4a7484aa, 0x5cb0a9dc, 0x76f988da,
     0x983e5152, 0xa831c66d, 0xb00327c8, 0xbf597fc7, 0xc6e00bf3, 0xd5a79147, 0x06ca6351, 0x14292967,
     0x27b70a85, 0x2e1b2138, 0x4d2c6dfc, 0x53380d13, 0x650a7354, 0x766a0abb, 0x81c2c92e, 0x92722c85,
     0xa2bfe8a1, 0xa81a664b, 0xc24b8b70, 0xc76c51a3, 0xd192e819, 0xd6990624, 0xf40e3585, 0x106aa070,
     0x19a4c116, 0x1e376c08, 0x2748774c, 0x34b0bcb5, 0x391c0cb3, 0x4ed8aa4a, 0x5b9cca4f, 0x682e6ff3,
     0x748f82ee, 0x78a5636f, 0x84c87814, 0x8cc70208, 0x90befffa, 0xa4506ceb, 0xbef9a3f7, 0xc67178f2]"

record sha_state =
  sA :: w32
  sB :: w32
  sC :: w32
  sD :: w32
  sE :: w32
  sF :: w32
  sG :: w32
  sH :: w32

definition sha_init :: sha_state where
  "sha_init = \<lparr>sA = 0x6a09e667, sB = 0xbb67ae85, sC = 0x3c6ef372, sD = 0xa54ff53a,
     sE = 0x510e527f, sF = 0x9b05688c, sG = 0x1f83d9ab, sH = 0x5be0cd19\<rparr>"

definition rotr :: "nat \<Rightarrow> w32 \<Rightarrow> w32" where
  "rotr n w = drop_bit n w OR push_bit (32 - n) w"

definition small_sigma0 :: "w32 \<Rightarrow> w32" where
  "small_sigma0 w = rotr 7 w XOR rotr 18 w XOR drop_bit 3 w"

definition small_sigma1 :: "w32 \<Rightarrow> w32" where
  "small_sigma1 w = rotr 17 w XOR rotr 19 w XOR drop_bit 10 w"

definition big_sigma0 :: "w32 \<Rightarrow> w32" where
  "big_sigma0 w = rotr 2 w XOR rotr 13 w XOR rotr 22 w"

definition big_sigma1 :: "w32 \<Rightarrow> w32" where
  "big_sigma1 w = rotr 6 w XOR rotr 11 w XOR rotr 25 w"

text \<open>The message schedule, with the newest word in front.\<close>

fun sha_schedule :: "nat \<Rightarrow> w32 list \<Rightarrow> w32 list" where
  "sha_schedule 0 ws = rev ws"
| "sha_schedule (Suc n) ws =
     sha_schedule n
       ((small_sigma1 (ws ! 1) + ws ! 6 + small_sigma0 (ws ! 14) + ws ! 15) # ws)"

definition sha_round :: "sha_state \<Rightarrow> w32 \<times> w32 \<Rightarrow> sha_state" where
  "sha_round s kw =
     (let ch = (sE s AND sF s) XOR (NOT (sE s) AND sG s);
          maj = (sA s AND sB s) XOR (sA s AND sC s) XOR (sB s AND sC s);
          t1 = sH s + big_sigma1 (sE s) + ch + fst kw + snd kw;
          t2 = big_sigma0 (sA s) + maj
      in \<lparr>sA = t1 + t2, sB = sA s, sC = sB s, sD = sC s,
          sE = sD s + t1, sF = sE s, sG = sF s, sH = sG s\<rparr>)"

definition add_states :: "sha_state \<Rightarrow> sha_state \<Rightarrow> sha_state" where
  "add_states s t = \<lparr>sA = sA s + sA t, sB = sB s + sB t, sC = sC s + sC t, sD = sD s + sD t,
     sE = sE s + sE t, sF = sF s + sF t, sG = sG s + sG t, sH = sH s + sH t\<rparr>"

fun be_words :: "byte list \<Rightarrow> w32 list" where
  "be_words (a # b # c # d # bs) =
     (push_bit 24 (ucast a) OR push_bit 16 (ucast b) OR push_bit 8 (ucast c) OR ucast d) # be_words bs"
| "be_words _ = []"

definition sha_block :: "sha_state \<Rightarrow> byte list \<Rightarrow> sha_state" where
  "sha_block s bs = add_states s (foldl sha_round s (zip sha_k (sha_schedule 48 (rev (be_words bs)))))"

fun chunks :: "nat \<Rightarrow> nat \<Rightarrow> 'a list \<Rightarrow> 'a list list" where
  "chunks w 0 xs = []"
| "chunks w (Suc n) xs = take w xs # chunks w n (drop w xs)"

definition sha_pad :: "byte list \<Rightarrow> byte list" where
  "sha_pad m = m @ [0x80] @ replicate ((119 - length m mod 64) mod 64) 0 @ be_bytes 8 (8 * length m)"

definition state_bytes :: "sha_state \<Rightarrow> byte list" where
  "state_bytes s =
     concat (map (\<lambda>w. map (\<lambda>i. ucast (drop_bit i w)) [24, 16, 8, 0]) [sA s, sB s, sC s, sD s, sE s, sF s, sG s, sH s])"

definition sha256 :: "byte list \<Rightarrow> byte list" where
  "sha256 m =
     (let p = sha_pad m
      in state_bytes (foldl sha_block sha_init (chunks 64 (length p div 64) p)))"

lemma length_sha256 [simp]: "length (sha256 m) = 32"
  by (simp add: sha256_def state_bytes_def Let_def)

text \<open>Padding fills up the last block of 64 bytes.\<close>

lemma sha_pad_length: "length (sha_pad m) mod 64 = 0"
proof -
  define q r where "q = length m div 64" and "r = length m mod 64"
  have m: "length m = 64 * q + r" and "r < 64" by (simp_all add: q_def r_def)
  have z: "(119 - r) mod 64 = (if r \<le> 55 then 55 - r else 119 - r)"
  proof (cases "r \<le> 55")
    case True
    then have "119 - r = 64 + (55 - r)" by simp
    with True show ?thesis by (metis mod_add_self1 mod_less diff_le_self le_less_trans numeral_less_iff semiring_norm(76,78,80,81))
  qed (use \<open>r < 64\<close> in auto)
  have "length (sha_pad m) = 64 * (if r \<le> 55 then q + 1 else q + 2)"
    using m \<open>r < 64\<close> z by (simp add: sha_pad_def r_def [symmetric])
  then show ?thesis by simp
qed

subsection \<open>HMAC\<close>

definition xor_bytes :: "byte list \<Rightarrow> byte list \<Rightarrow> byte list" where
  "xor_bytes xs ys = map (\<lambda>(x, y). x XOR y) (zip xs ys)"

definition hmac_key :: "byte list \<Rightarrow> byte list" where
  "hmac_key key =
     (let k = if length key > 64 then sha256 key else key in k @ replicate (64 - length k) 0)"

definition hmac_sha256 :: "byte list \<Rightarrow> byte list \<Rightarrow> byte list" where
  "hmac_sha256 key msg =
     (let k = hmac_key key
      in sha256 (map (\<lambda>b. b XOR 0x5c) k @ sha256 (map (\<lambda>b. b XOR 0x36) k @ msg)))"

lemma length_hmac [simp]: "length (hmac_sha256 key msg) = 32"
  by (simp add: hmac_sha256_def Let_def)

lemma length_xor_bytes [simp]: "length (xor_bytes xs ys) = min (length xs) (length ys)"
  by (simp add: xor_bytes_def)

lemma xor_bytes_Nil [simp]: "xor_bytes [] ys = []"
  by (simp add: xor_bytes_def)

lemma xor_bytes_Cons [simp]: "xor_bytes (x # xs) (y # ys) = (x XOR y) # xor_bytes xs ys"
  by (simp add: xor_bytes_def)

lemma xor_bytes_cancel: "length xs = length ys \<Longrightarrow> xor_bytes (xor_bytes xs ys) ys = xs"
  by (induction xs ys rule: list_induct2) (simp_all add: xor.assoc)

subsection \<open>PBKDF2\<close>

text \<open>The first block: the exclusive or of the iterated codes, byte by byte.\<close>

fun pbkdf2_rounds :: "byte list \<Rightarrow> nat \<Rightarrow> byte list \<Rightarrow> byte list \<Rightarrow> byte list" where
  "pbkdf2_rounds password 0 t acc = acc"
| "pbkdf2_rounds password (Suc n) t acc =
     (let t' = hmac_sha256 password t in pbkdf2_rounds password n t' (xor_bytes acc t'))"

definition pbkdf2 :: "byte list \<Rightarrow> byte list \<Rightarrow> nat \<Rightarrow> byte list" where
  "pbkdf2 password salt iterations =
     (let u1 = hmac_sha256 password (salt @ [0, 0, 0, 1])
      in pbkdf2_rounds password (iterations - 1) u1 u1)"

lemma length_pbkdf2_rounds: "length acc = 32 \<Longrightarrow> length (pbkdf2_rounds password n t acc) = 32"
  by (induction n arbitrary: t acc) (simp_all add: Let_def)

lemma length_pbkdf2 [simp]: "length (pbkdf2 password salt n) = 32"
  by (simp add: pbkdf2_def Let_def length_pbkdf2_rounds)

text \<open>Exclusive or on integers is exclusive or byte by byte.\<close>

lemma byte_nat_xor: "byte_nat (m XOR n) = byte_nat m XOR byte_nat n"
  unfolding byte_nat_def by (rule bit_word_eqI) (simp add: bit_simps)

lemma le_bytes_xor: "le_bytes w (m XOR n) = xor_bytes (le_bytes w m) (le_bytes w n)"
proof (induction w arbitrary: m n)
  case (Suc w)
  have "(m XOR n) div 256 = (m div 256) XOR (n div 256)"
    using drop_bit_xor [of 8 m n] by (simp add: drop_bit_eq_div)
  then show ?case by (simp add: Suc byte_nat_xor)
qed simp

lemma xor_bytes_rev: "length xs = length ys \<Longrightarrow> xor_bytes (rev xs) (rev ys) = rev (xor_bytes xs ys)"
  by (simp add: xor_bytes_def zip_rev rev_map)

lemma be_bytes_xor: "be_bytes w (m XOR n) = xor_bytes (be_bytes w m) (be_bytes w n)"
  by (simp add: be_bytes_def le_bytes_xor xor_bytes_rev)

end
