(* ===== verification/Handshake.thy ===== *)
theory Handshake
  imports Response Digest
begin

text \<open>
  \<open>rethinkdb/handshake.py\<close> and \<open>rethinkdb/helpers.py\<close>: the V1.0 handshake, SCRAM-SHA-256 as the
  client plays it.  The state of \<open>HandshakeV1_0\<close> is the record \<open>hs\<close>; a method is a computation
  on it, so that what a method wrote before it raised stays written.  The random bytes of the
  nonce are an argument of \<open>next_message\<close>.  \<open>own_digest\<close> and \<open>own_pbkdf2\<close> say that \<open>hmac\<close>
  or \<open>hashlib\<close> lack the function of that name, so that the file's own one is used; the cache
  of the file's PBKDF2 is the current thread's.
\<close>

unbundle bit_operations_syntax

subsection \<open>Helpers\<close>

datatype piece = Str string | Bytes "byte list"

definition chain_to_bytes :: "piece list \<Rightarrow> byte list" where
  "chain_to_bytes ps = concat (map (\<lambda>p. case p of Str s \<Rightarrow> latin1 s | Bytes bs \<Rightarrow> bs) ps)"

text \<open>A text has no method \<open>decode\<close>, so it is returned as it is.\<close>

definition decode_utf8 :: "string \<Rightarrow> string" where
  "decode_utf8 s = s"

definition encode_ascii :: "string \<Rightarrow> error + byte list" where
  "encode_ascii s = (if is_ascii s then Inr (latin1 s) else Inl (value_error ''UnicodeEncodeError''))"

definition decode_ascii :: "byte list \<Rightarrow> error + string" where
  "decode_ascii bs =
     (if is_ascii (unlatin1 bs) then Inr (unlatin1 bs) else Inl (value_error ''UnicodeDecodeError''))"

text \<open>\<open>int(bs)\<close> on bytes strips fewer blanks than on text.\<close>

definition int_of_bytes :: "byte list \<Rightarrow> error + int" where
  "int_of_bytes bs =
     (if \<exists>b \<in> set bs. 28 \<le> unat b \<and> unat b \<le> 31 \<or> 128 \<le> unat b
      then Inl (value_error ''invalid literal for int() with base 10'') else py_int (unlatin1 bs))"

subsection \<open>Comparing numbers of a response\<close>

text \<open>A float literal as \<open>m * 10 ^ e\<close>; it is compared by the value it spells.\<close>

definition float_parts :: "string \<Rightarrow> int \<times> int" where
  "float_parts f =
     (let neg = (take 1 f = ''-''); t = (if neg then tl f else f);
          rest = dropWhile is_digit t;
          frac = (if take 1 rest = ''.'' then takeWhile is_digit (tl rest) else []);
          ex = tl (dropWhile (\<lambda>c. c \<noteq> CHR ''e'' \<and> c \<noteq> CHR ''E'') rest);
          e = (if take 1 ex = ''-'' then - int (read_digits 0 (tl ex))
               else if take 1 ex = ''+'' then int (read_digits 0 (tl ex)) else int (read_digits 0 ex));
          m = int (read_digits 0 (takeWhile is_digit t @ frac))
      in (if neg then - m else m, e - int (length frac)))"

definition float_le :: "string \<Rightarrow> int \<Rightarrow> bool" where
  "float_le f k =
     (if f = ''NaN'' \<or> f = ''Infinity'' then False else if f = ''-Infinity'' then True
      else case float_parts f of (m, e) \<Rightarrow>
             if 0 \<le> e then m * 10 ^ nat e \<le> k else m \<le> k * 10 ^ nat (- e))"

definition le_float :: "int \<Rightarrow> string \<Rightarrow> bool" where
  "le_float k f =
     (if f = ''NaN'' \<or> f = ''-Infinity'' then False else if f = ''Infinity'' then True
      else case float_parts f of (m, e) \<Rightarrow>
             if 0 \<le> e then k \<le> m * 10 ^ nat e else k * 10 ^ nat (- e) \<le> m)"

definition not_supported :: error where
  "not_supported = type_error ''comparison not supported between these types''"

fun num_le :: "rval \<Rightarrow> int \<Rightarrow> error + bool" where
  "num_le (RInt i) k = Inr (i \<le> k)"
| "num_le (RBool b) k = Inr ((if b then 1 else 0) \<le> k)"
| "num_le (RFloat f) k = Inr (float_le f k)"
| "num_le _ k = Inl not_supported"

fun le_num :: "int \<Rightarrow> rval \<Rightarrow> error + bool" where
  "le_num k (RInt i) = Inr (k \<le> i)"
| "le_num k (RBool b) = Inr (k \<le> (if b then 1 else 0))"
| "le_num k (RFloat f) = Inr (le_float k f)"
| "le_num k _ = Inl not_supported"

text \<open>\<open>lo <= k <= hi\<close> and \<open>lo <= v <= hi\<close> compare from the left and stop at the first failure.\<close>

definition within_values :: "rval \<Rightarrow> int \<Rightarrow> rval \<Rightarrow> error + bool" where
  "within_values lo k hi = rbind (num_le lo k) (\<lambda>b. if b then le_num k hi else Inr False)"

definition value_within :: "int \<Rightarrow> rval \<Rightarrow> int \<Rightarrow> error + bool" where
  "value_within lo v hi = rbind (le_num lo v) (\<lambda>b. if b then num_le v hi else Inr False)"

fun true_value :: "rval \<Rightarrow> bool" where
  "true_value RNull = False"
| "true_value (RBool b) = b"
| "true_value (RInt i) = (i \<noteq> 0)"
| "true_value (RFloat f) = (f \<in> {''NaN'', ''Infinity'', ''-Infinity''} \<or> fst (float_parts f) \<noteq> 0)"
| "true_value (RStr s) = (s \<noteq> [])"
| "true_value (RList vs) = (vs \<noteq> [])"
| "true_value (RDict kvs) = (kvs \<noteq> [])"
| "true_value (RTime e tz) = True"
| "true_value (RBinary bs) = (bs \<noteq> [])"
| "true_value (RGroups kvs) = (kvs \<noteq> [])"
| "true_value (RTuple vs) = (vs \<noteq> [])"
| "true_value (RFrozen kvs) = (kvs \<noteq> [])"

subsection \<open>The state\<close>

record hs =
  hhost :: string
  hport :: int
  husername :: "byte list"
  hpassword :: "byte list"
  hversion :: int
  own_digest :: bool
  own_pbkdf2 :: bool
  pbkdf2_cache :: "(byte list \<times> byte list \<times> int, byte list) dict"
  hnonce :: "byte list option"
  first_client :: "byte list option"
  server_sig :: "byte list option"
  hstate :: nat

type_synonym 'a hs_io = "(hs, error, 'a) comp"

definition protocol_version :: int where
  "protocol_version = 0"

definition escape_username :: "byte list \<Rightarrow> byte list" where
  "escape_username u =
     replace1 (byte_of (CHR '','')) (latin1 ''=2C'') (replace1 (byte_of (CHR ''='')) (latin1 ''=3D'') u)"

definition hs_init :: "string \<Rightarrow> int \<Rightarrow> string \<Rightarrow> string \<Rightarrow> int \<Rightarrow> bool \<Rightarrow> bool
    \<Rightarrow> (byte list \<times> byte list \<times> int, byte list) dict \<Rightarrow> hs" where
  "hs_init host port username password version own_cd own_kdf cache =
     \<lparr>hhost = host, hport = port, husername = escape_username (utf8_encode username),
      hpassword = latin1 password, hversion = version, own_digest = own_cd, own_pbkdf2 = own_kdf,
      pbkdf2_cache = cache, hnonce = None, first_client = None, server_sig = None, hstate = 0\<rparr>"

definition hs_reset :: "hs \<Rightarrow> hs" where
  "hs_reset h = h\<lparr>hnonce := None, first_client := None, server_sig := None, hstate := 0\<rparr>"

definition next_state :: "hs \<Rightarrow> hs" where
  "next_state h = h\<lparr>hstate := hstate h + 1\<rparr>"

subsection \<open>\<open>compare_digest\<close> and \<open>pbkdf2_hmac\<close>\<close>

definition compare_digest :: "byte list \<Rightarrow> byte list \<Rightarrow> bool" where
  "compare_digest a b =
     (let left = (if length a = length b then a else b);
          result = (if length a = length b then 0 else 1)
      in foldl (\<lambda>res (l, r). res OR (unat l XOR unat r)) result (zip left b) = (0 :: nat))"

definition from_bytes :: "byte list \<Rightarrow> nat" where
  "from_bytes bs = be_val bs"

text \<open>\<open>"%064x" % value\<close>, taken as 32 bytes.\<close>

definition to_bytes :: "nat \<Rightarrow> byte list" where
  "to_bytes v = be_bytes 32 v"

fun xor_rounds :: "byte list \<Rightarrow> nat \<Rightarrow> byte list \<Rightarrow> nat \<Rightarrow> nat" where
  "xor_rounds password 0 t u = u"
| "xor_rounds password (Suc n) t u =
     (let t' = hmac_sha256 password t in xor_rounds password n t' (u XOR from_bytes t'))"

definition pbkdf2_hmac :: "string \<Rightarrow> byte list \<Rightarrow> byte list \<Rightarrow> int \<Rightarrow> byte list hs_io" where
  "pbkdf2_hmac hash_name password salt iterations = (\<lambda>h.
     if hash_name \<noteq> ''sha256'' then
       (Inl (py_exc PyAssertionError (''Hash name '' @ hash_name @ '' is not equal with ''
              @ [CHR 0x22] @ ''sha256'' @ [CHR 0x22])), h)
     else case map_of (pbkdf2_cache h) (password, salt, iterations) of
       Some r \<Rightarrow> (Inr r, h)
     | None \<Rightarrow>
         (let t = hmac_sha256 password (salt @ [0, 0, 0, 1]);
              u = to_bytes (xor_rounds password (nat (iterations - 1)) t (from_bytes t))
          in (Inr u, h\<lparr>pbkdf2_cache := dict_put (pbkdf2_cache h) (password, salt, iterations) u\<rparr>)))"

text \<open>\<open>hashlib.pbkdf2_hmac\<close> refuses counts that are not positive or too large for a C int.\<close>

definition hashlib_pbkdf2 :: "byte list \<Rightarrow> byte list \<Rightarrow> int \<Rightarrow> byte list hs_io" where
  "hashlib_pbkdf2 password salt iterations =
     (if iterations < - (2 ^ 63) \<or> 2 ^ 31 \<le> iterations then
        raise (py_exc PyOverflowError ''iteration value is too great.'')
      else if iterations < 1 then raise (value_error ''iteration value must be greater than 0.'')
      else ret (pbkdf2 password salt (nat iterations)))"

definition run_pbkdf2 :: "byte list \<Rightarrow> byte list \<Rightarrow> int \<Rightarrow> byte list hs_io" where
  "run_pbkdf2 password salt iterations = (\<lambda>h.
     if own_pbkdf2 h then pbkdf2_hmac ''sha256'' password salt iterations h
     else hashlib_pbkdf2 password salt iterations h)"

definition digests_agree :: "hs \<Rightarrow> byte list \<Rightarrow> byte list \<Rightarrow> bool" where
  "digests_agree h a b = (if own_digest h then compare_digest a b else a = b)"

subsection \<open>Reading the server's messages\<close>

definition decode_json_response :: "hs \<Rightarrow> string option \<Rightarrow> bool \<Rightarrow> error + rval" where
  "decode_json_response h response with_utf8 =
     rbind (case response of
              None \<Rightarrow> Inl (type_error ''expected string or bytes-like object'')
            | Some s \<Rightarrow> decode [] (if with_utf8 then decode_utf8 s else s)) (\<lambda>j.
     rbind (get_or_none j ''success'') (\<lambda>success.
       if true_value success then Inr j
       else rbind (key_or_raise j ''error_code'') (\<lambda>code.
            rbind (value_within 10 code 20) (\<lambda>auth.
            rbind (key_or_raise j ''error'') (\<lambda>m.
              if auth then Inl (auth_error (str_rval m) (Some (hhost h)) (Some (hport h)))
              else Inl (driver_error (str_rval m)))))))"

definition field_pair :: "byte list \<Rightarrow> error + byte list \<times> byte list" where
  "field_pair x =
     (case split_once (byte_of (CHR ''='')) x of
        [k, v] \<Rightarrow> Inr (k, v)
      | _ \<Rightarrow> Inl (value_error ''dictionary update sequence element has length 1; 2 is required''))"

text \<open>\<open>_get_authentication_and_first_client_message\<close>.\<close>

definition auth_fields :: "rval \<Rightarrow> error + byte list \<times> (byte list, byte list) dict" where
  "auth_fields j =
     rbind (key_or_raise j ''authentication'') (\<lambda>v.
       case v of
         RStr s \<Rightarrow>
           rbind (encode_ascii s) (\<lambda>m.
           rbind (seqr (map field_pair (split_on (byte_of (CHR '','')) m))) (\<lambda>kvs. Inr (m, dict_of kvs)))
       | _ \<Rightarrow> Inl (py_exc PyAttributeError ''object has no attribute encode''))"

definition field :: "(byte list, byte list) dict \<Rightarrow> string \<Rightarrow> error + byte list" where
  "field d k = (case map_of d (latin1 k) of None \<Rightarrow> Inl (py_exc PyKeyError k) | Some v \<Rightarrow> Inr v)"

definition decode_b64 :: "byte list \<Rightarrow> error + byte list" where
  "decode_b64 bs =
     (case b64decode bs of Inl _ \<Rightarrow> Inl (value_error ''Incorrect padding'') | Inr x \<Rightarrow> Inr x)"

subsection \<open>The four steps\<close>

text \<open>What \<open>next_message\<close> returns: None, the empty string, or bytes to send.\<close>

datatype request = Finished | NoMessage | Message "byte list"

definition pack_version :: "int \<Rightarrow> error + byte list" where
  "pack_version v =
     (if 0 \<le> v \<and> v < 2 ^ 32 then Inr (le_bytes 4 (nat v)) else Inl (py_exc PyStructError ''argument out of range''))"

definition initial_message :: "hs \<Rightarrow> byte list \<Rightarrow> error + byte list" where
  "initial_message h first =
     rbind (pack_version (hversion h)) (\<lambda>version.
     rbind (decode_ascii (chain_to_bytes [Str ''n,,'', Bytes first])) (\<lambda>authentication.
       Inr (chain_to_bytes
         [Bytes version,
          Bytes (utf8_encode (json_text (JObj
            [(''protocol_version'', JInt protocol_version),
             (''authentication_method'', JStr ''SCRAM-SHA-256''),
             (''authentication'', JStr authentication)]))),
          Bytes [0]])))"

definition init_connection :: "byte list \<Rightarrow> string option \<Rightarrow> request hs_io" where
  "init_connection random response = (\<lambda>h.
     if response \<noteq> None then (Inl (driver_error ''Unexpected response''), h)
     else
       (let nonce = b64encode random;
            first = chain_to_bytes [Str ''n='', Bytes (husername h), Str '',r='', Bytes nonce];
            h1 = h\<lparr>hnonce := Some nonce, first_client := Some first\<rparr>
        in case initial_message h1 first of
             Inl e \<Rightarrow> (Inl e, h1)
           | Inr m \<Rightarrow> (Inr (Message m), next_state h1)))"

definition version_error :: "rval \<Rightarrow> rval \<Rightarrow> error" where
  "version_error lo hi = driver_error
     (''Unsupported protocol version '' @ show_int protocol_version @ '', expected between ''
      @ str_rval lo @ '' and '' @ str_rval hi)"

definition read_response :: "string option \<Rightarrow> request hs_io" where
  "read_response response = (\<lambda>h.
     case rbind (decode_json_response h response False) (\<lambda>j.
          rbind (key_or_raise j ''min_protocol_version'') (\<lambda>lo.
          rbind (key_or_raise j ''max_protocol_version'') (\<lambda>hi.
          rbind (within_values lo protocol_version hi) (\<lambda>ok.
            if ok then Inr () else Inl (version_error lo hi))))) of
       Inl e \<Rightarrow> (Inl e, h)
     | Inr _ \<Rightarrow> (Inr NoMessage, next_state h))"

definition client_final :: "byte list \<Rightarrow> byte list" where
  "client_final nonce = chain_to_bytes [Str ''c=biws,r='', Bytes nonce]"

definition proof_message :: "byte list \<Rightarrow> byte list \<Rightarrow> error + byte list" where
  "proof_message without_proof client_proof =
     rbind (decode_ascii (chain_to_bytes [Bytes without_proof, Str '',p='', Bytes (b64encode client_proof)]))
       (\<lambda>a. Inr (chain_to_bytes [Str (json_text (JObj [(''authentication'', JStr a)])), Bytes [0]]))"

text \<open>What the step reads before it derives the key: the server's message, its nonce, the salt
  and the iteration count.\<close>

definition server_challenge ::
    "hs \<Rightarrow> string option \<Rightarrow> error + byte list \<times> byte list \<times> byte list \<times> int" where
  "server_challenge h response =
     rbind (decode_json_response h response True) (\<lambda>j.
     rbind (auth_fields j) (\<lambda>(first, authentication).
     rbind (field authentication ''r'') (\<lambda>nonce.
       case hnonce h of
         None \<Rightarrow> Inl (type_error ''startswith first arg must be bytes or a tuple of bytes'')
       | Some own \<Rightarrow>
           if take (length own) nonce \<noteq> own
           then Inl (auth_error ''Invalid nonce from server'' (Some (hhost h)) (Some (hport h)))
           else rbind (field authentication ''s'') (\<lambda>s. rbind (decode_b64 s) (\<lambda>salt.
                rbind (field authentication ''i'') (\<lambda>i. rbind (int_of_bytes i) (\<lambda>iterations.
                  Inr (first, nonce, salt, iterations))))))))"

definition prepare_auth_request :: "string option \<Rightarrow> request hs_io" where
  "prepare_auth_request response =
     bind (\<lambda>h. (server_challenge h response, h)) (\<lambda>(first, nonce, salt, iterations).
     bind (\<lambda>h. run_pbkdf2 (hpassword h) salt iterations h) (\<lambda>salted_password h.
       case first_client h of
         None \<Rightarrow> (Inl (type_error ''sequence item 0: expected a bytes-like object''), h)
       | Some client_first \<Rightarrow>
           (let without_proof = client_final nonce;
                auth_message = join (latin1 '','') [client_first, first, without_proof];
                signature = hmac_sha256 (hmac_sha256 salted_password (latin1 ''Server Key'')) auth_message;
                client_key = hmac_sha256 salted_password (latin1 ''Client Key'');
                client_signature = hmac_sha256 (sha256 client_key) auth_message;
                client_proof = xor_bytes client_key client_signature;
                h1 = h\<lparr>server_sig := Some signature\<rparr>
            in case proof_message without_proof client_proof of
                 Inl e \<Rightarrow> (Inl e, h1)
               | Inr m \<Rightarrow> (Inr (Message m), next_state h1))))"

definition claimed_signature :: "hs \<Rightarrow> string option \<Rightarrow> error + byte list" where
  "claimed_signature h response =
     rbind (decode_json_response h response True) (\<lambda>j.
     rbind (auth_fields j) (\<lambda>(first, authentication).
     rbind (field authentication ''v'') decode_b64))"

definition read_auth_response :: "string option \<Rightarrow> request hs_io" where
  "read_auth_response response = (\<lambda>h.
     case claimed_signature h response of
       Inl e \<Rightarrow> (Inl e, h)
     | Inr signature \<Rightarrow>
         (case server_sig h of
            None \<Rightarrow> (Inl (type_error ''unsupported operand types''), h)
          | Some own \<Rightarrow>
              if digests_agree h signature own then (Inr Finished, next_state h)
              else (Inl (auth_error ''Invalid server signature'' (Some (hhost h)) (Some (hport h))), h)))"

definition response_text :: "byte list option \<Rightarrow> error + string option" where
  "response_text response =
     (case response of
        None \<Rightarrow> Inr None
      | Some bs \<Rightarrow> (case utf8_decode bs of
                     Inl _ \<Rightarrow> Inl (value_error ''UnicodeDecodeError'') | Inr s \<Rightarrow> Inr (Some s)))"

definition next_message :: "byte list \<Rightarrow> byte list option \<Rightarrow> request hs_io" where
  "next_message random response =
     bind (lift_res (response_text response)) (\<lambda>text h.
       if hstate h = 0 then init_connection random text h
       else if hstate h = 1 then read_response text h
       else if hstate h = 2 then prepare_auth_request text h
       else if hstate h = 3 then read_auth_response text h
       else (Inl (driver_error ''Unexpected handshake state''), h))"

subsection \<open>The file's own digest functions\<close>

lemma xor_nat_eq_0 [simp]: "m XOR n = 0 \<longleftrightarrow> m = (n :: nat)"
  by (metis bit.xor_self bit_eqI bit_xor_iff bot_nat_0.extremum bit_0_eq bot_apply bot_bool_def xor_self_eq)

lemma unat_byte_inject: "unat (l :: byte) = unat r \<longleftrightarrow> l = r"
  by (simp add: byte_eq_iff)

lemma foldl_or_zero:
  "foldl (\<lambda>res (l, r). res OR (unat l XOR unat r)) a ps = (0 :: nat)
     \<longleftrightarrow> a = 0 \<and> (\<forall>(l, r) \<in> set ps. (l :: byte) = r)"
  by (induction ps arbitrary: a) (auto simp: unat_byte_inject or_eq_0_iff)

lemma zip_all_equal: "length xs = length ys \<Longrightarrow> (\<forall>(x, y) \<in> set (zip xs ys). x = y) \<longleftrightarrow> xs = ys"
  by (induction xs ys rule: list_induct2) auto

lemma compare_digest_eq: "compare_digest a b \<longleftrightarrow> a = b"
  by (auto simp: compare_digest_def Let_def foldl_or_zero zip_all_equal)

lemma digests_agree_eq [simp]: "digests_agree h a b \<longleftrightarrow> a = b"
  by (simp add: digests_agree_def compare_digest_eq)

lemma xor_rounds_bytes:
  "to_bytes (xor_rounds password n t u) = pbkdf2_rounds password n t (to_bytes u)"
  by (induction n arbitrary: t u)
    (simp_all add: Let_def to_bytes_def from_bytes_def be_bytes_xor be_bytes_be_val)

definition cache_ok :: "(byte list \<times> byte list \<times> int, byte list) dict \<Rightarrow> bool" where
  "cache_ok c \<longleftrightarrow>
     (\<forall>password salt n v. map_of c (password, salt, n) = Some v \<longrightarrow> v = pbkdf2 password salt (nat n))"

lemma pbkdf2_hmac_run:
  assumes "cache_ok (pbkdf2_cache h)"
  shows "\<exists>c. pbkdf2_hmac ''sha256'' password salt n h
       = (Inr (pbkdf2 password salt (nat n)), h\<lparr>pbkdf2_cache := c\<rparr>) \<and> cache_ok c"
proof (cases "map_of (pbkdf2_cache h) (password, salt, n)")
  case None
  let ?t = "hmac_sha256 password (salt @ [0, 0, 0, 1])"
  have "to_bytes (from_bytes ?t) = ?t" by (simp add: to_bytes_def from_bytes_def be_bytes_be_val)
  moreover have "nat (n - 1) = nat n - 1" by simp
  ultimately have "to_bytes (xor_rounds password (nat (n - 1)) ?t (from_bytes ?t)) = pbkdf2 password salt (nat n)"
    by (simp only: xor_rounds_bytes pbkdf2_def Let_def)
  moreover have "cache_ok (dict_put (pbkdf2_cache h) (password, salt, n) (pbkdf2 password salt (nat n)))"
    using assms by (auto simp: cache_ok_def dict_simps)
  ultimately show ?thesis using None by (auto simp: pbkdf2_hmac_def Let_def)
next
  case (Some v)
  then have "v = pbkdf2 password salt (nat n)" using assms by (auto simp: cache_ok_def)
  then show ?thesis using assms Some
    by (intro exI [of _ "pbkdf2_cache h"]) (simp add: pbkdf2_hmac_def)
qed

lemma run_pbkdf2_ok:
  assumes "cache_ok (pbkdf2_cache h)" "run_pbkdf2 password salt n h = (r, h')"
  shows "\<exists>c. h' = h\<lparr>pbkdf2_cache := c\<rparr> \<and> cache_ok c \<and> (\<forall>k. r = Inr k \<longrightarrow> k = pbkdf2 password salt (nat n))"
proof (cases "own_pbkdf2 h")
  case True
  then show ?thesis using pbkdf2_hmac_run [OF assms(1), of password salt n] assms(2)
    by (auto simp: run_pbkdf2_def)
next
  case False
  then have "h' = h" "\<forall>k. r = Inr k \<longrightarrow> k = pbkdf2 password salt (nat n)"
    using assms(2) by (auto simp: run_pbkdf2_def hashlib_pbkdf2_def comp_simps split: if_splits)
  then show ?thesis using assms(1) by (intro exI [of _ "pbkdf2_cache h"]) simp
qed

lemma run_pbkdf2_counts:
  assumes "cache_ok (pbkdf2_cache h)" "1 \<le> n" "n < 2 ^ 31"
  shows "\<exists>c. run_pbkdf2 password salt n h
       = (Inr (pbkdf2 password salt (nat n)), h\<lparr>pbkdf2_cache := c\<rparr>) \<and> cache_ok c"
proof (cases "own_pbkdf2 h")
  case True
  then show ?thesis using pbkdf2_hmac_run [OF assms(1)] by (simp add: run_pbkdf2_def)
next
  case False
  then show ?thesis using assms
    by (intro exI [of _ "pbkdf2_cache h"]) (simp add: run_pbkdf2_def hashlib_pbkdf2_def ret_def)
qed

subsection \<open>Names in the first message\<close>

text \<open>How RFC 5802 has a server read a name: \<open>=2C\<close> and \<open>=3D\<close>, and no other \<open>=\<close> or comma.\<close>

fun unescape_username :: "byte list \<Rightarrow> byte list option" where
  "unescape_username [] = Some []"
| "unescape_username (b # bs) =
     (if b = byte_of (CHR ''='') then
        (if take 2 bs = latin1 ''2C'' then map_option (Cons (byte_of (CHR '',''))) (unescape_username (drop 2 bs))
         else if take 2 bs = latin1 ''3D'' then map_option (Cons (byte_of (CHR ''=''))) (unescape_username (drop 2 bs))
         else None)
      else if b = byte_of (CHR '','') then None else map_option (Cons b) (unescape_username bs))"

lemma comma_not_pad [simp]: "byte_of (CHR '','') \<noteq> pad" "pad \<noteq> byte_of (CHR '','')"
  by (simp_all add: byte_eq_iff pad_def code_point_def)

lemma escape_username_Nil [simp]: "escape_username [] = []"
  by (simp add: escape_username_def)

lemma escape_username_Cons:
  "escape_username (b # bs) =
     (if b = byte_of (CHR ''='') then latin1 ''=3D'' else if b = byte_of (CHR '','') then latin1 ''=2C'' else [b])
       @ escape_username bs"
  by (simp add: escape_username_def replace1_append latin1_Cons)

lemma unescape_escape: "unescape_username (escape_username u) = Some u"
  by (induction u) (simp_all add: escape_username_Cons latin1_Cons)

lemma escape_no_comma: "byte_of (CHR '','') \<notin> set (escape_username u)"
  by (induction u) (auto simp: escape_username_Cons latin1_Cons)

definition opt_res :: "'e \<Rightarrow> 'a option \<Rightarrow> 'e + 'a" where
  "opt_res e r = (case r of None \<Rightarrow> Inl e | Some x \<Rightarrow> Inr x)"

interpretation username: codec escape_username "\<lambda>bs. opt_res () (unescape_username bs)" "\<lambda>_. True"
  by unfold_locales (simp add: opt_res_def unescape_escape)

subsection \<open>The steps\<close>

text \<open>What no step changes.\<close>

definition same_client :: "hs \<Rightarrow> hs \<Rightarrow> bool" where
  "same_client h h' \<longleftrightarrow> hhost h' = hhost h \<and> hport h' = hport h \<and> husername h' = husername h
     \<and> hpassword h' = hpassword h \<and> hversion h' = hversion h \<and> own_digest h' = own_digest h
     \<and> own_pbkdf2 h' = own_pbkdf2 h"

definition scram_signature ::
    "byte list \<Rightarrow> byte list \<Rightarrow> int \<Rightarrow> byte list \<Rightarrow> byte list \<Rightarrow> byte list \<Rightarrow> byte list" where
  "scram_signature password salt n client_first server_first nonce =
     hmac_sha256 (hmac_sha256 (pbkdf2 password salt (nat n)) (latin1 ''Server Key''))
       (join (latin1 '','') [client_first, server_first, client_final nonce])"

definition client_first_message :: "hs \<Rightarrow> byte list \<Rightarrow> byte list" where
  "client_first_message h nonce =
     chain_to_bytes [Str ''n='', Bytes (husername h), Str '',r='', Bytes nonce]"

lemma run_pbkdf2_frame:
  "run_pbkdf2 password salt n h = (r, h') \<Longrightarrow> \<exists>c. h' = h\<lparr>pbkdf2_cache := c\<rparr>"
  by (auto simp: run_pbkdf2_def pbkdf2_hmac_def hashlib_pbkdf2_def comp_simps Let_def
      intro: exI [of _ "pbkdf2_cache h"] split: if_splits option.splits)

lemma init_connection_step:
  assumes "init_connection random text h = (r, h')"
  shows "same_client h h' \<and> pbkdf2_cache h' = pbkdf2_cache h \<and> server_sig h' = server_sig h
     \<and> (case r of Inl e \<Rightarrow> hstate h' = hstate h
        | Inr m \<Rightarrow> hstate h' = hstate h + 1 \<and> (\<exists>bs. m = Message bs) \<and> hnonce h' = Some (b64encode random)
            \<and> first_client h' = Some (client_first_message h (b64encode random)))"
  using assms by (auto simp: init_connection_def same_client_def next_state_def client_first_message_def Let_def
      split: if_splits sum.splits)

lemma read_response_step:
  assumes "read_response text h = (r, h')"
  shows "(case r of Inl e \<Rightarrow> h' = h | Inr m \<Rightarrow> m = NoMessage \<and> h' = next_state h)"
  using assms by (auto simp: read_response_def split: sum.splits)

lemma prepare_auth_request_step:
  assumes "prepare_auth_request text h = (r, h')"
  shows "\<exists>c s n. h' = h\<lparr>pbkdf2_cache := c, server_sig := s, hstate := n\<rparr>
     \<and> (case r of Inl e \<Rightarrow> n = hstate h | Inr m \<Rightarrow> n = hstate h + 1 \<and> (\<exists>bs. m = Message bs))"
proof (cases "server_challenge h text")
  case (Inl e)
  then show ?thesis using assms
    by (intro exI [of _ "pbkdf2_cache h"] exI [of _ "server_sig h"] exI [of _ "hstate h"])
      (auto simp: prepare_auth_request_def bind_def)
next
  case (Inr x)
  obtain first nonce salt n where x: "x = (first, nonce, salt, n)" by (cases x)
  obtain k h1 where k: "run_pbkdf2 (hpassword h) salt n h = (k, h1)" by (cases "run_pbkdf2 (hpassword h) salt n h")
  then obtain c where h1: "h1 = h\<lparr>pbkdf2_cache := c\<rparr>" using run_pbkdf2_frame by blast
  show ?thesis
    using assms Inr x k h1
    by (intro exI [of _ c] exI [of _ "server_sig h'"] exI [of _ "hstate h'"])
      (auto simp: prepare_auth_request_def bind_def next_state_def Let_def
        split: sum.splits option.splits)
qed

lemma prepare_auth_request_ok:
  assumes "prepare_auth_request text h = (Inr m, h')" "cache_ok (pbkdf2_cache h)"
  shows "\<exists>first nonce salt n client_first. server_challenge h text = Inr (first, nonce, salt, n)
     \<and> first_client h = Some client_first
     \<and> server_sig h' = Some (scram_signature (hpassword h) salt n client_first first nonce)"
proof -
  obtain first nonce salt n where c: "server_challenge h text = Inr (first, nonce, salt, n)"
    using assms(1) by (auto simp: prepare_auth_request_def comp_simps)
  obtain k h1 where k: "run_pbkdf2 (hpassword h) salt n h = (Inr k, h1)"
    using assms(1) c by (auto simp: prepare_auth_request_def comp_simps)
  then have "k = pbkdf2 (hpassword h) salt (nat n)" and "\<exists>c. h1 = h\<lparr>pbkdf2_cache := c\<rparr>"
    using run_pbkdf2_ok [OF assms(2) k] by auto
  then show ?thesis
    using assms(1) c k
    by (auto simp: prepare_auth_request_def bind_def next_state_def Let_def scram_signature_def
        split: sum.splits option.splits)
qed

lemma prepare_cache_ok:
  assumes "prepare_auth_request text h = (r, h')" "cache_ok (pbkdf2_cache h)"
  shows "cache_ok (pbkdf2_cache h')"
proof (cases "server_challenge h text")
  case (Inl e)
  then show ?thesis using assms by (auto simp: prepare_auth_request_def bind_def)
next
  case (Inr x)
  obtain first nonce salt n where x: "x = (first, nonce, salt, n)" by (cases x)
  obtain k h1 where k: "run_pbkdf2 (hpassword h) salt n h = (k, h1)" by (cases "run_pbkdf2 (hpassword h) salt n h")
  then have "cache_ok (pbkdf2_cache h1)" using run_pbkdf2_ok [OF assms(2) k] by auto
  then show ?thesis
    using assms Inr x k
    by (auto simp: prepare_auth_request_def bind_def next_state_def Let_def
        split: sum.splits option.splits)
qed

lemma read_auth_response_step:
  assumes "read_auth_response text h = (r, h')"
  shows "(case r of Inl e \<Rightarrow> h' = h
     | Inr m \<Rightarrow> m = Finished \<and> h' = next_state h
         \<and> (\<exists>signature. claimed_signature h text = Inr signature \<and> server_sig h = Some signature))"
  using assms by (auto simp: read_auth_response_def split: sum.splits option.splits if_splits)

text \<open>\<open>next_message\<close> by the state it is called in.\<close>

lemma next_message_cases:
  assumes "next_message random response h = (r, h')"
  obtains (undecodable) e where "response_text response = Inl e" "r = Inl e" "h' = h"
  | (init) utext where "response_text response = Inr utext" "hstate h = 0" "init_connection random utext h = (r, h')"
  | (read) utext where "response_text response = Inr utext" "hstate h = 1" "read_response utext h = (r, h')"
  | (prepare) utext where "response_text response = Inr utext" "hstate h = 2" "prepare_auth_request utext h = (r, h')"
  | (finish) utext where "response_text response = Inr utext" "hstate h = 3" "read_auth_response utext h = (r, h')"
  | (over) utext where "response_text response = Inr utext" "3 < hstate h" "h' = h"
      "r = Inl (driver_error ''Unexpected handshake state'')"
proof (cases "response_text response")
  case (Inl e)
  then show ?thesis using assms undecodable by (simp add: next_message_def bind_def lift_res_def)
next
  case (Inr t)
  have n: "next_message random response h = (if hstate h = 0 then init_connection random t h
       else if hstate h = 1 then read_response t h else if hstate h = 2 then prepare_auth_request t h
       else if hstate h = 3 then read_auth_response t h
       else (Inl (driver_error ''Unexpected handshake state''), h))"
    using Inr by (simp add: next_message_def bind_def lift_res_def)
  consider "hstate h = 0" | "hstate h = 1" | "hstate h = 2" | "hstate h = 3" | "3 < hstate h"
    by linarith
  then show ?thesis
  proof cases
    case 1
    then show ?thesis using init [OF Inr] assms n by simp
  next
    case 2
    then show ?thesis using read [OF Inr] assms n by simp
  next
    case 3
    then show ?thesis using prepare [OF Inr] assms n by simp
  next
    case 4
    then show ?thesis using finish [OF Inr] assms n by simp
  next
    case 5
    then show ?thesis using over [OF Inr] assms n by simp
  qed
qed

subsection \<open>Handshakes\<close>

text \<open>The states a handshake object can be in, with the responses it was given since it was made
  or reset.\<close>

inductive hs_reachable :: "hs \<Rightarrow> byte list option list \<Rightarrow> hs \<Rightarrow> bool" for start :: hs where
  hs_start: "hs_reachable start [] start"
| hs_message: "hs_reachable start rs h \<Longrightarrow> next_message random response h = (r, h')
     \<Longrightarrow> hs_reachable start (response # rs) h'"
| hs_reset: "hs_reachable start rs h \<Longrightarrow> hs_reachable start [] (hs_reset h)"

inductive_simps hs_reachable_iff: "hs_reachable start rs h"

definition has_first :: "hs \<Rightarrow> bool" where
  "has_first h \<longleftrightarrow>
     (\<exists>own. hnonce h = Some own \<and> first_client h = Some (client_first_message h own))"

definition challenged :: "byte list option list \<Rightarrow> hs \<Rightarrow> bool" where
  "challenged rs h \<longleftrightarrow>
     (\<exists>response \<in> set rs. \<exists>utext first nonce salt n own. response_text response = Inr utext
        \<and> server_challenge h utext = Inr (first, nonce, salt, n) \<and> hnonce h = Some own
        \<and> server_sig h = Some (scram_signature (hpassword h) salt n (client_first_message h own) first nonce))"

definition hs_inv :: "byte list option list \<Rightarrow> hs \<Rightarrow> bool" where
  "hs_inv rs h \<longleftrightarrow> cache_ok (pbkdf2_cache h) \<and> (0 < hstate h \<longrightarrow> has_first h)
     \<and> (2 < hstate h \<longrightarrow> challenged rs h)"

lemma server_challenge_cong:
  assumes "hnonce h' = hnonce h" "hhost h' = hhost h" "hport h' = hport h"
  shows "server_challenge h' response = server_challenge h response"
  unfolding server_challenge_def decode_json_response_def assms by (rule refl)

lemma client_first_cong: "husername h' = husername h \<Longrightarrow> client_first_message h' = client_first_message h"
  by (simp add: client_first_message_def fun_eq_iff)

text \<open>Both depend on the nonce, the first message, the signature and what no step changes.\<close>

definition same_keys :: "hs \<Rightarrow> hs \<Rightarrow> bool" where
  "same_keys h h' \<longleftrightarrow> hhost h' = hhost h \<and> hport h' = hport h \<and> husername h' = husername h
     \<and> hpassword h' = hpassword h \<and> hnonce h' = hnonce h \<and> first_client h' = first_client h"

lemma same_keysD:
  assumes "same_keys h h'"
  shows "server_challenge h' t = server_challenge h t" "client_first_message h' = client_first_message h"
    "hnonce h' = hnonce h" "first_client h' = first_client h" "hpassword h' = hpassword h"
proof -
  show "hnonce h' = hnonce h" "first_client h' = first_client h" "hpassword h' = hpassword h"
    using assms by (simp_all add: same_keys_def)
  show "server_challenge h' t = server_challenge h t"
    by (rule server_challenge_cong) (use assms in \<open>simp_all add: same_keys_def\<close>)
  show "client_first_message h' = client_first_message h"
    by (rule client_first_cong) (use assms in \<open>simp add: same_keys_def\<close>)
qed

lemma same_keys_next [simp]: "same_keys h (next_state h)"
  by (simp add: same_keys_def next_state_def)

lemma has_first_cong: "same_keys h h' \<Longrightarrow> has_first h' = has_first h"
  unfolding has_first_def using same_keysD(2-4) [of h h'] by simp

lemma challenged_cong:
  assumes "same_keys h h'" "server_sig h' = server_sig h"
  shows "challenged rs h' = challenged rs h"
  unfolding challenged_def same_keysD [OF assms(1)] assms(2) by (rule refl)

lemma challenged_mono: "challenged rs h \<Longrightarrow> set rs \<subseteq> set rs' \<Longrightarrow> challenged rs' h"
  unfolding challenged_def by blast

lemma hs_inv_mono: "hs_inv rs h \<Longrightarrow> set rs \<subseteq> set rs' \<Longrightarrow> hs_inv rs' h"
  unfolding hs_inv_def using challenged_mono by blast

lemma hs_inv_advance:
  assumes "hs_inv rs h" "hstate h \<in> {1, 3}"
  shows "hs_inv rs (next_state h)"
proof -
  have f: "server_sig (next_state h) = server_sig h" "hstate (next_state h) = hstate h + 1"
    "pbkdf2_cache (next_state h) = pbkdf2_cache h"
    by (simp_all add: next_state_def)
  then have "has_first (next_state h) = has_first h" "challenged rs (next_state h) = challenged rs h"
    by (simp_all add: has_first_cong challenged_cong)
  note this f
  then show ?thesis using assms by (auto simp: hs_inv_def)
qed

lemma hs_inv_init:
  assumes "hs_inv rs h" "hstate h = 0" "init_connection random utext h = (r, h')"
  shows "hs_inv rs' h'"
proof -
  note st = init_connection_step [OF assms(3)]
  have c: "cache_ok (pbkdf2_cache h')" using st assms(1) by (simp add: hs_inv_def)
  show ?thesis
  proof (cases r)
    case (Inl e)
    then show ?thesis using st assms(2) c by (simp add: hs_inv_def)
  next
    case (Inr m)
    have "client_first_message h' = client_first_message h"
      using st by (intro client_first_cong) (simp add: same_client_def)
    then have "has_first h'" using st Inr by (simp add: has_first_def)
    then show ?thesis using st Inr assms(2) c by (simp add: hs_inv_def)
  qed
qed

lemma hs_inv_prepare:
  assumes "hs_inv rs h" "hstate h = 2" "prepare_auth_request utext h = (r, h')"
    and "response_text response = Inr utext"
  shows "hs_inv (response # rs) h'"
proof -
  have f: "has_first h" and cache: "cache_ok (pbkdf2_cache h)" using assms(1,2) by (auto simp: hs_inv_def)
  obtain c s n where h': "h' = h\<lparr>pbkdf2_cache := c, server_sig := s, hstate := n\<rparr>"
    and n: "case r of Inl e \<Rightarrow> n = hstate h | Inr m \<Rightarrow> n = hstate h + 1 \<and> (\<exists>bs. m = Message bs)"
    using prepare_auth_request_step [OF assms(3)] by blast
  have same: "same_keys h h'" by (simp add: same_keys_def h')
  then have f': "has_first h'" using f by (simp add: has_first_cong)
  have cache': "cache_ok (pbkdf2_cache h')" by (rule prepare_cache_ok [OF assms(3) cache])
  show ?thesis
  proof (cases r)
    case (Inl e)
    then have "hstate h' = 2" using n assms(2) h' by simp
    then show ?thesis using f' cache' by (simp add: hs_inv_def)
  next
    case (Inr m)
    obtain own where own: "hnonce h = Some own" "first_client h = Some (client_first_message h own)"
      using f by (auto simp: has_first_def)
    from prepare_auth_request_ok [OF assms(3) [unfolded Inr] cache] obtain first nonce salt k where
      "server_challenge h utext = Inr (first, nonce, salt, k)"
      "server_sig h' = Some (scram_signature (hpassword h) salt k (client_first_message h own) first nonce)"
      using own by auto
    then have "challenged (response # rs) h'"
      using own(1) assms(4) by (auto simp: challenged_def same_keysD [OF same])
    then show ?thesis using f' cache' by (simp add: hs_inv_def)
  qed
qed

lemma hs_inv_step:
  assumes "hs_inv rs h" "next_message random response h = (r, h')"
  shows "hs_inv (response # rs) h'"
  using assms(2)
proof (cases rule: next_message_cases)
  case (init utext)
  then show ?thesis using hs_inv_init assms(1) by blast
next
  case (read utext)
  have "h' = h \<or> h' = next_state h" using read_response_step [OF read(3)] by (auto split: sum.splits)
  moreover have "hs_inv (response # rs) h" using assms(1) by (rule hs_inv_mono) auto
  ultimately show ?thesis using hs_inv_advance read(2) by auto
next
  case (prepare utext)
  then show ?thesis using hs_inv_prepare assms(1) by blast
next
  case (finish utext)
  have "h' = h \<or> h' = next_state h" using read_auth_response_step [OF finish(3)] by (auto split: sum.splits)
  moreover have "hs_inv (response # rs) h" using assms(1) by (rule hs_inv_mono) auto
  ultimately show ?thesis using hs_inv_advance finish(2) by auto
qed (use assms(1) in \<open>auto intro: hs_inv_mono\<close>)

lemma hs_reachable_inv:
  assumes "hs_reachable start rs h" "cache_ok (pbkdf2_cache start)" "hstate start = 0"
  shows "hs_inv rs h"
  using assms(1)
proof (induction rule: hs_reachable.induct)
  case hs_start
  then show ?case using assms(2,3) by (simp add: hs_inv_def)
next
  case (hs_message rs h random response r h')
  then show ?case by (blast intro: hs_inv_step)
next
  case (hs_reset rs h)
  then show ?case by (simp add: hs_inv_def hs_reset_def)
qed

subsection \<open>Messages as a server writes and reads them\<close>

definition fields_text :: "(string \<times> string) list \<Rightarrow> string" where
  "fields_text kvs = join '','' (map (\<lambda>kv. fst kv @ ''='' @ snd kv) kvs)"

definition field_ok :: "string \<times> string \<Rightarrow> bool" where
  "field_ok kv \<longleftrightarrow> is_ascii (fst kv) \<and> is_ascii (snd kv) \<and> CHR ''='' \<notin> set (fst kv)
     \<and> CHR '','' \<notin> set (fst kv) \<and> CHR '','' \<notin> set (snd kv)"

definition server_reply :: "(string \<times> json) list \<Rightarrow> string" where
  "server_reply kvs = json_text (JObj ((''success'', JBool True) # kvs))"

lemma is_ascii_simps [simp]:
  "is_ascii []" "is_ascii (c # s) \<longleftrightarrow> code_point c < 128 \<and> is_ascii s"
  "is_ascii (s @ t) \<longleftrightarrow> is_ascii s \<and> is_ascii t"
  by (auto simp: is_ascii_def)

lemma is_ascii_join: "is_ascii sep \<Longrightarrow> \<forall>s \<in> set ss. is_ascii s \<Longrightarrow> is_ascii (join sep ss)"
  by (induction sep ss rule: join.induct) auto

lemma latin1_join: "latin1 (join sep ss) = join (latin1 sep) (map latin1 ss)"
  by (induction sep ss rule: join.induct) auto

lemma byte_in_latin1: "byte_of c \<in> set (latin1 s) \<longleftrightarrow> c \<in> set s"
  by (auto simp: latin1_def)

lemma code_points [simp]: "code_point (CHR '','') = 44" "code_point (CHR ''='') = 61"
  by (simp_all add: code_point_def)

lemma field_pair_ok:
  assumes "field_ok kv"
  shows "field_pair (latin1 (fst kv @ ''='' @ snd kv)) = Inr (latin1 (fst kv), latin1 (snd kv))"
proof -
  have "byte_of (CHR ''='') \<notin> set (latin1 (fst kv))" using assms byte_in_latin1 by (simp add: field_ok_def del: byte_of_equals)
  from split_once_append [OF this] show ?thesis by (simp add: field_pair_def latin1_Cons)
qed

lemma auth_fields_ok:
  assumes "kvs \<noteq> []" "\<forall>kv \<in> set kvs. field_ok kv" "map_of obj ''authentication'' = Some (RStr (fields_text kvs))"
  shows "auth_fields (RDict obj)
    = Inr (latin1 (fields_text kvs), dict_of (map (\<lambda>kv. (latin1 (fst kv), latin1 (snd kv))) kvs))"
proof -
  let ?ws = "map (\<lambda>kv. latin1 (fst kv @ ''='' @ snd kv)) kvs"
  have a: "is_ascii (fields_text kvs)"
    using assms(2) unfolding fields_text_def by (intro is_ascii_join) (fastforce simp: field_ok_def)+
  have "latin1 (fields_text kvs) = join [byte_of (CHR '','')] ?ws"
    by (simp add: fields_text_def latin1_join latin1_Cons comp_def)
  moreover have "\<forall>w \<in> set ?ws. byte_of (CHR '','') \<notin> set w"
    using assms(2) by (auto simp: field_ok_def latin1_Cons byte_in_latin1)
  ultimately have "split_on (byte_of (CHR '','')) (latin1 (fields_text kvs)) = ?ws"
    using assms(1) by (simp add: split_on_join)
  moreover have "map field_pair ?ws = map (\<lambda>kv. Inr (latin1 (fst kv), latin1 (snd kv))) kvs"
    using assms(2) field_pair_ok by (simp del: latin1_append)
  ultimately have "seqr (map field_pair (split_on (byte_of (CHR '','')) (latin1 (fields_text kvs))))
      = Inr (map (\<lambda>kv. (latin1 (fst kv), latin1 (snd kv))) kvs)"
    by (simp only: seqr_map_Inr)
  then show ?thesis
    using a assms(3) by (simp add: auth_fields_def key_or_raise_def encode_ascii_def)
qed

lemma decode_reply:
  assumes "wf_json (JObj ((''success'', JBool True) # kvs))" "untouched [] (JObj ((''success'', JBool True) # kvs))"
  shows "decode_json_response h (Some (server_reply kvs)) b
    = Inr (RDict ((''success'', RBool True) # map (\<lambda>kv. (fst kv, embed (snd kv))) kvs))"
proof -
  have "decode [] (server_reply kvs) = Inr (RDict ((''success'', RBool True) # map (\<lambda>kv. (fst kv, embed (snd kv))) kvs))"
    using decode_untouched [OF assms] loads_dumps [OF assms(1)]
    by (simp add: decode_def server_reply_def del: json_text.simps decode_value.simps)
  then show ?thesis by (simp add: decode_json_response_def decode_utf8_def get_or_none_def)
qed

lemma response_text_reply [simp]: "response_text (Some (utf8_encode s)) = Inr (Some s)"
  by (simp add: response_text_def)

lemma decode_auth_reply:
  "decode_json_response h (Some (server_reply [(''authentication'', JStr s)])) b
    = Inr (RDict [(''success'', RBool True), (''authentication'', RStr s)])"
  by (subst decode_reply) (simp_all add: kept_def)

lemma show_nat_ascii: "is_ascii (show_nat n)" "CHR '','' \<notin> set (show_nat n)"
  by (auto simp: is_ascii_def is_digit_def dest!: show_nat_digits)

lemma int_of_bytes_show [simp]: "int_of_bytes (latin1 (show_nat n)) = Inr (int n)"
proof -
  have d: "is_digit c" if "c \<in> set (show_nat n)" for c using show_nat_digits that .
  have c: "48 \<le> code_point c \<and> code_point c \<le> 57" if "c \<in> set (show_nat n)" for c
    using d [OF that] by (simp add: is_digit_def)
  have range: "\<not> (\<exists>b \<in> set (latin1 (show_nat n)). 28 \<le> unat b \<and> unat b \<le> 31 \<or> 128 \<le> unat b)"
    using c by (fastforce simp: latin1_def)
  have sp: "\<not> is_space c" if "c \<in> set (show_nat n)" for c
    using c [OF that] by (auto simp: is_space_def code_point_def)
  have strip: "strip (show_nat n) = show_nat n"
    by (rule strip_id) (simp_all add: sp)
  have no: "x \<notin> set (show_nat n)" if "\<not> is_digit x" for x using d that by blast
  have "CHR ''_'' \<notin> set (show_nat n)" "CHR ''-'' \<notin> set (show_nat n)" "CHR ''+'' \<notin> set (show_nat n)"
    by (rule no, simp add: is_digit_def code_point_def)+
  moreover from this have "digit_groups (show_nat n) = Inr n"
    using d by (auto simp: digit_groups_def Let_def split_on_no_sep)
  moreover have "hd (show_nat n) \<in> set (show_nat n)" by simp
  ultimately have "digit_groups (show_nat n) = Inr n"
    and "hd (show_nat n) \<noteq> CHR ''-''" "hd (show_nat n) \<noteq> CHR ''+''" by metis+
  then show ?thesis using range strip
    by (cases "show_nat n") (simp_all add: int_of_bytes_def py_int_def)
qed

lemma unlatin1_Cons: "unlatin1 (b # bs) = char_of_byte b # unlatin1 bs"
  by (simp add: unlatin1_def)

lemma unlatin1_append [simp]: "unlatin1 (xs @ ys) = unlatin1 xs @ unlatin1 ys"
  by (simp add: unlatin1_def)

lemma escape_ascii: "is_ascii (unlatin1 (escape_username u)) \<longleftrightarrow> is_ascii (unlatin1 u)"
proof (induction u)
  case (Cons b u)
  have "is_ascii ''=3D''" "is_ascii ''=2C''" by (simp_all add: code_point_def)
  moreover have "char_of_byte pad = CHR ''=''" by (metis byte_of_equals char_of_byte_of)
  ultimately show ?case using Cons
    by (simp add: escape_username_Cons unlatin1_Cons del: is_ascii_simps(2)) (simp add: unlatin1_def)
qed simp

lemma utf8_ascii_iff: "is_ascii (unlatin1 (utf8_encode s)) \<longleftrightarrow> is_ascii s"
proof (induction s)
  case (Cons c s)
  have "192 + code_point c div 64 < 256"
    using code_point_less [of c] less_mult_imp_div_less [of "code_point c" 64 64] by linarith
  with Cons show ?case
    by (auto simp: utf8_encode_Cons utf8_char_def unlatin1_def char_of_byte_def)
qed (simp add: unlatin1_def)

lemma b64encode_ascii [simp]: "is_ascii (unlatin1 (b64encode bs))"
  by (simp add: b64encode_def b64_text_ascii)

subsection \<open>A server that knows the password\<close>

definition server_hello :: "int \<Rightarrow> int \<Rightarrow> string" where
  "server_hello lo hi = server_reply [(''min_protocol_version'', JInt lo), (''max_protocol_version'', JInt hi)]"

definition server_first :: "string \<Rightarrow> byte list \<Rightarrow> nat \<Rightarrow> string" where
  "server_first nonce salt n = fields_text [(''r'', nonce), (''s'', b64_text salt), (''i'', show_nat n)]"

definition server_final :: "byte list \<Rightarrow> string" where
  "server_final signature = fields_text [(''v'', b64_text signature)]"

text \<open>What RFC 5802 has the server check: the hash of the client key, recovered from the proof,
  is the stored key.\<close>

definition server_accepts :: "byte list \<Rightarrow> byte list \<Rightarrow> byte list \<Rightarrow> bool" where
  "server_accepts stored_key auth_message client_proof \<longleftrightarrow>
     sha256 (xor_bytes client_proof (hmac_sha256 stored_key auth_message)) = stored_key"

definition auth_message :: "byte list \<Rightarrow> byte list \<Rightarrow> byte list \<Rightarrow> byte list" where
  "auth_message client server nonce = join (latin1 '','') [client, server, client_final nonce]"

definition stored_key :: "byte list \<Rightarrow> byte list \<Rightarrow> nat \<Rightarrow> byte list" where
  "stored_key password salt n = sha256 (hmac_sha256 (pbkdf2 password salt n) (latin1 ''Client Key''))"

lemma read_hello:
  assumes "lo \<le> 0" "0 \<le> hi"
  shows "read_response (Some (server_hello lo hi)) h = (Inr NoMessage, next_state h)"
proof -
  have "decode_json_response h (Some (server_hello lo hi)) False
    = Inr (RDict [(''success'', RBool True), (''min_protocol_version'', RInt lo), (''max_protocol_version'', RInt hi)])"
    unfolding server_hello_def by (subst decode_reply) (simp_all add: kept_def)
  then show ?thesis using assms
    by (simp add: read_response_def key_or_raise_def within_values_def protocol_version_def)
qed

lemma read_challenge:
  assumes "hnonce h = Some own" "latin1 nonce = own @ extra" "is_ascii nonce" "CHR '','' \<notin> set nonce"
  shows "server_challenge h (Some (server_reply [(''authentication'', JStr (server_first nonce salt n))]))
    = Inr (latin1 (server_first nonce salt n), latin1 nonce, salt, int n)"
proof -
  let ?kvs = "[(''r'', nonce), (''s'', b64_text salt), (''i'', show_nat n)]"
  have ok: "\<forall>kv \<in> set ?kvs. field_ok kv"
    using assms(3,4) show_nat_ascii b64_text_ascii b64_text_no_comma by (simp add: field_ok_def code_point_def)
  have f: "auth_fields (RDict [(''success'', RBool True), (''authentication'', RStr (server_first nonce salt n))])
      = Inr (latin1 (server_first nonce salt n),
             dict_of [(latin1 ''r'', latin1 nonce), (latin1 ''s'', b64encode salt), (latin1 ''i'', latin1 (show_nat n))])"
    using auth_fields_ok [OF _ ok] by (simp add: server_first_def b64encode_def)
  have "decode_b64 (b64encode salt) = Inr salt" by (simp add: decode_b64_def)
  then show ?thesis using assms(1,2)
    by (simp add: server_challenge_def decode_auth_reply f field_def dict_of_lookup latin1_Cons)
qed

lemma read_final:
  assumes "hstate h = 3" "server_sig h = Some signature"
  shows "read_auth_response (Some (server_reply [(''authentication'', JStr (server_final signature))])) h
    = (Inr Finished, next_state h)"
proof -
  have ok: "\<forall>kv \<in> set [(''v'', b64_text signature)]. field_ok kv"
    using b64_text_ascii b64_text_no_comma by (simp add: field_ok_def code_point_def)
  have "auth_fields (RDict [(''success'', RBool True), (''authentication'', RStr (server_final signature))])
      = Inr (latin1 (server_final signature), dict_of [(latin1 ''v'', b64encode signature)])"
    using auth_fields_ok [OF _ ok] by (simp add: server_final_def b64encode_def)
  moreover have "decode_b64 (b64encode signature) = Inr signature" by (simp add: decode_b64_def)
  ultimately have "claimed_signature h (Some (server_reply [(''authentication'', JStr (server_final signature))])) = Inr signature"
    by (simp add: claimed_signature_def decode_auth_reply field_def dict_of_lookup latin1_Cons)
  then show ?thesis using assms(2) by (simp add: read_auth_response_def)
qed

lemma proof_message_text:
  assumes "is_ascii nonce"
  shows "proof_message (client_final (latin1 nonce)) p
    = Inr (latin1 (json_text (JObj [(''authentication'', JStr (''c=biws,r='' @ nonce @ '',p='' @ b64_text p))])) @ [0])"
proof -
  have "is_ascii ''c=biws,r=''" "is_ascii '',p=''" by (simp_all add: code_point_def)
  moreover have "chain_to_bytes [Bytes (client_final (latin1 nonce)), Str '',p='', Bytes (b64encode p)]
      = latin1 (''c=biws,r='' @ nonce @ '',p='' @ b64_text p)"
    by (simp add: chain_to_bytes_def client_final_def b64encode_def latin1_Cons)
  ultimately show ?thesis using assms b64_text_ascii
    by (simp add: proof_message_def decode_ascii_def chain_to_bytes_def del: json_text.simps is_ascii_simps(2) append_Cons append.simps)
qed

lemma init_run:
  assumes "0 \<le> hversion h" "hversion h < 2 ^ 32" "is_ascii (unlatin1 (husername h))"
  shows "init_connection random None h
    = (Inr (Message (le_bytes 4 (nat (hversion h)) @ utf8_encode (json_text (JObj
          [(''protocol_version'', JInt 0), (''authentication_method'', JStr ''SCRAM-SHA-256''),
           (''authentication'', JStr (''n,,'' @ unlatin1 (client_first_message h (b64encode random))))])) @ [0])),
       next_state (h\<lparr>hnonce := Some (b64encode random),
         first_client := Some (client_first_message h (b64encode random))\<rparr>))"
proof -
  let ?f = "client_first_message h (b64encode random)"
  have "is_ascii (unlatin1 (latin1 ''n,,'' @ ?f))"
    using assms(3) by (simp add: client_first_message_def chain_to_bytes_def code_point_def)
  then have "decode_ascii (chain_to_bytes [Str ''n,,'', Bytes ?f]) = Inr (''n,,'' @ unlatin1 ?f)"
    by (simp add: decode_ascii_def chain_to_bytes_def)
  then show ?thesis using assms(1,2)
    by (simp add: init_connection_def initial_message_def pack_version_def Let_def protocol_version_def
        client_first_message_def [symmetric] chain_to_bytes_def [of "[Bytes _, Bytes _, Bytes _]"] del: json_text.simps)
qed

lemma challenge_run:
  assumes "hstate h = 2" "cache_ok (pbkdf2_cache h)" "hnonce h = Some own" "first_client h = Some client"
    and "latin1 nonce = own @ extra" "is_ascii nonce" "CHR '','' \<notin> set nonce" "1 \<le> n" "n < 2 ^ 31"
  shows "\<exists>client_proof h'. prepare_auth_request
       (Some (server_reply [(''authentication'', JStr (server_first nonce salt n))])) h
     = (Inr (Message (latin1 (json_text (JObj
          [(''authentication'', JStr (''c=biws,r='' @ nonce @ '',p='' @ b64_text client_proof))])) @ [0])), h')
     \<and> hstate h' = 3
     \<and> server_sig h' = Some (scram_signature (hpassword h) salt (int n) client (latin1 (server_first nonce salt n)) (latin1 nonce))
     \<and> server_accepts (stored_key (hpassword h) salt n)
         (auth_message client (latin1 (server_first nonce salt n)) (latin1 nonce)) client_proof"
proof -
  let ?first = "latin1 (server_first nonce salt n)" and ?key = "pbkdf2 (hpassword h) salt n"
  let ?auth = "auth_message client ?first (latin1 nonce)"
  let ?ck = "hmac_sha256 ?key (latin1 ''Client Key'')"
  let ?proof = "xor_bytes ?ck (hmac_sha256 (sha256 ?ck) ?auth)"
  have "1 \<le> int n" "int n < 2 ^ 31" using assms(8,9) by (simp, metis of_nat_less_iff of_nat_numeral of_nat_power)
  from run_pbkdf2_counts [OF assms(2) this] obtain c where
    c: "run_pbkdf2 (hpassword h) salt (int n) h = (Inr ?key, h\<lparr>pbkdf2_cache := c\<rparr>)" by auto
  have "xor_bytes ?proof (hmac_sha256 (sha256 ?ck) ?auth) = ?ck" by (rule xor_bytes_cancel) simp
  then have acc: "server_accepts (stored_key (hpassword h) salt n) ?auth ?proof"
    by (simp add: server_accepts_def stored_key_def)
  have "prepare_auth_request (Some (server_reply [(''authentication'', JStr (server_first nonce salt n))])) h
     = (Inr (Message (latin1 (json_text (JObj
          [(''authentication'', JStr (''c=biws,r='' @ nonce @ '',p='' @ b64_text ?proof))])) @ [0])),
        next_state (h\<lparr>pbkdf2_cache := c, server_sig := Some (scram_signature (hpassword h) salt (int n) client ?first (latin1 nonce))\<rparr>))"
    by (simp add: prepare_auth_request_def bind_def read_challenge [OF assms(3,5,6,7)] c assms(4) Let_def
        auth_message_def proof_message_text [OF assms(6)] scram_signature_def
        del: json_text.simps)
  then show ?thesis using acc assms(1) by (auto simp: next_state_def simp del: json_text.simps)
qed

lemma next_message_advances:
  assumes "next_message random response h = (r, h')"
  shows "same_client h h'
     \<and> (case r of Inl e \<Rightarrow> hstate h' = hstate h
        | Inr m \<Rightarrow> hstate h < 4 \<and> hstate h' = hstate h + 1 \<and> (m = Finished \<longleftrightarrow> hstate h = 3)
            \<and> (m = NoMessage \<longleftrightarrow> hstate h = 1))"
  using assms
proof (cases rule: next_message_cases)
  case (init utext)
  then show ?thesis using init_connection_step [OF init(3)] by (auto split: sum.splits)
next
  case (read utext)
  then show ?thesis using read_response_step [OF read(3)]
    by (auto simp: same_client_def next_state_def split: sum.splits)
next
  case (prepare utext)
  then show ?thesis using prepare_auth_request_step [OF prepare(3)]
    by (auto simp: same_client_def split: sum.splits)
next
  case (finish utext)
  then show ?thesis using read_auth_response_step [OF finish(3)]
    by (auto simp: same_client_def next_state_def split: sum.splits)
qed (simp_all add: same_client_def)

subsection \<open>The properties of the handshake\<close>

text \<open>The handshake advances one step at a time: a call that returns moves to the next state,
  and returns None exactly from the last; a call that raises stays in its state; after the
  last state every call raises; and no call changes who is authenticated where.\<close>

theorem handshake_advances:
  assumes "next_message random response h = (r, h')"
  shows "same_client h h'
     \<and> (case r of Inl e \<Rightarrow> hstate h' = hstate h
        | Inr m \<Rightarrow> hstate h < 4 \<and> hstate h' = hstate h + 1 \<and> (m = Finished \<longleftrightarrow> hstate h = 3)
            \<and> (m = NoMessage \<longleftrightarrow> hstate h = 1))"
  using next_message_advances [OF assms] .

definition hs_example :: hs where
  "hs_example = hs_init ''localhost'' 28015 ''admin'' ''secret'' 0x34c2bdc3 True True []"

theorem handshake_advances_witness:
  "same_client hs_example hs_example \<and> hstate hs_example = hstate hs_example"
proof -
  have "next_message [] (Some []) hs_example = (Inl (driver_error ''Unexpected response''), hs_example)"
    by (simp add: next_message_def response_text_def bind_def lift_res_def hs_example_def hs_init_def
        init_connection_def)
  from handshake_advances [OF this] show ?thesis by simp
qed

text \<open>C4. Authentication of the server: however the responses come, the handshake finishes only
  when the signature in the last one is that of a server that knows the salted password, over
  the client's own first message and nonce and over a challenge received in this handshake;
  the challenge's nonce starts with the client's.\<close>

theorem server_authenticated:
  assumes "hs_reachable start rs h" "cache_ok (pbkdf2_cache start)" "hstate start = 0"
    and "next_message random response h = (Inr Finished, h')"
  shows "\<exists>utext own challenge ctext first nonce salt n.
     response_text response = Inr utext \<and> hnonce h = Some own
     \<and> challenge \<in> set rs \<and> response_text challenge = Inr ctext
     \<and> server_challenge h ctext = Inr (first, nonce, salt, n) \<and> take (length own) nonce = own
     \<and> claimed_signature h utext
         = Inr (scram_signature (hpassword h) salt n (client_first_message h own) first nonce)"
proof -
  have s: "hstate h = 3" using next_message_advances [OF assms(4)] by simp
  then have "challenged rs h" using hs_reachable_inv [OF assms(1-3)] by (simp add: hs_inv_def)
  then obtain challenge ctext first nonce salt n own where c: "challenge \<in> set rs"
    "response_text challenge = Inr ctext" "server_challenge h ctext = Inr (first, nonce, salt, n)"
    "hnonce h = Some own"
    "server_sig h = Some (scram_signature (hpassword h) salt n (client_first_message h own) first nonce)"
    by (auto simp: challenged_def)
  have "take (length own) nonce = own"
    using c(3,4) by (auto simp: server_challenge_def res_simps split: if_splits)
  moreover obtain utext where u: "response_text response = Inr utext"
    "read_auth_response utext h = (Inr Finished, h')"
    using assms(4) s by (cases rule: next_message_cases) auto
  moreover have "claimed_signature h utext
      = Inr (scram_signature (hpassword h) salt n (client_first_message h own) first nonce)"
    using read_auth_response_step [OF u(2)] c(5) by auto
  ultimately show ?thesis using c by blast
qed

text \<open>The run of a handshake with a server that knows the password.\<close>

lemma honest_run:
  assumes "hstate h = 0" "0 \<le> hversion h" "hversion h < 2 ^ 32" "is_ascii (unlatin1 (husername h))"
    and "cache_ok (pbkdf2_cache h)" "lo \<le> 0" "0 \<le> hi" "1 \<le> n" "n < 2 ^ 31"
    and "is_ascii extra" "CHR '','' \<notin> set extra"
    and nonce: "nonce = b64_text random @ extra"
    and client: "client = client_first_message h (b64encode random)"
    and first: "first = server_first nonce salt n"
    and signature: "signature = scram_signature (hpassword h) salt (int n) client (latin1 first) (latin1 nonce)"
  shows "\<exists>m1 client_proof h1 h2 h3 h4.
       next_message random None h = (Inr (Message m1), h1)
     \<and> next_message r2 (Some (utf8_encode (server_hello lo hi))) h1 = (Inr NoMessage, h2)
     \<and> next_message r3 (Some (utf8_encode (server_reply [(''authentication'', JStr first)]))) h2
         = (Inr (Message (latin1 (json_text (JObj
              [(''authentication'', JStr (''c=biws,r='' @ nonce @ '',p='' @ b64_text client_proof))])) @ [0])), h3)
     \<and> next_message r4 (Some (utf8_encode (server_reply [(''authentication'', JStr (server_final signature))]))) h3
         = (Inr Finished, h4)
     \<and> server_accepts (stored_key (hpassword h) salt n) (auth_message client (latin1 first) (latin1 nonce)) client_proof"
proof -
  have nm: "next_message rnd None g = (if hstate g = 0 then init_connection rnd None g
       else if hstate g = 1 then read_response None g else if hstate g = 2 then prepare_auth_request None g
       else if hstate g = 3 then read_auth_response None g
       else (Inl (driver_error ''Unexpected handshake state''), g))" for rnd g
    by (simp add: next_message_def bind_def lift_res_def response_text_def)
  have nm': "next_message rnd (Some (utf8_encode s)) g = (if hstate g = 0 then init_connection rnd (Some s) g
       else if hstate g = 1 then read_response (Some s) g else if hstate g = 2 then prepare_auth_request (Some s) g
       else if hstate g = 3 then read_auth_response (Some s) g
       else (Inl (driver_error ''Unexpected handshake state''), g))" for rnd s g
    by (simp add: next_message_def bind_def lift_res_def)
  define h1 where "h1 = next_state (h\<lparr>hnonce := Some (b64encode random), first_client := Some client\<rparr>)"
  obtain m1 where 1: "next_message random None h = (Inr (Message m1), h1)"
    using init_run [OF assms(2,3,4)] assms(1) by (simp add: nm h1_def client)
  have f1: "hstate h1 = 1" "hnonce h1 = Some (b64encode random)" "first_client h1 = Some client"
    "hpassword h1 = hpassword h" "pbkdf2_cache h1 = pbkdf2_cache h"
    using assms(1) by (simp_all add: h1_def next_state_def)
  define h2 where "h2 = next_state h1"
  have 2: "next_message r2 (Some (utf8_encode (server_hello lo hi))) h1 = (Inr NoMessage, h2)"
    using read_hello [OF assms(6,7)] f1(1) by (simp add: nm' h2_def)
  have f2: "hstate h2 = 2" "hnonce h2 = Some (b64encode random)" "first_client h2 = Some client"
    "hpassword h2 = hpassword h" "cache_ok (pbkdf2_cache h2)"
    using f1 assms(5) by (simp_all add: h2_def next_state_def)
  have n: "latin1 nonce = b64encode random @ latin1 extra" "is_ascii nonce" "CHR '','' \<notin> set nonce"
    using assms(10,11) b64_text_ascii b64_text_no_comma by (simp_all add: nonce b64encode_def)
  from challenge_run [OF f2(1,5,2,3) n assms(8,9), of salt] obtain client_proof h3 where
    3: "prepare_auth_request (Some (server_reply [(''authentication'', JStr first)])) h2
         = (Inr (Message (latin1 (json_text (JObj
              [(''authentication'', JStr (''c=biws,r='' @ nonce @ '',p='' @ b64_text client_proof))])) @ [0])), h3)"
    "hstate h3 = 3" "server_sig h3 = Some signature"
    "server_accepts (stored_key (hpassword h) salt n) (auth_message client (latin1 first) (latin1 nonce)) client_proof"
    unfolding f2(4) signature first by blast
  have 4: "next_message r4 (Some (utf8_encode (server_reply [(''authentication'', JStr (server_final signature))]))) h3
      = (Inr Finished, next_state h3)"
    using read_final [OF 3(2,3)] 3(2) by (simp add: nm')
  have "next_message r3 (Some (utf8_encode (server_reply [(''authentication'', JStr first)]))) h2
      = prepare_auth_request (Some (server_reply [(''authentication'', JStr first)])) h2"
    using f2(1) by (simp add: nm')
  then show ?thesis using 1 2 3(1,4) 4 by metis
qed

lemma hs_init_simps [simp]:
  "hstate (hs_init host port u p v cd kdf c) = 0" "hversion (hs_init host port u p v cd kdf c) = v"
  "husername (hs_init host port u p v cd kdf c) = escape_username (utf8_encode u)"
  "hpassword (hs_init host port u p v cd kdf c) = latin1 p"
  "pbkdf2_cache (hs_init host port u p v cd kdf c) = c"
  by (simp_all add: hs_init_def)

lemma hs_example_run:
  "\<exists>h1 h2 h3 h4 m1 m2 utext. next_message [1, 2] None hs_example = (Inr (Message m1), h1)
     \<and> next_message [] (Some (utf8_encode (server_hello 0 0))) h1 = (Inr NoMessage, h2)
     \<and> next_message [] (Some (utf8_encode (server_reply
          [(''authentication'', JStr (server_first (b64_text [1, 2] @ ''xyz'') [9] 2))]))) h2 = (Inr (Message m2), h3)
     \<and> next_message [] (Some (utf8_encode utext)) h3 = (Inr Finished, h4)"
  using honest_run [where h = hs_example and random = "[1, 2]" and lo = 0 and hi = 0 and n = 2 and extra = "''xyz''"
      and ?r2.0 = "[]" and ?r3.0 = "[]" and ?r4.0 = "[]" and salt = "[9]", OF _ _ _ _ _ _ _ _ _ _ _ refl refl refl refl]
  by (force simp: hs_example_def escape_ascii utf8_ascii_iff code_point_def cache_ok_def
      simp del: json_text.simps)

theorem server_authenticated_witness:
  "\<exists>rs h h' response utext own challenge ctext first nonce salt n.
     next_message [] response h = (Inr Finished, h') \<and> hs_reachable hs_example rs h
     \<and> response_text response = Inr utext \<and> hnonce h = Some own
     \<and> challenge \<in> set rs \<and> response_text challenge = Inr ctext
     \<and> server_challenge h ctext = Inr (first, nonce, salt, n) \<and> take (length own) nonce = own
     \<and> claimed_signature h utext
         = Inr (scram_signature (hpassword h) salt n (client_first_message h own) first nonce)"
proof -
  obtain h1 h2 h3 h4 m1 m2 utext where
    1: "next_message [1, 2] None hs_example = (Inr (Message m1), h1)" and
    2: "next_message [] (Some (utf8_encode (server_hello 0 0))) h1 = (Inr NoMessage, h2)" and
    3: "next_message [] (Some (utf8_encode (server_reply
          [(''authentication'', JStr (server_first (b64_text [1, 2] @ ''xyz'') [9] 2))]))) h2 = (Inr (Message m2), h3)" and
    4: "next_message [] (Some (utf8_encode utext)) h3 = (Inr Finished, h4)"
    using hs_example_run by blast
  have c: "cache_ok (pbkdf2_cache hs_example)" "hstate hs_example = 0"
    by (simp_all add: hs_example_def cache_ok_def)
  note run = hs_message [OF hs_message [OF hs_message [OF hs_start 1] 2] 3]
  from run server_authenticated [OF run c 4] 4 show ?thesis by blast
qed

text \<open>C25. For a username of ASCII characters (another one always raises, \<open>first_message\<close>), a number of the protocol
  of 32 bits and a cache of key derivations that are right, as \<open>pbkdf2_hmac\<close> leaves it, the handshake completes with every server that knows the password as the bytes of its Latin-1 encoding, which is what the
  driver makes of it, announces a range of versions with 0 in it, appends ASCII characters without a comma to the
  nonce, and asks for fewer than \<open>2 ^ 31\<close> iterations: against its replies
  the four calls return, the proof sent makes the server accept, and the signature the server
  answers with is accepted.\<close>

theorem handshake_completes:
  assumes "is_ascii username" "0 \<le> version" "version < 2 ^ 32" "cache_ok cache"
    and "lo \<le> 0" "0 \<le> hi" "1 \<le> n" "n < 2 ^ 31" "is_ascii extra" "CHR '','' \<notin> set extra"
    and "h = hs_init host port username password version own_cd own_kdf cache"
    and "nonce = b64_text random @ extra" "client = client_first_message h (b64encode random)"
    and "first = server_first nonce salt n"
    and "signature = scram_signature (latin1 password) salt (int n) client (latin1 first) (latin1 nonce)"
  shows "\<exists>m1 client_proof h1 h2 h3 h4.
       next_message random None h = (Inr (Message m1), h1)
     \<and> next_message r2 (Some (utf8_encode (server_hello lo hi))) h1 = (Inr NoMessage, h2)
     \<and> next_message r3 (Some (utf8_encode (server_reply [(''authentication'', JStr first)]))) h2
         = (Inr (Message (latin1 (json_text (JObj
              [(''authentication'', JStr (''c=biws,r='' @ nonce @ '',p='' @ b64_text client_proof))])) @ [0])), h3)
     \<and> next_message r4 (Some (utf8_encode (server_reply [(''authentication'', JStr (server_final signature))]))) h3
         = (Inr Finished, h4)
     \<and> server_accepts (stored_key (latin1 password) salt n) (auth_message client (latin1 first) (latin1 nonce)) client_proof"
proof -
  have "hpassword h = latin1 password" by (simp add: assms(11))
  with assms(15) have "signature = scram_signature (hpassword h) salt (int n) client (latin1 first) (latin1 nonce)"
    by simp
  from honest_run [OF _ _ _ _ _ assms(5-10,12-14) this, of r2 r3 r4]
  show ?thesis using assms(1-4,11) by (simp add: escape_ascii utf8_ascii_iff)
qed

theorem handshake_completes_witness:
  "\<exists>m1 client_proof h1 h2 h3 h4.
       next_message [1, 2] None hs_example = (Inr (Message m1), h1)
     \<and> next_message [] (Some (utf8_encode (server_hello 0 0))) h1 = (Inr NoMessage, h2)
     \<and> next_message [] (Some (utf8_encode (server_reply [(''authentication'', JStr (server_first (b64_text [1, 2] @ ''xyz'') [9] 4096))]))) h2
         = (Inr (Message (latin1 (json_text (JObj
              [(''authentication'', JStr (''c=biws,r='' @ (b64_text [1, 2] @ ''xyz'') @ '',p='' @ b64_text client_proof))])) @ [0])), h3)
     \<and> next_message [] (Some (utf8_encode (server_reply [(''authentication'', JStr (server_final
         (scram_signature (latin1 ''secret'') [9] (int 4096) (client_first_message hs_example (b64encode [1, 2]))
            (latin1 (server_first (b64_text [1, 2] @ ''xyz'') [9] 4096)) (latin1 (b64_text [1, 2] @ ''xyz'')))))]))) h3
         = (Inr Finished, h4)
     \<and> server_accepts (stored_key (latin1 ''secret'') [9] 4096)
         (auth_message (client_first_message hs_example (b64encode [1, 2]))
            (latin1 (server_first (b64_text [1, 2] @ ''xyz'') [9] 4096)) (latin1 (b64_text [1, 2] @ ''xyz''))) client_proof"
  by (rule handshake_completes [OF _ _ _ _ _ _ _ _ _ _ hs_example_def refl refl refl refl])
    (simp_all add: code_point_def cache_ok_def)

text \<open>The first message: a server reads from it the user's name and the client's nonce, for every
  ASCII name, commas and equals signs included; with any other character in the name the call
  raises, although the name was encoded as UTF-8.\<close>

theorem first_message:
  assumes "h = hs_init host port username password version own_cd own_kdf cache"
    and "0 \<le> version" "version < 2 ^ 32"
  shows "(is_ascii username \<longrightarrow>
       (\<exists>h' client name. next_message random None h
          = (Inr (Message (le_bytes 4 (nat version) @ utf8_encode (json_text (JObj
              [(''protocol_version'', JInt 0), (''authentication_method'', JStr ''SCRAM-SHA-256''),
               (''authentication'', JStr (''n,,'' @ unlatin1 client))])) @ [0])), h')
        \<and> split_on (byte_of (CHR '','')) client = [latin1 ''n='' @ name, latin1 ''r='' @ b64encode random]
        \<and> unescape_username name = Some (utf8_encode username)))
     \<and> (\<not> is_ascii username \<longrightarrow> fst (next_message random None h) = Inl (value_error ''UnicodeDecodeError''))"
proof -
  let ?name = "escape_username (utf8_encode username)"
  let ?client = "client_first_message h (b64encode random)"
  have nm: "next_message random None h = init_connection random None h"
    by (simp add: next_message_def bind_def lift_res_def response_text_def assms(1))
  have "?client = (latin1 ''n='' @ ?name) @ byte_of (CHR '','') # (latin1 ''r='' @ b64encode random)"
    by (simp add: client_first_message_def chain_to_bytes_def assms(1) latin1_Cons)
  moreover have "byte_of (CHR '','') \<notin> set (latin1 ''n='' @ ?name)"
    "byte_of (CHR '','') \<notin> set (latin1 ''r='' @ b64encode random)"
    using escape_no_comma b64encode_no_comma by (simp_all add: latin1_Cons)
  ultimately have sp: "split_on (byte_of (CHR '','')) ?client = [latin1 ''n='' @ ?name, latin1 ''r='' @ b64encode random]"
    using split_on_append_sep [of "byte_of (CHR '','')" "latin1 ''n='' @ ?name" "latin1 ''r='' @ b64encode random"]
      split_on_no_sep [of "byte_of (CHR '','')" "latin1 ''r='' @ b64encode random"] by metis
  have yes: "is_ascii username \<Longrightarrow> init_connection random None h
      = (Inr (Message (le_bytes 4 (nat version) @ utf8_encode (json_text (JObj
              [(''protocol_version'', JInt 0), (''authentication_method'', JStr ''SCRAM-SHA-256''),
               (''authentication'', JStr (''n,,'' @ unlatin1 ?client))])) @ [0])),
         next_state (h\<lparr>hnonce := Some (b64encode random), first_client := Some ?client\<rparr>))"
    using init_run [of h random] assms by (simp add: escape_ascii utf8_ascii_iff del: json_text.simps)
  have "\<not> is_ascii username \<Longrightarrow> decode_ascii (chain_to_bytes [Str ''n,,'', Bytes ?client])
      = Inl (value_error ''UnicodeDecodeError'')"
    by (simp add: decode_ascii_def chain_to_bytes_def client_first_message_def assms(1) escape_ascii utf8_ascii_iff)
  then have no: "\<not> is_ascii username \<Longrightarrow> fst (init_connection random None h) = Inl (value_error ''UnicodeDecodeError'')"
    using assms(2,3) by (simp add: init_connection_def initial_message_def pack_version_def Let_def
        client_first_message_def [symmetric]) (simp add: assms(1) client_first_message_def)
  show ?thesis unfolding nm using yes no sp unescape_escape by blast
qed

theorem first_message_witness:
  "(\<exists>h' client name. next_message [7] None hs_example
          = (Inr (Message (le_bytes 4 (nat 0x34c2bdc3) @ utf8_encode (json_text (JObj
              [(''protocol_version'', JInt 0), (''authentication_method'', JStr ''SCRAM-SHA-256''),
               (''authentication'', JStr (''n,,'' @ unlatin1 client))])) @ [0])), h')
        \<and> split_on (byte_of (CHR '','')) client = [latin1 ''n='' @ name, latin1 ''r='' @ b64encode [7]]
        \<and> unescape_username name = Some (utf8_encode ''admin''))"
  using first_message [OF hs_example_def, of "[7]"] by (simp add: code_point_def del: json_text.simps)

text \<open>The file's own digest functions agree with the library's: \<open>compare_digest\<close> is equality,
  and \<open>pbkdf2_hmac\<close>, which combines the codes as integers and keeps a cache, returns the
  derived key of \<open>hashlib\<close> whenever that returns one, and leaves the cache correct.\<close>

theorem own_digests_equivalent:
  assumes "cache_ok (pbkdf2_cache h)" "hashlib_pbkdf2 password salt n h = (Inr k, h0)"
  shows "(compare_digest a b \<longleftrightarrow> a = b)
     \<and> (\<exists>c. pbkdf2_hmac ''sha256'' password salt n h = (Inr k, h\<lparr>pbkdf2_cache := c\<rparr>) \<and> cache_ok c)"
proof -
  have "k = pbkdf2 password salt (nat n)"
    using assms(2) by (auto simp: hashlib_pbkdf2_def comp_simps split: if_splits)
  then show ?thesis using pbkdf2_hmac_run [OF assms(1)] compare_digest_eq by simp
qed

theorem own_digests_equivalent_witness:
  "(compare_digest [1, 2] [1] \<longleftrightarrow> [1, 2] = [1 :: byte])
     \<and> (\<exists>c. pbkdf2_hmac ''sha256'' [1] [2] 3 hs_example
          = (Inr (pbkdf2 [1] [2] (nat 3)), hs_example\<lparr>pbkdf2_cache := c\<rparr>) \<and> cache_ok c)"
  by (rule own_digests_equivalent) (simp_all add: hs_example_def cache_ok_def hashlib_pbkdf2_def ret_def)

text \<open>The password is sent through \<open>six.b\<close>, Latin-1; RFC 5802 has UTF-8, which agrees on ASCII
  passwords only.\<close>

lemma password_encoding:
  "hpassword (hs_init host port u p v cd kdf c) = utf8_encode p \<longleftrightarrow> is_ascii p"
  using utf8_eq_latin1_iff [of p] by auto

end
