(* ===== verification/Connect.thy ===== *)
theory Connect
  imports Socket Handshake
begin

text \<open>
  The constructor of \<open>SocketWrapper\<close> in \<open>rethinkdb/net.py\<close>: connecting, TLS, the handshake over
  the new socket, and what each failure is reported as.

  The operating system and the \<open>ssl\<close> module are a script again: a \<open>dial\<close> is what one attempt to
  connect meets.  A socket that came to nothing is kept in the result, so that it can be said
  that it was closed.
\<close>

subsection \<open>Dialling\<close>

datatype tls = TlsOk | TlsFails string | WrongHost string

datatype dial =
    DialTimeout
  | DialFails string
  | DialOk "recv_event list" "send_event list" "string option" tls

text \<open>The part of the connection object that the constructor reads, and the handshake it drives.\<close>

record endpoint =
  ehost :: string
  eport :: int
  essl :: bool
  ehandshake :: hs

definition new_sock :: "endpoint \<Rightarrow> dial \<Rightarrow> sock" where
  "new_sock e d =
     \<lparr>shost = ehost e, sport = eport e, sopen = True, read_buffer = None,
      incoming = (case d of DialOk r s m t \<Rightarrow> r | _ \<Rightarrow> []), sending = (case d of DialOk r s m t \<Rightarrow> s | _ \<Rightarrow> []),
      sent = [], shutdown_error = (case d of DialOk r s m t \<Rightarrow> m | _ \<Rightarrow> None), logged = []\<rparr>"

subsection \<open>The handshake over a socket\<close>

definition with_hs :: "'a hs_io \<Rightarrow> (hs \<times> sock, io_stop, 'a) comp" where
  "with_hs m = (\<lambda>(h, s). case m h of (Inl e, h') \<Rightarrow> (Inl (Raised e), (h', s)) | (Inr a, h') \<Rightarrow> (Inr a, (h', s)))"

definition with_sock :: "'a sock_io \<Rightarrow> (hs \<times> sock, io_stop, 'a) comp" where
  "with_sock m = (\<lambda>(h, s). case m s of (r, s') \<Rightarrow> (r, (h, s')))"

text \<open>Bytes still to come on a socket, whatever happens on the way; a string is no longer.\<close>

fun total_bytes :: "recv_event list \<Rightarrow> nat" where
  "total_bytes [] = 0"
| "total_bytes (Arrived bs # es) = length bs + total_bytes es"
| "total_bytes (_ # es) = total_bytes es"

fun handshake_loop :: "nat \<Rightarrow> nat \<Rightarrow> byte list \<Rightarrow> byte list option \<Rightarrow> (hs \<times> sock, io_stop, unit) comp" where
  "handshake_loop fuel 0 random response = raise Blocked"
| "handshake_loop fuel (Suc turns) random response =
     bind (with_hs (next_message random response)) (\<lambda>request.
       case request of
         Finished \<Rightarrow> ret ()
       | NoMessage \<Rightarrow>
           bind (with_sock (read_string recvall fuel [])) (\<lambda>r. handshake_loop fuel turns random (Some r))
       | Message bs \<Rightarrow>
           bind (with_sock (sendall bs)) (\<lambda>_.
           bind (with_sock (read_string recvall fuel [])) (\<lambda>r. handshake_loop fuel turns random (Some r))))"

definition run_handshake :: "byte list \<Rightarrow> (hs \<times> sock, io_stop, unit) comp" where
  "run_handshake random = (\<lambda>(h, s).
     handshake_loop (Suc (total_bytes (incoming s))) 5 random None (hs_reset h, s))"

subsection \<open>How failures are reported\<close>

text \<open>\<open>str(ex)\<close>.\<close>

definition exc_text :: "error \<Rightarrow> string" where
  "exc_text e =
     (if ecls e = PyKeyError then repr_str (emsg e)
      else case exc_str e of Inr s \<Rightarrow> s | Inl e' \<Rightarrow> emsg e')"

definition during_handshake :: "error \<Rightarrow> error" where
  "during_handshake e =
     driver_error (replace_str ''sending to'' ''during handshake with''
       (replace_str ''receiving from'' ''during handshake with'' (exc_text e)))"

definition could_not_connect :: "endpoint \<Rightarrow> string \<Rightarrow> error" where
  "could_not_connect e m =
     driver_error (''Could not connect to '' @ ehost e @ '':'' @ show_int (eport e) @ ''. Error: '' @ m)"

definition contains :: "string \<Rightarrow> string \<Rightarrow> bool" where
  "contains m p \<longleftrightarrow> list_ex (\<lambda>i. take (length p) (drop i m) = p) [0..<Suc (length m)]"

definition tls_error :: "string \<Rightarrow> error" where
  "tls_error m =
     (if contains m ''EOF occurred in violation of protocol'' \<or> contains m ''sslv3 alert handshake failure''
      then driver_error (''SSL handshake failed, likely because Python is linked against an old version of OpenSSL ''
        @ ''that does not support either TLSv1.2 or any of the allowed ciphers. This can be worked ''
        @ ''around by lowering the security setting on the server with the options ''
        @ ''`--tls-min-protocol TLSv1 --tls-ciphers ''
        @ ''EECDH+AESGCM:EDH+AESGCM:AES256+EECDH:AES256+EDH:AES256-SHA` (see server log for more ''
        @ ''information): '' @ m)
      else driver_error (''SSL handshake failed (see server log for more information): '' @ m))"

text \<open>The \<open>except\<close> clauses of the constructor, in their order; an interrupt passes all of them,
  and leaves the socket as it is.\<close>

definition connect_failure :: "endpoint \<Rightarrow> error \<Rightarrow> error option" where
  "connect_failure e x =
     (if caught_by [ReqlAuthError, ReqlTimeoutError] x then Some x
      else if caught_by [ReqlDriverError] x then Some (during_handshake x)
      else if caught_by [PyTimeoutError] x then Some (timeout_error (Some (ehost e)) (Some (eport e)))
      else if caught_by [PyException] x then Some (could_not_connect e (exc_text x))
      else None)"

text \<open>The constructor: a socket and the handshake's state, or what is raised.\<close>

definition failed_connect :: "endpoint \<Rightarrow> hs \<Rightarrow> sock option \<Rightarrow> error \<Rightarrow> (io_stop + sock) \<times> hs \<times> sock option" where
  "failed_connect e h s x =
     (case connect_failure e x of
        Some y \<Rightarrow> (Inl (Raised y), h, map_option sock_close s)
      | None \<Rightarrow> (Inl (Raised x), h, s))"

definition raw_close :: "sock \<Rightarrow> sock" where
  "raw_close s = s\<lparr>shutdown_error := Some ''Bad file descriptor''\<rparr>"

definition connect_socket :: "endpoint \<Rightarrow> byte list \<Rightarrow> dial \<Rightarrow> (io_stop + sock) \<times> hs \<times> sock option" where
  "connect_socket e random d =
     (let h = ehandshake e; s = new_sock e d in
      case d of
        DialTimeout \<Rightarrow> failed_connect e h None (py_exc PyTimeoutError ''timed out'')
      | DialFails m \<Rightarrow> failed_connect e h None (py_exc PyOSError m)
      | DialOk r w m t \<Rightarrow>
          (case (if essl e then t else TlsOk) of
             TlsFails m' \<Rightarrow> failed_connect e h (Some (raw_close s)) (tls_error m')
           | WrongHost m' \<Rightarrow> failed_connect e h (Some (raw_close s)) (py_exc PyValueError m')
           | TlsOk \<Rightarrow>
               (case run_handshake random (h, s) of
                  (Inr _, (h', s')) \<Rightarrow> (Inr s', h', None)
                | (Inl Blocked, (h', s')) \<Rightarrow> (Inl Blocked, h', Some s')
                | (Inl (Raised x), (h', s')) \<Rightarrow> failed_connect e h' (Some s') x)))"

subsection \<open>Reading and writing by amounts\<close>

lemma recv_loop_Inr:
  "recv_loop s n res es = (Inr bs, s') \<Longrightarrow> length res \<le> n \<Longrightarrow>
     length bs = n \<and> (\<exists>es'. s' = s\<lparr>incoming := es'\<rparr> \<and> total_bytes es' + n = total_bytes es + length res)"
proof (induction s n res es rule: recv_loop.induct)
  case (1 s n res)
  then show ?case by (auto split: if_splits)
next
  case (2 s n res e es)
  show ?case
  proof (cases "length res < n")
    case False
    then show ?thesis using "2.prems" by auto
  next
    case True
    show ?thesis
    proof (cases e)
      case (Arrived bs')
      have ne: "bs' \<noteq> []" using "2.prems"(1) True Arrived by (auto split: if_splits)
      show ?thesis
      proof (cases "length bs' \<le> n - length res")
        case fits: True
        then have "recv_loop s n (res @ bs') es = (Inr bs, s')" using "2.prems"(1) True Arrived ne by simp
        moreover have "length (res @ bs') \<le> n" using fits True by simp
        ultimately show ?thesis using "2.IH"(1) [OF True Arrived ne fits] Arrived by auto
      next
        case False
        then show ?thesis using "2.prems"(1) True Arrived ne by auto
      qed
    next
      case (RecvError i m)
      then show ?thesis using "2.IH"(2) [OF True RecvError] "2.prems" True by (cases i) auto
    qed (use "2.prems"(1) True in auto)
  qed
qed

lemma recvall_Inr:
  assumes "recvall n s = (Inr bs, s')" "read_buffer s = None"
  shows "length bs = n \<and> read_buffer s' = None \<and> sopen s' = sopen s \<and> sent s' = sent s
     \<and> total_bytes (incoming s') + n = total_bytes (incoming s)"
  using assms recv_loop_Inr [of s n "[]" "incoming s" bs s'] by (auto simp: recvall_def split: if_splits)

text \<open>Reading a string needs no more fuel than there are bytes.\<close>

lemma read_string_fuel:
  assumes "read_buffer s = None" "total_bytes (incoming s) < fuel"
  shows "read_string recvall (fuel + k) acc s = read_string recvall fuel acc s"
  using assms
proof (induction fuel arbitrary: s acc)
  case (Suc fuel)
  obtain r s1 where r: "recvall 1 s = (r, s1)" by (cases "recvall 1 s")
  show ?case
  proof (cases r)
    case (Inl e)
    then show ?thesis using r by (simp add: bind_def)
  next
    case (Inr c)
    have "read_buffer s1 = None" "total_bytes (incoming s1) < fuel"
      using recvall_Inr [OF r [unfolded Inr] Suc.prems(1)] Suc.prems(2) by auto
    then show ?thesis using Suc.IH r Inr by (simp add: bind_def)
  qed
qed simp

lemma read_string_Inr:
  "read_string recvall fuel acc s = (Inr bs, s') \<Longrightarrow> read_buffer s = None \<Longrightarrow>
     read_buffer s' = None \<and> sopen s' = sopen s \<and> sent s' = sent s
       \<and> total_bytes (incoming s') \<le> total_bytes (incoming s)"
proof (induction fuel arbitrary: s acc)
  case 0
  then show ?case by (simp add: raise_def)
next
  case (Suc fuel)
  then obtain c s1 where c: "recvall 1 s = (Inr c, s1)"
    and rest: "(if c = [0] then ret acc else read_string recvall fuel (acc @ c)) s1 = (Inr bs, s')"
    by (auto simp: comp_simps)
  note f = recvall_Inr [OF c Suc.prems(2)]
  show ?case
  proof (cases "c = [0]")
    case True
    then show ?thesis using rest f by (auto simp: ret_def)
  next
    case False
    then show ?thesis using rest Suc.IH [of "acc @ c" s1] f by auto
  qed
qed

text \<open>What the system takes, by the number of calls that will take a byte or more.\<close>

fun willing :: "send_event list \<Rightarrow> nat" where
  "willing [] = 0"
| "willing (Accepts k # es) = (if k = 0 then 0 else 1) + willing es"
| "willing (SendError EINTR m # es) = willing es"
| "willing (_ # es) = 0"

lemma send_loop_willing:
  "length rest \<le> willing es \<Longrightarrow> \<exists>es'. send_loop s rest es = (Inr (), s\<lparr>sending := es', sent := sent s @ rest\<rparr>)
     \<and> willing es \<le> willing es' + length rest"
proof (induction s rest es rule: send_loop.induct)
  case (1 s rest)
  then show ?case by (auto intro: exI [of _ "[]"])
next
  case (2 s rest e es)
  show ?case
  proof (cases "rest = []")
    case True
    then show ?thesis by (auto intro: exI [of _ "e # es"])
  next
    case False
    show ?thesis
    proof (cases e)
      case (Accepts k)
      let ?s = "s\<lparr>sent := sent s @ take k rest\<rparr>"
      have "length (drop k rest) \<le> willing es"
        using "2.prems" Accepts False by (auto simp: Suc_le_eq split: if_splits)
      from "2.IH"(1) [OF False Accepts this] obtain es' where
        "send_loop ?s (drop k rest) es = (Inr (), ?s\<lparr>sending := es', sent := sent ?s @ drop k rest\<rparr>)"
        "willing es \<le> willing es' + length (drop k rest)" by blast
      moreover have "0 < k \<Longrightarrow> Suc (length rest - k) \<le> length rest" using False by (cases rest) auto
      ultimately show ?thesis using Accepts False
        by (intro exI [of _ es']) (auto split: if_splits)
    next
      case (SendError i m)
      then have i: "i = EINTR" using "2.prems" False by (cases i) auto
      then show ?thesis using "2.IH"(2) [OF False SendError i] "2.prems" False SendError by auto
    qed (use "2.prems" False in auto)
  qed
qed

text \<open>Reading and writing do not disturb each other.\<close>

lemma sendall_ready:
  assumes "sopen s" "length bs \<le> willing (sending s)"
  shows "\<exists>es. sendall bs s = (Inr (), s\<lparr>sending := es, sent := sent s @ bs\<rparr>)
     \<and> willing (sending s) \<le> willing es + length bs"
  using send_loop_willing [OF assms(2), of s] assms(1) by (auto simp: sendall_def)

lemma read_string_arrives:
  assumes "sock_ready s" "sock_arriving s = xs @ 0 # ys" "0 \<notin> set xs" "length xs < fuel"
  shows "\<exists>es. read_string recvall fuel [] s = (Inr xs, s\<lparr>incoming := es\<rparr>) \<and> bytes_before_stop es = ys"
proof -
  from sr.read_string_exact [OF assms, of "[]"] obtain s' where
    s': "read_string recvall fuel [] s = (Inr xs, s')" "sock_ready s'" "sock_arriving s' = ys"
    by auto
  have "\<exists>es. s' = s\<lparr>incoming := es\<rparr>" if "read_string recvall fuel acc s = (Inr bs, s')" "read_buffer s = None"
    for fuel acc bs s s'
    using that
  proof (induction fuel arbitrary: s acc)
    case (Suc fuel)
    then obtain c s1 where c: "recvall 1 s = (Inr c, s1)"
      and rest: "(if c = [0] then ret acc else read_string recvall fuel (acc @ c)) s1 = (Inr bs, s')"
      by (auto simp: comp_simps)
    have s1: "\<exists>es. s1 = s\<lparr>incoming := es\<rparr>"
      using c Suc.prems(2) recv_loop_Inr [of s 1 "[]" "incoming s" c s1] by (auto simp: recvall_def split: if_splits)
    then show ?case
      using rest Suc.IH [of "acc @ c" s1] Suc.prems(2) by (auto simp: ret_def split: if_splits)
  qed (simp add: raise_def)
  from this [OF s'(1)] obtain es where "s' = s\<lparr>incoming := es\<rparr>" using assms(1) by (auto simp: sock_ready_def)
  then show ?thesis using s' by (auto simp: sock_arriving_def)
qed

subsection \<open>A handshake over a socket\<close>

lemma before_stop_total: "length (bytes_before_stop es) \<le> total_bytes es"
  by (induction es rule: bytes_before_stop.induct) auto

lemma bind_with_hs: "bind (with_hs m) f (h, s) =
    (case m h of (Inl e, h') \<Rightarrow> (Inl (Raised e), (h', s)) | (Inr a, h') \<Rightarrow> f a (h', s))"
  by (simp add: bind_def with_hs_def split: prod.splits sum.splits)

lemma bind_with_sock: "bind (with_sock m) f (h, s) =
    (case m s of (Inl e, s') \<Rightarrow> (Inl e, (h, s')) | (Inr a, s') \<Rightarrow> f a (h, s'))"
  by (simp add: bind_def with_sock_def split: prod.splits sum.splits)

lemma send_and_read:
  assumes "sock_ready s" "length m \<le> willing (sending s)" "sock_arriving s = r @ 0 # rest" "0 \<notin> set r"
    and "length r < fuel"
  shows "\<exists>rs ws. bind (with_sock (sendall m)) (\<lambda>_. bind (with_sock (read_string recvall fuel [])) f) (h, s)
      = f r (h, s\<lparr>sending := ws, sent := sent s @ m, incoming := rs\<rparr>)
     \<and> bytes_before_stop rs = rest \<and> willing (sending s) \<le> willing ws + length m"
proof -
  obtain ws where w: "sendall m s = (Inr (), s\<lparr>sending := ws, sent := sent s @ m\<rparr>)"
    "willing (sending s) \<le> willing ws + length m"
    using sendall_ready [of s m] assms(1,2) by (auto simp: sock_ready_def)
  let ?s = "s\<lparr>sending := ws, sent := sent s @ m\<rparr>"
  have "sock_ready ?s" "sock_arriving ?s = r @ 0 # rest"
    using assms(1,3) by (simp_all add: sock_ready_def sock_arriving_def)
  from read_string_arrives [OF this assms(4,5)] obtain rs where
    r: "read_string recvall fuel [] ?s = (Inr r, ?s\<lparr>incoming := rs\<rparr>)" "bytes_before_stop rs = rest"
    by blast
  then show ?thesis using w by (intro exI [of _ rs] exI [of _ ws]) (simp add: bind_with_sock r(1) del: read_string.simps)
qed

declare handshake_loop.simps [simp del] read_string.simps [simp del]

lemma handshake_turn:
  "next_message random response h = (Inr Finished, h') \<Longrightarrow>
     handshake_loop fuel (Suc turns) random response (h, s) = (Inr (), (h', s))"
  "next_message random response h = (Inr NoMessage, h') \<Longrightarrow>
     handshake_loop fuel (Suc turns) random response (h, s) =
       bind (with_sock (read_string recvall fuel [])) (\<lambda>r. handshake_loop fuel turns random (Some r)) (h', s)"
  "next_message random response h = (Inr (Message m), h') \<Longrightarrow>
     handshake_loop fuel (Suc turns) random response (h, s) =
       bind (with_sock (sendall m)) (\<lambda>_. bind (with_sock (read_string recvall fuel []))
         (\<lambda>r. handshake_loop fuel turns random (Some r))) (h', s)"
  "next_message random response h = (Inl e, h') \<Longrightarrow>
     handshake_loop fuel (Suc turns) random response (h, s) = (Inl (Raised e), (h', s))"
  by (simp_all add: handshake_loop.simps bind_with_hs ret_def)

lemma run_handshake_messages:
  assumes "next_message random None (hs_reset h) = (Inr (Message m1), h1)"
    and "next_message random (Some r1) h1 = (Inr NoMessage, h2)"
    and "next_message random (Some r2) h2 = (Inr (Message m2), h3)"
    and "next_message random (Some r3) h3 = (Inr Finished, h4)"
    and "sock_ready s" "sock_arriving s = r1 @ 0 # r2 @ 0 # r3 @ 0 # rest"
    and "0 \<notin> set (r1 @ r2 @ r3)" "length m1 + length m2 \<le> willing (sending s)"
  shows "\<exists>rs ws. run_handshake random (h, s)
      = (Inr (), (h4, s\<lparr>sending := ws, sent := sent s @ m1 @ m2, incoming := rs\<rparr>))
     \<and> bytes_before_stop rs = rest"
proof -
  let ?fuel = "Suc (total_bytes (incoming s))"
  have len: "length r1 < ?fuel" "length r2 < ?fuel" "length r3 < ?fuel"
    using before_stop_total [of "incoming s"] assms(6) by (auto simp: sock_arriving_def)
  have zeros: "0 \<notin> set r1" "0 \<notin> set r2" "0 \<notin> set r3" using assms(7) by auto
  have 1: "\<exists>rs ws. handshake_loop ?fuel 5 random None (hs_reset h, s)
      = handshake_loop ?fuel 4 random (Some r1) (h1, s\<lparr>sending := ws, sent := sent s @ m1, incoming := rs\<rparr>)
     \<and> bytes_before_stop rs = r2 @ 0 # r3 @ 0 # rest \<and> length m2 \<le> willing ws"
  proof -
    have "length m1 \<le> willing (sending s)" using assms(8) by simp
    from send_and_read [OF assms(5) this assms(6) zeros(1) len(1)] obtain rs ws where
      "bind (with_sock (sendall m1)) (\<lambda>_. bind (with_sock (read_string recvall ?fuel []))
          (\<lambda>r. handshake_loop ?fuel 4 random (Some r))) (h1, s)
        = handshake_loop ?fuel 4 random (Some r1) (h1, s\<lparr>sending := ws, sent := sent s @ m1, incoming := rs\<rparr>)"
      "bytes_before_stop rs = r2 @ 0 # r3 @ 0 # rest" "willing (sending s) \<le> willing ws + length m1"
      by blast
    moreover have "handshake_loop ?fuel 5 random None (hs_reset h, s)
        = bind (with_sock (sendall m1)) (\<lambda>_. bind (with_sock (read_string recvall ?fuel []))
          (\<lambda>r. handshake_loop ?fuel 4 random (Some r))) (h1, s)"
      using handshake_turn(3) [OF assms(1), of ?fuel 4] by simp
    ultimately show ?thesis using assms(8) by (intro exI [of _ rs] exI [of _ ws]) simp
  qed
  then obtain rs1 ws1 where s1: "handshake_loop ?fuel 5 random None (hs_reset h, s)
      = handshake_loop ?fuel 4 random (Some r1) (h1, s\<lparr>sending := ws1, sent := sent s @ m1, incoming := rs1\<rparr>)"
    "bytes_before_stop rs1 = r2 @ 0 # r3 @ 0 # rest" "length m2 \<le> willing ws1" by blast
  let ?s1 = "s\<lparr>sending := ws1, sent := sent s @ m1, incoming := rs1\<rparr>"
  have "sock_ready ?s1" "sock_arriving ?s1 = r2 @ 0 # r3 @ 0 # rest"
    using assms(5) s1(2) by (simp_all add: sock_ready_def sock_arriving_def)
  from read_string_arrives [OF this zeros(2) len(2)] obtain rs2 where
    r2: "read_string recvall ?fuel [] ?s1 = (Inr r2, ?s1\<lparr>incoming := rs2\<rparr>)" "bytes_before_stop rs2 = r3 @ 0 # rest"
    by blast
  let ?s2 = "?s1\<lparr>incoming := rs2\<rparr>"
  have s2: "handshake_loop ?fuel 4 random (Some r1) (h1, ?s1) = handshake_loop ?fuel 3 random (Some r2) (h2, ?s2)"
    using handshake_turn(2) [OF assms(2), of ?fuel 3] by (simp add: bind_with_sock r2(1))
  have "sock_ready ?s2" "sock_arriving ?s2 = r3 @ 0 # rest" "length m2 \<le> willing (sending ?s2)"
    using assms(5) r2(2) s1(3) by (simp_all add: sock_ready_def sock_arriving_def)
  from send_and_read [OF this(1,3,2) zeros(3) len(3)] obtain rs3 ws3 where
    s3: "bind (with_sock (sendall m2)) (\<lambda>_. bind (with_sock (read_string recvall ?fuel []))
          (\<lambda>r. handshake_loop ?fuel 2 random (Some r))) (h3, ?s2)
        = handshake_loop ?fuel 2 random (Some r3) (h3, ?s2\<lparr>sending := ws3, sent := sent ?s2 @ m2, incoming := rs3\<rparr>)"
      "bytes_before_stop rs3 = rest"
    by blast
  have "handshake_loop ?fuel 3 random (Some r2) (h2, ?s2)
      = handshake_loop ?fuel 2 random (Some r3) (h3, ?s2\<lparr>sending := ws3, sent := sent ?s2 @ m2, incoming := rs3\<rparr>)"
    using s3(1) handshake_turn(3) [OF assms(3), of ?fuel 2] by simp
  moreover have "handshake_loop ?fuel 2 random (Some r3) (h3, s') = (Inr (), (h4, s'))" for s'
    using handshake_turn(1) [OF assms(4), of ?fuel 1] by (simp add: numeral_2_eq_2)
  ultimately show ?thesis using s1(1) s2 s3(2)
    by (intro exI [of _ rs3] exI [of _ ws3]) (simp add: run_handshake_def)
qed

text \<open>Four turns are the most a handshake takes.\<close>

lemma handshake_loop_turns:
  "hstate h + turns = 5 \<Longrightarrow> 1 \<le> turns
     \<Longrightarrow> handshake_loop fuel (turns + k) random response (h, s) = handshake_loop fuel turns random response (h, s)"
proof (induction turns arbitrary: h s response)
  case (Suc turns)
  obtain r h' where r: "next_message random response h = (r, h')" by (cases "next_message random response h")
  note adv = next_message_advances [OF r]
  show ?case
  proof (cases r)
    case (Inl e)
    then show ?thesis using r by (simp add: handshake_turn(4))
  next
    case (Inr m)
    show ?thesis
    proof (cases "m = Finished")
      case True
      then show ?thesis using r Inr by (simp add: handshake_turn(1))
    next
      case False
      then have h': "hstate h' + turns = 5" "1 \<le> turns" using adv Inr Suc.prems(1) by auto
      show ?thesis
        using r Inr False Suc.IH [OF h']
        by (cases m) (simp_all add: handshake_turn(2,3) bind_with_sock split: prod.splits sum.splits)
    qed
  qed
qed simp

lemma sock_close_frame [simp]:
  "incoming (sock_close s) = incoming s" "read_buffer (sock_close s) = read_buffer s"
  "sending (sock_close s) = sending s"
  by (simp_all add: sock_close_def)

lemma send_loop_frame: "send_loop s rest es = (r, s') \<Longrightarrow> incoming s' = incoming s \<and> read_buffer s' = read_buffer s"
proof (induction s rest es rule: send_loop.induct)
  case (1 s rest)
  then show ?case by (auto split: if_splits)
next
  case (2 s rest e es)
  show ?case
  proof (cases "rest = []")
    case True
    then show ?thesis using "2.prems" by auto
  next
    case False
    show ?thesis
    proof (cases e)
      case (Accepts k)
      then show ?thesis using "2.IH"(1) [OF False Accepts] "2.prems" False by auto
    next
      case (SendError i m)
      then show ?thesis using "2.IH"(2) [OF False SendError] "2.prems" False by (cases i) auto
    qed (use "2.prems" False in auto)
  qed
qed

lemma sendall_frame: "sendall data s = (r, s') \<Longrightarrow> incoming s' = incoming s \<and> read_buffer s' = read_buffer s"
  using send_loop_frame [of s data "sending s" r s'] by (auto simp: sendall_def split: if_splits)

lemma handshake_loop_fuel:
  "read_buffer s = None \<Longrightarrow> total_bytes (incoming s) < fuel \<Longrightarrow>
     handshake_loop (fuel + k) turns random response (h, s) = handshake_loop fuel turns random response (h, s)"
proof (induction turns arbitrary: h s response)
  case 0
  then show ?case by (simp add: handshake_loop.simps)
next
  case (Suc turns)
  have rd: "bind (with_sock (read_string recvall (fuel + k) [])) (\<lambda>r. handshake_loop (fuel + k) turns random (Some r)) (h', s')
      = bind (with_sock (read_string recvall fuel [])) (\<lambda>r. handshake_loop fuel turns random (Some r)) (h', s')"
    if s': "read_buffer s' = None" "total_bytes (incoming s') < fuel" for h' s'
  proof -
    obtain r s1 where r: "read_string recvall fuel [] s' = (r, s1)" by (cases "read_string recvall fuel [] s'")
    show ?thesis
    proof (cases r)
      case (Inl e)
      then show ?thesis using r s' by (simp add: bind_with_sock read_string_fuel)
    next
      case (Inr bs)
      have "read_buffer s1 = None" "total_bytes (incoming s1) < fuel"
        using read_string_Inr [OF r [unfolded Inr] s'(1)] s'(2) by auto
      then show ?thesis using r Inr s' Suc.IH by (simp add: bind_with_sock read_string_fuel)
    qed
  qed
  obtain r h' where r: "next_message random response h = (r, h')" by (cases "next_message random response h")
  show ?case
  proof (cases r)
    case (Inl e)
    then show ?thesis using r by (simp add: handshake_turn(4))
  next
    case (Inr m)
    show ?thesis
    proof (cases m)
      case (Message bs)
      obtain x s1 where x: "sendall bs s = (x, s1)" by (cases "sendall bs s")
      have "read_buffer s1 = None" "total_bytes (incoming s1) < fuel"
        using sendall_frame [OF x] Suc.prems by simp_all
      then show ?thesis using r Inr Message x rd
        by (simp add: handshake_turn(3) bind_with_sock [of "sendall bs"] split: sum.splits)
    qed (use r Inr rd [OF Suc.prems] in \<open>simp_all add: handshake_turn(1,2)\<close>)
  qed
qed

lemma run_handshake_bounds:
  assumes "read_buffer s = None"
  shows "handshake_loop (Suc (total_bytes (incoming s)) + j) (5 + k) random None (hs_reset h, s)
    = run_handshake random (h, s)"
proof -
  have "hstate (hs_reset h) + 5 = 5" by (simp add: hs_reset_def)
  then show ?thesis
    using handshake_loop_turns [of "hs_reset h" 5 _ k]
      handshake_loop_fuel [OF assms, of "Suc (total_bytes (incoming s))" j 5]
    by (simp add: run_handshake_def)
qed

lemma connect_failure_Some:
  assumes "connect_failure e x = Some y"
  shows "caught_by [ReqlDriverError] y"
proof -
  have le: "ReqlAuthError \<le> ReqlDriverError" "ReqlTimeoutError \<le> ReqlDriverError"
    by (simp_all add: less_eq_exc_class_def issubclass_code)
  have two: "caught_by [a, b] z \<longleftrightarrow> caught_by [a] z \<or> caught_by [b] z" for a b and z :: error
    by (simp add: caught_by_def)
  show ?thesis
    using assms le unfolding connect_failure_def two
    by (auto simp: during_handshake_def could_not_connect_def split: if_splits dest: order_trans)
qed

lemma connect_failure_None: "connect_failure e x = None \<Longrightarrow> \<not> caught_by [PyException] x"
  by (simp add: connect_failure_def split: if_splits)

subsection \<open>The properties of connecting\<close>

text \<open>C34. Connecting terminates: the two bounds of the handshake loop, one turn more than there are
  states and one more byte than will arrive, are never what ends it.\<close>

theorem handshake_terminates:
  assumes "read_buffer s = None" "Suc (total_bytes (incoming s)) \<le> fuel" "5 \<le> turns"
  shows "handshake_loop fuel turns random None (hs_reset h, s) = run_handshake random (h, s)"
proof -
  obtain j k where "fuel = Suc (total_bytes (incoming s)) + j" "turns = 5 + k"
    using assms(2,3) by (metis le_Suc_ex)
  then show ?thesis using run_handshake_bounds [OF assms(1)] by simp
qed

theorem handshake_terminates_witness:
  "handshake_loop 100 7 [1] None (hs_reset hs_example, sock_example) = run_handshake [1] (hs_example, sock_example)"
  by (rule handshake_terminates) (simp_all add: sock_example_def)

text \<open>When connecting raises, it is an exception of the driver, and the socket, if there was one
  already, has been closed; only an interrupt of the user is not caught, and leaves the socket
  as it was.\<close>

theorem connect_failures:
  assumes "connect_socket e random d = (Inl (Raised x), h, s)"
  shows "caught_by [ReqlDriverError] x \<and> (\<forall>s'. s = Some s' \<longrightarrow> \<not> sopen s')
     \<or> \<not> caught_by [PyException] x"
proof -
  have f: "caught_by [ReqlDriverError] x \<and> (\<forall>s'. s = Some s' \<longrightarrow> \<not> sopen s') \<or> \<not> caught_by [PyException] x"
    if "failed_connect e h' s0 z = (Inl (Raised x), h, s)" for h' s0 z
  proof (cases "connect_failure e z")
    case None
    then show ?thesis using that connect_failure_None by (auto simp: failed_connect_def)
  next
    case (Some y)
    then show ?thesis using that connect_failure_Some [OF Some] by (auto simp: failed_connect_def)
  qed
  show ?thesis
  proof (cases d)
    case (DialOk r w m t)
    obtain out h' s' where r: "run_handshake random (ehandshake e, new_sock e d) = (out, (h', s'))"
      by (metis prod_cases3)
    show ?thesis
    proof (cases "if essl e then t else TlsOk")
      case TlsOk
      then show ?thesis using assms DialOk r f
        by (auto simp: connect_socket_def Let_def split: sum.splits io_stop.splits)
    qed (use assms DialOk f in \<open>auto simp: connect_socket_def Let_def\<close>)
  qed (use assms f in \<open>auto simp: connect_socket_def Let_def\<close>)
qed

definition endpoint_example :: endpoint where
  "endpoint_example = \<lparr>ehost = ''localhost'', eport = 28015, essl = False, ehandshake = hs_example\<rparr>"

theorem connect_failures_witness:
  "caught_by [ReqlDriverError] (could_not_connect endpoint_example ''refused'')
     \<and> connect_socket endpoint_example [] (DialFails ''refused'')
         = (Inl (Raised (could_not_connect endpoint_example ''refused'')), hs_example, None)"
proof -
  have x: "exc_text (py_exc PyOSError ''refused'') = ''refused''"
    by (simp add: exc_text_def exc_str_def py_exc_def)
  have run: "connect_socket endpoint_example [] (DialFails ''refused'')
      = (Inl (Raised (could_not_connect endpoint_example ''refused'')), hs_example, None)"
    using x by (simp add: connect_socket_def failed_connect_def connect_failure_def caught_by_def
        issubclass_code Let_def endpoint_example_def)
  moreover have "caught_by [PyException] (could_not_connect endpoint_example ''refused'')"
    by (simp add: could_not_connect_def driver_error_def caught_by_def issubclass_code)
  ultimately show ?thesis using connect_failures [OF run] by blast
qed

text \<open>C28. Connecting to a server that plays its part: when the handshake object goes through its four
  steps on three replies, and the network delivers those replies, each ended by a zero byte,
  in whatever pieces and takes what is sent, then the constructor returns an open socket that
  has sent exactly the two messages and on which exactly what follows the replies is next.\<close>

theorem connect_succeeds:
  assumes "next_message random None (hs_reset (ehandshake e)) = (Inr (Message m1), h1)"
    and "next_message random (Some r1) h1 = (Inr NoMessage, h2)"
    and "next_message random (Some r2) h2 = (Inr (Message m2), h3)"
    and "next_message random (Some r3) h3 = (Inr Finished, h4)"
    and "bytes_before_stop arriving = r1 @ 0 # r2 @ 0 # r3 @ 0 # rest" "0 \<notin> set (r1 @ r2 @ r3)"
    and "length m1 + length m2 \<le> willing takes" "essl e \<longrightarrow> t = TlsOk"
  shows "\<exists>s. connect_socket e random (DialOk arriving takes m t) = (Inr s, h4, None)
     \<and> sock_ready s \<and> sock_arriving s = rest \<and> sent s = m1 @ m2 \<and> hstate h4 = 4"
proof -
  let ?s = "new_sock e (DialOk arriving takes m t)"
  have s: "sock_ready ?s" "sock_arriving ?s = r1 @ 0 # r2 @ 0 # r3 @ 0 # rest"
    "length m1 + length m2 \<le> willing (sending ?s)" "sent ?s = []"
    using assms(5,7) by (simp_all add: new_sock_def sock_ready_def sock_arriving_def)
  from run_handshake_messages [OF assms(1-4) s(1,2) assms(6) s(3)] obtain rs ws where
    "run_handshake random (ehandshake e, ?s)
       = (Inr (), (h4, ?s\<lparr>sending := ws, sent := sent ?s @ m1 @ m2, incoming := rs\<rparr>))"
    "bytes_before_stop rs = rest" by blast
  moreover have "hstate h4 = 4"
    using next_message_advances [OF assms(1)] next_message_advances [OF assms(2)]
      next_message_advances [OF assms(3)] next_message_advances [OF assms(4)] by (simp add: hs_reset_def)
  ultimately show ?thesis using s(1,4) assms(8)
    by (auto simp: connect_socket_def Let_def sock_ready_def sock_arriving_def)
qed

text \<open>The messages of a server hold no zero byte.\<close>

lemma utf8_no_zero: "0 \<in> set (utf8_encode s) \<longleftrightarrow> chr 0 \<in> set s"
proof (induction s)
  case (Cons c s)
  have "code_point c div 64 < 64"
    using code_point_less [of c] less_mult_imp_div_less [of "code_point c" 64 64] by linarith
  moreover have "c = chr 0 \<longleftrightarrow> code_point c = 0" using code_point_eq_iff [of c "chr 0"] by simp
  ultimately show ?case using Cons
    by (auto simp: utf8_encode_Cons utf8_char_def byte_eq_iff)
qed simp

lemma chr_0_simps [simp]: "chr 0 = c \<longleftrightarrow> code_point c = 0"
  using code_point_eq_iff [of "chr 0" c] by simp

lemma quote_json_no_zero: "chr 0 \<notin> set (quote_json s)"
proof -
  have c: "chr 0 = c \<longleftrightarrow> code_point c = 0" for c using code_point_eq_iff [of "chr 0" c] by simp
  have "chr 0 \<noteq> hex_digit n" if "n < 16" for n
    using that by (simp add: c hex_digit_def)
  then have "chr 0 \<notin> set (escape_char d)" for d
    by (auto simp: escape_char_def c code_point_def)
  then show ?thesis by (auto simp: quote_json_def c code_point_def)
qed

lemma show_int_no_zero: "chr 0 \<notin> set (show_int i)"
proof -
  have "\<not> is_digit (chr 0)" by (simp add: is_digit_def)
  moreover have "chr 0 \<noteq> CHR ''-''" unfolding chr_0_simps by (simp add: code_point_def)
  ultimately show ?thesis using show_nat_digits by (auto simp: show_int_def)
qed

lemma replies_no_zero:
  "0 \<notin> set (utf8_encode (server_hello lo hi))"
  "0 \<notin> set (utf8_encode (server_reply [(''authentication'', JStr s)]))"
  using quote_json_no_zero show_int_no_zero
  by (auto simp: utf8_no_zero server_hello_def server_reply_def code_point_def)

theorem connect_succeeds_witness:
  "\<exists>s arriving takes h4 m1 m2.
     connect_socket endpoint_example [1, 2] (DialOk arriving takes None TlsOk) = (Inr s, h4, None)
     \<and> sock_ready s \<and> sock_arriving s = [7] \<and> sent s = m1 @ m2 \<and> hstate h4 = 4"
proof -
  obtain m1 m2 h1 h2 h3 h4 sig where
    1: "next_message [1, 2] None hs_example = (Inr (Message m1), h1)" and
    2: "next_message [1, 2] (Some (utf8_encode (server_hello 0 0))) h1 = (Inr NoMessage, h2)" and
    3: "next_message [1, 2] (Some (utf8_encode (server_reply
          [(''authentication'', JStr (server_first (b64_text [1, 2] @ ''xyz'') [9] 2))]))) h2 = (Inr (Message m2), h3)" and
    4: "next_message [1, 2] (Some (utf8_encode (server_reply [(''authentication'', JStr sig)]))) h3 = (Inr Finished, h4)"
    using honest_run [where h = hs_example and random = "[1, 2]" and lo = 0 and hi = 0 and n = 2 and extra = "''xyz''"
      and ?r2.0 = "[1, 2]" and ?r3.0 = "[1, 2]" and ?r4.0 = "[1, 2]" and salt = "[9]", OF _ _ _ _ _ _ _ _ _ _ _ refl refl refl refl]
    by (force simp: hs_example_def escape_ascii utf8_ascii_iff code_point_def cache_ok_def simp del: json_text.simps)
  let ?r1 = "utf8_encode (server_hello 0 0)"
    and ?r2 = "utf8_encode (server_reply [(''authentication'', JStr (server_first (b64_text [1, 2] @ ''xyz'') [9] 2))])"
    and ?r3 = "utf8_encode (server_reply [(''authentication'', JStr sig)])"
  have h: "hs_reset (ehandshake endpoint_example) = hs_example"
    by (simp add: endpoint_example_def hs_example_def hs_reset_def hs_init_def)
  have z: "0 \<notin> set (?r1 @ ?r2 @ ?r3)" using replies_no_zero by simp
  have b: "bytes_before_stop [Arrived (?r1 @ 0 # ?r2 @ 0 # ?r3 @ 0 # [7])] = ?r1 @ 0 # ?r2 @ 0 # ?r3 @ 0 # [7]"
    by simp
  have w: "length m1 + length m2 \<le> willing (replicate (length m1 + length m2) (Accepts 1))"
  proof -
    have "willing (replicate k (Accepts 1)) = k" for k by (induction k) auto
    then show ?thesis by simp
  qed
  from connect_succeeds [OF 1 [folded h] 2 3 4 b z w, of TlsOk None] show ?thesis by blast
qed

end
