(* ===== verification/GeventSocket.thy ===== *)
theory GeventSocket
  imports Connect
begin

text \<open>
  \<open>SocketWrapper\<close> of \<open>rethinkdb/gevent_net/net_gevent.py\<close>, a second version of the class of \<open>net.py\<close> over
  the sockets of gevent: \<open>close\<close>, \<open>recvall\<close>, \<open>sendall\<close> and the constructor, on the sockets and
  scripts of \<open>Socket\<close> and \<open>Connect\<close>.  Where the two versions do the same is proved, and where they
  do not.

  A timeout is the exception that \<open>gevent.Timeout\<close> in \<open>connect\<close> has raised at the call that
  waits.  The exceptions of \<open>shutdown\<close> are \<open>OSError\<close>s.
\<close>

subsection \<open>Closing\<close>

text \<open>The handler reads \<open>ex.message\<close>, which exceptions of Python 3 do not have; the socket is gone all the same.\<close>

definition no_message :: error where
  "no_message = py_exc PyAttributeError
     ([CHR 0x27] @ ''OSError'' @ [CHR 0x27] @ '' object has no attribute '' @ [CHR 0x27] @ ''message'' @ [CHR 0x27])"

definition gevent_close :: "unit sock_io" where
  "gevent_close = (\<lambda>s.
     if sopen s then
       (case shutdown_error s of None \<Rightarrow> Inr () | Some m \<Rightarrow> Inl (Raised no_message), s\<lparr>sopen := False\<rparr>)
     else (Inr (), s))"

definition gevent_fail :: "error \<Rightarrow> 'a sock_io" where
  "gevent_fail x = bind gevent_close (\<lambda>_. raise (Raised x))"

subsection \<open>Reading and writing\<close>

fun gevent_recv :: "sock \<Rightarrow> nat \<Rightarrow> byte list \<Rightarrow> recv_event list \<Rightarrow> (io_stop + byte list) \<times> sock" where
  "gevent_recv s n res [] =
     (if length res < n then (Inl Blocked, s\<lparr>incoming := []\<rparr>) else (Inr res, s\<lparr>incoming := []\<rparr>))"
| "gevent_recv s n res (e # es) =
     (if length res < n then
        (case e of
           Arrived bs \<Rightarrow>
             if bs = [] then gevent_fail connection_closed (s\<lparr>incoming := e # es\<rparr>)
             else if length bs \<le> n - length res then gevent_recv s n (res @ bs) es
             else (Inr (res @ take (n - length res) bs),
                   s\<lparr>incoming := Arrived (drop (n - length res) bs) # es\<rparr>)
         | RecvTimeout \<Rightarrow> (Inl (Raised (sock_timeout s)), s\<lparr>incoming := es\<rparr>)
         | RecvError ECONNRESET m \<Rightarrow> gevent_fail connection_closed (s\<lparr>incoming := es\<rparr>)
         | RecvError EINTR m \<Rightarrow> gevent_recv s n res es
         | RecvError _ m \<Rightarrow> gevent_fail (io_interrupted s ''receiving from '' m) (s\<lparr>incoming := es\<rparr>)
         | RecvException m \<Rightarrow> gevent_fail (io_failed s ''receiving from '' m) (s\<lparr>incoming := es\<rparr>)
         | RecvInterrupt \<Rightarrow> (Inl (Raised keyboard_interrupt), s\<lparr>incoming := es\<rparr>))
      else (Inr res, s\<lparr>incoming := e # es\<rparr>))"

text \<open>Without a socket the access to it fails inside of the \<open>try\<close>.\<close>

definition gevent_recvall :: "nat \<Rightarrow> byte list sock_io" where
  "gevent_recvall n = (\<lambda>s.
     let res = (case read_buffer s of None \<Rightarrow> [] | Some bs \<Rightarrow> bs)
     in if \<not> sopen s \<and> length res < n then
          (Inl (Raised (io_failed s ''receiving from '' (no_socket ''recv''))), s)
        else gevent_recv s n res (incoming s))"

fun gevent_send :: "sock \<Rightarrow> byte list \<Rightarrow> send_event list \<Rightarrow> (io_stop + unit) \<times> sock" where
  "gevent_send s rest [] =
     (if rest \<noteq> [] then (Inl Blocked, s\<lparr>sending := []\<rparr>) else (Inr (), s\<lparr>sending := []\<rparr>))"
| "gevent_send s rest (e # es) =
     (if rest \<noteq> [] then
        (case e of
           Accepts k \<Rightarrow> gevent_send (s\<lparr>sent := sent s @ take k rest\<rparr>) (drop k rest) es
         | SendError ECONNRESET m \<Rightarrow> gevent_fail connection_closed (s\<lparr>sending := es\<rparr>)
         | SendError EINTR m \<Rightarrow> gevent_send s rest es
         | SendError _ m \<Rightarrow> gevent_fail (io_interrupted s ''sending to '' m) (s\<lparr>sending := es\<rparr>)
         | SendException m \<Rightarrow> gevent_fail (io_failed s ''sending to '' m) (s\<lparr>sending := es\<rparr>)
         | SendInterrupt \<Rightarrow> (Inl (Raised keyboard_interrupt), s\<lparr>sending := es\<rparr>))
      else (Inr (), s\<lparr>sending := e # es\<rparr>))"

definition gevent_sendall :: "byte list \<Rightarrow> unit sock_io" where
  "gevent_sendall data = (\<lambda>s.
     if \<not> sopen s \<and> data \<noteq> [] then
       (Inl (Raised (io_failed s ''sending to '' (no_socket ''send''))), s)
     else gevent_send s data (sending s))"

subsection \<open>The constructor\<close>

fun gevent_turns :: "nat \<Rightarrow> nat \<Rightarrow> byte list \<Rightarrow> byte list option \<Rightarrow> (hs \<times> sock, io_stop, unit) comp" where
  "gevent_turns fuel 0 random response = raise Blocked"
| "gevent_turns fuel (Suc turns) random response =
     bind (with_hs (next_message random response)) (\<lambda>request.
       case request of
         Finished \<Rightarrow> ret ()
       | NoMessage \<Rightarrow>
           bind (with_sock (read_string gevent_recvall fuel [])) (\<lambda>r. gevent_turns fuel turns random (Some r))
       | Message bs \<Rightarrow>
           bind (with_sock (gevent_sendall bs)) (\<lambda>_.
           bind (with_sock (read_string gevent_recvall fuel [])) (\<lambda>r. gevent_turns fuel turns random (Some r))))"

definition gevent_handshake :: "byte list \<Rightarrow> (hs \<times> sock, io_stop, unit) comp" where
  "gevent_handshake random = (\<lambda>(h, s).
     gevent_turns (Suc (total_bytes (incoming s))) 5 random None (hs_reset h, s))"

text \<open>The \<open>except\<close> clauses, each with its \<open>close()\<close>, which may raise itself.\<close>

definition gevent_failure :: "endpoint \<Rightarrow> error \<Rightarrow> error option" where
  "gevent_failure e x =
     (if caught_by [ReqlAuthError, ReqlTimeoutError] x then Some x
      else if caught_by [ReqlDriverError] x then Some (during_handshake x)
      else if caught_by [PyException] x then Some (could_not_connect e (exc_text x))
      else None)"

definition gevent_failed :: "endpoint \<Rightarrow> hs \<Rightarrow> sock option \<Rightarrow> error \<Rightarrow> (io_stop + sock) \<times> hs \<times> sock option" where
  "gevent_failed e h s x =
     (case (gevent_failure e x, s) of
        (None, _) \<Rightarrow> (Inl (Raised x), h, s)
      | (Some y, None) \<Rightarrow> (Inl (Raised y), h, None)
      | (Some y, Some s) \<Rightarrow>
          (case gevent_close s of (Inl z, s') \<Rightarrow> (Inl z, h, Some s') | (Inr _, s') \<Rightarrow> (Inl (Raised y), h, Some s')))"

text \<open>With TLS the constructor uses \<open>self.ssl_context\<close>, which is never set, before the module \<open>ssl\<close> is asked for anything.\<close>

definition no_ssl_context :: error where
  "no_ssl_context = py_exc PyAttributeError
     ([CHR 0x27] @ ''SocketWrapper'' @ [CHR 0x27] @ '' object has no attribute '' @ [CHR 0x27] @ ''ssl_context'' @ [CHR 0x27])"

definition gevent_connect :: "endpoint \<Rightarrow> byte list \<Rightarrow> dial \<Rightarrow> (io_stop + sock) \<times> hs \<times> sock option" where
  "gevent_connect e random d =
     (let h = ehandshake e; s = new_sock e d in
      case d of
        DialTimeout \<Rightarrow> gevent_failed e h None (timeout_error (Some (ehost e)) (Some (eport e)))
      | DialFails m \<Rightarrow> gevent_failed e h None (py_exc PyOSError m)
      | DialOk r w m t \<Rightarrow>
          if essl e then gevent_failed e h (Some s) no_ssl_context
          else (case gevent_handshake random (h, s) of
                  (Inr _, (h', s')) \<Rightarrow> (Inr s', h', None)
                | (Inl Blocked, (h', s')) \<Rightarrow> (Inl Blocked, h', Some s')
                | (Inl (Raised x), (h', s')) \<Rightarrow> gevent_failed e h' (Some s') x))"

subsection \<open>Where the two versions agree\<close>

text \<open>What both versions treat alike: no timeouts, no errors but a reset and interrupted calls, no
  interrupts by the user, and closing succeeds.\<close>

fun calm :: "recv_event \<Rightarrow> bool" where
  "calm RecvTimeout = False"
| "calm (RecvError EWOULDBLOCK m) = False"
| "calm (RecvError (EOther i) m) = False"
| "calm _ = True"

definition quiet :: "sock \<Rightarrow> bool" where
  "quiet s \<longleftrightarrow> sopen s \<and> shutdown_error s = None \<and> read_buffer s = None
     \<and> list_all calm (incoming s) \<and> list_all (\<lambda>x. x \<noteq> SendInterrupt) (sending s)"

lemma gevent_fail_quiet: "sopen s \<Longrightarrow> shutdown_error s = None \<Longrightarrow> gevent_fail x s = (Inl (Raised x), sock_close s)"
  by (simp add: gevent_fail_def gevent_close_def sock_close_def bind_def raise_def)

lemma gevent_recv_same:
  "sopen s \<Longrightarrow> shutdown_error s = None \<Longrightarrow> list_all calm es \<Longrightarrow> gevent_recv s n res es = recv_loop s n res es"
proof (induction s n res es rule: gevent_recv.induct)
  case (2 s n res e es)
  show ?case
  proof (cases e)
    case (RecvError i m)
    then show ?thesis using 2 by (cases i) (simp_all add: gevent_fail_quiet)
  qed (use 2 in \<open>simp_all add: gevent_fail_quiet\<close>)
qed simp

lemma gevent_send_same:
  "sopen s \<Longrightarrow> shutdown_error s = None \<Longrightarrow> list_all (\<lambda>x. x \<noteq> SendInterrupt) es \<Longrightarrow> gevent_send s rest es = send_loop s rest es"
proof (induction s rest es rule: gevent_send.induct)
  case (2 s rest e es)
  show ?case
  proof (cases e)
    case (SendError i m)
    then show ?thesis using 2 by (cases i) (simp_all add: gevent_fail_quiet)
  qed (use 2 in \<open>simp_all add: gevent_fail_quiet\<close>)
qed simp

lemma recv_loop_calm:
  "recv_loop s n res es = (Inr bs, s') \<Longrightarrow> list_all calm es \<Longrightarrow> \<exists>es'. s' = s\<lparr>incoming := es'\<rparr> \<and> list_all calm es'"
proof (induction s n res es rule: recv_loop.induct)
  case (1 s n res)
  then show ?case by (auto split: if_splits)
next
  case (2 s n res e es)
  show ?case
  proof (cases e)
    case (RecvError i m)
    then show ?thesis using 2 by (cases i) (auto split: if_splits intro: exI [of _ "e # es"])
  qed (use 2 in \<open>auto split: if_splits\<close>)
qed

lemma send_loop_calm:
  "send_loop s rest es = (Inr u, s') \<Longrightarrow> list_all (\<lambda>x. x \<noteq> SendInterrupt) es
     \<Longrightarrow> \<exists>es' bs. s' = s\<lparr>sending := es', sent := bs\<rparr> \<and> list_all (\<lambda>x. x \<noteq> SendInterrupt) es'"
proof (induction s rest es rule: send_loop.induct)
  case (1 s rest)
  then show ?case by (auto split: if_splits intro!: exI [of _ "[]"] exI [of _ "sent s"])
next
  case (2 s rest e es)
  show ?case
  proof (cases "rest = []")
    case True
    then show ?thesis using 2 by (auto intro!: exI [of _ "e # es"] exI [of _ "sent s"])
  next
    case False
    show ?thesis
    proof (cases e)
      case (Accepts k)
      then show ?thesis using 2 False by fastforce
    next
      case (SendError i m)
      then show ?thesis using 2 False by (cases i) auto
    qed (use 2 False in auto)
  qed
qed

lemma quiet_recvall:
  assumes "quiet s"
  shows "gevent_recvall n s = recvall n s" "recvall n s = (Inr bs, s') \<Longrightarrow> quiet s'"
  using assms gevent_recv_same [of s "incoming s" n "[]"] recv_loop_calm [of s n "[]" "incoming s" bs s']
  by (auto simp: gevent_recvall_def recvall_def quiet_def)

lemma quiet_sendall:
  assumes "quiet s"
  shows "gevent_sendall bs s = sendall bs s" "sendall bs s = (Inr u, s') \<Longrightarrow> quiet s'"
  using assms gevent_send_same [of s "sending s" bs] send_loop_calm [of s bs "sending s" u s']
  by (auto simp: gevent_sendall_def sendall_def quiet_def)

lemma quiet_read_string:
  "quiet s \<Longrightarrow> read_string gevent_recvall fuel acc s = read_string recvall fuel acc s
     \<and> (\<forall>bs s'. read_string recvall fuel acc s = (Inr bs, s') \<longrightarrow> quiet s')"
proof (induction fuel arbitrary: s acc)
  case 0
  then show ?case by (simp add: read_string.simps raise_def)
next
  case (Suc fuel)
  obtain r s1 where r: "recvall 1 s = (r, s1)" by (cases "recvall 1 s")
  show ?case
  proof (cases r)
    case (Inl x)
    then show ?thesis using r quiet_recvall(1) [OF Suc.prems] by (simp add: read_string.simps bind_def)
  next
    case (Inr c)
    have "quiet s1" using quiet_recvall(2) [OF Suc.prems] r Inr by blast
    then show ?thesis using r Inr quiet_recvall(1) [OF Suc.prems] Suc.IH [of s1 "acc @ c"]
      by (auto simp: read_string.simps bind_def ret_def)
  qed
qed

declare gevent_turns.simps [simp del]

lemma quiet_turns:
  "quiet s \<Longrightarrow> gevent_turns fuel turns random response (h, s) = handshake_loop fuel turns random response (h, s)"
proof (induction turns arbitrary: response h s)
  case 0
  then show ?case by (simp add: gevent_turns.simps handshake_loop.simps)
next
  case (Suc turns)
  obtain r h1 where n: "next_message random response h = (r, h1)" by (cases "next_message random response h")
  have rd: "bind (with_sock (read_string gevent_recvall fuel [])) (\<lambda>r. gevent_turns fuel turns random (Some r)) (h1, t)
      = bind (with_sock (read_string recvall fuel [])) (\<lambda>r. handshake_loop fuel turns random (Some r)) (h1, t)"
    if "quiet t" for t
    using quiet_read_string [OF that, of fuel "[]"] Suc.IH by (auto simp: bind_with_sock split: prod.splits sum.splits)
  show ?case
  proof (cases r)
    case (Inl x)
    then show ?thesis using n by (simp add: gevent_turns.simps handshake_loop.simps bind_with_hs)
  next
    case (Inr request)
    show ?thesis
    proof (cases request)
      case (Message bs)
      then show ?thesis
        using n Inr rd quiet_sendall [OF Suc.prems, of bs]
        by (auto simp: gevent_turns.simps handshake_loop.simps bind_with_hs bind_with_sock [of "sendall bs"]
            bind_with_sock [of "gevent_sendall bs"] split: prod.splits sum.splits)
    qed (use n Inr rd [OF Suc.prems] in \<open>simp_all add: gevent_turns.simps handshake_loop.simps bind_with_hs\<close>)
  qed
qed

lemma quiet_handshake: "quiet s \<Longrightarrow> gevent_handshake random (h, s) = run_handshake random (h, s)"
  by (simp add: gevent_handshake_def run_handshake_def quiet_turns)

text \<open>Whatever the network does, what \<open>recvall\<close> of \<open>net.py\<close> reads this one reads too, so it keeps the contract
  of a reader.\<close>

lemma gevent_recv_reads: "recv_loop s n res es = (Inr bs, s') \<Longrightarrow> gevent_recv s n res es = (Inr bs, s')"
proof (induction s n res es rule: gevent_recv.induct)
  case (2 s n res e es)
  show ?case
  proof (cases e)
    case (RecvError i m)
    then show ?thesis using 2 by (cases i) (auto split: if_splits)
  qed (use 2 in \<open>auto split: if_splits\<close>)
qed simp

interpretation gr: byte_reader gevent_recvall sock_arriving sock_ready
proof
  fix s n assume r: "sock_ready s" and n: "n \<le> length (sock_arriving s)"
  from sr.read_exact [OF r n] obtain s' where s': "recvall n s = (Inr (take n (sock_arriving s)), s')"
    "sock_ready s'" "sock_arriving s' = drop n (sock_arriving s)" by blast
  have "gevent_recvall n s = (Inr (take n (sock_arriving s)), s')"
    using s'(1) r gevent_recv_reads [of s n "[]" "incoming s"] by (simp add: gevent_recvall_def recvall_def sock_ready_def)
  then show "\<exists>s'. gevent_recvall n s = (Inr (take n (sock_arriving s)), s') \<and> sock_ready s'
      \<and> sock_arriving s' = drop n (sock_arriving s)" using s' by blast
qed

subsection \<open>The properties\<close>

text \<open>C35. The second version of the wrapper does what the first one does, without TLS, when the connection of the
  socket itself succeeds, receiving neither times out nor fails but for resets, interrupted calls and
  exceptions that are no errors of the socket, sending is not interrupted, and
  \<open>shutdown\<close> does not fail: then the handshake of one and of the other are the same, with all that is sent,
  read, raised and left of the socket, and a connection is made with one exactly when it is made with the other.
  With TLS this one never connects (\<open>gevent_tls_fails\<close>), and a \<open>shutdown\<close> that fails changes the error
  (\<open>gevent_reset_misreported\<close>).\<close>

theorem gevent_connects_alike:
  assumes "d = DialOk arriving takes None t" "\<not> essl e"
    and "list_all calm arriving" "list_all (\<lambda>x. x \<noteq> SendInterrupt) takes"
  shows "gevent_handshake random (h, new_sock e d) = run_handshake random (h, new_sock e d)
     \<and> (gevent_connect e random d = (Inr s, h', None) \<longleftrightarrow> connect_socket e random d = (Inr s, h', None))"
proof -
  have q: "quiet (new_sock e d)" using assms by (simp add: quiet_def new_sock_def)
  have n: "gevent_failed e k os x \<noteq> (Inr s, h', None)" "failed_connect e k os x \<noteq> (Inr s, h', None)" for k os x
    by (auto simp: gevent_failed_def failed_connect_def split: option.splits prod.splits sum.splits)
  show ?thesis
    using quiet_handshake [OF q] assms(1,2) n
    by (auto simp: gevent_connect_def connect_socket_def Let_def split: prod.splits sum.splits io_stop.splits)
qed

theorem gevent_connects_alike_witness:
  "gevent_handshake [1] (hs_example, new_sock endpoint_example (DialOk [Arrived [0]] [Accepts 1] None TlsOk))
     = run_handshake [1] (hs_example, new_sock endpoint_example (DialOk [Arrived [0]] [Accepts 1] None TlsOk))"
  using gevent_connects_alike [of "DialOk [Arrived [0]] [Accepts 1] None TlsOk" "[Arrived [0]]" "[Accepts 1]" TlsOk endpoint_example "[1]" hs_example]
  by (simp add: endpoint_example_def)

text \<open>This driver never connects with TLS: whatever the server does, the constructor raises, because
  of an attribute nothing sets.\<close>

theorem gevent_tls_fails:
  assumes "essl e"
  shows "(\<forall>s h. gevent_connect e random d \<noteq> (Inr s, h, None))
     \<and> gevent_connect e random (DialOk arriving takes None t)
        = (Inl (Raised (could_not_connect e (exc_text no_ssl_context))), ehandshake e,
           Some (sock_close (new_sock e (DialOk arriving takes None t))))"
proof -
  have f: "gevent_failure e no_ssl_context = Some (could_not_connect e (exc_text no_ssl_context))"
    by (simp add: gevent_failure_def no_ssl_context_def caught_by_def py_exc_def issubclass_code)
  have n: "gevent_failed e k os x \<noteq> (Inr s, h', None)" for k os x s h'
    by (auto simp: gevent_failed_def split: option.splits prod.splits sum.splits)
  have "gevent_failed e h (Some (new_sock e (DialOk arriving takes None t))) no_ssl_context
      = (Inl (Raised (could_not_connect e (exc_text no_ssl_context))), h, Some (sock_close (new_sock e (DialOk arriving takes None t))))" for h
    using f by (simp add: gevent_failed_def new_sock_def gevent_close_def sock_close_def)
  then show ?thesis
    using assms n by (cases d) (simp_all add: gevent_connect_def Let_def)
qed

theorem gevent_tls_fails_witness:
  "gevent_connect (endpoint_example\<lparr>essl := True\<rparr>) [1] DialTimeout \<noteq> (Inr sock_example, hs_example, None)"
  using gevent_tls_fails [of "endpoint_example\<lparr>essl := True\<rparr>" "[1]" DialTimeout] by simp

text \<open>When the connection is reset and the system refuses the shutdown of the socket, which it does when the peer is
  gone, \<open>recvall\<close> and \<open>sendall\<close> raise no error of the driver but an \<open>AttributeError\<close>, where those of \<open>net.py\<close> say that
  the connection is closed.\<close>

theorem gevent_reset_misreported:
  assumes "sopen s" "shutdown_error s = Some m" "read_buffer s = None" "incoming s = RecvError ECONNRESET r # es" "0 < n"
  shows "fst (gevent_recvall n s) = Inl (Raised no_message) \<and> \<not> sopen (snd (gevent_recvall n s))
     \<and> \<not> caught_by [ReqlDriverError] no_message \<and> fst (recvall n s) = Inl (Raised connection_closed)"
  using assms by (simp add: gevent_recvall_def recvall_def gevent_fail_def gevent_close_def bind_def
      no_message_def caught_by_def py_exc_def issubclass_code)

theorem gevent_reset_misreported_witness:
  "fst (gevent_recvall 1 (sock_example\<lparr>incoming := [RecvError ECONNRESET ''reset''], shutdown_error := Some ''not connected''\<rparr>))
     = Inl (Raised no_message)"
  using gevent_reset_misreported [of "sock_example\<lparr>incoming := [RecvError ECONNRESET ''reset''], shutdown_error := Some ''not connected''\<rparr>"
      "''not connected''" "''reset''" "[]" 1] by (simp add: sock_example_def)

end
