(* ===== verification/Connection.thy ===== *)
theory Connection
  imports Connect
begin

text \<open>
  Cursors and connections of \<open>rethinkdb/net.py\<close>: \<open>Cursor\<close> and \<open>DefaultCursor\<close>,
  \<open>ConnectionInstance\<close>, \<open>Connection\<close>, and \<open>Repl\<close> and \<open>RqlQuery.run\<close> of \<open>rethinkdb/ast.py\<close>.

  The state is one \<open>Connection\<close> object with everything it can reach: instances and cursors live
  in stores, and are referred to by their index, because a cursor and the cache of its instance
  share it and because an instance outlives its connection's use of it.  The scripts of the
  sockets come with them; attempts to connect take theirs from \<open>n_dials\<close>, each with the random
  bytes of its nonce.  Queries run with the connection's own encoder and decoder classes.
\<close>

subsection \<open>State\<close>

record cursor =
  cu_conn :: nat
  cu_query :: wire_query
  cu_items :: "rval list"
  cu_outstanding :: int
  cu_threshold :: nat
  cu_error :: "error option"

record inst =
  in_cache :: "(int, nat) dict"
  in_header :: "byte list option"
  in_sock :: "sock option"
  in_closing :: bool

record net =
  n_db :: "pyval option"
  n_end :: endpoint
  n_instance :: "nat option"
  n_next_token :: int
  n_insts :: "inst list"
  n_cursors :: "cursor list"
  n_var :: int
  n_dials :: "(dial \<times> byte list) list"
  n_dropped :: "sock list"
  n_repl :: bool
  n_repl_active :: bool

type_synonym 'a net_io = "(net, io_stop, 'a) comp"

definition fail :: "error \<Rightarrow> 'a net_io" where
  "fail e = raise (Raised e)"

definition of_res :: "error + 'a \<Rightarrow> 'a net_io" where
  "of_res r = (case r of Inl e \<Rightarrow> fail e | Inr a \<Rightarrow> ret a)"

definition gets :: "(net \<Rightarrow> 'a) \<Rightarrow> 'a net_io" where
  "gets f = (\<lambda>w. (Inr (f w), w))"

definition modify :: "(net \<Rightarrow> net) \<Rightarrow> unit net_io" where
  "modify f = (\<lambda>w. (Inr (), f w))"

definition inst_of :: "nat \<Rightarrow> net \<Rightarrow> inst" where
  "inst_of i w = n_insts w ! i"

definition cursor_of :: "nat \<Rightarrow> net \<Rightarrow> cursor" where
  "cursor_of c w = n_cursors w ! c"

definition set_inst :: "nat \<Rightarrow> (inst \<Rightarrow> inst) \<Rightarrow> net \<Rightarrow> net" where
  "set_inst i f w = w\<lparr>n_insts := (n_insts w)[i := f (inst_of i w)]\<rparr>"

definition set_cursor :: "nat \<Rightarrow> (cursor \<Rightarrow> cursor) \<Rightarrow> net \<Rightarrow> net" where
  "set_cursor c f w = w\<lparr>n_cursors := (n_cursors w)[c := f (cursor_of c w)]\<rparr>"

text \<open>\<open>try: m finally: f\<close>; a call that blocks never gets to the second part.\<close>

definition finally_do :: "'a net_io \<Rightarrow> unit net_io \<Rightarrow> 'a net_io" where
  "finally_do m f = (\<lambda>w.
     case m w of
       (Inl Blocked, w') \<Rightarrow> (Inl Blocked, w')
     | (r, w') \<Rightarrow> (case f w' of (Inl e, w'') \<Rightarrow> (Inl e, w'') | (Inr _, w'') \<Rightarrow> (r, w'')))"

subsection \<open>The socket of an instance\<close>

definition on_sock :: "nat \<Rightarrow> string \<Rightarrow> 'a sock_io \<Rightarrow> 'a net_io" where
  "on_sock i attr m = (\<lambda>w.
     case in_sock (inst_of i w) of
       None \<Rightarrow> (Inl (Raised (py_exc PyAttributeError (no_socket attr))), w)
     | Some s \<Rightarrow> (case m s of (r, s') \<Rightarrow> (r, set_inst i (\<lambda>n. n\<lparr>in_sock := Some s'\<rparr>) w)))"

definition inst_is_open :: "nat \<Rightarrow> bool net_io" where
  "inst_is_open i = on_sock i ''is_open'' (\<lambda>s. (Inr (sopen s), s))"

definition conn_is_open :: "bool net_io" where
  "conn_is_open =
     bind (gets n_instance) (\<lambda>i. case i of None \<Rightarrow> ret False | Some i \<Rightarrow> inst_is_open i)"

text \<open>\<open>check_open\<close>, with the instance it found open.\<close>

definition check_open :: "nat net_io" where
  "check_open =
     bind (gets n_instance) (\<lambda>i. case i of
       None \<Rightarrow> fail connection_closed
     | Some i \<Rightarrow> bind (inst_is_open i) (\<lambda>b. if b then ret i else fail connection_closed))"

definition serialize_query :: "proto \<Rightarrow> wire_query \<Rightarrow> byte list net_io" where
  "serialize_query p q = (\<lambda>w.
     case serialize p q (n_var w) of
       (Inl e, v) \<Rightarrow> (Inl (Raised e), w\<lparr>n_var := v\<rparr>)
     | (Inr bs, v) \<Rightarrow> (Inr bs, w\<lparr>n_var := v\<rparr>))"

text \<open>The first statement of \<open>run_query\<close>.\<close>

definition send_query :: "proto \<Rightarrow> nat \<Rightarrow> wire_query \<Rightarrow> unit net_io" where
  "send_query p i q =
     bind (on_sock i ''sendall'' (\<lambda>s. (Inr (), s))) (\<lambda>_.
     bind (serialize_query p q) (\<lambda>bs. on_sock i ''sendall'' (sendall bs)))"

text \<open>\<open>_continue\<close> and \<open>_stop\<close>.\<close>

definition control_query :: "proto \<Rightarrow> string \<Rightarrow> int \<Rightarrow> wire_query" where
  "control_query p ty token = make_query (pquery p ty) token None None"

definition send_control :: "proto \<Rightarrow> string \<Rightarrow> nat \<Rightarrow> unit net_io" where
  "send_control p ty c =
     bind check_open (\<lambda>i.
     bind (gets (\<lambda>w. wtoken (cu_query (cursor_of c w)))) (\<lambda>token.
       send_query p i (control_query p ty token)))"

subsection \<open>Cursors\<close>

definition empty_error :: error where
  "empty_error = cursor_empty DefaultCursorEmpty"

text \<open>The formats a decoder is made with, from the global optional arguments of a query; a query as
  the value of an option is never equal to a text in Python's sense, but \<open>==\<close> on it is true.\<close>

fun option_atom :: "pyval \<Rightarrow> atom" where
  "option_atom (PAtom a) = a"
| "option_atom (PQuery q) = AStr ''native''"
| "option_atom v = AObj (type_name v) (type_name v)"

definition formats_of :: "wire_query \<Rightarrow> formats" where
  "formats_of q = (case wopts q of None \<Rightarrow> [] | Some kvs \<Rightarrow> map (map_prod id option_atom) kvs)"

definition maybe_fetch_batch :: "proto \<Rightarrow> nat \<Rightarrow> unit net_io" where
  "maybe_fetch_batch p c =
     bind (gets (cursor_of c)) (\<lambda>cu.
       if cu_error cu = None \<and> length (cu_items cu) < cu_threshold cu \<and> cu_outstanding cu = 0 then
         bind (modify (set_cursor c (\<lambda>cu. cu\<lparr>cu_outstanding := cu_outstanding cu + 1\<rparr>))) (\<lambda>_.
           send_control p ''CONTINUE'' c)
       else ret ())"

text \<open>The first half of \<open>_extend_internal\<close>: what a response does to the cursor itself, with the value
  of the cursor's \<open>_empty_error()\<close>.\<close>

definition absorb :: "error \<Rightarrow> proto \<Rightarrow> response \<Rightarrow> rval list \<Rightarrow> cursor \<Rightarrow> error + cursor" where
  "absorb over p res xs cu =
     (if cu_error cu \<noteq> None then Inr cu
      else if is_int (rtype res) (presponse p ''SUCCESS_PARTIAL'') then
        Inr (cu\<lparr>cu_items := cu_items cu @ xs\<rparr>)
      else if is_int (rtype res) (presponse p ''SUCCESS_SEQUENCE'') then
        Inr (cu\<lparr>cu_items := cu_items cu @ xs, cu_error := Some over\<rparr>)
      else rbind (make_error p res (wterm (cu_query cu))) (\<lambda>e. Inr (cu\<lparr>cu_error := Some e\<rparr>)))"

definition forget_token :: "nat \<Rightarrow> int \<Rightarrow> unit net_io" where
  "forget_token i token =
     bind (gets (inst_of i)) (\<lambda>n.
       if map_of (in_cache n) token = None then fail (py_exc PyKeyError (show_int token))
       else modify (set_inst i (\<lambda>n. n\<lparr>in_cache := dict_del (in_cache n) token\<rparr>)))"

definition extend_internal :: "proto \<Rightarrow> nat \<Rightarrow> response \<Rightarrow> unit net_io" where
  "extend_internal p c res =
     bind (of_res (items_of (rdata res))) (\<lambda>xs.
     bind (modify (set_cursor c (\<lambda>cu. cu\<lparr>cu_threshold := length xs\<rparr>))) (\<lambda>_.
     bind (gets (cursor_of c)) (\<lambda>cu.
     bind (of_res (absorb empty_error p res xs cu)) (\<lambda>cu'.
     bind (modify (set_cursor c (\<lambda>_. cu'))) (\<lambda>_.
       if cu_outstanding cu' = 0 \<and> cu_error cu' \<noteq> None
       then forget_token (cu_conn cu') (rtoken res) else ret ())))))"

definition extend_cursor :: "proto \<Rightarrow> nat \<Rightarrow> byte list \<Rightarrow> unit net_io" where
  "extend_cursor p c res_buf =
     bind (modify (set_cursor c (\<lambda>cu. cu\<lparr>cu_outstanding := cu_outstanding cu - 1\<rparr>))) (\<lambda>_.
     bind (maybe_fetch_batch p c) (\<lambda>_.
     bind (gets (cursor_of c)) (\<lambda>cu.
     bind (of_res (parse_response (formats_of (cu_query cu)) (wtoken (cu_query cu)) res_buf)) (\<lambda>res.
       extend_internal p c res))))"

definition dummy_response :: "proto \<Rightarrow> byte list" where
  "dummy_response p =
     utf8_encode ([CHR ''{'', CHR 0x22, CHR ''t'', CHR 0x22, CHR '':''] @ show_int (presponse p ''SUCCESS_SEQUENCE'')
       @ [CHR '','', CHR 0x22, CHR ''r'', CHR 0x22, CHR '':'', CHR ''['', CHR '']'', CHR ''}''])"

text \<open>\<open>_error\<close>.\<close>

definition cursor_fail :: "proto \<Rightarrow> string \<Rightarrow> nat \<Rightarrow> unit net_io" where
  "cursor_fail p message c =
     bind (gets (cursor_of c)) (\<lambda>cu.
       if cu_error cu = None then
         bind (modify (set_cursor c (\<lambda>cu. cu\<lparr>cu_error :=
             Some (reql_error ReqlRuntimeError message (wterm (cu_query cu)) (Some []))\<rparr>))) (\<lambda>_.
           extend_cursor p c (dummy_response p))
       else ret ())"

subsection \<open>Closing without a wait, and connecting again\<close>

definition close_cursors :: "proto \<Rightarrow> nat \<Rightarrow> unit net_io" where
  "close_cursors p i =
     bind (modify (set_inst i (\<lambda>n. n\<lparr>in_closing := True\<rparr>))) (\<lambda>_.
     bind (gets (\<lambda>w. map snd (in_cache (inst_of i w)))) (\<lambda>cs.
     bind (seqs (map (cursor_fail p ''Connection is closed.'') cs)) (\<lambda>_.
       modify (set_inst i (\<lambda>n. n\<lparr>in_cache := []\<rparr>)))))"

definition finish_close :: "nat \<Rightarrow> unit net_io" where
  "finish_close i =
     bind (on_sock i ''close'' (\<lambda>s. (Inr (), sock_close s))) (\<lambda>_.
       modify (set_inst i (\<lambda>n. n\<lparr>in_header := None\<rparr>)))"

text \<open>\<open>ConnectionInstance.close()\<close> with \<open>noreply_wait\<close> false.\<close>

definition instance_drop :: "proto \<Rightarrow> nat \<Rightarrow> unit net_io" where
  "instance_drop p i = bind (close_cursors p i) (\<lambda>_. finish_close i)"

definition new_token :: "int net_io" where
  "new_token = bind (gets n_next_token) (\<lambda>t.
     bind (modify (\<lambda>w. w\<lparr>n_next_token := t + 1\<rparr>)) (\<lambda>_. ret t))"

text \<open>The part of \<open>Connection.close\<close> before the instance is closed: that instance and the token
  of the wait.\<close>

definition detach :: "(nat \<times> int) option net_io" where
  "detach =
     bind (gets n_instance) (\<lambda>i. case i of
       None \<Rightarrow> ret None
     | Some i \<Rightarrow>
         bind new_token (\<lambda>t.
         bind (modify (\<lambda>w. w\<lparr>n_instance := None, n_next_token := 0\<rparr>)) (\<lambda>_. ret (Some (i, t)))))"

definition connection_drop :: "proto \<Rightarrow> unit net_io" where
  "connection_drop p =
     bind detach (\<lambda>x. case x of None \<Rightarrow> ret () | Some (i, t) \<Rightarrow> instance_drop p i)"

definition new_inst :: inst where
  "new_inst = \<lparr>in_cache = [], in_header = None, in_sock = None, in_closing = False\<rparr>"

text \<open>\<open>ConnectionInstance.connect\<close>.\<close>

definition inst_connect :: "nat \<Rightarrow> unit net_io" where
  "inst_connect i = (\<lambda>w.
     case n_dials w of
       [] \<Rightarrow> (Inl Blocked, w)
     | (d, random) # ds \<Rightarrow>
         (case connect_socket (n_end w) random d of
            (r, h, left) \<Rightarrow>
              let w' = w\<lparr>n_dials := ds, n_end := (n_end w)\<lparr>ehandshake := h\<rparr>,
                         n_dropped := n_dropped w @ (case left of None \<Rightarrow> [] | Some s \<Rightarrow> [s])\<rparr>
              in case r of
                   Inl e \<Rightarrow> (Inl e, w')
                 | Inr s \<Rightarrow> (Inr (), set_inst i (\<lambda>n. n\<lparr>in_sock := Some s\<rparr>) w')))"

definition open_instance :: "unit net_io" where
  "open_instance =
     bind (gets (\<lambda>w. length (n_insts w))) (\<lambda>i.
     bind (modify (\<lambda>w. w\<lparr>n_insts := n_insts w @ [new_inst], n_instance := Some i\<rparr>)) (\<lambda>_.
       inst_connect i))"

definition reconnect_drop :: "proto \<Rightarrow> unit net_io" where
  "reconnect_drop p = bind (connection_drop p) (\<lambda>_. open_instance)"

subsection \<open>Reading responses\<close>

definition read_header :: "nat \<Rightarrow> byte list net_io" where
  "read_header i =
     bind (gets (\<lambda>w. in_header (inst_of i w))) (\<lambda>h. case h of
       Some bs \<Rightarrow> ret bs
     | None \<Rightarrow>
         bind (on_sock i ''recvall'' (recvall 12)) (\<lambda>bs.
         bind (modify (set_inst i (\<lambda>n. n\<lparr>in_header := Some bs\<rparr>))) (\<lambda>_. ret bs)))"

definition read_frame_of :: "nat \<Rightarrow> (int \<times> byte list) net_io" where
  "read_frame_of i =
     bind (read_header i) (\<lambda>header.
     bind (of_res (unpack_header header)) (\<lambda>(token, n).
     bind (on_sock i ''recvall'' (recvall n)) (\<lambda>buf.
     bind (modify (set_inst i (\<lambda>n. n\<lparr>in_header := None\<rparr>))) (\<lambda>_. ret (token, buf)))))"

text \<open>An interrupt drops the connection and makes a new one before it goes on.\<close>

definition guarded_read :: "proto \<Rightarrow> nat \<Rightarrow> (int \<times> byte list) net_io" where
  "guarded_read p i = (\<lambda>w.
     case read_frame_of i w of
       (Inl (Raised e), w') \<Rightarrow>
         if caught_by [PyKeyboardInterrupt] e
         then bind (reconnect_drop p) (\<lambda>_. fail e) w' else (Inl (Raised e), w')
     | r \<Rightarrow> r)"

definition unexpected_response :: error where
  "unexpected_response = driver_error ''Unexpected response received.''"

fun read_loop :: "proto \<Rightarrow> nat \<Rightarrow> nat \<Rightarrow> wire_query \<Rightarrow> response option net_io" where
  "read_loop p 0 i q = raise Blocked"
| "read_loop p (Suc fuel) i q =
     bind (guarded_read p i) (\<lambda>(token, buf).
     bind (gets (inst_of i)) (\<lambda>n.
       case map_of (in_cache n) token of
         Some c \<Rightarrow>
           bind (extend_cursor p c buf) (\<lambda>_. if token = wtoken q then ret None else read_loop p fuel i q)
       | None \<Rightarrow>
           if token = wtoken q then
             bind (of_res (parse_response (formats_of q) token buf)) (\<lambda>res. ret (Some res))
           else if \<not> in_closing n then
             bind (instance_drop p i) (\<lambda>_. fail unexpected_response)
           else read_loop p fuel i q))"

definition pending :: "nat \<Rightarrow> net \<Rightarrow> nat" where
  "pending i w = (case in_sock (inst_of i w) of None \<Rightarrow> 0 | Some s \<Rightarrow> total_bytes (incoming s))"

definition read_response_of :: "proto \<Rightarrow> nat \<Rightarrow> wire_query \<Rightarrow> response option net_io" where
  "read_response_of p i q = (\<lambda>w. read_loop p (pending i w + 2) i q w)"

subsection \<open>Running queries\<close>

datatype outcome = Nothing | Val rval | Cur nat | Profiled outcome rval

definition maybe_profile :: "outcome \<Rightarrow> response \<Rightarrow> outcome" where
  "maybe_profile v res = (if rprofile res \<noteq> RNull then Profiled v (rprofile res) else v)"

definition init_cursor :: "nat \<Rightarrow> wire_query \<Rightarrow> cursor" where
  "init_cursor i q =
     \<lparr>cu_conn = i, cu_query = q, cu_items = [], cu_outstanding = 0, cu_threshold = 1, cu_error = None\<rparr>"

text \<open>\<open>DefaultCursor(conn_instance, query, first_response)\<close>.\<close>

definition new_cursor :: "proto \<Rightarrow> nat \<Rightarrow> wire_query \<Rightarrow> response \<Rightarrow> nat net_io" where
  "new_cursor p i q res =
     bind (gets (\<lambda>w. length (n_cursors w))) (\<lambda>c.
     bind (modify (\<lambda>w. w\<lparr>n_cursors := n_cursors w @ [init_cursor i q]\<rparr>)) (\<lambda>_.
     bind (modify (set_inst i (\<lambda>n. n\<lparr>in_cache := dict_put (in_cache n) (wtoken q) c\<rparr>))) (\<lambda>_.
     bind (maybe_fetch_batch p c) (\<lambda>_.
     bind (extend_internal p c res) (\<lambda>_. ret c)))))"

definition response_outcome :: "proto \<Rightarrow> nat \<Rightarrow> wire_query \<Rightarrow> response \<Rightarrow> outcome net_io" where
  "response_outcome p i q res =
     (if is_int (rtype res) (presponse p ''SUCCESS_ATOM'') then
        bind (of_res (first_item (rdata res))) (\<lambda>v. ret (maybe_profile (Val v) res))
      else if is_int (rtype res) (presponse p ''SUCCESS_PARTIAL'')
           \<or> is_int (rtype res) (presponse p ''SUCCESS_SEQUENCE'') then
        bind (new_cursor p i q res) (\<lambda>c. ret (maybe_profile (Cur c) res))
      else if is_int (rtype res) (presponse p ''WAIT_COMPLETE'') then ret Nothing
      else if is_int (rtype res) (presponse p ''SERVER_INFO'') then
        bind (of_res (first_item (rdata res))) (\<lambda>v. ret (Val v))
      else bind (of_res (make_error p res (wterm q))) fail)"

definition run_query :: "proto \<Rightarrow> nat \<Rightarrow> wire_query \<Rightarrow> bool \<Rightarrow> outcome net_io" where
  "run_query p i q noreply =
     bind (send_query p i q) (\<lambda>_.
       if noreply then ret Nothing
       else bind (read_response_of p i q) (\<lambda>r. case r of
              None \<Rightarrow> fail (py_exc PyAttributeError (no_socket ''type''))
            | Some res \<Rightarrow> response_outcome p i q res))"

subsection \<open>The operations of a connection\<close>

text \<open>\<open>ConnectionInstance.close(noreply_wait, token)\<close>.\<close>

definition instance_close :: "proto \<Rightarrow> nat \<Rightarrow> bool \<Rightarrow> int \<Rightarrow> unit net_io" where
  "instance_close p i noreply_wait token =
     bind (close_cursors p i) (\<lambda>_.
       finally_do
         (if noreply_wait
          then bind (run_query p i (control_query p ''NOREPLY_WAIT'' token) False) (\<lambda>_. ret ())
          else ret ())
         (finish_close i))"

definition connection_close :: "proto \<Rightarrow> bool \<Rightarrow> unit net_io" where
  "connection_close p noreply_wait =
     bind detach (\<lambda>x. case x of None \<Rightarrow> ret () | Some (i, t) \<Rightarrow> instance_close p i noreply_wait t)"

definition reconnect :: "proto \<Rightarrow> bool \<Rightarrow> unit net_io" where
  "reconnect p noreply_wait = bind (connection_close p noreply_wait) (\<lambda>_. open_instance)"

definition control :: "proto \<Rightarrow> string \<Rightarrow> outcome net_io" where
  "control p ty =
     bind check_open (\<lambda>i. bind new_token (\<lambda>t. run_query p i (control_query p ty t) False))"

definition noreply_wait :: "proto \<Rightarrow> outcome net_io" where
  "noreply_wait p = control p ''NOREPLY_WAIT''"

definition server :: "proto \<Rightarrow> outcome net_io" where
  "server p = control p ''SERVER_INFO''"

definition use_db :: "pyval option \<Rightarrow> unit net_io" where
  "use_db db = modify (\<lambda>w. w\<lparr>n_db := db\<rparr>)"

definition c_DB :: cls where
  "c_DB = top_class ''DB'' ''DB'' ''db''"

definition make_db :: "pyval \<Rightarrow> query net_io" where
  "make_db v = (\<lambda>w.
     case construct c_DB [v] [] (n_var w) of
       (Inl e, n) \<Rightarrow> (Inl (Raised e), w\<lparr>n_var := n\<rparr>)
     | (Inr q, n) \<Rightarrow> (Inr q, w\<lparr>n_var := n\<rparr>))"

text \<open>The global optional arguments of a query, with the database the connection uses.\<close>

definition with_db :: "(string \<times> pyval) list \<Rightarrow> (string \<times> pyval) list net_io" where
  "with_db opts =
     bind (gets n_db) (\<lambda>db.
       case (map_of opts ''db'', db) of
         (Some v, _) \<Rightarrow> bind (make_db v) (\<lambda>q. ret (dict_put opts ''db'' (PQuery q)))
       | (None, Some v) \<Rightarrow> bind (make_db v) (\<lambda>q. ret (dict_put opts ''db'' (PQuery q)))
       | (None, None) \<Rightarrow> ret opts)"

definition wants_noreply :: "wire_query \<Rightarrow> bool" where
  "wants_noreply q =
     (case wopts q of None \<Rightarrow> False
      | Some kvs \<Rightarrow> (case map_of kvs ''noreply'' of None \<Rightarrow> False | Some v \<Rightarrow> truthy v))"

text \<open>\<open>_start\<close>.\<close>

definition start_query :: "proto \<Rightarrow> query \<Rightarrow> (string \<times> pyval) list \<Rightarrow> outcome net_io" where
  "start_query p q opts =
     bind check_open (\<lambda>i.
     bind (with_db opts) (\<lambda>opts'.
     bind new_token (\<lambda>t.
       let wq = make_query (pquery p ''START'') t (Some q) (Some opts')
       in run_query p i wq (wants_noreply wq))))"

text \<open>\<open>Repl\<close> and \<open>RqlQuery.run\<close>; \<open>n_repl\<close> is whether this thread's default connection is this
  one.\<close>

definition repl :: "unit net_io" where
  "repl = modify (\<lambda>w. w\<lparr>n_repl := True, n_repl_active := True\<rparr>)"

definition repl_clear :: "unit net_io" where
  "repl_clear = modify (\<lambda>w. w\<lparr>n_repl := False, n_repl_active := False\<rparr>)"

definition run_term :: "proto \<Rightarrow> query \<Rightarrow> bool \<Rightarrow> (string \<times> pyval) list \<Rightarrow> outcome net_io" where
  "run_term p q given opts =
     bind (gets n_repl) (\<lambda>r. bind (gets n_repl_active) (\<lambda>active.
       if given \<or> r then start_query p q opts
       else if active then fail (driver_error
         (''RqlQuery.run must be given a connection to run on. A default connection has been set with ''
          @ ''`repl()` on another thread, but not this one.''))
       else fail (driver_error ''RqlQuery.run must be given a connection to run on.'')))"

subsection \<open>The operations of a cursor\<close>

definition invalid_wait :: "atom \<Rightarrow> error" where
  "invalid_wait a = driver_error (''Invalid wait timeout '' @ [CHR 0x27] @ str_atom a @ [CHR 0x27])"

text \<open>\<open>_wait_to_timeout\<close>: no timeout, or the seconds as Python shows them.\<close>

fun wait_to_timeout :: "atom \<Rightarrow> error + atom option" where
  "wait_to_timeout (ABool b) = Inr (if b then None else Some (AInt 0))"
| "wait_to_timeout (AInt i) = (if 0 \<le> i then Inr (Some (AInt i)) else Inl (invalid_wait (AInt i)))"
| "wait_to_timeout (AFloat f) =
     (if f = ''nan'' \<or> take 1 f = ''-'' \<and> f \<noteq> ''-0.0'' then Inl (invalid_wait (AFloat f))
      else Inr (Some (AFloat f)))"
| "wait_to_timeout a = Inl (invalid_wait a)"

text \<open>\<open>_get_next\<close>.\<close>

fun next_loop :: "proto \<Rightarrow> nat \<Rightarrow> nat \<Rightarrow> rval net_io" where
  "next_loop p fuel c =
     bind (gets (cursor_of c)) (\<lambda>cu.
       case cu_items cu of
         x # xs \<Rightarrow> bind (modify (set_cursor c (\<lambda>cu. cu\<lparr>cu_items := xs\<rparr>))) (\<lambda>_. ret x)
       | [] \<Rightarrow>
           (case fuel of
              0 \<Rightarrow> raise Blocked
            | Suc n \<Rightarrow>
                bind (maybe_fetch_batch p c) (\<lambda>_.
                bind (gets (cursor_of c)) (\<lambda>cu.
                  case cu_error cu of
                    Some e \<Rightarrow> fail e
                  | None \<Rightarrow>
                      bind (read_response_of p (cu_conn cu) (cu_query cu)) (\<lambda>_. next_loop p n c)))))"

definition cursor_next :: "proto \<Rightarrow> nat \<Rightarrow> atom \<Rightarrow> rval net_io" where
  "cursor_next p c wait =
     bind (of_res (wait_to_timeout wait)) (\<lambda>_ w.
       next_loop p (pending (cu_conn (cursor_of c w)) w + 2) c w)"

definition cursor_close :: "proto \<Rightarrow> nat \<Rightarrow> unit net_io" where
  "cursor_close p c =
     bind (gets (cursor_of c)) (\<lambda>cu.
       if cu_error cu = None then
         bind (modify (set_cursor c (\<lambda>cu. cu\<lparr>cu_error := Some empty_error\<rparr>))) (\<lambda>_.
         bind (inst_is_open (cu_conn cu)) (\<lambda>b.
           if b then
             bind (modify (set_cursor c (\<lambda>cu. cu\<lparr>cu_outstanding := cu_outstanding cu + 1\<rparr>))) (\<lambda>_.
               send_control p ''STOP'' c)
           else ret ()))
       else ret ())"

subsection \<open>Making a connection\<close>

text \<open>\<open>Connection.__init__\<close>: the port as an integer, and one password from two arguments.\<close>

fun int_port :: "atom \<Rightarrow> error + int" where
  "int_port (AInt i) = Inr i"
| "int_port (ABool b) = Inr (if b then 1 else 0)"
| "int_port (AStr s) =
     (case py_int s of
        Inr i \<Rightarrow> Inr i
      | Inl _ \<Rightarrow> Inl (driver_error (''Could not convert port '' @ repr_str s @ '' to an integer.'')))"
| "int_port (AFloat f) =
     (if f = ''nan'' then Inl (driver_error ''Could not convert port nan to an integer.'')
      else if f = ''inf'' \<or> f = ''-inf'' then
        Inl (py_exc PyOverflowError ''cannot convert float infinity to integer'')
      else case float_parts f of (m, e) \<Rightarrow>
        Inr (if 0 \<le> e then m * 10 ^ nat e else sgn m * (abs m div 10 ^ nat (- e))))"
| "int_port a = Inl (type_error ''int() argument must be a string, a bytes-like object or a real number'')"

definition one_password :: "string option \<Rightarrow> string option \<Rightarrow> error + string" where
  "one_password auth_key password =
     (case (auth_key, password) of
        (None, None) \<Rightarrow> Inr []
      | (None, Some pw) \<Rightarrow> Inr pw
      | (Some k, None) \<Rightarrow> Inr k
      | (Some k, Some pw) \<Rightarrow> Inl (driver_error ''`auth_key` and `password` are both set.''))"

text \<open>What is outside of a new connection: the library's digest functions, the cache of derived
  keys, \<open>Func.nextVarId\<close>, the attempts to connect, and \<open>Repl\<close>.\<close>

record outside =
  o_version :: int
  o_own_digest :: bool
  o_own_pbkdf2 :: bool
  o_cache :: "(byte list \<times> byte list \<times> int, byte list) dict"
  o_var :: int
  o_dials :: "(dial \<times> byte list) list"
  o_repl_active :: bool

definition connection_init ::
    "outside \<Rightarrow> string \<Rightarrow> atom \<Rightarrow> pyval option \<Rightarrow> string option \<Rightarrow> string \<Rightarrow> string option \<Rightarrow> bool \<Rightarrow> int
      \<Rightarrow> error + net" where
  "connection_init out host port db auth_key user password ssl handshake_version =
     rbind (int_port port) (\<lambda>port.
     rbind (one_password auth_key password) (\<lambda>pw.
       if handshake_version = 4 then Inl (py_exc PyNotImplementedError ''The v0.4 handshake was removed.'')
       else Inr
         \<lparr>n_db = db,
          n_end = \<lparr>ehost = host, eport = port, essl = ssl,
            ehandshake = hs_init host port user pw (o_version out) (o_own_digest out) (o_own_pbkdf2 out) (o_cache out)\<rparr>,
          n_instance = None, n_next_token = 0, n_insts = [], n_cursors = [], n_var = o_var out,
          n_dials = o_dials out, n_dropped = [], n_repl = False, n_repl_active = o_repl_active out\<rparr>))"

text \<open>\<open>make_connection\<close> without \<open>url\<close>: None and the other false values stand for the defaults, an
  empty password for none.\<close>

definition default_port :: int where
  "default_port = 28015"

definition or_default :: "string \<Rightarrow> string option \<Rightarrow> string" where
  "or_default d s = (case s of None \<Rightarrow> d | Some t \<Rightarrow> if t = [] then d else t)"

definition port_or_default :: "atom \<Rightarrow> atom" where
  "port_or_default a = (if truthy (PAtom a) then a else AInt default_port)"

definition make_connection ::
    "proto \<Rightarrow> outside \<Rightarrow> string option \<Rightarrow> atom \<Rightarrow> pyval option \<Rightarrow> string option \<Rightarrow> string option
      \<Rightarrow> string option \<Rightarrow> bool \<Rightarrow> int \<Rightarrow> (io_stop + net) \<times> net option" where
  "make_connection p out host port db auth_key user password ssl handshake_version =
     (let password' = (if password = Some [] then None else password);
          version = (if handshake_version = 0 then 10 else handshake_version)
      in case connection_init out (or_default ''localhost'' host) (port_or_default port) db auth_key
             (or_default ''admin'' user) password' ssl version of
           Inl e \<Rightarrow> (Inl (Raised e), None)
         | Inr w \<Rightarrow>
             (case reconnect p True w of
                (Inl e, w') \<Rightarrow> (Inl e, Some w')
              | (Inr _, w') \<Rightarrow> (Inr w', Some w')))"

end
