(* ===== verification/Triples.thy ===== *)
theory Triples
  imports Prelude
begin

text \<open>
  Pre- and postconditions of state-and-error computations: \<open>triple P m Q E\<close> says that from a
  state in \<open>P\<close>, \<open>m\<close> returns a value and a state in \<open>Q\<close> or raises an exception in a state in \<open>E\<close>.
  \<open>keeps I m\<close> is the case of an invariant, kept also when \<open>m\<close> raises.
\<close>

definition triple ::
    "('s \<Rightarrow> bool) \<Rightarrow> ('s, 'e, 'a) comp \<Rightarrow> ('a \<Rightarrow> 's \<Rightarrow> bool) \<Rightarrow> ('e \<Rightarrow> 's \<Rightarrow> bool) \<Rightarrow> bool" where
  "triple P m Q E \<longleftrightarrow> (\<forall>s. P s \<longrightarrow> (case m s of (Inr a, t) \<Rightarrow> Q a t | (Inl e, t) \<Rightarrow> E e t))"

definition keeps :: "('s \<Rightarrow> bool) \<Rightarrow> ('s, 'e, 'a) comp \<Rightarrow> bool" where
  "keeps I m \<longleftrightarrow> triple I m (\<lambda>_. I) (\<lambda>_. I)"

named_theorems keeps_intros \<open>rules for invariants of computations\<close>

lemma tripleI:
  "(\<And>s a t. P s \<Longrightarrow> m s = (Inr a, t) \<Longrightarrow> Q a t) \<Longrightarrow> (\<And>s e t. P s \<Longrightarrow> m s = (Inl e, t) \<Longrightarrow> E e t)
     \<Longrightarrow> triple P m Q E"
  by (auto simp: triple_def split: prod.splits sum.splits)

lemma triple_Inr: "triple P m Q E \<Longrightarrow> P s \<Longrightarrow> m s = (Inr a, t) \<Longrightarrow> Q a t"
  by (force simp: triple_def)

lemma triple_Inl: "triple P m Q E \<Longrightarrow> P s \<Longrightarrow> m s = (Inl e, t) \<Longrightarrow> E e t"
  by (force simp: triple_def)

lemma triple_bind:
  assumes "triple P m R E" "\<And>a. triple (R a) (f a) Q E"
  shows "triple P (bind m f) Q E"
proof (rule tripleI)
  fix s b t assume "P s" "bind m f s = (Inr b, t)"
  then show "Q b t" using assms by (auto simp: bind_Inr dest: triple_Inr)
next
  fix s e t assume "P s" "bind m f s = (Inl e, t)"
  then show "E e t" using assms by (auto simp: bind_Inl dest: triple_Inr triple_Inl)
qed

lemma triple_ret: "(\<And>s. P s \<Longrightarrow> Q a s) \<Longrightarrow> triple P (ret a) Q E"
  by (auto intro!: tripleI simp: comp_simps)

lemma triple_raise: "(\<And>s. P s \<Longrightarrow> E e s) \<Longrightarrow> triple P (raise e) Q E"
  by (auto intro!: tripleI simp: comp_simps)

lemma triple_if: "(b \<Longrightarrow> triple P m Q E) \<Longrightarrow> (\<not> b \<Longrightarrow> triple P n Q E) \<Longrightarrow> triple P (if b then m else n) Q E"
  by simp

lemma triple_option:
  "triple P m Q E \<Longrightarrow> (\<And>a. triple P (f a) Q E) \<Longrightarrow> triple P (case x of None \<Rightarrow> m | Some a \<Rightarrow> f a) Q E"
  by (cases x) auto

lemma triple_at: "(\<And>w. P w \<Longrightarrow> triple ((=) w) (m w) Q E) \<Longrightarrow> triple P (\<lambda>w. m w w) Q E"
  by (fastforce simp: triple_def split: prod.splits sum.splits)

lemma triple_fixed: "triple P m Q E \<Longrightarrow> P w \<Longrightarrow> triple ((=) w) m Q E"
  by (auto simp: triple_def)

lemma triple_pre: "triple P m Q E \<Longrightarrow> (\<And>s. P' s \<Longrightarrow> P s) \<Longrightarrow> triple P' m Q E"
  by (auto simp: triple_def)

lemma triple_post:
  "triple P m Q E \<Longrightarrow> (\<And>a s. Q a s \<Longrightarrow> Q' a s) \<Longrightarrow> (\<And>e s. E e s \<Longrightarrow> E' e s) \<Longrightarrow> triple P m Q' E'"
  by (fastforce simp: triple_def split: prod.splits sum.splits)

lemma triple_conj:
  "triple P m Q E \<Longrightarrow> triple P' m Q' E'
     \<Longrightarrow> triple (\<lambda>s. P s \<and> P' s) m (\<lambda>a s. Q a s \<and> Q' a s) (\<lambda>e s. E e s \<and> E' e s)"
  by (fastforce simp: triple_def split: prod.splits sum.splits)

lemma keeps_triple: "keeps I m \<Longrightarrow> triple I m (\<lambda>_. I) (\<lambda>_. I)"
  by (simp add: keeps_def)

lemma keepsD: "keeps I m \<Longrightarrow> I s \<Longrightarrow> m s = (r, t) \<Longrightarrow> I t"
  unfolding keeps_def by (cases r) (auto dest: triple_Inr triple_Inl)

lemma keepsI: "(\<And>s r t. I s \<Longrightarrow> m s = (r, t) \<Longrightarrow> I t) \<Longrightarrow> keeps I m"
  unfolding keeps_def by (rule tripleI) auto

lemma keeps_bind [keeps_intros]: "keeps I m \<Longrightarrow> (\<And>a. keeps I (f a)) \<Longrightarrow> keeps I (bind m f)"
  unfolding keeps_def by (rule triple_bind)

lemma keeps_ret [keeps_intros]: "keeps I (ret a)"
  unfolding keeps_def by (rule triple_ret)

lemma keeps_raise [keeps_intros]: "keeps I (raise e)"
  unfolding keeps_def by (rule triple_raise)

lemma keeps_if [keeps_intros]: "(b \<Longrightarrow> keeps I m) \<Longrightarrow> (\<not> b \<Longrightarrow> keeps I n) \<Longrightarrow> keeps I (if b then m else n)"
  by simp

lemma keeps_seqs [keeps_intros]: "(\<And>m. m \<in> set ms \<Longrightarrow> keeps I m) \<Longrightarrow> keeps I (seqs ms)"
  by (induction ms) (auto intro!: keeps_intros)

lemma keeps_option [keeps_intros]:
  "keeps I m \<Longrightarrow> (\<And>a. keeps I (f a)) \<Longrightarrow> keeps I (case x of None \<Rightarrow> m | Some a \<Rightarrow> f a)"
  by (cases x) auto

lemma keeps_pair [keeps_intros]: "(\<And>a b. keeps I (f a b)) \<Longrightarrow> keeps I (case x of (a, b) \<Rightarrow> f a b)"
  by (cases x) auto

lemma keeps_list [keeps_intros]:
  "keeps I m \<Longrightarrow> (\<And>a as. keeps I (f a as)) \<Longrightarrow> keeps I (case x of [] \<Rightarrow> m | a # as \<Rightarrow> f a as)"
  by (cases x) auto

text \<open>
  A relation between the states before and after: when it is reflexive and transitive, steps that
  stay within it compose.
\<close>

locale frame_relation =
  fixes R :: "'s \<Rightarrow> 's \<Rightarrow> bool"
  assumes R_refl: "R s s" and R_trans: "R s t \<Longrightarrow> R t u \<Longrightarrow> R s u"
begin

lemma refl_trans: "reflp R" "transp R"
  using R_refl R_trans by (auto intro: reflpI transpI)

lemma within_basic: "steps_within R (ret a)" "steps_within R (raise e)" "steps_within R (lift_res r)"
  using refl_trans by simp_all

lemma within_bind: "steps_within R m \<Longrightarrow> (\<And>a. steps_within R (f a)) \<Longrightarrow> steps_within R (bind m f)"
  using refl_trans by (intro steps_within_bind)

lemma within_seqs: "(\<And>m. m \<in> set ms \<Longrightarrow> steps_within R m) \<Longrightarrow> steps_within R (seqs ms)"
  using refl_trans by (intro steps_within_seqs) auto

lemma within_cases:
  "(b \<Longrightarrow> steps_within R m) \<Longrightarrow> (\<not> b \<Longrightarrow> steps_within R n) \<Longrightarrow> steps_within R (if b then m else n)"
  "steps_within R m \<Longrightarrow> (\<And>a. steps_within R (f a)) \<Longrightarrow> steps_within R (case x of None \<Rightarrow> m | Some a \<Rightarrow> f a)"
  "steps_within R m \<Longrightarrow> (\<And>a as. steps_within R (h a as)) \<Longrightarrow> steps_within R (case z of [] \<Rightarrow> m | a # as \<Rightarrow> h a as)"
  by (auto split: option.splits list.splits)

lemmas within_intros = within_basic within_bind within_seqs within_cases

end

end
