(* ===== verification/Tokens.thy ===== *)
theory Tokens
  imports Connection Triples
begin

text \<open>
  The invariant of the stores and what it gives: the cursors in the cache of an instance are
  cursors of that instance under their own tokens, and the tokens in the cache of the current
  instance are older than the next one.  Every operation keeps it, also when it raises, so the
  token of a new query is never the one of a live cursor.
\<close>

subsection \<open>The invariant\<close>

definition cache_wf :: "nat \<Rightarrow> net \<Rightarrow> bool" where
  "cache_wf i w \<longleftrightarrow> distinct (map fst (in_cache (inst_of i w))) \<and>
     (\<forall>t c. map_of (in_cache (inst_of i w)) t = Some c \<longrightarrow>
        c < length (n_cursors w) \<and> cu_conn (cursor_of c w) = i \<and> wtoken (cu_query (cursor_of c w)) = t)"

definition tokens_below :: "nat \<Rightarrow> int \<Rightarrow> net \<Rightarrow> bool" where
  "tokens_below i n w \<longleftrightarrow> (\<forall>t c. map_of (in_cache (inst_of i w)) t = Some c \<longrightarrow> 0 \<le> t \<and> t < n)"

definition wf_net :: "net \<Rightarrow> bool" where
  "wf_net w \<longleftrightarrow> (\<forall>i < length (n_insts w). cache_wf i w) \<and> 0 \<le> n_next_token w
     \<and> (\<forall>i. n_instance w = Some i \<longrightarrow> i < length (n_insts w) \<and> tokens_below i (n_next_token w) w)"

subsection \<open>Steps of the stores\<close>

lemma inst_of_set_inst:
  "inst_of j (set_inst i f w) = (if j = i \<and> i < length (n_insts w) then f (inst_of i w) else inst_of j w)"
  by (cases "i < length (n_insts w)") (auto simp: inst_of_def set_inst_def nth_list_update list_update_beyond)

lemma cursor_of_set_cursor:
  "cursor_of d (set_cursor c f w) = (if d = c \<and> c < length (n_cursors w) then f (cursor_of c w) else cursor_of d w)"
  by (cases "c < length (n_cursors w)") (auto simp: cursor_of_def set_cursor_def nth_list_update list_update_beyond)

lemma set_inst_frame [simp]:
  "length (n_insts (set_inst i f w)) = length (n_insts w)" "n_cursors (set_inst i f w) = n_cursors w"
  "n_instance (set_inst i f w) = n_instance w" "n_next_token (set_inst i f w) = n_next_token w"
  "cursor_of c (set_inst i f w) = cursor_of c w" "n_end (set_inst i f w) = n_end w"
  "n_dials (set_inst i f w) = n_dials w" "n_var (set_inst i f w) = n_var w" "n_db (set_inst i f w) = n_db w"
  by (simp_all add: set_inst_def cursor_of_def)

lemma set_cursor_frame [simp]:
  "length (n_cursors (set_cursor c f w)) = length (n_cursors w)" "n_insts (set_cursor c f w) = n_insts w"
  "n_instance (set_cursor c f w) = n_instance w" "n_next_token (set_cursor c f w) = n_next_token w"
  "inst_of i (set_cursor c f w) = inst_of i w" "n_end (set_cursor c f w) = n_end w"
  "n_dials (set_cursor c f w) = n_dials w" "n_var (set_cursor c f w) = n_var w" "n_db (set_cursor c f w) = n_db w"
  by (simp_all add: set_cursor_def inst_of_def)

text \<open>A change that leaves the owner and the query of every cursor alone and only takes entries out
  of caches keeps the invariant.\<close>

definition tame :: "net \<Rightarrow> net \<Rightarrow> bool" where
  "tame w w' \<longleftrightarrow> length (n_insts w') = length (n_insts w) \<and> length (n_cursors w') = length (n_cursors w)
     \<and> (\<forall>c. cu_conn (cursor_of c w') = cu_conn (cursor_of c w) \<and> cu_query (cursor_of c w') = cu_query (cursor_of c w))
     \<and> (\<forall>i t c. map_of (in_cache (inst_of i w')) t = Some c \<longrightarrow> map_of (in_cache (inst_of i w)) t = Some c)
     \<and> (\<forall>i. distinct (map fst (in_cache (inst_of i w))) \<longrightarrow> distinct (map fst (in_cache (inst_of i w'))))
     \<and> n_instance w' = n_instance w \<and> n_next_token w' = n_next_token w"

lemma tame_in_cache:
  "tame w w' \<Longrightarrow> map_of (in_cache (inst_of i w')) t = Some c \<Longrightarrow> map_of (in_cache (inst_of i w)) t = Some c"
  by (simp add: tame_def)

lemma tame_cache_wf: "tame w w' \<Longrightarrow> cache_wf i w \<Longrightarrow> cache_wf i w'"
  unfolding cache_wf_def
proof (elim conjE, rule conjI; (intro allI impI)?)
  assume "tame w w'" "distinct (map fst (in_cache (inst_of i w)))"
  then show "distinct (map fst (in_cache (inst_of i w')))" by (simp add: tame_def)
next
  fix t c
  assume t: "tame w w'" and c: "map_of (in_cache (inst_of i w')) t = Some c"
    and wf: "\<forall>t c. map_of (in_cache (inst_of i w)) t = Some c \<longrightarrow>
      c < length (n_cursors w) \<and> cu_conn (cursor_of c w) = i \<and> wtoken (cu_query (cursor_of c w)) = t"
  from wf [rule_format, OF tame_in_cache [OF t c]] t
  show "c < length (n_cursors w') \<and> cu_conn (cursor_of c w') = i \<and> wtoken (cu_query (cursor_of c w')) = t"
    by (simp add: tame_def)
qed

lemma tame_tokens_below: "tame w w' \<Longrightarrow> tokens_below i n w \<Longrightarrow> tokens_below i n w'"
  unfolding tokens_below_def by (meson tame_in_cache)

lemma tame_wf: "tame w w' \<Longrightarrow> wf_net w \<Longrightarrow> wf_net w'"
  using tame_cache_wf [of w w'] tame_tokens_below [of w w'] by (simp add: wf_net_def tame_def)

lemma tame_refl [simp]: "tame w w"
  by (simp add: tame_def)

lemma tame_trans: "tame w w' \<Longrightarrow> tame w' w'' \<Longrightarrow> tame w w''"
  by (simp add: tame_def)

lemma tame_set_inst:
  "(\<And>t c. map_of (in_cache (f (inst_of i w))) t = Some c \<Longrightarrow> map_of (in_cache (inst_of i w)) t = Some c)
     \<Longrightarrow> (distinct (map fst (in_cache (inst_of i w))) \<Longrightarrow> distinct (map fst (in_cache (f (inst_of i w)))))
     \<Longrightarrow> tame w (set_inst i f w)"
  by (auto simp: tame_def inst_of_set_inst)

lemma tame_set_cursor:
  "cu_conn (f (cursor_of c w)) = cu_conn (cursor_of c w) \<Longrightarrow> cu_query (f (cursor_of c w)) = cu_query (cursor_of c w)
     \<Longrightarrow> tame w (set_cursor c f w)"
  by (auto simp: tame_def cursor_of_set_cursor)

text \<open>Computations all of whose steps are tame.\<close>

definition tamely :: "'a net_io \<Rightarrow> bool" where
  "tamely m \<longleftrightarrow> (\<forall>w. keeps (tame w) m)"

lemma tamelyI: "(\<And>w r w'. m w = (r, w') \<Longrightarrow> tame w w') \<Longrightarrow> tamely m"
  unfolding tamely_def by (intro allI keepsI) (rule tame_trans)

lemma tamelyD: "tamely m \<Longrightarrow> m w = (r, w') \<Longrightarrow> tame w w'"
  unfolding tamely_def by (rule keepsD [of "tame w" m w]) simp_all

named_theorems tame_intros \<open>rules for tame computations\<close>

lemma tamely_bind [tame_intros]: "tamely m \<Longrightarrow> (\<And>a. tamely (f a)) \<Longrightarrow> tamely (bind m f)"
  by (auto simp: tamely_def intro: keeps_intros)

lemma tamely_basic [tame_intros]: "tamely (ret a)" "tamely (raise e')" "tamely (fail e)" "tamely (of_res x)" "tamely (gets g)"
  by (rule tamelyI; auto simp: comp_simps fail_def of_res_def gets_def split: sum.splits)+

lemma tamely_cases [tame_intros]:
  "(b \<Longrightarrow> tamely m) \<Longrightarrow> (\<not> b \<Longrightarrow> tamely n) \<Longrightarrow> tamely (if b then m else n)"
  "tamely m \<Longrightarrow> (\<And>a. tamely (f a)) \<Longrightarrow> tamely (case x of None \<Rightarrow> m | Some a \<Rightarrow> f a)"
  "(\<And>a c. tamely (g a c)) \<Longrightarrow> tamely (case y of (a, c) \<Rightarrow> g a c)"
  "tamely m \<Longrightarrow> (\<And>a as. tamely (h a as)) \<Longrightarrow> tamely (case z of [] \<Rightarrow> m | a # as \<Rightarrow> h a as)"
  by (auto split: option.splits prod.splits list.splits)

lemma tamely_seqs [tame_intros]: "(\<And>m. m \<in> set ms \<Longrightarrow> tamely m) \<Longrightarrow> tamely (seqs ms)"
  by (auto simp: tamely_def intro: keeps_intros)

lemma tamely_modify: "(\<And>w. tame w (f w)) \<Longrightarrow> tamely (modify f)"
  by (rule tamelyI) (auto simp: modify_def)

lemma tamely_cursor [tame_intros]:
  "(\<And>cu. cu_conn (f cu) = cu_conn cu) \<Longrightarrow> (\<And>cu. cu_query (f cu) = cu_query cu) \<Longrightarrow> tamely (modify (set_cursor c f))"
  by (rule tamely_modify) (simp add: tame_set_cursor)

lemma tamely_inst [tame_intros]:
  "(\<And>n t d. map_of (in_cache (f n)) t = Some d \<Longrightarrow> map_of (in_cache n) t = Some d)
     \<Longrightarrow> (\<And>n. distinct (map fst (in_cache n)) \<Longrightarrow> distinct (map fst (in_cache (f n)))) \<Longrightarrow> tamely (modify (set_inst i f))"
  by (rule tamely_modify) (simp add: tame_set_inst)

lemma tamely_on_sock [tame_intros]: "tamely (on_sock i attr m)"
  by (rule tamelyI) (auto simp: on_sock_def intro!: tame_set_inst split: option.splits prod.splits)

lemma tame_var: "tame w (w\<lparr>n_var := v\<rparr>)"
  by (simp add: tame_def inst_of_def cursor_of_def)

lemma tamely_serialize [tame_intros]: "tamely (serialize_query p q)"
  by (rule tamelyI) (auto simp: serialize_query_def tame_var split: prod.splits sum.splits)

lemmas send_defs = inst_is_open_def conn_is_open_def check_open_def send_query_def send_control_def

lemma tamely_send [tame_intros]:
  "tamely (inst_is_open i)" "tamely conn_is_open" "tamely check_open" "tamely (send_query p i q)"
  "tamely (send_control p ty c)"
  unfolding send_defs by (intro tame_intros)+

lemma tamely_fetch [tame_intros]: "tamely (maybe_fetch_batch p c)"
  unfolding maybe_fetch_batch_def by (intro tame_intros) auto

lemma absorb_frame: "absorb e p res xs cu = Inr cu' \<Longrightarrow> cu_conn cu' = cu_conn cu \<and> cu_query cu' = cu_query cu
    \<and> cu_outstanding cu' = cu_outstanding cu \<and> cu_threshold cu' = cu_threshold cu"
  by (auto simp: absorb_def res_simps split: if_splits)

lemma tamely_forget [tame_intros]: "tamely (forget_token i t)"
  unfolding forget_token_def by (intro tame_intros) (auto simp: dict_simps dict_del_distinct split: if_splits)

text \<open>The one step that puts a computed cursor back.\<close>

lemma tamely_absorb:
  "tamely (bind (gets (cursor_of c)) (\<lambda>cu. bind (of_res (absorb e p res xs cu)) (\<lambda>cu'.
     bind (modify (set_cursor c (\<lambda>_. cu'))) (\<lambda>_. f cu'))))" if f: "\<And>cu'. tamely (f cu')"
proof (rule tamelyI)
  fix w r w'
  assume run: "bind (gets (cursor_of c)) (\<lambda>cu. bind (of_res (absorb e p res xs cu)) (\<lambda>cu'.
     bind (modify (set_cursor c (\<lambda>_. cu'))) (\<lambda>_. f cu'))) w = (r, w')"
  show "tame w w'"
  proof (cases "absorb e p res xs (cursor_of c w)")
    case (Inl e)
    then show ?thesis using run by (simp add: bind_def gets_def of_res_def fail_def raise_def)
  next
    case (Inr cu')
    have "tame w (set_cursor c (\<lambda>_. cu') w)" using absorb_frame [OF Inr] by (simp add: tame_set_cursor)
    moreover have "f cu' (set_cursor c (\<lambda>_. cu') w) = (r, w')"
      using run Inr by (simp add: bind_def gets_def of_res_def ret_def modify_def)
    ultimately show ?thesis using tamelyD [OF f] tame_trans by blast
  qed
qed

lemma tamely_extend_internal [tame_intros]: "tamely (extend_internal p c res)"
  unfolding extend_internal_def
  by (rule tamely_bind, rule tame_intros, rule tamely_bind, rule tame_intros, simp, simp, rule tamely_absorb, intro tame_intros)

lemma tamely_extend_cursor [tame_intros]: "tamely (extend_cursor p c buf)"
  unfolding extend_cursor_def by (intro tame_intros) auto

lemma tamely_cursor_fail [tame_intros]: "tamely (cursor_fail p msg c)"
  unfolding cursor_fail_def by (intro tame_intros) auto

lemma tamely_close_cursors [tame_intros]: "tamely (close_cursors p i)"
  unfolding close_cursors_def by (intro tame_intros) (auto intro: tame_intros)

lemma tamely_finish_close [tame_intros]: "tamely (finish_close i)"
  unfolding finish_close_def by (intro tame_intros) auto

lemma tamely_instance_drop [tame_intros]: "tamely (instance_drop p i)"
  unfolding instance_drop_def by (intro tame_intros)

lemma tamely_read_frame [tame_intros]: "tamely (read_frame_of i)"
  unfolding read_frame_of_def read_header_def by (intro tame_intros) auto


lemma bind_gets: "bind (gets g) f w = f (g w) w"
  by (simp add: bind_def gets_def)

lemma bind_modify: "bind (modify g) f w = f () (g w)"
  by (simp add: bind_def modify_def)

subsection \<open>Operations that change the stores\<close>

abbreviation keeps_wf :: "'a net_io \<Rightarrow> bool" where
  "keeps_wf m \<equiv> keeps wf_net m"

lemma tamely_wf: "tamely m \<Longrightarrow> keeps_wf m"
  by (rule keepsI) (blast dest: tamelyD intro: tame_wf)

lemma wf_modifyI: "(\<And>w. wf_net w \<Longrightarrow> wf_net (f w)) \<Longrightarrow> keeps_wf (modify f)"
  by (rule keepsI) (auto simp: modify_def)

lemma keeps_basic [keeps_intros]: "keeps I (gets g)" "keeps I (fail e)" "keeps I (of_res x)"
  by (rule keepsI; auto simp: gets_def fail_def raise_def of_res_def ret_def split: sum.splits)+

lemma triple_finally:
  assumes m: "triple P m (\<lambda>_. R) (\<lambda>_. R)" and f: "keeps R f"
  shows "triple P (finally_do m f) (\<lambda>_. R) (\<lambda>_. R)"
proof -
  have "R t" if s: "P s" and run: "finally_do m f s = (r, t)" for s r t
  proof -
    obtain r1 s1 where 1: "m s = (r1, s1)" by (cases "m s")
    obtain r2 s2 where 2: "f s1 = (r2, s2)" by (cases "f s1")
    have s1: "R s1" using 1 s m by (cases r1) (auto dest: triple_Inr triple_Inl)
    moreover have "R s2" using keepsD [OF f s1 2] .
    moreover have "t = s1 \<or> t = s2"
      using run 1 2 by (cases r1; cases r2) (auto simp: finally_do_def split: io_stop.splits)
    ultimately show "R t" by auto
  qed
  then show ?thesis by (intro tripleI)
qed

lemma inst_of_append: "i < length (n_insts w) \<Longrightarrow> inst_of i (w\<lparr>n_insts := n_insts w @ xs, n_instance := k\<rparr>) = inst_of i w"
  by (simp add: inst_of_def nth_append)

lemma cursor_of_append: "c < length (n_cursors w) \<Longrightarrow> cursor_of c (w\<lparr>n_cursors := n_cursors w @ xs\<rparr>) = cursor_of c w"
  by (simp add: cursor_of_def nth_append)

lemma keeps_new_token [keeps_intros]: "keeps_wf new_token"
proof (rule keepsI)
  fix w r w' assume wf: "wf_net w" and run: "new_token w = (r, w')"
  let ?w = "w\<lparr>n_next_token := n_next_token w + 1\<rparr>"
  have "tokens_below i (n_next_token w) w \<Longrightarrow> tokens_below i (n_next_token w + 1) ?w" for i
    by (force simp: tokens_below_def inst_of_def)
  moreover have "cache_wf i ?w = cache_wf i w" for i by (simp add: cache_wf_def inst_of_def cursor_of_def)
  ultimately have "wf_net ?w" using wf by (simp add: wf_net_def)
  then show "wf_net w'" using run by (auto simp: new_token_def bind_def gets_def modify_def ret_def)
qed

lemma keeps_detach [keeps_intros]: "keeps_wf detach"
  unfolding detach_def
proof (intro keeps_intros wf_modifyI)
  fix w assume "wf_net w"
  then show "wf_net (w\<lparr>n_instance := None, n_next_token := 0\<rparr>)"
    by (auto simp: wf_net_def cache_wf_def inst_of_def cursor_of_def)
qed

lemma tamely_inst_connect [tame_intros]: "tamely (inst_connect i)"
proof (rule tamelyI)
  fix w r w' assume run: "inst_connect i w = (r, w')"
  show "tame w w'"
  proof (cases "n_dials w")
    case Nil
    then show ?thesis using run by (simp add: inst_connect_def)
  next
    case (Cons x ds)
    obtain d b where x: "x = (d, b)" by (cases x)
    obtain r1 h left where c: "connect_socket (n_end w) b d = (r1, h, left)" by (cases "connect_socket (n_end w) b d") auto
    have t: "tame w (w\<lparr>n_dials := d', n_end := e, n_dropped := l\<rparr>)" for d' e l
      by (simp add: tame_def inst_of_def cursor_of_def)
    show ?thesis
      using run Cons x c
      by (cases r1) (auto simp: inst_connect_def Let_def intro: t intro!: tame_trans [OF t tame_set_inst])
  qed
qed

lemma keeps_open_instance [keeps_intros]: "keeps_wf open_instance"
proof (rule keepsI)
  fix w r w'
  assume wf: "wf_net w" and run: "open_instance w = (r, w')"
  let ?w = "w\<lparr>n_insts := n_insts w @ [new_inst], n_instance := Some (length (n_insts w))\<rparr>"
  have run': "inst_connect (length (n_insts w)) ?w = (r, w')"
    using run by (simp add: open_instance_def bind_def gets_def modify_def)
  have new: "inst_of (length (n_insts w)) ?w = new_inst" by (simp add: inst_of_def)
  have "cache_wf i ?w" if "i < Suc (length (n_insts w))" for i
    using that wf new inst_of_append [of i w] by (cases "i = length (n_insts w)")
      (auto simp: cache_wf_def wf_net_def cursor_of_def new_inst_def less_Suc_eq)
  then have "wf_net ?w" using wf new by (simp add: wf_net_def tokens_below_def new_inst_def)
  then show "wf_net w'" using tamelyD [OF tamely_inst_connect run'] tame_wf by blast
qed

lemma keeps_drop [keeps_intros]: "keeps_wf (connection_drop p)" "keeps_wf (reconnect_drop p)"
  unfolding reconnect_drop_def connection_drop_def
  by (intro keeps_intros tamely_wf tame_intros)+


subsection \<open>Queries\<close>

text \<open>What a query of an instance needs: the instance exists, and while it is the current one the
  token is one that was given out.\<close>

definition issued :: "nat \<Rightarrow> wire_query \<Rightarrow> net \<Rightarrow> bool" where
  "issued i q w \<longleftrightarrow> wf_net w \<and> i < length (n_insts w)
     \<and> (n_instance w = Some i \<longrightarrow> 0 \<le> wtoken q \<and> wtoken q < n_next_token w)"

lemma issued_wf: "issued i q w \<Longrightarrow> wf_net w"
  by (simp add: issued_def)

lemma tame_issued: "tame w w' \<Longrightarrow> issued i q w \<Longrightarrow> issued i q w'"
  using tame_wf by (auto simp: issued_def tame_def)

text \<open>Conditions that tame steps cannot break.\<close>

definition stable :: "(net \<Rightarrow> bool) \<Rightarrow> bool" where
  "stable P \<longleftrightarrow> (\<forall>w w'. tame w w' \<longrightarrow> P w \<longrightarrow> P w') \<and> (\<forall>w. P w \<longrightarrow> wf_net w)"

lemma stable_issued: "stable (issued i q)"
  using tame_issued issued_wf by (auto simp: stable_def)

lemma stable_wf_net: "stable wf_net"
  using tame_wf by (auto simp: stable_def)

lemma tamely_stable: "stable P \<Longrightarrow> tamely m \<Longrightarrow> triple P m (\<lambda>_. P) (\<lambda>_. wf_net)"
  by (rule tripleI; drule tamelyD, assumption; auto simp: stable_def)

lemmas tamely_issued = tamely_stable [OF stable_issued]

text \<open>A read that returns has only done tame things; only one that raises may have connected again.\<close>

lemma guarded_read_Inr: "guarded_read p i w = (Inr a, w') \<Longrightarrow> tame w w'"
  unfolding guarded_read_def
  by (auto simp: bind_Inr fail_def raise_def split: prod.splits sum.splits io_stop.splits if_splits
      dest: tamelyD [OF tamely_read_frame])

lemma keeps_guarded_read [keeps_intros]: "keeps_wf (guarded_read p i)"
proof (rule keepsI)
  fix w r w' assume wf: "wf_net w" and run: "guarded_read p i w = (r, w')"
  obtain r1 w1 where 1: "read_frame_of i w = (r1, w1)" by (cases "read_frame_of i w")
  have "wf_net w1" using tame_wf [OF tamelyD [OF tamely_read_frame 1] wf] .
  moreover have "keeps_wf (bind (reconnect_drop p) (\<lambda>_. fail e) :: (int \<times> byte list) net_io)" for e
    by (intro keeps_intros)
  ultimately show "wf_net w'"
    using run 1 by (cases r1) (auto simp: guarded_read_def split: io_stop.splits if_splits dest: keepsD)
qed

lemma guarded_read_stable: "stable P \<Longrightarrow> triple P (guarded_read p j) (\<lambda>_. P) (\<lambda>_. wf_net)"
  by (rule tripleI) (auto dest: guarded_read_Inr keepsD [OF keeps_guarded_read, rotated] simp: stable_def)

lemma read_loop_stable: "stable P \<Longrightarrow> triple P (read_loop p fuel j q') (\<lambda>_. P) (\<lambda>_. wf_net)"
proof (induction fuel)
  case 0
  then show ?case by (auto intro!: triple_raise simp: stable_def)
next
  case (Suc fuel)
  have step: "triple P (bind (gets (inst_of j)) (\<lambda>n. case map_of (in_cache n) token of
         Some c \<Rightarrow> bind (extend_cursor p c buf) (\<lambda>_. if token = wtoken q' then ret None else read_loop p fuel j q')
       | None \<Rightarrow>
           if token = wtoken q' then bind (of_res (parse_response (formats_of q') token buf)) (\<lambda>res. ret (Some res))
           else if \<not> in_closing n then bind (instance_drop p j) (\<lambda>_. fail unexpected_response)
           else read_loop p fuel j q')) (\<lambda>_. P) (\<lambda>_. wf_net)" for token buf
    by (rule triple_bind [OF tamely_stable [OF Suc.prems]], rule tame_intros,
        auto split: option.splits intro!: triple_bind [OF tamely_stable] triple_ret tame_intros Suc.IH Suc.prems
          intro: tamely_stable)
  show ?case
    unfolding read_loop.simps split_beta by (rule triple_bind [OF guarded_read_stable [OF Suc.prems] step])
qed

lemma read_response_stable: "stable P \<Longrightarrow> triple P (read_response_of p j q') (\<lambda>_. P) (\<lambda>_. wf_net)"
  unfolding read_response_of_def by (rule triple_at) (rule triple_fixed [OF read_loop_stable])

lemma keeps_read_response [keeps_intros]: "keeps_wf (read_response_of p j q')"
  using read_response_stable [OF stable_wf_net] by (simp add: keeps_def)

text \<open>A new cursor goes into the cache under the token of its query.\<close>

lemma new_cursor_stores:
  assumes "issued i q w"
  shows "issued i q (set_inst i (\<lambda>n. n\<lparr>in_cache := dict_put (in_cache n) (wtoken q) (length (n_cursors w))\<rparr>)
     (w\<lparr>n_cursors := n_cursors w @ [init_cursor i q]\<rparr>))"
    (is "issued i q (set_inst i ?f ?w)")
proof -
  have inst: "inst_of j ?w = inst_of j w" for j by (simp add: inst_of_def)
  have insts: "inst_of j (set_inst i ?f ?w) = (if j = i then ?f (inst_of i w) else inst_of j w)" for j
    using assms inst by (simp add: inst_of_set_inst issued_def)
  have new: "cursor_of (length (n_cursors w)) ?w = init_cursor i q" by (simp add: cursor_of_def)
  have wf: "wf_net w" using assms by (simp add: issued_def)
  have "cache_wf j (set_inst i ?f ?w)" if "j < length (n_insts w)" for j
  proof -
    have j: "cache_wf j w" using wf that by (simp add: wf_net_def)
    show ?thesis
      unfolding cache_wf_def insts
    proof (rule conjI; (intro allI impI)?)
      show "distinct (map fst (in_cache (if j = i then ?f (inst_of i w) else inst_of j w)))"
        using j by (auto simp: cache_wf_def dict_put_distinct)
    next
      fix t c assume c: "map_of (in_cache (if j = i then ?f (inst_of i w) else inst_of j w)) t = Some c"
      show "c < length (n_cursors (set_inst i ?f ?w)) \<and> cu_conn (cursor_of c (set_inst i ?f ?w)) = j
          \<and> wtoken (cu_query (cursor_of c (set_inst i ?f ?w))) = t"
      proof (cases "j = i \<and> t = wtoken q")
        case True
        then have "c = length (n_cursors w)" using c by (simp add: dict_simps)
        then show ?thesis using new True by (simp add: init_cursor_def)
      next
        case False
        then have "map_of (in_cache (inst_of j w)) t = Some c" using c by (auto simp: dict_simps split: if_splits)
        then have "c < length (n_cursors w) \<and> cu_conn (cursor_of c w) = j \<and> wtoken (cu_query (cursor_of c w)) = t"
          using j by (simp add: cache_wf_def)
        then show ?thesis using cursor_of_append [of c w] by simp
      qed
    qed
  qed
  moreover have "tokens_below i (n_next_token w) (set_inst i ?f ?w)"
    if "n_instance w = Some i"
    using wf that assms unfolding tokens_below_def insts
    by (auto simp: wf_net_def tokens_below_def issued_def dict_simps split: if_splits)
  moreover have "tokens_below j (n_next_token w) (set_inst i ?f ?w)"
    if "n_instance w = Some j" "j \<noteq> i" for j
    using wf that unfolding tokens_below_def insts by (simp add: wf_net_def tokens_below_def)
  moreover have "n_instance w = Some j \<Longrightarrow> j < length (n_insts w)" for j using wf by (simp add: wf_net_def)
  ultimately show ?thesis
    using assms wf unfolding issued_def wf_net_def by (cases "n_instance w = Some i") auto
qed

lemma new_cursor_wf: "triple (issued i q) (new_cursor p i q res) (\<lambda>_. wf_net) (\<lambda>_. wf_net)"
proof -
  have rest: "keeps_wf (bind (maybe_fetch_batch p c) (\<lambda>_. bind (extend_internal p c res) (\<lambda>_. ret c)))" for c
    by (intro keeps_intros tamely_wf tame_intros)
  show ?thesis
    by (rule tripleI)
      (auto simp: new_cursor_def bind_gets bind_modify dest!: keepsD [OF rest, rotated] intro: issued_wf [OF new_cursor_stores])
qed

lemma triple_wf: "keeps_wf m \<Longrightarrow> triple (issued i q) m (\<lambda>_. wf_net) (\<lambda>_. wf_net)"
  by (rule triple_pre [OF keeps_triple]) (auto dest: issued_wf)

lemma response_outcome_wf: "triple (issued i q) (response_outcome p i q res) (\<lambda>_. wf_net) (\<lambda>_. wf_net)"
  unfolding response_outcome_def
  by (intro triple_if) ((rule triple_bind [OF new_cursor_wf] triple_wf, (intro keeps_triple keeps_intros)?)+)

lemma run_query_wf: "triple (issued i q) (run_query p i q noreply) (\<lambda>_. wf_net) (\<lambda>_. wf_net)"
  unfolding run_query_def
  by (rule triple_bind [OF tamely_issued], rule tame_intros)
    (intro triple_if triple_bind [OF read_response_stable [OF stable_issued]] triple_option response_outcome_wf triple_wf keeps_intros)


subsection \<open>The operations of a connection\<close>

lemma keeps_instance_close:
  "triple (\<lambda>w. issued i (control_query p ''NOREPLY_WAIT'' t) w) (instance_close p i nw t) (\<lambda>_. wf_net) (\<lambda>_. wf_net)"
  unfolding instance_close_def
  by (rule triple_bind [OF tamely_issued], rule tame_intros)
    (intro triple_finally triple_if triple_bind [OF run_query_wf] triple_wf keeps_triple tamely_wf tame_intros keeps_intros)

lemma detach_issued:
  "triple wf_net detach (\<lambda>x w. wf_net w \<and> (case x of None \<Rightarrow> True | Some (i, t) \<Rightarrow> issued i (q t) w)) (\<lambda>_. wf_net)"
proof (rule tripleI)
  fix w x w' assume wf: "wf_net w" and run: "detach w = (Inr x, w')"
  have wf': "wf_net w'" using keepsD [OF keeps_detach wf run] .
  then show "wf_net w' \<and> (case x of None \<Rightarrow> True | Some (i, t) \<Rightarrow> issued i (q t) w')"
    using run wf by (cases "n_instance w")
      (auto simp: detach_def new_token_def bind_gets bind_modify ret_def bind_def issued_def wf_net_def
        modify_def gets_def)
qed (auto dest: keepsD [OF keeps_detach])

lemma keeps_connection_close [keeps_intros]: "keeps_wf (connection_close p nw)"
  unfolding connection_close_def keeps_def
proof (rule triple_bind [OF detach_issued])
  fix x
  show "triple (\<lambda>w. wf_net w \<and> (case x of None \<Rightarrow> True
        | Some (i, t) \<Rightarrow> issued i (control_query p ''NOREPLY_WAIT'' t) w))
      (case x of None \<Rightarrow> ret () | Some (i, t) \<Rightarrow> instance_close p i nw t) (\<lambda>_. wf_net) (\<lambda>_. wf_net)"
    by (cases x) (auto intro!: triple_ret intro: triple_pre [OF keeps_instance_close])
qed

text \<open>The tame operations of a connection, and the issue of a token.\<close>

lemma tame_fields [simp]:
  "tame w (w\<lparr>n_db := d\<rparr>)" "tame w (w\<lparr>n_repl := a, n_repl_active := b\<rparr>)"
  by (simp_all add: tame_def inst_of_def cursor_of_def)

lemma tamely_use [tame_intros]: "tamely (use_db db)" "tamely repl" "tamely repl_clear"
  unfolding use_db_def repl_def repl_clear_def by (auto intro: tamely_modify)

lemma tamely_with_db [tame_intros]: "tamely (make_db v)" "tamely (with_db opts)"
proof -
  show m: "tamely (make_db v)" for v
    by (rule tamelyI) (auto simp: make_db_def tame_var split: prod.splits sum.splits)
  show "tamely (with_db opts)"
    unfolding with_db_def by (auto intro!: tame_intros m split: option.splits)
qed

lemma check_open_current: "check_open w = (Inr i, w') \<Longrightarrow> n_instance w = Some i"
  by (auto simp: check_open_def bind_gets bind_Inr fail_def raise_def ret_def split: option.splits if_splits)

lemma check_open_triple:
  "triple wf_net check_open (\<lambda>i w. wf_net w \<and> n_instance w = Some i) (\<lambda>_. wf_net)"
proof (rule tripleI)
  fix w i w' assume wf: "wf_net w" and run: "check_open w = (Inr i, w')"
  have t: "tame w w'" by (rule tamelyD [OF tamely_send(3) run])
  show "wf_net w' \<and> n_instance w' = Some i"
    using tame_wf [OF t wf] check_open_current [OF run] t by (simp add: tame_def)
qed (auto intro: tame_wf tamelyD [OF tamely_send(3)])

lemma stable_current: "stable (\<lambda>w. wf_net w \<and> n_instance w = Some i)"
  unfolding stable_def by (auto simp: tame_wf) (simp add: tame_def)

lemma new_token_run: "new_token w = (Inr (n_next_token w), w\<lparr>n_next_token := n_next_token w + 1\<rparr>)"
  by (simp add: new_token_def bind_gets bind_modify ret_def)

lemma new_token_triple:
  "triple (\<lambda>w. wf_net w \<and> n_instance w = Some i) new_token
     (\<lambda>t w. \<forall>q. wtoken q = t \<longrightarrow> issued i q w) (\<lambda>_. wf_net)"
proof (rule tripleI)
  fix w t w' assume w: "wf_net w \<and> n_instance w = Some i" and run: "new_token w = (Inr t, w')"
  then have "wf_net w'" using keepsD [OF keeps_new_token] by blast
  then show "\<forall>q. wtoken q = t \<longrightarrow> issued i q w'"
    using w run by (auto simp: new_token_run issued_def wf_net_def)
qed (simp add: new_token_run)

lemma wtoken_make_query [simp]: "wtoken (make_query ty t q opts) = t"
  by (simp add: make_query_def Let_def)

lemma wtoken_control_query [simp]: "wtoken (control_query p ty t) = t"
  by (simp add: control_query_def)

lemma keeps_control [keeps_intros]: "keeps_wf (control p ty)" "keeps_wf (noreply_wait p)" "keeps_wf (server p)"
proof -
  show "keeps_wf (control p ty)" for ty
    unfolding control_def keeps_def
    by (intro triple_bind [OF check_open_triple] triple_bind [OF new_token_triple])
      (rule triple_pre [OF run_query_wf], simp)
  then show "keeps_wf (noreply_wait p)" "keeps_wf (server p)" by (simp_all add: noreply_wait_def server_def)
qed

lemma keeps_start [keeps_intros]: "keeps_wf (start_query p q opts)" "keeps_wf (run_term p q given opts)"
proof -
  show s: "keeps_wf (start_query p q opts)"
    unfolding start_query_def keeps_def Let_def
    by (intro triple_bind [OF check_open_triple] triple_bind [OF tamely_stable [OF stable_current]]
        triple_bind [OF new_token_triple] tame_intros) (rule triple_pre [OF run_query_wf], simp)
  show "keeps_wf (run_term p q given opts)"
    unfolding run_term_def by (intro keeps_intros s)
qed

lemma tamely_take: "tamely (modify (set_cursor c (\<lambda>cu. cu\<lparr>cu_items := xs\<rparr>)))"
  by (intro tame_intros) auto

lemma keeps_next_loop [keeps_intros]: "keeps_wf (next_loop p fuel c)"
proof (induction fuel)
  case 0
  then show ?case
    by (subst next_loop.simps) (intro keeps_intros tamely_wf [OF tamely_take], simp add: keeps_intros)
next
  case (Suc fuel)
  then show ?case
    by (subst next_loop.simps) (intro keeps_intros tamely_wf [OF tamely_take],
        simp only: nat.case, intro keeps_intros tamely_wf [OF tamely_fetch])
qed

lemma keeps_cursor_next [keeps_intros]: "keeps_wf (cursor_next p c wait)"
proof -
  have "keeps_wf (\<lambda>w. next_loop p (pending (cu_conn (cursor_of c w)) w + 2) c w)"
    unfolding keeps_def
    by (rule triple_at) (rule triple_fixed [OF keeps_triple [OF keeps_next_loop]])
  then show ?thesis unfolding cursor_next_def by (intro keeps_intros)
qed

lemma tamely_cursor_close [tame_intros]: "tamely (cursor_close p c)"
  unfolding cursor_close_def by (intro tame_intros) auto

lemma keeps_reconnect [keeps_intros]: "keeps_wf (reconnect p nw)"
  unfolding reconnect_def by (intro keeps_intros)


lemma wf_init: "connection_init out host port db key user pw ssl v = Inr w \<Longrightarrow> wf_net w"
  by (auto simp: connection_init_def rbind_def wf_net_def split: sum.splits if_splits)

text \<open>Reading for a token that no cursor has gives a response or raises.\<close>

definition unused :: "nat \<Rightarrow> int \<Rightarrow> net \<Rightarrow> bool" where
  "unused i t w \<longleftrightarrow> wf_net w \<and> map_of (in_cache (inst_of i w)) t = None"

lemma stable_unused: "stable (unused i t)"
  unfolding stable_def unused_def
  by (auto intro: tame_wf) (metis not_None_eq tame_in_cache)

lemma unused_bind:
  "tamely m \<Longrightarrow> (\<And>a. triple (unused i t) (f a) Q (\<lambda>_ _. True)) \<Longrightarrow> triple (unused i t) (bind m f) Q (\<lambda>_ _. True)"
  by (rule triple_bind [where R = "\<lambda>_. unused i t"], rule triple_post [OF tamely_stable [OF stable_unused]]) auto

lemma read_loop_unused:
  "triple (unused i (wtoken q)) (read_loop p fuel i q) (\<lambda>r _. r \<noteq> None) (\<lambda>_ _. True)"
proof (induction fuel)
  case 0
  then show ?case by (auto intro!: triple_raise)
next
  case (Suc fuel)
  let ?U = "unused i (wtoken q)"
  have some: "triple ?U (bind (extend_cursor p c buf) (\<lambda>_. if token = wtoken q then ret None else read_loop p fuel i q))
      (\<lambda>r _. r \<noteq> None) (\<lambda>_ _. True)" if "token \<noteq> wtoken q" for c buf token
    using that by (simp only: if_False) (rule unused_bind, rule tame_intros, rule Suc.IH)
  have rest: "triple ?U (if token = wtoken q then bind (of_res (parse_response (formats_of q) token buf)) (\<lambda>res. ret (Some res))
           else if \<not> in_closing n then bind (instance_drop p i) (\<lambda>_. fail unexpected_response)
           else read_loop p fuel i q) (\<lambda>r _. r \<noteq> None) (\<lambda>_ _. True)" for token buf n
    by (intro triple_if unused_bind Suc.IH) (auto intro!: tame_intros triple_ret simp: triple_def fail_def raise_def ret_def)
  have step: "triple ?U (bind (gets (inst_of i)) (\<lambda>n. case map_of (in_cache n) token of
         Some c \<Rightarrow> bind (extend_cursor p c buf) (\<lambda>_. if token = wtoken q then ret None else read_loop p fuel i q)
       | None \<Rightarrow>
           if token = wtoken q then bind (of_res (parse_response (formats_of q) token buf)) (\<lambda>res. ret (Some res))
           else if \<not> in_closing n then bind (instance_drop p i) (\<lambda>_. fail unexpected_response)
           else read_loop p fuel i q)) (\<lambda>r _. r \<noteq> None) (\<lambda>_ _. True)" for token buf
  proof (rule tripleI)
    fix w r w'
    assume u: "?U w" and run: "bind (gets (inst_of i)) (\<lambda>n. case map_of (in_cache n) token of
         Some c \<Rightarrow> bind (extend_cursor p c buf) (\<lambda>_. if token = wtoken q then ret None else read_loop p fuel i q)
       | None \<Rightarrow>
           if token = wtoken q then bind (of_res (parse_response (formats_of q) token buf)) (\<lambda>res. ret (Some res))
           else if \<not> in_closing n then bind (instance_drop p i) (\<lambda>_. fail unexpected_response)
           else read_loop p fuel i q) w = (Inr r, w')"
    show "r \<noteq> None"
    proof (cases "map_of (in_cache (inst_of i w)) token")
      case None
      then show ?thesis using run u triple_Inr [OF rest u] by (simp add: bind_gets)
    next
      case (Some c)
      then have "token \<noteq> wtoken q" using u by (auto simp: unused_def)
      from triple_Inr [OF some [OF this] u] show ?thesis using run Some by (simp add: bind_gets)
    qed
  qed simp
  show ?case
    unfolding read_loop.simps split_beta
    by (rule triple_bind [OF triple_post [OF guarded_read_stable [OF stable_unused]] step]) simp_all
qed

subsection \<open>Properties\<close>

text \<open>C5. Every operation of a connection and of its cursors keeps the tokens in order, whatever
  the network does and whether it returns or raises: the cursors in the cache of an instance are
  its own, each under the token of its query, and those of the current instance have tokens
  smaller than the next one.  A new connection starts like that.\<close>

theorem tokens_in_order:
  "keeps wf_net (start_query p q opts) \<and> keeps wf_net (run_term p q given opts)
   \<and> keeps wf_net (noreply_wait p) \<and> keeps wf_net (server p)
   \<and> keeps wf_net (cursor_next p c wait) \<and> keeps wf_net (cursor_close p c)
   \<and> keeps wf_net (connection_close p nw) \<and> keeps wf_net (reconnect p nw)
   \<and> keeps wf_net (use_db db) \<and> keeps wf_net repl
   \<and> (case connection_init out host port db' key user pw ssl v of Inl e \<Rightarrow> True | Inr w \<Rightarrow> wf_net w)"
  by (auto intro: keeps_intros tamely_wf tame_intros wf_init split: sum.splits)

text \<open>The token a new query gets is not one of a live cursor of the connection, so the response to
  the query is never taken for a batch of a cursor: sending it and reading gives a response,
  raises or waits, but never the \<open>None\<close> that \<open>_read_response\<close> has for a cursor.\<close>

theorem new_token_fresh:
  assumes "wf_net w" "n_instance w = Some i"
  shows "map_of (in_cache (inst_of i w)) (n_next_token w) = None
     \<and> triple ((=) w)
         (bind new_token (\<lambda>t. bind (send_query p i (make_query ty t term opts)) (\<lambda>_.
            read_response_of p i (make_query ty t term opts))))
         (\<lambda>r _. r \<noteq> None) (\<lambda>_ _. True)"
proof -
  let ?t = "n_next_token w"
  let ?q = "make_query ty ?t term opts" and ?w = "w\<lparr>n_next_token := ?t + 1\<rparr>"
  have none: "map_of (in_cache (inst_of i w)) ?t = None"
    using assms by (cases "map_of (in_cache (inst_of i w)) ?t") (auto simp: wf_net_def tokens_below_def)
  have "wf_net ?w" using keepsD [OF keeps_new_token assms(1) new_token_run] .
  then have u: "unused i (wtoken ?q) ?w" using none by (simp add: unused_def inst_of_def)
  have "triple (unused i (wtoken ?q)) (bind (send_query p i ?q) (\<lambda>_. read_response_of p i ?q))
      (\<lambda>r _. r \<noteq> None) (\<lambda>_ _. True)"
  proof (rule unused_bind)
    show "triple (unused i (wtoken ?q)) (read_response_of p i ?q) (\<lambda>r _. r \<noteq> None) (\<lambda>_ _. True)"
      unfolding read_response_of_def by (rule triple_at) (rule triple_fixed [OF read_loop_unused])
  qed (rule tame_intros)
  from triple_fixed [OF this u] none show ?thesis
    by (simp add: triple_def bind_def [of new_token] new_token_run)
qed

definition hs_blank :: hs where
  "hs_blank = hs_init ''localhost'' 28015 ''admin'' [] 10 True True []"

definition net_example :: "sock option \<Rightarrow> net" where
  "net_example s = \<lparr>n_db = None,
     n_end = \<lparr>ehost = ''localhost'', eport = 28015, essl = False, ehandshake = hs_blank\<rparr>,
     n_instance = Some 0, n_next_token = 0,
     n_insts = [\<lparr>in_cache = [], in_header = None, in_sock = s, in_closing = False\<rparr>], n_cursors = [],
     n_var = 1, n_dials = [], n_dropped = [], n_repl = False, n_repl_active = False\<rparr>"

lemma net_example_wf: "wf_net (net_example s)"
  by (simp add: wf_net_def cache_wf_def tokens_below_def net_example_def inst_of_def)

theorem new_token_fresh_witness:
  "map_of (in_cache (inst_of 0 (net_example None))) (n_next_token (net_example None)) = None
     \<and> triple ((=) (net_example None))
         (bind new_token (\<lambda>t. bind (send_query proto_numbers 0 (make_query 1 t (Some (datum ANone)) None)) (\<lambda>_.
            read_response_of proto_numbers 0 (make_query 1 t (Some (datum ANone)) None))))
         (\<lambda>r _. r \<noteq> None) (\<lambda>_ _. True)"
  by (rule new_token_fresh [OF net_example_wf]) (simp add: net_example_def)

end
