(* ===== verification/Streams.thy ===== *)
theory Streams
  imports Tokens
begin

text \<open>
  Cursors over a connection: what \<open>next\<close> returns when the batches of a stream arrive, how many
  \<open>CONTINUE\<close> queries that takes, and the two ways a cursor can be left waiting or broken.

  A batch on the wire is a frame whose JSON has a type and a list of values.  The lemmas follow
  one frame from the socket to the cursor: reading it, putting it into the cursor, and taking the
  items out.
\<close>

subsection \<open>Frames of a stream\<close>

definition batch_json :: "int \<Rightarrow> json list \<Rightarrow> json" where
  "batch_json ty js = JObj [(''t'', JInt ty), (''r'', JArr js)]"

definition batch_body :: "int \<Rightarrow> json list \<Rightarrow> byte list" where
  "batch_body ty js = utf8_encode (json_text (batch_json ty js))"

definition frame :: "nat \<Rightarrow> byte list \<Rightarrow> byte list" where
  "frame token body = le_bytes 8 token @ le_bytes 4 (length body) @ body"

definition plain :: "formats \<Rightarrow> json \<Rightarrow> bool" where
  "plain opts j \<longleftrightarrow> wf_json j \<and> untouched opts j"

definition batch_response :: "int \<Rightarrow> int \<Rightarrow> json list \<Rightarrow> response" where
  "batch_response token ty js =
     \<lparr>rtoken = token, rtype = RInt ty, rdata = RList (map embed js), rbacktrace = RNull,
      rprofile = RNull, rerror_type = RNull\<rparr>"

lemma parse_batch:
  assumes "\<forall>j \<in> set js. plain opts j"
  shows "parse_response opts token (batch_body ty js) = Inr (batch_response token ty js)"
proof -
  have "wf_json (batch_json ty js)" "untouched opts (batch_json ty js)"
    using assms by (auto simp: batch_json_def plain_def list_all_iff kept_def)
  then have "decode opts (json_text (batch_json ty js)) = Inr (embed (batch_json ty js))"
    by (simp add: decode_def loads_dumps decode_untouched)
  then show ?thesis
    by (simp add: parse_response_def batch_body_def utf8.dec_enc response_of_def key_or_raise_def
        get_or_none_def batch_json_def batch_response_def res_simps del: json_text.simps)
qed

lemma length_frame [simp]: "length (frame token body) = 12 + length body"
  by (simp add: frame_def)

lemma frame_not_Nil [simp]: "frame token body \<noteq> []"
  using length_frame [of token body] by (metis add_is_0 list.size(3) zero_neq_numeral)

subsection \<open>Reading a frame\<close>

abbreviation with_socket :: "nat \<Rightarrow> sock \<Rightarrow> net \<Rightarrow> net" where
  "with_socket i s \<equiv> set_inst i (\<lambda>n. n\<lparr>in_sock := Some s\<rparr>)"

lemma bind_on_sock:
  "bind (on_sock i attr m) f w =
     (case in_sock (inst_of i w) of
        None \<Rightarrow> (Inl (Raised (py_exc PyAttributeError (no_socket attr))), w)
      | Some s \<Rightarrow> (case m s of (Inl e, s') \<Rightarrow> (Inl e, with_socket i s' w) | (Inr a, s') \<Rightarrow> f a (with_socket i s' w)))"
  by (simp add: bind_def on_sock_def split: option.splits prod.splits)

lemma on_sock_app:
  "on_sock i attr m w =
     (case in_sock (inst_of i w) of
        None \<Rightarrow> (Inl (Raised (py_exc PyAttributeError (no_socket attr))), w)
      | Some s \<Rightarrow> (case m s of (r, s') \<Rightarrow> (r, with_socket i s' w)))"
  by (simp add: on_sock_def)

lemma modify_app: "modify f w = (Inr (), f w)"
  by (simp add: modify_def)

lemma bind_of_res: "bind (of_res r) f w = (case r of Inl e \<Rightarrow> (Inl (Raised e), w) | Inr a \<Rightarrow> f a w)"
  by (simp add: bind_def of_res_def fail_def raise_def ret_def split: sum.splits)

lemma bind_bind: "bind (bind m f) g = bind m (\<lambda>a. bind (f a) g)"
  by (auto simp: bind_def split: prod.splits sum.splits)

lemmas net_run = bind_gets bind_modify bind_on_sock bind_of_res

lemma set_inst_set_inst [simp]:
  "i < length (n_insts w) \<Longrightarrow> set_inst i f (set_inst i g w) = set_inst i (\<lambda>n. f (g n)) w"
  by (simp add: set_inst_def inst_of_def)

lemma set_inst_cong: "f (inst_of i w) = g (inst_of i w) \<Longrightarrow> set_inst i f w = set_inst i g w"
  by (simp add: set_inst_def)

lemma inst_of_same [simp]: "i < length (n_insts w) \<Longrightarrow> inst_of i (set_inst i f w) = f (inst_of i w)"
  by (simp add: inst_of_set_inst)

lemma cursor_of_same [simp]: "c < length (n_cursors w) \<Longrightarrow> cursor_of c (set_cursor c f w) = f (cursor_of c w)"
  by (simp add: cursor_of_set_cursor)

lemma read_frame_of_run:
  assumes "i < length (n_insts w)" "in_header (inst_of i w) = None" "in_sock (inst_of i w) = Some s"
    and "sock_ready s" "sock_arriving s = frame token body @ later"
    and "token < 2 ^ 63" "length body < 2 ^ 32"
  shows "\<exists>es. read_frame_of i w = (Inr (int token, body), with_socket i (s\<lparr>incoming := es\<rparr>) w)
     \<and> bytes_before_stop es = later"
proof -
  let ?h = "le_bytes 8 token @ le_bytes 4 (length body)"
  have a: "bytes_before_stop (incoming s) = ?h @ (body @ later)"
    using assms(5) by (simp add: sock_arriving_def frame_def)
  obtain es1 where 1: "recvall 12 s = (Inr ?h, s\<lparr>incoming := es1\<rparr>)" "bytes_before_stop es1 = body @ later"
    using recv_loop_exact [of "[]" 12 "incoming s" s] assms(4) a by (auto simp: recvall_def sock_ready_def)
  obtain es2 where 2: "recvall (length body) (s\<lparr>incoming := es1\<rparr>) = (Inr body, s\<lparr>incoming := es2\<rparr>)"
      "bytes_before_stop es2 = later"
    using recv_loop_exact [of "[]" "length body" es1 "s\<lparr>incoming := es1\<rparr>"] assms(4) 1(2)
    by (auto simp: recvall_def sock_ready_def)
  have "le_val (le_bytes 8 token) = token" "le_val (le_bytes 4 (length body)) = length body"
    using assms(6,7) by (simp_all add: le_val_le_bytes)
  then have u: "unpack_header ?h = Inr (int token, length body)"
    using assms(6) by (simp add: unpack_header_def signed64_def)
  have h: "read_header i w = (Inr ?h, set_inst i (\<lambda>n. n\<lparr>in_sock := Some (s\<lparr>incoming := es1\<rparr>), in_header := Some ?h\<rparr>) w)"
    using assms(1,2,3) 1(1) by (simp add: read_header_def net_run ret_def)
  show ?thesis
    using assms(1,2,3) u 2
    by (cases "inst_of i w") (auto simp: read_frame_of_def bind_def [of "read_header i"] h net_run ret_def
        intro!: exI [of _ es2] set_inst_cong)
qed


subsection \<open>One cursor and its stream\<close>

text \<open>A cursor that is still streaming over the current instance, with what will arrive there, how
  many bytes the system is sure to take, and what has been sent.\<close>

definition stream_at ::
    "nat \<Rightarrow> nat \<Rightarrow> wire_query \<Rightarrow> rval list \<Rightarrow> nat \<Rightarrow> nat \<Rightarrow> byte list \<Rightarrow> nat \<Rightarrow> byte list \<Rightarrow> net \<Rightarrow> bool" where
  "stream_at c i q items n th arriving room done w \<longleftrightarrow>
     n_instance w = Some i \<and> i < length (n_insts w) \<and> c < length (n_cursors w)
     \<and> cursor_of c w = \<lparr>cu_conn = i, cu_query = q, cu_items = items, cu_outstanding = int n, cu_threshold = th, cu_error = None\<rparr>
     \<and> in_header (inst_of i w) = None \<and> map_of (in_cache (inst_of i w)) (wtoken q) = Some c
     \<and> (\<exists>s. in_sock (inst_of i w) = Some s \<and> sock_ready s \<and> sock_arriving s = arriving
          \<and> room \<le> willing (sending s) \<and> sent s = done)"

text \<open>A cursor whose stream is over.\<close>

definition exhausted :: "nat \<Rightarrow> nat \<Rightarrow> rval list \<Rightarrow> byte list \<Rightarrow> net \<Rightarrow> bool" where
  "exhausted c i items done w \<longleftrightarrow> c < length (n_cursors w) \<and> cu_items (cursor_of c w) = items
     \<and> cu_error (cursor_of c w) = Some empty_error \<and> map_option sent (in_sock (inst_of i w)) = Some done"

lemma fetch_quiet:
  "\<not> (cu_error (cursor_of c w) = None \<and> length (cu_items (cursor_of c w)) < cu_threshold (cursor_of c w)
      \<and> cu_outstanding (cursor_of c w) = 0) \<Longrightarrow> maybe_fetch_batch p c w = (Inr (), w)"
  by (auto simp: maybe_fetch_batch_def net_run ret_def)

lemma serialize_control:
  "frame_bytes p (control_query p ty t) None = Inr msg \<Longrightarrow> serialize_query p (control_query p ty t) w = (Inr msg, w)"
  by (simp add: serialize_query_def serialize_def control_query_def make_query_def Let_def lift_res_def)

text \<open>Sending on the current, open instance.\<close>

lemma with_socket_same: "in_sock (inst_of i w) = Some s \<Longrightarrow> with_socket i s w = w"
  by (cases "i < length (n_insts w)")
    (auto simp: set_inst_def inst_of_def list_update_beyond intro!: net.equality nth_equalityI
      simp: nth_list_update)

lemma send_query_run:
  assumes "in_sock (inst_of i w) = Some s" "sock_ready s" "length msg \<le> willing (sending s)"
    and "serialize_query p q w = (Inr msg, w')" "inst_of i w' = inst_of i w"
  shows "\<exists>es. send_query p i q w = (Inr (), with_socket i (s\<lparr>sending := es, sent := sent s @ msg\<rparr>) w')
     \<and> willing (sending s) \<le> willing es + length msg"
proof -
  obtain es where es: "sendall msg s = (Inr (), s\<lparr>sending := es, sent := sent s @ msg\<rparr>)"
    "willing (sending s) \<le> willing es + length msg"
    using sendall_ready [of s msg] assms(2,3) by (auto simp: sock_ready_def)
  show ?thesis
    using assms(1,4,5) es
    by (auto simp: send_query_def bind_on_sock with_socket_same bind_def [of "serialize_query p q"] on_sock_app)
qed

lemma check_open_run:
  assumes "n_instance w = Some i" "in_sock (inst_of i w) = Some s" "sock_ready s"
  shows "check_open w = (Inr i, w)"
  using assms by (simp add: check_open_def inst_is_open_def net_run with_socket_same sock_ready_def ret_def)

lemma fetch_asks:
  assumes st: "stream_at c i q items 0 th arr room don w" and "length items < th"
    and msg: "frame_bytes p (control_query p ''CONTINUE'' (wtoken q)) None = Inr msg" "length msg \<le> room"
  shows "\<exists>w'. maybe_fetch_batch p c w = (Inr (), w')
     \<and> stream_at c i q items 1 th arr (room - length msg) (don @ msg) w'"
proof -
  let ?w = "set_cursor c (\<lambda>cu. cu\<lparr>cu_outstanding := cu_outstanding cu + 1\<rparr>) w"
  have st1: "stream_at c i q items 1 th arr room don ?w" using st by (simp add: stream_at_def)
  then obtain s where s: "in_sock (inst_of i ?w) = Some s" "sock_ready s" "sock_arriving s = arr"
    "room \<le> willing (sending s)" "sent s = don" by (auto simp: stream_at_def)
  obtain es where send: "send_query p i (control_query p ''CONTINUE'' (wtoken q)) ?w
      = (Inr (), with_socket i (s\<lparr>sending := es, sent := sent s @ msg\<rparr>) ?w)"
    and es: "willing (sending s) \<le> willing es + length msg"
    using send_query_run [OF s(1,2) _ serialize_control [OF msg(1)] refl] msg(2) s(4) by force
  have "send_control p ''CONTINUE'' c ?w = (Inr (), with_socket i (s\<lparr>sending := es, sent := sent s @ msg\<rparr>) ?w)"
    using st1 send check_open_run [OF _ s(1,2)]
    by (auto simp: send_control_def stream_at_def net_run bind_def [of check_open])
  then have "maybe_fetch_batch p c w = (Inr (), with_socket i (s\<lparr>sending := es, sent := sent s @ msg\<rparr>) ?w)"
    using st assms(2) by (simp add: maybe_fetch_batch_def net_run stream_at_def)
  moreover have "stream_at c i q items 1 th arr (room - length msg) (don @ msg)
      (with_socket i (s\<lparr>sending := es, sent := sent s @ msg\<rparr>) ?w)"
    using st1 s es by (auto simp: stream_at_def sock_ready_def sock_arriving_def)
  ultimately show ?thesis by blast
qed


subsection \<open>A frame reaches the cursor\<close>

lemma stream_read:
  assumes st: "stream_at c i q items n th (frame t body @ later) room don w"
    and "t < 2 ^ 63" "length body < 2 ^ 32"
  shows "\<exists>w'. guarded_read p i w = (Inr (int t, body), w') \<and> stream_at c i q items n th later room don w'"
proof -
  obtain s where s: "in_sock (inst_of i w) = Some s" "sock_ready s" "sock_arriving s = frame t body @ later"
    "room \<le> willing (sending s)" "sent s = don" using st by (auto simp: stream_at_def)
  obtain es where r: "read_frame_of i w = (Inr (int t, body), with_socket i (s\<lparr>incoming := es\<rparr>) w)"
    and es: "bytes_before_stop es = later"
    using read_frame_of_run [of i w s t body later] st s assms(2,3) by (auto simp: stream_at_def)
  have "stream_at c i q items n th later room don (with_socket i (s\<lparr>incoming := es\<rparr>) w)"
    using st s es by (auto simp: stream_at_def sock_ready_def sock_arriving_def)
  then show ?thesis using r by (simp add: guarded_read_def)
qed

text \<open>The values of a batch: those it has room to name.\<close>

lemma items_of_list [simp]: "items_of (RList xs) = Inr xs"
  by (simp add: items_of_def)

definition partial_of :: "proto \<Rightarrow> int" where
  "partial_of p = presponse p ''SUCCESS_PARTIAL''"

definition sequence_of :: "proto \<Rightarrow> int" where
  "sequence_of p = presponse p ''SUCCESS_SEQUENCE''"

lemma internal_partial:
  assumes "stream_at c i q items n th arr room don w"
  shows "\<exists>w'. extend_internal p c (batch_response t (partial_of p) js) w = (Inr (), w')
     \<and> stream_at c i q (items @ map embed js) n (length js) arr room don w'"
proof -
  let ?w = "set_cursor c (\<lambda>_. (cursor_of c w)\<lparr>cu_threshold := length js, cu_items := items @ map embed js\<rparr>)
      (set_cursor c (\<lambda>cu. cu\<lparr>cu_threshold := length js\<rparr>) w)"
  have "extend_internal p c (batch_response t (partial_of p) js) w = (Inr (), ?w)"
    using assms by (simp add: extend_internal_def net_run batch_response_def absorb_def is_int_def partial_of_def
        stream_at_def ret_def)
  moreover have "stream_at c i q (items @ map embed js) n (length js) arr room don ?w"
    using assms by (simp add: stream_at_def)
  ultimately show ?thesis by blast
qed

lemma internal_sequence:
  assumes "stream_at c i q items n th arr room don w" and "partial_of p \<noteq> sequence_of p"
  shows "\<exists>w'. extend_internal p c (batch_response (wtoken q) (sequence_of p) js) w = (Inr (), w')
     \<and> exhausted c i (items @ map embed js) don w'"
proof -
  let ?w = "set_cursor c (\<lambda>_. (cursor_of c w)\<lparr>cu_threshold := length js, cu_items := items @ map embed js,
      cu_error := Some empty_error\<rparr>) (set_cursor c (\<lambda>cu. cu\<lparr>cu_threshold := length js\<rparr>) w)"
  have "\<exists>w'. extend_internal p c (batch_response (wtoken q) (sequence_of p) js) w = (Inr (), w')
      \<and> (w' = ?w \<or> (\<exists>d. w' = set_inst i (\<lambda>n. n\<lparr>in_cache := d n\<rparr>) ?w))"
    using assms by (auto simp: extend_internal_def net_run batch_response_def absorb_def is_int_def partial_of_def
        sequence_of_def stream_at_def ret_def forget_token_def modify_app)
  then show ?thesis using assms(1) by (auto simp: exhausted_def stream_at_def)
qed


text \<open>\<open>_extend\<close> asks for the next batch before it looks at this one, unless the batch before was
  empty.\<close>

definition query_ok :: "proto \<Rightarrow> wire_query \<Rightarrow> byte list \<Rightarrow> bool" where
  "query_ok p q msg \<longleftrightarrow> partial_of p \<noteq> sequence_of p \<and> 0 \<le> wtoken q \<and> wtoken q < 2 ^ 63
     \<and> frame_bytes p (control_query p ''CONTINUE'' (wtoken q)) None = Inr msg"

text \<open>What has been sent after a number of requests for a batch.\<close>

definition asked :: "byte list \<Rightarrow> byte list \<Rightarrow> nat \<Rightarrow> byte list" where
  "asked base msg k = base @ concat (replicate k msg)"

lemma asked_more: "asked base msg k @ msg = asked base msg (Suc k)"
proof -
  have "concat (replicate k msg) @ msg = msg @ concat (replicate k msg)" by (induction k) auto
  then show ?thesis by (simp add: asked_def)
qed

lemma waiting_fetch:
  assumes "stream_at c i q [] n th arr room (asked base msg (k + n)) w" "query_ok p q msg"
    and "n = 1 \<or> n = 0 \<and> 0 < th" "length msg \<le> room"
  shows "\<exists>w'. maybe_fetch_batch p c w = (Inr (), w')
     \<and> stream_at c i q [] 1 th arr (room - (1 - n) * length msg) (asked base msg (k + 1)) w'"
proof (cases "n = 0")
  case True
  then show ?thesis
    using fetch_asks [of c i q "[]" th arr room "asked base msg k" w p msg] assms
    by (auto simp: query_ok_def asked_more)
next
  case False
  then show ?thesis using assms by (auto simp: stream_at_def fetch_quiet)
qed

lemma extend_cursor_run:
  assumes st: "stream_at c i q [] 1 th arr room (asked base msg (k + 1)) w"
    and q: "query_ok p q msg" "length msg \<le> room" and js: "\<forall>j \<in> set js. plain (formats_of q) j"
  shows "\<exists>w1 n. extend_cursor p c (batch_body ty js) w = extend_internal p c (batch_response (wtoken q) ty js) w1
     \<and> stream_at c i q [] n th arr (room - n * length msg) (asked base msg (k + 1 + n)) w1
     \<and> n = (if 0 < th then 1 else 0)"
proof -
  let ?n = "if 0 < th then 1 else 0 :: nat"
  let ?w = "set_cursor c (\<lambda>cu. cu\<lparr>cu_outstanding := cu_outstanding cu - 1\<rparr>) w"
  have st0: "stream_at c i q [] 0 th arr room (asked base msg (k + 1)) ?w"
    using st by (simp add: stream_at_def)
  have "\<exists>w1. maybe_fetch_batch p c ?w = (Inr (), w1)
      \<and> stream_at c i q [] ?n th arr (room - ?n * length msg) (asked base msg (k + 1 + ?n)) w1"
  proof (cases "0 < th")
    case True
    have "stream_at c i q [] 0 th arr room (asked base msg ((k + 1) + 0)) ?w" using st0 by simp
    from waiting_fetch [OF this q(1) _ q(2)] True show ?thesis by simp
  next
    case False
    then show ?thesis using st0 by (auto simp: stream_at_def fetch_quiet)
  qed
  then obtain w1 where w1: "maybe_fetch_batch p c ?w = (Inr (), w1)"
    "stream_at c i q [] ?n th arr (room - ?n * length msg) (asked base msg (k + 1 + ?n)) w1" by blast
  have "cu_query (cursor_of c w1) = q" using w1(2) by (simp add: stream_at_def)
  then have "extend_cursor p c (batch_body ty js) w = extend_internal p c (batch_response (wtoken q) ty js) w1"
    using w1(1) parse_batch [OF js]
    by (simp add: extend_cursor_def net_run bind_def [of "maybe_fetch_batch p c"])
  then show ?thesis using w1(2) by blast
qed


lemma stream_at_room: "stream_at c i q items n th arr room don w \<Longrightarrow> room' \<le> room \<Longrightarrow> stream_at c i q items n th arr room' don w"
  by (auto simp: stream_at_def intro: order_trans)

subsection \<open>Reading one batch\<close>

definition batch_ok :: "proto \<Rightarrow> wire_query \<Rightarrow> json list \<Rightarrow> bool" where
  "batch_ok p q b \<longleftrightarrow> (\<forall>j \<in> set b. plain (formats_of q) j)
     \<and> length (batch_body (partial_of p) b) < 2 ^ 32 \<and> length (batch_body (sequence_of p) b) < 2 ^ 32"

lemma read_response_batch:
  assumes st: "stream_at c i q [] 1 th (frame (nat (wtoken q)) (batch_body ty js) @ later) room (asked base msg (k + 1)) w"
    and q: "query_ok p q msg" "length msg \<le> room"
    and b: "batch_ok p q js" "ty = partial_of p \<or> ty = sequence_of p"
  shows "\<exists>w1 n. n = (if 0 < th then 1 else 0)
     \<and> stream_at c i q [] n th later (room - n * length msg) (asked base msg (k + 1 + n)) w1
     \<and> (\<forall>w2. extend_internal p c (batch_response (wtoken q) ty js) w1 = (Inr (), w2)
          \<longrightarrow> read_response_of p i q w = (Inr None, w2))"
proof -
  let ?t = "nat (wtoken q)"
  have t: "?t < 2 ^ 63" "int ?t = wtoken q" using q by (auto simp: query_ok_def)
  have len: "length (batch_body ty js) < 2 ^ 32" and js: "\<forall>j \<in> set js. plain (formats_of q) j"
    using b by (auto simp: batch_ok_def)
  obtain w0 where read: "guarded_read p i w = (Inr (int ?t, batch_body ty js), w0)"
    and st0: "stream_at c i q [] 1 th later room (asked base msg (k + 1)) w0"
    using stream_read [OF st t(1) len] by blast
  obtain w1 n where w1: "extend_cursor p c (batch_body ty js) w0
        = extend_internal p c (batch_response (wtoken q) ty js) w1"
      "stream_at c i q [] n th later (room - n * length msg) (asked base msg (k + 1 + n)) w1"
      "n = (if 0 < th then 1 else 0)"
    using extend_cursor_run [OF st0 q js, of ty] by blast
  have cache: "map_of (in_cache (inst_of i w0)) (wtoken q) = Some c" using st0 by (simp add: stream_at_def)
  have "read_response_of p i q w = (Inr None, w2)"
    if "extend_internal p c (batch_response (wtoken q) ty js) w1 = (Inr (), w2)" for w2
    using read cache w1(1) that t(2)
    by (simp add: read_response_of_def bind_def [of "guarded_read p i"] net_run bind_def [of "extend_cursor p c _"] ret_def)
  then show ?thesis using w1 by blast
qed

lemma next_loop_read:
  assumes st: "stream_at c i q [] n th (frame (nat (wtoken q)) (batch_body ty js) @ later) room (asked base msg (k + n)) w"
    and n: "n = 1 \<or> n = 0 \<and> 0 < th"
    and q: "query_ok p q msg" "2 * length msg \<le> room"
    and b: "batch_ok p q js" "ty = partial_of p \<or> ty = sequence_of p"
  shows "\<exists>w1 m. m = (if 0 < th then 1 else 0)
     \<and> stream_at c i q [] m th later (room - 2 * length msg) (asked base msg (k + 1 + m)) w1
     \<and> (\<forall>w2. extend_internal p c (batch_response (wtoken q) ty js) w1 = (Inr (), w2)
          \<longrightarrow> next_loop p (Suc fuel) c w = next_loop p fuel c w2)"
proof -
  obtain w0 where fetch: "maybe_fetch_batch p c w = (Inr (), w0)"
    and st0: "stream_at c i q [] 1 th (frame (nat (wtoken q)) (batch_body ty js) @ later)
      (room - (1 - n) * length msg) (asked base msg (k + 1)) w0"
    using waiting_fetch [OF st q(1) n] q(2) by auto
  have room: "length msg \<le> room - (1 - n) * length msg" using q(2) n by auto
  obtain w1 m where w1: "m = (if 0 < th then 1 else 0)"
      "stream_at c i q [] m th later (room - (1 - n) * length msg - m * length msg) (asked base msg (k + 1 + m)) w1"
      "\<forall>w2. extend_internal p c (batch_response (wtoken q) ty js) w1 = (Inr (), w2)
          \<longrightarrow> read_response_of p i q w0 = (Inr None, w2)"
    using read_response_batch [OF st0 q(1) room b] by blast
  have "cu_items (cursor_of c w) = []" "cursor_of c w0 = \<lparr>cu_conn = i, cu_query = q, cu_items = [], cu_outstanding = 1,
      cu_threshold = th, cu_error = None\<rparr>"
    using st st0 by (simp_all add: stream_at_def)
  then have "\<forall>w2. extend_internal p c (batch_response (wtoken q) ty js) w1 = (Inr (), w2)
      \<longrightarrow> next_loop p (Suc fuel) c w = next_loop p fuel c w2"
    using w1(3) fetch
    by (subst next_loop.simps) (auto simp: net_run bind_def [of "maybe_fetch_batch p c"]
        bind_def [of "read_response_of p i q"] simp del: next_loop.simps)
  moreover have "stream_at c i q [] m th later (room - 2 * length msg) (asked base msg (k + 1 + m)) w1"
    by (rule stream_at_room [OF w1(2)]) (use w1(1) n in auto)
  ultimately show ?thesis using w1(1) by blast
qed


subsection \<open>A cursor as a queue of what is still to come\<close>

definition stream_bytes :: "proto \<Rightarrow> nat \<Rightarrow> json list list \<Rightarrow> json list \<Rightarrow> byte list" where
  "stream_bytes p t bs fin =
     concat (map (\<lambda>b. frame t (batch_body (partial_of p) b)) bs) @ frame t (batch_body (sequence_of p) fin)"

text \<open>No two batches in a row are empty, the one before the first has \<open>th\<close> items.\<close>

fun gapless :: "nat \<Rightarrow> json list list \<Rightarrow> bool" where
  "gapless th [] = True"
| "gapless th (b # bs) = ((0 < th \<or> b \<noteq> []) \<and> gapless (length b) bs)"

text \<open>The cursor still has to deliver \<open>xs\<close>, and when it has, \<open>b\<close> batches will have been asked for, or
  one more.\<close>

definition pending_stream ::
    "proto \<Rightarrow> nat \<Rightarrow> nat \<Rightarrow> wire_query \<Rightarrow> byte list \<Rightarrow> byte list \<Rightarrow> nat \<Rightarrow> json list list \<Rightarrow> json list
      \<Rightarrow> rval list \<Rightarrow> net \<Rightarrow> bool" where
  "pending_stream p c i q base msg b bs fin items w \<longleftrightarrow>
     (\<exists>n th k later. stream_at c i q items n th (stream_bytes p (nat (wtoken q)) bs fin @ later)
          ((length bs + 1) * (2 * length msg)) (asked base msg (k + n)) w
        \<and> gapless th bs \<and> (n = 1 \<or> n = 0 \<and> 0 < th) \<and> b = k + length bs + 1)"

definition delivers ::
    "proto \<Rightarrow> nat \<Rightarrow> nat \<Rightarrow> wire_query \<Rightarrow> byte list \<Rightarrow> byte list \<Rightarrow> nat \<Rightarrow> rval list \<Rightarrow> net \<Rightarrow> bool" where
  "delivers p c i q base msg b xs w \<longleftrightarrow> query_ok p q msg \<and>
     ((\<exists>items bs fin. pending_stream p c i q base msg b bs fin items w
         \<and> list_all (batch_ok p q) (fin # bs) \<and> xs = items @ map embed (concat bs @ fin))
      \<or> exhausted c i xs (asked base msg b) w \<or> exhausted c i xs (asked base msg (Suc b)) w)"

definition finished :: "nat \<Rightarrow> nat \<Rightarrow> byte list \<Rightarrow> byte list \<Rightarrow> nat \<Rightarrow> net \<Rightarrow> bool" where
  "finished c i base msg b w \<longleftrightarrow>
     exhausted c i [] (asked base msg b) w \<or> exhausted c i [] (asked base msg (Suc b)) w"

text \<open>The answer of \<open>next\<close> when the queue holds \<open>xs\<close>: the first of them, or the end.\<close>

definition answers ::
    "(rval list \<Rightarrow> net \<Rightarrow> bool) \<Rightarrow> (net \<Rightarrow> bool) \<Rightarrow> rval list \<Rightarrow> (io_stop + rval) \<times> net \<Rightarrow> bool" where
  "answers D F xs r \<longleftrightarrow> (case xs of
     [] \<Rightarrow> fst r = Inl (Raised empty_error) \<and> F (snd r)
   | x # xs' \<Rightarrow> fst r = Inr x \<and> D xs' (snd r))"

declare next_loop.simps [simp del]

lemma exhausted_next:
  assumes "exhausted c i xs don w" "0 < fuel"
  shows "answers (\<lambda>ys. exhausted c i ys don) (exhausted c i [] don) xs (next_loop p fuel c w)"
proof (cases xs)
  case Nil
  obtain n where fuel: "fuel = Suc n" using assms(2) by (cases fuel) auto
  have "maybe_fetch_batch p c w = (Inr (), w)" using assms(1) by (intro fetch_quiet) (simp add: exhausted_def)
  then have "next_loop p fuel c w = (Inl (Raised empty_error), w)"
    using assms(1) Nil fuel
    by (subst next_loop.simps) (simp add: net_run exhausted_def bind_def [of "maybe_fetch_batch p c"] fail_def raise_def)
  then show ?thesis using assms(1) Nil by (simp add: answers_def)
next
  case (Cons x ys)
  then have "next_loop p fuel c w = (Inr x, set_cursor c (\<lambda>cu. cu\<lparr>cu_items := ys\<rparr>) w)"
    using assms(1) by (subst next_loop.simps) (simp add: net_run exhausted_def ret_def)
  then show ?thesis using assms(1) Cons by (simp add: answers_def exhausted_def)
qed

lemma stream_takes:
  assumes "stream_at c i q (x # xs) n th arr room don w"
  shows "\<exists>w'. next_loop p fuel c w = (Inr x, w') \<and> stream_at c i q xs n th arr room don w'"
  using assms by (subst next_loop.simps) (auto simp: net_run stream_at_def ret_def)

lemma pending_takes:
  assumes "pending_stream p c i q base msg b bs fin (x # xs) w"
  shows "\<exists>w'. next_loop p fuel c w = (Inr x, w') \<and> pending_stream p c i q base msg b bs fin xs w'"
  using assms stream_takes [of c i q x xs] unfolding pending_stream_def by metis

lemma answers_mono:
  "answers D F xs r \<Longrightarrow> (\<And>ys w. D ys w \<Longrightarrow> D' ys w) \<Longrightarrow> (\<And>w. F w \<Longrightarrow> F' w) \<Longrightarrow> answers D' F' xs r"
  by (auto simp: answers_def split: list.splits)

text \<open>A batch that is not the last one.\<close>

lemma pending_reads:
  assumes "pending_stream p c i q base msg b (js # bs) fin [] w" "query_ok p q msg" "batch_ok p q js"
  shows "\<exists>w'. next_loop p (Suc fuel) c w = next_loop p fuel c w'
     \<and> pending_stream p c i q base msg b bs fin (map embed js) w'"
proof -
  obtain n th k later where st: "stream_at c i q [] n th (stream_bytes p (nat (wtoken q)) (js # bs) fin @ later)
      ((length bs + 2) * (2 * length msg)) (asked base msg (k + n)) w"
    and g: "0 < th \<or> js \<noteq> []" "gapless (length js) bs" and n: "n = 1 \<or> n = 0 \<and> 0 < th"
    and b: "b = k + length bs + 2"
    using assms(1) by (auto simp: pending_stream_def)
  let ?later = "stream_bytes p (nat (wtoken q)) bs fin @ later"
  have st': "stream_at c i q [] n th (frame (nat (wtoken q)) (batch_body (partial_of p) js) @ ?later)
      ((length bs + 2) * (2 * length msg)) (asked base msg (k + n)) w" using st by (simp add: stream_bytes_def)
  obtain w1 m where w1: "m = (if 0 < th then 1 else 0)"
      "stream_at c i q [] m th ?later ((length bs + 2) * (2 * length msg) - 2 * length msg) (asked base msg (k + 1 + m)) w1"
      "\<And>w2. extend_internal p c (batch_response (wtoken q) (partial_of p) js) w1 = (Inr (), w2)
        \<Longrightarrow> next_loop p (Suc fuel) c w = next_loop p fuel c w2"
    using next_loop_read [OF st' n assms(2) _ assms(3), of fuel] by force
  obtain w2 where w2: "extend_internal p c (batch_response (wtoken q) (partial_of p) js) w1 = (Inr (), w2)"
      "stream_at c i q (map embed js) m (length js) ?later ((length bs + 1) * (2 * length msg)) (asked base msg (k + 1 + m)) w2"
    using internal_partial [OF w1(2), of p "wtoken q" js] stream_at_room by force
  have "m = 1 \<or> m = 0 \<and> 0 < length js" using w1(1) g(1) by auto
  then have "pending_stream p c i q base msg b bs fin (map embed js) w2"
    using w2(2) g(2) b unfolding pending_stream_def
    by (intro exI [of _ m] exI [of _ "length js"] exI [of _ "k + 1"] exI [of _ later]) simp
  then show ?thesis using w1(3) [OF w2(1)] by blast
qed

text \<open>The last batch.\<close>

lemma pending_ends:
  assumes "pending_stream p c i q base msg b [] fin [] w" "query_ok p q msg" "batch_ok p q fin"
  shows "\<exists>w' m. next_loop p (Suc fuel) c w = next_loop p fuel c w'
     \<and> exhausted c i (map embed fin) (asked base msg m) w' \<and> (m = b \<or> m = Suc b)"
proof -
  obtain n th k later where st: "stream_at c i q [] n th (frame (nat (wtoken q)) (batch_body (sequence_of p) fin) @ later)
      (2 * length msg) (asked base msg (k + n)) w"
    and n: "n = 1 \<or> n = 0 \<and> 0 < th" and b: "b = k + 1"
    using assms(1) by (auto simp: pending_stream_def stream_bytes_def)
  obtain w1 m where w1: "m = (if 0 < th then 1 else 0)"
      "stream_at c i q [] m th later 0 (asked base msg (k + 1 + m)) w1"
      "\<And>w2. extend_internal p c (batch_response (wtoken q) (sequence_of p) fin) w1 = (Inr (), w2)
        \<Longrightarrow> next_loop p (Suc fuel) c w = next_loop p fuel c w2"
    using next_loop_read [OF st n assms(2) _ assms(3), of fuel] by force
  obtain w2 where "extend_internal p c (batch_response (wtoken q) (sequence_of p) fin) w1 = (Inr (), w2)"
      "exhausted c i (map embed fin) (asked base msg (k + 1 + m)) w2"
    using internal_sequence [OF w1(2), of p fin] assms(2) by (auto simp: query_ok_def)
  then show ?thesis using w1(1,3) b by (intro exI [of _ w2] exI [of _ "k + 1 + m"]) auto
qed

lemma pending_delivers:
  "pending_stream p c i q base msg b bs fin items w \<Longrightarrow> query_ok p q msg \<Longrightarrow> list_all (batch_ok p q) (fin # bs)
     \<Longrightarrow> delivers p c i q base msg b (items @ map embed (concat bs @ fin)) w"
  unfolding delivers_def by blast

lemma exhausted_delivers:
  "exhausted c i xs (asked base msg m) w \<Longrightarrow> m = b \<or> m = Suc b \<Longrightarrow> query_ok p q msg \<Longrightarrow> delivers p c i q base msg b xs w"
  by (auto simp: delivers_def)

lemma exhausted_finished: "exhausted c i [] (asked base msg m) w \<Longrightarrow> m = b \<or> m = Suc b \<Longrightarrow> finished c i base msg b w"
  by (auto simp: finished_def)

lemma next_loop_answers:
  assumes "pending_stream p c i q base msg b bs fin items w" "query_ok p q msg"
    and "list_all (batch_ok p q) (fin # bs)" "length bs + 2 \<le> fuel"
  shows "answers (delivers p c i q base msg b) (finished c i base msg b) (items @ map embed (concat bs @ fin)) (next_loop p fuel c w)"
  using assms
proof (induction bs arbitrary: items fuel w)
  case Nil
  show ?case
  proof (cases items)
    case (Cons x xs)
    then obtain w' where "next_loop p fuel c w = (Inr x, w')" "pending_stream p c i q base msg b [] fin xs w'"
      using pending_takes Nil.prems(1) by blast
    then show ?thesis
      using Cons pending_delivers [of p c i q base msg b "[]" fin xs w'] Nil.prems(2,3) by (simp add: answers_def)
  next
    case items: Nil
    obtain f where f: "fuel = Suc f" "0 < f" using Nil.prems(4) by (cases fuel) auto
    obtain w' m where w': "next_loop p fuel c w = next_loop p f c w'" "m = b \<or> m = Suc b"
      "exhausted c i (map embed fin) (asked base msg m) w'"
      using pending_ends [of p c i q base msg b fin w f] Nil.prems items f(1) by auto
    show ?thesis
      using answers_mono [OF exhausted_next [OF w'(3) f(2)] exhausted_delivers [OF _ w'(2) Nil.prems(2)] exhausted_finished [OF _ w'(2)]] w'(1) items
      by simp
  qed
next
  case (Cons js bs)
  show ?case
  proof (cases items)
    case (Cons x xs)
    then obtain w' where "next_loop p fuel c w = (Inr x, w')" "pending_stream p c i q base msg b (js # bs) fin xs w'"
      using pending_takes Cons.prems(1) by blast
    then show ?thesis
      using Cons pending_delivers [of p c i q base msg b "js # bs" fin xs w'] Cons.prems(2,3)
      by (simp add: answers_def)
  next
    case items: Nil
    obtain f where f: "fuel = Suc f" "length bs + 2 \<le> f" using Cons.prems(4) by (cases fuel) auto
    obtain w' where w': "next_loop p fuel c w = next_loop p f c w'"
      "pending_stream p c i q base msg b bs fin (map embed js) w'"
      using pending_reads [of p c i q base msg b js bs fin w f] Cons.prems items f(1) by auto
    show ?thesis using Cons.IH [OF w'(2) Cons.prems(2) _ f(2)] Cons.prems(3) w'(1) items by simp
  qed
qed


subsection \<open>The operation \<open>next\<close>\<close>

lemma length_stream_bytes: "length bs < length (stream_bytes p t bs fin)"
  by (induction bs) (auto simp: stream_bytes_def)

lemma pending_fuel:
  assumes "pending_stream p c i q base msg b bs fin items w"
  shows "length bs + 2 \<le> pending (cu_conn (cursor_of c w)) w + 2"
proof -
  obtain n th k later s where st: "cu_conn (cursor_of c w) = i" "in_sock (inst_of i w) = Some s"
    "sock_arriving s = stream_bytes p (nat (wtoken q)) bs fin @ later"
    using assms by (auto simp: pending_stream_def stream_at_def)
  have "length bs \<le> length (sock_arriving s)"
    using st(3) length_stream_bytes [of bs p "nat (wtoken q)" fin] by simp
  also have "\<dots> \<le> total_bytes (incoming s)" using before_stop_total by (simp add: sock_arriving_def)
  finally show ?thesis using st(1,2) by (simp add: pending_def)
qed

definition waits_forever :: "atom \<Rightarrow> bool" where
  "waits_forever a \<longleftrightarrow> is_ok (wait_to_timeout a)"

lemma cursor_next_run:
  "waits_forever a \<Longrightarrow> cursor_next p c a w = next_loop p (pending (cu_conn (cursor_of c w)) w + 2) c w"
  by (auto simp: cursor_next_def net_run waits_forever_def is_ok_iff)

lemma cursor_next_answers:
  assumes "delivers p c i q base msg b xs w" "waits_forever a"
  shows "answers (delivers p c i q base msg b) (finished c i base msg b) xs (cursor_next p c a w)"
proof -
  have q: "query_ok p q msg" using assms(1) by (simp add: delivers_def)
  consider (streaming) items bs fin where "pending_stream p c i q base msg b bs fin items w"
      "list_all (batch_ok p q) (fin # bs)" "xs = items @ map embed (concat bs @ fin)"
    | (over) m where "exhausted c i xs (asked base msg m) w" "m = b \<or> m = Suc b"
    using assms(1) unfolding delivers_def by blast
  then show ?thesis
  proof cases
    case streaming
    show ?thesis
      using next_loop_answers [OF streaming(1) q streaming(2) pending_fuel [OF streaming(1)]] streaming(3)
      by (simp add: cursor_next_run [OF assms(2)])
  next
    case over
    show ?thesis
      unfolding cursor_next_run [OF assms(2)]
      by (rule answers_mono [OF exhausted_next [OF over(1)] exhausted_delivers [OF _ over(2) q] exhausted_finished [OF _ over(2)]]) simp_all
  qed
qed

text \<open>Calling \<open>next\<close> a number of times.\<close>

fun take_items :: "proto \<Rightarrow> nat \<Rightarrow> nat \<Rightarrow> rval list net_io" where
  "take_items p c 0 = ret []"
| "take_items p c (Suc n) =
     bind (cursor_next p c (ABool True)) (\<lambda>x. bind (take_items p c n) (\<lambda>xs. ret (x # xs)))"

lemma waits_True [simp]: "waits_forever (ABool True)"
  by (simp add: waits_forever_def is_ok_iff)

lemma take_items_delivers:
  "delivers p c i q base msg b xs w
     \<Longrightarrow> \<exists>w'. take_items p c (length xs) w = (Inr xs, w') \<and> delivers p c i q base msg b [] w'"
proof (induction xs arbitrary: w)
  case (Cons x xs)
  obtain w1 where w1: "cursor_next p c (ABool True) w = (Inr x, w1)" "delivers p c i q base msg b xs w1"
    using cursor_next_answers [OF Cons.prems waits_True]
    by (cases "cursor_next p c (ABool True) w") (auto simp: answers_def)
  obtain w2 where "take_items p c (length xs) w1 = (Inr xs, w2)" "delivers p c i q base msg b [] w2"
    using Cons.IH [OF w1(2)] by blast
  then show ?case using w1(1) by (simp add: bind_def ret_def)
qed (simp add: ret_def)

subsection \<open>From the query to the cursor\<close>

definition conn_at :: "nat \<Rightarrow> int \<Rightarrow> byte list \<Rightarrow> nat \<Rightarrow> byte list \<Rightarrow> net \<Rightarrow> bool" where
  "conn_at i t arriving room done w \<longleftrightarrow>
     n_instance w = Some i \<and> i < length (n_insts w)
     \<and> in_header (inst_of i w) = None \<and> map_of (in_cache (inst_of i w)) t = None
     \<and> (\<exists>s. in_sock (inst_of i w) = Some s \<and> sock_ready s \<and> sock_arriving s = arriving
          \<and> room \<le> willing (sending s) \<and> sent s = done)"

lemma conn_at_room: "conn_at i t arr room don w \<Longrightarrow> room' \<le> room \<Longrightarrow> conn_at i t arr room' don w"
  by (auto simp: conn_at_def intro: order_trans)

lemma conn_send:
  assumes "conn_at i t arr room don w" "serialize p q (n_var w) = (Inr bytes, v)" "length bytes \<le> room"
  shows "\<exists>w'. send_query p i q w = (Inr (), w') \<and> conn_at i t arr (room - length bytes) (don @ bytes) w'"
proof -
  obtain s where s: "in_sock (inst_of i w) = Some s" "sock_ready s" "sock_arriving s = arr"
    "room \<le> willing (sending s)" "sent s = don" using assms(1) by (auto simp: conn_at_def)
  let ?w = "w\<lparr>n_var := v\<rparr>"
  have ser: "serialize_query p q w = (Inr bytes, ?w)" using assms(2) by (simp add: serialize_query_def)
  have inst: "inst_of i ?w = inst_of i w" by (simp add: inst_of_def)
  obtain es where "send_query p i q w = (Inr (), with_socket i (s\<lparr>sending := es, sent := sent s @ bytes\<rparr>) ?w)"
    "willing (sending s) \<le> willing es + length bytes"
    using send_query_run [OF s(1,2) _ ser inst] assms(3) s(4) by force
  then show ?thesis using assms(1) s inst by (auto simp: conn_at_def sock_ready_def sock_arriving_def)
qed

lemma conn_read:
  assumes "conn_at i (wtoken q) (frame (nat (wtoken q)) body @ later) room don w"
    and "0 \<le> wtoken q" "wtoken q < 2 ^ 63" "length body < 2 ^ 32"
    and res: "parse_response (formats_of q) (wtoken q) body = Inr res"
  shows "\<exists>w'. read_response_of p i q w = (Inr (Some res), w') \<and> conn_at i (wtoken q) later room don w'"
proof -
  let ?t = "nat (wtoken q)"
  obtain s where s: "in_sock (inst_of i w) = Some s" "sock_ready s" "sock_arriving s = frame ?t body @ later"
    "room \<le> willing (sending s)" "sent s = don" using assms(1) by (auto simp: conn_at_def)
  have "?t < 2 ^ 63" using assms(3) by simp
  then obtain es where r: "read_frame_of i w = (Inr (int ?t, body), with_socket i (s\<lparr>incoming := es\<rparr>) w)"
    and es: "bytes_before_stop es = later"
    using read_frame_of_run [of i w s ?t body later] assms(1,4) s by (auto simp: conn_at_def)
  let ?w = "with_socket i (s\<lparr>incoming := es\<rparr>) w"
  have "conn_at i (wtoken q) later room don ?w" using assms(1) s es by (auto simp: conn_at_def sock_ready_def sock_arriving_def)
  moreover have "guarded_read p i w = (Inr (wtoken q, body), ?w)" using r assms(2) by (simp add: guarded_read_def)
  then have "read_response_of p i q w = (Inr (Some res), ?w)"
    using assms(1) res
    by (simp add: read_response_of_def bind_def [of "guarded_read p i"] net_run conn_at_def ret_def)
  ultimately show ?thesis by blast
qed


text \<open>A new cursor, over a first batch with more to come.\<close>

lemma new_cursor_streams:
  assumes conn: "conn_at i (wtoken q) (stream_bytes p (nat (wtoken q)) bs fin @ later)
      ((length bs + 1) * (2 * length msg) + length msg) don w"
    and q: "query_ok p q msg" and bs: "list_all (batch_ok p q) (fin # bs)" "gapless (length js) bs"
  shows "\<exists>w'. new_cursor p i q (batch_response (wtoken q) (partial_of p) js) w = (Inr (length (n_cursors w)), w')
     \<and> delivers p (length (n_cursors w)) i q don msg (length bs + 1) (map embed (js @ concat bs @ fin)) w'"
proof -
  let ?c = "length (n_cursors w)" and ?arr = "stream_bytes p (nat (wtoken q)) bs fin @ later"
  let ?room = "(length bs + 1) * (2 * length msg)"
  let ?w = "set_inst i (\<lambda>n. n\<lparr>in_cache := dict_put (in_cache n) (wtoken q) ?c\<rparr>)
      (w\<lparr>n_cursors := n_cursors w @ [init_cursor i q]\<rparr>)"
  have inst: "inst_of i ?w = (inst_of i w)\<lparr>in_cache := dict_put (in_cache (inst_of i w)) (wtoken q) ?c\<rparr>"
    using conn by (simp add: inst_of_def set_inst_def conn_at_def)
  have cur: "cursor_of ?c ?w = init_cursor i q" by (simp add: cursor_of_def set_inst_def)
  have "stream_at ?c i q [] 0 1 ?arr (?room + length msg) (asked don msg 0) ?w"
    using conn inst cur unfolding stream_at_def conn_at_def by (simp add: dict_simps asked_def init_cursor_def)
  then have "stream_at ?c i q [] 0 1 ?arr (?room + length msg) (asked don msg (0 + 0)) ?w" by simp
  from waiting_fetch [OF this q] obtain w1 where fetch: "maybe_fetch_batch p ?c ?w = (Inr (), w1)"
    and st1: "stream_at ?c i q [] 1 1 ?arr ?room (asked don msg 1) w1"
    by auto
  obtain w2 where w2: "extend_internal p ?c (batch_response (wtoken q) (partial_of p) js) w1 = (Inr (), w2)"
    "stream_at ?c i q (map embed js) 1 (length js) ?arr ?room (asked don msg 1) w2"
    using internal_partial [OF st1, of p "wtoken q" js] by auto
  have "pending_stream p ?c i q don msg (length bs + 1) bs fin (map embed js) w2"
    using w2(2) bs(2) unfolding pending_stream_def
    by (intro exI [of _ 1] exI [of _ "length js"] exI [of _ 0] exI [of _ later]) simp
  then have "delivers p ?c i q don msg (length bs + 1) (map embed (js @ concat bs @ fin)) w2"
    using pending_delivers [OF _ q bs(1)] by fastforce
  moreover have "new_cursor p i q (batch_response (wtoken q) (partial_of p) js) w = (Inr ?c, w2)"
    using fetch w2(1)
    by (simp add: new_cursor_def net_run bind_def [of "maybe_fetch_batch p _"] bind_def [of "extend_internal p _ _"] ret_def)
  ultimately show ?thesis by blast
qed

lemma run_query_streams:
  assumes conn: "conn_at i (wtoken q) (frame (nat (wtoken q)) (batch_body (partial_of p) js)
        @ stream_bytes p (nat (wtoken q)) bs fin @ later)
      (length bytes + ((length bs + 1) * (2 * length msg) + length msg)) don w"
    and ser: "serialize p q (n_var w) = (Inr bytes, v)"
    and q: "query_ok p q msg" "partial_of p \<noteq> presponse p ''SUCCESS_ATOM''"
    and bs: "list_all (batch_ok p q) (js # fin # bs)" "gapless (length js) bs"
  shows "\<exists>c w'. run_query p i q False w = (Inr (Cur c), w')
     \<and> delivers p c i q (don @ bytes) msg (length bs + 1) (map embed (js @ concat bs @ fin)) w'"
proof -
  let ?room = "(length bs + 1) * (2 * length msg) + length msg" and ?res = "batch_response (wtoken q) (partial_of p) js"
  have t: "0 \<le> wtoken q" "wtoken q < 2 ^ 63" using q(1) by (auto simp: query_ok_def)
  have js: "length (batch_body (partial_of p) js) < 2 ^ 32" "\<forall>j \<in> set js. plain (formats_of q) j"
    using bs(1) by (auto simp: batch_ok_def)
  obtain w1 where send: "send_query p i q w = (Inr (), w1)" and c1: "conn_at i (wtoken q)
      (frame (nat (wtoken q)) (batch_body (partial_of p) js) @ stream_bytes p (nat (wtoken q)) bs fin @ later)
      ?room (don @ bytes) w1"
    using conn_send [OF conn ser] by auto
  obtain w2 where read: "read_response_of p i q w1 = (Inr (Some ?res), w2)"
    and c2: "conn_at i (wtoken q) (stream_bytes p (nat (wtoken q)) bs fin @ later) ?room (don @ bytes) w2"
    using conn_read [OF c1 t js(1) parse_batch [OF js(2)]] by blast
  obtain w3 where new: "new_cursor p i q ?res w2 = (Inr (length (n_cursors w2)), w3)"
    and d: "delivers p (length (n_cursors w2)) i q (don @ bytes) msg (length bs + 1) (map embed (js @ concat bs @ fin)) w3"
    using new_cursor_streams [OF c2 q(1) _ bs(2)] bs(1) by auto
  have "response_outcome p i q ?res w2 = (Inr (Cur (length (n_cursors w2))), w3)"
    using new q(2) by (simp add: response_outcome_def batch_response_def is_int_def partial_of_def
        bind_def [of "new_cursor p i q _"] maybe_profile_def ret_def)
  then have "run_query p i q False w = (Inr (Cur (length (n_cursors w2))), w3)"
    using send read by (simp add: run_query_def bind_def [of "send_query p i q"] bind_def [of "read_response_of p i q"])
  then show ?thesis using d by blast
qed


subsection \<open>Properties\<close>

text \<open>C8. A cursor is a queue.  While a stream's batches arrive on the socket of its connection, no two
  in a row empty, \<open>next\<close> takes the first of the values that are still to come, whatever batch it
  is in and however the network splits the bytes, and when there are none left it raises
  \<open>DefaultCursorEmpty\<close>, now and on every later call.\<close>

theorem next_refines_queue:
  assumes "delivers p c i q base msg b xs w" "is_ok (wait_to_timeout a)"
  shows "answers (delivers p c i q base msg b) (finished c i base msg b) xs (cursor_next p c a w)"
  using cursor_next_answers [OF assms(1)] assms(2) by (simp add: waits_forever_def)

text \<open>C2. A query with a stream for a result, of which no two batches in a row are empty
  (\<open>gapless\<close>; after two empty ones in a row the cursor waits for ever, \<open>empty_batches_hang\<close>), and whose values are
  plain data: it returns a cursor, and iterating over it gives the values of all batches in their order and then
  ends.  It takes one \<open>CONTINUE\<close> query per batch after the first, or one more, and nothing else is sent
  after the query itself.\<close>

theorem stream_in_order:
  assumes "conn_at i (wtoken q) (frame (nat (wtoken q)) (batch_body (partial_of p) js)
        @ stream_bytes p (nat (wtoken q)) bs fin @ later)
      (length bytes + ((length bs + 1) * (2 * length msg) + length msg)) don w"
    and "serialize p q (n_var w) = (Inr bytes, v)"
    and "query_ok p q msg" "partial_of p \<noteq> presponse p ''SUCCESS_ATOM''"
    and "list_all (batch_ok p q) (js # fin # bs)" "gapless (length js) bs"
    and "xs = map embed (js @ concat bs @ fin)"
  shows "\<exists>c w1 w2 w3 n. run_query p i q False w = (Inr (Cur c), w1)
     \<and> take_items p c (length xs) w1 = (Inr xs, w2)
     \<and> cursor_next p c (ABool True) w2 = (Inl (Raised empty_error), w3)
     \<and> map_option sent (in_sock (inst_of i w3)) = Some (don @ bytes @ concat (replicate n msg))
     \<and> (n = length bs + 1 \<or> n = length bs + 2)"
proof -
  obtain c w1 where run: "run_query p i q False w = (Inr (Cur c), w1)"
    and d1: "delivers p c i q (don @ bytes) msg (length bs + 1) xs w1"
    using run_query_streams [OF assms(1-6)] assms(7) by blast
  obtain w2 where take: "take_items p c (length xs) w1 = (Inr xs, w2)"
    and d2: "delivers p c i q (don @ bytes) msg (length bs + 1) [] w2"
    using take_items_delivers [OF d1] by blast
  obtain w3 where fin: "cursor_next p c (ABool True) w2 = (Inl (Raised empty_error), w3)"
    and d3: "finished c i (don @ bytes) msg (length bs + 1) w3"
    using cursor_next_answers [OF d2 waits_True]
    by (cases "cursor_next p c (ABool True) w2") (auto simp: answers_def)
  from d3 obtain n where "n = length bs + 1 \<or> n = length bs + 2" "exhausted c i [] (asked (don @ bytes) msg n) w3"
    unfolding finished_def by fastforce
  then show ?thesis
    using run take fin by (intro exI [of _ c] exI [of _ w1] exI [of _ w2] exI [of _ w3] exI [of _ n])
      (auto simp: exhausted_def asked_def)
qed


text \<open>A connection on which two batches of one value each and an empty last one will arrive.\<close>

definition query_example :: wire_query where
  "query_example = make_query 1 7 (Some (datum (AInt 2))) None"

definition next_bytes :: "byte list" where
  "next_bytes = le_bytes 8 7 @ le_bytes 4 (length ''[1]'') @ latin1 ''[1]''"

definition start_bytes :: "byte list" where
  "start_bytes = le_bytes 8 7 @ le_bytes 4 (length ''[1,2]'') @ latin1 ''[1,2]''"

definition arriving_example :: "byte list" where
  "arriving_example = frame 7 (batch_body (partial_of proto_numbers) [JNull])
     @ stream_bytes proto_numbers 7 [[JNull]] [] @ []"

definition streaming_example :: net where
  "streaming_example = net_example (Some (sock_example\<lparr>incoming := [Arrived arriving_example],
     sending := replicate 100 (Accepts 1)\<rparr>))"

lemma willing_replicate [simp]: "willing (replicate n (Accepts (Suc 0))) = n"
  by (induction n) auto

lemma serialize_examples:
  "serialize proto_numbers query_example n = (Inr start_bytes, n)"
  "frame_bytes proto_numbers (control_query proto_numbers ''CONTINUE'' 7) None = Inr next_bytes"
proof -
  have "utf8_encode ''[1,2]'' = latin1 ''[1,2]''" "utf8_encode ''[1]'' = latin1 ''[1]''"
    by (rule utf8_ascii, simp add: is_ascii_def code_point_def)+
  moreover have "json_text (JArr [JInt 1, JInt 2]) = ''[1,2]''" "json_text (JArr [JInt 1]) = ''[1]''"
    by (simp_all add: show_int_def show_nat.simps digit_char_def chr_def char_of_def bit_0 bit_Suc)
  ultimately show "serialize proto_numbers query_example n = (Inr start_bytes, n)"
    "frame_bytes proto_numbers (control_query proto_numbers ''CONTINUE'' 7) None = Inr next_bytes"
    by (simp_all del: json_text.simps add: serialize_def query_example_def make_query_def lift_res_def frame_bytes_def
        message_json_def datum_def get_data_def Let_def pack_header_def start_bytes_def next_bytes_def
        control_query_def proto_numbers_def)
qed

lemma batch_text_lengths:
  "length (batch_body 3 [JNull]) = 18" "length (batch_body 2 [JNull]) = 18"
  "length (batch_body 3 []) = 14" "length (batch_body 2 []) = 14"
proof -
  have "length (utf8_encode s) = length s" if "is_ascii s" for s using that by (simp add: utf8_ascii)
  then show "length (batch_body 3 [JNull]) = 18" "length (batch_body 2 [JNull]) = 18"
    "length (batch_body 3 []) = 14" "length (batch_body 2 []) = 14"
    by (simp_all add: batch_body_def batch_json_def show_int_def show_nat.simps digit_char_def chr_def char_of_def
        bit_0 bit_Suc quote_json_def escape_char_def is_ascii_def code_point_def)
qed

lemma batch_ok_examples: "batch_ok proto_numbers q [JNull]" "batch_ok proto_numbers q []"
  by (simp_all add: batch_ok_def plain_def partial_of_def sequence_of_def proto_numbers_def batch_text_lengths)

lemma query_ok_example: "query_ok proto_numbers query_example next_bytes"
  by (simp add: query_ok_def partial_of_def sequence_of_def query_example_def serialize_examples(2))
    (simp add: proto_numbers_def)

lemma streaming_example_conn: "conn_at 0 7 arriving_example 100 [] streaming_example"
  by (simp add: conn_at_def streaming_example_def net_example_def inst_of_def sock_ready_def sock_arriving_def
      sock_example_def arriving_example_def stream_bytes_def)

lemma next_bytes_length: "length next_bytes = 15" and start_bytes_length: "length start_bytes = 17"
  by (simp_all add: next_bytes_def start_bytes_def)

lemma run_example:
  "conn_at 0 (wtoken query_example) (frame (nat (wtoken query_example)) (batch_body (partial_of proto_numbers) [JNull])
        @ stream_bytes proto_numbers (nat (wtoken query_example)) [[JNull]] [] @ [])
      (length start_bytes + ((length [[JNull]] + 1) * (2 * length next_bytes) + length next_bytes)) [] streaming_example"
  "serialize proto_numbers query_example (n_var streaming_example) = (Inr start_bytes, 1)"
  "partial_of proto_numbers \<noteq> presponse proto_numbers ''SUCCESS_ATOM''"
proof -
  have "wtoken query_example = 7" by (simp add: query_example_def)
  then show "conn_at 0 (wtoken query_example) (frame (nat (wtoken query_example)) (batch_body (partial_of proto_numbers) [JNull])
        @ stream_bytes proto_numbers (nat (wtoken query_example)) [[JNull]] [] @ [])
      (length start_bytes + ((length [[JNull]] + 1) * (2 * length next_bytes) + length next_bytes)) [] streaming_example"
    using conn_at_room [OF streaming_example_conn] by (simp add: arriving_example_def next_bytes_length start_bytes_length)
  show "serialize proto_numbers query_example (n_var streaming_example) = (Inr start_bytes, 1)"
    by (simp add: serialize_examples streaming_example_def net_example_def)
qed (simp add: partial_of_def proto_numbers_def)

lemma delivers_example:
  "\<exists>c w. delivers proto_numbers c 0 query_example start_bytes next_bytes 2 [RNull, RNull] w"
  using run_query_streams [OF run_example(1,2) query_ok_example run_example(3)] by (force simp: batch_ok_examples numeral_2_eq_2)

theorem stream_in_order_witness:
  "\<exists>c w1 w2 w3 n. run_query proto_numbers 0 query_example False streaming_example = (Inr (Cur c), w1)
     \<and> take_items proto_numbers c (length [RNull, RNull]) w1 = (Inr [RNull, RNull], w2)
     \<and> cursor_next proto_numbers c (ABool True) w2 = (Inl (Raised empty_error), w3)
     \<and> map_option sent (in_sock (inst_of 0 w3)) = Some ([] @ start_bytes @ concat (replicate n next_bytes))
     \<and> (n = length [[JNull]] + 1 \<or> n = length [[JNull]] + 2)"
  by (rule stream_in_order [OF run_example(1,2) query_ok_example run_example(3)]) (simp_all add: batch_ok_examples)

theorem next_refines_queue_witness:
  "\<exists>c w. answers (delivers proto_numbers c 0 query_example start_bytes next_bytes 2)
     (finished c 0 start_bytes next_bytes 2) [RNull, RNull] (cursor_next proto_numbers c (AInt 5) w)"
proof -
  obtain c w where "delivers proto_numbers c 0 query_example start_bytes next_bytes 2 [RNull, RNull] w"
    using delivers_example by blast
  then have "answers (delivers proto_numbers c 0 query_example start_bytes next_bytes 2)
     (finished c 0 start_bytes next_bytes 2) [RNull, RNull] (cursor_next proto_numbers c (AInt 5) w)"
    by (rule next_refines_queue) (simp add: is_ok_iff)
  then show ?thesis by blast
qed

text \<open>Two empty batches in a row stop a cursor for good: after reading them it has no request
  outstanding and makes none, yet goes on to read, and what it would read is the answer to a
  request; if nothing else arrives it never returns.\<close>

theorem empty_batches_hang:
  assumes "stream_at c i q [] 1 th (frame (nat (wtoken q)) (batch_body (partial_of p) [])
        @ frame (nat (wtoken q)) (batch_body (partial_of p) []) @ later) (4 * length msg) (asked base msg 1) w"
    and "0 < th" "query_ok p q msg" "batch_ok p q []" "is_ok (wait_to_timeout a)"
  shows "\<exists>w' fuel. cursor_next p c a w = next_loop p fuel c w'
     \<and> stream_at c i q [] 0 0 later 0 (asked base msg 2) w' \<and> maybe_fetch_batch p c w' = (Inr (), w')
     \<and> (\<exists>s. in_sock (inst_of i w') = Some s
          \<and> (incoming s = [] \<longrightarrow> cursor_next p c a w' = (Inl Blocked, w')))"
proof -
  let ?f = "frame (nat (wtoken q)) (batch_body (partial_of p) [])"
  obtain fuel where fuel: "pending (cu_conn (cursor_of c w)) w + 2 = Suc (Suc fuel)" by auto
  have st: "stream_at c i q [] 1 th (?f @ ?f @ later) (4 * length msg) (asked base msg (0 + 1)) w"
    using assms(1) by simp
  obtain w1 where w1: "stream_at c i q [] 1 th (?f @ later) (2 * length msg) (asked base msg (0 + 1 + 1)) w1"
    "\<And>w2. extend_internal p c (batch_response (wtoken q) (partial_of p) []) w1 = (Inr (), w2)
        \<Longrightarrow> next_loop p (Suc (Suc fuel)) c w = next_loop p (Suc fuel) c w2"
    using next_loop_read [OF st _ assms(3) _ assms(4), of "Suc fuel"] assms(2) by auto
  obtain w2 where w2: "extend_internal p c (batch_response (wtoken q) (partial_of p) []) w1 = (Inr (), w2)"
    "stream_at c i q [] 1 0 (?f @ later) (2 * length msg) (asked base msg (1 + 1)) w2"
    using internal_partial [OF w1(1), of p "wtoken q" "[]"] by auto
  obtain w3 where w3: "stream_at c i q [] 0 0 later 0 (asked base msg (1 + 1 + 0)) w3"
    "\<And>w4. extend_internal p c (batch_response (wtoken q) (partial_of p) []) w3 = (Inr (), w4)
        \<Longrightarrow> next_loop p (Suc fuel) c w2 = next_loop p fuel c w4"
    using next_loop_read [OF w2(2) _ assms(3) _ assms(4), of fuel] by auto
  obtain w4 where w4: "extend_internal p c (batch_response (wtoken q) (partial_of p) []) w3 = (Inr (), w4)"
    "stream_at c i q [] 0 0 later 0 (asked base msg 2) w4"
    using internal_partial [OF w3(1), of p "wtoken q" "[]"] by (auto simp: numeral_2_eq_2)
  have quiet: "maybe_fetch_batch p c w4 = (Inr (), w4)" using w4(2) by (auto simp: stream_at_def fetch_quiet)
  obtain s where s: "in_sock (inst_of i w4) = Some s" "sock_ready s" using w4(2) by (auto simp: stream_at_def)
  have "cursor_next p c a w4 = (Inl Blocked, w4)" if "incoming s = []"
  proof -
    have "recvall 12 s = (Inl Blocked, s)" using s(2) that by (simp add: recvall_def sock_ready_def)
    then have "guarded_read p i w4 = (Inl Blocked, w4)"
      using s(1) w4(2) by (simp add: guarded_read_def read_frame_of_def read_header_def bind_bind net_run stream_at_def
          with_socket_same)
    then have "read_response_of p i q w4 = (Inl Blocked, w4)"
      by (simp add: read_response_of_def bind_def [of "guarded_read p i"])
    then show ?thesis
      using assms(5) w4(2) quiet
      by (simp add: cursor_next_run waits_forever_def next_loop.simps net_run bind_def [of "maybe_fetch_batch p c"]
          bind_def [of "read_response_of p i q"] stream_at_def)
  qed
  moreover have "cursor_next p c a w = next_loop p fuel c w4"
    using assms(5) w1(2) [OF w2(1)] w3(2) [OF w4(1)] fuel by (simp add: cursor_next_run waits_forever_def)
  ultimately show ?thesis using w4(2) quiet s(1) by blast
qed

definition hang_example :: net where
  "hang_example = (net_example None)\<lparr>
     n_insts := [\<lparr>in_cache = [(7, 0)], in_header = None, in_sock = Some (sock_example\<lparr>
        incoming := [Arrived (frame 7 (batch_body (partial_of proto_numbers) [])
          @ frame 7 (batch_body (partial_of proto_numbers) []))],
        sending := replicate 100 (Accepts 1), sent := asked [] next_bytes 1\<rparr>), in_closing = False\<rparr>],
     n_cursors := [\<lparr>cu_conn = 0, cu_query = query_example, cu_items = [], cu_outstanding = 1, cu_threshold = 1,
        cu_error = None\<rparr>]\<rparr>"

theorem empty_batches_hang_witness:
  "\<exists>w' fuel. cursor_next proto_numbers 0 (ABool True) hang_example = next_loop proto_numbers fuel 0 w'
     \<and> stream_at 0 0 query_example [] 0 0 [] 0 (asked [] next_bytes 2) w'
     \<and> maybe_fetch_batch proto_numbers 0 w' = (Inr (), w')
     \<and> (\<exists>s. in_sock (inst_of 0 w') = Some s
          \<and> (incoming s = [] \<longrightarrow> cursor_next proto_numbers 0 (ABool True) w' = (Inl Blocked, w')))"
proof (rule empty_batches_hang [where th = 1])
  show "stream_at 0 0 query_example [] 1 1 (frame (nat (wtoken query_example)) (batch_body (partial_of proto_numbers) [])
        @ frame (nat (wtoken query_example)) (batch_body (partial_of proto_numbers) []) @ [])
      (4 * length next_bytes) (asked [] next_bytes 1) hang_example"
    by (simp add: stream_at_def hang_example_def net_example_def inst_of_def cursor_of_def query_example_def
        sock_ready_def sock_arriving_def sock_example_def next_bytes_length)
qed (simp_all add: query_ok_example batch_ok_examples is_ok_iff)

end
