(* ===== verification/Closing.thy ===== *)
theory Closing
  imports Streams
begin

text \<open>
  How connections end: closing, a server that goes away, a response nobody asked for, and an
  attempt to connect again that fails.
\<close>

subsection \<open>Failing a cursor\<close>

definition closed_error :: "cursor \<Rightarrow> error" where
  "closed_error cu = reql_error ReqlRuntimeError ''Connection is closed.'' (wterm (cu_query cu)) (Some [])"

text \<open>What \<open>_error\<close> does to a cursor: nothing to one that has ended, and the values that have
  arrived stay.\<close>

definition failed_cursor :: "cursor \<Rightarrow> cursor" where
  "failed_cursor cu =
     (case cu_error cu of
        Some e \<Rightarrow> cu
      | None \<Rightarrow> cu\<lparr>cu_outstanding := cu_outstanding cu - 1, cu_threshold := 0, cu_error := Some (closed_error cu)\<rparr>)"

lemma failed_cursor_simps [simp]:
  "cu_items (failed_cursor cu) = cu_items cu" "cu_conn (failed_cursor cu) = cu_conn cu"
  "cu_query (failed_cursor cu) = cu_query cu" "cu_error (failed_cursor cu) \<noteq> None"
  "failed_cursor (failed_cursor cu) = failed_cursor cu"
  by (auto simp: failed_cursor_def split: option.splits)

lemma dummy_response_batch: "dummy_response p = batch_body (sequence_of p) []"
  by (simp add: dummy_response_def batch_body_def batch_json_def sequence_of_def quote_json_def escape_char_def code_point_def)

lemma parse_dummy: "parse_response opts t (dummy_response p) = Inr (batch_response t (sequence_of p) [])"
  unfolding dummy_response_batch by (rule parse_batch) simp

text \<open>The stores before and after.\<close>

definition with_cache :: "nat \<Rightarrow> (int, nat) dict \<Rightarrow> net \<Rightarrow> net" where
  "with_cache i d = set_inst i (\<lambda>n. n\<lparr>in_cache := d\<rparr>)"

lemma with_cache_same: "i < length (n_insts w) \<Longrightarrow> with_cache i (in_cache (inst_of i w)) w = w"
  by (simp add: with_cache_def set_inst_def inst_of_def)

lemma set_cursor_set_cursor [simp]:
  "c < length (n_cursors w) \<Longrightarrow> set_cursor c f (set_cursor c g w) = set_cursor c (\<lambda>cu. f (g cu)) w"
  by (simp add: set_cursor_def cursor_of_def)

lemma set_cursor_cong: "f (cursor_of c w) = g (cursor_of c w) \<Longrightarrow> set_cursor c f w = set_cursor c g w"
  by (simp add: set_cursor_def)

lemma set_cursor_same: "f (cursor_of c w) = cursor_of c w \<Longrightarrow> set_cursor c f w = w"
  by (cases "c < length (n_cursors w)") (simp_all add: set_cursor_def cursor_of_def list_update_beyond)

lemma cursor_fail_run:
  assumes "c < length (n_cursors w)" "i < length (n_insts w)" "cu_conn (cursor_of c w) = i"
    and "cu_error (cursor_of c w) = None \<Longrightarrow> map_of (in_cache (inst_of i w)) (wtoken (cu_query (cursor_of c w))) = Some c"
  shows "\<exists>d. cursor_fail p ''Connection is closed.'' c w = (Inr (), with_cache i d (set_cursor c failed_cursor w))
     \<and> (d = in_cache (inst_of i w)
        \<or> cu_error (cursor_of c w) = None \<and> d = dict_del (in_cache (inst_of i w)) (wtoken (cu_query (cursor_of c w))))"
proof (cases "cu_error (cursor_of c w)")
  case (Some e)
  then have "set_cursor c failed_cursor w = w" by (simp add: set_cursor_same failed_cursor_def)
  then show ?thesis
    using Some assms(2) by (auto simp: cursor_fail_def net_run ret_def with_cache_same)
next
  case None
  let ?cu = "cursor_of c w" and ?w = "set_cursor c failed_cursor w"
  let ?w1 = "set_cursor c (\<lambda>cu. cu\<lparr>cu_error := Some (closed_error cu), cu_outstanding := cu_outstanding cu - 1\<rparr>) w"
  have quiet: "maybe_fetch_batch p c ?w1 = (Inr (), ?w1)" using assms(1) by (simp add: fetch_quiet)
  have fail: "cursor_fail p ''Connection is closed.'' c w
      = extend_internal p c (batch_response (wtoken (cu_query ?cu)) (sequence_of p) []) ?w1"
    using None assms(1) quiet
    by (simp add: cursor_fail_def net_run closed_error_def extend_cursor_def bind_def [of "maybe_fetch_batch p c"] parse_dummy)
  have "extend_internal p c (batch_response t (sequence_of p) []) ?w1
      = (if cu_outstanding ?cu = 1 then forget_token i t ?w else (Inr (), ?w))" for t
  proof -
    have "set_cursor c (\<lambda>_. (cursor_of c w)\<lparr>cu_error := Some (closed_error ?cu), cu_outstanding := cu_outstanding ?cu - 1,
        cu_threshold := 0\<rparr>) w = ?w"
      by (rule set_cursor_cong) (simp add: failed_cursor_def None)
    then show ?thesis
      using assms(1,3) by (simp add: extend_internal_def net_run batch_response_def absorb_def ret_def)
  qed
  moreover have "forget_token i (wtoken (cu_query ?cu)) ?w
      = (Inr (), with_cache i (dict_del (in_cache (inst_of i w)) (wtoken (cu_query ?cu))) ?w)"
    using assms(4) [OF None] by (simp add: forget_token_def net_run modify_app with_cache_def set_inst_def)
  ultimately show ?thesis
    using fail None assms(2) with_cache_same [of i ?w] by (cases "cu_outstanding ?cu = 1") (auto intro: exI [of _ "in_cache (inst_of i w)"])
qed

text \<open>All cursors of an instance.\<close>

definition fail_all :: "nat list \<Rightarrow> net \<Rightarrow> net" where
  "fail_all cs w = foldl (\<lambda>w c. set_cursor c failed_cursor w) w cs"

lemma fail_all_Cons: "fail_all (c # cs) w = fail_all cs (set_cursor c failed_cursor w)"
  by (simp add: fail_all_def)

lemma fail_all_frame [simp]:
  "n_insts (fail_all cs w) = n_insts w" "length (n_cursors (fail_all cs w)) = length (n_cursors w)"
  "n_instance (fail_all cs w) = n_instance w" "n_next_token (fail_all cs w) = n_next_token w"
  by (induction cs arbitrary: w) (simp_all add: fail_all_def)

lemma cursor_of_fail_all:
  "c < length (n_cursors w) \<Longrightarrow> cursor_of c (fail_all cs w) = (if c \<in> set cs then failed_cursor (cursor_of c w) else cursor_of c w)"
  by (induction cs arbitrary: w) (auto simp: fail_all_def cursor_of_set_cursor)

definition cached :: "nat \<Rightarrow> nat \<Rightarrow> net \<Rightarrow> bool" where
  "cached i c w \<longleftrightarrow> c < length (n_cursors w) \<and> cu_conn (cursor_of c w) = i
     \<and> (cu_error (cursor_of c w) = None \<longrightarrow> map_of (in_cache (inst_of i w)) (wtoken (cu_query (cursor_of c w))) = Some c)"

lemma with_cache_frame [simp]:
  "length (n_insts (with_cache i d w)) = length (n_insts w)" "n_cursors (with_cache i d w) = n_cursors w"
  "cursor_of c (with_cache i d w) = cursor_of c w" "n_instance (with_cache i d w) = n_instance w"
  "n_next_token (with_cache i d w) = n_next_token w"
  by (simp_all add: with_cache_def)

lemma set_cursor_set_inst: "set_cursor c f (set_inst i g w) = set_inst i g (set_cursor c f w)"
  by (simp add: set_cursor_def set_inst_def cursor_of_def inst_of_def)

lemma fail_all_set_inst: "fail_all cs (set_inst i g w) = set_inst i g (fail_all cs w)"
  by (induction cs arbitrary: w) (simp_all add: fail_all_def set_cursor_set_inst)

lemma fail_all_with_cache: "fail_all cs (with_cache i d w) = with_cache i d (fail_all cs w)"
  by (simp add: with_cache_def fail_all_set_inst)

lemma with_cache_with_cache [simp]: "with_cache i d (with_cache i d' w) = with_cache i d w"
  by (cases "i < length (n_insts w)") (simp_all add: with_cache_def set_inst_def inst_of_def list_update_beyond)

lemma cursors_fail_run:
  assumes "i < length (n_insts w)" "\<forall>c \<in> set cs. cached i c w"
  shows "\<exists>d us. seqs (map (cursor_fail p ''Connection is closed.'') cs) w = (Inr us, with_cache i d (fail_all cs w))"
  using assms
proof (induction cs arbitrary: w)
  case Nil
  then show ?case using with_cache_same [of i w] by (metis fail_all_def foldl_Nil list.simps(8) ret_def seqs.simps(1))
next
  case (Cons c cs)
  have c: "cached i c w" using Cons.prems(2) by simp
  let ?w = "set_cursor c failed_cursor w"
  obtain d where d: "cursor_fail p ''Connection is closed.'' c w = (Inr (), with_cache i d ?w)"
    and dd: "d = in_cache (inst_of i w)
        \<or> cu_error (cursor_of c w) = None \<and> d = dict_del (in_cache (inst_of i w)) (wtoken (cu_query (cursor_of c w)))"
    using cursor_fail_run [of c w i p] c Cons.prems(1) by (auto simp: cached_def)
  have "cached i c' (with_cache i d ?w)" if c': "c' \<in> set cs" for c'
  proof (cases "c' = c")
    case True
    then show ?thesis using c by (simp add: cached_def)
  next
    case False
    have "cached i c' w" using Cons.prems(2) c' by simp
    then show ?thesis
      using False dd c Cons.prems(1) by (auto simp: cached_def cursor_of_set_cursor with_cache_def dict_simps)
  qed
  then obtain d' us where "seqs (map (cursor_fail p ''Connection is closed.'') cs) (with_cache i d ?w)
      = (Inr us, with_cache i d' (fail_all cs (with_cache i d ?w)))"
    using Cons.IH [of "with_cache i d ?w"] Cons.prems(1) by auto
  then show ?case
    using d by (auto simp: bind_def ret_def fail_all_with_cache fail_all_Cons)
qed

subsection \<open>Closing an instance\<close>

lemma cache_wf_cached:
  assumes "cache_wf i w" "c \<in> set (map snd (in_cache (inst_of i w)))"
  shows "cached i c w"
proof -
  obtain t where "(t, c) \<in> set (in_cache (inst_of i w))" using assms(2) by auto
  then have "map_of (in_cache (inst_of i w)) t = Some c" using assms(1) by (simp add: cache_wf_def)
  then show ?thesis using assms(1) by (auto simp: cache_wf_def cached_def)
qed

lemma inst_of_fail_all [simp]: "inst_of i (fail_all cs w) = inst_of i w"
  by (simp add: inst_of_def)

definition closing_inst :: "nat \<Rightarrow> net \<Rightarrow> net" where
  "closing_inst i = set_inst i (\<lambda>n. n\<lparr>in_closing := True, in_cache := []\<rparr>)"

lemma close_cursors_run:
  assumes "cache_wf i w" "i < length (n_insts w)"
  shows "close_cursors p i w
    = (Inr (), closing_inst i (fail_all (map snd (in_cache (inst_of i w))) w))"
proof -
  let ?cs = "map snd (in_cache (inst_of i w))" and ?w = "set_inst i (\<lambda>n. n\<lparr>in_closing := True\<rparr>) w"
  have "\<forall>c \<in> set ?cs. cached i c ?w"
    using cache_wf_cached [OF assms(1)] assms(2) by (simp add: cached_def)
  then obtain d us where run: "seqs (map (cursor_fail p ''Connection is closed.'') ?cs) ?w
      = (Inr us, with_cache i d (fail_all ?cs ?w))"
    using cursors_fail_run [of i ?w ?cs p] assms(2) by auto
  then show ?thesis
    using assms(2)
    by (simp add: fail_all_set_inst close_cursors_def net_run bind_def [of "seqs _"] modify_app with_cache_def closing_inst_def)
qed

text \<open>The instance after \<open>close()\<close>, and its cursors.\<close>

definition closed_inst :: "nat \<Rightarrow> sock \<Rightarrow> net \<Rightarrow> net" where
  "closed_inst i s w =
     set_inst i (\<lambda>n. \<lparr>in_cache = [], in_header = None, in_sock = Some (sock_close s), in_closing = True\<rparr>)
       (fail_all (map snd (in_cache (inst_of i w))) w)"

lemma finish_close_run:
  assumes "in_sock (inst_of i w) = Some s"
  shows "finish_close i w = (Inr (), set_inst i (\<lambda>n. n\<lparr>in_header := None\<rparr>) (with_socket i (sock_close s) w))"
  using assms by (simp add: finish_close_def net_run modify_app)

lemma instance_drop_run:
  assumes "cache_wf i w" "i < length (n_insts w)" "in_sock (inst_of i w) = Some s"
  shows "instance_drop p i w = (Inr (), closed_inst i s w)"
proof -
  let ?w = "fail_all (map snd (in_cache (inst_of i w))) w"
  have "in_sock (inst_of i (closing_inst i ?w)) = Some s" using assms(2,3) by (simp add: closing_inst_def)
  from finish_close_run [OF this] show ?thesis
    using close_cursors_run [OF assms(1,2), of p] assms(2)
    by (simp add: instance_drop_def bind_def closing_inst_def closed_inst_def) (rule set_inst_cong, simp)
qed

lemma closed_inst_frame [simp]:
  "n_instance (closed_inst i s w) = n_instance w" "n_next_token (closed_inst i s w) = n_next_token w"
  "length (n_cursors (closed_inst i s w)) = length (n_cursors w)" "length (n_insts (closed_inst i s w)) = length (n_insts w)"
  by (simp_all add: closed_inst_def)

lemma closed_inst_same:
  "i < length (n_insts w) \<Longrightarrow> inst_of i (closed_inst i s w)
     = \<lparr>in_cache = [], in_header = None, in_sock = Some (sock_close s), in_closing = True\<rparr>"
  by (simp add: closed_inst_def)

lemma closed_inst_cursor:
  assumes "cache_wf i w" "map_of (in_cache (inst_of i w)) t = Some c"
  shows "cursor_of c (closed_inst i s w) = failed_cursor (cursor_of c w)"
proof -
  have "c < length (n_cursors w)" using assms by (simp add: cache_wf_def)
  moreover have "c \<in> set (map snd (in_cache (inst_of i w)))"
    using map_of_SomeD [OF assms(2)] by force
  ultimately show ?thesis by (simp only: closed_inst_def set_inst_frame cursor_of_fail_all if_True)
qed

lemma instance_close_now: "instance_close p i False t = instance_drop p i"
proof (rule ext)
  fix w
  have "finally_do (ret ()) (finish_close i) = finish_close i"
    by (rule ext) (auto simp: finally_do_def ret_def split: prod.splits sum.splits)
  then show "instance_close p i False t w = instance_drop p i w" by (simp add: instance_close_def instance_drop_def)
qed

lemma connection_close_run:
  assumes "wf_net w" "n_instance w = Some i" "in_sock (inst_of i w) = Some s"
  shows "connection_close p False w = (Inr (), closed_inst i s (w\<lparr>n_instance := None, n_next_token := 0\<rparr>))"
proof -
  let ?w = "w\<lparr>n_instance := None, n_next_token := 0\<rparr>"
  have det: "detach w = (Inr (Some (i, n_next_token w)), ?w)"
    using assms(2) by (simp add: detach_def net_run bind_def [of new_token] new_token_run ret_def)
  have "inst_of i ?w = inst_of i w" "cache_wf i ?w = cache_wf i w"
    by (simp_all add: cache_wf_def inst_of_def cursor_of_def)
  then have "instance_drop p i ?w = (Inr (), closed_inst i s ?w)"
    using assms by (intro instance_drop_run) (auto simp: wf_net_def)
  then show ?thesis using det by (simp add: connection_close_def bind_def [of detach] instance_close_now)
qed

subsection \<open>Properties\<close>

text \<open>C23. Closing without waiting always succeeds on a connection that has a socket: the instance is
  taken off the connection, its socket is closed and its cache emptied; each of its cursors keeps
  the values it has and ends with the error of a closed connection, unless it had ended before;
  and the connection refuses the next query.\<close>

theorem close_ends_cursors:
  assumes "wf_net w" "n_instance w = Some i" "in_sock (inst_of i w) = Some s"
  shows "\<exists>w'. connection_close p False w = (Inr (), w') \<and> n_instance w' = None \<and> n_next_token w' = 0
     \<and> inst_of i w' = \<lparr>in_cache = [], in_header = None, in_sock = Some (sock_close s), in_closing = True\<rparr>
     \<and> (\<forall>t c. map_of (in_cache (inst_of i w)) t = Some c \<longrightarrow>
          cu_items (cursor_of c w') = cu_items (cursor_of c w)
          \<and> cu_error (cursor_of c w') = (case cu_error (cursor_of c w) of
               None \<Rightarrow> Some (closed_error (cursor_of c w)) | Some e \<Rightarrow> Some e))
     \<and> start_query p q opts w' = (Inl (Raised connection_closed), w')"
proof -
  let ?w = "w\<lparr>n_instance := None, n_next_token := 0\<rparr>"
  have same: "inst_of i ?w = inst_of i w" "cursor_of c ?w = cursor_of c w" for c by (simp_all add: inst_of_def cursor_of_def)
  then have i: "i < length (n_insts ?w)" "cache_wf i ?w" using assms(1,2) by (auto simp: wf_net_def cache_wf_def)
  have "check_open (closed_inst i s ?w) = (Inl (Raised connection_closed), closed_inst i s ?w)"
    by (simp add: check_open_def net_run fail_def raise_def)
  then have "start_query p q opts (closed_inst i s ?w) = (Inl (Raised connection_closed), closed_inst i s ?w)"
    by (simp add: start_query_def bind_def)
  moreover have "cursor_of c (closed_inst i s ?w) = failed_cursor (cursor_of c w)"
    if "map_of (in_cache (inst_of i w)) t = Some c" for t c
    using closed_inst_cursor [OF i(2)] that same by simp
  ultimately show ?thesis
    using connection_close_run [OF assms, of p] closed_inst_same [OF i(1), of s]
    by (intro exI [of _ "closed_inst i s ?w"]) (auto simp: failed_cursor_def split: option.splits)
qed

definition cursor_example :: cursor where
  "cursor_example = \<lparr>cu_conn = 0, cu_query = query_example, cu_items = [], cu_outstanding = 1, cu_threshold = 1,
     cu_error = None\<rparr>"

definition closing_example :: "recv_event list \<Rightarrow> net" where
  "closing_example es = (net_example None)\<lparr>n_next_token := 8,
     n_insts := [\<lparr>in_cache = [(7, 0)], in_header = None, in_sock = Some (sock_example\<lparr>incoming := es\<rparr>),
        in_closing = False\<rparr>],
     n_cursors := [cursor_example]\<rparr>"

lemma closing_example_wf: "wf_net (closing_example es)"
  by (auto simp: wf_net_def cache_wf_def tokens_below_def closing_example_def net_example_def inst_of_def cursor_of_def
      cursor_example_def query_example_def split: if_splits)

theorem close_ends_cursors_witness:
  "\<exists>w'. connection_close proto_numbers False (closing_example []) = (Inr (), w') \<and> n_instance w' = None
     \<and> n_next_token w' = 0
     \<and> inst_of 0 w' = \<lparr>in_cache = [], in_header = None, in_sock = Some (sock_close (sock_example\<lparr>incoming := []\<rparr>)),
          in_closing = True\<rparr>
     \<and> (\<forall>t c. map_of (in_cache (inst_of 0 (closing_example []))) t = Some c \<longrightarrow>
          cu_items (cursor_of c w') = cu_items (cursor_of c (closing_example []))
          \<and> cu_error (cursor_of c w') = (case cu_error (cursor_of c (closing_example [])) of
               None \<Rightarrow> Some (closed_error (cursor_of c (closing_example []))) | Some e \<Rightarrow> Some e))
     \<and> start_query proto_numbers (datum ANone) [] w' = (Inl (Raised connection_closed), w')"
  by (rule close_ends_cursors [OF closing_example_wf])
    (simp_all add: closing_example_def net_example_def inst_of_def)

text \<open>A response with a token that neither the query nor any cursor of the connection has is
  never used: the instance is closed, its cursors end with an error, and the driver's error is
  raised.\<close>

theorem stray_response_closes:
  assumes "wf_net w" "n_instance w = Some i" "in_header (inst_of i w) = None" "\<not> in_closing (inst_of i w)"
    and "in_sock (inst_of i w) = Some s" "sock_ready s" "sock_arriving s = frame t body @ later"
    and "t < 2 ^ 63" "length body < 2 ^ 32"
    and "int t \<noteq> wtoken q" "map_of (in_cache (inst_of i w)) (int t) = None"
  shows "\<exists>w' s'. read_response_of p i q w = (Inl (Raised unexpected_response), w')
     \<and> inst_of i w' = \<lparr>in_cache = [], in_header = None, in_sock = Some s', in_closing = True\<rparr> \<and> \<not> sopen s'
     \<and> (\<forall>t c. map_of (in_cache (inst_of i w)) t = Some c \<longrightarrow> cu_error (cursor_of c w') \<noteq> None)"
proof -
  have i: "i < length (n_insts w)" "cache_wf i w" using assms(1,2) by (auto simp: wf_net_def)
  obtain es where read: "read_frame_of i w = (Inr (int t, body), with_socket i (s\<lparr>incoming := es\<rparr>) w)"
    using read_frame_of_run [OF i(1) assms(3,5-9)] by blast
  let ?w = "with_socket i (s\<lparr>incoming := es\<rparr>) w"
  have wf: "cache_wf i ?w" using i by (simp add: cache_wf_def)
  have sock: "in_sock (inst_of i ?w) = Some (s\<lparr>incoming := es\<rparr>)" "i < length (n_insts ?w)" using i by simp_all
  have drop: "instance_drop p i ?w = (Inr (), closed_inst i (s\<lparr>incoming := es\<rparr>) ?w)"
    by (rule instance_drop_run [OF wf sock(2,1)])
  have g: "guarded_read p i w = (Inr (int t, body), ?w)" using read by (simp add: guarded_read_def)
  have "read_response_of p i q w = (Inl (Raised unexpected_response), closed_inst i (s\<lparr>incoming := es\<rparr>) ?w)"
    using g drop assms(4,10,11) i(1)
    by (simp add: read_response_of_def bind_def [of "guarded_read p i"] net_run bind_def [of "instance_drop p i"]
        fail_def raise_def)
  moreover have "cu_error (cursor_of c (closed_inst i (s\<lparr>incoming := es\<rparr>) ?w)) \<noteq> None"
    if "map_of (in_cache (inst_of i w)) t = Some c" for t c
    using closed_inst_cursor [OF wf, of t c] that i(1) by simp
  ultimately show ?thesis using closed_inst_same [OF sock(2), of "s\<lparr>incoming := es\<rparr>"] by auto
qed

theorem stray_response_closes_witness:
  "\<exists>w' s'. read_response_of proto_numbers 0 query_example (closing_example [Arrived (frame 3 [1] @ [])])
       = (Inl (Raised unexpected_response), w')
     \<and> inst_of 0 w' = \<lparr>in_cache = [], in_header = None, in_sock = Some s', in_closing = True\<rparr> \<and> \<not> sopen s'
     \<and> (\<forall>t c. map_of (in_cache (inst_of 0 (closing_example [Arrived (frame 3 [1] @ [])]))) t = Some c
          \<longrightarrow> cu_error (cursor_of c w') \<noteq> None)"
  by (rule stray_response_closes [OF closing_example_wf, where t = 3 and body = "[1]" and later = "[]"
        and s = "sock_example\<lparr>incoming := [Arrived (frame 3 [1] @ [])]\<rparr>"])
    (simp_all add: closing_example_def net_example_def inst_of_def sock_ready_def sock_arriving_def sock_example_def
      query_example_def)

text \<open>A server that goes away: \<open>next\<close> on a cursor that waits for it raises the driver's error of a
  closed connection and the socket is closed; but the cursor has no error, and the same call made
  again raises an \<open>AttributeError\<close> about the socket that is gone.\<close>

theorem next_after_server_gone:
  assumes "i < length (n_insts w)" "cursor_of c w = cu" "cu_conn cu = i" "cu_items cu = []" "cu_error cu = None"
    and "cu_outstanding cu \<noteq> 0" "in_header (inst_of i w) = None" "in_sock (inst_of i w) = Some s"
    and "sock_ready s" "incoming s = Arrived [] # es" "is_ok (wait_to_timeout a)"
  shows "\<exists>w1. cursor_next p c a w = (Inl (Raised connection_closed), w1)
     \<and> in_sock (inst_of i w1) = Some (sock_close s) \<and> cu_error (cursor_of c w1) = None
     \<and> cursor_next p c a w1 = (Inl (Raised (py_exc PyAttributeError (no_socket ''settimeout''))), w1)"
proof -
  have next_fails: "cursor_next p c a w = (Inl (Raised e), with_socket i s' w)"
    if "in_sock (inst_of i w) = Some s" "recvall 12 s = (Inl (Raised e), s')" "\<not> caught_by [PyKeyboardInterrupt] e"
      "cursor_of c w = cu" "in_header (inst_of i w) = None" for w s s' e
  proof -
    have "guarded_read p i w = (Inl (Raised e), with_socket i s' w)"
      using that by (simp add: guarded_read_def read_frame_of_def read_header_def bind_bind net_run)
    then have "read_response_of p i (cu_query cu) w = (Inl (Raised e), with_socket i s' w)"
      by (simp add: read_response_of_def bind_def [of "guarded_read p i"])
    moreover have "maybe_fetch_batch p c w = (Inr (), w)" using that(4) assms(6) by (simp add: fetch_quiet)
    ultimately show ?thesis
      using assms(3-5,11) that(4)
      by (simp add: cursor_next_run waits_forever_def next_loop.simps net_run bind_def [of "maybe_fetch_batch p c"]
          bind_def [of "read_response_of p i (cu_query cu)"])
  qed
  let ?w = "with_socket i (sock_close s) w"
  have "sock_close (s\<lparr>incoming := Arrived [] # es\<rparr>) = sock_close s" using assms(10) by (cases s) simp
  then have "recvall 12 s = (Inl (Raised connection_closed), sock_close s)"
    using assms(9,10) by (simp add: recvall_def sock_ready_def)
  moreover have "\<not> caught_by [PyKeyboardInterrupt] connection_closed"
    by (simp add: connection_closed_def driver_error_def caught_by_def issubclass_code)
  ultimately have 1: "cursor_next p c a w = (Inl (Raised connection_closed), ?w)"
    using next_fails [OF assms(8)] assms(2,7) by blast
  have 2: "recvall 12 (sock_close s) = (Inl (Raised (py_exc PyAttributeError (no_socket ''settimeout''))), sock_close s)"
    by (simp add: recvall_def)
  have 3: "\<not> caught_by [PyKeyboardInterrupt] (py_exc PyAttributeError m)" for m
    by (simp add: py_exc_def caught_by_def issubclass_code)
  have "in_sock (inst_of i ?w) = Some (sock_close s)" "in_header (inst_of i ?w) = None" "cursor_of c ?w = cu"
    using assms(1,2,7) by simp_all
  from next_fails [OF this(1) 2 3 this(3,2)] show ?thesis
    using 1 assms(1,2,5) with_socket_same [OF \<open>in_sock (inst_of i ?w) = Some (sock_close s)\<close>] by auto
qed

theorem next_after_server_gone_witness:
  "\<exists>w1. cursor_next proto_numbers 0 (ABool True) (closing_example [Arrived []]) = (Inl (Raised connection_closed), w1)
     \<and> in_sock (inst_of 0 w1) = Some (sock_close (sock_example\<lparr>incoming := [Arrived []]\<rparr>))
     \<and> cu_error (cursor_of 0 w1) = None
     \<and> cursor_next proto_numbers 0 (ABool True) w1
         = (Inl (Raised (py_exc PyAttributeError (no_socket ''settimeout''))), w1)"
  by (rule next_after_server_gone [where cu = cursor_example and es = "[]"])
    (simp_all add: closing_example_def net_example_def inst_of_def cursor_of_def cursor_example_def sock_ready_def
      sock_example_def is_ok_iff)

text \<open>An attempt to connect that fails leaves the connection unusable in a way its own methods
  do not expect: the instance is there but has no socket, so \<open>is_open\<close>, every query, and
  \<open>close\<close> raise an \<open>AttributeError\<close>; after that \<open>close\<close> the connection counts as closed again.\<close>

theorem failed_connect_breaks:
  assumes "n_instance w = None" "n_dials w = (d, random) # ds"
    and "connect_socket (n_end w) random d = (Inl (Raised x), h, left)"
  shows "\<exists>w1 w2. reconnect p nw w = (Inl (Raised x), w1)
     \<and> conn_is_open w1 = (Inl (Raised (py_exc PyAttributeError (no_socket ''is_open''))), w1)
     \<and> start_query p q opts w1 = (Inl (Raised (py_exc PyAttributeError (no_socket ''is_open''))), w1)
     \<and> connection_close p False w1 = (Inl (Raised (py_exc PyAttributeError (no_socket ''close''))), w2)
     \<and> conn_is_open w2 = (Inr False, w2)"
proof -
  let ?i = "length (n_insts w)"
  let ?w0 = "w\<lparr>n_insts := n_insts w @ [new_inst], n_instance := Some ?i\<rparr>"
  obtain w1 where run: "inst_connect ?i ?w0 = (Inl (Raised x), w1)"
    and w1: "n_instance w1 = Some ?i" "n_insts w1 = n_insts w @ [new_inst]"
    using assms(2,3) by (simp add: inst_connect_def Let_def)
  have "open_instance w = (Inl (Raised x), w1)" using run by (simp add: open_instance_def net_run)
  then have 1: "reconnect p nw w = (Inl (Raised x), w1)"
    using assms(1) by (simp add: reconnect_def connection_close_def detach_def bind_bind net_run)
  have inst: "inst_of ?i w1 = new_inst" using w1(2) by (simp add: inst_of_def)
  have none: "in_sock (inst_of ?i w1) = None" "in_cache (inst_of ?i w1) = []" by (simp_all add: inst new_inst_def)
  have 2: "conn_is_open w1 = (Inl (Raised (py_exc PyAttributeError (no_socket ''is_open''))), w1)"
    using w1(1) none by (simp add: conn_is_open_def net_run inst_is_open_def on_sock_app)
  have "check_open w1 = (Inl (Raised (py_exc PyAttributeError (no_socket ''is_open''))), w1)"
    using w1(1) none by (simp add: check_open_def net_run inst_is_open_def)
  then have 3: "start_query p q opts w1 = (Inl (Raised (py_exc PyAttributeError (no_socket ''is_open''))), w1)"
    by (simp add: start_query_def bind_def)
  let ?w1 = "w1\<lparr>n_instance := None, n_next_token := 0\<rparr>"
  have det: "detach w1 = (Inr (Some (?i, n_next_token w1)), ?w1)"
    using w1(1) by (simp add: detach_def net_run bind_def [of new_token] new_token_run ret_def)
  have inst': "inst_of ?i ?w1 = new_inst" using inst by (simp add: inst_of_def)
  have i: "?i < length (n_insts ?w1)" using w1(2) by simp
  have cl: "close_cursors p ?i ?w1 = (Inr (), closing_inst ?i (fail_all [] ?w1))"
    using close_cursors_run [of ?i ?w1 p] inst' i by (simp add: cache_wf_def new_inst_def)
  let ?w2 = "closing_inst ?i (fail_all [] ?w1)"
  have "in_sock (inst_of ?i ?w2) = None" using inst' i by (simp add: closing_inst_def new_inst_def)
  then have "finish_close ?i ?w2 = (Inl (Raised (py_exc PyAttributeError (no_socket ''close''))), ?w2)"
    by (simp add: finish_close_def bind_on_sock)
  then have 4: "connection_close p False w1 = (Inl (Raised (py_exc PyAttributeError (no_socket ''close''))), ?w2)"
    using det cl by (simp add: connection_close_def bind_def [of detach] instance_close_now instance_drop_def
        bind_def [of "close_cursors p _"])
  have "conn_is_open ?w2 = (Inr False, ?w2)"
    by (simp add: conn_is_open_def net_run closing_inst_def ret_def)
  then show ?thesis using 1 2 3 4 by blast
qed

theorem failed_connect_breaks_witness:
  "\<exists>w1 w2. reconnect proto_numbers True ((net_example None)\<lparr>n_instance := None, n_dials := [(DialFails ''refused'', [])]\<rparr>)
       = (Inl (Raised (could_not_connect (n_end (net_example None)) ''refused'')), w1)
     \<and> conn_is_open w1 = (Inl (Raised (py_exc PyAttributeError (no_socket ''is_open''))), w1)
     \<and> start_query proto_numbers (datum ANone) [] w1 = (Inl (Raised (py_exc PyAttributeError (no_socket ''is_open''))), w1)
     \<and> connection_close proto_numbers False w1 = (Inl (Raised (py_exc PyAttributeError (no_socket ''close''))), w2)
     \<and> conn_is_open w2 = (Inr False, w2)"
proof (rule failed_connect_breaks)
  have x: "exc_text (py_exc PyOSError ''refused'') = ''refused''" by (simp add: exc_text_def exc_str_def py_exc_def)
  show "connect_socket (n_end ((net_example None)\<lparr>n_instance := None, n_dials := [(DialFails ''refused'', [])]\<rparr>)) []
        (DialFails ''refused'')
      = (Inl (Raised (could_not_connect (n_end (net_example None)) ''refused'')), ehandshake (n_end (net_example None)), None)"
    using x by (simp add: connect_socket_def failed_connect_def connect_failure_def caught_by_def issubclass_code Let_def
        could_not_connect_def)
qed (simp_all add: net_example_def)

end
