(* ===== verification/Asyncio.thy ===== *)
theory Asyncio
  imports Closing
begin

text \<open>
  The driver for \<open>asyncio\<close>, \<open>rethinkdb/asyncio_net/net_asyncio.py\<close>: an instance over its life
  after connecting, with its reader task, the futures that queries wait for, and the tasks that
  ask for batches.

  The event loop runs one coroutine at a time, from one \<open>await\<close> to the next; such a stretch is
  one step of a transition system, and the loop may take any step that can be taken.  Futures
  and cursors live in stores; a coroutine that awaits a future is not in the state, what matters
  is the future.  Waiting for a batch is a loop that looks at the cursor whenever it is woken,
  so it is a step that may be taken at any time.  Writing to a transport that is closed is
  not an error: the data is dropped.
\<close>

subsection \<open>State\<close>

datatype future = Pending | Done outcome | Failed error | Cancelled

datatype reader = AtHeader | AtBody int nat | Ended

record aio =
  a_attached :: bool
  a_closing :: bool
  a_cache :: "(int, nat) dict"
  a_queries :: "(int, wire_query \<times> nat) dict"
  a_cursors :: "cursor list"
  a_futures :: "future list"
  a_made :: "(wire_query \<times> bool) list"
  a_tasks :: "wire_query list"
  a_closers :: "nat list"
  a_reader :: reader
  a_buffer :: "byte list"
  a_eof :: bool
  a_writer_open :: bool
  a_written :: "byte list"
  a_next_token :: int
  a_var :: int

type_synonym 'a aio_io = "(aio, error, 'a) comp"

definition a_gets :: "(aio \<Rightarrow> 'a) \<Rightarrow> 'a aio_io" where
  "a_gets f = (\<lambda>w. (Inr (f w), w))"

definition a_modify :: "(aio \<Rightarrow> aio) \<Rightarrow> unit aio_io" where
  "a_modify f = (\<lambda>w. (Inr (), f w))"

definition a_cursor :: "nat \<Rightarrow> aio \<Rightarrow> cursor" where
  "a_cursor c w = a_cursors w ! c"

definition a_set_cursor :: "nat \<Rightarrow> (cursor \<Rightarrow> cursor) \<Rightarrow> aio \<Rightarrow> aio" where
  "a_set_cursor c f w = w\<lparr>a_cursors := (a_cursors w)[c := f (a_cursor c w)]\<rparr>"

subsection \<open>Queries\<close>

text \<open>\<open>is_open\<close> of the instance, and \<open>check_open\<close> of the connection it belongs or belonged to.\<close>

definition a_open :: "aio \<Rightarrow> bool" where
  "a_open w \<longleftrightarrow> \<not> (a_closing w \<or> a_eof w \<and> a_buffer w = [])"

definition a_check_open :: "unit aio_io" where
  "a_check_open =
     bind (a_gets (\<lambda>w. a_attached w \<and> a_open w)) (\<lambda>b. if b then ret () else raise connection_closed)"

definition a_write :: "proto \<Rightarrow> wire_query \<Rightarrow> unit aio_io" where
  "a_write p q = (\<lambda>w.
     case serialize p q (a_var w) of
       (Inl e, v) \<Rightarrow> (Inl e, w\<lparr>a_var := v\<rparr>)
     | (Inr bs, v) \<Rightarrow>
         (Inr (), w\<lparr>a_var := v, a_written := a_written w @ (if a_writer_open w then bs else [])\<rparr>))"

text \<open>\<open>run_query\<close> up to its \<open>await\<close>, with the future it then awaits.\<close>

definition a_run_query :: "proto \<Rightarrow> wire_query \<Rightarrow> nat aio_io" where
  "a_run_query p q =
     bind (a_write p q) (\<lambda>_.
     bind (a_gets (\<lambda>w. length (a_futures w))) (\<lambda>f.
     bind (a_modify (\<lambda>w. w\<lparr>a_futures := a_futures w @ [Pending],
        a_queries := dict_put (a_queries w) (wtoken q) (q, f)\<rparr>)) (\<lambda>_. ret f)))"

definition a_new_token :: "int aio_io" where
  "a_new_token = bind (a_gets a_next_token) (\<lambda>t.
     bind (a_modify (\<lambda>w. w\<lparr>a_next_token := t + 1\<rparr>)) (\<lambda>_. ret t))"

text \<open>\<open>_start\<close>, with its optional arguments as they are after the database has been put in, and
  \<open>noreply_wait\<close> and \<open>server\<close>: they look whether the connection is open, take a token and make a coroutine of
  \<open>run_query\<close>, of which nothing runs before it is awaited.\<close>

definition a_make :: "wire_query \<Rightarrow> bool \<Rightarrow> unit aio_io" where
  "a_make q noreply = a_modify (\<lambda>w. w\<lparr>a_made := a_made w @ [(q, noreply)]\<rparr>)"

definition a_start :: "proto \<Rightarrow> query \<Rightarrow> (string \<times> pyval) list \<Rightarrow> unit aio_io" where
  "a_start p q opts =
     bind a_check_open (\<lambda>_.
     bind a_new_token (\<lambda>t.
       let wq = make_query (pquery p ''START'') t (Some q) (Some opts) in a_make wq (wants_noreply wq)))"

definition a_control :: "proto \<Rightarrow> string \<Rightarrow> unit aio_io" where
  "a_control p ty =
     bind a_check_open (\<lambda>_. bind a_new_token (\<lambda>t. a_make (control_query p ty t) False))"

text \<open>The first part of such a coroutine, when it is awaited; it gives the future it then waits for, if it does.\<close>

definition a_await :: "proto \<Rightarrow> nat \<Rightarrow> nat option aio_io" where
  "a_await p i =
     bind (a_gets (\<lambda>w. a_made w ! i)) (\<lambda>(q, noreply).
     bind (a_modify (\<lambda>w. w\<lparr>a_made := take i (a_made w) @ drop (Suc i) (a_made w)\<rparr>)) (\<lambda>_.
       if noreply then bind (a_write p q) (\<lambda>_. ret None)
       else bind (a_run_query p q) (\<lambda>f. ret (Some f))))"

subsection \<open>Cursors\<close>

definition a_empty_error :: error where
  "a_empty_error = cursor_empty ReqlCursorEmpty"

text \<open>\<open>_maybe_fetch_batch\<close>: whether the connection is open is looked at now, the query is written by a
  task.\<close>

definition a_fetch :: "proto \<Rightarrow> nat \<Rightarrow> unit aio_io" where
  "a_fetch p c =
     bind (a_gets (a_cursor c)) (\<lambda>cu.
       if cu_error cu = None \<and> length (cu_items cu) < cu_threshold cu \<and> cu_outstanding cu = 0 then
         bind (a_modify (a_set_cursor c (\<lambda>cu. cu\<lparr>cu_outstanding := cu_outstanding cu + 1\<rparr>))) (\<lambda>_.
         bind a_check_open (\<lambda>_.
           a_modify (\<lambda>w. w\<lparr>a_tasks := a_tasks w @ [control_query p ''CONTINUE'' (wtoken (cu_query cu))]\<rparr>)))
       else ret ())"

definition a_forget :: "int \<Rightarrow> unit aio_io" where
  "a_forget t =
     bind (a_gets a_cache) (\<lambda>d.
       if map_of d t = None then raise (py_exc PyKeyError (show_int t))
       else a_modify (\<lambda>w. w\<lparr>a_cache := dict_del (a_cache w) t\<rparr>))"

definition a_extend_internal :: "proto \<Rightarrow> nat \<Rightarrow> response \<Rightarrow> unit aio_io" where
  "a_extend_internal p c res =
     bind (lift_res (items_of (rdata res))) (\<lambda>xs.
     bind (a_modify (a_set_cursor c (\<lambda>cu. cu\<lparr>cu_threshold := length xs\<rparr>))) (\<lambda>_.
     bind (a_gets (a_cursor c)) (\<lambda>cu.
     bind (lift_res (absorb a_empty_error p res xs cu)) (\<lambda>cu'.
     bind (a_modify (a_set_cursor c (\<lambda>_. cu'))) (\<lambda>_.
       if cu_outstanding cu' = 0 \<and> cu_error cu' \<noteq> None then a_forget (rtoken res) else ret ())))))"

definition a_extend :: "proto \<Rightarrow> nat \<Rightarrow> byte list \<Rightarrow> unit aio_io" where
  "a_extend p c buf =
     bind (a_modify (a_set_cursor c (\<lambda>cu. cu\<lparr>cu_outstanding := cu_outstanding cu - 1\<rparr>))) (\<lambda>_.
     bind (a_fetch p c) (\<lambda>_.
     bind (a_gets (a_cursor c)) (\<lambda>cu.
     bind (lift_res (parse_response (formats_of (cu_query cu)) (wtoken (cu_query cu)) buf)) (\<lambda>res.
       a_extend_internal p c res))))"

definition a_cursor_fail :: "proto \<Rightarrow> string \<Rightarrow> nat \<Rightarrow> unit aio_io" where
  "a_cursor_fail p message c =
     bind (a_gets (a_cursor c)) (\<lambda>cu.
       if cu_error cu = None then
         bind (a_modify (a_set_cursor c (\<lambda>cu. cu\<lparr>cu_error :=
             Some (reql_error ReqlRuntimeError message (wterm (cu_query cu)) (Some []))\<rparr>))) (\<lambda>_.
           a_extend p c (dummy_response p))
       else ret ())"

definition a_new_cursor :: "proto \<Rightarrow> wire_query \<Rightarrow> response \<Rightarrow> nat aio_io" where
  "a_new_cursor p q res =
     bind (a_gets (\<lambda>w. length (a_cursors w))) (\<lambda>c.
     bind (a_modify (\<lambda>w. w\<lparr>a_cursors := a_cursors w @ [init_cursor 0 q],
        a_cache := dict_put (a_cache w) (wtoken q) c\<rparr>)) (\<lambda>_.
     bind (a_fetch p c) (\<lambda>_.
     bind (a_extend_internal p c res) (\<lambda>_. ret c))))"

text \<open>One turn of the loop of \<open>_get_next\<close>: an item, or None to wait.\<close>

definition a_poll :: "proto \<Rightarrow> nat \<Rightarrow> rval option aio_io" where
  "a_poll p c =
     bind (a_gets (a_cursor c)) (\<lambda>cu.
       case cu_items cu of
         x # xs \<Rightarrow> bind (a_modify (a_set_cursor c (\<lambda>cu. cu\<lparr>cu_items := xs\<rparr>))) (\<lambda>_. ret (Some x))
       | [] \<Rightarrow>
           bind (a_fetch p c) (\<lambda>_.
           bind (a_gets (a_cursor c)) (\<lambda>cu.
             case cu_error cu of Some e \<Rightarrow> raise e | None \<Rightarrow> ret None)))"

text \<open>One turn of the loop of \<open>fetch_next\<close>: whether \<open>next\<close> would give a value or an error, or None to wait.\<close>

definition a_fetch_next :: "proto \<Rightarrow> nat \<Rightarrow> bool option aio_io" where
  "a_fetch_next p c =
     bind (a_gets (a_cursor c)) (\<lambda>cu.
       if cu_items cu = [] \<and> cu_error cu = None then
         bind (a_fetch p c) (\<lambda>_.
         bind (a_gets (a_cursor c)) (\<lambda>cu.
           case cu_error cu of Some e \<Rightarrow> raise e | None \<Rightarrow> ret None))
       else ret (Some (cu_items cu \<noteq> []
         \<or> (case cu_error cu of None \<Rightarrow> True | Some e \<Rightarrow> \<not> caught_by [ReqlCursorEmpty] e))))"

definition a_cursor_close :: "proto \<Rightarrow> nat \<Rightarrow> unit aio_io" where
  "a_cursor_close p c =
     bind (a_gets (a_cursor c)) (\<lambda>cu.
       if cu_error cu = None then
         bind (a_modify (a_set_cursor c (\<lambda>cu. cu\<lparr>cu_error := Some a_empty_error\<rparr>))) (\<lambda>_.
         bind (a_gets a_open) (\<lambda>b.
           if b then
             bind (a_modify (a_set_cursor c (\<lambda>cu. cu\<lparr>cu_outstanding := cu_outstanding cu + 1\<rparr>))) (\<lambda>_.
             bind a_check_open (\<lambda>_. a_write p (control_query p ''STOP'' (wtoken (cu_query cu)))))
           else ret ()))
       else ret ())"

subsection \<open>Closing\<close>

definition invalid_state :: error where
  "invalid_state = py_exc PyException ''invalid state''"

text \<open>\<open>set_result\<close> and \<open>set_exception\<close>.\<close>

definition a_settle :: "nat \<Rightarrow> future \<Rightarrow> unit aio_io" where
  "a_settle f v =
     bind (a_gets (\<lambda>w. a_futures w ! f)) (\<lambda>x.
       if x = Pending then a_modify (\<lambda>w. w\<lparr>a_futures := (a_futures w)[f := v]\<rparr>)
       else raise invalid_state)"

definition a_fail_query :: "string \<Rightarrow> nat \<Rightarrow> unit aio_io" where
  "a_fail_query message f =
     bind (a_gets (\<lambda>w. a_futures w ! f)) (\<lambda>x.
       if x = Pending then a_settle f (Failed (driver_error message)) else ret ())"

definition close_message :: "error option \<Rightarrow> string" where
  "close_message e =
     (case e of None \<Rightarrow> ''Connection is closed.'' | Some e \<Rightarrow> ''Connection is closed ('' @ exc_text e @ '').'')"

text \<open>\<open>close\<close> up to the wait for the server.\<close>

definition a_shut :: "proto \<Rightarrow> error option \<Rightarrow> unit aio_io" where
  "a_shut p e =
     bind (a_modify (\<lambda>w. w\<lparr>a_closing := True\<rparr>)) (\<lambda>_.
     bind (a_gets (\<lambda>w. map snd (a_cache w))) (\<lambda>cs.
     bind (seqs (map (a_cursor_fail p (close_message e)) cs)) (\<lambda>_.
     bind (a_gets (\<lambda>w. map (snd \<circ> snd) (a_queries w))) (\<lambda>fs.
     bind (seqs (map (a_fail_query (close_message e)) fs)) (\<lambda>_.
       a_modify (\<lambda>w. w\<lparr>a_queries := [], a_cache := []\<rparr>))))))"

definition a_close_writer :: "unit aio_io" where
  "a_close_writer = a_modify (\<lambda>w. w\<lparr>a_writer_open := False\<rparr>)"

text \<open>\<open>close\<close> of the instance; with \<open>noreply_wait\<close> it goes on in \<open>a_close_end\<close>.\<close>

definition a_instance_close :: "proto \<Rightarrow> bool \<Rightarrow> int \<Rightarrow> error option \<Rightarrow> unit aio_io" where
  "a_instance_close p nw token e =
     bind (a_shut p e) (\<lambda>_.
       if nw then
         bind (a_run_query p (control_query p ''NOREPLY_WAIT'' token)) (\<lambda>f.
           a_modify (\<lambda>w. w\<lparr>a_closers := f # a_closers w\<rparr>))
       else a_close_writer)"

definition a_close_end :: "nat \<Rightarrow> unit aio_io" where
  "a_close_end f =
     bind (a_gets (\<lambda>w. a_futures w ! f)) (\<lambda>x. case x of
       Pending \<Rightarrow> ret ()
     | Done v \<Rightarrow> bind (a_modify (\<lambda>w. w\<lparr>a_closers := removeAll f (a_closers w)\<rparr>)) (\<lambda>_. a_close_writer)
     | Failed e \<Rightarrow> bind (a_modify (\<lambda>w. w\<lparr>a_closers := removeAll f (a_closers w)\<rparr>)) (\<lambda>_. raise e)
     | Cancelled \<Rightarrow> a_modify (\<lambda>w. w\<lparr>a_closers := removeAll f (a_closers w)\<rparr>))"

text \<open>\<open>Connection.close\<close>.\<close>

definition a_close :: "proto \<Rightarrow> bool \<Rightarrow> unit aio_io" where
  "a_close p nw =
     bind (a_gets a_attached) (\<lambda>b.
       if b then
         bind a_new_token (\<lambda>t.
         bind (a_modify (\<lambda>w. w\<lparr>a_attached := False, a_next_token := 0\<rparr>)) (\<lambda>_.
           a_instance_close p nw t None))
       else ret ())"

subsection \<open>The reader\<close>

definition a_resolve :: "proto \<Rightarrow> wire_query \<Rightarrow> nat \<Rightarrow> response \<Rightarrow> unit aio_io" where
  "a_resolve p q f res =
     (if is_int (rtype res) (presponse p ''SUCCESS_ATOM'') then
        bind (lift_res (first_item (rdata res))) (\<lambda>v. a_settle f (Done (maybe_profile (Val v) res)))
      else if is_int (rtype res) (presponse p ''SUCCESS_SEQUENCE'')
           \<or> is_int (rtype res) (presponse p ''SUCCESS_PARTIAL'') then
        bind (a_new_cursor p q res) (\<lambda>c. a_settle f (Done (maybe_profile (Cur c) res)))
      else if is_int (rtype res) (presponse p ''WAIT_COMPLETE'') then a_settle f (Done Nothing)
      else if is_int (rtype res) (presponse p ''SERVER_INFO'') then
        bind (lift_res (first_item (rdata res))) (\<lambda>v. a_settle f (Done (Val v)))
      else bind (lift_res (make_error p res (wterm q))) (\<lambda>e. a_settle f (Failed e)))"

definition a_handle :: "proto \<Rightarrow> int \<Rightarrow> byte list \<Rightarrow> unit aio_io" where
  "a_handle p token buf =
     bind (a_gets (\<lambda>w. map_of (a_cache w) token)) (\<lambda>c. case c of
       Some c \<Rightarrow> a_extend p c buf
     | None \<Rightarrow>
         bind (a_gets (\<lambda>w. map_of (a_queries w) token)) (\<lambda>x. case x of
           Some (q, f) \<Rightarrow>
             bind (lift_res (parse_response (formats_of q) token buf)) (\<lambda>res.
             bind (a_resolve p q f res) (\<lambda>_.
               a_modify (\<lambda>w. w\<lparr>a_queries := dict_del (a_queries w) token\<rparr>)))
         | None \<Rightarrow>
             bind (a_gets a_closing) (\<lambda>b. if b then ret () else raise unexpected_response)))"

text \<open>\<open>readexactly\<close> at the end of the stream.\<close>

definition incomplete_read :: "nat \<Rightarrow> nat \<Rightarrow> error" where
  "incomplete_read got n = py_exc PyException
     (show_nat got @ '' bytes read on a total of '' @ show_nat n @ '' expected bytes'')"

text \<open>The end of the reader, by an exception; all the exceptions there are \<open>Exception\<close>s.\<close>

definition a_reader_fails :: "proto \<Rightarrow> error \<Rightarrow> aio \<Rightarrow> aio" where
  "a_reader_fails p e w =
     (if \<not> a_closing w
      then snd (bind (a_shut p (Some e)) (\<lambda>_. a_close_writer) (w\<lparr>a_reader := Ended\<rparr>))
      else w\<lparr>a_reader := Ended\<rparr>)"

text \<open>One turn of the reader: from one \<open>readexactly\<close> that has its bytes to the next.\<close>

definition a_read :: "proto \<Rightarrow> aio \<Rightarrow> aio option" where
  "a_read p w =
     (case a_reader w of
        Ended \<Rightarrow> None
      | AtHeader \<Rightarrow>
          if 12 \<le> length (a_buffer w) then
            (let w' = w\<lparr>a_buffer := drop 12 (a_buffer w)\<rparr>
             in case unpack_header (take 12 (a_buffer w)) of
                  Inl e \<Rightarrow> Some (a_reader_fails p e w')
                | Inr (token, n) \<Rightarrow> Some (w'\<lparr>a_reader := AtBody token n\<rparr>))
          else if a_eof w then
            Some (a_reader_fails p (incomplete_read (length (a_buffer w)) 12) (w\<lparr>a_buffer := []\<rparr>))
          else None
      | AtBody token n \<Rightarrow>
          if n \<le> length (a_buffer w) then
            (case a_handle p token (take n (a_buffer w)) (w\<lparr>a_buffer := drop n (a_buffer w)\<rparr>) of
               (Inr _, w') \<Rightarrow> Some (w'\<lparr>a_reader := AtHeader\<rparr>)
             | (Inl e, w') \<Rightarrow> Some (a_reader_fails p e w'))
          else if a_eof w then
            Some (a_reader_fails p (incomplete_read (length (a_buffer w)) n) (w\<lparr>a_buffer := []\<rparr>))
          else None)"

subsection \<open>The event loop\<close>

inductive aio_step :: "proto \<Rightarrow> aio \<Rightarrow> aio \<Rightarrow> bool" for p where
  data_arrives: "\<not> a_eof w \<Longrightarrow> aio_step p w (w\<lparr>a_buffer := a_buffer w @ bs\<rparr>)"
| stream_ends: "aio_step p w (w\<lparr>a_eof := True\<rparr>)"
| reader_runs: "a_read p w = Some w' \<Longrightarrow> aio_step p w w'"
| task_runs: "a_tasks w = q # qs \<Longrightarrow> a_write p q (w\<lparr>a_tasks := qs\<rparr>) = (r, w') \<Longrightarrow> aio_step p w w'"
| query_starts: "a_start p q opts w = (r, w') \<Longrightarrow> aio_step p w w'"
| control_starts: "a_control p ty w = (r, w') \<Longrightarrow> aio_step p w w'"
| query_awaited: "i < length (a_made w) \<Longrightarrow> a_await p i w = (r', w') \<Longrightarrow> aio_step p w w'"
| query_cancelled:
    "f < length (a_futures w) \<Longrightarrow> a_futures w ! f = Pending
       \<Longrightarrow> aio_step p w (w\<lparr>a_futures := (a_futures w)[f := Cancelled]\<rparr>)"
| cursor_polled: "a_poll p c w = (r'', w') \<Longrightarrow> aio_step p w w'"
| cursor_asked: "a_fetch_next p c w = (b, w') \<Longrightarrow> aio_step p w w'"
| cursor_closed: "a_cursor_close p c w = (u, w') \<Longrightarrow> aio_step p w w'"
| close_starts: "a_close p nw w = (u, w') \<Longrightarrow> aio_step p w w'"
| close_goes_on: "f \<in> set (a_closers w) \<Longrightarrow> a_close_end f w = (u, w') \<Longrightarrow> aio_step p w w'"

inductive aio_reach :: "proto \<Rightarrow> aio \<Rightarrow> aio \<Rightarrow> bool" for p w where
  reach_refl: "aio_reach p w w"
| reach_step: "aio_reach p w w1 \<Longrightarrow> aio_step p w1 w2 \<Longrightarrow> aio_reach p w w2"

text \<open>After a successful \<open>connect\<close>.\<close>

definition a_connected :: "byte list \<Rightarrow> int \<Rightarrow> aio" where
  "a_connected buffered v =
     \<lparr>a_attached = True, a_closing = False, a_cache = [], a_queries = [], a_cursors = [], a_futures = [], a_made = [],
      a_tasks = [], a_closers = [], a_reader = AtHeader, a_buffer = buffered, a_eof = False,
      a_writer_open = True, a_written = [], a_next_token = 0, a_var = v\<rparr>"

subsection \<open>Steps that only touch cursors\<close>

definition a_tame :: "aio \<Rightarrow> aio \<Rightarrow> bool" where
  "a_tame w w' \<longleftrightarrow> length (a_cursors w') = length (a_cursors w)
     \<and> (\<forall>c. cu_query (a_cursor c w') = cu_query (a_cursor c w))
     \<and> (\<forall>t c. map_of (a_cache w') t = Some c \<longrightarrow> map_of (a_cache w) t = Some c)
     \<and> (distinct (map fst (a_cache w)) \<longrightarrow> distinct (map fst (a_cache w')))
     \<and> a_queries w' = a_queries w \<and> a_futures w' = a_futures w \<and> a_closers w' = a_closers w
     \<and> a_reader w' = a_reader w \<and> a_closing w' = a_closing w \<and> a_attached w' = a_attached w
     \<and> a_next_token w' = a_next_token w \<and> a_made w' = a_made w"

interpretation at: frame_relation a_tame
  by unfold_locales (simp_all add: a_tame_def)

abbreviation a_tamely :: "'a aio_io \<Rightarrow> bool" where
  "a_tamely m \<equiv> steps_within a_tame m"

named_theorems a_intros \<open>steps that only touch cursors\<close>

lemmas [a_intros] = at.within_intros

lemma a_bind_simps:
  "bind (a_gets g) f w = f (g w) w" "bind (a_modify h) f' w = f' () (h w)"
  "bind (lift_res r) f'' w = (case r of Inl e \<Rightarrow> (Inl e, w) | Inr a \<Rightarrow> f'' a w)"
  by (simp_all add: bind_def a_gets_def a_modify_def lift_res_def split: sum.splits)

lemma a_modify_app: "a_modify h w = (Inr (), h w)"
  by (simp add: a_modify_def)

lemma a_cursor_set:
  "a_cursor d (a_set_cursor c f w) = (if d = c \<and> c < length (a_cursors w) then f (a_cursor c w) else a_cursor d w)"
  by (cases "c < length (a_cursors w)") (auto simp: a_cursor_def a_set_cursor_def nth_list_update list_update_beyond)

lemma a_tamely_gets [a_intros]: "a_tamely (a_gets g)"
  by (auto simp: a_gets_def at.R_refl)

lemma a_tamely_modify: "(\<And>w. a_tame w (f w)) \<Longrightarrow> a_tamely (a_modify f)"
  by (auto simp: a_modify_def)

lemma a_tame_cursor:
  "cu_query (f (a_cursor c w)) = cu_query (a_cursor c w) \<Longrightarrow> a_tame w (a_set_cursor c f w)"
  by (auto simp: a_tame_def a_cursor_set) (simp_all add: a_set_cursor_def)

lemma a_tamely_cursor [a_intros]:
  "(\<And>cu. cu_query (f cu) = cu_query cu) \<Longrightarrow> a_tamely (a_modify (a_set_cursor c f))"
  by (rule a_tamely_modify) (simp add: a_tame_cursor)

lemma a_tame_fields [simp]:
  "a_tame w (w\<lparr>a_tasks := ts\<rparr>)" "a_tame w (w\<lparr>a_var := v\<rparr>)" "a_tame w (w\<lparr>a_var := v, a_written := b\<rparr>)"
  "a_tame w (w\<lparr>a_buffer := b\<rparr>)" "a_tame w (w\<lparr>a_eof := x\<rparr>)" "a_tame w (w\<lparr>a_writer_open := x\<rparr>)"
  by (simp_all add: a_tame_def a_cursor_def)

lemma a_tamely_write [a_intros]: "a_tamely (a_write p q)"
  by (auto simp: a_write_def split: prod.splits sum.splits)

lemma a_tamely_check [a_intros]: "a_tamely a_check_open"
  unfolding a_check_open_def by (intro a_intros)

lemma a_tamely_task [a_intros]: "a_tamely (a_modify (\<lambda>w. w\<lparr>a_tasks := a_tasks w @ ts\<rparr>))"
  by (rule a_tamely_modify) simp

lemma a_tamely_fetch [a_intros]: "a_tamely (a_fetch p c)"
  unfolding a_fetch_def by (intro a_intros) auto

lemma a_tamely_forget [a_intros]: "a_tamely (a_forget t)"
  unfolding a_forget_def
  by (intro a_intros a_tamely_modify) (auto simp: a_tame_def a_cursor_def dict_simps dict_del_distinct split: if_splits)

lemma absorb_query: "absorb e p res xs cu = Inr cu' \<Longrightarrow> cu_query cu' = cu_query cu"
  using absorb_frame by blast

lemma a_tamely_absorb:
  assumes "\<And>cu'. a_tamely (f cu')"
  shows "a_tamely (bind (a_gets (a_cursor c)) (\<lambda>cu. bind (lift_res (absorb e p res xs cu)) (\<lambda>cu'.
     bind (a_modify (a_set_cursor c (\<lambda>_. cu'))) (\<lambda>_. f cu'))))"
proof
  fix w
  show "a_tame w (snd (bind (a_gets (a_cursor c)) (\<lambda>cu. bind (lift_res (absorb e p res xs cu)) (\<lambda>cu'.
     bind (a_modify (a_set_cursor c (\<lambda>_. cu'))) (\<lambda>_. f cu'))) w))"
  proof (cases "absorb e p res xs (a_cursor c w)")
    case (Inl x)
    then show ?thesis by (simp add: a_bind_simps at.R_refl)
  next
    case (Inr cu')
    have 1: "a_tame w (a_set_cursor c (\<lambda>_. cu') w)" by (rule a_tame_cursor) (rule absorb_query [OF Inr])
    have 2: "a_tame (a_set_cursor c (\<lambda>_. cu') w) (snd (f cu' (a_set_cursor c (\<lambda>_. cu') w)))"
      using assms by (simp add: steps_within_def)
    show ?thesis using at.R_trans [OF 1 2] Inr by (simp add: a_bind_simps)
  qed
qed

lemma a_tamely_extend_internal [a_intros]: "a_tamely (a_extend_internal p c res)"
  unfolding a_extend_internal_def
  by (rule at.within_bind, rule a_intros, rule at.within_bind, rule a_intros, simp, rule a_tamely_absorb, intro a_intros)

lemma a_tamely_extend [a_intros]: "a_tamely (a_extend p c buf)"
  unfolding a_extend_def by (intro a_intros) auto

lemma a_tamely_cursor_fail [a_intros]: "a_tamely (a_cursor_fail p m c)"
  unfolding a_cursor_fail_def by (intro a_intros) auto

lemma a_tamely_poll [a_intros]: "a_tamely (a_poll p c)"
  unfolding a_poll_def by (intro a_intros) auto

lemma a_tamely_fetch_next [a_intros]: "a_tamely (a_fetch_next p c)"
  unfolding a_fetch_next_def by (intro a_intros)

lemma a_tamely_cursor_close [a_intros]: "a_tamely (a_cursor_close p c)"
  unfolding a_cursor_close_def by (intro a_intros) auto

subsection \<open>The invariant\<close>

definition queries_wf :: "(int, wire_query \<times> nat) dict \<Rightarrow> future list \<Rightarrow> bool" where
  "queries_wf qs fs \<longleftrightarrow> distinct (map fst qs)
     \<and> (\<forall>t q f. map_of qs t = Some (q, f) \<longrightarrow> wtoken q = t \<and> f < length fs \<and> (fs ! f = Pending \<or> fs ! f = Cancelled))
     \<and> (\<forall>t t' q q' f. map_of qs t = Some (q, f) \<longrightarrow> map_of qs t' = Some (q', f) \<longrightarrow> t = t')"

definition cursors_wf :: "(int, nat) dict \<Rightarrow> cursor list \<Rightarrow> bool" where
  "cursors_wf d cs \<longleftrightarrow> distinct (map fst d)
     \<and> (\<forall>t c. map_of d t = Some c \<longrightarrow> c < length cs \<and> wtoken (cu_query (cs ! c)) = t)"

text \<open>Every future that is waited for is that of a query whose response can still come.\<close>

definition all_registered :: "(int, wire_query \<times> nat) dict \<Rightarrow> future list \<Rightarrow> bool" where
  "all_registered qs fs \<longleftrightarrow> (\<forall>f < length fs. fs ! f = Pending \<longrightarrow> (\<exists>t q. map_of qs t = Some (q, f)))"

definition all_below :: "int \<Rightarrow> (int, 'a) dict \<Rightarrow> bool" where
  "all_below n d \<longleftrightarrow> (\<forall>t. map_of d t \<noteq> None \<longrightarrow> t < n)"

text \<open>The coroutines that have not been awaited have tokens of their own.\<close>

definition made_wf :: "(wire_query \<times> bool) list \<Rightarrow> (int, wire_query \<times> nat) dict \<Rightarrow> bool" where
  "made_wf ms qs \<longleftrightarrow> distinct (map (wtoken \<circ> fst) ms) \<and> (\<forall>m \<in> set ms. map_of qs (wtoken (fst m)) = None)"

definition wf_aio :: "aio \<Rightarrow> bool" where
  "wf_aio w \<longleftrightarrow> queries_wf (a_queries w) (a_futures w) \<and> cursors_wf (a_cache w) (a_cursors w)
     \<and> all_registered (a_queries w) (a_futures w)
     \<and> made_wf (a_made w) (a_queries w)
     \<and> (a_attached w \<longrightarrow> 0 \<le> a_next_token w \<and> all_below (a_next_token w) (a_queries w)
          \<and> all_below (a_next_token w) (a_cache w) \<and> (\<forall>m \<in> set (a_made w). wtoken (fst m) < a_next_token w))
     \<and> (a_reader w = Ended \<longrightarrow> a_closing w) \<and> (a_closing w \<longrightarrow> a_reader w = Ended \<or> \<not> a_attached w)"

lemma cursors_wfD:
  "cursors_wf d cs \<Longrightarrow> map_of d t = Some c \<Longrightarrow> c < length cs \<and> wtoken (cu_query (cs ! c)) = t"
  unfolding cursors_wf_def by blast

lemma a_tame_cursors_wf:
  assumes "a_tame w w'" "cursors_wf (a_cache w) (a_cursors w)"
  shows "cursors_wf (a_cache w') (a_cursors w')"
  unfolding cursors_wf_def
proof (intro conjI allI impI)
  show "distinct (map fst (a_cache w'))" using assms unfolding a_tame_def cursors_wf_def by blast
next
  fix t c assume "map_of (a_cache w') t = Some c"
  then have "map_of (a_cache w) t = Some c" using assms(1) unfolding a_tame_def by blast
  from cursors_wfD [OF assms(2) this] assms(1)
  show "c < length (a_cursors w')" "wtoken (cu_query (a_cursors w' ! c)) = t"
    by (simp_all add: a_tame_def a_cursor_def)
qed

lemma all_below_mono:
  assumes "\<And>t c. map_of d' t = Some c \<Longrightarrow> map_of d t = Some c" "all_below n d"
  shows "all_below n d'"
  unfolding all_below_def
proof (intro allI impI)
  fix t assume "map_of d' t \<noteq> None"
  then obtain c where "map_of d t = Some c" using assms(1) by blast
  then show "t < n" using assms(2) by (simp add: all_below_def)
qed

lemma a_tame_below: "a_tame w w' \<Longrightarrow> all_below n (a_cache w) \<Longrightarrow> all_below n (a_cache w')"
  by (rule all_below_mono [of _ "a_cache w"]) (simp_all add: a_tame_def)

lemma a_tame_same:
  "a_tame w w' \<Longrightarrow> a_queries w' = a_queries w \<and> a_futures w' = a_futures w \<and> a_closers w' = a_closers w
     \<and> a_reader w' = a_reader w \<and> a_closing w' = a_closing w \<and> a_attached w' = a_attached w
     \<and> a_next_token w' = a_next_token w \<and> a_made w' = a_made w"
  by (simp add: a_tame_def)

lemma a_tame_wf:
  assumes "a_tame w w'" "wf_aio w"
  shows "wf_aio w'"
  using assms a_tame_same [OF assms(1)] a_tame_cursors_wf [OF assms(1)] a_tame_below [OF assms(1)]
  by (simp add: wf_aio_def)

lemma a_tamely_wf: "a_tamely m \<Longrightarrow> m w = (r, w') \<Longrightarrow> wf_aio w \<Longrightarrow> wf_aio w'"
  by (erule a_tame_wf [OF _ _, rotated]) (erule steps_withinD)

subsection \<open>Closing succeeds\<close>

definition a_failed :: "string \<Rightarrow> cursor \<Rightarrow> cursor" where
  "a_failed m cu =
     (case cu_error cu of
        Some e \<Rightarrow> cu
      | None \<Rightarrow> cu\<lparr>cu_outstanding := cu_outstanding cu - 1, cu_threshold := 0,
          cu_error := Some (reql_error ReqlRuntimeError m (wterm (cu_query cu)) (Some []))\<rparr>)"

lemma a_failed_simps [simp]:
  "cu_query (a_failed m cu) = cu_query cu" "cu_error (a_failed m cu) \<noteq> None"
  "a_failed m (a_failed m cu) = a_failed m cu"
  by (auto simp: a_failed_def split: option.splits)

definition a_cached :: "nat \<Rightarrow> aio \<Rightarrow> bool" where
  "a_cached c w \<longleftrightarrow> c < length (a_cursors w)
     \<and> (cu_error (a_cursor c w) = None \<longrightarrow> map_of (a_cache w) (wtoken (cu_query (a_cursor c w))) = Some c)"

lemma a_fetch_quiet: "cu_error (a_cursor c w) \<noteq> None \<Longrightarrow> a_fetch p c w = (Inr (), w)"
  by (auto simp: a_fetch_def a_bind_simps ret_def)

lemma a_set_cursor_twice [simp]:
  "c < length (a_cursors w) \<Longrightarrow> a_set_cursor c f (a_set_cursor c g w) = a_set_cursor c (\<lambda>cu. f (g cu)) w"
  by (simp add: a_set_cursor_def a_cursor_def)

lemma a_set_cursor_frame [simp]:
  "length (a_cursors (a_set_cursor c f w)) = length (a_cursors w)" "a_cache (a_set_cursor c f w) = a_cache w"
  "a_queries (a_set_cursor c f w) = a_queries w" "a_futures (a_set_cursor c f w) = a_futures w"
  by (simp_all add: a_set_cursor_def)

lemma a_set_cursor_cong: "f (a_cursor c w) = g (a_cursor c w) \<Longrightarrow> a_set_cursor c f w = a_set_cursor c g w"
  by (simp add: a_set_cursor_def)

lemma a_set_cursor_same: "f (a_cursor c w) = a_cursor c w \<Longrightarrow> a_set_cursor c f w = w"
  by (cases "c < length (a_cursors w)") (simp_all add: a_set_cursor_def a_cursor_def list_update_beyond)

lemma a_cursor_fail_run:
  assumes "a_cached c w"
  shows "\<exists>d. a_cursor_fail p m c w = (Inr (), (a_set_cursor c (a_failed m) w)\<lparr>a_cache := d\<rparr>)
     \<and> (d = a_cache w \<or> cu_error (a_cursor c w) = None \<and> d = dict_del (a_cache w) (wtoken (cu_query (a_cursor c w))))"
proof (cases "cu_error (a_cursor c w)")
  case (Some e)
  then have "a_set_cursor c (a_failed m) w = w" by (simp add: a_set_cursor_same a_failed_def)
  then show ?thesis using Some by (auto simp: a_cursor_fail_def a_bind_simps ret_def intro!: exI [of _ "a_cache w"])
next
  case None
  let ?cu = "a_cursor c w" and ?w = "a_set_cursor c (a_failed m) w"
  let ?e = "\<lambda>cu. reql_error ReqlRuntimeError m (wterm (cu_query cu)) (Some [])"
  let ?w1 = "a_set_cursor c (\<lambda>cu. cu\<lparr>cu_error := Some (?e cu), cu_outstanding := cu_outstanding cu - 1\<rparr>) w"
  have c: "c < length (a_cursors w)" "map_of (a_cache w) (wtoken (cu_query ?cu)) = Some c"
    using assms None by (auto simp: a_cached_def)
  have quiet: "a_fetch p c ?w1 = (Inr (), ?w1)" using c by (simp add: a_fetch_quiet a_cursor_set)
  have fail: "a_cursor_fail p m c w
      = a_extend_internal p c (batch_response (wtoken (cu_query ?cu)) (sequence_of p) []) ?w1"
    using None c quiet
    by (simp add: a_cursor_fail_def a_bind_simps a_extend_def bind_def [of "a_fetch p c"] parse_dummy a_cursor_set)
  have "a_extend_internal p c (batch_response t (sequence_of p) []) ?w1
      = (if cu_outstanding ?cu = 1 then a_forget t ?w else (Inr (), ?w))" for t
  proof -
    have "a_set_cursor c (\<lambda>_. ?cu\<lparr>cu_error := Some (?e ?cu), cu_outstanding := cu_outstanding ?cu - 1,
        cu_threshold := 0\<rparr>) w = ?w"
      by (rule a_set_cursor_cong) (simp add: a_failed_def None)
    then show ?thesis
      using c by (simp add: a_extend_internal_def a_bind_simps batch_response_def absorb_def ret_def a_cursor_set)
  qed
  moreover have "a_forget (wtoken (cu_query ?cu)) ?w
      = (Inr (), ?w\<lparr>a_cache := dict_del (a_cache w) (wtoken (cu_query ?cu))\<rparr>)"
    using c by (simp add: a_forget_def a_bind_simps a_modify_app)
  moreover have "?w\<lparr>a_cache := a_cache w\<rparr> = ?w" by (simp add: a_set_cursor_def)
  ultimately show ?thesis
    using fail None by (cases "cu_outstanding ?cu = 1") (auto intro: exI [of _ "a_cache w"])
qed

lemma a_tame_cached:
  "a_cached c w \<Longrightarrow> a_cached c (w\<lparr>a_closing := b\<rparr>)"
  by (simp add: a_cached_def a_cursor_def)

lemma a_cursors_fail_run:
  assumes "\<forall>c \<in> set cs. a_cached c w"
  shows "\<exists>us w'. seqs (map (a_cursor_fail p m) cs) w = (Inr us, w')
     \<and> (\<forall>c. c \<in> set cs \<or> cu_error (a_cursor c w) \<noteq> None \<longrightarrow> cu_error (a_cursor c w') \<noteq> None)"
  using assms
proof (induction cs arbitrary: w)
  case Nil
  then show ?case by (simp add: ret_def)
next
  case (Cons c cs)
  obtain d where d: "a_cursor_fail p m c w = (Inr (), (a_set_cursor c (a_failed m) w)\<lparr>a_cache := d\<rparr>)"
      (is "_ = (_, ?w)")
    and dd: "d = a_cache w \<or> cu_error (a_cursor c w) = None \<and> d = dict_del (a_cache w) (wtoken (cu_query (a_cursor c w)))"
    using a_cursor_fail_run [of c w p m] Cons.prems by auto
  have c: "c < length (a_cursors w)" using Cons.prems by (simp add: a_cached_def)
  have cur: "a_cursor c' ?w = (if c' = c then a_failed m (a_cursor c w) else a_cursor c' w)" for c'
    using a_cursor_set [of c' c "a_failed m" w] c by (simp add: a_cursor_def)
  have other: "c' = c" if "c' \<in> set cs" "cu_error (a_cursor c' w) = None" "cu_error (a_cursor c w) = None"
    "wtoken (cu_query (a_cursor c' w)) = wtoken (cu_query (a_cursor c w))" for c'
    using Cons.prems that by (simp add: a_cached_def) (metis option.inject)
  have "a_cached c' ?w" if c': "c' \<in> set cs" for c'
    using dd c c' Cons.prems cur [of c'] other [of c'] by (auto simp: a_cached_def dict_simps)
  then obtain us w' where r: "seqs (map (a_cursor_fail p m) cs) ?w = (Inr us, w')"
    and e: "\<forall>c. c \<in> set cs \<or> cu_error (a_cursor c ?w) \<noteq> None \<longrightarrow> cu_error (a_cursor c w') \<noteq> None"
    using Cons.IH [of ?w] by auto
  have "cu_error (a_cursor c' w') \<noteq> None" if "c' \<in> set (c # cs) \<or> cu_error (a_cursor c' w) \<noteq> None" for c'
    using that spec [OF e, of c'] cur [of c'] a_failed_simps(2) [of m "a_cursor c w"]
    by (cases "c' = c") auto
  then show ?case using d r by (auto simp: bind_def ret_def)
qed

definition fail_future :: "string \<Rightarrow> future list \<Rightarrow> nat \<Rightarrow> future list" where
  "fail_future m xs f = (if xs ! f = Pending then xs[f := Failed (driver_error m)] else xs)"

lemma a_fail_query_run: "a_fail_query m f w = (Inr (), w\<lparr>a_futures := fail_future m (a_futures w) f\<rparr>)"
  by (simp add: a_fail_query_def a_settle_def a_bind_simps a_modify_app fail_future_def ret_def)

lemma a_fail_queries_run:
  "\<exists>us. seqs (map (a_fail_query m) fs) w = (Inr us, w\<lparr>a_futures := foldl (fail_future m) (a_futures w) fs\<rparr>)"
proof (induction fs arbitrary: w)
  case Nil
  then show ?case by (simp add: ret_def)
next
  case (Cons f fs)
  obtain us where "seqs (map (a_fail_query m) fs) (w\<lparr>a_futures := fail_future m (a_futures w) f\<rparr>)
      = (Inr us, w\<lparr>a_futures := foldl (fail_future m) (a_futures w) (f # fs)\<rparr>)"
    using Cons.IH [of "w\<lparr>a_futures := fail_future m (a_futures w) f\<rparr>"] by auto
  then show ?case by (simp add: bind_def [of "a_fail_query m f"] bind_def [of "seqs _"] a_fail_query_run [of m f] ret_def)
qed

lemma fail_futures_length [simp]: "length (foldl (fail_future m) xs fs) = length xs"
  by (induction fs arbitrary: xs) (simp_all add: fail_future_def)

lemma fail_futures_nth:
  "f < length xs \<Longrightarrow> foldl (fail_future m) xs fs ! f
     = (if f \<in> set fs \<and> xs ! f = Pending then Failed (driver_error m) else xs ! f)"
proof (induction fs arbitrary: xs)
  case (Cons g fs)
  have "length (fail_future m xs g) = length xs"
    "fail_future m xs g ! f = (if g = f \<and> xs ! f = Pending then Failed (driver_error m) else xs ! f)"
    using Cons.prems by (cases "g = f"; simp add: fail_future_def)+
  then show ?case using Cons by simp
qed simp

text \<open>\<open>close\<close> fails every cursor and every query that is waited for, and forgets them.\<close>

definition a_live :: "aio \<Rightarrow> bool" where
  "a_live w \<longleftrightarrow> queries_wf (a_queries w) (a_futures w) \<and> cursors_wf (a_cache w) (a_cursors w)
     \<and> all_registered (a_queries w) (a_futures w)"

lemma wf_aio_live: "wf_aio w \<Longrightarrow> a_live w"
  by (simp add: wf_aio_def a_live_def)

definition a_shut_state :: "error option \<Rightarrow> aio \<Rightarrow> aio \<Rightarrow> bool" where
  "a_shut_state e w w' \<longleftrightarrow> a_closing w' \<and> a_queries w' = [] \<and> a_cache w' = []
     \<and> a_futures w' = map (\<lambda>x. if x = Pending then Failed (driver_error (close_message e)) else x) (a_futures w)
     \<and> (\<forall>t c. map_of (a_cache w) t = Some c \<longrightarrow> cu_error (a_cursor c w') \<noteq> None)
     \<and> a_reader w' = a_reader w \<and> a_attached w' = a_attached w \<and> a_next_token w' = a_next_token w
     \<and> a_closers w' = a_closers w \<and> a_made w' = a_made w"

lemma cursors_wf_cached:
  assumes "cursors_wf (a_cache w) (a_cursors w)" "c \<in> set (map snd (a_cache w))"
  shows "a_cached c w"
proof -
  obtain t where "(t, c) \<in> set (a_cache w)" using assms(2) by auto
  then have "map_of (a_cache w) t = Some c" using assms(1) by (simp add: cursors_wf_def)
  then show ?thesis using cursors_wfD [OF assms(1)] by (auto simp: a_cached_def a_cursor_def)
qed

lemma a_shut_run:
  assumes "a_live w"
  shows "\<exists>w'. a_shut p e w = (Inr (), w') \<and> a_shut_state e w w'"
proof -
  let ?w0 = "w\<lparr>a_closing := True\<rparr>" and ?cs = "map snd (a_cache w)" and ?m = "close_message e"
  have "\<forall>c \<in> set ?cs. a_cached c ?w0"
    using cursors_wf_cached [of w] assms a_tame_cached [of _ w True] by (simp add: a_live_def)
  then obtain us w1 where 1: "seqs (map (a_cursor_fail p ?m) ?cs) ?w0 = (Inr us, w1)"
    and err: "\<forall>c. c \<in> set ?cs \<longrightarrow> cu_error (a_cursor c w1) \<noteq> None"
    using a_cursors_fail_run [of ?cs ?w0 p ?m] by blast
  have "a_tamely (seqs (map (a_cursor_fail p ?m) ?cs))" by (intro a_intros) (auto intro: a_intros)
  then have "a_tame ?w0 w1" using 1 by (rule steps_withinD)
  from a_tame_same [OF this] have same: "a_queries w1 = a_queries w" "a_futures w1 = a_futures w"
    "a_closers w1 = a_closers w" "a_reader w1 = a_reader w" "a_closing w1" "a_attached w1 = a_attached w"
    "a_next_token w1 = a_next_token w" "a_made w1 = a_made w" by simp_all
  let ?fs = "map (snd \<circ> snd) (a_queries w)"
  obtain us' where 2: "seqs (map (a_fail_query ?m) ?fs) w1
      = (Inr us', w1\<lparr>a_futures := foldl (fail_future ?m) (a_futures w) ?fs\<rparr>)"
    using a_fail_queries_run [of ?m ?fs w1] same by auto
  have "foldl (fail_future ?m) (a_futures w) ?fs
      = map (\<lambda>x. if x = Pending then Failed (driver_error ?m) else x) (a_futures w)"
  proof (rule nth_equalityI)
    fix f assume "f < length (foldl (fail_future ?m) (a_futures w) ?fs)"
    then have f: "f < length (a_futures w)" by simp
    have "f \<in> set ?fs" if "a_futures w ! f = Pending"
    proof -
      obtain t q where "map_of (a_queries w) t = Some (q, f)"
        using assms f \<open>a_futures w ! f = Pending\<close> unfolding a_live_def all_registered_def by blast
      from map_of_SomeD [OF this] show ?thesis by force
    qed
    then show "foldl (fail_future ?m) (a_futures w) ?fs ! f
        = map (\<lambda>x. if x = Pending then Failed (driver_error ?m) else x) (a_futures w) ! f"
      using f by (auto simp: fail_futures_nth)
  qed simp
  moreover have "\<forall>t c. map_of (a_cache w) t = Some c \<longrightarrow> cu_error (a_cursor c w1) \<noteq> None"
    using err by (force dest: map_of_SomeD)
  ultimately show ?thesis
    using 1 2 same
    by (simp add: a_shut_def a_bind_simps a_modify_app bind_def [of "seqs _"] a_shut_state_def a_cursor_def)
qed

end
