(* ===== verification/AsyncioLoop.thy ===== *)
theory AsyncioLoop
  imports Asyncio
begin

text \<open>
  The \<open>asyncio\<close> driver under an arbitrary event loop: every step keeps the invariant, so it holds
  in every reachable state, and what follows for those who wait.
\<close>

subsection \<open>The operations keep the invariant\<close>

text \<open>A query that is new to the instance: it is registered with a new future.\<close>

lemma queries_wf_put:
  assumes "queries_wf qs fs" "wtoken q = t" "map_of qs t = None"
  shows "queries_wf (dict_put qs t (q, length fs)) (fs @ [Pending])"
  unfolding queries_wf_def
proof (intro conjI allI impI)
  show "distinct (map fst (dict_put qs t (q, length fs)))" using assms(1) by (simp add: queries_wf_def dict_put_distinct)
next
  fix t' q' f assume f: "map_of (dict_put qs t (q, length fs)) t' = Some (q', f)"
  show "wtoken q' = t'" "f < length (fs @ [Pending])"
    "(fs @ [Pending]) ! f = Pending \<or> (fs @ [Pending]) ! f = Cancelled"
    using f assms unfolding queries_wf_def by (auto simp: dict_simps nth_append less_SucI split: if_splits)
next
  fix t1 t2 q1 q2 f
  assume 1: "map_of (dict_put qs t (q, length fs)) t1 = Some (q1, f)"
    and 2: "map_of (dict_put qs t (q, length fs)) t2 = Some (q2, f)"
  have old: "f' < length fs" if "map_of qs t' = Some (q', f')" for t' q' f'
    using assms(1) that unfolding queries_wf_def by blast
  show "t1 = t2"
  proof (cases "f = length fs")
    case True
    then show ?thesis using 1 2 old by (auto simp: dict_simps split: if_splits)
  next
    case False
    then have "map_of qs t1 = Some (q1, f)" "map_of qs t2 = Some (q2, f)"
      using 1 2 by (auto simp: dict_simps split: if_splits)
    then show ?thesis using assms(1) unfolding queries_wf_def by blast
  qed
qed

lemma all_registered_put:
  assumes "queries_wf qs fs" "all_registered qs fs" "map_of qs t = None"
  shows "all_registered (dict_put qs t (q, length fs)) (fs @ [Pending])"
  unfolding all_registered_def
proof (intro allI impI)
  fix f assume f: "f < length (fs @ [Pending])" "(fs @ [Pending]) ! f = Pending"
  show "\<exists>t' q'. map_of (dict_put qs t (q, length fs)) t' = Some (q', f)"
  proof (cases "f = length fs")
    case True
    then show ?thesis by (intro exI [of _ t] exI [of _ q]) (simp add: dict_simps)
  next
    case False
    then have "f < length fs" "fs ! f = Pending" using f by (auto simp: nth_append)
    then obtain t' q' where "map_of qs t' = Some (q', f)" using assms(2) unfolding all_registered_def by blast
    then show ?thesis using assms(3) by (intro exI [of _ t'] exI [of _ q']) (auto simp: dict_simps)
  qed
qed

lemma all_below_put: "all_below n d \<Longrightarrow> t < n \<Longrightarrow> all_below n (dict_put d t x)"
  by (simp add: all_below_def dict_simps)

lemma all_below_fresh: "all_below n d \<Longrightarrow> n \<le> t \<Longrightarrow> map_of d t = None"
  unfolding all_below_def by fastforce

lemma all_below_more: "all_below n d \<Longrightarrow> n \<le> m \<Longrightarrow> all_below m d"
  unfolding all_below_def by fastforce

text \<open>A future that is settled or cancelled.\<close>

lemma queries_wf_settled:
  assumes "queries_wf qs fs" "map_of qs t = Some (q, f)"
  shows "queries_wf (dict_del qs t) (fs[f := v])"
  unfolding queries_wf_def
proof (intro conjI allI impI)
  show "distinct (map fst (dict_del qs t))" using assms(1) by (simp add: queries_wf_def dict_del_distinct)
next
  fix t' q' g assume "map_of (dict_del qs t) t' = Some (q', g)"
  then have g: "t' \<noteq> t" "map_of qs t' = Some (q', g)" by (auto simp: dict_simps split: if_splits)
  then have "g \<noteq> f" using assms unfolding queries_wf_def by blast
  then show "wtoken q' = t'" "g < length (fs[f := v])" "fs[f := v] ! g = Pending \<or> fs[f := v] ! g = Cancelled"
    using assms(1) g(2) unfolding queries_wf_def by auto
next
  fix t1 t2 q1 q2 g
  assume "map_of (dict_del qs t) t1 = Some (q1, g)" "map_of (dict_del qs t) t2 = Some (q2, g)"
  then show "t1 = t2" using assms(1) unfolding queries_wf_def by (auto simp: dict_simps split: if_splits)
qed

lemma all_registered_settled:
  assumes "all_registered qs fs" "map_of qs t = Some (q, f)" "v \<noteq> Pending"
  shows "all_registered (dict_del qs t) (fs[f := v])"
  unfolding all_registered_def
proof (intro allI impI)
  fix g assume g: "g < length (fs[f := v])" "fs[f := v] ! g = Pending"
  then have "g \<noteq> f" using assms(3) by auto
  then obtain t' q' where m: "map_of qs t' = Some (q', g)" using g assms(1) unfolding all_registered_def by auto
  then have "t' \<noteq> t" using assms(2) \<open>g \<noteq> f\<close> by auto
  then show "\<exists>t' q'. map_of (dict_del qs t) t' = Some (q', g)"
    using m by (intro exI [of _ t'] exI [of _ q']) (simp add: dict_simps)
qed

lemma nth_cancelled:
  "fs[f := Cancelled] ! g = Pending \<Longrightarrow> fs ! g = Pending"
  "fs ! g = Pending \<or> fs ! g = Cancelled \<Longrightarrow> fs[f := Cancelled] ! g = Pending \<or> fs[f := Cancelled] ! g = Cancelled"
  by (cases "f = g"; cases "f < length fs"; auto simp: list_update_beyond)+

lemma queries_wf_cancelled: "queries_wf qs fs \<Longrightarrow> queries_wf qs (fs[f := Cancelled])"
  using nth_cancelled(2) [of fs _ f] unfolding queries_wf_def by (simp del: map_of_eq_Some_iff)

lemma all_registered_cancelled: "all_registered qs fs \<Longrightarrow> all_registered qs (fs[f := Cancelled])"
  unfolding all_registered_def by (auto dest: nth_cancelled)

lemma all_below_del: "all_below n d \<Longrightarrow> all_below n (dict_del d t)"
  by (rule all_below_mono [of _ d]) (auto simp: dict_simps split: if_splits)

text \<open>Coroutines that have not been awaited.\<close>

lemma made_wf_put: "made_wf ms qs \<Longrightarrow> \<forall>m \<in> set ms. wtoken (fst m) \<noteq> t \<Longrightarrow> made_wf ms (dict_put qs t x)"
  by (auto simp: made_wf_def dict_simps)

lemma made_wf_del: "made_wf ms qs \<Longrightarrow> made_wf ms (dict_del qs t)"
  by (auto simp: made_wf_def dict_simps)

lemma made_wf_make:
  "made_wf ms qs \<Longrightarrow> map_of qs (wtoken q) = None \<Longrightarrow> \<forall>m \<in> set ms. wtoken (fst m) \<noteq> wtoken q
     \<Longrightarrow> made_wf (ms @ [(q, b)]) qs"
  by (auto simp: made_wf_def)

lemma made_wf_take:
  assumes "made_wf ms qs" "i < length ms"
  shows "made_wf (take i ms @ drop (Suc i) ms) qs"
    and "\<forall>m \<in> set (take i ms @ drop (Suc i) ms). wtoken (fst m) \<noteq> wtoken (fst (ms ! i))"
    and "map_of qs (wtoken (fst (ms ! i))) = None"
    and "set (take i ms @ drop (Suc i) ms) \<subseteq> set ms"
proof -
  have split: "ms = take i ms @ ms ! i # drop (Suc i) ms" using assms(2) by (rule id_take_nth_drop)
  obtain xs y ys where ms: "ms = xs @ y # ys" "take i ms = xs" "ms ! i = y" "drop (Suc i) ms = ys" using split by blast
  from ms(1) assms(1) show "made_wf (take i ms @ drop (Suc i) ms) qs"
    "\<forall>m \<in> set (take i ms @ drop (Suc i) ms). wtoken (fst m) \<noteq> wtoken (fst (ms ! i))"
    "map_of qs (wtoken (fst (ms ! i))) = None" "set (take i ms @ drop (Suc i) ms) \<subseteq> set ms"
    unfolding ms(2-4) by (auto simp: made_wf_def image_iff)
qed

lemma wf_aio_registered:
  assumes "wf_aio w" "map_of (a_queries w) (wtoken q) = None" "a_attached w \<Longrightarrow> wtoken q < a_next_token w"
    and "\<forall>m \<in> set (a_made w). wtoken (fst m) \<noteq> wtoken q"
  shows "wf_aio (w\<lparr>a_futures := a_futures w @ [Pending],
    a_queries := dict_put (a_queries w) (wtoken q) (q, length (a_futures w)), a_closers := cl\<rparr>)"
proof -
  have wf: "queries_wf (a_queries w) (a_futures w)" "all_registered (a_queries w) (a_futures w)"
    using assms(1) by (simp_all add: wf_aio_def)
  show ?thesis
    using assms queries_wf_put [OF wf(1) refl assms(2)] all_registered_put [OF wf assms(2)]
      made_wf_put [of "a_made w" "a_queries w" "wtoken q"]
    by (auto simp: wf_aio_def all_below_put)
qed

lemma a_tamely_write_tame: "a_write p q w = (r, w1) \<Longrightarrow> a_tame w w1"
  by (rule steps_withinD [OF a_tamely_write])

lemma a_run_query_cases:
  assumes "a_run_query p q w = (r, w')"
  obtains w1 where "a_tame w w1" "(\<exists>e. r = Inl e) \<and> w' = w1
     \<or> r = Inr (length (a_futures w)) \<and> w' = w1\<lparr>a_futures := a_futures w1 @ [Pending],
          a_queries := dict_put (a_queries w1) (wtoken q) (q, length (a_futures w1))\<rparr>"
proof -
  obtain r1 w1 where 1: "a_write p q w = (r1, w1)" by (cases "a_write p q w")
  then have t: "a_tame w w1" by (rule a_tamely_write_tame)
  show ?thesis
    by (rule that [OF t], use assms 1 a_tame_same [OF t] in
      \<open>cases r1; auto simp: a_run_query_def bind_def [of "a_write p q"] a_bind_simps ret_def\<close>)
qed

lemma a_run_query_wf:
  assumes "a_run_query p q w = (r, w')" "wf_aio w" "map_of (a_queries w) (wtoken q) = None"
    "a_attached w \<Longrightarrow> wtoken q < a_next_token w" "\<forall>m \<in> set (a_made w). wtoken (fst m) \<noteq> wtoken q"
  shows "wf_aio w'"
proof -
  obtain w1 where t: "a_tame w w1" and w': "(\<exists>e. r = Inl e) \<and> w' = w1
     \<or> r = Inr (length (a_futures w)) \<and> w' = w1\<lparr>a_futures := a_futures w1 @ [Pending],
          a_queries := dict_put (a_queries w1) (wtoken q) (q, length (a_futures w1))\<rparr>"
    using a_run_query_cases [OF assms(1)] .
  have wf1: "wf_aio w1" using a_tame_wf [OF t assms(2)] .
  have "wf_aio (w1\<lparr>a_futures := a_futures w1 @ [Pending],
    a_queries := dict_put (a_queries w1) (wtoken q) (q, length (a_futures w1)), a_closers := a_closers w1\<rparr>)"
    by (rule wf_aio_registered) (use wf1 assms(3-5) a_tame_same [OF t] in auto)
  moreover have "w1\<lparr>a_futures := a_futures w1 @ [Pending],
    a_queries := dict_put (a_queries w1) (wtoken q) (q, length (a_futures w1)), a_closers := a_closers w1\<rparr>
    = w1\<lparr>a_futures := a_futures w1 @ [Pending],
    a_queries := dict_put (a_queries w1) (wtoken q) (q, length (a_futures w1))\<rparr>" by simp
  ultimately show ?thesis using w' wf1 by auto
qed

lemma a_check_open_app: "a_check_open w = (if a_attached w \<and> a_open w then Inr () else Inl connection_closed, w)"
  by (simp add: a_check_open_def a_bind_simps ret_def raise_def)

lemma a_bind_open: "bind a_check_open f w = (if a_attached w \<and> a_open w then f () w else (Inl connection_closed, w))"
  by (simp add: bind_def a_check_open_app)

lemma a_bind_token: "bind a_new_token f w = f (a_next_token w) (w\<lparr>a_next_token := a_next_token w + 1\<rparr>)"
  by (simp add: a_new_token_def a_bind_simps bind_assoc ret_def bind_def a_gets_def a_modify_def)

text \<open>A new coroutine has a token that nothing else has.\<close>

definition a_making :: "wire_query \<Rightarrow> bool \<Rightarrow> aio \<Rightarrow> aio" where
  "a_making q noreply w = w\<lparr>a_next_token := a_next_token w + 1, a_made := a_made w @ [(q, noreply)]\<rparr>"

lemma wf_aio_making:
  assumes "wf_aio w" "a_attached w" "wtoken q = a_next_token w"
  shows "wf_aio (a_making q b w)"
proof -
  have "map_of (a_queries w) (wtoken q) = None" "\<forall>m \<in> set (a_made w). wtoken (fst m) \<noteq> wtoken q"
    using assms by (auto simp: wf_aio_def intro: all_below_fresh)
  from made_wf_make [OF _ this, of b] show ?thesis
    using assms by (auto simp: wf_aio_def a_making_def elim: all_below_more)
qed

definition a_start_query :: "proto \<Rightarrow> int \<Rightarrow> query \<Rightarrow> (string \<times> pyval) list \<Rightarrow> wire_query" where
  "a_start_query p t q opts = make_query (pquery p ''START'') t (Some q) (Some opts)"

lemma a_start_run:
  "a_start p q opts w =
     (if a_attached w \<and> a_open w
      then (Inr (), let wq = a_start_query p (a_next_token w) q opts in a_making wq (wants_noreply wq) w)
      else (Inl connection_closed, w))"
  by (simp add: a_start_def a_bind_open a_bind_token a_make_def a_modify_app a_making_def a_start_query_def Let_def)

lemma a_control_run:
  "a_control p ty w =
     (if a_attached w \<and> a_open w then (Inr (), a_making (control_query p ty (a_next_token w)) False w)
      else (Inl connection_closed, w))"
  by (simp add: a_control_def a_bind_open a_bind_token a_make_def a_modify_app a_making_def)

lemma a_start_wf: "a_start p q opts w = (r, w') \<Longrightarrow> wf_aio w \<Longrightarrow> wf_aio w'"
  using wf_aio_making by (auto simp: a_start_run Let_def a_start_query_def make_query_def split: if_splits)

lemma a_control_wf: "a_control p ty w = (r, w') \<Longrightarrow> wf_aio w \<Longrightarrow> wf_aio w'"
  using wf_aio_making by (auto simp: a_control_run split: if_splits)

lemma wf_aio_taken:
  assumes "wf_aio w" "i < length (a_made w)"
  shows "wf_aio (w\<lparr>a_made := take i (a_made w) @ drop (Suc i) (a_made w)\<rparr>)"
  using assms made_wf_take(1,4) [of "a_made w" "a_queries w" i] by (auto simp: wf_aio_def)

text \<open>Awaiting one: its bytes are written, and unless it wants no answer it waits, registered.\<close>

lemma a_await_cases:
  assumes "a_await p i w = (r, w')"
  obtains w1 where "a_tame (w\<lparr>a_made := take i (a_made w) @ drop (Suc i) (a_made w)\<rparr>) w1"
    "w' = w1 \<or> w' = w1\<lparr>a_futures := a_futures w1 @ [Pending],
       a_queries := dict_put (a_queries w1) (wtoken (fst (a_made w ! i))) (fst (a_made w ! i), length (a_futures w1))\<rparr>"
proof -
  let ?w = "w\<lparr>a_made := take i (a_made w) @ drop (Suc i) (a_made w)\<rparr>"
  obtain q noreply where q: "a_made w ! i = (q, noreply)" by fastforce
  show ?thesis
  proof (cases noreply)
    case True
    let ?m = "bind (a_write p q) (\<lambda>_. ret (None :: nat option))"
    have "?m ?w = (r, w')" using True assms q by (simp add: a_await_def a_bind_simps)
    moreover have "a_tamely ?m" by (intro a_intros)
    ultimately show ?thesis using steps_withinD [of a_tame ?m] that by blast
  next
    case False
    obtain r1 where "a_run_query p q ?w = (r1, w')"
      using assms q False by (auto simp: a_await_def a_bind_simps bind_def [of "a_run_query _ _"] ret_def split: prod.splits sum.splits)
    from a_run_query_cases [OF this] show ?thesis using that q by auto
  qed
qed

lemma a_await_wf:
  assumes "a_await p i w = (r, w')" "wf_aio w" "i < length (a_made w)"
  shows "wf_aio w'"
proof -
  let ?w = "w\<lparr>a_made := take i (a_made w) @ drop (Suc i) (a_made w)\<rparr>" and ?q = "fst (a_made w ! i)"
  obtain w1 where t: "a_tame ?w w1" and c: "w' = w1 \<or> w' = w1\<lparr>a_futures := a_futures w1 @ [Pending],
       a_queries := dict_put (a_queries w1) (wtoken ?q) (?q, length (a_futures w1))\<rparr>"
    using a_await_cases [OF assms(1)] by blast
  have wf1: "wf_aio w1" using a_tame_wf [OF t wf_aio_taken [OF assms(2,3)]] .
  have "made_wf (a_made w) (a_queries w)" using assms(2) by (simp add: wf_aio_def)
  note made = made_wf_take [OF this assms(3)]
  have "wtoken ?q < a_next_token w" if "a_attached w"
    using assms(2,3) that by (simp add: wf_aio_def)
  then have "wf_aio (w1\<lparr>a_futures := a_futures w1 @ [Pending],
       a_queries := dict_put (a_queries w1) (wtoken ?q) (?q, length (a_futures w1)), a_closers := a_closers w1\<rparr>)"
    using made a_tame_same [OF t] by (intro wf_aio_registered [OF wf1]) auto
  moreover have "w1\<lparr>a_futures := a_futures w1 @ [Pending],
       a_queries := dict_put (a_queries w1) (wtoken ?q) (?q, length (a_futures w1)), a_closers := a_closers w1\<rparr>
    = w1\<lparr>a_futures := a_futures w1 @ [Pending],
       a_queries := dict_put (a_queries w1) (wtoken ?q) (?q, length (a_futures w1))\<rparr>" by simp
  ultimately show ?thesis using c wf1 by auto
qed

definition a_same :: "aio \<Rightarrow> aio \<Rightarrow> bool" where
  "a_same w w' \<longleftrightarrow> a_queries w' = a_queries w \<and> a_futures w' = a_futures w \<and> a_closers w' = a_closers w
     \<and> a_reader w' = a_reader w \<and> a_closing w' = a_closing w \<and> a_attached w' = a_attached w
     \<and> a_made w' = a_made w"

lemma a_tame_a_same: "a_tame w w' \<Longrightarrow> a_same w w'"
  by (simp add: a_tame_def a_same_def)

lemma a_same_trans: "a_same w w1 \<Longrightarrow> a_same w1 w2 \<Longrightarrow> a_same w w2"
  by (simp add: a_same_def)

lemma cursors_wf_put:
  assumes "cursors_wf d cs" "wtoken (cu_query cu) = t"
  shows "cursors_wf (dict_put d t (length cs)) (cs @ [cu])"
  unfolding cursors_wf_def
proof (intro conjI allI impI)
  show "distinct (map fst (dict_put d t (length cs)))" using assms(1) by (simp add: cursors_wf_def dict_put_distinct)
next
  fix t' c assume "map_of (dict_put d t (length cs)) t' = Some c"
  then show "c < length (cs @ [cu])" "wtoken (cu_query ((cs @ [cu]) ! c)) = t'"
    using assms cursors_wfD [OF assms(1), of t' c]
    by (auto simp: dict_simps nth_append simp del: map_of_eq_Some_iff split: if_splits)
qed

lemma a_new_cursor_wf:
  assumes "a_new_cursor p q res w = (r, w')" "wf_aio w" "map_of (a_queries w) (wtoken q) \<noteq> None"
  shows "wf_aio w' \<and> a_same w w'"
proof -
  let ?c = "length (a_cursors w)"
  let ?w = "w\<lparr>a_cursors := a_cursors w @ [init_cursor 0 q], a_cache := dict_put (a_cache w) (wtoken q) ?c\<rparr>"
  have "cursors_wf (dict_put (a_cache w) (wtoken q) ?c) (a_cursors w @ [init_cursor 0 q])"
    using assms(2) by (intro cursors_wf_put) (simp_all add: wf_aio_def init_cursor_def)
  moreover have "wtoken q < a_next_token w" if "a_attached w"
    using assms(2,3) that by (simp add: wf_aio_def all_below_def)
  ultimately have wf: "wf_aio ?w" using assms(2) by (simp add: wf_aio_def all_below_put)
  have "a_tamely (bind (a_fetch p ?c) (\<lambda>_. bind (a_extend_internal p ?c res) (\<lambda>_. ret ?c)))"
    by (intro a_intros)
  from steps_withinD [OF this, of ?w r w'] have t: "a_tame ?w w'"
    using assms(1) by (simp add: a_new_cursor_def a_bind_simps)
  show ?thesis using a_tame_wf [OF t wf] a_tame_a_same [OF t] by (simp add: a_same_def)
qed

text \<open>A response either settles the future of its query or leaves the futures as they are.\<close>

definition a_settles :: "nat \<Rightarrow> aio \<Rightarrow> (error + unit) \<times> aio \<Rightarrow> bool" where
  "a_settles f w x \<longleftrightarrow> (\<exists>w1. wf_aio w1 \<and> a_same w w1
     \<and> ((\<exists>e. x = (Inl e, w1))
        \<or> a_futures w ! f = Pending
            \<and> (\<exists>v. v \<noteq> Pending \<and> x = (Inr (), w1\<lparr>a_futures := (a_futures w)[f := v]\<rparr>))))"

lemma a_settles_refl: "wf_aio w \<Longrightarrow> v \<noteq> Pending \<Longrightarrow> a_settles f w (a_settle f v w)"
  unfolding a_settles_def
  by (rule exI [of _ w]) (auto simp: a_settle_def a_bind_simps a_modify_app raise_def a_same_def)

lemma a_settles_raise: "wf_aio w \<Longrightarrow> a_settles f w (Inl e, w)"
  unfolding a_settles_def by (rule exI [of _ w]) (simp add: a_same_def)

lemma a_settles_lift:
  "wf_aio w \<Longrightarrow> (\<And>a. v a \<noteq> Pending) \<Longrightarrow> a_settles f w (bind (lift_res x) (\<lambda>a. a_settle f (v a)) w)"
  by (cases x) (simp_all add: a_bind_simps a_settles_raise a_settles_refl)

lemma a_resolve_settles:
  assumes "wf_aio w" "map_of (a_queries w) (wtoken q) \<noteq> None"
  shows "a_settles f w (a_resolve p q f res w)"
proof -
  obtain r1 w1 where n: "a_new_cursor p q res w = (r1, w1)" by (cases "a_new_cursor p q res w")
  from a_new_cursor_wf [OF this assms] have w1: "wf_aio w1" "a_same w w1" by simp_all
  have "a_settles f w (bind (a_new_cursor p q res) (\<lambda>c. a_settle f (Done (maybe_profile (Cur c) res))) w)"
  proof (cases r1)
    case (Inl e)
    then show ?thesis using n w1 unfolding a_settles_def by (intro exI [of _ w1]) (simp add: bind_def)
  next
    case (Inr c)
    have "a_settles f w1 (a_settle f (Done (maybe_profile (Cur c) res)) w1)" using w1(1) by (simp add: a_settles_refl)
    then show ?thesis using n Inr w1(2) by (auto simp: bind_def a_settles_def a_same_def)
  qed
  then show ?thesis
    unfolding a_resolve_def using assms(1) by (auto intro: a_settles_refl a_settles_lift)
qed

lemma wf_aio_settled:
  assumes "wf_aio w" "map_of (a_queries w) t = Some (q, f)" "v \<noteq> Pending"
  shows "wf_aio (w\<lparr>a_futures := (a_futures w)[f := v], a_queries := dict_del (a_queries w) t\<rparr>)"
  using assms queries_wf_settled [OF _ assms(2)] all_registered_settled [OF _ assms(2,3)]
  by (simp add: wf_aio_def all_below_del made_wf_del)

text \<open>
  What a frame does: it raises and leaves the futures as they are, it goes to a cursor or nowhere,
  or it settles the future registered under its token and removes the query.
\<close>

definition a_handled :: "int \<Rightarrow> aio \<Rightarrow> (error + unit) \<times> aio \<Rightarrow> bool" where
  "a_handled t w x \<longleftrightarrow> wf_aio (snd x) \<and> a_closing (snd x) = a_closing w \<and> a_attached (snd x) = a_attached w
     \<and> a_reader (snd x) = a_reader w \<and> a_closers (snd x) = a_closers w
     \<and> (a_futures (snd x) = a_futures w \<and> a_queries (snd x) = a_queries w
        \<or> (\<exists>q f v. map_of (a_queries w) t = Some (q, f) \<and> a_futures w ! f = Pending \<and> v \<noteq> Pending
             \<and> fst x = Inr () \<and> a_futures (snd x) = (a_futures w)[f := v]
             \<and> a_queries (snd x) = dict_del (a_queries w) t))"

lemma a_handled_same: "wf_aio w' \<Longrightarrow> a_same w w' \<Longrightarrow> a_handled t w (r, w')"
  by (simp add: a_handled_def a_same_def)

lemma a_handle_handled:
  assumes "wf_aio w"
  shows "a_handled t w (a_handle p t buf w)"
proof (cases "map_of (a_cache w) t")
  case (Some c)
  obtain r w' where x: "a_extend p c buf w = (r, w')" by (cases "a_extend p c buf w")
  have "a_tame w w'" using steps_withinD [OF a_tamely_extend x] .
  then have "a_handled t w (r, w')" using assms a_tame_wf a_tame_a_same by (intro a_handled_same)
  then show ?thesis using Some x by (simp add: a_handle_def a_bind_simps)
next
  case None
  have refl: "a_handled t w (r, w)" for r using assms by (intro a_handled_same) (simp_all add: a_same_def)
  show ?thesis
  proof (cases "map_of (a_queries w) t")
    case N: None
    then show ?thesis using None refl by (simp add: a_handle_def a_bind_simps ret_def raise_def)
  next
    case (Some x)
    obtain q f where qf: "map_of (a_queries w) t = Some (q, f)" using Some by (cases x) auto
    then have q: "wtoken q = t" using assms unfolding wf_aio_def queries_wf_def by blast
    show ?thesis
    proof (cases "parse_response (formats_of q) t buf")
      case (Inl e)
      then show ?thesis using None qf refl by (simp add: a_handle_def a_bind_simps)
    next
      case (Inr res)
      let ?m = "a_modify (\<lambda>w. w\<lparr>a_queries := dict_del (a_queries w) t\<rparr>)"
      have h: "a_handle p t buf w = bind (a_resolve p q f res) (\<lambda>_. ?m) w"
        using None qf Inr by (simp add: a_handle_def a_bind_simps)
      obtain w1 where w1: "wf_aio w1" "a_same w w1" and r: "(\<exists>e. a_resolve p q f res w = (Inl e, w1))
          \<or> a_futures w ! f = Pending
            \<and> (\<exists>v. v \<noteq> Pending \<and> a_resolve p q f res w = (Inr (), w1\<lparr>a_futures := (a_futures w)[f := v]\<rparr>))"
        using a_resolve_settles [OF assms, of q f p res] q qf unfolding a_settles_def by auto
      from r show ?thesis
      proof
        assume "\<exists>e. a_resolve p q f res w = (Inl e, w1)"
        then show ?thesis using h a_handled_same [OF w1] by (auto simp: bind_def)
      next
        assume "a_futures w ! f = Pending
            \<and> (\<exists>v. v \<noteq> Pending \<and> a_resolve p q f res w = (Inr (), w1\<lparr>a_futures := (a_futures w)[f := v]\<rparr>))"
        then obtain v where v: "a_futures w ! f = Pending" "v \<noteq> Pending"
          "a_resolve p q f res w = (Inr (), w1\<lparr>a_futures := (a_futures w)[f := v]\<rparr>)" by blast
        have e: "a_handle p t buf w
            = (Inr (), w1\<lparr>a_futures := (a_futures w)[f := v], a_queries := dict_del (a_queries w) t\<rparr>)"
          using v(3) w1(2) h by (simp add: bind_def a_modify_app a_same_def)
        have "wf_aio (w1\<lparr>a_futures := (a_futures w)[f := v], a_queries := dict_del (a_queries w) t\<rparr>)"
          using wf_aio_settled [OF w1(1) _ v(2), of t q f] w1(2) qf by (simp add: a_same_def)
        then show ?thesis
          unfolding a_handled_def e using v qf w1(2) by (simp add: a_same_def del: map_of_eq_Some_iff) blast
      qed
    qed
  qed
qed

lemma shut_wf:
  assumes "a_shut_state e w w'" "made_wf (a_made w) (a_queries w)"
    and "a_attached w \<Longrightarrow> 0 \<le> a_next_token w \<and> (\<forall>m \<in> set (a_made w). wtoken (fst m) < a_next_token w)"
    and "a_reader w = Ended \<or> \<not> a_attached w"
  shows "wf_aio w'"
  using assms
  by (auto simp: a_shut_state_def wf_aio_def queries_wf_def cursors_wf_def all_registered_def made_wf_def
      all_below_def)

lemma a_reader_fails_run:
  assumes "a_live w" "\<not> a_closing w"
  shows "\<exists>w1. a_shut_state (Some e) (w\<lparr>a_reader := Ended\<rparr>) w1 \<and> a_reader_fails p e w = w1\<lparr>a_writer_open := False\<rparr>"
proof -
  have "a_live (w\<lparr>a_reader := Ended\<rparr>)" using assms(1) by (simp add: a_live_def)
  from a_shut_run [OF this, of p "Some e"] show ?thesis
    using assms(2) by (auto simp: a_reader_fails_def bind_def a_close_writer_def a_modify_app)
qed

lemma wf_aio_writer [simp]: "wf_aio (w\<lparr>a_writer_open := b\<rparr>) = wf_aio w"
  by (simp add: wf_aio_def)

lemma a_reader_fails_wf:
  assumes "wf_aio w"
  shows "wf_aio (a_reader_fails p e w)"
proof (cases "a_closing w")
  case True
  then show ?thesis using assms by (simp add: a_reader_fails_def wf_aio_def)
next
  case False
  from a_reader_fails_run [OF wf_aio_live [OF assms] this, of e p] obtain w1
    where w1: "a_shut_state (Some e) (w\<lparr>a_reader := Ended\<rparr>) w1" "a_reader_fails p e w = w1\<lparr>a_writer_open := False\<rparr>"
    by blast
  have "wf_aio w1" by (rule shut_wf [OF w1(1)]) (use assms in \<open>auto simp: wf_aio_def\<close>)
  then show ?thesis using w1(2) by simp
qed

lemma wf_aio_reading [simp]:
  "wf_aio (w\<lparr>a_buffer := b\<rparr>) = wf_aio w" "wf_aio (w\<lparr>a_eof := x\<rparr>) = wf_aio w"
  "wf_aio (w\<lparr>a_tasks := ts\<rparr>) = wf_aio w" "r \<noteq> Ended \<Longrightarrow> a_reader w \<noteq> Ended \<Longrightarrow> wf_aio w \<Longrightarrow> wf_aio (w\<lparr>a_reader := r\<rparr>)"
  by (simp_all add: wf_aio_def)

lemma a_read_wf:
  assumes "a_read p w = Some w'" "wf_aio w"
  shows "wf_aio w'"
proof (cases "a_reader w")
  case AtHeader
  then show ?thesis using assms a_reader_fails_wf [of _ p]
    by (auto simp: a_read_def Let_def split: if_splits sum.splits prod.splits)
next
  case (AtBody t n)
  let ?w = "w\<lparr>a_buffer := drop n (a_buffer w)\<rparr>"
  have "wf_aio ?w" using assms(2) by simp
  from a_handle_handled [OF this, of t p "take n (a_buffer w)"]
  have "wf_aio (snd (a_handle p t (take n (a_buffer w)) ?w))"
    "a_reader (snd (a_handle p t (take n (a_buffer w)) ?w)) \<noteq> Ended" using AtBody by (simp_all add: a_handled_def)
  then show ?thesis using AtBody assms a_reader_fails_wf [of _ p]
    by (auto simp: a_read_def split: if_splits sum.splits prod.splits)
qed (use assms in \<open>simp add: a_read_def\<close>)

lemma wf_aio_cancelled: "wf_aio w \<Longrightarrow> wf_aio (w\<lparr>a_futures := (a_futures w)[f := Cancelled]\<rparr>)"
  by (simp add: wf_aio_def queries_wf_cancelled all_registered_cancelled)

lemma a_writer_same: "\<exists>b. w\<lparr>a_closers := c\<rparr> = w\<lparr>a_closers := c, a_writer_open := b\<rparr>"
  by (rule exI [of _ "a_writer_open w"]) simp

lemma a_close_end_cases:
  "snd (a_close_end f w) = w \<and> a_futures w ! f = Pending
     \<or> a_futures w ! f \<noteq> Pending \<and> (\<exists>b. snd (a_close_end f w) = w\<lparr>a_closers := removeAll f (a_closers w), a_writer_open := b\<rparr>)"
  by (cases "a_futures w ! f")
    (auto simp: a_close_end_def a_bind_simps ret_def raise_def a_close_writer_def a_modify_app
      intro: a_writer_same)

lemma wf_aio_closed_out:
  "wf_aio w \<Longrightarrow> a_futures w ! f \<noteq> Pending \<Longrightarrow> wf_aio (w\<lparr>a_closers := removeAll f (a_closers w), a_writer_open := b\<rparr>)"
  by (auto simp: wf_aio_def)

lemma a_close_end_wf: "a_close_end f w = (r, w') \<Longrightarrow> wf_aio w \<Longrightarrow> wf_aio w'"
  using a_close_end_cases [of f w] wf_aio_closed_out [of w f] by auto

text \<open>\<open>close\<close>: all that was waited for has failed, and with \<open>noreply_wait\<close> one future is new.\<close>

lemma a_close_run:
  assumes "wf_aio w" "a_attached w" "a_close p nw w = (r, w')"
  obtains w1 where "a_shut_state None (w\<lparr>a_attached := False, a_next_token := 0\<rparr>) w1"
    "nw \<Longrightarrow> (\<exists>w2. a_tame w1 w2 \<and> ((\<exists>e. r = Inl e) \<and> w' = w2
       \<or> r = Inr () \<and> w' = w2\<lparr>a_futures := a_futures w2 @ [Pending],
          a_queries := [(a_next_token w, (control_query p ''NOREPLY_WAIT'' (a_next_token w), length (a_futures w2)))],
          a_closers := length (a_futures w2) # a_closers w2\<rparr>))"
    "\<not> nw \<Longrightarrow> r = Inr () \<and> w' = w1\<lparr>a_writer_open := False\<rparr>"
proof -
  let ?w = "w\<lparr>a_attached := False, a_next_token := 0\<rparr>" and ?q = "control_query p ''NOREPLY_WAIT'' (a_next_token w)"
  have "a_live ?w" using wf_aio_live [OF assms(1)] by (simp add: a_live_def)
  from a_shut_run [OF this, of p None] obtain w1
    where w1: "a_shut p None ?w = (Inr (), w1)" "a_shut_state None ?w w1" by blast
  have run: "a_close p nw w = (if nw then bind (a_run_query p ?q) (\<lambda>f. a_modify (\<lambda>w. w\<lparr>a_closers := f # a_closers w\<rparr>)) w1
      else a_close_writer w1)"
    using assms(2) w1(1) by (simp add: a_close_def a_bind_simps a_bind_token a_instance_close_def bind_def [of "a_shut p None"])
  have nil: "a_queries w1 = []" using w1(2) by (simp add: a_shut_state_def)
  show ?thesis
  proof (rule that [OF w1(2)])
    assume nw
    obtain r1 w2 where 2: "a_run_query p ?q w1 = (r1, w2)" by (cases "a_run_query p ?q w1")
    from a_run_query_cases [OF this] obtain w3 where t: "a_tame w1 w3" and c: "(\<exists>e. r1 = Inl e) \<and> w2 = w3
     \<or> r1 = Inr (length (a_futures w1)) \<and> w2 = w3\<lparr>a_futures := a_futures w3 @ [Pending],
          a_queries := dict_put (a_queries w3) (wtoken ?q) (?q, length (a_futures w3))\<rparr>" by blast
    show "\<exists>w2. a_tame w1 w2 \<and> ((\<exists>e. r = Inl e) \<and> w' = w2
       \<or> r = Inr () \<and> w' = w2\<lparr>a_futures := a_futures w2 @ [Pending],
          a_queries := [(a_next_token w, (?q, length (a_futures w2)))],
          a_closers := length (a_futures w2) # a_closers w2\<rparr>)"
      by (rule exI [of _ w3])
        (use \<open>nw\<close> assms(3) run 2 t c nil a_tame_same [OF t] in \<open>auto simp: bind_def a_modify_app\<close>)
  next
    assume "\<not> nw"
    then show "r = Inr () \<and> w' = w1\<lparr>a_writer_open := False\<rparr>"
      using run assms(3) by (simp add: a_close_writer_def a_modify_app)
  qed
qed

lemma a_close_wf:
  assumes "a_close p nw w = (r, w')" "wf_aio w"
  shows "wf_aio w'"
proof (cases "a_attached w")
  case False
  then show ?thesis using assms by (simp add: a_close_def a_bind_simps ret_def)
next
  case True
  show ?thesis
  proof (rule a_close_run [OF assms(2) True assms(1)])
    fix w1
    assume 1: "a_shut_state None (w\<lparr>a_attached := False, a_next_token := 0\<rparr>) w1"
      and 2: "nw \<Longrightarrow> (\<exists>w2. a_tame w1 w2 \<and> ((\<exists>e. r = Inl e) \<and> w' = w2
       \<or> r = Inr () \<and> w' = w2\<lparr>a_futures := a_futures w2 @ [Pending],
          a_queries := [(a_next_token w, (control_query p ''NOREPLY_WAIT'' (a_next_token w), length (a_futures w2)))],
          a_closers := length (a_futures w2) # a_closers w2\<rparr>))"
      and 3: "\<not> nw \<Longrightarrow> r = Inr () \<and> w' = w1\<lparr>a_writer_open := False\<rparr>"
    have wf1: "wf_aio w1" by (rule shut_wf [OF 1]) (use assms(2) in \<open>simp_all add: wf_aio_def\<close>)
    show "wf_aio w'"
    proof (cases nw)
      case False
      then show ?thesis using 3 wf1 by simp
    next
      case True
      then obtain w2 where t: "a_tame w1 w2" and c: "w' = w2
        \<or> w' = w2\<lparr>a_futures := a_futures w2 @ [Pending],
          a_queries := [(a_next_token w, (control_query p ''NOREPLY_WAIT'' (a_next_token w), length (a_futures w2)))],
          a_closers := length (a_futures w2) # a_closers w2\<rparr>" using 2 by blast
      have wf2: "wf_aio w2" using a_tame_wf [OF t wf1] .
      have s: "a_queries w2 = []" "\<not> a_attached w2" "a_made w2 = a_made w"
        using 1 a_tame_same [OF t] by (simp_all add: a_shut_state_def)
      have "\<forall>m \<in> set (a_made w2). wtoken (fst m) \<noteq> a_next_token w" using assms(2) True s(3) \<open>a_attached w\<close>
        by (auto simp: wf_aio_def)
      from wf_aio_registered [OF wf2, of "control_query p ''NOREPLY_WAIT'' (a_next_token w)"]
      show ?thesis using c wf2 s \<open>\<forall>m \<in> set (a_made w2). wtoken (fst m) \<noteq> a_next_token w\<close> by auto
    qed
  qed
qed

lemma aio_step_wf: "aio_step p w w' \<Longrightarrow> wf_aio w \<Longrightarrow> wf_aio w'"
proof (induction rule: aio_step.induct)
  case (task_runs w q qs r w')
  then show ?case using a_tamely_wf [OF a_tamely_write, of p q "w\<lparr>a_tasks := qs\<rparr>" r w'] by simp
qed (auto intro: a_read_wf a_start_wf a_control_wf a_await_wf wf_aio_cancelled a_tamely_wf [OF a_tamely_poll] a_tamely_wf [OF a_tamely_fetch_next]
    a_tamely_wf [OF a_tamely_cursor_close] a_close_wf a_close_end_wf)

lemma aio_reach_wf: "aio_reach p w w' \<Longrightarrow> wf_aio w \<Longrightarrow> wf_aio w'"
  by (induction rule: aio_reach.induct) (auto intro: aio_step_wf)

lemma a_connected_wf: "wf_aio (a_connected buffered v)"
  by (simp add: wf_aio_def a_connected_def queries_wf_def cursors_wf_def all_registered_def all_below_def
      made_wf_def)

lemma a_connected_reach_wf: "aio_reach p (a_connected buffered v) w \<Longrightarrow> wf_aio w"
  using aio_reach_wf a_connected_wf by blast

subsection \<open>A close that waits for nothing\<close>

definition a_stuck :: "nat \<Rightarrow> aio \<Rightarrow> bool" where
  "a_stuck f w \<longleftrightarrow> a_reader w = Ended \<and> \<not> a_attached w \<and> f < length (a_futures w)
     \<and> (a_futures w ! f = Pending \<or> a_futures w ! f = Cancelled)"

lemma a_stuck_same: "a_same w w' \<Longrightarrow> a_stuck f w \<Longrightarrow> a_stuck f w'"
  by (simp add: a_stuck_def a_same_def)

lemma a_tamely_stuck: "a_tamely m \<Longrightarrow> m w = (r, w') \<Longrightarrow> a_stuck f w \<Longrightarrow> a_stuck f w'"
  by (rule a_stuck_same [OF a_tame_a_same]) (erule steps_withinD)

lemma a_stuck_step: "aio_step p w w' \<Longrightarrow> a_stuck f w \<Longrightarrow> a_stuck f w'"
proof (induction rule: aio_step.induct)
  case (reader_runs w w')
  then show ?case by (simp add: a_stuck_def a_read_def)
next
  case (task_runs w q qs r w')
  then have "a_stuck f (w\<lparr>a_tasks := qs\<rparr>)" by (simp add: a_stuck_def)
  then show ?case using a_tamely_stuck [OF a_tamely_write] task_runs by blast
next
  case (query_starts q opts w r w')
  then show ?case by (auto simp: a_stuck_def a_start_run)
next
  case (control_starts ty w r w')
  then show ?case by (auto simp: a_stuck_def a_control_run)
next
  case (query_awaited i w r w')
  obtain w1 where t: "a_tame (w\<lparr>a_made := take i (a_made w) @ drop (Suc i) (a_made w)\<rparr>) w1"
    and c: "w' = w1 \<or> w' = w1\<lparr>a_futures := a_futures w1 @ [Pending],
       a_queries := dict_put (a_queries w1) (wtoken (fst (a_made w ! i))) (fst (a_made w ! i), length (a_futures w1))\<rparr>"
    using a_await_cases [OF query_awaited(2)] by blast
  have "a_stuck f w1" by (rule a_stuck_same [OF a_tame_a_same [OF t]]) (use query_awaited(3) in \<open>simp add: a_stuck_def\<close>)
  then show ?case using c by (auto simp: a_stuck_def nth_append)
next
  case (query_cancelled g w)
  then show ?case using nth_cancelled(2) [of "a_futures w" f g] by (simp add: a_stuck_def)
next
  case (cursor_polled c w r w')
  then show ?case using a_tamely_stuck [OF a_tamely_poll] by blast
next
  case (cursor_asked c w b w')
  then show ?case using a_tamely_stuck [OF a_tamely_fetch_next] by blast
next
  case (cursor_closed c w u w')
  then show ?case using a_tamely_stuck [OF a_tamely_cursor_close] by blast
next
  case (close_starts nw w u w')
  then show ?case by (simp add: a_stuck_def a_close_def a_bind_simps ret_def)
next
  case (close_goes_on g w u w')
  then show ?case using a_close_end_cases [of g w] by (auto simp: a_stuck_def)
qed (simp_all add: a_stuck_def)

lemma a_stuck_reach: "aio_reach p w w' \<Longrightarrow> a_stuck f w \<Longrightarrow> a_stuck f w'"
  by (induction rule: aio_reach.induct) (auto intro: a_stuck_step)

text \<open>The state after a query has been written and registered.\<close>

definition a_asked :: "wire_query \<Rightarrow> nat \<Rightarrow> byte list \<Rightarrow> int \<Rightarrow> aio \<Rightarrow> aio" where
  "a_asked q f bs v w = w\<lparr>a_futures := a_futures w @ [Pending], a_queries := dict_put (a_queries w) (wtoken q) (q, f),
     a_var := v, a_written := a_written w @ (if a_writer_open w then bs else [])\<rparr>"

lemma a_write_run:
  "serialize p q (a_var w) = (Inr bs, v) \<Longrightarrow> a_write p q w
     = (Inr (), w\<lparr>a_var := v, a_written := a_written w @ (if a_writer_open w then bs else [])\<rparr>)"
  by (simp add: a_write_def)

lemma a_run_query_run:
  "serialize p q (a_var w) = (Inr bs, v)
     \<Longrightarrow> a_run_query p q w = (Inr (length (a_futures w)), a_asked q (length (a_futures w)) bs v w)"
  by (simp add: a_run_query_def bind_def [of "a_write p q"] a_write_run a_bind_simps ret_def a_asked_def)

lemma a_close_waits:
  assumes "wf_aio w" "a_attached w" "frame_bytes p (control_query p ''NOREPLY_WAIT'' (a_next_token w)) None = Inr msg"
  shows "\<exists>w'. a_close p True w = (Inr (), w') \<and> a_reader w' = a_reader w \<and> \<not> a_attached w'
     \<and> length (a_futures w) \<in> set (a_closers w') \<and> length (a_futures w) < length (a_futures w')
     \<and> a_futures w' ! length (a_futures w) = Pending"
proof -
  let ?w = "w\<lparr>a_attached := False, a_next_token := 0\<rparr>" and ?q = "control_query p ''NOREPLY_WAIT'' (a_next_token w)"
  have "a_live ?w" using wf_aio_live [OF assms(1)] by (simp add: a_live_def)
  from a_shut_run [OF this, of p None] obtain w1
    where w1: "a_shut p None ?w = (Inr (), w1)" "a_shut_state None ?w w1" by blast
  have "serialize p ?q (a_var w1) = (Inr msg, a_var w1)"
    using assms(3) by (simp add: serialize_def control_query_def make_query_def lift_res_def)
  from a_run_query_run [of p ?q w1, OF this]
  have "a_close p True w = (Inr (), a_asked ?q (length (a_futures w1)) msg (a_var w1) w1
      \<lparr>a_closers := length (a_futures w1) # a_closers w1\<rparr>)"
    using assms(2) w1(1)
    by (simp add: a_close_def a_bind_simps a_bind_token a_instance_close_def bind_def [of "a_shut p None"]
        bind_def [of "a_run_query p _"] a_modify_app a_asked_def)
  then show ?thesis using w1(2) by (simp add: a_asked_def a_shut_state_def nth_append)
qed

subsection \<open>Responses\<close>

lemma unpack_frame:
  assumes "t < 2 ^ 63" "length body < 2 ^ 32"
  shows "unpack_header (take 12 (frame t body @ rest)) = Inr (int t, length body)"
    and "drop 12 (frame t body @ rest) = body @ rest"
proof -
  have h: "take 12 (frame t body @ rest) = le_bytes 8 t @ le_bytes 4 (length body)"
    by (simp add: frame_def)
  have "t < 256 ^ 8" using assms(1) by simp
  moreover have "length body < 256 ^ 4" using assms(2) by simp
  ultimately show "unpack_header (take 12 (frame t body @ rest)) = Inr (int t, length body)"
    unfolding h using assms(1) by (simp add: unpack_header_def le_val_le_bytes signed64_def)
  show "drop 12 (frame t body @ rest) = body @ rest" by (simp add: frame_def)
qed

lemma a_read_header:
  assumes "a_reader w = AtHeader" "a_buffer w = frame t body @ rest" "t < 2 ^ 63" "length body < 2 ^ 32"
  shows "a_read p w = Some (w\<lparr>a_buffer := body @ rest, a_reader := AtBody (int t) (length body)\<rparr>)"
  using assms unpack_frame [OF assms(3,4), of rest] by (simp add: a_read_def)

lemma a_resolve_refused:
  assumes "wf_aio w" "map_of (a_queries w) (wtoken q) \<noteq> None" "a_futures w ! f \<noteq> Pending"
  shows "\<exists>e w1. a_resolve p q f res w = (Inl e, w1)"
  using a_resolve_settles [OF assms(1,2), of f p res] assms(3) by (auto simp: a_settles_def)

lemma a_handle_refused:
  assumes "wf_aio w" "map_of (a_cache w) t = None" "map_of (a_queries w) t = Some (q, f)" "a_futures w ! f \<noteq> Pending"
  shows "\<exists>e w1. a_handle p t buf w = (Inl e, w1) \<and> wf_aio w1 \<and> a_futures w1 = a_futures w \<and> a_closing w1 = a_closing w"
proof -
  obtain r w1 where x: "a_handle p t buf w = (r, w1)" by (cases "a_handle p t buf w")
  have q: "wtoken q = t" using assms(1,3) unfolding wf_aio_def queries_wf_def by blast
  have "\<exists>e. r = Inl e"
  proof (cases "parse_response (formats_of q) t buf")
    case (Inl e)
    then show ?thesis using x assms(2,3) by (auto simp: a_handle_def a_bind_simps)
  next
    case (Inr res)
    obtain e w2 where "a_resolve p q f res w = (Inl e, w2)"
      using a_resolve_refused [OF assms(1) _ assms(4), of q p res] assms(3) q by auto
    then show ?thesis using x assms(2,3) Inr
      by (auto simp: a_handle_def a_bind_simps bind_def [of "a_resolve p q f _"])
  qed
  then show ?thesis
    using a_handle_handled [OF assms(1), of t p buf] x assms(3,4) by (auto simp: a_handled_def)
qed

subsection \<open>Properties\<close>


















text \<open>C24. While the reader goes on, it settles a future only by a response with the token of the
  future's query, at most once and one at a time, and then forgets the query.\<close>

theorem frame_settles_its_query:
  assumes "aio_reach p (a_connected buffered v) w" "a_read p w = Some w'" "a_reader w' \<noteq> Ended"
  shows "a_futures w' = a_futures w \<and> a_queries w' = a_queries w
     \<or> (\<exists>t n q f x. a_reader w = AtBody t n \<and> map_of (a_queries w) t = Some (q, f) \<and> wtoken q = t
          \<and> a_futures w ! f = Pending \<and> x \<noteq> Pending
          \<and> a_futures w' = (a_futures w)[f := x] \<and> a_queries w' = dict_del (a_queries w) t)"
proof -
  have wf: "wf_aio w" using a_connected_reach_wf [OF assms(1)] .
  have ended: "a_reader (a_reader_fails p e u) = Ended" if "wf_aio u" for e u
    using a_reader_fails_run [OF wf_aio_live [OF that], of e p]
    by (cases "a_closing u") (auto simp: a_reader_fails_def a_shut_state_def)
  show ?thesis
  proof (cases "a_reader w")
    case AtHeader
    then show ?thesis using assms(2,3) ended wf
      by (auto simp: a_read_def Let_def split: if_splits sum.splits prod.splits)
  next
    case (AtBody t n)
    let ?w = "w\<lparr>a_buffer := drop n (a_buffer w)\<rparr>"
    obtain r w1 where h: "a_handle p t (take n (a_buffer w)) ?w = (r, w1)" by (metis surj_pair)
    have handled: "a_handled t ?w (r, w1)" using a_handle_handled [of ?w t p] wf h by (metis wf_aio_reading(1))
    have "n \<le> length (a_buffer w) \<and> w' = w1\<lparr>a_reader := AtHeader\<rparr>"
      using assms(2,3) AtBody h ended [of w1] ended [of "w\<lparr>a_buffer := []\<rparr>"] wf handled
      by (auto simp: a_read_def a_handled_def split: if_splits sum.splits)
    moreover have "wtoken q = t" if "map_of (a_queries w) t = Some (q, f)" for q f
      using wf that unfolding wf_aio_def queries_wf_def by blast
    ultimately show ?thesis using handled AtBody by (auto simp: a_handled_def simp del: map_of_eq_Some_iff)
  qed (use assms(2) in \<open>simp add: a_read_def\<close>)
qed

text \<open>C19. The server goes away, in the middle of a frame or between two.  If the connection is not
  closing, the reader's next turn fails every query that is waited for with a driver error that says
  so, ends every cursor with an error, and closes the connection.  If it is being closed, the reader
  ends and tells nobody: who waits then, which is a \<open>close\<close> for the answer to its
  \<open>noreply_wait\<close> or a query awaited after it, waits for ever unless it is cancelled.\<close>

theorem connection_lost:
  assumes "aio_reach p (a_connected buffered v) w"
    and "a_eof w" "length (a_buffer w) < n" "a_reader w = AtHeader \<and> n = 12 \<or> a_reader w = AtBody t n"
    and "text = close_message (Some (incomplete_read (length (a_buffer w)) n))"
  shows "\<exists>w'. a_read p w = Some w' \<and> a_closing w' \<and> a_reader w' = Ended
     \<and> (if a_closing w
        then w' = w\<lparr>a_buffer := [], a_reader := Ended\<rparr>
          \<and> (\<forall>f < length (a_futures w). a_futures w ! f = Pending
               \<longrightarrow> (\<forall>w''. aio_reach p w' w'' \<longrightarrow> a_futures w'' ! f = Pending \<or> a_futures w'' ! f = Cancelled))
        else \<not> a_writer_open w'
          \<and> a_futures w' = map (\<lambda>x. if x = Pending then Failed (driver_error text) else x) (a_futures w)
          \<and> (\<forall>t c. map_of (a_cache w) t = Some c \<longrightarrow> cu_error (a_cursor c w') \<noteq> None)
          \<and> a_queries w' = [] \<and> a_cache w' = [])"
proof -
  have wf: "wf_aio w" using a_connected_reach_wf [OF assms(1)] .
  let ?w = "w\<lparr>a_buffer := []\<rparr>" and ?e = "incomplete_read (length (a_buffer w)) n"
  have read: "a_read p w = Some (a_reader_fails p ?e ?w)" using assms(2-4) by (auto simp: a_read_def)
  show ?thesis
  proof (cases "a_closing w")
    case True
    let ?w' = "w\<lparr>a_buffer := [], a_reader := Ended\<rparr>"
    have "\<not> a_attached w" using wf True assms(4) by (auto simp: wf_aio_def)
    then have "a_futures w'' ! f = Pending \<or> a_futures w'' ! f = Cancelled"
      if "f < length (a_futures w)" "a_futures w ! f = Pending" "aio_reach p ?w' w''" for f w''
      using a_stuck_reach [OF that(3), of f] that(1,2) by (simp add: a_stuck_def)
    then show ?thesis using read True by (simp add: a_reader_fails_def)
  next
    case False
    have "a_live ?w" using wf_aio_live [OF wf] by (simp add: a_live_def)
    from a_reader_fails_run [OF this, of ?e p] obtain w1
      where w1: "a_shut_state (Some ?e) (?w\<lparr>a_reader := Ended\<rparr>) w1"
        "a_reader_fails p ?e ?w = w1\<lparr>a_writer_open := False\<rparr>" using False by auto
    then show ?thesis using read False assms(5) by (simp add: a_shut_state_def a_cursor_def)
  qed
qed

text \<open>A coroutine made before the connection is closed and awaited when the reader has ended
  writes to a closed transport, registers itself and waits for a response nobody reads.\<close>

theorem late_query_hangs:
  assumes "aio_reach p (a_connected buffered v) w" "a_reader w = Ended" "\<not> a_attached w"
    and "i < length (a_made w)" "a_made w ! i = (q, False)" "serialize p q (a_var w) = (Inr bs, v')"
  shows "\<exists>w' f. a_await p i w = (Inr (Some f), w') \<and> a_futures w' ! f = Pending
     \<and> (\<forall>w''. aio_reach p w' w'' \<longrightarrow> a_futures w'' ! f = Pending \<or> a_futures w'' ! f = Cancelled)"
proof -
  let ?w = "w\<lparr>a_made := take i (a_made w) @ drop (Suc i) (a_made w)\<rparr>" and ?f = "length (a_futures w)"
  let ?w' = "a_asked q ?f bs v' ?w"
  have run: "a_await p i w = (Inr (Some ?f), ?w')"
    using assms(5,6) a_run_query_run [of p q ?w bs v']
    by (simp add: a_await_def a_bind_simps bind_def [of "a_run_query p q"] ret_def)
  have new: "a_futures ?w' ! ?f = Pending" by (simp add: a_asked_def)
  have stuck: "a_stuck ?f ?w'" using assms(2,3) by (simp add: a_stuck_def a_asked_def nth_append)
  show ?thesis
    using run new a_stuck_reach [OF _ stuck] by (intro exI [of _ ?w'] exI [of _ ?f]) (auto simp: a_stuck_def)
qed

text \<open>A query whose caller has given up (a cancelled task, a timeout) takes the connection with
  it: when its response arrives, setting the result of the cancelled future raises in the reader,
  which ends, and every other query fails.\<close>

theorem cancelled_query_closes:
  assumes "aio_reach p (a_connected buffered v) w" "\<not> a_closing w"
    and "a_reader w = AtBody t n" "n \<le> length (a_buffer w)"
    and "map_of (a_cache w) t = None" "map_of (a_queries w) t = Some (q, f)" "a_futures w ! f = Cancelled"
  shows "\<exists>w' e. a_read p w = Some w' \<and> a_reader w' = Ended \<and> a_closing w' \<and> \<not> a_writer_open w'
     \<and> a_futures w' = map (\<lambda>x. if x = Pending then Failed (driver_error (close_message (Some e))) else x) (a_futures w)"
proof -
  have wf: "wf_aio w" using a_connected_reach_wf [OF assms(1)] .
  let ?w = "w\<lparr>a_buffer := drop n (a_buffer w)\<rparr>"
  obtain e w1 where h: "a_handle p t (take n (a_buffer w)) ?w = (Inl e, w1)"
    and w1: "wf_aio w1" "a_futures w1 = a_futures w" "a_closing w1 = a_closing w"
    using a_handle_refused [of ?w t q f p "take n (a_buffer w)"] wf assms(5-7) by auto
  obtain w2 where "a_shut_state (Some e) (w1\<lparr>a_reader := Ended\<rparr>) w2" "a_reader_fails p e w1 = w2\<lparr>a_writer_open := False\<rparr>"
    using a_reader_fails_run [OF wf_aio_live [OF w1(1)], of e p] w1(3) assms(2) by auto
  moreover have "a_read p w = Some (a_reader_fails p e w1)" using assms(3,4) h by (simp add: a_read_def)
  ultimately show ?thesis
    using w1(2) by (intro exI [of _ "w2\<lparr>a_writer_open := False\<rparr>"] exI [of _ e]) (simp add: a_shut_state_def)
qed

text \<open>After the connection is lost, \<open>close\<close> as it is called by default, which also \<open>reconnect\<close> does,
  registers a query with a reader that has ended and waits for its response: whatever happens
  later, it never returns unless it is cancelled itself.\<close>

theorem close_after_loss_hangs:
  assumes "aio_reach p (a_connected buffered v) w" "a_reader w = Ended" "a_attached w"
    and "frame_bytes p (control_query p ''NOREPLY_WAIT'' (a_next_token w)) None = Inr msg"
  shows "\<exists>w' f. a_close p True w = (Inr (), w') \<and> f \<in> set (a_closers w') \<and> a_futures w' ! f = Pending
     \<and> (\<forall>w''. aio_reach p w' w'' \<longrightarrow> a_futures w'' ! f = Pending \<or> a_futures w'' ! f = Cancelled)"
proof -
  let ?f = "length (a_futures w)"
  obtain w' where w': "a_close p True w = (Inr (), w')" "?f \<in> set (a_closers w')" "a_futures w' ! ?f = Pending"
    and stuck: "a_stuck ?f w'"
    using a_close_waits [OF a_connected_reach_wf [OF assms(1)] assms(3,4)] assms(2) by (auto simp: a_stuck_def)
  then show ?thesis using a_stuck_reach by (intro exI [of _ w'] exI [of _ ?f]) (auto simp: a_stuck_def)
qed

text \<open>A response of one value settles its query: two turns of the reader take exactly its frame, and
  the future has the value.\<close>

theorem response_settles_query:
  assumes "aio_reach p (a_connected buffered v) w" "a_reader w = AtHeader" "a_buffer w = frame t body @ rest"
    and "t < 2 ^ 63" "length body < 2 ^ 32" "map_of (a_cache w) (int t) = None"
    and "map_of (a_queries w) (int t) = Some (q, f)" "a_futures w ! f = Pending"
    and "parse_response (formats_of q) (int t) body = Inr res"
    and "is_int (rtype res) (presponse p ''SUCCESS_ATOM'')" "rdata res = RList (x # xs)"
  shows "\<exists>w1. a_read p w = Some w1
     \<and> a_read p w1 = Some (w\<lparr>a_buffer := rest, a_futures := (a_futures w)[f := Done (maybe_profile (Val x) res)],
         a_queries := dict_del (a_queries w) (int t)\<rparr>)"
proof -
  let ?w1 = "w\<lparr>a_buffer := body @ rest, a_reader := AtBody (int t) (length body)\<rparr>"
  have "first_item (rdata res) = Inr x" using assms(11) by (simp add: first_item_def)
  then have "a_resolve p q f res (?w1\<lparr>a_buffer := rest\<rparr>)
      = (Inr (), ?w1\<lparr>a_buffer := rest, a_futures := (a_futures w)[f := Done (maybe_profile (Val x) res)]\<rparr>)"
    using assms(8,10) by (simp add: a_resolve_def a_bind_simps a_settle_def a_modify_app)
  then have "a_handle p (int t) body (?w1\<lparr>a_buffer := rest\<rparr>)
      = (Inr (), ?w1\<lparr>a_buffer := rest, a_futures := (a_futures w)[f := Done (maybe_profile (Val x) res)],
         a_queries := dict_del (a_queries w) (int t)\<rparr>)"
    using assms(6,7,9) by (simp add: a_handle_def a_bind_simps bind_def [of "a_resolve p q f res"] a_modify_app)
  then show ?thesis
    using a_read_header [OF assms(2-5)] assms(2) by (simp add: a_read_def)
qed

text \<open>A loop in which a query with token 0 has been written, after what the server has sent.\<close>

definition asked_bytes :: "byte list" where
  "asked_bytes = le_bytes 8 0 @ le_bytes 4 (length ''[1]'') @ latin1 ''[1]''"

definition asking_example :: "byte list \<Rightarrow> aio" where
  "asking_example bs = (a_connected bs 0)\<lparr>a_next_token := 1, a_futures := [Pending],
     a_queries := [(0, (control_query proto_numbers ''SERVER_INFO'' 0, 0))], a_written := asked_bytes\<rparr>"

lemma asked_frame: "frame_bytes proto_numbers (control_query proto_numbers ty 0) None = Inr asked_bytes"
proof -
  have "utf8_encode ''[1]'' = latin1 ''[1]''" by (rule utf8_ascii) (simp add: is_ascii_def code_point_def)
  moreover have "json_text (JArr [JInt 1]) = ''[1]''"
    by (simp add: show_int_def show_nat.simps digit_char_def chr_def char_of_def bit_0 bit_Suc)
  ultimately show ?thesis
    by (simp del: json_text.simps add: make_query_def frame_bytes_def message_json_def Let_def pack_header_def
        asked_bytes_def control_query_def proto_numbers_def)
qed

lemma asked_serialized:
  "serialize proto_numbers (control_query proto_numbers ty 0) v = (Inr asked_bytes, v)"
  using asked_frame [of ty] by (simp add: serialize_def control_query_def make_query_def lift_res_def)

definition making_example :: "byte list \<Rightarrow> aio" where
  "making_example bs = a_making (control_query proto_numbers ''SERVER_INFO'' 0) False (a_connected bs 0)"

lemma making_reached: "aio_reach proto_numbers (a_connected bs 0) (making_example bs)"
proof -
  have "a_control proto_numbers ''SERVER_INFO'' (a_connected bs 0) = (Inr (), making_example bs)"
    by (simp add: a_control_run making_example_def a_connected_def a_open_def)
  from control_starts [OF this] show ?thesis using reach_refl reach_step by blast
qed

lemma asking_reached: "aio_reach proto_numbers (a_connected bs 0) (asking_example bs)"
proof -
  have "a_await proto_numbers 0 (making_example bs) = (Inr (Some 0), asking_example bs)"
    using a_run_query_run [OF asked_serialized, of "''SERVER_INFO''" "(a_connected bs 0)\<lparr>a_next_token := 1\<rparr>"]
    by (simp add: a_await_def a_bind_simps making_example_def a_making_def bind_def [of "a_run_query _ _"] ret_def
        a_connected_def a_asked_def asking_example_def)
  from query_awaited [OF _ this] show ?thesis
    using making_reached reach_step by (simp add: making_example_def a_making_def) blast
qed

definition answer_example :: "byte list" where
  "answer_example = frame 0 (batch_body 1 [JNull])"

lemma answer_length: "length (batch_body 1 [JNull]) = 18"
proof -
  have "length (utf8_encode s) = length s" if "is_ascii s" for s using that by (simp add: utf8_ascii)
  then show ?thesis
    by (simp_all add: batch_body_def batch_json_def show_int_def show_nat.simps digit_char_def chr_def char_of_def
        bit_0 bit_Suc quote_json_def escape_char_def is_ascii_def code_point_def)
qed

theorem response_settles_query_witness:
  "\<exists>w1. a_read proto_numbers (asking_example answer_example) = Some w1
     \<and> a_read proto_numbers w1 = Some ((asking_example answer_example)\<lparr>a_buffer := [],
         a_futures := [Pending][0 := Done (maybe_profile (Val RNull) (batch_response 0 1 [JNull]))],
         a_queries := dict_del (a_queries (asking_example answer_example)) 0\<rparr>)"
proof -
  let ?q = "control_query proto_numbers ''SERVER_INFO'' 0"
  have "parse_response (formats_of ?q) (int 0) (batch_body 1 [JNull]) = Inr (batch_response 0 1 [JNull])"
    by (simp add: parse_batch plain_def)
  from response_settles_query [OF asking_reached [of answer_example], of 0 "batch_body 1 [JNull]" "[]" ?q 0 _ RNull "[]", OF _ _ _ _ _ _ _ this]
  show ?thesis by (simp add: asking_example_def a_connected_def answer_example_def answer_length batch_response_def
      is_int_def proto_numbers_def)
qed

lemma answer_header: "a_read proto_numbers (asking_example answer_example)
    = Some ((asking_example answer_example)\<lparr>a_buffer := batch_body 1 [JNull], a_reader := AtBody 0 18\<rparr>)"
  using a_read_header [of "asking_example answer_example" 0 "batch_body 1 [JNull]" "[]"]
  by (simp add: asking_example_def a_connected_def answer_example_def answer_length)

theorem cancelled_query_closes_witness:
  "\<exists>w w' e. a_read proto_numbers w = Some w' \<and> a_reader w' = Ended \<and> a_closing w' \<and> \<not> a_writer_open w'
     \<and> a_futures w' = map (\<lambda>x. if x = Pending then Failed (driver_error (close_message (Some e))) else x) [Cancelled]"
proof -
  let ?w1 = "(asking_example answer_example)\<lparr>a_buffer := batch_body 1 [JNull], a_reader := AtBody 0 18\<rparr>"
  let ?w2 = "?w1\<lparr>a_futures := [Cancelled]\<rparr>"
  have "aio_reach proto_numbers (a_connected answer_example 0) ?w1"
    using reach_step [OF asking_reached reader_runs [OF answer_header]] .
  moreover have "aio_step proto_numbers ?w1 ?w2"
    using query_cancelled [of 0 ?w1] by (simp add: asking_example_def)
  ultimately have r: "aio_reach proto_numbers (a_connected answer_example 0) ?w2" by (rule reach_step)
  have "\<exists>w' e. a_read proto_numbers ?w2 = Some w' \<and> a_reader w' = Ended \<and> a_closing w' \<and> \<not> a_writer_open w'
     \<and> a_futures w' = map (\<lambda>x. if x = Pending then Failed (driver_error (close_message (Some e))) else x) (a_futures ?w2)"
    by (rule cancelled_query_closes [OF r, where t = 0 and n = 18 and f = 0])
      (simp_all add: asking_example_def a_connected_def answer_length)
  then show ?thesis by - (rule exI [of _ ?w2], simp add: asking_example_def)
qed

theorem frame_settles_its_query_witness:
  "\<exists>w'. a_read proto_numbers (asking_example answer_example) = Some w'
     \<and> a_futures w' = [Pending] \<and> a_queries w' = a_queries (asking_example answer_example)"
  using frame_settles_its_query [OF asking_reached answer_header]
  by - (rule exI, rule conjI, rule answer_header, auto simp: asking_example_def a_connected_def)

definition lost_example :: aio where
  "lost_example = (asking_example [])\<lparr>a_eof := True\<rparr>"

lemma lost_reached: "aio_reach proto_numbers (a_connected [] 0) lost_example"
  unfolding lost_example_def by (rule reach_step [OF asking_reached stream_ends])


theorem connection_lost_witness:
  "\<exists>w'. a_read proto_numbers lost_example = Some w' \<and> a_closing w' \<and> a_reader w' = Ended \<and> \<not> a_writer_open w'
     \<and> a_futures w' = [Failed (driver_error (close_message (Some (incomplete_read 0 12))))]
     \<and> a_queries w' = [] \<and> a_cache w' = []"
  using connection_lost [OF lost_reached, of 12 0 "close_message (Some (incomplete_read 0 12))"]
  by (auto simp: lost_example_def asking_example_def a_connected_def)


text \<open>The connection is closed between \<open>conn.server()\<close> and the \<open>await\<close> of what it gave.\<close>

theorem late_query_hangs_witness:
  "\<exists>w w' f. aio_reach proto_numbers (a_connected [] 0) w \<and> a_await proto_numbers 0 w = (Inr (Some f), w')
     \<and> a_futures w' ! f = Pending
     \<and> (\<forall>w''. \<not> (aio_reach proto_numbers w' w'' \<and> a_futures w'' ! f \<noteq> Pending \<and> a_futures w'' ! f \<noteq> Cancelled))"
proof -
  let ?q = "control_query proto_numbers ''SERVER_INFO'' 0"
  let ?w1 = "(making_example [])\<lparr>a_attached := False, a_next_token := 0, a_closing := True, a_writer_open := False\<rparr>"
  let ?w2 = "?w1\<lparr>a_eof := True\<rparr>" and ?w3 = "?w1\<lparr>a_eof := True, a_buffer := [], a_reader := Ended\<rparr>"
  have shut: "a_shut proto_numbers None w = (Inr (), w\<lparr>a_closing := True, a_queries := [], a_cache := []\<rparr>)"
    if "a_queries w = []" "a_cache w = []" for w
    using that by (simp add: a_shut_def a_bind_simps a_modify_app bind_def [of "Pair (Inr [])"] ret_def)
  have "a_close proto_numbers False (making_example []) = (Inr (), ?w1)"
    by (simp add: a_close_def a_bind_simps a_bind_token a_instance_close_def bind_def [of "a_shut _ _"] shut a_close_writer_def
        a_modify_app making_example_def a_making_def a_connected_def)
  then have 1: "aio_reach proto_numbers (a_connected [] 0) ?w1"
    using reach_step [OF making_reached close_starts] by blast
  have "aio_step proto_numbers ?w1 ?w2" using stream_ends [of proto_numbers ?w1] .
  from reach_step [OF 1 this] have 2: "aio_reach proto_numbers (a_connected [] 0) ?w2" .
  have "a_read proto_numbers ?w2 = Some ?w3"
    by (simp add: a_read_def making_example_def a_making_def a_connected_def a_reader_fails_def)
  from reach_step [OF 2 reader_runs [OF this]] have 3: "aio_reach proto_numbers (a_connected [] 0) ?w3" .
  from late_query_hangs [OF 3, of 0 ?q asked_bytes 0] 3 show ?thesis
    by (auto simp: making_example_def a_making_def a_connected_def asked_serialized)
qed

lemma lost_ended:
  "\<exists>w. aio_reach proto_numbers (a_connected [] 0) w \<and> a_reader w = Ended \<and> a_attached w \<and> a_next_token w = 0"
proof -
  let ?w = "(a_connected [] 0)\<lparr>a_eof := True\<rparr>"
  let ?e = "incomplete_read 0 12"
  have 1: "aio_reach proto_numbers (a_connected [] 0) ?w" using reach_step [OF reach_refl stream_ends] .
  from a_reader_fails_run [of ?w ?e proto_numbers] wf_aio_live [OF a_connected_reach_wf [OF 1]] obtain w1
    where w1: "a_shut_state (Some ?e) (?w\<lparr>a_reader := Ended\<rparr>) w1"
      "a_reader_fails proto_numbers ?e ?w = w1\<lparr>a_writer_open := False\<rparr>" by (auto simp: a_connected_def)
  have "a_read proto_numbers ?w = Some (w1\<lparr>a_writer_open := False\<rparr>)"
    using w1(2) by (simp add: a_read_def a_connected_def)
  from reach_step [OF 1 reader_runs [OF this]] show ?thesis
    using w1(1) by (intro exI conjI) (auto simp: a_shut_state_def a_connected_def)
qed

theorem close_after_loss_hangs_witness:
  "\<exists>w w' f. a_reader w = Ended \<and> a_close proto_numbers True w = (Inr (), w') \<and> a_futures w' ! f = Pending
     \<and> (\<forall>w''. \<not> (aio_reach proto_numbers w' w'' \<and> a_futures w'' ! f \<noteq> Pending \<and> a_futures w'' ! f \<noteq> Cancelled))"
proof -
  obtain w where w: "aio_reach proto_numbers (a_connected [] 0) w" "a_reader w = Ended" "a_attached w"
    and t: "a_next_token w = 0" using lost_ended by blast
  have "frame_bytes proto_numbers (control_query proto_numbers ''NOREPLY_WAIT'' (a_next_token w)) None = Inr asked_bytes"
    using asked_frame t by simp
  from close_after_loss_hangs [OF w this] show ?thesis using w(2) by blast
qed

end
