(* ===== verification/Gevent.thy ===== *)
theory Gevent
  imports GeventSocket AsyncioLoop
begin

text \<open>
  The driver for gevent, \<open>rethinkdb/gevent_net/net_gevent.py\<close>: an instance after connecting, with the
  greenlet that reads, the results that callers wait for and its cursors.

  Greenlets are switched only where one waits: for the network, for a result or for a batch.  A stretch between two
  such points is one step, and any that can be taken may be next; a stretch with a send that
  waits is taken when the network accepts all of it.  Results and cursors are in stores; a result is the
  datatype \<open>future\<close> of \<open>Asyncio\<close>, and so is where the reader stands.  \<open>GeventCursorEmpty\<close> is written as
  \<open>DefaultCursorEmpty\<close>, which has the same base classes.
\<close>

subsection \<open>State\<close>

record gevent =
  g_attached :: bool
  g_closing :: bool
  g_cache :: "(int, nat) dict"
  g_queries :: "(int, wire_query \<times> nat) dict"
  g_cursors :: "cursor list"
  g_results :: "future list"
  g_closers :: "nat list"
  g_reader :: reader
  g_socket :: sock
  g_next_token :: int
  g_var :: int

type_synonym 'a gevent_io = "(gevent, io_stop, 'a) comp"

definition g_gets :: "(gevent \<Rightarrow> 'a) \<Rightarrow> 'a gevent_io" where
  "g_gets f = (\<lambda>w. (Inr (f w), w))"

definition g_modify :: "(gevent \<Rightarrow> gevent) \<Rightarrow> unit gevent_io" where
  "g_modify f = (\<lambda>w. (Inr (), f w))"

definition g_fail :: "error \<Rightarrow> 'a gevent_io" where
  "g_fail e = raise (Raised e)"

definition g_lift :: "error + 'a \<Rightarrow> 'a gevent_io" where
  "g_lift r = lift_res (case r of Inl e \<Rightarrow> Inl (Raised e) | Inr a \<Rightarrow> Inr a)"

definition g_cursor :: "nat \<Rightarrow> gevent \<Rightarrow> cursor" where
  "g_cursor c w = g_cursors w ! c"

definition g_set_cursor :: "nat \<Rightarrow> (cursor \<Rightarrow> cursor) \<Rightarrow> gevent \<Rightarrow> gevent" where
  "g_set_cursor c f w = w\<lparr>g_cursors := (g_cursors w)[c := f (g_cursor c w)]\<rparr>"

definition g_on_socket :: "'a sock_io \<Rightarrow> 'a gevent_io" where
  "g_on_socket m = (\<lambda>w. case m (g_socket w) of (r, s) \<Rightarrow> (r, w\<lparr>g_socket := s\<rparr>))"

subsection \<open>Queries\<close>

definition g_open :: "gevent \<Rightarrow> bool" where
  "g_open w \<longleftrightarrow> sopen (g_socket w)"

definition g_check_open :: "unit gevent_io" where
  "g_check_open =
     bind (g_gets (\<lambda>w. g_attached w \<and> g_open w)) (\<lambda>b. if b then ret () else g_fail connection_closed)"

definition g_serialize :: "proto \<Rightarrow> wire_query \<Rightarrow> byte list gevent_io" where
  "g_serialize p q = (\<lambda>w. case serialize p q (g_var w) of
     (r, v) \<Rightarrow> (case r of Inl e \<Rightarrow> Inl (Raised e) | Inr bs \<Rightarrow> Inr bs, w\<lparr>g_var := v\<rparr>))"

definition g_send :: "proto \<Rightarrow> wire_query \<Rightarrow> unit gevent_io" where
  "g_send p q = bind (g_serialize p q) (\<lambda>bs. g_on_socket (gevent_sendall bs))"

text \<open>\<open>run_query\<close> up to its wait, with the result it then waits for.\<close>

definition g_run_query :: "proto \<Rightarrow> wire_query \<Rightarrow> nat gevent_io" where
  "g_run_query p q =
     bind (g_send p q) (\<lambda>_.
     bind (g_gets (\<lambda>w. length (g_results w))) (\<lambda>f.
     bind (g_modify (\<lambda>w. w\<lparr>g_results := g_results w @ [Pending],
        g_queries := dict_put (g_queries w) (wtoken q) (q, f)\<rparr>)) (\<lambda>_. ret f)))"

definition g_new_token :: "int gevent_io" where
  "g_new_token = bind (g_gets g_next_token) (\<lambda>t.
     bind (g_modify (\<lambda>w. w\<lparr>g_next_token := t + 1\<rparr>)) (\<lambda>_. ret t))"

definition g_start :: "proto \<Rightarrow> query \<Rightarrow> (string \<times> pyval) list \<Rightarrow> nat option gevent_io" where
  "g_start p q opts =
     bind g_check_open (\<lambda>_.
     bind g_new_token (\<lambda>t.
       let wq = make_query (pquery p ''START'') t (Some q) (Some opts)
       in if wants_noreply wq then bind (g_send p wq) (\<lambda>_. ret None)
          else bind (g_run_query p wq) (\<lambda>f. ret (Some f))))"

definition g_control :: "proto \<Rightarrow> string \<Rightarrow> nat gevent_io" where
  "g_control p ty =
     bind g_check_open (\<lambda>_. bind g_new_token (\<lambda>t. g_run_query p (control_query p ty t)))"

subsection \<open>Cursors\<close>

definition g_fetch :: "proto \<Rightarrow> nat \<Rightarrow> unit gevent_io" where
  "g_fetch p c =
     bind (g_gets (g_cursor c)) (\<lambda>cu.
       if cu_error cu = None \<and> length (cu_items cu) < cu_threshold cu \<and> cu_outstanding cu = 0 then
         bind (g_modify (g_set_cursor c (\<lambda>cu. cu\<lparr>cu_outstanding := cu_outstanding cu + 1\<rparr>))) (\<lambda>_.
         bind g_check_open (\<lambda>_. g_send p (control_query p ''CONTINUE'' (wtoken (cu_query cu)))))
       else ret ())"

definition g_forget :: "int \<Rightarrow> unit gevent_io" where
  "g_forget t =
     bind (g_gets g_cache) (\<lambda>d.
       if map_of d t = None then g_fail (py_exc PyKeyError (show_int t))
       else g_modify (\<lambda>w. w\<lparr>g_cache := dict_del (g_cache w) t\<rparr>))"

definition g_extend_internal :: "proto \<Rightarrow> nat \<Rightarrow> response \<Rightarrow> unit gevent_io" where
  "g_extend_internal p c res =
     bind (g_lift (items_of (rdata res))) (\<lambda>xs.
     bind (g_modify (g_set_cursor c (\<lambda>cu. cu\<lparr>cu_threshold := length xs\<rparr>))) (\<lambda>_.
     bind (g_gets (g_cursor c)) (\<lambda>cu.
     bind (g_lift (absorb empty_error p res xs cu)) (\<lambda>cu'.
     bind (g_modify (g_set_cursor c (\<lambda>_. cu'))) (\<lambda>_.
       if cu_outstanding cu' = 0 \<and> cu_error cu' \<noteq> None then g_forget (rtoken res) else ret ())))))"

text \<open>\<open>_extend\<close>; who waits for a batch is woken and looks at the cursor, \<open>g_next_turn\<close>.\<close>

definition g_extend :: "proto \<Rightarrow> nat \<Rightarrow> byte list \<Rightarrow> unit gevent_io" where
  "g_extend p c buf =
     bind (g_modify (g_set_cursor c (\<lambda>cu. cu\<lparr>cu_outstanding := cu_outstanding cu - 1\<rparr>))) (\<lambda>_.
     bind (g_fetch p c) (\<lambda>_.
     bind (g_gets (g_cursor c)) (\<lambda>cu.
     bind (g_lift (parse_response (formats_of (cu_query cu)) (wtoken (cu_query cu)) buf)) (\<lambda>res.
       g_extend_internal p c res))))"

definition g_cursor_fail :: "proto \<Rightarrow> string \<Rightarrow> nat \<Rightarrow> unit gevent_io" where
  "g_cursor_fail p message c =
     bind (g_gets (g_cursor c)) (\<lambda>cu.
       if cu_error cu = None then
         bind (g_modify (g_set_cursor c (\<lambda>cu. cu\<lparr>cu_error :=
             Some (reql_error ReqlRuntimeError message (wterm (cu_query cu)) (Some []))\<rparr>))) (\<lambda>_.
           g_extend p c (dummy_response p))
       else ret ())"

definition g_new_cursor :: "proto \<Rightarrow> wire_query \<Rightarrow> response \<Rightarrow> nat gevent_io" where
  "g_new_cursor p q res =
     bind (g_gets (\<lambda>w. length (g_cursors w))) (\<lambda>c.
     bind (g_modify (\<lambda>w. w\<lparr>g_cursors := g_cursors w @ [init_cursor 0 q],
        g_cache := dict_put (g_cache w) (wtoken q) c\<rparr>)) (\<lambda>_.
     bind (g_fetch p c) (\<lambda>_.
     bind (g_extend_internal p c res) (\<lambda>_. ret c))))"

text \<open>\<open>_get_next\<close>: a batch is asked for once, then its loop takes an item or waits (None).\<close>

definition g_next_turn :: "nat \<Rightarrow> rval option gevent_io" where
  "g_next_turn c =
     bind (g_gets (g_cursor c)) (\<lambda>cu.
       case cu_items cu of
         x # xs \<Rightarrow> bind (g_modify (g_set_cursor c (\<lambda>cu. cu\<lparr>cu_items := xs\<rparr>))) (\<lambda>_. ret (Some x))
       | [] \<Rightarrow> (case cu_error cu of Some e \<Rightarrow> g_fail e | None \<Rightarrow> ret None))"

definition g_next :: "proto \<Rightarrow> nat \<Rightarrow> rval option gevent_io" where
  "g_next p c = bind (g_fetch p c) (\<lambda>_. g_next_turn c)"

definition g_cursor_close :: "proto \<Rightarrow> nat \<Rightarrow> unit gevent_io" where
  "g_cursor_close p c =
     bind (g_gets (g_cursor c)) (\<lambda>cu.
       if cu_error cu = None then
         bind (g_modify (g_set_cursor c (\<lambda>cu. cu\<lparr>cu_error := Some empty_error\<rparr>))) (\<lambda>_.
         bind (g_gets g_open) (\<lambda>b.
           if b then
             bind (g_modify (g_set_cursor c (\<lambda>cu. cu\<lparr>cu_outstanding := cu_outstanding cu + 1\<rparr>))) (\<lambda>_.
             bind g_check_open (\<lambda>_. g_send p (control_query p ''STOP'' (wtoken (cu_query cu)))))
           else ret ()))
       else ret ())"

subsection \<open>Closing\<close>

text \<open>\<open>set\<close> and \<open>set_exception\<close> of a result, which may have been set before.\<close>

definition g_settle :: "nat \<Rightarrow> future \<Rightarrow> unit gevent_io" where
  "g_settle f v = g_modify (\<lambda>w. w\<lparr>g_results := (g_results w)[f := v]\<rparr>)"

definition g_shut :: "proto \<Rightarrow> error option \<Rightarrow> unit gevent_io" where
  "g_shut p e =
     bind (g_modify (\<lambda>w. w\<lparr>g_closing := True\<rparr>)) (\<lambda>_.
     bind (g_gets (\<lambda>w. map snd (g_cache w))) (\<lambda>cs.
     bind (seqs (map (g_cursor_fail p (close_message e)) cs)) (\<lambda>_.
     bind (g_gets (\<lambda>w. map (snd \<circ> snd) (g_queries w))) (\<lambda>fs.
     bind (seqs (map (\<lambda>f. g_settle f (Failed (driver_error (close_message e)))) fs)) (\<lambda>_.
       g_modify (\<lambda>w. w\<lparr>g_queries := [], g_cache := []\<rparr>))))))"

text \<open>Only an \<open>OSError\<close> of closing the socket is caught.\<close>

definition g_close_socket :: "unit gevent_io" where
  "g_close_socket = (\<lambda>w. case g_on_socket gevent_close w of
     (Inl (Raised x), w') \<Rightarrow> (if caught_by [PyOSError] x then Inr () else Inl (Raised x), w')
   | (r, w') \<Rightarrow> (r, w'))"

definition g_instance_close :: "proto \<Rightarrow> bool \<Rightarrow> int \<Rightarrow> error option \<Rightarrow> unit gevent_io" where
  "g_instance_close p nw token e =
     bind (g_shut p e) (\<lambda>_.
       if nw then
         bind (g_run_query p (control_query p ''NOREPLY_WAIT'' token)) (\<lambda>f.
           g_modify (\<lambda>w. w\<lparr>g_closers := f # g_closers w\<rparr>))
       else g_close_socket)"

definition g_close_end :: "nat \<Rightarrow> unit gevent_io" where
  "g_close_end f =
     bind (g_gets (\<lambda>w. g_results w ! f)) (\<lambda>x. case x of
       Done v \<Rightarrow> bind (g_modify (\<lambda>w. w\<lparr>g_closers := removeAll f (g_closers w)\<rparr>)) (\<lambda>_. g_close_socket)
     | Failed e \<Rightarrow> bind (g_modify (\<lambda>w. w\<lparr>g_closers := removeAll f (g_closers w)\<rparr>)) (\<lambda>_. g_fail e)
     | _ \<Rightarrow> ret ())"

definition g_close :: "proto \<Rightarrow> bool \<Rightarrow> unit gevent_io" where
  "g_close p nw =
     bind (g_gets g_attached) (\<lambda>b.
       if b then
         bind g_new_token (\<lambda>t.
         bind (g_modify (\<lambda>w. w\<lparr>g_attached := False, g_next_token := 0\<rparr>)) (\<lambda>_.
           g_instance_close p nw t None))
       else ret ())"

subsection \<open>The reader\<close>

definition g_resolve :: "proto \<Rightarrow> wire_query \<Rightarrow> nat \<Rightarrow> response \<Rightarrow> unit gevent_io" where
  "g_resolve p q f res =
     (if is_int (rtype res) (presponse p ''SUCCESS_ATOM'') then
        bind (g_lift (first_item (rdata res))) (\<lambda>v. g_settle f (Done (maybe_profile (Val v) res)))
      else if is_int (rtype res) (presponse p ''SUCCESS_SEQUENCE'')
           \<or> is_int (rtype res) (presponse p ''SUCCESS_PARTIAL'') then
        bind (g_new_cursor p q res) (\<lambda>c. g_settle f (Done (maybe_profile (Cur c) res)))
      else if is_int (rtype res) (presponse p ''WAIT_COMPLETE'') then g_settle f (Done Nothing)
      else bind (g_lift (make_error p res (wterm q))) (\<lambda>e. g_settle f (Failed e)))"

definition g_handle :: "proto \<Rightarrow> int \<Rightarrow> byte list \<Rightarrow> unit gevent_io" where
  "g_handle p token buf =
     bind (g_gets (\<lambda>w. map_of (g_cache w) token)) (\<lambda>c. case c of
       Some c \<Rightarrow> g_extend p c buf
     | None \<Rightarrow>
         bind (g_gets (\<lambda>w. map_of (g_queries w) token)) (\<lambda>x. case x of
           Some (q, f) \<Rightarrow>
             bind (g_lift (parse_response (formats_of q) token buf)) (\<lambda>res.
             bind (g_resolve p q f res) (\<lambda>_.
               g_modify (\<lambda>w. w\<lparr>g_queries := dict_del (g_queries w) token\<rparr>)))
         | None \<Rightarrow>
             bind (g_gets g_closing) (\<lambda>b. if b then ret () else g_fail unexpected_response)))"

text \<open>What ends the reader; what \<open>close\<close> may raise there is lost with the greenlet.\<close>

definition g_reader_fails :: "proto \<Rightarrow> error \<Rightarrow> gevent \<Rightarrow> gevent" where
  "g_reader_fails p e w =
     (if caught_by [PyException] e \<and> \<not> g_closing w
      then snd (bind (g_shut p (Some e)) (\<lambda>_. g_close_socket) (w\<lparr>g_reader := Ended\<rparr>))
      else w\<lparr>g_reader := Ended\<rparr>)"

text \<open>What the reader does with a result of one of its calls: it goes on, waits or fails.\<close>

definition g_reads :: "proto \<Rightarrow> (io_stop + 'a) \<times> gevent \<Rightarrow> ('a \<Rightarrow> gevent \<Rightarrow> gevent option) \<Rightarrow> gevent option" where
  "g_reads p x f = (case x of
     (Inr a, w) \<Rightarrow> f a w
   | (Inl Blocked, w) \<Rightarrow> None
   | (Inl (Raised e), w) \<Rightarrow> Some (g_reader_fails p e w))"

definition g_read :: "proto \<Rightarrow> gevent \<Rightarrow> gevent option" where
  "g_read p w =
     (case g_reader w of
        Ended \<Rightarrow> None
      | AtHeader \<Rightarrow>
          g_reads p (g_on_socket (gevent_recvall 12) w) (\<lambda>header w.
            case unpack_header header of
              Inl e \<Rightarrow> Some (g_reader_fails p e w)
            | Inr (token, n) \<Rightarrow> Some (w\<lparr>g_reader := AtBody token n\<rparr>))
      | AtBody token n \<Rightarrow>
          g_reads p (g_on_socket (gevent_recvall n) w) (\<lambda>buf w.
          g_reads p (g_handle p token buf w) (\<lambda>_ w. Some (w\<lparr>g_reader := AtHeader\<rparr>))))"

subsection \<open>The steps\<close>

definition goes_on :: "(io_stop + 'a) \<Rightarrow> bool" where
  "goes_on r \<longleftrightarrow> r \<noteq> Inl Blocked"

text \<open>A reader that waits when another greenlet closes the socket is stopped by an error of gevent.\<close>

inductive gevent_step :: "proto \<Rightarrow> gevent \<Rightarrow> gevent \<Rightarrow> bool" for p where
  network_delivers: "gevent_step p w (w\<lparr>g_socket := (g_socket w)\<lparr>incoming := incoming (g_socket w) @ [ev]\<rparr>\<rparr>)"
| network_accepts: "gevent_step p w (w\<lparr>g_socket := (g_socket w)\<lparr>sending := sending (g_socket w) @ [sv]\<rparr>\<rparr>)"
| reader_turn: "g_read p w = Some w' \<Longrightarrow> gevent_step p w w'"
| reader_cut: "\<not> g_open w \<Longrightarrow> g_reader w \<noteq> Ended \<Longrightarrow> gevent_step p w (g_reader_fails p (driver_error m) w)"
| query_made: "g_start p q opts w = (r, w') \<Longrightarrow> goes_on r \<Longrightarrow> gevent_step p w w'"
| control_made: "g_control p ty w = (r', w') \<Longrightarrow> goes_on r' \<Longrightarrow> gevent_step p w w'"
| next_called: "g_next p c w = (x, w') \<Longrightarrow> goes_on x \<Longrightarrow> gevent_step p w w'"
| next_woken: "g_next_turn c w = (x, w') \<Longrightarrow> gevent_step p w w'"
| cursor_shut: "g_cursor_close p c w = (u, w') \<Longrightarrow> goes_on u \<Longrightarrow> gevent_step p w w'"
| close_made: "g_close p nw w = (u, w') \<Longrightarrow> goes_on u \<Longrightarrow> gevent_step p w w'"
| close_woken: "f \<in> set (g_closers w) \<Longrightarrow> g_close_end f w = (u, w') \<Longrightarrow> gevent_step p w w'"

text \<open>After \<open>connect\<close>, over the socket the constructor of the wrapper has returned.\<close>

definition g_connected :: "sock \<Rightarrow> int \<Rightarrow> gevent" where
  "g_connected s v =
     \<lparr>g_attached = True, g_closing = False, g_cache = [], g_queries = [], g_cursors = [], g_results = [],
      g_closers = [], g_reader = AtHeader, g_socket = s, g_next_token = 0, g_var = v\<rparr>"

end
