(* ===== verification/GeventLife.thy ===== *)
theory GeventLife
  imports Gevent
begin

text \<open>
  The driver for gevent: the invariant of an instance and its cursors, and what happens to those
  who wait when the connection is lost or closed.
\<close>

subsection \<open>Steps that only touch cursors and the socket\<close>

definition g_tame :: "gevent \<Rightarrow> gevent \<Rightarrow> bool" where
  "g_tame w w' \<longleftrightarrow> length (g_cursors w') = length (g_cursors w)
     \<and> (\<forall>c. cu_query (g_cursor c w') = cu_query (g_cursor c w))
     \<and> (\<forall>t c. map_of (g_cache w') t = Some c \<longrightarrow> map_of (g_cache w) t = Some c)
     \<and> (distinct (map fst (g_cache w)) \<longrightarrow> distinct (map fst (g_cache w')))
     \<and> g_queries w' = g_queries w \<and> g_results w' = g_results w \<and> g_closers w' = g_closers w
     \<and> g_reader w' = g_reader w \<and> g_closing w' = g_closing w \<and> g_attached w' = g_attached w
     \<and> g_next_token w' = g_next_token w"

interpretation gt: frame_relation g_tame
  by unfold_locales (simp_all add: g_tame_def)

abbreviation g_tamely :: "'a gevent_io \<Rightarrow> bool" where
  "g_tamely m \<equiv> steps_within g_tame m"

named_theorems g_intros \<open>steps that only touch cursors and the socket\<close>

lemmas [g_intros] = gt.within_intros

lemma g_bind_simps:
  "bind (g_gets h) f w = f (h w) w" "bind (g_modify k) f' w = f' () (k w)"
  "bind (g_lift r) f'' w = (case r of Inl e \<Rightarrow> (Inl (Raised e), w) | Inr a \<Rightarrow> f'' a w)"
  by (simp_all add: bind_def g_gets_def g_modify_def g_lift_def lift_res_def split: sum.splits)

lemma g_app: "g_modify k w = (Inr (), k w)" "g_fail e w = (Inl (Raised e), w)" "g_settle f v w = (Inr (), w\<lparr>g_results := (g_results w)[f := v]\<rparr>)"
  by (simp_all add: g_modify_def g_fail_def raise_def g_settle_def)

lemma g_cursor_set:
  "g_cursor d (g_set_cursor c f w) = (if d = c \<and> c < length (g_cursors w) then f (g_cursor c w) else g_cursor d w)"
  by (cases "c < length (g_cursors w)") (auto simp: g_cursor_def g_set_cursor_def nth_list_update list_update_beyond)

lemma g_tamely_basic [g_intros]: "g_tamely (g_gets h)" "g_tamely (g_fail e)" "g_tamely (g_lift r)"
  by (auto simp: g_gets_def g_fail_def g_lift_def lift_res_def raise_def gt.R_refl)

lemma g_tamely_modify: "(\<And>w. g_tame w (f w)) \<Longrightarrow> g_tamely (g_modify f)"
  by (auto simp: g_modify_def)

lemma g_tame_cursor:
  "cu_query (f (g_cursor c w)) = cu_query (g_cursor c w) \<Longrightarrow> g_tame w (g_set_cursor c f w)"
  by (auto simp: g_tame_def g_cursor_set) (simp_all add: g_set_cursor_def)

lemma g_tamely_cursor [g_intros]:
  "(\<And>cu. cu_query (f cu) = cu_query cu) \<Longrightarrow> g_tamely (g_modify (g_set_cursor c f))"
  by (rule g_tamely_modify) (simp add: g_tame_cursor)

lemma g_tame_fields [simp]: "g_tame w (w\<lparr>g_socket := s\<rparr>)" "g_tame w (w\<lparr>g_var := v\<rparr>)"
  by (simp_all add: g_tame_def g_cursor_def)

lemma g_tamely_socket [g_intros]: "g_tamely (g_on_socket m)"
  by (auto simp: g_on_socket_def split: prod.splits)

lemma g_tamely_serialize [g_intros]: "g_tamely (g_serialize p q)"
  by (auto simp: g_serialize_def split: prod.splits)

lemma g_tamely_send [g_intros]: "g_tamely (g_send p q)"
  unfolding g_send_def by (intro g_intros)

lemma g_tamely_check [g_intros]: "g_tamely g_check_open"
  unfolding g_check_open_def by (intro g_intros)

lemma g_tamely_fetch [g_intros]: "g_tamely (g_fetch p c)"
  unfolding g_fetch_def by (intro g_intros) auto

lemma g_tamely_forget [g_intros]: "g_tamely (g_forget t)"
  unfolding g_forget_def
  by (intro g_intros g_tamely_modify) (auto simp: g_tame_def g_cursor_def dict_simps dict_del_distinct split: if_splits)

lemma g_tamely_absorb:
  assumes "\<And>cu'. g_tamely (f cu')"
  shows "g_tamely (bind (g_gets (g_cursor c)) (\<lambda>cu. bind (g_lift (absorb e p res xs cu)) (\<lambda>cu'.
     bind (g_modify (g_set_cursor c (\<lambda>_. cu'))) (\<lambda>_. f cu'))))"
proof
  fix w
  show "g_tame w (snd (bind (g_gets (g_cursor c)) (\<lambda>cu. bind (g_lift (absorb e p res xs cu)) (\<lambda>cu'.
     bind (g_modify (g_set_cursor c (\<lambda>_. cu'))) (\<lambda>_. f cu'))) w))"
  proof (cases "absorb e p res xs (g_cursor c w)")
    case (Inl x)
    then show ?thesis by (simp add: g_bind_simps gt.R_refl)
  next
    case (Inr cu')
    have 1: "g_tame w (g_set_cursor c (\<lambda>_. cu') w)" by (rule g_tame_cursor) (rule absorb_query [OF Inr])
    have 2: "g_tame (g_set_cursor c (\<lambda>_. cu') w) (snd (f cu' (g_set_cursor c (\<lambda>_. cu') w)))"
      using assms by (simp add: steps_within_def)
    show ?thesis using gt.R_trans [OF 1 2] Inr by (simp add: g_bind_simps)
  qed
qed

lemma g_tamely_extend_internal [g_intros]: "g_tamely (g_extend_internal p c res)"
  unfolding g_extend_internal_def
  by (rule gt.within_bind, rule g_intros, rule gt.within_bind, rule g_intros, simp, rule g_tamely_absorb, intro g_intros)

lemma g_tamely_extend [g_intros]: "g_tamely (g_extend p c buf)"
  unfolding g_extend_def by (intro g_intros) auto

lemma g_tamely_cursor_fail [g_intros]: "g_tamely (g_cursor_fail p m c)"
  unfolding g_cursor_fail_def by (intro g_intros) auto

lemma g_tamely_next_turn [g_intros]: "g_tamely (g_next_turn c)"
  unfolding g_next_turn_def by (intro g_intros) auto

lemma g_tamely_next [g_intros]: "g_tamely (g_next p c)"
  unfolding g_next_def by (intro g_intros)

lemma g_tamely_cursor_close [g_intros]: "g_tamely (g_cursor_close p c)"
  unfolding g_cursor_close_def by (intro g_intros) auto

lemma g_tamely_close_socket [g_intros]: "g_tamely g_close_socket"
proof
  fix w
  have "g_tame w (snd (g_on_socket gevent_close w))" using g_tamely_socket [of gevent_close] by (simp add: steps_within_def)
  then show "g_tame w (snd (g_close_socket w))"
    by (auto simp: g_close_socket_def split: prod.splits sum.splits io_stop.splits)
qed

subsection \<open>The invariant\<close>

definition g_wf :: "gevent \<Rightarrow> bool" where
  "g_wf w \<longleftrightarrow> queries_wf (g_queries w) (g_results w) \<and> cursors_wf (g_cache w) (g_cursors w)
     \<and> all_registered (g_queries w) (g_results w)
     \<and> (g_attached w \<longrightarrow> 0 \<le> g_next_token w \<and> all_below (g_next_token w) (g_queries w)
          \<and> all_below (g_next_token w) (g_cache w))"

lemma g_tame_same:
  "g_tame w w' \<Longrightarrow> g_queries w' = g_queries w \<and> g_results w' = g_results w \<and> g_closers w' = g_closers w
     \<and> g_reader w' = g_reader w \<and> g_closing w' = g_closing w \<and> g_attached w' = g_attached w
     \<and> g_next_token w' = g_next_token w"
  by (simp add: g_tame_def)

lemma g_tame_cursors_wf:
  assumes "g_tame w w'" "cursors_wf (g_cache w) (g_cursors w)"
  shows "cursors_wf (g_cache w') (g_cursors w')"
  unfolding cursors_wf_def
proof (intro conjI allI impI)
  show "distinct (map fst (g_cache w'))" using assms unfolding g_tame_def cursors_wf_def by blast
next
  fix t c assume "map_of (g_cache w') t = Some c"
  then have "map_of (g_cache w) t = Some c" using assms(1) unfolding g_tame_def by blast
  from cursors_wfD [OF assms(2) this] assms(1)
  show "c < length (g_cursors w')" "wtoken (cu_query (g_cursors w' ! c)) = t"
    by (simp_all add: g_tame_def g_cursor_def)
qed

lemma g_tame_below: "g_tame w w' \<Longrightarrow> all_below n (g_cache w) \<Longrightarrow> all_below n (g_cache w')"
  by (rule all_below_mono [of _ "g_cache w"]) (simp_all add: g_tame_def)

lemma g_tame_wf: "g_tame w w' \<Longrightarrow> g_wf w \<Longrightarrow> g_wf w'"
  using g_tame_same [of w w'] g_tame_cursors_wf [of w w'] g_tame_below [of w w'] by (simp add: g_wf_def)

lemma g_tamely_wf: "g_tamely m \<Longrightarrow> m w = (r, w') \<Longrightarrow> g_wf w \<Longrightarrow> g_wf w'"
  by (erule g_tame_wf [OF _ _, rotated]) (erule steps_withinD)

lemma g_wf_registered:
  assumes "g_wf w" "map_of (g_queries w) (wtoken q) = None" "g_attached w \<Longrightarrow> wtoken q < g_next_token w"
  shows "g_wf (w\<lparr>g_results := g_results w @ [Pending],
    g_queries := dict_put (g_queries w) (wtoken q) (q, length (g_results w))\<rparr>)"
  using assms queries_wf_put [OF _ refl assms(2), of "g_results w"] all_registered_put [OF _ _ assms(2), of "g_results w" q]
  by (simp add: g_wf_def all_below_put)

lemma g_run_query_cases:
  assumes "g_run_query p q w = (r, w')"
  obtains w1 where "g_tame w w1" "(\<exists>e. r = Inl e) \<and> w' = w1
     \<or> r = Inr (length (g_results w)) \<and> w' = w1\<lparr>g_results := g_results w1 @ [Pending],
          g_queries := dict_put (g_queries w1) (wtoken q) (q, length (g_results w1))\<rparr>"
proof -
  obtain r1 w1 where 1: "g_send p q w = (r1, w1)" by (cases "g_send p q w")
  then have t: "g_tame w w1" by (rule steps_withinD [OF g_tamely_send])
  show ?thesis
    by (rule that [OF t], use assms 1 g_tame_same [OF t] in
      \<open>cases r1; auto simp: g_run_query_def bind_def [of "g_send p q"] g_bind_simps ret_def\<close>)
qed

lemma g_run_query_wf:
  assumes "g_run_query p q w = (r, w')" "g_wf w" "map_of (g_queries w) (wtoken q) = None"
    "g_attached w \<Longrightarrow> wtoken q < g_next_token w"
  shows "g_wf w'"
proof -
  obtain w1 where t: "g_tame w w1" and w': "(\<exists>e. r = Inl e) \<and> w' = w1
     \<or> r = Inr (length (g_results w)) \<and> w' = w1\<lparr>g_results := g_results w1 @ [Pending],
          g_queries := dict_put (g_queries w1) (wtoken q) (q, length (g_results w1))\<rparr>"
    using g_run_query_cases [OF assms(1)] .
  have "g_wf w1" using g_tame_wf [OF t assms(2)] .
  then show ?thesis using w' g_wf_registered [of w1 q] assms(3,4) g_tame_same [OF t] by auto
qed

lemma g_check_open_app:
  "g_check_open w = (if g_attached w \<and> g_open w then Inr () else Inl (Raised connection_closed), w)"
  by (simp add: g_check_open_def g_bind_simps ret_def g_app)

lemma g_bind_open:
  "bind g_check_open f w = (if g_attached w \<and> g_open w then f () w else (Inl (Raised connection_closed), w))"
  by (simp add: bind_def g_check_open_app)

lemma g_bind_token: "bind g_new_token f w = f (g_next_token w) (w\<lparr>g_next_token := g_next_token w + 1\<rparr>)"
  by (simp add: g_new_token_def g_bind_simps bind_assoc ret_def bind_def g_gets_def g_modify_def)

lemma g_wf_token: "g_wf w \<Longrightarrow> g_attached w \<Longrightarrow> g_wf (w\<lparr>g_next_token := g_next_token w + 1\<rparr>)"
  by (auto simp: g_wf_def elim: all_below_more)

lemma g_wf_fresh: "g_wf w \<Longrightarrow> g_attached w \<Longrightarrow> map_of (g_queries w) (g_next_token w) = None"
  by (auto simp: g_wf_def intro: all_below_fresh)

lemma g_run_new_wf:
  assumes "g_run_query p q (w\<lparr>g_next_token := g_next_token w + 1\<rparr>) = (r, w')" "wtoken q = g_next_token w"
    "g_wf w" "g_attached w"
  shows "g_wf w'"
  by (rule g_run_query_wf [OF assms(1) g_wf_token]) (use assms g_wf_fresh [of w] in auto)

lemma g_start_wf:
  assumes "g_start p q opts w = (r, w')" "g_wf w"
  shows "g_wf w'"
proof (cases "g_attached w \<and> g_open w")
  case False
  then show ?thesis using assms by (auto simp: g_start_def g_bind_open)
next
  case True
  let ?wq = "make_query (pquery p ''START'') (g_next_token w) (Some q) (Some opts)"
    and ?w = "w\<lparr>g_next_token := g_next_token w + 1\<rparr>"
  have wf: "g_wf ?w" using g_wf_token assms(2) True by simp
  show ?thesis
  proof (cases "wants_noreply ?wq")
    case noreply: True
    let ?m = "bind (g_send p ?wq) (\<lambda>_. ret (None :: nat option))"
    have "?m ?w = (r, w')" using noreply assms(1) True by (simp add: g_start_def g_bind_open g_bind_token)
    moreover have "g_tamely ?m" by (intro g_intros)
    ultimately show ?thesis using wf g_tamely_wf [of ?m] by simp
  next
    case False
    obtain r1 where "g_run_query p ?wq ?w = (r1, w')"
      using assms(1) True False
      by (auto simp: g_start_def g_bind_open g_bind_token bind_def [of "g_run_query _ _"] ret_def split: prod.splits sum.splits)
    from g_run_new_wf [OF this] show ?thesis using assms(2) True by (simp add: make_query_def)
  qed
qed

lemma g_control_wf: "g_control p ty w = (r, w') \<Longrightarrow> g_wf w \<Longrightarrow> g_wf w'"
  using g_run_new_wf [of p "control_query p ty (g_next_token w)" w r w']
  by (auto simp: g_control_def g_bind_open g_bind_token control_query_def make_query_def split: if_splits)

lemma g_new_cursor_wf:
  assumes "g_new_cursor p q res w = (r, w')" "g_wf w" "map_of (g_queries w) (wtoken q) \<noteq> None"
  shows "g_wf w' \<and> g_queries w' = g_queries w \<and> g_results w' = g_results w"
proof -
  let ?c = "length (g_cursors w)"
  let ?w = "w\<lparr>g_cursors := g_cursors w @ [init_cursor 0 q], g_cache := dict_put (g_cache w) (wtoken q) ?c\<rparr>"
  have "cursors_wf (dict_put (g_cache w) (wtoken q) ?c) (g_cursors w @ [init_cursor 0 q])"
    using assms(2) by (intro cursors_wf_put) (simp_all add: g_wf_def init_cursor_def)
  moreover have "wtoken q < g_next_token w" if "g_attached w"
    using assms(2,3) that by (simp add: g_wf_def all_below_def)
  ultimately have wf: "g_wf ?w" using assms(2) by (simp add: g_wf_def all_below_put)
  have "g_tamely (bind (g_fetch p ?c) (\<lambda>_. bind (g_extend_internal p ?c res) (\<lambda>_. ret ?c)))"
    by (intro g_intros)
  from steps_withinD [OF this, of ?w r w'] have t: "g_tame ?w w'"
    using assms(1) by (simp add: g_new_cursor_def g_bind_simps)
  show ?thesis using g_tame_wf [OF t wf] g_tame_same [OF t] by simp
qed

text \<open>A response sets the result of its query or leaves the results as they are.\<close>

definition g_sets :: "nat \<Rightarrow> gevent \<Rightarrow> (io_stop + unit) \<times> gevent \<Rightarrow> bool" where
  "g_sets f w x \<longleftrightarrow> (\<exists>w1. g_wf w1 \<and> g_queries w1 = g_queries w \<and> g_results w1 = g_results w
     \<and> ((\<exists>e. x = (Inl e, w1)) \<or> (\<exists>v. v \<noteq> Pending \<and> x = (Inr (), w1\<lparr>g_results := (g_results w)[f := v]\<rparr>))))"

lemma g_sets_refl: "g_wf w \<Longrightarrow> v \<noteq> Pending \<Longrightarrow> g_sets f w (g_settle f v w)"
  unfolding g_sets_def by (rule exI [of _ w]) (auto simp: g_app)

lemma g_sets_lift: "g_wf w \<Longrightarrow> (\<And>a. v a \<noteq> Pending) \<Longrightarrow> g_sets f w (bind (g_lift x) (\<lambda>a. g_settle f (v a)) w)"
  by (cases x) (simp_all add: g_bind_simps g_sets_refl, auto simp: g_sets_def)

lemma g_resolve_sets:
  assumes "g_wf w" "map_of (g_queries w) (wtoken q) \<noteq> None"
  shows "g_sets f w (g_resolve p q f res w)"
proof -
  obtain r1 w1 where n: "g_new_cursor p q res w = (r1, w1)" by (cases "g_new_cursor p q res w")
  from g_new_cursor_wf [OF this assms] have w1: "g_wf w1" "g_queries w1 = g_queries w" "g_results w1 = g_results w" by simp_all
  have "g_sets f w (bind (g_new_cursor p q res) (\<lambda>c. g_settle f (Done (maybe_profile (Cur c) res))) w)"
    unfolding g_sets_def by (rule exI [of _ w1]) (use n w1 in \<open>cases r1; auto simp: bind_def g_app\<close>)
  then show ?thesis unfolding g_resolve_def using assms(1) by (auto intro: g_sets_refl g_sets_lift)
qed

lemma g_wf_settled:
  "g_wf w \<Longrightarrow> map_of (g_queries w) t = Some (q, f) \<Longrightarrow> v \<noteq> Pending
     \<Longrightarrow> g_wf (w\<lparr>g_results := (g_results w)[f := v], g_queries := dict_del (g_queries w) t\<rparr>)"
  using queries_wf_settled [of "g_queries w" "g_results w" t q f v] all_registered_settled [of "g_queries w" "g_results w" t q f v]
  by (simp add: g_wf_def all_below_del)

lemma g_wf_token_of: "g_wf w \<Longrightarrow> map_of (g_queries w) t = Some (q, f) \<Longrightarrow> wtoken q = t"
  unfolding g_wf_def queries_wf_def by blast

lemma g_handle_wf:
  assumes "g_handle p t buf w = (r, w')" "g_wf w"
  shows "g_wf w'"
proof (cases "map_of (g_cache w) t")
  case (Some c)
  then have "g_extend p c buf w = (r, w')" using assms(1) by (simp add: g_handle_def g_bind_simps)
  then show ?thesis using assms(2) g_tamely_wf [OF g_tamely_extend] by blast
next
  case None
  show ?thesis
  proof (cases "map_of (g_queries w) t")
    case N: None
    then show ?thesis using None assms by (auto simp: g_handle_def g_bind_simps ret_def g_app split: if_splits)
  next
    case (Some x)
    obtain q f where qf: "map_of (g_queries w) t = Some (q, f)" using Some by (cases x) auto
    show ?thesis
    proof (cases "parse_response (formats_of q) t buf")
      case (Inl e)
      then show ?thesis using None qf assms by (auto simp: g_handle_def g_bind_simps)
    next
      case (Inr res)
      have h: "bind (g_resolve p q f res) (\<lambda>_. g_modify (\<lambda>w. w\<lparr>g_queries := dict_del (g_queries w) t\<rparr>)) w = (r, w')"
        using None qf Inr assms(1) by (simp add: g_handle_def g_bind_simps)
      obtain w1 where w1: "g_wf w1" "g_queries w1 = g_queries w" "g_results w1 = g_results w"
        "(\<exists>e. g_resolve p q f res w = (Inl e, w1))
          \<or> (\<exists>v. v \<noteq> Pending \<and> g_resolve p q f res w = (Inr (), w1\<lparr>g_results := (g_results w)[f := v]\<rparr>))"
        using g_resolve_sets [OF assms(2), of q f p res] g_wf_token_of [OF assms(2) qf] qf unfolding g_sets_def by auto
      then show ?thesis using h g_wf_settled [of w1 t q f] qf by (auto simp: bind_def g_app simp del: map_of_eq_Some_iff)
    qed
  qed
qed

subsection \<open>Closing\<close>

definition g_cached :: "nat \<Rightarrow> gevent \<Rightarrow> bool" where
  "g_cached c w \<longleftrightarrow> c < length (g_cursors w)
     \<and> (cu_error (g_cursor c w) = None \<longrightarrow> map_of (g_cache w) (wtoken (cu_query (g_cursor c w))) = Some c)"

lemma g_fetch_quiet: "cu_error (g_cursor c w) \<noteq> None \<Longrightarrow> g_fetch p c w = (Inr (), w)"
  by (auto simp: g_fetch_def g_bind_simps ret_def)

lemma g_set_cursor_twice [simp]:
  "c < length (g_cursors w) \<Longrightarrow> g_set_cursor c f (g_set_cursor c k w) = g_set_cursor c (\<lambda>cu. f (k cu)) w"
  by (simp add: g_set_cursor_def g_cursor_def)

lemma g_set_cursor_frame [simp]:
  "length (g_cursors (g_set_cursor c f w)) = length (g_cursors w)" "g_cache (g_set_cursor c f w) = g_cache w"
  by (simp_all add: g_set_cursor_def)

lemma g_set_cursor_cong: "f (g_cursor c w) = k (g_cursor c w) \<Longrightarrow> g_set_cursor c f w = g_set_cursor c k w"
  by (simp add: g_set_cursor_def)

lemma g_set_cursor_same: "f (g_cursor c w) = g_cursor c w \<Longrightarrow> g_set_cursor c f w = w"
  by (cases "c < length (g_cursors w)") (simp_all add: g_set_cursor_def g_cursor_def list_update_beyond)

lemma g_cursor_fail_run:
  assumes "g_cached c w"
  shows "\<exists>d. g_cursor_fail p m c w = (Inr (), (g_set_cursor c (a_failed m) w)\<lparr>g_cache := d\<rparr>)
     \<and> (d = g_cache w \<or> cu_error (g_cursor c w) = None \<and> d = dict_del (g_cache w) (wtoken (cu_query (g_cursor c w))))"
proof (cases "cu_error (g_cursor c w)")
  case (Some e)
  then have "g_set_cursor c (a_failed m) w = w" by (simp add: g_set_cursor_same a_failed_def)
  then show ?thesis using Some by (auto simp: g_cursor_fail_def g_bind_simps ret_def intro!: exI [of _ "g_cache w"])
next
  case None
  let ?cu = "g_cursor c w" and ?w = "g_set_cursor c (a_failed m) w"
  let ?e = "\<lambda>cu. reql_error ReqlRuntimeError m (wterm (cu_query cu)) (Some [])"
  let ?w1 = "g_set_cursor c (\<lambda>cu. cu\<lparr>cu_error := Some (?e cu), cu_outstanding := cu_outstanding cu - 1\<rparr>) w"
  have c: "c < length (g_cursors w)" "map_of (g_cache w) (wtoken (cu_query ?cu)) = Some c"
    using assms None by (auto simp: g_cached_def)
  have quiet: "g_fetch p c ?w1 = (Inr (), ?w1)" using c by (simp add: g_fetch_quiet g_cursor_set)
  have fail: "g_cursor_fail p m c w
      = g_extend_internal p c (batch_response (wtoken (cu_query ?cu)) (sequence_of p) []) ?w1"
    using None c quiet
    by (simp add: g_cursor_fail_def g_bind_simps g_extend_def bind_def [of "g_fetch p c"] parse_dummy g_cursor_set)
  have "g_extend_internal p c (batch_response t (sequence_of p) []) ?w1
      = (if cu_outstanding ?cu = 1 then g_forget t ?w else (Inr (), ?w))" for t
  proof -
    have "g_set_cursor c (\<lambda>_. ?cu\<lparr>cu_error := Some (?e ?cu), cu_outstanding := cu_outstanding ?cu - 1,
        cu_threshold := 0\<rparr>) w = ?w"
      by (rule g_set_cursor_cong) (simp add: a_failed_def None)
    then show ?thesis
      using c by (simp add: g_extend_internal_def g_bind_simps batch_response_def absorb_def ret_def g_cursor_set)
  qed
  moreover have "g_forget (wtoken (cu_query ?cu)) ?w
      = (Inr (), ?w\<lparr>g_cache := dict_del (g_cache w) (wtoken (cu_query ?cu))\<rparr>)"
    using c by (simp add: g_forget_def g_bind_simps g_app)
  moreover have "?w\<lparr>g_cache := g_cache w\<rparr> = ?w" by (simp add: g_set_cursor_def)
  ultimately show ?thesis
    using fail None by (cases "cu_outstanding ?cu = 1") (auto intro: exI [of _ "g_cache w"])
qed

lemma g_cursors_fail_run:
  assumes "\<forall>c \<in> set cs. g_cached c w"
  shows "\<exists>us w'. seqs (map (g_cursor_fail p m) cs) w = (Inr us, w')
     \<and> (\<forall>c. c \<in> set cs \<or> cu_error (g_cursor c w) \<noteq> None \<longrightarrow> cu_error (g_cursor c w') \<noteq> None)"
  using assms
proof (induction cs arbitrary: w)
  case Nil
  then show ?case by (simp add: ret_def)
next
  case (Cons c cs)
  obtain d where d: "g_cursor_fail p m c w = (Inr (), (g_set_cursor c (a_failed m) w)\<lparr>g_cache := d\<rparr>)"
      (is "_ = (_, ?w)")
    and dd: "d = g_cache w \<or> cu_error (g_cursor c w) = None \<and> d = dict_del (g_cache w) (wtoken (cu_query (g_cursor c w)))"
    using g_cursor_fail_run [of c w p m] Cons.prems by auto
  have c: "c < length (g_cursors w)" using Cons.prems by (simp add: g_cached_def)
  have cur: "g_cursor c' ?w = (if c' = c then a_failed m (g_cursor c w) else g_cursor c' w)" for c'
    using g_cursor_set [of c' c "a_failed m" w] c by (simp add: g_cursor_def)
  have other: "c' = c" if "c' \<in> set cs" "cu_error (g_cursor c' w) = None" "cu_error (g_cursor c w) = None"
    "wtoken (cu_query (g_cursor c' w)) = wtoken (cu_query (g_cursor c w))" for c'
    using Cons.prems that by (simp add: g_cached_def) (metis option.inject)
  have "g_cached c' ?w" if c': "c' \<in> set cs" for c'
    using dd c c' Cons.prems cur [of c'] other [of c'] by (auto simp: g_cached_def dict_simps)
  then obtain us w' where r: "seqs (map (g_cursor_fail p m) cs) ?w = (Inr us, w')"
    and e: "\<forall>c. c \<in> set cs \<or> cu_error (g_cursor c ?w) \<noteq> None \<longrightarrow> cu_error (g_cursor c w') \<noteq> None"
    using Cons.IH [of ?w] by auto
  have "cu_error (g_cursor c' w') \<noteq> None" if "c' \<in> set (c # cs) \<or> cu_error (g_cursor c' w) \<noteq> None" for c'
    using that spec [OF e, of c'] cur [of c'] a_failed_simps(2) [of m "g_cursor c w"]
    by (cases "c' = c") auto
  then show ?case using d r by (auto simp: bind_def ret_def)
qed

lemma g_settle_all_run:
  "\<exists>us. seqs (map (\<lambda>f. g_settle f v) fs) w = (Inr us, w\<lparr>g_results := foldl (\<lambda>xs f. xs[f := v]) (g_results w) fs\<rparr>)"
proof (induction fs arbitrary: w)
  case Nil
  then show ?case by (simp add: ret_def)
next
  case (Cons f fs)
  obtain us where "seqs (map (\<lambda>f. g_settle f v) fs) (w\<lparr>g_results := (g_results w)[f := v]\<rparr>)
      = (Inr us, w\<lparr>g_results := foldl (\<lambda>xs f. xs[f := v]) (g_results w) (f # fs)\<rparr>)"
    using Cons.IH [of "w\<lparr>g_results := (g_results w)[f := v]\<rparr>"] by auto
  then show ?case by (simp add: bind_def [of "g_settle f v"] bind_def [of "seqs _"] g_app(3) [of f v] ret_def)
qed

lemma set_all_length [simp]: "length (foldl (\<lambda>xs f. xs[f := v]) xs fs) = length xs"
  by (induction fs arbitrary: xs) simp_all

lemma set_all_nth: "i < length xs \<Longrightarrow> foldl (\<lambda>xs f. xs[f := v]) xs fs ! i = (if i \<in> set fs then v else xs ! i)"
  by (induction fs arbitrary: xs) (simp_all add: nth_list_update)

definition g_shut_state :: "error option \<Rightarrow> gevent \<Rightarrow> gevent \<Rightarrow> bool" where
  "g_shut_state e w w' \<longleftrightarrow> g_closing w' \<and> g_queries w' = [] \<and> g_cache w' = [] \<and> length (g_results w') = length (g_results w)
     \<and> (\<forall>f < length (g_results w). g_results w ! f = Pending
          \<longrightarrow> g_results w' ! f = Failed (driver_error (close_message e)))
     \<and> (\<forall>f < length (g_results w). g_results w' ! f \<noteq> Pending)
     \<and> (\<forall>t c. map_of (g_cache w) t = Some c \<longrightarrow> cu_error (g_cursor c w') \<noteq> None)
     \<and> g_reader w' = g_reader w \<and> g_attached w' = g_attached w \<and> g_next_token w' = g_next_token w
     \<and> g_closers w' = g_closers w"

lemma g_wf_cached:
  assumes "g_wf w" "c \<in> set (map snd (g_cache w))"
  shows "g_cached c (w\<lparr>g_closing := True\<rparr>)"
proof -
  obtain t where "(t, c) \<in> set (g_cache w)" using assms(2) by auto
  then have "map_of (g_cache w) t = Some c" using assms(1) by (simp add: g_wf_def cursors_wf_def)
  then show ?thesis using cursors_wfD [of "g_cache w" "g_cursors w" t c] assms(1)
    by (auto simp: g_cached_def g_cursor_def g_wf_def)
qed

lemma g_shut_run:
  assumes "g_wf w"
  shows "\<exists>w'. g_shut p e w = (Inr (), w') \<and> g_shut_state e w w'"
proof -
  let ?w0 = "w\<lparr>g_closing := True\<rparr>" and ?cs = "map snd (g_cache w)" and ?m = "close_message e"
  let ?v = "Failed (driver_error ?m)" and ?fs = "map (snd \<circ> snd) (g_queries w)"
  obtain us w1 where 1: "seqs (map (g_cursor_fail p ?m) ?cs) ?w0 = (Inr us, w1)"
    and err: "\<forall>c. c \<in> set ?cs \<longrightarrow> cu_error (g_cursor c w1) \<noteq> None"
    using g_cursors_fail_run [of ?cs ?w0 p ?m] g_wf_cached [OF assms] by blast
  have "g_tamely (seqs (map (g_cursor_fail p ?m) ?cs))" by (intro g_intros) (auto intro: g_intros)
  then have "g_tame ?w0 w1" using 1 by (rule steps_withinD)
  from g_tame_same [OF this] have same: "g_queries w1 = g_queries w" "g_results w1 = g_results w"
    "g_closers w1 = g_closers w" "g_reader w1 = g_reader w" "g_closing w1" "g_attached w1 = g_attached w"
    "g_next_token w1 = g_next_token w" by simp_all
  obtain us' where 2: "seqs (map (\<lambda>f. g_settle f ?v) ?fs) w1
      = (Inr us', w1\<lparr>g_results := foldl (\<lambda>xs f. xs[f := ?v]) (g_results w) ?fs\<rparr>)"
    using g_settle_all_run [of ?v ?fs w1] same by auto
  have reg: "all_registered (g_queries w) (g_results w)" using assms by (simp add: g_wf_def)
  have "f \<in> set ?fs" if f: "f < length (g_results w)" "g_results w ! f = Pending" for f
  proof -
    obtain t q where "map_of (g_queries w) t = Some (q, f)"
      using reg f unfolding all_registered_def by blast
    from map_of_SomeD [OF this] show ?thesis by force
  qed
  then have "foldl (\<lambda>xs f. xs[f := ?v]) (g_results w) ?fs ! f = ?v" if "f < length (g_results w)" "g_results w ! f = Pending" for f
    using that by (simp add: set_all_nth)
  moreover have "foldl (\<lambda>xs f. xs[f := ?v]) (g_results w) ?fs ! f \<noteq> Pending" if "f < length (g_results w)" for f
    using that calculation by (cases "g_results w ! f = Pending") (auto simp: set_all_nth)
  moreover have "\<forall>t c. map_of (g_cache w) t = Some c \<longrightarrow> cu_error (g_cursor c w1) \<noteq> None"
    using err by (force dest: map_of_SomeD)
  ultimately show ?thesis
    using 1 2 same
    by (simp add: g_shut_def g_bind_simps g_app bind_def [of "seqs _"] g_shut_state_def g_cursor_def)
qed

lemma g_shut_wf: "g_shut_state e w w' \<Longrightarrow> (g_attached w \<Longrightarrow> 0 \<le> g_next_token w) \<Longrightarrow> g_wf w'"
  by (auto simp: g_shut_state_def g_wf_def queries_wf_def cursors_wf_def all_registered_def all_below_def)

lemma g_close_socket_runs:
  "\<exists>r s. g_close_socket w = (r, w\<lparr>g_socket := s\<rparr>) \<and> \<not> sopen s \<and> r \<noteq> Inl Blocked"
proof (cases "sopen (g_socket w)")
  case False
  then have "g_close_socket w = (Inr (), w\<lparr>g_socket := g_socket w\<rparr>)"
    by (simp add: g_close_socket_def g_on_socket_def gevent_close_def)
  then show ?thesis using False by blast
next
  case True
  then show ?thesis
    by (cases "shutdown_error (g_socket w)") (auto simp: g_close_socket_def g_on_socket_def gevent_close_def)
qed

lemma g_reader_fails_run:
  assumes "g_wf w" "caught_by [PyException] e" "\<not> g_closing w"
  shows "\<exists>w1 s. g_shut_state (Some e) (w\<lparr>g_reader := Ended\<rparr>) w1 \<and> g_reader_fails p e w = w1\<lparr>g_socket := s\<rparr> \<and> \<not> sopen s"
proof -
  have "g_wf (w\<lparr>g_reader := Ended\<rparr>)" using assms(1) by (simp add: g_wf_def)
  from g_shut_run [OF this, of p "Some e"] obtain w1 where
    w1: "g_shut p (Some e) (w\<lparr>g_reader := Ended\<rparr>) = (Inr (), w1)" "g_shut_state (Some e) (w\<lparr>g_reader := Ended\<rparr>) w1" by blast
  obtain r s where "g_close_socket w1 = (r, w1\<lparr>g_socket := s\<rparr>)" "\<not> sopen s" using g_close_socket_runs by blast
  then show ?thesis using w1 assms(2,3) by (auto simp: g_reader_fails_def bind_def)
qed

lemma g_wf_fields [simp]:
  "g_wf (w\<lparr>g_socket := s\<rparr>) = g_wf w" "g_wf (w\<lparr>g_reader := r\<rparr>) = g_wf w" "g_wf (w\<lparr>g_closers := cs\<rparr>) = g_wf w"
  by (simp_all add: g_wf_def)

lemma g_reader_fails_wf:
  assumes "g_wf w"
  shows "g_wf (g_reader_fails p e w)"
proof (cases "caught_by [PyException] e \<and> \<not> g_closing w")
  case False
  then show ?thesis using assms by (auto simp: g_reader_fails_def)
next
  case True
  with g_reader_fails_run [OF assms, of e p] obtain w1 s where
    w1: "g_shut_state (Some e) (w\<lparr>g_reader := Ended\<rparr>) w1" "g_reader_fails p e w = w1\<lparr>g_socket := s\<rparr>" by blast
  have "g_wf w1" by (rule g_shut_wf [OF w1(1)]) (use assms in \<open>simp add: g_wf_def\<close>)
  then show ?thesis using w1(2) by simp
qed

lemma g_reads_wf:
  assumes "g_reads p x f = Some w'" "g_wf (snd x)" "\<And>a w. fst x = Inr a \<Longrightarrow> f a w = Some w' \<Longrightarrow> g_wf w \<Longrightarrow> g_wf w'"
  shows "g_wf w'"
  using assms g_reader_fails_wf [of "snd x" p]
  by (auto simp: g_reads_def split: prod.splits sum.splits io_stop.splits)

lemma g_read_wf:
  assumes "g_read p w = Some w'" "g_wf w"
  shows "g_wf w'"
proof -
  have s: "g_wf (snd (g_on_socket m w))" for m :: "byte list sock_io"
    using assms(2) by (simp add: g_on_socket_def split: prod.splits)
  show ?thesis
  proof (cases "g_reader w")
    case AtHeader
    let ?f = "\<lambda>header w. case unpack_header header of Inl e \<Rightarrow> Some (g_reader_fails p e w)
      | Inr (token, n) \<Rightarrow> Some (w\<lparr>g_reader := AtBody token n\<rparr>)"
    have "g_reads p (g_on_socket (gevent_recvall 12) w) ?f = Some w'" using assms(1) AtHeader by (simp add: g_read_def)
    then show ?thesis
      by (rule g_reads_wf [OF _ s]) (auto simp: g_reader_fails_wf split: sum.splits prod.splits)
  next
    case (AtBody t n)
    let ?f = "\<lambda>buf w. g_reads p (g_handle p t buf w) (\<lambda>_ w. Some (w\<lparr>g_reader := AtHeader\<rparr>))"
    have "g_reads p (g_on_socket (gevent_recvall n) w) ?f = Some w'" using assms(1) AtBody by (simp add: g_read_def)
    then show ?thesis
    proof (rule g_reads_wf [OF _ s])
      fix buf w1 assume f: "?f buf w1 = Some w'" and w1: "g_wf w1"
      have "g_wf (snd (g_handle p t buf w1))" using g_handle_wf [of p t buf w1 "fst (g_handle p t buf w1)"] w1 by simp
      then show "g_wf w'" by (rule g_reads_wf [OF f]) auto
    qed
  qed (use assms(1) in \<open>simp add: g_read_def\<close>)
qed

lemma g_close_end_wf:
  assumes "g_close_end f w = (r, w')" "g_wf w"
  shows "g_wf w'"
proof -
  obtain r s where "g_close_socket (w\<lparr>g_closers := removeAll f (g_closers w)\<rparr>)
      = (r, w\<lparr>g_closers := removeAll f (g_closers w)\<rparr>\<lparr>g_socket := s\<rparr>)" using g_close_socket_runs by blast
  then show ?thesis using assms
    by (cases "g_results w ! f") (auto simp: g_close_end_def g_bind_simps ret_def g_app)
qed

lemma g_close_wf:
  assumes "g_close p nw w = (r, w')" "g_wf w"
  shows "g_wf w'"
proof (cases "g_attached w")
  case False
  then show ?thesis using assms by (simp add: g_close_def g_bind_simps ret_def)
next
  case True
  let ?w = "w\<lparr>g_attached := False, g_next_token := 0\<rparr>" and ?q = "control_query p ''NOREPLY_WAIT'' (g_next_token w)"
  have "g_wf ?w" using assms(2) by (simp add: g_wf_def)
  from g_shut_run [OF this, of p None] obtain w1 where w1: "g_shut p None ?w = (Inr (), w1)" "g_shut_state None ?w w1" by blast
  have wf: "g_wf w1" using g_shut_wf [OF w1(2)] by simp
  have run: "(if nw then bind (g_run_query p ?q) (\<lambda>f. g_modify (\<lambda>w. w\<lparr>g_closers := f # g_closers w\<rparr>)) w1
      else g_close_socket w1) = (r, w')"
    using assms(1) True w1(1) by (cases nw) (simp_all add: g_close_def g_bind_simps g_bind_token g_instance_close_def bind_def [of "g_shut p None"])
  show ?thesis
  proof (cases nw)
    case False
    then show ?thesis using run wf g_tamely_wf [OF g_tamely_close_socket] by auto
  next
    case nw: True
    obtain r1 w2 where 2: "g_run_query p ?q w1 = (r1, w2)" by (cases "g_run_query p ?q w1")
    have "g_wf w2" by (rule g_run_query_wf [OF 2 wf]) (use w1(2) in \<open>simp_all add: g_shut_state_def\<close>)
    then show ?thesis using run nw 2 by (cases r1) (auto simp: bind_def g_app)
  qed
qed

lemma gevent_step_wf: "gevent_step p w w' \<Longrightarrow> g_wf w \<Longrightarrow> g_wf w'"
proof (induction rule: gevent_step.induct)
  case (next_called c w x w')
  then show ?case using g_tamely_wf [OF g_tamely_next] by blast
next
  case (next_woken c w x w')
  then show ?case using g_tamely_wf [OF g_tamely_next_turn] by blast
next
  case (cursor_shut c w u w')
  then show ?case using g_tamely_wf [OF g_tamely_cursor_close] by blast
qed (auto intro: g_read_wf g_reader_fails_wf g_start_wf g_control_wf g_close_wf g_close_end_wf)

lemma gevent_reach_wf: "(gevent_step p)\<^sup>*\<^sup>* (g_connected s v) w \<Longrightarrow> g_wf w"
proof (induction rule: rtranclp_induct)
  case base
  then show ?case by (simp add: g_connected_def g_wf_def queries_wf_def cursors_wf_def all_registered_def all_below_def)
qed (rule gevent_step_wf)

subsection \<open>The properties\<close>

text \<open>C40. The connection of the gevent driver is lost, a read of the reader raises an error, whatever the greenlets have
  done before.  If it is not
  closing, every caller that waits for a result is given the error, no other result is left open, every cursor that
  has more to come has an error, and the connection is closed.  If it is being closed, the reader ends and nothing
  else changes: nobody is told, and a \<open>close\<close> that waits for the server goes on waiting
  (\<open>gevent_close_hangs\<close>).\<close>

theorem gevent_lost_fails_all:
  assumes "(gevent_step p)\<^sup>*\<^sup>* (g_connected s v) w"
    and "g_reader w = AtHeader \<and> n = 12 \<or> g_reader w = AtBody t n"
    and "gevent_recvall n (g_socket w) = (Inl (Raised e), so)" "caught_by [PyException] e"
  shows "\<exists>w'. g_read p w = Some w' \<and> g_closing w' \<and> g_reader w' = Ended
     \<and> (if g_closing w then w' = w\<lparr>g_socket := so, g_reader := Ended\<rparr>
        else \<not> g_open w'
          \<and> (\<forall>f < length (g_results w). g_results w' ! f \<noteq> Pending
               \<and> (g_results w ! f = Pending \<longrightarrow> g_results w' ! f = Failed (driver_error (close_message (Some e)))))
          \<and> (\<forall>t c. map_of (g_cache w) t = Some c \<longrightarrow> cu_error (g_cursor c w') \<noteq> None)
          \<and> g_queries w' = [] \<and> g_cache w' = [])"
proof -
  let ?w = "w\<lparr>g_socket := so\<rparr>"
  have read: "g_read p w = Some (g_reader_fails p e ?w)"
    using assms(2,3) by (auto simp: g_read_def g_reads_def g_on_socket_def)
  show ?thesis
  proof (cases "g_closing w")
    case True
    then show ?thesis using read by (simp add: g_reader_fails_def)
  next
    case False
    have "g_wf ?w" using gevent_reach_wf [OF assms(1)] by simp
    from g_reader_fails_run [OF this assms(4), of p] False obtain w1 s1
      where w1: "g_shut_state (Some e) (?w\<lparr>g_reader := Ended\<rparr>) w1" "g_reader_fails p e ?w = w1\<lparr>g_socket := s1\<rparr>" "\<not> sopen s1"
      by auto
    then show ?thesis using read False
      by (intro exI [of _ "w1\<lparr>g_socket := s1\<rparr>"]) (simp add: g_shut_state_def g_open_def g_cursor_def)
  qed
qed

text \<open>The server's answer to \<open>server()\<close> is refused by this driver: its reader has no branch for the type of that
  response, so the caller is given an error for a correct answer.\<close>

theorem gevent_server_refused:
  assumes "g_reader w = AtBody t n" "gevent_recvall n (g_socket w) = (Inr buf, so)"
    and "map_of (g_cache w) t = None" "map_of (g_queries w) t = Some (q, f)"
    and "parse_response (formats_of q) t buf = Inr res" "rtype res = RInt (presponse p ''SERVER_INFO'')"
    and "presponse p ''SERVER_INFO'' \<notin> presponse p ` {''SUCCESS_ATOM'', ''SUCCESS_SEQUENCE'', ''SUCCESS_PARTIAL'',
      ''WAIT_COMPLETE'', ''CLIENT_ERROR'', ''COMPILE_ERROR'', ''RUNTIME_ERROR''}"
  shows "g_read p w = Some (w\<lparr>g_socket := so, g_reader := AtHeader, g_queries := dict_del (g_queries w) t,
     g_results := (g_results w)[f := Failed (driver_error (''Unknown Response type ''
       @ show_int (presponse p ''SERVER_INFO'') @ '' encountered in a response.''))]\<rparr>)"
proof -
  have "make_error p res (wterm q) = Inr (driver_error (''Unknown Response type ''
       @ show_int (presponse p ''SERVER_INFO'') @ '' encountered in a response.''))"
    using assms(6,7) by (simp add: make_error_def is_int_def)
  then have "g_resolve p q f res w' = (Inr (), w'\<lparr>g_results := (g_results w')[f := Failed (driver_error (''Unknown Response type ''
       @ show_int (presponse p ''SERVER_INFO'') @ '' encountered in a response.''))]\<rparr>)" for w'
    using assms(6,7) by (simp add: g_resolve_def is_int_def g_bind_simps g_app)
  then show ?thesis
    using assms(1-5) by (simp add: g_read_def g_reads_def g_on_socket_def g_handle_def g_bind_simps
        bind_def [of "g_resolve p q f res"] g_app)
qed

definition g_stuck :: "nat \<Rightarrow> gevent \<Rightarrow> bool" where
  "g_stuck f w \<longleftrightarrow> g_reader w = Ended \<and> \<not> g_attached w \<and> f < length (g_results w) \<and> g_results w ! f = Pending
     \<and> f \<in> set (g_closers w)"

lemma g_tame_stuck: "g_tame w w' \<Longrightarrow> g_stuck f w \<Longrightarrow> g_stuck f w'"
  using g_tame_same [of w w'] by (simp add: g_stuck_def)

lemma g_tamely_stuck: "g_tamely m \<Longrightarrow> m w = (r, w') \<Longrightarrow> g_stuck f w \<Longrightarrow> g_stuck f w'"
  by (erule g_tame_stuck [OF _ _, rotated]) (erule steps_withinD)

lemma g_close_end_stuck:
  assumes "g_close_end g w = (r, w')" "g_stuck f w"
  shows "g_stuck f w'"
proof -
  obtain r s where "g_close_socket (w\<lparr>g_closers := removeAll g (g_closers w)\<rparr>)
      = (r, w\<lparr>g_closers := removeAll g (g_closers w)\<rparr>\<lparr>g_socket := s\<rparr>)" using g_close_socket_runs by blast
  then show ?thesis using assms
    by (cases "g_results w ! g") (auto simp: g_close_end_def g_bind_simps ret_def g_app g_stuck_def)
qed

lemma gevent_step_stuck: "gevent_step p w w' \<Longrightarrow> g_stuck f w \<Longrightarrow> g_stuck f w'"
proof (induction rule: gevent_step.induct)
  case (reader_turn w w')
  then show ?case by (simp add: g_read_def g_stuck_def)
next
  case (query_made q opts w r w')
  then show ?case by (auto simp: g_start_def g_bind_open g_stuck_def)
next
  case (control_made ty w r' w')
  then show ?case by (auto simp: g_control_def g_bind_open g_stuck_def)
next
  case (next_called c w x w')
  then show ?case using g_tamely_stuck [OF g_tamely_next] by blast
next
  case (next_woken c w x w')
  then show ?case using g_tamely_stuck [OF g_tamely_next_turn] by blast
next
  case (cursor_shut c w u w')
  then show ?case using g_tamely_stuck [OF g_tamely_cursor_close] by blast
next
  case (close_made nw w u w')
  then show ?case by (auto simp: g_close_def g_bind_simps ret_def g_stuck_def)
next
  case (close_woken g w u w')
  then show ?case using g_close_end_stuck by blast
qed (simp_all add: g_stuck_def)

lemma gevent_steps_stuck: "(gevent_step p)\<^sup>*\<^sup>* w w' \<Longrightarrow> g_stuck f w \<Longrightarrow> g_stuck f w'"
  by (induction rule: rtranclp_induct) (auto intro: gevent_step_stuck)

text \<open>When the connection is lost while \<open>close\<close> waits for the server to have done all writes, the reader ends without
  telling anybody, since the connection is closing: \<open>close\<close> never returns.\<close>

theorem gevent_close_hangs:
  assumes "g_closing w" "\<not> g_attached w" "f \<in> set (g_closers w)" "f < length (g_results w)" "g_results w ! f = Pending"
    and "g_reader w = AtHeader" "fst (gevent_recvall 12 (g_socket w)) = Inl (Raised e)"
  shows "\<exists>w'. g_read p w = Some w'
     \<and> (\<forall>w''. (gevent_step p)\<^sup>*\<^sup>* w' w'' \<longrightarrow> g_results w'' ! f = Pending \<and> f \<in> set (g_closers w''))"
proof -
  obtain so where so: "gevent_recvall 12 (g_socket w) = (Inl (Raised e), so)" using assms(7) by (metis prod.collapse)
  let ?w = "w\<lparr>g_socket := so, g_reader := Ended\<rparr>"
  have "g_read p w = Some ?w"
    using assms(1,6) so by (simp add: g_read_def g_reads_def g_on_socket_def g_reader_fails_def)
  moreover have "g_stuck f ?w" using assms(2-5) by (simp add: g_stuck_def)
  then have "g_stuck f w''" if "(gevent_step p)\<^sup>*\<^sup>* ?w w''" for w''
    using gevent_steps_stuck that by blast
  ultimately show ?thesis by (intro exI [of _ ?w]) (auto simp: g_stuck_def)
qed

subsection \<open>Examples\<close>

text \<open>A connection on which \<open>server()\<close> has been called, with what the server has sent.\<close>

definition gevent_sock :: "recv_event list \<Rightarrow> sock" where
  "gevent_sock evs = \<lparr>shost = ''localhost'', sport = 28015, sopen = True, read_buffer = None, incoming = evs,
     sending = [Accepts 15], sent = [], shutdown_error = None, logged = []\<rparr>"

definition gevent_asked :: "recv_event list \<Rightarrow> gevent" where
  "gevent_asked evs = (g_connected ((gevent_sock evs)\<lparr>sending := [], sent := asked_bytes\<rparr>) 0)\<lparr>g_next_token := 1,
     g_results := [Pending], g_queries := [(0, (control_query proto_numbers ''SERVER_INFO'' 0, 0))]\<rparr>"

lemma g_run_query_run:
  "serialize p q (g_var w) = (Inr bs, v) \<Longrightarrow> gevent_sendall bs (g_socket w) = (Inr (), s)
     \<Longrightarrow> g_run_query p q w = (Inr (length (g_results w)), w\<lparr>g_var := v, g_socket := s, g_results := g_results w @ [Pending],
       g_queries := dict_put (g_queries w) (wtoken q) (q, length (g_results w))\<rparr>)"
  by (simp add: g_run_query_def g_send_def g_serialize_def g_on_socket_def bind_def g_gets_def g_modify_def ret_def)

lemma gevent_asked_reached: "(gevent_step proto_numbers)\<^sup>*\<^sup>* (g_connected (gevent_sock evs) 0) (gevent_asked evs)"
proof -
  have "length asked_bytes = 15" by (simp add: asked_bytes_def)
  then have "gevent_sendall asked_bytes (gevent_sock evs) = (Inr (), (gevent_sock evs)\<lparr>sending := [], sent := asked_bytes\<rparr>)"
    by (auto simp: gevent_sendall_def gevent_sock_def)
  moreover have "serialize proto_numbers (control_query proto_numbers ''SERVER_INFO'' 0) 0 = (Inr asked_bytes, 0)"
    using asked_frame [of "''SERVER_INFO''"] by (simp add: serialize_def control_query_def make_query_def lift_res_def)
  moreover have "wtoken (control_query proto_numbers ''SERVER_INFO'' 0) = 0" by (simp add: control_query_def make_query_def)
  ultimately have "g_control proto_numbers ''SERVER_INFO'' (g_connected (gevent_sock evs) 0) = (Inr 0, gevent_asked evs)"
    using g_run_query_run [of proto_numbers "control_query proto_numbers ''SERVER_INFO'' 0"
        "(g_connected (gevent_sock evs) 0)\<lparr>g_next_token := 1\<rparr>" asked_bytes 0 "(gevent_sock evs)\<lparr>sending := [], sent := asked_bytes\<rparr>"]
    by (simp add: g_control_def g_bind_open g_bind_token g_connected_def g_open_def gevent_asked_def) (simp add: gevent_sock_def)
  from control_made [OF this] show ?thesis by (simp add: goes_on_def)
qed

theorem gevent_lost_fails_all_witness:
  "\<exists>w'. g_read proto_numbers (gevent_asked [Arrived []]) = Some w' \<and> \<not> g_open w'
     \<and> g_results w' ! 0 = Failed (driver_error (close_message (Some connection_closed)))"
proof -
  let ?w = "gevent_asked [Arrived []]"
  have r: "gevent_recvall 12 (g_socket ?w)
      = (Inl (Raised connection_closed), snd (gevent_recvall 12 (g_socket ?w)))"
    by (simp add: gevent_asked_def g_connected_def gevent_sock_def gevent_recvall_def gevent_fail_def gevent_close_def bind_def raise_def)
  have c: "caught_by [PyException] connection_closed"
    by (simp add: connection_closed_def driver_error_def caught_by_def issubclass_code)
  have w: "\<not> g_closing ?w" "g_reader ?w = AtHeader" "g_results ?w = [Pending]" by (simp_all add: gevent_asked_def g_connected_def)
  from gevent_lost_fails_all [OF gevent_asked_reached _ r c, of 0] w show ?thesis by auto
qed

lemma info_body: "length (batch_body 5 [JNull]) = 18"
proof -
  have "length (utf8_encode s) = length s" if "is_ascii s" for s using that by (simp add: utf8_ascii)
  then show ?thesis
    by (simp_all add: batch_body_def batch_json_def show_int_def show_nat.simps digit_char_def chr_def char_of_def
        bit_0 bit_Suc quote_json_def escape_char_def is_ascii_def code_point_def)
qed

theorem gevent_server_refused_witness:
  "\<exists>w'. g_read proto_numbers ((gevent_asked [Arrived (batch_body 5 [JNull])])\<lparr>g_reader := AtBody 0 18\<rparr>) = Some w'
     \<and> g_results w' = [Failed (driver_error (''Unknown Response type '' @ show_int 5 @ '' encountered in a response.''))]"
proof -
  let ?w = "(gevent_asked [Arrived (batch_body 5 [JNull])])\<lparr>g_reader := AtBody 0 18\<rparr>" and ?q = "control_query proto_numbers ''SERVER_INFO'' 0"
  have n: "batch_body 5 [JNull] \<noteq> []" using info_body by auto
  have r: "gevent_recvall 18 (g_socket ?w) = (Inr (batch_body 5 [JNull]), (g_socket ?w)\<lparr>incoming := []\<rparr>)"
    using n info_body by (simp add: gevent_asked_def g_connected_def gevent_sock_def gevent_recvall_def)
  have q: "map_of (g_cache ?w) 0 = None" "map_of (g_queries ?w) 0 = Some (?q, 0)" "g_reader ?w = AtBody 0 18" "g_results ?w = [Pending]"
    by (simp_all add: gevent_asked_def g_connected_def)
  have b: "parse_response (formats_of ?q) 0 (batch_body 5 [JNull]) = Inr (batch_response 0 5 [JNull])"
    by (simp add: parse_batch plain_def)
  have t: "presponse proto_numbers ''SERVER_INFO'' = 5" by (simp add: proto_numbers_def)
  have "rtype (batch_response 0 5 [JNull]) = RInt (presponse proto_numbers ''SERVER_INFO'')"
    "presponse proto_numbers ''SERVER_INFO'' \<notin> presponse proto_numbers ` {''SUCCESS_ATOM'', ''SUCCESS_SEQUENCE'', ''SUCCESS_PARTIAL'',
      ''WAIT_COMPLETE'', ''CLIENT_ERROR'', ''COMPILE_ERROR'', ''RUNTIME_ERROR''}"
    by (simp_all add: batch_response_def proto_numbers_def)
  from gevent_server_refused [OF q(3) r q(1,2) b this] q(4) t show ?thesis by simp
qed

theorem gevent_close_hangs_witness:
  "\<exists>w'. g_read proto_numbers ((g_connected (gevent_sock [Arrived []]) 0)
      \<lparr>g_attached := False, g_closing := True, g_results := [Pending], g_closers := [0]\<rparr>) = Some w'
     \<and> g_results w' ! 0 = Pending"
proof -
  let ?w = "(g_connected (gevent_sock [Arrived []]) 0)\<lparr>g_attached := False, g_closing := True, g_results := [Pending], g_closers := [0]\<rparr>"
  have r: "fst (gevent_recvall 12 (g_socket ?w)) = Inl (Raised connection_closed)"
    by (simp add: g_connected_def gevent_sock_def gevent_recvall_def gevent_fail_def gevent_close_def bind_def raise_def)
  from gevent_close_hangs [of ?w 0, OF _ _ _ _ _ _ r, of proto_numbers] show ?thesis by (auto simp: g_connected_def)
qed

end
