(* ===== verification/TwistedFrames.thy ===== *)
theory TwistedFrames
  imports AsyncioLoop
begin

text \<open>
  How \<open>DatabaseProtocol\<close> of \<open>twisted_net/net_twisted.py\<close> takes the frames out of the data it is given:
  Twisted calls \<open>dataReceived\<close> with whatever has arrived, which may end in the middle of a header
  or a payload, and \<open>_handleResponse\<close> keeps what it cannot use yet.  The handler it calls is that of
  its factory, here a parameter.
\<close>

record rx =
  rx_buf :: "byte list"
  rx_expected :: nat
  rx_token :: "int option"

definition rx_start :: rx where
  "rx_start = \<lparr>rx_buf = [], rx_expected = 0, rx_token = None\<rparr>"

text \<open>Neither a header that has been read nor the bytes of one.\<close>

definition rx_short :: "rx \<Rightarrow> bool" where
  "rx_short x \<longleftrightarrow> rx_expected x = 0 \<and> length (rx_buf x) < 12"

text \<open>The header, unless it has been read already.\<close>

definition read_rx_header :: "rx \<Rightarrow> error + rx" where
  "read_rx_header x =
     (if rx_expected x = 0
      then rmap (\<lambda>(t, n). \<lparr>rx_buf = drop 12 (rx_buf x), rx_expected = n, rx_token = Some t\<rparr>)
        (unpack_header (take 12 (rx_buf x)))
      else Inr x)"

text \<open>The loop of \<open>_handleResponse\<close>; when the handler raises, its payload stays in the buffer.\<close>

function handle_frames :: "(int option \<Rightarrow> byte list \<Rightarrow> ('w, error, unit) comp) \<Rightarrow> rx \<Rightarrow> 'w \<Rightarrow> ((error + unit) \<times> rx) \<times> 'w" where
  "handle_frames handle x w =
     (if rx_short x then ((Inr (), x), w)
      else case read_rx_header x of
        Inl e \<Rightarrow> ((Inl e, x), w)
      | Inr y \<Rightarrow>
          if length (rx_buf y) < rx_expected y then ((Inr (), y), w)
          else case handle (rx_token y) (take (rx_expected y) (rx_buf y)) w of
            (Inl e, w') \<Rightarrow> ((Inl e, y), w')
          | (Inr _, w') \<Rightarrow>
              handle_frames handle \<lparr>rx_buf = drop (rx_expected y) (rx_buf y), rx_expected = 0, rx_token = None\<rparr> w')"
  by pat_completeness auto

termination
  by (relation "measure (\<lambda>(handle, x, w). length (rx_buf x))")
    (auto simp: read_rx_header_def rx_short_def rmap_eq_Inr split: if_splits)

declare handle_frames.simps [simp del]

text \<open>\<open>self.buf += data\<close>\<close>

definition more_data :: "byte list \<Rightarrow> rx \<Rightarrow> rx" where
  "more_data bs x = x\<lparr>rx_buf := rx_buf x @ bs\<rparr>"

lemma more_data_simps [simp]:
  "rx_buf (more_data bs x) = rx_buf x @ bs" "rx_expected (more_data bs x) = rx_expected x"
  "rx_token (more_data bs x) = rx_token x" "more_data [] x = x" "more_data b (more_data a x) = more_data (a @ b) x"
  "more_data bs \<lparr>rx_buf = b', rx_expected = n, rx_token = t\<rparr> = \<lparr>rx_buf = b' @ bs, rx_expected = n, rx_token = t\<rparr>"
  by (simp_all add: more_data_def)

lemma read_more:
  "\<not> rx_short x \<Longrightarrow> read_rx_header (more_data bs x) = rmap (more_data bs) (read_rx_header x)"
  by (auto simp: read_rx_header_def rx_short_def rmap_def rbind_def more_data_def split: sum.splits)

lemma more_not_short: "\<not> rx_short x \<Longrightarrow> \<not> rx_short (more_data bs x)"
  by (auto simp: rx_short_def)

text \<open>Handling data in two parts.\<close>

lemma handle_more:
  assumes "handle_frames handle x w = ((Inr u, x'), w')"
  shows "handle_frames handle (more_data bs x) w = handle_frames handle (more_data bs x') w'"
  using assms
proof (induction handle x w arbitrary: x' w' u rule: handle_frames.induct)
  case (1 handle x w)
  show ?case
  proof (cases "rx_short x")
    case True
    then show ?thesis using 1(2) by (simp add: handle_frames.simps [of handle x w])
  next
    case False
    then obtain y where y: "read_rx_header x = Inr y"
      using 1(2) by (cases "read_rx_header x") (simp_all add: handle_frames.simps [of handle x w])
    have rm: "read_rx_header (more_data bs x) = Inr (more_data bs y)" using read_more [OF False] y by simp
    note big = more_not_short [OF False, of bs]
    show ?thesis
    proof (cases "length (rx_buf y) < rx_expected y")
      case True
      then have x': "x' = y" "w' = w" using 1(2) False y by (auto simp: handle_frames.simps [of handle x w])
      have "read_rx_header (more_data bs y) = Inr (more_data bs y)" "\<not> rx_short (more_data bs y)"
        using True by (auto simp: read_rx_header_def rx_short_def)
      then show ?thesis unfolding x' using rm big
        by (simp add: handle_frames.simps [of handle "more_data bs x" w] handle_frames.simps [of handle "more_data bs y" w])
    next
      case long: False
      obtain r w1 where h: "handle (rx_token y) (take (rx_expected y) (rx_buf y)) w = (r, w1)" by (cases "handle (rx_token y) (take (rx_expected y) (rx_buf y)) w")
      then obtain v where r: "r = Inr v"
        using 1(2) False y long by (cases r) (simp_all add: handle_frames.simps [of handle x w])
      let ?z = "\<lparr>rx_buf = drop (rx_expected y) (rx_buf y), rx_expected = 0, rx_token = None\<rparr>"
      have z: "handle_frames handle ?z w1 = ((Inr u, x'), w')"
        using 1(2) False y long h r by (simp add: handle_frames.simps [of handle x w])
      have "handle_frames handle (more_data bs ?z) w1 = handle_frames handle (more_data bs x') w'"
        using 1(1) [OF False y long h [symmetric] r z] .
      moreover have "handle_frames handle (more_data bs x) w = handle_frames handle (more_data bs ?z) w1"
        using big rm long h r by (simp add: handle_frames.simps [of handle "more_data bs x" w])
      ultimately show ?thesis by simp
    qed
  qed
qed

lemma handle_prefix:
  assumes "handle_frames handle (more_data bs x) w = ((Inr u, x'), w')"
  shows "\<exists>y v. handle_frames handle x w = ((Inr (), y), v)"
  using assms
proof (induction handle x w arbitrary: x' w' u rule: handle_frames.induct)
  case (1 handle x w)
  show ?case
  proof (cases "rx_short x")
    case True
    then show ?thesis by (simp add: handle_frames.simps [of handle x w])
  next
    case False
    note big = more_not_short [OF False, of bs]
    obtain y where y: "read_rx_header x = Inr y"
      using 1(2) big read_more [OF False, of bs]
      by (cases "read_rx_header x") (simp_all add: handle_frames.simps [of handle "more_data bs x" w])
    have rm: "read_rx_header (more_data bs x) = Inr (more_data bs y)" using read_more [OF False] y by simp
    show ?thesis
    proof (cases "length (rx_buf y) < rx_expected y")
      case True
      then show ?thesis using False y by (simp add: handle_frames.simps [of handle x w])
    next
      case long: False
      obtain r w1 where h: "handle (rx_token y) (take (rx_expected y) (rx_buf y)) w = (r, w1)" by (cases "handle (rx_token y) (take (rx_expected y) (rx_buf y)) w")
      let ?z = "\<lparr>rx_buf = drop (rx_expected y) (rx_buf y), rx_expected = 0, rx_token = None\<rparr>"
      obtain v where r: "r = Inr v"
        using 1(2) big rm long h by (cases r) (simp_all add: handle_frames.simps [of handle "more_data bs x" w])
      have "handle_frames handle (more_data bs ?z) w1 = ((Inr u, x'), w')"
        using 1(2) big rm long h r by (simp add: handle_frames.simps [of handle "more_data bs x" w])
      from 1(1) [OF False y long h [symmetric] r this] show ?thesis
        using False y long h r by (simp add: handle_frames.simps [of handle x w])
    qed
  qed
qed

text \<open>One whole frame.\<close>

lemma handle_frame:
  assumes "t < 2 ^ 63" "length body < 2 ^ 32"
  shows "handle_frames handle (more_data (frame t body @ rest) rx_start) w
    = (case handle (Some (int t)) body w of
        (Inl e, w') \<Rightarrow> ((Inl e, \<lparr>rx_buf = body @ rest, rx_expected = length body, rx_token = Some (int t)\<rparr>), w')
      | (Inr _, w') \<Rightarrow> handle_frames handle (more_data rest rx_start) w')"
proof -
  have "12 \<le> length (frame t body @ rest)" by (simp add: frame_def)
  then have "\<not> rx_short (more_data (frame t body @ rest) rx_start)" by (simp add: rx_short_def rx_start_def)
  moreover have "read_rx_header (more_data (frame t body @ rest) rx_start)
      = Inr \<lparr>rx_buf = body @ rest, rx_expected = length body, rx_token = Some (int t)\<rparr>"
    using unpack_frame [OF assms, of rest] by (simp add: read_rx_header_def rx_start_def)
  ultimately show ?thesis
    by (subst handle_frames.simps) (simp add: rx_start_def split: prod.split sum.split)
qed

text \<open>The frames of a stream, one after the other, by the handler.\<close>

fun each_frame :: "(int option \<Rightarrow> byte list \<Rightarrow> ('w, error, unit) comp) \<Rightarrow> (nat \<times> byte list) list \<Rightarrow> ('w, error, unit) comp" where
  "each_frame handle [] = ret ()"
| "each_frame handle ((t, body) # fs) = bind (handle (Some (int t)) body) (\<lambda>_. each_frame handle fs)"

lemma handle_each:
  assumes "\<forall>(t, body) \<in> set fs. t < 2 ^ 63 \<and> length body < 2 ^ 32" "each_frame handle fs w = (Inr u, w')" "length rest < 12"
  shows "handle_frames handle (more_data (concat (map (\<lambda>(t, body). frame t body) fs) @ rest) rx_start) w
    = ((Inr (), more_data rest rx_start), w')"
  using assms
proof (induction fs arbitrary: w)
  case Nil
  then show ?case by (simp add: handle_frames.simps rx_short_def rx_start_def ret_def)
next
  case (Cons f fs)
  obtain t body where f: "f = (t, body)" by (cases f)
  obtain v w1 where h: "handle (Some (int t)) body w = (Inr v, w1)" "each_frame handle fs w1 = (Inr u, w')"
    using Cons.prems(2) f by (auto simp: bind_def split: prod.splits sum.splits)
  have "t < 2 ^ 63" "length body < 2 ^ 32" using Cons.prems(1) f by auto
  from handle_frame [OF this, of handle "concat (map (\<lambda>(t, body). frame t body) fs) @ rest"]
  show ?case using Cons.IH [OF _ h(2) assms(3)] Cons.prems(1) f h(1) by simp
qed

end
