(* ===== verification/Twisted.thy ===== *)
theory Twisted
  imports TwistedFrames
begin

text \<open>
  The driver for Twisted, \<open>rethinkdb/twisted_net/net_twisted.py\<close>: the protocol with its handshake, the
  connection instance, and cursors whose items are a \<open>DeferredQueue\<close>.  The reactor calls in
  (\<open>dataReceived\<close>, \<open>connectionLost\<close>, timers), and so do users; each call is a function of the state,
  which holds one instance over its life and the \<open>Deferred\<close>s of queries and of cursors by number.  Settling a \<open>Deferred\<close>
  runs what waits for it at once: that is so here for \<open>fetch_next\<close> and \<open>connect\<close>; code of the
  user, and the end of \<open>close\<close>, are calls of their own after it.
\<close>

subsection \<open>State\<close>

datatype phase = WaitingForHandshake | IsReady

text \<open>A cursor with the getters of its queue, and for every \<open>fetch_next\<close> that waits the \<open>Deferred\<close> it
  waits for and its own.\<close>

record tcursor =
  tc_cursor :: cursor
  tc_getters :: "nat list"
  tc_waiting :: "(nat \<times> nat) list"

record twisted =
  tx_attached :: bool
  tx_made :: bool
  tx_open :: bool
  tx_phase :: phase
  tx_hs :: hs
  tx_rx :: rx
  tx_shaken :: future
  tx_timer :: bool
  tx_dropping :: bool
  tx_written :: "byte list"
  tx_closing :: bool
  tx_queries :: "(int, wire_query \<times> nat) dict"
  tx_cache :: "(int, nat) dict"
  tx_cursors :: "tcursor list"
  tx_defers :: "future list"
  tx_items :: "future list"
  tx_closers :: "nat list"
  tx_next_token :: int
  tx_var :: int

type_synonym 'a tx_io = "(twisted, error, 'a) comp"

definition t_gets :: "(twisted \<Rightarrow> 'a) \<Rightarrow> 'a tx_io" where
  "t_gets f = (\<lambda>w. (Inr (f w), w))"

definition t_modify :: "(twisted \<Rightarrow> twisted) \<Rightarrow> unit tx_io" where
  "t_modify f = (\<lambda>w. (Inr (), f w))"

definition t_cursor :: "nat \<Rightarrow> twisted \<Rightarrow> tcursor" where
  "t_cursor c w = tx_cursors w ! c"

definition t_set_cursor :: "nat \<Rightarrow> (tcursor \<Rightarrow> tcursor) \<Rightarrow> twisted \<Rightarrow> twisted" where
  "t_set_cursor c f w = w\<lparr>tx_cursors := (tx_cursors w)[c := f (t_cursor c w)]\<rparr>"

definition on_cursor :: "(cursor \<Rightarrow> cursor) \<Rightarrow> tcursor \<Rightarrow> tcursor" where
  "on_cursor f tc = tc\<lparr>tc_cursor := f (tc_cursor tc)\<rparr>"

subsection \<open>Deferreds\<close>

definition already_called :: error where
  "already_called = py_exc PyException []"

text \<open>The \<open>Deferred\<close> of a query, and one of a cursor.\<close>

definition t_new_defer :: "nat tx_io" where
  "t_new_defer =
     bind (t_gets (\<lambda>w. length (tx_defers w))) (\<lambda>f.
     bind (t_modify (\<lambda>w. w\<lparr>tx_defers := tx_defers w @ [Pending]\<rparr>)) (\<lambda>_. ret f))"

definition t_new_item :: "future \<Rightarrow> nat tx_io" where
  "t_new_item x =
     bind (t_gets (\<lambda>w. length (tx_items w))) (\<lambda>f.
     bind (t_modify (\<lambda>w. w\<lparr>tx_items := tx_items w @ [x]\<rparr>)) (\<lambda>_. ret f))"

text \<open>\<open>callback\<close> and \<open>errback\<close> of a \<open>Deferred\<close>, as Twisted documents them: the second call raises
  \<open>AlreadyCalledError\<close>; after a cancellation without a canceller one more call is ignored.  That the driver does not
  call one twice for a response is not in this definition, \<open>twisted_response_settles_own\<close> shows it.\<close>

definition t_settle :: "nat \<Rightarrow> future \<Rightarrow> unit tx_io" where
  "t_settle f v =
     bind (t_gets (\<lambda>w. tx_defers w ! f)) (\<lambda>x.
       if x = Pending then t_modify (\<lambda>w. w\<lparr>tx_defers := (tx_defers w)[f := v]\<rparr>)
       else if x = Cancelled then ret () else raise already_called)"

text \<open>Those of cursors have cancellers, and a call after a cancellation is not ignored.\<close>

definition t_settle_item :: "nat \<Rightarrow> future \<Rightarrow> unit tx_io" where
  "t_settle_item f v =
     bind (t_gets (\<lambda>w. tx_items w ! f)) (\<lambda>x.
       if x = Pending then t_modify (\<lambda>w. w\<lparr>tx_items := (tx_items w)[f := v]\<rparr>) else raise already_called)"

subsection \<open>Queries\<close>

text \<open>\<open>is_open\<close> looks into \<open>_connection\<close>, which is None until \<open>connect\<close> has succeeded.\<close>

definition none_open :: error where
  "none_open = py_exc PyAttributeError ([CHR 0x27] @ ''NoneType'' @ [CHR 0x27] @ '' object has no attribute '' @ [CHR 0x27] @ ''_open'' @ [CHR 0x27])"

definition none_transport :: error where
  "none_transport = py_exc PyAttributeError ([CHR 0x27] @ ''NoneType'' @ [CHR 0x27] @ '' object has no attribute '' @ [CHR 0x27] @ ''transport'' @ [CHR 0x27])"

definition t_is_open :: "bool tx_io" where
  "t_is_open = bind (t_gets tx_made) (\<lambda>m. if m then t_gets tx_open else raise none_open)"

definition t_check_open :: "unit tx_io" where
  "t_check_open =
     bind (t_gets tx_attached) (\<lambda>a.
       if a then bind t_is_open (\<lambda>b. if b then ret () else raise connection_closed)
       else raise connection_closed)"

definition t_write :: "proto \<Rightarrow> wire_query \<Rightarrow> unit tx_io" where
  "t_write p q = (\<lambda>w.
     if \<not> tx_made w then (Inl none_transport, w)
     else case serialize p q (tx_var w) of
       (Inl e, v) \<Rightarrow> (Inl e, w\<lparr>tx_var := v\<rparr>)
     | (Inr bs, v) \<Rightarrow> (Inr (), w\<lparr>tx_var := v, tx_written := tx_written w @ bs\<rparr>))"

text \<open>\<open>run_query\<close> of a query that is answered.\<close>

definition t_run_query :: "proto \<Rightarrow> wire_query \<Rightarrow> nat tx_io" where
  "t_run_query p q =
     bind t_new_defer (\<lambda>f.
     bind (t_modify (\<lambda>w. w\<lparr>tx_queries := dict_put (tx_queries w) (wtoken q) (q, f)\<rparr>)) (\<lambda>_.
     bind (t_write p q) (\<lambda>_. ret f)))"

definition t_new_token :: "int tx_io" where
  "t_new_token = bind (t_gets tx_next_token) (\<lambda>t.
     bind (t_modify (\<lambda>w. w\<lparr>tx_next_token := t + 1\<rparr>)) (\<lambda>_. ret t))"

definition t_start :: "proto \<Rightarrow> query \<Rightarrow> (string \<times> pyval) list \<Rightarrow> nat option tx_io" where
  "t_start p q opts =
     bind t_check_open (\<lambda>_.
     bind t_new_token (\<lambda>t.
       let wq = make_query (pquery p ''START'') t (Some q) (Some opts)
       in if wants_noreply wq then bind (t_write p wq) (\<lambda>_. ret None)
          else bind (t_run_query p wq) (\<lambda>f. ret (Some f))))"

definition t_control :: "proto \<Rightarrow> string \<Rightarrow> nat tx_io" where
  "t_control p ty =
     bind t_check_open (\<lambda>_. bind t_new_token (\<lambda>t. t_run_query p (control_query p ty t)))"

subsection \<open>Cursors\<close>

text \<open>\<open>_continue\<close> and \<open>_stop\<close> are wrapped: what they raise ends in a \<open>Deferred\<close> nobody looks at.\<close>

definition t_send_control :: "proto \<Rightarrow> string \<Rightarrow> nat \<Rightarrow> unit tx_io" where
  "t_send_control p ty c = (\<lambda>w.
     (Inr (), snd (bind t_check_open (\<lambda>_. t_write p (control_query p ty (wtoken (cu_query (tc_cursor (t_cursor c w)))))) w)))"

definition t_ask :: "nat \<Rightarrow> unit tx_io" where
  "t_ask c = t_modify (t_set_cursor c (on_cursor (\<lambda>cu. cu\<lparr>cu_outstanding := cu_outstanding cu + 1\<rparr>)))"

definition t_fetch :: "proto \<Rightarrow> nat \<Rightarrow> unit tx_io" where
  "t_fetch p c =
     bind (t_gets (\<lambda>w. tc_cursor (t_cursor c w))) (\<lambda>cu.
       if cu_error cu = None \<and> length (cu_items cu) < cu_threshold cu \<and> cu_outstanding cu = 0
       then bind (t_ask c) (\<lambda>_. t_send_control p ''CONTINUE'' c) else ret ())"

text \<open>\<open>put\<close> of the queue: a getter that waits gets the item.\<close>

definition t_put :: "nat \<Rightarrow> rval \<Rightarrow> unit tx_io" where
  "t_put c x =
     bind (t_gets (\<lambda>w. tc_getters (t_cursor c w))) (\<lambda>gs.
       case gs of
         [] \<Rightarrow> t_modify (t_set_cursor c (on_cursor (\<lambda>cu. cu\<lparr>cu_items := cu_items cu @ [x]\<rparr>)))
       | g # gs' \<Rightarrow>
           bind (t_modify (t_set_cursor c (\<lambda>tc. tc\<lparr>tc_getters := gs'\<rparr>))) (\<lambda>_. t_settle_item g (Done (Val x))))"

definition t_extend_items :: "nat \<Rightarrow> rval list \<Rightarrow> unit tx_io" where
  "t_extend_items c xs = bind (seqs (map (t_put c) xs)) (\<lambda>_. ret ())"

definition t_end_with :: "nat \<Rightarrow> error \<Rightarrow> unit tx_io" where
  "t_end_with c e = t_modify (t_set_cursor c (on_cursor (\<lambda>cu. cu\<lparr>cu_error := Some e\<rparr>)))"

definition t_absorb :: "proto \<Rightarrow> nat \<Rightarrow> response \<Rightarrow> rval list \<Rightarrow> unit tx_io" where
  "t_absorb p c res xs =
     bind (t_gets (\<lambda>w. tc_cursor (t_cursor c w))) (\<lambda>cu.
       if cu_error cu \<noteq> None then ret ()
       else if is_int (rtype res) (presponse p ''SUCCESS_PARTIAL'') then t_extend_items c xs
       else if is_int (rtype res) (presponse p ''SUCCESS_SEQUENCE'') then
         bind (t_extend_items c xs) (\<lambda>_. t_end_with c a_empty_error)
       else bind (lift_res (make_error p res (wterm (cu_query cu)))) (t_end_with c))"

definition t_forget :: "int \<Rightarrow> unit tx_io" where
  "t_forget t =
     bind (t_gets tx_cache) (\<lambda>d.
       if map_of d t = None then raise (py_exc PyKeyError (show_int t))
       else t_modify (\<lambda>w. w\<lparr>tx_cache := dict_del (tx_cache w) t\<rparr>))"

definition t_extend_internal :: "proto \<Rightarrow> nat \<Rightarrow> response \<Rightarrow> unit tx_io" where
  "t_extend_internal p c res =
     bind (lift_res (items_of (rdata res))) (\<lambda>xs.
     bind (t_modify (t_set_cursor c (on_cursor (\<lambda>cu. cu\<lparr>cu_threshold := length xs\<rparr>)))) (\<lambda>_.
     bind (t_absorb p c res xs) (\<lambda>_.
     bind (t_gets (\<lambda>w. tc_cursor (t_cursor c w))) (\<lambda>cu.
       if cu_outstanding cu = 0 \<and> cu_error cu \<noteq> None then t_forget (rtoken res) else ret ()))))"

text \<open>\<open>cancel_getters\<close>\<close>

definition t_cancel_getter :: "nat \<Rightarrow> error \<Rightarrow> nat \<Rightarrow> unit tx_io" where
  "t_cancel_getter c e g =
     bind (t_gets (\<lambda>w. tx_items w ! g)) (\<lambda>x.
     bind (if x = Pending then t_settle_item g (Failed e) else ret ()) (\<lambda>_.
       t_modify (t_set_cursor c (\<lambda>tc. tc\<lparr>tc_getters := remove1 g (tc_getters tc)\<rparr>))))"

definition t_cancel_getters :: "nat \<Rightarrow> error option \<Rightarrow> nat list \<Rightarrow> unit tx_io" where
  "t_cancel_getters c e gs =
     (case e of None \<Rightarrow> ret () | Some e \<Rightarrow> bind (seqs (map (t_cancel_getter c e) gs)) (\<lambda>_. ret ()))"

text \<open>One turn of the loop of \<open>fetch_next\<close>, whose own \<open>Deferred\<close> is \<open>r\<close>.\<close>

definition t_fetch_turn :: "proto \<Rightarrow> nat \<Rightarrow> nat \<Rightarrow> unit tx_io" where
  "t_fetch_turn p c r =
     bind (t_gets (\<lambda>w. tc_cursor (t_cursor c w))) (\<lambda>cu.
       if cu_items cu = [] \<and> cu_error cu = None then
         bind (t_fetch p c) (\<lambda>_.
         bind (t_new_item Pending) (\<lambda>d.
           t_modify (t_set_cursor c (\<lambda>tc. tc\<lparr>tc_waiting := tc_waiting tc @ [(d, r)]\<rparr>))))
       else t_settle_item r (Done (Val (RBool (cu_items cu \<noteq> []
         \<or> (case cu_error cu of None \<Rightarrow> True | Some e \<Rightarrow> \<not> caught_by [ReqlCursorEmpty] e))))))"

text \<open>\<open>d.callback(None)\<close> for one that waits.\<close>

definition t_wake :: "proto \<Rightarrow> nat \<Rightarrow> nat \<times> nat \<Rightarrow> unit tx_io" where
  "t_wake p c = (\<lambda>(d, r).
     bind (t_settle_item d (Done Nothing)) (\<lambda>_.
     bind (t_fetch_turn p c r) (\<lambda>_.
       t_modify (t_set_cursor c (\<lambda>tc. tc\<lparr>tc_waiting := remove1 (d, r) (tc_waiting tc)\<rparr>)))))"

definition t_extend :: "proto \<Rightarrow> nat \<Rightarrow> byte list \<Rightarrow> unit tx_io" where
  "t_extend p c buf =
     bind (t_modify (t_set_cursor c (on_cursor (\<lambda>cu. cu\<lparr>cu_outstanding := cu_outstanding cu - 1\<rparr>)))) (\<lambda>_.
     bind (t_fetch p c) (\<lambda>_.
     bind (t_gets (\<lambda>w. cu_query (tc_cursor (t_cursor c w)))) (\<lambda>q.
     bind (lift_res (parse_response (formats_of q) (wtoken q) buf)) (\<lambda>res.
     bind (t_extend_internal p c res) (\<lambda>_.
     bind (t_gets (t_cursor c)) (\<lambda>tc.
     bind (t_cancel_getters c (cu_error (tc_cursor tc)) (tc_getters tc)) (\<lambda>_.
     bind (seqs (map (t_wake p c) (tc_waiting tc))) (\<lambda>_. ret ()))))))))"

definition t_cursor_fail :: "proto \<Rightarrow> string \<Rightarrow> nat \<Rightarrow> unit tx_io" where
  "t_cursor_fail p message c =
     bind (t_gets (\<lambda>w. tc_cursor (t_cursor c w))) (\<lambda>cu.
       if cu_error cu = None then
         bind (t_end_with c (reql_error ReqlRuntimeError message (wterm (cu_query cu)) (Some []))) (\<lambda>_.
           t_extend p c (dummy_response p))
       else ret ())"

definition t_new_cursor :: "proto \<Rightarrow> wire_query \<Rightarrow> response \<Rightarrow> nat tx_io" where
  "t_new_cursor p q res =
     bind (t_gets (\<lambda>w. length (tx_cursors w))) (\<lambda>c.
     bind (t_modify (\<lambda>w. w\<lparr>tx_cursors := tx_cursors w @ [\<lparr>tc_cursor = init_cursor 0 q, tc_getters = [], tc_waiting = []\<rparr>],
        tx_cache := dict_put (tx_cache w) (wtoken q) c\<rparr>)) (\<lambda>_.
     bind (t_fetch p c) (\<lambda>_.
     bind (t_extend_internal p c res) (\<lambda>_. ret c))))"

text \<open>\<open>_get_next\<close>: the \<open>Deferred\<close> of the item.\<close>

definition t_get_next :: "proto \<Rightarrow> nat \<Rightarrow> nat tx_io" where
  "t_get_next p c =
     bind (t_gets (\<lambda>w. tc_cursor (t_cursor c w))) (\<lambda>cu.
       case cu_items cu of
         x # xs \<Rightarrow>
           bind (t_modify (t_set_cursor c (on_cursor (\<lambda>cu. cu\<lparr>cu_items := xs\<rparr>)))) (\<lambda>_.
           bind (t_new_item (Done (Val x))) (\<lambda>f. bind (t_fetch p c) (\<lambda>_. ret f)))
       | [] \<Rightarrow>
           (case cu_error cu of
              Some e \<Rightarrow> t_new_item (Failed e)
            | None \<Rightarrow>
                bind (t_new_item Pending) (\<lambda>f.
                bind (t_modify (t_set_cursor c (\<lambda>tc. tc\<lparr>tc_getters := tc_getters tc @ [f]\<rparr>))) (\<lambda>_.
                bind (t_fetch p c) (\<lambda>_. ret f)))))"

definition t_fetch_next :: "proto \<Rightarrow> nat \<Rightarrow> nat tx_io" where
  "t_fetch_next p c = bind (t_new_item Pending) (\<lambda>r. bind (t_fetch_turn p c r) (\<lambda>_. ret r))"

definition t_cursor_close :: "proto \<Rightarrow> nat \<Rightarrow> unit tx_io" where
  "t_cursor_close p c =
     bind (t_gets (\<lambda>w. tc_cursor (t_cursor c w))) (\<lambda>cu.
       if cu_error cu = None then
         bind (t_end_with c a_empty_error) (\<lambda>_.
         bind t_is_open (\<lambda>b. if b then bind (t_ask c) (\<lambda>_. t_send_control p ''STOP'' c) else ret ()))
       else ret ())"

text \<open>The timers of \<open>next\<close> and \<open>fetch_next\<close>, and cancelling their \<open>Deferred\<close>s, which does the same.\<close>

definition t_getter_timer :: "nat \<Rightarrow> nat \<Rightarrow> unit tx_io" where
  "t_getter_timer c g =
     bind (t_gets (\<lambda>w. g \<in> set (tc_getters (t_cursor c w)))) (\<lambda>b.
       if b then
         bind (t_modify (t_set_cursor c (\<lambda>tc. tc\<lparr>tc_getters := remove1 g (tc_getters tc)\<rparr>))) (\<lambda>_.
           t_settle_item g (Failed (timeout_error None None)))
       else ret ())"

definition t_wait_timer :: "nat \<Rightarrow> nat \<times> nat \<Rightarrow> unit tx_io" where
  "t_wait_timer c = (\<lambda>(d, r).
     bind (t_gets (\<lambda>w. (d, r) \<in> set (tc_waiting (t_cursor c w)) \<and> tx_items w ! d = Pending)) (\<lambda>b.
       if b then
         bind (t_settle_item d (Failed (timeout_error None None))) (\<lambda>_. t_settle_item r (Failed (timeout_error None None)))
       else ret ()))"

subsection \<open>Closing\<close>

definition t_lose :: "unit tx_io" where
  "t_lose = bind (t_gets tx_made) (\<lambda>m.
     if m then t_modify (\<lambda>w. w\<lparr>tx_dropping := True\<rparr>) else raise none_transport)"

definition t_fail_query :: "string \<Rightarrow> nat \<Rightarrow> unit tx_io" where
  "t_fail_query message f =
     bind (t_gets (\<lambda>w. tx_defers w ! f)) (\<lambda>x.
       if x = Pending then t_settle f (Failed (driver_error message)) else ret ())"

definition t_close_message :: "error option \<Rightarrow> string" where
  "t_close_message e =
     (case e of None \<Rightarrow> ''Connection is closed'' | Some e \<Rightarrow> ''Connection is closed (reason: '' @ exc_text e @ '')'')"

definition t_shut :: "proto \<Rightarrow> error option \<Rightarrow> unit tx_io" where
  "t_shut p e =
     bind (t_modify (\<lambda>w. w\<lparr>tx_closing := True\<rparr>)) (\<lambda>_.
     bind (t_gets (\<lambda>w. map snd (tx_cache w))) (\<lambda>cs.
     bind (seqs (map (t_cursor_fail p (t_close_message e)) cs)) (\<lambda>_.
     bind (t_gets (\<lambda>w. map (snd \<circ> snd) (tx_queries w))) (\<lambda>fs.
     bind (seqs (map (t_fail_query (t_close_message e)) fs)) (\<lambda>_.
       t_modify (\<lambda>w. w\<lparr>tx_queries := [], tx_cache := []\<rparr>))))))"

text \<open>\<open>close\<close>; when the \<open>NOREPLY_WAIT\<close> is settled it goes on with \<open>closeConnection\<close>, which it does at once
  when the query could not be run.\<close>

definition t_instance_close :: "proto \<Rightarrow> bool \<Rightarrow> int \<Rightarrow> error option \<Rightarrow> unit tx_io" where
  "t_instance_close p nw token e =
     bind (t_shut p e) (\<lambda>_ w.
       if \<not> nw then t_lose w
       else case t_run_query p (control_query p ''NOREPLY_WAIT'' token) w of
         (Inr f, w') \<Rightarrow> (Inr (), w'\<lparr>tx_closers := f # tx_closers w'\<rparr>)
       | (Inl e', w') \<Rightarrow> bind t_lose (\<lambda>_. raise e') w')"

definition t_close_end :: "nat \<Rightarrow> unit tx_io" where
  "t_close_end f =
     bind (t_gets (\<lambda>w. f \<in> set (tx_closers w) \<and> tx_defers w ! f \<noteq> Pending)) (\<lambda>b.
       if b then bind (t_modify (\<lambda>w. w\<lparr>tx_closers := removeAll f (tx_closers w)\<rparr>)) (\<lambda>_. t_lose) else ret ())"

definition t_close :: "proto \<Rightarrow> bool \<Rightarrow> unit tx_io" where
  "t_close p nw =
     bind (t_gets tx_attached) (\<lambda>b.
       if b then
         bind t_new_token (\<lambda>t.
         bind (t_modify (\<lambda>w. w\<lparr>tx_attached := False, tx_next_token := 0\<rparr>)) (\<lambda>_.
           t_instance_close p nw t None))
       else ret ())"

subsection \<open>Responses\<close>

definition t_resolve :: "proto \<Rightarrow> wire_query \<Rightarrow> nat \<Rightarrow> response \<Rightarrow> unit tx_io" where
  "t_resolve p q f res =
     (if is_int (rtype res) (presponse p ''SUCCESS_ATOM'') then
        bind (lift_res (first_item (rdata res))) (\<lambda>v. t_settle f (Done (maybe_profile (Val v) res)))
      else if is_int (rtype res) (presponse p ''SUCCESS_SEQUENCE'')
           \<or> is_int (rtype res) (presponse p ''SUCCESS_PARTIAL'') then
        bind (t_new_cursor p q res) (\<lambda>c. t_settle f (Done (maybe_profile (Cur c) res)))
      else if is_int (rtype res) (presponse p ''WAIT_COMPLETE'') then t_settle f (Done Nothing)
      else if is_int (rtype res) (presponse p ''SERVER_INFO'') then
        bind (lift_res (first_item (rdata res))) (\<lambda>v. t_settle f (Done (Val v)))
      else bind (lift_res (make_error p res (wterm q))) (\<lambda>e. t_settle f (Failed e)))"

text \<open>The body of \<open>_handleResponse\<close>; nobody has the token None, that of a payload without a header.\<close>

definition t_unknown :: "unit tx_io" where
  "t_unknown = bind (t_gets tx_closing) (\<lambda>b. if b then ret () else raise unexpected_response)"

definition t_dispatch :: "proto \<Rightarrow> int \<Rightarrow> byte list \<Rightarrow> unit tx_io" where
  "t_dispatch p token buf =
     bind (t_gets (\<lambda>w. map_of (tx_cache w) token)) (\<lambda>c. case c of
       Some c \<Rightarrow> t_extend p c buf
     | None \<Rightarrow>
         bind (t_gets (\<lambda>w. map_of (tx_queries w) token)) (\<lambda>x. case x of
           Some (q, f) \<Rightarrow>
             bind (lift_res (parse_response (formats_of q) token buf)) (\<lambda>res.
             bind (t_resolve p q f res) (\<lambda>_.
               t_modify (\<lambda>w. w\<lparr>tx_queries := dict_del (tx_queries w) token\<rparr>)))
         | None \<Rightarrow> t_unknown))"

text \<open>An exception closes the connection; what ends in the \<open>Deferred\<close> of that \<open>close\<close> is not looked at.\<close>

definition t_handle :: "proto \<Rightarrow> int option \<Rightarrow> byte list \<Rightarrow> unit tx_io" where
  "t_handle p token buf = (\<lambda>w.
     case (case token of None \<Rightarrow> t_unknown | Some t \<Rightarrow> t_dispatch p t buf) w of
       (Inr _, w') \<Rightarrow> (Inr (), w')
     | (Inl e, w') \<Rightarrow>
         if tx_closing w' then (Inr (), w') else bind (t_shut p (Some e)) (\<lambda>_ w'. (Inr (), snd (t_lose w'))) w')"

subsection \<open>The protocol\<close>

text \<open>The end of the handshake: the timer is cancelled, and \<open>connect\<close> goes on and keeps the protocol.\<close>

definition t_ready :: "unit tx_io" where
  "t_ready =
     bind (t_modify (\<lambda>w. w\<lparr>tx_phase := IsReady\<rparr>)) (\<lambda>_.
     bind (t_gets tx_timer) (\<lambda>b.
       if b then
         bind (t_modify (\<lambda>w. w\<lparr>tx_timer := False\<rparr>)) (\<lambda>_.
         bind (t_gets tx_shaken) (\<lambda>x.
           if x = Pending then t_modify (\<lambda>w. w\<lparr>tx_shaken := Done Nothing, tx_made := True\<rparr>)
           else raise already_called))
       else raise already_called))"

definition t_next_message :: "byte list \<Rightarrow> byte list option \<Rightarrow> request tx_io" where
  "t_next_message random response = (\<lambda>w.
     case next_message random response (tx_hs w) of (r, h) \<Rightarrow> (r, w\<lparr>tx_hs := h\<rparr>))"

text \<open>The answer to one message of the server.\<close>

definition t_handshake_turn :: "byte list \<Rightarrow> byte list \<Rightarrow> unit tx_io" where
  "t_handshake_turn random response =
     bind (t_next_message random (Some response)) (\<lambda>request.
       case request of
         Finished \<Rightarrow> t_ready
       | NoMessage \<Rightarrow> ret ()
       | Message bs \<Rightarrow> t_modify (\<lambda>w. w\<lparr>tx_written := tx_written w @ bs\<rparr>))"

text \<open>The loop of \<open>_handleHandshake\<close> over the messages in the buffer.\<close>

function t_handshake_loop :: "byte list \<Rightarrow> byte list \<Rightarrow> twisted \<Rightarrow> ((error + unit) \<times> byte list) \<times> twisted" where
  "t_handshake_loop random buf w =
     (if 0 \<notin> set buf then ((Inr (), buf), w)
      else let rest = drop (Suc (length (takeWhile (\<lambda>b. b \<noteq> 0) buf))) buf
        in case t_handshake_turn random (takeWhile (\<lambda>b. b \<noteq> 0) buf) w of
             (Inl e, w') \<Rightarrow> ((Inl e, rest), w')
           | (Inr _, w') \<Rightarrow> t_handshake_loop random rest w')"
  by pat_completeness auto

termination
  by (relation "measure (\<lambda>(random, buf, w). length buf)") (auto simp: length_greater_0_conv [symmetric] simp del: length_greater_0_conv intro: diff_less)

declare t_handshake_loop.simps [simp del]

definition t_set_buf :: "byte list \<Rightarrow> twisted \<Rightarrow> twisted" where
  "t_set_buf b w = w\<lparr>tx_rx := (tx_rx w)\<lparr>rx_buf := b\<rparr>\<rparr>"

definition t_handle_handshake :: "byte list \<Rightarrow> byte list \<Rightarrow> unit tx_io" where
  "t_handle_handshake random bs = (\<lambda>w.
     case t_handshake_loop random (rx_buf (tx_rx w) @ bs) w of
       ((Inr _, b), w') \<Rightarrow> (Inr (), t_set_buf b w')
     | ((Inl e, b), w') \<Rightarrow>
         if tx_shaken w' = Pending then (Inr (), (t_set_buf b w')\<lparr>tx_shaken := Failed e\<rparr>)
         else (Inl already_called, t_set_buf b w'))"

text \<open>The buffer is taken out of the state while the frames in it are handled, which does not look at it.\<close>

definition t_handle_response :: "proto \<Rightarrow> byte list \<Rightarrow> unit tx_io" where
  "t_handle_response p bs = (\<lambda>w.
     case handle_frames (t_handle p) (more_data bs (tx_rx w)) (w\<lparr>tx_rx := rx_start\<rparr>) of ((r, x), w') \<Rightarrow> (r, w'\<lparr>tx_rx := x\<rparr>))"

definition t_dropped :: "error \<Rightarrow> error" where
  "t_dropped e = driver_error (''Driver failed to handle received data.Error: '' @ exc_text e @ ''. Dropping the connection.'')"

definition t_data_received :: "proto \<Rightarrow> byte list \<Rightarrow> byte list \<Rightarrow> unit tx_io" where
  "t_data_received p random bs = (\<lambda>w.
     if \<not> tx_open w then (Inr (), w)
     else case (case tx_phase w of WaitingForHandshake \<Rightarrow> t_handle_handshake random bs | IsReady \<Rightarrow> t_handle_response p bs) w of
       (Inr _, w') \<Rightarrow> (Inr (), w')
     | (Inl e, w') \<Rightarrow> (Inl (t_dropped e), w'\<lparr>tx_dropping := True\<rparr>))"

definition t_connection_made :: "byte list \<Rightarrow> unit tx_io" where
  "t_connection_made random =
     bind (t_modify (\<lambda>w. w\<lparr>tx_hs := hs_reset (tx_hs w)\<rparr>)) (\<lambda>_.
     bind (t_next_message random None) (\<lambda>request.
     bind (case request of Message bs \<Rightarrow> t_modify (\<lambda>w. w\<lparr>tx_written := tx_written w @ bs\<rparr>) | _ \<Rightarrow> ret ()) (\<lambda>_.
       t_modify (\<lambda>w. w\<lparr>tx_timer := True\<rparr>))))"

definition t_connection_lost :: "unit tx_io" where
  "t_connection_lost = t_modify (\<lambda>w. w\<lparr>tx_open := False\<rparr>)"

definition t_handshake_timeout :: "unit tx_io" where
  "t_handshake_timeout =
     bind (t_gets tx_timer) (\<lambda>b.
       if b then
         bind (t_modify (\<lambda>w. w\<lparr>tx_timer := False, tx_open := False, tx_dropping := True\<rparr>)) (\<lambda>_.
         bind (t_gets tx_shaken) (\<lambda>x.
           if x = Pending then t_modify (\<lambda>w. w\<lparr>tx_shaken := Failed (timeout_error None None)\<rparr>)
           else raise already_called))
       else ret ())"

text \<open>What \<open>connect\<close> raises when \<open>wait_for_handshake\<close> has failed, and when there was no connection.\<close>

definition t_handshake_failure :: "string \<Rightarrow> int \<Rightarrow> error \<Rightarrow> error" where
  "t_handshake_failure host port e =
     (if caught_by [ReqlAuthError] e then e
      else if caught_by [ReqlTimeoutError] e then timeout_error (Some host) (Some port)
      else driver_error (''Connection interrupted during handshake with '' @ host @ '':'' @ show_int port
        @ ''. Error: '' @ exc_text e))"

definition t_connect_failure :: "string \<Rightarrow> int \<Rightarrow> bool \<Rightarrow> error \<Rightarrow> error" where
  "t_connect_failure host port timed_out e =
     driver_error (''Could not connect to '' @ host @ '':'' @ show_int port @ ''. Error: ''
       @ exc_text (if timed_out then timeout_error None None else e))"

subsection \<open>Events\<close>

datatype t_event =
    DataReceived "byte list"
  | ConnectionLost
  | HandshakeTimer
  | StartQuery query "(string \<times> pyval) list"
  | ControlQuery string
  | CallNext nat
  | CallFetchNext nat
  | CloseCursor nat
  | NextTimer nat nat
  | FetchTimer nat "nat \<times> nat"
  | CancelQuery nat
  | CallClose bool
  | CloseGoesOn nat

definition t_cancel_query :: "nat \<Rightarrow> unit tx_io" where
  "t_cancel_query f = t_modify (\<lambda>w.
     if f \<in> set (map (snd \<circ> snd) (tx_queries w)) \<and> tx_defers w ! f = Pending
     then w\<lparr>tx_defers := (tx_defers w)[f := Cancelled]\<rparr> else w)"

fun t_do :: "proto \<Rightarrow> byte list \<Rightarrow> t_event \<Rightarrow> unit tx_io" where
  "t_do p random (DataReceived bs) = t_data_received p random bs"
| "t_do p random ConnectionLost = t_connection_lost"
| "t_do p random HandshakeTimer = t_handshake_timeout"
| "t_do p random (StartQuery q opts) = bind (t_start p q opts) (\<lambda>_. ret ())"
| "t_do p random (ControlQuery ty) = bind (t_control p ty) (\<lambda>_. ret ())"
| "t_do p random (CallNext c) = bind (t_get_next p c) (\<lambda>_. ret ())"
| "t_do p random (CallFetchNext c) = bind (t_fetch_next p c) (\<lambda>_. ret ())"
| "t_do p random (CloseCursor c) = t_cursor_close p c"
| "t_do p random (NextTimer c g) = t_getter_timer c g"
| "t_do p random (FetchTimer c x) = t_wait_timer c x"
| "t_do p random (CancelQuery f) = t_cancel_query f"
| "t_do p random (CallClose nw) = t_close p nw"
| "t_do p random (CloseGoesOn f) = t_close_end f"

definition t_run :: "proto \<Rightarrow> byte list \<Rightarrow> t_event list \<Rightarrow> twisted \<Rightarrow> twisted" where
  "t_run p random evs w = fold (\<lambda>ev w. snd (t_do p random ev w)) evs w"

text \<open>An instance whose connection has just been made.\<close>

definition t_fresh :: "hs \<Rightarrow> int \<Rightarrow> twisted" where
  "t_fresh h v =
     \<lparr>tx_attached = True, tx_made = False, tx_open = True, tx_phase = WaitingForHandshake, tx_hs = h, tx_rx = rx_start,
      tx_shaken = Pending, tx_timer = False, tx_dropping = False, tx_written = [], tx_closing = False, tx_queries = [],
      tx_cache = [], tx_cursors = [], tx_defers = [], tx_items = [], tx_closers = [], tx_next_token = 0, tx_var = v\<rparr>"

end
