(* ===== verification/TwistedLife.thy ===== *)
theory TwistedLife
  imports Twisted
begin

text \<open>
  Properties of the Twisted driver: how the stream is cut does not matter, what is settled stays, and
  what happens to those who wait when the connection is lost or a \<open>fetch_next\<close> has timed out.
\<close>

subsection \<open>Steps of the instance\<close>

text \<open>They leave the protocol alone, and what is settled as it is.\<close>

definition t_frame :: "twisted \<Rightarrow> twisted \<Rightarrow> bool" where
  "t_frame w w' \<longleftrightarrow> tx_open w' = tx_open w \<and> tx_phase w' = tx_phase w \<and> tx_rx w' = tx_rx w \<and> tx_made w' = tx_made w
     \<and> length (tx_defers w) \<le> length (tx_defers w')
     \<and> (\<forall>f < length (tx_defers w). tx_defers w ! f \<noteq> Pending \<longrightarrow> tx_defers w' ! f = tx_defers w ! f)
     \<and> length (tx_items w) \<le> length (tx_items w')
     \<and> (\<forall>f < length (tx_items w). tx_items w ! f \<noteq> Pending \<longrightarrow> tx_items w' ! f = tx_items w ! f)"

lemma t_frame_trans: "t_frame u v \<Longrightarrow> t_frame v w \<Longrightarrow> t_frame u w"
  unfolding t_frame_def by (metis order_less_le_trans order_trans)

interpretation tt: frame_relation t_frame
  by unfold_locales (simp add: t_frame_def, rule t_frame_trans)

abbreviation t_keeps :: "'a tx_io \<Rightarrow> bool" where
  "t_keeps m \<equiv> steps_within t_frame m"

named_theorems t_intros \<open>steps of the instance\<close>

lemmas [t_intros] = tt.within_intros

lemma t_keeps_gets [t_intros]: "t_keeps (t_gets g)"
  by (auto simp: t_gets_def tt.R_refl)

lemma t_keeps_modify: "(\<And>w. t_frame w (f w)) \<Longrightarrow> t_keeps (t_modify f)"
  by (auto simp: t_modify_def)

lemma t_frame_fields [simp]:
  "t_frame w (w\<lparr>tx_next_token := n\<rparr>)" "t_frame w (w\<lparr>tx_queries := q\<rparr>)" "t_frame w (w\<lparr>tx_cache := d\<rparr>)"
  "t_frame w (w\<lparr>tx_queries := q, tx_cache := d\<rparr>)" "t_frame w (w\<lparr>tx_cursors := cs, tx_cache := d\<rparr>)"
  "t_frame w (w\<lparr>tx_closing := b\<rparr>)" "t_frame w (w\<lparr>tx_dropping := b\<rparr>)" "t_frame w (w\<lparr>tx_defers := tx_defers w @ xs\<rparr>)"
  "t_frame w (w\<lparr>tx_items := tx_items w @ xs\<rparr>)"
  "t_frame w (w\<lparr>tx_closers := fs\<rparr>)" "t_frame w (w\<lparr>tx_attached := b, tx_next_token := n\<rparr>)"
  "t_frame w (w\<lparr>tx_var := v\<rparr>)" "t_frame w (w\<lparr>tx_var := v, tx_written := bs\<rparr>)"
  "t_frame w (t_set_cursor c h w)"
  by (simp_all add: t_frame_def nth_append t_set_cursor_def)

lemma t_keeps_fields [t_intros]:
  "t_keeps (t_modify (\<lambda>w. w\<lparr>tx_next_token := n w\<rparr>))" "t_keeps (t_modify (\<lambda>w. w\<lparr>tx_queries := q w\<rparr>))"
  "t_keeps (t_modify (\<lambda>w. w\<lparr>tx_cache := d w\<rparr>))" "t_keeps (t_modify (\<lambda>w. w\<lparr>tx_queries := q w, tx_cache := d w\<rparr>))"
  "t_keeps (t_modify (\<lambda>w. w\<lparr>tx_cursors := cs w, tx_cache := d w\<rparr>))" "t_keeps (t_modify (\<lambda>w. w\<lparr>tx_closing := b w\<rparr>))"
  "t_keeps (t_modify (\<lambda>w. w\<lparr>tx_dropping := b w\<rparr>))" "t_keeps (t_modify (\<lambda>w. w\<lparr>tx_defers := tx_defers w @ xs w\<rparr>))"
  "t_keeps (t_modify (\<lambda>w. w\<lparr>tx_items := tx_items w @ xs w\<rparr>))"
  "t_keeps (t_modify (\<lambda>w. w\<lparr>tx_closers := fs w\<rparr>))" "t_keeps (t_modify (\<lambda>w. w\<lparr>tx_attached := b w, tx_next_token := n w\<rparr>))"
  "t_keeps (t_modify (t_set_cursor c h))"
  by (auto intro!: t_keeps_modify)

lemma t_keeps_new [t_intros]: "t_keeps t_new_defer" "t_keeps (t_new_item x)"
  unfolding t_new_defer_def t_new_item_def by (intro t_intros)+

lemma t_keeps_settle [t_intros]: "t_keeps (t_settle f v)"
proof
  fix w
  show "t_frame w (snd (t_settle f v w))"
    by (cases "f < length (tx_defers w)")
      (auto simp: t_settle_def t_gets_def t_modify_def bind_def ret_def raise_def t_frame_def nth_list_update list_update_beyond)
qed

lemma t_keeps_settle_item [t_intros]: "t_keeps (t_settle_item f v)"
proof
  fix w
  show "t_frame w (snd (t_settle_item f v w))"
    by (cases "f < length (tx_items w)")
      (auto simp: t_settle_item_def t_gets_def t_modify_def bind_def ret_def raise_def t_frame_def nth_list_update list_update_beyond)
qed

lemma t_keeps_write [t_intros]: "t_keeps (t_write p q)"
  by (auto simp: t_write_def tt.R_refl split: prod.splits sum.splits)

lemma t_keeps_checks [t_intros]: "t_keeps t_is_open" "t_keeps t_check_open"
  unfolding t_check_open_def t_is_open_def by (intro t_intros)+

lemma t_keeps_run_query [t_intros]: "t_keeps (t_run_query p q)"
  unfolding t_run_query_def by (intro t_intros)

lemma t_keeps_queries [t_intros]: "t_keeps t_new_token" "t_keeps (t_start p q opts)" "t_keeps (t_control p ty)"
  unfolding t_start_def t_control_def t_new_token_def Let_def by (intro t_intros)+

lemma t_keeps_send_control [t_intros]: "t_keeps (t_send_control p ty c)"
proof
  fix w
  have "t_keeps (bind t_check_open (\<lambda>_. t_write p (control_query p ty (wtoken (cu_query (tc_cursor (t_cursor c w)))))))"
    by (intro t_intros)
  then show "t_frame w (snd (t_send_control p ty c w))" by (simp add: t_send_control_def steps_within_def)
qed

lemma t_keeps_fetch [t_intros]: "t_keeps (t_fetch p c)"
  unfolding t_fetch_def t_ask_def by (intro t_intros)

lemma t_keeps_items [t_intros]: "t_keeps (t_put c x)" "t_keeps (t_extend_items c xs)" "t_keeps (t_end_with c e)"
  unfolding t_extend_items_def t_put_def t_end_with_def by (intro t_intros | clarsimp)+

lemma t_keeps_extend_internal [t_intros]: "t_keeps (t_absorb p c res xs)" "t_keeps (t_forget t)" "t_keeps (t_extend_internal p c res)"
  unfolding t_extend_internal_def t_absorb_def t_forget_def by (intro t_intros)+

lemma t_keeps_turn [t_intros]: "t_keeps (t_fetch_turn p c r)"
  unfolding t_fetch_turn_def by (intro t_intros)

lemma t_keeps_wake [t_intros]: "t_keeps (t_wake p c x)" "t_keeps (t_cancel_getter c e g)"
  unfolding t_wake_def t_cancel_getter_def by (cases x, simp, intro t_intros) (intro t_intros)

lemma t_keeps_cancels [t_intros]: "t_keeps (t_cancel_getters c e gs)"
  unfolding t_cancel_getters_def by (intro t_intros) (auto intro: t_keeps_wake)

lemma t_keeps_extend [t_intros]: "t_keeps (t_extend p c buf)"
  unfolding t_extend_def by (intro t_intros | clarsimp)+

lemma t_keeps_cursors [t_intros]: "t_keeps (t_cursor_fail p m c)" "t_keeps (t_new_cursor p q res)" "t_keeps (t_get_next p c)"
    "t_keeps (t_fetch_next p c)" "t_keeps (t_cursor_close p c)"
  unfolding t_cursor_fail_def t_new_cursor_def t_get_next_def t_fetch_next_def t_cursor_close_def t_ask_def by (intro t_intros)+

lemma t_keeps_timers [t_intros]: "t_keeps (t_getter_timer c g)" "t_keeps (t_wait_timer c x)"
  unfolding t_getter_timer_def t_wait_timer_def by (intro t_intros) (cases x, simp, intro t_intros)

lemma t_keeps_closing [t_intros]: "t_keeps t_lose" "t_keeps (t_fail_query m f)" "t_keeps (t_shut p e)" "t_keeps (t_close_end f)"
  unfolding t_shut_def t_lose_def t_fail_query_def t_close_end_def by (intro t_intros | clarsimp)+

lemma t_keeps_instance_close [t_intros]: "t_keeps (t_instance_close p nw t e)"
proof -
  have "t_keeps (\<lambda>w. if \<not> nw then t_lose w
       else case t_run_query p (control_query p ''NOREPLY_WAIT'' t) w of
         (Inr f, w') \<Rightarrow> (Inr (), w'\<lparr>tx_closers := f # tx_closers w'\<rparr>)
       | (Inl e', w') \<Rightarrow> bind t_lose (\<lambda>_. raise e') w')"
  proof
    fix w
    show "t_frame w (snd (if \<not> nw then t_lose w
       else case t_run_query p (control_query p ''NOREPLY_WAIT'' t) w of
         (Inr f, w') \<Rightarrow> (Inr (), w'\<lparr>tx_closers := f # tx_closers w'\<rparr>)
       | (Inl e', w') \<Rightarrow> bind t_lose (\<lambda>_. raise e') w'))"
    proof (cases "t_run_query p (control_query p ''NOREPLY_WAIT'' t) w")
      case (Pair r w1)
      have 1: "t_frame w w1" using steps_withinD [OF t_keeps_run_query Pair] .
      have 2: "t_keeps (bind t_lose (\<lambda>_. raise x) :: unit tx_io)" for x by (intro t_intros t_keeps_closing)
      show ?thesis using 1 2 t_keeps_closing(1) t_frame_trans [OF 1] Pair
        by (auto simp: steps_within_def split: sum.splits)
    qed
  qed
  then show ?thesis unfolding t_instance_close_def by (intro t_intros)
qed

lemma t_keeps_resolve [t_intros]: "t_keeps (t_close p nw)" "t_keeps (t_resolve p q f res)" "t_keeps t_unknown"
  unfolding t_close_def t_resolve_def t_unknown_def by (intro t_intros)+

lemma t_keeps_dispatch [t_intros]: "t_keeps (t_dispatch p t buf)"
  unfolding t_dispatch_def by (intro t_intros | clarsimp)+

lemma t_keeps_handle [t_intros]: "t_keeps (t_handle p token buf)"
proof
  fix w
  let ?m = "case token of None \<Rightarrow> t_unknown | Some t \<Rightarrow> t_dispatch p t buf"
  obtain r w1 where m: "?m w = (r, w1)" by (cases "?m w")
  have "t_keeps ?m" by (intro t_intros)
  then have 1: "t_frame w w1" using m by (rule steps_withinD)
  have "t_keeps (\<lambda>w'. (Inr () :: error + unit, snd (t_lose w')))"
    using t_keeps_closing(1) by (simp add: steps_within_def)
  then have "t_keeps (bind (t_shut p (Some e)) (\<lambda>_ w'. (Inr (), snd (t_lose w'))))" for e
    by (intro t_intros t_keeps_closing)
  then show "t_frame w (snd (t_handle p token buf w))"
    using 1 m t_frame_trans [OF 1] by (auto simp: t_handle_def steps_within_def split: sum.splits)
qed

subsection \<open>The stream, however it is cut\<close>

lemma handle_frames_frame:
  "handle_frames (t_handle p) x w = (r, w') \<Longrightarrow> t_frame w w'"
proof (induction "t_handle p" x w arbitrary: r w' rule: handle_frames.induct)
  case (1 x w)
  show ?case
  proof (cases "rx_short x")
    case True
    then show ?thesis using 1(2) by (simp add: handle_frames.simps [of _ x w] tt.R_refl)
  next
    case False
    show ?thesis
    proof (cases "read_rx_header x")
      case (Inl e)
      then show ?thesis using 1(2) False by (simp add: handle_frames.simps [of _ x w] tt.R_refl)
    next
      case (Inr y)
      obtain v w1 where h: "t_handle p (rx_token y) (take (rx_expected y) (rx_buf y)) w = (v, w1)"
        by (cases "t_handle p (rx_token y) (take (rx_expected y) (rx_buf y)) w")
      have f: "t_frame w w1" using t_keeps_handle h by (rule steps_withinD)
      show ?thesis using 1(2) False Inr h f 1(1) [OF False Inr _ h [symmetric]]
        by (cases v) (auto simp: handle_frames.simps [of _ x w] tt.R_refl split: if_splits dest: t_frame_trans [OF f])
    qed
  qed
qed

text \<open>What it means to be connected.\<close>

definition t_up :: "twisted \<Rightarrow> bool" where
  "t_up w \<longleftrightarrow> tx_open w \<and> tx_phase w = IsReady"

lemma receive_up:
  assumes "t_up w"
  shows "t_data_received p random bs w
     = (case handle_frames (t_handle p) (more_data bs (tx_rx w)) (w\<lparr>tx_rx := rx_start\<rparr>) of
          ((Inr u, x), w') \<Rightarrow> (Inr (), w'\<lparr>tx_rx := x\<rparr>)
        | ((Inl e, x), w') \<Rightarrow> (Inl (t_dropped e), w'\<lparr>tx_rx := x, tx_dropping := True\<rparr>))"
  using assms by (simp add: t_up_def t_data_received_def t_handle_response_def split: prod.split sum.split)

lemma receive_two:
  assumes "t_up w" "t_data_received p random (a @ b) w = (Inr (), w')"
  shows "\<exists>w1. t_data_received p random a w = (Inr (), w1) \<and> t_up w1 \<and> t_data_received p random b w1 = (Inr (), w')"
proof -
  let ?w = "w\<lparr>tx_rx := rx_start\<rparr>"
  obtain x w2 where x: "handle_frames (t_handle p) (more_data b (more_data a (tx_rx w))) ?w = ((Inr (), x), w2)"
      "w' = w2\<lparr>tx_rx := x\<rparr>"
    using assms(2) by (auto simp: receive_up [OF assms(1)] split: prod.splits sum.splits)
  obtain y w1 where y: "handle_frames (t_handle p) (more_data a (tx_rx w)) ?w = ((Inr (), y), w1)"
    using handle_prefix [OF x(1)] by blast
  have f: "tx_rx w1 = rx_start" "tx_open w1 = tx_open w" "tx_phase w1 = tx_phase w"
    using handle_frames_frame [OF y] by (simp_all add: t_frame_def)
  have up: "t_up (w1\<lparr>tx_rx := y\<rparr>)" using assms(1) f by (simp add: t_up_def)
  have "w1\<lparr>tx_rx := rx_start\<rparr> = w1" using f(1) by simp
  then have "handle_frames (t_handle p) (more_data b y) (w1\<lparr>tx_rx := rx_start\<rparr>) = ((Inr (), x), w2)"
    using handle_more [OF y, of b] x(1) by simp
  then show ?thesis using y x(2) up by (intro exI [of _ "w1\<lparr>tx_rx := y\<rparr>"]) (simp add: receive_up [OF assms(1)] receive_up [OF up])
qed

lemma receive_chunks:
  assumes "t_up w" "t_data_received p random (concat (c # cs)) w = (Inr (), w')"
  shows "t_run p random (map DataReceived (c # cs)) w = w'"
  using assms
proof (induction cs arbitrary: c w)
  case Nil
  then show ?case by (simp add: t_run_def)
next
  case (Cons d cs)
  obtain w1 where "t_data_received p random c w = (Inr (), w1)" "t_up w1" "t_data_received p random (concat (d # cs)) w1 = (Inr (), w')"
    using receive_two [OF Cons.prems(1), of p random c "concat (d # cs)"] Cons.prems(2) by auto
  then show ?case using Cons.IH [of w1 d] by (simp add: t_run_def)
qed

text \<open>C11. How the reactor cuts the stream makes no difference: when the frames of a stream, handled one after
  the other, do not raise, then the calls of \<open>dataReceived\<close> with that stream, and perhaps the beginning of
  another frame, in any pieces have exactly the effect of handling these frames in order, and keep the
  beginning.\<close>

theorem frames_in_any_chunks:
  assumes "t_up w" "tx_rx w = rx_start" "each_frame (t_handle p) fs w = (Inr u, w')"
    and "\<forall>(t, body) \<in> set fs. t < 2 ^ 63 \<and> length body < 2 ^ 32" "length rest < 12"
    and "concat (c # cs) = concat (map (\<lambda>(t, body). frame t body) fs) @ rest"
  shows "t_run p random (map DataReceived (c # cs)) w = w'\<lparr>tx_rx := more_data rest rx_start\<rparr>"
proof (rule receive_chunks [OF assms(1)])
  have "w\<lparr>tx_rx := rx_start\<rparr> = w" using assms(2) by (cases w) simp
  then show "t_data_received p random (concat (c # cs)) w = (Inr (), w'\<lparr>tx_rx := more_data rest rx_start\<rparr>)"
    unfolding assms(6) receive_up [OF assms(1)] assms(2) using handle_each [OF assms(4,3,5)] by simp
qed

subsection \<open>The handshake\<close>

text \<open>Steps of the protocol do not touch the instance at all.\<close>

definition t_apart :: "twisted \<Rightarrow> twisted \<Rightarrow> bool" where
  "t_apart w w' \<longleftrightarrow> tx_defers w' = tx_defers w \<and> tx_items w' = tx_items w \<and> tx_queries w' = tx_queries w
     \<and> tx_cache w' = tx_cache w \<and> tx_cursors w' = tx_cursors w \<and> tx_closing w' = tx_closing w
     \<and> tx_attached w' = tx_attached w \<and> tx_next_token w' = tx_next_token w"

interpretation ta: frame_relation t_apart
  by unfold_locales (simp_all add: t_apart_def)

lemma t_apart_modify: "(\<And>w. t_apart w (f w)) \<Longrightarrow> steps_within t_apart (t_modify f)"
  by (auto simp: t_modify_def)

lemma t_apart_gets: "steps_within t_apart (t_gets g)"
  by (auto simp: t_gets_def ta.R_refl)

lemma t_apart_turn: "steps_within t_apart (t_handshake_turn random r)"
proof -
  have n: "steps_within t_apart (t_next_message random x)" for x
    by (auto simp: t_next_message_def t_apart_def split: prod.splits)
  show ?thesis unfolding t_handshake_turn_def t_ready_def
    by (intro ta.within_intros n) (auto intro!: ta.within_intros t_apart_modify t_apart_gets simp: t_apart_def split: request.splits)
qed

lemma t_apart_handshake: "t_handshake_loop random buf w = (r, w') \<Longrightarrow> t_apart w w'"
proof (induction random buf w arbitrary: r w' rule: t_handshake_loop.induct)
  case (1 random buf w)
  obtain v w1 where t: "t_handshake_turn random (takeWhile (\<lambda>b. b \<noteq> 0) buf) w = (v, w1)"
    by (cases "t_handshake_turn random (takeWhile (\<lambda>b. b \<noteq> 0) buf) w")
  have a: "t_apart w w1" using t_apart_turn t by (rule steps_withinD)
  show ?case
  proof (cases "0 \<in> set buf \<and> (\<exists>u. v = Inr u)")
    case True
    then obtain u where u: "0 \<in> set buf" "v = Inr u" by blast
    then have "t_handshake_loop random (drop (Suc (length (takeWhile (\<lambda>b. b \<noteq> 0) buf))) buf) w1 = (r, w')"
      using 1(2) t by (simp add: t_handshake_loop.simps [of random buf w] Let_def)
    from 1(1) [OF _ refl t [symmetric] u(2) this] u(1) show ?thesis using ta.R_trans [OF a] by simp
  next
    case False
    then show ?thesis using 1(2) t a
      by (cases v) (auto simp: t_handshake_loop.simps [of random buf w] Let_def ta.R_refl split: if_splits)
  qed
qed

subsection \<open>When the connection is lost\<close>

text \<open>Steps of cursors: the queries are as they were.\<close>

definition t_quiet :: "twisted \<Rightarrow> twisted \<Rightarrow> bool" where
  "t_quiet w w' \<longleftrightarrow> tx_open w' = tx_open w \<and> tx_made w' = tx_made w \<and> tx_defers w' = tx_defers w \<and> tx_queries w' = tx_queries w
     \<and> tx_closing w' = tx_closing w \<and> tx_attached w' = tx_attached w \<and> tx_next_token w' = tx_next_token w"

interpretation tq: frame_relation t_quiet
  by unfold_locales (simp_all add: t_quiet_def)

abbreviation t_quietly :: "'a tx_io \<Rightarrow> bool" where
  "t_quietly m \<equiv> steps_within t_quiet m"

named_theorems q_intros \<open>steps of cursors\<close>

lemmas [q_intros] = tq.within_intros

lemma t_quietly_gets [q_intros]: "t_quietly (t_gets g)"
  by (auto simp: t_gets_def tq.R_refl)

lemma t_quietly_modify: "(\<And>w. t_quiet w (f w)) \<Longrightarrow> t_quietly (t_modify f)"
  by (auto simp: t_modify_def)

lemma t_quietly_fields [q_intros]:
  "t_quietly (t_modify (\<lambda>w. w\<lparr>tx_items := xs w\<rparr>))" "t_quietly (t_modify (\<lambda>w. w\<lparr>tx_dropping := b w\<rparr>))"
  "t_quietly (t_modify (\<lambda>w. w\<lparr>tx_closers := fs w\<rparr>))" "t_quietly (t_modify (t_set_cursor c h))"
  by (auto intro!: t_quietly_modify simp: t_quiet_def t_set_cursor_def)

lemma t_quietly_items [q_intros]: "t_quietly (t_new_item x)" "t_quietly (t_settle_item f v)"
  unfolding t_new_item_def t_settle_item_def by (intro q_intros)+

lemma t_quietly_checks [q_intros]: "t_quietly t_is_open" "t_quietly t_check_open"
  unfolding t_check_open_def t_is_open_def by (intro q_intros)+

lemma t_quietly_write [q_intros]: "t_quietly (t_write p q)"
  by (auto simp: t_write_def tq.R_refl t_quiet_def split: prod.splits sum.splits)

lemma t_quietly_send_control [q_intros]: "t_quietly (t_send_control p ty c)"
proof
  fix w
  have "t_quietly (bind t_check_open (\<lambda>_. t_write p (control_query p ty (wtoken (cu_query (tc_cursor (t_cursor c w)))))))"
    by (intro q_intros)
  then show "t_quiet w (snd (t_send_control p ty c w))" by (simp add: t_send_control_def steps_within_def)
qed

lemma t_quietly_cursors [q_intros]: "t_quietly (t_fetch p c)" "t_quietly (t_end_with c e)" "t_quietly (t_ask c)"
  unfolding t_fetch_def t_ask_def t_end_with_def by (intro q_intros)+

lemma t_quietly_turn [q_intros]: "t_quietly (t_fetch_turn p c r)"
  unfolding t_fetch_turn_def by (intro q_intros)

lemma t_quietly_calls [q_intros]: "t_quietly (t_get_next p c)" "t_quietly (t_fetch_next p c)" "t_quietly (t_cursor_close p c)"
    "t_quietly (t_getter_timer c g)"
  unfolding t_get_next_def t_fetch_next_def t_cursor_close_def t_getter_timer_def by (intro q_intros)+

lemma t_quietly_wait_timer [q_intros]: "t_quietly (t_wait_timer c x)"
  unfolding t_wait_timer_def by (cases x, simp, intro q_intros)

lemma t_quietly_close_end [q_intros]: "t_quietly (t_close_end f)"
  unfolding t_close_end_def t_lose_def by (intro q_intros)

lemma t_closed_check: "\<not> tx_open w \<Longrightarrow> \<exists>e. t_check_open w = (Inl e, w)"
  by (simp add: t_check_open_def t_is_open_def bind_def t_gets_def raise_def)

lemma t_do_lost:
  assumes "\<not> tx_open w" "tx_defers w ! f = Pending" "ev \<noteq> CancelQuery f" "\<forall>nw. ev \<noteq> CallClose nw"
  shows "\<not> tx_open (snd (t_do p random ev w)) \<and> tx_defers (snd (t_do p random ev w)) ! f = Pending"
proof -
  have quiet: "\<not> tx_open (snd (m w)) \<and> tx_defers (snd (m w)) ! f = Pending" if "t_quietly m" for m :: "unit tx_io"
    using that assms(1,2) by (auto simp: steps_within_def t_quiet_def)
  show ?thesis
  proof (cases ev)
    case (CancelQuery g)
    then show ?thesis using assms by (auto simp: t_cancel_query_def t_modify_def)
  next
    case (StartQuery q opts)
    then show ?thesis using assms t_closed_check [OF assms(1)] by (auto simp: t_start_def bind_def)
  next
    case (ControlQuery ty)
    then show ?thesis using assms t_closed_check [OF assms(1)] by (auto simp: t_control_def bind_def)
  next
    case HandshakeTimer
    then show ?thesis using assms by (simp add: t_handshake_timeout_def bind_def t_gets_def t_modify_def raise_def ret_def)
  qed (use assms in \<open>auto intro!: quiet q_intros simp: t_data_received_def t_connection_lost_def t_modify_def\<close>)
qed

lemma t_run_lost:
  assumes "\<not> tx_open w" "tx_defers w ! f = Pending" "CancelQuery f \<notin> set evs" "\<forall>nw. CallClose nw \<notin> set evs"
  shows "tx_defers (t_run p random evs w) ! f = Pending"
  using assms
proof (induction evs arbitrary: w)
  case (Cons ev evs)
  have "ev \<noteq> CancelQuery f" "\<forall>nw. ev \<noteq> CallClose nw" using Cons.prems(3,4) by auto
  from t_do_lost [OF Cons.prems(1,2) this] Cons.IH [of "snd (t_do p random ev w)"] Cons.prems(3,4)
  show ?case by (simp add: t_run_def)
qed (simp add: t_run_def)

text \<open>In the Twisted driver nobody tells those who wait that the connection is lost: after
  \<open>connectionLost\<close> a query that waits for its response goes on waiting, whatever then arrives and whatever
  else is called, until its owner cancels it or the connection is closed.\<close>

theorem twisted_lost_waits:
  assumes "tx_defers w ! f = Pending" "CancelQuery f \<notin> set evs" "\<forall>nw. CallClose nw \<notin> set evs"
  shows "tx_defers (t_run p random (ConnectionLost # evs) w) ! f = Pending"
proof -
  have "t_run p random (ConnectionLost # evs) w = t_run p random evs (w\<lparr>tx_open := False\<rparr>)"
    by (simp add: t_run_def t_connection_lost_def t_modify_def)
  then show ?thesis using t_run_lost [OF _ _ assms(2,3), of "w\<lparr>tx_open := False\<rparr>"] assms(1) by simp
qed

subsection \<open>After a \<open>fetch_next\<close> has timed out\<close>

lemma t_quietly_forget [q_intros]: "t_quietly (t_forget t)"
  unfolding t_forget_def by (intro q_intros t_quietly_modify) (simp add: t_quiet_def)

lemma t_quietly_extend [q_intros]: "t_quietly (t_put c x)" "t_quietly (t_extend_items c xs)" "t_quietly (t_absorb p c res xs)"
    "t_quietly (t_extend_internal p c res)" "t_quietly (t_cancel_getter c e g)" "t_quietly (t_extend p c buf)" "t_quietly (t_cursor_fail p m c)"
proof -
  show put: "t_quietly (t_put c x)" for c x unfolding t_put_def by (intro q_intros)
  show items: "t_quietly (t_extend_items c xs)" for c xs
    unfolding t_extend_items_def by (intro q_intros) (auto intro: put)
  show absorb: "t_quietly (t_absorb p c res xs)" for c res xs unfolding t_absorb_def by (intro q_intros items)
  show internal: "t_quietly (t_extend_internal p c res)" for c res unfolding t_extend_internal_def by (intro q_intros absorb)
  show cancel: "t_quietly (t_cancel_getter c e g)" for c e g unfolding t_cancel_getter_def by (intro q_intros)
  have wake: "t_quietly (t_wake p c x)" for c x unfolding t_wake_def by (cases x, simp, intro q_intros)
  have cancels: "t_quietly (t_cancel_getters c e gs)" for c e gs
    unfolding t_cancel_getters_def by (intro q_intros) (auto intro: cancel)
  show extend: "t_quietly (t_extend p c buf)" for c buf
    unfolding t_extend_def by (intro q_intros internal cancels | clarsimp simp: wake)+
  show "t_quietly (t_cursor_fail p m c)" unfolding t_cursor_fail_def by (intro q_intros extend)
qed

subsection \<open>Responses of queries\<close>

text \<open>The queries that wait: each under its own token, with a \<open>Deferred\<close> of its own that has no result
  (its owner may have cancelled it), and nobody waits who is not among them.\<close>

definition t_wf :: "twisted \<Rightarrow> bool" where
  "t_wf w \<longleftrightarrow> queries_wf (tx_queries w) (tx_defers w) \<and> all_registered (tx_queries w) (tx_defers w)
     \<and> (tx_attached w \<longrightarrow> all_below (tx_next_token w) (tx_queries w))"

lemma t_quiet_wf: "t_quiet w w' \<Longrightarrow> t_wf w \<Longrightarrow> t_wf w'"
  by (simp add: t_quiet_def t_wf_def)

lemma t_apart_wf: "t_apart w w' \<Longrightarrow> t_wf w \<Longrightarrow> t_wf w'"
  by (simp add: t_apart_def t_wf_def)

lemma t_quietly_wf: "t_quietly m \<Longrightarrow> m w = (r, w') \<Longrightarrow> t_wf w \<Longrightarrow> t_wf w'"
  by (erule t_quiet_wf [OF _ _, rotated]) (erule steps_withinD)

lemma t_wf_fields [simp]:
  "t_wf (w\<lparr>tx_closing := b\<rparr>) = t_wf w" "t_wf (w\<lparr>tx_dropping := b\<rparr>) = t_wf w" "t_wf (w\<lparr>tx_closers := fs\<rparr>) = t_wf w"
  "t_wf (w\<lparr>tx_rx := x\<rparr>) = t_wf w" "t_wf (w\<lparr>tx_open := b\<rparr>) = t_wf w"
  by (simp_all add: t_wf_def)

lemma t_wfD:
  assumes "t_wf w" "map_of (tx_queries w) t = Some (q, f)"
  shows "wtoken q = t" "f < length (tx_defers w)" "tx_defers w ! f = Pending \<or> tx_defers w ! f = Cancelled"
    "map_of (tx_queries w) t' = Some (q', f) \<Longrightarrow> t' = t"
  using assms unfolding t_wf_def queries_wf_def by blast+

lemma t_run_query_wf:
  assumes "t_run_query p q w = (r, w')" "t_wf w" "map_of (tx_queries w) (wtoken q) = None"
    "tx_attached w \<Longrightarrow> wtoken q < tx_next_token w"
  shows "t_wf w'"
proof -
  let ?w = "w\<lparr>tx_defers := tx_defers w @ [Pending], tx_queries := dict_put (tx_queries w) (wtoken q) (q, length (tx_defers w))\<rparr>"
  have "bind (t_write p q) (\<lambda>_. ret (length (tx_defers w))) ?w = (r, w')"
    using assms(1) by (simp add: t_run_query_def t_new_defer_def t_gets_def t_modify_def bind_def ret_def)
  moreover have "t_quietly (bind (t_write p q) (\<lambda>_. ret (length (tx_defers w))))" by (intro q_intros)
  moreover have "t_wf ?w"
    using assms(2-4) queries_wf_put [OF _ refl assms(3), of "tx_defers w"] all_registered_put [OF _ _ assms(3), of "tx_defers w" q]
    by (simp add: t_wf_def all_below_put)
  ultimately show ?thesis using t_quietly_wf by blast
qed

lemma t_bind_token: "bind t_new_token f w = f (tx_next_token w) (w\<lparr>tx_next_token := tx_next_token w + 1\<rparr>)"
  by (simp add: t_new_token_def bind_def t_gets_def t_modify_def ret_def)

lemma t_wf_token: "t_wf w \<Longrightarrow> t_wf (w\<lparr>tx_next_token := tx_next_token w + 1\<rparr>)"
  by (auto simp: t_wf_def elim: all_below_more)

lemma t_run_new_wf:
  assumes "t_run_query p q (w\<lparr>tx_next_token := tx_next_token w + 1\<rparr>) = (r, w')" "wtoken q = tx_next_token w"
    "t_wf w" "tx_attached w"
  shows "t_wf w'"
proof (rule t_run_query_wf [OF assms(1) t_wf_token [OF assms(3)]])
  show "map_of (tx_queries (w\<lparr>tx_next_token := tx_next_token w + 1\<rparr>)) (wtoken q) = None"
    using assms(2-4) by (auto simp: t_wf_def intro: all_below_fresh)
qed (use assms(2) in simp)

lemma t_check_open_cases: "(\<exists>e. t_check_open w = (Inl e, w)) \<or> t_check_open w = (Inr (), w) \<and> tx_attached w"
  by (auto simp: t_check_open_def t_is_open_def bind_def t_gets_def raise_def ret_def)

lemma t_asks_wf: "t_start p q opts w = (r, w') \<Longrightarrow> t_wf w \<Longrightarrow> t_wf w'" "t_control p ty w = (r', w') \<Longrightarrow> t_wf w \<Longrightarrow> t_wf w'"
proof -
  let ?w = "w\<lparr>tx_next_token := tx_next_token w + 1\<rparr>"
  let ?wq = "make_query (pquery p ''START'') (tx_next_token w) (Some q) (Some opts)"
  show "t_wf w'" if c: "t_control p ty w = (r', w')" "t_wf w"
  proof (cases "t_check_open w = (Inr (), w) \<and> tx_attached w")
    case True
    then show ?thesis using c t_run_new_wf [of p "control_query p ty (tx_next_token w)" w r' w']
      by (simp add: t_control_def bind_def [of t_check_open] t_bind_token)
  qed (use c t_check_open_cases [of w] in \<open>auto simp: t_control_def bind_def [of t_check_open]\<close>)
  show "t_wf w'" if s: "t_start p q opts w = (r, w')" "t_wf w"
  proof (cases "t_check_open w = (Inr (), w) \<and> tx_attached w")
    case True
    let ?m = "bind (t_write p ?wq) (\<lambda>_. ret (None :: nat option))"
    have "(if wants_noreply ?wq then ?m ?w else bind (t_run_query p ?wq) (\<lambda>f. ret (Some f)) ?w) = (r, w')"
      using s(1) True by (simp add: t_start_def bind_def [of t_check_open] t_bind_token Let_def split: if_splits)
    moreover have "t_quietly ?m" by (intro q_intros)
    moreover have "wtoken ?wq = tx_next_token w" by (simp add: make_query_def)
    ultimately show ?thesis using s(2) True t_wf_token [OF s(2)] t_quietly_wf [of ?m ?w r w'] t_run_new_wf [of p ?wq w]
      by (auto simp: bind_def [of "t_run_query _ _"] ret_def split: if_splits prod.splits sum.splits)
  qed (use s t_check_open_cases [of w] in \<open>auto simp: t_start_def bind_def [of t_check_open]\<close>)
qed

text \<open>What a response says.\<close>

definition t_answer :: "proto \<Rightarrow> wire_query \<Rightarrow> response \<Rightarrow> nat \<Rightarrow> error + future" where
  "t_answer p q res c =
     (if is_int (rtype res) (presponse p ''SUCCESS_ATOM'') then
        (case first_item (rdata res) of Inl e \<Rightarrow> Inl e | Inr v \<Rightarrow> Inr (Done (maybe_profile (Val v) res)))
      else if is_int (rtype res) (presponse p ''SUCCESS_SEQUENCE'') \<or> is_int (rtype res) (presponse p ''SUCCESS_PARTIAL'') then
        (case items_of (rdata res) of Inl e \<Rightarrow> Inl e | Inr xs \<Rightarrow> Inr (Done (maybe_profile (Cur c) res)))
      else if is_int (rtype res) (presponse p ''WAIT_COMPLETE'') then Inr (Done Nothing)
      else if is_int (rtype res) (presponse p ''SERVER_INFO'') then
        (case first_item (rdata res) of Inl e \<Rightarrow> Inl e | Inr v \<Rightarrow> Inr (Done (Val v)))
      else (case make_error p res (wterm q) of Inl e \<Rightarrow> Inl e | Inr e \<Rightarrow> Inr (Failed e)))"

lemma t_settle_run:
  "tx_defers w ! f = Pending \<or> tx_defers w ! f = Cancelled
     \<Longrightarrow> t_settle f x w = (Inr (), if tx_defers w ! f = Pending then w\<lparr>tx_defers := (tx_defers w)[f := x]\<rparr> else w)"
  by (auto simp: t_settle_def bind_def t_gets_def t_modify_def ret_def)

text \<open>The queue of a new cursor has no getters.\<close>

definition t_clear :: "nat \<Rightarrow> twisted \<Rightarrow> bool" where
  "t_clear c w \<longleftrightarrow> c < length (tx_cursors w) \<and> tc_getters (t_cursor c w) = [] \<and> cu_outstanding (tc_cursor (t_cursor c w)) = 1"

lemma t_clear_set:
  "t_clear c w \<Longrightarrow> (\<And>tc. tc_getters (h tc) = tc_getters tc \<and> cu_outstanding (tc_cursor (h tc)) = cu_outstanding (tc_cursor tc))
     \<Longrightarrow> t_clear c (t_set_cursor c h w)"
  by (simp add: t_clear_def t_set_cursor_def t_cursor_def)

lemma t_clear_items:
  "t_clear c w \<Longrightarrow> \<exists>us w'. seqs (map (t_put c) xs) w = (Inr us, w') \<and> t_clear c w'"
proof (induction xs arbitrary: w)
  case Nil
  then show ?case by (simp add: ret_def)
next
  case (Cons x xs)
  let ?w = "t_set_cursor c (on_cursor (\<lambda>cu. cu\<lparr>cu_items := cu_items cu @ [x]\<rparr>)) w"
  have "t_put c x w = (Inr (), ?w)" using Cons.prems by (simp add: t_put_def bind_def t_gets_def t_modify_def t_clear_def)
  moreover have "t_clear c ?w" using Cons.prems by (rule t_clear_set) (simp add: on_cursor_def)
  ultimately show ?case using Cons.IH [of ?w] by (auto simp: bind_def ret_def)
qed

lemma t_new_cursor_run:
  assumes "is_int (rtype res) (presponse p ''SUCCESS_SEQUENCE'') \<or> is_int (rtype res) (presponse p ''SUCCESS_PARTIAL'')"
  shows "\<exists>w'. t_quiet w w' \<and> t_new_cursor p q res w
     = (case items_of (rdata res) of Inl e \<Rightarrow> Inl e | Inr xs \<Rightarrow> Inr (length (tx_cursors w)), w')"
proof -
  let ?c = "length (tx_cursors w)"
  let ?w = "w\<lparr>tx_cursors := tx_cursors w @ [\<lparr>tc_cursor = init_cursor 0 q, tc_getters = [], tc_waiting = []\<rparr>],
     tx_cache := dict_put (tx_cache w) (wtoken q) ?c\<rparr>"
  have new: "t_new_cursor p q res w = bind (t_fetch p ?c) (\<lambda>_. bind (t_extend_internal p ?c res) (\<lambda>_. ret ?c)) ?w"
    by (simp add: t_new_cursor_def bind_def t_gets_def t_modify_def)
  have quiet: "t_quiet w ?w" by (simp add: t_quiet_def)
  let ?ask = "t_set_cursor ?c (on_cursor (\<lambda>cu. cu\<lparr>cu_outstanding := cu_outstanding cu + 1\<rparr>)) ?w"
  have "t_fetch p ?c ?w = t_send_control p ''CONTINUE'' ?c ?ask"
    by (simp add: t_fetch_def t_ask_def bind_def t_gets_def t_modify_def t_cursor_def init_cursor_def)
  then obtain w1 where f: "t_fetch p ?c ?w = (Inr (), w1)" by (simp add: t_send_control_def)
  have send: "tx_cursors (snd (t_send_control p ''CONTINUE'' c u)) = tx_cursors u" for c u
    by (auto simp: t_send_control_def t_check_open_def t_is_open_def t_write_def bind_def t_gets_def ret_def raise_def
        split: prod.splits sum.splits)
  have "tx_cursors w1 = tx_cursors ?ask" using send [of ?c ?ask] f \<open>t_fetch p ?c ?w = t_send_control p ''CONTINUE'' ?c ?ask\<close> by simp
  then have clear: "t_clear ?c w1" by (simp add: t_clear_def t_cursor_def t_set_cursor_def on_cursor_def init_cursor_def)
  have q1: "t_quiet ?w w1" using t_quietly_cursors(1) f by (rule steps_withinD)
  obtain r2 w2 where 2: "t_extend_internal p ?c res w1 = (r2, w2)" by (cases "t_extend_internal p ?c res w1")
  have q2: "t_quiet w1 w2" using t_quietly_extend(4) 2 by (rule steps_withinD)
  have "r2 = (case items_of (rdata res) of Inl e \<Rightarrow> Inl e | Inr xs \<Rightarrow> Inr ())"
  proof (cases "items_of (rdata res)")
    case (Inl e)
    then show ?thesis using 2 by (simp add: t_extend_internal_def bind_def lift_res_def)
  next
    case (Inr xs)
    let ?w1 = "t_set_cursor ?c (on_cursor (\<lambda>cu. cu\<lparr>cu_threshold := length xs\<rparr>)) w1"
    have c1: "t_clear ?c ?w1" using clear by (rule t_clear_set) (simp add: on_cursor_def)
    obtain us w3 where 3: "seqs (map (t_put ?c) xs) ?w1 = (Inr us, w3)" "t_clear ?c w3"
      using t_clear_items [OF c1] by blast
    have "t_clear ?c (t_set_cursor ?c (on_cursor (\<lambda>cu. cu\<lparr>cu_error := Some a_empty_error\<rparr>)) w3)"
      using 3(2) by (rule t_clear_set) (simp add: on_cursor_def)
    note ends = this
    have items: "t_extend_items ?c xs ?w1 = (Inr (), w3)" using 3(1) by (simp add: t_extend_items_def bind_def ret_def)
    have "\<exists>w4. t_absorb p ?c res xs ?w1 = (Inr (), w4) \<and> t_clear ?c w4"
    proof (cases "cu_error (tc_cursor (t_cursor ?c ?w1)) \<noteq> None")
      case True
      then show ?thesis using c1 by (intro exI [of _ ?w1]) (auto simp: t_absorb_def bind_def t_gets_def ret_def)
    next
      case False
      have absorb: "t_absorb p ?c res xs ?w1
          = (if is_int (rtype res) (presponse p ''SUCCESS_PARTIAL'') then (Inr (), w3) else t_end_with ?c a_empty_error w3)"
        using False assms items by (auto simp: t_absorb_def bind_def t_gets_def)
      show ?thesis unfolding absorb using 3(2) ends by (simp add: t_end_with_def t_modify_def)
    qed
    then obtain w4 where 4: "t_absorb p ?c res xs ?w1 = (Inr (), w4)" "t_clear ?c w4" by blast
    have "t_extend_internal p ?c res w1 = (Inr (), w4)"
      using Inr 4 by (simp add: t_extend_internal_def bind_def lift_res_def t_modify_def t_gets_def t_clear_def ret_def)
    then show ?thesis using 2 Inr by simp
  qed
  then show ?thesis
    using new f 2 tq.R_trans [OF tq.R_trans [OF quiet q1] q2]
    by (intro exI [of _ w2]) (auto simp: bind_def ret_def split: sum.splits)
qed

lemma t_resolve_run:
  assumes "tx_defers w ! f = Pending \<or> tx_defers w ! f = Cancelled"
  shows "\<exists>w1. t_quiet w w1 \<and> t_resolve p q f res w
     = (case t_answer p q res (length (tx_cursors w)) of
          Inl e \<Rightarrow> (Inl e, w1)
        | Inr x \<Rightarrow> (Inr (), if tx_defers w ! f = Pending then w1\<lparr>tx_defers := (tx_defers w)[f := x]\<rparr> else w1))"
proof (cases "\<not> is_int (rtype res) (presponse p ''SUCCESS_ATOM'')
    \<and> (is_int (rtype res) (presponse p ''SUCCESS_SEQUENCE'') \<or> is_int (rtype res) (presponse p ''SUCCESS_PARTIAL''))")
  case True
  then obtain w1 where w1: "t_quiet w w1" "t_new_cursor p q res w
     = (case items_of (rdata res) of Inl e \<Rightarrow> Inl e | Inr xs \<Rightarrow> Inr (length (tx_cursors w)), w1)"
    using t_new_cursor_run [of res p w q] by blast
  then have d: "tx_defers w1 = tx_defers w" by (simp add: t_quiet_def)
  have s: "t_settle f x w1 = (Inr (), if tx_defers w ! f = Pending then w1\<lparr>tx_defers := (tx_defers w)[f := x]\<rparr> else w1)" for x
    using t_settle_run [of w1 f x] assms d by simp
  show ?thesis using True w1 s
    by (intro exI [of _ w1]) (simp add: t_resolve_def t_answer_def bind_def [of "t_new_cursor _ _ _"] split: sum.splits)
next
  case False
  then show ?thesis using t_settle_run [OF assms] tq.R_refl [of w]
    by (intro exI [of _ w]) (auto simp: t_resolve_def t_answer_def bind_def lift_res_def split: sum.splits)
qed

text \<open>The settled query is forgotten, whether its \<open>Deferred\<close> was cancelled or not.\<close>

lemma t_wf_settled:
  assumes "t_wf w" "map_of (tx_queries w) t = Some (q, f)" "x \<noteq> Pending"
  shows "t_wf (w\<lparr>tx_defers := (if tx_defers w ! f = Pending then (tx_defers w)[f := x] else tx_defers w),
     tx_queries := dict_del (tx_queries w) t\<rparr>)"
proof -
  have "\<exists>y. y \<noteq> Pending \<and> (if tx_defers w ! f = Pending then (tx_defers w)[f := x] else tx_defers w) = (tx_defers w)[f := y]"
  proof (cases "tx_defers w ! f = Pending")
    case True
    then show ?thesis using assms(3) by auto
  next
    case False
    then have "tx_defers w ! f = Cancelled" using t_wfD(3) [OF assms(1,2)] by blast
    then have "tx_defers w = (tx_defers w)[f := Cancelled]" by (metis list_update_id)
    then show ?thesis using False by (intro exI [of _ Cancelled]) simp
  qed
  then obtain y where "y \<noteq> Pending"
    "(if tx_defers w ! f = Pending then (tx_defers w)[f := x] else tx_defers w) = (tx_defers w)[f := y]" by blast
  then show ?thesis
    using assms(1) queries_wf_settled [OF _ assms(2)] all_registered_settled [OF _ assms(2)]
    by (simp add: t_wf_def all_below_del)
qed

lemma t_answer_settles: "t_answer p q res c = Inr x \<Longrightarrow> x \<noteq> Pending"
  by (auto simp: t_answer_def split: if_splits sum.splits)

lemma t_dispatch_query:
  assumes "t_wf w" "map_of (tx_cache w) t = None" "map_of (tx_queries w) t = Some (q, f)"
    "parse_response (formats_of q) t body = Inr res"
  shows "\<exists>w1. t_quiet w w1 \<and> t_dispatch p t body w
     = (case t_answer p q res (length (tx_cursors w)) of
          Inl e \<Rightarrow> (Inl e, w1)
        | Inr x \<Rightarrow> (Inr (), w1\<lparr>tx_defers := (if tx_defers w ! f = Pending then (tx_defers w)[f := x] else tx_defers w),
            tx_queries := dict_del (tx_queries w) t\<rparr>))"
proof -
  obtain w1 where w1: "t_quiet w w1" and r: "t_resolve p q f res w
     = (case t_answer p q res (length (tx_cursors w)) of
          Inl e \<Rightarrow> (Inl e, w1)
        | Inr x \<Rightarrow> (Inr (), if tx_defers w ! f = Pending then w1\<lparr>tx_defers := (tx_defers w)[f := x]\<rparr> else w1))"
    using t_resolve_run [OF t_wfD(3) [OF assms(1,3)]] by blast
  have d: "t_dispatch p t body w = bind (t_resolve p q f res) (\<lambda>_. t_modify (\<lambda>w. w\<lparr>tx_queries := dict_del (tx_queries w) t\<rparr>)) w"
    using assms(2-4) by (simp add: t_dispatch_def bind_def t_gets_def lift_res_def)
  have "w1\<lparr>tx_queries := dict_del (tx_queries w) t\<rparr> = w1\<lparr>tx_defers := tx_defers w, tx_queries := dict_del (tx_queries w) t\<rparr>"
    using w1 by (simp add: t_quiet_def)
  then show ?thesis using w1 r d
    by (intro exI [of _ w1]) (auto simp: bind_def t_modify_def t_quiet_def split: sum.splits)
qed

lemma t_dispatch_wf:
  assumes "t_dispatch p t body w = (r, w')" "t_wf w"
  shows "t_wf w'"
proof (cases "map_of (tx_cache w) t")
  case (Some c)
  then have "t_extend p c body w = (r, w')" using assms(1) by (simp add: t_dispatch_def bind_def t_gets_def)
  then show ?thesis using t_quietly_wf [OF t_quietly_extend(6)] assms(2) by blast
next
  case None
  show ?thesis
  proof (cases "map_of (tx_queries w) t")
    case N: None
    then show ?thesis using None assms by (auto simp: t_dispatch_def t_unknown_def bind_def t_gets_def ret_def raise_def split: if_splits)
  next
    case (Some x)
    then obtain q f where qf: "map_of (tx_queries w) t = Some (q, f)" by (cases x) auto
    show ?thesis
    proof (cases "parse_response (formats_of q) t body")
      case (Inl e)
      then show ?thesis using None qf assms by (simp add: t_dispatch_def bind_def t_gets_def lift_res_def)
    next
      case (Inr res)
      obtain w1 where w1: "t_quiet w w1" and d: "t_dispatch p t body w
     = (case t_answer p q res (length (tx_cursors w)) of
          Inl e \<Rightarrow> (Inl e, w1)
        | Inr x \<Rightarrow> (Inr (), w1\<lparr>tx_defers := (if tx_defers w ! f = Pending then (tx_defers w)[f := x] else tx_defers w),
            tx_queries := dict_del (tx_queries w) t\<rparr>))"
        using t_dispatch_query [OF assms(2) None qf Inr, of p] by blast
      have same: "tx_defers w1 = tx_defers w" "tx_queries w1 = tx_queries w" using w1 by (simp_all add: t_quiet_def)
      have wf: "t_wf w1" using t_quiet_wf [OF w1 assms(2)] .
      show ?thesis
      proof (cases "t_answer p q res (length (tx_cursors w))")
        case (Inl e)
        then show ?thesis using d assms(1) wf by simp
      next
        case (Inr x)
        then show ?thesis using d assms(1) t_wf_settled [OF wf, of t q f x] t_answer_settles [OF Inr] qf same by auto
      qed
    qed
  qed
qed

text \<open>\<open>close\<close>, which an error of a cursor may stop on its way.\<close>

lemma t_fail_queries_run:
  "\<exists>us. seqs (map (t_fail_query m) fs) w = (Inr us, w\<lparr>tx_defers := foldl (fail_future m) (tx_defers w) fs\<rparr>)"
proof (induction fs arbitrary: w)
  case Nil
  then show ?case by (simp add: ret_def)
next
  case (Cons f fs)
  let ?w = "w\<lparr>tx_defers := fail_future m (tx_defers w) f\<rparr>"
  have f: "t_fail_query m f w = (Inr (), ?w)"
    by (simp add: t_fail_query_def t_settle_def bind_def t_gets_def t_modify_def ret_def fail_future_def)
  obtain us where "seqs (map (t_fail_query m) fs) ?w
      = (Inr us, w\<lparr>tx_defers := foldl (fail_future m) (tx_defers w) (f # fs)\<rparr>)"
    using Cons.IH [of ?w] by auto
  then show ?case using f by (simp add: bind_def ret_def)
qed

lemma t_fail_all:
  assumes "all_registered (tx_queries w) (tx_defers w)"
  shows "\<forall>f < length (tx_defers w). foldl (fail_future m) (tx_defers w) (map (snd \<circ> snd) (tx_queries w)) ! f \<noteq> Pending"
proof (intro allI impI)
  fix f assume f: "f < length (tx_defers w)"
  have "f \<in> set (map (snd \<circ> snd) (tx_queries w))" if pending: "tx_defers w ! f = Pending"
  proof -
    obtain t q where "map_of (tx_queries w) t = Some (q, f)" using assms f pending unfolding all_registered_def by blast
    from map_of_SomeD [OF this] show ?thesis by force
  qed
  then show "foldl (fail_future m) (tx_defers w) (map (snd \<circ> snd) (tx_queries w)) ! f \<noteq> Pending"
    using f by (auto simp: fail_futures_nth)
qed

lemma t_shut_wf:
  assumes "t_shut p e w = (r, w')" "t_wf w"
  shows "t_wf w' \<and> (r = Inr () \<longrightarrow> tx_queries w' = []) \<and> tx_attached w' = tx_attached w"
proof -
  let ?w = "w\<lparr>tx_closing := True\<rparr>" and ?m = "t_close_message e"
  let ?fail = "seqs (map (t_cursor_fail p ?m) (map snd (tx_cache w)))"
  obtain r1 w1 where 1: "?fail ?w = (r1, w1)" by (cases "?fail ?w")
  have "t_quietly ?fail" by (intro q_intros) (auto intro: t_quietly_extend)
  then have q: "t_quiet ?w w1" using 1 by (rule steps_withinD)
  have wf1: "t_wf w1" by (rule t_quiet_wf [OF q]) (simp add: assms(2))
  show ?thesis
  proof (cases r1)
    case (Inl x)
    then show ?thesis using assms(1) 1 wf1 q by (auto simp: t_shut_def bind_def t_modify_def t_gets_def t_quiet_def)
  next
    case (Inr us)
    let ?fs = "map (snd \<circ> snd) (tx_queries w1)"
    let ?w2 = "w1\<lparr>tx_defers := foldl (fail_future ?m) (tx_defers w1) ?fs\<rparr>"
    obtain us' where 2: "seqs (map (t_fail_query ?m) ?fs) w1 = (Inr us', ?w2)" using t_fail_queries_run by blast
    have reg: "all_registered (tx_queries w1) (tx_defers w1)" using wf1 by (simp add: t_wf_def)
    have "t_shut p e w = (Inr (), ?w2\<lparr>tx_queries := [], tx_cache := []\<rparr>)"
      using 1 2 Inr by (simp add: t_shut_def bind_def t_modify_def t_gets_def)
    moreover have "t_wf (?w2\<lparr>tx_queries := [], tx_cache := []\<rparr>)"
      using t_fail_all [OF reg, of ?m]
      by (simp add: t_wf_def queries_wf_def all_registered_def all_below_def)
    ultimately show ?thesis using assms(1) q by (auto simp: t_quiet_def)
  qed
qed

lemma t_handle_wf:
  assumes "t_handle p token body w = (r, w')" "t_wf w"
  shows "t_wf w'"
proof -
  let ?m = "case token of None \<Rightarrow> t_unknown | Some t \<Rightarrow> t_dispatch p t body"
  obtain r1 w1 where 1: "?m w = (r1, w1)" by (cases "?m w")
  have "t_quietly t_unknown" unfolding t_unknown_def by (intro q_intros)
  then have wf1: "t_wf w1" using 1 assms(2) t_quietly_wf [of t_unknown w r1 w1] t_dispatch_wf [of p _ body w r1 w1]
    by (cases token) auto
  show ?thesis
  proof (cases "\<exists>e. r1 = Inl e \<and> \<not> tx_closing w1")
    case False
    then show ?thesis using assms(1) 1 wf1 by (auto simp: t_handle_def split: sum.splits if_splits)
  next
    case True
    then obtain e where e: "r1 = Inl e" "\<not> tx_closing w1" by blast
    obtain r2 w2 where 2: "t_shut p (Some e) w1 = (r2, w2)" by (cases "t_shut p (Some e) w1")
    have wf2: "t_wf w2" using t_shut_wf [OF 2 wf1] by simp
    have "t_wf (snd (t_lose w2))" using wf2 by (simp add: t_lose_def bind_def t_gets_def t_modify_def raise_def)
    then show ?thesis using assms(1) 1 e 2 wf2 by (cases r2) (auto simp: t_handle_def bind_def)
  qed
qed

lemma handle_frames_wf:
  "handle_frames (t_handle p) x w = (r, w') \<Longrightarrow> t_wf w \<Longrightarrow> t_wf w'"
proof (induction "t_handle p" x w arbitrary: r w' rule: handle_frames.induct)
  case (1 x w)
  show ?case
  proof (cases "rx_short x \<or> (\<exists>e. read_rx_header x = Inl e)")
    case True
    then show ?thesis using 1(2,3) by (auto simp: handle_frames.simps [of _ x w] split: if_splits)
  next
    case False
    then obtain y where y: "\<not> rx_short x" "read_rx_header x = Inr y" by (cases "read_rx_header x") auto
    obtain v w1 where h: "t_handle p (rx_token y) (take (rx_expected y) (rx_buf y)) w = (v, w1)"
      by (cases "t_handle p (rx_token y) (take (rx_expected y) (rx_buf y)) w")
    have wf1: "t_wf w1" using t_handle_wf [OF h 1(3)] .
    show ?thesis using 1(2,3) y h wf1 1(1) [OF y(1,2) _ h [symmetric]]
      by (cases v) (auto simp: handle_frames.simps [of _ x w] split: if_splits)
  qed
qed

lemma t_data_wf:
  assumes "t_data_received p random bs w = (r, w')" "t_wf w"
  shows "t_wf w'"
proof (cases "tx_open w \<and> tx_phase w = WaitingForHandshake")
  case True
  obtain x w1 where h: "t_handshake_loop random (rx_buf (tx_rx w) @ bs) w = (x, w1)"
    by (cases "t_handshake_loop random (rx_buf (tx_rx w) @ bs) w")
  have "t_wf w1" using t_apart_wf [OF t_apart_handshake [of random "rx_buf (tx_rx w) @ bs" w]] assms(2) h by (cases x) auto
  then have "t_wf (w1\<lparr>tx_shaken := v\<rparr>)" for v by (simp add: t_wf_def)
  then show ?thesis using True assms(1) h \<open>t_wf w1\<close>
    by (auto simp: t_data_received_def t_handle_handshake_def t_set_buf_def t_wf_def split: prod.splits sum.splits if_splits)
next
  case False
  show ?thesis
  proof (cases "tx_open w")
    case True
    then have up: "t_up w" using False by (cases "tx_phase w") (auto simp: t_up_def)
    obtain x w1 where h: "handle_frames (t_handle p) (more_data bs (tx_rx w)) (w\<lparr>tx_rx := rx_start\<rparr>) = (x, w1)"
      by (cases "handle_frames (t_handle p) (more_data bs (tx_rx w)) (w\<lparr>tx_rx := rx_start\<rparr>)")
    have "t_wf w1" by (rule handle_frames_wf [OF h]) (simp add: assms(2))
    then show ?thesis using h assms(1) by (auto simp: receive_up [OF up] split: prod.splits sum.splits)
  qed (use assms in \<open>simp add: t_data_received_def\<close>)
qed

lemma t_close_wf:
  assumes "t_close p nw w = (r, w')" "t_wf w"
  shows "t_wf w'"
proof (cases "tx_attached w")
  case False
  then show ?thesis using assms by (simp add: t_close_def bind_def t_gets_def ret_def)
next
  case True
  let ?w = "w\<lparr>tx_attached := False, tx_next_token := 0\<rparr>" and ?q = "control_query p ''NOREPLY_WAIT'' (tx_next_token w)"
  have run: "t_instance_close p nw (tx_next_token w) None ?w = (r, w')"
    using assms(1) True by (simp add: t_close_def t_new_token_def bind_def t_gets_def t_modify_def ret_def)
  obtain r1 w1 where 1: "t_shut p None ?w = (r1, w1)" by (cases "t_shut p None ?w")
  have "t_wf ?w" using assms(2) by (simp add: t_wf_def)
  from t_shut_wf [OF 1 this] have w1: "t_wf w1" "r1 = Inr () \<longrightarrow> tx_queries w1 = []" "\<not> tx_attached w1" by simp_all
  have lose: "t_wf u'" if "t_lose u = (x, u') \<or> bind t_lose (\<lambda>_. raise y :: unit tx_io) u = (x, u')" "t_wf u" for u u' x y
    using that by (auto simp: t_lose_def bind_def t_gets_def t_modify_def raise_def split: if_splits)
  show ?thesis
  proof (cases r1)
    case (Inl e)
    then show ?thesis using run 1 w1(1) by (simp add: t_instance_close_def bind_def)
  next
    case (Inr u)
    obtain r2 w2 where 2: "t_run_query p ?q w1 = (r2, w2)" by (cases "t_run_query p ?q w1")
    have "t_wf w2" by (rule t_run_query_wf [OF 2 w1(1)]) (use w1 Inr in auto)
    then show ?thesis using run 1 2 Inr w1(1) lose
      by (cases nw; cases r2) (auto simp: t_instance_close_def bind_def [of "t_shut _ _"])
  qed
qed

lemma t_do_wf:
  assumes "t_do p random ev w = (r, w')" "t_wf w"
  shows "t_wf w'"
proof (cases ev)
  case HandshakeTimer
  have "steps_within t_apart t_handshake_timeout" unfolding t_handshake_timeout_def
    by (intro ta.within_intros t_apart_modify t_apart_gets) (simp_all add: t_apart_def)
  then show ?thesis using assms HandshakeTimer t_apart_wf by (auto dest: steps_withinD)
next
  case (StartQuery q opts)
  then obtain x where "t_start p q opts w = (x, w')" using assms(1) by (auto simp: bind_def ret_def split: prod.splits sum.splits)
  then show ?thesis using t_asks_wf(1) assms(2) by blast
next
  case (ControlQuery ty)
  then obtain x where "t_control p ty w = (x, w')" using assms(1) by (auto simp: bind_def ret_def split: prod.splits sum.splits)
  then show ?thesis using t_asks_wf(2) assms(2) by blast
next
  case (CancelQuery f)
  then show ?thesis using assms queries_wf_cancelled all_registered_cancelled
    by (auto simp: t_cancel_query_def t_modify_def t_wf_def split: if_splits)
next
  case (CallNext c)
  have "t_quietly (bind (t_get_next p c) (\<lambda>_. ret ()))" by (intro q_intros)
  then show ?thesis using assms CallNext t_quietly_wf by (metis t_do.simps(6))
next
  case (CallFetchNext c)
  have "t_quietly (bind (t_fetch_next p c) (\<lambda>_. ret ()))" by (intro q_intros)
  then show ?thesis using assms CallFetchNext t_quietly_wf by (metis t_do.simps(7))
qed (use assms t_data_wf t_close_wf t_quietly_wf [OF t_quietly_calls(3)] t_quietly_wf [OF t_quietly_calls(4)]
    t_quietly_wf [OF t_quietly_wait_timer] t_quietly_wf [OF t_quietly_close_end] in
    \<open>auto simp: t_connection_lost_def t_modify_def\<close>)

lemma t_run_wf: "t_wf w \<Longrightarrow> t_wf (t_run p random evs w)"
proof (induction evs arbitrary: w)
  case (Cons ev evs)
  have "t_wf (snd (t_do p random ev w))" using t_do_wf [of p random ev w] Cons.prems by (cases "t_do p random ev w") auto
  then show ?case using Cons.IH by (simp add: t_run_def)
qed (simp add: t_run_def)

lemma t_none_wf: "tx_queries w = [] \<Longrightarrow> tx_defers w = [] \<Longrightarrow> t_wf w"
  by (simp add: t_wf_def queries_wf_def all_registered_def all_below_def)

text \<open>C38. A response in the Twisted driver that can be parsed, for a token that no cursor has, settles the \<open>Deferred\<close> of
  its own query, and no other: after whatever
  calls the reactor and the users have made on an instance that had no queries, the query registered under the token of a response is the
  one that was sent with it; its \<open>Deferred\<close> belongs to no other registered query and has no result yet, so the
  handler never calls one that has been called; if it waits it is given exactly what the response says, if its owner has
  cancelled it nothing happens to it, and in both cases the query is forgotten.  When the response has no result to
  give, because a field it should have is missing, the handler raises and nobody's \<open>Deferred\<close> is
  touched.\<close>

theorem twisted_response_settles_own:
  assumes "tx_queries w0 = []" "tx_defers w0 = []" "w = t_run p random evs w0"
    and "map_of (tx_cache w) t = None" "map_of (tx_queries w) t = Some (q, f)"
    and "parse_response (formats_of q) t body = Inr res" "t_dispatch p t body w = (r, w')"
  shows "wtoken q = t \<and> f < length (tx_defers w) \<and> (\<forall>t' q'. map_of (tx_queries w) t' = Some (q', f) \<longrightarrow> t' = t)
     \<and> (tx_defers w ! f = Pending \<or> tx_defers w ! f = Cancelled)
     \<and> (case t_answer p q res (length (tx_cursors w)) of
          Inl e \<Rightarrow> r = Inl e \<and> tx_defers w' = tx_defers w \<and> tx_queries w' = tx_queries w
        | Inr x \<Rightarrow> r = Inr () \<and> x \<noteq> Pending
            \<and> tx_defers w' = (if tx_defers w ! f = Pending then (tx_defers w)[f := x] else tx_defers w)
            \<and> tx_queries w' = dict_del (tx_queries w) t)"
proof -
  have wf: "t_wf w" unfolding assms(3) by (rule t_run_wf [OF t_none_wf [OF assms(1,2)]])
  obtain w1 where "t_quiet w w1" "t_dispatch p t body w
     = (case t_answer p q res (length (tx_cursors w)) of
          Inl e \<Rightarrow> (Inl e, w1)
        | Inr x \<Rightarrow> (Inr (), w1\<lparr>tx_defers := (if tx_defers w ! f = Pending then (tx_defers w)[f := x] else tx_defers w),
            tx_queries := dict_del (tx_queries w) t\<rparr>))"
    using t_dispatch_query [OF wf assms(4-6)] by blast
  then show ?thesis using assms(7) t_wfD [OF wf assms(5)]
    by (cases "t_answer p q res (length (tx_cursors w))") (auto simp: t_quiet_def dest: t_answer_settles)
qed

text \<open>What happens to one cursor leaves another as it is.\<close>

definition t_beside :: "nat \<Rightarrow> twisted \<Rightarrow> twisted \<Rightarrow> bool" where
  "t_beside c w w' \<longleftrightarrow> t_cursor c w' = t_cursor c w"

lemma t_beside_frame: "frame_relation (t_beside c)"
  by unfold_locales (simp_all add: t_beside_def)

interpretation tb: frame_relation "t_beside c" for c
  by (rule t_beside_frame)

abbreviation t_aside :: "nat \<Rightarrow> 'a tx_io \<Rightarrow> bool" where
  "t_aside c m \<equiv> steps_within (t_beside c) m"

lemma t_aside_gets: "t_aside c (t_gets g)"
  by (auto simp: t_gets_def t_beside_def)

lemma t_aside_modify: "(\<And>w. t_cursor c (f w) = t_cursor c w) \<Longrightarrow> t_aside c (t_modify f)"
  by (auto simp: t_modify_def t_beside_def)

lemma t_aside_other: "c' \<noteq> c \<Longrightarrow> t_aside c (t_modify (t_set_cursor c' h))"
  by (rule t_aside_modify) (simp add: t_set_cursor_def t_cursor_def)

lemma t_aside_fields:
  "t_aside c (t_modify (\<lambda>w. w\<lparr>tx_items := xs w\<rparr>))" "t_aside c (t_modify (\<lambda>w. w\<lparr>tx_cache := d w\<rparr>))"
  by (rule t_aside_modify, simp add: t_cursor_def)+

lemma t_aside_send_control: "t_aside c (t_send_control p ty c')"
  by (auto simp: t_send_control_def t_check_open_def t_is_open_def t_write_def t_beside_def t_cursor_def bind_def t_gets_def
      ret_def raise_def split: prod.splits sum.splits)

lemmas t_asides = tb.within_intros t_aside_gets t_aside_fields t_aside_send_control

lemma t_aside_fail:
  assumes "c' \<noteq> c"
  shows "t_aside c (t_cursor_fail p m c')"
proof -
  note other = t_aside_other [OF assms]
  have items: "t_aside c (t_settle_item f v)" "t_aside c (t_new_item v)" for f v
    unfolding t_settle_item_def t_new_item_def by (intro t_asides)+
  have fetch: "t_aside c (t_fetch p c')" unfolding t_fetch_def t_ask_def by (intro t_asides other)
  have put: "t_aside c (t_put c' x)" for x unfolding t_put_def by (intro t_asides other items)
  have ends: "t_aside c (t_end_with c' e)" for e unfolding t_end_with_def by (rule other)
  have put_all: "t_aside c (t_extend_items c' xs)" for xs unfolding t_extend_items_def by (intro t_asides) (auto intro: put)
  have absorb: "t_aside c (t_absorb p c' res xs)" for res xs unfolding t_absorb_def by (intro t_asides put_all ends)
  have internal: "t_aside c (t_extend_internal p c' res)" for res
    unfolding t_extend_internal_def t_forget_def by (intro t_asides absorb other)
  have cancel: "t_aside c (t_cancel_getter c' e g)" for e g unfolding t_cancel_getter_def by (intro t_asides items other)
  have turn: "t_aside c (t_fetch_turn p c' r)" for r unfolding t_fetch_turn_def by (intro t_asides fetch items other)
  have wake: "t_aside c (t_wake p c' x)" for x unfolding t_wake_def by (cases x, simp, intro t_asides items turn other)
  have cancels: "t_aside c (t_cancel_getters c' e gs)" for e gs
    unfolding t_cancel_getters_def by (intro t_asides) (auto intro: cancel)
  have extend: "t_aside c (t_extend p c' buf)" for buf
    unfolding t_extend_def by (intro t_asides fetch internal other cancels | clarsimp simp: wake)+
  show ?thesis unfolding t_cursor_fail_def by (intro t_asides ends extend)
qed

text \<open>And until those who wait are woken nobody who waits is forgotten.\<close>

definition t_wait_on :: "nat \<Rightarrow> twisted \<Rightarrow> twisted \<Rightarrow> bool" where
  "t_wait_on c w w' \<longleftrightarrow> tc_waiting (t_cursor c w') = tc_waiting (t_cursor c w)"

interpretation tv: frame_relation "t_wait_on c" for c
  by unfold_locales (simp_all add: t_wait_on_def)

lemma t_cursor_set:
  "t_cursor d (t_set_cursor c f w) = (if d = c \<and> c < length (tx_cursors w) then f (t_cursor c w) else t_cursor d w)"
  by (cases "c < length (tx_cursors w)") (auto simp: t_cursor_def t_set_cursor_def nth_list_update list_update_beyond)

lemma t_waiting_set:
  "(\<And>tc. tc_waiting (h tc) = tc_waiting tc) \<Longrightarrow> steps_within (t_wait_on c) (t_modify (t_set_cursor c' h))"
  by (auto simp: t_modify_def t_wait_on_def t_cursor_set)

lemma t_aside_waits: "t_aside c m \<Longrightarrow> steps_within (t_wait_on c) m"
  by (simp add: steps_within_def t_beside_def t_wait_on_def)

lemmas t_wait_ons = tv.within_intros t_waiting_set t_aside_waits [OF t_aside_gets] t_aside_waits [OF t_aside_fields(1)]
  t_aside_waits [OF t_aside_fields(2)] t_aside_waits [OF t_aside_send_control]

lemma t_waits_fetch: "steps_within (t_wait_on c) (t_fetch p c)" "steps_within (t_wait_on c) (t_settle_item f v)"
    "steps_within (t_wait_on c) (t_end_with c e)"
  unfolding t_fetch_def t_ask_def t_settle_item_def t_end_with_def by (intro t_wait_ons | simp add: on_cursor_def)+

lemma t_waits_internal: "steps_within (t_wait_on c) (t_extend_internal p c res)" "steps_within (t_wait_on c) (t_cancel_getter c e g)"
proof -
  have put: "steps_within (t_wait_on c) (t_put c x)" for x
    unfolding t_put_def by (intro t_wait_ons t_waits_fetch | simp add: on_cursor_def)+
  have put_all: "steps_within (t_wait_on c) (t_extend_items c xs)" for xs
    unfolding t_extend_items_def by (intro t_wait_ons) (auto intro: put)
  show "steps_within (t_wait_on c) (t_extend_internal p c res)"
    unfolding t_extend_internal_def t_absorb_def t_forget_def by (intro t_wait_ons put_all t_waits_fetch | simp add: on_cursor_def)+
  show "steps_within (t_wait_on c) (t_cancel_getter c e g)"
    unfolding t_cancel_getter_def by (intro t_wait_ons t_waits_fetch | simp)+
qed

lemma t_waits_cancels: "steps_within (t_wait_on c) (t_cancel_getters c e gs)"
  unfolding t_cancel_getters_def by (intro t_wait_ons) (auto intro: t_waits_internal)

text \<open>A cursor that remembers one whose \<open>Deferred\<close> has been settled already.\<close>

definition t_stale :: "nat \<Rightarrow> nat \<times> nat \<Rightarrow> twisted \<Rightarrow> bool" where
  "t_stale c x w \<longleftrightarrow> (\<exists>ws. tc_waiting (t_cursor c w) = x # ws) \<and> fst x < length (tx_items w) \<and> tx_items w ! fst x \<noteq> Pending"

definition t_raises :: "nat \<Rightarrow> nat \<times> nat \<Rightarrow> 'a tx_io \<Rightarrow> twisted \<Rightarrow> bool" where
  "t_raises c x m w \<longleftrightarrow> (\<exists>e w'. m w = (Inl e, w') \<and> t_stale c x w')"

lemma t_stale_step:
  assumes "t_stale c x w" "t_wait_on c w w'" "t_frame w w'"
  shows "t_stale c x w'"
  using assms by (auto simp: t_stale_def t_wait_on_def t_frame_def)

lemma t_raises_bind:
  assumes "t_stale c x w" "steps_within (t_wait_on c) m" "t_keeps m" "\<And>a w'. t_stale c x w' \<Longrightarrow> t_raises c x (f a) w'"
  shows "t_raises c x (bind m f) w"
proof (cases "m w")
  case (Pair r w')
  have "t_stale c x w'" using t_stale_step [OF assms(1) steps_withinD [OF assms(2) Pair] steps_withinD [OF assms(3) Pair]] .
  then show ?thesis using Pair assms(4) by (cases r) (auto simp: t_raises_def bind_def)
qed

lemma t_raises_now: "t_raises c x m w \<Longrightarrow> t_raises c x (bind m f) w"
  by (auto simp: t_raises_def bind_def)

lemma t_bind_simps: "bind (t_gets g) f w = f (g w) w" "bind (t_modify h) f' w = f' () (h w)"
  by (simp_all add: bind_def t_gets_def t_modify_def)

lemma t_raises_gets: "t_raises c x (bind (t_gets g) f) w = t_raises c x (f (g w)) w"
  by (simp add: t_raises_def bind_def t_gets_def)

lemma t_wake_stale: "t_stale c x w \<Longrightarrow> t_raises c x (t_wake p c x) w"
  by (cases x) (simp add: t_wake_def t_settle_item_def t_stale_def t_raises_def bind_def t_gets_def raise_def)

lemma t_extend_stale:
  assumes "t_stale c x w"
  shows "t_raises c x (t_extend p c buf) w"
proof -
  have set_out: "steps_within (t_wait_on c) (t_modify (t_set_cursor c (on_cursor h)))" for h
    by (rule t_waiting_set) (simp add: on_cursor_def)
  have finish: "t_raises c x (bind (t_gets (t_cursor c)) (\<lambda>tc.
     bind (t_cancel_getters c (cu_error (tc_cursor tc)) (tc_getters tc)) (\<lambda>_.
     bind (seqs (map (t_wake p c) (tc_waiting tc))) (\<lambda>_. ret ())))) w" if s: "t_stale c x w" for w
  proof -
    obtain ws where ws: "tc_waiting (t_cursor c w) = x # ws" using s by (auto simp: t_stale_def)
    have "t_raises c x (bind (t_cancel_getters c (cu_error (tc_cursor (t_cursor c w))) (tc_getters (t_cursor c w))) (\<lambda>_.
     bind (seqs (map (t_wake p c) (tc_waiting (t_cursor c w)))) (\<lambda>_. ret ()))) w"
    proof (rule t_raises_bind [OF s t_waits_cancels t_keeps_cancels])
      fix w' assume "t_stale c x w'"
      then show "t_raises c x (bind (seqs (map (t_wake p c) (tc_waiting (t_cursor c w)))) (\<lambda>_. ret ())) w'"
        unfolding ws by (intro t_raises_now) (simp add: t_raises_now t_wake_stale)
    qed
    then show ?thesis by (simp add: t_raises_gets)
  qed
  show ?thesis unfolding t_extend_def
    by (rule t_raises_bind [OF assms set_out], intro t_intros,
        rule t_raises_bind [OF _ t_waits_fetch(1)], assumption, intro t_intros,
        rule t_raises_bind [OF _ t_aside_waits [OF t_aside_gets]], assumption, intro t_intros,
        rule t_raises_bind [OF _ tv.within_basic(3)], assumption, intro t_intros,
        rule t_raises_bind [OF _ t_waits_internal(1)], assumption, intro t_intros, rule finish)
qed

text \<open>So closing raises too, as long as the cursor has no error yet.\<close>

lemma t_fail_stale:
  assumes "t_stale c x w" "cu_error (tc_cursor (t_cursor c w)) = None"
  shows "t_raises c x (t_cursor_fail p m c) w"
proof -
  have "t_raises c x (bind (t_end_with c e) (\<lambda>_. t_extend p c (dummy_response p))) w" for e
    by (rule t_raises_bind [OF assms(1) t_waits_fetch(3)], intro t_intros, rule t_extend_stale)
  then show ?thesis using assms(2) by (simp add: t_cursor_fail_def t_raises_gets)
qed

lemma t_fails_stale:
  assumes "c \<in> set cs" "t_stale c x w" "cu_error (tc_cursor (t_cursor c w)) = None"
  shows "t_raises c x (seqs (map (t_cursor_fail p m) cs)) w"
  using assms
proof (induction cs arbitrary: w)
  case (Cons a cs)
  show ?case
  proof (cases "a = c")
    case True
    then show ?thesis using t_fail_stale [OF Cons.prems(2,3)] by (simp add: t_raises_now)
  next
    case False
    obtain r w1 where r: "t_cursor_fail p m a w = (r, w1)" by (cases "t_cursor_fail p m a w")
    have b: "t_beside c w w1" using t_aside_fail [OF False] r by (rule steps_withinD)
    have s1: "t_stale c x w1"
      using t_stale_step [OF Cons.prems(2) _ steps_withinD [OF t_keeps_cursors(1) r]] b by (simp add: t_beside_def t_wait_on_def)
    then have "t_raises c x (seqs (map (t_cursor_fail p m) cs)) w1"
      using Cons.IH [of w1] Cons.prems(1,3) False b by (simp add: t_beside_def)
    then show ?thesis using r s1 by (cases r) (auto simp: t_raises_def bind_def)
  qed
qed simp

text \<open>A batch of a stream that goes on leaves the cursor without an error.\<close>

definition t_going :: "nat \<Rightarrow> wire_query \<Rightarrow> twisted \<Rightarrow> twisted \<Rightarrow> bool" where
  "t_going c q w w' \<longleftrightarrow> (cu_error (tc_cursor (t_cursor c w)) = None \<and> cu_query (tc_cursor (t_cursor c w)) = q
     \<longrightarrow> cu_error (tc_cursor (t_cursor c w')) = None \<and> cu_query (tc_cursor (t_cursor c w')) = q \<and> tx_cache w' = tx_cache w)"

interpretation tg: frame_relation "t_going c q" for c q
  by unfold_locales (simp_all add: t_going_def)

lemma t_going_set:
  "(\<And>tc. cu_error (tc_cursor (h tc)) = cu_error (tc_cursor tc) \<and> cu_query (tc_cursor (h tc)) = cu_query (tc_cursor tc))
    \<Longrightarrow> steps_within (t_going c q) (t_modify (t_set_cursor c h))"
  by (auto simp: steps_within_def t_modify_def t_going_def t_cursor_set) (simp_all add: t_set_cursor_def)

lemma t_going_basic:
  "steps_within (t_going c q) (t_gets g)" "steps_within (t_going c q) (t_modify (\<lambda>w. w\<lparr>tx_items := xs w\<rparr>))"
  by (simp_all add: steps_within_def t_gets_def t_modify_def t_going_def t_cursor_def)

lemma t_going_send_control: "steps_within (t_going c q) (t_send_control p ty c')"
  by (auto simp: t_send_control_def t_check_open_def t_is_open_def t_write_def t_going_def t_cursor_def bind_def t_gets_def
      ret_def raise_def split: prod.splits sum.splits)

lemmas t_goings = tg.within_intros t_going_set t_going_basic t_going_send_control

text \<open>What is read of the cursor may be used.\<close>

lemma t_going_gets:
  assumes "\<And>tc. cu_error (tc_cursor tc) = None \<Longrightarrow> cu_query (tc_cursor tc) = q \<Longrightarrow> steps_within (t_going c q) (f (g tc))"
  shows "steps_within (t_going c q) (bind (t_gets (\<lambda>w. g (t_cursor c w))) f)"
proof
  fix w
  show "t_going c q w (snd (bind (t_gets (\<lambda>w. g (t_cursor c w))) f w))"
    using assms [of "t_cursor c w"] unfolding bind_def t_gets_def steps_within_def by (simp add: t_going_def)
qed

lemma t_going_items: "steps_within (t_going c q) (t_extend_items c xs)" "steps_within (t_going c q) (t_fetch p c)"
    "steps_within (t_going c q) (t_wake p c x)" "steps_within (t_going c q) (t_cancel_getters c e gs)"
proof -
  have "steps_within (t_going c q) (t_put c x)" for x
    unfolding t_put_def t_settle_item_def by (intro t_goings | simp add: on_cursor_def)+
  then show "steps_within (t_going c q) (t_extend_items c xs)" unfolding t_extend_items_def by (intro t_goings) auto
  show fetch: "steps_within (t_going c q) (t_fetch p c)"
    unfolding t_fetch_def t_ask_def by (intro t_goings | simp add: on_cursor_def)+
  have turn: "steps_within (t_going c q) (t_fetch_turn p c r)" for r
    unfolding t_fetch_turn_def t_new_item_def t_settle_item_def by (intro t_goings fetch | simp)+
  show "steps_within (t_going c q) (t_wake p c x)"
    unfolding t_wake_def t_settle_item_def by (cases x, simp) (intro t_goings turn | simp)+
  have "steps_within (t_going c q) (t_cancel_getter c e g)" for e g
    unfolding t_cancel_getter_def t_settle_item_def by (intro t_goings | simp)+
  then show "steps_within (t_going c q) (t_cancel_getters c e gs)"
    unfolding t_cancel_getters_def by (intro t_goings) auto
qed

lemma bind_lift_Inr: "bind (lift_res (Inr a)) f = f a"
  by (rule ext) (simp add: bind_def lift_res_def)

lemma t_partial_going:
  assumes "parse_response (formats_of q) (wtoken q) buf = Inr res" "is_int (rtype res) (presponse p ''SUCCESS_PARTIAL'')"
  shows "steps_within (t_going c q) (t_extend p c buf)"
proof -
  have absorb: "steps_within (t_going c q) (t_absorb p c res xs)" for xs
    unfolding t_absorb_def by (rule t_going_gets [where g = tc_cursor]) (simp add: assms(2) t_going_items)
  have internal: "steps_within (t_going c q) (t_extend_internal p c res)"
    unfolding t_extend_internal_def
    by (intro tg.within_bind absorb t_goings t_going_gets [where g = tc_cursor]) (simp_all add: on_cursor_def tg.R_refl)
  have rest: "steps_within (t_going c q) (bind (lift_res (parse_response (formats_of q) (wtoken q) buf)) (\<lambda>res.
     bind (t_extend_internal p c res) (\<lambda>_.
     bind (t_gets (t_cursor c)) (\<lambda>tc.
     bind (t_cancel_getters c (cu_error (tc_cursor tc)) (tc_getters tc)) (\<lambda>_.
     bind (seqs (map (t_wake p c) (tc_waiting tc))) (\<lambda>_. ret ()))))))"
    unfolding assms(1) bind_lift_Inr by (intro t_goings internal t_going_items) (auto intro: t_going_items)
  show ?thesis unfolding t_extend_def
    by (rule tg.within_bind, rule t_going_set, simp add: on_cursor_def, rule tg.within_bind, rule t_going_items,
        rule t_going_gets [where g = "\<lambda>tc. cu_query (tc_cursor tc)"], simp add: rest)
qed

text \<open>A \<open>fetch_next\<close> that has timed out breaks the connection: the cursor still remembers it, so the next
  batch calls a \<open>Deferred\<close> that is settled, the \<open>close\<close> that answers this error stops at the same
  cursor with the same error, and the connection is dropped while every query that waits goes on waiting.\<close>

theorem timed_out_fetch_breaks:
  assumes "t_up w" "tx_rx w = rx_start" "\<not> tx_closing w" "map_of (tx_cache w) (int t) = Some c"
    and "t_stale c x w" "cu_error (tc_cursor (t_cursor c w)) = None"
    and "parse_response (formats_of (cu_query (tc_cursor (t_cursor c w)))) (wtoken (cu_query (tc_cursor (t_cursor c w)))) body = Inr res"
    and "is_int (rtype res) (presponse p ''SUCCESS_PARTIAL'')" "t < 2 ^ 63" "length body < 2 ^ 32"
  shows "\<exists>e w'. t_data_received p random (frame t body) w = (Inl e, w') \<and> tx_dropping w' \<and> tx_closing w'
     \<and> tx_queries w' = tx_queries w \<and> tx_defers w' = tx_defers w"
proof -
  obtain e w1 where e: "t_extend p c body w = (Inl e, w1)" "t_stale c x w1"
    using t_extend_stale [OF assms(5), of p body] by (auto simp: t_raises_def)
  have q1: "t_quiet w w1" using t_quietly_extend(6) e(1) by (rule steps_withinD)
  have g: "cu_error (tc_cursor (t_cursor c w1)) = None" "tx_cache w1 = tx_cache w"
    using steps_withinD [OF t_partial_going [OF assms(7,8)] e(1)] assms(6) by (simp_all add: t_going_def)
  let ?w2 = "w1\<lparr>tx_closing := True\<rparr>" and ?cs = "map snd (tx_cache w1)"
  have s2: "t_stale c x ?w2" using e(2) by (simp add: t_stale_def t_cursor_def)
  have "(int t, c) \<in> set (tx_cache w1)" using assms(4) g(2) by (simp add: map_of_SomeD)
  then have "c \<in> set ?cs" by force
  moreover have "cu_error (tc_cursor (t_cursor c ?w2)) = None" using g(1) by (simp add: t_cursor_def)
  ultimately have "t_raises c x (seqs (map (t_cursor_fail p (t_close_message (Some e))) ?cs)) ?w2"
    by (intro t_fails_stale s2)
  then obtain e3 w3 where f: "seqs (map (t_cursor_fail p (t_close_message (Some e))) ?cs) ?w2 = (Inl e3, w3)"
    unfolding t_raises_def by blast
  have "t_quietly (seqs (map (t_cursor_fail p (t_close_message (Some e))) ?cs))"
    by (intro q_intros) (auto intro: t_quietly_extend)
  then have q2: "t_quiet ?w2 w3" using f by (rule steps_withinD)
  have "t_shut p (Some e) w1 = (Inl e3, w3)"
    using f by (simp add: t_shut_def t_bind_simps bind_def [of "seqs _"])
  then have h: "t_handle p (Some (int t)) body w = (Inl e3, w3)"
    using e(1) assms(3,4) q1 by (simp add: t_handle_def t_dispatch_def t_quiet_def bind_def t_gets_def)
  have w: "w\<lparr>tx_rx := rx_start\<rparr> = w" using assms(2) by (cases w) simp
  have "handle_frames (t_handle p) (more_data (frame t body) rx_start) w
      = ((Inl e3, \<lparr>rx_buf = body, rx_expected = length body, rx_token = Some (int t)\<rparr>), w3)"
    using handle_frame [OF assms(9,10), of "t_handle p" "[]" w] h by simp
  then show ?thesis using q1 q2 unfolding receive_up [OF assms(1)] assms(2) w by (simp add: t_quiet_def)
qed

subsection \<open>Examples\<close>

text \<open>The response with a single value to a query.\<close>

lemma t_handle_atom:
  assumes "map_of (tx_cache w) t = None" "map_of (tx_queries w) t = Some (q, f)" "tx_defers w ! f = Pending"
    and "parse_response (formats_of q) t body = Inr res" "is_int (rtype res) (presponse p ''SUCCESS_ATOM'')"
    and "first_item (rdata res) = Inr v"
  shows "t_handle p (Some t) body w = (Inr (), w\<lparr>tx_defers := (tx_defers w)[f := Done (maybe_profile (Val v) res)],
     tx_queries := dict_del (tx_queries w) t\<rparr>)"
proof -
  have "t_resolve p q f res w = (Inr (), w\<lparr>tx_defers := (tx_defers w)[f := Done (maybe_profile (Val v) res)]\<rparr>)"
    using assms(3,5,6) by (simp add: t_resolve_def bind_lift_Inr t_settle_def t_bind_simps t_modify_def)
  then have "t_dispatch p t body w = (Inr (), w\<lparr>tx_defers := (tx_defers w)[f := Done (maybe_profile (Val v) res)],
     tx_queries := dict_del (tx_queries w) t\<rparr>)"
    using assms(1,2,4) by (simp add: t_dispatch_def t_bind_simps bind_lift_Inr bind_def [of "t_resolve _ _ _ _"] t_modify_def)
  then show ?thesis by (simp add: t_handle_def)
qed

lemma answer_length_of: "length (batch_body 3 [JNull]) = 18"
proof -
  have "length (utf8_encode s) = length s" if "is_ascii s" for s using that by (simp add: utf8_ascii)
  then show ?thesis
    by (simp_all add: batch_body_def batch_json_def show_int_def show_nat.simps digit_char_def chr_def char_of_def
        bit_0 bit_Suc quote_json_def escape_char_def is_ascii_def code_point_def)
qed

definition info_query :: wire_query where
  "info_query = control_query proto_numbers ''SERVER_INFO'' 0"

text \<open>A connection with one query that waits and one stream, whose batches one \<open>fetch_next\<close> waits for.\<close>

definition tx_example :: twisted where
  "tx_example =
     \<lparr>tx_attached = True, tx_made = True, tx_open = True, tx_phase = IsReady, tx_hs = hs_example, tx_rx = rx_start,
      tx_shaken = Done Nothing, tx_timer = False, tx_dropping = False, tx_written = [], tx_closing = False,
      tx_queries = [(0, info_query, 0)], tx_cache = [(1, 0)],
      tx_cursors = [\<lparr>tc_cursor = \<lparr>cu_conn = 0, cu_query = control_query proto_numbers ''START'' 1, cu_items = [],
        cu_outstanding = 1, cu_threshold = 1, cu_error = None\<rparr>, tc_getters = [], tc_waiting = [(0, 1)]\<rparr>],
      tx_defers = [Pending], tx_items = [Pending, Pending], tx_closers = [], tx_next_token = 2, tx_var = 0\<rparr>"

theorem frames_in_any_chunks_witness:
  "t_run proto_numbers [] (map DataReceived [take 5 answer_example, drop 5 answer_example]) tx_example
     = (tx_example\<lparr>tx_defers := [Done (maybe_profile (Val RNull) (batch_response 0 1 [JNull]))], tx_queries := []\<rparr>)
         \<lparr>tx_rx := more_data [] rx_start\<rparr>"
proof (rule frames_in_any_chunks [where fs = "[(0, batch_body 1 [JNull])]" and u = "()"])
  have "parse_response (formats_of info_query) 0 (batch_body 1 [JNull]) = Inr (batch_response 0 1 [JNull])"
    using parse_batch [of "[JNull]" "formats_of info_query" 0 1] by (simp add: plain_def)
  then show "each_frame (t_handle proto_numbers) [(0, batch_body 1 [JNull])] tx_example
      = (Inr (), tx_example\<lparr>tx_defers := [Done (maybe_profile (Val RNull) (batch_response 0 1 [JNull]))], tx_queries := []\<rparr>)"
    using t_handle_atom [of tx_example 0 info_query 0 "batch_body 1 [JNull]" _ proto_numbers RNull]
    by (simp add: bind_def ret_def tx_example_def batch_response_def is_int_def proto_numbers_def first_item_def dict_del_def)
qed (simp_all add: t_up_def tx_example_def answer_example_def answer_length)

theorem twisted_response_settles_own_witness:
  "\<exists>w w'. tx_defers w = [Pending] \<and> t_dispatch proto_numbers 0 (batch_body 1 [JNull]) w = (Inr (), w')
     \<and> tx_defers w' = [Done (maybe_profile (Val RNull) (batch_response 0 1 [JNull]))] \<and> tx_queries w' = []"
proof -
  let ?before = "tx_example\<lparr>tx_queries := [], tx_defers := [], tx_next_token := 0\<rparr>"
  let ?w = "tx_example\<lparr>tx_next_token := 1, tx_written := asked_bytes\<rparr>"
  have run: "?w = t_run proto_numbers [] [ControlQuery ''SERVER_INFO''] ?before"
    using asked_serialized [of "''SERVER_INFO''" 0]
    by (simp add: t_run_def t_control_def t_check_open_def t_is_open_def t_new_token_def t_run_query_def t_new_defer_def t_write_def
        bind_def t_gets_def t_modify_def ret_def tx_example_def info_query_def)
  have parse: "parse_response (formats_of info_query) 0 (batch_body 1 [JNull]) = Inr (batch_response 0 1 [JNull])"
    using parse_batch [of "[JNull]" "formats_of info_query" 0 1] by (simp add: plain_def)
  obtain r w' where d: "t_dispatch proto_numbers 0 (batch_body 1 [JNull]) ?w = (r, w')" by fastforce
  have q: "map_of (tx_cache ?w) 0 = None" "map_of (tx_queries ?w) 0 = Some (info_query, 0)" by (simp_all add: tx_example_def)
  have a: "t_answer proto_numbers info_query (batch_response 0 1 [JNull]) c
      = Inr (Done (maybe_profile (Val RNull) (batch_response 0 1 [JNull])))" for c
    by (simp add: t_answer_def batch_response_def is_int_def proto_numbers_def first_item_def)
  have "r = Inr () \<and> tx_defers w' = [Done (maybe_profile (Val RNull) (batch_response 0 1 [JNull]))] \<and> tx_queries w' = []"
    using twisted_response_settles_own [OF _ _ run q parse d] unfolding a by (simp add: tx_example_def dict_del_def)
  then show ?thesis using d by (intro exI [of _ ?w] exI [of _ w']) (simp add: tx_example_def)
qed

theorem twisted_lost_waits_witness:
  "tx_defers (t_run proto_numbers [] (ConnectionLost # [DataReceived answer_example, CallNext 0, ControlQuery ''SERVER_INFO'']) tx_example) ! 0 = Pending"
  by (rule twisted_lost_waits) (simp_all add: tx_example_def)

theorem timed_out_fetch_breaks_witness:
  "\<exists>e w'. t_data_received proto_numbers [] (frame 1 (batch_body 3 [JNull])) (t_run proto_numbers [] [FetchTimer 0 (0, 1)] tx_example) = (Inl e, w')
     \<and> tx_dropping w' \<and> tx_closing w' \<and> tx_queries w' = [(0, info_query, 0)] \<and> tx_defers w' = [Pending]"
proof -
  let ?w = "tx_example\<lparr>tx_items := [Failed (timeout_error None None), Failed (timeout_error None None)]\<rparr>"
  have w: "t_run proto_numbers [] [FetchTimer 0 (0, 1)] tx_example = ?w"
    by (simp add: t_run_def t_wait_timer_def t_settle_item_def t_bind_simps bind_def [of "t_settle_item _ _"] tx_example_def t_cursor_def t_modify_def
        bind_def [of "bind _ _"])
  let ?q = "cu_query (tc_cursor (t_cursor 0 ?w))"
  have r: "parse_response (formats_of ?q) (wtoken ?q) (batch_body 3 [JNull]) = Inr (batch_response (wtoken ?q) 3 [JNull])"
    by (rule parse_batch) (simp add: plain_def)
  have up: "t_up ?w" "tx_rx ?w = rx_start" "\<not> tx_closing ?w" "map_of (tx_cache ?w) (int 1) = Some 0" "t_stale 0 (0, 1) ?w"
    "cu_error (tc_cursor (t_cursor 0 ?w)) = None" "tx_queries ?w = [(0, info_query, 0)]" "tx_defers ?w = [Pending]"
    by (simp_all add: tx_example_def t_up_def t_stale_def t_cursor_def)
  have "length (batch_body 3 [JNull]) < 2 ^ 32" using answer_length_of by simp
  from timed_out_fetch_breaks [OF up(1-6) r _ _ this, of proto_numbers "[]"] show ?thesis
    unfolding w up(7,8) by (simp add: batch_response_def is_int_def proto_numbers_def)
qed

end
