(* ===== verification/Retry.thy ===== *)
theory Retry
  imports Printer
begin

text \<open>
  \<open>RetryQuery\<close> of \<open>rethinkdb/utils_common.py\<close>: how the command line
  tools run a query.  How a connection is made (\<open>mk\<close>), tested (\<open>probe\<close>) and used (\<open>run\<close>) are
  parameters; they act on the world \<open>rq_world\<close>.  The connections kept are those of one thread, by
  process.
\<close>

subsection \<open>The state and its operations\<close>

record ('c, 'w) retry =
  rq_cache :: "nat \<Rightarrow> 'c option"
  rq_world :: 'w

definition on_world :: "('w, error, 'a) comp \<Rightarrow> (('c, 'w) retry, error, 'a) comp" where
  "on_world m s = (case m (rq_world s) of (r, w) \<Rightarrow> (r, s\<lparr>rq_world := w\<rparr>))"

definition keep_conn :: "nat \<Rightarrow> 'c option \<Rightarrow> (('c, 'w) retry, error, unit) comp" where
  "keep_conn pid c s = (Inr (), s\<lparr>rq_cache := (rq_cache s)(pid := c)\<rparr>)"

text \<open>\<open>RetryQuery.conn\<close>\<close>

definition test_conn :: "('c \<Rightarrow> ('w, error, unit) comp) \<Rightarrow> nat \<Rightarrow> bool \<Rightarrow> (('c, 'w) retry, error, unit) comp" where
  "test_conn probe pid test s =
     (case rq_cache s pid of
        Some c \<Rightarrow>
          if test then
            (case on_world (probe c) s of
               (Inl e, s') \<Rightarrow> if caught_by [ReqlError] e then keep_conn pid None s' else (Inl e, s')
             | (Inr _, s') \<Rightarrow> (Inr (), s'))
          else (Inr (), s)
      | None \<Rightarrow> (Inr (), s))"

definition rq_conn :: "('w, error, 'c) comp \<Rightarrow> ('c \<Rightarrow> ('w, error, unit) comp) \<Rightarrow> nat \<Rightarrow> bool
    \<Rightarrow> (('c, 'w) retry, error, 'c) comp" where
  "rq_conn mk probe pid test =
     bind (test_conn probe pid test) (\<lambda>_ s.
       case rq_cache s pid of
         Some c \<Rightarrow> (Inr c, s)
       | None \<Rightarrow> bind (on_world mk) (\<lambda>c. bind (keep_conn pid (Some c)) (\<lambda>_. ret c)) s)"

text \<open>\<open>RetryQuery.__call__\<close>: what the loop keeps are the variables \<open>conn\<close>, if it is bound, \<open>last_error\<close>
  and \<open>test_connection\<close>, which the parameter of that name is not used for.\<close>

definition failed_during :: "string \<Rightarrow> string \<Rightarrow> error \<Rightarrow> error + error" where
  "failed_during what name e =
     rmap (\<lambda>m. py_exc PyRuntimeError (what @ '' during '' @ [CHR 0x27] @ name @ [CHR 0x27] @ '': '' @ m)) (exc_str e)"

definition unbound_conn :: error where
  "unbound_conn = py_exc PyException
     (''cannot access local variable '' @ [CHR 0x27] @ ''conn'' @ [CHR 0x27] @ '' where it is not associated with a value'')"

fun retry_loop :: "('w, error, 'c) comp \<Rightarrow> ('c \<Rightarrow> ('w, error, unit) comp) \<Rightarrow> ('c \<Rightarrow> ('w, error, 'a) comp)
    \<Rightarrow> nat \<Rightarrow> string \<Rightarrow> nat \<Rightarrow> 'c option \<times> error option \<times> bool \<Rightarrow> (('c, 'w) retry, error, 'a option) comp" where
  "retry_loop mk probe run pid name 0 (conn, err, test) s =
     (case err of None \<Rightarrow> (Inr None, s) | Some e \<Rightarrow> (Inl e, s))"
| "retry_loop mk probe run pid name (Suc k) (conn, err, test) s =
     (case (case rq_conn mk probe pid test s of
              (Inr c, s') \<Rightarrow> (Inr (Some c, err, test), s')
            | (Inl e, s') \<Rightarrow>
                if caught_by [ReqlError] e
                then (rmap (\<lambda>e'. (conn, Some e', True)) (failed_during ''Error connecting for'' name e), s')
                else (Inl e, s')) of
        (Inl e, s') \<Rightarrow> (Inl e, s')
      | (Inr (None, err', test'), s') \<Rightarrow> (Inl unbound_conn, s')
      | (Inr (Some c, err', test'), s') \<Rightarrow>
          (case on_world (run c) s' of
             (Inr v, s'') \<Rightarrow> (Inr (Some v), s'')
           | (Inl e, s'') \<Rightarrow>
               if caught_by [ReqlTimeoutError, ReqlDriverError] e
               then (case failed_during ''Connection error'' name e of
                       Inl e' \<Rightarrow> (Inl e', s'')
                     | Inr e' \<Rightarrow> retry_loop mk probe run pid name k (Some c, Some e', test') s'')
               else (Inl e, s'')))"

definition retry_call :: "('w, error, 'c) comp \<Rightarrow> ('c \<Rightarrow> ('w, error, unit) comp) \<Rightarrow> ('c \<Rightarrow> ('w, error, 'a) comp)
    \<Rightarrow> nat \<Rightarrow> string option \<Rightarrow> int \<Rightarrow> (('c, 'w) retry, error, 'a option) comp" where
  "retry_call mk probe run pid name tries s =
     (case name of
        None \<Rightarrow> (Inl (py_exc PyAssertionError ''Name can not be none''), s)
      | Some n \<Rightarrow>
          if tries < 1
          then (Inl (py_exc PyValueError (''Times must be a positive integer instead of '' @ show_int tries)), s)
          else retry_loop mk probe run pid n (nat tries) (None, None, False) s)"

text \<open>\<open>RetryQuery.__init__\<close>, on the options it looks at: the host, if there is one, and the port.\<close>

definition retry_init :: "string option \<Rightarrow> (error + int) option \<Rightarrow> error + int" where
  "retry_init host port =
     (if host = None then Inl (py_exc PyAssertionError ''Hostname is a required connection parameter'')
      else case port of
        None \<Rightarrow> Inl (py_exc PyAssertionError ''Port number is a required connection parameter'')
      | Some p \<Rightarrow>
          rbind p (\<lambda>n. if n \<le> 0 then Inl (py_exc PyAssertionError ''Port number can not be less than one'') else Inr n))"

subsection \<open>What a call does\<close>

text \<open>A row of failures of a query, each with an error the loop catches.\<close>

inductive failing :: "('w, error, 'a) comp \<Rightarrow> 'w \<Rightarrow> error list \<Rightarrow> 'w \<Rightarrow> bool" for m where
  no_failure: "failing m w [] w"
| a_failure: "m w = (Inl e, w1) \<Longrightarrow> caught_by [ReqlTimeoutError, ReqlDriverError] e \<Longrightarrow> failing m w1 es w2
    \<Longrightarrow> failing m w (e # es) w2"

lemma cached_conn: "rq_cache s pid = Some c \<Longrightarrow> rq_conn mk probe pid False s = (Inr c, s)"
  by (simp add: rq_conn_def bind_def test_conn_def)

lemma retry_step:
  assumes "rq_cache s pid = Some c"
  shows "retry_loop mk probe run pid name (Suc k) (conn, err, False) s =
     (case run c (rq_world s) of
        (Inr v, w) \<Rightarrow> (Inr (Some v), s\<lparr>rq_world := w\<rparr>)
      | (Inl e, w) \<Rightarrow>
          if caught_by [ReqlTimeoutError, ReqlDriverError] e
          then (case failed_during ''Connection error'' name e of
                  Inl e' \<Rightarrow> (Inl e', s\<lparr>rq_world := w\<rparr>)
                | Inr e' \<Rightarrow> retry_loop mk probe run pid name k (Some c, Some e', False) (s\<lparr>rq_world := w\<rparr>))
          else (Inl e, s\<lparr>rq_world := w\<rparr>))"
  using cached_conn [OF assms, of mk probe]
  by (cases "run c (rq_world s)") (auto simp: on_world_def split: sum.splits)

declare retry_loop.simps [simp del]

lemma retry_failures:
  assumes "failing (run c) w es w'" "rq_cache s pid = Some c" "rq_world s = w"
    and "\<forall>e \<in> set es. is_ok (exc_str e)"
  shows "\<exists>err'. retry_loop mk probe run pid name (length es + k) (conn, err, False) s
       = retry_loop mk probe run pid name k (if es = [] then conn else Some c, err', False) (s\<lparr>rq_world := w'\<rparr>)
     \<and> (es = [] \<longrightarrow> err' = err) \<and> (es \<noteq> [] \<longrightarrow> failed_during ''Connection error'' name (last es) = Inr (the err') \<and> err' \<noteq> None)"
  using assms
proof (induction arbitrary: s conn err rule: failing.induct)
  case (no_failure w)
  then have "s\<lparr>rq_world := w\<rparr> = s" by (cases s) simp
  then show ?case by (intro exI [of _ err]) simp
next
  case (a_failure w e w1 es w2)
  obtain m where m: "exc_str e = Inr m" using a_failure.prems(3) by (auto simp: is_ok_iff)
  then obtain e' where e': "failed_during ''Connection error'' name e = Inr e'" by (simp add: failed_during_def)
  have s: "retry_loop mk probe run pid name (length (e # es) + k) (conn, err, False) s
      = retry_loop mk probe run pid name (length es + k) (Some c, Some e', False) (s\<lparr>rq_world := w1\<rparr>)"
    using retry_step [of s pid c mk probe run name "length es + k" conn err] a_failure.prems a_failure.hyps(1,2) e' by simp
  from a_failure.IH [of "s\<lparr>rq_world := w1\<rparr>" "Some c" "Some e'"] a_failure.prems obtain err' where
    "retry_loop mk probe run pid name (length es + k) (Some c, Some e', False) (s\<lparr>rq_world := w1\<rparr>)
       = retry_loop mk probe run pid name k (Some c, err', False) (s\<lparr>rq_world := w2\<rparr>)"
    "es = [] \<longrightarrow> err' = Some e'"
    "es \<noteq> [] \<longrightarrow> failed_during ''Connection error'' name (last es) = Inr (the err') \<and> err' \<noteq> None"
    by (auto split: if_splits)
  then show ?case using s e' by (intro exI [of _ err']) auto
qed

text \<open>C31. With a connection at hand, a query is tried until it does not fail with a connection error:
  after fewer such failures than \<open>times\<close> the call returns what the next attempt returns, or raises its
  error at once when that is of another kind.\<close>

theorem retry_outcome:
  assumes "rq_cache s pid = Some c" "failing (run c) (rq_world s) es w" "\<forall>e \<in> set es. is_ok (exc_str e)"
    and "int (length es) < tries" "run c w = (r, w')"
    and "\<And>e. r = Inl e \<Longrightarrow> \<not> caught_by [ReqlTimeoutError, ReqlDriverError] e"
  shows "retry_call mk probe run pid (Some name) tries s = (rmap Some r, s\<lparr>rq_world := w'\<rparr>)"
proof -
  obtain k where k: "nat tries = length es + Suc k"
    using assms(4) less_iff_Suc_add [of "length es" "nat tries"] by auto
  obtain err' where "retry_loop mk probe run pid name (length es + Suc k) (None, None, False) s
      = retry_loop mk probe run pid name (Suc k) (if es = [] then None else Some c, err', False) (s\<lparr>rq_world := w\<rparr>)"
    using retry_failures [of run c "rq_world s" es w s pid mk probe name "Suc k" None None] assms(1-3) by blast
  moreover have "retry_loop mk probe run pid name (Suc k) (x, err', False) (s\<lparr>rq_world := w\<rparr>) = (rmap Some r, s\<lparr>rq_world := w'\<rparr>)" for x
    using retry_step [of "s\<lparr>rq_world := w\<rparr>" pid c mk probe run name k x err'] assms(1,5,6) by (cases r) auto
  ultimately show ?thesis using assms(4) k by (simp add: retry_call_def)
qed

text \<open>A connection that is broken stays in use: when every attempt fails with a connection error, the
  call ends in a \<open>RuntimeError\<close> about the last one, no new connection has been tried (nothing depends on
  how one is made or tested), and the broken connection is still the one kept for the next call.\<close>

theorem retry_never_reconnects:
  assumes "rq_cache s pid = Some c" "failing (run c) (rq_world s) es w" "\<forall>e \<in> set es. is_ok (exc_str e)"
    and "int (length es) = tries" "es \<noteq> []"
  shows "\<exists>e. failed_during ''Connection error'' name (last es) = Inr e
     \<and> retry_call mk probe run pid (Some name) tries s = (Inl e, s\<lparr>rq_world := w\<rparr>)
     \<and> rq_cache (s\<lparr>rq_world := w\<rparr>) pid = Some c"
proof -
  obtain err' where "retry_loop mk probe run pid name (length es + 0) (None, None, False) s
      = retry_loop mk probe run pid name 0 (if es = [] then None else Some c, err', False) (s\<lparr>rq_world := w\<rparr>)"
    "failed_during ''Connection error'' name (last es) = Inr (the err')" "err' \<noteq> None"
    using retry_failures [of run c "rq_world s" es w s pid mk probe name 0 None None] assms(1-3,5) by blast
  moreover have "0 < length es" using assms(5) by simp
  then have "1 \<le> tries" using assms(4) by linarith
  ultimately show ?thesis using assms(1,4,5) by (auto simp: retry_call_def retry_loop.simps(1) split: if_splits)
qed

text \<open>The first connection is not retried: when it cannot be made, the variable \<open>conn\<close> is not bound,
  and the call fails with an \<open>UnboundLocalError\<close> after this one attempt, whatever \<open>times\<close> is.\<close>

theorem retry_unreachable:
  assumes "rq_cache s pid = None" "mk (rq_world s) = (Inl e, w)" "caught_by [ReqlError] e" "is_ok (exc_str e)" "1 \<le> tries"
  shows "retry_call mk probe run pid (Some name) tries s = (Inl unbound_conn, s\<lparr>rq_world := w\<rparr>)"
proof -
  obtain k where k: "nat tries = Suc k" using assms(5) by (cases "nat tries") auto
  have "rq_conn mk probe pid False s = (Inl e, s\<lparr>rq_world := w\<rparr>)"
    using assms(1,2) by (simp add: rq_conn_def bind_def test_conn_def on_world_def)
  moreover obtain e' where "failed_during ''Error connecting for'' name e = Inr e'"
    using assms(4) by (auto simp: failed_during_def is_ok_iff)
  ultimately show ?thesis
    using assms(3,5) k by (simp add: retry_call_def retry_loop.simps(2) del: caught_by_single)
qed

text \<open>A world that counts the failures still to come.\<close>

definition flaky :: "unit \<Rightarrow> (nat, error, int) comp" where
  "flaky c w = (if w = 0 then (Inr 7, 0) else (Inl (driver_error ''Connection is closed.''), w - 1))"

lemma flaky_fails: "failing (flaky ()) 2 [driver_error ''Connection is closed.'', driver_error ''Connection is closed.''] 0"
proof -
  let ?e = "driver_error ''Connection is closed.'' :: error"
  have c: "caught_by [ReqlTimeoutError, ReqlDriverError] ?e" by code_simp
  have "flaky () 1 = (Inl ?e, 0)" by (simp add: flaky_def)
  from a_failure [of "flaky ()", OF this c no_failure] have "failing (flaky ()) 1 [?e] 0" .
  moreover have "flaky () 2 = (Inl ?e, 1)" by (simp add: flaky_def)
  ultimately show ?thesis using a_failure [of "flaky ()" 2 ?e 1] c by blast
qed

definition flaky_client :: "(unit, nat) retry" where
  "flaky_client = \<lparr>rq_cache = [7 \<mapsto> ()], rq_world = 2\<rparr>"

definition new_client :: "(unit, nat) retry" where
  "new_client = \<lparr>rq_cache = Map.empty, rq_world = 0\<rparr>"

lemma driver_error_text: "exc_str (driver_error m) = Inr m"
  by (simp add: exc_str_def driver_error_def reql_error_def)

lemma client_simps: "rq_cache flaky_client 7 = Some ()" "rq_world flaky_client = 2" "rq_cache new_client 7 = None"
  by (simp_all add: flaky_client_def new_client_def)

theorem retry_outcome_witness:
  "retry_call (ret ()) (\<lambda>c. ret ()) flaky 7 (Some ''q'') 5 flaky_client = (rmap Some (Inr 7), flaky_client\<lparr>rq_world := 0\<rparr>)"
  using retry_outcome [of flaky_client 7 "()" flaky
      "[driver_error ''Connection is closed.'', driver_error ''Connection is closed.'']" 0 5 "Inr 7" 0 "ret ()" "\<lambda>c. ret ()" "''q''"]
  by (simp add: client_simps flaky_fails driver_error_text flaky_def)

theorem retry_never_reconnects_witness:
  "\<exists>e. failed_during ''Connection error'' ''q''
        (last [driver_error ''Connection is closed.'', driver_error ''Connection is closed.'']) = Inr e
     \<and> retry_call (ret ()) (\<lambda>c. ret ()) flaky 7 (Some ''q'') 2 flaky_client = (Inl e, flaky_client\<lparr>rq_world := 0\<rparr>)
     \<and> rq_cache (flaky_client\<lparr>rq_world := 0\<rparr>) 7 = Some ()"
  using retry_never_reconnects [of flaky_client 7 "()" flaky
      "[driver_error ''Connection is closed.'', driver_error ''Connection is closed.'']" 0 2 "''q''" "ret ()" "\<lambda>c. ret ()"]
  by (simp add: client_simps flaky_fails driver_error_text)

theorem retry_unreachable_witness:
  "retry_call (raise (driver_error ''x'')) (\<lambda>c. ret ()) flaky 7 (Some ''q'') 5 new_client
     = (Inl unbound_conn, new_client\<lparr>rq_world := 0\<rparr>)"
proof -
  have "caught_by [ReqlError] (driver_error ''x'' :: error)" by code_simp
  then show ?thesis
    using retry_unreachable [of new_client 7 "raise (driver_error ''x'')" "driver_error ''x''" 0 5 "\<lambda>c. ret ()" flaky "''q''"]
    by (simp add: client_simps raise_def driver_error_text new_client_def del: caught_by_single)
qed

end
