(* ===== verification/ToolOptions.thy ===== *)
theory ToolOptions
  imports Response
begin

text \<open>
  The options of the command line tools: the values that \<open>utils_common.py\<close> accepts for an option, and
  the checks that \<open>_import.py\<close> and \<open>_export.py\<close> make on the options of a command before it does
  anything.  Taking the command line apart is \<open>optparse\<close>'s; here an option that was not given
  is \<open>None\<close>.  A check that fails ends the program with a message, which is the error.  What the
  file system says is a parameter.
\<close>

subsection \<open>Files and names\<close>

record filesystem =
  fs_isfile :: "string \<Rightarrow> bool"
  fs_isdir :: "string \<Rightarrow> bool"
  fs_exists :: "string \<Rightarrow> bool"
  fs_realpath :: "string \<Rightarrow> string"
  fs_read :: "string \<Rightarrow> string option"

text \<open>\<open>os.path.splitext\<close> and \<open>os.path.basename\<close>.\<close>

definition basename :: "string \<Rightarrow> string" where
  "basename p = rev (takeWhile (\<lambda>c. c \<noteq> CHR ''/'') (rev p))"

definition splitext :: "string \<Rightarrow> string \<times> string" where
  "splitext p =
     (let name = basename p;
          ext = rev (takeWhile (\<lambda>c. c \<noteq> CHR ''.'') (rev name));
          stem = take (length name - length ext - 1) name
      in if CHR ''.'' \<in> set name \<and> list_ex (\<lambda>c. c \<noteq> CHR ''.'') stem
         then (take (length p - length ext - 1) p, CHR ''.'' # ext) else (p, []))"

text \<open>A character of \<open>\w\<close>: alphanumeric or an underscore.\<close>

definition word_char :: "char \<Rightarrow> bool" where
  "word_char c \<longleftrightarrow>
     (let n = code_point c in
      48 \<le> n \<and> n \<le> 57 \<or> 65 \<le> n \<and> n \<le> 90 \<or> n = 95 \<or> 97 \<le> n \<and> n \<le> 122
      \<or> n \<in> {170, 178, 179, 181, 185, 186, 188, 189, 190} \<or> 192 \<le> n \<and> n \<noteq> 215 \<and> n \<noteq> 247)"

definition name_char :: "char \<Rightarrow> bool" where
  "name_char c \<longleftrightarrow> word_char c \<or> c = CHR ''-''"

definition at_end :: "string \<Rightarrow> bool" where
  "at_end s \<longleftrightarrow> s = [] \<or> s = [CHR 0x0A]"

type_synonym db_table = "string \<times> string option"

text \<open>\<open>_tableNameRegex\<close>; \<open>$\<close> also matches before a line feed at the end.\<close>

definition table_name :: "string \<Rightarrow> db_table option" where
  "table_name s =
     (let db = takeWhile name_char s; r = dropWhile name_char s
      in if db = [] then None
         else if at_end r then Some (db, None)
         else (case r of
             c # t \<Rightarrow>
               if c = CHR ''.'' \<and> takeWhile name_char t \<noteq> [] \<and> at_end (dropWhile name_char t)
               then Some (db, Some (takeWhile name_char t)) else None
           | [] \<Rightarrow> None))"

subsection \<open>Values of options\<close>

definition option_error :: "string \<Rightarrow> error" where
  "option_error m = py_exc PyException m"

definition check_db_table :: "string \<Rightarrow> error + db_table" where
  "check_db_table s =
     (case table_name s of
        None \<Rightarrow> Inl (option_error (''Invalid db or db.table name: '' @ s))
      | Some (db, t) \<Rightarrow>
          if db = ''rethinkdb''
          then Inl (option_error ''The `rethinkdb` database is special and cannot be used here'')
          else Inr (db, t))"

definition check_positive_int :: "string \<Rightarrow> string \<Rightarrow> error + int" where
  "check_positive_int opt s =
     (case py_int s of
        Inl _ \<Rightarrow> Inl (option_error (opt @ '' value must be an integer greater than 1: '' @ s))
      | Inr n \<Rightarrow>
          if n < 1 then Inl (option_error (opt @ '' value must be an integer greater than 1: '' @ show_int n))
          else Inr n)"

definition check_tls :: "filesystem \<Rightarrow> string \<Rightarrow> string \<Rightarrow> error + string" where
  "check_tls fs opt s =
     (if fs_isfile fs s then Inr (fs_realpath fs s)
      else Inl (option_error (''Option '' @ opt @ '' value is not a file: '' @ repr_str s)))"

definition check_existing_file :: "filesystem \<Rightarrow> string \<Rightarrow> string \<Rightarrow> error + string" where
  "check_existing_file fs opt s =
     (if fs_isfile fs s then Inr (fs_realpath fs s)
      else Inl (option_error (opt @ '' value was not an existing file: '' @ s)))"

definition check_new_file :: "filesystem \<Rightarrow> string \<Rightarrow> string \<Rightarrow> error + string" where
  "check_new_file fs opt s =
     (if fs_exists fs (fs_realpath fs s) then Inl (option_error (opt @ '' value already exists: '' @ s))
      else Inr (fs_realpath fs s))"

definition file_contents :: "filesystem \<Rightarrow> string \<Rightarrow> string \<Rightarrow> error + string" where
  "file_contents fs opt s =
     (if \<not> fs_isfile fs s then Inl (option_error (opt @ '' value is not an existing file: '' @ repr_str s))
      else case fs_read fs s of
        None \<Rightarrow> Inl (option_error (''bad value for '' @ opt @ '': '' @ s))
      | Some t \<Rightarrow> Inr (rstrip (CHR 0x0A) t))"

text \<open>\<open>combined_connect_action\<close>: the host and, if it is there, the port of \<open>-c\<close>.\<close>

definition connect_option :: "string \<Rightarrow> error + string \<times> int option" where
  "connect_option s =
     (let s1 = dropWhile is_space s;
          host_char = (\<lambda>c. word_char c \<or> c = CHR ''.'' \<or> c = CHR ''-'');
          host = takeWhile host_char s1; r = dropWhile host_char s1;
          port = (case r of c # t \<Rightarrow> if c = CHR '':'' then takeWhile is_digit t else [] | [] \<Rightarrow> []);
          rest = (if port = [] then r else drop (Suc (length port)) r)
      in if host \<noteq> [] \<and> list_all is_space rest
         then Inr (host, if port = [] then None else Some (int (read_digits 0 port)))
         else Inl (option_error (''Invalid '' @ [CHR 0x27] @ ''host:port'' @ [CHR 0x27] @ '' format: '' @ s)))"

text \<open>The check of \<open>parse_args\<close> on the environment: a value from there is a text.\<close>

definition check_driver_port :: "string option \<Rightarrow> error + unit" where
  "check_driver_port env =
     (case env of
        None \<Rightarrow> Inr ()
      | Some v \<Rightarrow>
          Inl (option_error (''ENV variable RETHINKDB_DRIVER_PORT is not a useable integer: '' @ v)))"

subsection \<open>The options of import\<close>

text \<open>As \<open>optparse\<close> leaves them, with the real path of an existing file.\<close>

record import_options =
  im_directory :: "string option"
  im_file :: "string option"
  im_table :: "string option"
  im_fields :: "string option"
  im_format :: "string option"
  im_create_args :: "(string, string) dict"
  im_delimiter :: "string option"
  im_no_header :: bool
  im_custom_header :: "string option"
  im_db_tables :: "db_table list"
  im_no_indexes :: bool
  im_max_document :: int

text \<open>What the command then works with.\<close>

datatype import_plan =
    FromDirectory string
  | FromCsv string db_table "string list option" string bool "string list option"
  | FromJson string db_table "string list option" "int option"

definition given :: "string option \<Rightarrow> bool" where
  "given s \<longleftrightarrow> s \<noteq> None \<and> s \<noteq> Some []"

definition refuse_if :: "bool \<Rightarrow> string \<Rightarrow> error + unit" where
  "refuse_if b m = (if b then Inl (option_error m) else Inr ())"

definition refuse_all :: "(bool \<times> string) list \<Rightarrow> error + unit" where
  "refuse_all cs = (case find fst cs of None \<Rightarrow> Inr () | Some (b, m) \<Rightarrow> Inl (option_error m))"

definition not_for_directory :: "string \<Rightarrow> string" where
  "not_for_directory opt = opt @ '' option is not valid when importing a directory''"

text \<open>A header that was given is a text, which has no \<open>keys\<close>.\<close>

definition check_directory :: "filesystem \<Rightarrow> import_options \<Rightarrow> string \<Rightarrow> error + import_plan" where
  "check_directory fs opts d =
     rbind (refuse_all
       [(\<not> fs_exists fs d, ''-d/--directory does not exist: '' @ d),
        (\<not> fs_isdir fs d, ''-d/--directory is not a directory: '' @ d),
        (given (im_table opts), not_for_directory ''--table''),
        (given (im_fields opts), not_for_directory ''--fields''),
        (given (im_format opts), not_for_directory ''--format''),
        (im_create_args opts \<noteq> [], not_for_directory ''--pkey''),
        (given (im_delimiter opts), not_for_directory ''--delimiter''),
        (im_no_header opts, not_for_directory ''--no-header'')]) (\<lambda>_.
     if given (im_custom_header opts)
     then Inl (py_exc PyAttributeError ([CHR 0x27] @ ''str'' @ [CHR 0x27] @ '' object has no attribute '' @ [CHR 0x27] @ ''keys'' @ [CHR 0x27]))
     else rbind (refuse_if (\<not> fs_isdir fs (fs_realpath fs d)) (''Directory to import does not exist: '' @ fs_realpath fs d)) (\<lambda>_.
       Inr (FromDirectory (fs_realpath fs d))))"

definition split_commas :: "string option \<Rightarrow> string list option" where
  "split_commas s = (if given s then Some (split_on (CHR '','') (the s)) else None)"

definition check_delimiter :: "string option \<Rightarrow> error + string" where
  "check_delimiter d =
     (case d of
        None \<Rightarrow> Inr '',''
      | Some s \<Rightarrow>
          if s = [CHR 0x5C, CHR ''t''] then Inr [CHR 0x09]
          else if length s \<noteq> 1 then Inl (option_error (''Specify exactly one character for the --delimiter option: '' @ s))
          else Inr s)"

definition check_csv_file :: "import_options \<Rightarrow> string \<Rightarrow> db_table \<Rightarrow> error + import_plan" where
  "check_csv_file opts path t =
     rbind (refuse_if (im_max_document opts \<noteq> 0) ''--max_document_size only affects importing JSON documents'') (\<lambda>_.
     rbind (check_delimiter (im_delimiter opts)) (\<lambda>d.
     rbind (refuse_if (im_no_header opts \<and> im_custom_header opts = None) ''--custom-header is required if --no-header is specified'') (\<lambda>_.
     Inr (FromCsv path t (split_commas (im_fields opts)) d (im_no_header opts)
       (if given (im_custom_header opts) then split_commas (im_custom_header opts)
        else if im_custom_header opts = None then None else Some [])))))"

definition check_json_file :: "import_options \<Rightarrow> string \<Rightarrow> db_table \<Rightarrow> error + import_plan" where
  "check_json_file opts path t =
     rbind (refuse_all
       [(im_delimiter opts \<noteq> None, ''--delimiter option is not valid for json files''),
        (im_no_header opts, ''--no-header option is not valid for json files''),
        (im_custom_header opts \<noteq> None, ''--custom-header option is not valid for json files'')]) (\<lambda>_.
     Inr (FromJson path t (split_commas (im_fields opts)) (if 0 < im_max_document opts then Some (im_max_document opts) else None)))"

definition check_table :: "string option \<Rightarrow> error + db_table" where
  "check_table t =
     (if given t then
        (case table_name (the t) of
           Some (db, Some name) \<Rightarrow> Inr (db, Some name)
         | _ \<Rightarrow> Inl (option_error (''Invalid --table option: '' @ the t)))
      else Inl (option_error ''A value is required for --table when importing from a file''))"

text \<open>The check of \<open>options.indexes\<close> is left out: the option can only be \<open>None\<close> or \<open>False\<close>.\<close>

definition check_file :: "filesystem \<Rightarrow> import_options \<Rightarrow> string \<Rightarrow> error + import_plan" where
  "check_file fs opts p =
     rbind (refuse_all
       [(\<not> fs_exists fs p, ''-f/--file does not exist: '' @ p),
        (\<not> fs_isfile fs p, ''-f/--file is not a file: '' @ p)]) (\<lambda>_.
     let path = fs_realpath fs p;
         format = (case im_format opts of Some f \<Rightarrow> f | None \<Rightarrow> dropWhile (\<lambda>c. c = CHR ''.'') (snd (splitext path)))
     in rbind (check_table (im_table opts)) (\<lambda>t.
     rbind (refuse_if (im_db_tables opts \<noteq> []) ''-i/--import can only be used when importing a directory'') (\<lambda>_.
     if format = ''csv'' then check_csv_file opts path t
     else if format = ''json'' then check_json_file opts path t
     else Inl (option_error (''Unrecognized file format: '' @ format)))))"

definition check_import :: "filesystem \<Rightarrow> string list \<Rightarrow> import_options \<Rightarrow> error + import_plan" where
  "check_import fs args opts =
     (if args \<noteq> [] then Inl (option_error (''No positional arguments supported. Unrecognized option(s): ''
        @ ''['' @ join '', '' (map repr_str args) @ '']''))
      else if given (im_directory opts) \<and> given (im_file opts)
      then Inl (option_error ''-f/--file and -d/--directory can not be used together'')
      else if given (im_directory opts) then check_directory fs opts (the (im_directory opts))
      else if given (im_file opts) then check_file fs opts (the (im_file opts))
      else Inl (option_error ''Either -f/--file or -d/--directory is required''))"

subsection \<open>The options of export\<close>

record export_options =
  ex_fields :: "string option"
  ex_format :: string
  ex_delimiter :: "string option"
  ex_db_tables :: "db_table list"

definition one_table :: "db_table list \<Rightarrow> bool" where
  "one_table ts \<longleftrightarrow> (case ts of [(db, Some t)] \<Rightarrow> True | _ \<Rightarrow> False)"

text \<open>The fields and the delimiter the writers get; a text of no fields is kept as it is.\<close>

definition check_export :: "string list \<Rightarrow> export_options \<Rightarrow> error + string list option \<times> string option" where
  "check_export args opts =
     rbind (refuse_all
       [(args \<noteq> [], ''No positional arguments supported. Unrecognized option(s): '' @ ''['' @ join '', '' (map repr_str args) @ '']''),
        (given (ex_fields opts) \<and> \<not> one_table (ex_db_tables opts),
           ''The --fields option can only be used when exporting a single table'')]) (\<lambda>_.
     let names = (if ex_fields opts = Some [] then Some [] else split_commas (ex_fields opts))
     in if ex_format opts = ''csv'' then
          rbind (refuse_if (ex_fields opts = None) 
            (''CSV files require the '' @ [CHR 0x27] @ ''--fields'' @ [CHR 0x27] @ '' option to be specified.'')) (\<lambda>_.
          rbind (check_delimiter (ex_delimiter opts)) (\<lambda>d. Inr (names, Some d)))
        else rbind (refuse_if (given (ex_delimiter opts)) ''--delimiter option is only valid for CSV file formats'') (\<lambda>_.
          Inr (names, ex_delimiter opts)))"

subsection \<open>What is accepted\<close>

lemma refuse_all_ok: "refuse_all cs = Inr u \<longleftrightarrow> list_all (\<lambda>c. \<not> fst c) cs"
  by (induction cs) (auto simp: refuse_all_def)

lemma refuse_if_ok [simp]: "refuse_if b m = Inr u \<longleftrightarrow> \<not> b"
  by (simp add: refuse_if_def)

lemma name_char_not: "\<not> name_char (CHR ''.'')" "\<not> name_char (CHR 0x0A)"
  by (simp_all add: name_char_def word_char_def code_point_def Let_def)

lemma span_names:
  "list_all name_char s \<Longrightarrow> r = [] \<or> \<not> name_char (hd r) \<Longrightarrow> takeWhile name_char (s @ r) = s \<and> dropWhile name_char (s @ r) = r"
  by (induction s) (cases r; auto)+

text \<open>The names of databases and tables, as a language: one or two words with a dot between them.\<close>

definition is_name :: "string \<Rightarrow> bool" where
  "is_name s \<longleftrightarrow> s \<noteq> [] \<and> list_all name_char s"

definition name_text :: "db_table \<Rightarrow> string" where
  "name_text t = fst t @ (case snd t of None \<Rightarrow> [] | Some n \<Rightarrow> CHR ''.'' # n)"

lemma at_end_stop: "at_end e \<Longrightarrow> e = [] \<or> \<not> name_char (hd e)"
  using name_char_not by (auto simp: at_end_def)

lemma table_name_text:
  assumes "is_name (fst t)" "case snd t of None \<Rightarrow> True | Some n \<Rightarrow> is_name n" "at_end e"
  shows "table_name (name_text t @ e) = Some t"
proof (cases "snd t")
  case None
  then show ?thesis
    using assms span_names [of "fst t" e] at_end_stop [OF assms(3)]
    by (cases t) (simp add: table_name_def name_text_def is_name_def Let_def)
next
  case (Some n)
  have "takeWhile name_char (fst t @ CHR ''.'' # n @ e) = fst t \<and> dropWhile name_char (fst t @ CHR ''.'' # n @ e) = CHR ''.'' # n @ e"
    using assms(1) name_char_not by (intro span_names) (simp_all add: is_name_def)
  moreover have "takeWhile name_char (n @ e) = n \<and> dropWhile name_char (n @ e) = e"
    using assms Some at_end_stop [OF assms(3)] by (intro span_names) (simp_all add: is_name_def)
  ultimately show ?thesis using assms Some
    by (cases t) (auto simp: table_name_def name_text_def is_name_def Let_def at_end_def [of "_ # _"] simp del: takeWhile_eq_all_conv)
qed

lemma table_name_parts:
  assumes "table_name s = Some t"
  shows "\<exists>e. s = name_text t @ e \<and> at_end e \<and> is_name (fst t) \<and> (case snd t of None \<Rightarrow> True | Some n \<Rightarrow> is_name n)"
proof -
  let ?r = "dropWhile name_char s"
  have tw: "is_name (takeWhile name_char u)" if "takeWhile name_char u \<noteq> []" for u
    using that by (auto simp: is_name_def list_all_iff dest: set_takeWhileD)
  have s: "s = takeWhile name_char s @ ?r" by simp
  have db: "takeWhile name_char s \<noteq> []" using assms by (auto simp: table_name_def Let_def split: if_splits)
  show ?thesis
  proof (cases "at_end ?r")
    case True
    then have "t = (takeWhile name_char s, None)" using assms db by (simp add: table_name_def Let_def)
    then show ?thesis using s True tw [OF db] by (intro exI [of _ ?r]) (simp add: name_text_def)
  next
    case False
    then obtain n where n: "?r = CHR ''.'' # n" "takeWhile name_char n \<noteq> []" "at_end (dropWhile name_char n)"
      "t = (takeWhile name_char s, Some (takeWhile name_char n))"
      using assms db by (auto simp: table_name_def Let_def split: list.splits if_splits)
    have "s = takeWhile name_char s @ CHR ''.'' # takeWhile name_char n @ dropWhile name_char n" using s n(1) by simp
    then show ?thesis using n tw [OF db] tw [OF n(2)] by (intro exI [of _ "dropWhile name_char n"]) (simp add: name_text_def)
  qed
qed

text \<open>A name of a database or table is accepted exactly when it is one or two words of letters, digits,
  underscores and hyphens with a dot between them (and perhaps a line feed after them), and what is
  taken from it are these words; the system database is refused.\<close>

theorem db_table_names:
  "check_db_table s = Inr t \<longleftrightarrow>
     (\<exists>e. s = name_text t @ e \<and> at_end e \<and> is_name (fst t) \<and> (case snd t of None \<Rightarrow> True | Some n \<Rightarrow> is_name n)
        \<and> fst t \<noteq> ''rethinkdb'')"
  using table_name_text [of t] table_name_parts [of s t]
  by (cases t) (auto simp: check_db_table_def split: option.splits)

text \<open>What \<open>import\<close> then works with is in order: one file or one directory that exists; for a file a
  database and a table by name; for CSV a delimiter of one character, and field names from somewhere;
  no size limit that is not positive.\<close>

theorem import_plan_checked:
  assumes "check_import fs args opts = Inr plan"
  shows "case plan of
       FromDirectory d \<Rightarrow> given (im_directory opts) \<and> \<not> given (im_file opts) \<and> fs_isdir fs d
     | FromCsv path t names d no_header header \<Rightarrow>
         given (im_file opts) \<and> fs_isfile fs (the (im_file opts)) \<and> path = fs_realpath fs (the (im_file opts))
         \<and> is_name (fst t) \<and> (\<exists>n. snd t = Some n \<and> is_name n) \<and> length d = 1
         \<and> (no_header \<longrightarrow> header \<noteq> None) \<and> im_db_tables opts = []
     | FromJson path t names limit \<Rightarrow>
         given (im_file opts) \<and> fs_isfile fs (the (im_file opts)) \<and> path = fs_realpath fs (the (im_file opts))
         \<and> is_name (fst t) \<and> (\<exists>n. snd t = Some n \<and> is_name n)
         \<and> im_custom_header opts = None \<and> (\<forall>l. limit = Some l \<longrightarrow> 0 < l) \<and> im_db_tables opts = []"
proof -
  have table: "is_name (fst t) \<and> (\<exists>n. snd t = Some n \<and> is_name n)" if "check_table x = Inr t" for x t
    using that table_name_parts by (fastforce simp: check_table_def split: option.splits if_splits)
  have delim: "length d = 1" if "check_delimiter x = Inr d" for x d
    using that by (auto simp: check_delimiter_def split: option.splits if_splits)
  have csv: "\<exists>names d header. plan = FromCsv p t names d (im_no_header opts) header \<and> length d = 1
      \<and> (im_no_header opts \<longrightarrow> header \<noteq> None)" if "check_csv_file opts p t = Inr plan" for p t
    using that by (auto simp: check_csv_file_def res_simps split_commas_def dest: delim split: if_splits)
  have json: "\<exists>names limit. plan = FromJson p t names limit \<and> im_custom_header opts = None \<and> (\<forall>l. limit = Some l \<longrightarrow> 0 < l)"
    if "check_json_file opts p t = Inr plan" for p t
    using that by (auto simp: check_json_file_def res_simps refuse_all_ok)
  consider (dir) "given (im_directory opts)" "\<not> given (im_file opts)" "check_directory fs opts (the (im_directory opts)) = Inr plan"
    | (one) "given (im_file opts)" "check_file fs opts (the (im_file opts)) = Inr plan"
    using assms by (auto simp: check_import_def split: if_splits)
  then show ?thesis
  proof cases
    case dir
    then show ?thesis by (auto simp: check_directory_def res_simps split: if_splits)
  next
    case one
    then obtain t where t: "fs_isfile fs (the (im_file opts))" "check_table (im_table opts) = Inr t" "im_db_tables opts = []"
      "check_csv_file opts (fs_realpath fs (the (im_file opts))) t = Inr plan
        \<or> check_json_file opts (fs_realpath fs (the (im_file opts))) t = Inr plan"
      by (auto simp: check_file_def res_simps refuse_all_ok Let_def split: if_splits)
    then show ?thesis using csv [of "fs_realpath fs (the (im_file opts))" t] json [of "fs_realpath fs (the (im_file opts))" t]
        table [OF t(2)] one(1) by auto
  qed
qed

definition one_file :: filesystem where
  "one_file = \<lparr>fs_isfile = (\<lambda>p. p = ''d.csv''), fs_isdir = (\<lambda>p. False), fs_exists = (\<lambda>p. p = ''d.csv''),
     fs_realpath = (\<lambda>p. CHR ''/'' # p), fs_read = (\<lambda>p. None)\<rparr>"

definition csv_options :: import_options where
  "csv_options = \<lparr>im_directory = None, im_file = Some ''d.csv'', im_table = Some ''a.b'', im_fields = None, im_format = None,
     im_create_args = [], im_delimiter = None, im_no_header = True, im_custom_header = Some ''x,y'', im_db_tables = [],
     im_no_indexes = False, im_max_document = 0\<rparr>"

theorem import_plan_checked_witness:
  "check_import one_file [] csv_options = Inr (FromCsv ''/d.csv'' (''a'', Some ''b'') None '','' True (Some [''x'', ''y'']))
   \<and> fs_isfile one_file (the (im_file csv_options)) \<and> is_name ''a'' \<and> is_name ''b''"
proof -
  have c: "check_import one_file [] csv_options = Inr (FromCsv ''/d.csv'' (''a'', Some ''b'') None '','' True (Some [''x'', ''y'']))"
    by code_simp
  show ?thesis using import_plan_checked [OF c] c by simp
qed

text \<open>What \<open>export\<close> then works with is in order: fields only for a single table by name, and always for
  CSV, which has a delimiter of one character; another format has none.\<close>

theorem export_plan_checked:
  assumes "check_export args opts = Inr (names, d)"
  shows "(given (ex_fields opts) \<longrightarrow> one_table (ex_db_tables opts) \<and> names = Some (split_on (CHR '','') (the (ex_fields opts))))
     \<and> (if ex_format opts = ''csv'' then names \<noteq> None \<and> (\<exists>c. d = Some [c]) else \<not> given d)"
proof -
  have delim: "\<exists>c. x = [c]" if "check_delimiter y = Inr x" for x y
    using that by (auto simp: check_delimiter_def length_Suc_conv split: option.splits if_splits)
  show ?thesis
    using assms
    by (auto simp: check_export_def res_simps refuse_all_ok Let_def split_commas_def given_def dest: delim split: if_splits)
qed

theorem export_plan_checked_witness:
  "one_table [(''a'', Some ''b'')] \<and> Some [''x'', ''y''] = Some (split_on (CHR '','') ''x,y'')"
proof -
  have "check_export [] \<lparr>ex_fields = Some ''x,y'', ex_format = ''csv'', ex_delimiter = None, ex_db_tables = [(''a'', Some ''b'')]\<rparr>
      = Inr (Some [''x'', ''y''], Some '','')" by code_simp
  from export_plan_checked [OF this] show ?thesis by (simp add: given_def)
qed

end
