(* ===== verification/JsonPrefix.thy ===== *)
theory JsonPrefix
  imports Json "HOL-Library.Sublist"
begin

text \<open>
  Reading a JSON value from the front of a text, \<open>JSONDecoder.raw_decode\<close>, when the text is the part
  of a file that has been read so far.  A value that ends in a bracket, a quote or a letter is found
  the same whatever follows it (\<open>raw_decode_extend\<close>) and not found when a part of it is missing
  (\<open>raw_decode_truncated\<close>); only a number can be cut short.
\<close>

definition raw_decode :: "string \<Rightarrow> json_error + (json \<times> string)" where
  "raw_decode s = parse_value (Suc (2 * length s)) s"

subsection \<open>What follows does not matter\<close>

definition numeric :: "char \<Rightarrow> bool" where
  "numeric c \<longleftrightarrow> is_digit c \<or> c = CHR ''.'' \<or> c = CHR ''e'' \<or> c = CHR ''E''"

definition stops :: "string \<Rightarrow> bool" where
  "stops r \<longleftrightarrow> r \<noteq> [] \<and> \<not> numeric (hd r)"

fun is_number :: "json \<Rightarrow> bool" where
  "is_number (JInt i) = True"
| "is_number (JFloat f) = True"
| "is_number j = False"

lemma span_append:
  "dropWhile P s \<noteq> [] \<Longrightarrow> takeWhile P (s @ t) = takeWhile P s \<and> dropWhile P (s @ t) = dropWhile P s @ t"
  by (induction s) auto

lemma skip_ws_append: "skip_ws s \<noteq> [] \<Longrightarrow> skip_ws (s @ t) = skip_ws s @ t"
  using span_append [of is_ws s t] by (simp add: skip_ws_def)

lemma starts_digit_prefix: "s \<noteq> [] \<Longrightarrow> starts_digit (s @ t) = starts_digit s"
  by (simp add: starts_digit_def)

lemma starts_with_prefix: "s \<noteq> [] \<Longrightarrow> starts_with c (s @ t) = starts_with c s"
  by (simp add: starts_with_def)

lemma starts_with_not_Nil: "starts_with c s \<Longrightarrow> s \<noteq> []"
  by (simp add: starts_with_def)

lemma int_part_extend: "int_part s = Some (i, r) \<Longrightarrow> r \<noteq> [] \<Longrightarrow> int_part (s @ t) = Some (i, r @ t)"
  using span_append [of is_digit s t]
  by (cases s) (auto simp: int_part_def starts_digit_def simp del: takeWhile.simps dropWhile.simps split: if_splits)

lemma frac_part_extend:
  assumes "frac_part s = (f, r)" "r \<noteq> []" "f = [] \<Longrightarrow> hd r \<noteq> CHR ''.''"
  shows "frac_part (s @ t) = (f, r @ t)"
  using assms span_append [of is_digit "tl s" t] starts_digit_prefix [of "tl s" t]
  by (cases s) (auto simp: frac_part_def starts_digit_def split: if_splits)

lemma exp_part_extend:
  assumes "exp_part s = (e, r)" "stops r"
  shows "exp_part (s @ t) = (e, r @ t)"
proof (cases "s \<noteq> [] \<and> (hd s = CHR ''e'' \<or> hd s = CHR ''E'')")
  case False
  then show ?thesis using assms by (auto simp: exp_part_def stops_def)
next
  case True
  define sg where "sg = (if tl s \<noteq> [] \<and> (hd (tl s) = CHR ''+'' \<or> hd (tl s) = CHR ''-'') then [hd (tl s)] else [])"
  let ?ds = "drop (length sg) (tl s)"
  have d: "starts_digit ?ds" using assms True
    by (auto simp: exp_part_def Let_def sg_def stops_def numeric_def split: if_splits)
  then have e: "e = hd s # sg @ takeWhile is_digit ?ds" "r = dropWhile is_digit ?ds"
    using assms(1) True by (auto simp: exp_part_def Let_def sg_def split: if_splits)
  have "?ds \<noteq> []" using d by (simp add: starts_digit_def)
  then have n: "tl s \<noteq> []" "length sg \<le> length (tl s)" by (cases "tl s"; simp add: sg_def)+
  have "(if tl (s @ t) \<noteq> [] \<and> (hd (tl (s @ t)) = CHR ''+'' \<or> hd (tl (s @ t)) = CHR ''-'') then [hd (tl (s @ t))] else [])
      = sg" using True n by (simp add: sg_def)
  moreover have "drop (length sg) (tl (s @ t)) = ?ds @ t" using True n by simp
  moreover have "starts_digit (?ds @ t)" using d by (simp add: starts_digit_def)
  moreover have "takeWhile is_digit (?ds @ t) = takeWhile is_digit ?ds" "dropWhile is_digit (?ds @ t) = r @ t"
    using span_append [of is_digit ?ds t] e(2) assms(2) by (auto simp: stops_def)
  ultimately show ?thesis using True e(1) by (simp add: exp_part_def Let_def)
qed

lemma parse_number_extend:
  assumes "parse_number s = Some (j, r)" "stops r"
  shows "parse_number (s @ t) = Some (j, r @ t)"
proof -
  have s: "s \<noteq> []" using parse_number_hd [OF assms(1)] by simp
  define neg where "neg = (hd s = CHR ''-'')"
  define u where "u = (if neg then tl s else s)"
  from assms(1) s obtain i r0 f r1 e where
    i: "int_part u = Some (i, r0)" and f: "frac_part r0 = (f, r1)" and e: "exp_part r1 = (e, r)"
    and j: "j = (if f = [] \<and> e = []
      then JInt (if neg then - int (read_digits 0 i) else int (read_digits 0 i))
      else JFloat ((if neg then ''-'' else []) @ i @ f @ e))"
    by (auto simp: parse_number_def Let_def neg_def u_def split: option.splits prod.splits if_splits)
  have r1: "r1 \<noteq> []" using exp_part_shorter [OF e] assms(2) by (auto simp: stops_def)
  have r0: "r0 \<noteq> []" using frac_part_shorter [OF f] r1 by auto
  have "hd r1 \<noteq> CHR ''.''"
    using e assms(2) by (auto simp: exp_part_def Let_def stops_def numeric_def split: if_splits)
  then have f': "frac_part (r0 @ t) = (f, r1 @ t)" using f r1 by (intro frac_part_extend) auto
  have "(if neg then tl (s @ t) else s @ t) = u @ t" using s by (simp add: u_def)
  moreover have "(s @ t \<noteq> [] \<and> hd (s @ t) = CHR ''-'') = neg" using s by (simp add: neg_def)
  ultimately show ?thesis
    using int_part_extend [OF i r0] f' exp_part_extend [OF e assms(2)]
    by (simp add: parse_number_def Let_def j)
qed

lemma parse_number_is_number: "parse_number s = Some (j, r) \<Longrightarrow> is_number j"
  by (auto simp: parse_number_def Let_def split: option.splits prod.splits if_splits)

lemma take_word: "take n s = w \<Longrightarrow> length w = n \<Longrightarrow> s = w @ drop n s"
  by (metis append_take_drop_id)

lemma parse_literal_words:
  "parse_literal (''null'' @ s) = Some (JNull, s)"
  "parse_literal (''true'' @ s) = Some (JBool True, s)"
  "parse_literal (''false'' @ s) = Some (JBool False, s)"
  "parse_literal (''NaN'' @ s) = Some (JFloat ''NaN'', s)"
  "parse_literal (''Infinity'' @ s) = Some (JFloat ''Infinity'', s)"
  "parse_literal (''-Infinity'' @ s) = Some (JFloat ''-Infinity'', s)"
  by (simp_all add: parse_literal_def parse_number_def int_part_def starts_digit_def is_digit_def code_point_def)

lemma literal_word:
  "w \<in> {''null'', ''true'', ''false'', ''NaN'', ''Infinity'', ''-Infinity''}
     \<Longrightarrow> \<exists>j. \<forall>s. parse_literal (w @ s) = Some (j, s)"
  using parse_literal_words by blast

lemma parse_literal_extend:
  assumes "parse_literal s = Some (j, r)" "is_number j \<Longrightarrow> stops r"
  shows "parse_literal (s @ t) = Some (j, r @ t)"
proof (cases "parse_number s")
  case (Some x)
  obtain j' r' where x: "parse_number s = Some (j', r')" using Some by (cases x) auto
  then have "j' = j" "r' = r" using parse_literal_number [OF x] assms(1) by auto
  then have "parse_number (s @ t) = Some (j, r @ t)"
    using parse_number_extend x parse_number_is_number [OF x] assms(2) by auto
  then show ?thesis by (rule parse_literal_number)
next
  case None
  have "take 4 s = ''null'' \<or> take 4 s = ''true'' \<or> take 5 s = ''false'' \<or> take 3 s = ''NaN''
      \<or> take 8 s = ''Infinity'' \<or> take 9 s = ''-Infinity''"
    using assms(1) None by (auto simp: parse_literal_def split: if_splits)
  then have "\<exists>w \<in> {''null'', ''true'', ''false'', ''NaN'', ''Infinity'', ''-Infinity''}. take (length w) s = w"
    by (simp add: eval_nat_numeral)
  then obtain w where w: "w \<in> {''null'', ''true'', ''false'', ''NaN'', ''Infinity'', ''-Infinity''}"
    "take (length w) s = w" by blast
  then have "s = w @ drop (length w) s" using take_word by blast
  moreover obtain jv where "\<forall>t. parse_literal (w @ t) = Some (jv, t)" using literal_word [OF w(1)] by blast
  ultimately show ?thesis using assms(1) by (metis append_assoc option.inject prod.inject)
qed

lemma hex4_short: "length s < 4 \<Longrightarrow> hex4 s = None"
  by (auto simp: hex4_def split: list.splits option.splits)

lemma parse_string_extend: "parse_string s = Inr (u, r) \<Longrightarrow> parse_string (s @ t) = Inr (u, r @ t)"
proof (induction s arbitrary: u r rule: parse_string.induct)
  case (1 s)
  show ?case
  proof (cases s)
    case Nil
    then show ?thesis using "1.prems" by (simp add: parse_string.simps)
  next
    case (Cons c s')
    note s = Cons
    show ?thesis
    proof (cases "c = CHR 0x22 \<or> code_point c < 32")
      case True
      with "1.prems" s show ?thesis
        by (auto simp: parse_string.simps [of "c # s'"] parse_string.simps [of "c # s' @ t"] split: if_splits)
    next
      case False
      then have c: "c \<noteq> CHR 0x22" "\<not> code_point c < 32" by auto
      show ?thesis
      proof (cases "c = CHR 0x5C")
        case False
        with "1.prems" s c obtain t' where "parse_string s' = Inr (t', r)" "u = c # t'"
          by (auto simp: parse_string.simps [of "c # s'"] res_simps)
        then show ?thesis using "1.IH"(1) [OF s c False, of t' r] s c False
          by (simp add: parse_string_eqs rmap_def res_simps)
      next
        case True
        then obtain e s'' where s': "s' = e # s''" using "1.prems" s c by (cases s') (auto simp: parse_string_eqs)
        show ?thesis
        proof (cases "e = CHR ''u''")
          case u: True
          with "1.prems" s s' c True obtain n t' where
            h: "hex4 (take 4 s'') = Some n" "n < 256" and p: "parse_string (drop 4 s'') = Inr (t', r)" "u = chr n # t'"
            by (auto simp: parse_string_eqs res_simps split: option.splits if_splits)
          have "4 \<le> length s''" using h(1) by (cases "4 \<le> length s''") (auto simp: hex4_short)
          then show ?thesis using "1.IH"(2) [OF s c _ s' u h p(1)] True h p(2) s s' u
            by (simp add: parse_string_eqs rmap_def res_simps)
        next
          case u: False
          with "1.prems" s s' c True obtain d t' where
            h: "unescape e = Some d" and p: "parse_string s'' = Inr (t', r)" "u = d # t'"
            by (auto simp: parse_string_eqs res_simps split: option.splits)
          from "1.IH"(3) [OF s c _ s' u h p(1)] show ?thesis using True h p(2) s s' u
            by (simp add: parse_string_eqs rmap_def res_simps)
        qed
      qed
    qed
  qed
qed

lemma skip_ws_cut: "skip_ws r = c # q \<Longrightarrow> \<not> numeric c \<Longrightarrow> stops r"
  by (cases r) (auto simp: skip_ws_def stops_def numeric_def is_ws_def is_digit_def code_point_def split: if_splits)

lemma starts_with_stops: "starts_with c (skip_ws r) \<Longrightarrow> \<not> numeric c \<Longrightarrow> stops r"
  by (cases "skip_ws r") (auto simp: starts_with_def dest: skip_ws_cut)

lemma tl_append: "s \<noteq> [] \<Longrightarrow> tl (s @ t) = tl s @ t"
  by (cases s) auto

lemma parse_mono_extend:
  "parse_value n s = Inr (j, r) \<Longrightarrow> (is_number j \<Longrightarrow> stops r) \<Longrightarrow> n \<le> m \<Longrightarrow> parse_value m (s @ t) = Inr (j, r @ t)"
  "parse_elems n s = Inr (js, r) \<Longrightarrow> n \<le> m \<Longrightarrow> parse_elems m (s @ t) = Inr (js, r @ t)"
  "parse_members n s = Inr (kvs, r) \<Longrightarrow> n \<le> m \<Longrightarrow> parse_members m (s @ t) = Inr (kvs, r @ t)"
proof (induction n s and n s and n s arbitrary: j r m and js r m and kvs r m
    rule: parse_value_parse_elems_parse_members.induct)
  case (2 n s)
  obtain m' where m: "m = Suc m'" "n \<le> m'" using "2.prems"(3) by (cases m) auto
  obtain c s' where s: "s = c # s'" using "2.prems"(1) by (cases s) auto
  consider (str) u where "c = CHR 0x22" "parse_string s' = Inr (u, r)" "j = JStr u"
    | (brace) "c = CHR ''{''" "starts_with (CHR ''}'') (skip_ws s')" "j = JObj []" "r = tl (skip_ws s')"
    | (mem) kvs where "c = CHR ''{''" "\<not> starts_with (CHR ''}'') (skip_ws s')"
        "parse_members n (skip_ws s') = Inr (kvs, r)" "j = JObj (dict_of kvs)"
    | (brack) "c = CHR ''[''" "starts_with (CHR '']'') (skip_ws s')" "j = JArr []" "r = tl (skip_ws s')"
    | (elem) js where "c = CHR ''[''" "\<not> starts_with (CHR '']'') (skip_ws s')"
        "parse_elems n (skip_ws s') = Inr (js, r)" "j = JArr js"
    | (lit) "c \<noteq> CHR 0x22" "c \<noteq> CHR ''{''" "c \<noteq> CHR ''[''" "parse_literal s = Some (j, r)"
    using "2.prems"(1) s by (auto simp: Let_def res_simps split: if_splits option.splits)
  then show ?case
  proof cases
    case str
    then show ?thesis using parse_string_extend [of s' u r t] by (simp add: s m rmap_def res_simps)
  next
    case brace
    then have "skip_ws s' \<noteq> []" by (simp add: starts_with_def)
    then show ?thesis using brace skip_ws_append [of s' t]
      by (simp add: s m starts_with_prefix tl_append)
  next
    case mem
    have ne: "skip_ws s' \<noteq> []" using mem(3) by (cases n) (auto simp: starts_with_def)
    have "parse_members m' (skip_ws s' @ t) = Inr (kvs, r @ t)"
      using "2.IH"(1) [of "skip_ws s'" kvs r m'] mem s m(2) by auto
    then show ?thesis using mem ne skip_ws_append [OF ne, of t]
      by (simp add: s m(1) starts_with_prefix rmap_def res_simps)
  next
    case brack
    then have "skip_ws s' \<noteq> []" by (simp add: starts_with_def)
    then show ?thesis using brack skip_ws_append [of s' t]
      by (simp add: s m starts_with_prefix tl_append)
  next
    case elem
    have ne: "skip_ws s' \<noteq> []"
      using elem(3) parse_shorter(2) [OF elem(3)] by auto
    have "parse_elems m' (skip_ws s' @ t) = Inr (js, r @ t)"
      using "2.IH"(2) [of "skip_ws s'" js r m'] elem s m(2) by auto
    then show ?thesis using elem ne skip_ws_append [OF ne, of t]
      by (simp add: s m(1) starts_with_prefix rmap_def res_simps)
  next
    case lit
    then show ?thesis using parse_literal_extend [OF lit(4) "2.prems"(2), of t] by (simp add: s m(1))
  qed
next
  case (4 n s)
  obtain m' where m: "m = Suc m'" "n \<le> m'" using "4.prems"(2) by (cases m) auto
  obtain x r1 where x: "parse_value n s = Inr (x, r1)"
    and rest: "starts_with (CHR '']'') (skip_ws r1) \<and> js = [x] \<and> r = tl (skip_ws r1)
      \<or> (\<exists>xs. starts_with (CHR '','') (skip_ws r1) \<and> \<not> starts_with (CHR '']'') (skip_ws r1)
      \<and> parse_elems n (skip_ws (tl (skip_ws r1))) = Inr (xs, r) \<and> js = x # xs)"
    using "4.prems"(1) by (auto simp: Let_def res_simps split: if_splits)
  have st: "stops r1"
    using rest starts_with_stops [of "CHR '']''" r1] starts_with_stops [of "CHR '',''" r1]
    by (auto simp: numeric_def is_digit_def code_point_def)
  have 1: "parse_value m' (s @ t) = Inr (x, r1 @ t)" using "4.IH"(1) [OF x] st m(2) by blast
  have ne: "skip_ws r1 \<noteq> []" using rest by (auto simp: starts_with_def)
  note sk = skip_ws_append [OF ne, of t]
  from rest show ?case
  proof (elim disjE exE conjE)
    assume "starts_with (CHR '']'') (skip_ws r1)" "js = [x]" "r = tl (skip_ws r1)"
    then show ?thesis using 1 sk ne by (simp add: m(1) res_simps starts_with_prefix tl_append)
  next
    fix xs assume c: "starts_with (CHR '','') (skip_ws r1)" "\<not> starts_with (CHR '']'') (skip_ws r1)"
      and e: "parse_elems n (skip_ws (tl (skip_ws r1))) = Inr (xs, r)" and js: "js = x # xs"
    have "parse_elems m' (skip_ws (tl (skip_ws r1)) @ t) = Inr (xs, r @ t)"
      using "4.IH"(2) [of "(x, r1)" x r1 "skip_ws r1" xs r m'] x c e m(2) by auto
    moreover have "skip_ws (tl (skip_ws r1)) \<noteq> []" using parse_shorter(2) [OF e] by auto
    from skip_ws_append [OF this, of t] have "skip_ws (tl (skip_ws r1) @ t) = skip_ws (tl (skip_ws r1)) @ t" .
    ultimately show ?thesis using 1 sk ne c js
      by (simp add: m(1) res_simps rmap_def starts_with_prefix tl_append)
  qed
next
  case (6 n s)
  obtain m' where m: "m = Suc m'" "n \<le> m'" using "6.prems"(2) by (cases m) auto
  from "6.prems"(1) obtain k r0 x r1 where k: "parse_string (tl s) = Inr (k, r0)"
    and c: "starts_with (CHR 0x22) s" "starts_with (CHR '':'') (skip_ws r0)"
    and x: "parse_value n (skip_ws (tl (skip_ws r0))) = Inr (x, r1)"
    and rest: "starts_with (CHR ''}'') (skip_ws r1) \<and> kvs = [(k, x)] \<and> r = tl (skip_ws r1)
      \<or> (\<exists>xs. starts_with (CHR '','') (skip_ws r1) \<and> \<not> starts_with (CHR ''}'') (skip_ws r1)
      \<and> parse_members n (skip_ws (tl (skip_ws r1))) = Inr (xs, r) \<and> kvs = (k, x) # xs)"
    by (auto simp: Let_def res_simps split: if_splits)
  have st: "stops r1"
    using rest starts_with_stops [of "CHR ''}''" r1] starts_with_stops [of "CHR '',''" r1]
    by (auto simp: numeric_def is_digit_def code_point_def)
  have ne0: "skip_ws r0 \<noteq> []" using c(2) by (auto simp: starts_with_def)
  have nev: "skip_ws (tl (skip_ws r0)) \<noteq> []" using parse_shorter(1) [OF x] by auto
  have s: "s \<noteq> []" using c(1) by (auto simp: starts_with_def)
  have 0: "parse_string (tl (s @ t)) = Inr (k, r0 @ t)" using parse_string_extend [OF k, of t] s by (simp add: tl_append)
  have 1: "parse_value m' (skip_ws (tl (skip_ws r0)) @ t) = Inr (x, r1 @ t)"
    using "6.IH"(1) [of "(k, r0)" k r0 x r1 m'] k c x st m(2) by auto
  have ne: "skip_ws r1 \<noteq> []" using rest by (auto simp: starts_with_def)
  note sk = skip_ws_append [OF ne, of t] skip_ws_append [OF ne0, of t] skip_ws_append [OF nev, of t]
  have v: "skip_ws (tl (skip_ws (r0 @ t))) = skip_ws (tl (skip_ws r0)) @ t" using sk ne0 by (simp add: tl_append)
  have unfold: "parse_members m (s @ t) = (let q = skip_ws (r1 @ t) in
          if starts_with (CHR ''}'') q then Inr ([(k, x)], tl q)
          else if starts_with (CHR '','') q
          then rmap (\<lambda>(kvs, q'). ((k, x) # kvs, q')) (parse_members m' (skip_ws (tl q)))
          else Inl Malformed)"
    using 0 1 c s ne0 sk(2) v by (simp add: m(1) res_simps starts_with_prefix)
  from rest show ?case
  proof (elim disjE exE conjE)
    assume "starts_with (CHR ''}'') (skip_ws r1)" "kvs = [(k, x)]" "r = tl (skip_ws r1)"
    then show ?thesis using sk(1) ne unfolding unfold by (simp add: starts_with_prefix tl_append)
  next
    fix xs assume c1: "starts_with (CHR '','') (skip_ws r1)" "\<not> starts_with (CHR ''}'') (skip_ws r1)"
      and e: "parse_members n (skip_ws (tl (skip_ws r1))) = Inr (xs, r)" and kvs: "kvs = (k, x) # xs"
    have "parse_members m' (skip_ws (tl (skip_ws r1)) @ t) = Inr (xs, r @ t)"
      using "6.IH"(2) [of "(k, r0)" k r0 "(x, r1)" x r1 "skip_ws r1" xs r m'] k c x c1 e m(2) by auto
    moreover have "skip_ws (tl (skip_ws r1)) \<noteq> []" using parse_shorter(3) [OF e] by auto
    from skip_ws_append [OF this, of t] have "skip_ws (tl (skip_ws r1) @ t) = skip_ws (tl (skip_ws r1)) @ t" .
    ultimately show ?thesis using sk(1) ne c1 kvs unfolding unfold
      by (simp add: res_simps rmap_def starts_with_prefix tl_append)
  qed
qed simp_all

lemma raw_decode_shorter: "raw_decode s = Inr (j, r) \<Longrightarrow> length r < length s"
  unfolding raw_decode_def by (rule parse_shorter(1))

lemma raw_decode_extend:
  "raw_decode s = Inr (j, r) \<Longrightarrow> (is_number j \<Longrightarrow> stops r) \<Longrightarrow> raw_decode (s @ t) = Inr (j, r @ t)"
  unfolding raw_decode_def by (erule parse_mono_extend(1)) (auto simp del: parse_value.simps)

text \<open>A value that is not a number ends where it ends: less of the text holds no value.\<close>

lemma parse_literal_number_head:
  "parse_literal s = Some (j, r) \<Longrightarrow> is_number j
     \<Longrightarrow> s \<noteq> [] \<and> (is_digit (hd s) \<or> hd s = CHR ''-'' \<or> hd s = CHR ''N'' \<or> hd s = CHR ''I'')"
  by (cases s) (auto simp: parse_literal_def dest: parse_number_hd split: if_splits option.splits)

lemma parse_value_number_head:
  "parse_value n s = Inr (j, r) \<Longrightarrow> is_number j
     \<Longrightarrow> s \<noteq> [] \<and> (is_digit (hd s) \<or> hd s = CHR ''-'' \<or> hd s = CHR ''N'' \<or> hd s = CHR ''I'')"
  by (cases n) (auto simp: Let_def res_simps dest: parse_literal_number_head split: if_splits option.splits)

definition number_head :: "char \<Rightarrow> bool" where
  "number_head c \<longleftrightarrow> is_digit c \<or> c = CHR ''-'' \<or> c = CHR ''N'' \<or> c = CHR ''I''"

lemma raw_decode_number_head: "raw_decode s = Inr (j, r) \<Longrightarrow> is_number j \<Longrightarrow> s \<noteq> [] \<and> number_head (hd s)"
  unfolding raw_decode_def number_head_def by (drule (1) parse_value_number_head) auto

lemma raw_decode_truncated:
  assumes "raw_decode (s @ t) = Inr (j, r)" "length r < length t" "s \<noteq> []" "\<not> number_head (hd s)"
  shows "\<exists>e. raw_decode s = Inl e"
proof (cases "raw_decode s")
  case (Inr x)
  obtain j' r' where x: "raw_decode s = Inr (j', r')" using Inr by (cases x) auto
  have "\<not> is_number j'" using raw_decode_number_head [OF x] assms(4) by auto
  then have "raw_decode (s @ t) = Inr (j', r' @ t)" using raw_decode_extend [OF x] by blast
  then show ?thesis using assms(1,2) by simp
qed simp

lemma raw_decode_text:
  "wf_json j \<Longrightarrow> (is_number j \<Longrightarrow> ends_value r) \<Longrightarrow> raw_decode (json_text j @ r) = Inr (j, r)"
proof (cases "is_number j")
  case False
  assume "wf_json j"
  then have "raw_decode (json_text j) = Inr (j, [])"
    using parse_value_text [of j "[]" "Suc (2 * length (json_text j))"] by (simp add: raw_decode_def ends_value_def)
  from raw_decode_extend [OF this, of r] False show "raw_decode (json_text j @ r) = Inr (j, r)" by simp
next
  case True
  assume "wf_json j" "is_number j \<Longrightarrow> ends_value r"
  then show "raw_decode (json_text j @ r) = Inr (j, r)"
    using True parse_value_text [of j r] unfolding raw_decode_def
    by (simp del: parse_value.simps json_text.simps)
qed

subsection \<open>What is left is the end of the text\<close>

lemma suffix_skip_ws: "suffix (skip_ws s) s"
  by (simp add: skip_ws_def suffix_dropWhile)

lemma suffix_skip_tl: "suffix (skip_ws (tl (skip_ws s))) s"
  using suffix_skip_ws [of s] suffix_tl [of "skip_ws s"] suffix_skip_ws [of "tl (skip_ws s)"]
  by (blast intro: suffix_order.trans)

lemma suffix_tl_skip: "suffix (tl (skip_ws s)) s"
  using suffix_skip_ws suffix_tl by (blast intro: suffix_order.trans)

lemma parse_string_suffix: "parse_string s = Inr (t, r) \<Longrightarrow> suffix r s"
proof (induction s arbitrary: t r rule: parse_string.induct)
  case (1 s)
  obtain c s' where s: "s = c # s'" using "1.prems" by (cases s) (auto simp: parse_string_eqs)
  consider "c = CHR 0x22" | "c \<noteq> CHR 0x22" "code_point c < 32"
    | (plain) "c \<noteq> CHR 0x22" "\<not> code_point c < 32" "c \<noteq> CHR 0x5C"
    | (esc) "c \<noteq> CHR 0x22" "\<not> code_point c < 32" "c = CHR 0x5C" by blast
  then show ?case
  proof cases
    case plain
    with "1.prems" s obtain t' where "parse_string s' = Inr (t', r)"
      by (auto simp: parse_string.simps [of "c # s'"] res_simps)
    from "1.IH"(1) [OF s plain this] show ?thesis using s by (simp add: suffix_ConsI)
  next
    case esc
    then obtain e s'' where s': "s' = e # s''"
      using "1.prems" s by (cases s') (auto simp: parse_string_eqs)
    have "\<exists>t' u. parse_string u = Inr (t', r) \<and> suffix r u \<and> suffix u s''"
    proof (cases "e = CHR ''u''")
      case True
      with "1.prems" s s' esc obtain n t' where
        h: "hex4 (take 4 s'') = Some n" "n < 256" and p: "parse_string (drop 4 s'') = Inr (t', r)"
        by (auto simp: parse_string_eqs res_simps split: option.splits if_splits)
      from "1.IH"(2) [OF s esc(1,2) _ s' True h p] esc(3) have "suffix r (drop 4 s'')" by simp
      then show ?thesis using p suffix_drop by blast
    next
      case False
      with "1.prems" s s' esc obtain d t' where
        h: "unescape e = Some d" and p: "parse_string s'' = Inr (t', r)"
        by (auto simp: parse_string_eqs res_simps split: option.splits)
      from "1.IH"(3) [OF s esc(1,2) _ s' False h p] esc(3) show ?thesis using p by auto
    qed
    then show ?thesis using s s' by (blast intro: suffix_ConsI suffix_order.trans)
  qed (use "1.prems" s in \<open>simp_all add: parse_string_eqs parse_string.simps [of "c # s'"] suffix_ConsI\<close>)
qed

lemma parse_number_suffix: "parse_number s = Some (j, r) \<Longrightarrow> suffix r s"
proof -
  have tl: "suffix (tl u) u" and dr: "suffix (drop n u) u" and dw: "suffix (dropWhile P u) u" for u :: string and n P
    by (simp_all add: suffix_tl suffix_drop suffix_dropWhile)
  have i: "int_part u = Some (i, q) \<Longrightarrow> suffix q u" for u i q
    by (auto simp: int_part_def suffix_tl suffix_dropWhile split: if_splits)
  have f: "frac_part u = (i, q) \<Longrightarrow> suffix q u" for u i q
    using tl dw by (fastforce simp: frac_part_def intro: suffix_order.trans split: if_splits)
  have e: "exp_part u = (i, q) \<Longrightarrow> suffix q u" for u i q
    using suffix_order.trans [OF dw suffix_order.trans [OF dr tl [of u]]] suffix_order.trans [OF dw tl [of u]]
    by (auto simp: exp_part_def Let_def split: if_splits)
  assume "parse_number s = Some (j, r)"
  then obtain i q f' q' e' where "int_part (if s \<noteq> [] \<and> hd s = CHR ''-'' then tl s else s) = Some (i, q)"
    "frac_part q = (f', q')" "exp_part q' = (e', r)"
    by (auto simp: parse_number_def Let_def split: option.splits prod.splits)
  then have "suffix q (if s \<noteq> [] \<and> hd s = CHR ''-'' then tl s else s)" "suffix q' q" "suffix r q'"
    using i f e by blast+
  then have "suffix r (if s \<noteq> [] \<and> hd s = CHR ''-'' then tl s else s)" by (blast intro: suffix_order.trans)
  then show "suffix r s" using tl [of s] suffix_order.trans [OF _ tl [of s]] by (simp split: if_splits)
qed

lemma parse_literal_suffix: "parse_literal s = Some (j, r) \<Longrightarrow> suffix r s"
  by (auto simp: parse_literal_def suffix_drop dest: parse_number_suffix split: if_splits option.splits)

lemma parse_suffix:
  "parse_value n s = Inr (j, r) \<Longrightarrow> suffix r s"
  "parse_elems n s = Inr (js, r) \<Longrightarrow> suffix r s"
  "parse_members n s = Inr (kvs, r) \<Longrightarrow> suffix r s"
proof (induction n s and n s and n s arbitrary: j r and js r and kvs r
    rule: parse_value_parse_elems_parse_members.induct)
  case (2 n s)
  let ?q = "skip_ws (tl s)"
  have q: "suffix (tl s) s" "suffix ?q s" "suffix (tl ?q) s"
    using suffix_tl [of s] suffix_skip_ws [of "tl s"] suffix_tl [of ?q] by (blast intro: suffix_order.trans)+
  consider (str) t where "parse_string (tl s) = Inr (t, r)"
    | (brace) "r = tl ?q"
    | (mem) kvs where "s \<noteq> []" "parse_members n ?q = Inr (kvs, r)" "hd s = CHR ''{''" "\<not> starts_with (CHR ''}'') ?q"
    | (elem) js where "s \<noteq> []" "parse_elems n ?q = Inr (js, r)" "hd s = CHR ''[''" "\<not> starts_with (CHR '']'') ?q"
    | (lit) j where "parse_literal s = Some (j, r)"
    using "2.prems" by (auto simp: Let_def res_simps split: if_splits option.splits)
  then show ?case
  proof cases
    case str
    then show ?thesis using parse_string_suffix q(1) by (blast intro: suffix_order.trans)
  next
    case mem
    then have "suffix r ?q" using "2.IH"(1) by auto
    then show ?thesis using q(2) by (rule suffix_order.trans)
  next
    case elem
    then have "suffix r ?q" using "2.IH"(2) by auto
    then show ?thesis using q(2) by (rule suffix_order.trans)
  qed (use q(3) parse_literal_suffix in blast)+
next
  case (4 n s)
  from "4.prems" obtain x r1 where x: "parse_value n s = Inr (x, r1)"
    and rest: "r = tl (skip_ws r1) \<or> (\<exists>xs. starts_with (CHR '','') (skip_ws r1)
      \<and> \<not> starts_with (CHR '']'') (skip_ws r1)
      \<and> parse_elems n (skip_ws (tl (skip_ws r1))) = Inr (xs, r))"
    by (auto simp: Let_def res_simps split: if_splits)
  have "suffix r r1"
    using rest "4.IH"(2) [OF x] suffix_tl_skip [of r1] suffix_skip_tl [of r1] by (blast intro: suffix_order.trans)
  then show ?case using "4.IH"(1) [OF x] by (rule suffix_order.trans)
next
  case (6 n s)
  from "6.prems" obtain k r0 x r1 where k: "parse_string (tl s) = Inr (k, r0)"
    and c: "starts_with (CHR 0x22) s" "starts_with (CHR '':'') (skip_ws r0)"
    and x: "parse_value n (skip_ws (tl (skip_ws r0))) = Inr (x, r1)"
    and rest: "r = tl (skip_ws r1) \<or> (\<exists>xs. starts_with (CHR '','') (skip_ws r1)
      \<and> \<not> starts_with (CHR ''}'') (skip_ws r1)
      \<and> parse_members n (skip_ws (tl (skip_ws r1))) = Inr (xs, r))"
    by (auto simp: Let_def res_simps starts_with_def split: if_splits)
  have "suffix r r1"
    using rest "6.IH"(2) [OF _ k _ _ x] c suffix_tl_skip [of r1] suffix_skip_tl [of r1]
    by (blast intro: suffix_order.trans)
  moreover have "suffix r1 r0"
    using "6.IH"(1) [OF _ k] c x suffix_skip_tl [of r0] by (blast intro: suffix_order.trans)
  moreover have "suffix r0 s"
    using parse_string_suffix [OF k] suffix_tl [of s] by (rule suffix_order.trans)
  ultimately show ?case by (blast intro: suffix_order.trans)
qed simp_all

lemma raw_decode_suffix: "raw_decode s = Inr (j, r) \<Longrightarrow> \<exists>p. s = p @ r"
  unfolding raw_decode_def by (drule parse_suffix(1)) (auto simp: suffix_def)

end
