(* ===== verification/SourceFile.thy ===== *)
theory SourceFile
  imports JsonPrefix Terms
begin

text \<open>
  The loop that every import file shares, \<open>SourceFile.batches\<close> of \<open>rethinkdb/_import.py\<close>: rows are
  taken from \<open>get_line\<close>, which may ask for more of the file to be read by \<open>fill_buffer\<close>, and handed
  out in batches.  What the subclasses provide is the locale \<open>row_source\<close>.
\<close>

subsection \<open>The loop\<close>

text \<open>The two exceptions that steer the loop, and all others.\<close>

datatype stop = NeedMoreData | StopIteration | Raises error

type_synonym ('s, 'a) file_io = "('s, stop, 'a) comp"


text \<open>How a generator ends: exhausted, or with an exception.\<close>

datatype ending = Exhausted | Broken error | Unfinished

text \<open>A \<open>StopIteration\<close> that leaves a generator becomes a \<open>RuntimeError\<close>.\<close>

fun escaped :: "stop \<Rightarrow> error" where
  "escaped NeedMoreData = py_exc PyException ''''"
| "escaped StopIteration = py_exc PyRuntimeError ''generator raised StopIteration''"
| "escaped (Raises e) = e"

text \<open>The loop, with the rows of the batch that is not full yet.\<close>

definition end_reading :: "stop \<Rightarrow> 'r list \<Rightarrow> 's \<Rightarrow> 'r list list \<times> ending \<times> 's" where
  "end_reading e batch s =
     (case e of StopIteration \<Rightarrow> (if batch = [] then [] else [batch], Exhausted, s)
      | _ \<Rightarrow> ([], Broken (escaped e), s))"

fun read_batches :: "nat \<Rightarrow> ('s, 'r) file_io \<Rightarrow> ('s, unit) file_io \<Rightarrow> nat \<Rightarrow> 'r list \<Rightarrow> 's
    \<Rightarrow> 'r list list \<times> ending \<times> 's" where
  "read_batches 0 get fill n batch s = ([], Unfinished, s)"
| "read_batches (Suc k) get fill n batch s =
     (case get s of
        (Inr row, s') \<Rightarrow>
          if Suc (length batch) < n then read_batches k get fill n (batch @ [row]) s'
          else (case read_batches k get fill n [] s' of (bs, x) \<Rightarrow> ((batch @ [row]) # bs, x))
      | (Inl NeedMoreData, s') \<Rightarrow>
          (case fill s' of
             (Inr _, s'') \<Rightarrow> read_batches k get fill n batch s''
           | (Inl e, s'') \<Rightarrow> end_reading e batch s'')
      | (Inl e, s') \<Rightarrow> end_reading e batch s')"

text \<open>\<open>batches\<close>, after the table has been set up and before indexes are restored.\<close>

definition batches :: "nat \<Rightarrow> ('s, unit) file_io \<Rightarrow> ('s, 'r) file_io \<Rightarrow> ('s, unit) file_io \<Rightarrow> ('s, unit) file_io
    \<Rightarrow> int \<Rightarrow> 's \<Rightarrow> 'r list list \<times> ending \<times> 's" where
  "batches fuel setup get fill teardown n s =
     (if n \<le> 0 then ([], Broken (py_exc PyAssertionError ''Batch size can not be less than one''), s)
      else case setup s of
        (Inl e, s') \<Rightarrow> ([], Broken (escaped e), s')
      | (Inr _, s') \<Rightarrow>
          (case read_batches fuel get fill (nat n) [] s' of
             (bs, Exhausted, s'') \<Rightarrow>
               (case teardown s'' of
                  (Inr _, s3) \<Rightarrow> (bs, Exhausted, s3)
                | (Inl e, s3) \<Rightarrow> (bs, Broken (escaped e), s3))
           | x \<Rightarrow> x))"

subsection \<open>What the loop does\<close>

text \<open>All the rows of a source, with how it ends: the loop without its batches.\<close>

inductive rows_of :: "('s, 'r) file_io \<Rightarrow> ('s, unit) file_io \<Rightarrow> 's \<Rightarrow> 'r list \<Rightarrow> stop \<Rightarrow> 's \<Rightarrow> bool"
  for get fill where
  row: "get s = (Inr r, s1) \<Longrightarrow> rows_of get fill s1 rs e s2 \<Longrightarrow> rows_of get fill s (r # rs) e s2"
| more: "get s = (Inl NeedMoreData, s1) \<Longrightarrow> fill s1 = (Inr u, s2) \<Longrightarrow> rows_of get fill s2 rs e s3
    \<Longrightarrow> rows_of get fill s rs e s3"
| no_more: "get s = (Inl NeedMoreData, s1) \<Longrightarrow> fill s1 = (Inl e, s2) \<Longrightarrow> rows_of get fill s [] e s2"
| ends: "get s = (Inl e, s1) \<Longrightarrow> e \<noteq> NeedMoreData \<Longrightarrow> rows_of get fill s [] e s1"

fun full_batches :: "nat \<Rightarrow> 'r list \<Rightarrow> 'r list \<Rightarrow> 'r list list \<times> 'r list" where
  "full_batches n batch [] = ([], batch)"
| "full_batches n batch (r # rs) =
     (if Suc (length batch) < n then full_batches n (batch @ [r]) rs
      else (case full_batches n [] rs of (bs, x) \<Rightarrow> ((batch @ [r]) # bs, x)))"

definition in_batches :: "nat \<Rightarrow> 'r list \<Rightarrow> 'r list list" where
  "in_batches n rs = (case full_batches n [] rs of (bs, x) \<Rightarrow> bs @ (if x = [] then [] else [x]))"

lemma full_batches_concat: "full_batches n batch rs = (bs, x) \<Longrightarrow> concat bs @ x = batch @ rs"
  by (induction n batch rs arbitrary: bs x rule: full_batches.induct) (auto split: if_splits prod.splits)

lemma full_batches_length:
  "full_batches n batch rs = (bs, x) \<Longrightarrow> length batch < n \<Longrightarrow> list_all (\<lambda>b. length b = n) bs \<and> length x < n"
proof (induction n batch rs arbitrary: bs x rule: full_batches.induct)
  case (2 n batch r rs)
  show ?case
  proof (cases "Suc (length batch) < n")
    case True
    then show ?thesis using "2.IH"(1) [OF True, of bs x] "2.prems" by simp
  next
    case False
    obtain bs' where f: "full_batches n [] rs = (bs', x)" "bs = (batch @ [r]) # bs'"
      using "2.prems"(1) False by (auto split: prod.splits)
    then show ?thesis using "2.IH"(2) [OF False, of bs' x] "2.prems"(2) False by simp
  qed
qed simp

text \<open>The batches hold all rows in order; all have \<open>n\<close> rows, the last one at least one.\<close>

lemma in_batches_concat: "concat (in_batches n rs) = rs"
  using full_batches_concat [of n "[]" rs] by (auto simp: in_batches_def split: prod.splits)

lemma in_batches_length:
  assumes "0 < n" "b \<in> set (in_batches n rs)"
  shows "0 < length b \<and> length b \<le> n"
proof -
  obtain bs x where f: "full_batches n [] rs = (bs, x)" by (cases "full_batches n [] rs")
  have l: "b' \<in> set bs \<Longrightarrow> length b' = n" "length x < n" for b'
    using full_batches_length [OF f] assms(1) by (simp_all add: list_all_iff)
  have "b \<in> set bs \<or> b = x \<and> x \<noteq> []" using assms(2) f by (simp add: in_batches_def split: if_splits)
  then show ?thesis using l(1) [of b] l(2) assms(1) by auto
qed

lemma in_batches_full:
  assumes "0 < n" "i + 1 < length (in_batches n rs)"
  shows "length (in_batches n rs ! i) = n"
proof -
  obtain bs x where f: "full_batches n [] rs = (bs, x)" by (cases "full_batches n [] rs")
  have "list_all (\<lambda>b. length b = n) bs" using full_batches_length [OF f] assms(1) by simp
  then show ?thesis using assms(2) f by (auto simp: in_batches_def nth_append list_all_length split: if_splits)
qed

lemma read_batches_rows:
  assumes "rows_of get fill s rs e s'"
  shows "\<exists>k0 :: nat. \<forall>k \<ge> k0. read_batches k get fill n batch s
     = (case full_batches n batch rs of (bs, x) \<Rightarrow>
          (case end_reading e x s' of (bs', y) \<Rightarrow> (bs @ bs', y)))"
  using assms
proof (induction arbitrary: batch)
  case (row s r s1 rs e s2)
  let ?b = "if Suc (length batch) < n then batch @ [r] else []"
  obtain k0 where k0: "\<forall>k \<ge> k0. read_batches k get fill n ?b s1
     = (case full_batches n ?b rs of (bs, x) \<Rightarrow> (case end_reading e x s2 of (bs', y) \<Rightarrow> (bs @ bs', y)))"
    using row.IH by blast
  show ?case
  proof (intro exI [of _ "Suc k0"] allI impI)
    fix k :: nat assume "Suc k0 \<le> k"
    then obtain k' where "k = Suc k'" "k0 \<le> k'" by (cases k) auto
    then show "read_batches k get fill n batch s = (case full_batches n batch (r # rs) of (bs, x) \<Rightarrow>
          (case end_reading e x s2 of (bs', y) \<Rightarrow> (bs @ bs', y)))"
      using row.hyps(1) k0 [rule_format, of k'] by (auto split: prod.splits)
  qed
next
  case (more s s1 u s2 rs e s3)
  obtain k0 where k0: "\<forall>k \<ge> k0. read_batches k get fill n batch s2
     = (case full_batches n batch rs of (bs, x) \<Rightarrow> (case end_reading e x s3 of (bs', y) \<Rightarrow> (bs @ bs', y)))"
    using more.IH by blast
  show ?case
  proof (intro exI [of _ "Suc k0"] allI impI)
    fix k :: nat assume "Suc k0 \<le> k"
    then obtain k' where "k = Suc k'" "k0 \<le> k'" by (cases k) auto
    then show "read_batches k get fill n batch s = (case full_batches n batch rs of (bs, x) \<Rightarrow>
          (case end_reading e x s3 of (bs', y) \<Rightarrow> (bs @ bs', y)))"
      using more.hyps(1,2) k0 by simp
  qed
next
  case (no_more s s1 e s2)
  show ?case
  proof (intro exI [of _ 1] allI impI)
    fix k :: nat assume "1 \<le> k"
    then obtain k' where "k = Suc k'" by (cases k) auto
    then show "read_batches k get fill n batch s = (case full_batches n batch [] of (bs, x) \<Rightarrow>
          (case end_reading e x s2 of (bs', y) \<Rightarrow> (bs @ bs', y)))"
      using no_more by simp
  qed
next
  case (ends s e s1)
  show ?case
  proof (intro exI [of _ 1] allI impI)
    fix k :: nat assume "1 \<le> k"
    then obtain k' where "k = Suc k'" by (cases k) auto
    then show "read_batches k get fill n batch s = (case full_batches n batch [] of (bs, x) \<Rightarrow>
          (case end_reading e x s1 of (bs', y) \<Rightarrow> (bs @ bs', y)))"
      using ends by (cases e) auto
  qed
qed

text \<open>Conversely, a run of the loop that ends is a reading of the source.\<close>

lemma rows_of_read_batches:
  "read_batches k get fill n batch s = (bs, x, s') \<Longrightarrow> x \<noteq> Unfinished
     \<Longrightarrow> \<exists>rs e. rows_of get fill s rs e s'
        \<and> (bs, x, s') = (case full_batches n batch rs of (bs, b) \<Rightarrow>
            (case end_reading e b s' of (bs', y) \<Rightarrow> (bs @ bs', y)))"
proof (induction k arbitrary: batch s bs x s')
  case (Suc k)
  note eq = Suc.prems(1) [unfolded read_batches.simps]
  obtain r s1 where g: "get s = (r, s1)" by (cases "get s")
  show ?case
  proof (cases r)
    case (Inr row)
    show ?thesis
    proof (cases "Suc (length batch) < n")
      case True
      then have "read_batches k get fill n (batch @ [row]) s1 = (bs, x, s')" using eq g Inr by simp
      from Suc.IH [OF this Suc.prems(2)] obtain rs e where "rows_of get fill s1 rs e s'"
        "(bs, x, s') = (case full_batches n (batch @ [row]) rs of (bs, b) \<Rightarrow>
            (case end_reading e b s' of (bs', y) \<Rightarrow> (bs @ bs', y)))" by blast
      then show ?thesis using True rows_of.row [of get s row s1 fill rs e s'] g Inr
        by (intro exI [of _ "row # rs"] exI [of _ e]) simp
    next
      case False
      obtain bs1 where b1: "read_batches k get fill n [] s1 = (bs1, x, s')" "bs = (batch @ [row]) # bs1"
        using eq g Inr False by (auto split: prod.splits)
      from Suc.IH [OF this(1) Suc.prems(2)] obtain rs e where "rows_of get fill s1 rs e s'"
        "(bs1, x, s') = (case full_batches n [] rs of (bs, b) \<Rightarrow>
            (case end_reading e b s' of (bs', y) \<Rightarrow> (bs @ bs', y)))" by blast
      then show ?thesis using False rows_of.row [of get s row s1 fill rs e s'] g Inr b1(2)
        by (intro exI [of _ "row # rs"] exI [of _ e]) (auto split: prod.splits)
    qed
  next
    case (Inl e)
    show ?thesis
    proof (cases "e = NeedMoreData")
      case False
      then have "(bs, x, s') = end_reading e batch s1" using eq g Inl by (cases e) auto
      moreover have "s' = s1" using calculation by (auto simp: end_reading_def split: stop.splits)
      ultimately show ?thesis using rows_of.ends [of get s e s1 fill] g Inl False
        by (intro exI [of _ "[]"] exI [of _ e]) (auto split: prod.splits)
    next
      case True
      obtain q s2 where f: "fill s1 = (q, s2)" by (cases "fill s1")
      show ?thesis
      proof (cases q)
        case (Inl e')
        then have "(bs, x, s') = end_reading e' batch s2" using eq g \<open>r = Inl e\<close> True f by simp
        moreover have "s' = s2" using calculation by (auto simp: end_reading_def split: stop.splits)
        ultimately show ?thesis using rows_of.no_more [of get s s1 fill e' s2] g \<open>r = Inl e\<close> True f Inl
          by (intro exI [of _ "[]"] exI [of _ e']) (auto split: prod.splits)
      next
        case (Inr u)
        then have "read_batches k get fill n batch s2 = (bs, x, s')" using eq g \<open>r = Inl e\<close> True f by simp
        from Suc.IH [OF this Suc.prems(2)] show ?thesis
          using rows_of.more [of get s s1 fill u s2] g \<open>r = Inl e\<close> True f Inr by blast
      qed
    qed
  qed
qed simp

text \<open>More fuel makes no difference.\<close>

lemma read_batches_more:
  "read_batches k get fill n batch s = (bs, x, s') \<Longrightarrow> x \<noteq> Unfinished
     \<Longrightarrow> read_batches (k + j) get fill n batch s = (bs, x, s')"
proof (induction k arbitrary: batch s bs x s')
  case (Suc k)
  obtain r s1 where g: "get s = (r, s1)" by (cases "get s")
  show ?case
  proof (cases r)
    case (Inr row)
    obtain bs1 where "Suc (length batch) < n \<and> read_batches k get fill n (batch @ [row]) s1 = (bs, x, s')
        \<or> \<not> Suc (length batch) < n \<and> read_batches k get fill n [] s1 = (bs1, x, s') \<and> bs = (batch @ [row]) # bs1"
      using Suc.prems(1) g Inr by (auto split: if_splits prod.splits)
    then show ?thesis
      using Suc.IH [of "batch @ [row]" s1 bs x s'] Suc.IH [of "[]" s1 bs1 x s'] Suc.prems(2) g Inr by auto
  next
    case (Inl e)
    obtain q s2 where f: "fill s1 = (q, s2)" by (cases "fill s1")
    show ?thesis using Suc.IH [of batch s2 bs x s'] Suc.prems g Inl f
      by (cases e; cases q) auto
  qed
qed simp

subsection \<open>What a source promises\<close>

text \<open>
  The contract of a subclass: there is a measure of what is still to be read, which every row and
  every chunk makes smaller.
\<close>

locale row_source =
  fixes get :: "('s, 'r) file_io" and fill :: "('s, unit) file_io" and left :: "'s \<Rightarrow> nat"
  assumes row_takes: "get s = (Inr r, s') \<Longrightarrow> left s' < left s"
    and chunk_takes: "get s = (Inl NeedMoreData, s1) \<Longrightarrow> fill s1 = (Inr u, s2) \<Longrightarrow> left s2 < left s"
begin

lemma reads_all: "\<exists>rs e s'. rows_of get fill s rs e s'"
proof (induction "left s" arbitrary: s rule: less_induct)
  case less
  obtain r s1 where g: "get s = (r, s1)" by (cases "get s")
  show ?case
  proof (cases r)
    case (Inr row)
    then obtain rs e s' where "rows_of get fill s1 rs e s'" using less [of s1] row_takes [of s row s1] g by auto
    from rows_of.row [of get s row s1 fill, OF _ this] show ?thesis using g Inr by auto
  next
    case (Inl e)
    show ?thesis
    proof (cases "e = NeedMoreData")
      case False
      from rows_of.ends [of get s e s1 fill, OF _ this] show ?thesis using g Inl by auto
    next
      case True
      obtain q s2 where f: "fill s1 = (q, s2)" by (cases "fill s1")
      show ?thesis
      proof (cases q)
        case q: (Inl e')
        from rows_of.no_more [of get s s1 fill e' s2] show ?thesis using g Inl True f q by auto
      next
        case q: (Inr u)
        then obtain rs e1 s' where "rows_of get fill s2 rs e1 s'"
          using less [of s2] chunk_takes [of s s1 u s2] g Inl True f by auto
        from rows_of.more [of get s s1 fill u s2, OF _ _ this] show ?thesis using g Inl True f q by auto
      qed
    qed
  qed
qed

lemma ends_within: "left s < k \<Longrightarrow> read_batches k get fill n batch s = (bs, x, s') \<Longrightarrow> x \<noteq> Unfinished"
proof (induction k arbitrary: s batch bs x s')
  case (Suc k)
  note eq = Suc.prems(2) [unfolded read_batches.simps]
  obtain r s1 where g: "get s = (r, s1)" by (cases "get s")
  have done': "(bs', y, t) = end_reading e b s2 \<Longrightarrow> y \<noteq> Unfinished" for bs' y t e b s2
    by (auto simp: end_reading_def split: stop.splits)
  show ?case
  proof (cases r)
    case (Inr row)
    then have "left s1 < k" using row_takes [of s row s1] g Suc.prems(1) by simp
    then show ?thesis using Suc.IH eq g Inr by (auto split: if_splits prod.splits)
  next
    case (Inl e)
    obtain q s2 where f: "fill s1 = (q, s2)" by (cases "fill s1")
    show ?thesis
    proof (cases "e = NeedMoreData")
      case False
      then have "(bs, x, s') = end_reading e batch s1" using eq g Inl by (cases e) auto
      then show ?thesis by (rule done')
    next
      case True
      show ?thesis
      proof (cases q)
        case (Inl e')
        then have "(bs, x, s') = end_reading e' batch s2" using eq g \<open>r = Inl e\<close> True f by simp
        then show ?thesis by (rule done')
      next
        case (Inr u)
        then have "left s2 < k" using chunk_takes [of s s1 u s2] g \<open>r = Inl e\<close> True f Suc.prems(1) by simp
        then show ?thesis using Suc.IH eq g \<open>r = Inl e\<close> True f Inr by auto
      qed
    qed
  qed
qed simp

lemma reads_in_batches:
  assumes "rows_of get fill s rs e s'" "left s < k"
  shows "read_batches k get fill n batch s
     = (case full_batches n batch rs of (bs, x) \<Rightarrow> (case end_reading e x s' of (bs', y) \<Rightarrow> (bs @ bs', y)))"
proof -
  obtain k0 where k0: "\<forall>k' \<ge> k0. read_batches k' get fill n batch s
     = (case full_batches n batch rs of (bs, x) \<Rightarrow> (case end_reading e x s' of (bs', y) \<Rightarrow> (bs @ bs', y)))"
    using read_batches_rows [OF assms(1)] by blast
  obtain bs x s2 where r: "read_batches k get fill n batch s = (bs, x, s2)" by (metis surj_pair)
  have "read_batches (k + k0) get fill n batch s = (bs, x, s2)"
    using read_batches_more [OF r ends_within [OF assms(2) r]] .
  then show ?thesis using k0 [rule_format, of "k + k0"] r by simp
qed

lemma reads_exhausted:
  "rows_of get fill s rs StopIteration s' \<Longrightarrow> left s < k
     \<Longrightarrow> read_batches k get fill n [] s = (in_batches n rs, Exhausted, s')"
  by (drule (1) reads_in_batches [where batch = "[]" and n = n])
    (auto simp: in_batches_def end_reading_def split: prod.splits)

end

end
