(* ===== verification/TableWriter.thy ===== *)
theory TableWriter
  imports SourceFile Printer Triples
begin

text \<open>
  The two ends of the work queue of \<open>rethinkdb import\<close> (\<open>_import.py\<close>): \<open>read_to_queue\<close>, which puts
  the batches of a file, and \<open>table_writer\<close>, which inserts them.  \<open>ask\<close> is a call of \<open>retryQuery\<close>,
  \<open>same\<close> Python's \<open>==\<close> on rows; both are parameters.
\<close>

subsection \<open>Values as text\<close>

fun json_repr :: "json \<Rightarrow> string" where
  "json_repr JNull = ''None''"
| "json_repr (JBool b) = (if b then ''True'' else ''False'')"
| "json_repr (JInt i) = show_int i"
| "json_repr (JFloat f) = (if f = ''NaN'' then ''nan'' else if f = ''Infinity'' then ''inf''
     else if f = ''-Infinity'' then ''-inf'' else f)"
| "json_repr (JStr s) = repr_str s"
| "json_repr (JArr xs) = CHR ''['' # join '', '' (map json_repr xs) @ '']''"
| "json_repr (JObj kvs) = CHR ''{'' # join '', '' (map (\<lambda>kv. repr_str (fst kv) @ '': '' @ json_repr (snd kv)) kvs) @ ''}''"

definition json_str :: "json \<Rightarrow> string" where
  "json_str v = (case v of JStr s \<Rightarrow> s | _ \<Rightarrow> json_repr v)"

definition quoted_name :: "string \<Rightarrow> string \<Rightarrow> string" where
  "quoted_name db table = [CHR 0x27] @ db @ ''.'' @ table @ [CHR 0x27]"

subsection \<open>Putting batches\<close>

definition type_name :: "json \<Rightarrow> string" where
  "type_name v = (case v of JNull \<Rightarrow> ''NoneType'' | JBool b \<Rightarrow> ''bool'' | JInt i \<Rightarrow> ''int'' | JFloat f \<Rightarrow> ''float''
     | JStr s \<Rightarrow> ''str'' | JArr xs \<Rightarrow> ''list'' | JObj kvs \<Rightarrow> ''dict'')"

definition drop_fields :: "string list option \<Rightarrow> json \<Rightarrow> error + json" where
  "drop_fields names r =
     (case names of
        Some (k # ks) \<Rightarrow>
          (case r of
             JObj kvs \<Rightarrow> Inr (JObj (filter (\<lambda>(x, v). x \<in> set (k # ks)) kvs))
           | _ \<Rightarrow> Inl (py_exc PyAttributeError ([CHR 0x27] @ type_name r @ [CHR 0x27]
                @ '' object has no attribute '' @ [CHR 0x27] @ ''keys'' @ [CHR 0x27])))
      | _ \<Rightarrow> Inr r)"

text \<open>What an attempt to put meets: a full queue, room in it, or the exit event, which is asked before.\<close>

datatype attempt = QueueFull | Room | ExitSet

fun put_batch :: "attempt list \<Rightarrow> (bool \<times> attempt list) option" where
  "put_batch [] = None"
| "put_batch (QueueFull # as) = put_batch as"
| "put_batch (Room # as) = Some (True, as)"
| "put_batch (ExitSet # as) = Some (False, as)"

text \<open>\<open>read_to_queue\<close> on what \<open>batches\<close> hands out and how it ends: what is put, the number of rows read
  and the error reported; \<open>None\<close> when the attempts are not enough to tell.\<close>

fun read_to_queue :: "string list option \<Rightarrow> json list list \<Rightarrow> ending \<Rightarrow> attempt list
    \<Rightarrow> (json list list \<times> int \<times> error option) option" where
  "read_to_queue names [] e as = Some ([], 0, case e of Broken err \<Rightarrow> Some err | _ \<Rightarrow> None)"
| "read_to_queue names (b # bs) e as =
     (case seqr (map (drop_fields names) b) of
        Inl err \<Rightarrow> Some ([], 0, Some err)
      | Inr b' \<Rightarrow>
          (case put_batch as of
             None \<Rightarrow> None
           | Some (False, as') \<Rightarrow> Some ([], 0, None)
           | Some (True, as') \<Rightarrow>
               map_option (\<lambda>(qs, n, err). (b' # qs, int (length b') + n, err)) (read_to_queue names bs e as')))"

subsection \<open>Writing a batch\<close>

datatype ask_query =
    InsertBatch string string "json list" bool
  | InsertRow string string json bool
  | ReadRow string string json

text \<open>\<open>res[k]\<close>, for a variable that may still be \<open>None\<close>.\<close>

definition answer_item :: "json option \<Rightarrow> string \<Rightarrow> error + json" where
  "answer_item res k =
     (case res of
        Some (JObj kvs) \<Rightarrow>
          (case map_of kvs k of Some v \<Rightarrow> Inr v | None \<Rightarrow> Inl (py_exc PyKeyError (repr_str k)))
      | None \<Rightarrow> Inl (py_exc PyTypeError ([CHR 0x27] @ ''NoneType'' @ [CHR 0x27] @ '' object is not subscriptable''))
      | _ \<Rightarrow> Inl (py_exc PyTypeError ''object is not subscriptable''))"

definition answer_count :: "json option \<Rightarrow> string \<Rightarrow> error + int" where
  "answer_count res k =
     rbind (answer_item res k) (\<lambda>v. case v of JInt i \<Rightarrow> Inr i
       | _ \<Rightarrow> Inl (py_exc PyTypeError ''not supported between instances''))"

definition modified :: "json option \<Rightarrow> error + int" where
  "modified res =
     rbind (answer_count res ''inserted'') (\<lambda>i. rbind (answer_count res ''replaced'') (\<lambda>r.
     rbind (answer_count res ''unchanged'') (\<lambda>u. Inr (i + r + u))))"

definition with_first_error :: "string \<Rightarrow> string \<Rightarrow> string \<Rightarrow> json option \<Rightarrow> error + 'a" where
  "with_first_error what db table res =
     rbind (answer_item res ''first_error'') (\<lambda>f.
       Inl (py_exc PyRuntimeError (what @ quoted_name db table @ '': '' @ json_str f)))"

definition batch_answer :: "string \<Rightarrow> string \<Rightarrow> nat \<Rightarrow> json option \<Rightarrow> error + int" where
  "batch_answer db table n res =
     rbind (answer_count res ''errors'') (\<lambda>k.
       if 0 < k then with_first_error ''Error when importing into table '' db table res
       else rbind (modified res) (\<lambda>m.
         if m \<noteq> int n
         then with_first_error ''The inserted/replaced/unchanged number did not match when importing into table '' db table res
         else Inr m))"

definition row_answer :: "string \<Rightarrow> string \<Rightarrow> json option \<Rightarrow> error + unit" where
  "row_answer db table res =
     rbind (answer_count res ''errors'') (\<lambda>k.
       if 0 < k then with_first_error ''Error when importing into table '' db table res
       else rbind (modified res) (\<lambda>m.
         if m \<noteq> 1
         then Inl (py_exc PyRuntimeError (''The inserted/replaced/unchanged number was not 1 when inserting on ''
           @ quoted_name db table @ '': '' @ (case res of None \<Rightarrow> ''None'' | Some v \<Rightarrow> json_str v)))
         else Inr ()))"

text \<open>A table that is written to: its primary key and the count of rows written.\<close>

record 'w writer =
  tw_world :: 'w
  tw_written :: "string \<times> string \<Rightarrow> int"

definition asks :: "(ask_query \<Rightarrow> ('w, error, json) comp) \<Rightarrow> ask_query \<Rightarrow> ('w writer, error, json) comp" where
  "asks ask q s = (case ask q (tw_world s) of (r, w) \<Rightarrow> (r, s\<lparr>tw_world := w\<rparr>))"

definition add_rows_written :: "string \<Rightarrow> string \<Rightarrow> int \<Rightarrow> ('w writer, error, unit) comp" where
  "add_rows_written db table n s =
     (Inr (), s\<lparr>tw_written := (tw_written s)((db, table) := tw_written s (db, table) + n)\<rparr>)"

definition no_key :: "string option \<Rightarrow> error" where
  "no_key pkey = py_exc PyRuntimeError
     (''Connection error while importing.  Current row does not have the specified primary key ''
        @ ''('' @ (case pkey of None \<Rightarrow> ''None'' | Some k \<Rightarrow> k) @ ''), so cannot guarantee absence of duplicates'')"

text \<open>\<open>primary_key in row\<close> and \<open>row[primary_key]\<close>: the value of the key, if it is there.\<close>

definition no_index :: error where
  "no_index = py_exc PyTypeError ''indices must be integers or slices''"

definition row_key :: "string option \<Rightarrow> json \<Rightarrow> error + json option" where
  "row_key pkey r =
     (case r of
        JObj kvs \<Rightarrow> Inr (case pkey of None \<Rightarrow> None | Some k \<Rightarrow> map_of kvs k)
      | JArr xs \<Rightarrow> if (case pkey of None \<Rightarrow> JNull | Some k \<Rightarrow> JStr k) \<in> set xs then Inl no_index else Inr None
      | JStr s \<Rightarrow>
          (case pkey of
             None \<Rightarrow> Inl (py_exc PyTypeError ''requires string as left operand, not NoneType'')
           | Some k \<Rightarrow> if sublist k s then Inl no_index else Inr None)
      | _ \<Rightarrow> Inl (py_exc PyTypeError (''argument of type '' @ [CHR 0x27] @ type_name r @ [CHR 0x27] @ '' is not iterable'')))"

definition duplicate_key :: "string option \<Rightarrow> json \<Rightarrow> json \<Rightarrow> error" where
  "duplicate_key k r existing = py_exc PyRuntimeError
     (''Duplicate primary key `'' @ (case k of None \<Rightarrow> ''None'' | Some k \<Rightarrow> k) @ ''`:'' @ [CHR 0x0A] @ json_str r
        @ [CHR 0x0A] @ json_str existing)"

text \<open>A value that counts as false.\<close>

fun falsy :: "json \<Rightarrow> bool" where
  "falsy JNull = True"
| "falsy (JBool b) = (\<not> b)"
| "falsy (JInt i) = (i = 0)"
| "falsy (JFloat f) = (f = ''0.0'' \<or> f = ''-0.0'')"
| "falsy (JStr s) = (s = [])"
| "falsy (JArr xs) = (xs = [])"
| "falsy (JObj kvs) = (kvs = [])"

text \<open>One row, after the batch has failed; \<open>replace\<close> is the option \<open>--force\<close>.\<close>

definition put_row :: "(ask_query \<Rightarrow> ('w, error, json) comp) \<Rightarrow> (json \<Rightarrow> json \<Rightarrow> bool) \<Rightarrow> bool \<Rightarrow> string \<Rightarrow> string
    \<Rightarrow> string option \<Rightarrow> json \<Rightarrow> json \<Rightarrow> ('w writer, error, json option) comp" where
  "put_row ask same replace db table pkey r v =
     (if replace then bind (asks ask (InsertRow db table r True)) (\<lambda>res. ret (Some res))
      else bind (asks ask (ReadRow db table v)) (\<lambda>existing.
        if falsy existing then bind (asks ask (InsertRow db table r False)) (\<lambda>res. ret (Some res))
        else if \<not> same existing r then raise (duplicate_key pkey r existing)
        else ret None))"

definition write_row :: "(ask_query \<Rightarrow> ('w, error, json) comp) \<Rightarrow> (json \<Rightarrow> json \<Rightarrow> bool) \<Rightarrow> bool \<Rightarrow> string \<Rightarrow> string
    \<Rightarrow> string option \<Rightarrow> json \<Rightarrow> ('w writer, error, unit) comp" where
  "write_row ask same replace db table pkey r =
     bind (lift_res (row_key pkey r)) (\<lambda>key.
     case key of
       None \<Rightarrow> raise (no_key pkey)
     | Some v \<Rightarrow>
         bind (put_row ask same replace db table pkey r v) (\<lambda>res.
         bind (lift_res (row_answer db table res)) (\<lambda>_.
         add_rows_written db table 1)))"

fun write_rows :: "(ask_query \<Rightarrow> ('w, error, json) comp) \<Rightarrow> (json \<Rightarrow> json \<Rightarrow> bool) \<Rightarrow> bool \<Rightarrow> string \<Rightarrow> string
    \<Rightarrow> string option \<Rightarrow> json list \<Rightarrow> ('w writer, error, unit) comp" where
  "write_rows ask same replace db table pkey [] = ret ()"
| "write_rows ask same replace db table pkey (r # rs) =
     bind (write_row ask same replace db table pkey r) (\<lambda>_. write_rows ask same replace db table pkey rs)"

definition write_batch :: "(ask_query \<Rightarrow> ('w, error, json) comp) \<Rightarrow> (json \<Rightarrow> json \<Rightarrow> bool) \<Rightarrow> bool \<Rightarrow> string \<Rightarrow> string
    \<Rightarrow> string option \<Rightarrow> json list \<Rightarrow> ('w writer, error, unit) comp" where
  "write_batch ask same replace db table pkey batch s =
     (case asks ask (InsertBatch db table batch replace) s of
        (Inr res, s') \<Rightarrow>
          bind (lift_res (batch_answer db table (length batch) (Some res))) (\<lambda>m. add_rows_written db table m) s'
      | (Inl e, s') \<Rightarrow>
          if caught_by [ReqlError] e then write_rows ask same replace db table pkey batch s' else (Inl e, s'))"

subsection \<open>The worker\<close>

text \<open>What a turn of the loop meets: the exit event, an empty queue, a batch, or the sign to stop.\<close>

datatype turn = ExitEvent | NoWork | Work string string "json list" | StopWork

datatype worker_end = Stopped | Exited | Failed error string | Waiting

fun table_writer :: "(ask_query \<Rightarrow> ('w, error, json) comp) \<Rightarrow> (json \<Rightarrow> json \<Rightarrow> bool) \<Rightarrow> bool
    \<Rightarrow> (string \<times> string \<Rightarrow> string option option) \<Rightarrow> turn list \<Rightarrow> 'w writer \<Rightarrow> worker_end \<times> 'w writer" where
  "table_writer ask same replace tables [] s = (Waiting, s)"
| "table_writer ask same replace tables (ExitEvent # ts) s = (Exited, s)"
| "table_writer ask same replace tables (NoWork # ts) s = table_writer ask same replace tables ts s"
| "table_writer ask same replace tables (StopWork # ts) s = (Stopped, s)"
| "table_writer ask same replace tables (Work db table batch # ts) s =
     (case tables (db, table) of
        None \<Rightarrow> (Failed (py_exc PyKeyError (''('' @ repr_str db @ '', '' @ repr_str table @ '')'')) (db @ ''.'' @ table), s)
      | Some pkey \<Rightarrow>
          (case write_batch ask same replace db table pkey batch s of
             (Inl e, s') \<Rightarrow> (Failed e (db @ ''.'' @ table), s')
           | (Inr _, s') \<Rightarrow> table_writer ask same replace tables ts s'))"

subsection \<open>What is counted is what was written\<close>

definition same_count :: "'w writer \<Rightarrow> 'w writer \<Rightarrow> bool" where
  "same_count s t \<longleftrightarrow> tw_written t = tw_written s"

interpretation tw: frame_relation same_count
  by unfold_locales (simp_all add: same_count_def)

lemma asks_same: "steps_within same_count (asks ask q)"
  by (auto simp: asks_def same_count_def split: prod.splits)

lemma put_row_same: "steps_within same_count (put_row ask same replace db table pkey r v)"
  unfolding put_row_def by (intro tw.within_intros asks_same)

definition counted :: "string \<Rightarrow> string \<Rightarrow> int \<Rightarrow> (string \<times> string \<Rightarrow> int) \<Rightarrow> string \<times> string \<Rightarrow> int" where
  "counted db table n f = f((db, table) := f (db, table) + n)"

lemma counted_simps [simp]: "counted db table 0 f = f" "counted db table m (counted db table n f) = counted db table (n + m) f"
  by (auto simp: counted_def)

lemma add_rows_counts: "add_rows_written db table n s = (r, s') \<Longrightarrow> r = Inr () \<and> tw_written s' = counted db table n (tw_written s)"
  by (auto simp: add_rows_written_def counted_def)

lemma batch_answer_count: "batch_answer db table n res = Inr m \<Longrightarrow> m = int n"
  by (auto simp: batch_answer_def with_first_error_def res_simps split: if_splits)

text \<open>A row is counted when it has been written.\<close>

lemma write_row_counts:
  assumes "write_row ask same replace db table pkey r s = (Inr (), s')"
  shows "tw_written s' = counted db table 1 (tw_written s)"
proof -
  obtain v res s1 where p: "put_row ask same replace db table pkey r v s = (Inr res, s1)"
    and a: "add_rows_written db table 1 s1 = (Inr (), s')"
    using assms by (auto simp: write_row_def bind_Inr lift_res_eq raise_eq split: option.splits)
  have "tw_written s1 = tw_written s" using steps_withinD [OF put_row_same p] by (simp add: same_count_def)
  then show ?thesis using add_rows_counts [OF a] by simp
qed

lemma write_rows_counts:
  "write_rows ask same replace db table pkey rs s = (Inr (), s') \<Longrightarrow> tw_written s' = counted db table (int (length rs)) (tw_written s)"
proof (induction rs arbitrary: s)
  case (Cons r rs)
  then obtain s1 where s1: "write_row ask same replace db table pkey r s = (Inr (), s1)"
    "write_rows ask same replace db table pkey rs s1 = (Inr (), s')" by (auto simp: comp_simps)
  then show ?case using Cons.IH [OF s1(2)] write_row_counts [OF s1(1)] by simp
qed (simp add: comp_simps)

lemma write_batch_counts:
  assumes "write_batch ask same replace db table pkey batch s = (Inr (), s')"
  shows "tw_written s' = counted db table (int (length batch)) (tw_written s)"
proof -
  obtain r s1 where r: "asks ask (InsertBatch db table batch replace) s = (r, s1)" by (metis surj_pair)
  have "tw_written s1 = tw_written s" using steps_withinD [OF asks_same r] by (simp add: same_count_def)
  moreover have "tw_written s' = counted db table (int (length batch)) (tw_written s1)"
  proof (cases r)
    case (Inl e)
    then have "write_rows ask same replace db table pkey batch s1 = (Inr (), s')"
      using assms r by (auto simp: write_batch_def split: if_splits)
    then show ?thesis by (rule write_rows_counts)
  next
    case (Inr res)
    then obtain m where m: "Inr m = batch_answer db table (length batch) (Some res)"
      "add_rows_written db table m s1 = (Inr (), s')"
      using assms r by (auto simp: write_batch_def bind_Inr lift_res_eq)
    then show ?thesis using batch_answer_count [OF m(1) [symmetric]] add_rows_counts [OF m(2)] by simp
  qed
  ultimately show ?thesis by simp
qed

text \<open>The rows of the work before the sign to stop, by table.\<close>

fun work_rows :: "turn list \<Rightarrow> string \<times> string \<Rightarrow> int" where
  "work_rows (NoWork # ts) t = work_rows ts t"
| "work_rows (Work db table batch # ts) t = (if t = (db, table) then int (length batch) else 0) + work_rows ts t"
| "work_rows _ t = 0"

lemma writer_counts:
  "table_writer ask same replace tables ts s = (Stopped, s')
     \<Longrightarrow> tw_written s' t = tw_written s t + work_rows ts t"
proof (induction ask same replace tables ts s rule: table_writer.induct)
  case (5 ask same replace tables db table batch ts s)
  obtain pkey where p: "tables (db, table) = Some pkey" using "5.prems" by (auto split: option.splits)
  then obtain s1 where w: "write_batch ask same replace db table pkey batch s = (Inr (), s1)"
    "table_writer ask same replace tables ts s1 = (Stopped, s')"
    using "5.prems" by (auto split: prod.splits sum.splits)
  have "tw_written s' t = tw_written s1 t + work_rows ts t" using "5.IH" [OF p w(1) [symmetric]] w by simp
  then show ?case using write_batch_counts [OF w(1)] by (simp add: counted_def)
qed auto

text \<open>C27. A writer that comes to the sign to stop has written all the work before it: the rows written of
  every table have grown by exactly the rows of its batches, whether a batch went in at once or, after an
  error of the server, row by row.\<close>

theorem writer_counts_rows:
  "table_writer ask same replace tables ts s = (Stopped, s')
     \<Longrightarrow> tw_written s' t = tw_written s t + work_rows ts t"
  by (rule writer_counts)

definition insert_answer :: "int \<Rightarrow> json" where
  "insert_answer n = JObj [(''inserted'', JInt n), (''replaced'', JInt 0), (''unchanged'', JInt 0), (''errors'', JInt 0)]"

text \<open>A server that inserts every batch and row, and one that fails batches after their first row.\<close>

definition obedient :: "ask_query \<Rightarrow> (json list, error, json) comp" where
  "obedient q w =
     (case q of
        InsertBatch db table b replace \<Rightarrow> (Inr (insert_answer (int (length b))), w @ b)
      | InsertRow db table r replace \<Rightarrow> (Inr (insert_answer 1), w @ [r])
      | ReadRow db table v \<Rightarrow> (Inr JNull, w))"

theorem writer_counts_rows_witness:
  "tw_written (snd (table_writer obedient (=) False (\<lambda>_. Some None) [Work ''d'' ''t'' [JObj [], JNull], NoWork, StopWork]
       \<lparr>tw_world = [], tw_written = (\<lambda>_. 5)\<rparr>)) (''d'', ''t'') = 7"
proof -
  let ?s = "\<lparr>tw_world = [] :: json list, tw_written = (\<lambda>_. 5)\<rparr>"
  have r: "table_writer obedient (=) False (\<lambda>_. Some None) [Work ''d'' ''t'' [JObj [], JNull], NoWork, StopWork] ?s
      = (Stopped, snd (add_rows_written ''d'' ''t'' 2 (?s\<lparr>tw_world := [JObj [], JNull]\<rparr>)))"
    by (simp add: write_batch_def asks_def obedient_def bind_def lift_res_def batch_answer_def answer_count_def answer_item_def
      insert_answer_def modified_def add_rows_written_def)
  show ?thesis using writer_counts_rows [OF r, of "(''d'', ''t'')"] unfolding r by simp
qed

subsection \<open>A row that is there already\<close>

text \<open>When the server has taken a batch in part before it failed, the row by row repetition ends the
  import at the first row that is there already and is the same: no answer has been assigned for it, and
  looking into \<open>None\<close> for errors is a \<open>TypeError\<close>.\<close>

theorem writer_present_row_fails:
  assumes "tables (db, table) = Some (Some k)" "map_of kvs k = Some v"
    and "ask (InsertBatch db table (JObj kvs # rs) False) (tw_world s) = (Inl e, w1)" "caught_by [ReqlError] e"
    and "ask (ReadRow db table v) w1 = (Inr existing, w2)" "\<not> falsy existing" "same existing (JObj kvs)"
  shows "table_writer ask same False tables (Work db table (JObj kvs # rs) # ts) s
     = (Failed (py_exc PyTypeError ([CHR 0x27] @ ''NoneType'' @ [CHR 0x27] @ '' object is not subscriptable'')) (db @ ''.'' @ table),
        s\<lparr>tw_world := w2\<rparr>)"
proof -
  let ?s1 = "s\<lparr>tw_world := w1\<rparr>"
  have "put_row ask same False db table (Some k) (JObj kvs) v ?s1 = (Inr None, s\<lparr>tw_world := w2\<rparr>)"
    using assms(5-7) by (simp add: put_row_def bind_def asks_def ret_def)
  then have "write_rows ask same False db table (Some k) (JObj kvs # rs) ?s1
      = (Inl (py_exc PyTypeError ([CHR 0x27] @ ''NoneType'' @ [CHR 0x27] @ '' object is not subscriptable'')), s\<lparr>tw_world := w2\<rparr>)"
    using assms(2) by (simp add: write_row_def row_key_def bind_def lift_res_def row_answer_def answer_count_def answer_item_def)
  then show ?thesis using assms(1,3,4) by (simp add: write_batch_def asks_def del: caught_by_single)
qed

definition interrupted :: "ask_query \<Rightarrow> (json list, error, json) comp" where
  "interrupted q w =
     (case q of
        InsertBatch db table b replace \<Rightarrow> (Inl (reql_error ReqlOpIndeterminateError ''lost'' None None), w @ take 1 b)
      | InsertRow db table r replace \<Rightarrow> (Inr (insert_answer 1), w @ [r])
      | ReadRow db table v \<Rightarrow> (Inr (case find (\<lambda>r. row_key (Some ''id'') r = Inr (Some v)) w of None \<Rightarrow> JNull | Some r \<Rightarrow> r), w))"

theorem writer_present_row_fails_witness:
  "table_writer interrupted (=) False [(''d'', ''t'') \<mapsto> Some ''id'']
       [Work ''d'' ''t'' [JObj [(''id'', JInt 5)], JObj [(''id'', JInt 6)]], StopWork] \<lparr>tw_world = [], tw_written = (\<lambda>_. 0)\<rparr>
     = (Failed (py_exc PyTypeError ([CHR 0x27] @ ''NoneType'' @ [CHR 0x27] @ '' object is not subscriptable'')) (''d'' @ ''.'' @ ''t''),
        \<lparr>tw_world = [], tw_written = (\<lambda>_. 0)\<rparr>\<lparr>tw_world := [JObj [(''id'', JInt 5)]]\<rparr>)"
proof (rule writer_present_row_fails)
  show "caught_by [ReqlError] (reql_error ReqlOpIndeterminateError ''lost'' None None)" by code_simp
  show "interrupted (InsertBatch ''d'' ''t'' [JObj [(''id'', JInt 5)], JObj [(''id'', JInt 6)]] False)
      (tw_world \<lparr>tw_world = [], tw_written = (\<lambda>_. 0)\<rparr>)
    = (Inl (reql_error ReqlOpIndeterminateError ''lost'' None None), [JObj [(''id'', JInt 5)]])" by (simp add: interrupted_def)
  show "interrupted (ReadRow ''d'' ''t'' (JInt 5)) [JObj [(''id'', JInt 5)]] = (Inr (JObj [(''id'', JInt 5)]), [JObj [(''id'', JInt 5)]])"
    by (simp add: interrupted_def row_key_def)
qed simp_all

subsection \<open>What a reader puts\<close>

lemma drop_no_fields: "seqr (map (drop_fields None) b) = Inr b"
proof -
  have "drop_fields None = Inr" by (rule ext) (simp add: drop_fields_def)
  then show ?thesis by (simp add: seqr_eq_Inr)
qed

lemma put_batch_room:
  "\<forall>a \<in> set as. a \<noteq> ExitSet \<Longrightarrow> n < count_list as Room
     \<Longrightarrow> \<exists>as'. put_batch as = Some (True, as') \<and> set as' \<subseteq> set as \<and> n \<le> count_list as' Room"
  by (induction as rule: put_batch.induct) fastforce+

text \<open>With enough room in the queue and no exit every batch is put.\<close>

lemma reads_to_queue:
  "\<forall>a \<in> set as. a \<noteq> ExitSet \<Longrightarrow> length bs \<le> count_list as Room
     \<Longrightarrow> read_to_queue None bs e as
       = Some (bs, int (length (concat bs)), case e of Broken err \<Rightarrow> Some err | _ \<Rightarrow> None)"
proof (induction bs arbitrary: as)
  case (Cons b bs)
  from Cons.prems obtain as' where "put_batch as = Some (True, as')" "set as' \<subseteq> set as" "length bs \<le> count_list as' Room"
    using put_batch_room [of as "length bs"] by auto
  then show ?case using Cons.IH [of as'] Cons.prems(1) by (auto simp: drop_no_fields)
qed simp

end
