(* ===== verification/IndexRebuild.thy ===== *)
theory IndexRebuild
  imports ToolOptions TableWriter Triples "HOL-Library.Multiset"
begin

text \<open>
  \<open>rethinkdb index-rebuild\<close>, \<open>rebuild_indexes\<close> of \<open>rethinkdb/_index_rebuild.py\<close>.  What the server
  answers to each of its queries is the record \<open>index_server\<close>; the queries that were asked are
  kept in the state, oldest first.  The progress bar is left out.
\<close>

subsection \<open>Queries\<close>

type_synonym index = "string \<times> string \<times> string"

datatype index_query =
    AllTables
  | TableNames string
  | IndexNames string string
  | OutdatedIndexes string string
  | AllIndexes string string
  | IndexFunctions index
  | CreateTemp index json
  | IndexReady index
  | RenameTemp index

record 'w index_server =
  sv_tables :: "('w, error, (string \<times> string) list) comp"
  sv_table_list :: "string \<Rightarrow> ('w, error, string list) comp"
  sv_index_list :: "string \<Rightarrow> string \<Rightarrow> ('w, error, string list) comp"
  sv_outdated :: "string \<Rightarrow> string \<Rightarrow> ('w, error, string list) comp"
  sv_all :: "string \<Rightarrow> string \<Rightarrow> ('w, error, string list) comp"
  sv_functions :: "string \<Rightarrow> string \<Rightarrow> ('w, error, (string, json) dict) comp"
  sv_create :: "string \<Rightarrow> string \<Rightarrow> string \<Rightarrow> json \<Rightarrow> ('w, error, unit) comp"
  sv_ready :: "string \<Rightarrow> string \<Rightarrow> string \<Rightarrow> ('w, error, bool) comp"
  sv_rename :: "string \<Rightarrow> string \<Rightarrow> string \<Rightarrow> string \<Rightarrow> ('w, error, unit) comp"

record 'w rebuilder =
  rb_world :: 'w
  rb_asked :: "index_query list"

definition asking :: "index_query \<Rightarrow> ('w, error, 'a) comp \<Rightarrow> ('w rebuilder, error, 'a) comp" where
  "asking q m s =
     (case m (rb_world s) of (r, w) \<Rightarrow> (r, s\<lparr>rb_world := w, rb_asked := rb_asked s @ [q]\<rparr>))"

definition temp_prefix :: string where
  "temp_prefix = ''$reql_temp_index$_''"

definition temp_name :: "string \<Rightarrow> string" where
  "temp_name name = temp_prefix @ name"

subsection \<open>Which indexes\<close>

text \<open>The options name databases and tables.  A database is to be replaced by its tables: they are
  appended, and then the statement that deletes the database uses it as an index of the list.\<close>

definition list_index :: error where
  "list_index = py_exc PyTypeError ''list indices must be integers or slices, not DbTable''"

fun flesh_out :: "'w index_server \<Rightarrow> db_table list \<Rightarrow> ('w rebuilder, error, (string \<times> string) list) comp" where
  "flesh_out sv [] = ret []"
| "flesh_out sv ((db, None) # ts) = bind (asking (TableNames db) (sv_table_list sv db)) (\<lambda>_. raise list_index)"
| "flesh_out sv ((db, Some t) # ts) = bind (flesh_out sv ts) (\<lambda>rest. ret ((db, t) # rest))"

definition chosen_tables :: "'w index_server \<Rightarrow> db_table list \<Rightarrow> ('w rebuilder, error, (string \<times> string) list) comp" where
  "chosen_tables sv ts = (if ts = [] then asking AllTables (sv_tables sv) else flesh_out sv ts)"

text \<open>Indexes left over by an earlier run are to be dropped; their names are taken for dictionaries.\<close>

definition string_index :: error where
  "string_index = py_exc PyTypeError (''string indices must be integers, not '' @ [CHR 0x27] @ ''str'' @ [CHR 0x27])"

fun wipe_names :: "string list \<Rightarrow> error + unit" where
  "wipe_names [] = Inr ()"
| "wipe_names (i # is) = (if prefix temp_prefix i then Inl string_index else wipe_names is)"

fun wipe_temps :: "'w index_server \<Rightarrow> (string \<times> string) list \<Rightarrow> ('w rebuilder, error, unit) comp" where
  "wipe_temps sv [] = ret ()"
| "wipe_temps sv ((db, t) # ts) =
     bind (asking (IndexNames db t) (sv_index_list sv db t)) (\<lambda>names.
     bind (lift_res (wipe_names names)) (\<lambda>_. wipe_temps sv ts))"

fun indexes_of :: "'w index_server \<Rightarrow> bool \<Rightarrow> (string \<times> string) list \<Rightarrow> ('w rebuilder, error, index list) comp" where
  "indexes_of sv force [] = ret []"
| "indexes_of sv force ((db, t) # ts) =
     bind (if \<not> force then asking (OutdatedIndexes db t) (sv_outdated sv db t)
           else asking (AllIndexes db t) (sv_all sv db t)) (\<lambda>names.
     bind (indexes_of sv force ts) (\<lambda>rest. ret (map (\<lambda>n. (db, t, n)) names @ rest)))"

subsection \<open>Rebuilding them\<close>

definition not_existing :: "string \<Rightarrow> string list \<Rightarrow> error" where
  "not_existing name names = py_exc PyAssertionError (name @ '' is not part of existing indexes '' @ join '', '' names)"

definition start_index :: "'w index_server \<Rightarrow> index \<Rightarrow> ('w rebuilder, error, unit) comp" where
  "start_index sv i =
     (case i of (db, t, name) \<Rightarrow>
        bind (asking (IndexFunctions i) (sv_functions sv db t)) (\<lambda>existing.
          case map_of existing name of
            None \<Rightarrow> raise (not_existing name (map fst existing))
          | Some f \<Rightarrow>
              if map_of existing (temp_name name) = None
              then asking (CreateTemp i f) (sv_create sv db t (temp_name name) f)
              else ret ()))"

text \<open>As many as may be in progress at once; \<open>pop\<close> takes the last.\<close>

fun start_builds :: "'w index_server \<Rightarrow> int \<Rightarrow> index list \<Rightarrow> index list
    \<Rightarrow> ('w rebuilder, error, index list \<times> index list) comp" where
  "start_builds sv n todo doing =
     (if todo \<noteq> [] \<and> int (length doing) < n
      then bind (start_index sv (last todo)) (\<lambda>_. start_builds sv n (butlast todo) (doing @ [last todo]))
      else ret (todo, doing))"

declare start_builds.simps [simp del]

fun check_builds :: "'w index_server \<Rightarrow> index list \<Rightarrow> ('w rebuilder, error, index list) comp" where
  "check_builds sv [] = ret []"
| "check_builds sv ((db, t, name) # is) =
     bind (asking (IndexReady (db, t, name)) (sv_ready sv db t (temp_name name))) (\<lambda>ready.
       if ready
       then bind (asking (RenameTemp (db, t, name)) (sv_rename sv db t (temp_name name) name)) (\<lambda>_. check_builds sv is)
       else bind (check_builds sv is) (\<lambda>rest. ret ((db, t, name) # rest)))"

text \<open>The loop; \<open>False\<close> is that it is still not done.\<close>

fun rebuild_loop :: "nat \<Rightarrow> 'w index_server \<Rightarrow> int \<Rightarrow> index list \<Rightarrow> index list \<Rightarrow> ('w rebuilder, error, bool) comp" where
  "rebuild_loop 0 sv n todo doing = ret False"
| "rebuild_loop (Suc k) sv n todo doing =
     (if todo = [] \<and> doing = [] then ret True
      else bind (start_builds sv n todo doing) (\<lambda>(todo', doing').
           bind (check_builds sv doing') (\<lambda>doing''. rebuild_loop k sv n todo' doing'')))"

definition rebuild_indexes :: "nat \<Rightarrow> 'w index_server \<Rightarrow> bool \<Rightarrow> int \<Rightarrow> db_table list
    \<Rightarrow> ('w rebuilder, error, index list \<times> bool) comp" where
  "rebuild_indexes fuel sv force n ts =
     bind (chosen_tables sv ts) (\<lambda>tables.
     bind (wipe_temps sv tables) (\<lambda>_.
     bind (indexes_of sv force tables) (\<lambda>indexes.
     bind (rebuild_loop fuel sv n indexes []) (\<lambda>done. ret (indexes, done)))))"

subsection \<open>What the queries were\<close>

fun started :: "index_query list \<Rightarrow> index list" where
  "started [] = []"
| "started (IndexFunctions i # qs) = i # started qs"
| "started (q # qs) = started qs"

fun renamed :: "index_query list \<Rightarrow> index list" where
  "renamed [] = []"
| "renamed (RenameTemp i # qs) = i # renamed qs"
| "renamed (q # qs) = renamed qs"

lemma started_append [simp]: "started (a @ b) = started a @ started b"
  by (induction a rule: started.induct) simp_all

lemma renamed_append [simp]: "renamed (a @ b) = renamed a @ renamed b"
  by (induction a rule: renamed.induct) simp_all

text \<open>How many indexes are being rebuilt after these queries; never more than \<open>n\<close> so far.\<close>

definition in_flight :: "index_query list \<Rightarrow> int" where
  "in_flight qs = int (length (started qs)) - int (length (renamed qs))"

definition never_over :: "int \<Rightarrow> index_query list \<Rightarrow> bool" where
  "never_over n qs \<longleftrightarrow> (\<forall>k. in_flight (take k qs) \<le> n)"

lemma never_over_snoc: "never_over n (qs @ [q]) \<longleftrightarrow> never_over n qs \<and> in_flight (qs @ [q]) \<le> n"
proof -
  have "take k (qs @ [q]) = (if k \<le> length qs then take k qs else qs @ [q])" for k by auto
  moreover have "take k qs = (if k \<le> length qs then take k qs else qs)" for k by auto
  moreover have "take (length qs) qs = qs" by simp
  ultimately show ?thesis unfolding never_over_def by (metis nle_le not_less_eq_eq order_refl)
qed

lemma never_over_now: "never_over n qs \<Longrightarrow> in_flight qs \<le> n"
  unfolding never_over_def by (metis order_refl take_all)

lemma asking_triple:
  assumes "\<And>l. P l \<Longrightarrow> Q (l @ [q])"
  shows "triple (\<lambda>s. P (rb_asked s)) (asking q m) (\<lambda>_ s. Q (rb_asked s)) (\<lambda>_ s. Q (rb_asked s))"
  using assms by (auto intro!: tripleI simp: asking_def split: prod.splits)

text \<open>Between the steps of the loop: what is to be done and what is in progress.\<close>

definition on_course :: "int \<Rightarrow> index multiset \<Rightarrow> index list \<Rightarrow> index list \<Rightarrow> index_query list \<Rightarrow> bool" where
  "on_course n all todo doing qs \<longleftrightarrow>
     mset (started qs) + mset todo = all \<and> mset (renamed qs) + mset doing = mset (started qs) \<and> never_over n qs"

lemma on_course_flight: "on_course n all todo doing qs \<Longrightarrow> in_flight qs = int (length doing)"
proof -
  assume "on_course n all todo doing qs"
  then have "size (mset (renamed qs) + mset doing) = size (mset (started qs))" unfolding on_course_def by simp
  then show ?thesis by (simp add: in_flight_def)
qed

lemma flight_snoc: "in_flight (qs @ [q]) = in_flight qs
    + (case q of IndexFunctions _ \<Rightarrow> 1 | RenameTemp _ \<Rightarrow> -1 | _ \<Rightarrow> 0)"
  by (cases q) (simp_all add: in_flight_def)

lemma other_query:
  assumes "on_course n all todo doing qs" "started [q] = []" "renamed [q] = []"
  shows "on_course n all todo doing (qs @ [q])"
proof -
  have "in_flight (qs @ [q]) = in_flight qs" using assms(2,3) by (simp add: in_flight_def)
  then show ?thesis using assms never_over_now [of n qs] by (simp add: on_course_def never_over_snoc)
qed

lemma start_query:
  assumes "on_course n all todo doing qs" "todo \<noteq> []" "int (length doing) < n"
  shows "on_course n all (butlast todo) (doing @ [last todo]) (qs @ [IndexFunctions (last todo)])"
proof -
  have "mset todo = mset (butlast todo) + {#last todo#}"
    using assms(2) by (metis append_butlast_last_id mset.simps mset_append)
  then show ?thesis
    using assms on_course_flight [OF assms(1)] by (simp add: on_course_def never_over_snoc flight_snoc add_ac)
qed

lemma rename_query:
  assumes "on_course n all todo (pre @ i # post) qs"
  shows "on_course n all todo (pre @ post) (qs @ [RenameTemp i])"
  using assms never_over_now [of n qs] by (simp add: on_course_def never_over_snoc flight_snoc)

definition stopped_within :: "int \<Rightarrow> error \<Rightarrow> 'w rebuilder \<Rightarrow> bool" where
  "stopped_within n e s \<longleftrightarrow> never_over n (rb_asked s)"

lemma on_course_stop: "on_course n all todo doing (rb_asked s) \<Longrightarrow> stopped_within n e s"
  by (simp add: on_course_def stopped_within_def)

lemma start_index_course:
  assumes "todo \<noteq> []" "int (length doing) < n"
  shows "triple (\<lambda>s. on_course n all todo doing (rb_asked s)) (start_index sv (last todo))
     (\<lambda>_ s. on_course n all (butlast todo) (doing @ [last todo]) (rb_asked s)) (stopped_within n)"
proof -
  obtain db t name where i: "last todo = (db, t, name)" by (cases "last todo")
  let ?Q = "on_course n all (butlast todo) (doing @ [last todo])"
  have 1: "triple (\<lambda>s. on_course n all todo doing (rb_asked s)) (asking (IndexFunctions (last todo)) (sv_functions sv db t))
     (\<lambda>_ s. ?Q (rb_asked s)) (stopped_within n)"
    by (rule triple_post [OF asking_triple [where Q = ?Q]]) (use assms in \<open>auto intro: start_query on_course_stop\<close>)
  have 2: "triple (\<lambda>s. ?Q (rb_asked s)) (asking (CreateTemp (last todo) f) m) (\<lambda>_ s. ?Q (rb_asked s)) (stopped_within n)" for f and m :: "('a, error, unit) comp"
    by (rule triple_post [OF asking_triple [where Q = ?Q]]) (auto intro: other_query on_course_stop)
  show ?thesis unfolding start_index_def i prod.case
  proof (rule triple_bind [OF 1 [unfolded i]])
    fix existing
    show "triple (\<lambda>s. on_course n all (butlast todo) (doing @ [(db, t, name)]) (rb_asked s))
      (case map_of existing name of None \<Rightarrow> raise (not_existing name (map fst existing))
        | Some f \<Rightarrow> if map_of existing (temp_name name) = None
            then asking (CreateTemp (db, t, name) f) (sv_create sv db t (temp_name name) f) else ret ())
      (\<lambda>_ s. on_course n all (butlast todo) (doing @ [(db, t, name)]) (rb_asked s)) (stopped_within n)"
      using 2 i by (auto intro!: triple_option triple_if triple_raise triple_ret intro: on_course_stop)
  qed
qed

lemma start_builds_course:
  "triple (\<lambda>s. on_course n all todo doing (rb_asked s)) (start_builds sv n todo doing)
     (\<lambda>(todo', doing') s. on_course n all todo' doing' (rb_asked s)) (stopped_within n)"
proof (induction sv n todo doing rule: start_builds.induct)
  case (1 sv n todo doing)
  show ?case
  proof (cases "todo \<noteq> [] \<and> int (length doing) < n")
    case True
    have "triple (\<lambda>s. on_course n all todo doing (rb_asked s))
        (bind (start_index sv (last todo)) (\<lambda>_. start_builds sv n (butlast todo) (doing @ [last todo])))
        (\<lambda>(todo', doing') s. on_course n all todo' doing' (rb_asked s)) (stopped_within n)"
      using True by (intro triple_bind [OF start_index_course "1.IH"]) auto
    then show ?thesis by (subst start_builds.simps) (simp add: True)
  qed (subst start_builds.simps, auto intro: triple_ret)
qed

lemma check_builds_course:
  "triple (\<lambda>s. on_course n all todo (pre @ doing) (rb_asked s)) (check_builds sv doing)
     (\<lambda>doing' s. on_course n all todo (pre @ doing') (rb_asked s)) (stopped_within n)"
proof (induction doing arbitrary: pre)
  case (Cons i rest)
  obtain db t name where i: "i = (db, t, name)" by (cases i)
  let ?P = "\<lambda>xs s. on_course n all todo (pre @ xs) (rb_asked s)"
  have 1: "triple (?P (i # rest)) (asking (IndexReady i) m) (\<lambda>_. ?P (i # rest)) (stopped_within n)" for m :: "('a, error, bool) comp"
    by (rule triple_post [OF asking_triple [where Q = "on_course n all todo (pre @ i # rest)"]])
      (auto intro: other_query on_course_stop)
  have 2: "triple (?P (i # rest)) (asking (RenameTemp i) m) (\<lambda>_. ?P rest) (stopped_within n)" for m :: "('a, error, unit) comp"
    by (rule triple_post [OF asking_triple [where Q = "on_course n all todo (pre @ rest)"]])
      (auto intro: rename_query on_course_stop)
  have 3: "triple (?P (i # rest)) (bind (check_builds sv rest) (\<lambda>left. ret (i # left))) (\<lambda>left. ?P left) (stopped_within n)"
    using Cons.IH [of "pre @ [i]"] by (auto intro: triple_bind triple_ret)
  show ?case unfolding i check_builds.simps
    by (rule triple_bind [OF 1 [unfolded i]], rule triple_if)
      (rule triple_bind [OF 2 [unfolded i]], rule Cons.IH, rule 3 [unfolded i])
qed (simp add: triple_ret)

lemma rebuild_loop_course:
  "triple (\<lambda>s. on_course n all todo doing (rb_asked s)) (rebuild_loop k sv n todo doing)
     (\<lambda>done s. never_over n (rb_asked s) \<and> (done \<longrightarrow> mset (renamed (rb_asked s)) = all)) (stopped_within n)"
proof (induction k arbitrary: todo doing)
  case 0
  then show ?case by (auto intro: triple_ret simp: on_course_def)
next
  case (Suc k)
  have d: "triple (\<lambda>s. on_course n all [] [] (rb_asked s)) (ret True)
     (\<lambda>done s. never_over n (rb_asked s) \<and> (done \<longrightarrow> mset (renamed (rb_asked s)) = all)) (stopped_within n)"
    by (auto intro: triple_ret simp: on_course_def)
  have r: "triple (\<lambda>s. on_course n all todo' doing' (rb_asked s))
     (bind (check_builds sv doing') (\<lambda>doing''. rebuild_loop k sv n todo' doing''))
     (\<lambda>done s. never_over n (rb_asked s) \<and> (done \<longrightarrow> mset (renamed (rb_asked s)) = all)) (stopped_within n)" for todo' doing'
    by (rule triple_bind [OF check_builds_course [where pre = "[]", simplified] Suc.IH])
  show ?case
  proof (cases "todo = [] \<and> doing = []")
    case False
    have "triple (\<lambda>s. on_course n all todo doing (rb_asked s))
      (bind (start_builds sv n todo doing) (\<lambda>(todo', doing'). bind (check_builds sv doing') (\<lambda>doing''. rebuild_loop k sv n todo' doing'')))
      (\<lambda>done s. never_over n (rb_asked s) \<and> (done \<longrightarrow> mset (renamed (rb_asked s)) = all)) (stopped_within n)"
      using r by (intro triple_bind [OF start_builds_course]) auto
    then show ?thesis unfolding rebuild_loop.simps if_not_P [OF False] .
  qed (use d in simp)
qed

subsection \<open>Every index once, and never too many\<close>

definition only_listed :: "index_query list \<Rightarrow> bool" where
  "only_listed qs \<longleftrightarrow> started qs = [] \<and> renamed qs = []"

lemma only_listed_one [simp]:
  "only_listed [AllTables]" "only_listed [TableNames db]" "only_listed [IndexNames db t]"
  "only_listed [OutdatedIndexes db t]" "only_listed [AllIndexes db t]"
  by (simp_all add: only_listed_def)

lemma asking_listed [keeps_intros]:
  "only_listed [q] \<Longrightarrow> keeps (\<lambda>s. only_listed (rb_asked s)) (asking q m)"
  unfolding keeps_def by (rule asking_triple) (simp add: only_listed_def)

lemma keeps_lift_res: "keeps I (lift_res r)"
  by (auto intro: keepsI simp: comp_simps)

lemma listing_keeps:
  "keeps (\<lambda>s. only_listed (rb_asked s)) (chosen_tables sv ts)"
  "keeps (\<lambda>s. only_listed (rb_asked s)) (wipe_temps sv tables)"
  "keeps (\<lambda>s. only_listed (rb_asked s)) (indexes_of sv force tables)"
proof -
  have "keeps (\<lambda>s. only_listed (rb_asked s)) (flesh_out sv ts)"
    by (induction sv ts rule: flesh_out.induct) (auto intro!: keeps_intros)
  then show "keeps (\<lambda>s. only_listed (rb_asked s)) (chosen_tables sv ts)"
    by (auto simp: chosen_tables_def intro!: keeps_intros)
  show "keeps (\<lambda>s. only_listed (rb_asked s)) (wipe_temps sv tables)"
    by (induction sv tables rule: wipe_temps.induct) (auto intro!: keeps_intros keeps_lift_res)
  show "keeps (\<lambda>s. only_listed (rb_asked s)) (indexes_of sv force tables)"
    by (induction sv force tables rule: indexes_of.induct) (auto intro!: keeps_intros)
qed

lemma only_listed_course:
  assumes "only_listed qs" "0 \<le> n"
  shows "on_course n (mset indexes) indexes [] qs"
proof -
  have "length (started (take k qs)) \<le> length (started qs)" for k
    by (metis append_take_drop_id le_add1 length_append started_append)
  moreover have "0 \<le> int (length (renamed (take k qs)))" for k by simp
  ultimately have "never_over n qs"
    using assms unfolding never_over_def in_flight_def only_listed_def by fastforce
  then show ?thesis using assms(1) by (simp add: on_course_def only_listed_def)
qed

lemma rebuild_course:
  assumes "0 \<le> n"
  shows "triple (\<lambda>s. only_listed (rb_asked s)) (rebuild_indexes fuel sv force n ts)
     (\<lambda>(indexes, done) s. never_over n (rb_asked s) \<and> (done \<longrightarrow> mset (renamed (rb_asked s)) = mset indexes)) (stopped_within n)"
proof -
  have l: "triple (\<lambda>s. only_listed (rb_asked s)) m (\<lambda>_ s. only_listed (rb_asked s)) (stopped_within n)"
    if "keeps (\<lambda>s. only_listed (rb_asked s)) m" for m :: "('a rebuilder, error, 'b) comp"
    using only_listed_course [OF _ assms, of _ "[]"]
    by (intro triple_post [OF keeps_triple [OF that]]) (auto simp: on_course_def stopped_within_def)
  have r: "triple (\<lambda>s. only_listed (rb_asked s)) (bind (rebuild_loop fuel sv n indexes []) (\<lambda>done. ret (indexes, done)))
     (\<lambda>(indexes, done) s. never_over n (rb_asked s) \<and> (done \<longrightarrow> mset (renamed (rb_asked s)) = mset indexes)) (stopped_within n)" for indexes
    by (rule triple_bind [OF triple_pre [OF rebuild_loop_course [where all = "mset indexes"]]])
      (auto intro: only_listed_course assms triple_ret)
  show ?thesis unfolding rebuild_indexes_def
    using listing_keeps [THEN l] by (intro triple_bind [where R = "\<lambda>_ s. only_listed (rb_asked s)"] r) auto
qed

text \<open>C12. \<open>rethinkdb index-rebuild\<close> keeps to its limit: at every point of a run, also of one that an exception
  ends, no more than \<open>concurrent\<close> indexes have been started and not yet renamed; and when the run is
  done, every index it was to rebuild has been renamed as often as it was listed, and no other.\<close>

theorem rebuilds_each_once:
  assumes "0 \<le> n" "rb_asked s = []" "rebuild_indexes fuel sv force n ts s = (r, s')"
  shows "(\<forall>k. in_flight (take k (rb_asked s')) \<le> n)
     \<and> (case r of Inr (indexes, True) \<Rightarrow> mset (renamed (rb_asked s')) = mset indexes | _ \<Rightarrow> True)"
proof -
  have l: "only_listed (rb_asked s)" using assms(2) by (simp add: only_listed_def)
  show ?thesis
  proof (cases r)
    case (Inl e)
    then show ?thesis
      using triple_Inl [OF rebuild_course [OF assms(1)] l] assms(3) by (simp add: stopped_within_def never_over_def)
  next
    case (Inr x)
    then show ?thesis
      using triple_Inr [OF rebuild_course [OF assms(1)] l, of fuel sv force ts x s'] assms(3)
      by (auto simp: never_over_def split: bool.splits)
  qed
qed

subsection \<open>It ends\<close>

text \<open>A server that answers, and says \<open>budget\<close> more times at most that an index is not ready.\<close>

definition rebuilds_in :: "('w \<Rightarrow> nat) \<Rightarrow> index set \<Rightarrow> 'w index_server \<Rightarrow> bool" where
  "rebuilds_in budget ixs sv \<longleftrightarrow> (\<forall>(db, t, name) \<in> ixs. \<forall>w.
     (\<exists>fs w'. sv_functions sv db t w = (Inr fs, w') \<and> map_of fs name \<noteq> None \<and> budget w' \<le> budget w)
     \<and> (\<forall>f. \<exists>w'. sv_create sv db t (temp_name name) f w = (Inr (), w') \<and> budget w' \<le> budget w)
     \<and> (\<exists>b w'. sv_ready sv db t (temp_name name) w = (Inr b, w') \<and> budget w' + (if b then 0 else 1) \<le> budget w)
     \<and> (\<exists>w'. sv_rename sv db t (temp_name name) name w = (Inr (), w') \<and> budget w' \<le> budget w))"

lemma rebuilds_inD:
  assumes "rebuilds_in budget ixs sv" "(db, t, name) \<in> ixs"
  shows "\<exists>fs w'. sv_functions sv db t w = (Inr fs, w') \<and> map_of fs name \<noteq> None \<and> budget w' \<le> budget w"
    and "\<exists>w'. sv_create sv db t (temp_name name) f w = (Inr (), w') \<and> budget w' \<le> budget w"
    and "\<exists>b w'. sv_ready sv db t (temp_name name) w = (Inr b, w') \<and> budget w' + (if b then 0 else 1) \<le> budget w"
    and "\<exists>w'. sv_rename sv db t (temp_name name) name w = (Inr (), w') \<and> budget w' \<le> budget w"
  using assms unfolding rebuilds_in_def by fast+

lemma start_index_ends:
  assumes "rebuilds_in budget ixs sv" "i \<in> ixs"
  shows "\<exists>s'. start_index sv i s = (Inr (), s') \<and> budget (rb_world s') \<le> budget (rb_world s)"
proof -
  obtain db t name where i: "i = (db, t, name)" by (cases i)
  note r = rebuilds_inD [OF assms(1) assms(2) [unfolded i]]
  obtain fs w where f: "sv_functions sv db t (rb_world s) = (Inr fs, w)" "map_of fs name \<noteq> None" "budget w \<le> budget (rb_world s)"
    using r(1) by blast
  obtain g where g: "map_of fs name = Some g" using f(2) by blast
  obtain w' where w': "sv_create sv db t (temp_name name) g w = (Inr (), w')" "budget w' \<le> budget w" using r(2) by blast
  show ?thesis
    using f g w' by (simp add: i start_index_def bind_def asking_def ret_def)
qed

lemma start_builds_ends:
  assumes "rebuilds_in budget ixs sv" "set todo \<subseteq> ixs"
  shows "\<exists>todo' doing' s'. start_builds sv n todo doing s = (Inr (todo', doing'), s')
     \<and> mset todo' + mset doing' = mset todo + mset doing \<and> budget (rb_world s') \<le> budget (rb_world s)
     \<and> (todo \<noteq> [] \<or> doing \<noteq> [] \<longrightarrow> 0 < n \<longrightarrow> doing' \<noteq> [])"
  using assms
proof (induction sv n todo doing arbitrary: s rule: start_builds.induct)
  case (1 sv n todo doing)
  show ?case
  proof (cases "todo \<noteq> [] \<and> int (length doing) < n")
    case True
    obtain s1 where s1: "start_index sv (last todo) s = (Inr (), s1)" "budget (rb_world s1) \<le> budget (rb_world s)"
      using start_index_ends [OF "1.prems"(1)] "1.prems"(2) True by (metis last_in_set subsetD)
    have "set (butlast todo) \<subseteq> ixs" using "1.prems"(2) by (auto dest: in_set_butlastD)
    from "1.IH" [OF True "1.prems"(1) this, of s1] obtain todo' doing' s' where r:
      "start_builds sv n (butlast todo) (doing @ [last todo]) s1 = (Inr (todo', doing'), s')"
      "mset todo' + mset doing' = mset (butlast todo) + mset (doing @ [last todo])"
      "budget (rb_world s') \<le> budget (rb_world s1)" "0 < n \<longrightarrow> doing' \<noteq> []" by auto
    have "mset todo = mset (butlast todo) + {#last todo#}"
      using True by (metis append_butlast_last_id mset.simps mset_append)
    then have m: "mset todo' + mset doing' = mset todo + mset doing" using r(2) by simp
    have "start_builds sv n todo doing s = (Inr (todo', doing'), s')"
      by (subst start_builds.simps) (simp add: True bind_def s1 r(1))
    then show ?thesis using r m s1 by (intro exI [of _ todo'] exI [of _ doing'] exI [of _ s']) auto
  next
    case False
    then have "start_builds sv n todo doing s = (Inr (todo, doing), s)"
      by (subst start_builds.simps) (auto simp: ret_def)
    then show ?thesis using False by auto
  qed
qed

lemma check_builds_ends:
  assumes "rebuilds_in budget ixs sv" "set doing \<subseteq> ixs"
  shows "\<exists>doing' s'. check_builds sv doing s = (Inr doing', s') \<and> set doing' \<subseteq> set doing
     \<and> length doing' + budget (rb_world s') \<le> budget (rb_world s)"
  using assms(2)
proof (induction doing arbitrary: s)
  case (Cons i rest)
  obtain db t name where i: "i = (db, t, name)" by (cases i)
  note r = rebuilds_inD [OF assms(1), of db t name]
  have ix: "(db, t, name) \<in> ixs" and rest: "set rest \<subseteq> ixs" using Cons.prems i by auto
  obtain b w where b: "sv_ready sv db t (temp_name name) (rb_world s) = (Inr b, w)"
    "budget w + (if b then 0 else 1) \<le> budget (rb_world s)" using r(3) [OF ix] by blast
  let ?s = "s\<lparr>rb_world := w, rb_asked := rb_asked s @ [IndexReady (db, t, name)]\<rparr>"
  show ?case
  proof (cases b)
    case True
    obtain w' where w': "sv_rename sv db t (temp_name name) name w = (Inr (), w')" "budget w' \<le> budget w"
      using r(4) [OF ix] by blast
    let ?t = "?s\<lparr>rb_world := w', rb_asked := rb_asked ?s @ [RenameTemp (db, t, name)]\<rparr>"
    obtain doing' s' where d: "check_builds sv rest ?t = (Inr doing', s')" "set doing' \<subseteq> set rest"
      "length doing' + budget (rb_world s') \<le> budget (rb_world ?t)" using Cons.IH [OF rest] by blast
    have "check_builds sv (i # rest) s = (Inr doing', s')"
      using b(1) w'(1) d(1) True by (simp add: i bind_def asking_def)
    then show ?thesis using d(2,3) b(2) w'(2) True by auto
  next
    case False
    obtain doing' s' where d: "check_builds sv rest ?s = (Inr doing', s')" "set doing' \<subseteq> set rest"
      "length doing' + budget (rb_world s') \<le> budget (rb_world ?s)" using Cons.IH [OF rest] by blast
    have "check_builds sv (i # rest) s = (Inr (i # doing'), s')"
      using b(1) d(1) False by (simp add: i bind_def asking_def ret_def)
    then show ?thesis using d(2,3) b(2) False by auto
  qed
qed (simp add: ret_def)

lemma rebuild_loop_ends:
  assumes "rebuilds_in budget ixs sv" "set todo \<union> set doing \<subseteq> ixs" "0 < n"
    and "length todo + length doing + budget (rb_world s) < k"
  shows "\<exists>s'. rebuild_loop k sv n todo doing s = (Inr True, s')"
  using assms(2,4)
proof (induction k arbitrary: todo doing s)
  case (Suc k)
  show ?case
  proof (cases "todo = [] \<and> doing = []")
    case False
    obtain todo' doing' s1 where b: "start_builds sv n todo doing s = (Inr (todo', doing'), s1)"
      "mset todo' + mset doing' = mset todo + mset doing" "budget (rb_world s1) \<le> budget (rb_world s)" "doing' \<noteq> []"
      using start_builds_ends [OF assms(1), of todo n doing s] Suc.prems(1) False assms(3) by auto
    have sub: "set todo' \<union> set doing' \<subseteq> ixs" and len: "length todo' + length doing' = length todo + length doing"
      using arg_cong [OF b(2), of set_mset] Suc.prems(1) arg_cong [OF b(2), of size] by simp_all
    obtain doing'' s2 where c: "check_builds sv doing' s1 = (Inr doing'', s2)" "set doing'' \<subseteq> set doing'"
      "length doing'' + budget (rb_world s2) \<le> budget (rb_world s1)"
      using check_builds_ends [OF assms(1), of doing' s1] sub by auto
    have "0 < length doing'" using b(4) by simp
    then have "length todo' + length doing'' + budget (rb_world s2) < k"
      using Suc.prems(2) b(3) c(3) len by linarith
    then obtain s' where r: "rebuild_loop k sv n todo' doing'' s2 = (Inr True, s')"
      using Suc.IH [of todo' doing'' s2] sub c(2) by blast
    show ?thesis unfolding rebuild_loop.simps if_not_P [OF False] using b(1) c(1) r by (simp add: bind_def)
  qed (simp add: ret_def)
qed simp

text \<open>C30. A rebuild ends: with a server that answers each query, has the indexes it is asked about and
  says only so many times that an index is not ready yet, the loop is done after as many turns as there
  are indexes and such answers, and one.\<close>

theorem rebuild_ends:
  assumes "rebuilds_in budget (set indexes) sv" "1 \<le> n" "rb_asked s = []"
    and "length indexes + budget (rb_world s) < k"
  shows "\<exists>s'. rebuild_loop k sv n indexes [] s = (Inr True, s') \<and> mset (renamed (rb_asked s')) = mset indexes"
proof -
  obtain s' where r: "rebuild_loop k sv n indexes [] s = (Inr True, s')"
    using rebuild_loop_ends [OF assms(1), of indexes "[]" n s k] assms(2,4) by auto
  have "on_course n (mset indexes) indexes [] (rb_asked s)"
    using assms(2,3) by (intro only_listed_course) (simp_all add: only_listed_def)
  from triple_Inr [OF rebuild_loop_course this r] show ?thesis using r by blast
qed

text \<open>A server with a table that has one outdated index, not ready at the first question.\<close>

definition one_index :: "nat index_server" where
  "one_index = \<lparr>sv_tables = ret [(''d'', ''t'')], sv_table_list = \<lambda>db. ret [''t''], sv_index_list = \<lambda>db t. ret [''i''],
     sv_outdated = \<lambda>db t. ret [''i''], sv_all = \<lambda>db t. ret [''i''], sv_functions = \<lambda>db t. ret [(''i'', JBool True)],
     sv_create = \<lambda>db t i f. ret (), sv_ready = \<lambda>db t i n. (Inr (n = 0), n - 1), sv_rename = \<lambda>db t i j. ret ()\<rparr>"

theorem rebuild_ends_witness:
  "\<exists>s'. rebuild_loop 4 one_index 1 [(''d'', ''t'', ''i'')] [] \<lparr>rb_world = 2, rb_asked = []\<rparr> = (Inr True, s')
     \<and> mset (renamed (rb_asked s')) = mset [(''d'', ''t'', ''i'')]"
proof (rule rebuild_ends [where budget = "\<lambda>n. n"])
  show "rebuilds_in (\<lambda>n. n) (set [(''d'', ''t'', ''i'')]) one_index"
    by (auto simp: rebuilds_in_def one_index_def ret_def)
qed simp_all

theorem rebuilds_each_once_witness:
  "(\<forall>k. in_flight (take k (rb_asked (snd (rebuild_indexes 4 one_index False 1 [] \<lparr>rb_world = 1, rb_asked = []\<rparr>)))) \<le> 1)
     \<and> fst (rebuild_indexes 4 one_index False 1 [] \<lparr>rb_world = 1, rb_asked = []\<rparr>) = Inr ([(''d'', ''t'', ''i'')], True)"
proof
  let ?s = "\<lparr>rb_world = 1, rb_asked = []\<rparr> :: nat rebuilder"
  show "\<forall>k. in_flight (take k (rb_asked (snd (rebuild_indexes 4 one_index False 1 [] ?s)))) \<le> 1"
    using rebuilds_each_once [of 1 ?s 4 one_index False "[]"] by (metis prod.collapse rebuilder.select_convs(2) zero_le_one)
  show "fst (rebuild_indexes 4 one_index False 1 [] ?s) = Inr ([(''d'', ''t'', ''i'')], True)"
    by code_simp
qed

subsection \<open>What stops it\<close>

lemma flesh_out_stops:
  assumes "list_all (\<lambda>(db, t). t \<noteq> None) pre" "sv_table_list sv db (rb_world s) = (Inr names, w)"
  shows "flesh_out sv (pre @ (db, None) # post) s
     = (Inl list_index, s\<lparr>rb_world := w, rb_asked := rb_asked s @ [TableNames db]\<rparr>)"
  using assms(1)
proof (induction pre)
  case (Cons p pre)
  then obtain d t where "p = (d, Some t)" by (cases p) auto
  then show ?case using Cons by (simp add: bind_def)
qed (use assms(2) in \<open>simp add: bind_def asking_def raise_def\<close>)

text \<open>A database cannot be named: when one of the \<open>-r\<close> options is a database, the run asks for its tables
  and then stops with a \<open>TypeError\<close>, before anything else has been asked or changed, though the option's
  help and the examples offer this.\<close>

theorem database_not_rebuilt:
  assumes "list_all (\<lambda>(db, t). t \<noteq> None) pre" "sv_table_list sv db (rb_world s) = (Inr names, w)"
  shows "rebuild_indexes fuel sv force n (pre @ (db, None) # post) s
     = (Inl list_index, s\<lparr>rb_world := w, rb_asked := rb_asked s @ [TableNames db]\<rparr>)"
  using flesh_out_stops [of pre sv db s names w post] assms by (simp add: rebuild_indexes_def chosen_tables_def bind_def)

theorem database_not_rebuilt_witness:
  "rebuild_indexes 4 one_index False 1 ([(''d'', Some ''t'')] @ (''test'', None) # []) \<lparr>rb_world = 1, rb_asked = []\<rparr>
     = (Inl list_index, \<lparr>rb_world = 1, rb_asked = [TableNames ''test'']\<rparr>)"
  using database_not_rebuilt [of "[(''d'', Some ''t'')]" one_index "''test''" "\<lparr>rb_world = 1, rb_asked = []\<rparr>" "[''t'']" 1 4 False 1 "[]"]
  by (simp add: one_index_def ret_def)

lemma wipe_names_stops: "wipe_names names = (if list_ex (prefix temp_prefix) names then Inl string_index else Inr ())"
  by (induction names) simp_all

text \<open>An index left over by a rebuild that was interrupted, which the run is to drop, stops every later run
  on its table with a \<open>TypeError\<close>.\<close>

theorem leftover_stops:
  assumes "sv_index_list sv db t (rb_world s) = (Inr names, w)" "\<exists>i \<in> set names. prefix temp_prefix i"
  shows "rebuild_indexes fuel sv force n [(db, Some t)] s
     = (Inl string_index, s\<lparr>rb_world := w, rb_asked := rb_asked s @ [IndexNames db t]\<rparr>)"
  using assms
  by (simp add: rebuild_indexes_def chosen_tables_def bind_def asking_def ret_def lift_res_def wipe_names_stops list_ex_iff)

theorem leftover_stops_witness:
  "rebuild_indexes 4 (one_index\<lparr>sv_index_list := \<lambda>db t. ret [temp_name ''i'']\<rparr>) False 1 [(''d'', Some ''t'')] \<lparr>rb_world = 1, rb_asked = []\<rparr>
     = (Inl string_index, \<lparr>rb_world = 1, rb_asked = [IndexNames ''d'' ''t'']\<rparr>)"
  using leftover_stops [of "one_index\<lparr>sv_index_list := \<lambda>db t. ret [temp_name ''i'']\<rparr>" "''d''" "''t''"
      "\<lparr>rb_world = 1, rb_asked = []\<rparr>" "[temp_name ''i'']" 1 4 False 1]
  by (simp add: ret_def temp_name_def)

end
