(* ===== verification/JsonFile.thy ===== *)
theory JsonFile
  imports SourceFile Triples
begin

text \<open>
  \<open>JsonSourceFile\<close> of \<open>rethinkdb/_import.py\<close>: the documents of a JSON file, an array of them or one
  after the other, read through a buffer that holds the part of the file that is not parsed yet.

  \<open>rd n s\<close> is how many of the characters \<open>s\<close> that are left a read of at most \<open>n\<close> gives: all
  it can (\<open>min n\<close>, here just \<open>n\<close>) for a text file; a codec reader counts bytes and may give fewer.
\<close>

subsection \<open>The file\<close>

record json_file =
  jf_left :: string
  jf_buffer :: "string option"
  jf_pos :: nat
  jf_end :: nat
  jf_size :: int
  jf_max :: int
  jf_array :: "bool option"
  jf_first :: bool
  jf_bytes :: int

definition json_source :: "int \<Rightarrow> int \<Rightarrow> string \<Rightarrow> json_file" where
  "json_source csize maximum text =
     \<lparr>jf_left = text, jf_buffer = None, jf_pos = 0, jf_end = 0, jf_size = csize, jf_max = maximum,
      jf_array = None, jf_first = False, jf_bytes = - 1\<rparr>"

definition json_read_chunk_size :: int where "json_read_chunk_size = 128 * 1024"

definition json_max_buffer_size :: int where "json_max_buffer_size = 128 * 1024 * 1024"

definition buf :: "json_file \<Rightarrow> string" where
  "buf f = (case jf_buffer f of None \<Rightarrow> [] | Some b \<Rightarrow> b)"

text \<open>\<open>fill_buffer\<close>; the message of the exception about the limit is never made, as it needs an
  attribute that does not exist.\<close>

definition next_chunk :: "(nat \<Rightarrow> string \<Rightarrow> nat) \<Rightarrow> (json_file, unit) file_io" where
  "next_chunk rd f =
     (let target = jf_size f - int (jf_end f) + int (jf_pos f)
      in if target < 1
         then (Inl (Raises (py_exc PyAssertionError ''Can not set the read target and full the buffer'')), f)
         else
           (let n = rd (nat target) (jf_left f);
                chunk = take n (jf_left f);
                f' = f\<lparr>jf_left := drop n (jf_left f)\<rparr>;
                b = drop (jf_pos f) (buf f) @ chunk
            in if chunk = [] then (Inl StopIteration, f')
               else (Inr (), f'\<lparr>jf_buffer := Some b, jf_pos := 0, jf_end := length b - 1,
                       jf_bytes := jf_bytes f + int (length chunk)\<rparr>)))"

definition no_bytes_processed :: error where
  "no_bytes_processed = py_exc PyAttributeError
     ([CHR 0x27] @ ''JsonSourceFile'' @ [CHR 0x27] @ '' object has no attribute '' @ [CHR 0x27] @ ''bytes_processed'' @ [CHR 0x27])"

definition fill_buffer :: "(nat \<Rightarrow> string \<Rightarrow> nat) \<Rightarrow> (json_file, unit) file_io" where
  "fill_buffer rd f =
     (if jf_buffer f = None then next_chunk rd (f\<lparr>jf_buffer := Some [], jf_pos := 0, jf_end := 0\<rparr>)
      else if jf_pos f = 0 then
        (if jf_size f = jf_max f then (Inl (Raises no_bytes_processed), f)
         else next_chunk rd (f\<lparr>jf_size := min (jf_size f * 2) (jf_max f)\<rparr>))
      else next_chunk rd f)"

text \<open>\<open>get_line\<close>\<close>

definition blanks :: "string \<Rightarrow> nat" where
  "blanks s = length (takeWhile is_ws s)"

definition over_blanks :: "json_file \<Rightarrow> json_file" where
  "over_blanks f = f\<lparr>jf_pos := jf_pos f + blanks (drop (jf_pos f) (buf f))\<rparr>"

definition within :: "(json_file, unit) file_io" where
  "within f = (if jf_end f \<le> jf_pos f then (Inl NeedMoreData, f) else (Inr (), f))"

definition over_comma :: "(json_file, unit) file_io" where
  "over_comma f =
     (if jf_array f = Some True \<and> jf_first f \<and> buf f ! jf_pos f = CHR '',''
      then within (f\<lparr>jf_pos := jf_pos f + 1\<rparr>) else (Inr (), f))"

definition parse_row :: "(json_file, json) file_io" where
  "parse_row f =
     (case raw_decode (drop (jf_pos f) (buf f)) of
        Inr (row, rest) \<Rightarrow> (Inr row, f\<lparr>jf_pos := length (buf f) - length rest, jf_first := True\<rparr>)
      | Inl _ \<Rightarrow> (Inl NeedMoreData, f))"

definition seek_row :: "(json_file, unit) file_io" where
  "seek_row =
     bind (\<lambda>f. (Inr (), over_blanks f)) (\<lambda>_. bind within (\<lambda>_. bind over_comma (\<lambda>_.
     bind (\<lambda>f. (Inr (), over_blanks f)) (\<lambda>_. within))))"

definition get_line :: "(json_file, json) file_io" where
  "get_line = bind seek_row (\<lambda>_. parse_row)"

text \<open>\<open>setup_file\<close>\<close>

lemma fill_takes: "fill_buffer rd f = (Inr u, f') \<Longrightarrow> length (jf_left f') < length (jf_left f)"
  by (auto simp: fill_buffer_def next_chunk_def Let_def split: if_splits)

function skip_leading :: "(nat \<Rightarrow> string \<Rightarrow> nat) \<Rightarrow> (json_file, unit) file_io" where
  "skip_leading rd f =
     (case fill_buffer rd f of
        (Inl e, f') \<Rightarrow> (Inl e, f')
      | (Inr u, f') \<Rightarrow>
          (let f'' = f'\<lparr>jf_pos := blanks (buf f')\<rparr>
           in if jf_pos f'' = 0 then (Inr (), f'') else skip_leading rd f''))"
  by pat_completeness auto
termination
  by (relation "measure (\<lambda>(rd, f). length (jf_left f))") (auto dest: fill_takes [OF sym])

declare skip_leading.simps [simp del]

definition first_character :: "(json_file, unit) file_io" where
  "first_character f =
     (case buf f of
        [] \<Rightarrow> (Inl (Raises (py_exc PyValueError ''Error: JSON file was empty of content'')), f)
      | c # _ \<Rightarrow>
          if c = CHR ''['' then (Inr (), f\<lparr>jf_array := Some True, jf_pos := 1\<rparr>)
          else if c = CHR ''{'' then (Inr (), f\<lparr>jf_array := Some False\<rparr>)
          else (Inl (Raises (py_exc PyValueError
            ''Error: JSON format not recognized - file does not begin with an object or array'')), f))"

definition setup_file :: "(nat \<Rightarrow> string \<Rightarrow> nat) \<Rightarrow> (json_file, unit) file_io" where
  "setup_file rd = bind (skip_leading rd) (\<lambda>_. first_character)"

text \<open>\<open>teardown\<close>\<close>

definition snippet :: "string \<Rightarrow> string" where
  "snippet s = ''<<'' @ take 100 s @ ''>>''
     @ (if length s \<le> 100 then [] else '' and '' @ show_nat (length s - 100) @ '' more characters'')"

definition array_end :: "(json_file, unit) file_io" where
  "array_end f =
     (if jf_array f = Some True then
        (if length (buf f) \<le> jf_pos f
         then (Inl (Raises (py_exc PyIndexError ''string index out of range'')), f)
         else if buf f ! jf_pos f \<noteq> CHR '']''
         then (Inl (Raises (py_exc PyValueError
           (''Error: JSON array did not end cleanly, rather with: '' @ snippet (drop (jf_pos f) (buf f))))), f)
         else (Inr (), f\<lparr>jf_pos := jf_pos f + 1\<rparr>))
      else (Inr (), f))"

definition file_end :: "(json_file, unit) file_io" where
  "file_end f =
     (let rest = drop (jf_pos f) (buf f)
      in if rest \<noteq> []
         then (Inl (Raises (py_exc PyValueError (''Error: extra data after JSON data: '' @ snippet rest))), f)
         else (Inr (), f))"

definition teardown :: "(json_file, unit) file_io" where
  "teardown =
     bind (\<lambda>f. (Inr (), over_blanks f)) (\<lambda>_. bind array_end (\<lambda>_.
     bind (\<lambda>f. (Inr (), over_blanks f)) (\<lambda>_. file_end)))"

text \<open>The batches of a file; the fuel is two units per character.\<close>

definition import_json :: "(nat \<Rightarrow> string \<Rightarrow> nat) \<Rightarrow> int \<Rightarrow> int \<Rightarrow> int \<Rightarrow> string
    \<Rightarrow> json list list \<times> ending \<times> json_file" where
  "import_json rd csize maximum n text =
     batches (2 * length text + 1) (setup_file rd) get_line (fill_buffer rd) teardown n
       (json_source csize maximum text)"

subsection \<open>Reading ends\<close>

definition remaining :: "json_file \<Rightarrow> nat" where
  "remaining f = 2 * length (jf_left f) + length (drop (jf_pos f) (buf f))"

lemma buf_over_blanks [simp]:
  "buf (over_blanks f) = buf f" "jf_left (over_blanks f) = jf_left f" "jf_end (over_blanks f) = jf_end f"
  "jf_array (over_blanks f) = jf_array f" "jf_first (over_blanks f) = jf_first f"
  "jf_size (over_blanks f) = jf_size f" "jf_max (over_blanks f) = jf_max f" "jf_buffer (over_blanks f) = jf_buffer f"
  by (simp_all add: over_blanks_def buf_def)

lemma buf_update [simp]:
  "buf (f\<lparr>jf_pos := p\<rparr>) = buf f" "buf (f\<lparr>jf_first := b\<rparr>) = buf f" "buf (f\<lparr>jf_left := l\<rparr>) = buf f"
  "buf (f\<lparr>jf_size := n\<rparr>) = buf f" "buf (f\<lparr>jf_array := a\<rparr>) = buf f"
  by (simp_all add: buf_def)

text \<open>\<open>get_line\<close> only moves forward in the buffer, and past something when it gives a row.\<close>

definition ahead :: "json_file \<Rightarrow> json_file \<Rightarrow> bool" where
  "ahead f g \<longleftrightarrow> jf_pos f \<le> jf_pos g \<and> g = f\<lparr>jf_pos := jf_pos g, jf_first := jf_first g\<rparr>"

lemma ahead_refl: "ahead f f"
  by (simp add: ahead_def)

lemma ahead_pos: "jf_pos f \<le> p \<Longrightarrow> ahead f (f\<lparr>jf_pos := p\<rparr>)"
  by (simp add: ahead_def)

lemma ahead_blanks: "ahead f (over_blanks f)"
  by (simp add: over_blanks_def ahead_pos)

lemma ahead_trans: "ahead f g \<Longrightarrow> ahead g h \<Longrightarrow> ahead f h"
  by (cases f; cases g; cases h) (simp add: ahead_def)

lemma ahead_frame:
  "ahead f g \<Longrightarrow> buf g = buf f \<and> jf_left g = jf_left f \<and> jf_array g = jf_array f \<and> jf_end g = jf_end f
     \<and> jf_buffer g = jf_buffer f"
  by (cases f; cases g) (simp add: ahead_def buf_def)

lemma ahead_remaining: "ahead f g \<Longrightarrow> remaining g \<le> remaining f"
  using ahead_frame [of f g] by (auto simp: remaining_def ahead_def)

interpretation jf: frame_relation ahead
  by unfold_locales (auto intro: ahead_refl ahead_trans)

named_theorems jf_intros \<open>steps that only move forward in the buffer\<close>

lemmas [jf_intros] = jf.within_intros

lemma ahead_steps [jf_intros]:
  "steps_within ahead (\<lambda>f. (Inr (), over_blanks f))" "steps_within ahead within"
  "steps_within ahead over_comma"
  by (auto simp: within_def over_comma_def ahead_blanks ahead_refl ahead_pos)

lemma ahead_parse_row [jf_intros]: "steps_within ahead parse_row"
proof
  fix f
  show "ahead f (snd (parse_row f))"
  proof (cases "raw_decode (drop (jf_pos f) (buf f))")
    case (Inr x)
    obtain row rest where x: "x = (row, rest)" by (cases x)
    have "length rest < length (drop (jf_pos f) (buf f))" using raw_decode_shorter Inr x by blast
    then have "jf_pos f \<le> length (buf f) - length rest" by simp
    then show ?thesis using Inr x by (auto simp: parse_row_def ahead_def)
  qed (simp add: parse_row_def ahead_refl)
qed

lemma parse_row_takes: "parse_row f = (Inr r, f') \<Longrightarrow> remaining f' < remaining f"
  using raw_decode_shorter [of "drop (jf_pos f) (buf f)"]
  by (fastforce simp: parse_row_def remaining_def split: sum.splits prod.splits)

lemma ahead_seek [jf_intros]: "steps_within ahead seek_row"
  unfolding seek_row_def by (intro jf_intros)

lemma ahead_get_line: "steps_within ahead get_line"
  unfolding get_line_def by (intro jf_intros)

lemma get_line_takes:
  assumes "get_line f = (Inr r, f')"
  shows "remaining f' < remaining f"
proof -
  obtain u g where g: "seek_row f = (Inr u, g)" "parse_row g = (Inr r, f')"
    using assms by (auto simp: get_line_def comp_simps)
  have "ahead f g" using ahead_seek g(1) by (rule steps_withinD)
  then show ?thesis using ahead_remaining parse_row_takes [OF g(2)] by fastforce
qed

lemma next_chunk_remaining: "next_chunk rd f = (Inr u, f') \<Longrightarrow> remaining f' < remaining f"
  by (cases "jf_left f") (auto simp: next_chunk_def Let_def remaining_def buf_def min_def split: if_splits)

lemma fill_buffer_remaining: "fill_buffer rd f = (Inr u, f') \<Longrightarrow> remaining f' < remaining f"
  using next_chunk_remaining [of rd _ u f']
  by (fastforce simp: fill_buffer_def remaining_def buf_def split: if_splits)

interpretation jsf: row_source get_line "fill_buffer rd" remaining for rd
proof
  fix f f1 f2 u assume g: "get_line f = (Inl NeedMoreData, f1)" and b: "fill_buffer rd f1 = (Inr u, f2)"
  have "remaining f1 \<le> remaining f" using steps_withinD [OF ahead_get_line g] by (rule ahead_remaining)
  then show "remaining f2 < remaining f" using fill_buffer_remaining [OF b] by simp
qed (rule get_line_takes)

subsection \<open>What \<open>get_line\<close> does, on texts\<close>

definition loaded :: "json_file \<Rightarrow> bool" where
  "loaded f \<longleftrightarrow> jf_buffer f \<noteq> None \<and> buf f \<noteq> [] \<and> jf_pos f \<le> length (buf f) \<and> jf_end f = length (buf f) - 1"

definition here :: "json_file \<Rightarrow> string" where
  "here f = drop (jf_pos f) (buf f)"

definition todo :: "json_file \<Rightarrow> string" where
  "todo f = here f @ jf_left f"

text \<open>The position before a suffix of the buffer.\<close>

definition before :: "string \<Rightarrow> json_file \<Rightarrow> json_file" where
  "before s f = f\<lparr>jf_pos := length (buf f) - length s\<rparr>"

definition commas :: "json_file \<Rightarrow> bool" where
  "commas f \<longleftrightarrow> jf_array f = Some True \<and> jf_first f"

definition seek :: "bool \<Rightarrow> string \<Rightarrow> bool \<times> string" where
  "seek c s =
     (let s1 = skip_ws s
      in if length s1 \<le> 1 then (False, s1)
         else if c \<and> hd s1 = CHR '','' then
           (if length (tl s1) \<le> 1 then (False, tl s1)
            else (1 < length (skip_ws (tl s1)), skip_ws (tl s1)))
         else (True, s1))"

lemma before_fields [simp]:
  "buf (before s f) = buf f" "jf_left (before s f) = jf_left f" "jf_array (before s f) = jf_array f"
  "jf_first (before s f) = jf_first f" "jf_end (before s f) = jf_end f" "commas (before s f) = commas f"
  "jf_size (before s f) = jf_size f" "jf_max (before s f) = jf_max f" "before s (before t f) = before s f"
  by (simp_all add: before_def commas_def)

lemma loaded_before [simp]: "loaded f \<Longrightarrow> loaded (before s f)"
  by (simp add: loaded_def before_def)

lemma before_here: "loaded f \<Longrightarrow> before (here f) f = f"
  by (simp add: before_def here_def loaded_def)

lemma here_before: "loaded f \<Longrightarrow> here f = p @ s \<Longrightarrow> here (before s f) = s"
proof -
  assume "loaded f" "here f = p @ s"
  then obtain q where "buf f = q @ p @ s" by (metis here_def append_take_drop_id)
  then show ?thesis by (simp add: here_def before_def)
qed

lemma skip_ws_drop: "skip_ws s = drop (blanks s) s"
  by (simp add: skip_ws_def blanks_def dropWhile_eq_drop)

lemma blanks_le: "blanks s \<le> length s"
  by (simp add: blanks_def length_takeWhile_le)

lemma over_blanks_before:
  assumes "loaded f"
  shows "over_blanks f = before (skip_ws (here f)) f"
proof -
  have "blanks (here f) \<le> length (here f)" by (rule blanks_le)
  moreover have "length (here f) = length (buf f) - jf_pos f" "jf_pos f \<le> length (buf f)"
    using assms by (simp_all add: here_def loaded_def)
  ultimately have "jf_pos f + blanks (here f) = length (buf f) - (length (here f) - blanks (here f))" by linarith
  then show ?thesis by (simp add: over_blanks_def before_def skip_ws_drop here_def [symmetric])
qed

lemma within_run: "loaded f \<Longrightarrow> within f = (if length (here f) \<le> 1 then Inl NeedMoreData else Inr (), f)"
  by (auto simp: within_def loaded_def here_def)

lemma hd_here: "here f \<noteq> [] \<Longrightarrow> buf f ! jf_pos f = hd (here f)"
  by (simp add: here_def hd_drop_conv_nth)

lemma over_comma_run:
  assumes "loaded f" "here f \<noteq> []"
  shows "over_comma f = (if commas f \<and> hd (here f) = CHR '',''
    then within (before (tl (here f)) f) else (Inr (), f))"
proof -
  have "f\<lparr>jf_pos := jf_pos f + 1\<rparr> = before (tl (here f)) f"
    using assms by (simp add: before_def here_def)
  then show ?thesis using hd_here [OF assms(2)] by (simp add: over_comma_def commas_def)
qed

lemma skip_ws_suffix: "\<exists>p. s = p @ skip_ws s"
  by (metis skip_ws_def takeWhile_dropWhile_id)

lemma here_skip: "loaded f \<Longrightarrow> here (before (skip_ws (here f)) f) = skip_ws (here f)"
  using here_before skip_ws_suffix by blast

lemma skip_ws_idem [simp]: "skip_ws (skip_ws s) = skip_ws s"
  by (simp add: skip_ws_def)

lemma seek_row_run:
  assumes "loaded f"
  shows "seek_row f = (case seek (commas f) (here f) of
    (ok, s) \<Rightarrow> (if ok then Inr () else Inl NeedMoreData, before s f))"
proof -
  let ?s1 = "skip_ws (here f)"
  let ?f1 = "before ?s1 f"
  have f1: "loaded ?f1" "here ?f1 = ?s1" using assms here_skip by simp_all
  have s2: "here (before (tl ?s1) f) = tl ?s1"
  proof -
    obtain p where "here f = p @ ?s1" using skip_ws_suffix by blast
    then have "here f = (p @ take 1 ?s1) @ tl ?s1" by (cases ?s1) auto
    then show ?thesis using here_before [OF assms] by blast
  qed
  have f2: "loaded (before (tl ?s1) f)" using assms by simp
  have s3: "over_blanks (before (tl ?s1) f) = before (skip_ws (tl ?s1)) f"
    "here (before (skip_ws (tl ?s1)) f) = skip_ws (tl ?s1)"
    using over_blanks_before [OF f2] here_skip [OF f2] s2 by simp_all
  have s1: "over_blanks ?f1 = ?f1" using over_blanks_before [OF f1(1)] f1(2) by simp
  note w = within_run [OF f1(1)] within_run [OF f2] within_run [of "before (skip_ws (tl ?s1)) f"]
  show ?thesis
  proof (cases "length ?s1 \<le> 1")
    case True
    then show ?thesis using over_blanks_before [OF assms] f1 w(1) by (simp add: seek_row_def bind_def seek_def)
  next
    case False
    then have ne: "?s1 \<noteq> []" by auto
    have oc: "over_comma ?f1 = (if commas f \<and> hd ?s1 = CHR '','' then within (before (tl ?s1) f) else (Inr (), ?f1))"
      using over_comma_run [OF f1(1)] f1(2) ne by simp
    show ?thesis
      using False assms over_blanks_before [OF assms] f1 f2 s1 s2 s3 oc w
      by (simp add: seek_row_def bind_def seek_def Let_def)
  qed
qed

lemma seek_suffix:
  assumes "seek c x = (ok, s)"
  shows "\<exists>p. x = p @ s"
proof -
  obtain p where p: "x = p @ skip_ws x" using skip_ws_suffix by blast
  obtain q where q: "tl (skip_ws x) = q @ skip_ws (tl (skip_ws x))" using skip_ws_suffix by blast
  have "x = (p @ take 1 (skip_ws x)) @ tl (skip_ws x)"
    using p by (cases "skip_ws x") auto
  then show ?thesis using assms p q by (auto simp: seek_def Let_def split: if_splits) (metis append_assoc)+
qed

definition at_row :: "string \<Rightarrow> json_file \<Rightarrow> json_file" where
  "at_row s f = (before s f)\<lparr>jf_first := True\<rparr>"

lemma get_line_run:
  assumes "loaded f"
  shows "get_line f = (case seek (commas f) (here f) of
    (ok, s) \<Rightarrow> if ok then (case raw_decode s of Inr (row, r) \<Rightarrow> (Inr row, at_row r f) | Inl _ \<Rightarrow> (Inl NeedMoreData, before s f))
      else (Inl NeedMoreData, before s f))"
proof -
  obtain ok s where s: "seek (commas f) (here f) = (ok, s)" by (cases "seek (commas f) (here f)")
  have "\<exists>p. here f = p @ s" by (rule seek_suffix [OF s])
  then have "here (before s f) = s" using here_before [OF assms] by blast
  then have "drop (jf_pos (before s f)) (buf f) = s" by (simp add: here_def)
  then show ?thesis
    using seek_row_run [OF assms] s
    by (auto simp: get_line_def bind_def parse_row_def at_row_def before_def split: sum.splits)
qed

subsection \<open>Separators, documents and the end of the file\<close>

definition all_ws :: "string \<Rightarrow> bool" where
  "all_ws s \<longleftrightarrow> list_all is_ws s"

definition separator :: "bool \<Rightarrow> string \<Rightarrow> bool" where
  "separator c s \<longleftrightarrow> all_ws s \<or> c \<and> (\<exists>u v. s = u @ CHR '','' # v \<and> all_ws u \<and> all_ws v)"

definition document :: "string \<Rightarrow> json \<Rightarrow> bool" where
  "document t row \<longleftrightarrow> t \<noteq> [] \<and> hd t = CHR ''{'' \<and> raw_decode t = Inr (row, [])"

definition ending_text :: "bool \<Rightarrow> string \<Rightarrow> bool" where
  "ending_text a s \<longleftrightarrow> (if a then \<exists>u v. s = u @ CHR '']'' # v \<and> all_ws u \<and> all_ws v else all_ws s)"

lemma all_ws_simps [simp]: "all_ws []" "all_ws (c # s) \<longleftrightarrow> is_ws c \<and> all_ws s" "all_ws (s @ t) \<longleftrightarrow> all_ws s \<and> all_ws t"
  by (simp_all add: all_ws_def)

lemma skip_all_ws: "all_ws u \<Longrightarrow> skip_ws (u @ s) = skip_ws s" "all_ws u \<Longrightarrow> skip_ws u = []"
  by (simp_all add: all_ws_def skip_ws_def list_all_iff dropWhile_append)

lemma skip_stuck: "s \<noteq> [] \<Longrightarrow> \<not> is_ws (hd s) \<Longrightarrow> skip_ws s = s"
  by (cases s) (simp_all add: skip_ws_def)

lemma not_ws [simp]: "\<not> is_ws (CHR ''{'')" "\<not> is_ws (CHR '']'')" "\<not> is_ws (CHR '','')" "\<not> is_ws (CHR ''['')"
  by (simp_all add: is_ws_def)

lemma separator_Nil [simp]: "separator c []"
  by (simp add: separator_def)

lemma seek_document:
  assumes "separator c sep" "t \<noteq> []" "hd t = CHR ''{''" "1 < length t"
  shows "seek c (sep @ t) = (True, t)"
proof -
  have t: "skip_ws t = t" using assms(2,3) by (intro skip_stuck) simp_all
  from assms(1) consider "all_ws sep" | u v where "c" "sep = u @ CHR '','' # v" "all_ws u" "all_ws v"
    by (auto simp: separator_def)
  then show ?thesis
  proof cases
    case 1
    then show ?thesis using t assms(3,4) by (simp add: seek_def skip_all_ws)
  next
    case 2
    have "skip_ws (sep @ t) = CHR '','' # v @ t" using 2 by (simp add: skip_all_ws skip_stuck)
    then show ?thesis using 2 t assms(2,4) by (cases t) (auto simp: seek_def skip_all_ws)
  qed
qed

text \<open>A text that is cut off within a separator or a document.\<close>

lemma seek_blank_cut:
  assumes "all_ws w" "w @ t = b @ u" "u \<noteq> []" "t \<noteq> []" "hd t = CHR ''{''"
  shows "\<exists>w' b'. skip_ws b = b' \<and> b' @ u = w' @ t \<and> all_ws w' \<and> (b' \<noteq> [] \<longrightarrow> w' = [] \<and> hd b' = CHR ''{'')"
proof -
  from assms(2) obtain x where "w = b @ x \<and> x @ t = u \<or> w @ x = b \<and> t = x @ u"
    by (auto simp: append_eq_append_conv2)
  then show ?thesis
  proof
    assume x: "w = b @ x \<and> x @ t = u"
    then show ?thesis using assms(1) skip_all_ws(2) [of b] by (intro exI [of _ x] exI [of _ "[]"]) simp
  next
    assume x: "w @ x = b \<and> t = x @ u"
    have "skip_ws b = x"
      using x assms(1,4,5) by (cases x) (auto simp: skip_all_ws skip_stuck)
    then show ?thesis using x assms(4,5) by (intro exI [of _ "[]"] exI [of _ x]) auto
  qed
qed

lemma seek_cut:
  assumes "separator c sep" "sep @ t = b @ u" "u \<noteq> []" "t \<noteq> []" "hd t = CHR ''{''"
  obtains ok b' sep' where "seek c b = (ok, b')" "b' @ u = sep' @ t" "separator c sep'"
    "ok \<Longrightarrow> sep' = [] \<and> b' \<noteq> []"
proof -
  from assms(1) consider "all_ws sep" | v w where "c" "sep = v @ CHR '','' # w" "all_ws v" "all_ws w"
    by (auto simp: separator_def)
  then show ?thesis
  proof cases
    case 1
    from seek_blank_cut [OF 1 assms(2-5)] obtain w' b' where
      b': "skip_ws b = b'" "b' @ u = w' @ t" "all_ws w'" "b' \<noteq> [] \<longrightarrow> w' = [] \<and> hd b' = CHR ''{''" by blast
    then show ?thesis using that [of "1 < length b'" b' w'] by (cases b') (auto simp: seek_def Let_def separator_def)
  next
    case 2
    have eq: "v @ (CHR '','' # w @ t) = b @ u" using assms(2) 2 by simp
    then obtain x where "v = b @ x \<and> x @ (CHR '','' # w @ t) = u \<or> v @ x = b \<and> CHR '','' # w @ t = x @ u"
      by (auto simp: append_eq_append_conv2)
    then show ?thesis
    proof
      assume x: "v = b @ x \<and> x @ (CHR '','' # w @ t) = u"
      then have "seek c b = (False, [])" using 2(3) skip_all_ws(2) [of b] by (simp add: seek_def)
      moreover have "separator c (x @ CHR '','' # w)" using 2 x by (auto simp: separator_def)
      ultimately show ?thesis using that [of False "[]" "x @ CHR '','' # w"] x by simp
    next
      assume x: "v @ x = b \<and> CHR '','' # w @ t = x @ u"
      show ?thesis
      proof (cases x)
        case Nil
        then have "seek c b = (False, [])" using x 2(3) skip_all_ws(2) [of b] by (simp add: seek_def)
        moreover have "separator c (CHR '','' # w)" using 2 by (auto simp: separator_def intro: exI [of _ "[]"])
        ultimately show ?thesis using that [of False "[]" "CHR '','' # w"] x Nil by simp
      next
        case (Cons y y')
        then have y: "y = CHR '',''" "w @ t = y' @ u" using x by auto
        have sb: "skip_ws b = CHR '','' # y'" using x Cons y(1) 2(3) by (auto simp: skip_all_ws skip_stuck)
        from seek_blank_cut [OF 2(4) y(2) assms(3-5)] obtain w' b' where
          b': "skip_ws y' = b'" "b' @ u = w' @ t" "all_ws w'" "b' \<noteq> [] \<longrightarrow> w' = [] \<and> hd b' = CHR ''{''" by blast
        show ?thesis
        proof (cases "y' = []")
          case True
          then have "seek c b = (False, CHR '','' # y')" using sb by (simp add: seek_def)
          moreover have "separator c (CHR '','' # w)" using 2 by (auto simp: separator_def intro: exI [of _ "[]"])
          ultimately show ?thesis using that [of False "CHR '','' # y'" "CHR '','' # w"] y by simp
        next
          case False
          show ?thesis
          proof (cases "length y' \<le> 1")
            case True
            then have "seek c b = (False, y')" using sb False 2(1) by (cases y') (auto simp: seek_def)
            then show ?thesis using that [of False y' w] y(2) 2(4) by (simp add: separator_def)
          next
            case long: False
            then have "seek c b = (1 < length b', b')" using sb 2(1) b'(1) False by (simp add: seek_def Let_def)
            then show ?thesis using that [of "1 < length b'" b' w'] b'(2-4) by (cases b') (auto simp: separator_def)
          qed
        qed
      qed
    qed
  qed
qed

text \<open>At the end of the file there is nothing to parse.\<close>

lemma seek_ending:
  assumes "ending_text a s" "s = b @ u"
  obtains ok b' where "seek c b = (ok, b')" "ending_text a (b' @ u)" "ok \<Longrightarrow> \<exists>z. b' = CHR '']'' # z"
proof (cases a)
  case False
  then have "all_ws b" "all_ws u" using assms by (auto simp: ending_text_def)
  then show ?thesis using that [of False "[]"] False skip_all_ws(2) [of b] by (simp add: seek_def ending_text_def)
next
  case True
  then obtain v w where s: "b @ u = v @ CHR '']'' # w" "all_ws v" "all_ws w"
    using assms by (auto simp: ending_text_def)
  then obtain x where "b = v @ x \<and> x @ u = CHR '']'' # w \<or> b @ x = v \<and> u = x @ CHR '']'' # w"
    by (auto simp: append_eq_append_conv2)
  then show ?thesis
  proof
    assume x: "b = v @ x \<and> x @ u = CHR '']'' # w"
    have "skip_ws b = x" using x s(2) by (cases x) (auto simp: skip_all_ws skip_stuck)
    moreover have "ending_text a (x @ u)" using x True s(3) by (auto simp: ending_text_def intro: exI [of _ "[]"])
    ultimately show ?thesis
      using that [of "1 < length x" x] x by (cases x) (auto simp: seek_def Let_def)
  next
    assume x: "b @ x = v \<and> u = x @ CHR '']'' # w"
    then have "seek c b = (False, [])" using s(2) skip_all_ws(2) [of b] by (auto simp: seek_def)
    moreover have "ending_text a u"
      using x s True by (simp add: ending_text_def) (rule exI [of _ x], rule exI [of _ w], auto)
    ultimately show ?thesis using that [of False "[]"] by simp
  qed
qed

lemma no_row_at_end: "raw_decode (CHR '']'' # z) = Inl Malformed"
  by (simp add: raw_decode_def parse_literal_def parse_number_def int_part_def starts_digit_def is_digit_def code_point_def)

subsection \<open>A well-formed file is read completely\<close>

text \<open>A reader that gives all it is asked for, as long as there is so much.\<close>

definition exact :: "nat \<Rightarrow> string \<Rightarrow> nat" where
  "exact n s = n"

definition item_text :: "string \<times> string \<times> json \<Rightarrow> string" where
  "item_text x = fst x @ fst (snd x)"

definition item_row :: "string \<times> string \<times> json \<Rightarrow> json" where
  "item_row x = snd (snd x)"

definition item_ok :: "bool \<Rightarrow> string \<times> string \<times> json \<Rightarrow> bool" where
  "item_ok c x \<longleftrightarrow> separator c (fst x) \<and> document (fst (snd x)) (item_row x)"

text \<open>The first document of an array has no comma before it.\<close>

fun items_ok :: "bool \<Rightarrow> bool \<Rightarrow> (string \<times> string \<times> json) list \<Rightarrow> bool" where
  "items_ok a c [] = True"
| "items_ok a c (x # xs) = (item_ok c x \<and> items_ok a a xs)"

text \<open>There is room in the buffer for what is next, and more can be asked for.\<close>

definition room :: "nat \<Rightarrow> json_file \<Rightarrow> bool" where
  "room m f \<longleftrightarrow> 1 \<le> jf_size f \<and> jf_size f < jf_max f \<and> 2 * int m \<le> jf_max f
     \<and> int (length (buf f)) \<le> jf_size f + 1 \<and> (jf_left f \<noteq> [] \<longrightarrow> jf_size f \<le> int (length (buf f)))"

lemma document_long: "document t row \<Longrightarrow> 1 < length t"
  by (cases t; cases "tl t") (auto simp: document_def raw_decode_def skip_ws_def starts_with_def res_simps rmap_def)

lemma room_before [simp]: "room m (before s f) = room m f"
  by (simp add: room_def)

lemma room_at_row [simp]: "room m (at_row s f) = room m f"
  by (simp add: room_def at_row_def)

lemma loaded_at_row [simp]: "loaded f \<Longrightarrow> loaded (at_row s f)"
  using loaded_before [of f s] by (simp add: at_row_def loaded_def)

lemma here_length: "loaded f \<Longrightarrow> length (here f) = length (buf f) - jf_pos f"
  by (simp add: here_def)

lemma next_chunk_run:
  "jf_size g - int (jf_end g) + int (jf_pos g) = int n \<Longrightarrow> 0 < n \<Longrightarrow> jf_left g \<noteq> []
     \<Longrightarrow> next_chunk exact g = (Inr (), g\<lparr>jf_left := drop n (jf_left g),
           jf_buffer := Some (drop (jf_pos g) (buf g) @ take n (jf_left g)), jf_pos := 0,
           jf_end := length (drop (jf_pos g) (buf g) @ take n (jf_left g)) - 1,
           jf_bytes := jf_bytes g + int (length (take n (jf_left g)))\<rparr>)"
  by (simp add: next_chunk_def Let_def exact_def)

text \<open>A turn of \<open>fill_buffer\<close> when there is more to come, and when there is not.\<close>

lemma fill_more:
  assumes "loaded f" "room m f" "jf_left f \<noteq> []" "length (here f) < m"
  shows "\<exists>f'. fill_buffer exact f = (Inr (), f') \<and> loaded f' \<and> room m f' \<and> todo f' = todo f
     \<and> jf_array f' = jf_array f \<and> jf_first f' = jf_first f \<and> remaining f' < remaining f"
proof -
  define sz where "sz = (if jf_pos f = 0 then min (jf_size f * 2) (jf_max f) else jf_size f)"
  define g where "g = f\<lparr>jf_size := sz\<rparr>"
  have fb: "fill_buffer exact f = next_chunk exact g"
    using assms(1,2) by (auto simp: fill_buffer_def loaded_def room_def sz_def g_def)
  let ?h = "int (length (here f))"
  have len: "int (length (buf f)) = ?h + int (jf_pos f)" using assms(1) by (simp add: here_length loaded_def)
  have pos: "0 < length (buf f)" "jf_end f = length (buf f) - 1" using assms(1) by (simp_all add: loaded_def)
  have sz: "1 \<le> sz" "sz < jf_max f" "?h \<le> sz"
    using assms(2,3,4) len by (auto simp: room_def sz_def split: if_splits)
  have target: "jf_size g - int (jf_end g) + int (jf_pos g) = sz + 1 - ?h"
  proof -
    have "int (jf_end f) = int (length (buf f)) - 1" using pos by (cases "buf f") auto
    then show ?thesis using len by (simp add: g_def)
  qed
  let ?n = "nat (sz + 1 - ?h)"
  let ?chunk = "take ?n (jf_left f)"
  have n: "0 < ?n" "int ?n = sz + 1 - ?h" using sz(3) by auto
  have c: "?chunk \<noteq> []" using n(1) assms(3) by simp
  define f' where "f' = g\<lparr>jf_left := drop ?n (jf_left f), jf_buffer := Some (here f @ ?chunk), jf_pos := 0,
    jf_end := length (here f @ ?chunk) - 1, jf_bytes := jf_bytes f + int (length ?chunk)\<rparr>"
  have run: "fill_buffer exact f = (Inr (), f')"
    using fb next_chunk_run [of g ?n] target n c by (simp add: f'_def g_def here_def buf_def)
  moreover have "loaded f'" using c by (auto simp: loaded_def f'_def buf_def)
  moreover have "todo f' = todo f" by (simp add: todo_def here_def f'_def buf_def)
  moreover have "room m f'"
  proof -
    have "int (length (here f @ ?chunk)) \<le> sz + 1" using n by simp
    moreover have "sz \<le> int (length (here f @ ?chunk))" if "drop ?n (jf_left f) \<noteq> []"
      using that n by simp
    ultimately show ?thesis using sz(1,2) assms(2) by (simp add: room_def f'_def g_def buf_def)
  qed
  moreover have "jf_array f' = jf_array f" "jf_first f' = jf_first f" by (simp_all add: f'_def g_def)
  ultimately show ?thesis using fill_buffer_remaining [OF run] by blast
qed

lemma fill_end:
  assumes "loaded f" "room m f" "jf_left f = []"
  shows "\<exists>f'. fill_buffer rd f = (Inl StopIteration, f') \<and> loaded f' \<and> here f' = here f \<and> jf_left f' = []
     \<and> jf_array f' = jf_array f"
proof -
  define sz where "sz = (if jf_pos f = 0 then min (jf_size f * 2) (jf_max f) else jf_size f)"
  define g where "g = f\<lparr>jf_size := sz\<rparr>"
  have fb: "fill_buffer rd f = next_chunk rd g"
    using assms(1,2) by (auto simp: fill_buffer_def loaded_def room_def sz_def g_def)
  have "1 \<le> jf_size g - int (jf_end g) + int (jf_pos g)"
    using assms(1,2) by (auto simp: room_def loaded_def sz_def g_def of_nat_diff split: if_splits)
  then have "fill_buffer rd f = (Inl StopIteration, g)"
    using fb assms(3) by (simp add: next_chunk_def Let_def g_def)
  then show ?thesis using assms by (auto simp: g_def loaded_def here_def)
qed

text \<open>The rows of a well-formed rest of a file, by induction on what is left.\<close>

lemma get_line_ending:
  assumes "loaded f" "here f @ u = s" "ending_text (jf_array f = Some True) s"
  shows "\<exists>s'. get_line f = (Inl NeedMoreData, before s' f) \<and> here (before s' f) = s'
     \<and> ending_text (jf_array f = Some True) (s' @ u)"
proof -
  obtain ok b where b: "seek (commas f) (here f) = (ok, b)"
    "ending_text (jf_array f = Some True) (b @ u)" "ok \<Longrightarrow> \<exists>z. b = CHR '']'' # z"
    using seek_ending [OF assms(3) assms(2) [symmetric]] by blast
  have "get_line f = (Inl NeedMoreData, before b f)"
    using get_line_run [OF assms(1)] b(1,3) no_row_at_end by (cases ok) auto
  moreover have "here (before b f) = b"
    using seek_suffix [OF b(1)] here_before [OF assms(1)] by blast
  ultimately show ?thesis using b(2) by blast
qed

lemma get_line_document:
  assumes "loaded f" "here f = item_text x @ z" "item_ok (commas f) x"
  shows "get_line f = (Inr (item_row x), at_row z f)"
proof -
  obtain sep t row where x: "x = (sep, t, row)" by (cases x)
  have d: "document t row" "separator (commas f) sep" using assms(3) x by (simp_all add: item_ok_def item_row_def)
  have h: "here f = sep @ (t @ z)" using assms(2) x by (simp add: item_text_def)
  have t: "1 < length t" using document_long [OF d(1)] .
  then have "seek (commas f) (here f) = (True, t @ z)"
    unfolding h using d by (intro seek_document) (auto simp: document_def)
  moreover have "raw_decode (t @ z) = Inr (row, z)"
    using raw_decode_extend [of t row "[]" z] d(1) raw_decode_number_head [of t row "[]"]
    by (auto simp: document_def number_head_def is_digit_def code_point_def)
  ultimately show ?thesis using get_line_run [OF assms(1)] x by (simp add: item_row_def)
qed

lemma get_line_cut:
  assumes "loaded f" "here f @ u = item_text x" "u \<noteq> []" "item_ok (commas f) x"
  shows "\<exists>b sep. get_line f = (Inl NeedMoreData, before b f) \<and> here (before b f) = b
     \<and> item_ok (commas f) (sep, snd x) \<and> b @ u = item_text (sep, snd x)"
proof -
  obtain sep t row where x: "x = (sep, t, row)" by (cases x)
  have d: "document t row" "separator (commas f) sep" using assms(4) x by (simp_all add: item_ok_def item_row_def)
  have t: "t \<noteq> []" "hd t = CHR ''{''" using d(1) by (simp_all add: document_def)
  have "sep @ t = here f @ u" using assms(2) x by (simp add: item_text_def)
  from seek_cut [OF d(2) this assms(3) t] obtain ok b sep' where
    b: "seek (commas f) (here f) = (ok, b)" "b @ u = sep' @ t" "separator (commas f) sep'"
      "ok \<Longrightarrow> sep' = [] \<and> b \<noteq> []" by blast
  have "get_line f = (Inl NeedMoreData, before b f)"
  proof (cases ok)
    case True
    have bt: "b @ u = t" "b \<noteq> []" using b(2,4) True by simp_all
    then have "hd b = CHR ''{''" using t by (cases b) auto
    then obtain e where "raw_decode b = Inl e"
      using raw_decode_truncated [of b u row "[]"] bt d(1) assms(3)
      by (auto simp: document_def number_head_def is_digit_def code_point_def)
    then show ?thesis using get_line_run [OF assms(1)] b(1) True by simp
  next
    case False
    then show ?thesis using get_line_run [OF assms(1)] b(1) by simp
  qed
  moreover have "here (before b f) = b"
    using seek_suffix [OF b(1)] here_before [OF assms(1)] by blast
  ultimately show ?thesis using b(2,3) d(1) x by (auto simp: item_ok_def item_row_def item_text_def)
qed

lemma append_shorter:
  "a @ b = c @ d \<Longrightarrow> \<not> length c \<le> length a \<Longrightarrow> \<exists>u. a @ u = c \<and> u \<noteq> [] \<and> b = u @ d"
  by (auto simp: append_eq_append_conv2)

lemma append_longer: "a @ b = c @ d \<Longrightarrow> length c \<le> length a \<Longrightarrow> \<exists>r. a = c @ r \<and> r @ b = d"
  by (auto simp: append_eq_append_conv2)

lemmas json_row = rows_of.row [of get_line _ _ _ "fill_buffer exact"]

lemmas json_more = rows_of.more [of get_line _ _ "fill_buffer exact"]

lemmas json_no_more = rows_of.no_more [of get_line _ _ "fill_buffer exact"]

lemma rows_of_file:
  assumes "loaded f" "room m f" "todo f = concat (map item_text xs) @ z"
    and "items_ok (jf_array f = Some True) (commas f) xs" "ending_text (jf_array f = Some True) z"
    and "\<forall>x \<in> set xs. length (item_text x) \<le> m" "length z \<le> m"
  shows "\<exists>f'. rows_of get_line (fill_buffer exact) f (map item_row xs) StopIteration f'
     \<and> loaded f' \<and> jf_array f' = jf_array f \<and> ending_text (jf_array f = Some True) (here f')"
  using assms
proof (induction "remaining f" arbitrary: f xs z rule: less_induct)
  case less
  let ?a = "jf_array f = Some True"
  have todo: "here f @ jf_left f = concat (map item_text xs) @ z" using less.prems(3) by (simp add: todo_def)
  show ?case
  proof (cases xs)
    case Nil
    then have "here f @ jf_left f = z" using todo by simp
    from get_line_ending [OF less.prems(1) this less.prems(5)] obtain s' where
      g: "get_line f = (Inl NeedMoreData, before s' f)" "here (before s' f) = s'" "ending_text ?a (s' @ jf_left f)" by blast
    show ?thesis
    proof (cases "jf_left f = []")
      case True
      from fill_end [of "before s' f" m exact] less.prems(1,2) True obtain f' where
        "fill_buffer exact (before s' f) = (Inl StopIteration, f')" "loaded f'" "here f' = s'" "jf_array f' = jf_array f"
        using g(2) by auto
      then show ?thesis using json_no_more [OF g(1)] Nil g(3) True by auto
    next
      case False
      have "length s' + length (jf_left f) \<le> length z"
      proof -
        have "length s' \<le> length (here f)"
          using steps_withinD [OF ahead_get_line g(1)] ahead_remaining g(2)
          by (fastforce simp: remaining_def here_def)
        then show ?thesis using \<open>here f @ jf_left f = z\<close> by auto
      qed
      then have "length (here (before s' f)) < m" using False less.prems(7) g(2) by (cases "jf_left f") auto
      from fill_more [OF _ _ _ this] less.prems(1,2) False obtain f1 where
        f1: "fill_buffer exact (before s' f) = (Inr (), f1)" "loaded f1" "room m f1" "todo f1 = todo (before s' f)"
        "jf_array f1 = jf_array f" "jf_first f1 = jf_first f" "remaining f1 < remaining (before s' f)" by auto
      have "remaining (before s' f) \<le> remaining f" using steps_withinD [OF ahead_get_line g(1)] by (rule ahead_remaining)
      then have "\<exists>f'. rows_of get_line (fill_buffer exact) f1 (map item_row []) StopIteration f'
          \<and> loaded f' \<and> jf_array f' = jf_array f1 \<and> ending_text (jf_array f1 = Some True) (here f')"
        using f1 g(2,3) less.prems(7) \<open>length s' + length (jf_left f) \<le> length z\<close>
        by (intro less.hyps [of f1 "[]" "s' @ jf_left f"]) (auto simp: todo_def)
      then show ?thesis using json_more [OF g(1) f1(1)] Nil f1(5) by auto
    qed
  next
    case (Cons x xs')
    have x: "item_ok (commas f) x" "items_ok ?a ?a xs'" using less.prems(4) Cons by simp_all
    have eq: "here f @ jf_left f = item_text x @ (concat (map item_text xs') @ z)" using todo Cons by simp
    show ?thesis
    proof (cases "length (item_text x) \<le> length (here f)")
      case True
      then obtain r where r: "here f = item_text x @ r" "r @ jf_left f = concat (map item_text xs') @ z"
        using append_longer [OF eq] by auto
      have g: "get_line f = (Inr (item_row x), at_row r f)" by (rule get_line_document [OF less.prems(1) r(1) x(1)])
      have h: "here (at_row r f) = r" using here_before [OF less.prems(1) r(1)] by (simp add: at_row_def here_def)
      have fl: "jf_left (at_row r f) = jf_left f" "jf_array (at_row r f) = jf_array f" "commas (at_row r f) = ?a"
        by (simp_all add: at_row_def commas_def)
      have "\<exists>f'. rows_of get_line (fill_buffer exact) (at_row r f) (map item_row xs') StopIteration f'
          \<and> loaded f' \<and> jf_array f' = jf_array (at_row r f) \<and> ending_text (jf_array (at_row r f) = Some True) (here f')"
        using less.prems Cons x(2) fl h r(2) get_line_takes [OF g]
        by (intro less.hyps [of "at_row r f" xs' z]) (auto simp: todo_def)
      then show ?thesis using json_row [OF g] Cons fl(2) by auto
    next
      case False
      then obtain u where u: "here f @ u = item_text x" "u \<noteq> []" "jf_left f = u @ concat (map item_text xs') @ z"
        using append_shorter [OF eq] by auto
      from get_line_cut [OF less.prems(1) u(1,2) x(1)] obtain b sep where
        g: "get_line f = (Inl NeedMoreData, before b f)" "here (before b f) = b"
        and x': "item_ok (commas f) (sep, snd x)" "b @ u = item_text (sep, snd x)" by blast
      have ne: "jf_left f \<noteq> []" using u(2,3) by simp
      have "length b \<le> length (here f)"
        using steps_withinD [OF ahead_get_line g(1)] ahead_remaining g(2) by (fastforce simp: remaining_def here_def)
      moreover have "length (item_text x) \<le> m" using less.prems(6) Cons by simp
      moreover have "length (here f) + length u = length (item_text x)" "0 < length u"
        "length (item_text (sep, snd x)) = length b + length u"
        using u(2) arg_cong [OF u(1), of length] arg_cong [OF x'(2), of length] by simp_all
      ultimately have lb: "length b < m" "length (item_text (sep, snd x)) \<le> m" by linarith+
      from fill_more [of "before b f" m] less.prems(1,2) ne lb(1) g(2) obtain f1 where
        f1: "fill_buffer exact (before b f) = (Inr (), f1)" "loaded f1" "room m f1" "todo f1 = todo (before b f)"
        "jf_array f1 = jf_array f" "jf_first f1 = jf_first f" "remaining f1 < remaining (before b f)" by auto
      have "remaining (before b f) \<le> remaining f" using steps_withinD [OF ahead_get_line g(1)] by (rule ahead_remaining)
      moreover have "todo f1 = concat (map item_text ((sep, snd x) # xs')) @ z"
        using f1(4) g(2) u(3) x'(2) by (simp add: todo_def)
      moreover have "commas f1 = commas f" using f1(5,6) by (simp add: commas_def)
      ultimately have "\<exists>f'. rows_of get_line (fill_buffer exact) f1 (map item_row ((sep, snd x) # xs')) StopIteration f'
          \<and> loaded f' \<and> jf_array f' = jf_array f1 \<and> ending_text (jf_array f1 = Some True) (here f')"
        using f1 less.prems(5-7) x' x(2) lb(2) Cons by (intro less.hyps [of f1 "(sep, snd x) # xs'" z]) auto
      then show ?thesis using json_more [OF g(1) f1(1)] Cons f1(5) by (auto simp: item_row_def)
    qed
  qed
qed

lemma setup_reads:
  assumes "text = c # rest" "c = CHR ''['' \<or> c = CHR ''{''" "1 \<le> cs" "cs < mx" "2 * int m \<le> mx"
  shows "\<exists>f. setup_file exact (json_source cs mx text) = (Inr (), f) \<and> loaded f \<and> room m f
     \<and> jf_array f = Some (c = CHR ''['') \<and> \<not> jf_first f \<and> todo f = (if c = CHR ''['' then rest else text)
     \<and> remaining f \<le> 2 * length text"
proof -
  let ?n = "nat cs"
  let ?b = "take ?n text"
  have n: "0 < ?n" "int ?n = cs" using assms(3) by auto
  define f where "f = (json_source cs mx text)\<lparr>jf_left := drop ?n text, jf_buffer := Some ?b, jf_pos := 0,
    jf_end := length ?b - 1, jf_bytes := int (length ?b) - 1\<rparr>"
  have fill: "fill_buffer exact (json_source cs mx text) = (Inr (), f)"
    using next_chunk_run [of "json_source cs mx text\<lparr>jf_buffer := Some [], jf_pos := 0, jf_end := 0\<rparr>" ?n] n assms(1)
    by (simp add: fill_buffer_def json_source_def f_def buf_def)
  obtain b' where b: "?b = c # b'" using n(1) assms(1) by (cases ?n) auto
  have bf: "buf f = ?b" by (simp add: f_def buf_def)
  have "blanks (buf f) = 0" using assms(2) b bf by (auto simp: blanks_def)
  then have skip: "skip_leading exact (json_source cs mx text) = (Inr (), f)"
    using fill by (subst skip_leading.simps) (simp add: f_def)
  define g where "g = (if c = CHR ''['' then f\<lparr>jf_array := Some True, jf_pos := 1\<rparr> else f\<lparr>jf_array := Some False\<rparr>)"
  have "setup_file exact (json_source cs mx text) = (Inr (), g)"
    using skip b bf assms(2) by (auto simp: setup_file_def bind_def first_character_def g_def)
  moreover have "loaded g" using b by (auto simp: loaded_def g_def f_def buf_def)
  moreover have "room m g"
    using assms(3-5) n by (auto simp: room_def g_def f_def buf_def json_source_def)
  moreover have "todo g = (if c = CHR ''['' then rest else text)"
  proof -
    have "?b @ drop ?n text = c # rest" unfolding assms(1) [symmetric] by (rule append_take_drop_id)
    then have "b' @ drop ?n text = rest" unfolding b by simp
    moreover have "buf g = c # b'" "jf_left g = drop ?n text" "jf_pos g = (if c = CHR ''['' then 1 else 0)"
      using b by (simp_all add: g_def f_def buf_def json_source_def)
    ultimately show ?thesis using assms(1) by (auto simp: todo_def here_def)
  qed
  moreover have "remaining g \<le> 2 * length text"
    using arg_cong [of "?b @ drop ?n text" "text" length] by (auto simp: remaining_def g_def f_def buf_def)
  ultimately show ?thesis by (auto simp: g_def f_def json_source_def)
qed

lemma teardown_ending:
  assumes "loaded f" "ending_text (jf_array f = Some True) (here f)"
  shows "\<exists>f'. teardown f = (Inr (), f')"
proof -
  let ?f1 = "before (skip_ws (here f)) f"
  have o1: "over_blanks f = ?f1" "here ?f1 = skip_ws (here f)" "loaded ?f1"
    using over_blanks_before [OF assms(1)] here_skip [OF assms(1)] assms(1) by simp_all
  show ?thesis
  proof (cases "jf_array f = Some True")
    case False
    then have "skip_ws (here f) = []" using assms(2) by (simp add: ending_text_def skip_all_ws(2))
    then have "drop (jf_pos ?f1) (buf f) = []" using o1(2) by (simp add: here_def)
    then have "over_blanks ?f1 = ?f1" "file_end ?f1 = (Inr (), ?f1)"
      using over_blanks_before [OF o1(3)] o1(2) \<open>skip_ws (here f) = []\<close>
      by (simp_all add: file_end_def skip_ws_def)
    then show ?thesis using False o1(1) by (simp add: teardown_def bind_def array_end_def)
  next
    case True
    then obtain u v where uv: "here f = u @ CHR '']'' # v" "all_ws u" "all_ws v"
      using assms(2) by (auto simp: ending_text_def)
    then have s1: "skip_ws (here f) = CHR '']'' # v" by (simp add: skip_all_ws skip_stuck)
    let ?f2 = "before v ?f1"
    have h1: "here ?f1 = [CHR '']''] @ v" using o1(2) s1 by simp
    have "length (here ?f1) = length (buf f) - jf_pos ?f1" by (simp add: here_def)
    then have len: "length (buf f) - jf_pos ?f1 = Suc (length v)" using h1 by simp
    then have "jf_pos ?f1 + 1 = length (buf f) - length v" by linarith
    then have p2: "?f1\<lparr>jf_pos := jf_pos ?f1 + 1\<rparr> = ?f2" by (simp add: before_def)
    have p3: "\<not> length (buf ?f1) \<le> jf_pos ?f1" using len by simp
    have p4: "buf ?f1 ! jf_pos ?f1 = CHR '']''" using hd_here [of ?f1] h1 by simp
    have h2: "here ?f2 = v" using here_before [OF o1(3) h1] .
    have o2: "over_blanks ?f2 = before [] ?f2" "here (before [] ?f2) = []"
      using over_blanks_before [OF loaded_before [OF o1(3)], of v] here_skip [OF loaded_before [OF o1(3)], of v] h2 uv(3)
      by (simp_all add: skip_all_ws(2))
    then have "file_end (over_blanks ?f2) = (Inr (), over_blanks ?f2)" by (simp add: file_end_def here_def)
    then show ?thesis using True o1(1) p2 p3 p4 o2(1) by (simp add: teardown_def bind_def array_end_def)
  qed
qed

lemma file_starts:
  assumes "items_ok a False xs" "a \<or> (xs \<noteq> [] \<and> fst (hd xs) = [])"
  shows "\<exists>rest. (if a then ''['' else []) @ concat (map item_text xs) @ z = (if a then CHR ''['' else CHR ''{'') # rest"
proof (cases a)
  case False
  then obtain t row ys where x: "xs = ([], t, row) # ys" "document t row"
    using assms by (cases xs) (auto simp: item_ok_def item_row_def)
  then show ?thesis using False by (cases t) (auto simp: item_text_def document_def)
qed simp

lemma import_items:
  assumes "1 \<le> csize" "csize < maximum" "0 < n" "items_ok a False xs" "ending_text a z"
    and "a \<or> (xs \<noteq> [] \<and> fst (hd xs) = [])"
    and "\<forall>x \<in> set xs. 2 * int (length (item_text x)) \<le> maximum" "2 * int (length z) \<le> maximum"
  shows "\<exists>f. import_json exact csize maximum n ((if a then ''['' else []) @ concat (map item_text xs) @ z)
     = (in_batches (nat n) (map item_row xs), Exhausted, f)"
proof -
  let ?text = "(if a then ''['' else []) @ concat (map item_text xs) @ z"
  let ?m = "nat (maximum div 2)"
  obtain c rest where t: "?text = c # rest" "c = (if a then CHR ''['' else CHR ''{'')"
    using file_starts [OF assms(4,6)] by blast
  have m: "2 * int ?m \<le> maximum" "\<forall>x \<in> set xs. length (item_text x) \<le> ?m" "length z \<le> ?m"
    using assms(1,2,7,8) by (auto simp: nat_le_iff le_nat_iff)
  obtain f where f: "setup_file exact (json_source csize maximum ?text) = (Inr (), f)" "loaded f" "room ?m f"
    "jf_array f = Some a" "\<not> jf_first f" "todo f = (if a then rest else ?text)" "remaining f \<le> 2 * length ?text"
    using setup_reads [OF t(1) _ assms(1,2) m(1)] t(2) by (cases a) auto
  have "todo f = concat (map item_text xs) @ z" using f(6) t(1) by (cases a) auto
  moreover have "(jf_array f = Some True) = a" "\<not> commas f" using f(4,5) by (simp_all add: commas_def)
  ultimately obtain f' where r: "rows_of get_line (fill_buffer exact) f (map item_row xs) StopIteration f'"
      "loaded f'" "jf_array f' = jf_array f" "ending_text (jf_array f = Some True) (here f')"
    using rows_of_file [of f ?m xs z] f(2,3) assms(4,5) m(2,3) by auto
  obtain f'' where "teardown f' = (Inr (), f'')" using teardown_ending [OF r(2)] r(3,4) by auto
  moreover have "read_batches (2 * length ?text + 1) get_line (fill_buffer exact) (nat n) [] f
      = (in_batches (nat n) (map item_row xs), Exhausted, f')"
    using f(7) by (intro jsf.reads_exhausted [OF r(1)]) simp
  ultimately show ?thesis using f(1) assms(3) by (simp add: import_json_def batches_def)
qed

text \<open>C18. A JSON file of objects that begins with its first bracket or brace is imported completely and in order,
  however its documents are cut by the chunks it is read in: an array of objects or objects one after the other, with
  any blanks between and after them, gives the batches of exactly its documents and ends without an error, when twice
  every document and twice what follows the last one fit the limit and a chunk is smaller than the limit.  A file that
  begins with a blank or a line break is refused (\<open>leading_blanks_refused\<close>).\<close>

theorem json_file_imported:
  assumes "1 \<le> csize" "csize < maximum" "0 < n" "items_ok a False xs" "ending_text a z"
    and "a \<or> (xs \<noteq> [] \<and> fst (hd xs) = [])"
    and "\<forall>x \<in> set xs. 2 * int (length (item_text x)) \<le> maximum" "2 * int (length z) \<le> maximum"
  shows "\<exists>f. import_json exact csize maximum n ((if a then ''['' else []) @ concat (map item_text xs) @ z)
     = (in_batches (nat n) (map item_row xs), Exhausted, f)"
  using assms by (rule import_items)

theorem json_file_imported_witness:
  "\<exists>f. import_json exact 3 64 2 (''['' @ concat (map item_text [([], ''{}'', JObj []), ('' , '', ''{ }'', JObj [])]) @ '' ]'')
     = (in_batches (nat 2) (map item_row [([], ''{}'', JObj []), ('' , '', ''{ }'', JObj [])]), Exhausted, f)"
proof -
  have d: "document ''{}'' (JObj [])" "document ''{ }'' (JObj [])" by code_simp+
  have "separator True '' , ''"
    by (simp add: separator_def) (rule exI [of _ "'' ''"], simp add: is_ws_def)
  with d have i: "items_ok True False [([], ''{}'', JObj []), ('' , '', ''{ }'', JObj [])]"
    by (simp add: item_ok_def item_row_def)
  have e: "ending_text True '' ]''"
    by (simp add: ending_text_def) (rule exI [of _ "'' ''"], simp add: is_ws_def)
  show ?thesis
    using json_file_imported [of 3 64 2 True "[([], ''{}'', JObj []), ('' , '', ''{ }'', JObj [])]" "'' ]''"] i e
    by (simp add: item_text_def)
qed

subsection \<open>Nothing of a file is passed over\<close>

text \<open>A reader gives something as long as something is left.\<close>

definition gives :: "(nat \<Rightarrow> string \<Rightarrow> nat) \<Rightarrow> bool" where
  "gives rd \<longleftrightarrow> (\<forall>n s. 0 < n \<and> s \<noteq> [] \<longrightarrow> 0 < rd n s)"

definition skipped :: "bool \<Rightarrow> string \<Rightarrow> bool" where
  "skipped c s \<longleftrightarrow> list_all (\<lambda>x. is_ws x \<or> c \<and> x = CHR '','') s"

definition decoded :: "bool \<Rightarrow> string \<times> string \<times> json \<Rightarrow> bool" where
  "decoded c x \<longleftrightarrow> skipped c (fst x) \<and> (\<exists>r. raw_decode (fst (snd x) @ r) = Inr (item_row x, r))"

fun all_decoded :: "bool \<Rightarrow> bool \<Rightarrow> (string \<times> string \<times> json) list \<Rightarrow> bool" where
  "all_decoded a c [] = True"
| "all_decoded a c (x # xs) = (decoded c x \<and> all_decoded a a xs)"

lemma skipped_simps [simp]:
  "skipped c []" "skipped c (s @ t) \<longleftrightarrow> skipped c s \<and> skipped c t"
  "skipped c (x # s) \<longleftrightarrow> (is_ws x \<or> c \<and> x = CHR '','') \<and> skipped c s"
  by (simp_all add: skipped_def)

lemma skipped_ws: "all_ws s \<Longrightarrow> skipped c s"
  by (simp add: all_ws_def skipped_def list_all_iff)

lemma skip_ws_front: "\<exists>p. s = p @ skip_ws s \<and> all_ws p"
  by (rule exI [of _ "takeWhile is_ws s"]) (auto simp: skip_ws_def all_ws_def list_all_iff dest: set_takeWhileD)

lemma seek_skips:
  assumes "seek c s = (ok, t)"
  shows "\<exists>p. s = p @ t \<and> skipped c p"
proof -
  obtain p where p: "s = p @ skip_ws s" "all_ws p" using skip_ws_front by blast
  obtain q where q: "tl (skip_ws s) = q @ skip_ws (tl (skip_ws s))" "all_ws q" using skip_ws_front by blast
  consider "t = skip_ws s" | "c" "hd (skip_ws s) = CHR '',''" "skip_ws s \<noteq> []" "t = tl (skip_ws s)"
    | "c" "hd (skip_ws s) = CHR '',''" "skip_ws s \<noteq> []" "t = skip_ws (tl (skip_ws s))"
    using assms by (cases "skip_ws s") (auto simp: seek_def Let_def split: if_splits)
  then show ?thesis
  proof cases
    case 1
    then show ?thesis using p skipped_ws by blast
  next
    case 2
    then have "s = (p @ '','') @ t" using p(1) by (cases "skip_ws s") auto
    then show ?thesis using 2(1) skipped_ws [OF p(2)] by (intro exI [of _ "p @ '',''"]) auto
  next
    case 3
    then have "s = (p @ '','' @ q) @ t" using p(1) q(1) by (cases "skip_ws s") auto
    then show ?thesis using 3(1) skipped_ws [OF p(2)] skipped_ws [OF q(2)]
      by (intro exI [of _ "p @ '','' @ q"]) auto
  qed
qed

lemma get_line_row:
  assumes "loaded f" "get_line f = (Inr row, f')"
  shows "\<exists>sep t. here f = (sep @ t) @ here f' \<and> decoded (commas f) (sep, t, row) \<and> loaded f'
     \<and> jf_left f' = jf_left f \<and> jf_array f' = jf_array f \<and> jf_first f'"
proof -
  obtain ok s where s: "seek (commas f) (here f) = (ok, s)" by (cases "seek (commas f) (here f)")
  obtain r where r: "raw_decode s = Inr (row, r)" "f' = at_row r f"
    using get_line_run [OF assms(1)] assms(2) s by (auto split: if_splits sum.splits)
  obtain sep where sep: "here f = sep @ s" "skipped (commas f) sep" using seek_skips [OF s] by blast
  obtain t where t: "s = t @ r" using raw_decode_suffix [OF r(1)] by blast
  have "here f' = r" using here_before [OF assms(1), of "sep @ t" r] sep(1) t r(2) by (simp add: at_row_def here_def)
  moreover have "raw_decode (t @ r) = Inr (row, r)" using r(1) t by simp
  ultimately have "here f = (sep @ t) @ here f'" "decoded (commas f) (sep, t, row)"
    using sep t by (auto simp: decoded_def item_row_def)
  moreover have "loaded f'" "jf_left f' = jf_left f" "jf_array f' = jf_array f" "jf_first f'"
    using r(2) assms(1) by (simp_all add: at_row_def) (use loaded_at_row [of f r] in \<open>simp add: at_row_def\<close>)
  ultimately show ?thesis by blast
qed

lemma get_line_stops:
  assumes "loaded f" "get_line f = (Inl e, f')"
  shows "e = NeedMoreData \<and> (\<exists>p. here f = p @ here f' \<and> skipped (commas f) p) \<and> loaded f'
     \<and> jf_left f' = jf_left f \<and> jf_array f' = jf_array f \<and> jf_first f' = jf_first f"
proof -
  obtain ok s where s: "seek (commas f) (here f) = (ok, s)" by (cases "seek (commas f) (here f)")
  obtain p where p: "here f = p @ s" "skipped (commas f) p" using seek_skips [OF s] by blast
  have "e = NeedMoreData" "f' = before s f"
    using get_line_run [OF assms(1)] assms(2) s by (auto split: if_splits sum.splits prod.splits)
  then show ?thesis using p here_before [OF assms(1) p(1)] assms(1) by auto
qed

lemma next_chunk_todo:
  assumes "next_chunk rd f = (r, f')" "jf_buffer f \<noteq> None"
  shows "r = Inr () \<Longrightarrow> loaded f' \<and> jf_pos f' = 0 \<and> todo f' = todo f \<and> jf_array f' = jf_array f \<and> jf_first f' = jf_first f"
    and "r = Inl StopIteration \<Longrightarrow> gives rd \<Longrightarrow> jf_left f = [] \<and> f' = f"
proof -
  let ?n = "nat (jf_size f - int (jf_end f) + int (jf_pos f))"
  let ?k = "rd ?n (jf_left f)"
  note eq = assms(1) [unfolded next_chunk_def Let_def]
  show "loaded f' \<and> jf_pos f' = 0 \<and> todo f' = todo f \<and> jf_array f' = jf_array f \<and> jf_first f' = jf_first f" if "r = Inr ()"
    using eq that by (auto simp: loaded_def todo_def here_def buf_def split: if_splits)
  show "jf_left f = [] \<and> f' = f" if "r = Inl StopIteration" "gives rd"
  proof -
    have "0 < ?n" "take ?k (jf_left f) = []" "f' = f\<lparr>jf_left := drop ?k (jf_left f)\<rparr>"
      using eq that(1) by (auto split: if_splits)
    moreover have "0 < ?k" if "jf_left f \<noteq> []"
      using \<open>gives rd\<close> \<open>0 < ?n\<close> that unfolding gives_def by blast
    ultimately show ?thesis by (cases "jf_left f") auto
  qed
qed

lemma fill_buffer_cases:
  "loaded f \<Longrightarrow> \<exists>g. (fill_buffer rd f = next_chunk rd g \<or> fill_buffer rd f = (Inl (Raises no_bytes_processed), g))
     \<and> (g = f \<or> g = f\<lparr>jf_size := min (jf_size f * 2) (jf_max f)\<rparr>)"
  by (cases "jf_pos f = 0"; cases "jf_size f = jf_max f") (auto simp: fill_buffer_def loaded_def)

lemma fill_buffer_todo:
  assumes "fill_buffer rd f = (r, f')" "loaded f"
  shows "r = Inr () \<Longrightarrow> loaded f' \<and> jf_pos f' = 0 \<and> todo f' = todo f \<and> jf_array f' = jf_array f \<and> jf_first f' = jf_first f"
    and "r = Inl StopIteration \<Longrightarrow> gives rd \<Longrightarrow>
      jf_left f' = [] \<and> here f' = todo f \<and> jf_array f' = jf_array f \<and> loaded f'"
proof -
  obtain g where g: "fill_buffer rd f = next_chunk rd g \<or> fill_buffer rd f = (Inl (Raises no_bytes_processed), g)"
    "g = f \<or> g = f\<lparr>jf_size := min (jf_size f * 2) (jf_max f)\<rparr>"
    using fill_buffer_cases [OF assms(2)] by blast
  have h: "jf_buffer g \<noteq> None" "todo g = todo f" "here g = here f" "jf_left g = jf_left f" "loaded g"
    "jf_array g = jf_array f" "jf_first g = jf_first f"
    using g(2) assms(2) by (auto simp: loaded_def todo_def here_def)
  show "loaded f' \<and> jf_pos f' = 0 \<and> todo f' = todo f \<and> jf_array f' = jf_array f \<and> jf_first f' = jf_first f" if "r = Inr ()"
    using next_chunk_todo(1) [of rd g r f'] g(1) h that assms(1) by auto
  show "jf_left f' = [] \<and> here f' = todo f \<and> jf_array f' = jf_array f \<and> loaded f'" if "r = Inl StopIteration" "gives rd"
    using next_chunk_todo(2) [of rd g r f'] g(1) h that assms(1) by (auto simp: todo_def)
qed

lemma item_text_pair: "item_text (sep, d) = sep @ fst d"
  by (simp add: item_text_def)

lemma rows_of_account:
  assumes "rows_of get_line (fill_buffer rd) f rs e f'" "e = StopIteration" "loaded f" "gives rd"
  shows "\<exists>xs p. rs = map item_row xs \<and> todo f = concat (map item_text xs) @ p @ here f'
     \<and> all_decoded (jf_array f = Some True) (commas f) xs \<and> skipped (jf_array f = Some True) p
     \<and> loaded f' \<and> jf_array f' = jf_array f"
  using assms
proof (induction rule: rows_of.induct)
  case (row f r f1 rs e f2)
  from get_line_row [OF row.prems(2) row.hyps(1)] obtain sep t where
    g: "here f = (sep @ t) @ here f1" "decoded (commas f) (sep, t, r)" "loaded f1"
      "jf_left f1 = jf_left f" "jf_array f1 = jf_array f" "jf_first f1" by blast
  from row.IH [OF row.prems(1) g(3) row.prems(3)] obtain xs p where
    x: "rs = map item_row xs" "todo f1 = concat (map item_text xs) @ p @ here f2"
      "all_decoded (jf_array f1 = Some True) (commas f1) xs" "skipped (jf_array f1 = Some True) p"
      "loaded f2" "jf_array f2 = jf_array f1" by blast
  have "commas f1 = (jf_array f = Some True)" using g(5,6) by (simp add: commas_def)
  then show ?case using g x
    by (intro exI [of _ "(sep, t, r) # xs"] exI [of _ p]) (simp add: todo_def item_row_def item_text_pair)
next
  case (more f f1 u f2 rs e f3)
  from get_line_stops [OF more.prems(2) more.hyps(1)] obtain q where
    g: "here f = q @ here f1" "skipped (commas f) q" "loaded f1" "jf_left f1 = jf_left f"
      "jf_array f1 = jf_array f" "jf_first f1 = jf_first f" by blast
  have b: "loaded f2 \<and> jf_pos f2 = 0 \<and> todo f2 = todo f1 \<and> jf_array f2 = jf_array f1 \<and> jf_first f2 = jf_first f1"
    using fill_buffer_todo(1) [OF more.hyps(2) g(3)] by simp
  from more.IH [OF more.prems(1) _ more.prems(3)] b obtain xs p where
    x: "rs = map item_row xs" "todo f2 = concat (map item_text xs) @ p @ here f3"
      "all_decoded (jf_array f2 = Some True) (commas f2) xs" "skipped (jf_array f2 = Some True) p"
      "loaded f3" "jf_array f3 = jf_array f2" by blast
  have c: "commas f2 = commas f" "jf_array f2 = jf_array f" using b g(5,6) by (simp_all add: commas_def)
  have t: "todo f = q @ concat (map item_text xs) @ p @ here f3" using x(2) b g(1,4) by (simp add: todo_def)
  show ?case
  proof (cases xs)
    case Nil
    have "skipped (jf_array f = Some True) q" using g(2) by (cases "commas f") (auto simp: commas_def skipped_def list_all_iff)
    then show ?thesis using Nil t x c by (intro exI [of _ "[]"] exI [of _ "q @ p"]) simp
  next
    case (Cons y ys)
    obtain sep d where y: "y = (sep, d)" by (cases y)
    have "decoded (commas f) (q @ sep, d)" using x(3) Cons y g(2) c by (simp add: decoded_def item_row_def)
    then show ?thesis using Cons t x c y
      by (intro exI [of _ "(q @ sep, d) # ys"] exI [of _ p]) (simp add: item_row_def item_text_pair)
  qed
next
  case (no_more f f1 e f2)
  from get_line_stops [OF no_more.prems(2) no_more.hyps(1)] obtain q where
    g: "here f = q @ here f1" "skipped (commas f) q" "loaded f1" "jf_left f1 = jf_left f" "jf_array f1 = jf_array f" by blast
  have b: "jf_left f2 = [] \<and> here f2 = todo f1 \<and> jf_array f2 = jf_array f1 \<and> loaded f2"
    using fill_buffer_todo(2) [OF no_more.hyps(2) g(3)] no_more.prems(1,3) by simp
  have "skipped (jf_array f = Some True) q" using g(2) by (cases "commas f") (auto simp: commas_def skipped_def list_all_iff)
  then show ?case using g b by (intro exI [of _ "[]"] exI [of _ q]) (simp add: todo_def)
next
  case (ends f e f1)
  then show ?case using get_line_stops [of f e f1] by simp
qed

text \<open>Where the file is after \<open>setup_file\<close>, and what \<open>teardown\<close> accepts.\<close>

lemma first_fill:
  assumes "fill_buffer rd (json_source cs mx s) = (Inr u, f)"
  shows "loaded f \<and> jf_pos f = 0 \<and> todo f = s \<and> \<not> jf_first f"
  using assms next_chunk_todo(1) [of rd "json_source cs mx s\<lparr>jf_buffer := Some [], jf_pos := 0, jf_end := 0\<rparr>" "Inr ()" f]
  by (auto simp: fill_buffer_def json_source_def todo_def here_def buf_def)

lemma skip_leading_todo:
  "skip_leading rd f = (Inr u, f') \<Longrightarrow> loaded f \<or> f = json_source cs mx s \<Longrightarrow>
     \<exists>p. (if loaded f then todo f else s) = p @ todo f' \<and> all_ws p \<and> loaded f' \<and> jf_pos f' = 0
       \<and> (loaded f \<longrightarrow> jf_first f' = jf_first f) \<and> (\<not> loaded f \<longrightarrow> \<not> jf_first f')"
proof (induction "length (jf_left f)" arbitrary: f rule: less_induct)
  case less
  have nl: "\<not> loaded (json_source cs mx s)" by (simp add: loaded_def json_source_def)
  obtain u1 f1 where f1: "fill_buffer rd f = (Inr u1, f1)"
    using less.prems(1) by (subst (asm) skip_leading.simps) (auto split: prod.splits sum.splits)
  let ?t = "if loaded f then todo f else s"
  have l1: "loaded f1" "jf_pos f1 = 0" "todo f1 = ?t" "loaded f \<longrightarrow> jf_first f1 = jf_first f" "\<not> loaded f \<longrightarrow> \<not> jf_first f1"
    using fill_buffer_todo(1) [OF f1] first_fill [of rd cs mx s u1 f1] f1 less.prems(2) nl by auto
  let ?f2 = "f1\<lparr>jf_pos := blanks (buf f1)\<rparr>"
  show ?case
  proof (cases "blanks (buf f1) = 0")
    case True
    then have "f' = f1" using less.prems(1) f1 l1(2) by (subst (asm) skip_leading.simps) (cases f1, simp)
    then show ?thesis using l1 by auto
  next
    case False
    then have s: "skip_leading rd ?f2 = (Inr u, f')" using less.prems(1) f1 by (subst (asm) skip_leading.simps) simp
    have l2: "loaded ?f2" using l1(1) blanks_le [of "buf f1"] by (simp add: loaded_def)
    have "length (jf_left ?f2) < length (jf_left f)" using fill_takes [OF f1] by simp
    from less.hyps [OF this s] l2 obtain p where p: "todo ?f2 = p @ todo f'" "all_ws p" "loaded f'" "jf_pos f' = 0"
      "jf_first f' = jf_first ?f2" by auto
    have "here ?f2 = skip_ws (buf f1)" by (simp add: here_def skip_ws_drop)
    moreover have "here f1 = buf f1" using l1(2) by (simp add: here_def)
    ultimately obtain q where "here f1 = q @ here ?f2" "all_ws q" using skip_ws_front by metis
    then have "?t = (q @ p) @ todo f'" "all_ws (q @ p)" using l1(3) p(1,2) by (simp_all add: todo_def)
    then show ?thesis using p(3-5) l1(4,5) by (intro exI [of _ "q @ p"]) simp
  qed
qed

lemma setup_todo:
  assumes "setup_file rd (json_source cs mx s) = (Inr u, f)"
  shows "\<exists>p a. s = p @ (if a then ''['' else []) @ todo f \<and> all_ws p \<and> loaded f \<and> jf_array f = Some a \<and> \<not> jf_first f"
proof -
  obtain u1 f1 where f1: "skip_leading rd (json_source cs mx s) = (Inr u1, f1)" "first_character f1 = (Inr u, f)"
    using assms by (auto simp: setup_file_def bind_Inr)
  have "\<not> loaded (json_source cs mx s)" by (simp add: loaded_def json_source_def)
  with skip_leading_todo [OF f1(1), of cs mx s] obtain p where
    p: "s = p @ todo f1" "all_ws p" "loaded f1" "jf_pos f1 = 0" "\<not> jf_first f1" by auto
  obtain c b where b: "buf f1 = c # b" using p(3) by (cases "buf f1") (auto simp: loaded_def)
  have "c = CHR ''['' \<and> f = f1\<lparr>jf_array := Some True, jf_pos := 1\<rparr> \<or> c \<noteq> CHR ''['' \<and> f = f1\<lparr>jf_array := Some False\<rparr>"
    using f1(2) b by (auto simp: first_character_def split: if_splits)
  then show ?thesis
  proof
    assume c: "c = CHR ''['' \<and> f = f1\<lparr>jf_array := Some True, jf_pos := 1\<rparr>"
    then have "todo f1 = ''['' @ todo f" "loaded f" using b p(3,4) by (simp_all add: todo_def here_def loaded_def)
    then show ?thesis using p c by (intro exI [of _ p] exI [of _ True]) simp
  next
    assume c: "c \<noteq> CHR ''['' \<and> f = f1\<lparr>jf_array := Some False\<rparr>"
    then have "todo f1 = todo f" "loaded f" using p(3) by (simp_all add: todo_def here_def loaded_def)
    then show ?thesis using p c by (intro exI [of _ p] exI [of _ False]) simp
  qed
qed

lemma teardown_accepts:
  assumes "teardown f = (Inr u, f')" "loaded f"
  shows "ending_text (jf_array f = Some True) (here f)"
proof -
  let ?f1 = "over_blanks f"
  obtain w where w: "here f = w @ skip_ws (here f)" "all_ws w" using skip_ws_front by blast
  have h1: "here ?f1 = skip_ws (here f)" using over_blanks_before [OF assms(2)] here_skip [OF assms(2)] by simp
  obtain f2 where f2: "array_end ?f1 = (Inr (), f2)" "file_end (over_blanks f2) = (Inr u, f')"
    using assms(1) by (auto simp: teardown_def bind_Inr)
  have e: "drop (jf_pos (over_blanks f2)) (buf f2) = []" using f2(2) by (auto simp: file_end_def Let_def split: if_splits)
  then have "skip_ws (here f2) = []" by (simp add: over_blanks_def here_def skip_ws_drop add.commute)
  then have ws: "all_ws (here f2)" using skip_ws_front [of "here f2"] by auto
  show ?thesis
  proof (cases "jf_array f = Some True")
    case False
    then have "f2 = ?f1" using f2(1) by (simp add: array_end_def)
    then show ?thesis using False ws w h1 by (simp add: ending_text_def) (metis all_ws_simps(3))
  next
    case True
    then have "jf_pos ?f1 < length (buf ?f1)" "buf ?f1 ! jf_pos ?f1 = CHR '']''" "f2 = ?f1\<lparr>jf_pos := jf_pos ?f1 + 1\<rparr>"
      using f2(1) by (auto simp: array_end_def split: if_splits)
    moreover from this(1) have "drop (jf_pos ?f1) (buf ?f1) = buf ?f1 ! jf_pos ?f1 # drop (Suc (jf_pos ?f1)) (buf ?f1)"
      by (rule Cons_nth_drop_Suc [symmetric])
    ultimately have "here ?f1 = CHR '']'' # here f2" by (simp add: here_def)
    then have "here f = w @ CHR '']'' # here f2" using w(1) h1 by simp
    then show ?thesis using True w(2) ws by (auto simp: ending_text_def)
  qed
qed

text \<open>C13. Nothing of a JSON file is lost or made up: when an import ends without an error, whatever
  the sizes of the chunks, the file consists of blanks, an opening bracket for an array, the texts of
  exactly the rows handed out, in order, with only blanks (and, in an array, commas) between them, and
  the end of the array or of the file.\<close>

theorem json_import_accounts:
  assumes "import_json rd csize maximum n s = (bs, Exhausted, f)" "gives rd"
  shows "\<exists>p a xs q z. s = p @ (if a then ''['' else []) @ concat (map item_text xs) @ q @ z
     \<and> concat bs = map item_row xs \<and> all_ws p \<and> all_decoded a False xs \<and> skipped a q \<and> ending_text a z"
proof -
  obtain u f1 where s: "setup_file rd (json_source csize maximum s) = (Inr u, f1)"
    using assms(1) by (auto simp: import_json_def batches_def split: if_splits prod.splits sum.splits)
  obtain f2 u2 where b: "read_batches (2 * length s + 1) get_line (fill_buffer rd) (nat n) [] f1 = (bs, Exhausted, f2)"
    "teardown f2 = (Inr u2, f)"
    using assms(1) s by (auto simp: import_json_def batches_def split: if_splits prod.splits sum.splits ending.splits)
  obtain p a where p: "s = p @ (if a then ''['' else []) @ todo f1" "all_ws p" "loaded f1" "jf_array f1 = Some a"
    "\<not> jf_first f1" using setup_todo [OF s] by blast
  from rows_of_read_batches [OF b(1)] obtain rs e where r: "rows_of get_line (fill_buffer rd) f1 rs e f2"
    "(bs, Exhausted, f2) = (case full_batches (nat n) [] rs of (bs, b) \<Rightarrow>
       (case end_reading e b f2 of (bs', y) \<Rightarrow> (bs @ bs', y)))" by auto
  have e: "e = StopIteration" "concat bs = rs"
    using r(2) full_batches_concat [of "nat n" "[]" rs]
    by (auto simp: end_reading_def split: prod.splits stop.splits if_splits)
  from rows_of_account [OF r(1) e(1) p(3) assms(2)] obtain xs q where
    "rs = map item_row xs" "todo f1 = concat (map item_text xs) @ q @ here f2"
    "all_decoded (jf_array f1 = Some True) (commas f1) xs" "skipped (jf_array f1 = Some True) q"
    "loaded f2" "jf_array f2 = jf_array f1" by blast
  then show ?thesis using p e(2) teardown_accepts [OF b(2)]
    by (intro exI [of _ p] exI [of _ a] exI [of _ xs] exI [of _ q] exI [of _ "here f2"]) (simp add: commas_def)
qed

theorem json_import_accounts_witness:
  "\<exists>p a xs q z. ''[{},{} ]'' = p @ (if a then ''['' else []) @ concat (map item_text xs) @ q @ z
     \<and> concat (fst (import_json exact 4 64 2 ''[{},{} ]'')) = map item_row xs
     \<and> all_ws p \<and> all_decoded a False xs \<and> skipped a q \<and> ending_text a z"
proof -
  have "fst (snd (import_json exact 4 64 2 ''[{},{} ]'')) = Exhausted" by code_simp
  then have r: "import_json exact 4 64 2 ''[{},{} ]'' = (fst (import_json exact 4 64 2 ''[{},{} ]''), Exhausted,
      snd (snd (import_json exact 4 64 2 ''[{},{} ]'')))" by (simp add: prod_eq_iff)
  have "gives exact" by (simp add: gives_def exact_def)
  from json_import_accounts [OF r this] show ?thesis .
qed

subsection \<open>A file with blanks before its first document\<close>

text \<open>A file that begins with blanks and fits the first chunk is refused: the second turn of the loop
  over the leading blanks finds the end of the file, and its \<open>StopIteration\<close> leaves the generator as a
  \<open>RuntimeError\<close>.\<close>

theorem leading_blanks_refused:
  assumes "0 < n" "all_ws w" "w \<noteq> []" "int (length (w @ s)) \<le> csize"
  shows "\<exists>f. import_json exact csize maximum n (w @ s)
     = ([], Broken (py_exc PyRuntimeError ''generator raised StopIteration''), f)"
proof -
  let ?src = "json_source csize maximum (w @ s)"
  let ?n = "nat csize"
  define f1 where "f1 = ?src\<lparr>jf_left := [], jf_buffer := Some (w @ s), jf_pos := 0,
    jf_end := length (w @ s) - 1, jf_bytes := int (length (w @ s)) - 1\<rparr>"
  have "0 < int (length w)" using assms(3) by simp
  then have "0 < csize" using assms(4) unfolding length_append by linarith
  then have n: "0 < ?n" "int ?n = csize" "length (w @ s) \<le> ?n" using assms(4) by (simp_all add: le_nat_iff)
  have fill: "fill_buffer exact ?src = (Inr (), f1)"
    using next_chunk_run [of "?src\<lparr>jf_buffer := Some [], jf_pos := 0, jf_end := 0\<rparr>" ?n] n assms(3)
    by (simp add: fill_buffer_def json_source_def f1_def buf_def)
  have b: "0 < blanks (buf f1)" using assms(2,3) by (cases w) (simp_all add: f1_def buf_def blanks_def)
  have b2: "blanks (buf f1) \<le> length (buf f1)" by (rule blanks_le)
  let ?f2 = "f1\<lparr>jf_pos := blanks (buf f1)\<rparr>"
  have "1 \<le> jf_size ?f2 - int (jf_end ?f2) + int (jf_pos ?f2)"
    using assms(3,4) b b2 by (simp add: f1_def json_source_def of_nat_diff)
  then have "fill_buffer exact ?f2 = (Inl StopIteration, ?f2)"
    using b by (simp add: fill_buffer_def next_chunk_def f1_def)
  then have "skip_leading exact ?f2 = (Inl StopIteration, ?f2)" by (subst skip_leading.simps) simp
  then have "skip_leading exact ?src = (Inl StopIteration, ?f2)"
    using fill b by (subst skip_leading.simps) simp
  then show ?thesis using assms(1) by (simp add: import_json_def batches_def setup_file_def bind_def)
qed

theorem leading_blanks_refused_witness:
  "\<exists>f. import_json exact json_read_chunk_size json_max_buffer_size 200 ('' '' @ ''[{}]'')
     = ([], Broken (py_exc PyRuntimeError ''generator raised StopIteration''), f)"
  by (rule leading_blanks_refused) (simp_all add: is_ws_def json_read_chunk_size_def)

end
