(* ===== verification/Csv.thy ===== *)
theory Csv
  imports Printer
begin

text \<open>
  The part of Python's \<open>csv\<close> module that \<open>rethinkdb export\<close> and \<open>rethinkdb import\<close> use: the
  reader and the writer of the dialect \<open>excel\<close>, the lines a codec reader iterates over
  (\<open>str.splitlines\<close> with the line ends kept), and the theorem that what is written is read back
  (\<open>read_written_row\<close>), across lines when a field has line breaks in quotes.
\<close>

subsection \<open>Lines\<close>

definition LF :: char where "LF = CHR 0x0A"

definition CR :: char where "CR = CHR 0x0D"

definition is_break :: "char \<Rightarrow> bool" where
  "is_break c \<longleftrightarrow> c = LF \<or> c = CR \<or> c = CHR 0x0B \<or> c = CHR 0x0C \<or> c = CHR 0x1C \<or> c = CHR 0x1D \<or> c = CHR 0x1E
     \<or> c = CHR 0x85"

fun split_lines :: "string \<Rightarrow> string list" where
  "split_lines [] = []"
| "split_lines [c] = [[c]]"
| "split_lines (c # d # s) =
     (if c = CR \<and> d = LF then [c, d] # split_lines s
      else if is_break c then [c] # split_lines (d # s)
      else (case split_lines (d # s) of [] \<Rightarrow> [[c]] | l # ls \<Rightarrow> (c # l) # ls))"

subsection \<open>The reader\<close>

datatype csv_mode = StartRecord | StartField | InField | InQuoted | QuoteInQuoted | EatCrnl

record csv_state =
  cs_mode :: csv_mode
  cs_field :: string
  cs_fields :: "string list"

definition csv_error :: "string \<Rightarrow> error" where
  "csv_error m = py_exc PyException m"

definition field_limit :: nat where "field_limit = 131072"

definition new_record :: csv_state where
  "new_record = \<lparr>cs_mode = StartRecord, cs_field = [], cs_fields = []\<rparr>"

definition to_mode :: "csv_mode \<Rightarrow> csv_state \<Rightarrow> csv_state" where
  "to_mode m s = s\<lparr>cs_mode := m\<rparr>"

definition save_field :: "csv_mode \<Rightarrow> csv_state \<Rightarrow> csv_state" where
  "save_field m s = s\<lparr>cs_mode := m, cs_fields := cs_fields s @ [cs_field s], cs_field := []\<rparr>"

definition add_char :: "csv_mode \<Rightarrow> char \<Rightarrow> csv_state \<Rightarrow> error + csv_state" where
  "add_char m c s =
     (if field_limit \<le> length (cs_field s)
      then Inl (csv_error (''field larger than field limit ('' @ show_nat field_limit @ '')''))
      else Inr (s\<lparr>cs_mode := m, cs_field := cs_field s @ [c]\<rparr>))"

definition newline :: "char \<Rightarrow> bool" where
  "newline c \<longleftrightarrow> c = LF \<or> c = CR"

definition start_field :: "char \<Rightarrow> csv_state \<Rightarrow> error + csv_state" where
  "start_field c s =
     (if newline c then Inr (save_field EatCrnl s)
      else if c = CHR 0x22 then Inr (to_mode InQuoted s)
      else if c = CHR '','' then Inr (save_field StartField s)
      else add_char InField c s)"

definition csv_step :: "char \<Rightarrow> csv_state \<Rightarrow> error + csv_state" where
  "csv_step c s =
     (case cs_mode s of
        StartRecord \<Rightarrow> if newline c then Inr (to_mode EatCrnl s) else start_field c s
      | StartField \<Rightarrow> start_field c s
      | InField \<Rightarrow>
          if newline c then Inr (save_field EatCrnl s)
          else if c = CHR '','' then Inr (save_field StartField s)
          else add_char InField c s
      | InQuoted \<Rightarrow> if c = CHR 0x22 then Inr (to_mode QuoteInQuoted s) else add_char InQuoted c s
      | QuoteInQuoted \<Rightarrow>
          if c = CHR 0x22 then add_char InQuoted c s
          else if c = CHR '','' then Inr (save_field StartField s)
          else if newline c then Inr (save_field EatCrnl s)
          else add_char InField c s
      | EatCrnl \<Rightarrow>
          if newline c then Inr s
          else Inl (csv_error ''new-line character seen in unquoted field - do you need to open the file in universal-newline mode?''))"

text \<open>The end of a line, which the reader sees as a character of its own.\<close>

definition csv_line_end :: "csv_state \<Rightarrow> csv_state" where
  "csv_line_end s =
     (case cs_mode s of
        StartField \<Rightarrow> save_field StartRecord s
      | InField \<Rightarrow> save_field StartRecord s
      | QuoteInQuoted \<Rightarrow> save_field StartRecord s
      | EatCrnl \<Rightarrow> to_mode StartRecord s
      | _ \<Rightarrow> s)"

fun csv_feed :: "string \<Rightarrow> csv_state \<Rightarrow> error + csv_state" where
  "csv_feed [] s = Inr s"
| "csv_feed (c # cs) s = rbind (csv_step c s) (csv_feed cs)"

text \<open>The reader's \<open>__next__\<close> from a state: the fields of a record, or \<open>None\<close> at the end of the lines,
  and how many lines it took.  A record that the end of the lines cuts off is given as it is.\<close>

fun csv_record :: "csv_state \<Rightarrow> string list \<Rightarrow> (error + (string list \<times> nat \<times> string list) option)" where
  "csv_record s [] =
     Inr (if cs_field s \<noteq> [] \<or> cs_mode s = InQuoted then Some (cs_fields s @ [cs_field s], 0, []) else None)"
| "csv_record s (l # ls) =
     rbind (csv_feed l s) (\<lambda>s'.
       let s'' = csv_line_end s' in
       if cs_mode s'' = StartRecord then Inr (Some (cs_fields s'', 1, ls))
       else rmap (map_option (\<lambda>(fs, n, ls'). (fs, Suc n, ls'))) (csv_record s'' ls))"

definition csv_next :: "string list \<Rightarrow> (error + (string list \<times> nat \<times> string list) option)" where
  "csv_next = csv_record new_record"

subsection \<open>The writer\<close>

definition needs_quotes :: "char \<Rightarrow> string \<Rightarrow> bool" where
  "needs_quotes d f \<longleftrightarrow> list_ex (\<lambda>c. c = d \<or> c = CHR 0x22 \<or> newline c) f"

definition quote_field :: "string \<Rightarrow> string" where
  "quote_field f = CHR 0x22 # replace1 (CHR 0x22) [CHR 0x22, CHR 0x22] f @ [CHR 0x22]"

definition csv_field :: "char \<Rightarrow> string \<Rightarrow> string" where
  "csv_field d f = (if needs_quotes d f then quote_field f else f)"

text \<open>\<open>writerow\<close>; a row that would be an empty line is written as an empty field in quotes.\<close>

definition csv_row :: "char \<Rightarrow> string list \<Rightarrow> string" where
  "csv_row d fs =
     (if fs = [[]] then quote_field [] else join [d] (map (csv_field d) fs)) @ [CR, LF]"

subsection \<open>Reading what was written\<close>

lemma split_lines_not_Nil [simp]: "split_lines (c # s) \<noteq> []"
  by (cases s) (auto split: list.splits)

lemma split_lines_crlf [simp]: "split_lines (CR # LF # s) = [CR, LF] # split_lines s"
  by simp

lemma split_lines_plain: "\<not> is_break c \<Longrightarrow> s \<noteq> [] \<Longrightarrow>
  \<exists>l ls. split_lines s = l # ls \<and> split_lines (c # s) = (c # l) # ls"
proof -
  assume "\<not> is_break c" "s \<noteq> []"
  then obtain d t where s: "s = d # t" by (cases s) auto
  obtain l ls where "split_lines s = l # ls" using s split_lines_not_Nil by (cases "split_lines s") auto
  then show ?thesis using \<open>\<not> is_break c\<close> s by (auto simp: is_break_def)
qed

text \<open>A plain character is fed on its own.\<close>

lemma csv_record_plain:
  assumes "\<not> is_break c" "s \<noteq> []" "csv_step c st = Inr st'"
  shows "csv_record st (split_lines (c # s)) = csv_record st' (split_lines s)"
proof -
  obtain l ls where "split_lines s = l # ls" "split_lines (c # s) = (c # l) # ls"
    using split_lines_plain [OF assms(1,2)] by blast
  then show ?thesis using assms(3) by simp
qed

text \<open>Records that differ only in how many lines they took.\<close>

definition record_fields :: "(error + (string list \<times> nat \<times> string list) option) \<Rightarrow> (error + (string list \<times> string list) option)" where
  "record_fields r = rmap (map_option (\<lambda>(fs, n, ls). (fs, ls))) r"

lemma record_fields_more [simp]:
  "record_fields (rmap (map_option (\<lambda>(fs, n, ls'). (fs, Suc n, ls'))) r) = record_fields r"
  by (cases r) (auto simp: record_fields_def option.map_comp comp_def split_def)

lemma csv_record_plain_fields:
  "\<not> is_break c \<Longrightarrow> s \<noteq> [] \<Longrightarrow> csv_step c st = Inr st'
     \<Longrightarrow> record_fields (csv_record st (split_lines (c # s))) = record_fields (csv_record st' (split_lines s))"
  by (simp add: csv_record_plain)

text \<open>In quotes, any character is.\<close>

lemma csv_step_quoted:
  "cs_mode st = InQuoted \<Longrightarrow> c \<noteq> CHR 0x22 \<Longrightarrow> length (cs_field st) < field_limit
     \<Longrightarrow> csv_step c st = Inr (st\<lparr>cs_field := cs_field st @ [c]\<rparr>)"
  by (cases st) (simp add: csv_step_def add_char_def)

lemma csv_record_quoted:
  assumes "cs_mode st = InQuoted" "c \<noteq> CHR 0x22" "s \<noteq> []" "length (cs_field st) + 1 < field_limit"
  shows "record_fields (csv_record st (split_lines (c # s)))
     = record_fields (csv_record (st\<lparr>cs_field := cs_field st @ [c]\<rparr>) (split_lines s))"
proof -
  obtain d t where s: "s = d # t" using assms(3) by (cases s) auto
  let ?st = "st\<lparr>cs_field := cs_field st @ [c]\<rparr>"
  have q: "csv_step c st = Inr ?st" using assms by (intro csv_step_quoted) simp_all
  have e: "csv_line_end (st\<lparr>cs_field := x\<rparr>) = st\<lparr>cs_field := x\<rparr>" "cs_mode (st\<lparr>cs_field := x\<rparr>) \<noteq> StartRecord" for x
    using assms(1) by (simp_all add: csv_line_end_def)
  show ?thesis
  proof (cases "is_break c")
    case False
    then show ?thesis using csv_record_plain [OF False assms(3) q] by simp
  next
    case True
    show ?thesis
    proof (cases "c = CR \<and> d = LF")
      case False
      then have "split_lines (c # s) = [c] # split_lines s" using True s by simp
      then show ?thesis using q e by simp
    next
      case crlf: True
      have q2: "csv_step d ?st = Inr (?st\<lparr>cs_field := cs_field ?st @ [d]\<rparr>)"
        using assms crlf by (intro csv_step_quoted) (simp_all add: LF_def)
      have l: "split_lines (c # s) = [c, d] # split_lines t" using crlf s by simp
      have "split_lines s = (if t = [] then [[d]] else [d] # split_lines t)"
        using crlf s by (cases t) (auto simp: is_break_def LF_def CR_def)
      then have l2: "split_lines s = [d] # split_lines t" by (cases t) auto
      show ?thesis unfolding l l2 using q q2 e by simp
    qed
  qed
qed

lemma csv_record_in_field:
  assumes "cs_mode st = InField" "s \<noteq> []" "length (cs_field st @ u) \<le> field_limit"
    and "\<forall>c \<in> set u. \<not> is_break c \<and> c \<noteq> CHR '',''"
  shows "record_fields (csv_record st (split_lines (u @ s)))
     = record_fields (csv_record (st\<lparr>cs_field := cs_field st @ u\<rparr>) (split_lines s))"
  using assms
proof (induction u arbitrary: st)
  case (Cons c u)
  let ?st = "st\<lparr>cs_field := cs_field st @ [c]\<rparr>"
  have "csv_step c st = Inr ?st"
    using Cons.prems by (cases st) (auto simp: csv_step_def newline_def is_break_def add_char_def)
  then have "record_fields (csv_record st (split_lines (c # u @ s))) = record_fields (csv_record ?st (split_lines (u @ s)))"
    using Cons.prems by (intro csv_record_plain_fields) auto
  then show ?case using Cons.IH [of ?st] Cons.prems by simp
qed simp

lemma csv_record_in_quotes:
  assumes "cs_mode st = InQuoted" "s \<noteq> []" "length (cs_field st @ u) < field_limit"
  shows "record_fields (csv_record st (split_lines (replace1 (CHR 0x22) [CHR 0x22, CHR 0x22] u @ CHR 0x22 # s)))
     = record_fields (csv_record (st\<lparr>cs_mode := QuoteInQuoted, cs_field := cs_field st @ u\<rparr>) (split_lines s))"
  using assms
proof (induction u arbitrary: st)
  case Nil
  have "csv_step (CHR 0x22) st = Inr (to_mode QuoteInQuoted st)" using Nil by (simp add: csv_step_def)
  then have "record_fields (csv_record st (split_lines (CHR 0x22 # s)))
      = record_fields (csv_record (to_mode QuoteInQuoted st) (split_lines s))"
    using Nil by (intro csv_record_plain_fields) (auto simp: is_break_def LF_def CR_def)
  moreover have "to_mode QuoteInQuoted st = st\<lparr>cs_mode := QuoteInQuoted, cs_field := cs_field st\<rparr>"
    by (simp add: to_mode_def)
  ultimately show ?case by simp
next
  case (Cons c u)
  let ?st = "st\<lparr>cs_field := cs_field st @ [c]\<rparr>"
  let ?t = "replace1 (CHR 0x22) [CHR 0x22, CHR 0x22] u @ CHR 0x22 # s"
  have ih: "record_fields (csv_record ?st (split_lines ?t))
      = record_fields (csv_record (st\<lparr>cs_mode := QuoteInQuoted, cs_field := cs_field st @ c # u\<rparr>) (split_lines s))"
    using Cons.IH [of ?st] Cons.prems by simp
  show ?case
  proof (cases "c = CHR 0x22")
    case False
    then have "record_fields (csv_record st (split_lines (c # ?t))) = record_fields (csv_record ?st (split_lines ?t))"
      using Cons.prems by (intro csv_record_quoted) auto
    then show ?thesis using ih False by simp
  next
    case True
    have nb: "\<not> is_break (CHR 0x22)" by (simp add: is_break_def LF_def CR_def)
    have s1: "csv_step (CHR 0x22) st = Inr (to_mode QuoteInQuoted st)" using Cons.prems by (simp add: csv_step_def)
    have s2: "csv_step (CHR 0x22) (to_mode QuoteInQuoted st) = Inr ?st"
      using Cons.prems True by (cases st) (auto simp: csv_step_def to_mode_def add_char_def)
    have "record_fields (csv_record st (split_lines (CHR 0x22 # CHR 0x22 # ?t)))
        = record_fields (csv_record (to_mode QuoteInQuoted st) (split_lines (CHR 0x22 # ?t)))"
      by (rule csv_record_plain_fields [OF nb _ s1]) simp
    also have "\<dots> = record_fields (csv_record ?st (split_lines ?t))"
      by (rule csv_record_plain_fields [OF nb _ s2]) simp
    finally show ?thesis using ih True by simp
  qed
qed

text \<open>A field can be read back when it is short enough and a line break of it brings quotes with it.\<close>

definition csv_safe :: "char \<Rightarrow> string \<Rightarrow> bool" where
  "csv_safe d f \<longleftrightarrow> length f < field_limit \<and> (needs_quotes d f \<or> list_all (\<lambda>c. \<not> is_break c) f)"

definition at_field :: "csv_state \<Rightarrow> bool" where
  "at_field s \<longleftrightarrow> (cs_mode s = StartRecord \<or> cs_mode s = StartField) \<and> cs_field s = []"

definition after_field :: "csv_mode \<Rightarrow> string \<Rightarrow> csv_state \<Rightarrow> csv_state" where
  "after_field m f s = s\<lparr>cs_mode := m, cs_field := f\<rparr>"

text \<open>After the text of a field that is not empty, or is in quotes, the reader is in the field or after its quotes.\<close>

lemma csv_record_field:
  assumes "at_field st" "csv_safe (CHR '','') f" "s \<noteq> []" "needs_quotes (CHR '','') f \<or> f \<noteq> []"
  shows "\<exists>m \<in> {InField, QuoteInQuoted}. record_fields (csv_record st (split_lines (csv_field (CHR '','') f @ s)))
     = record_fields (csv_record (after_field m f st) (split_lines s))"
proof (cases "needs_quotes (CHR '','') f")
  case True
  have s1: "csv_step (CHR 0x22) st = Inr (to_mode InQuoted st)"
    using assms(1) by (auto simp: at_field_def csv_step_def start_field_def newline_def LF_def CR_def)
  have "record_fields (csv_record st (split_lines (csv_field (CHR '','') f @ s)))
      = record_fields (csv_record (to_mode InQuoted st) (split_lines (replace1 (CHR 0x22) [CHR 0x22, CHR 0x22] f @ CHR 0x22 # s)))"
    using True csv_record_plain_fields [OF _ _ s1, of "replace1 (CHR 0x22) [CHR 0x22, CHR 0x22] f @ CHR 0x22 # s"]
    by (simp add: csv_field_def quote_field_def is_break_def LF_def CR_def)
  also have "\<dots> = record_fields (csv_record ((to_mode InQuoted st)\<lparr>cs_mode := QuoteInQuoted,
      cs_field := cs_field (to_mode InQuoted st) @ f\<rparr>) (split_lines s))"
    using assms by (intro csv_record_in_quotes) (auto simp: to_mode_def csv_safe_def at_field_def)
  finally show ?thesis using assms(1) by (simp add: at_field_def to_mode_def after_field_def)
next
  case False
  then obtain c u where f: "f = c # u" using assms(4) by (cases f) auto
  have plain: "\<forall>x \<in> set f. \<not> is_break x \<and> x \<noteq> CHR '','' \<and> x \<noteq> CHR 0x22 \<and> \<not> newline x" "length f < field_limit"
    using False assms(2) by (auto simp: csv_safe_def needs_quotes_def list_all_iff list_ex_iff)
  let ?st = "after_field InField [c] st"
  have c: "\<not> newline c" "c \<noteq> CHR 0x22" "c \<noteq> CHR '',''" "\<not> is_break c" using plain(1) f by auto
  have fl: "cs_field st = []" "cs_mode st = StartRecord \<or> cs_mode st = StartField"
    using assms(1) by (simp_all add: at_field_def)
  have "csv_step c st = add_char InField c st" using c fl(2) by (elim disjE) (simp_all add: csv_step_def start_field_def)
  moreover have "add_char InField c st = Inr ?st" using fl(1) plain(2) by (simp add: add_char_def after_field_def)
  ultimately have "csv_step c st = Inr ?st" by simp
  from csv_record_plain_fields [OF c(4) _ this, of "u @ s"]
  have "record_fields (csv_record st (split_lines (csv_field (CHR '','') f @ s)))
      = record_fields (csv_record ?st (split_lines (u @ s)))"
    using False f assms(3) by (simp add: csv_field_def)
  also have "\<dots> = record_fields (csv_record (?st\<lparr>cs_field := cs_field ?st @ u\<rparr>) (split_lines s))"
    using plain f assms(3) by (intro csv_record_in_field) (simp_all add: after_field_def)
  finally show ?thesis using f by (simp add: after_field_def)
qed

definition next_field :: "csv_mode \<Rightarrow> string \<Rightarrow> csv_state \<Rightarrow> csv_state" where
  "next_field m f s = s\<lparr>cs_mode := m, cs_fields := cs_fields s @ [f], cs_field := []\<rparr>"

lemma read_field_comma:
  assumes "at_field st" "csv_safe (CHR '','') f" "s \<noteq> []"
  shows "record_fields (csv_record st (split_lines (csv_field (CHR '','') f @ CHR '','' # s)))
     = record_fields (csv_record (next_field StartField f st) (split_lines s))"
proof -
  have nb: "\<not> is_break (CHR '','')" by (simp add: is_break_def LF_def CR_def)
  have step: "csv_step (CHR '','') (after_field m f st) = Inr (next_field StartField f st)"
    if "m = InField \<or> m = QuoteInQuoted" for m
    using that by (auto simp: csv_step_def after_field_def next_field_def save_field_def newline_def LF_def CR_def)
  show ?thesis
  proof (cases "needs_quotes (CHR '','') f \<or> f \<noteq> []")
    case True
    then obtain m where m: "m = InField \<or> m = QuoteInQuoted"
      "record_fields (csv_record st (split_lines (csv_field (CHR '','') f @ CHR '','' # s)))
        = record_fields (csv_record (after_field m f st) (split_lines (CHR '','' # s)))"
      using csv_record_field [OF assms(1,2), of "CHR '','' # s"] by auto
    show ?thesis unfolding m(2) by (rule csv_record_plain_fields [OF nb assms(3) step [OF m(1)]])
  next
    case False
    then have "csv_step (CHR '','') st = Inr (next_field StartField f st)"
      using assms(1)
      by (auto simp: at_field_def csv_step_def start_field_def next_field_def save_field_def newline_def LF_def CR_def)
    from csv_record_plain_fields [OF nb assms(3) this] show ?thesis using False by (auto simp: csv_field_def)
  qed
qed

lemma read_field_end:
  assumes "at_field st" "csv_safe (CHR '','') f" "f \<noteq> [] \<or> cs_mode st = StartField"
  shows "record_fields (csv_record st (split_lines (csv_field (CHR '','') f @ CR # LF # s)))
     = Inr (Some (cs_fields st @ [f], split_lines s))"
proof -
  have nl: "newline CR" "newline LF" by (simp_all add: newline_def)
  have "record_fields (csv_record (after_field m f st) (split_lines (CR # LF # s))) = Inr (Some (cs_fields st @ [f], split_lines s))"
    if "m = InField \<or> m = QuoteInQuoted" for m
    using that nl by (auto simp: csv_step_def after_field_def save_field_def csv_line_end_def to_mode_def record_fields_def
      LF_def CR_def simp del: split_lines.simps(3) simp add: split_lines_crlf [unfolded LF_def CR_def])
  moreover have "record_fields (csv_record st (split_lines (CR # LF # s))) = Inr (Some (cs_fields st @ [f], split_lines s))"
    if "f = []" "cs_mode st = StartField"
    using that nl assms(1) by (auto simp: at_field_def csv_step_def start_field_def save_field_def csv_line_end_def
      to_mode_def record_fields_def)
  ultimately show ?thesis
    using csv_record_field [OF assms(1,2), of "CR # LF # s"] assms(3)
    by (cases "needs_quotes (CHR '','') f \<or> f \<noteq> []") (auto simp: csv_field_def)
qed

lemma at_next_field [simp]: "at_field (next_field StartField f st)" "cs_mode (next_field StartField f st) = StartField"
  "cs_fields (next_field StartField f st) = cs_fields st @ [f]"
  by (simp_all add: at_field_def next_field_def)

lemma read_fields:
  assumes "fs \<noteq> []" "at_field st" "list_all (csv_safe (CHR '','')) fs" "fs \<noteq> [[]] \<or> cs_mode st = StartField"
  shows "record_fields (csv_record st (split_lines (join '','' (map (csv_field (CHR '','')) fs) @ CR # LF # s)))
     = Inr (Some (cs_fields st @ fs, split_lines s))"
  using assms
proof (induction fs arbitrary: st)
  case (Cons f fs)
  show ?case
  proof (cases fs)
    case Nil
    then show ?thesis using read_field_end [of st f s] Cons.prems by simp
  next
    case (Cons g gs)
    then have j: "join '','' (map (csv_field (CHR '','')) (f # fs)) @ CR # LF # s
        = csv_field (CHR '','') f @ CHR '','' # join '','' (map (csv_field (CHR '','')) fs) @ CR # LF # s"
      by (simp add: join_Cons)
    show ?thesis
      using read_field_comma [of st f "join '','' (map (csv_field (CHR '','')) fs) @ CR # LF # s"] Cons Cons.IH Cons.prems
      unfolding j by simp
  qed
qed simp

lemma at_new_record: "at_field new_record" "cs_fields new_record = []" "cs_mode new_record = StartRecord"
  by (simp_all add: at_field_def new_record_def)

lemma read_empty_field: "record_fields (csv_next (split_lines (quote_field [] @ CR # LF # s))) = Inr (Some ([[]], split_lines s))"
proof -
  have "record_fields (csv_next (split_lines (CHR 0x22 # CHR 0x22 # CR # LF # s)))
     = record_fields (csv_record (new_record\<lparr>cs_mode := QuoteInQuoted\<rparr>) (split_lines (CR # LF # s)))"
    using csv_record_plain_fields [of "CHR 0x22" "CHR 0x22 # CR # LF # s" new_record "to_mode InQuoted new_record"]
      csv_record_plain_fields [of "CHR 0x22" "CR # LF # s" "to_mode InQuoted new_record" "new_record\<lparr>cs_mode := QuoteInQuoted\<rparr>"]
    by (simp add: csv_next_def is_break_def LF_def CR_def csv_step_def start_field_def new_record_def newline_def to_mode_def
      del: split_lines.simps csv_record.simps)
  also have "\<dots> = Inr (Some ([[]], split_lines s))"
    by (simp add: csv_step_def newline_def save_field_def csv_line_end_def to_mode_def record_fields_def new_record_def LF_def CR_def
      split_lines_crlf [unfolded LF_def CR_def])
  finally show ?thesis by (simp add: quote_field_def)
qed

lemma read_written_row:
  assumes "list_all (csv_safe (CHR '','')) fs"
  shows "record_fields (csv_next (split_lines (csv_row (CHR '','') fs @ s))) = Inr (Some (fs, split_lines s))"
proof -
  have "record_fields (csv_next (split_lines (CR # LF # s))) = Inr (Some ([], split_lines s))"
    by (simp add: csv_next_def csv_step_def newline_def csv_line_end_def to_mode_def record_fields_def new_record_def)
  then show ?thesis
    using read_fields [of fs new_record s] read_empty_field [of s] assms at_new_record
    by (cases "fs = []"; cases "fs = [[]]") (simp_all add: csv_row_def csv_next_def)
qed

end
