(* ===== verification/CsvFile.thy ===== *)
theory CsvFile
  imports SourceFile Csv
begin

text \<open>
  \<open>CsvSourceFile\<close> of \<open>rethinkdb/_import.py\<close>: rows of text fields, named by the header of the file
  or by the one given, with empty fields left out.  The source is what is left of its lines.
\<close>

subsection \<open>The file\<close>

record csv_file =
  vf_name :: string
  vf_lines :: "string list"
  vf_bytes :: int
  vf_line_num :: nat
  vf_columns :: "string list"
  vf_no_header :: bool
  vf_custom :: "string list option"
  vf_warnings :: "string list"

definition csv_source :: "string \<Rightarrow> bool \<Rightarrow> string list option \<Rightarrow> string \<Rightarrow> csv_file" where
  "csv_source name no_header custom s =
     \<lparr>vf_name = name, vf_lines = split_lines s, vf_bytes = - 1, vf_line_num = 0, vf_columns = [],
      vf_no_header = no_header, vf_custom = custom, vf_warnings = []\<rparr>"

definition str_list :: "string list \<Rightarrow> string" where
  "str_list fs = ''['' @ join '', '' (map repr_str fs) @ '']''"

text \<open>\<open>byte_counter\<close> and the reader's count of lines, for the lines a record takes.\<close>

definition csv_take :: "nat \<Rightarrow> string list \<Rightarrow> csv_file \<Rightarrow> csv_file" where
  "csv_take n ls f = f\<lparr>vf_lines := ls, vf_line_num := vf_line_num f + n,
     vf_bytes := vf_bytes f + int (sum_list (map length (take n (vf_lines f))))\<rparr>"

text \<open>\<open>next(self._reader)\<close>; an error ends the import, where the reader stands then is left open.\<close>

definition csv_read :: "(csv_file, string list) file_io" where
  "csv_read f =
     (case csv_next (vf_lines f) of
        Inl e \<Rightarrow> (Inl (Raises e), f)
      | Inr None \<Rightarrow> (Inl StopIteration, csv_take (length (vf_lines f)) [] f)
      | Inr (Some (fs, n, ls)) \<Rightarrow> (Inr fs, csv_take n ls f))"

definition csv_setup :: "(csv_file, unit) file_io" where
  "csv_setup =
     bind (\<lambda>f. if vf_no_header f then (Inr (), f)
               else bind csv_read (\<lambda>columns f. (Inr (), f\<lparr>vf_columns := columns\<rparr>)) f)
       (\<lambda>_ f. case vf_custom f of
          Some header \<Rightarrow>
            (Inr (), f\<lparr>vf_columns := header, vf_warnings := vf_warnings f @
               (if vf_no_header f then []
                else [''Ignoring header row on '' @ vf_name f @ '': '' @ str_list (vf_columns f)])\<rparr>)
        | None \<Rightarrow>
            if vf_no_header f
            then (Inl (Raises (py_exc PyValueError ''Error: No field name information available'')), f)
            else (Inr (), f))"

definition csv_row_object :: "string list \<Rightarrow> string list \<Rightarrow> json" where
  "csv_row_object columns raw =
     JObj (dict_of (map (\<lambda>(k, v). (k, JStr v)) (filter (\<lambda>(k, v). v \<noteq> []) (zip columns raw))))"

definition inconsistent :: "string \<Rightarrow> nat \<Rightarrow> string list \<Rightarrow> error" where
  "inconsistent name n raw = py_exc PyException
     (''Error: '' @ [CHR 0x27] @ name @ [CHR 0x27] @ '' line '' @ show_nat n
        @ '' has an inconsistent number of columns: '' @ str_list raw)"

definition csv_get_line :: "(csv_file, json) file_io" where
  "csv_get_line =
     bind csv_read (\<lambda>raw f.
       if length (vf_columns f) \<noteq> length raw
       then (Inl (Raises (inconsistent (vf_name f) (vf_line_num f) raw)), f)
       else (Inr (csv_row_object (vf_columns f) raw), f))"

text \<open>There is no \<open>fill_buffer\<close>; it is never asked for, as \<open>get_line\<close> never wants more data.\<close>

definition csv_no_fill :: "(csv_file, unit) file_io" where
  "csv_no_fill f = (Inl (Raises (py_exc PyAttributeError
     ([CHR 0x27] @ ''CsvSourceFile'' @ [CHR 0x27] @ '' object has no attribute '' @ [CHR 0x27] @ ''fill_buffer'' @ [CHR 0x27]))), f)"

definition csv_teardown :: "(csv_file, unit) file_io" where
  "csv_teardown f = (Inr (), f)"

definition import_csv :: "int \<Rightarrow> csv_file \<Rightarrow> json list list \<times> ending \<times> csv_file" where
  "import_csv n f = batches (Suc (length (vf_lines f))) csv_setup csv_get_line csv_no_fill csv_teardown n f"

subsection \<open>Reading ends\<close>

lemma csv_record_takes: "csv_record s ls = Inr (Some (fs, n, ls')) \<Longrightarrow> ls \<noteq> [] \<Longrightarrow> length ls' < length ls"
proof (induction ls arbitrary: s fs n ls')
  case (Cons l ls)
  obtain s1 where s1: "csv_feed l s = Inr s1" using Cons.prems by (cases "csv_feed l s") auto
  show ?case
  proof (cases "cs_mode (csv_line_end s1) = StartRecord")
    case True
    then show ?thesis using Cons.prems s1 by simp
  next
    case False
    then obtain fs1 n1 where r: "csv_record (csv_line_end s1) ls = Inr (Some (fs1, n1, ls'))"
      using Cons.prems s1 by (auto simp: res_simps map_option_case split: option.splits)
    show ?thesis
    proof (cases "ls = []")
      case True
      then show ?thesis using r by (auto split: if_splits)
    next
      case False
      then show ?thesis using Cons.IH [OF r] by simp
    qed
  qed
qed simp

lemma csv_next_takes: "csv_next ls = Inr (Some (fs, n, ls')) \<Longrightarrow> length ls' < length ls"
  by (cases ls) (auto simp: csv_next_def new_record_def simp del: csv_record.simps(2) dest: csv_record_takes)

lemma csv_read_takes: "csv_read f = (Inr raw, f') \<Longrightarrow> length (vf_lines f') < length (vf_lines f)"
  using csv_next_takes [of "vf_lines f"] by (auto simp: csv_read_def csv_take_def split: sum.splits option.splits)

lemma csv_get_line_takes: "csv_get_line f = (Inr r, f') \<Longrightarrow> length (vf_lines f') < length (vf_lines f)"
  using csv_read_takes [of f] by (auto simp: csv_get_line_def bind_Inr split: if_splits)

lemma csv_never_waits: "csv_get_line f \<noteq> (Inl NeedMoreData, f')"
  by (auto simp: csv_get_line_def csv_read_def bind_Inl split: sum.splits option.splits if_splits)

interpretation csf: row_source csv_get_line csv_no_fill "\<lambda>f. length (vf_lines f)"
  by unfold_locales (simp_all add: csv_get_line_takes csv_never_waits)

subsection \<open>The rows of a file\<close>

text \<open>The records that lines begin with, each with the number of its lines.\<close>

inductive csv_reads :: "string list \<Rightarrow> (string list \<times> nat) list \<Rightarrow> string list \<Rightarrow> bool" where
  reads_none: "csv_reads ls [] ls"
| reads_one: "csv_next ls = Inr (Some (fs, n, ls')) \<Longrightarrow> csv_reads ls' rs ls'' \<Longrightarrow> csv_reads ls ((fs, n) # rs) ls''"

inductive_cases csv_reads_Cons: "csv_reads ls (r # rs) ls'"

lemma csv_get_line_row:
  "csv_next (vf_lines f) = Inr (Some (fs, n, ls)) \<Longrightarrow> length fs = length (vf_columns f)
     \<Longrightarrow> csv_get_line f = (Inr (csv_row_object (vf_columns f) fs), csv_take n ls f)"
  by (simp add: csv_get_line_def bind_def csv_read_def csv_take_def)

lemma csv_take_fields [simp]:
  "vf_lines (csv_take n ls f) = ls" "vf_columns (csv_take n ls f) = vf_columns f" "vf_name (csv_take n ls f) = vf_name f"
  "vf_line_num (csv_take n ls f) = vf_line_num f + n" "vf_custom (csv_take n ls f) = vf_custom f"
  "vf_no_header (csv_take n ls f) = vf_no_header f" "vf_warnings (csv_take n ls f) = vf_warnings f"
  by (simp_all add: csv_take_def)

lemma record_fields_Some: "record_fields r = Inr (Some (fs, ls)) \<Longrightarrow> \<exists>n. r = Inr (Some (fs, n, ls))"
  by (cases r) (auto simp: record_fields_def map_option_case split: option.splits)

lemma written_reads:
  "list_all (list_all (csv_safe (CHR '',''))) rows
     \<Longrightarrow> \<exists>rs. csv_reads (split_lines (concat (map (csv_row (CHR '','')) rows))) rs [] \<and> map fst rs = rows"
proof (induction rows)
  case Nil
  then show ?case using reads_none [of "[]"] by (intro exI [of _ "[]"]) simp
next
  case (Cons r rows)
  let ?rest = "concat (map (csv_row (CHR '','')) rows)"
  obtain rs where rs: "csv_reads (split_lines ?rest) rs []" "map fst rs = rows" using Cons by auto
  obtain k where "csv_next (split_lines (csv_row (CHR '','') r @ ?rest)) = Inr (Some (r, k, split_lines ?rest))"
    using record_fields_Some [OF read_written_row, of r ?rest] Cons.prems by auto
  from reads_one [OF this rs(1)] show ?case using rs(2) by (intro exI [of _ "(r, k) # rs"]) simp
qed

lemma rows_of_reads:
  assumes "csv_reads ls rs ls'" "vf_lines f = ls" "\<forall>r \<in> set rs. length (fst r) = length (vf_columns f)"
  shows "\<exists>f'. vf_lines f' = ls' \<and> vf_columns f' = vf_columns f \<and> vf_name f' = vf_name f
     \<and> vf_line_num f' = vf_line_num f + sum_list (map snd rs)
     \<and> (\<forall>rows e f''. rows_of csv_get_line csv_no_fill f' rows e f''
          \<longrightarrow> rows_of csv_get_line csv_no_fill f (map (\<lambda>r. csv_row_object (vf_columns f) (fst r)) rs @ rows) e f'')"
  using assms
proof (induction arbitrary: f rule: csv_reads.induct)
  case (reads_one ls fs n ls' rs ls'')
  let ?f = "csv_take n ls' f"
  have g: "csv_get_line f = (Inr (csv_row_object (vf_columns f) fs), ?f)"
    using reads_one by (intro csv_get_line_row) simp_all
  from reads_one.IH [of ?f] reads_one.prems obtain f' where f':
    "vf_lines f' = ls''" "vf_columns f' = vf_columns f" "vf_name f' = vf_name f"
    "vf_line_num f' = vf_line_num f + n + sum_list (map snd rs)"
    "\<forall>rows e f''. rows_of csv_get_line csv_no_fill f' rows e f''
       \<longrightarrow> rows_of csv_get_line csv_no_fill ?f (map (\<lambda>r. csv_row_object (vf_columns f) (fst r)) rs @ rows) e f''"
    by auto
  have "rows_of csv_get_line csv_no_fill f (csv_row_object (vf_columns f) fs #
      map (\<lambda>r. csv_row_object (vf_columns f) (fst r)) rs @ rows) e f''"
    if "rows_of csv_get_line csv_no_fill f' rows e f''" for rows e f''
    using rows_of.row [of csv_get_line f _ ?f csv_no_fill, OF g] f'(5) [rule_format, OF that] by blast
  then show ?case using f' by (intro exI [of _ f']) simp
qed auto

lemma rows_of_csv_end:
  assumes "vf_lines f = []"
  shows "rows_of csv_get_line csv_no_fill f [] StopIteration (csv_take 0 [] f)"
proof -
  have "csv_get_line f = (Inl StopIteration, csv_take 0 [] f)"
    using assms by (simp add: csv_get_line_def bind_def csv_read_def csv_next_def new_record_def)
  from rows_of.ends [of csv_get_line f _ _ csv_no_fill, OF this] show ?thesis by simp
qed

text \<open>The source after its header.\<close>

definition csv_headed :: "csv_file \<Rightarrow> csv_file \<Rightarrow> string list \<Rightarrow> string list \<Rightarrow> bool" where
  "csv_headed f f1 columns ls \<longleftrightarrow> csv_setup f = (Inr (), f1) \<and> vf_columns f1 = columns \<and> vf_lines f1 = ls
     \<and> vf_name f1 = vf_name f"

lemma csv_setup_header:
  assumes "csv_next (vf_lines f) = Inr (Some (columns, n, ls))" "\<not> vf_no_header f"
  shows "\<exists>f1. csv_headed f f1 (case vf_custom f of None \<Rightarrow> columns | Some h \<Rightarrow> h) ls \<and> vf_line_num f1 = vf_line_num f + n"
  using assms by (cases "vf_custom f") (auto simp: csv_headed_def csv_setup_def bind_def csv_read_def)

lemma csv_setup_custom:
  "vf_no_header f \<Longrightarrow> vf_custom f = Some h \<Longrightarrow> \<exists>f1. csv_headed f f1 h (vf_lines f) \<and> vf_line_num f1 = vf_line_num f"
  by (simp add: csv_headed_def csv_setup_def bind_def)

lemma import_csv_rows:
  assumes "csv_headed f f1 columns ls" "length ls \<le> length (vf_lines f)" "0 < n"
    and "rows_of csv_get_line csv_no_fill f1 rs e f2"
  shows "import_csv n f = (case full_batches (nat n) [] rs of (bs, x) \<Rightarrow> (case end_reading e x f2 of (bs', y) \<Rightarrow> (bs @ bs', y)))"
proof -
  have "read_batches (Suc (length (vf_lines f))) csv_get_line csv_no_fill (nat n) [] f1
      = (case full_batches (nat n) [] rs of (bs, x) \<Rightarrow> (case end_reading e x f2 of (bs', y) \<Rightarrow> (bs @ bs', y)))"
    using assms(1,2) by (intro csf.reads_in_batches [OF assms(4)]) (simp add: csv_headed_def)
  then show ?thesis using assms(1,3)
    by (auto simp: import_csv_def batches_def csv_headed_def csv_teardown_def split: prod.splits ending.splits)
qed

lemma import_written:
  assumes "0 < n" "list_all (csv_safe (CHR '','')) header" "list_all (list_all (csv_safe (CHR '',''))) rows"
    and "list_all (\<lambda>r. length r = length header) rows"
  shows "\<exists>f. import_csv n (csv_source name False None (csv_row (CHR '','') header @ concat (map (csv_row (CHR '','')) rows)))
     = (in_batches (nat n) (map (csv_row_object header) rows), Exhausted, f)"
proof -
  let ?body = "concat (map (csv_row (CHR '','')) rows)"
  let ?f = "csv_source name False None (csv_row (CHR '','') header @ ?body)"
  obtain k where k: "csv_next (vf_lines ?f) = Inr (Some (header, k, split_lines ?body))"
    using record_fields_Some [OF read_written_row [OF assms(2), of ?body]] by (auto simp: csv_source_def)
  from csv_setup_header [OF k] obtain f1 where h: "csv_headed ?f f1 header (split_lines ?body)"
    by (auto simp: csv_source_def)
  obtain rs where rs: "csv_reads (split_lines ?body) rs []" "map fst rs = rows"
    using written_reads [OF assms(3)] by blast
  have "\<forall>r \<in> set rs. length (fst r) = length header"
    using assms(4) unfolding rs(2) [symmetric] by (simp add: list_all_iff)
  from rows_of_reads [OF rs(1), of f1] h this obtain f2 where f2: "vf_lines f2 = []"
    "\<forall>rows e f''. rows_of csv_get_line csv_no_fill f2 rows e f''
       \<longrightarrow> rows_of csv_get_line csv_no_fill f1 (map (\<lambda>r. csv_row_object header (fst r)) rs @ rows) e f''"
    by (auto simp: csv_headed_def)
  have "rows_of csv_get_line csv_no_fill f1 (map (csv_row_object header) rows) StopIteration (csv_take 0 [] f2)"
    using f2(2) [rule_format, OF rows_of_csv_end [OF f2(1)]] unfolding rs(2) [symmetric] by (simp add: comp_def)
  moreover have "length (split_lines ?body) \<le> length (vf_lines ?f)" using csv_next_takes [OF k] by simp
  ultimately show ?thesis
    using import_csv_rows [OF h _ assms(1)] by (auto simp: in_batches_def end_reading_def split: prod.splits)
qed

text \<open>A CSV file written with commas is imported as its rows: the header names the fields, quoted
  fields may hold delimiters, quotes and line breaks, and an empty field is left out of its row.\<close>

theorem csv_file_imported:
  assumes "0 < n" "list_all (csv_safe (CHR '','')) header" "list_all (list_all (csv_safe (CHR '',''))) rows"
    and "list_all (\<lambda>r. length r = length header) rows"
  shows "\<exists>f. import_csv n (csv_source name False None (csv_row (CHR '','') header @ concat (map (csv_row (CHR '','')) rows)))
     = (in_batches (nat n) (map (csv_row_object header) rows), Exhausted, f)"
  using assms by (rule import_written)

theorem csv_file_imported_witness:
  "\<exists>f. import_csv 2 (csv_source ''f'' False None (csv_row (CHR '','') [''id'', ''v'']
       @ concat (map (csv_row (CHR '','')) [[''1'', ''a,b''], [''2'', []]])))
     = (in_batches (nat 2) (map (csv_row_object [''id'', ''v'']) [[''1'', ''a,b''], [''2'', []]]), Exhausted, f)"
  by (rule csv_file_imported) (simp_all add: csv_safe_def field_limit_def needs_quotes_def is_break_def newline_def LF_def CR_def)

text \<open>A record whose number of fields is not that of the header ends the import with an error that
  names its last line; the rows before it have been handed out in full batches only, those of the batch
  that was being filled are not.\<close>

theorem csv_inconsistent_row:
  assumes "0 < n" "csv_next (split_lines s) = Inr (Some (header, k, ls))" "csv_reads ls rs ls'"
    and "\<forall>r \<in> set rs. length (fst r) = length header"
    and "csv_next ls' = Inr (Some (fs, m, ls''))" "length fs \<noteq> length header"
  shows "\<exists>f. import_csv n (csv_source name False None s)
     = (fst (full_batches (nat n) [] (map (\<lambda>r. csv_row_object header (fst r)) rs)),
        Broken (inconsistent name (k + sum_list (map snd rs) + m) fs), f)"
proof -
  let ?f = "csv_source name False None s"
  have h0: "csv_next (vf_lines ?f) = Inr (Some (header, k, ls))" using assms(2) by (simp add: csv_source_def)
  from csv_setup_header [OF h0] obtain f1 where h: "csv_headed ?f f1 header ls" "vf_line_num f1 = k"
    by (auto simp: csv_source_def)
  have c: "vf_lines f1 = ls" "vf_columns f1 = header" "vf_name f1 = name"
    using h(1) by (simp_all add: csv_headed_def csv_source_def)
  from rows_of_reads [OF assms(3), of f1] c h(2) assms(4) obtain f2 where f2:
    "vf_lines f2 = ls'" "vf_columns f2 = header" "vf_name f2 = name" "vf_line_num f2 = k + sum_list (map snd rs)"
    "\<forall>rows e f''. rows_of csv_get_line csv_no_fill f2 rows e f''
       \<longrightarrow> rows_of csv_get_line csv_no_fill f1 (map (\<lambda>r. csv_row_object header (fst r)) rs @ rows) e f''" by auto
  let ?e = "Raises (inconsistent name (k + sum_list (map snd rs) + m) fs)"
  have "csv_get_line f2 = (Inl ?e, csv_take m ls'' f2)"
    using assms(5,6) f2(1-4) by (auto simp: csv_get_line_def bind_def csv_read_def)
  from rows_of.ends [of csv_get_line f2 _ _ csv_no_fill, OF this]
  have "rows_of csv_get_line csv_no_fill f1 (map (\<lambda>r. csv_row_object header (fst r)) rs) ?e (csv_take m ls'' f2)"
    using f2(5) [rule_format, of "[]" ?e] by simp
  moreover have "length ls \<le> length (vf_lines ?f)" using csv_next_takes [OF h0] by simp
  ultimately show ?thesis
    using import_csv_rows [OF h(1) _ assms(1)] by (auto simp: end_reading_def split: prod.splits)
qed

lemmas csv_eval = csv_next_def new_record_def csv_step_def start_field_def add_char_def save_field_def to_mode_def
  csv_line_end_def newline_def field_limit_def is_break_def LF_def CR_def

theorem csv_inconsistent_row_witness:
  "\<exists>f. import_csv 1 (csv_source ''f'' False None [CHR ''a'', LF, CHR ''1'', LF, CHR ''2'', CHR '','', CHR ''3''])
     = (fst (full_batches (nat 1) [] (map (\<lambda>r. csv_row_object [''a''] (fst r)) [([''1''], 1)])),
        Broken (inconsistent ''f'' (1 + sum_list (map snd [([''1''], 1)]) + 1) [''2'', ''3'']), f)"
proof -
  let ?l2 = "[CHR ''2'', CHR '','', CHR ''3'']"
  have h: "csv_next (split_lines [CHR ''a'', LF, CHR ''1'', LF, CHR ''2'', CHR '','', CHR ''3''])
      = Inr (Some ([''a''], 1, [[CHR ''1'', LF], ?l2]))"
    by (simp add: csv_eval)
  have "csv_next [[CHR ''1'', LF], ?l2] = Inr (Some ([''1''], 1, [?l2]))"
    by (simp add: csv_eval)
  from reads_one [OF this reads_none] have r: "csv_reads [[CHR ''1'', LF], ?l2] [([''1''], 1)] [?l2]" .
  have b: "csv_next [?l2] = Inr (Some ([''2'', ''3''], 1, []))"
    by (simp add: csv_eval)
  show ?thesis using csv_inconsistent_row [OF _ h r _ b, of 1 "''f''"] by simp
qed

end
