(* ===== verification/JsonDumps.thy ===== *)
theory JsonDumps
  imports JsonPrefix
begin

text \<open>
  \<open>json.dumps\<close> as the command line tools call it, with its default separators (a comma or a colon
  and a blank) and every character outside of printable ASCII escaped; and that the decoder gives
  the value back (\<open>raw_decode_dumps\<close>).
\<close>

definition escape_ascii :: "char \<Rightarrow> string" where
  "escape_ascii c =
     (if code_point c < 127 then escape_char c
      else [CHR 0x5C, CHR ''u'', CHR ''0'', CHR ''0'',
            hex_digit (code_point c div 16), hex_digit (code_point c mod 16)])"

definition quote_dumps :: "string \<Rightarrow> string" where
  "quote_dumps s = CHR 0x22 # concat (map escape_ascii s) @ [CHR 0x22]"

fun json_dumps :: "json \<Rightarrow> string" where
  "json_dumps JNull = ''null''"
| "json_dumps (JBool b) = (if b then ''true'' else ''false'')"
| "json_dumps (JInt i) = show_int i"
| "json_dumps (JFloat f) = f"
| "json_dumps (JStr s) = quote_dumps s"
| "json_dumps (JArr xs) = CHR ''['' # join '', '' (map json_dumps xs) @ '']''"
| "json_dumps (JObj kvs) =
     CHR ''{'' # join '', '' (map (\<lambda>kv. quote_dumps (fst kv) @ '': '' @ json_dumps (snd kv)) kvs) @ ''}''"

lemma parse_string_ascii: "parse_string (escape_ascii c @ s) = rmap (\<lambda>(t, r). (c # t, r)) (parse_string s)"
proof (cases "code_point c < 127")
  case False
  have d: "code_point c div 16 < 16" using code_point_less [of c] by (intro less_mult_imp_div_less) linarith
  have "hex4 [CHR ''0'', CHR ''0'', hex_digit (code_point c div 16), hex_digit (code_point c mod 16)] = Some (code_point c)"
    using d by (simp add: hex4_def hex_val_digit) (simp add: hex_val_def is_digit_def digit_val_def code_point_def)
  then show ?thesis using False by (simp add: escape_ascii_def parse_string_eqs)
qed (simp add: escape_ascii_def parse_string_escape)

lemma parse_string_quoted_ascii: "parse_string (concat (map escape_ascii s) @ CHR 0x22 # r) = Inr (s, r)"
  by (induction s) (simp_all add: parse_string_eqs parse_string_ascii)

lemma json_dumps_head: "wf_json j \<Longrightarrow> json_dumps j \<noteq> [] \<and> value_head (hd (json_dumps j))"
  using json_text_head [of j] by (cases j) (auto simp: value_head_def quote_dumps_def)

lemma skip_ws_value: "wf_json j \<Longrightarrow> skip_ws (json_dumps j @ r) = json_dumps j @ r"
  using json_dumps_head [of j] by (intro skip_ws_head) auto

lemma skip_ws_blank [simp]: "skip_ws (CHR '' '' # s) = skip_ws s"
  by (simp add: skip_ws_def is_ws_def)

lemma skip_ws_comma: "skip_ws (CHR '','' # s) = CHR '','' # s"
  by (simp add: skip_ws_def is_ws_def)

lemma skip_ws_join:
  assumes "xs \<noteq> []" "\<And>x r. x \<in> set xs \<Longrightarrow> skip_ws (f x @ r) = f x @ r"
  shows "skip_ws (join sep (map f xs) @ r) = join sep (map f xs) @ r"
  using assms by (cases xs; cases "tl xs") (auto simp: join_Cons)

text \<open>A value is read back by \<open>p\<close> from a text if what follows it ends a value.\<close>

definition reads_back :: "json \<Rightarrow> bool" where
  "reads_back x \<longleftrightarrow> wf_json x \<and> (\<forall>n r. ends_value r \<longrightarrow> 2 * length (json_dumps x) < n
     \<longrightarrow> parse_value n (json_dumps x @ r) = Inr (x, r))"

lemma reads_backD: "reads_back x \<Longrightarrow> ends_value r \<Longrightarrow> 2 * length (json_dumps x) < n \<Longrightarrow> parse_value n (json_dumps x @ r) = Inr (x, r)"
  by (simp add: reads_back_def)

lemma parse_elems_dumps:
  assumes "xs \<noteq> []" "\<forall>x \<in> set xs. reads_back x" "2 * length (join '', '' (map json_dumps xs)) + 1 < n"
  shows "parse_elems n (join '', '' (map json_dumps xs) @ '']'' @ r) = Inr (xs, r)"
  using assms
proof (induction xs arbitrary: n)
  case (Cons x xs)
  then obtain m where n: "n = Suc m" by (cases n) auto
  show ?case
  proof (cases "xs = []")
    case True
    have "parse_value m (json_dumps x @ '']'' @ r) = Inr (x, '']'' @ r)"
      using Cons.prems True n by (intro reads_backD) (auto simp: ends_value_def)
    then show ?thesis by (simp add: True n skip_ws_ends ends_value_def starts_with_def)
  next
    case False
    let ?rest = "join '', '' (map json_dumps xs)"
    have j: "join '', '' (map json_dumps (x # xs)) = json_dumps x @ '', '' @ ?rest"
      using False by (simp add: join_Cons)
    have len: "2 * length (json_dumps x) < m" "2 * length ?rest + 1 < m"
      using Cons.prems(3) unfolding j n by simp_all
    have "parse_value m (json_dumps x @ '', '' @ ?rest @ '']'' @ r) = Inr (x, '', '' @ ?rest @ '']'' @ r)"
      using Cons.prems(2) len by (intro reads_backD) (auto simp: ends_value_def)
    moreover have "parse_elems m (?rest @ '']'' @ r) = Inr (xs, r)"
      using False Cons.prems(2) len by (intro Cons.IH) auto
    moreover have "skip_ws (?rest @ '']'' @ r) = ?rest @ '']'' @ r"
      using False Cons.prems(2) skip_ws_value by (intro skip_ws_join) (auto simp: reads_back_def)
    ultimately show ?thesis unfolding j n by (simp add: starts_with_def skip_ws_comma)
  qed
qed simp

definition member_dumps :: "string \<times> json \<Rightarrow> string" where
  "member_dumps kv = quote_dumps (fst kv) @ '': '' @ json_dumps (snd kv)"

lemma skip_ws_quote: "skip_ws (quote_dumps k @ r) = quote_dumps k @ r"
  by (simp add: quote_dumps_def skip_ws_def is_ws_def)

lemma parse_members_dumps:
  assumes "kvs \<noteq> []" "\<forall>kv \<in> set kvs. reads_back (snd kv)" "2 * length (join '', '' (map member_dumps kvs)) + 1 < n"
  shows "parse_members n (join '', '' (map member_dumps kvs) @ ''}'' @ r) = Inr (kvs, r)"
  using assms
proof (induction kvs arbitrary: n)
  case (Cons kv kvs)
  obtain k x where kv: "kv = (k, x)" by (cases kv)
  from Cons.prems(3) obtain m where n: "n = Suc m" by (cases n) auto
  have x: "reads_back x" using Cons.prems(2) kv by simp
  have key: "parse_string (tl (quote_dumps k @ t)) = Inr (k, t)" "starts_with (CHR 0x22) (quote_dumps k @ t)" for t
    by (simp_all add: quote_dumps_def parse_string_quoted_ascii starts_with_def)
  have colon: "skip_ws ('': '' @ t) = '': '' @ t" for t by (simp add: skip_ws_def is_ws_def)
  have sv: "skip_ws (json_dumps x @ t) = json_dumps x @ t" for t using skip_ws_value x by (simp add: reads_back_def)
  show ?case
  proof (cases "kvs = []")
    case True
    have "parse_value m (json_dumps x @ ''}'' @ r) = Inr (x, ''}'' @ r)"
      using Cons.prems(3) True n kv by (intro reads_backD [OF x]) (auto simp: ends_value_def member_dumps_def)
    then show ?thesis using key [of "'': '' @ json_dumps x @ ''}'' @ r"] colon [of "json_dumps x @ ''}'' @ r"] sv [of "''}'' @ r"]
      by (simp add: True n kv member_dumps_def skip_ws_ends ends_value_def starts_with_def)
  next
    case False
    let ?rest = "join '', '' (map member_dumps kvs)"
    have j: "join '', '' (map member_dumps (kv # kvs)) = quote_dumps k @ '': '' @ json_dumps x @ '', '' @ ?rest"
      using False by (simp add: join_Cons member_dumps_def kv)
    have len: "2 * length (json_dumps x) < m" "2 * length ?rest + 1 < m"
      using Cons.prems(3) unfolding j n by simp_all
    let ?tail = "'', '' @ ?rest @ ''}'' @ r"
    have "parse_value m (json_dumps x @ ?tail) = Inr (x, ?tail)"
      using len by (intro reads_backD [OF x]) (auto simp: ends_value_def)
    moreover have "parse_members m (?rest @ ''}'' @ r) = Inr (kvs, r)"
      using False Cons.prems(2) len by (intro Cons.IH) auto
    moreover have "skip_ws (?rest @ ''}'' @ r) = ?rest @ ''}'' @ r"
      using False skip_ws_quote by (intro skip_ws_join) (auto simp: member_dumps_def)
    ultimately show ?thesis
      using key [of "'': '' @ json_dumps x @ ?tail"] colon [of "json_dumps x @ ?tail"] sv [of ?tail]
      unfolding j n by (simp add: starts_with_def kv skip_ws_comma)
  qed
qed simp

lemma dumps_as_text: "json_dumps j = json_text j \<Longrightarrow> wf_json j \<Longrightarrow> reads_back j"
  using parse_value_text [of j] by (simp add: reads_back_def del: json_dumps.simps json_text.simps)

lemma dumps_reads_back: "wf_json j \<Longrightarrow> reads_back j"
proof (induction j)
  case (JStr s)
  have "parse_value n (json_dumps (JStr s) @ r) = Inr (JStr s, r)" if "2 * length (json_dumps (JStr s)) < n" for n r
    using that by (cases n) (auto simp: quote_dumps_def parse_string_quoted_ascii)
  then show ?case by (simp add: reads_back_def del: json_dumps.simps)
next
  case (JArr xs)
  show ?case unfolding reads_back_def
  proof (intro conjI allI impI)
    fix n r assume n: "2 * length (json_dumps (JArr xs)) < n"
    then obtain m where m: "n = Suc m" by (cases n) auto
    have xs: "\<forall>x \<in> set xs. reads_back x" using JArr by auto
    show "parse_value n (json_dumps (JArr xs) @ r) = Inr (JArr xs, r)"
    proof (cases xs)
      case Nil
      then show ?thesis by (simp add: m skip_ws_def is_ws_def starts_with_def)
    next
      case (Cons y ys)
      let ?j = "join '', '' (map json_dumps xs)"
      have "parse_elems m (?j @ '']'' @ r) = Inr (xs, r)"
        using xs Cons n m by (intro parse_elems_dumps) auto
      moreover have "skip_ws (?j @ '']'' @ r) = ?j @ '']'' @ r"
        using Cons xs skip_ws_value by (intro skip_ws_join) (auto simp: reads_back_def)
      moreover have "\<not> starts_with (CHR '']'') (?j @ '']'' @ r)"
        using json_dumps_head [of y] value_head_not [of "hd (json_dumps y)"] JArr.prems Cons
        by (cases ys) (auto simp: starts_with_def)
      ultimately show ?thesis by (simp add: m)
    qed
  qed (rule JArr.prems)
next
  case (JObj kvs)
  show ?case unfolding reads_back_def
  proof (intro conjI allI impI)
    fix n r assume n: "2 * length (json_dumps (JObj kvs)) < n"
    have t: "json_dumps (JObj kvs) = ''{'' @ join '', '' (map member_dumps kvs) @ ''}''"
      by (simp add: member_dumps_def [abs_def])
    from n obtain m where m: "n = Suc m" by (cases n) auto
    have xs: "\<forall>kv \<in> set kvs. reads_back (snd kv)"
      using JObj by (fastforce simp: snds.simps)
    show "parse_value n (json_dumps (JObj kvs) @ r) = Inr (JObj kvs, r)"
    proof (cases kvs)
      case Nil
      then show ?thesis by (simp add: m skip_ws_def is_ws_def starts_with_def)
    next
      case (Cons y ys)
      let ?j = "join '', '' (map member_dumps kvs)"
      have "parse_members m (?j @ ''}'' @ r) = Inr (kvs, r)"
        using xs Cons n unfolding t m by (intro parse_members_dumps) auto
      moreover have "skip_ws (?j @ ''}'' @ r) = ?j @ ''}'' @ r"
        using Cons skip_ws_quote by (intro skip_ws_join) (auto simp: member_dumps_def)
      moreover have "\<not> starts_with (CHR ''}'') (?j @ ''}'' @ r)"
        using Cons by (cases ys) (auto simp: starts_with_def member_dumps_def quote_dumps_def)
      moreover have "dict_of kvs = kvs" using JObj.prems by (intro dict_of_distinct) simp
      ultimately show ?thesis unfolding t m by simp
    qed
  qed (rule JObj.prems)
qed (auto intro: dumps_as_text)

lemma raw_decode_dumps: "wf_json j \<Longrightarrow> ends_value r \<Longrightarrow> raw_decode (json_dumps j @ r) = Inr (j, r)"
  using dumps_reads_back [of j] by (simp add: raw_decode_def reads_back_def del: json_dumps.simps parse_value.simps)


end
