(* ===== verification/ExportFile.thy ===== *)
theory ExportFile
  imports JsonFile CsvFile JsonDumps
begin

text \<open>
  The writers of \<open>rethinkdb/_export.py\<close>: \<open>json_writer\<close> and \<open>csv_writer\<close>, as the text of the
  file they write for the rows that come through the task queue before its \<open>StopIteration\<close>; and that
  \<open>rethinkdb import\<close> reads the same rows back.
\<close>

subsection \<open>Writing JSON\<close>

type_synonym row = "(string, json) dict"

definition keep_fields :: "string list option \<Rightarrow> row \<Rightarrow> row" where
  "keep_fields names r = (case names of None \<Rightarrow> r | Some fs \<Rightarrow> filter (\<lambda>(k, v). k \<in> set fs) r)"

fun json_rows :: "bool \<Rightarrow> bool \<Rightarrow> row list \<Rightarrow> string" where
  "json_rows ndjson first [] = []"
| "json_rows ndjson first (r # rs) =
     (if first then (if ndjson then [] else [LF]) else if ndjson then [LF] else [CHR '','', LF])
       @ json_dumps (JObj r) @ json_rows ndjson False rs"

definition json_writer :: "string list option \<Rightarrow> string \<Rightarrow> row list \<Rightarrow> string" where
  "json_writer names format rows =
     (let ndjson = (format = ''ndjson'') in
      (if ndjson then [] else ''['') @ json_rows ndjson True (map (keep_fields names) rows)
        @ (if ndjson then [] else [LF, CHR '']'', LF]))"

subsection \<open>Writing CSV\<close>

text \<open>\<open>str\<close> of a number; a boolean is one.\<close>

fun str_number :: "json \<Rightarrow> string option" where
  "str_number (JBool b) = Some (if b then ''True'' else ''False'')"
| "str_number (JInt i) = Some (show_int i)"
| "str_number (JFloat f) = Some (if f = ''NaN'' then ''nan'' else if f = ''Infinity'' then ''inf''
     else if f = ''-Infinity'' then ''-inf'' else f)"
| "str_number _ = None"

text \<open>A field that is missing is \<open>None\<close>, which is written like the empty text.\<close>

definition csv_cell :: "row \<Rightarrow> string \<Rightarrow> string" where
  "csv_cell r k =
     (case map_of r k of
        None \<Rightarrow> []
      | Some v \<Rightarrow>
          (case str_number v of
             Some s \<Rightarrow> s
           | None \<Rightarrow> (case v of JStr s \<Rightarrow> s | _ \<Rightarrow> json_dumps v)))"

definition csv_writer :: "string list \<Rightarrow> char \<Rightarrow> row list \<Rightarrow> string" where
  "csv_writer names d rows =
     csv_row d names @ concat (map (\<lambda>r. csv_row d (map (csv_cell r) names)) rows)"

subsection \<open>Exported files are imported\<close>

definition row_items :: "bool \<Rightarrow> row list \<Rightarrow> (string \<times> string \<times> json) list" where
  "row_items ndjson rows = (case rows of
     [] \<Rightarrow> []
   | r # rs \<Rightarrow> (if ndjson then [] else [LF], json_dumps (JObj r), JObj r)
       # map (\<lambda>r. (if ndjson then [LF] else [CHR '','', LF], json_dumps (JObj r), JObj r)) rs)"

lemma json_rows_items: "json_rows ndjson True rows = concat (map item_text (row_items ndjson rows))"
proof -
  have "json_rows ndjson False rs
    = concat (map item_text (map (\<lambda>r. (if ndjson then [LF] else [CHR '','', LF], json_dumps (JObj r), JObj r)) rs))" for rs
    by (induction rs) (simp_all add: item_text_def del: json_dumps.simps)
  then show ?thesis by (cases rows) (simp_all add: row_items_def item_text_def del: json_dumps.simps)
qed

lemma row_items_rows [simp]: "map item_row (row_items ndjson rows) = map JObj rows"
  by (cases rows) (simp_all add: row_items_def item_row_def comp_def)

lemma document_dumps: "wf_json (JObj r) \<Longrightarrow> document (json_dumps (JObj r)) (JObj r)"
  using raw_decode_dumps [of "JObj r" "[]"] by (simp add: document_def ends_value_def)

lemma is_ws_LF: "is_ws LF"
  by (simp add: is_ws_def LF_def)

lemma row_items_ok: "\<forall>r \<in> set rows. wf_json (JObj r) \<Longrightarrow> items_ok (\<not> ndjson) False (row_items ndjson rows)"
proof -
  have sep: "separator (\<not> ndjson) (if ndjson then [LF] else [CHR '','', LF])"
    by (auto simp: separator_def is_ws_LF intro: exI [of _ "[]"] exI [of _ "[LF]"])
  have "items_ok a a (map (\<lambda>r. (s, json_dumps (JObj r), JObj r)) rs)"
    if "\<forall>r \<in> set rs. wf_json (JObj r)" "separator a s" for a s rs
    using that by (induction rs) (simp_all add: item_ok_def item_row_def document_dumps del: json_dumps.simps)
  moreover assume "\<forall>r \<in> set rows. wf_json (JObj r)"
  ultimately show ?thesis using sep document_dumps
    by (cases rows) (auto simp: row_items_def item_ok_def item_row_def separator_def is_ws_LF simp del: json_dumps.simps)
qed

text \<open>What is written for a row, with what is before it.\<close>

definition row_size :: "row \<Rightarrow> int" where
  "row_size r = int (length (json_dumps (JObj r))) + 2"

lemma row_items_size:
  assumes "x \<in> set (row_items ndjson rows)"
  shows "\<exists>r \<in> set rows. int (length (item_text x)) \<le> row_size r"
proof -
  obtain r s where "r \<in> set rows" "x = (s, json_dumps (JObj r), JObj r)" "length s \<le> 2"
    using assms by (cases rows) (auto simp: row_items_def simp del: json_dumps.simps)
  then show ?thesis by (intro bexI [of _ r]) (simp_all add: item_text_def row_size_def del: json_dumps.simps)
qed

lemma import_exported:
  assumes "1 \<le> csize" "csize < maximum" "0 < n" "6 \<le> maximum"
    and "\<forall>r \<in> set rows. wf_json (JObj (keep_fields names r)) \<and> 2 * row_size (keep_fields names r) \<le> maximum"
    and "format = ''ndjson'' \<Longrightarrow> rows \<noteq> []"
  shows "\<exists>f. import_json exact csize maximum n (json_writer names format rows)
     = (in_batches (nat n) (map (\<lambda>r. JObj (keep_fields names r)) rows), Exhausted, f)"
proof -
  let ?nd = "format = ''ndjson''"
  let ?rows = "map (keep_fields names) rows"
  let ?z = "if ?nd then [] else [LF, CHR '']'', LF]"
  have w: "json_writer names format rows
      = (if \<not> ?nd then ''['' else []) @ concat (map item_text (row_items ?nd ?rows)) @ ?z"
    by (simp add: json_writer_def json_rows_items)
  have ok: "items_ok (\<not> ?nd) False (row_items ?nd ?rows)" using assms(5) by (intro row_items_ok) simp
  have z: "ending_text (\<not> ?nd) ?z"
    by (auto simp: ending_text_def is_ws_LF intro: exI [of _ "[LF]"])
  have "\<not> ?nd \<or> (row_items ?nd ?rows \<noteq> [] \<and> fst (hd (row_items ?nd ?rows)) = [])"
    using assms(6) by (cases rows) (auto simp: row_items_def)
  moreover have "\<forall>x \<in> set (row_items ?nd ?rows). 2 * int (length (item_text x)) \<le> maximum"
    using row_items_size [of _ ?nd ?rows] assms(5) by fastforce
  moreover have "2 * int (length ?z) \<le> maximum" using assms(4) by simp
  ultimately show ?thesis using import_items [OF assms(1-3) ok z] unfolding w by (simp add: comp_def)
qed

text \<open>Export and import of JSON fit together: the file that \<open>json_writer\<close> writes, as an array or as
  newline delimited JSON, is imported as exactly the rows that were exported, with the chosen fields, in
  order, in whatever chunks it is read (every row must fit half the limit).\<close>

theorem json_export_import:
  assumes "1 \<le> csize" "csize < maximum" "0 < n" "6 \<le> maximum"
    and "\<forall>r \<in> set rows. wf_json (JObj (keep_fields names r)) \<and> 2 * row_size (keep_fields names r) \<le> maximum"
    and "format = ''ndjson'' \<Longrightarrow> rows \<noteq> []"
  shows "\<exists>f. import_json exact csize maximum n (json_writer names format rows)
     = (in_batches (nat n) (map (\<lambda>r. JObj (keep_fields names r)) rows), Exhausted, f)"
  using assms by (rule import_exported)

lemma show_nat_one_digit: "show_nat (Suc 0) = ''1''" "show_nat 7 = ''7''"
  by code_simp+

theorem json_export_import_witness:
  "\<exists>f. import_json exact 4 64 2 (json_writer (Some [''id'']) ''json'' [[(''id'', JInt 1), (''x'', JNull)], [(''id'', JStr ''a'')]])
     = (in_batches (nat 2) (map (\<lambda>r. JObj (keep_fields (Some [''id'']) r))
         [[(''id'', JInt 1), (''x'', JNull)], [(''id'', JStr ''a'')]]), Exhausted, f)"
  by (rule json_export_import)
    (simp_all add: keep_fields_def row_size_def quote_dumps_def escape_ascii_def escape_char_def code_point_def show_int_def
      show_nat_one_digit)

lemma csv_row_object_cells:
  assumes "distinct names"
  shows "csv_row_object names (map (csv_cell r) names)
     = JObj (map (\<lambda>k. (k, JStr (csv_cell r k))) (filter (\<lambda>k. csv_cell r k \<noteq> []) names))"
proof -
  have "map (\<lambda>(k, v). (k, JStr v)) (filter (\<lambda>(k, v). v \<noteq> []) (zip names (map (csv_cell r) names)))
      = map (\<lambda>k. (k, JStr (csv_cell r k))) (filter (\<lambda>k. csv_cell r k \<noteq> []) names)"
    by (induction names) simp_all
  moreover have "distinct (map fst (map (\<lambda>k. (k, JStr (csv_cell r k))) (filter (\<lambda>k. csv_cell r k \<noteq> []) names)))"
    using assms by (simp add: comp_def)
  ultimately show ?thesis by (simp add: csv_row_object_def dict_of_distinct)
qed

text \<open>C22. Export and import of CSV fit together when the delimiter is the default, a comma, and the names of
  the fields are distinct: the file that \<open>csv_writer\<close> writes is imported as the same
  rows in order, every chosen field as the text that was written for it and left out where that is
  empty, whatever commas, quotes, carriage returns and line feeds the texts and names have.  A field with a line
  break that the writer does not put in quotes, such as a form feed, is excluded, and so is one of
  \<open>field_limit\<close> characters or more.  With another delimiter the import is wrong (\<open>delimiter_import\<close>).\<close>

theorem csv_export_import:
  assumes "0 < n" "distinct names" "list_all (csv_safe (CHR '','')) names"
    and "\<forall>r \<in> set rows. \<forall>k \<in> set names. csv_safe (CHR '','') (csv_cell r k)"
  shows "\<exists>f. import_csv n (csv_source name False None (csv_writer names (CHR '','') rows))
     = (in_batches (nat n) (map (\<lambda>r. JObj (map (\<lambda>k. (k, JStr (csv_cell r k)))
          (filter (\<lambda>k. csv_cell r k \<noteq> []) names))) rows), Exhausted, f)"
proof -
  let ?cells = "map (\<lambda>r. map (csv_cell r) names) rows"
  have w: "csv_writer names (CHR '','') rows = csv_row (CHR '','') names @ concat (map (csv_row (CHR '','')) ?cells)"
    by (simp add: csv_writer_def comp_def)
  have "list_all (list_all (csv_safe (CHR '',''))) ?cells" "list_all (\<lambda>r. length r = length names) ?cells"
    using assms(4) by (auto simp: list_all_iff)
  from import_written [OF assms(1,3) this, of name] show ?thesis
    unfolding w by (simp add: comp_def csv_row_object_cells [OF assms(2)])
qed

theorem csv_export_import_witness:
  "\<exists>f. import_csv 2 (csv_source ''f'' False None (csv_writer [''id'', ''v''] (CHR '','')
        [[(''id'', JInt 7), (''v'', JStr ''a,b'')], [(''id'', JStr ''x'')]]))
     = (in_batches (nat 2) (map (\<lambda>r. JObj (map (\<lambda>k. (k, JStr (csv_cell r k)))
          (filter (\<lambda>k. csv_cell r k \<noteq> []) [''id'', ''v''])))
        [[(''id'', JInt 7), (''v'', JStr ''a,b'')], [(''id'', JStr ''x'')]]), Exhausted, f)"
  by (rule csv_export_import) (simp_all add: csv_safe_def field_limit_def needs_quotes_def is_break_def newline_def LF_def CR_def
    csv_cell_def show_int_def show_nat_one_digit)

text \<open>With another delimiter a file cannot be imported again: the reader is not told of it.\<close>

lemma delimiter_ignored:
  "csv_writer [''a'', ''b''] (CHR '';'') [[(''a'', JStr ''1''), (''b'', JStr ''2'')]]
     = csv_row (CHR '','') [''a;b''] @ concat (map (csv_row (CHR '','')) [[''1;2'']])"
  by (simp add: csv_writer_def csv_row_def csv_field_def needs_quotes_def csv_cell_def newline_def LF_def CR_def)

lemma delimiter_import:
  "\<exists>f. import_csv 1 (csv_source ''f'' False None
        (csv_writer [''a'', ''b''] (CHR '';'') [[(''a'', JStr ''1''), (''b'', JStr ''2'')]]))
     = ([[JObj [(''a;b'', JStr ''1;2'')]]], Exhausted, f)"
  unfolding delimiter_ignored
  using import_written [of 1 "[''a;b'']" "[[''1;2'']]" "''f''"]
  by (simp add: csv_safe_def field_limit_def is_break_def LF_def CR_def in_batches_def csv_row_object_def dict_of_def)

end
