(* ===== verification/Sources.thy ===== *)
theory Sources
  imports ToolOptions TableWriter "HOL-Library.List_Lexorder" "HOL-Library.Char_ord"
begin

text \<open>
  Which files \<open>rethinkdb import\<close> reads into which tables: \<open>parse_sources\<close>, the checks at the start of
  \<open>import_tables\<close> and \<open>SourceFile.setup_table\<close> of \<open>_import.py\<close>.  A directory is what \<open>os.walk\<close> says of it: the
  files at its top, and for each directory in it the files and the directories there.  \<open>None\<close> for
  a primary key or a write hook is \<open>JNull\<close>.
\<close>

subsection \<open>Sources\<close>

datatype source_kind = JsonSource | CsvSource

record source =
  so_kind :: source_kind
  so_path :: string
  so_db :: string
  so_table :: string
  so_pkey :: json
  so_indexes :: json
  so_hook :: json
  so_create :: "(string, json) dict"
  so_header :: "(bool \<times> string list option) option"

text \<open>\<open>parse_info_file\<close>\<close>

definition default_to :: "json \<Rightarrow> json option \<Rightarrow> json" where
  "default_to d v = (case v of None \<Rightarrow> d | Some x \<Rightarrow> x)"

definition parse_info :: "bool \<Rightarrow> string \<Rightarrow> error + json \<times> json \<times> json" where
  "parse_info no_indexes s =
     (case loads s of
        Inl _ \<Rightarrow> Inl (py_exc PyValueError ''Expecting value'')
      | Inr m \<Rightarrow>
          rbind (row_key (Some ''primary_key'') m) (\<lambda>p.
          rbind (if no_indexes then Inr None else row_key (Some ''indexes'') m) (\<lambda>i.
          rbind (row_key (Some ''write_hook'') m) (\<lambda>h.
          Inr (default_to JNull p, default_to (JArr []) i, default_to JNull h)))))"

definition read_info :: "filesystem \<Rightarrow> bool \<Rightarrow> string \<Rightarrow> error + json \<times> json \<times> json" where
  "read_info fs no_indexes path =
     (case fs_read fs path of
        None \<Rightarrow> Inl (py_exc PyOSError path)
      | Some s \<Rightarrow> parse_info no_indexes s)"

definition table_kind :: "string \<Rightarrow> error + source_kind" where
  "table_kind ext =
     (if ext = ''.json'' then Inr JsonSource
      else if ext = ''.csv'' then Inr CsvSource
      else Inl (py_exc PyException (''The table type is not recognised: '' @ ext)))"

text \<open>\<open>SourceFile.__init__\<close>: a file cannot be empty; without options of its own a source creates its table
  with the primary key.\<close>

definition make_source :: "filesystem \<Rightarrow> source_kind \<Rightarrow> string \<Rightarrow> string \<Rightarrow> string \<Rightarrow> json \<times> json \<times> json
    \<Rightarrow> (bool \<times> string list option) option \<Rightarrow> error + source" where
  "make_source fs kind path db table info header =
     (case info of (pkey, indexes, hook) \<Rightarrow>
        case fs_read fs path of
          None \<Rightarrow> Inl (py_exc PyValueError (''Unable to open source file \"'' @ path @ ''\"''))
        | Some [] \<Rightarrow> Inl (py_exc PyValueError (''Source is zero-length: '' @ path))
        | Some s \<Rightarrow>
            Inr \<lparr>so_kind = kind, so_path = path, so_db = db, so_table = table, so_pkey = pkey,
              so_indexes = (if falsy indexes then JArr [] else indexes), so_hook = (if falsy hook then JArr [] else hook),
              so_create = (if header = None then [(''primary_key'', pkey)] else []), so_header = header\<rparr>)"

subsection \<open>One file\<close>

definition file_source :: "filesystem \<Rightarrow> bool \<Rightarrow> bool \<Rightarrow> string \<Rightarrow> string \<Rightarrow> string \<Rightarrow> (string, string) dict
    \<Rightarrow> bool \<times> string list option \<Rightarrow> error + source" where
  "file_source fs has_hooks no_indexes path db table create_args header =
     (case splitext path of (stem, ext) \<Rightarrow>
      rbind (table_kind ext) (\<lambda>kind.
      let pkey = (case map_of create_args ''primary_key'' of None \<Rightarrow> JNull | Some k \<Rightarrow> JStr k);
          info = (if (pkey = JNull \<or> \<not> no_indexes) \<and> fs_isfile fs (stem @ ''.info'')
                  then rmap (\<lambda>(p, i, h). (if pkey = JNull then p else pkey, if no_indexes then JArr [] else i, h))
                    (read_info fs no_indexes (stem @ ''.info''))
                  else Inr (pkey, JArr [], JNull))
      in rbind info (\<lambda>(p, i, h).
         if \<not> falsy h \<and> \<not> has_hooks
         then Inl (py_exc PyException (''this RDB version doesn'' @ [CHR 0x27] @ ''t support write-hooks''))
         else make_source fs kind path db table (p, i, h) (if kind = CsvSource then Some header else None))))"

subsection \<open>A directory\<close>

definition path_join :: "string \<Rightarrow> string \<Rightarrow> string" where
  "path_join a b = a @ CHR ''/'' # b"

definition chosen :: "db_table list \<Rightarrow> string \<Rightarrow> string \<Rightarrow> bool" where
  "chosen filters db table \<longleftrightarrow> filters = [] \<or> list_ex (\<lambda>(d, t). d = db \<and> (t = None \<or> t = Some table)) filters"

datatype file_outcome = Ignored | Silent | Source source bool

text \<open>One file of the directory of a database; the flag of a source says that its file counts as ignored
  too.  The test for a duplicate compares the name of the table with the sources, which no name is
  equal to.\<close>

definition directory_file :: "filesystem \<Rightarrow> bool \<Rightarrow> bool \<Rightarrow> db_table list \<Rightarrow> string \<Rightarrow> string \<Rightarrow> string \<Rightarrow> error + file_outcome" where
  "directory_file fs has_hooks no_indexes filters root db filename =
     (case splitext filename of (table, ext) \<Rightarrow>
        let info_path = path_join root (table @ ''.info'') in
        if ext \<notin> {''.json'', ''.csv'', ''.info''} then Inr Ignored
        else if ext = ''.info'' then Inr Silent
        else if \<not> fs_exists fs info_path then Inr Ignored
        else if \<not> chosen filters db table then Inr Ignored
        else rbind (if fs_isfile fs info_path then read_info fs no_indexes info_path else Inr (JNull, JArr [], JNull)) (\<lambda>(p, i, h).
          if \<not> falsy h \<and> \<not> has_hooks
          then Inl (py_exc PyException (''RDB versions below doesn'' @ [CHR 0x27] @ ''t support write-hooks''))
          else rbind (table_kind ext) (\<lambda>kind.
            rmap (\<lambda>s. Source s (\<not> fs_isfile fs info_path)) (make_source fs kind (path_join root filename) db table (p, i, h) None))))"

fun directory_files :: "filesystem \<Rightarrow> bool \<Rightarrow> bool \<Rightarrow> db_table list \<Rightarrow> string \<Rightarrow> string \<Rightarrow> string list
    \<Rightarrow> error + source list \<times> string list" where
  "directory_files fs has_hooks no_indexes filters root db [] = Inr ([], [])"
| "directory_files fs has_hooks no_indexes filters root db (f # fl) =
     rbind (directory_file fs has_hooks no_indexes filters root db f) (\<lambda>x.
     rbind (directory_files fs has_hooks no_indexes filters root db fl) (\<lambda>(ss, ig).
       Inr (case x of
         Ignored \<Rightarrow> (ss, path_join root f # ig)
       | Silent \<Rightarrow> (ss, ig)
       | Source s b \<Rightarrow> (s # ss, if b then path_join root f # ig else ig))))"

type_synonym db_dir = "string \<times> string list \<times> string list"

definition wanted_dir :: "db_table list \<Rightarrow> db_dir \<Rightarrow> bool" where
  "wanted_dir filters d \<longleftrightarrow> filters = [] \<or> fst d \<in> set (map fst filters)"

definition db_sources :: "filesystem \<Rightarrow> bool \<Rightarrow> bool \<Rightarrow> db_table list \<Rightarrow> string \<Rightarrow> db_dir \<Rightarrow> error + source list \<times> string list" where
  "db_sources fs has_hooks no_indexes filters dir0 d =
     (case d of (db, fl, dirs) \<Rightarrow>
        rmap (\<lambda>(ss, ig). (ss, map (path_join (path_join dir0 db)) dirs @ ig))
          (directory_files fs has_hooks no_indexes filters (path_join dir0 db) db fl))"

text \<open>\<open>parse_sources\<close> of a directory: the sources and the files ignored.\<close>

definition directory_sources :: "filesystem \<Rightarrow> bool \<Rightarrow> bool \<Rightarrow> db_table list \<Rightarrow> string \<Rightarrow> string list \<Rightarrow> db_dir list
    \<Rightarrow> error + source list \<times> string list" where
  "directory_sources fs has_hooks no_indexes filters dir0 files dirs =
     rmap (\<lambda>rs. (concat (map fst rs), map (path_join dir0) files @ concat (map snd rs)))
       (seqr (map (db_sources fs has_hooks no_indexes filters dir0) (filter (wanted_dir filters) dirs)))"

text \<open>\<open>parse_sources\<close>; the walk gives the files at the top and the directories there.\<close>

definition parse_sources :: "filesystem \<Rightarrow> (string \<Rightarrow> string list \<times> db_dir list) \<Rightarrow> bool \<Rightarrow> import_options \<Rightarrow> import_plan
    \<Rightarrow> error + source list \<times> string list" where
  "parse_sources fs walk has_hooks opts plan =
     (case plan of
        FromDirectory d \<Rightarrow>
          (case walk d of (fl, dirs) \<Rightarrow> directory_sources fs has_hooks (im_no_indexes opts) (im_db_tables opts) d fl dirs)
      | FromCsv path (db, t) names d no_header header \<Rightarrow>
          rmap (\<lambda>s. ([s], [])) (file_source fs has_hooks (im_no_indexes opts) path db (the t) (im_create_args opts) (no_header, header))
      | FromJson path (db, t) names limit \<Rightarrow>
          rmap (\<lambda>s. ([s], [])) (file_source fs has_hooks (im_no_indexes opts) path db (the t) (im_create_args opts)
            (im_no_header opts, None)))"

subsection \<open>Before the import\<close>

text \<open>The checks of \<open>import_tables\<close> against the databases and tables there are.\<close>

definition full_name :: "source \<Rightarrow> string" where
  "full_name s = so_db s @ ''.'' @ so_table s"

definition other_key :: "source \<Rightarrow> json \<Rightarrow> error" where
  "other_key s k = py_exc PyRuntimeError
     (''Error: Table '' @ [CHR 0x27] @ full_name s @ [CHR 0x27] @ '' already exists with a different primary key: ''
        @ json_str k @ '' (expected: '' @ json_str (so_pkey s) @ '')'')"

fun check_existing :: "bool \<Rightarrow> (string \<times> string \<Rightarrow> json option) \<Rightarrow> source list \<Rightarrow> error + source list \<times> string list" where
  "check_existing force existing [] = Inr ([], [])"
| "check_existing force existing (s # ss) =
     rbind (case existing (so_db s, so_table s) of
        None \<Rightarrow> Inr (s, [])
      | Some k \<Rightarrow>
          if \<not> force then Inr (s, [full_name s])
          else if so_pkey s = JNull then Inr (s\<lparr>so_pkey := k\<rparr>, [])
          else if so_pkey s \<noteq> k then Inl (other_key s k)
          else Inr (s, [])) (\<lambda>(s', names).
     rmap (\<lambda>(ss', names'). (s' # ss', names @ names')) (check_existing force existing ss))"

definition check_tables :: "bool \<Rightarrow> (string \<times> string \<Rightarrow> json option) \<Rightarrow> source list \<Rightarrow> error + source list" where
  "check_tables force existing ss =
     (if ''rethinkdb'' \<in> set (map so_db ss)
      then Inl (py_exc PyRuntimeError (''Error: Cannot import tables into the system database: '' @ [CHR 0x27] @ ''rethinkdb'' @ [CHR 0x27]))
      else rbind (check_existing force existing ss) (\<lambda>(ss', names).
        case names of
          [] \<Rightarrow> Inr ss'
        | [n] \<Rightarrow> Inl (py_exc PyRuntimeError (''Error: Table '' @ [CHR 0x27] @ n @ [CHR 0x27]
            @ '' already exists, run with --force to import into the existing table''))
        | ns \<Rightarrow> Inl (py_exc PyRuntimeError
            (''Error: The following tables already exist, run with --force to import into the existing tables:''
               @ [CHR 0x0A] @ ''  '' @ join ([CHR 0x0A] @ ''  '') (sort ns)))))"

text \<open>\<open>setup_table\<close>: the table is created if it is missing and waited for, and its primary key checked.\<close>

datatype setup_query = CreateMissing string string "(string, json) dict" | WaitFor string string | PrimaryKey string string

definition setup_table :: "(setup_query \<Rightarrow> ('w, error, json) comp) \<Rightarrow> source \<Rightarrow> ('w, error, source) comp" where
  "setup_table ask s =
     bind (ask (CreateMissing (so_db s) (so_table s) (so_create s))) (\<lambda>_.
     bind (ask (WaitFor (so_db s) (so_table s))) (\<lambda>_.
     bind (ask (PrimaryKey (so_db s) (so_table s))) (\<lambda>k.
       if so_pkey s = JNull then ret (s\<lparr>so_pkey := k\<rparr>)
       else if k \<noteq> so_pkey s
       then raise (py_exc PyRuntimeError (''Error: table '' @ full_name s @ '' primary key was `'' @ json_str k
         @ ''` rather than the expected: '' @ json_str (so_pkey s)))
       else ret s)))"

subsection \<open>What becomes a source\<close>

text \<open>The source that a file of a directory is.\<close>

definition is_source :: "filesystem \<Rightarrow> string \<Rightarrow> string \<Rightarrow> string \<Rightarrow> source \<Rightarrow> bool" where
  "is_source fs root db f s \<longleftrightarrow>
     so_path s = path_join root f \<and> so_db s = db \<and> so_table s = fst (splitext f) \<and> table_kind (snd (splitext f)) = Inr (so_kind s)
     \<and> (\<exists>t. fs_read fs (path_join root f) = Some t \<and> t \<noteq> [])"

lemma made_source:
  assumes "make_source fs kind path db table (p, i, h) header = Inr s"
  shows "so_path s = path" "so_db s = db" "so_table s = table" "so_kind s = kind" "so_pkey s = p"
    "so_create s = (if header = None then [(''primary_key'', p)] else [])" "\<exists>t. fs_read fs path = Some t \<and> t \<noteq> []"
  using assms by (auto simp: make_source_def split: option.splits list.splits)

lemma directory_file_cases:
  assumes "directory_file fs has_hooks no_indexes filters root db f = Inr x"
  shows "case x of
       Ignored \<Rightarrow> snd (splitext f) \<notin> {''.json'', ''.csv'', ''.info''} \<or> \<not> fs_exists fs (path_join root (fst (splitext f) @ ''.info''))
         \<or> \<not> chosen filters db (fst (splitext f))
     | Silent \<Rightarrow> snd (splitext f) = ''.info''
     | Source s b \<Rightarrow> is_source fs root db f s \<and> chosen filters db (fst (splitext f))"
  using assms
  by (cases "splitext f") (auto simp: directory_file_def Let_def res_simps is_source_def made_source dest: made_source(7) split: if_splits)

lemma directory_files_cases:
  assumes "directory_files fs has_hooks no_indexes filters root db fl = Inr (ss, ig)"
  shows "(\<forall>s \<in> set ss. \<exists>f \<in> set fl. is_source fs root db f s \<and> chosen filters db (so_table s))
    \<and> (\<forall>f \<in> set fl. snd (splitext f) = ''.info'' \<or> path_join root f \<in> set ig
        \<or> (\<exists>s \<in> set ss. is_source fs root db f s \<and> chosen filters db (so_table s)))"
  using assms
proof (induction fl arbitrary: ss ig)
  case (Cons f fl)
  then obtain x ss' ig' where x: "directory_file fs has_hooks no_indexes filters root db f = Inr x"
      "directory_files fs has_hooks no_indexes filters root db fl = Inr (ss', ig')"
      "(ss, ig) = (case x of Ignored \<Rightarrow> (ss', path_join root f # ig') | Silent \<Rightarrow> (ss', ig')
         | Source s b \<Rightarrow> (s # ss', if b then path_join root f # ig' else ig'))"
    by (auto simp: res_simps)
  show ?case
    using Cons.IH [OF x(2)] directory_file_cases [OF x(1)] x(3)
    by (cases x) (auto simp: is_source_def split: if_splits)
qed simp

text \<open>C29. When a directory is imported, each source is a non-empty file of a directory in it, which names its
  database, whose name and ending are its table and its format, and which was chosen; and no file of a
  directory that is chosen gets lost: it is a source, information on one, or reported as ignored.\<close>

theorem directory_accounted:
  assumes "directory_sources fs has_hooks no_indexes filters dir0 files dirs = Inr (ss, ignored)"
  shows "(\<forall>s \<in> set ss. \<exists>fl subs f. (so_db s, fl, subs) \<in> set dirs \<and> f \<in> set fl
            \<and> is_source fs (path_join dir0 (so_db s)) (so_db s) f s \<and> chosen filters (so_db s) (so_table s))
    \<and> (\<forall>(db, fl, subs) \<in> set (filter (wanted_dir filters) dirs). \<forall>f \<in> set fl.
          snd (splitext f) = ''.info'' \<or> path_join (path_join dir0 db) f \<in> set ignored
          \<or> (\<exists>s \<in> set ss. is_source fs (path_join dir0 db) db f s))"
proof -
  obtain rs where rs: "map (db_sources fs has_hooks no_indexes filters dir0) (filter (wanted_dir filters) dirs) = map Inr rs"
      "ss = concat (map fst rs)" "ignored = map (path_join dir0) files @ concat (map snd rs)"
    using assms by (auto simp: directory_sources_def res_simps seqr_eq_Inr)
  have one: "(\<forall>s \<in> set (fst r). \<exists>f \<in> set fl. is_source fs (path_join dir0 db) db f s \<and> chosen filters db (so_table s))
      \<and> (\<forall>f \<in> set fl. snd (splitext f) = ''.info'' \<or> path_join (path_join dir0 db) f \<in> set (snd r)
          \<or> (\<exists>s \<in> set (fst r). is_source fs (path_join dir0 db) db f s))"
    if r: "db_sources fs has_hooks no_indexes filters dir0 (db, fl, subs) = Inr r" for db fl subs r
  proof -
    obtain ss' ig where f: "directory_files fs has_hooks no_indexes filters (path_join dir0 db) db fl = Inr (ss', ig)"
        "r = (ss', map (path_join (path_join dir0 db)) subs @ ig)"
      using r by (auto simp: db_sources_def res_simps)
    show ?thesis using directory_files_cases [OF f(1)] f(2) by auto
  qed
  have origin: "\<exists>d \<in> set (filter (wanted_dir filters) dirs). db_sources fs has_hooks no_indexes filters dir0 d = Inr r" if "r \<in> set rs" for r
  proof -
    have "Inr r \<in> set (map (db_sources fs has_hooks no_indexes filters dir0) (filter (wanted_dir filters) dirs))"
      unfolding rs(1) using that by simp
    then show ?thesis unfolding set_map by (metis imageE)
  qed
  have forth: "\<exists>r \<in> set rs. db_sources fs has_hooks no_indexes filters dir0 d = Inr r" if "d \<in> set (filter (wanted_dir filters) dirs)" for d
  proof -
    have "db_sources fs has_hooks no_indexes filters dir0 d
        \<in> set (map (db_sources fs has_hooks no_indexes filters dir0) (filter (wanted_dir filters) dirs))" using that by simp
    then show ?thesis unfolding rs(1) by auto
  qed
  show ?thesis
  proof (intro conjI ballI)
    fix s assume "s \<in> set ss"
    then obtain r where r: "r \<in> set rs" "s \<in> set (fst r)" using rs(2) by auto
    obtain db fl subs where d: "(db, fl, subs) \<in> set dirs" "db_sources fs has_hooks no_indexes filters dir0 (db, fl, subs) = Inr r"
      using origin [OF r(1)] by auto
    then show "\<exists>fl subs f. (so_db s, fl, subs) \<in> set dirs \<and> f \<in> set fl
            \<and> is_source fs (path_join dir0 (so_db s)) (so_db s) f s \<and> chosen filters (so_db s) (so_table s)"
      using one [OF d(2)] r(2) by (fastforce simp: is_source_def)
  next
    fix d assume "d \<in> set (filter (wanted_dir filters) dirs)"
    then obtain db fl subs r where d: "d = (db, fl, subs)" "r \<in> set rs" "db_sources fs has_hooks no_indexes filters dir0 (db, fl, subs) = Inr r"
      using forth by (metis prod_cases3)
    have "set (fst r) \<subseteq> set ss" "set (snd r) \<subseteq> set ignored" using d(2) rs(2,3) by auto
    then show "case d of (db, fl, subs) \<Rightarrow> \<forall>f \<in> set fl.
          snd (splitext f) = ''.info'' \<or> path_join (path_join dir0 db) f \<in> set ignored
          \<or> (\<exists>s \<in> set ss. is_source fs (path_join dir0 db) db f s)"
      using one [OF d(3)] d(1) by blast
  qed
qed

definition exported_dir :: filesystem where
  "exported_dir = \<lparr>fs_isfile = (\<lambda>p. p \<in> {''x/d/t.json'', ''x/d/t.csv'', ''x/d/t.info'', ''x/d/u.csv''}),
     fs_isdir = (\<lambda>p. p \<in> {''x'', ''x/d''}),
     fs_exists = (\<lambda>p. p \<in> {''x/d/t.json'', ''x/d/t.csv'', ''x/d/t.info'', ''x/d/u.csv''}), fs_realpath = (\<lambda>p. p),
     fs_read = (\<lambda>p. if p = ''x/d/t.info'' then Some ([CHR ''{'', CHR 0x22] @ ''primary_key'' @ [CHR 0x22, CHR '':'', CHR 0x22] @ ''k''
         @ [CHR 0x22, CHR ''}'']) else Some ''[]'')\<rparr>"

definition exported_files :: "db_dir list" where
  "exported_files = [(''d'', [''t.json'', ''t.csv'', ''t.info'', ''u.csv''], [''old''])]"

definition t_source :: "source_kind \<Rightarrow> string \<Rightarrow> source" where
  "t_source kind f = \<lparr>so_kind = kind, so_path = f, so_db = ''d'', so_table = ''t'', so_pkey = JStr ''k'', so_indexes = JArr [],
     so_hook = JArr [], so_create = [(''primary_key'', JStr ''k'')], so_header = None\<rparr>"

text \<open>A table that is there in both formats is two sources: the check for a duplicate does not see it.\<close>

lemma both_formats:
  "directory_sources exported_dir True False [] ''x'' [''readme''] exported_files
     = Inr ([t_source JsonSource ''x/d/t.json'', t_source CsvSource ''x/d/t.csv''], [''x/readme'', ''x/d/old'', ''x/d/u.csv''])"
  by code_simp

theorem directory_accounted_witness:
  "is_source exported_dir ''x/d'' ''d'' ''t.json'' (t_source JsonSource ''x/d/t.json'') \<and> ''x/d/u.csv'' \<in> {''x/readme'', ''x/d/old'', ''x/d/u.csv''}"
proof -
  have e: "exported_dir = exported_dir" ..
  have s: "splitext ''t.json'' = (''t'', ''.json'')" "splitext ''t.csv'' = (''t'', ''.csv'')" by code_simp+
  have n: "\<not> is_source exported_dir ''x/d'' ''d'' ''t.json'' (t_source CsvSource ''x/d/t.csv'')"
    by (simp add: is_source_def t_source_def path_join_def)
  show ?thesis using directory_accounted [OF both_formats] n
    by (auto simp: exported_files_def wanted_dir_def s path_join_def)
qed

subsection \<open>Sources and tables\<close>

lemma existing_checked:
  assumes "check_existing force existing ss = Inr (ss', names)"
  shows "map (\<lambda>s. s\<lparr>so_pkey := JNull\<rparr>) ss' = map (\<lambda>s. s\<lparr>so_pkey := JNull\<rparr>) ss
    \<and> (\<not> force \<longrightarrow> ss' = ss \<and> names = map full_name (filter (\<lambda>s. existing (so_db s, so_table s) \<noteq> None) ss))
    \<and> (force \<longrightarrow> names = [] \<and> (\<forall>s \<in> set ss'. \<forall>k. existing (so_db s, so_table s) = Some k \<longrightarrow> so_pkey s = k))"
  using assms
  by (induction ss arbitrary: ss' names) (auto simp: res_simps split: option.splits if_splits)

text \<open>Past the checks of an import no source is for the system database, and a source is for a table
  that exists only with \<open>--force\<close> and then has the primary key of that table; nothing else of a source
  has changed, and without \<open>--force\<close> nothing at all.\<close>

theorem sources_checked:
  assumes "check_tables force existing ss = Inr ss'"
  shows "(\<forall>s \<in> set ss'. so_db s \<noteq> ''rethinkdb'' \<and> (case existing (so_db s, so_table s) of None \<Rightarrow> True | Some k \<Rightarrow> force \<and> so_pkey s = k))
    \<and> map (\<lambda>s. s\<lparr>so_pkey := JNull\<rparr>) ss' = map (\<lambda>s. s\<lparr>so_pkey := JNull\<rparr>) ss \<and> (force \<or> ss' = ss)"
proof -
  have n: "''rethinkdb'' \<notin> set (map so_db ss)" using assms by (auto simp: check_tables_def split: if_splits)
  then have *: "rbind (check_existing force existing ss) (\<lambda>(ss', names).
        case names of
          [] \<Rightarrow> Inr ss'
        | [n] \<Rightarrow> Inl (py_exc PyRuntimeError (''Error: Table '' @ [CHR 0x27] @ n @ [CHR 0x27]
            @ '' already exists, run with --force to import into the existing table''))
        | ns \<Rightarrow> Inl (py_exc PyRuntimeError
            (''Error: The following tables already exist, run with --force to import into the existing tables:''
               @ [CHR 0x0A] @ ''  '' @ join ([CHR 0x0A] @ ''  '') (sort ns)))) = Inr ss'"
    using assms by (simp only: check_tables_def if_False)
  then obtain ss'' names where "check_existing force existing ss = Inr (ss'', names)"
    by (cases "check_existing force existing ss") auto
  moreover have "names = []" "ss'' = ss'"
    using * calculation by (cases names rule: remdups_adj.cases; simp)+
  ultimately have e: "check_existing force existing ss = Inr (ss', [])" by simp
  note c = existing_checked [OF e]
  have "map so_db ss' = map so_db ss" using arg_cong [OF conjunct1 [OF c], of "map so_db"] by (simp add: comp_def)
  then have "\<forall>s \<in> set ss'. so_db s \<noteq> ''rethinkdb''" using n by (metis image_eqI set_map)
  moreover have "case existing (so_db s, so_table s) of None \<Rightarrow> True | Some k \<Rightarrow> force \<and> so_pkey s = k" if "s \<in> set ss'" for s
  proof (cases force)
    case True
    then show ?thesis using c that by (simp split: option.split)
  next
    case False
    then have "filter (\<lambda>s. existing (so_db s, so_table s) \<noteq> None) ss = []" "s \<in> set ss" using c that by auto
    then show ?thesis by (auto simp: filter_empty_conv)
  qed
  ultimately show ?thesis using c by blast
qed

theorem sources_checked_witness:
  "so_pkey ((t_source JsonSource ''f'')\<lparr>so_pkey := JStr ''id''\<rparr>) = JStr ''id''
   \<and> check_tables True (\<lambda>t. if t = (''d'', ''t'') then Some (JStr ''id'') else None) [(t_source JsonSource ''f'')\<lparr>so_pkey := JNull\<rparr>]
       = Inr [(t_source JsonSource ''f'')\<lparr>so_pkey := JStr ''id''\<rparr>]"
proof -
  have c: "check_tables True (\<lambda>t. if t = (''d'', ''t'') then Some (JStr ''id'') else None) [(t_source JsonSource ''f'')\<lparr>so_pkey := JNull\<rparr>]
       = Inr [(t_source JsonSource ''f'')\<lparr>so_pkey := JStr ''id''\<rparr>]" by code_simp
  show ?thesis using sources_checked [OF c] c by simp
qed

text \<open>For a CSV file \<open>--pkey\<close> does not reach the table: it is created without it.\<close>

lemma csv_key_dropped:
  assumes "file_source fs has_hooks no_indexes path db table args header = Inr s" "so_kind s = CsvSource"
  shows "so_create s = []"
proof -
  obtain stem ext where x: "splitext path = (stem, ext)" by (cases "splitext path")
  obtain kind i where "(case i of (p, i, h) \<Rightarrow> if \<not> falsy h \<and> \<not> has_hooks
      then Inl (py_exc PyException (''this RDB version doesn'' @ [CHR 0x27] @ ''t support write-hooks''))
      else make_source fs kind path db table (p, i, h) (if kind = CsvSource then Some header else None)) = Inr s"
    using assms(1) unfolding file_source_def x prod.case Let_def rbind_eq_Inr by blast
  then obtain p j h where m: "make_source fs kind path db table (p, j, h) (if kind = CsvSource then Some header else None) = Inr s"
    by (auto split: prod.splits if_splits)
  show ?thesis using made_source(4,6) [OF m] assms(2) by simp
qed

text \<open>A server with no tables that creates one with the key it is told, or \<open>id\<close>.\<close>

definition new_server :: "setup_query \<Rightarrow> (json, error, json) comp" where
  "new_server m w =
     (case m of
        CreateMissing _ _ args \<Rightarrow> (Inr JNull, case map_of args ''primary_key'' of None \<Rightarrow> JStr ''id'' | Some k \<Rightarrow> k)
      | WaitFor _ _ \<Rightarrow> (Inr JNull, w)
      | PrimaryKey _ _ \<Rightarrow> (Inr w, w))"

text \<open>So a new table gets the key \<open>id\<close> and setting the source up fails.\<close>

lemma csv_key_fails:
  assumes "so_create s = []" "so_pkey s \<notin> {JNull, JStr ''id''}"
  shows "\<exists>m. fst (setup_table new_server s w) = Inl (py_exc PyRuntimeError m)"
  using assms by (auto simp: setup_table_def new_server_def bind_def ret_def raise_def)

end
