(* ===== verification/ExportTable.thy ===== *)
theory ExportTable
  imports ExportFile Sources Triples
begin

text \<open>
  How \<open>rethinkdb export\<close> reads a table: \<open>export_table\<close> and the choice of tables in \<open>run\<close> of
  \<open>rethinkdb/_export.py\<close>, with \<open>check_minimum_version\<close> of \<open>utils_common.py\<close>.  What the server answers to
  the queries, which are tried again by \<open>RetryQuery\<close>, what a cursor gives and when another process
  sets the event to stop is the record \<open>export_server\<close>, over a world of its own.
\<close>

subsection \<open>Versions\<close>

definition version_number :: "string \<Rightarrow> (nat \<times> string) option" where
  "version_number s = (if takeWhile is_digit s = [] then None
     else Some (read_digits 0 (takeWhile is_digit s), dropWhile is_digit s))"

definition after_dot :: "string \<Rightarrow> string option" where
  "after_dot s = (case s of c # r \<Rightarrow> if c = CHR ''.'' then Some r else None | [] \<Rightarrow> None)"

text \<open>The three numbers that the regular expression of \<open>check_minimum_version\<close> finds.\<close>

definition version_of :: "string \<Rightarrow> nat list option" where
  "version_of s =
     (if prefix ''rethinkdb '' s \<or> prefix ''rebirthdb '' s
      then Option.bind (version_number (drop 10 s)) (\<lambda>(a, r). Option.bind (after_dot r) (\<lambda>r.
           Option.bind (version_number r) (\<lambda>(b, r). Option.bind (after_dot r) (\<lambda>r.
           Option.bind (version_number r) (\<lambda>(c, r). Some [a, b, c])))))
      else None)"

fun earlier :: "nat list \<Rightarrow> nat list \<Rightarrow> bool" where
  "earlier [] [] = False"
| "earlier [] (y # ys) = True"
| "earlier (x # xs) [] = False"
| "earlier (x # xs) (y # ys) = (x < y \<or> x = y \<and> earlier xs ys)"

definition show_version :: "nat list \<Rightarrow> string" where
  "show_version v = join ''.'' (map show_nat v)"

definition check_version :: "nat list \<Rightarrow> bool \<Rightarrow> string \<Rightarrow> error + bool" where
  "check_version least strict s =
     (case version_of s of
        None \<Rightarrow> Inl (py_exc PyRuntimeError (''invalid version string format: '' @ s))
      | Some v \<Rightarrow>
          if earlier v least
          then (if strict
                then Inl (py_exc PyRuntimeError (''Incompatible version, expected >= '' @ show_version least @ '' got: '' @ s))
                else Inr False)
          else Inr True)"

subsection \<open>The state\<close>

record ('w, 'c) export_server =
  es_version :: "('w, error, string) comp"
  es_info :: "('w, error, row) comp"
  es_indexes :: "('w, error, json list) comp"
  es_hook :: "('w, error, json) comp"
  es_write :: "string \<Rightarrow> string \<Rightarrow> ('w, error, unit) comp"
  es_cursor :: "json \<Rightarrow> ('w, error, 'c) comp"
  es_after :: "json \<Rightarrow> json \<Rightarrow> ('w, error, 'c) comp"
  es_next :: "'c \<Rightarrow> ('w, error, row option) comp"
  es_close :: "'c \<Rightarrow> ('w, error, unit) comp"
  es_exit :: "'w \<Rightarrow> bool \<times> 'w"

text \<open>What the process shares with others: the queue to its writer, with \<open>None\<close> for the
  \<open>StopIteration\<close>, its two progress counters, the counters of indexes and hooks, the queue of errors; and
  the file its writer was started on.\<close>

record 'w exporter =
  xs_world :: 'w
  xs_queue :: "row option list"
  xs_progress :: "int \<times> int"
  xs_sindexes :: int
  xs_hooks :: int
  xs_errors :: "error list"
  xs_writer :: "string option"

definition on_server :: "('w, error, 'a) comp \<Rightarrow> ('w exporter, error, 'a) comp" where
  "on_server m s = (case m (xs_world s) of (r, w) \<Rightarrow> (r, s\<lparr>xs_world := w\<rparr>))"

definition exit_set :: "('w, 'c) export_server \<Rightarrow> ('w exporter, error, bool) comp" where
  "exit_set es s = (case es_exit es (xs_world s) of (b, w) \<Rightarrow> (Inr b, s\<lparr>xs_world := w\<rparr>))"

definition put_task :: "row option \<Rightarrow> ('w exporter, error, unit) comp" where
  "put_task r s = (Inr (), s\<lparr>xs_queue := xs_queue s @ [r]\<rparr>)"

definition set_progress :: "(int \<times> int \<Rightarrow> int \<times> int) \<Rightarrow> ('w exporter, error, unit) comp" where
  "set_progress f s = (Inr (), s\<lparr>xs_progress := f (xs_progress s)\<rparr>)"

definition put_error :: "error \<Rightarrow> ('w exporter, error, unit) comp" where
  "put_error e s = (Inr (), s\<lparr>xs_errors := xs_errors s @ [e]\<rparr>)"

definition add_sindexes :: "int \<Rightarrow> ('w exporter, error, unit) comp" where
  "add_sindexes n s = (Inr (), s\<lparr>xs_sindexes := xs_sindexes s + n\<rparr>)"

definition add_hook :: "('w exporter, error, unit) comp" where
  "add_hook s = (Inr (), s\<lparr>xs_hooks := xs_hooks s + 1\<rparr>)"

definition start_writer :: "string \<Rightarrow> ('w exporter, error, unit) comp" where
  "start_writer path s = (Inr (), s\<lparr>xs_writer := Some path\<rparr>)"

text \<open>The exception of a computation as a value.\<close>

definition outcome :: "('s, 'e, 'a) comp \<Rightarrow> ('s, 'e, 'e + 'a) comp" where
  "outcome m s = (case m s of (r, t) \<Rightarrow> (Inr r, t))"

subsection \<open>Reading the rows\<close>

text \<open>\<open>row[primary_key]\<close>\<close>

definition row_item :: "json \<Rightarrow> row \<Rightarrow> error + json" where
  "row_item k r =
     (case k of
        JStr name \<Rightarrow> answer_item (Some (JObj r)) name
      | JArr _ \<Rightarrow> Inl (py_exc PyTypeError (''unhashable type: '' @ [CHR 0x27] @ ''list'' @ [CHR 0x27]))
      | JObj _ \<Rightarrow> Inl (py_exc PyTypeError (''unhashable type: '' @ [CHR 0x27] @ ''dict'' @ [CHR 0x27]))
      | _ \<Rightarrow> Inl (py_exc PyKeyError (json_repr k)))"

datatype read_end = StillReading | ReadAll | ExitSeen

text \<open>The test of the loop around the cursor, with the rest of the loop; what follows a connection
  problem; and what is done with a row, where \<open>m\<close> is the loop on the same cursor.\<close>

definition while_running :: "('w, 'c) export_server \<Rightarrow> ('w exporter, error, read_end) comp \<Rightarrow> ('w exporter, error, read_end) comp" where
  "while_running es m = bind (exit_set es) (\<lambda>x. if x then ret ExitSeen else m)"

definition set_up_again :: "('w, 'c) export_server \<Rightarrow> json \<Rightarrow> 'c \<Rightarrow> json \<Rightarrow> ('c \<Rightarrow> ('w exporter, error, read_end) comp)
    \<Rightarrow> ('w exporter, error, read_end) comp" where
  "set_up_again es pk c lst m =
     bind (outcome (on_server (es_close es c))) (\<lambda>x.
     bind (case x of Inl e \<Rightarrow> if caught_by [ReqlError] e then ret () else raise e | Inr _ \<Rightarrow> ret ()) (\<lambda>_.
     bind (on_server (es_after es pk lst)) (\<lambda>c'. while_running es (m c'))))"

definition queue_row :: "('w, 'c) export_server \<Rightarrow> json \<Rightarrow> row \<Rightarrow> int \<Rightarrow> ('w exporter, error, read_end) comp
    \<Rightarrow> (json \<Rightarrow> ('w exporter, error, read_end) comp) \<Rightarrow> ('w exporter, error, read_end) comp" where
  "queue_row es pk doc n m m' =
     bind (exit_set es) (\<lambda>x.
     if x then while_running es m
     else bind (put_task (Some doc)) (\<lambda>_.
          bind (lift_res (row_item pk doc)) (\<lambda>key.
          bind (if (n + 1) mod 20 = 0 then set_progress (\<lambda>(_, k). (n + 1, k)) else ret ()) (\<lambda>_. m' key))))"

text \<open>The loop over a cursor and the loop around it, one row or one failure at a time; \<open>lst\<close> is the
  primary key of the last row, \<open>None\<close> before the first.\<close>

fun export_rows :: "nat \<Rightarrow> ('w, 'c) export_server \<Rightarrow> json \<Rightarrow> 'c \<Rightarrow> json \<Rightarrow> int \<Rightarrow> ('w exporter, error, read_end) comp" where
  "export_rows 0 es pk c lst n = ret StillReading"
| "export_rows (Suc k) es pk c lst n =
     bind (outcome (on_server (es_next es c))) (\<lambda>r.
       case r of
         Inr None \<Rightarrow> bind (set_progress (\<lambda>_. (n, n))) (\<lambda>_. ret ReadAll)
       | Inr (Some doc) \<Rightarrow> queue_row es pk doc n (export_rows k es pk c lst n) (\<lambda>key. export_rows k es pk c key (n + 1))
       | Inl e \<Rightarrow>
           if caught_by [ReqlTimeoutError, ReqlDriverError] e
           then set_up_again es pk c lst (\<lambda>c'. export_rows k es pk c' lst n)
           else raise e)"

subsection \<open>A table\<close>

definition table_file :: "string \<Rightarrow> string \<Rightarrow> string \<Rightarrow> string \<Rightarrow> error + string" where
  "table_file format dir db table =
     (if format \<in> {''json'', ''csv'', ''ndjson''}
      then Inr (dir @ ''/'' @ db @ ''/'' @ table @ ''.'' @ format)
      else Inl (py_exc PyRuntimeError (''unknown format type: '' @ format)))"

definition info_row :: "('w, 'c) export_server \<Rightarrow> bool \<Rightarrow> ('w exporter, error, row) comp" where
  "info_row es hooks =
     bind (on_server (es_info es)) (\<lambda>info.
     bind (on_server (es_indexes es)) (\<lambda>ixs.
     bind (add_sindexes (int (length ixs))) (\<lambda>_.
     if hooks
     then bind (on_server (es_hook es)) (\<lambda>h.
          bind (if h = JNull then ret () else add_hook) (\<lambda>_.
          ret (dict_put (dict_put info ''indexes'' (JArr ixs)) ''write_hook'' h)))
     else ret (dict_put info ''indexes'' (JArr ixs)))))"

definition export_body :: "nat \<Rightarrow> ('w, 'c) export_server \<Rightarrow> bool \<Rightarrow> string \<Rightarrow> string \<Rightarrow> string \<Rightarrow> string
    \<Rightarrow> ('w exporter, error, read_end) comp" where
  "export_body fuel es hooks format dir db table =
     bind (info_row es hooks) (\<lambda>info.
     bind (on_server (es_write es (path_join (path_join dir db) (table @ ''.info'')) (json_dumps (JObj info) @ [LF]))) (\<lambda>_.
     bind (lift_res (row_item (JStr ''indexes'') info)) (\<lambda>ixs.
     bind (add_sindexes (case ixs of JArr xs \<Rightarrow> int (length xs) | _ \<Rightarrow> 0)) (\<lambda>_.
     bind (lift_res (table_file format dir db table)) (\<lambda>path.
     bind (start_writer path) (\<lambda>_.
     bind (lift_res (row_item (JStr ''primary_key'') info)) (\<lambda>pk.
     bind (on_server (es_cursor es pk)) (\<lambda>c.
     while_running es (export_rows fuel es pk c JNull 0)))))))))"

text \<open>What the handlers put on the queue of errors.\<close>

definition reported :: "error \<Rightarrow> error" where
  "reported e = (if caught_by [ReqlError, ReqlDriverError] e then py_exc PyRuntimeError (emsg e) else e)"

definition export_table :: "nat \<Rightarrow> ('w, 'c) export_server \<Rightarrow> string \<Rightarrow> string \<Rightarrow> string \<Rightarrow> string
    \<Rightarrow> ('w exporter, error, read_end option) comp" where
  "export_table fuel es format dir db table =
     bind (on_server (es_version es)) (\<lambda>v.
     bind (lift_res (check_version [2, 3, 7] False v)) (\<lambda>hooks.
     bind (outcome (export_body fuel es hooks format dir db table)) (\<lambda>r.
     bind (case r of Inl e \<Rightarrow> bind (put_error (reported e)) (\<lambda>_. ret None) | Inr x \<Rightarrow> ret (Some x)) (\<lambda>x.
     if x = Some StillReading then ret x
     else (\<lambda>s. bind (if xs_writer s = None then ret () else put_task None) (\<lambda>_. ret x) s)))))"

subsection \<open>Which tables\<close>

text \<open>The tables to export, from the ones that are there, the databases and the options.\<close>

fun chosen_for_export :: "(string \<times> string) list \<Rightarrow> string list \<Rightarrow> db_table list \<Rightarrow> error + (string \<times> string) set" where
  "chosen_for_export tables dbs [] = Inr {}"
| "chosen_for_export tables dbs ((db, t) # ts) =
     (if db = ''rethinkdb'' then Inl (py_exc PyAssertionError ''Can not export tables from the system database'')
      else if db \<notin> set dbs
      then Inl (py_exc PyRuntimeError (''Error: Database '' @ [CHR 0x27] @ db @ [CHR 0x27] @ '' not found''))
      else case t of
        None \<Rightarrow> rmap (\<lambda>ts'. set (filter (\<lambda>x. fst x = db) tables) \<union> ts') (chosen_for_export tables dbs ts)
      | Some t \<Rightarrow>
          if (db, t) \<notin> set tables
          then Inl (py_exc PyRuntimeError (''Error: Table not found: '' @ [CHR 0x27] @ db @ ''.'' @ t @ [CHR 0x27]))
          else rmap (insert (db, t)) (chosen_for_export tables dbs ts))"

definition tables_to_export :: "(string \<times> string) list \<Rightarrow> string list \<Rightarrow> db_table list \<Rightarrow> error + (string \<times> string) set" where
  "tables_to_export tables dbs ts = (if ts = [] then Inr (set tables) else chosen_for_export tables dbs ts)"

subsection \<open>A server that has the table\<close>

text \<open>The rows of a table in the order of their primary keys: what a cursor still has to give (\<open>left\<close>) are
  all rows when it is opened on the table, and the rows after a key when it is opened for those; no key
  is \<open>None\<close>, which is either refused or no bound.  A cursor gives the rows it has one after the
  other, and may fail at any of them.  The event to exit, once set, stays set.\<close>

definition serves :: "('w, 'c) export_server \<Rightarrow> json \<Rightarrow> row list \<Rightarrow> ('c \<Rightarrow> 'w \<Rightarrow> row list \<Rightarrow> bool) \<Rightarrow> bool" where
  "serves es pk rows left \<longleftrightarrow>
     (\<forall>w c w'. es_cursor es pk w = (Inr c, w') \<longrightarrow> left c w' rows)
     \<and> (\<forall>w c w'. es_after es pk JNull w = (Inr c, w') \<longrightarrow> left c w' rows)
     \<and> (\<forall>pre r post key w c w'. rows = pre @ r # post \<longrightarrow> row_item pk r = Inr key
          \<longrightarrow> es_after es pk key w = (Inr c, w') \<longrightarrow> left c w' post)
     \<and> (\<forall>c w rs x w'. left c w rs \<longrightarrow> es_next es c w = (Inr x, w')
          \<longrightarrow> (case x of None \<Rightarrow> rs = [] | Some r \<Rightarrow> \<exists>rs'. rs = r # rs' \<and> left c w' rs'))
     \<and> (\<forall>c w rs. left c w rs \<longrightarrow> left c (snd (es_exit es w)) rs)
     \<and> (\<forall>w w'. es_exit es w = (True, w') \<longrightarrow> fst (es_exit es w'))"

lemma servesD:
  assumes "serves es pk rows left"
  shows "es_cursor es pk w = (Inr c, w') \<Longrightarrow> left c w' rows"
    and "es_after es pk JNull w = (Inr c, w') \<Longrightarrow> left c w' rows"
    and "rows = pre @ r # post \<Longrightarrow> row_item pk r = Inr key \<Longrightarrow> es_after es pk key w = (Inr c, w') \<Longrightarrow> left c w' post"
    and "left c w rs \<Longrightarrow> es_next es c w = (Inr None, w') \<Longrightarrow> rs = []"
    and "left c w rs \<Longrightarrow> es_next es c w = (Inr (Some r), w') \<Longrightarrow> \<exists>rs'. rs = r # rs' \<and> left c w' rs'"
    and "left c w rs \<Longrightarrow> left c (snd (es_exit es w)) rs"
    and "es_exit es w = (True, w') \<Longrightarrow> fst (es_exit es w')"
proof -
  note a = assms [unfolded serves_def]
  note b = conjunct2 [OF a]
  note c = conjunct2 [OF b]
  note d = conjunct2 [OF c]
  note e = conjunct2 [OF d]
  note n = conjunct1 [OF d, rule_format]
  show "es_cursor es pk w = (Inr c, w') \<Longrightarrow> left c w' rows" by (rule conjunct1 [OF a, rule_format])
  show "es_after es pk JNull w = (Inr c, w') \<Longrightarrow> left c w' rows" by (rule conjunct1 [OF b, rule_format])
  show "rows = pre @ r # post \<Longrightarrow> row_item pk r = Inr key \<Longrightarrow> es_after es pk key w = (Inr c, w') \<Longrightarrow> left c w' post"
    by (rule conjunct1 [OF c, rule_format])
  show "left c w rs \<Longrightarrow> es_next es c w = (Inr None, w') \<Longrightarrow> rs = []" using n [of c w rs None w'] by simp
  show "left c w rs \<Longrightarrow> es_next es c w = (Inr (Some r), w') \<Longrightarrow> \<exists>rs'. rs = r # rs' \<and> left c w' rs'"
    using n [of c w rs "Some r" w'] by simp
  show "left c w rs \<Longrightarrow> left c (snd (es_exit es w)) rs" by (rule conjunct1 [OF e, rule_format])
  show "es_exit es w = (True, w') \<Longrightarrow> fst (es_exit es w')" by (rule conjunct2 [OF e, rule_format])
qed

text \<open>The key that a cursor is set up again with after these rows.\<close>

definition resumes_at :: "json \<Rightarrow> row list \<Rightarrow> json \<Rightarrow> bool" where
  "resumes_at pk d lst \<longleftrightarrow> (if d = [] then lst = JNull else row_item pk (last d) = Inr lst)"

text \<open>A state in which the rows \<open>d\<close> have been queued, and one in which a cursor has the others.\<close>

definition queued :: "row list \<Rightarrow> row option list \<Rightarrow> error list \<Rightarrow> string option \<Rightarrow> row list \<Rightarrow> 'w exporter \<Rightarrow> bool" where
  "queued rows q es wr d s \<longleftrightarrow>
     prefix d rows \<and> xs_queue s = q @ map Some d \<and> xs_errors s = es \<and> xs_writer s = wr"

definition reading :: "('c \<Rightarrow> 'w \<Rightarrow> row list \<Rightarrow> bool) \<Rightarrow> row list \<Rightarrow> row option list \<Rightarrow> error list \<Rightarrow> string option
    \<Rightarrow> row list \<Rightarrow> 'c \<Rightarrow> 'w exporter \<Rightarrow> bool" where
  "reading left rows q es wr d c s \<longleftrightarrow>
     queued rows q es wr d s \<and> (\<exists>rest. rows = d @ rest \<and> left c (xs_world s) rest)"

definition some_queued :: "row list \<Rightarrow> row option list \<Rightarrow> error list \<Rightarrow> string option \<Rightarrow> error \<Rightarrow> 'w exporter \<Rightarrow> bool" where
  "some_queued rows q es wr e s \<longleftrightarrow> (\<exists>d. queued rows q es wr d s)"

definition read_result :: "row list \<Rightarrow> row option list \<Rightarrow> error list \<Rightarrow> string option \<Rightarrow> read_end \<Rightarrow> 'w exporter \<Rightarrow> bool" where
  "read_result rows q es wr r s \<longleftrightarrow>
     (\<exists>d. queued rows q es wr d s
        \<and> (r = ReadAll \<longrightarrow> d = rows \<and> xs_progress s = (int (length rows), int (length rows))))"

lemma queued_simps [simp]:
  "queued rows q es wr d (s\<lparr>xs_world := w\<rparr>) = queued rows q es wr d s"
  "queued rows q es wr d (s\<lparr>xs_progress := p\<rparr>) = queued rows q es wr d s"
  by (simp_all add: queued_def)

lemma queued_some: "queued rows q es wr d s \<Longrightarrow> some_queued rows q es wr e s"
  by (auto simp: some_queued_def)

lemma queued_any: "queued rows q es wr d s \<Longrightarrow> \<exists>wr. some_queued rows q es wr e (s\<lparr>xs_world := w\<rparr>)"
  by (auto simp: some_queued_def)

lemma on_server_triple:
  assumes "\<And>s x w. P s \<Longrightarrow> m (xs_world s) = (Inr x, w) \<Longrightarrow> Q x (s\<lparr>xs_world := w\<rparr>)"
    and "\<And>s e w. P s \<Longrightarrow> m (xs_world s) = (Inl e, w) \<Longrightarrow> E e (s\<lparr>xs_world := w\<rparr>)"
  shows "triple P (on_server m) Q E"
  using assms by (auto intro!: tripleI simp: on_server_def split: prod.splits)

lemma outcome_triple:
  "triple P m (\<lambda>x. Q (Inr x)) (\<lambda>e. Q (Inl e)) \<Longrightarrow> triple P (outcome m) Q E"
proof (rule tripleI)
  fix s r t assume m: "triple P m (\<lambda>x. Q (Inr x)) (\<lambda>e. Q (Inl e))" "P s" "outcome m s = (Inr r, t)"
  then have "m s = (r, t)" by (simp add: outcome_def split: prod.splits)
  then show "Q r t" using triple_Inr [OF m(1,2)] triple_Inl [OF m(1,2)] by (cases r) auto
qed (simp add: outcome_def split: prod.splits)

lemma exit_set_triple:
  assumes "serves es pk rows left"
  shows "triple (reading left rows q er wr d c) (exit_set es) (\<lambda>_. reading left rows q er wr d c) E"
  using servesD(6) [OF assms]
  by (fastforce intro!: tripleI simp: exit_set_def reading_def split: prod.splits)

lemma read_resultI: "queued rows q er wr d s \<Longrightarrow> r \<noteq> ReadAll \<Longrightarrow> read_result rows q er wr r s"
  by (auto simp: read_result_def)

lemma reading_queued: "reading left rows q er wr d c s \<Longrightarrow> queued rows q er wr d s"
  by (simp add: reading_def)

text \<open>After a failure: the cursor that is opened has the rows that have not been queued.\<close>

lemma resume_triple:
  assumes "serves es pk rows left" "resumes_at pk d lst"
  shows "triple (queued rows q er wr d) (on_server (es_after es pk lst))
     (\<lambda>c'. reading left rows q er wr d c') (some_queued rows q er wr)"
proof (rule on_server_triple)
  fix s c w assume s: "queued rows q er wr d s" and c: "es_after es pk lst (xs_world s) = (Inr c, w)"
  obtain rest where rest: "rows = d @ rest" using s by (auto simp: queued_def prefix_def)
  have "left c w rest"
  proof (cases d rule: rev_cases)
    case Nil
    then show ?thesis using servesD(2) [OF assms(1)] assms(2) c rest by (simp add: resumes_at_def)
  next
    case (snoc d' r)
    have "rows = d' @ r # rest" using rest snoc by simp
    moreover have "row_item pk r = Inr lst" using assms(2) snoc by (simp add: resumes_at_def)
    ultimately show ?thesis using servesD(3) [OF assms(1)] c by blast
  qed
  then show "reading left rows q er wr d c (s\<lparr>xs_world := w\<rparr>)" using s rest by (simp add: reading_def)
qed (auto simp: some_queued_def)

lemma while_running_triple:
  assumes "serves es pk rows left"
    and "triple (reading left rows q er wr d c) m (read_result rows q er wr) (some_queued rows q er wr)"
  shows "triple (reading left rows q er wr d c) (while_running es m) (read_result rows q er wr) (some_queued rows q er wr)"
  unfolding while_running_def
  by (rule triple_bind [OF exit_set_triple [OF assms(1)]])
    (auto intro!: triple_if triple_ret assms(2) intro: read_resultI reading_queued)

lemma set_up_again_triple:
  assumes "serves es pk rows left" "resumes_at pk d lst"
    and "\<And>c'. triple (reading left rows q er wr d c') (m c') (read_result rows q er wr) (some_queued rows q er wr)"
  shows "triple (queued rows q er wr d) (set_up_again es pk c lst m) (read_result rows q er wr) (some_queued rows q er wr)"
proof -
  have a: "triple (queued rows q er wr d) (outcome (on_server (es_close es c))) (\<lambda>_. queued rows q er wr d) (some_queued rows q er wr)"
    by (rule outcome_triple, rule on_server_triple) simp_all
  have b: "triple (queued rows q er wr d)
      (case x of Inl e \<Rightarrow> if caught_by [ReqlError] e then ret () else raise e | Inr (_ :: unit) \<Rightarrow> ret ())
      (\<lambda>_. queued rows q er wr d) (some_queued rows q er wr)" for x
    by (auto split: sum.split intro!: triple_ret triple_raise intro: queued_some simp del: caught_by_single)
  have c: "triple (queued rows q er wr d) (bind (on_server (es_after es pk lst)) (\<lambda>c'. while_running es (m c')))
      (read_result rows q er wr) (some_queued rows q er wr)"
    by (rule triple_bind [OF resume_triple [OF assms(1,2)] while_running_triple [OF assms(1,3)]])
  show ?thesis unfolding set_up_again_def by (rule triple_bind [OF a triple_bind [OF b c]])
qed

definition row_given :: "('c \<Rightarrow> 'w \<Rightarrow> row list \<Rightarrow> bool) \<Rightarrow> row list \<Rightarrow> row option list \<Rightarrow> error list \<Rightarrow> string option
    \<Rightarrow> row list \<Rightarrow> 'c \<Rightarrow> error + row option \<Rightarrow> 'w exporter \<Rightarrow> bool" where
  "row_given left rows q er wr d c r s \<longleftrightarrow> queued rows q er wr d s \<and>
     (case r of Inl e \<Rightarrow> True | Inr None \<Rightarrow> d = rows
      | Inr (Some doc) \<Rightarrow> \<exists>rest. rows = d @ doc # rest \<and> left c (xs_world s) rest)"

lemma next_triple:
  assumes "serves es pk rows left"
  shows "triple (reading left rows q er wr d c) (outcome (on_server (es_next es c))) (row_given left rows q er wr d c) E"
proof (rule outcome_triple, rule on_server_triple)
  fix s x w assume s: "reading left rows q er wr d c s" and x: "es_next es c (xs_world s) = (Inr x, w)"
  then show "row_given left rows q er wr d c (Inr x) (s\<lparr>xs_world := w\<rparr>)"
    using servesD(4,5) [OF assms] by (cases x) (fastforce simp: reading_def row_given_def)+
qed (simp add: reading_def row_given_def)

lemma exit_check:
  assumes "serves es pk rows left"
    and "triple (row_given left rows q er wr d c (Inr (Some doc))) m' (read_result rows q er wr) E"
  shows "triple (row_given left rows q er wr d c (Inr (Some doc)))
     (bind (exit_set es) (\<lambda>x. if x then while_running es m else m')) (read_result rows q er wr) E"
  unfolding triple_def
proof (intro allI impI)
  fix s
  assume s: "row_given left rows q er wr d c (Inr (Some doc)) s"
  obtain b w where e: "es_exit es (xs_world s) = (b, w)" by (cases "es_exit es (xs_world s)")
  let ?m = "bind (exit_set es) (\<lambda>x. if x then while_running es m else m')"
  show "case ?m s of (Inr a, t) \<Rightarrow> read_result rows q er wr a t | (Inl e, t) \<Rightarrow> E e t"
  proof (cases b)
    case True
    then have "fst (es_exit es w)" using servesD(7) [OF assms(1), of "xs_world s" w] e by simp
    then obtain w' where e': "es_exit es w = (True, w')" by (cases "es_exit es w") auto
    have "read_result rows q er wr ExitSeen (s\<lparr>xs_world := w'\<rparr>)" using s by (intro read_resultI [of rows q er wr d]) (simp_all add: row_given_def)
    then show ?thesis using e e' True by (simp add: while_running_def bind_def exit_set_def ret_def)
  next
    case False
    have "row_given left rows q er wr d c (Inr (Some doc)) (s\<lparr>xs_world := w\<rparr>)"
      using s servesD(6) [OF assms(1), of c "xs_world s"] e by (auto simp: row_given_def)
    then show ?thesis using assms(2) e False by (simp add: triple_def bind_def exit_set_def)
  qed
qed

lemma put_row_triple:
  "triple (row_given left rows q er wr d c (Inr (Some doc))) (put_task (Some doc))
     (\<lambda>_. reading left rows q er wr (d @ [doc]) c) E"
  by (auto intro!: tripleI simp: put_task_def row_given_def reading_def queued_def)

lemma set_progress_triple:
  "(\<And>s p. P s \<Longrightarrow> Q (s\<lparr>xs_progress := p\<rparr>)) \<Longrightarrow> triple P (set_progress f) (\<lambda>_. Q) E"
  by (rule tripleI) (simp_all only: set_progress_def prod.inject sum.inject sum.distinct simp_thms, elim conjE, hypsubst)

lemma lift_res_triple:
  "(\<And>x. r = Inr x \<Longrightarrow> triple P (f x) Q E) \<Longrightarrow> (\<And>s e. r = Inl e \<Longrightarrow> P s \<Longrightarrow> E e s) \<Longrightarrow> triple P (bind (lift_res r) f) Q E"
  by (cases r) (auto simp: triple_def bind_def lift_res_def)

lemma queue_row_triple:
  assumes "serves es pk rows left"
    and "\<And>key. resumes_at pk (d @ [doc]) key \<Longrightarrow>
      triple (reading left rows q er wr (d @ [doc]) c) (m' key) (read_result rows q er wr) (some_queued rows q er wr)"
  shows "triple (row_given left rows q er wr d c (Inr (Some doc))) (queue_row es pk doc n m m')
     (read_result rows q er wr) (some_queued rows q er wr)"
  unfolding queue_row_def
proof (rule exit_check [OF assms(1)], rule triple_bind [OF put_row_triple], rule lift_res_triple)
  fix key assume "row_item pk doc = Inr key"
  then have "resumes_at pk (d @ [doc]) key" by (simp add: resumes_at_def)
  then show "triple (reading left rows q er wr (d @ [doc]) c)
      (bind (if (n + 1) mod 20 = 0 then set_progress (\<lambda>(_, k). (n + 1, k)) else ret ()) (\<lambda>_. m' key))
      (read_result rows q er wr) (some_queued rows q er wr)"
    by (intro triple_bind [where R = "\<lambda>_. reading left rows q er wr (d @ [doc]) c"] triple_if set_progress_triple triple_ret assms(2))
      (auto simp: reading_def)
qed (auto intro: queued_some reading_queued)

lemma export_rows_reads:
  assumes "serves es pk rows left"
  shows "resumes_at pk d lst \<Longrightarrow> n = int (length d)
     \<Longrightarrow> triple (reading left rows q er wr d c) (export_rows k es pk c lst n) (read_result rows q er wr) (some_queued rows q er wr)"
proof (induction k arbitrary: d c lst n)
  case 0
  then show ?case by (auto intro: triple_ret read_resultI reading_queued)
next
  case (Suc k)
  let ?Q = "read_result rows q er wr" and ?E = "some_queued rows q er wr"
  let ?P = "row_given left rows q er wr d c"
  have over: "triple (?P (Inr None)) (bind (set_progress (\<lambda>_. (n, n))) (\<lambda>_. ret ReadAll)) ?Q ?E"
    using Suc.prems(2)
    by (auto intro!: tripleI simp: row_given_def read_result_def set_progress_def bind_def ret_def)
  have more: "triple (?P (Inr (Some doc))) (queue_row es pk doc n (export_rows k es pk c lst n) (\<lambda>key. export_rows k es pk c key (n + 1))) ?Q ?E" for doc
    using Suc.prems(2) by (intro queue_row_triple [OF assms] Suc.IH) auto
  have again: "triple (?P (Inl e)) (set_up_again es pk c lst (\<lambda>c'. export_rows k es pk c' lst n)) ?Q ?E" for e
    by (rule triple_pre [OF set_up_again_triple [OF assms Suc.prems(1) Suc.IH [OF Suc.prems]]]) (simp add: row_given_def)
  have fails: "triple (?P (Inl e)) (raise e) ?Q ?E" for e
    by (auto intro!: triple_raise intro: queued_some simp: row_given_def)
  show ?case unfolding export_rows.simps
    by (rule triple_bind [OF next_triple [OF assms]])
      (auto split: sum.split option.split simp del: caught_by_single intro!: over more again fails)
qed

subsection \<open>A table is exported\<close>

text \<open>What the writer gets: the rows before the \<open>StopIteration\<close>; and the file it writes of them.\<close>

definition taken :: "row option list \<Rightarrow> row list" where
  "taken q = map the (takeWhile (\<lambda>x. x \<noteq> None) q)"

lemma taken_rows [simp]: "taken (map Some d) = d" "taken (map Some d @ [None]) = d"
  by (induction d) (simp_all add: taken_def)

lemma queued_counters [simp]:
  "queued rows q er wr d (s\<lparr>xs_sindexes := n\<rparr>) = queued rows q er wr d s"
  "queued rows q er wr d (s\<lparr>xs_hooks := n\<rparr>) = queued rows q er wr d s"
  by (simp_all add: queued_def)

definition has_key :: "('w, 'c) export_server \<Rightarrow> json \<Rightarrow> bool" where
  "has_key es pk \<longleftrightarrow> (\<forall>w info w'. es_info es w = (Inr info, w') \<longrightarrow> map_of info ''primary_key'' = Some pk)"

definition table_facts :: "json \<Rightarrow> row \<Rightarrow> bool" where
  "table_facts pk info \<longleftrightarrow> map_of info ''primary_key'' = Some pk \<and> (\<exists>ixs. map_of info ''indexes'' = Some (JArr ixs))"

lemma info_triple:
  assumes "has_key es pk"
  shows "triple (queued rows q er wr d) (info_row es hooks)
     (\<lambda>info s. queued rows q er wr d s \<and> table_facts pk info) (some_queued rows q er wr)"
proof -
  let ?P = "queued rows q er wr d" and ?E = "some_queued rows q er wr"
  have srv: "triple ?P (on_server m) (\<lambda>_. ?P) ?E" for m :: "('a, error, 'x) comp"
    by (rule on_server_triple) (auto intro: queued_some)
  have a: "triple ?P (on_server (es_info es)) (\<lambda>info s. ?P s \<and> map_of info ''primary_key'' = Some pk) ?E"
    using assms by (intro on_server_triple) (auto simp: has_key_def some_queued_def)
  have n: "triple ?P (add_sindexes k) (\<lambda>_. ?P) ?E" "triple ?P add_hook (\<lambda>_. ?P) ?E" for k
    by (auto intro!: tripleI simp: add_sindexes_def add_hook_def)
  have r: "triple ?P (ret i) (\<lambda>info s. ?P s \<and> table_facts pk info) ?E" if "table_facts pk i" for i
    using that by (intro triple_ret) simp
  show ?thesis unfolding info_row_def
  proof (rule triple_bind [OF a])
    fix info
    show "triple (\<lambda>s. ?P s \<and> map_of info ''primary_key'' = Some pk)
      (bind (on_server (es_indexes es)) (\<lambda>ixs.
       bind (add_sindexes (int (length ixs))) (\<lambda>_.
       if hooks then bind (on_server (es_hook es)) (\<lambda>h.
          bind (if h = JNull then ret () else add_hook) (\<lambda>_.
          ret (dict_put (dict_put info ''indexes'' (JArr ixs)) ''write_hook'' h)))
       else ret (dict_put info ''indexes'' (JArr ixs))))) (\<lambda>info s. ?P s \<and> table_facts pk info) ?E"
    proof (cases "map_of info ''primary_key'' = Some pk")
      case True
      then have f: "table_facts pk (dict_put info ''indexes'' (JArr ixs))"
        "table_facts pk (dict_put (dict_put info ''indexes'' (JArr ixs)) ''write_hook'' h)" for ixs h
        by (auto simp: table_facts_def map_of_dict_put)
      have "triple ?P (bind (on_server (es_indexes es)) (\<lambda>ixs.
       bind (add_sindexes (int (length ixs))) (\<lambda>_.
       if hooks then bind (on_server (es_hook es)) (\<lambda>h.
          bind (if h = JNull then ret () else add_hook) (\<lambda>_.
          ret (dict_put (dict_put info ''indexes'' (JArr ixs)) ''write_hook'' h)))
       else ret (dict_put info ''indexes'' (JArr ixs))))) (\<lambda>info s. ?P s \<and> table_facts pk info) ?E"
        by (intro triple_bind [OF srv] triple_bind [OF n(1)] triple_if triple_bind [where R = "\<lambda>_. ?P"] n(2) r f)
          (auto intro: triple_ret)
      then show ?thesis by (rule triple_pre) simp
    qed (simp add: triple_def)
  qed
qed

lemma item_of: "map_of r k = Some v \<Longrightarrow> row_item (JStr k) r = Inr v"
  by (simp add: row_item_def answer_item_def)

lemma export_body_reads:
  assumes "serves es pk rows left" "has_key es pk"
  shows "triple (queued rows [] er None []) (export_body fuel es hooks format dir db table)
     (\<lambda>r s. \<exists>path. read_result rows [] er (Some path) r s) (\<lambda>e s. \<exists>wr. some_queued rows [] er wr e s)"
proof -
  let ?P = "\<lambda>wr. queued rows [] er wr []" and ?E = "\<lambda>e s. \<exists>wr. some_queued rows [] er wr e s"
  let ?Q = "\<lambda>r s. \<exists>path. read_result rows [] er (Some path) r s"
  have srv: "triple (?P None) (on_server m) (\<lambda>_. ?P None) ?E" for m :: "('a, error, unit) comp"
    by (rule on_server_triple) (simp, rule queued_any)
  have n: "triple (?P None) (add_sindexes k) (\<lambda>_. ?P None) ?E" for k
    by (auto intro!: tripleI simp: add_sindexes_def)
  have w: "triple (?P None) (start_writer path) (\<lambda>_. ?P (Some path)) ?E" for path
    by (auto intro!: tripleI simp: start_writer_def queued_def)
  have c: "triple (?P (Some path)) (on_server (es_cursor es pk)) (\<lambda>c. reading left rows [] er (Some path) [] c) ?E" for path
    using servesD(1) [OF assms(1)] by (intro on_server_triple) (auto simp: reading_def intro: queued_any)
  have l: "triple (reading left rows [] er (Some path) [] c) (while_running es (export_rows fuel es pk c JNull 0)) ?Q ?E" for path c
    by (rule triple_post [OF while_running_triple [OF assms(1) export_rows_reads [OF assms(1)]]]) (auto simp: resumes_at_def)
  have i: "triple (?P None) (info_row es hooks) (\<lambda>info s. ?P None s \<and> table_facts pk info) ?E"
    by (rule triple_post [OF info_triple [OF assms(2)]]) auto
  show ?thesis unfolding export_body_def
  proof (rule triple_bind [OF i])
    fix info
    let ?m = "bind (on_server (es_write es (path_join (path_join dir db) (table @ ''.info'')) (json_dumps (JObj info) @ [LF]))) (\<lambda>_.
     bind (lift_res (row_item (JStr ''indexes'') info)) (\<lambda>ixs.
     bind (add_sindexes (case ixs of JArr xs \<Rightarrow> int (length xs) | _ \<Rightarrow> 0)) (\<lambda>_.
     bind (lift_res (table_file format dir db table)) (\<lambda>path.
     bind (start_writer path) (\<lambda>_.
     bind (lift_res (row_item (JStr ''primary_key'') info)) (\<lambda>pk.
     bind (on_server (es_cursor es pk)) (\<lambda>c.
     while_running es (export_rows fuel es pk c JNull 0))))))))"
    show "triple (\<lambda>s. ?P None s \<and> table_facts pk info) ?m ?Q ?E"
    proof (cases "table_facts pk info")
      case True
      then obtain ixs where f: "row_item (JStr ''indexes'') info = Inr (JArr ixs)" "row_item (JStr ''primary_key'') info = Inr pk"
        by (auto simp: table_facts_def item_of)
      have "triple (?P None) ?m ?Q ?E"
        by (intro triple_bind [OF srv] lift_res_triple triple_bind [OF n] triple_bind [OF w])
          (use f in \<open>auto intro: triple_bind [OF c l] queued_some\<close>)
      then show ?thesis by (rule triple_pre) simp
    qed (simp add: triple_def)
  qed
qed

lemma export_table_reads:
  assumes "serves es pk rows left" "has_key es pk"
    and "xs_queue s = []" "xs_errors s = []" "xs_writer s = None"
    and "export_table fuel es format dir db table s = (r, s')"
  shows "prefix (taken (xs_queue s')) rows
     \<and> (r = Inr (Some ReadAll) \<longrightarrow> xs_queue s' = map Some rows @ [None] \<and> xs_errors s' = []
          \<and> xs_progress s' = (int (length rows), int (length rows)))
     \<and> (r = Inr None \<longrightarrow> xs_errors s' \<noteq> [])"
proof -
  have start: "queued rows [] [] None [] (s\<lparr>xs_world := w\<rparr>)" for w
    using assms(3-5) by (simp add: queued_def)
  let ?b = "\<lambda>hooks. export_body fuel es hooks format dir db table"
  note body = export_body_reads [OF assms(1,2), of "[]" fuel _ format dir db table]
  obtain v w where v: "es_version es (xs_world s) = (v, w)" by (cases "es_version es (xs_world s)")
  let ?s = "s\<lparr>xs_world := w\<rparr>"
  show ?thesis
  proof (cases "is_ok v \<and> is_ok (rbind v (check_version [2, 3, 7] False))")
    case False
    then have "r \<noteq> Inr x \<and> s' = ?s" for x
      using assms(6) v by (auto simp: export_table_def bind_def on_server_def lift_res_def split: sum.splits)
    then show ?thesis using assms(3) by (auto simp: taken_def)
  next
    case True
    then obtain hooks where h: "rbind v (check_version [2, 3, 7] False) = Inr hooks" by (auto simp: is_ok_iff)
    obtain x t where x: "?b hooks ?s = (x, t)" by (cases "?b hooks ?s")
    have r: "(r, s') = (bind (case x of Inl e \<Rightarrow> bind (put_error (reported e)) (\<lambda>_. ret None) | Inr y \<Rightarrow> ret (Some y)) (\<lambda>x.
      if x = Some StillReading then ret x else (\<lambda>s. bind (if xs_writer s = None then ret () else put_task None) (\<lambda>_. ret x) s))) t"
      using assms(6) v h True x
      by (auto simp: export_table_def bind_def on_server_def lift_res_def outcome_def split: sum.splits)
    show ?thesis
    proof (cases x)
      case (Inl e)
      then obtain wr d where d: "queued rows [] [] wr d t"
        using triple_Inl [OF body start x [unfolded Inl]] by (auto simp: some_queued_def)
      then show ?thesis using r Inl
        by (auto simp: bind_def put_error_def ret_def put_task_def queued_def split: if_splits)
    next
      case (Inr y)
      then obtain path d where d: "queued rows [] [] (Some path) d t"
        "y = ReadAll \<longrightarrow> d = rows \<and> xs_progress t = (int (length rows), int (length rows))"
        using triple_Inr [OF body start x [unfolded Inr]] by (auto simp: read_result_def)
      then show ?thesis using r Inr
        by (auto simp: bind_def ret_def put_task_def queued_def split: if_splits)
    qed
  qed
qed

text \<open>C7. What \<open>rethinkdb export\<close> writes of a table is right although connections break: whatever fails,
  is tried again with a cursor after the last key, or is stopped from outside, the rows given to the
  writer are the first rows of the table, none twice and none left out; all of them when
  the reading comes to its end, with the end marked; and an exception while the table is read is
  reported.\<close>

theorem export_reads_table:
  assumes "serves es pk rows left" "has_key es pk"
    and "xs_queue s = []" "xs_errors s = []" "xs_writer s = None"
    and "export_table fuel es format dir db table s = (r, s')"
  shows "prefix (taken (xs_queue s')) rows
     \<and> (r = Inr (Some ReadAll) \<longrightarrow> xs_queue s' = map Some rows @ [None] \<and> xs_errors s' = []
          \<and> xs_progress s' = (int (length rows), int (length rows)))
     \<and> (r = Inr None \<longrightarrow> xs_errors s' \<noteq> [])"
  by (rule export_table_reads [OF assms])

text \<open>What export keeps of a table besides its rows is what import reads: the text of its \<open>.info\<close> file
  is parsed to the primary key, the indexes and the write hook, if it has one.\<close>

theorem info_file_round_trip:
  assumes "wf_json (JObj info)" "table_facts pk info"
  shows "\<exists>ixs. map_of info ''indexes'' = Some ixs
     \<and> parse_info False (json_dumps (JObj info) @ [LF]) = Inr (pk, ixs, default_to JNull (map_of info ''write_hook''))"
proof -
  obtain ixs where f: "map_of info ''primary_key'' = Some pk" "map_of info ''indexes'' = Some (JArr ixs)"
    using assms(2) by (auto simp: table_facts_def)
  have "parse_value (Suc (2 * length (json_dumps (JObj info)))) (json_dumps (JObj info) @ []) = Inr (JObj info, [])"
    using dumps_reads_back [OF assms(1)] by (intro reads_backD) (simp_all add: ends_value_def del: json_dumps.simps)
  then have "parse_value (Suc (2 * length (json_dumps (JObj info) @ [LF]))) (json_dumps (JObj info) @ [LF]) = Inr (JObj info, [LF])"
    using parse_mono_extend(1) [of _ "json_dumps (JObj info)" "JObj info" "[]" _ "[LF]"]
    by (simp del: json_dumps.simps parse_value.simps)
  moreover have "skip_ws (json_dumps (JObj info) @ [LF]) = json_dumps (JObj info) @ [LF]"
    by (rule skip_ws_value [OF assms(1)])
  moreover have "skip_ws [LF] = []" by (simp add: skip_ws_def is_ws_LF)
  ultimately have "loads (json_dumps (JObj info) @ [LF]) = Inr (JObj info)" by (simp add: loads_def del: json_dumps.simps)
  then show ?thesis using f by (simp add: parse_info_def row_key_def default_to_def del: json_dumps.simps)
qed

subsection \<open>It comes to the end\<close>

text \<open>A server that lets an export be done: queries succeed, a cursor fails at most \<open>budget\<close> times, and only
  after the first row, and nobody stops the export.\<close>

definition lets_read :: "('w \<Rightarrow> nat) \<Rightarrow> ('w, 'c) export_server \<Rightarrow> json \<Rightarrow> row list \<Rightarrow> ('c \<Rightarrow> 'w \<Rightarrow> row list \<Rightarrow> bool) \<Rightarrow> bool" where
  "lets_read budget es pk rows left \<longleftrightarrow>
     (\<forall>r \<in> set rows. \<exists>key. row_item pk r = Inr key)
     \<and> (\<forall>r \<in> set rows. \<forall>key w. row_item pk r = Inr key \<longrightarrow> (\<exists>c w'. es_after es pk key w = (Inr c, w') \<and> budget w' \<le> budget w))
     \<and> (\<forall>c w rs. left c w rs \<longrightarrow> (case es_next es c w of (Inr _, w') \<Rightarrow> budget w' \<le> budget w
          | (Inl e, w') \<Rightarrow> rs \<noteq> rows \<and> caught_by [ReqlTimeoutError, ReqlDriverError] e \<and> budget w' < budget w))
     \<and> (\<forall>c w. \<exists>x w'. es_close es c w = (x, w') \<and> (case x of Inl e \<Rightarrow> caught_by [ReqlError] e | Inr _ \<Rightarrow> True) \<and> budget w' \<le> budget w)
     \<and> (\<forall>w. \<exists>w'. es_exit es w = (False, w') \<and> budget w' \<le> budget w)"

lemma lets_readD:
  assumes "lets_read budget es pk rows left"
  shows "r \<in> set rows \<Longrightarrow> \<exists>key. row_item pk r = Inr key"
    and "r \<in> set rows \<Longrightarrow> row_item pk r = Inr key \<Longrightarrow> \<exists>c w'. es_after es pk key w = (Inr c, w') \<and> budget w' \<le> budget w"
    and "left c w rs \<Longrightarrow> es_next es c w = (Inr x, w') \<Longrightarrow> budget w' \<le> budget w"
    and "left c w rs \<Longrightarrow> es_next es c w = (Inl e, w')
      \<Longrightarrow> rs \<noteq> rows \<and> caught_by [ReqlTimeoutError, ReqlDriverError] e \<and> budget w' < budget w"
    and "\<exists>x w'. es_close es c w = (x, w') \<and> (case x of Inl e \<Rightarrow> caught_by [ReqlError] e | Inr _ \<Rightarrow> True) \<and> budget w' \<le> budget w"
    and "\<exists>w'. es_exit es w = (False, w') \<and> budget w' \<le> budget w"
proof -
  note a = assms [unfolded lets_read_def]
  note b = conjunct2 [OF a]
  note c = conjunct2 [OF b]
  note d = conjunct2 [OF c]
  note n = conjunct1 [OF c, rule_format]
  show "r \<in> set rows \<Longrightarrow> \<exists>key. row_item pk r = Inr key" by (rule conjunct1 [OF a, rule_format])
  show "r \<in> set rows \<Longrightarrow> row_item pk r = Inr key \<Longrightarrow> \<exists>c w'. es_after es pk key w = (Inr c, w') \<and> budget w' \<le> budget w"
    by (rule conjunct1 [OF b, rule_format])
  show "left c w rs \<Longrightarrow> es_next es c w = (Inr x, w') \<Longrightarrow> budget w' \<le> budget w" using n [of c w rs] by simp
  show "left c w rs \<Longrightarrow> es_next es c w = (Inl e, w')
      \<Longrightarrow> rs \<noteq> rows \<and> caught_by [ReqlTimeoutError, ReqlDriverError] e \<and> budget w' < budget w"
    using n [of c w rs] by (simp del: caught_by_single)
  show "\<exists>x w'. es_close es c w = (x, w') \<and> (case x of Inl e \<Rightarrow> caught_by [ReqlError] e | Inr _ \<Rightarrow> True) \<and> budget w' \<le> budget w"
    by (rule conjunct1 [OF d, rule_format])
  show "\<exists>w'. es_exit es w = (False, w') \<and> budget w' \<le> budget w" by (rule conjunct2 [OF d, rule_format])
qed

lemma while_running_runs:
  assumes "es_exit es (xs_world s) = (False, w)"
  shows "while_running es m s = m (s\<lparr>xs_world := w\<rparr>)"
  using assms by (simp add: while_running_def bind_def exit_set_def)

lemma queue_row_runs:
  assumes "es_exit es (xs_world s) = (False, w)" "row_item pk doc = Inr key"
  shows "\<exists>t. queue_row es pk doc n m m' s = m' key t \<and> xs_world t = w"
proof (cases "(n + 1) mod 20 = 0")
  case True
  let ?t = "s\<lparr>xs_world := w, xs_queue := xs_queue s @ [Some doc], xs_progress := (n + 1, snd (xs_progress s))\<rparr>"
  have "queue_row es pk doc n m m' s = m' key ?t"
    using assms True
    by (simp add: queue_row_def bind_def exit_set_def put_task_def lift_res_def set_progress_def case_prod_beta)
  then show ?thesis by (intro exI [of _ ?t]) simp
next
  case False
  then show ?thesis
    using assms by (auto simp: queue_row_def bind_def exit_set_def put_task_def lift_res_def ret_def)
qed

lemma set_up_again_runs:
  assumes "serves es pk rows left" "lets_read budget es pk rows left" "rows = d @ rest" "d \<noteq> []" "resumes_at pk d lst"
  shows "\<exists>c' t. set_up_again es pk c lst m s = m c' t \<and> left c' (xs_world t) rest \<and> budget (xs_world t) \<le> budget (xs_world s)"
proof -
  obtain d' r where d: "d = d' @ [r]" using assms(4) by (cases d rule: rev_cases) auto
  have r: "rows = d' @ r # rest" "r \<in> set rows" "row_item pk r = Inr lst" using assms(3,5) d by (simp_all add: resumes_at_def)
  obtain x w where x: "es_close es c (xs_world s) = (x, w)" "budget w \<le> budget (xs_world s)"
    "case x of Inl e \<Rightarrow> caught_by [ReqlError] e | Inr _ \<Rightarrow> True" using lets_readD(5) [OF assms(2)] by blast
  obtain c' w1 where c': "es_after es pk lst w = (Inr c', w1)" "budget w1 \<le> budget w"
    using lets_readD(2) [OF assms(2) r(2,3)] by blast
  obtain w2 where w2: "es_exit es w1 = (False, w2)" "budget w2 \<le> budget w1" using lets_readD(6) [OF assms(2)] by blast
  have "left c' w1 rest" by (rule servesD(3) [OF assms(1) r(1,3) c'(1)])
  then have l: "left c' w2 rest" using servesD(6) [OF assms(1), of c' w1 rest] w2(1) by simp
  have "set_up_again es pk c lst m s = m c' (s\<lparr>xs_world := w2\<rparr>)"
    using x c' w2 by (cases x) (simp_all add: set_up_again_def bind_def outcome_def on_server_def while_running_def exit_set_def ret_def
      del: caught_by_single)
  moreover have "budget w2 \<le> budget (xs_world s)" using x(2) c'(2) w2(2) by linarith
  ultimately show ?thesis using l by (intro exI [of _ c'] exI [of _ "s\<lparr>xs_world := w2\<rparr>"]) simp
qed

lemma export_rows_ends:
  assumes "serves es pk rows left" "lets_read budget es pk rows left"
  shows "left c (xs_world s) rest \<Longrightarrow> rows = d @ rest \<Longrightarrow> resumes_at pk d lst
     \<Longrightarrow> length rest + budget (xs_world s) < k \<Longrightarrow> \<exists>s'. export_rows k es pk c lst n s = (Inr ReadAll, s')"
proof (induction k arbitrary: c s rest d lst n)
  case (Suc k)
  obtain x w where x: "es_next es c (xs_world s) = (x, w)" by (cases "es_next es c (xs_world s)")
  let ?s = "s\<lparr>xs_world := w\<rparr>"
  show ?case
  proof (cases x)
    case (Inl e)
    then have e: "rest \<noteq> rows" "caught_by [ReqlTimeoutError, ReqlDriverError] e" "budget w < budget (xs_world s)"
      using lets_readD(4) [OF assms(2) Suc.prems(1), of e w] x by simp_all
    then have "d \<noteq> []" using Suc.prems(2) by auto
    from set_up_again_runs [OF assms Suc.prems(2) this Suc.prems(3), of c "\<lambda>c'. export_rows k es pk c' lst n" ?s]
    obtain c' t where t: "set_up_again es pk c lst (\<lambda>c'. export_rows k es pk c' lst n) ?s = export_rows k es pk c' lst n t"
      "left c' (xs_world t) rest" "budget (xs_world t) \<le> budget w" by auto
    then obtain s' where "export_rows k es pk c' lst n t = (Inr ReadAll, s')"
      using Suc.IH [OF t(2) Suc.prems(2,3)] Suc.prems(4) e(3) by fastforce
    then show ?thesis using x Inl e(2) t(1) by (simp add: bind_def outcome_def on_server_def del: caught_by_single)
  next
    case (Inr y)
    have b: "budget w \<le> budget (xs_world s)" using lets_readD(3) [OF assms(2) Suc.prems(1)] x Inr by blast
    show ?thesis
    proof (cases y)
      case None
      then show ?thesis using x Inr by (simp add: bind_def outcome_def on_server_def set_progress_def ret_def)
    next
      case (Some doc)
      obtain rest' where r: "rest = doc # rest'" "left c w rest'"
        using servesD(5) [OF assms(1) Suc.prems(1)] x Inr Some by blast
      obtain key where key: "row_item pk doc = Inr key" using lets_readD(1) [OF assms(2), of doc] Suc.prems(2) r(1) by auto
      obtain w' where w': "es_exit es w = (False, w')" "budget w' \<le> budget w" using lets_readD(6) [OF assms(2)] by blast
      obtain t where t: "queue_row es pk doc n (export_rows k es pk c lst n) (\<lambda>key. export_rows k es pk c key (n + 1)) ?s
          = export_rows k es pk c key (n + 1) t" "xs_world t = w'"
        using queue_row_runs [of es ?s w' pk doc key n "export_rows k es pk c lst n" "\<lambda>key. export_rows k es pk c key (n + 1)"] w'(1) key by auto
      have "left c (xs_world t) rest'" using servesD(6) [OF assms(1) r(2)] w'(1) t(2) by simp
      then obtain s' where "export_rows k es pk c key (n + 1) t = (Inr ReadAll, s')"
        using Suc.IH [of c t rest' "d @ [doc]" key] Suc.prems(2,4) r(1) t(2) key b w'(2) by (auto simp: resumes_at_def)
      then show ?thesis using x Inr Some t(1) by (simp add: bind_def outcome_def on_server_def)
    qed
  qed
qed simp

text \<open>A query that is answered, within the budget.\<close>

definition answers :: "('w \<Rightarrow> nat) \<Rightarrow> ('a \<Rightarrow> bool) \<Rightarrow> ('w, error, 'a) comp \<Rightarrow> bool" where
  "answers budget P m \<longleftrightarrow> (\<forall>w. \<exists>x w'. m w = (Inr x, w') \<and> P x \<and> budget w' \<le> budget w)"

definition answers_all :: "('w \<Rightarrow> nat) \<Rightarrow> ('w, 'c) export_server \<Rightarrow> json \<Rightarrow> bool" where
  "answers_all budget es pk \<longleftrightarrow>
     answers budget (\<lambda>v. is_ok (check_version [2, 3, 7] False v)) (es_version es)
     \<and> answers budget (\<lambda>_. True) (es_info es) \<and> answers budget (\<lambda>_. True) (es_indexes es)
     \<and> answers budget (\<lambda>_. True) (es_hook es) \<and> (\<forall>path t. answers budget (\<lambda>_. True) (es_write es path t))
     \<and> answers budget (\<lambda>_. True) (es_cursor es pk)"

lemma answers_allD:
  assumes "answers_all budget es pk"
  shows "answers budget (\<lambda>_. True) (es_write es path t)" "answers budget (\<lambda>_. True) (es_cursor es pk)"
  using assms by (simp_all add: answers_all_def)

lemma on_server_answers:
  assumes "answers budget P m"
  shows "\<exists>x w. on_server m s = (Inr x, s\<lparr>xs_world := w\<rparr>) \<and> m (xs_world s) = (Inr x, w) \<and> P x \<and> budget w \<le> budget (xs_world s)"
proof -
  obtain x w where "m (xs_world s) = (Inr x, w)" "P x" "budget w \<le> budget (xs_world s)" using assms unfolding answers_def by blast
  then show ?thesis by (intro exI [of _ x] exI [of _ w]) (simp add: on_server_def)
qed

lemma info_answers:
  assumes "answers_all budget es pk" "has_key es pk"
  shows "\<exists>info t. info_row es hooks s = (Inr info, t) \<and> table_facts pk info \<and> budget (xs_world t) \<le> budget (xs_world s)"
proof -
  obtain i w where i: "on_server (es_info es) s = (Inr i, s\<lparr>xs_world := w\<rparr>)" "budget w \<le> budget (xs_world s)"
    "es_info es (xs_world s) = (Inr i, w)"
    using assms(1) on_server_answers [of budget _ "es_info es" s] unfolding answers_all_def by blast
  let ?s = "s\<lparr>xs_world := w\<rparr>"
  obtain ixs w1 where x: "on_server (es_indexes es) ?s = (Inr ixs, ?s\<lparr>xs_world := w1\<rparr>)" "budget w1 \<le> budget (xs_world ?s)"
    using assms(1) on_server_answers [of budget _ "es_indexes es" ?s] unfolding answers_all_def by blast
  let ?t = "?s\<lparr>xs_world := w1, xs_sindexes := xs_sindexes s + int (length ixs)\<rparr>"
  obtain h w2 where h: "on_server (es_hook es) ?t = (Inr h, ?t\<lparr>xs_world := w2\<rparr>)" "budget w2 \<le> budget (xs_world ?t)"
    using assms(1) on_server_answers [of budget _ "es_hook es" ?t] unfolding answers_all_def by blast
  have k: "map_of i ''primary_key'' = Some pk" using assms(2) i(3) unfolding has_key_def by blast
  then have f: "table_facts pk (dict_put i ''indexes'' (JArr ixs))"
    "table_facts pk (dict_put (dict_put i ''indexes'' (JArr ixs)) ''write_hook'' h)"
    by (auto simp: table_facts_def map_of_dict_put)
  show ?thesis
  proof (cases hooks)
    case True
    then have "\<exists>t. info_row es hooks s = (Inr (dict_put (dict_put i ''indexes'' (JArr ixs)) ''write_hook'' h), t) \<and> xs_world t = w2"
      using i(1) x(1) h(1) by (simp add: info_row_def bind_def add_sindexes_def add_hook_def ret_def)
    then show ?thesis using f(2) i(2) x(2) h(2) by fastforce
  next
    case False
    then have "info_row es hooks s = (Inr (dict_put i ''indexes'' (JArr ixs)), ?t)"
      using i(1) x(1) by (simp add: info_row_def bind_def add_sindexes_def ret_def)
    then show ?thesis using f(1) i(2) x(2) by fastforce
  qed
qed

lemma export_body_ends:
  assumes "serves es pk rows left" "lets_read budget es pk rows left" "answers_all budget es pk" "has_key es pk"
    and "format \<in> {''json'', ''csv'', ''ndjson''}" "length rows + budget (xs_world s) < fuel"
  shows "\<exists>s'. export_body fuel es hooks format dir db table s = (Inr ReadAll, s')"
proof -
  obtain info t where i: "info_row es hooks s = (Inr info, t)" "table_facts pk info" "budget (xs_world t) \<le> budget (xs_world s)"
    using info_answers [OF assms(3,4)] by blast
  let ?put = "es_write es (path_join (path_join dir db) (table @ ''.info'')) (json_dumps (JObj info) @ [LF])"
  obtain w where w: "on_server ?put t = (Inr (), t\<lparr>xs_world := w\<rparr>)" "budget w \<le> budget (xs_world t)"
    using on_server_answers [OF answers_allD(1) [OF assms(3)], of _ _ t] by auto
  obtain ixs where f: "row_item (JStr ''indexes'') info = Inr (JArr ixs)" "row_item (JStr ''primary_key'') info = Inr pk"
    using i(2) by (auto simp: table_facts_def item_of)
  obtain path where path: "table_file format dir db table = Inr path" using assms(5) by (simp add: table_file_def)
  define u where "u = t\<lparr>xs_world := w, xs_sindexes := xs_sindexes t + int (length ixs), xs_writer := Some path\<rparr>"
  obtain c w1 where c: "on_server (es_cursor es pk) u = (Inr c, u\<lparr>xs_world := w1\<rparr>)" "es_cursor es pk (xs_world u) = (Inr c, w1)"
    "budget w1 \<le> budget (xs_world u)"
    using on_server_answers [OF answers_allD(2) [OF assms(3)], of u] by blast
  obtain w2 where x: "es_exit es w1 = (False, w2)" "budget w2 \<le> budget w1" using lets_readD(6) [OF assms(2)] by blast
  have "left c w1 rows" by (rule servesD(1) [OF assms(1) c(2)])
  then have l: "left c w2 rows" using servesD(6) [OF assms(1)] x(1) by (metis snd_conv)
  have "length rows + budget w2 < fuel" using assms(6) i(3) w(2) c(3) x(2) by (simp add: u_def)
  then obtain s' where "export_rows fuel es pk c JNull 0 (u\<lparr>xs_world := w2\<rparr>) = (Inr ReadAll, s')"
    using export_rows_ends [OF assms(1,2), of c "u\<lparr>xs_world := w2\<rparr>" rows "[]" JNull fuel 0] l by (auto simp: resumes_at_def)
  then have "while_running es (export_rows fuel es pk c JNull 0) (u\<lparr>xs_world := w1\<rparr>) = (Inr ReadAll, s')"
    using while_running_runs [of es "u\<lparr>xs_world := w1\<rparr>" w2] x(1) by simp
  then show ?thesis
    using i(1) w(1) f path c(1)
    by (simp add: export_body_def bind_def lift_res_def add_sindexes_def start_writer_def u_def del: json_dumps.simps)
qed

lemma export_table_ends:
  assumes "serves es pk rows left" "lets_read budget es pk rows left" "answers_all budget es pk" "has_key es pk"
    and "format \<in> {''json'', ''csv'', ''ndjson''}" "length rows + budget (xs_world s) < fuel"
    and "xs_queue s = []" "xs_errors s = []" "xs_writer s = None"
  shows "\<exists>s'. export_table fuel es format dir db table s = (Inr (Some ReadAll), s')
     \<and> xs_queue s' = map Some rows @ [None] \<and> xs_errors s' = []"
proof -
  obtain v w where v: "on_server (es_version es) s = (Inr v, s\<lparr>xs_world := w\<rparr>)" "is_ok (check_version [2, 3, 7] False v)"
    "budget w \<le> budget (xs_world s)"
    using assms(3) on_server_answers [of budget _ "es_version es" s] unfolding answers_all_def by blast
  obtain hooks where h: "check_version [2, 3, 7] False v = Inr hooks" using v(2) by (auto simp: is_ok_iff)
  obtain t where t: "export_body fuel es hooks format dir db table (s\<lparr>xs_world := w\<rparr>) = (Inr ReadAll, t)"
    using export_body_ends [OF assms(1-5), of "s\<lparr>xs_world := w\<rparr>" fuel hooks dir db table] assms(6) v(3) by auto
  obtain s' where s': "export_table fuel es format dir db table s = (Inr (Some ReadAll), s')"
    using v(1) h t
    by (cases "xs_writer t") (auto simp: export_table_def bind_def lift_res_def outcome_def ret_def put_task_def)
  then show ?thesis using export_table_reads [OF assms(1,4) assms(7-9) s'] by blast
qed

text \<open>C21. An export of a table is completed: with a server that answers, whose cursors fail a bounded number of
  times with connection errors, never before the first row, the whole table is queued, in order, with the
  end marked and nothing reported.\<close>

theorem export_completes:
  assumes "serves es pk rows left" "lets_read budget es pk rows left" "answers_all budget es pk" "has_key es pk"
    and "format \<in> {''json'', ''csv'', ''ndjson''}" "length rows + budget (xs_world s) < fuel"
    and "xs_queue s = []" "xs_errors s = []" "xs_writer s = None"
  shows "\<exists>s'. export_table fuel es format dir db table s = (Inr (Some ReadAll), s')
     \<and> xs_queue s' = map Some rows @ [None] \<and> xs_errors s' = []"
  by (rule export_table_ends [OF assms])

text \<open>A table with two rows; the world is how often a cursor will fail before the second row, and where the
  cursor is.\<close>

definition two_rows :: "row list" where
  "two_rows = [[(''id'', JStr ''a'')], [(''id'', JStr ''b'')]]"

definition two_server :: "(nat \<times> nat, unit) export_server" where
  "two_server = \<lparr>es_version = ret ''rethinkdb 2.4.0'', es_info = ret [(''primary_key'', JStr ''id'')], es_indexes = ret [],
     es_hook = ret JNull, es_write = \<lambda>p t. ret (), es_cursor = \<lambda>pk (f, p). (Inr (), (f, 0)),
     es_after = \<lambda>pk key (f, p). (Inr (), (f, if key = JStr ''a'' then 1 else if key = JStr ''b'' then 2 else 0)),
     es_next = \<lambda>c (f, p). if p = 1 \<and> 0 < f then (Inl (driver_error ''Connection is closed.''), (f - 1, p))
       else if p < 2 then (Inr (Some (two_rows ! p)), (f, p + 1)) else (Inr None, (f, p)),
     es_close = \<lambda>c w. (Inl (driver_error ''Connection is closed.''), w), es_exit = \<lambda>w. (False, w)\<rparr>"

definition two_left :: "unit \<Rightarrow> nat \<times> nat \<Rightarrow> row list \<Rightarrow> bool" where
  "two_left c w rs \<longleftrightarrow> rs = drop (snd w) two_rows"

lemma two_rows_cases: "two_rows = pre @ r # post
  \<longleftrightarrow> pre = [] \<and> r = two_rows ! 0 \<and> post = drop 1 two_rows \<or> pre = [two_rows ! 0] \<and> r = two_rows ! 1 \<and> post = []"
  by (cases pre; cases "tl pre") (auto simp: two_rows_def)

lemma two_rows_keys [simp]:
  "row_item (JStr ''id'') (two_rows ! 0) = Inr (JStr ''a'')" "row_item (JStr ''id'') (two_rows ! 1) = Inr (JStr ''b'')"
  by (simp_all add: two_rows_def row_item_def answer_item_def)

lemma two_serves: "serves two_server (JStr ''id'') two_rows two_left"
proof -
  have d: "rs = drop p two_rows \<Longrightarrow> p < 2 \<Longrightarrow> rs = two_rows ! p # drop (Suc p) two_rows" for rs p
    using Cons_nth_drop_Suc [of p two_rows] by (simp add: two_rows_def)
  have e: "\<not> p < 2 \<Longrightarrow> drop p two_rows = []" for p by (simp add: two_rows_def)
  have l: "drop 2 two_rows = []" "drop 0 two_rows = two_rows" by (simp_all add: two_rows_def)
  have keys: "two_rows = pre @ r # post \<Longrightarrow> row_item (JStr ''id'') r = Inr key
      \<Longrightarrow> post = drop (if key = JStr ''a'' then 1 else if key = JStr ''b'' then 2 else 0) two_rows" for pre r post key
    using l by (auto simp: two_rows_cases simp del: One_nat_def split: if_splits)
  show ?thesis unfolding serves_def
  proof (intro conjI allI impI)
    fix c :: unit and w x w' and rs :: "row list"
    assume "two_left c w rs" "es_next two_server c w = (Inr x, w')"
    then show "case x of None \<Rightarrow> rs = [] | Some r \<Rightarrow> \<exists>rs'. rs = r # rs' \<and> two_left c w' rs'"
      using d e by (cases w) (auto simp: two_server_def two_left_def split: if_splits)
  next
    fix pre r post key w c w'
    assume "two_rows = pre @ r # post" "row_item (JStr ''id'') r = Inr key" "es_after two_server (JStr ''id'') key w = (Inr c, w')"
    then show "two_left c w' post" using keys by (cases w) (auto simp: two_server_def two_left_def)
  qed (auto simp: two_server_def two_left_def)
qed

lemma two_lets_read: "lets_read fst two_server (JStr ''id'') two_rows two_left"
proof -
  have c: "caught_by [ReqlTimeoutError, ReqlDriverError] (driver_error ''Connection is closed.'')"
    "caught_by [ReqlError] (driver_error ''Connection is closed.'')" by code_simp+
  have n: "drop (Suc 0) two_rows \<noteq> two_rows" by (simp add: two_rows_def)
  have k: "\<forall>r \<in> set two_rows. \<exists>key. row_item (JStr ''id'') r = Inr key"
    by (simp add: two_rows_def row_item_def answer_item_def)
  show ?thesis unfolding lets_read_def
  proof (intro conjI allI impI k)
    fix c :: unit and w rs
    assume "two_left c w rs"
    then show "case es_next two_server c w of (Inl e, w') \<Rightarrow> rs \<noteq> two_rows \<and> caught_by [ReqlTimeoutError, ReqlDriverError] e \<and> fst w' < fst w
        | (Inr _, w') \<Rightarrow> fst w' \<le> fst w"
      using c n by (cases w) (auto simp: two_server_def two_left_def simp del: caught_by_single)
  qed (use c in \<open>auto simp: two_server_def simp del: caught_by_single\<close>)
qed

lemma two_answers: "answers_all fst two_server (JStr ''id'')" "has_key two_server (JStr ''id'')"
proof -
  have "is_ok (check_version [2, 3, 7] False ''rethinkdb 2.4.0'')" by code_simp
  then show "answers_all fst two_server (JStr ''id'')"
    by (auto simp: answers_all_def answers_def two_server_def ret_def)
  show "has_key two_server (JStr ''id'')" by (auto simp: has_key_def two_server_def ret_def)
qed

definition new_exporter :: "'w \<Rightarrow> 'w exporter" where
  "new_exporter w = \<lparr>xs_world = w, xs_queue = [], xs_progress = (0, 0), xs_sindexes = 0, xs_hooks = 0, xs_errors = [], xs_writer = None\<rparr>"

theorem export_completes_witness:
  "\<exists>s'. export_table 9 two_server ''json'' ''o'' ''d'' ''t'' (new_exporter (3, 0)) = (Inr (Some ReadAll), s')
     \<and> xs_queue s' = map Some two_rows @ [None] \<and> xs_errors s' = []"
proof (rule export_completes [OF two_serves two_lets_read two_answers])
  show "length two_rows + fst (xs_world (new_exporter (3, 0))) < (9 :: nat)" by (simp add: two_rows_def new_exporter_def)
qed (simp_all add: new_exporter_def)

theorem export_reads_table_witness:
  "prefix (taken (xs_queue (snd (export_table 2 two_server ''json'' ''o'' ''d'' ''t'' (new_exporter (3, 0)))))) two_rows"
  by (metis export_reads_table [OF two_serves two_answers(2), of "new_exporter (3, 0)" 2 "''json''" "''o''" "''d''" "''t''"]
      new_exporter_def exporter.select_convs(2,6,7) prod.collapse)

theorem info_file_round_trip_witness:
  "\<exists>ixs. map_of [(''primary_key'', JStr ''id''), (''indexes'', JArr [])] ''indexes'' = Some ixs
     \<and> parse_info False (json_dumps (JObj [(''primary_key'', JStr ''id''), (''indexes'', JArr [])]) @ [LF])
       = Inr (JStr ''id'', ixs, default_to JNull (map_of [(''primary_key'', JStr ''id''), (''indexes'', JArr [])] ''write_hook''))"
  by (rule info_file_round_trip) (simp_all add: table_facts_def)

subsection \<open>What goes unnoticed\<close>

text \<open>The version of the server is asked for outside of the \<open>try\<close>: when that fails, the process ends with the
  exception, and there is no file, no writer and nothing on the queue of errors by which the parent process
  would know.\<close>

theorem version_failure_unreported:
  assumes "es_version es (xs_world s) = (Inl e, w)"
  shows "export_table fuel es format dir db table s = (Inl e, s\<lparr>xs_world := w\<rparr>)"
  using assms by (simp add: export_table_def bind_def on_server_def)

theorem version_failure_unreported_witness:
  "export_table 9 (two_server\<lparr>es_version := raise (driver_error ''Connection is closed.'')\<rparr>) ''json'' ''o'' ''d'' ''t'' (new_exporter (0, 0))
     = (Inl (driver_error ''Connection is closed.''), (new_exporter (0, 0))\<lparr>xs_world := (0, 0)\<rparr>)"
  by (rule version_failure_unreported) (simp add: raise_def new_exporter_def)

text \<open>The counter of secondary indexes, which the command prints, is raised twice for each index.\<close>

lemma indexes_counted_twice:
  assumes "es_info es (xs_world s) = (Inr info, w1)" "es_indexes es w1 = (Inr ixs, w2)"
    and "es_write es (path_join (path_join dir db) (table @ ''.info'')) (json_dumps (JObj (dict_put info ''indexes'' (JArr ixs))) @ [LF]) w2
      = (Inr (), w3)"
    and "table_file format dir db table = Inl e"
  shows "export_body fuel es False format dir db table s
     = (Inl e, s\<lparr>xs_world := w3, xs_sindexes := xs_sindexes s + 2 * int (length ixs)\<rparr>)"
  using assms
  by (simp add: export_body_def info_row_def bind_def on_server_def add_sindexes_def ret_def lift_res_def item_of map_of_dict_put
      del: json_dumps.simps)

subsection \<open>The tables that are exported\<close>

definition can_be_exported :: "(string \<times> string) list \<Rightarrow> string list \<Rightarrow> db_table \<Rightarrow> bool" where
  "can_be_exported tables dbs x =
     (case x of (db, t) \<Rightarrow> db \<noteq> ''rethinkdb'' \<and> db \<in> set dbs \<and> (case t of None \<Rightarrow> True | Some t \<Rightarrow> (db, t) \<in> set tables))"

lemma chosen_for_export_ok:
  "is_ok (chosen_for_export tables dbs ts) = list_all (can_be_exported tables dbs) ts"
  "chosen_for_export tables dbs ts = Inr s \<Longrightarrow>
     s = {(db, t) \<in> set tables. list_ex (\<lambda>(d, t'). d = db \<and> (t' = None \<or> t' = Some t)) ts}"
  by (induction tables dbs ts arbitrary: s rule: chosen_for_export.induct)
    (auto split: option.splits if_splits simp: can_be_exported_def res_simps)

text \<open>\<open>rethinkdb export\<close> exports what it is told to: it accepts its options unless one names the system
  database, or a database or a table that is not there; the tables are then those of the server that
  an option names, by themselves or with their database, or all when there is no option.\<close>

theorem exports_what_is_chosen:
  "is_ok (tables_to_export tables dbs ts) = list_all (can_be_exported tables dbs) ts
     \<and> (case tables_to_export tables dbs ts of
          Inr s \<Rightarrow> s = {(db, t) \<in> set tables. chosen ts db t}
        | Inl e \<Rightarrow> True)"
  using chosen_for_export_ok [of tables dbs ts]
  by (cases "ts = []") (auto simp: tables_to_export_def chosen_def split: sum.split)

end
