(* ===== verification/ExportClients.thy ===== *)
theory ExportClients
  imports ExportTable
begin

text \<open>
  How \<open>rethinkdb export\<close> has its tables exported: the loop of \<open>run_clients\<close> in \<open>rethinkdb/_export.py\<close>, which
  starts a process for each table, not more than a number of them at once, until all have ended.
  What the processes do meanwhile is a list of turns: the errors they put on the queue before the
  loop empties it, those they put after that, and which of them are alive when the loop looks.
\<close>

subsection \<open>The loop\<close>

record 'a clients =
  rc_waiting :: "'a list"
  rc_running :: "'a list"
  rc_queue :: "error list"
  rc_errors :: "error list"
  rc_exit :: bool
  rc_started :: "'a list"

record 'a clients_turn =
  tn_before :: "error list"
  tn_after :: "error list"
  tn_alive :: "'a \<Rightarrow> bool"

definition drain_errors :: "'a clients_turn \<Rightarrow> 'a clients \<Rightarrow> 'a clients" where
  "drain_errors t s =
     (let found = rc_queue s @ tn_before t in
      s\<lparr>rc_queue := tn_after t, rc_errors := rc_errors s @ found, rc_exit := rc_exit s \<or> found \<noteq> []\<rparr>)"

definition start_next :: "int \<Rightarrow> 'a clients_turn \<Rightarrow> 'a clients \<Rightarrow> 'a clients" where
  "start_next n t s =
     (let alive = filter (tn_alive t) (rc_running s) in
      case rc_waiting s of
        a # as \<Rightarrow>
          if int (length alive) < n
          then s\<lparr>rc_waiting := as, rc_running := alive @ [a], rc_started := rc_started s @ [a]\<rparr>
          else s\<lparr>rc_running := alive\<rparr>
      | [] \<Rightarrow> s\<lparr>rc_running := alive\<rparr>)"

fun run_clients :: "int \<Rightarrow> 'a clients_turn list \<Rightarrow> 'a clients \<Rightarrow> 'a clients option" where
  "run_clients n ts s =
     (if rc_running s = [] \<and> rc_waiting s = [] then Some s
      else case ts of
        [] \<Rightarrow> None
      | t # ts' \<Rightarrow> run_clients n ts' (start_next n t (drain_errors t s)))"

declare run_clients.simps [simp del]

definition new_clients :: "'a list \<Rightarrow> 'a clients" where
  "new_clients tables = \<lparr>rc_waiting = tables, rc_running = [], rc_queue = [], rc_errors = [], rc_exit = False, rc_started = []\<rparr>"

text \<open>How the command goes on.\<close>

definition clients_outcome :: "bool \<Rightarrow> 'a clients \<Rightarrow> error + unit" where
  "clients_outcome intr s =
     (if intr then Inl (py_exc PyRuntimeError ''Interrupted'')
      else if rc_errors s \<noteq> [] then Inl (py_exc PyRuntimeError ''Errors occurred during export'')
      else Inr ())"

subsection \<open>Every table, and never too many at once\<close>

text \<open>The tables in the order they are started; the processes that run are some of them.\<close>

definition in_order :: "int \<Rightarrow> 'a list \<Rightarrow> 'a clients \<Rightarrow> bool" where
  "in_order n tables s \<longleftrightarrow> rc_started s @ rc_waiting s = tables \<and> int (length (rc_running s)) \<le> n
     \<and> subseq (rc_running s) (rc_started s)"

lemma turn_in_order:
  assumes "in_order n tables s"
  shows "in_order n tables (start_next n t (drain_errors t s))"
proof -
  let ?alive = "filter (tn_alive t) (rc_running s)"
  have "length ?alive \<le> length (rc_running s)" "subseq ?alive (rc_running s)" by simp_all
  then have "int (length ?alive) \<le> n" "subseq ?alive (rc_started s)"
    using assms unfolding in_order_def by (linarith, meson subseq_order.trans)
  then show ?thesis
    using assms by (auto simp: in_order_def start_next_def drain_errors_def Let_def list_emb_append_mono split: list.splits)
qed

fun states_of :: "int \<Rightarrow> 'a clients_turn list \<Rightarrow> 'a clients \<Rightarrow> 'a clients list" where
  "states_of n [] s = [s]"
| "states_of n (t # ts) s = s # states_of n ts (start_next n t (drain_errors t s))"

lemma states_in_order: "in_order n tables s \<Longrightarrow> \<forall>u \<in> set (states_of n ts s). in_order n tables u"
  by (induction n ts s rule: states_of.induct) (auto intro: turn_in_order)

definition put_by :: "'a clients_turn list \<Rightarrow> error list" where
  "put_by ts = concat (map (\<lambda>t. tn_before t @ tn_after t) ts)"

lemma drain_keeps:
  "rc_errors (start_next n t (drain_errors t s)) = rc_errors s @ rc_queue s @ tn_before t"
  "rc_queue (start_next n t (drain_errors t s)) = tn_after t"
  by (auto simp: start_next_def drain_errors_def Let_def split: list.split)

lemma run_clients_ends:
  assumes "run_clients n ts s = Some s'" "in_order n tables s"
  shows "rc_started s' = tables \<and> (\<exists>k. rc_errors s' @ rc_queue s' = rc_errors s @ rc_queue s @ put_by (take k ts)
     \<and> rc_queue s' = (if k = 0 then rc_queue s else tn_after (ts ! (k - 1))) \<and> k \<le> length ts)"
  using assms
proof (induction ts arbitrary: s)
  case Nil
  then show ?case by (subst (asm) run_clients.simps) (auto simp: in_order_def put_by_def split: if_splits)
next
  case (Cons t ts)
  show ?case
  proof (cases "rc_running s = [] \<and> rc_waiting s = []")
    case True
    then have "s' = s" using Cons.prems(1) by (subst (asm) run_clients.simps) simp
    then show ?thesis using True Cons.prems(2) by (intro conjI exI [of _ 0]) (auto simp: in_order_def put_by_def)
  next
    case False
    let ?s = "start_next n t (drain_errors t s)"
    have r: "run_clients n ts ?s = Some s'"
      using Cons.prems(1) unfolding run_clients.simps [of n "t # ts"] if_not_P [OF False] by simp
    obtain k where k: "rc_started s' = tables" "rc_errors s' @ rc_queue s' = rc_errors ?s @ rc_queue ?s @ put_by (take k ts)"
      "rc_queue s' = (if k = 0 then rc_queue ?s else tn_after (ts ! (k - 1)))" "k \<le> length ts"
      using Cons.IH [OF r turn_in_order [OF Cons.prems(2)]] by blast
    then show ?thesis
      by (intro conjI exI [of _ "Suc k"]) (auto simp: drain_keeps put_by_def)
  qed
qed

text \<open>C32. \<open>rethinkdb export\<close> has every table exported: at no time do more than \<open>clients\<close> processes run, and all
  of them are of tables that have been started; when the loop ends, all tables have been started, in
  order and each once; and the command fails when an error was found on the queue, so with any
  error that a process put before the queue was last looked at.\<close>

theorem clients_export_all:
  assumes "0 \<le> n"
  shows "(\<forall>u \<in> set (states_of n ts (new_clients tables)). int (length (rc_running u)) \<le> n \<and> subseq (rc_running u) (rc_started u))
     \<and> (case run_clients n ts (new_clients tables) of
          None \<Rightarrow> True
        | Some s \<Rightarrow> rc_started s = tables
            \<and> (is_ok (clients_outcome False s) \<longleftrightarrow> rc_errors s = [])
            \<and> (\<exists>k. rc_errors s @ rc_queue s = put_by (take k ts) \<and> rc_queue s = (if k = 0 then [] else tn_after (ts ! (k - 1)))))"
proof -
  have i: "in_order n tables (new_clients tables)" using assms by (simp add: in_order_def new_clients_def)
  have o: "is_ok (clients_outcome False s) \<longleftrightarrow> rc_errors s = []" for s :: "'a clients"
    by (simp add: clients_outcome_def)
  have e: "rc_started s = tables \<and> (\<exists>k. rc_errors s @ rc_queue s = put_by (take k ts) \<and> rc_queue s = (if k = 0 then [] else tn_after (ts ! (k - 1))))"
    if "run_clients n ts (new_clients tables) = Some s" for s
    proof -
    have e: "rc_errors (new_clients tables) = []" "rc_queue (new_clients tables) = []" by (simp_all add: new_clients_def)
    show ?thesis using run_clients_ends [OF that i] unfolding e append_Nil by blast
  qed
  have "\<forall>u \<in> set (states_of n ts (new_clients tables)). int (length (rc_running u)) \<le> n \<and> subseq (rc_running u) (rc_started u)"
    using states_in_order [OF i, of ts] unfolding in_order_def by blast
  then show ?thesis
  proof (rule conjI)
    show "case run_clients n ts (new_clients tables) of
          None \<Rightarrow> True
        | Some s \<Rightarrow> rc_started s = tables
            \<and> (is_ok (clients_outcome False s) \<longleftrightarrow> rc_errors s = [])
            \<and> (\<exists>k. rc_errors s @ rc_queue s = put_by (take k ts) \<and> rc_queue s = (if k = 0 then [] else tn_after (ts ! (k - 1))))"
    proof (cases "run_clients n ts (new_clients tables)")
      case (Some s)
      then show ?thesis using e [OF Some] unfolding Some option.case o by blast
    qed simp
  qed
qed

theorem clients_export_all_witness:
  "int (length (rc_running (new_clients [''t'']))) \<le> 1
     \<and> run_clients 1 [\<lparr>tn_before = [], tn_after = [], tn_alive = \<lambda>t. True\<rparr>, \<lparr>tn_before = [], tn_after = [], tn_alive = \<lambda>t. False\<rparr>]
         (new_clients [''t'']) \<noteq> None"
proof
  show "int (length (rc_running (new_clients [''t'']))) \<le> 1"
    using clients_export_all [of 1 "[]" "[''t'']"] by simp
  show "run_clients 1 [\<lparr>tn_before = [], tn_after = [], tn_alive = \<lambda>t. True\<rparr>, \<lparr>tn_before = [], tn_after = [], tn_alive = \<lambda>t. False\<rparr>]
         (new_clients [''t'']) \<noteq> None"
    by (simp add: run_clients.simps new_clients_def start_next_def drain_errors_def)
qed

subsection \<open>An error that comes late\<close>

text \<open>An error can be lost: when the last process puts its error on the queue after the loop has emptied it
  and has ended by the time the loop looks for it, the loop is over with the error still on the queue,
  and the command goes on as if the export had succeeded.\<close>

theorem late_error_lost:
  "\<exists>s. run_clients 1 [\<lparr>tn_before = [], tn_after = [], tn_alive = \<lambda>t. True\<rparr>, \<lparr>tn_before = [], tn_after = [e], tn_alive = \<lambda>t. False\<rparr>]
         (new_clients [table]) = Some s
     \<and> rc_started s = [table] \<and> rc_queue s = [e] \<and> clients_outcome False s = Inr ()"
  by (simp add: run_clients.simps new_clients_def start_next_def drain_errors_def clients_outcome_def)

end
