(* ===== verification/Restore.thy ===== *)
theory Restore
  imports Sources Triples
begin

text \<open>
  Archives: what \<open>rethinkdb dump\<close> (\<open>rethinkdb/_dump.py\<close>) puts into one, and \<open>do_unzip\<close> of
  \<open>rethinkdb/_restore.py\<close>, which extracts it to a directory that is then imported.  An archive is the
  list of its entries as \<open>tarfile\<close> gives them, with how reading it ends; the current directory is
  a list of names, and \<open>os.path.realpath\<close> is the file system's.
\<close>

subsection \<open>Paths\<close>

abbreviation SEP :: char where
  "SEP \<equiv> CHR ''/''"

text \<open>White space that \<open>str.strip\<close> removes.\<close>

definition is_blank :: "char \<Rightarrow> bool" where
  "is_blank c \<longleftrightarrow> code_point c \<in> {9, 10, 11, 12, 13, 28, 29, 30, 31, 32, 133, 160}"

definition strip_blanks :: "string \<Rightarrow> string" where
  "strip_blanks s = rev (dropWhile is_blank (rev (dropWhile is_blank s)))"

definition path_parts :: "string \<Rightarrow> string list" where
  "path_parts p = filter (\<lambda>x. x \<noteq> []) (split_on SEP p)"

fun common_prefix :: "'a list \<Rightarrow> 'a list \<Rightarrow> nat" where
  "common_prefix (x # xs) (y # ys) = (if x = y then Suc (common_prefix xs ys) else 0)"
| "common_prefix xs ys = 0"

text \<open>\<open>os.path.relpath\<close> of an absolute path.\<close>

definition relpath :: "string list \<Rightarrow> string \<Rightarrow> string" where
  "relpath cwd p =
     (let ps = path_parts p; i = common_prefix cwd ps;
          rel = replicate (length cwd - i) ''..'' @ drop i ps
      in if rel = [] then ''.'' else join [SEP] rel)"

subsection \<open>Restoring\<close>

record entry =
  en_name :: string
  en_isfile :: bool
  en_data :: string

record unzip =
  uz_top :: string
  uz_ignored :: "string list"
  uz_found :: bool
  uz_files :: "(string, string) dict"

definition new_unzip :: unzip where
  "new_unzip = \<lparr>uz_top = [], uz_ignored = [], uz_found = False, uz_files = []\<rparr>"

definition unexpected_structure :: "string \<Rightarrow> error" where
  "unexpected_structure what = py_exc PyRuntimeError (''Error: Archive file has an unexpected directory structure'' @ what)"

definition ignore_entry :: "entry \<Rightarrow> (unzip, error, unit) comp" where
  "ignore_entry x s = (Inr (), s\<lparr>uz_ignored := uz_ignored s @ [en_name x]\<rparr>)"

definition check_top :: "string \<Rightarrow> (unzip, error, unit) comp" where
  "check_top t s =
     (if uz_top s = [] then (Inr (), s\<lparr>uz_top := t\<rparr>)
      else if t \<noteq> uz_top s then (Inl (unexpected_structure ('' ('' @ t @ '' vs '' @ uz_top s @ '')'')), s)
      else (Inr (), s))"

definition write_entry :: "string \<Rightarrow> string \<Rightarrow> (unzip, error, unit) comp" where
  "write_entry path d s = (Inr (), s\<lparr>uz_found := True, uz_files := dict_put (uz_files s) path d\<rparr>)"

definition entry_path :: "filesystem \<Rightarrow> string list \<Rightarrow> entry \<Rightarrow> string" where
  "entry_path fs cwd x = relpath cwd (fs_realpath fs (dropWhile (\<lambda>c. c = SEP) (strip_blanks (en_name x))))"

definition unzip_entry :: "filesystem \<Rightarrow> string list \<Rightarrow> db_table list \<Rightarrow> string \<Rightarrow> entry \<Rightarrow> (unzip, error, unit) comp" where
  "unzip_entry fs cwd wanted temp x =
     (let rel = entry_path fs cwd x in
      if \<not> en_isfile x then ret ()
      else if prefix ''..'' rel then ignore_entry x
      else if snd (splitext rel) \<notin> {''.json'', ''.csv'', ''.info''} then ignore_entry x
      else case split_on SEP rel of
        [t, db, name] \<Rightarrow>
          bind (check_top t) (\<lambda>_.
          if \<not> chosen wanted db (fst (splitext name)) then ret ()
          else write_entry (path_join (path_join temp db) name) (en_data x))
      | _ \<Rightarrow> raise (unexpected_structure ('': '' @ en_name x)))"

fun unzip_entries :: "filesystem \<Rightarrow> string list \<Rightarrow> db_table list \<Rightarrow> string \<Rightarrow> entry list \<Rightarrow> (unzip, error, unit) comp" where
  "unzip_entries fs cwd wanted temp [] = ret ()"
| "unzip_entries fs cwd wanted temp (x # xs) =
     bind (unzip_entry fs cwd wanted temp x) (\<lambda>_. unzip_entries fs cwd wanted temp xs)"

text \<open>\<open>do_unzip\<close>; the archive may turn out to be broken, which is an exception of \<open>tarfile\<close>.\<close>

definition do_unzip :: "filesystem \<Rightarrow> string list \<Rightarrow> db_table list \<Rightarrow> string \<Rightarrow> entry list \<Rightarrow> error option
    \<Rightarrow> (unzip, error, string list) comp" where
  "do_unzip fs cwd wanted temp xs broken =
     bind (unzip_entries fs cwd wanted temp xs) (\<lambda>_.
     bind (case broken of None \<Rightarrow> ret () | Some e \<Rightarrow> raise e) (\<lambda>_ s.
       if \<not> uz_found s then (Inl (py_exc PyRuntimeError ''Error: Archive file had no files''), s)
       else (Inr (uz_ignored s), s)))"

text \<open>How \<open>do_restore\<close> reports that the import failed.\<close>

definition restore_message :: "string \<Rightarrow> string" where
  "restore_message m =
     (if m = ''Warnings occurred during import'' then ''Warning: import did not create some secondary indexes.''
      else ''Error: import failed: '' @ (if prefix ''Error: '' m then drop 7 m else m))"

text \<open>The check of the options of \<open>rethinkdb restore\<close>: the archive, or standard input.\<close>

definition check_restore :: "filesystem \<Rightarrow> (string \<Rightarrow> bool) \<Rightarrow> string list \<Rightarrow> string option \<Rightarrow> error + string option" where
  "check_restore fs writable args temp =
     (case args of
        [] \<Rightarrow> Inl (option_error ''Archive to import not specified. Provide an archive file created by rethinkdb-dump.'')
      | [a] \<Rightarrow>
          rbind (refuse_if (a \<noteq> ''-'' \<and> \<not> fs_isfile fs a) (''Archive file does not exist: '' @ a)) (\<lambda>_.
          rbind (if given temp then refuse_all
              [(\<not> fs_isdir fs (the temp), ''Temporary directory doesn'' @ [CHR 0x27] @ ''t exist or is not a directory: '' @ the temp),
               (\<not> writable (the temp), ''Temporary directory inaccessible: '' @ the temp)] else Inr ()) (\<lambda>_.
          Inr (if a = ''-'' then None else Some (fs_realpath fs a))))
      | _ \<Rightarrow> Inl (option_error ''Only one positional argument supported''))"

subsection \<open>Dumping\<close>

text \<open>The entries \<open>rethinkdb dump\<close> makes of the files of its export, given as the names of their database
  and their own.\<close>

definition dump_entry :: "string \<Rightarrow> string \<times> string \<times> string \<Rightarrow> entry" where
  "dump_entry dump_name f =
     (case f of (db, name, d) \<Rightarrow> \<lparr>en_name = path_join dump_name (path_join db name), en_isfile = True, en_data = d\<rparr>)"

subsection \<open>Nothing is written elsewhere\<close>

text \<open>A name of a file or a directory, and a path with only such names.\<close>

definition plain :: "string \<Rightarrow> bool" where
  "plain x \<longleftrightarrow> x \<noteq> [] \<and> SEP \<notin> set x \<and> x \<noteq> ''.'' \<and> x \<noteq> ''..''"

definition inside :: "string \<Rightarrow> string \<Rightarrow> bool" where
  "inside dir p \<longleftrightarrow> (\<exists>db name. plain db \<and> plain name \<and> p = path_join (path_join dir db) name)"

text \<open>\<open>realpath\<close> gives a path without links and without \<open>.\<close> or \<open>..\<close>.\<close>

definition canonical :: "filesystem \<Rightarrow> bool" where
  "canonical fs \<longleftrightarrow> (\<forall>p. list_all (\<lambda>x. x \<noteq> ''.'' \<and> x \<noteq> ''..'') (path_parts (fs_realpath fs p)))"

lemma parts_plain: "canonical fs \<Longrightarrow> x \<in> set (path_parts (fs_realpath fs p)) \<Longrightarrow> plain x"
  using split_on_no_sep_parts [of x SEP "fs_realpath fs p"]
  by (auto simp: canonical_def plain_def list_all_iff path_parts_def)

lemma split_relpath:
  assumes "canonical fs" "\<not> prefix ''..'' (relpath cwd (fs_realpath fs p))" "split_on SEP (relpath cwd (fs_realpath fs p)) = [a, b, c]"
  shows "plain a \<and> plain b \<and> plain c"
proof -
  let ?ps = "path_parts (fs_realpath fs p)"
  let ?i = "common_prefix cwd ?ps"
  define rel where "rel = replicate (length cwd - ?i) ''..'' @ drop ?i ?ps"
  have r: "relpath cwd (fs_realpath fs p) = (if rel = [] then ''.'' else join [SEP] rel)"
    by (simp add: relpath_def Let_def rel_def)
  have ps: "\<forall>x \<in> set ?ps. plain x" using parts_plain [OF assms(1)] by blast
  have rel: "rel \<noteq> []" using assms(3) r by (auto split: if_splits)
  have "length cwd - ?i = 0"
  proof (rule ccontr)
    assume "length cwd - ?i \<noteq> 0"
    then obtain rel' where "rel = ''..'' # rel'" by (cases "length cwd - ?i") (auto simp: rel_def)
    then have "prefix ''..'' (join [SEP] rel)" by (cases rel') auto
    then show False using assms(2) r rel by simp
  qed
  then have d: "rel = drop ?i ?ps" by (simp add: rel_def)
  then have "\<forall>x \<in> set rel. plain x" using ps by (auto dest: in_set_dropD)
  moreover have "split_on SEP (join [SEP] rel) = rel"
    using calculation rel by (intro split_on_join) (auto simp: plain_def)
  ultimately show ?thesis using assms(3) r rel by auto
qed

definition all_inside :: "string \<Rightarrow> unzip \<Rightarrow> bool" where
  "all_inside dir s \<longleftrightarrow> list_all (inside dir) (map fst (uz_files s))"

lemma put_file_keys: "set (map fst (dict_put d k v)) \<subseteq> insert k (set (map fst d))"
  by (induction d k v rule: dict_put.induct) auto

lemma unzip_entry_inside:
  assumes "canonical fs"
  shows "keeps (all_inside temp) (unzip_entry fs cwd wanted temp x)"
proof -
  have i: "keeps (all_inside temp) (ignore_entry x)" and t: "keeps (all_inside temp) (check_top a)" for a
    by (auto intro!: keepsI simp: ignore_entry_def check_top_def all_inside_def split: if_splits)
  have w: "keeps (all_inside temp) (write_entry p d)" if "inside temp p" for p d
    using that put_file_keys by (fastforce intro!: keepsI simp: write_entry_def all_inside_def list_all_iff)
  show ?thesis
  proof (cases "\<exists>a db name. split_on SEP (entry_path fs cwd x) = [a, db, name]")
    case True
    then obtain a db name where s: "split_on SEP (entry_path fs cwd x) = [a, db, name]" by blast
    have "\<not> prefix ''..'' (entry_path fs cwd x) \<Longrightarrow> inside temp (path_join (path_join temp db) name)"
      using split_relpath [OF assms, of cwd _ a db name] s unfolding entry_path_def inside_def by blast
    then show ?thesis unfolding unzip_entry_def Let_def s
      by (auto intro!: keeps_intros i t w)
  next
    case False
    then show ?thesis unfolding unzip_entry_def Let_def
      by (auto intro!: keeps_intros i split: list.split)
  qed
qed

text \<open>C16. An archive cannot write outside of the temporary directory: whatever its entries are named, each file
  that is written, also when an error ends the extraction, is a file of a directory of it, with
  ordinary names.\<close>

theorem restore_stays_inside:
  assumes "canonical fs" "do_unzip fs cwd wanted temp xs broken new_unzip = (r, s)"
  shows "list_all (inside temp) (map fst (uz_files s))"
proof -
  have k: "keeps (all_inside temp) (unzip_entries fs cwd wanted temp xs)"
    by (induction xs) (auto intro!: keeps_intros unzip_entry_inside assms(1))
  have u: "keeps (all_inside temp) (do_unzip fs cwd wanted temp xs broken)" unfolding do_unzip_def
    by (intro keeps_bind [OF k] keeps_bind keeps_option keeps_ret keeps_raise) (auto intro: keepsI split: if_splits)
  have "all_inside temp new_unzip" by (simp add: all_inside_def new_unzip_def)
  from keepsD [OF u this assms(2)] show ?thesis by (simp add: all_inside_def)
qed

subsection \<open>A dump is restored\<close>

text \<open>In the current directory a path of ordinary names is what it says.\<close>

definition no_links :: "filesystem \<Rightarrow> string list \<Rightarrow> bool" where
  "no_links fs cwd \<longleftrightarrow> (\<forall>ps. ps \<noteq> [] \<longrightarrow> list_all plain ps \<longrightarrow> path_parts (fs_realpath fs (join [SEP] ps)) = cwd @ ps)"

lemma common_prefix_append [simp]: "common_prefix xs (xs @ ys) = length xs"
  by (induction xs) (cases ys, simp_all)

lemma relpath_plain:
  assumes "no_links fs cwd" "ps \<noteq> []" "list_all plain ps"
  shows "relpath cwd (fs_realpath fs (join [SEP] ps)) = join [SEP] ps"
  using assms by (simp add: no_links_def relpath_def Let_def)

lemma no_sep: "SEP \<notin> set name \<Longrightarrow> \<forall>c \<in> set (rev name). c \<noteq> SEP"
  by auto

lemma basename_path: "SEP \<notin> set name \<Longrightarrow> basename (path_join a name) = name"
  using takeWhile_append2 [of "rev name" "\<lambda>c. c \<noteq> SEP" "SEP # rev a"] no_sep [of name]
  by (simp add: basename_def path_join_def)

lemma basename_name: "SEP \<notin> set name \<Longrightarrow> basename name = name"
  using takeWhile_eq_all_conv [of "\<lambda>c. c \<noteq> SEP" "rev name"] no_sep [of name]
  by (metis basename_def rev_rev_ident)

lemma splitext_path: "SEP \<notin> set name \<Longrightarrow> snd (splitext (path_join a name)) = snd (splitext name)"
  by (simp add: splitext_def Let_def basename_path basename_name)

text \<open>A file of an export.\<close>

definition data_file :: "string \<times> string \<times> string \<Rightarrow> bool" where
  "data_file f \<longleftrightarrow> (case f of (db, name, d) \<Rightarrow> plain db \<and> plain name \<and> snd (splitext name) \<in> {''.json'', ''.csv'', ''.info''})"

definition restored_path :: "string \<Rightarrow> string \<times> string \<times> string \<Rightarrow> string" where
  "restored_path temp f = (case f of (db, name, d) \<Rightarrow> path_join (path_join temp db) name)"

definition wanted_file :: "db_table list \<Rightarrow> string \<times> string \<times> string \<Rightarrow> bool" where
  "wanted_file wanted f \<longleftrightarrow> (case f of (db, name, d) \<Rightarrow> chosen wanted db (fst (splitext name)))"

lemma splitext_suffix: "snd (splitext p) \<noteq> [] \<Longrightarrow> \<exists>q. p = q @ snd (splitext p)"
proof -
  assume a: "snd (splitext p) \<noteq> []"
  let ?name = "basename p"
  let ?ext = "rev (takeWhile (\<lambda>c. c \<noteq> CHR ''.'') (rev ?name))"
  have n: "\<exists>q. p = q @ ?name" unfolding basename_def by (metis rev_append rev_rev_ident takeWhile_dropWhile_id)
  have d: "CHR ''.'' \<in> set ?name" "snd (splitext p) = CHR ''.'' # ?ext"
    using a by (auto simp: splitext_def Let_def split: if_splits)
  have "\<exists>q. ?name = q @ CHR ''.'' # ?ext"
  proof -
    have "dropWhile (\<lambda>c. c \<noteq> CHR ''.'') (rev ?name) \<noteq> []" using d(1) by (auto simp: dropWhile_eq_Nil_conv)
    then obtain x xs where x: "dropWhile (\<lambda>c. c \<noteq> CHR ''.'') (rev ?name) = x # xs" by (cases "dropWhile (\<lambda>c. c \<noteq> CHR ''.'') (rev ?name)") auto
    then have "x = CHR ''.''" using hd_dropWhile [of "\<lambda>c. c \<noteq> CHR ''.''" "rev ?name"] by simp
    moreover have "rev ?name = takeWhile (\<lambda>c. c \<noteq> CHR ''.'') (rev ?name) @ x # xs" using x by (metis takeWhile_dropWhile_id)
    ultimately have "?name = rev xs @ CHR ''.'' # ?ext"
      by (metis append_Cons append_Nil append_assoc rev.simps(2) rev_append rev_rev_ident)
    then show ?thesis ..
  qed
  then show ?thesis using n d(2) by (metis append_assoc)
qed

lemma entry_name_stripped:
  assumes "data_file (db, name, d)"
  shows "dropWhile (\<lambda>c. c = SEP) (strip_blanks (path_join (''rethinkdb_dump_'' @ stamp) (path_join db name)))
     = path_join (''rethinkdb_dump_'' @ stamp) (path_join db name)"
proof -
  have e: "snd (splitext name) \<in> {''.json'', ''.csv'', ''.info''}" using assms by (simp add: data_file_def)
  then obtain q where "name = q @ snd (splitext name)" using splitext_suffix [of name] by auto
  then obtain q c where c: "name = q @ [c]" "c \<in> {CHR ''n'', CHR ''v'', CHR ''o''}"
  proof -
    assume a: "\<And>q c. name = q @ [c] \<Longrightarrow> c \<in> {CHR ''n'', CHR ''v'', CHR ''o''} \<Longrightarrow> thesis"
      and q: "name = q @ snd (splitext name)"
    show thesis
      using e q a [of "q @ ''.jso''" "CHR ''n''"] a [of "q @ ''.cs''" "CHR ''v''"] a [of "q @ ''.inf''" "CHR ''o''"] by auto
  qed
  then have "\<not> is_blank c" by (auto simp: is_blank_def code_point_def)
  then show ?thesis using c(1)
    by (simp add: strip_blanks_def path_join_def is_blank_def code_point_def)
qed

lemma dumped_entry:
  assumes "no_links fs cwd" "data_file f" "plain (''rethinkdb_dump_'' @ stamp)"
  shows "unzip_entry fs cwd wanted temp (dump_entry (''rethinkdb_dump_'' @ stamp) f)
     = bind (check_top (''rethinkdb_dump_'' @ stamp)) (\<lambda>_. if \<not> wanted_file wanted f then ret () else write_entry (restored_path temp f) (snd (snd f)))"
proof -
  obtain db name d where f: "f = (db, name, d)" by (cases f)
  let ?dump = "''rethinkdb_dump_'' @ stamp"
  have p: "plain db" "plain name" using assms(2) f by (simp_all add: data_file_def)
  have j: "path_join ?dump (path_join db name) = join [SEP] [?dump, db, name]" by (simp add: path_join_def)
  have e: "entry_path fs cwd (dump_entry ?dump f) = join [SEP] [?dump, db, name]"
    using entry_name_stripped [of db name d stamp] relpath_plain [OF assms(1), of "[?dump, db, name]"] assms(2,3) p
    unfolding entry_path_def dump_entry_def f prod.case entry.select_convs j by simp
  have s: "split_on SEP (join [SEP] [?dump, db, name]) = [?dump, db, name]"
    using p assms(3) by (intro split_on_join) (auto simp: plain_def)
  have x: "snd (splitext (join [SEP] [?dump, db, name])) = snd (splitext name)"
    using splitext_path [of name "path_join ?dump db"] p(2) by (simp add: path_join_def plain_def)
  have ext: "snd (splitext name) \<in> {''.json'', ''.csv'', ''.info''}" using assms(2) f by (simp add: data_file_def)
  have n: "\<not> prefix ''..'' (join [SEP] [?dump, db, name])" by simp
  show ?thesis
    unfolding unzip_entry_def Let_def e s x if_not_P [OF n]
    using ext by (simp add: f dump_entry_def wanted_file_def restored_path_def)
qed

lemma restored_path_inj:
  assumes "data_file (db, name, d)" "data_file (db', name', d')"
    and "restored_path temp (db, name, d) = restored_path temp (db', name', d')"
  shows "db = db' \<and> name = name'"
proof -
  have p: "SEP \<notin> set db" "SEP \<notin> set name" "SEP \<notin> set db'" "SEP \<notin> set name'"
    using assms(1,2) by (simp_all add: data_file_def plain_def)
  have "db @ SEP # name = db' @ SEP # name'" using assms(3) by (simp add: restored_path_def path_join_def)
  then have "split_on SEP (db @ SEP # name) = split_on SEP (db' @ SEP # name')" by simp
  then show ?thesis using p by (simp add: split_on_append_sep split_on_no_sep)
qed

lemma dict_put_new: "k \<notin> set (map fst d) \<Longrightarrow> dict_put d k v = d @ [(k, v)]"
  by (induction d k v rule: dict_put.induct) auto

definition restored :: "db_table list \<Rightarrow> string \<Rightarrow> (string \<times> string \<times> string) list \<Rightarrow> (string, string) dict" where
  "restored wanted temp files = map (\<lambda>f. (restored_path temp f, snd (snd f))) (filter (wanted_file wanted) files)"

definition file_name :: "string \<times> string \<times> string \<Rightarrow> string \<times> string" where
  "file_name f = (fst f, fst (snd f))"

lemma restored_path_name:
  "data_file f \<Longrightarrow> data_file g \<Longrightarrow> restored_path temp f = restored_path temp g \<Longrightarrow> file_name f = file_name g"
  using restored_path_inj [of "fst f" "fst (snd f)" "snd (snd f)" "fst g" "fst (snd g)" "snd (snd g)" temp]
  by (simp add: file_name_def)

lemma unzip_dumped:
  assumes "no_links fs cwd" "plain (''rethinkdb_dump_'' @ stamp)"
  shows "list_all data_file files \<Longrightarrow> distinct (map file_name files) \<Longrightarrow> uz_top s \<in> {[], ''rethinkdb_dump_'' @ stamp}
     \<Longrightarrow> \<forall>f \<in> set files. restored_path temp f \<notin> set (map fst (uz_files s))
     \<Longrightarrow> \<exists>s'. unzip_entries fs cwd wanted temp (map (dump_entry (''rethinkdb_dump_'' @ stamp)) files) s = (Inr (), s')
        \<and> uz_files s' = uz_files s @ restored wanted temp files \<and> uz_ignored s' = uz_ignored s
        \<and> (uz_found s' \<longleftrightarrow> uz_found s \<or> restored wanted temp files \<noteq> [])"
proof (induction files arbitrary: s)
  case Nil
  then show ?case by (simp add: ret_def restored_def)
next
  case (Cons f files)
  let ?dump = "''rethinkdb_dump_'' @ stamp"
  let ?t = "s\<lparr>uz_top := ?dump\<rparr>"
  have t: "check_top ?dump s = (Inr (), ?t)" using Cons.prems(3) by (cases s) (auto simp: check_top_def)
  have e: "unzip_entry fs cwd wanted temp (dump_entry ?dump f)
      = bind (check_top ?dump) (\<lambda>_. if \<not> wanted_file wanted f then ret () else write_entry (restored_path temp f) (snd (snd f)))"
    using dumped_entry [OF assms(1) _ assms(2), of f wanted temp] Cons.prems(1) by simp
  have other: "restored_path temp g \<noteq> restored_path temp f" if "g \<in> set files" for g
  proof
    assume "restored_path temp g = restored_path temp f"
    then have "file_name g = file_name f"
      using restored_path_name [of g f temp] that Cons.prems(1) by (auto simp: list_all_iff)
    then show False using Cons.prems(2) that by (simp, metis imageI)
  qed
  show ?case
  proof (cases "wanted_file wanted f")
    case True
    let ?u = "?t\<lparr>uz_found := True, uz_files := uz_files s @ [(restored_path temp f, snd (snd f))]\<rparr>"
    have "restored_path temp f \<notin> set (map fst (uz_files s))" using Cons.prems(4) by simp
    then have "unzip_entry fs cwd wanted temp (dump_entry ?dump f) s = (Inr (), ?u)"
      unfolding e using t True by (simp add: bind_def write_entry_def dict_put_new del: set_map)
    moreover obtain s' where "unzip_entries fs cwd wanted temp (map (dump_entry ?dump) files) ?u = (Inr (), s')"
      "uz_files s' = uz_files ?u @ restored wanted temp files" "uz_ignored s' = uz_ignored ?u" "uz_found s'"
      using Cons.IH [of ?u] Cons.prems other by auto
    ultimately show ?thesis using True by (simp add: bind_def restored_def)
  next
    case False
    then have "unzip_entry fs cwd wanted temp (dump_entry ?dump f) s = (Inr (), ?t)"
      unfolding e using t by (simp add: bind_def ret_def)
    moreover obtain s' where "unzip_entries fs cwd wanted temp (map (dump_entry ?dump) files) ?t = (Inr (), s')"
      "uz_files s' = uz_files ?t @ restored wanted temp files" "uz_ignored s' = uz_ignored ?t"
      "uz_found s' \<longleftrightarrow> uz_found ?t \<or> restored wanted temp files \<noteq> []"
      using Cons.IH [of ?t] Cons.prems by auto
    ultimately show ?thesis using False by (simp add: bind_def restored_def)
  qed
qed

lemma dump_unzipped:
  assumes "no_links fs cwd" "plain (''rethinkdb_dump_'' @ stamp)"
    and "list_all data_file files" "distinct (map file_name files)" "\<exists>f \<in> set files. wanted_file wanted f"
  shows "\<exists>s. do_unzip fs cwd wanted temp (map (dump_entry (''rethinkdb_dump_'' @ stamp)) files) None new_unzip = (Inr [], s)
     \<and> uz_files s = restored wanted temp files"
proof -
  obtain s where s: "unzip_entries fs cwd wanted temp (map (dump_entry (''rethinkdb_dump_'' @ stamp)) files) new_unzip = (Inr (), s)"
    "uz_files s = restored wanted temp files" "uz_ignored s = []" "uz_found s \<longleftrightarrow> restored wanted temp files \<noteq> []"
    using unzip_dumped [OF assms(1-4), of new_unzip temp wanted] by (auto simp: new_unzip_def)
  have "restored wanted temp files \<noteq> []" using assms(5) by (auto simp: restored_def filter_empty_conv)
  then show ?thesis using s by (simp add: do_unzip_def bind_def ret_def)
qed

text \<open>C33. What \<open>rethinkdb dump\<close> puts into an archive, \<open>rethinkdb restore\<close> takes out of it: the files of the
  databases and tables that are wanted, all if nothing was said, with their contents, each in the
  directory of its database, and nothing is ignored.\<close>

theorem dump_restored:
  assumes "no_links fs cwd" "plain (''rethinkdb_dump_'' @ stamp)"
    and "list_all data_file files" "distinct (map file_name files)" "\<exists>f \<in> set files. wanted_file wanted f"
  shows "\<exists>s. do_unzip fs cwd wanted temp (map (dump_entry (''rethinkdb_dump_'' @ stamp)) files) None new_unzip = (Inr [], s)
     \<and> uz_files s = restored wanted temp files"
  by (rule dump_unzipped [OF assms])

text \<open>A file system without links, in its top directory.\<close>

definition flat_fs :: filesystem where
  "flat_fs = \<lparr>fs_isfile = \<lambda>p. False, fs_isdir = \<lambda>p. False, fs_exists = \<lambda>p. False,
     fs_realpath = \<lambda>p. SEP # join [SEP] (filter (\<lambda>x. x \<noteq> ''.'' \<and> x \<noteq> ''..'') (path_parts p)), fs_read = \<lambda>p. None\<rparr>"

lemma plain_parts: "list_all plain ps \<Longrightarrow> path_parts (join [SEP] ps) = ps \<and> path_parts (SEP # join [SEP] ps) = ps"
proof (cases "ps = []")
  case False
  assume p: "list_all plain ps"
  then have "split_on SEP (join [SEP] ps) = ps" using False by (intro split_on_join) (auto simp: list_all_iff plain_def)
  moreover have "filter (\<lambda>x. x \<noteq> []) ps = ps" using p by (auto simp: filter_id_conv list_all_iff plain_def)
  ultimately show ?thesis by (simp add: path_parts_def)
qed (simp add: path_parts_def)

lemma flat_no_links: "no_links flat_fs []"
proof -
  have "filter (\<lambda>x. x \<noteq> ''.'' \<and> x \<noteq> ''..'') ps = ps" if "list_all plain ps" for ps
    using that by (auto simp: filter_id_conv list_all_iff plain_def)
  then show ?thesis using plain_parts by (auto simp: no_links_def flat_fs_def)
qed

lemma flat_canonical: "canonical flat_fs"
proof -
  have "list_all (\<lambda>x. x \<noteq> ''.'' \<and> x \<noteq> ''..'') (path_parts (fs_realpath flat_fs p))" for p
  proof -
    let ?ps = "filter (\<lambda>x. x \<noteq> ''.'' \<and> x \<noteq> ''..'') (path_parts p)"
    have a: "list_all plain ?ps"
      using split_on_no_sep_parts [of _ SEP p] by (auto simp: list_all_iff plain_def path_parts_def)
    then show ?thesis using plain_parts [OF a] by (auto simp: flat_fs_def list_all_iff plain_def)
  qed
  then show ?thesis by (simp add: canonical_def)
qed

theorem dump_restored_witness:
  "\<exists>s. do_unzip flat_fs [] [] ''/tmp'' (map (dump_entry (''rethinkdb_dump_'' @ ''now''))
         [(''d'', ''t.json'', ''[]''), (''d'', ''t.info'', ''{}'')]) None new_unzip = (Inr [], s)
     \<and> uz_files s = restored [] ''/tmp'' [(''d'', ''t.json'', ''[]''), (''d'', ''t.info'', ''{}'')]"
proof (rule dump_restored [OF flat_no_links])
  show "list_all data_file [(''d'', ''t.json'', ''[]''), (''d'', ''t.info'', ''{}'')]" by code_simp
  show "\<exists>f \<in> set [(''d'', ''t.json'', ''[]''), (''d'', ''t.info'', ''{}'')]. wanted_file [] f"
    by (rule bexI [of _ "(''d'', ''t.json'', ''[]'')"]) (simp_all add: wanted_file_def chosen_def)
qed (simp_all add: plain_def file_name_def)

theorem restore_stays_inside_witness:
  "list_all (inside ''/tmp'') (map fst (uz_files (snd (do_unzip flat_fs [] [] ''/tmp''
       [\<lparr>en_name = ''../../etc/x.json'', en_isfile = True, en_data = ''1''\<rparr>] None new_unzip))))"
  by (rule restore_stays_inside [OF flat_canonical prod.collapse [symmetric]])

end
