(* ===== verification/ImportIndexes.thy ===== *)
theory ImportIndexes
  imports Sources Triples
begin

text \<open>
  What \<open>rethinkdb import\<close> does when the rows of a file are in: \<open>SourceFile.restore_indexes\<close> and the end
  of \<open>SourceFile.batches\<close> in \<open>rethinkdb/_import.py\<close>.  What the server answers is the record
  \<open>index_queries\<close>; the warnings that are put on their queue are part of the state.
\<close>

subsection \<open>Indexes and write hooks\<close>

record 'w index_queries =
  iq_list :: "('w, error, json list) comp"
  iq_drop :: "json \<Rightarrow> ('w, error, unit) comp"
  iq_create :: "json \<Rightarrow> json \<Rightarrow> ('w, error, unit) comp"
  iq_wait :: "json list \<Rightarrow> ('w, error, unit) comp"
  iq_hook :: "('w, error, json) comp"
  iq_set_hook :: "json \<Rightarrow> ('w, error, unit) comp"

record 'w restorer =
  ri_world :: 'w
  ri_warnings :: "error list"

definition runs :: "('w, error, 'a) comp \<Rightarrow> ('w restorer, error, 'a) comp" where
  "runs m s = (case m (ri_world s) of (r, w) \<Rightarrow> (r, s\<lparr>ri_world := w\<rparr>))"

text \<open>A \<open>RuntimeError\<close>, which is what a query that fails for good raises, becomes a warning.\<close>

definition with_warning :: "('w restorer, error, unit) comp \<Rightarrow> ('w restorer, error, unit) comp" where
  "with_warning m s =
     (case m s of
        (Inl e, s') \<Rightarrow> if caught_by [PyRuntimeError] e then (Inr (), s'\<lparr>ri_warnings := ri_warnings s' @ [e]\<rparr>) else (Inl e, s')
      | x \<Rightarrow> x)"

fun create_indexes :: "'w index_queries \<Rightarrow> json list \<Rightarrow> json list \<Rightarrow> ('w restorer, error, json list) comp" where
  "create_indexes iq existing [] = ret []"
| "create_indexes iq existing (i # ixs) =
     bind (lift_res (answer_item (Some i) ''index'')) (\<lambda>name.
     bind (if name \<in> set existing then runs (iq_drop iq name) else ret ()) (\<lambda>_.
     bind (lift_res (answer_item (Some i) ''function'')) (\<lambda>f.
     bind (runs (iq_create iq name f)) (\<lambda>_.
     bind (create_indexes iq existing ixs) (\<lambda>names. ret (name # names))))))"

definition elements :: "json \<Rightarrow> error + json list" where
  "elements v =
     (case v of
        JArr xs \<Rightarrow> Inr xs
      | JObj kvs \<Rightarrow> Inr (map (JStr \<circ> fst) kvs)
      | JStr s \<Rightarrow> Inr (map (\<lambda>c. JStr [c]) s)
      | _ \<Rightarrow> Inl (py_exc PyTypeError ([CHR 0x27] @ type_name v @ [CHR 0x27] @ '' object is not iterable'')))"

definition restore_hook :: "'w index_queries \<Rightarrow> json \<Rightarrow> ('w restorer, error, unit) comp" where
  "restore_hook iq hook =
     (if falsy hook then ret ()
      else bind (runs (iq_hook iq)) (\<lambda>_. with_warning (
        bind (runs (iq_set_hook iq JNull)) (\<lambda>_.
        bind (lift_res (answer_item (Some hook) ''function'')) (\<lambda>f. runs (iq_set_hook iq f))))))"

definition restore_indexes :: "'w index_queries \<Rightarrow> json \<Rightarrow> json \<Rightarrow> ('w restorer, error, unit) comp" where
  "restore_indexes iq indexes hook =
     bind (if falsy indexes then ret ()
           else bind (runs (iq_list iq)) (\<lambda>existing. with_warning (
             bind (lift_res (elements indexes)) (\<lambda>ixs.
             bind (create_indexes iq existing ixs) (\<lambda>names. runs (iq_wait iq names))))))
       (\<lambda>_. restore_hook iq hook)"

text \<open>The end of \<open>batches\<close>, after the last batch and \<open>teardown\<close>.\<close>

definition after_rows :: "'w index_queries \<Rightarrow> source \<Rightarrow> ('w restorer, error, unit) comp" where
  "after_rows iq src = (if falsy (so_indexes src) then ret () else restore_indexes iq (so_indexes src) (so_hook src))"

subsection \<open>A table gets its indexes\<close>

text \<open>A table with its indexes and its hook, as a server keeps them.\<close>

record table_indexes =
  ti_indexes :: "json \<Rightarrow> json option"
  ti_hook :: json

definition keeps_indexes :: "('w \<Rightarrow> table_indexes) \<Rightarrow> 'w index_queries \<Rightarrow> bool" where
  "keeps_indexes tab iq \<longleftrightarrow> (\<forall>w.
     (\<exists>names w'. iq_list iq w = (Inr names, w') \<and> set names = dom (ti_indexes (tab w)) \<and> tab w' = tab w)
     \<and> (\<forall>n. n \<in> dom (ti_indexes (tab w)) \<longrightarrow>
          (\<exists>w'. iq_drop iq n w = (Inr (), w') \<and> tab w' = (tab w)\<lparr>ti_indexes := (ti_indexes (tab w))(n := None)\<rparr>))
     \<and> (\<forall>n f. n \<notin> dom (ti_indexes (tab w)) \<longrightarrow>
          (\<exists>w'. iq_create iq n f w = (Inr (), w') \<and> tab w' = (tab w)\<lparr>ti_indexes := (ti_indexes (tab w))(n := Some f)\<rparr>))
     \<and> (\<forall>ns. \<exists>w'. iq_wait iq ns w = (Inr (), w') \<and> tab w' = tab w)
     \<and> (\<exists>h w'. iq_hook iq w = (Inr h, w') \<and> tab w' = tab w)
     \<and> (\<forall>f. \<exists>w'. iq_set_hook iq f w = (Inr (), w') \<and> tab w' = (tab w)\<lparr>ti_hook := f\<rparr>))"

lemma keeps_indexesD:
  assumes "keeps_indexes tab iq"
  shows "\<exists>names w'. iq_list iq w = (Inr names, w') \<and> set names = dom (ti_indexes (tab w)) \<and> tab w' = tab w"
    and "n \<in> dom (ti_indexes (tab w)) \<Longrightarrow>
      \<exists>w'. iq_drop iq n w = (Inr (), w') \<and> tab w' = (tab w)\<lparr>ti_indexes := (ti_indexes (tab w))(n := None)\<rparr>"
    and "n \<notin> dom (ti_indexes (tab w)) \<Longrightarrow>
      \<exists>w'. iq_create iq n f w = (Inr (), w') \<and> tab w' = (tab w)\<lparr>ti_indexes := (ti_indexes (tab w))(n := Some f)\<rparr>"
    and "\<exists>w'. iq_wait iq ns w = (Inr (), w') \<and> tab w' = tab w"
    and "\<exists>h w'. iq_hook iq w = (Inr h, w') \<and> tab w' = tab w"
    and "\<exists>w'. iq_set_hook iq f w = (Inr (), w') \<and> tab w' = (tab w)\<lparr>ti_hook := f\<rparr>"
  using assms [unfolded keeps_indexes_def, rule_format, of w] by blast+

text \<open>An index of an \<open>.info\<close> file.\<close>

definition index_info :: "json \<times> json \<Rightarrow> json \<Rightarrow> bool" where
  "index_info nf i \<longleftrightarrow> answer_item (Some i) ''index'' = Inr (fst nf) \<and> answer_item (Some i) ''function'' = Inr (snd nf)"

lemma create_indexes_all:
  assumes "keeps_indexes tab iq"
  shows "list_all2 index_info nfs ixs \<Longrightarrow> distinct (map fst nfs)
     \<Longrightarrow> \<forall>n \<in> set (map fst nfs). n \<in> set existing \<longleftrightarrow> n \<in> dom (ti_indexes (tab (ri_world s)))
     \<Longrightarrow> \<exists>w. create_indexes iq existing ixs s = (Inr (map fst nfs), s\<lparr>ri_world := w\<rparr>)
        \<and> tab w = (tab (ri_world s))\<lparr>ti_indexes := ti_indexes (tab (ri_world s)) ++ map_of nfs\<rparr>"
proof (induction nfs ixs arbitrary: s rule: list_all2_induct)
  case Nil
  then show ?case by (cases s) (simp add: ret_def)
next
  case (Cons nf nfs i ixs)
  obtain n f where nf: "nf = (n, f)" by (cases nf)
  have i: "answer_item (Some i) ''index'' = Inr n" "answer_item (Some i) ''function'' = Inr f"
    using Cons.hyps(1) nf by (simp_all add: index_info_def)
  let ?old = "ti_indexes (tab (ri_world s))"
  obtain w1 where w1: "(if n \<in> set existing then runs (iq_drop iq n) else ret ()) s = (Inr (), s\<lparr>ri_world := w1\<rparr>)"
    "tab w1 = (tab (ri_world s))\<lparr>ti_indexes := ?old(n := None)\<rparr>"
  proof (cases "n \<in> set existing")
    case True
    then have "n \<in> dom ?old" using Cons.prems(2) nf by simp
    then show ?thesis using keeps_indexesD(2) [OF assms] that True by (fastforce simp: runs_def)
  next
    case False
    then have o: "n \<notin> dom ?old" using Cons.prems(2) nf by simp
    then have "?old(n := None) = ?old" by (auto simp: fun_upd_idem_iff domIff)
    then show ?thesis using that [of "ri_world s"] False by (cases s) (simp add: ret_def)
  qed
  have o: "n \<notin> dom (ti_indexes (tab w1))" using w1(2) by simp
  obtain w2 where w2: "iq_create iq n f w1 = (Inr (), w2)" "tab w2 = (tab w1)\<lparr>ti_indexes := (ti_indexes (tab w1))(n := Some f)\<rparr>"
    using keeps_indexesD(3) [OF assms o] by blast
  let ?s = "s\<lparr>ri_world := w2\<rparr>"
  have a: "tab w2 = (tab (ri_world s))\<lparr>ti_indexes := ?old(n := Some f)\<rparr>" using w2(2) w1(2) by simp
  have "\<forall>m \<in> set (map fst nfs). m \<in> set existing \<longleftrightarrow> m \<in> dom (ti_indexes (tab (ri_world ?s)))"
    using Cons.prems nf a by auto
  then obtain w where w: "create_indexes iq existing ixs ?s = (Inr (map fst nfs), ?s\<lparr>ri_world := w\<rparr>)"
    "tab w = (tab w2)\<lparr>ti_indexes := ti_indexes (tab w2) ++ map_of nfs\<rparr>"
    using Cons.IH [of ?s] Cons.prems(1) by auto
  have m: "?old(n := Some f) ++ map_of nfs = ?old ++ map_of ((n, f) # nfs)"
  proof -
    have "map_of nfs n = None" using Cons.prems(1) nf by (simp add: map_of_eq_None_iff)
    then show ?thesis by (simp add: map_add_def fun_eq_iff split: option.split)
  qed
  have e: "tab w = (tab (ri_world s))\<lparr>ti_indexes := ?old ++ map_of (nf # nfs)\<rparr>"
    using m by (simp add: w(2) a nf del: map_of.simps map_add_upd)
  have "create_indexes iq existing (i # ixs) s = (Inr (map fst (nf # nfs)), s\<lparr>ri_world := w\<rparr>)"
    using i w1(1) w2(1) w(1) nf by (simp add: bind_def lift_res_def runs_def ret_def)
  then show ?case using e by blast
qed

text \<open>C26. A table is imported with its indexes: when its \<open>.info\<close> file has some, each exists in the end with
  the function of the file, also when there was another one of its name, other indexes stay, the
  hook is the one of the file, if it has one, and there is no warning.\<close>

theorem import_restores_indexes:
  assumes "keeps_indexes tab iq" "so_indexes src = JArr ixs" "ixs \<noteq> []" "list_all2 index_info nfs ixs" "distinct (map fst nfs)"
    and "falsy (so_hook src) \<or> answer_item (Some (so_hook src)) ''function'' = Inr h"
  shows "\<exists>w. after_rows iq src s = (Inr (), s\<lparr>ri_world := w\<rparr>)
     \<and> ti_indexes (tab w) = ti_indexes (tab (ri_world s)) ++ map_of nfs
     \<and> ti_hook (tab w) = (if falsy (so_hook src) then ti_hook (tab (ri_world s)) else h)"
proof -
  obtain names w1 where l: "iq_list iq (ri_world s) = (Inr names, w1)" "set names = dom (ti_indexes (tab (ri_world s)))"
    "tab w1 = tab (ri_world s)" using keeps_indexesD(1) [OF assms(1)] by blast
  let ?s = "s\<lparr>ri_world := w1\<rparr>"
  obtain w2 where c: "create_indexes iq names ixs ?s = (Inr (map fst nfs), ?s\<lparr>ri_world := w2\<rparr>)"
    "tab w2 = (tab w1)\<lparr>ti_indexes := ti_indexes (tab w1) ++ map_of nfs\<rparr>"
    using create_indexes_all [OF assms(1,4,5), of names ?s] l by auto
  obtain w3 where w: "iq_wait iq (map fst nfs) w2 = (Inr (), w3)" "tab w3 = tab w2" using keeps_indexesD(4) [OF assms(1)] by blast
  have first: "with_warning (bind (lift_res (elements (JArr ixs))) (\<lambda>ixs. bind (create_indexes iq names ixs) (\<lambda>names. runs (iq_wait iq names)))) ?s
      = (Inr (), s\<lparr>ri_world := w3\<rparr>)"
    using c(1) w(1) by (simp add: with_warning_def elements_def bind_def lift_res_def runs_def)
  obtain g w4 where h: "iq_hook iq w3 = (Inr g, w4)" "tab w4 = tab w3" using keeps_indexesD(5) [OF assms(1)] by blast
  obtain w5 where w5: "iq_set_hook iq JNull w4 = (Inr (), w5)" "tab w5 = (tab w4)\<lparr>ti_hook := JNull\<rparr>"
    using keeps_indexesD(6) [OF assms(1)] by blast
  obtain w6 where w6: "iq_set_hook iq h w5 = (Inr (), w6)" "tab w6 = (tab w5)\<lparr>ti_hook := h\<rparr>"
    using keeps_indexesD(6) [OF assms(1)] by blast
  have t: "restore_hook iq (so_hook src) (s\<lparr>ri_world := w3\<rparr>)
      = (Inr (), s\<lparr>ri_world := if falsy (so_hook src) then w3 else w6\<rparr>)"
    using assms(6) h(1) w5(1) w6(1)
    by (auto simp: restore_hook_def with_warning_def bind_def lift_res_def runs_def ret_def)
  have "after_rows iq src s = (Inr (), s\<lparr>ri_world := if falsy (so_hook src) then w3 else w6\<rparr>)"
    using l(1) first t assms(2,3) by (simp add: after_rows_def restore_indexes_def bind_def runs_def)
  then show ?thesis using c(2) l(3) w(2) h(2) w5(2) w6(2)
    by (intro exI [of _ "if falsy (so_hook src) then w3 else w6"]) auto
qed

text \<open>A server that keeps a table's indexes.\<close>

definition plain_indexes :: "(json \<times> json) list \<times> json \<Rightarrow> table_indexes" where
  "plain_indexes w = \<lparr>ti_indexes = map_of (fst w), ti_hook = snd w\<rparr>"

definition index_keeper :: "((json \<times> json) list \<times> json) index_queries" where
  "index_keeper = \<lparr>iq_list = \<lambda>w. (Inr (map fst (fst w)), w),
     iq_drop = \<lambda>n w. (Inr (), (filter (\<lambda>nf. fst nf \<noteq> n) (fst w), snd w)),
     iq_create = \<lambda>n f w. (Inr (), ((n, f) # fst w, snd w)), iq_wait = \<lambda>ns w. (Inr (), w),
     iq_hook = \<lambda>w. (Inr (snd w), w), iq_set_hook = \<lambda>f w. (Inr (), (fst w, f))\<rparr>"

lemma index_keeper_keeps: "keeps_indexes plain_indexes index_keeper"
proof -
  have f: "map_of (filter (\<lambda>nf. fst nf \<noteq> n) nfs) = (map_of nfs)(n := None)" for n :: json and nfs :: "(json \<times> json) list"
    by (induction nfs) (auto simp: fun_eq_iff)
  show ?thesis
    by (auto simp: keeps_indexes_def index_keeper_def plain_indexes_def f dom_map_of_conv_image_fst)
qed

definition indexed_source :: source where
  "indexed_source = \<lparr>so_kind = JsonSource, so_path = ''t.json'', so_db = ''d'', so_table = ''t'', so_pkey = JStr ''id'',
     so_indexes = JArr [JObj [(''index'', JStr ''i''), (''function'', JInt 1)]], so_hook = JArr [], so_create = [], so_header = None\<rparr>"

theorem import_restores_indexes_witness:
  "\<exists>w. after_rows index_keeper indexed_source \<lparr>ri_world = ([(JStr ''i'', JInt 2)], JNull), ri_warnings = []\<rparr>
       = (Inr (), \<lparr>ri_world = ([(JStr ''i'', JInt 2)], JNull), ri_warnings = []\<rparr>\<lparr>ri_world := w\<rparr>)
     \<and> ti_indexes (plain_indexes w) = ti_indexes (plain_indexes (ri_world \<lparr>ri_world = ([(JStr ''i'', JInt 2)], JNull), ri_warnings = []\<rparr>))
         ++ map_of [(JStr ''i'', JInt 1)]
     \<and> ti_hook (plain_indexes w) = (if falsy (so_hook indexed_source)
         then ti_hook (plain_indexes (ri_world \<lparr>ri_world = ([(JStr ''i'', JInt 2)], JNull), ri_warnings = []\<rparr>)) else JNull)"
  by (rule import_restores_indexes [OF index_keeper_keeps, where ixs = "[JObj [(''index'', JStr ''i''), (''function'', JInt 1)]]"])
    (simp_all add: indexed_source_def index_info_def answer_item_def)

text \<open>A table whose file has no secondary indexes does not get its write hook: nothing is done.\<close>

theorem hook_not_restored:
  assumes "falsy (so_indexes src)"
  shows "after_rows iq src s = (Inr (), s)"
  using assms by (simp add: after_rows_def ret_def)

end
