(* ===== verification/ImportPool.thy ===== *)
theory ImportPool
  imports Sources "HOL-Library.Multiset"
begin

text \<open>
  The processes of \<open>rethinkdb import\<close>: \<open>import_tables\<close> in \<open>rethinkdb/_import.py\<close>, which starts readers for
  the sources, a number at a time, and writers, with a queue of limited length between them,
  ends the writers when there is nothing more to write, and waits for them.  Errors, warnings and timings
  come back over three queues that are pipes of limited capacity: who puts something holds the lock of the
  queue until the pipe has taken all of it, and \<open>drain_queues\<close> empties the pipes, but only while there are readers
  and at the end.  What the processes do in whatever order is a step relation; what a reader does with its file and a
  writer with a batch are the models of \<open>SourceFile\<close> and \<open>TableWriter\<close>, here a source is the list of its
  batches and warnings.  How many bytes a pipe takes and a report has are parameters.
\<close>

subsection \<open>The processes\<close>

datatype report = Timing | Warning string | Trouble error

datatype pipe = TimingPipe | WarningPipe | ErrorPipe

fun pipe_of :: "report \<Rightarrow> pipe" where
  "pipe_of Timing = TimingPipe"
| "pipe_of (Warning m) = WarningPipe"
| "pipe_of (Trouble e) = ErrorPipe"

datatype 'b source_item = Batch 'b | Warns string

text \<open>A reader reads items, or holds a batch it has read; a writer is idle or writes a batch.  Both report before they
  go on: \<open>Tells\<close> is before the \<open>put\<close>, \<open>Puts\<close> inside it.  One that fails reports the error and then sets the
  exit event.\<close>

datatype 'b process =
    Reads "'b source_item list"
  | Holds 'b "'b source_item list"
  | Idle
  | Writes 'b
  | Tells report "'b process"
  | Puts pipe "'b process"
  | Fails
  | Ended

text \<open>Where \<open>import_tables\<close> is: starting readers, waiting for the last of them, with so many signs to stop
  still to be put on the queue, waiting for the writers, draining the queues at the end, or past that.\<close>

datatype pool_phase = Starting | AwaitReaders | Stopping nat | AwaitWriters | Draining | Done

record 'b pool =
  ip_todo :: "'b source_item list list"
  ip_readers :: "'b process list"
  ip_queue :: "'b option list"
  ip_writers :: "'b process list"
  ip_written :: "'b list"
  ip_pipes :: "pipe \<Rightarrow> report list"
  ip_locked :: "pipe \<Rightarrow> bool"
  ip_errors :: "error list"
  ip_warnings :: "string list"
  ip_exit :: bool
  ip_phase :: pool_phase

definition new_pool :: "nat \<Rightarrow> 'b source_item list list \<Rightarrow> 'b pool" where
  "new_pool clients sources = \<lparr>ip_todo = sources, ip_readers = [], ip_queue = [], ip_writers = replicate clients Idle,
     ip_written = [], ip_pipes = (\<lambda>_. []), ip_locked = (\<lambda>_. False), ip_errors = [], ip_warnings = [], ip_exit = False,
     ip_phase = Starting\<rparr>"

definition fail_with :: "error \<Rightarrow> 'b process" where
  "fail_with e = Tells (Trouble e) Fails"

datatype place = Reader nat | Writer nat

fun proc_at :: "'b pool \<Rightarrow> place \<Rightarrow> 'b process \<Rightarrow> bool" where
  "proc_at s (Reader i) p \<longleftrightarrow> i < length (ip_readers s) \<and> ip_readers s ! i = p"
| "proc_at s (Writer i) p \<longleftrightarrow> i < length (ip_writers s) \<and> ip_writers s ! i = p"

fun set_proc :: "place \<Rightarrow> 'b process \<Rightarrow> 'b pool \<Rightarrow> 'b pool" where
  "set_proc (Reader i) p s = s\<lparr>ip_readers := (ip_readers s)[i := p]\<rparr>"
| "set_proc (Writer i) p s = s\<lparr>ip_writers := (ip_writers s)[i := p]\<rparr>"

definition pipe_load :: "(report \<Rightarrow> nat) \<Rightarrow> 'b pool \<Rightarrow> pipe \<Rightarrow> nat" where
  "pipe_load bytes s q = sum_list (map bytes (ip_pipes s q))"

text \<open>\<open>read_to_queue\<close> and \<open>table_writer\<close>, and \<open>put\<close> of a \<open>SimpleQueue\<close>: a step of one process, with what it does to
  what they share.\<close>

inductive process_step :: "nat \<Rightarrow> nat \<Rightarrow> (report \<Rightarrow> nat) \<Rightarrow> 'b process \<Rightarrow> 'b pool \<Rightarrow> 'b process \<Rightarrow> 'b pool \<Rightarrow> bool"
  for longest cap bytes where
  read_batch: "process_step longest cap bytes (Reads (Batch b # xs)) s (Tells Timing (Holds b xs)) s"
| read_warning: "process_step longest cap bytes (Reads (Warns m # xs)) s (Tells (Warning m) (Reads xs)) s"
| read_all: "process_step longest cap bytes (Reads []) s Ended s"
| reader_fails: "process_step longest cap bytes (Reads xs) s (fail_with e) s"
| filter_fails: "process_step longest cap bytes (Holds b xs) s (fail_with e) s"
| put_work: "length (ip_queue s) < longest
    \<Longrightarrow> process_step longest cap bytes (Holds b xs) s (Tells Timing (Reads xs)) (s\<lparr>ip_queue := ip_queue s @ [Some b]\<rparr>)"
| stop_reading: "ip_exit s \<Longrightarrow> process_step longest cap bytes (Holds b xs) s Ended s"
| take_work: "ip_queue s = Some b # q \<Longrightarrow> process_step longest cap bytes Idle s (Tells Timing (Writes b)) (s\<lparr>ip_queue := q\<rparr>)"
| take_stop: "ip_queue s = None # q \<Longrightarrow> process_step longest cap bytes Idle s (Tells Timing Ended) (s\<lparr>ip_queue := q\<rparr>)"
| stop_writing: "ip_exit s \<Longrightarrow> process_step longest cap bytes Idle s Ended s"
| batch_written: "process_step longest cap bytes (Writes b) s (Tells Timing Idle) (s\<lparr>ip_written := ip_written s @ [b]\<rparr>)"
| writer_fails: "process_step longest cap bytes (Writes b) s (fail_with e) s"
| begin_put: "\<not> ip_locked s (pipe_of n) \<Longrightarrow> process_step longest cap bytes (Tells n k) s (Puts (pipe_of n) k)
    (s\<lparr>ip_pipes := (ip_pipes s)(pipe_of n := ip_pipes s (pipe_of n) @ [n]), ip_locked := (ip_locked s)(pipe_of n := True)\<rparr>)"
| end_put: "pipe_load bytes s q \<le> cap
    \<Longrightarrow> process_step longest cap bytes (Puts q k) s k (s\<lparr>ip_locked := (ip_locked s)(q := False)\<rparr>)"
| set_exit: "process_step longest cap bytes Fails s Ended (s\<lparr>ip_exit := True\<rparr>)"

text \<open>\<open>drain_queues\<close> takes a report.\<close>

fun receive_report :: "report \<Rightarrow> 'b pool \<Rightarrow> 'b pool" where
  "receive_report Timing s = s"
| "receive_report (Warning m) s = s\<lparr>ip_warnings := ip_warnings s @ [m]\<rparr>"
| "receive_report (Trouble e) s = s\<lparr>ip_errors := ip_errors s @ [e]\<rparr>"

definition drains :: "'b pool \<Rightarrow> bool" where
  "drains s \<longleftrightarrow> ip_phase s = Starting \<or> ip_phase s = AwaitReaders \<and> ip_readers s \<noteq> [] \<or> ip_phase s = Draining"

inductive pool_step :: "nat \<Rightarrow> nat \<Rightarrow> nat \<Rightarrow> (report \<Rightarrow> nat) \<Rightarrow> 'b pool \<Rightarrow> 'b pool \<Rightarrow> bool"
  for clients longest cap bytes where
  start_reader: "ip_phase s = Starting \<Longrightarrow> length (ip_readers s) < clients \<Longrightarrow> ip_todo s = xs # rest
    \<Longrightarrow> pool_step clients longest cap bytes s (s\<lparr>ip_todo := rest, ip_readers := ip_readers s @ [Reads xs]\<rparr>)"
| no_more_sources: "ip_phase s = Starting \<Longrightarrow> length (ip_readers s) < clients \<Longrightarrow> ip_todo s = []
    \<Longrightarrow> pool_step clients longest cap bytes s (s\<lparr>ip_phase := AwaitReaders\<rparr>)"
| no_more_after_exit: "ip_phase s = Starting \<Longrightarrow> ip_exit s
    \<Longrightarrow> pool_step clients longest cap bytes s (s\<lparr>ip_phase := AwaitReaders\<rparr>)"
| reap_reader: "ip_phase s \<in> {Starting, AwaitReaders} \<Longrightarrow> proc_at s (Reader i) Ended
    \<Longrightarrow> pool_step clients longest cap bytes s (s\<lparr>ip_readers := take i (ip_readers s) @ drop (Suc i) (ip_readers s)\<rparr>)"
| discard_work: "ip_phase s = AwaitReaders \<Longrightarrow> ip_readers s \<noteq> [] \<Longrightarrow> ip_exit s \<Longrightarrow> ip_queue s = x # q
    \<Longrightarrow> pool_step clients longest cap bytes s (s\<lparr>ip_queue := q\<rparr>)"
| readers_done: "ip_phase s = AwaitReaders \<Longrightarrow> ip_readers s = []
    \<Longrightarrow> pool_step clients longest cap bytes s (s\<lparr>ip_phase := Stopping (length (ip_writers s))\<rparr>)"
| put_stop: "ip_phase s = Stopping (Suc k) \<Longrightarrow> length (ip_queue s) < longest
    \<Longrightarrow> pool_step clients longest cap bytes s (s\<lparr>ip_queue := ip_queue s @ [None], ip_phase := Stopping k\<rparr>)"
| skip_stop: "ip_phase s = Stopping (Suc k) \<Longrightarrow> ip_exit s
    \<Longrightarrow> pool_step clients longest cap bytes s (s\<lparr>ip_phase := Stopping k\<rparr>)"
| stops_put: "ip_phase s = Stopping 0 \<Longrightarrow> pool_step clients longest cap bytes s (s\<lparr>ip_phase := AwaitWriters\<rparr>)"
| writers_done: "ip_phase s = AwaitWriters \<Longrightarrow> \<forall>w \<in> set (ip_writers s). w = Ended
    \<Longrightarrow> pool_step clients longest cap bytes s (s\<lparr>ip_phase := Draining\<rparr>)"
| drain_report: "drains s \<Longrightarrow> ip_pipes s q = n # ns
    \<Longrightarrow> pool_step clients longest cap bytes s (receive_report n (s\<lparr>ip_pipes := (ip_pipes s)(q := ns)\<rparr>))"
| all_drained: "ip_phase s = Draining \<Longrightarrow> \<forall>q. ip_pipes s q = [] \<Longrightarrow> pool_step clients longest cap bytes s (s\<lparr>ip_phase := Done\<rparr>)"
| process_moves: "proc_at s pl p \<Longrightarrow> process_step longest cap bytes p s p' s'
    \<Longrightarrow> pool_step clients longest cap bytes s (set_proc pl p' s')"

text \<open>The user's interrupt, \<open>abort\<close> of \<open>utils_common.py\<close> the first time.\<close>

definition interrupt_import :: "'b pool \<Rightarrow> 'b pool" where
  "interrupt_import s = s\<lparr>ip_exit := True\<rparr>"

text \<open>How \<open>import_tables\<close> ends; the event it looks at for an interrupt is never set.\<close>

definition import_outcome :: "bool \<Rightarrow> 'b pool \<Rightarrow> error + unit" where
  "import_outcome intr s =
     (if intr then Inl (py_exc PyRuntimeError ''Interrupted'')
      else if ip_errors s \<noteq> [] then Inl (py_exc PyRuntimeError ''Errors occurred during import'')
      else if ip_warnings s \<noteq> [] then Inl (py_exc PyRuntimeError ''Warnings occurred during import'')
      else Inr ())"

subsection \<open>Steps of a process\<close>

text \<open>It touches only what is shared.\<close>

lemma process_frame:
  "process_step longest cap bytes p s p' s' \<Longrightarrow> ip_readers s' = ip_readers s \<and> ip_writers s' = ip_writers s
     \<and> ip_phase s' = ip_phase s \<and> ip_todo s' = ip_todo s \<and> ip_errors s' = ip_errors s \<and> ip_warnings s' = ip_warnings s"
  by (induction rule: process_step.induct) simp_all

lemma split_at: "i < length xs \<Longrightarrow> \<exists>us x vs. xs = us @ x # vs \<and> i = length us"
  by (metis id_take_nth_drop length_take min.absorb4)

fun processes :: "'b pool \<Rightarrow> 'b process set" where
  "processes s = set (ip_readers s) \<union> set (ip_writers s)"

declare processes.simps [simp del]

lemma proc_in: "proc_at s pl p \<Longrightarrow> p \<in> processes s"
  by (cases pl) (auto simp: processes.simps)

lemma in_proc: "p \<in> processes s \<Longrightarrow> \<exists>pl. proc_at s pl p"
  unfolding processes.simps by (auto simp: in_set_conv_nth) (metis proc_at.simps)+

lemma processes_move:
  assumes "proc_at s pl p" "process_step longest cap bytes p s p' s'"
  shows "processes (set_proc pl p' s') \<subseteq> insert p' (processes s)" "p' \<in> processes (set_proc pl p' s')"
    and "r \<in> processes s \<Longrightarrow> r \<noteq> p \<Longrightarrow> r \<in> processes (set_proc pl p' s')"
proof -
  note f = process_frame [OF assms(2)]
  show "processes (set_proc pl p' s') \<subseteq> insert p' (processes s)"
    using f set_update_subset_insert by (cases pl) (fastforce simp: processes.simps)+
  show "p' \<in> processes (set_proc pl p' s')"
    using f assms(1) by (cases pl) (simp_all add: processes.simps set_update_memI)
  assume r: "r \<in> processes s" "r \<noteq> p"
  have "r \<in> set (xs[i := p'])" if "r \<in> set xs" "i < length xs" "xs ! i = p" for xs i
  proof -
    obtain us x vs where "xs = us @ x # vs" "i = length us" using split_at [OF \<open>i < length xs\<close>] by blast
    then show ?thesis using that r(2) by auto
  qed
  then show "r \<in> processes (set_proc pl p' s')" using r(1) f assms(1) by (cases pl) (auto simp: processes.simps)
qed

subsection \<open>Sizes, locks and errors\<close>

fun failing :: "'b process \<Rightarrow> bool" where
  "failing (Tells n k) = failing k"
| "failing (Puts q k) = failing k"
| "failing Fails = True"
| "failing _ = False"

text \<open>The error of such a process is on its way, it has been put on the queue.\<close>

fun told :: "'b process \<Rightarrow> bool" where
  "told (Puts q k) = told k"
| "told Fails = True"
| "told _ = False"

fun sound :: "'b process \<Rightarrow> bool" where
  "sound (Tells n k) = (sound k \<and> (failing k \<longleftrightarrow> (\<exists>e. n = Trouble e)))"
| "sound (Puts q k) = sound k"
| "sound _ = True"

fun reader_like :: "'b process \<Rightarrow> bool" where
  "reader_like (Tells n k) = reader_like k"
| "reader_like (Puts q k) = reader_like k"
| "reader_like p = (p \<noteq> Idle \<and> (\<forall>b. p \<noteq> Writes b))"

fun writer_like :: "'b process \<Rightarrow> bool" where
  "writer_like (Tells n k) = writer_like k"
| "writer_like (Puts q k) = writer_like k"
| "writer_like (Reads xs) = False"
| "writer_like (Holds b xs) = False"
| "writer_like _ = True"

lemma told_failing: "told p \<Longrightarrow> failing p"
  by (induction p) auto

text \<open>Whether an error has been put on the queue.\<close>

definition recorded :: "'b pool \<Rightarrow> bool" where
  "recorded s \<longleftrightarrow> ip_errors s \<noteq> [] \<or> (\<exists>e. Trouble e \<in> set (ip_pipes s ErrorPipe))"

definition pool_inv :: "nat \<Rightarrow> nat \<Rightarrow> 'b pool \<Rightarrow> bool" where
  "pool_inv clients longest s \<longleftrightarrow>
     length (ip_readers s) \<le> clients \<and> length (ip_queue s) \<le> longest \<and> length (ip_writers s) = clients
     \<and> (\<forall>p \<in> set (ip_readers s). reader_like p) \<and> (\<forall>p \<in> set (ip_writers s). writer_like p)
     \<and> (ip_phase s \<in> {Draining, Done} \<longrightarrow> (\<forall>p \<in> set (ip_writers s). p = Ended))
     \<and> (ip_phase s \<notin> {Starting, AwaitReaders} \<longrightarrow> ip_readers s = [])"

definition reports_inv :: "'b pool \<Rightarrow> bool" where
  "reports_inv s \<longleftrightarrow> (\<forall>p \<in> processes s. sound p \<and> (told p \<longrightarrow> recorded s)) \<and> (ip_exit s \<longrightarrow> recorded s)
     \<and> (recorded s \<longrightarrow> ip_exit s \<or> (\<exists>p \<in> processes s. failing p))
     \<and> (\<forall>q. ip_locked s q \<longrightarrow> (\<exists>k. Puts q k \<in> processes s))"

lemma process_kind:
  "process_step longest cap bytes p s p' s' \<Longrightarrow> (reader_like p \<longrightarrow> reader_like p') \<and> (writer_like p \<longrightarrow> writer_like p')
     \<and> p \<noteq> Ended \<and> (length (ip_queue s) \<le> longest \<longrightarrow> length (ip_queue s') \<le> longest)"
  by (induction rule: process_step.induct) (auto simp: fail_with_def)

lemma receive_frame [simp]:
  "ip_readers (receive_report n s) = ip_readers s" "ip_writers (receive_report n s) = ip_writers s"
  "ip_queue (receive_report n s) = ip_queue s" "ip_phase (receive_report n s) = ip_phase s"
  "ip_exit (receive_report n s) = ip_exit s" "ip_locked (receive_report n s) = ip_locked s"
  "ip_todo (receive_report n s) = ip_todo s" "ip_written (receive_report n s) = ip_written s"
  "ip_pipes (receive_report n s) = ip_pipes s" "processes (receive_report n s) = processes s"
  by (cases n; simp add: processes.simps)+

lemma new_pool_inv: "pool_inv clients longest (new_pool clients sources)"
  by (simp add: pool_inv_def new_pool_def)

lemma pool_step_inv:
  "pool_step clients longest cap bytes s t \<Longrightarrow> pool_inv clients longest s \<Longrightarrow> pool_inv clients longest t"
proof (induction rule: pool_step.induct)
  case (reap_reader s i)
  then show ?case by (auto simp: pool_inv_def dest: in_set_takeD in_set_dropD)
next
  case (process_moves s pl p p' s')
  note f = process_frame [OF process_moves(2)] and k = process_kind [OF process_moves(2)]
  show ?case
  proof (cases pl)
    case (Reader i)
    then have "reader_like p" using process_moves(1,3) by (auto simp: pool_inv_def)
    then show ?thesis using Reader f k process_moves(1,3) set_update_subset_insert [of "ip_readers s" i p']
      by (auto simp: pool_inv_def)
  next
    case (Writer i)
    then have "writer_like p" "ip_phase s \<notin> {Draining, Done}" using k process_moves(1,3) by (auto simp: pool_inv_def)
    then show ?thesis using Writer f k process_moves(1,3) set_update_subset_insert [of "ip_writers s" i p']
      by (auto simp: pool_inv_def)
  qed
qed (auto simp: pool_inv_def)

lemma new_reports_inv: "reports_inv (new_pool clients sources)"
  by (auto simp: reports_inv_def new_pool_def recorded_def processes.simps)

lemma process_recorded: "process_step longest cap bytes p s p' s' \<Longrightarrow> recorded s \<Longrightarrow> recorded s'"
  by (induction rule: process_step.induct) (auto simp: recorded_def)

text \<open>What a step of a process does to its errors.\<close>

lemma process_reports:
  assumes "process_step longest cap bytes p s p' s'" "sound p" "told p \<longrightarrow> recorded s"
  shows "sound p' \<and> (told p' \<longrightarrow> recorded s') \<and> (ip_exit s' \<longrightarrow> ip_exit s \<or> recorded s)
     \<and> (recorded s' \<longrightarrow> recorded s \<or> failing p') \<and> (failing p \<longrightarrow> failing p' \<or> ip_exit s') \<and> (ip_exit s \<longrightarrow> ip_exit s')"
  using assms
proof (induction rule: process_step.induct)
  case (begin_put s n k)
  then show ?case using told_failing [of k] by (cases n) (auto simp: recorded_def)
qed (auto simp: fail_with_def recorded_def)

lemma process_locks:
  assumes "process_step longest cap bytes p s p' s'" "ip_locked s' q"
  shows "(\<exists>k. p' = Puts q k) \<or> ip_locked s q \<and> (\<forall>k. p \<noteq> Puts q k)"
  using assms by (induction rule: process_step.induct) (auto split: if_splits)

lemma recorded_kept: "pool_step clients longest cap bytes s t \<Longrightarrow> recorded s \<Longrightarrow> recorded t"
proof (induction rule: pool_step.induct)
  case (drain_report s q n ns)
  then show ?case by (cases n; cases q) (auto simp: recorded_def)
next
  case (process_moves s pl p p' s')
  then have "recorded s'" using process_recorded by blast
  then show ?case by (cases pl) (simp_all add: recorded_def)
qed (simp_all add: recorded_def)

text \<open>Nothing is recorded that a process has not put.\<close>

definition pipes_sorted :: "'b pool \<Rightarrow> bool" where
  "pipes_sorted s \<longleftrightarrow> (\<forall>q. \<forall>n \<in> set (ip_pipes s q). pipe_of n = q)"

lemma process_sorted: "process_step longest cap bytes p s p' s' \<Longrightarrow> pipes_sorted s \<Longrightarrow> pipes_sorted s'"
  by (induction rule: process_step.induct) (auto simp: pipes_sorted_def)

lemma pool_step_sorted: "pool_step clients longest cap bytes s t \<Longrightarrow> pipes_sorted s \<Longrightarrow> pipes_sorted t"
proof (induction rule: pool_step.induct)
  case (process_moves s pl p p' s')
  then have "pipes_sorted s'" using process_sorted by blast
  then show ?case by (cases pl) (simp_all add: pipes_sorted_def)
qed (auto simp: pipes_sorted_def)

lemma recorded_drained:
  assumes "pipes_sorted s" "ip_pipes s q = n # ns"
  shows "recorded (receive_report n (s\<lparr>ip_pipes := (ip_pipes s)(q := ns)\<rparr>)) = recorded s"
proof -
  have "pipe_of n = q" using assms by (auto simp: pipes_sorted_def)
  then show ?thesis using assms(2) by (cases n; cases q) (auto simp: recorded_def)
qed

lemma pool_step_reports:
  assumes "pool_step clients longest cap bytes s t" "pipes_sorted s" "reports_inv s"
  shows "reports_inv t"
  using assms
proof (induction rule: pool_step.induct)
  case (start_reader s xs rest)
  then show ?case by (auto simp: reports_inv_def processes.simps recorded_def)
next
  case (reap_reader s i)
  obtain us x vs where xs: "ip_readers s = us @ x # vs" "i = length us"
    using split_at [of i "ip_readers s"] reap_reader(2) by auto
  then have x: "x = Ended" using reap_reader(2) by simp
  have "processes s = insert Ended (processes (s\<lparr>ip_readers := take i (ip_readers s) @ drop (Suc i) (ip_readers s)\<rparr>))"
    unfolding x [symmetric] using xs by (auto simp: processes.simps)
  then show ?case using reap_reader(4) by (simp add: reports_inv_def recorded_def)
next
  case (drain_report s q n ns)
  then show ?case using recorded_drained [OF drain_report(3,2)] by (simp add: reports_inv_def) (simp add: processes.simps)
next
  case (process_moves s pl p p' s')
  let ?t = "set_proc pl p' s'"
  have p: "sound p" "told p \<longrightarrow> recorded s" "p \<in> processes s"
    using proc_in [OF process_moves(1)] process_moves(4) by (auto simp: reports_inv_def)
  note r = process_reports [OF process_moves(2) p(1,2)] and m = processes_move [OF process_moves(1,2)]
  have same: "recorded ?t = recorded s'" "ip_exit ?t = ip_exit s'" "ip_locked ?t = ip_locked s'"
    by (cases pl; simp add: recorded_def)+
  have kept: "recorded s \<longrightarrow> recorded s'" using process_recorded [OF process_moves(2)] by blast
  have "\<forall>x \<in> processes ?t. sound x \<and> (told x \<longrightarrow> recorded ?t)"
    using m(1) r kept process_moves(4) unfolding same by (auto simp: reports_inv_def)
  moreover have "ip_exit ?t \<longrightarrow> recorded ?t" using r kept process_moves(4) unfolding same by (auto simp: reports_inv_def)
  moreover have "ip_exit ?t \<or> (\<exists>x \<in> processes ?t. failing x)" if "recorded ?t"
  proof (cases "recorded s")
    case True
    then have "ip_exit s \<or> (\<exists>x \<in> processes s. failing x)" using process_moves(4) by (simp add: reports_inv_def)
    then show ?thesis using r m(2,3) unfolding same by metis
  next
    case False
    then show ?thesis using that r m(2) unfolding same by blast
  qed
  moreover have "\<exists>k. Puts q k \<in> processes ?t" if "ip_locked ?t q" for q
  proof (cases "\<exists>k. p' = Puts q k")
    case True
    then show ?thesis using m(2) by blast
  next
    case False
    then have "ip_locked s q" "\<forall>k. p \<noteq> Puts q k" using process_locks [OF process_moves(2)] that unfolding same by blast+
    then obtain k where "Puts q k \<in> processes s" "Puts q k \<noteq> p" using process_moves(4) unfolding reports_inv_def by metis
    then show ?thesis using m(3) by blast
  qed
  ultimately show ?case unfolding reports_inv_def by blast
qed (auto simp: reports_inv_def processes.simps recorded_def)

text \<open>All of it for a run.\<close>

definition pool_wf :: "nat \<Rightarrow> nat \<Rightarrow> 'b pool \<Rightarrow> bool" where
  "pool_wf clients longest s \<longleftrightarrow> pool_inv clients longest s \<and> pipes_sorted s \<and> reports_inv s"

lemma new_pool_wf: "pool_wf clients longest (new_pool clients sources)"
  using new_pool_inv new_reports_inv by (auto simp: pool_wf_def pipes_sorted_def new_pool_def)

lemma pool_step_wf: "pool_step clients longest cap bytes s t \<Longrightarrow> pool_wf clients longest s \<Longrightarrow> pool_wf clients longest t"
  using pool_step_inv pool_step_sorted pool_step_reports unfolding pool_wf_def by blast

subsection \<open>Nothing is lost\<close>

fun batches_of :: "'b source_item list \<Rightarrow> 'b list" where
  "batches_of [] = []"
| "batches_of (Batch b # xs) = b # batches_of xs"
| "batches_of (Warns m # xs) = batches_of xs"

fun carried :: "'b process \<Rightarrow> 'b list" where
  "carried (Reads xs) = batches_of xs"
| "carried (Holds b xs) = b # batches_of xs"
| "carried (Writes b) = [b]"
| "carried (Tells n k) = carried k"
| "carried (Puts q k) = carried k"
| "carried _ = []"

fun leaving :: "'b process \<Rightarrow> bool" where
  "leaving Ended = True"
| "leaving (Tells n k) = leaving k"
| "leaving (Puts q k) = leaving k"
| "leaving _ = False"

fun work_in :: "'b option list \<Rightarrow> 'b list" where
  "work_in [] = []"
| "work_in (Some b # q) = b # work_in q"
| "work_in (None # q) = work_in q"

lemma work_in_append [simp]: "work_in (a @ b) = work_in a @ work_in b"
  by (induction a rule: work_in.induct) simp_all

lemma work_in_stops [simp]: "work_in (replicate k None) = []"
  by (induction k) simp_all

text \<open>All batches of a state, wherever they are.\<close>

definition batches_in :: "'b pool \<Rightarrow> 'b multiset" where
  "batches_in s = mset (concat (map batches_of (ip_todo s))) + mset (concat (map carried (ip_readers s))) + mset (work_in (ip_queue s))
     + mset (concat (map carried (ip_writers s))) + mset (ip_written s)"

definition gone :: "'b pool \<Rightarrow> nat" where
  "gone s = length (filter leaving (ip_writers s))"

definition stops_in :: "'b pool \<Rightarrow> nat" where
  "stops_in s = count_list (ip_queue s) None"

text \<open>How many signs to stop have been put on the queue in a phase.\<close>

fun stops_due :: "nat \<Rightarrow> pool_phase \<Rightarrow> nat \<Rightarrow> bool" where
  "stops_due n Starting m = (m = 0)"
| "stops_due n AwaitReaders m = (m = 0)"
| "stops_due n (Stopping k) m = (m + k = n)"
| "stops_due n _ m = (m = n)"

text \<open>As long as no error has been reported and none is on its way:\<close>

definition clean :: "'b pool \<Rightarrow> bool" where
  "clean s \<longleftrightarrow> \<not> recorded s \<and> (\<forall>p \<in> processes s. \<not> failing p)"

definition orderly :: "nat \<Rightarrow> 'b multiset \<Rightarrow> 'b pool \<Rightarrow> bool" where
  "orderly clients all s \<longleftrightarrow>
     batches_in s = all \<and> stops_due clients (ip_phase s) (stops_in s + gone s)
     \<and> (ip_phase s \<noteq> Starting \<longrightarrow> ip_todo s = [])
     \<and> (\<exists>bs k. ip_queue s = map Some bs @ replicate k None) \<and> (0 < gone s \<longrightarrow> work_in (ip_queue s) = [])"

lemma clean_before:
  assumes "pool_step clients longest cap bytes s t" "reports_inv s" "clean t"
  shows "clean s"
proof (rule ccontr)
  assume n: "\<not> clean s"
  have rec: "\<not> recorded s" using recorded_kept [OF assms(1)] assms(3) by (auto simp: clean_def)
  then obtain p where p: "p \<in> processes s" "failing p" using n by (auto simp: clean_def)
  have ok: "\<forall>p \<in> processes t. \<not> failing p" using assms(3) by (simp add: clean_def)
  from assms(1) show False
  proof (cases rule: pool_step.cases)
    case (reap_reader i)
    obtain us x vs where xs: "ip_readers s = us @ x # vs" "i = length us"
      using split_at [of i "ip_readers s"] reap_reader(3) by auto
    then have "x = Ended" using reap_reader(3) by simp
    then have "p \<in> processes t" using p xs reap_reader(1) by (auto simp: processes.simps)
    then show False using p ok by blast
  next
    case (process_moves pl r r' s')
    note m = processes_move [OF process_moves(2,3)]
    have "sound r" "\<not> told r" using proc_in [OF process_moves(2)] assms(2) rec by (auto simp: reports_inv_def)
    from process_reports [OF process_moves(3) this(1)] this(2)
    have r: "failing r \<longrightarrow> failing r' \<or> ip_exit s'" "ip_exit s' \<longrightarrow> ip_exit s \<or> recorded s" by blast+
    have "\<not> ip_exit s'" using r(2) rec assms(2) by (auto simp: reports_inv_def)
    then show False using r(1) p m(2,3) ok unfolding process_moves(1) by metis
  qed (use p ok in \<open>auto simp: processes.simps\<close>)
qed

lemma concat_update:
  assumes "i < length xs"
  shows "mset (concat (map f (xs[i := y]))) + mset (f (xs ! i)) = mset (concat (map f xs)) + mset (f y)"
proof -
  obtain us x vs where "xs = us @ x # vs" "i = length us" using split_at [OF assms] by blast
  then show ?thesis by (simp add: ac_simps)
qed

lemma concat_remove:
  assumes "i < length xs"
  shows "mset (concat (map f (take i xs @ drop (Suc i) xs))) + mset (f (xs ! i)) = mset (concat (map f xs))"
proof -
  obtain us x vs where "xs = us @ x # vs" "i = length us" using split_at [OF assms] by blast
  then show ?thesis by (simp add: ac_simps)
qed

lemma leaving_update:
  assumes "i < length xs"
  shows "length (filter P (xs[i := y])) + of_bool (P (xs ! i)) = length (filter P xs) + of_bool (P y)"
proof -
  obtain us x vs where "xs = us @ x # vs" "i = length us" using split_at [OF assms] by blast
  then show ?thesis by simp
qed

text \<open>What a process carries, with what is on the queue and what is written, stays the same.\<close>

lemma process_carries:
  assumes "process_step longest cap bytes p s p' s'" "\<not> failing p'" "\<not> ip_exit s"
  shows "mset (carried p') + mset (work_in (ip_queue s')) + mset (ip_written s')
    = mset (carried p) + mset (work_in (ip_queue s)) + mset (ip_written s)"
  using assms by (induction rule: process_step.induct) (auto simp: fail_with_def)

lemma reader_stops:
  assumes "process_step longest cap bytes p s p' s'" "reader_like p"
  shows "stops_in s' = stops_in s"
    and "ip_queue s = map Some bs \<Longrightarrow> \<exists>bs'. ip_queue s' = map Some bs'"
proof -
  show "stops_in s' = stops_in s"
    using assms by (induction rule: process_step.induct) (simp_all add: stops_in_def)
  have "ip_queue s' = ip_queue s \<or> (\<exists>b. ip_queue s' = ip_queue s @ [Some b])"
    using assms by (induction rule: process_step.induct) simp_all
  then show "\<exists>bs'. ip_queue s' = map Some bs'" if "ip_queue s = map Some bs"
    using that by (metis list.simps(8,9) map_append)
qed

lemma writer_stops:
  assumes "process_step longest cap bytes p s p' s'" "writer_like p" "\<not> failing p" "\<not> failing p'" "\<not> ip_exit s"
  shows "stops_in s' + of_bool (leaving p') = stops_in s + of_bool (leaving p)"
    and "ip_queue s' = ip_queue s \<and> leaving p' = leaving p \<or> (\<exists>b. ip_queue s = Some b # ip_queue s') \<and> leaving p' = leaving p
      \<or> ip_queue s = None # ip_queue s'"
proof -
  show "stops_in s' + of_bool (leaving p') = stops_in s + of_bool (leaving p)"
    using assms by (induction rule: process_step.induct) (simp_all add: stops_in_def fail_with_def)
  show "ip_queue s' = ip_queue s \<and> leaving p' = leaving p \<or> (\<exists>b. ip_queue s = Some b # ip_queue s') \<and> leaving p' = leaving p
      \<or> ip_queue s = None # ip_queue s'"
    using assms by (induction rule: process_step.induct) (simp_all add: fail_with_def)
qed

lemma orderly_reader:
  assumes "orderly clients all s" "pool_inv clients longest s" "proc_at s (Reader i) p"
    "process_step longest cap bytes p s p' s'" "\<not> failing p'" "\<not> ip_exit s"
  shows "orderly clients all (set_proc (Reader i) p' s')"
proof -
  note f = process_frame [OF assms(4)]
  have i: "i < length (ip_readers s)" "ip_readers s ! i = p" using assms(3) by simp_all
  have ph: "ip_phase s \<in> {Starting, AwaitReaders}" using assms(2) i by (auto simp: pool_inv_def)
  have rl: "reader_like p" using assms(2) i by (auto simp: pool_inv_def)
  have z: "stops_in s = 0" "gone s = 0" using assms(1) ph by (auto simp: orderly_def)
  obtain bs k where q: "ip_queue s = map Some bs @ replicate k None" using assms(1) by (auto simp: orderly_def)
  have "k = 0" using z(1) q by (auto simp: stops_in_def count_list_0_iff)
  then have "\<exists>bs'. ip_queue s' = map Some bs'" using reader_stops(2) [OF assms(4) rl, of bs] q by simp
  then have queue: "\<exists>bs k. ip_queue s' = map Some bs @ replicate k None" by (metis append_Nil2 replicate_0)
  have "batches_in (set_proc (Reader i) p' s') + mset (carried p) + mset (work_in (ip_queue s)) + mset (ip_written s)
      = batches_in s + (mset (carried p') + mset (work_in (ip_queue s')) + mset (ip_written s'))"
    using concat_update [OF i(1), of carried p'] f i(2) by (simp add: batches_in_def ac_simps)
  then have "batches_in (set_proc (Reader i) p' s') = batches_in s"
    unfolding process_carries [OF assms(4-6)] by (simp add: ac_simps)
  moreover have "stops_in (set_proc (Reader i) p' s') = 0" "gone (set_proc (Reader i) p' s') = 0"
    using reader_stops(1) [OF assms(4) rl] z f by (simp_all add: stops_in_def gone_def)
  ultimately show ?thesis using assms(1) queue f ph by (auto simp: orderly_def)
qed

lemma orderly_writer:
  assumes "orderly clients all s" "pool_inv clients longest s" "proc_at s (Writer i) p"
    "process_step longest cap bytes p s p' s'" "\<not> failing p" "\<not> failing p'" "\<not> ip_exit s"
  shows "orderly clients all (set_proc (Writer i) p' s')"
proof -
  let ?t = "set_proc (Writer i) p' s'"
  note f = process_frame [OF assms(4)]
  have i: "i < length (ip_writers s)" "ip_writers s ! i = p" using assms(3) by simp_all
  have wl: "writer_like p" using assms(2) i by (auto simp: pool_inv_def)
  note stops = writer_stops [OF assms(4) wl assms(5-7)]
  have "batches_in ?t + mset (carried p) + mset (work_in (ip_queue s)) + mset (ip_written s)
      = batches_in s + (mset (carried p') + mset (work_in (ip_queue s')) + mset (ip_written s'))"
    using concat_update [OF i(1), of carried p'] f i(2) by (simp add: batches_in_def ac_simps)
  then have batches: "batches_in ?t = batches_in s"
    unfolding process_carries [OF assms(4,6,7)] by (simp add: ac_simps)
  have g: "gone ?t + of_bool (leaving p) = gone s + of_bool (leaving p')"
    using leaving_update [OF i(1), of leaving p'] i(2) f by (simp add: gone_def)
  have "stops_in ?t = stops_in s'" by (simp add: stops_in_def)
  then have sum: "stops_in ?t + gone ?t = stops_in s + gone s" using stops(1) g by simp
  obtain bs k where q: "ip_queue s = map Some bs @ replicate k None" using assms(1) by (auto simp: orderly_def)
  have queue: "(\<exists>bs k. ip_queue s' = map Some bs @ replicate k None) \<and> (0 < gone ?t \<longrightarrow> work_in (ip_queue s') = [])"
    using stops(2)
  proof (elim disjE conjE exE)
    assume "ip_queue s' = ip_queue s" "leaving p' = leaving p"
    then show ?thesis using q g assms(1) by (auto simp: orderly_def)
  next
    fix b assume b: "ip_queue s = Some b # ip_queue s'" "leaving p' = leaving p"
    then have "ip_queue s' = map Some (tl bs) @ replicate k None" using q by (cases bs; cases k) auto
    then have "\<exists>bs k. ip_queue s' = map Some bs @ replicate k None" by blast
    then show ?thesis using b g assms(1) by (auto simp: orderly_def)
  next
    assume n: "ip_queue s = None # ip_queue s'"
    then have "ip_queue s' = replicate (k - 1) None" using q by (cases bs; cases k) auto
    then show ?thesis by (metis append_Nil list.simps(8) work_in_stops)
  qed
  show ?thesis using assms(1) batches sum queue f by (simp add: orderly_def)
qed

lemma orderly_step:
  assumes "pool_step clients longest cap bytes s t" "pool_wf clients longest s" "clean s \<Longrightarrow> orderly clients all s" "clean t"
  shows "orderly clients all t"
proof -
  have inv: "pool_inv clients longest s" "reports_inv s" using assms(2) by (simp_all add: pool_wf_def)
  have c: "clean s" using clean_before [OF assms(1) inv(2) assms(4)] .
  then have x: "\<not> ip_exit s" "orderly clients all s" using inv(2) assms(3) by (auto simp: clean_def reports_inv_def)
  from assms(1) show ?thesis
  proof (cases rule: pool_step.cases)
    case (reap_reader i)
    have "mset (concat (map carried (take i (ip_readers s) @ drop (Suc i) (ip_readers s)))) = mset (concat (map carried (ip_readers s)))"
      using concat_remove [of i "ip_readers s" carried] reap_reader(3) by simp
    then have "batches_in t = batches_in s" unfolding reap_reader(1) by (simp add: batches_in_def)
    then show ?thesis using x(2) unfolding reap_reader(1) by (simp add: orderly_def stops_in_def gone_def)
  next
    case (put_stop k)
    obtain bs m where "ip_queue s = map Some bs @ replicate m None" using x(2) by (auto simp: orderly_def)
    then have "ip_queue s @ [None] = map Some bs @ replicate (Suc m) None" by (simp add: replicate_append_same)
    then have "\<exists>bs k. ip_queue s @ [None] = map Some bs @ replicate k None" by blast
    then show ?thesis using x(2) put_stop(2) unfolding put_stop(1) by (auto simp: orderly_def batches_in_def stops_in_def gone_def)
  next
    case (process_moves pl p p' s')
    have "\<not> failing p'" using processes_move(2) [OF process_moves(2,3)] assms(4) unfolding process_moves(1) by (auto simp: clean_def)
    moreover have "\<not> failing p" using proc_in [OF process_moves(2)] c by (simp add: clean_def)
    ultimately show ?thesis
      using process_moves orderly_reader [OF x(2) inv(1) _ process_moves(3)] orderly_writer [OF x(2) inv(1) _ process_moves(3)] x(1)
      by (cases pl) auto
  qed (use x inv(1) in \<open>auto simp: orderly_def batches_in_def stops_in_def gone_def ac_simps pool_inv_def\<close>)
qed

lemma pool_steps_wf:
  "(pool_step clients longest cap bytes)\<^sup>*\<^sup>* (new_pool clients sources) s \<Longrightarrow> pool_wf clients longest s
     \<and> (clean s \<longrightarrow> orderly clients (mset (concat (map batches_of sources))) s)"
proof (induction rule: rtranclp_induct)
  case base
  have "filter leaving (replicate clients Idle) = ([] :: 'b process list)" by (induction clients) simp_all
  moreover have "concat (map carried (replicate clients Idle)) = ([] :: 'b list)" by (induction clients) simp_all
  ultimately show ?case using new_pool_wf
    by (auto simp: orderly_def new_pool_def batches_in_def stops_in_def gone_def)
next
  case (step s t)
  then show ?case using orderly_step [OF step(2)] pool_step_wf [OF step(2)] by blast
qed

text \<open>At the end the pipes are empty: nobody is left who could put anything.\<close>

lemma done_drained:
  assumes "(pool_step clients longest cap bytes)\<^sup>*\<^sup>* (new_pool clients sources) s" "ip_phase s = Done"
  shows "ip_pipes s q = []"
  using assms
proof (induction arbitrary: q rule: rtranclp_induct)
  case (step s t)
  have inv: "pool_inv clients longest s" using pool_steps_wf [OF step(1)] by (simp add: pool_wf_def)
  from step(2) show ?case
  proof (cases rule: pool_step.cases)
    case (process_moves pl p p' s')
    then have "ip_phase s = Done" using step(4) process_frame [OF process_moves(3)] by (cases pl) auto
    then have "p = Ended" using process_moves(2) inv by (cases pl) (auto simp: pool_inv_def)
    then show ?thesis using process_kind [OF process_moves(3)] by simp
  qed (use step(3,4) in \<open>auto simp: drains_def\<close>)
qed (simp add: new_pool_def)

text \<open>C9. An import writes everything: however its readers and writers take turns, there are never more readers
  than \<open>clients\<close> nor more on the queue than it may hold, and when the import ends without an error each
  batch of each source has been written once and none is left anywhere.\<close>

theorem import_writes_all:
  assumes "(pool_step clients longest cap bytes)\<^sup>*\<^sup>* (new_pool clients sources) s" "0 < clients"
  shows "length (ip_readers s) \<le> clients \<and> length (ip_queue s) \<le> longest
     \<and> (ip_phase s = Done \<longrightarrow> ip_errors s = [] \<longrightarrow> mset (ip_written s) = mset (concat (map batches_of sources)))"
proof -
  note w = pool_steps_wf [OF assms(1)]
  have inv: "pool_inv clients longest s" "reports_inv s" using w by (simp_all add: pool_wf_def)
  have "mset (ip_written s) = mset (concat (map batches_of sources))" if d: "ip_phase s = Done" "ip_errors s = []"
  proof -
    have p: "ip_readers s = []" "\<forall>p \<in> set (ip_writers s). p = Ended" using inv(1) d(1) by (auto simp: pool_inv_def)
    have wr: "ip_writers s = replicate clients Ended" using p(2) inv(1) by (simp add: pool_inv_def replicate_eqI)
    have "ip_pipes s q = []" for q using done_drained [OF assms(1)] d(1) by blast
    then have "\<not> recorded s" using d(2) by (simp add: recorded_def)
    then have "clean s" using p by (auto simp: clean_def processes.simps)
    then have o: "orderly clients (mset (concat (map batches_of sources))) s" using w by blast
    have "filter leaving (replicate n Ended) = replicate n (Ended :: 'b process)" for n by (induction n) simp_all
    then have "gone s = clients" using wr by (simp add: gone_def)
    then have "work_in (ip_queue s) = []" using o assms(2) by (simp add: orderly_def)
    have "concat (map carried (ip_writers s)) = []" using p(2) by (auto simp: concat_eq_Nil_conv)
    then have none: "mset (concat (map carried (ip_writers s))) = {#}" by (simp only: mset.simps)
    show ?thesis using o d(1) p(1) none \<open>work_in (ip_queue s) = []\<close> by (auto simp: orderly_def batches_in_def)
  qed
  then show ?thesis using inv(1) by (simp add: pool_inv_def)
qed

subsection \<open>It ends\<close>

text \<open>What the state has left to do, as a number that every step makes smaller.\<close>

fun process_weight :: "'b process \<Rightarrow> nat" where
  "process_weight (Reads xs) = 5 + 16 * length xs"
| "process_weight (Holds b xs) = 17 + 16 * length xs"
| "process_weight Idle = 1"
| "process_weight (Writes b) = 5"
| "process_weight (Tells n k) = 3 + process_weight k"
| "process_weight (Puts q k) = 1 + process_weight k"
| "process_weight Fails = 1"
| "process_weight Ended = 0"

fun item_weight :: "'b option \<Rightarrow> nat" where
  "item_weight (Some b) = 8"
| "item_weight None = 3"

fun phase_weight :: "nat \<Rightarrow> pool_phase \<Rightarrow> nat" where
  "phase_weight n Starting = 5 + 4 * n"
| "phase_weight n AwaitReaders = 4 + 4 * n"
| "phase_weight n (Stopping k) = 3 + 4 * k"
| "phase_weight n AwaitWriters = 2"
| "phase_weight n Draining = 1"
| "phase_weight n Done = 0"

definition pipes_weight :: "'b pool \<Rightarrow> nat" where
  "pipes_weight s = length (ip_pipes s TimingPipe) + length (ip_pipes s WarningPipe) + length (ip_pipes s ErrorPipe)"

definition shared_weight :: "'b pool \<Rightarrow> nat" where
  "shared_weight s = sum_list (map item_weight (ip_queue s)) + pipes_weight s"

definition pool_weight :: "'b pool \<Rightarrow> nat" where
  "pool_weight s = sum_list (map (\<lambda>xs. 7 + 16 * length xs) (ip_todo s))
     + sum_list (map (\<lambda>p. Suc (process_weight p)) (ip_readers s)) + shared_weight s
     + sum_list (map process_weight (ip_writers s)) + phase_weight (length (ip_writers s)) (ip_phase s)"

text \<open>So many steps an import can take.\<close>

definition import_bound :: "nat \<Rightarrow> 'b source_item list list \<Rightarrow> nat" where
  "import_bound clients sources = sum_list (map (\<lambda>xs. 7 + 16 * length xs) sources) + 5 * clients + 5"

lemma new_pool_weight: "pool_weight (new_pool clients sources) = import_bound clients sources"
  by (simp add: pool_weight_def new_pool_def shared_weight_def pipes_weight_def import_bound_def sum_list_replicate)

lemma sum_update: "i < length xs \<Longrightarrow> sum_list (map f (xs[i := y])) + f (xs ! i) = sum_list (map f xs) + (f y :: nat)"
proof -
  assume "i < length xs"
  then obtain us x vs where "xs = us @ x # vs" "i = length us" using split_at by blast
  then show ?thesis by simp
qed

lemma sum_remove: "i < length xs \<Longrightarrow> sum_list (map f (take i xs @ drop (Suc i) xs)) + f (xs ! i) = (sum_list (map f xs) :: nat)"
proof -
  assume "i < length xs"
  then obtain us x vs where "xs = us @ x # vs" "i = length us" using split_at by blast
  then show ?thesis by simp
qed

lemma pipes_weight_put:
  fixes s :: "'b pool"
  shows "pipes_weight (s\<lparr>ip_pipes := (ip_pipes s)(q := xs), ip_locked := l\<rparr>) + length (ip_pipes s q) = pipes_weight s + length xs"
    and "pipes_weight (s\<lparr>ip_pipes := (ip_pipes s)(q := xs)\<rparr>) + length (ip_pipes s q) = pipes_weight s + length xs"
  by (cases q; simp add: pipes_weight_def)+

lemma process_lighter:
  "process_step longest cap bytes p s p' s' \<Longrightarrow> process_weight p' + shared_weight s' < process_weight p + shared_weight s"
proof (induction rule: process_step.induct)
  case (begin_put s n k)
  have "pipes_weight (s\<lparr>ip_pipes := (ip_pipes s)(pipe_of n := ip_pipes s (pipe_of n) @ [n]), ip_locked := (ip_locked s)(pipe_of n := True)\<rparr>)
      = Suc (pipes_weight s)"
    using pipes_weight_put(1) [where s = s and q = "pipe_of n" and xs = "ip_pipes s (pipe_of n) @ [n]"] by simp
  then show ?case by (simp add: shared_weight_def)
qed (simp_all add: shared_weight_def pipes_weight_def fail_with_def)

lemma receive_weight [simp]: "pipes_weight (receive_report n s) = pipes_weight s"
  by (simp add: pipes_weight_def)

lemma pool_step_lighter: "pool_step clients longest cap bytes s t \<Longrightarrow> pool_weight t < pool_weight s"
proof (induction rule: pool_step.induct)
  case (reap_reader s i)
  then show ?case using sum_remove [of i "ip_readers s" "\<lambda>p. Suc (process_weight p)"]
    by (simp add: pool_weight_def shared_weight_def pipes_weight_def)
next
  case (discard_work s x q)
  then show ?case by (cases x) (simp_all add: pool_weight_def shared_weight_def pipes_weight_def)
next
  case (drain_report s q n ns)
  then show ?case using pipes_weight_put(2) [where s = s and q = q and xs = ns] by (simp add: pool_weight_def shared_weight_def del: receive_report.simps)
next
  case (process_moves s pl p p' s')
  note f = process_frame [OF process_moves(2)] and l = process_lighter [OF process_moves(2)]
  have shared: "shared_weight (set_proc pl p' s') = shared_weight s'"
    by (cases pl) (simp_all add: shared_weight_def pipes_weight_def)
  show ?case
  proof (cases pl)
    case (Reader i)
    then show ?thesis using f l shared process_moves(1) sum_update [of i "ip_readers s" "\<lambda>p. Suc (process_weight p)" p']
      by (simp add: pool_weight_def)
  next
    case (Writer i)
    then show ?thesis using f l shared process_moves(1) sum_update [of i "ip_writers s" process_weight p']
      by (simp add: pool_weight_def)
  qed
qed (simp_all add: pool_weight_def shared_weight_def pipes_weight_def)

lemma run_bounded: "(pool_step clients longest cap bytes ^^ n) s t \<Longrightarrow> n + pool_weight t \<le> pool_weight s"
proof (induction n arbitrary: t)
  case (Suc n)
  then obtain u where "(pool_step clients longest cap bytes ^^ n) s u" "pool_step clients longest cap bytes u t" by auto
  then show ?case using Suc.IH [of u] pool_step_lighter [of clients longest cap bytes u t] by simp
qed simp

text \<open>When somebody is inside a \<open>put\<close> that cannot end, because the pipe is full:\<close>

definition put_blocked :: "nat \<Rightarrow> (report \<Rightarrow> nat) \<Rightarrow> 'b pool \<Rightarrow> bool" where
  "put_blocked cap bytes s \<longleftrightarrow> (\<exists>q k. Puts q k \<in> processes s \<and> cap < pipe_load bytes s q)"

fun joining :: "pool_phase \<Rightarrow> bool" where
  "joining (Stopping k) = True"
| "joining AwaitWriters = True"
| "joining _ = False"

lemma process_can:
  assumes "process_step longest cap bytes p s p' s'" "p \<in> processes s"
  shows "\<exists>t. pool_step clients longest cap bytes s t"
proof -
  obtain pl where "proc_at s pl p" using in_proc [OF assms(2)] by blast
  from pool_step.process_moves [OF this assms(1)] show ?thesis by (rule exI)
qed

lemma some_step: "pool_step clients longest cap bytes s t \<Longrightarrow> \<exists>t. pool_step clients longest cap bytes s t"
  by (rule exI)

lemmas pool_can =
  pool_step.start_reader [THEN some_step] pool_step.no_more_sources [THEN some_step] pool_step.no_more_after_exit [THEN some_step]
  pool_step.reap_reader [THEN some_step] pool_step.readers_done [THEN some_step] pool_step.put_stop [THEN some_step]
  pool_step.skip_stop [THEN some_step] pool_step.stops_put [THEN some_step] pool_step.writers_done [THEN some_step]
  pool_step.drain_report [THEN some_step] pool_step.all_drained [THEN some_step]

text \<open>A process that has something to report gets on, or somebody is blocked.\<close>

lemma reports_go_on:
  assumes "reports_inv s" "Tells n k \<in> processes s \<or> Puts q k \<in> processes s"
  shows "(\<exists>t. pool_step clients longest cap bytes s t) \<or> put_blocked cap bytes s"
proof -
  have puts: "(\<exists>t. pool_step clients longest cap bytes s t) \<or> put_blocked cap bytes s" if "Puts r j \<in> processes s" for r j
  proof (cases "pipe_load bytes s r \<le> cap")
    case True
    show ?thesis using process_can [OF process_step.end_put [OF True] that] by blast
  next
    case False
    then show ?thesis using that by (auto simp: put_blocked_def)
  qed
  show ?thesis
  proof (cases "\<exists>r j. Puts r j \<in> processes s")
    case True
    then show ?thesis using puts by blast
  next
    case False
    then have t: "Tells n k \<in> processes s" using assms(2) by blast
    have "\<not> ip_locked s (pipe_of n)" using False assms(1) by (auto simp: reports_inv_def)
    from process_can [OF process_step.begin_put [OF this] t] show ?thesis by blast
  qed
qed

text \<open>While somebody drains the pipes nobody is blocked for long.\<close>

lemma blocked_drained:
  assumes "put_blocked cap bytes s" "drains s"
  shows "\<exists>t. pool_step clients longest cap bytes s t"
proof -
  obtain q where "cap < pipe_load bytes s q" using assms(1) by (auto simp: put_blocked_def)
  then obtain n ns where "ip_pipes s q = n # ns" by (cases "ip_pipes s q") (auto simp: pipe_load_def)
  then show ?thesis by (rule pool_can(10) [OF assms(2)])
qed

fun waiting :: "'b process \<Rightarrow> bool" where
  "waiting (Holds b xs) = True"
| "waiting Idle = True"
| "waiting Ended = True"
| "waiting _ = False"

lemma not_waiting:
  assumes "p \<in> processes s" "\<not> waiting p" "reports_inv s"
  shows "(\<exists>t. pool_step clients longest cap bytes s t) \<or> put_blocked cap bytes s"
proof (cases p)
  case (Reads xs)
  then show ?thesis using process_can [OF process_step.reader_fails] assms(1) by blast
next
  case (Writes b)
  then have "Writes b \<in> processes s" using assms(1) by simp
  then show ?thesis by (rule process_can [OF process_step.batch_written, THEN disjI1])
next
  case Fails
  then show ?thesis using process_can [OF process_step.set_exit] assms(1) by blast
next
  case (Tells n k)
  then show ?thesis using assms(1) by (intro reports_go_on [OF assms(3), of n k]) simp
next
  case (Puts q k)
  then show ?thesis using assms(1) by (intro reports_go_on [OF assms(3), of _ k q]) simp
qed (use assms(2) in simp_all)

text \<open>When the exit event is set, who waits can stop.\<close>

lemma exit_goes_on:
  assumes "ip_exit s" "\<forall>p \<in> processes s. waiting p" "pool_inv clients longest s" "ip_phase s \<notin> {Draining, Done}"
  shows "\<exists>t. pool_step clients longest cap bytes s t"
proof (cases "\<forall>p \<in> processes s. p = Ended")
  case False
  then obtain p where p: "p \<in> processes s" "p \<noteq> Ended" "waiting p" using assms(2) by blast
  then show ?thesis
    using process_can [OF process_step.stop_reading [OF assms(1)]] process_can [OF process_step.stop_writing [OF assms(1)]]
    by (cases p) auto
next
  case True
  have reap: "\<exists>t. pool_step clients longest cap bytes s t" if "ip_phase s \<in> {Starting, AwaitReaders}" "ip_readers s \<noteq> []"
  proof -
    have "proc_at s (Reader 0) Ended" using that(2) True by (auto simp: processes.simps)
    then show ?thesis by (rule pool_can(4) [OF that(1)])
  qed
  show ?thesis
  proof (cases "ip_phase s")
    case Starting
    then show ?thesis by (rule pool_can(3)) (rule assms(1))
  next
    case AwaitReaders
    then show ?thesis using reap pool_can(5) [OF AwaitReaders] by (cases "ip_readers s = []") auto
  next
    case (Stopping k)
    then show ?thesis using pool_can(7) [OF _ assms(1)] pool_can(8) by (cases k) auto
  next
    case AwaitWriters
    then show ?thesis by (rule pool_can(9)) (use True in \<open>auto simp: processes.simps\<close>)
  qed (use assms(4) in simp_all)
qed

lemma some_idle:
  assumes "gone s < length (ip_writers s)" "\<forall>p \<in> processes s. waiting p" "pool_inv clients longest s" "ip_queue s \<noteq> []"
  shows "\<exists>t. pool_step clients longest cap bytes s t"
proof -
  have "\<exists>p \<in> set (ip_writers s). \<not> leaving p"
    using assms(1) unfolding gone_def by (metis filter_True less_irrefl)
  then obtain p where p: "p \<in> set (ip_writers s)" "\<not> leaving p" by blast
  have "waiting p" "writer_like p" using p assms(2,3) by (auto simp: processes.simps pool_inv_def)
  then have "p = Idle" using p(2) by (cases p) auto
  then have "Idle \<in> processes s" using p(1) by (simp add: processes.simps)
  moreover obtain x q where "ip_queue s = x # q" using assms(4) by (cases "ip_queue s") auto
  ultimately show ?thesis using process_can [OF process_step.take_work] process_can [OF process_step.take_stop] by (cases x) auto
qed

text \<open>Without errors the readers, the queue and the writers always move.\<close>

lemma orderly_goes_on:
  assumes "orderly clients all s" "\<forall>p \<in> processes s. waiting p" "pool_inv clients longest s"
    "ip_phase s \<notin> {Draining, Done}" "0 < clients" "0 < longest"
  shows "\<exists>t. pool_step clients longest cap bytes s t"
proof -
  have n: "length (ip_writers s) = clients" using assms(3) by (simp add: pool_inv_def)
  have readers: "\<exists>t. pool_step clients longest cap bytes s t"
    if ph: "ip_phase s \<in> {Starting, AwaitReaders}" and r: "ip_readers s \<noteq> []"
  proof -
    obtain p where p: "proc_at s (Reader 0) p" using r by simp
    then have k: "waiting p" "reader_like p" "p \<in> processes s" using assms(2,3) r proc_in [OF p] by (auto simp: pool_inv_def)
    show ?thesis
    proof (cases p)
      case Ended
      then show ?thesis using p by (intro pool_can(4) [OF ph, of 0]) simp
    next
      case (Holds b xs)
      show ?thesis
      proof (cases "length (ip_queue s) < longest")
        case True
        show ?thesis using process_can [OF process_step.put_work [OF True]] Holds k(3) by blast
      next
        case False
        then have "gone s < length (ip_writers s)" "ip_queue s \<noteq> []" using assms(1,5,6) ph n by (auto simp: orderly_def)
        then show ?thesis using some_idle assms(2,3) by blast
      qed
    qed (use k in simp_all)
  qed
  show ?thesis
  proof (cases "ip_phase s")
    case Starting
    show ?thesis
    proof (cases "length (ip_readers s) < clients")
      case True
      show ?thesis using pool_can(1,2) [OF Starting True] by (cases "ip_todo s") auto
    next
      case False
      then show ?thesis using readers Starting assms(5) by (cases "ip_readers s = []") auto
    qed
  next
    case AwaitReaders
    then show ?thesis using readers pool_can(5) [OF AwaitReaders] by (cases "ip_readers s = []") auto
  next
    case (Stopping k)
    show ?thesis
    proof (cases k)
      case 0
      then show ?thesis using Stopping by (intro pool_can(8)) simp
    next
      case (Suc m)
      show ?thesis
      proof (cases "length (ip_queue s) < longest")
        case True
        show ?thesis by (rule pool_can(6) [OF _ True]) (use Stopping Suc in simp)
      next
        case False
        then have "gone s < length (ip_writers s)" "ip_queue s \<noteq> []" using assms(1,6) Stopping Suc n by (auto simp: orderly_def)
        then show ?thesis using some_idle assms(2,3) by blast
      qed
    qed
  next
    case AwaitWriters
    show ?thesis
    proof (cases "\<forall>w \<in> set (ip_writers s). w = Ended")
      case True
      then show ?thesis by (rule pool_can(9) [OF AwaitWriters])
    next
      case False
      then obtain w where w: "w \<in> set (ip_writers s)" "w \<noteq> Ended" by blast
      then have "waiting w" "writer_like w" using assms(2,3) by (auto simp: processes.simps pool_inv_def)
      then have "\<not> leaving w" using w(2) by (cases w) auto
      then have g: "gone s < length (ip_writers s)" using w(1) unfolding gone_def by (rule length_filter_less [rotated])
      have "stops_in s + gone s = clients" using assms(1) AwaitWriters by (simp add: orderly_def)
      then have "0 < stops_in s" using g n by simp
      then have "ip_queue s \<noteq> []" by (auto simp: stops_in_def)
      then show ?thesis using some_idle g assms(2,3) by blast
    qed
  qed (use assms(4) in simp_all)
qed

lemma never_stuck:
  assumes "pool_wf clients longest s" "clean s \<Longrightarrow> orderly clients all s" "0 < clients" "0 < longest"
  shows "ip_phase s = Done \<or> (\<exists>t. pool_step clients longest cap bytes s t) \<or> joining (ip_phase s) \<and> put_blocked cap bytes s"
proof -
  have inv: "pool_inv clients longest s" "reports_inv s" using assms(1) by (simp_all add: pool_wf_def)
  have blocked: "(\<exists>t. pool_step clients longest cap bytes s t) \<or> joining (ip_phase s)"
    if "put_blocked cap bytes s" "ip_phase s \<noteq> Done"
    using blocked_drained [OF that(1)] pool_can(5) [of s] that(2)
    by (cases "ip_phase s"; cases "ip_readers s = []") (auto simp: drains_def)
  show ?thesis
  proof (cases "ip_phase s \<in> {Draining, Done}")
    case True
    show ?thesis
    proof (cases "\<forall>q. ip_pipes s q = []")
      case False
      then obtain q n ns where q: "ip_pipes s q = n # ns" by (meson neq_Nil_conv)
      show ?thesis
      proof (cases "ip_phase s = Draining")
        case True
        then have "drains s" by (simp add: drains_def)
        from pool_can(10) [OF this q] show ?thesis by blast
      qed (use \<open>ip_phase s \<in> {Draining, Done}\<close> in simp)
    qed (use True pool_can(11) [of s] in auto)
  next
    case False
    show ?thesis
    proof (cases "\<forall>p \<in> processes s. waiting p")
      case w: True
      have "\<not> failing p" if "p \<in> processes s" for p using w that by (cases p) auto
      then consider "ip_exit s" | "clean s" using inv(2) by (auto simp: reports_inv_def clean_def)
      then show ?thesis
      proof cases
        case 1
        then show ?thesis using exit_goes_on [OF 1 w inv(1) False] by blast
      next
        case 2
        then show ?thesis using orderly_goes_on [OF assms(2) [OF 2] w inv(1) False assms(3,4)] by blast
      qed
    next
      case no: False
      then obtain p where "p \<in> processes s" "\<not> waiting p" by blast
      then show ?thesis using not_waiting [OF _ _ inv(2)] blocked False by blast
    qed
  qed
qed

text \<open>C39. How an import ends: no run has more steps than a number that the sources determine; and in every
  state before the end some process can take a step, whichever fails and however full the queue and the pipes are,
  except when the import no longer drains the pipes, since it joins its writers, and a process is inside the \<open>put\<close> of a
  report that the pipe has no room for (\<open>large_error_hangs\<close>).  When the pipes hold all the reports there can be,
  it always comes to the end.\<close>

theorem import_ends:
  assumes "0 < clients" "0 < longest" "(pool_step clients longest cap bytes ^^ n) (new_pool clients sources) s"
  shows "n \<le> import_bound clients sources
     \<and> (ip_phase s = Done \<or> (\<exists>t. pool_step clients longest cap bytes s t) \<or> joining (ip_phase s) \<and> put_blocked cap bytes s)
     \<and> ((\<forall>r. bytes r \<le> m) \<and> m * import_bound clients sources \<le> cap
          \<longrightarrow> ip_phase s = Done \<or> (\<exists>t. pool_step clients longest cap bytes s t))"
proof -
  have run: "(pool_step clients longest cap bytes)\<^sup>*\<^sup>* (new_pool clients sources) s" using assms(3) by (rule relpowp_imp_rtranclp)
  have bound: "n + pool_weight s \<le> import_bound clients sources" using run_bounded [OF assms(3)] by (simp add: new_pool_weight)
  have goes: "ip_phase s = Done \<or> (\<exists>t. pool_step clients longest cap bytes s t) \<or> joining (ip_phase s) \<and> put_blocked cap bytes s"
    using never_stuck [OF _ _ assms(1,2)] pool_steps_wf [OF run] by blast
  have "\<not> put_blocked cap bytes s" if c: "\<forall>r. bytes r \<le> m" "m * import_bound clients sources \<le> cap"
  proof -
    have "pipe_load bytes s q \<le> cap" for q
    proof -
      have "pipe_load bytes s q \<le> m * length (ip_pipes s q)"
        unfolding pipe_load_def using sum_list_mono [of "ip_pipes s q" bytes "\<lambda>_. m"] c(1) by (simp add: sum_list_triv mult.commute)
      also have "length (ip_pipes s q) \<le> pool_weight s" by (cases q) (simp_all add: pool_weight_def shared_weight_def pipes_weight_def)
      then have "m * length (ip_pipes s q) \<le> m * import_bound clients sources" using bound by simp
      finally show ?thesis using c(2) by simp
    qed
    then show ?thesis by (auto simp: put_blocked_def not_less)
  qed
  then show ?thesis using bound goes by auto
qed

subsection \<open>Runs\<close>

text \<open>States of an import with one reader at a time and one writer.\<close>

definition pool_at :: "bool \<Rightarrow> 'b source_item list list \<Rightarrow> 'b process list \<Rightarrow> 'b option list \<Rightarrow> 'b process \<Rightarrow> 'b list
    \<Rightarrow> report list \<Rightarrow> report list \<Rightarrow> bool \<Rightarrow> bool \<Rightarrow> pool_phase \<Rightarrow> 'b pool" where
  "pool_at ex todo readers q w written timings errs lt le ph = \<lparr>ip_todo = todo, ip_readers = readers, ip_queue = q, ip_writers = [w],
     ip_written = written, ip_pipes = (\<lambda>_. [])(TimingPipe := timings, ErrorPipe := errs),
     ip_locked = (\<lambda>_. False)(TimingPipe := lt, ErrorPipe := le), ip_errors = [], ip_warnings = [], ip_exit = ex, ip_phase = ph\<rparr>"

lemma new_pool_one: "new_pool 1 sources = pool_at False sources [] [] Idle [] [] [] False False Starting"
  by (simp add: new_pool_def pool_at_def fun_eq_iff)

lemma all_pipes: "(\<forall>q. P q) \<longleftrightarrow> P TimingPipe \<and> P WarningPipe \<and> P ErrorPipe"
  by (metis pipe.exhaust)

lemma reader_moves:
  assumes "ip_readers s = [p]" "process_step longest cap bytes p s p' s'" "t = s'\<lparr>ip_readers := [p']\<rparr>"
  shows "pool_step clients longest cap bytes s t"
  using pool_step.process_moves [OF _ assms(2), of "Reader 0"] assms(1,3) process_frame [OF assms(2)] by simp

lemma writer_moves:
  assumes "ip_writers s = [p]" "process_step longest cap bytes p s p' s'" "t = s'\<lparr>ip_writers := [p']\<rparr>"
  shows "pool_step clients longest cap bytes s t"
  using pool_step.process_moves [OF _ assms(2), of "Writer 0"] assms(1,3) process_frame [OF assms(2)] by simp

lemma timing_drained:
  "drains s \<Longrightarrow> ip_pipes s TimingPipe = Timing # ns \<Longrightarrow> t = s\<lparr>ip_pipes := (ip_pipes s)(TimingPipe := ns)\<rparr>
     \<Longrightarrow> pool_step clients longest cap bytes s t"
  using pool_step.drain_report [of s TimingPipe Timing ns] by simp

text \<open>One batch is read and on its way to a writer, when the import already waits for the writers.\<close>

lemma batch_taken:
  fixes b :: 'b and bytes :: "report \<Rightarrow> nat"
  assumes "bytes Timing \<le> cap"
  shows "(pool_step 1 3 cap bytes ^^ 18)
    (pool_at False [[Batch b]] [] [] Idle [] [] [] False False Starting)
    (pool_at False [] [] [None] (Writes b) [] [Timing] [] False False AwaitWriters)"
proof -
  let ?step = "pool_step 1 3 cap bytes :: 'b pool \<Rightarrow> _"
  have s1: "?step
    (pool_at False [[Batch b]] [] [] Idle [] [] [] False False Starting)
    (pool_at False [] [Reads [Batch b]] [] Idle [] [] [] False False Starting)"
    using pool_step.start_reader [of "pool_at False [[Batch b]] [] [] Idle [] [] [] False False Starting" 1 "[Batch b]" "[]"] by (simp add: pool_at_def drains_def all_pipes)
  have s2: "?step
    (pool_at False [] [Reads [Batch b]] [] Idle [] [] [] False False Starting)
    (pool_at False [] [Tells Timing (Holds b [])] [] Idle [] [] [] False False Starting)"
    by (rule reader_moves [OF _ process_step.read_batch [where b=b and xs="[]"]]) (use assms in \<open>simp_all add: pool_at_def pipe_load_def fail_with_def fun_upd_twist\<close>)
  have s3: "?step
    (pool_at False [] [Tells Timing (Holds b [])] [] Idle [] [] [] False False Starting)
    (pool_at False [] [Puts TimingPipe (Holds b [])] [] Idle [] [Timing] [] True False Starting)"
    by (rule reader_moves [OF _ process_step.begin_put [where n=Timing and k="Holds b []"]]) (use assms in \<open>simp_all add: pool_at_def pipe_load_def fail_with_def fun_upd_twist\<close>)
  have s4: "?step
    (pool_at False [] [Puts TimingPipe (Holds b [])] [] Idle [] [Timing] [] True False Starting)
    (pool_at False [] [Holds b []] [] Idle [] [Timing] [] False False Starting)"
    by (rule reader_moves [OF _ process_step.end_put [where q=TimingPipe and k="Holds b []"]]) (use assms in \<open>simp_all add: pool_at_def pipe_load_def fail_with_def fun_upd_twist\<close>)
  have s5: "?step
    (pool_at False [] [Holds b []] [] Idle [] [Timing] [] False False Starting)
    (pool_at False [] [Holds b []] [] Idle [] [] [] False False Starting)"
    by (rule timing_drained [where ns = "[]"]) (simp_all add: pool_at_def drains_def fun_upd_twist)
  have s6: "?step
    (pool_at False [] [Holds b []] [] Idle [] [] [] False False Starting)
    (pool_at False [] [Tells Timing (Reads [])] [Some b] Idle [] [] [] False False Starting)"
    by (rule reader_moves [OF _ process_step.put_work [where b=b and xs="[]"]]) (use assms in \<open>simp_all add: pool_at_def pipe_load_def fail_with_def fun_upd_twist\<close>)
  have s7: "?step
    (pool_at False [] [Tells Timing (Reads [])] [Some b] Idle [] [] [] False False Starting)
    (pool_at False [] [Puts TimingPipe (Reads [])] [Some b] Idle [] [Timing] [] True False Starting)"
    by (rule reader_moves [OF _ process_step.begin_put [where n=Timing and k="Reads []"]]) (use assms in \<open>simp_all add: pool_at_def pipe_load_def fail_with_def fun_upd_twist\<close>)
  have s8: "?step
    (pool_at False [] [Puts TimingPipe (Reads [])] [Some b] Idle [] [Timing] [] True False Starting)
    (pool_at False [] [Reads []] [Some b] Idle [] [Timing] [] False False Starting)"
    by (rule reader_moves [OF _ process_step.end_put [where q=TimingPipe and k="Reads []"]]) (use assms in \<open>simp_all add: pool_at_def pipe_load_def fail_with_def fun_upd_twist\<close>)
  have s9: "?step
    (pool_at False [] [Reads []] [Some b] Idle [] [Timing] [] False False Starting)
    (pool_at False [] [Reads []] [Some b] Idle [] [] [] False False Starting)"
    by (rule timing_drained [where ns = "[]"]) (simp_all add: pool_at_def drains_def fun_upd_twist)
  have s10: "?step
    (pool_at False [] [Reads []] [Some b] Idle [] [] [] False False Starting)
    (pool_at False [] [Ended] [Some b] Idle [] [] [] False False Starting)"
    by (rule reader_moves [OF _ process_step.read_all]) (use assms in \<open>simp_all add: pool_at_def pipe_load_def fail_with_def fun_upd_twist\<close>)
  have s11: "?step
    (pool_at False [] [Ended] [Some b] Idle [] [] [] False False Starting)
    (pool_at False [] [] [Some b] Idle [] [] [] False False Starting)"
    using pool_step.reap_reader [of "pool_at False [] [Ended] [Some b] Idle [] [] [] False False Starting" 0] by (simp add: pool_at_def drains_def all_pipes)
  have s12: "?step
    (pool_at False [] [] [Some b] Idle [] [] [] False False Starting)
    (pool_at False [] [] [Some b] Idle [] [] [] False False AwaitReaders)"
    using pool_step.no_more_sources [of "pool_at False [] [] [Some b] Idle [] [] [] False False Starting" 1] by (simp add: pool_at_def drains_def all_pipes)
  have s13: "?step
    (pool_at False [] [] [Some b] Idle [] [] [] False False AwaitReaders)
    (pool_at False [] [] [Some b] Idle [] [] [] False False (Stopping 1))"
    using pool_step.readers_done [of "pool_at False [] [] [Some b] Idle [] [] [] False False AwaitReaders"] by (simp add: pool_at_def drains_def all_pipes)
  have s14: "?step
    (pool_at False [] [] [Some b] Idle [] [] [] False False (Stopping 1))
    (pool_at False [] [] [] (Tells Timing (Writes b)) [] [] [] False False (Stopping 1))"
    by (rule writer_moves [OF _ process_step.take_work [where b=b and q="[]"]]) (use assms in \<open>simp_all add: pool_at_def pipe_load_def fail_with_def fun_upd_twist\<close>)
  have s15: "?step
    (pool_at False [] [] [] (Tells Timing (Writes b)) [] [] [] False False (Stopping 1))
    (pool_at False [] [] [] (Puts TimingPipe (Writes b)) [] [Timing] [] True False (Stopping 1))"
    by (rule writer_moves [OF _ process_step.begin_put [where n=Timing and k="Writes b"]]) (use assms in \<open>simp_all add: pool_at_def pipe_load_def fail_with_def fun_upd_twist\<close>)
  have s16: "?step
    (pool_at False [] [] [] (Puts TimingPipe (Writes b)) [] [Timing] [] True False (Stopping 1))
    (pool_at False [] [] [] (Writes b) [] [Timing] [] False False (Stopping 1))"
    by (rule writer_moves [OF _ process_step.end_put [where q=TimingPipe and k="Writes b"]]) (use assms in \<open>simp_all add: pool_at_def pipe_load_def fail_with_def fun_upd_twist\<close>)
  have s17: "?step
    (pool_at False [] [] [] (Writes b) [] [Timing] [] False False (Stopping 1))
    (pool_at False [] [] [None] (Writes b) [] [Timing] [] False False (Stopping 0))"
    using pool_step.put_stop [of "pool_at False [] [] [] (Writes b) [] [Timing] [] False False (Stopping 1)" 0] by (simp add: pool_at_def drains_def all_pipes)
  have s18: "?step
    (pool_at False [] [] [None] (Writes b) [] [Timing] [] False False (Stopping 0))
    (pool_at False [] [] [None] (Writes b) [] [Timing] [] False False AwaitWriters)"
    using pool_step.stops_put [of "pool_at False [] [] [None] (Writes b) [] [Timing] [] False False (Stopping 0)"] by (simp add: pool_at_def drains_def all_pipes)
  have "(?step ^^ Suc (Suc (Suc (Suc (Suc (Suc (Suc (Suc (Suc (Suc (Suc (Suc (Suc (Suc (Suc (Suc (Suc (Suc 0))))))))))))))))))
    (pool_at False [[Batch b]] [] [] Idle [] [] [] False False Starting)
    (pool_at False [] [] [None] (Writes b) [] [Timing] [] False False AwaitWriters)"
    by (rule relpowp_Suc_I2, rule s1, rule relpowp_Suc_I2, rule s2, rule relpowp_Suc_I2, rule s3, rule relpowp_Suc_I2, rule s4, rule relpowp_Suc_I2, rule s5, rule relpowp_Suc_I2, rule s6, rule relpowp_Suc_I2, rule s7, rule relpowp_Suc_I2, rule s8, rule relpowp_Suc_I2, rule s9, rule relpowp_Suc_I2, rule s10, rule relpowp_Suc_I2, rule s11, rule relpowp_Suc_I2, rule s12, rule relpowp_Suc_I2, rule s13, rule relpowp_Suc_I2, rule s14, rule relpowp_Suc_I2, rule s15, rule relpowp_Suc_I2, rule s16, rule relpowp_Suc_I2, rule s17, rule relpowp_Suc_I2, rule s18, rule relpowp_0_I)
  then show ?thesis by (simp add: eval_nat_numeral del: relpowp.simps)
qed

text \<open>It is written, and the import ends.\<close>

lemma batch_done:
  fixes b :: 'b and bytes :: "report \<Rightarrow> nat"
  assumes "3 * bytes Timing \<le> cap"
  shows "(pool_step 1 3 cap bytes ^^ 11)
    (pool_at False [] [] [None] (Writes b) [] [Timing] [] False False AwaitWriters)
    (pool_at False [] [] [] Ended [b] [] [] False False Done)"
proof -
  let ?step = "pool_step 1 3 cap bytes :: 'b pool \<Rightarrow> _"
  have s1: "?step
    (pool_at False [] [] [None] (Writes b) [] [Timing] [] False False AwaitWriters)
    (pool_at False [] [] [None] (Tells Timing Idle) [b] [Timing] [] False False AwaitWriters)"
    by (rule writer_moves [OF _ process_step.batch_written [where b=b]]) (use assms in \<open>simp_all add: pool_at_def pipe_load_def fail_with_def fun_upd_twist\<close>)
  have s2: "?step
    (pool_at False [] [] [None] (Tells Timing Idle) [b] [Timing] [] False False AwaitWriters)
    (pool_at False [] [] [None] (Puts TimingPipe Idle) [b] [Timing, Timing] [] True False AwaitWriters)"
    by (rule writer_moves [OF _ process_step.begin_put [where n=Timing and k=Idle]]) (use assms in \<open>simp_all add: pool_at_def pipe_load_def fail_with_def fun_upd_twist\<close>)
  have s3: "?step
    (pool_at False [] [] [None] (Puts TimingPipe Idle) [b] [Timing, Timing] [] True False AwaitWriters)
    (pool_at False [] [] [None] Idle [b] [Timing, Timing] [] False False AwaitWriters)"
    by (rule writer_moves [OF _ process_step.end_put [where q=TimingPipe and k=Idle]]) (use assms in \<open>simp_all add: pool_at_def pipe_load_def fail_with_def fun_upd_twist\<close>)
  have s4: "?step
    (pool_at False [] [] [None] Idle [b] [Timing, Timing] [] False False AwaitWriters)
    (pool_at False [] [] [] (Tells Timing Ended) [b] [Timing, Timing] [] False False AwaitWriters)"
    by (rule writer_moves [OF _ process_step.take_stop [where q="[]"]]) (use assms in \<open>simp_all add: pool_at_def pipe_load_def fail_with_def fun_upd_twist\<close>)
  have s5: "?step
    (pool_at False [] [] [] (Tells Timing Ended) [b] [Timing, Timing] [] False False AwaitWriters)
    (pool_at False [] [] [] (Puts TimingPipe Ended) [b] [Timing, Timing, Timing] [] True False AwaitWriters)"
    by (rule writer_moves [OF _ process_step.begin_put [where n=Timing and k=Ended]]) (use assms in \<open>simp_all add: pool_at_def pipe_load_def fail_with_def fun_upd_twist\<close>)
  have s6: "?step
    (pool_at False [] [] [] (Puts TimingPipe Ended) [b] [Timing, Timing, Timing] [] True False AwaitWriters)
    (pool_at False [] [] [] Ended [b] [Timing, Timing, Timing] [] False False AwaitWriters)"
    by (rule writer_moves [OF _ process_step.end_put [where q=TimingPipe and k=Ended]]) (use assms in \<open>simp_all add: pool_at_def pipe_load_def fail_with_def fun_upd_twist\<close>)
  have s7: "?step
    (pool_at False [] [] [] Ended [b] [Timing, Timing, Timing] [] False False AwaitWriters)
    (pool_at False [] [] [] Ended [b] [Timing, Timing, Timing] [] False False Draining)"
    using pool_step.writers_done [of "pool_at False [] [] [] Ended [b] [Timing, Timing, Timing] [] False False AwaitWriters"] by (simp add: pool_at_def drains_def all_pipes)
  have s8: "?step
    (pool_at False [] [] [] Ended [b] [Timing, Timing, Timing] [] False False Draining)
    (pool_at False [] [] [] Ended [b] [Timing, Timing] [] False False Draining)"
    by (rule timing_drained [where ns = "[Timing, Timing]"]) (simp_all add: pool_at_def drains_def fun_upd_twist)
  have s9: "?step
    (pool_at False [] [] [] Ended [b] [Timing, Timing] [] False False Draining)
    (pool_at False [] [] [] Ended [b] [Timing] [] False False Draining)"
    by (rule timing_drained [where ns = "[Timing]"]) (simp_all add: pool_at_def drains_def fun_upd_twist)
  have s10: "?step
    (pool_at False [] [] [] Ended [b] [Timing] [] False False Draining)
    (pool_at False [] [] [] Ended [b] [] [] False False Draining)"
    by (rule timing_drained [where ns = "[]"]) (simp_all add: pool_at_def drains_def fun_upd_twist)
  have s11: "?step
    (pool_at False [] [] [] Ended [b] [] [] False False Draining)
    (pool_at False [] [] [] Ended [b] [] [] False False Done)"
    using pool_step.all_drained [of "pool_at False [] [] [] Ended [b] [] [] False False Draining"] by (simp add: pool_at_def drains_def all_pipes)
  have "(?step ^^ Suc (Suc (Suc (Suc (Suc (Suc (Suc (Suc (Suc (Suc (Suc 0)))))))))))
    (pool_at False [] [] [None] (Writes b) [] [Timing] [] False False AwaitWriters)
    (pool_at False [] [] [] Ended [b] [] [] False False Done)"
    by (rule relpowp_Suc_I2, rule s1, rule relpowp_Suc_I2, rule s2, rule relpowp_Suc_I2, rule s3, rule relpowp_Suc_I2, rule s4, rule relpowp_Suc_I2, rule s5, rule relpowp_Suc_I2, rule s6, rule relpowp_Suc_I2, rule s7, rule relpowp_Suc_I2, rule s8, rule relpowp_Suc_I2, rule s9, rule relpowp_Suc_I2, rule s10, rule relpowp_Suc_I2, rule s11, rule relpowp_0_I)
  then show ?thesis by (simp add: eval_nat_numeral del: relpowp.simps)
qed

text \<open>Or the writer fails and begins to report its error.\<close>

lemma batch_failed:
  fixes b :: 'b and bytes :: "report \<Rightarrow> nat"
  assumes "bytes Timing \<le> cap"
  shows "(pool_step 1 3 cap bytes ^^ 2)
    (pool_at False [] [] [None] (Writes b) [] [Timing] [] False False AwaitWriters)
    (pool_at False [] [] [None] (Puts ErrorPipe Fails) [] [Timing] [Trouble e] False True AwaitWriters)"
proof -
  let ?step = "pool_step 1 3 cap bytes :: 'b pool \<Rightarrow> _"
  have s1: "?step
    (pool_at False [] [] [None] (Writes b) [] [Timing] [] False False AwaitWriters)
    (pool_at False [] [] [None] (Tells (Trouble e) Fails) [] [Timing] [] False False AwaitWriters)"
    by (rule writer_moves [OF _ process_step.writer_fails [where b=b and e=e]]) (use assms in \<open>simp_all add: pool_at_def pipe_load_def fail_with_def fun_upd_twist\<close>)
  have s2: "?step
    (pool_at False [] [] [None] (Tells (Trouble e) Fails) [] [Timing] [] False False AwaitWriters)
    (pool_at False [] [] [None] (Puts ErrorPipe Fails) [] [Timing] [Trouble e] False True AwaitWriters)"
    by (rule writer_moves [OF _ process_step.begin_put [where n="Trouble e" and k=Fails]]) (use assms in \<open>simp_all add: pool_at_def pipe_load_def fail_with_def fun_upd_twist\<close>)
  have "(?step ^^ Suc (Suc 0))
    (pool_at False [] [] [None] (Writes b) [] [Timing] [] False False AwaitWriters)
    (pool_at False [] [] [None] (Puts ErrorPipe Fails) [] [Timing] [Trouble e] False True AwaitWriters)"
    by (rule relpowp_Suc_I2, rule s1, rule relpowp_Suc_I2, rule s2, rule relpowp_0_I)
  then show ?thesis by (simp add: eval_nat_numeral del: relpowp.simps)
qed

definition pool_pipe :: nat where
  "pool_pipe = 65536"

lemma one_batch_run:
  "(pool_step 1 3 pool_pipe (\<lambda>_. 100) ^^ 29) (new_pool 1 [[Batch b]])
    (pool_at False [] [] [] Ended [b] [] [] False False Done)"
proof -
  have "(pool_step 1 3 pool_pipe (\<lambda>_. 100) ^^ (18 + 11)) (new_pool 1 [[Batch b]])
    (pool_at False [] [] [] Ended [b] [] [] False False Done)"
    unfolding new_pool_one using batch_taken [where bytes = "\<lambda>_. 100" and cap = pool_pipe and b = b]
      batch_done [where bytes = "\<lambda>_. 100" and cap = pool_pipe and b = b]
    by (intro relpowp_trans) (simp_all add: pool_pipe_def)
  then show ?thesis by simp
qed

theorem import_writes_all_witness:
  "mset (ip_written (pool_at False [] [] [] Ended [7 :: nat] [] [] False False Done)) = mset [7 :: nat]"
  using import_writes_all [OF relpowp_imp_rtranclp [OF one_batch_run [of "7 :: nat"]]] by (simp add: pool_at_def)

theorem import_ends_witness:
  "(29 :: nat) \<le> import_bound 1 [[Batch (7 :: nat)]]"
  using import_ends [OF _ _ one_batch_run [of "7 :: nat"], of 0] by simp

text \<open>A report that is larger than the pipe stops the import for ever, when the readers have ended: the writer is inside the
  \<open>put\<close> of its error, before it sets the exit event, and the import joins the writer without draining
  the queue.  The error of a key that is there already has both rows in its text.\<close>

theorem large_error_hangs:
  assumes "bytes Timing \<le> cap" "cap < bytes (Trouble e)"
  shows "\<exists>s. (pool_step 1 3 cap bytes)\<^sup>*\<^sup>* (new_pool 1 [[Batch b]]) s \<and> ip_phase s = AwaitWriters
     \<and> ip_errors s = [] \<and> \<not> ip_exit s \<and> (\<forall>t. \<not> pool_step 1 3 cap bytes s t)"
proof -
  let ?s = "pool_at False [] [] [None] (Puts ErrorPipe Fails) [] [Timing] [Trouble e] False True AwaitWriters"
  have "(pool_step 1 3 cap bytes)\<^sup>*\<^sup>* (new_pool 1 [[Batch b]]) ?s"
    unfolding new_pool_one using relpowp_imp_rtranclp [OF batch_taken [where bytes = bytes and cap = cap and b = b]]
      relpowp_imp_rtranclp [OF batch_failed [where bytes = bytes and cap = cap and b = b and e = e]] assms(1)
    by (auto intro: rtranclp_trans)
  moreover have "\<not> process_step 3 cap bytes p ?s p' s'" if "proc_at ?s pl p" for pl p p' s'
  proof -
    have "p = Puts ErrorPipe Fails" using that by (cases pl) (simp_all add: pool_at_def)
    then show ?thesis using assms(2) by (auto simp: pool_at_def pipe_load_def elim: process_step.cases)
  qed
  then have "\<not> pool_step 1 3 cap bytes ?s t" for t
    by (auto simp: drains_def pool_at_def elim!: pool_step.cases)
  ultimately show ?thesis by (intro exI [of _ ?s]) (auto simp: pool_at_def)
qed

theorem large_error_hangs_witness:
  "\<exists>s. (pool_step 1 3 pool_pipe (\<lambda>r. if r = Timing then 100 else 100000))\<^sup>*\<^sup>* (new_pool 1 [[Batch (7 :: nat)]]) s
     \<and> ip_phase s = AwaitWriters"
  using large_error_hangs [of "\<lambda>r. if r = Timing then 100 else 100000" pool_pipe "py_exc PyRuntimeError []" "7 :: nat"]
  by (auto simp: pool_pipe_def)

text \<open>The event for an interrupt is never set: when the user interrupts an import, everything stops, and
  the command ends as after a complete import, whatever has not been read or written.\<close>

theorem interrupted_import_succeeds:
  "\<exists>s. (pool_step 1 3 cap bytes)\<^sup>*\<^sup>* (interrupt_import (new_pool 1 sources)) s
     \<and> ip_phase s = Done \<and> ip_written s = [] \<and> import_outcome False s = Inr ()"
proof -
  have s1: "pool_step 1 3 cap bytes
    (pool_at True sources [] [] Idle [] [] [] False False Starting)
    (pool_at True sources [] [] Idle [] [] [] False False AwaitReaders)"
    using pool_step.no_more_after_exit [of "pool_at True sources [] [] Idle [] [] [] False False Starting"] by (simp add: pool_at_def all_pipes)
  have s2: "pool_step 1 3 cap bytes
    (pool_at True sources [] [] Idle [] [] [] False False AwaitReaders)
    (pool_at True sources [] [] Idle [] [] [] False False (Stopping 1))"
    using pool_step.readers_done [of "pool_at True sources [] [] Idle [] [] [] False False AwaitReaders"] by (simp add: pool_at_def all_pipes)
  have s3: "pool_step 1 3 cap bytes
    (pool_at True sources [] [] Idle [] [] [] False False (Stopping 1))
    (pool_at True sources [] [] Idle [] [] [] False False (Stopping 0))"
    using pool_step.skip_stop [of "pool_at True sources [] [] Idle [] [] [] False False (Stopping 1)" 0] by (simp add: pool_at_def all_pipes)
  have s4: "pool_step 1 3 cap bytes
    (pool_at True sources [] [] Idle [] [] [] False False (Stopping 0))
    (pool_at True sources [] [] Idle [] [] [] False False AwaitWriters)"
    using pool_step.stops_put [of "pool_at True sources [] [] Idle [] [] [] False False (Stopping 0)"] by (simp add: pool_at_def all_pipes)
  have s5: "pool_step 1 3 cap bytes
    (pool_at True sources [] [] Idle [] [] [] False False AwaitWriters)
    (pool_at True sources [] [] Ended [] [] [] False False AwaitWriters)"
    by (rule writer_moves [OF _ process_step.stop_writing]) (simp_all add: pool_at_def)
  have s6: "pool_step 1 3 cap bytes
    (pool_at True sources [] [] Ended [] [] [] False False AwaitWriters)
    (pool_at True sources [] [] Ended [] [] [] False False Draining)"
    using pool_step.writers_done [of "pool_at True sources [] [] Ended [] [] [] False False AwaitWriters"] by (simp add: pool_at_def all_pipes)
  have s7: "pool_step 1 3 cap bytes
    (pool_at True sources [] [] Ended [] [] [] False False Draining)
    (pool_at True sources [] [] Ended [] [] [] False False Done)"
    using pool_step.all_drained [of "pool_at True sources [] [] Ended [] [] [] False False Draining"] by (simp add: pool_at_def all_pipes)
  have "(pool_step 1 3 cap bytes)\<^sup>*\<^sup>* (pool_at True sources [] [] Idle [] [] [] False False Starting) (pool_at True sources [] [] Ended [] [] [] False False Done)"
    using s1 s2 s3 s4 s5 s6 s7 by (meson converse_rtranclp_into_rtranclp rtranclp.rtrancl_refl)
  moreover have "interrupt_import (new_pool 1 sources) = pool_at True sources [] [] Idle [] [] [] False False Starting"
    unfolding new_pool_one by (simp add: interrupt_import_def pool_at_def)
  ultimately show ?thesis by (intro exI [of _ "pool_at True sources [] [] Ended [] [] [] False False Done"]) (simp add: pool_at_def import_outcome_def)
qed

end
