(* ===== verification/Spec2Isabelle.thy ===== *)
theory Spec2Isabelle
  imports GeventLife TwistedLife Retry IndexRebuild ExportClients Restore ImportIndexes ImportPool
begin

text \<open>
  The RethinkDB driver for Python (\<open>src/rethinkdb\<close>), modelled and verified.

  \<^bold>\<open>The program.\<close>  A query is built with methods and operators of objects (\<open>ast.py\<close>, \<open>query.py\<close>); it can
  be printed, which error messages use (\<open>errors.py\<close>).  \<open>net.py\<close> sends it: a \<open>Connection\<close> has a
  \<open>ConnectionInstance\<close>, which has a \<open>SocketWrapper\<close> and a cache of the cursors whose streams are not
  over; connecting runs the handshake of \<open>handshake.py\<close> (SCRAM over SHA-256).  A query becomes one
  frame: an eight-byte token, a four-byte length, JSON.  Responses come as such frames, each with
  the token of its query; one for a cursor goes into the cursor, whoever reads it.  \<open>asyncio_net\<close>,
  \<open>twisted_net\<close> and \<open>gevent_net\<close> have the same connection for an event loop.  The commands \<open>rethinkdb export\<close>
  (\<open>_export.py\<close>) and \<open>rethinkdb import\<close> (\<open>_import.py\<close>) use the driver through the queries of
  \<open>utils_common.py\<close>, which are tried again when a connection fails: export has a process per table that
  reads its rows into a queue and a writer that takes them off and writes the file; import parses the
  files of its sources in pieces into batches of rows, which go through a queue to writers that insert
  them, and last come the indexes of the table.  \<open>rethinkdb dump\<close> puts an export into an archive, \<open>rethinkdb
  restore\<close> imports one, and \<open>rethinkdb index-rebuild\<close> builds indexes anew, a number at a time.

  \<^bold>\<open>The theories.\<close>
  \<^item> \<open>Prelude\<close>: computations with state and exceptions (\<open>comp\<close>, \<open>bind\<close>, \<open>ret\<close>, \<open>raise\<close>), results
    (\<open>rbind\<close>, \<open>rmap\<close>, \<open>seqr\<close>), general lemmas.  \<open>Triples\<close>: pre- and postconditions of computations.
  \<^item> \<open>PyData\<close>: what Python has and the code uses: dictionaries in insertion order, \<open>repr\<close>, numbers as
    text, UTF-8, Latin-1, little-endian integers.  \<open>Json\<close>: the \<open>json\<close> module's writer and reader.
    \<open>Base64\<close>: the \<open>base64\<close> module.
  \<^item> \<open>Errors\<close>: \<open>errors.py\<close>, the exception classes with \<open>except\<close> matching, constructors, messages.
  \<^item> \<open>AstClasses\<close>, \<open>Terms\<close>: the term classes of \<open>ast.py\<close> as data and queries as trees over them.
    \<open>Build\<close>: the constructors, \<open>expr\<close>, \<open>func_wrap\<close>, lambdas.  \<open>Methods\<close>: every method, operator and
    top-level function (\<open>query.py\<close>) as data with the calls of them.  \<open>Printer\<close>: \<open>T\<close>,
    \<open>QueryPrinter\<close> and the \<open>compose\<close> methods.
  \<^item> \<open>Wire\<close>: \<open>build\<close>, \<open>ReQLEncoder\<close>, \<open>Query\<close>.  \<open>Response\<close>: \<open>ReQLDecoder\<close>, \<open>RqlTzinfo\<close>, \<open>RqlBinary\<close>,
    \<open>Response\<close>.
  \<^item> \<open>Socket\<close>: \<open>recvall\<close>, \<open>sendall\<close>, \<open>close\<close> of \<open>SocketWrapper\<close>.  \<open>Digest\<close>, \<open>Handshake\<close>:
    \<open>handshake.py\<close>.  \<open>Connect\<close>: the constructor of \<open>SocketWrapper\<close>, which drives the handshake.
  \<^item> \<open>Connection\<close>: \<open>Cursor\<close>, \<open>DefaultCursor\<close>, \<open>ConnectionInstance\<close>, \<open>Connection\<close>,
    \<open>make_connection\<close>, \<open>Repl\<close>, \<open>run\<close>.  \<open>Tokens\<close>: the invariant of the stores.  \<open>Streams\<close>: cursors that
    deliver.  \<open>Closing\<close>: how connections end.
  \<^item> \<open>Asyncio\<close>: the driver of \<open>asyncio_net/net_asyncio.py\<close>, an instance with its reader, futures and
    cursors as a transition system of the event loop.  \<open>AsyncioLoop\<close>: its invariant and properties.
  \<^item> \<open>TwistedFrames\<close>, \<open>Twisted\<close>, \<open>TwistedLife\<close>: the driver of \<open>twisted_net/net_twisted.py\<close>: how its protocol
    splits what arrives into responses, its connection with queries, cursors and what waits for them
    as a machine of events, and its properties.
  \<^item> \<open>GeventSocket\<close>, \<open>Gevent\<close>, \<open>GeventLife\<close>: the driver of \<open>gevent_net/net_gevent.py\<close>: its version of the
    socket wrapper, against the one of \<open>net.py\<close>; an instance with its greenlets; what losing the
    connection and closing do.
  \<^item> \<open>SourceFile\<close>: \<open>SourceFile\<close> of \<open>_import.py\<close>.  \<open>JsonPrefix\<close>: what \<open>raw_decode\<close> does on a part of a document.
    \<open>JsonFile\<close>: \<open>JsonSourceFile\<close>, the reader of JSON in pieces.  \<open>Csv\<close>: the \<open>csv\<close> module's reader and
    writer.  \<open>CsvFile\<close>: \<open>CsvSourceFile\<close>.  \<open>JsonDumps\<close>: what \<open>dumps\<close> writes, read by parts.
    \<open>ExportFile\<close>: the writers of \<open>_export.py\<close> and their files read by import.
  \<^item> \<open>Retry\<close>: \<open>RetryQuery\<close> of \<open>utils_common.py\<close>.  \<open>TableWriter\<close>: \<open>read_to_queue\<close> and \<open>table_writer\<close> of
    \<open>_import.py\<close>.  \<open>ToolOptions\<close>: the checks of the options of the commands.  \<open>Sources\<close>:
    \<open>parse_sources\<close>, \<open>parse_info_file\<close>, \<open>setup_table\<close> and the checks of the tables to import to.
    \<open>ImportIndexes\<close>: \<open>restore_indexes\<close> and the end of an import.  \<open>ImportPool\<close>: the processes
    of \<open>import_tables\<close>, as a step relation.
  \<^item> \<open>ExportTable\<close>: \<open>export_table\<close> and the choice of tables of \<open>_export.py\<close>, \<open>check_minimum_version\<close>.
    \<open>ExportClients\<close>: the loop of \<open>run_clients\<close>.  \<open>Restore\<close>: the archives of \<open>_dump.py\<close> and \<open>_restore.py\<close>.
    \<open>IndexRebuild\<close>: \<open>_index_rebuild.py\<close>.

  \<^bold>\<open>How state corresponds.\<close>  A query object is a value of the datatype \<open>query\<close>: its class with what the
  class determines, its arguments and its optional arguments.  \<open>Func.nextVarId\<close> is the state of
  the computations that build queries.  A socket is the record \<open>sock\<close>: its fields are those of
  the object and a script of what the operating system will do at each call.  The handshake is
  the record \<open>hs\<close>.  The record \<open>net\<close> is a \<open>Connection\<close> and all it reaches: \<open>n_insts\<close> and \<open>n_cursors\<close> are
  stores of objects, referred to by index, so that a cursor is the same object for its user
  and for the cache \<open>in_cache\<close> of its instance; \<open>n_dials\<close> has the outcome of each attempt to
  connect.  The record \<open>aio\<close> is an \<open>asyncio\<close> instance with its connection: futures and cursors
  are stores too, the coroutines of queries that have been made and not yet awaited, the tasks and the calls of
  \<open>close\<close> that wait are lists, and \<open>a_reader\<close> is where
  \<open>_reader\<close> stands.  The record \<open>twisted\<close> is a connection of that driver with its protocol; the
  \<open>Deferred\<close> of a query and the ones a cursor gives its callers are in two stores, \<open>tx_defers\<close> and \<open>tx_items\<close>, and
  \<open>t_do\<close> is one event of the reactor or of the user.  The record \<open>gevent\<close> is a gevent instance with the results
  that callers wait for.  The records \<open>json_file\<close> and \<open>csv_file\<close> are the readers
  with their buffers, \<open>source\<close> is what a source object knows of its table, \<open>retry\<close> the connections
  of \<open>RetryQuery\<close>, \<open>writer\<close> the counters of a process that inserts, \<open>exporter\<close> the queue, counters and errors of one
  that exports a table, \<open>clients\<close> the lists of the loop over these, \<open>unzip\<close> the variables and files of an
  extraction, \<open>rebuilder\<close> the queries asked so far; \<open>pool\<close> is what an import has of readers and
  writers, with the queue between them, the pipes their errors, warnings and timings come back over, and the event to
  stop.  Elsewhere a queue between two processes is
  the list of what is put or taken.  A computation returns a value or stops: \<open>Raised\<close> an exception, or \<open>Blocked\<close>, when
  the script has nothing more and the call waits.

  \<^bold>\<open>What is shown.\<close>
  \<^item> Requests: the frame that is sent denotes the query, for a reader of the protocol; encoding
    fails only for values JSON does not have; queries built from well-formed parts are
    well-formed; lambdas bind fresh variables; the nesting limit of \<open>expr\<close>; \<open>func_wrap\<close>; slices.
  \<^item> Error messages: the carets under a query mark exactly the subterm of the backtrace, and are
    aligned with it; printing does not fail; what \<open>str\<close> of an error is; which exceptions an
    \<open>except\<close> clause catches; the class a response's error has.
  \<^item> Responses: decoding keeps plain data, binary data survives the round trip, keys of groups can
    be hashed, time zones.
  \<^item> The socket: exact reads however the stream is split, timeouts, prefixes when sending fails.
  \<^item> The handshake: it finishes only with a server that knows the password, always with one that
    plays its part, one state at a time; the digests of the file agree with the library's; it
    terminates over any socket; what failures to connect are reported as.
  \<^item> Connections: the token invariant under every operation; a cursor is a queue of the values
    to come (\<open>next_refines_queue\<close>, an abstract specification with a simulation), a query with a
    stream delivers all of it (\<open>stream_in_order\<close>); what closing, stray responses, a server that
    goes away and a failed attempt to connect do.
  \<^item> The \<open>asyncio\<close> driver, in every state the loop can reach: a caller waits only for a query whose
    response would be given to it, and who began to wait before the connection is closed has an outcome when it is
    (\<open>waits_end_with_connection\<close>); responses settle only their own query, a lost connection that is not being
    closed fails all that wait; a cancelled query closes the connection; a \<open>close\<close> after a
    loss, and a query made before a \<open>close\<close> and awaited after it, never return.
  \<^item> The driver for Twisted: responses do not depend on how the bytes are cut up
    (\<open>frames_in_any_chunks\<close>); a response settles the \<open>Deferred\<close> of its own query, which is never one that
    has been called; what never is settled when the connection
    is lost; what a fetch that timed out leaves behind.
  \<^item> The driver for gevent: its wrapper does what the one of \<open>net.py\<close> does (\<open>gevent_connects_alike\<close>), except with
    TLS and when closing fails; a lost connection that is not being closed fails all that wait, and a \<open>close\<close> that
    waits is not told; \<open>server\<close> is refused.
  \<^item> The commands: JSON and CSV files are read into their rows whatever the sizes of pieces, and what
    export writes is read by import as the rows (\<open>export_import_write\<close>, \<open>backup_round_trip\<close>: the
    whole path from table to table, with the archive between); what is inserted is counted; a query is tried again exactly after connection
    errors; plans of options are accepted only when they are consistent; every file of a
    directory is a source, ignored or reported; an export is of all rows, each once, although cursors
    fail; an import that ends without an error has written every batch once, however its processes take turns,
    and it ends unless a report is larger than its pipe while the writers are joined; an archive cannot write outside of its directory; indexes are imported with their
    functions, and rebuilt each once and never too many at a time.

  \<^bold>\<open>Interfaces.\<close>  \<open>frame_relation\<close> is a relation between states that composes, for operations that
  leave most of the state alone.  \<open>byte_reader\<close> is what the protocol needs of a reader of bytes, with \<open>recvall\<close> and gevent's
  \<open>recvall\<close> as its instances; \<open>dictionary\<close> the laws of Python's dictionaries; \<open>codec\<close> that a decoder undoes an
  encoder, with UTF-8, JSON, Base64 and the username escapes as instances; \<open>row_source\<close> is what the
  import needs of a reader of rows, with \<open>JsonSourceFile\<close> and \<open>CsvSourceFile\<close> as its instances.

  \<^bold>\<open>Bounds and fuel.\<close>  Loops over a socket take fuel.  \<open>read_string\<close> has one unit per byte that can
  arrive and the handshake loop five turns (\<open>handshake_terminates\<close>: more make no difference).
  \<open>read_loop\<close> and \<open>next_loop\<close> have two units more than bytes can arrive: a frame has twelve bytes or
  more, so a turn that reads consumes fuel's worth of bytes; a turn that reads nothing has kept
  bytes of a read that timed out, the case \<open>recvall_after_timeout\<close> is about.  Running out is
  \<open>Blocked\<close>.  The readers of the import have two units for each character of the file and one more (JSON; a turn
  consumes a character or reads a piece), or one for each line and one more (CSV).
  The loops of an export and of a rebuild have a unit for each row, failure or turn (\<open>export_completes\<close> and \<open>rebuild_ends\<close>
  say how many are enough).  The processes of an import are a step relation without fuel; \<open>import_bound\<close> is a number of
  steps that no run exceeds (\<open>import_ends\<close>).  The theorems that say that a call returns prove that it does not happen.  Lengths
  and tokens have the bounds of \<open>struct\<close> (\<open><QL\<close> and \<open><qL\<close>), and packing outside of them raises.

  \<^bold>\<open>Parameters.\<close>  The numbers of the protocol (\<open>ql2_pb2\<close>, generated) are the record \<open>proto\<close>; theorems
  name what they need of them (different numbers for different things).  SHA-256, HMAC and the random
  numbers of the nonce are parameters too, and so are, for the commands, what a server answers (\<open>ask\<close>,
  \<open>mk\<close>, \<open>probe\<close>, \<open>run\<close>, the records \<open>export_server\<close>, \<open>index_server\<close> and \<open>index_queries\<close>), what a read of a file gives (\<open>rd\<close>, any split into pieces that are not empty), how
  many bytes a pipe between processes holds and a report has (\<open>cap\<close>, \<open>bytes\<close>), the
  \<open>filesystem\<close> and the directory walk.

  \<^bold>\<open>Not modelled.\<close>  The other drivers for event loops (\<open>trio_net\<close>, \<open>tornado_net\<close>), how the
  drivers for \<open>asyncio\<close> and Twisted connect; of the commands: starting processes, signals, progress output, reading and
  writing the formats of archives, temporary directories;
  \<open>docs.py\<close> (text), \<open>logger.py\<close>, \<open>__init__.py\<close> (glue), the vendored host name check.  Of \<open>net.py\<close>: the
  printing of cursors, \<open>client_port\<close> and \<open>client_address\<close>, the \<open>url\<close> argument, encoder and decoder
  classes of the user, the options of the TLS context, deadlines as times (a timeout is an event of
  the script).  Python values other than the ones of \<open>pyval\<close> do not reach the constructors; floating
  point numbers are their text.
\<close>

subsection \<open>From an exported table to an imported one\<close>

text \<open>C10. The commands fit together: the file \<open>rethinkdb export\<close> writes for a table is read by
  \<open>rethinkdb import\<close> without an error into batches that are exactly the exported rows in order; a reader
  that is not interrupted puts all of them on the queue and counts them; and a writer that has taken
  them off the queue when it stops has counted as many rows as were exported.\<close>

theorem export_import_write:
  assumes "1 \<le> csize" "csize < maximum" "0 < n" "6 \<le> maximum"
    and "\<forall>r \<in> set rows. wf_json (JObj (keep_fields names r)) \<and> 2 * row_size (keep_fields names r) \<le> maximum"
  shows "\<exists>bs f. import_json exact csize maximum n (json_writer names ''json'' rows) = (bs, Exhausted, f)
     \<and> concat bs = map (\<lambda>r. JObj (keep_fields names r)) rows
     \<and> (\<forall>as. (\<forall>a \<in> set as. a \<noteq> ExitSet) \<longrightarrow> length bs \<le> count_list as Room
          \<longrightarrow> read_to_queue None bs Exhausted as = Some (bs, int (length rows), None))
     \<and> (\<forall>ask same replace tables (s :: 'w writer) s'.
          table_writer ask same replace tables (map (Work db table) bs @ [StopWork]) s = (Stopped, s')
          \<longrightarrow> tw_written s' (db, table) = tw_written s (db, table) + int (length rows))"
proof -
  let ?bs = "in_batches (nat n) (map (\<lambda>r. JObj (keep_fields names r)) rows)"
  obtain f where f: "import_json exact csize maximum n (json_writer names ''json'' rows) = (?bs, Exhausted, f)"
    using import_exported [OF assms, of "''json''"] by auto
  have c: "concat ?bs = map (\<lambda>r. JObj (keep_fields names r)) rows" by (rule in_batches_concat)
  have r: "read_to_queue None ?bs Exhausted as = Some (?bs, int (length rows), None)"
    if "\<forall>a \<in> set as. a \<noteq> ExitSet" "length ?bs \<le> count_list as Room" for as
    using reads_to_queue [OF that, of Exhausted] c by simp
  have w: "work_rows (map (Work db table) bs @ [StopWork]) (db, table) = int (length (concat bs))" for bs
    by (induction bs) simp_all
  have "tw_written s' (db, table) = tw_written s (db, table) + int (length rows)"
    if "table_writer ask same replace tables (map (Work db table) ?bs @ [StopWork]) s = (Stopped, s')"
    for ask same replace tables and s s' :: "'w writer"
    using writer_counts [OF that, of "(db, table)"] w c by simp
  then show ?thesis using f c r by blast
qed

theorem export_import_write_witness:
  "\<exists>bs f. import_json exact 4 64 2 (json_writer None ''json'' [[(''id'', JBool True)]]) = (bs, Exhausted, f)
     \<and> concat bs = map (\<lambda>r. JObj (keep_fields None r)) [[(''id'', JBool True)]]
     \<and> read_to_queue None bs Exhausted [QueueFull, Room] = Some (bs, int (length [[(''id'', JBool True)]]), None)"
proof -
  have "wf_json (JObj (keep_fields None [(''id'', JBool True)])) \<and> 2 * row_size (keep_fields None [(''id'', JBool True)]) \<le> 64"
    by (simp add: keep_fields_def row_size_def quote_dumps_def escape_ascii_def escape_char_def code_point_def)
  then obtain bs f where b: "import_json exact 4 64 2 (json_writer None ''json'' [[(''id'', JBool True)]]) = (bs, Exhausted, f)"
    "concat bs = map (\<lambda>r. JObj (keep_fields None r)) [[(''id'', JBool True)]]"
    "\<forall>as. (\<forall>a \<in> set as. a \<noteq> ExitSet) \<longrightarrow> length bs \<le> count_list as Room
       \<longrightarrow> read_to_queue None bs Exhausted as = Some (bs, int (length [[(''id'', JBool True)]]), None)"
    using export_import_write [of 4 64 2 "[[(''id'', JBool True)]]" None, where db = "''d''" and table = "''t''" and 'w = unit] by auto
  have e: "fst (import_json exact 4 64 2 (json_writer None ''json'' [[(''id'', JBool True)]])) = [[JObj [(''id'', JBool True)]]]"
    by code_simp
  then have "length bs = 1" using b(1) by simp
  then show ?thesis using b by (intro exI [of _ bs] exI [of _ f]) simp
qed

subsection \<open>From a table into an archive and back\<close>

text \<open>C3. A backup is complete: when \<open>rethinkdb export\<close> comes to the end of a table, whatever connections
  broke meanwhile, \<open>rethinkdb dump\<close> packs its file and \<open>rethinkdb restore\<close> unpacks it, the import
  of what is then in the directory gives the rows of the table, all of them, in order.\<close>

theorem backup_round_trip:
  assumes "serves es pk rows left" "has_key es pk" "xs_queue s = []" "xs_errors s = []" "xs_writer s = None"
    and "export_table fuel es ''json'' dir db table s = (Inr (Some ReadAll), s')"
    and "text = json_writer None ''json'' (taken (xs_queue s'))"
    and "no_links fs cwd" "plain (''rethinkdb_dump_'' @ stamp)"
    and "data_file (db, table @ ''.json'', text)" "data_file (db, table @ ''.info'', info)"
    and "1 \<le> csize" "csize < maximum" "0 < n" "6 \<le> maximum" "\<forall>r \<in> set rows. wf_json (JObj r) \<and> 2 * row_size r \<le> maximum"
  shows "\<exists>u t bs f. do_unzip fs cwd [] temp (map (dump_entry (''rethinkdb_dump_'' @ stamp))
         [(db, table @ ''.json'', text), (db, table @ ''.info'', info)]) None new_unzip = (Inr [], u)
     \<and> map_of (uz_files u) (path_join (path_join temp db) (table @ ''.json'')) = Some t
     \<and> import_json exact csize maximum n t = (bs, Exhausted, f) \<and> concat bs = map JObj rows"
proof -
  have "xs_queue s' = map Some rows @ [None]" using export_table_reads [OF assms(1-6)] by simp
  then have tx: "text = json_writer None ''json'' rows" using assms(7) by simp
  have k: "keep_fields None r = r" for r by (simp add: keep_fields_def)
  obtain f where f: "import_json exact csize maximum n text = (in_batches (nat n) (map JObj rows), Exhausted, f)"
    using import_exported [OF assms(12-15), of rows None "''json''"] assms(16) tx by (auto simp: k)
  have wanted: "wanted_file [] x" for x by (cases x) (simp add: wanted_file_def chosen_def)
  obtain u where u: "do_unzip fs cwd [] temp (map (dump_entry (''rethinkdb_dump_'' @ stamp))
         [(db, table @ ''.json'', text), (db, table @ ''.info'', info)]) None new_unzip = (Inr [], u)"
    "uz_files u = restored [] temp [(db, table @ ''.json'', text), (db, table @ ''.info'', info)]"
    using dump_unzipped [OF assms(8,9), of "[(db, table @ ''.json'', text), (db, table @ ''.info'', info)]" "[]" temp] assms(10,11) wanted
    by (auto simp: file_name_def)
  then have "map_of (uz_files u) (path_join (path_join temp db) (table @ ''.json'')) = Some text"
    by (simp add: restored_def wanted restored_path_def)
  then show ?thesis using u(1) f by (intro exI [of _ u] exI [of _ "text"] exI [of _ "in_batches (nat n) (map JObj rows)"] exI [of _ f]) (simp add: in_batches_concat)
qed

theorem backup_round_trip_witness:
  "\<exists>s' u t bs f. export_table 9 two_server ''json'' ''o'' ''d'' ''t'' (new_exporter (3, 0)) = (Inr (Some ReadAll), s')
     \<and> do_unzip flat_fs [] [] ''/tmp'' (map (dump_entry (''rethinkdb_dump_'' @ ''now''))
         [(''d'', ''t.json'', json_writer None ''json'' (taken (xs_queue s'))), (''d'', ''t.info'', ''{}'')]) None new_unzip = (Inr [], u)
     \<and> map_of (uz_files u) (path_join (path_join ''/tmp'' ''d'') ''t.json'') = Some t
     \<and> import_json exact 4 64 2 t = (bs, Exhausted, f) \<and> concat bs = map JObj two_rows"
proof -
  obtain s' where s': "export_table 9 two_server ''json'' ''o'' ''d'' ''t'' (new_exporter (3, 0)) = (Inr (Some ReadAll), s')"
    using export_table_ends [OF two_serves two_lets_read two_answers, of "''json''" "new_exporter (3, 0)" 9 "''o''" "''d''" "''t''"]
    by (auto simp: two_rows_def new_exporter_def)
  have d: "data_file (''d'', ''t'' @ ''.json'', x)" "data_file (''d'', ''t'' @ ''.info'', y)" for x y
    by (simp_all add: data_file_def plain_def splitext_def basename_def)
  have r: "\<forall>r \<in> set two_rows. wf_json (JObj r) \<and> 2 * row_size r \<le> 64" by code_simp
  show ?thesis
    using backup_round_trip [OF two_serves two_answers(2) _ _ _ s' refl flat_no_links _ d, where n = 2 and csize = 4 and maximum = 64
        and stamp = "''now''" and temp = "''/tmp''" and info = "''{}''"] r s'
    by (auto simp: new_exporter_def plain_def)
qed

end
